(* ===== verification/Prelude.thy ===== *)
theory Prelude
  imports Main "HOL-Library.Signed_Division" "HOL-Library.Multiset"
begin

section \<open>Shared vocabulary of the development\<close>

text \<open>
  This theory holds what every component of the model uses: Rust's fixed-width integers as
  HOL integers with their range written out, the checked and saturating operations on them,
  the outcome of a computation that may return an error or panic, key-value tables kept as
  association lists, and the two locales that several components share (a state machine with an
  invariant, and a code with a left inverse).

  Integers. A value of Rust type \<open>i64\<close> is an \<open>int\<close> that satisfies \<open>in_i64\<close>; a \<open>u64\<close> or
  \<open>usize\<close> is a \<open>nat\<close>. The \<open>checked_\<close> operations return \<open>None\<close> exactly when the mathematical
  result leaves the range. Plain arithmetic of the source panics on overflow in release builds
  (the workspace sets \<open>overflow-checks = true\<close> for the release profile), so where a plain
  operation can overflow the model returns \<open>Panic\<close>. Rust's \<open>/\<close> and \<open>%\<close> truncate towards
  zero: they are \<open>sdiv\<close> and \<open>smod\<close> of \<open>HOL-Library.Signed_Division\<close>.
\<close>

named_theorems range_simps \<open>unfolds the integer ranges and the checked operations\<close>
named_theorems model_defs \<open>unfolds the small accessors of a component\<close>

subsection \<open>Fixed-width integers\<close>

abbreviation i64_min :: int where "i64_min \<equiv> - 9223372036854775808"
abbreviation i64_max :: int where "i64_max \<equiv> 9223372036854775807"
abbreviation u64_max :: nat where "u64_max \<equiv> 18446744073709551615"

definition in_i64 :: "int \<Rightarrow> bool" where
  [range_simps]: "in_i64 x \<longleftrightarrow> i64_min \<le> x \<and> x \<le> i64_max"

definition fit_i64 :: "int \<Rightarrow> int option" where
  [range_simps]: "fit_i64 x = (if in_i64 x then Some x else None)"

definition checked_add :: "int \<Rightarrow> int \<Rightarrow> int option" where
  [range_simps]: "checked_add a b = fit_i64 (a + b)"

definition checked_sub :: "int \<Rightarrow> int \<Rightarrow> int option" where
  [range_simps]: "checked_sub a b = fit_i64 (a - b)"

definition checked_mul :: "int \<Rightarrow> int \<Rightarrow> int option" where
  [range_simps]: "checked_mul a b = fit_i64 (a * b)"

definition checked_div :: "int \<Rightarrow> int \<Rightarrow> int option" where
  [range_simps]: "checked_div a b = (if b = 0 then None else fit_i64 (a sdiv b))"

definition checked_neg :: "int \<Rightarrow> int option" where
  [range_simps]: "checked_neg a = fit_i64 (- a)"

definition checked_abs :: "int \<Rightarrow> int option" where
  [range_simps]: "checked_abs a = fit_i64 \<bar>a\<bar>"

definition saturating_add_i64 :: "int \<Rightarrow> int \<Rightarrow> int" where
  "saturating_add_i64 a b = max i64_min (min i64_max (a + b))"

definition saturating_add_u64 :: "nat \<Rightarrow> nat \<Rightarrow> nat" where
  "saturating_add_u64 a b = min u64_max (a + b)"

lemma fit_i64_Some [simp]: "fit_i64 x = Some y \<longleftrightarrow> in_i64 x \<and> y = x"
  by (auto simp: fit_i64_def)

lemma fit_i64_None [simp]: "fit_i64 x = None \<longleftrightarrow> \<not> in_i64 x"
  by (auto simp: fit_i64_def)

lemma in_i64_0 [simp]: "in_i64 0" and in_i64_1 [simp]: "in_i64 1"
  by (simp_all add: in_i64_def)

lemma in_i64_between: "in_i64 a \<Longrightarrow> in_i64 b \<Longrightarrow> a \<le> x \<Longrightarrow> x \<le> b \<Longrightarrow> in_i64 x"
  by (simp add: in_i64_def)

subsection \<open>Truncating division\<close>

lemma sdiv_nonneg: "0 \<le> a \<Longrightarrow> 0 < b \<Longrightarrow> a sdiv b = a div (b::int)"
  by (cases "a = 0") (simp_all add: signed_divide_int_def)

lemma smod_nonneg: "0 \<le> a \<Longrightarrow> 0 < b \<Longrightarrow> a smod b = a mod (b::int)"
  by (cases "a = 0") (simp_all add: signed_modulo_int_def)

lemma sdiv_minus: "(- a) sdiv b = - (a sdiv (b::int))"
  by (simp add: signed_divide_int_def)

lemma smod_minus: "(- a) smod b = - (a smod (b::int))"
  by (simp add: signed_modulo_int_def sdiv_minus)

lemma sdiv_smod_id: "(a sdiv b) * b + a smod b = (a::int)"
  by (rule signed_division_class.sdiv_mult_smod_eq)

lemma sdiv_mult_add:
  fixes q r d :: int
  assumes "0 < d" and "0 \<le> q" and "0 \<le> r"
  shows "(d * q + r) sdiv d = q + r sdiv d"
proof -
  have "0 \<le> d * q + r" using assms by simp
  then have "(d * q + r) sdiv d = (d * q + r) div d" using assms by (simp add: sdiv_nonneg)
  also have "\<dots> = q + r div d" using assms by simp
  finally show ?thesis using assms by (simp add: sdiv_nonneg)
qed

lemma sdiv_sign: "0 < d \<Longrightarrow> a sdiv d = (if a < 0 then - (\<bar>a\<bar> div d) else \<bar>a\<bar> div (d::int))"
  by (cases "a = 0") (simp_all add: signed_divide_int_def)

lemma smod_sign: "0 < d \<Longrightarrow> a smod d = (if a < 0 then - (\<bar>a\<bar> mod d) else \<bar>a\<bar> mod (d::int))"
  by (cases "a = 0") (simp_all add: signed_modulo_int_def)

lemma sdiv_abs: "0 < d \<Longrightarrow> \<bar>a sdiv d\<bar> = \<bar>a\<bar> div (d::int)"
  by (simp add: sdiv_sign pos_imp_zdiv_nonneg_iff)

lemma smod_abs: "0 < d \<Longrightarrow> \<bar>a smod d\<bar> = \<bar>a\<bar> mod (d::int)"
  by (simp add: smod_sign)

subsection \<open>Outcomes: results, errors and panics\<close>

text \<open>
  A function of the source that returns \<open>Result\<close> and may also panic (a failed \<open>assert!\<close>, a
  slice off a character boundary, an overflow) has three ways to end.
\<close>

datatype (dead 'e, 'a) outcome = Ok 'a | Err 'e | Panic

fun obind :: "('e, 'a) outcome \<Rightarrow> ('a \<Rightarrow> ('e, 'b) outcome) \<Rightarrow> ('e, 'b) outcome" where
  "obind (Ok x) f = f x"
| "obind (Err e) f = Err e"
| "obind Panic f = Panic"

lemma obind_Ok [simp]: "obind m f = Ok y \<longleftrightarrow> (\<exists>x. m = Ok x \<and> f x = Ok y)"
  by (cases m) auto

fun of_sum :: "'e + 'a \<Rightarrow> ('e, 'a) outcome" where
  "of_sum (Inl e) = Err e"
| "of_sum (Inr x) = Ok x"

lemma of_sum_Ok: "of_sum m = Ok x \<longleftrightarrow> m = Inr x"
  by (cases m) auto

definition ok_or :: "'a option \<Rightarrow> 'e \<Rightarrow> ('e, 'a) outcome" where
  "ok_or v e = (case v of None \<Rightarrow> Err e | Some x \<Rightarrow> Ok x)"

lemma ok_or_simps [simp]: "ok_or None e = Err e" "ok_or (Some x) e = Ok x"
  by (simp_all add: ok_or_def)

lemma ok_or_Ok [simp]: "ok_or v e = Ok x \<longleftrightarrow> v = Some x"
  by (simp add: ok_or_def split: option.splits)

text \<open>\<open>iter().map(f).collect::<Option<Vec<_>>>()\<close>: all results, or \<open>None\<close> at the first failure.\<close>

fun collect_opt :: "('a \<Rightarrow> 'b option) \<Rightarrow> 'a list \<Rightarrow> 'b list option" where
  "collect_opt f [] = Some []"
| "collect_opt f (x # xs) =
     (case f x of None \<Rightarrow> None
      | Some y \<Rightarrow> (case collect_opt f xs of None \<Rightarrow> None | Some ys \<Rightarrow> Some (y # ys)))"

lemma collect_opt_Some:
  "collect_opt f xs = Some ys \<longleftrightarrow> list_all2 (\<lambda>x y. f x = Some y) xs ys"
proof (induction xs arbitrary: ys)
  case Nil
  then show ?case by auto
next
  case (Cons x xs)
  show ?case
    by (cases ys; cases "f x"; cases "collect_opt f xs") (auto simp flip: Cons.IH)
qed

subsection \<open>Association lists\<close>

text \<open>
  A table keyed by \<open>'k\<close>, with the order in which its entries are visited. \<open>tab_update\<close> replaces
  the value of a key that is present and appends one that is not.
\<close>

fun tab_update :: "'k \<Rightarrow> 'v \<Rightarrow> ('k \<times> 'v) list \<Rightarrow> ('k \<times> 'v) list" where
  "tab_update k v [] = [(k, v)]"
| "tab_update k v ((k', v') # t) = (if k' = k then (k, v) # t else (k', v') # tab_update k v t)"

lemma map_of_tab_update [simp]: "map_of (tab_update k v t) = (map_of t)(k \<mapsto> v)"
  by (induction k v t rule: tab_update.induct) (simp_all add: fun_eq_iff)

lemma keys_tab_update [simp]: "fst ` set (tab_update k v t) = insert k (fst ` set t)"
  by (induction k v t rule: tab_update.induct) (simp_all add: insert_commute)

lemma distinct_tab_update [simp]:
  "distinct (map fst (tab_update k v t)) \<longleftrightarrow> distinct (map fst t)"
proof (induction t)
  case (Cons p t)
  obtain k' v' where p: "p = (k', v')" by (cases p)
  have "k' \<in> fst ` set (tab_update k v t) \<longleftrightarrow> k' = k \<or> k' \<in> fst ` set t" by simp
  then show ?case using Cons.IH p by auto
qed simp

lemma map_fst_tab_update:
  "k \<in> fst ` set t \<Longrightarrow> map fst (tab_update k v t) = map fst t"
  by (induction k v t rule: tab_update.induct) auto

lemma find_by_key:
  "distinct (map f xs) \<Longrightarrow> x \<in> set xs \<Longrightarrow> List.find (\<lambda>y. f y = f x) xs = Some x"
  by (induction xs) (auto simp: image_iff)

lemma filter_by_key:
  "distinct (map f xs) \<Longrightarrow> x \<in> set xs \<Longrightarrow> P x \<Longrightarrow> filter (\<lambda>y. f y = f x \<and> P y) xs = [x]"
  by (induction xs) (auto simp: filter_empty_conv image_iff)

lemma find_map_key:
  "(\<And>k. key (f k) = key k) \<Longrightarrow> List.find (\<lambda>k. key k = i) (map f ks) = map_option f (List.find (\<lambda>k. key k = i) ks)"
  by (induction ks) auto

lemma sum_list_sort_key: "sum_list (map f (sort_key k xs)) = sum_list (map (f :: 'b \<Rightarrow> int) xs)"
  by (metis mset_map mset_sort sum_mset_sum_list)

lemma find_append: "List.find P (xs @ ys) = (case List.find P xs of None \<Rightarrow> List.find P ys | Some x \<Rightarrow> Some x)"
  by (induction xs) simp_all

subsection \<open>State machines with an invariant\<close>

text \<open>
  A component that keeps state offers operations; each is a function of the state and of its
  arguments, here one event. The interface promises that the initial state satisfies the
  invariant and that every event keeps it; the client then has it after any run.
\<close>

fun run :: "('ev \<Rightarrow> 's \<Rightarrow> 's) \<Rightarrow> 'ev list \<Rightarrow> 's \<Rightarrow> 's" where
  "run step [] s = s"
| "run step (e # es) s = run step es (step e s)"

lemma run_append [simp]: "run step (xs @ ys) s = run step ys (run step xs s)"
  by (induction xs arbitrary: s) simp_all

locale machine =
  fixes start :: 's
    and step :: "'ev \<Rightarrow> 's \<Rightarrow> 's"
    and inv :: "'s \<Rightarrow> bool"
  assumes inv_start: "inv start"
    and inv_step: "inv s \<Longrightarrow> inv (step e s)"
begin

lemma inv_run_from: "inv s \<Longrightarrow> inv (run step es s)"
  by (induction es arbitrary: s) (simp_all add: inv_step)

lemma inv_run: "inv (run step es start)"
  by (rule inv_run_from) (rule inv_start)

end

text \<open>A machine with a quantity that no step lowers.\<close>

locale monotone_machine = machine +
  fixes level :: "'a \<Rightarrow> nat"
  assumes level_step: "inv s \<Longrightarrow> level s \<le> level (step e s)"
begin

lemma level_run_from: "inv s \<Longrightarrow> level s \<le> level (run step es s)"
proof (induction es arbitrary: s)
  case Nil
  then show ?case by simp
next
  case (Cons e es)
  have "level s \<le> level (step e s)" using Cons.prems by (rule level_step)
  also have "\<dots> \<le> level (run step es (step e s))" using Cons inv_step by blast
  finally show ?case by simp
qed

end

subsection \<open>Codes\<close>

text \<open>
  An encoder and a decoder such that decoding what was encoded gives the value back, on the
  values the encoder is meant for. Two encodings of different values then differ.
\<close>

locale code =
  fixes valid :: "'a \<Rightarrow> bool"
    and enc :: "'a \<Rightarrow> 'w"
    and dec :: "'w \<Rightarrow> 'a option"
  assumes dec_enc: "valid x \<Longrightarrow> dec (enc x) = Some x"
begin

lemma enc_inj: "valid x \<Longrightarrow> valid y \<Longrightarrow> enc x = enc y \<longleftrightarrow> x = y"
  by (metis dec_enc option.inject)

lemma enc_inj_on: "inj_on enc {x. valid x}"
  by (rule inj_onI) (simp add: enc_inj)

end

text \<open>A code that also rejects every word that is no encoding: names stored in a database column.\<close>

locale strict_code = code +
  assumes enc_dec: "dec w = Some x \<Longrightarrow> enc x = w"
begin

lemma dec_iff: "valid x \<Longrightarrow> dec w = Some x \<longleftrightarrow> w = enc x"
  using dec_enc enc_dec by auto

end

subsection \<open>Picking a best element\<close>

text \<open>
  The loop that walks a list and keeps the candidate that beats the one held so far. With a
  preference that is a strict order, total between elements of different identity, the result is
  the one element that beats all others, so the order of the list does not matter.
\<close>

fun pick_best :: "('a \<Rightarrow> 'a \<Rightarrow> bool) \<Rightarrow> 'a option \<Rightarrow> 'a list \<Rightarrow> 'a option" where
  "pick_best better b [] = b"
| "pick_best better None (x # xs) = pick_best better (Some x) xs"
| "pick_best better (Some b) (x # xs) = pick_best better (Some (if better x b then x else b)) xs"

locale preference =
  fixes better :: "'a \<Rightarrow> 'a \<Rightarrow> bool"
    and ident :: "'a \<Rightarrow> 'k"
  assumes better_irrefl: "\<not> better x x"
    and better_trans: "better x y \<Longrightarrow> better y z \<Longrightarrow> better x z"
    and better_total: "ident x \<noteq> ident y \<Longrightarrow> better x y \<or> better y x"
begin

lemma better_asym: "better x y \<Longrightarrow> \<not> better y x"
  using better_trans better_irrefl by blast

definition best_of :: "'a list \<Rightarrow> 'a \<Rightarrow> bool" where
  "best_of xs b \<longleftrightarrow> b \<in> set xs \<and> (\<forall>x \<in> set xs. x = b \<or> better b x)"

lemma best_of_unique: "best_of xs a \<Longrightarrow> best_of xs b \<Longrightarrow> a = b"
  unfolding best_of_def by (metis better_asym)

lemma pick_best_from:
  "distinct (map ident (b # xs)) \<Longrightarrow> \<exists>r. pick_best better (Some b) xs = Some r \<and> best_of (b # xs) r"
proof (induction xs arbitrary: b)
  case Nil
  then show ?case by (simp add: best_of_def)
next
  case (Cons x xs)
  let ?c = "if better x b then x else b"
  have "ident x \<noteq> ident b" using Cons.prems by auto
  then have beats: "y \<noteq> ?c \<Longrightarrow> y \<in> {x, b} \<Longrightarrow> better ?c y" for y
    using better_total [of x b] by auto
  have "distinct (map ident (?c # xs))" using Cons.prems by auto
  from Cons.IH [OF this] obtain r where
    r: "pick_best better (Some ?c) xs = Some r" "best_of (?c # xs) r" by blast
  have "best_of (b # x # xs) r"
    unfolding best_of_def
  proof (intro conjI ballI)
    show "r \<in> set (b # x # xs)" using r(2) by (auto simp: best_of_def split: if_splits)
    fix y assume y: "y \<in> set (b # x # xs)"
    show "y = r \<or> better r y"
    proof (cases "y \<in> set (?c # xs)")
      case True
      then show ?thesis using r(2) by (auto simp: best_of_def)
    next
      case False
      then have "better ?c y" using y beats by auto
      then show ?thesis using r(2) better_trans [of r ?c y] by (auto simp: best_of_def)
    qed
  qed
  then show ?case using r(1) by simp
qed

lemma pick_best_None: "pick_best better None xs = None \<longleftrightarrow> xs = []"
proof -
  have "pick_best better (Some b) ys \<noteq> None" for b ys
    by (induction ys arbitrary: b) simp_all
  then show ?thesis by (cases xs) auto
qed

lemma pick_best_Some:
  "distinct (map ident xs) \<Longrightarrow> pick_best better None xs = Some r \<longleftrightarrow> best_of xs r"
proof (cases xs)
  case (Cons x ys)
  assume "distinct (map ident xs)"
  then obtain s where "pick_best better (Some x) ys = Some s" "best_of (x # ys) s"
    using pick_best_from [of x ys] Cons by auto
  then show ?thesis using Cons best_of_unique by auto
qed (simp add: best_of_def)

lemma pick_best_perm:
  assumes "distinct (map ident xs)" and "mset xs = mset ys"
  shows "pick_best better None xs = pick_best better None ys"
proof -
  have d: "distinct (map ident ys)"
    using assms mset_eq_imp_distinct_iff [of "map ident xs" "map ident ys"] by simp
  have s: "set xs = set ys" using assms(2) by (rule mset_eq_setD)
  show ?thesis
  proof (cases "pick_best better None xs")
    case None
    then show ?thesis using s by (simp add: pick_best_None)
  next
    case (Some r)
    then have "best_of ys r" using pick_best_Some [OF assms(1)] s by (simp add: best_of_def)
    then have "pick_best better None ys = Some r" using pick_best_Some [OF d] by blast
    then show ?thesis using Some by simp
  qed
qed

end

end
