(* ===== verification/Rust_Strings.thy ===== *)
theory Rust_Strings
  imports Prelude
begin

section \<open>Strings of the source\<close>

text \<open>
  A Rust \<open>String\<close> or \<open>&str\<close> is a sequence of bytes in UTF-8. The model keeps the bytes: a value
  of type \<open>string\<close> has one \<open>char\<close> per byte, \<open>s.len()\<close> is \<open>length s\<close>, and \<open>s.chars()\<close> is
  \<open>chars s\<close>, which groups every leading byte with the continuation bytes after it. This
  theory models what the components use of the standard library: characters, byte slicing with
  its panic off a character boundary, trimming, splitting, and printing and parsing of numbers.
\<close>

abbreviation byte :: "char \<Rightarrow> nat" where "byte c \<equiv> of_char c"

subsection \<open>Characters and slices\<close>

definition is_cont :: "char \<Rightarrow> bool" where
  "is_cont c \<longleftrightarrow> 128 \<le> byte c \<and> byte c < 192"

definition is_ascii :: "char \<Rightarrow> bool" where
  "is_ascii c \<longleftrightarrow> byte c < 128"

definition ascii_str :: "string \<Rightarrow> bool" where
  "ascii_str s \<longleftrightarrow> list_all is_ascii s"

lemma ascii_str_simps [simp]:
  "ascii_str []" "ascii_str (c # s) \<longleftrightarrow> is_ascii c \<and> ascii_str s"
  "ascii_str (s @ t) \<longleftrightarrow> ascii_str s \<and> ascii_str t"
  by (auto simp: ascii_str_def)

lemma is_ascii_not_cont: "is_ascii c \<Longrightarrow> \<not> is_cont c"
  by (simp add: is_ascii_def is_cont_def)

text \<open>\<open>s.chars()\<close>, each character as the bytes that encode it.\<close>

function chars :: "string \<Rightarrow> string list" where
  "chars [] = []"
| "chars (c # cs) = (c # takeWhile is_cont cs) # chars (dropWhile is_cont cs)"
  by pat_completeness auto
termination
  by (relation "measure length") (auto simp: le_imp_less_Suc length_dropWhile_le)

lemma concat_chars [simp]: "concat (chars s) = s"
  by (induction s rule: chars.induct) simp_all

lemma chars_append_ascii:
  "ascii_str s \<Longrightarrow> t = [] \<or> \<not> is_cont (hd t) \<Longrightarrow> chars (s @ t) = map (\<lambda>c. [c]) s @ chars t"
proof (induction s)
  case (Cons c s)
  have "s @ t = [] \<or> \<not> is_cont (hd (s @ t))"
    using Cons.prems by (cases s) (auto simp: is_ascii_not_cont)
  then have "chars ((c # s) @ t) = [c] # chars (s @ t)" by (cases "s @ t") auto
  then show ?case using Cons by simp
qed simp

lemma chars_ascii: "ascii_str s \<Longrightarrow> chars s = map (\<lambda>c. [c]) s"
  using chars_append_ascii [of s "[]"] by simp

text \<open>Indexing a \<open>str\<close> by a byte range panics unless both ends are character boundaries.\<close>

definition char_boundary :: "string \<Rightarrow> nat \<Rightarrow> bool" where
  "char_boundary s i \<longleftrightarrow> i = 0 \<or> i = length s \<or> (i < length s \<and> \<not> is_cont (s ! i))"

definition slice_from :: "string \<Rightarrow> nat \<Rightarrow> ('e, string) outcome" where
  "slice_from s i = (if char_boundary s i then Ok (drop i s) else Panic)"

definition slice_to :: "string \<Rightarrow> nat \<Rightarrow> ('e, string) outcome" where
  "slice_to s i = (if char_boundary s i then Ok (take i s) else Panic)"

definition slice_range :: "string \<Rightarrow> nat \<Rightarrow> nat \<Rightarrow> ('e, string) outcome" where
  "slice_range s i j = (if i \<le> j \<and> char_boundary s i \<and> char_boundary s j
     then Ok (take (j - i) (drop i s)) else Panic)"

lemma ascii_char_boundary: "ascii_str s \<Longrightarrow> i \<le> length s \<Longrightarrow> char_boundary s i"
  by (auto simp: char_boundary_def ascii_str_def list_all_length is_ascii_not_cont)

subsection \<open>Validity of UTF-8\<close>

text \<open>\<open>std::str::from_utf8\<close>: no overlong form, no surrogate, nothing above U+10FFFF.\<close>

fun utf8_ok :: "nat list \<Rightarrow> bool" where
  "utf8_ok [] = True"
| "utf8_ok (a # r) =
     (if a < 128 then utf8_ok r
      else if 194 \<le> a \<and> a < 224 then
        (case r of b # r' \<Rightarrow> 128 \<le> b \<and> b < 192 \<and> utf8_ok r' | [] \<Rightarrow> False)
      else if 224 \<le> a \<and> a < 240 then
        (case r of b # c # r' \<Rightarrow>
            (if a = 224 then 160 else 128) \<le> b \<and> b < (if a = 237 then 160 else 192)
            \<and> 128 \<le> c \<and> c < 192 \<and> utf8_ok r'
         | _ \<Rightarrow> False)
      else if 240 \<le> a \<and> a < 245 then
        (case r of b # c # d # r' \<Rightarrow>
            (if a = 240 then 144 else 128) \<le> b \<and> b < (if a = 244 then 144 else 192)
            \<and> 128 \<le> c \<and> c < 192 \<and> 128 \<le> d \<and> d < 192 \<and> utf8_ok r'
         | _ \<Rightarrow> False)
      else False)"

definition from_utf8 :: "char list \<Rightarrow> string option" where
  "from_utf8 bs = (if utf8_ok (map of_char bs) then Some bs else None)"

lemma from_utf8_ascii: "ascii_str bs \<Longrightarrow> from_utf8 bs = Some bs"
proof -
  have "ascii_str bs \<Longrightarrow> utf8_ok (map of_char bs)"
    by (induction bs) (simp_all add: is_ascii_def)
  then show "ascii_str bs \<Longrightarrow> from_utf8 bs = Some bs" by (simp add: from_utf8_def)
qed

subsection \<open>Character classes and case\<close>

definition is_ascii_digit :: "char \<Rightarrow> bool" where
  "is_ascii_digit c \<longleftrightarrow> 48 \<le> byte c \<and> byte c \<le> 57"

definition is_ascii_upper :: "char \<Rightarrow> bool" where
  "is_ascii_upper c \<longleftrightarrow> 65 \<le> byte c \<and> byte c \<le> 90"

definition is_ascii_lower :: "char \<Rightarrow> bool" where
  "is_ascii_lower c \<longleftrightarrow> 97 \<le> byte c \<and> byte c \<le> 122"

definition is_ascii_alphabetic :: "char \<Rightarrow> bool" where
  "is_ascii_alphabetic c \<longleftrightarrow> is_ascii_upper c \<or> is_ascii_lower c"

definition to_ascii_uppercase :: "char \<Rightarrow> char" where
  "to_ascii_uppercase c = (if is_ascii_lower c then char_of (byte c - 32) else c)"

lemma to_ascii_uppercase_upper:
  "is_ascii_alphabetic c \<Longrightarrow> is_ascii_upper (to_ascii_uppercase c)"
  by (auto simp: to_ascii_uppercase_def is_ascii_alphabetic_def is_ascii_upper_def
      is_ascii_lower_def)

lemma to_ascii_uppercase_id: "\<not> is_ascii_lower c \<Longrightarrow> to_ascii_uppercase c = c"
  by (simp add: to_ascii_uppercase_def)

lemma to_ascii_uppercase_idem [simp]:
  "to_ascii_uppercase (to_ascii_uppercase c) = to_ascii_uppercase c"
  by (auto simp: to_ascii_uppercase_def is_ascii_lower_def)

lemma is_ascii_upper_ascii: "is_ascii_upper c \<Longrightarrow> is_ascii c"
  by (simp add: is_ascii_upper_def is_ascii_def)

text \<open>\<open>char::is_whitespace\<close>: the Unicode property White_Space, on the bytes of a character.\<close>

definition is_whitespace :: "string \<Rightarrow> bool" where
  "is_whitespace g =
     (case map of_char g :: nat list of
        [a] \<Rightarrow> (9 \<le> a \<and> a \<le> 13) \<or> a = 32
      | [a, b] \<Rightarrow> a = 194 \<and> (b = 133 \<or> b = 160)
      | [a, b, c] \<Rightarrow> (a = 225 \<and> b = 154 \<and> c = 128)
          \<or> (a = 226 \<and> b = 128 \<and> ((128 \<le> c \<and> c \<le> 138) \<or> c = 168 \<or> c = 169 \<or> c = 175))
          \<or> (a = 226 \<and> b = 129 \<and> c = 159)
          \<or> (a = 227 \<and> b = 128 \<and> c = 128)
      | _ \<Rightarrow> False)"

definition trim :: "string \<Rightarrow> string" where
  "trim s = concat (rev (dropWhile is_whitespace (rev (dropWhile is_whitespace (chars s)))))"

subsection \<open>Numbers in decimal and hexadecimal\<close>

definition digit_char :: "nat \<Rightarrow> char" where
  "digit_char d = char_of (if d < 10 then 48 + d else 55 + d)"

text \<open>\<open>char::to_digit(radix)\<close>; letters of either case count.\<close>

definition digit_val :: "nat \<Rightarrow> char \<Rightarrow> nat option" where
  "digit_val radix c =
     (let n = byte c;
          d = (if 48 \<le> n \<and> n \<le> 57 then n - 48
               else if 65 \<le> n \<and> n \<le> 90 then n - 55
               else if 97 \<le> n \<and> n \<le> 122 then n - 87
               else radix)
      in if d < radix then Some d else None)"

lemma digit_val_char [simp]: "d < 10 \<Longrightarrow> digit_val 10 (digit_char d) = Some d"
  by (simp add: digit_val_def digit_char_def)

lemma digit_val_char_hex [simp]: "d < 16 \<Longrightarrow> digit_val 16 (digit_char d) = Some d"
  by (auto simp: digit_val_def digit_char_def)

lemma digit_char_digit: "d < 10 \<Longrightarrow> is_ascii_digit (digit_char d)"
  by (simp add: is_ascii_digit_def digit_char_def)

lemma digit_char_ascii: "d < 16 \<Longrightarrow> is_ascii (digit_char d)"
  by (simp add: is_ascii_def digit_char_def)

fun show_nat :: "nat \<Rightarrow> string" where
  "show_nat n = (if n < 10 then [digit_char n] else show_nat (n div 10) @ [digit_char (n mod 10)])"

declare show_nat.simps [simp del]

text \<open>\<open>i64::to_string\<close>.\<close>

definition show_int :: "int \<Rightarrow> string" where
  "show_int i = (if i < 0 then CHR ''-'' # show_nat (nat (- i)) else show_nat (nat i))"

text \<open>\<open>{:0width$}\<close>: at least \<open>width\<close> characters, zeros on the left.\<close>

definition zero_pad :: "nat \<Rightarrow> string \<Rightarrow> string" where
  "zero_pad w s = replicate (w - length s) CHR ''0'' @ s"

fun digits_val :: "nat \<Rightarrow> nat \<Rightarrow> string \<Rightarrow> nat option" where
  "digits_val radix acc [] = Some acc"
| "digits_val radix acc (c # cs) =
     (case digit_val radix c of None \<Rightarrow> None | Some d \<Rightarrow> digits_val radix (radix * acc + d) cs)"

text \<open>
  \<open>uN::from_str_radix\<close>: a leading \<open>+\<close> is accepted, the empty string and a sign alone are
  refused, and so is a value above the type's maximum.
\<close>

definition parse_unsigned :: "nat \<Rightarrow> nat \<Rightarrow> string \<Rightarrow> nat option" where
  "parse_unsigned radix maxv s =
     (case s of
        [] \<Rightarrow> None
      | c # cs \<Rightarrow>
          (case digits_val radix 0 (if c = CHR ''+'' \<and> cs \<noteq> [] then cs else s) of
             None \<Rightarrow> None
           | Some n \<Rightarrow> if n \<le> maxv then Some n else None))"

text \<open>\<open>i64::from_str\<close>: as above, and a leading \<open>-\<close> negates.\<close>

definition parse_i64 :: "string \<Rightarrow> int option" where
  "parse_i64 s =
     (case s of
        [] \<Rightarrow> None
      | c # cs \<Rightarrow>
          if c = CHR ''-'' \<and> cs \<noteq> []
          then (case digits_val 10 0 cs of None \<Rightarrow> None | Some n \<Rightarrow> fit_i64 (- int n))
          else (case digits_val 10 0 (if c = CHR ''+'' \<and> cs \<noteq> [] then cs else s) of
                  None \<Rightarrow> None
                | Some n \<Rightarrow> fit_i64 (int n)))"

lemma digits_val_append:
  "digits_val r a (s @ t) =
     (case digits_val r a s of None \<Rightarrow> None | Some b \<Rightarrow> digits_val r b t)"
  by (induction r a s rule: digits_val.induct) (auto split: option.splits)

lemma show_nat_digits: "c \<in> set (show_nat n) \<Longrightarrow> is_ascii_digit c"
proof (induction n rule: show_nat.induct)
  case (1 n)
  then show ?case
    by (cases "n < 10") (auto simp: show_nat.simps [of n] digit_char_digit)
qed

lemma show_nat_nonempty [simp]: "show_nat n \<noteq> []"
  by (subst show_nat.simps) simp

lemma is_ascii_digit_ascii: "is_ascii_digit c \<Longrightarrow> is_ascii c"
  by (simp add: is_ascii_digit_def is_ascii_def)

lemma show_nat_ascii [simp]: "ascii_str (show_nat n)"
  by (auto simp: ascii_str_def list_all_iff is_ascii_digit_ascii dest: show_nat_digits)

lemma digits_val_show_nat: "digits_val 10 a (show_nat n) = Some (10 ^ length (show_nat n) * a + n)"
proof (induction n arbitrary: a rule: show_nat.induct)
  case (1 n)
  show ?case
  proof (cases "n < 10")
    case True
    then show ?thesis by (subst (1 2) show_nat.simps) simp
  next
    case False
    then have "show_nat n = show_nat (n div 10) @ [digit_char (n mod 10)]"
      by (subst show_nat.simps) simp
    then show ?thesis using 1 False by (simp add: digits_val_append algebra_simps)
  qed
qed

lemma digits_val_zeros [simp]: "digits_val 10 0 (replicate k CHR ''0'' @ s) = digits_val 10 0 s"
  by (induction k) (simp_all add: digit_val_def)

lemma digits_val_zero_pad: "digits_val 10 0 (zero_pad w (show_nat n)) = Some n"
  by (simp add: zero_pad_def digits_val_show_nat)

lemma digit_not_sign: "is_ascii_digit c \<Longrightarrow> c \<noteq> CHR ''+'' \<and> c \<noteq> CHR ''-'' \<and> c \<noteq> CHR ''.''"
  by (auto simp: is_ascii_digit_def)

lemma zero_pad_digits:
  "list_all is_ascii_digit s \<Longrightarrow> list_all is_ascii_digit (zero_pad w s)"
  by (auto simp: zero_pad_def list_all_iff is_ascii_digit_def)

lemma show_nat_all_digits [simp]: "list_all is_ascii_digit (show_nat n)"
  by (auto simp: list_all_iff dest: show_nat_digits)

lemma parse_unsigned_digits:
  assumes "list_all is_ascii_digit s" and "s \<noteq> []" and "digits_val r 0 s = Some n" and "n \<le> m"
  shows "parse_unsigned r m s = Some n"
  using assms by (cases s) (auto simp: parse_unsigned_def dest: digit_not_sign)

lemma zero_pad_nonempty [simp]: "zero_pad w (show_nat n) \<noteq> []"
  by (simp add: zero_pad_def)

lemma parse_show_nat: "n \<le> m \<Longrightarrow> parse_unsigned 10 m (zero_pad w (show_nat n)) = Some n"
  by (rule parse_unsigned_digits) (simp_all add: zero_pad_digits digits_val_zero_pad)

lemma parse_show_int: "in_i64 i \<Longrightarrow> parse_i64 (show_int i) = Some i"
proof -
  assume i: "in_i64 i"
  obtain c cs where s: "show_nat (nat \<bar>i\<bar>) = c # cs" by (cases "show_nat (nat \<bar>i\<bar>)") auto
  then have c: "is_ascii_digit c" by (metis list.set_intros(1) show_nat_digits)
  have v: "digits_val 10 0 (c # cs) = Some (nat \<bar>i\<bar>)"
    using digits_val_show_nat [of 0 "nat \<bar>i\<bar>"] s by simp
  show ?thesis
  proof (cases "i < 0")
    case True
    then have "show_int i = CHR ''-'' # c # cs" using s by (simp add: show_int_def)
    then show ?thesis using v i True by (simp add: parse_i64_def fit_i64_def)
  next
    case False
    then have "show_int i = c # cs" using s by (simp add: show_int_def)
    then show ?thesis using v i False digit_not_sign [OF c] by (simp add: parse_i64_def fit_i64_def)
  qed
qed

text \<open>
  Printing and parsing are the two halves of a code, for the signed and for the padded unsigned
  format.
\<close>

interpretation i64_text: code in_i64 show_int parse_i64
  by unfold_locales (rule parse_show_int)

interpretation u64_text: code "\<lambda>n. n \<le> u64_max" "\<lambda>n. zero_pad w (show_nat n)" "parse_unsigned 10 u64_max"
  for w by unfold_locales (rule parse_show_nat)

lemma length_zero_pad [simp]: "length (zero_pad w s) = max w (length s)"
  by (simp add: zero_pad_def)

lemma length_show_nat: "n < 10 ^ Suc k \<Longrightarrow> length (show_nat n) \<le> Suc k"
proof (induction k arbitrary: n)
  case 0
  then show ?case by (simp add: show_nat.simps [of n])
next
  case (Suc k)
  have "n div 10 < 10 ^ Suc k" using Suc.prems by (simp add: less_mult_imp_div_less mult.commute)
  then show ?case using Suc.IH [of "n div 10"] by (simp add: show_nat.simps [of n])
qed

subsection \<open>Prefixes and splitting\<close>

definition starts_with :: "string \<Rightarrow> string \<Rightarrow> bool" where
  "starts_with s p \<longleftrightarrow> take (length p) s = p"

lemma starts_with_append [simp]: "starts_with (p @ s) p"
  by (simp add: starts_with_def)

text \<open>\<open>s.split(c)\<close> for a one-byte separator: always at least one piece.\<close>

fun split_on :: "char \<Rightarrow> string \<Rightarrow> string list" where
  "split_on c [] = [[]]"
| "split_on c (x # xs) =
     (if x = c then [] # split_on c xs
      else (case split_on c xs of [] \<Rightarrow> [[x]] | p # ps \<Rightarrow> (x # p) # ps))"

lemma split_on_nonempty [simp]: "split_on c s \<noteq> []"
  by (cases s) (auto split: list.splits)

lemma split_on_absent: "c \<notin> set s \<Longrightarrow> split_on c s = [s]"
  by (induction s) auto

lemma split_on_append: "c \<notin> set s \<Longrightarrow> split_on c (s @ c # t) = s # split_on c t"
  by (induction s) auto

end
