(* ===== verification/Money.thy ===== *)
theory Money
  imports Rust_Strings
begin

section \<open>Money and percentages\<close>

text \<open>
  Models \<open>foundation/src/money.rs\<close> and \<open>foundation/src/percentage.rs\<close>: an amount is an integer
  number of minor units with the three bytes of its currency code, and arithmetic on two amounts
  is defined only within one currency and within \<open>i64\<close>. A percentage is a number from 0 to 100.
\<close>

subsection \<open>Currencies\<close>

datatype currency = Currency char char char

fun currency_bytes :: "currency \<Rightarrow> char list" where
  "currency_bytes (Currency a b c) = [a, b, c]"

definition minor_unit_exponent :: "currency \<Rightarrow> nat" where
  "minor_unit_exponent c =
     (if currency_bytes c \<in> {''IDR'', ''JPY'', ''KRW'', ''VND'', ''CLP'', ''ISK'', ''HUF''} then 0
      else if currency_bytes c \<in> {''KWD'', ''OMR'', ''BHD'', ''JOD'', ''TND''} then 3
      else 2)"

lemma minor_unit_exponent_cases: "minor_unit_exponent c \<in> {0, 2, 3}"
  by (simp add: minor_unit_exponent_def)

definition currency_to_string :: "currency \<Rightarrow> string" where
  "currency_to_string c = (case from_utf8 (currency_bytes c) of Some s \<Rightarrow> s | None \<Rightarrow> ''???'')"

datatype invalid_currency_code = InvalidCurrencyCode

definition currency_from_str :: "string \<Rightarrow> invalid_currency_code + currency" where
  "currency_from_str s =
     (if length s \<noteq> 3 \<or> \<not> list_all is_ascii_alphabetic s then Inl InvalidCurrencyCode
      else (case map to_ascii_uppercase s of
              [a, b, c] \<Rightarrow> Inr (Currency a b c)
            | _ \<Rightarrow> Inl InvalidCurrencyCode))"

text \<open>The codes \<open>FromStr\<close> produces: three upper-case letters.\<close>

definition currency_ok :: "currency \<Rightarrow> bool" where
  "currency_ok c \<longleftrightarrow> list_all is_ascii_upper (currency_bytes c)"

lemma currency_from_str_Inr:
  "currency_from_str s = Inr c \<longleftrightarrow>
     length s = 3 \<and> list_all is_ascii_alphabetic s \<and> currency_bytes c = map to_ascii_uppercase s"
proof (cases "length s = 3")
  case True
  then obtain x y z where "s = [x, y, z]" by (auto simp: length_Suc_conv numeral_3_eq_3)
  then show ?thesis by (cases c) (auto simp: currency_from_str_def)
qed (simp add: currency_from_str_def)

lemma currency_bytes_inject [simp]: "currency_bytes a = currency_bytes b \<longleftrightarrow> a = b"
  by (cases a; cases b) simp

lemma currency_from_str_ok: "currency_from_str s = Inr c \<Longrightarrow> currency_ok c"
  by (auto simp: currency_from_str_Inr currency_ok_def list_all_iff to_ascii_uppercase_upper)

lemma currency_to_string_ok: "currency_ok c \<Longrightarrow> currency_to_string c = currency_bytes c"
proof -
  assume "currency_ok c"
  then have "ascii_str (currency_bytes c)"
    by (auto simp: currency_ok_def ascii_str_def list_all_iff is_ascii_upper_ascii)
  then show ?thesis by (simp add: currency_to_string_def from_utf8_ascii)
qed

lemma currency_roundtrip: "currency_ok c \<Longrightarrow> currency_from_str (currency_to_string c) = Inr c"
proof -
  assume ok: "currency_ok c"
  then have "map to_ascii_uppercase (currency_bytes c) = currency_bytes c"
    by (cases c) (auto simp: currency_ok_def is_ascii_upper_def is_ascii_lower_def
        intro!: to_ascii_uppercase_id)
  moreover have "length (currency_bytes c) = 3" by (cases c) simp
  moreover have "list_all is_ascii_alphabetic (currency_bytes c)"
    using ok by (auto simp: currency_ok_def list_all_iff is_ascii_alphabetic_def)
  ultimately show ?thesis using ok by (simp add: currency_to_string_ok currency_from_str_Inr)
qed

interpretation currency_text:
  code currency_ok currency_to_string "\<lambda>s. case currency_from_str s of Inr c \<Rightarrow> Some c | Inl _ \<Rightarrow> None"
  by unfold_locales (simp add: currency_roundtrip)

subsection \<open>Amounts\<close>

record money =
  minor_units :: int
  currency :: currency

definition mk_money :: "int \<Rightarrow> currency \<Rightarrow> money" where
  [model_defs]: "mk_money n c = \<lparr>minor_units = n, currency = c\<rparr>"

lemma money_simps [simp]: "minor_units (mk_money n c) = n" "currency (mk_money n c) = c"
  by (simp_all add: mk_money_def)

lemma money_eq_iff: "m = mk_money n c \<longleftrightarrow> minor_units m = n \<and> currency m = c"
  by (auto simp: mk_money_def)

lemma money_inject [simp]: "mk_money n c = mk_money n' c' \<longleftrightarrow> n = n' \<and> c = c'"
  by (simp add: mk_money_def)

lemma money_collapse [simp]: "mk_money (minor_units m) (currency m) = m"
  by (simp add: mk_money_def)

definition money_default :: money where
  "money_default = mk_money 0 (Currency CHR ''U'' CHR ''S'' CHR ''D'')"

definition money_zero :: "currency \<Rightarrow> money" where
  [simp]: "money_zero c = mk_money 0 c"

definition from_major :: "int \<Rightarrow> currency \<Rightarrow> money option" where
  "from_major major c =
     map_option (\<lambda>v. mk_money v c) (checked_mul major (10 ^ minor_unit_exponent c))"

definition money_add :: "money \<Rightarrow> money \<Rightarrow> money option" where
  "money_add a b =
     (if currency a \<noteq> currency b then None
      else map_option (\<lambda>v. mk_money v (currency a)) (checked_add (minor_units a) (minor_units b)))"

definition money_sub :: "money \<Rightarrow> money \<Rightarrow> money option" where
  "money_sub a b =
     (if currency a \<noteq> currency b then None
      else map_option (\<lambda>v. mk_money v (currency a)) (checked_sub (minor_units a) (minor_units b)))"

definition money_min :: "money \<Rightarrow> money \<Rightarrow> money option" where
  "money_min a b =
     (if currency a \<noteq> currency b then None
      else Some (if minor_units a \<le> minor_units b then a else b))"

definition money_mul :: "money \<Rightarrow> int \<Rightarrow> money option" where
  "money_mul a k = map_option (\<lambda>v. mk_money v (currency a)) (checked_mul (minor_units a) k)"

definition money_div :: "money \<Rightarrow> int \<Rightarrow> money option" where
  "money_div a k = map_option (\<lambda>v. mk_money v (currency a)) (checked_div (minor_units a) k)"

definition checked_negate :: "money \<Rightarrow> money option" where
  "checked_negate a = map_option (\<lambda>v. mk_money v (currency a)) (checked_neg (minor_units a))"

definition money_checked_abs :: "money \<Rightarrow> money option" where
  "money_checked_abs a = map_option (\<lambda>v. mk_money v (currency a)) (checked_abs (minor_units a))"

text \<open>The plain \<open>-\<close> and \<open>i64::abs\<close> panic on \<open>i64::MIN\<close> in release builds.\<close>

definition negate :: "money \<Rightarrow> (unit, money) outcome" where
  "negate a = (case checked_neg (minor_units a) of
     None \<Rightarrow> Panic | Some v \<Rightarrow> Ok (mk_money v (currency a)))"

definition money_abs :: "money \<Rightarrow> (unit, money) outcome" where
  "money_abs a = (case checked_abs (minor_units a) of
     None \<Rightarrow> Panic | Some v \<Rightarrow> Ok (mk_money v (currency a)))"

definition is_zero :: "money \<Rightarrow> bool" where
  "is_zero a \<longleftrightarrow> minor_units a = 0"

datatype ordering = Less | Equal | Greater

definition cmp_int :: "int \<Rightarrow> int \<Rightarrow> ordering" where
  "cmp_int a b = (if a < b then Less else if a = b then Equal else Greater)"

definition money_partial_cmp :: "money \<Rightarrow> money \<Rightarrow> ordering option" where
  "money_partial_cmp a b =
     (if currency a \<noteq> currency b then None else Some (cmp_int (minor_units a) (minor_units b)))"

lemma money_add_Some:
  "money_add a b = Some m \<longleftrightarrow> currency a = currency b \<and> in_i64 (minor_units a + minor_units b)
     \<and> m = mk_money (minor_units a + minor_units b) (currency a)"
  by (auto simp: money_add_def checked_add_def)

lemma money_sub_Some:
  "money_sub a b = Some m \<longleftrightarrow> currency a = currency b \<and> in_i64 (minor_units a - minor_units b)
     \<and> m = mk_money (minor_units a - minor_units b) (currency a)"
  by (auto simp: money_sub_def checked_sub_def)

lemma money_mul_Some:
  "money_mul a k = Some m \<longleftrightarrow> in_i64 (minor_units a * k) \<and> m = mk_money (minor_units a * k) (currency a)"
  by (auto simp: money_mul_def checked_mul_def)

lemma money_min_Some:
  "money_min a b = Some m \<longleftrightarrow> currency a = currency b
     \<and> m = mk_money (min (minor_units a) (minor_units b)) (currency a)"
  by (auto simp: money_min_def min_def mk_money_def)

lemmas money_ops_Some = money_add_Some money_sub_Some money_mul_Some money_min_Some

subsection \<open>Decimal rendering\<close>

definition format_minor :: "int \<Rightarrow> currency \<Rightarrow> string" where
  "format_minor minor c =
     (let e = minor_unit_exponent c in
      if e = 0 then show_int minor
      else (let d = 10 ^ e;
                major = minor sdiv d;
                frac = nat \<bar>minor smod d\<bar>;
                sign = (if minor < 0 \<and> major = 0 then ''-'' else [])
            in sign @ show_int major @ ''.'' @ zero_pad e (show_nat frac)))"

text \<open>
  The reading of a rendered amount: an optional minus sign, decimal digits, and for a currency
  with minor units a point and as many digits as its exponent says.
\<close>

definition read_unsigned_minor :: "currency \<Rightarrow> string \<Rightarrow> nat option" where
  "read_unsigned_minor c s =
     (case split_on CHR ''.'' s of
        [i] \<Rightarrow> if minor_unit_exponent c = 0 then digits_val 10 0 i else None
      | [i, f] \<Rightarrow>
          if minor_unit_exponent c = 0 \<or> length f \<noteq> minor_unit_exponent c then None
          else (case (digits_val 10 0 i, digits_val 10 0 f) of
                  (Some a, Some b) \<Rightarrow> Some (a * 10 ^ minor_unit_exponent c + b)
                | _ \<Rightarrow> None)
      | _ \<Rightarrow> None)"

definition read_minor :: "currency \<Rightarrow> string \<Rightarrow> int option" where
  "read_minor c s =
     (case s of
        x # xs \<Rightarrow> if x = CHR ''-'' then map_option (\<lambda>n. - int n) (read_unsigned_minor c xs)
                   else map_option int (read_unsigned_minor c s)
      | [] \<Rightarrow> None)"

definition format_unsigned :: "nat \<Rightarrow> currency \<Rightarrow> string" where
  "format_unsigned n c =
     (let e = minor_unit_exponent c in
      if e = 0 then show_nat n
      else show_nat (n div 10 ^ e) @ ''.'' @ zero_pad e (show_nat (n mod 10 ^ e)))"

lemma format_minor_signed:
  "format_minor i c = (if i < 0 then ''-'' else []) @ format_unsigned (nat \<bar>i\<bar>) c"
proof -
  let ?d = "10 ^ minor_unit_exponent c :: int"
  have q: "i sdiv ?d = (if i < 0 then - (\<bar>i\<bar> div ?d) else \<bar>i\<bar> div ?d)"
    by (rule sdiv_sign) simp
  have r: "\<bar>i smod ?d\<bar> = \<bar>i\<bar> mod ?d" by (rule smod_abs) simp
  have pos: "0 \<le> \<bar>i\<bar> div ?d" by (simp add: pos_imp_zdiv_nonneg_iff)
  have "nat (\<bar>i\<bar> div ?d) = nat \<bar>i\<bar> div 10 ^ minor_unit_exponent c"
    "nat (\<bar>i\<bar> mod ?d) = nat \<bar>i\<bar> mod 10 ^ minor_unit_exponent c"
    by (simp_all add: nat_div_distrib nat_mod_distrib nat_power_eq)
  then show ?thesis using pos
    by (auto simp: format_minor_def format_unsigned_def Let_def q r show_int_def)
qed

lemma digits_no_point: "list_all is_ascii_digit s \<Longrightarrow> CHR ''.'' \<notin> set s"
  by (auto simp: list_all_iff is_ascii_digit_def)

lemma read_format_unsigned: "read_unsigned_minor c (format_unsigned n c) = Some n"
proof (cases "minor_unit_exponent c")
  case 0
  then show ?thesis
    by (simp add: read_unsigned_minor_def format_unsigned_def split_on_absent digits_no_point
        digits_val_show_nat)
next
  case (Suc k)
  define m where "m = n mod 10 ^ Suc k"
  have "m < 10 ^ Suc k" by (simp add: m_def)
  then have len: "length (show_nat m) \<le> Suc k" by (rule length_show_nat)
  have "CHR ''.'' \<notin> set (zero_pad (Suc k) (show_nat m))"
    by (simp add: digits_no_point zero_pad_digits)
  then have "split_on CHR ''.'' (format_unsigned n c)
      = [show_nat (n div 10 ^ Suc k), zero_pad (Suc k) (show_nat m)]"
    using Suc
    by (simp add: format_unsigned_def split_on_append split_on_absent digits_no_point m_def
        del: power_Suc)
  moreover have "n div 10 ^ Suc k * 10 ^ Suc k + m = n" by (simp only: m_def div_mult_mod_eq)
  ultimately show ?thesis using Suc len
    by (simp add: read_unsigned_minor_def digits_val_show_nat digits_val_zero_pad max_absorb1
        del: power_Suc)
qed

lemma format_unsigned_head: "\<exists>x xs. format_unsigned n c = x # xs \<and> x \<noteq> CHR ''-''"
proof -
  let ?h = "show_nat (if minor_unit_exponent c = 0 then n else n div 10 ^ minor_unit_exponent c)"
  obtain x xs where h: "?h = x # xs" by (cases ?h) auto
  then have "x \<noteq> CHR ''-''" by (metis digit_not_sign list.set_intros(1) show_nat_digits)
  then show ?thesis using h by (auto simp: format_unsigned_def Let_def split: if_splits)
qed

lemma read_format_minor: "read_minor c (format_minor i c) = Some i"
proof (cases "i < 0")
  case False
  then show ?thesis
    using format_unsigned_head [of "nat i" c] read_format_unsigned [of c "nat i"]
    by (auto simp: format_minor_signed read_minor_def)
qed (simp add: format_minor_signed read_minor_def read_format_unsigned)

text \<open>Rendering an amount and reading it back, for every currency.\<close>

interpretation minor_text: code "\<lambda>_. True" "\<lambda>i. format_minor i c" "read_minor c" for c
  by unfold_locales (rule read_format_minor)

subsection \<open>Percentages\<close>

datatype percentage = Percentage nat

definition percentage_new :: "nat \<Rightarrow> percentage option" where
  "percentage_new v = (if v \<le> 100 then Some (Percentage v) else None)"

fun pct_get :: "percentage \<Rightarrow> nat" where
  "pct_get (Percentage v) = v"

text \<open>
  The field is private and every constructor checks the range, so each percentage of the
  program satisfies \<open>pct_ok\<close>; for those the \<open>u8\<close> subtraction \<open>100 - self.0\<close> cannot overflow.
\<close>

definition pct_ok :: "percentage \<Rightarrow> bool" where
  "pct_ok p \<longleftrightarrow> pct_get p \<le> 100"

definition apply_to :: "percentage \<Rightarrow> money \<Rightarrow> money option" where
  "apply_to p m =
     (let x = minor_units m;
          k = int (pct_get p);
          q = x sdiv 100;
          r = x smod 100
      in Option.bind (checked_mul q k) (\<lambda>hi.
         Option.bind (checked_mul r k) (\<lambda>lo.
         Option.bind (checked_add hi (lo sdiv 100)) (\<lambda>v. Some (mk_money v (currency m))))))"

definition complement_apply_to :: "percentage \<Rightarrow> money \<Rightarrow> money option" where
  "complement_apply_to p m =
     (let x = minor_units m;
          k = 100 - int (pct_get p);
          q = x sdiv 100;
          r = x smod 100
      in Option.bind (checked_mul q k) (\<lambda>hi.
         Option.bind (checked_mul r k) (\<lambda>lo.
         Option.bind (checked_add hi (lo sdiv 100)) (\<lambda>v. Some (mk_money v (currency m))))))"

definition pct_zero :: percentage where "pct_zero = Percentage 0"
definition pct_hundred :: percentage where "pct_hundred = Percentage 100"

definition percentage_to_string :: "percentage \<Rightarrow> string" where
  "percentage_to_string p = show_nat (pct_get p) @ ''%''"

lemma pct_new_ok: "percentage_new v = Some p \<Longrightarrow> pct_ok p \<and> pct_get p = v"
  by (auto simp: percentage_new_def pct_ok_def split: if_splits)

lemma percent_decompose_nonneg:
  fixes x k :: int
  assumes "0 \<le> x" and "0 \<le> k"
  shows "(x sdiv 100) * k + ((x smod 100) * k) sdiv 100 = (x * k) sdiv 100"
proof -
  have "x * k = 100 * (x div 100 * k) + (x mod 100) * k"
    by (metis mult_div_mod_eq distrib_right mult.assoc)
  then show ?thesis using assms
    by (simp add: sdiv_nonneg smod_nonneg sdiv_mult_add pos_imp_zdiv_nonneg_iff)
qed

lemma percent_decompose:
  fixes x k :: int
  assumes "0 \<le> k"
  shows "(x sdiv 100) * k + ((x smod 100) * k) sdiv 100 = (x * k) sdiv 100"
proof (cases "0 \<le> x")
  case False
  have "(- x) * k = - (x * k)" by simp
  then show ?thesis
    using False percent_decompose_nonneg [of "- x" k] assms
    by (simp add: sdiv_minus smod_minus)
qed (simp add: percent_decompose_nonneg assms)

lemma percent_bound:
  fixes x k :: int
  assumes "0 \<le> k" and "k \<le> 100"
  shows "\<bar>(x * k) sdiv 100\<bar> \<le> \<bar>x\<bar>"
proof -
  have "\<bar>x * k\<bar> \<le> \<bar>x\<bar> * 100"
    using mult_left_mono [of k 100 "\<bar>x\<bar>"] assms by (simp add: abs_mult)
  then have "\<bar>x * k\<bar> div 100 \<le> \<bar>x\<bar>" by simp
  then show ?thesis by (simp add: sdiv_abs)
qed

lemma percent_nonneg: "0 \<le> k \<Longrightarrow> 0 \<le> x \<Longrightarrow> 0 \<le> (x * k) sdiv (100::int)"
  by (simp add: sdiv_nonneg pos_imp_zdiv_nonneg_iff)

lemma in_i64_percent:
  assumes "in_i64 x" and "0 \<le> k" and "k \<le> 100"
  shows "in_i64 ((x * k) sdiv 100)"
proof (cases "0 \<le> x")
  case True
  then have "0 \<le> (x * k) sdiv 100" using assms by (simp add: percent_nonneg)
  then show ?thesis using percent_bound [of k x] assms True by (simp add: in_i64_def)
next
  case False
  then have "x * k \<le> 0" using assms by (simp add: mult_nonpos_nonneg)
  then have "(x * k) sdiv 100 \<le> 0" by (simp add: sdiv_sign pos_imp_zdiv_nonneg_iff)
  then show ?thesis using percent_bound [of k x] assms False by (simp add: in_i64_def)
qed

lemma in_i64_percent_parts:
  assumes "in_i64 x" and "0 \<le> k" and "k \<le> 100"
  shows "in_i64 (x sdiv 100 * k)" and "in_i64 (x smod 100 * k)"
proof -
  have "\<bar>x sdiv 100 * k\<bar> \<le> (\<bar>x\<bar> div 100) * 100"
    using assms by (simp add: abs_mult sdiv_abs mult_mono)
  moreover have "\<bar>x\<bar> div 100 \<le> 92233720368547758" using assms(1) by (auto simp: in_i64_def)
  ultimately show "in_i64 (x sdiv 100 * k)" by (auto simp: in_i64_def)
  have "\<bar>x smod 100\<bar> \<le> 99" by (simp add: smod_abs)
  then have "\<bar>x smod 100 * k\<bar> \<le> 99 * 100"
    using assms mult_mono [of "\<bar>x smod 100\<bar>" 99 "\<bar>k\<bar>" 100] by (simp add: abs_mult)
  then show "in_i64 (x smod 100 * k)" by (auto simp: in_i64_def)
qed

lemma apply_to_exact:
  "in_i64 (minor_units m) \<Longrightarrow> pct_ok p \<Longrightarrow>
     apply_to p m = Some (mk_money ((minor_units m * int (pct_get p)) sdiv 100) (currency m))"
  by (simp add: apply_to_def Let_def checked_mul_def checked_add_def fit_i64_def
      in_i64_percent_parts in_i64_percent percent_decompose pct_ok_def)

lemma complement_exact:
  "in_i64 (minor_units m) \<Longrightarrow> pct_ok p \<Longrightarrow>
     complement_apply_to p m
       = Some (mk_money ((minor_units m * (100 - int (pct_get p))) sdiv 100) (currency m))"
  by (simp add: complement_apply_to_def Let_def checked_mul_def checked_add_def fit_i64_def
      in_i64_percent_parts in_i64_percent percent_decompose pct_ok_def)

subsection \<open>Properties\<close>

text \<open>
  \<open>Percentage::apply_to\<close> and \<open>complement_apply_to\<close> never fail on an \<open>i64\<close> amount, although
  the product of amount and percentage may not fit: their result is the truncated quotient of
  the full product by 100.
\<close>

theorem percentage_apply_exact:
  assumes "in_i64 (minor_units m)" and "percentage_new v = Some p"
  shows "apply_to p m = Some (mk_money ((minor_units m * int v) sdiv 100) (currency m))
    \<and> complement_apply_to p m
           = Some (mk_money ((minor_units m * (100 - int v)) sdiv 100) (currency m))"
  using assms pct_new_ok [of v p] by (simp_all add: apply_to_exact complement_exact)

theorem percentage_apply_exact_witness:
  "apply_to (Percentage 100) (mk_money i64_max (Currency CHR ''I'' CHR ''D'' CHR ''R''))
     = Some (mk_money i64_max (Currency CHR ''I'' CHR ''D'' CHR ''R''))"
  using percentage_apply_exact
    [of "mk_money i64_max (Currency CHR ''I'' CHR ''D'' CHR ''R'')" 100 "Percentage 100"]
  by (simp add: in_i64_def percentage_new_def sdiv_nonneg)

text \<open>
  The discount and the discounted amount of one percentage account for the whole amount up to
  one minor unit lost to truncation, towards zero on both sides, and never exceed it.
\<close>

theorem percentage_split:
  assumes "in_i64 (minor_units m)" and "percentage_new v = Some p"
  shows "\<exists>d r. apply_to p m = Some d \<and> complement_apply_to p m = Some r
    \<and> \<bar>minor_units m\<bar> - 1 \<le> \<bar>minor_units d\<bar> + \<bar>minor_units r\<bar>
    \<and> \<bar>minor_units d\<bar> + \<bar>minor_units r\<bar> \<le> \<bar>minor_units m\<bar>
    \<and> currency d = currency m \<and> currency r = currency m"
proof -
  let ?x = "\<bar>minor_units m\<bar>" and ?a = "\<bar>minor_units m\<bar> * int v"
  have v: "v \<le> 100" and p: "pct_ok p" "pct_get p = v"
    using assms(2) pct_new_ok [of v p] by (auto simp: percentage_new_def split: if_splits)
  have "?x * (100 - int v) = 100 * ?x - ?a" by (simp add: algebra_simps)
  then show ?thesis using assms v p
    by (simp add: apply_to_exact complement_exact sdiv_abs abs_mult) linarith
qed

theorem percentage_split_witness:
  "\<exists>d r. apply_to (Percentage 15) (mk_money (- 1999) (Currency CHR ''U'' CHR ''S'' CHR ''D'')) = Some d
    \<and> complement_apply_to (Percentage 15) (mk_money (- 1999) (Currency CHR ''U'' CHR ''S'' CHR ''D''))
        = Some r
    \<and> 1998 \<le> \<bar>minor_units d\<bar> + \<bar>minor_units r\<bar> \<and> \<bar>minor_units d\<bar> + \<bar>minor_units r\<bar> \<le> 1999"
  using percentage_split [of "mk_money (- 1999) (Currency CHR ''U'' CHR ''S'' CHR ''D'')" 15 "Percentage 15"]
  by (auto simp: in_i64_def percentage_new_def)

text \<open>
  \<open>format_minor\<close> loses nothing: two \<open>i64\<close> amounts of one currency with the same rendering
  are equal, the sign of an amount smaller than one major unit included, and the decimal reading
  of the rendering gives the amount back.
\<close>

theorem format_minor_lossless:
  "read_minor c (format_minor i c) = Some i
   \<and> (format_minor i c = format_minor j c \<longleftrightarrow> i = j)"
  using minor_text.enc_inj [of i c j] by (simp add: read_format_minor)

end
