(* ===== verification/Cart.thy ===== *)
theory Cart
  imports Money
begin

section \<open>The cart\<close>

text \<open>
  Models \<open>foundation/src/cart.rs\<close> and \<open>foundation/src/sku.rs\<close>: lines with an optional price
  override, a percentage discount and a fixed discount, and the totals. A fresh UUID is an
  argument of the operation that draws one. The \<open>debug_assert!\<close> lines are compiled out of
  release builds and are not modelled; \<open>assert!\<close> is \<open>Panic\<close>.
\<close>

subsection \<open>Lines\<close>

type_synonym sku = string
type_synonym uuid = string

definition sku_try_new :: "string \<Rightarrow> sku option" where
  "sku_try_new s = (let t = trim s in if t = [] then None else Some t)"

definition sku_new :: "string \<Rightarrow> (unit, sku) outcome" where
  "sku_new s = (let t = trim s in if t = [] then Panic else Ok t)"

definition normalize_course :: "string option \<Rightarrow> string option" where
  "normalize_course v =
     (case map_option trim v of
        None \<Rightarrow> None
      | Some c \<Rightarrow> if c = [] then None else if c = ''drinks'' then Some ''beverage'' else Some c)"

record cart_line =
  line_id :: uuid
  line_sku :: sku
  qty :: int
  unit_price :: money
  overridden_price :: "money option"
  course :: "string option"

definition cart_line_new :: "uuid \<Rightarrow> sku \<Rightarrow> int \<Rightarrow> money \<Rightarrow> (unit, cart_line) outcome" where
  "cart_line_new i s q p =
     (if q > 0
      then Ok \<lparr>line_id = i, line_sku = s, qty = q, unit_price = p, overridden_price = None,
               course = None\<rparr>
      else Panic)"

definition effective_price :: "cart_line \<Rightarrow> money" where
  "effective_price l = (case overridden_price l of Some p \<Rightarrow> p | None \<Rightarrow> unit_price l)"

definition line_total :: "cart_line \<Rightarrow> money option" where
  "line_total l = (if qty l \<le> 0 then None else money_mul (effective_price l) (qty l))"

datatype cart_error = CurrencyMismatch (mismatch_cart: string) (mismatch_line: string)
  | SkuNotInCart string

definition set_overridden_price :: "money \<Rightarrow> cart_line \<Rightarrow> cart_error + cart_line" where
  "set_overridden_price p l =
     (if currency p \<noteq> currency (unit_price l)
      then Inl (CurrencyMismatch (currency_to_string (currency (unit_price l)))
                                 (currency_to_string (currency p)))
      else Inr (l\<lparr>overridden_price := Some p\<rparr>))"

definition set_course :: "string option \<Rightarrow> cart_line \<Rightarrow> cart_line" where
  "set_course v l = l\<lparr>course := normalize_course v\<rparr>"

subsection \<open>Carts\<close>

record cart =
  cart_id :: uuid
  cart_currency :: currency
  cart_lines :: "cart_line list"
  discount_percent :: percentage
  discount_label :: "string option"
  fixed_discount_minor :: int

definition cart_new :: "uuid \<Rightarrow> currency \<Rightarrow> cart" where
  "cart_new i c = \<lparr>cart_id = i, cart_currency = c, cart_lines = [], discount_percent = pct_zero,
     discount_label = None, fixed_discount_minor = 0\<rparr>"

definition line_count :: "cart \<Rightarrow> nat" where
  [model_defs]: "line_count c = length (cart_lines c)"

definition set_discount :: "percentage \<Rightarrow> string option \<Rightarrow> cart \<Rightarrow> cart" where
  "set_discount p label c =
     c\<lparr>discount_percent := p, fixed_discount_minor := 0,
       discount_label := if pct_get p = 0 then None else label\<rparr>"

definition set_fixed_discount :: "int \<Rightarrow> string option \<Rightarrow> cart \<Rightarrow> cart" where
  "set_fixed_discount n label c =
     c\<lparr>fixed_discount_minor := max n 0,
       discount_label := if max n 0 = 0 then None else label\<rparr>"

definition currency_summary :: "currency \<Rightarrow> string" where
  "currency_summary c = (case from_utf8 (currency_bytes c) of Some s \<Rightarrow> s | None \<Rightarrow> ''???'')"

definition add_line :: "cart_line \<Rightarrow> cart \<Rightarrow> cart_error + (uuid \<times> cart)" where
  "add_line l c =
     (if currency (unit_price l) \<noteq> cart_currency c
      then Inl (CurrencyMismatch (currency_summary (cart_currency c))
                                 (currency_summary (currency (unit_price l))))
      else Inr (line_id l, c\<lparr>cart_lines := cart_lines c @ [l]\<rparr>))"

text \<open>
  \<open>remove_sku\<close> retains the other lines first and reports afterwards; when nothing matched the
  lines are unchanged, so the cart of the error case is the cart it was given.
\<close>

definition remove_sku :: "sku \<Rightarrow> cart \<Rightarrow> cart_error + (nat \<times> cart)" where
  "remove_sku s c =
     (let ls = filter (\<lambda>l. line_sku l \<noteq> s) (cart_lines c);
          removed = length (cart_lines c) - length ls
      in if removed = 0 then Inl (SkuNotInCart s) else Inr (removed, c\<lparr>cart_lines := ls\<rparr>))"

text \<open>The loop of \<open>total\<close> and of \<open>discount_amount\<close> over the lines.\<close>

fun add_lines :: "money \<Rightarrow> cart_line list \<Rightarrow> money option" where
  "add_lines acc [] = Some acc"
| "add_lines acc (l # ls) =
     Option.bind (line_total l) (\<lambda>t. Option.bind (money_add acc t) (\<lambda>a. add_lines a ls))"

definition cart_total :: "cart \<Rightarrow> money option" where
  "cart_total c =
     Option.bind (add_lines (money_zero (cart_currency c)) (cart_lines c)) (\<lambda>acc.
     Option.bind (if pct_get (discount_percent c) > 0
                  then complement_apply_to (discount_percent c) acc else Some acc) (\<lambda>acc.
     if fixed_discount_minor c > 0
     then Option.bind (money_min (mk_money (fixed_discount_minor c) (cart_currency c)) acc)
            (\<lambda>m. money_sub acc m)
     else Some acc))"

definition discount_amount :: "cart \<Rightarrow> money option" where
  "discount_amount c =
     Option.bind (add_lines (money_zero (cart_currency c)) (cart_lines c)) (\<lambda>subtotal.
     if pct_get (discount_percent c) = 0 \<and> fixed_discount_minor c = 0
     then Some (money_zero (cart_currency c))
     else
       Option.bind (if pct_get (discount_percent c) > 0
                    then complement_apply_to (discount_percent c) subtotal else Some subtotal)
         (\<lambda>discounted.
       Option.bind (money_min (mk_money (fixed_discount_minor c) (cart_currency c)) discounted)
         (\<lambda>capped.
       Option.bind (money_sub discounted capped) (\<lambda>after.
       money_sub subtotal after))))"

subsection \<open>The invariant\<close>

definition line_ok :: "currency \<Rightarrow> cart_line \<Rightarrow> bool" where
  "line_ok cur l \<longleftrightarrow> 0 < qty l \<and> currency (unit_price l) = cur
     \<and> (case overridden_price l of None \<Rightarrow> True | Some p \<Rightarrow> currency p = cur)"

definition cart_ok :: "cart \<Rightarrow> bool" where
  "cart_ok c \<longleftrightarrow> list_all (line_ok (cart_currency c)) (cart_lines c)
     \<and> pct_ok (discount_percent c) \<and> 0 \<le> fixed_discount_minor c"

lemma cart_new_ok: "cart_ok (cart_new i c)"
  by (simp add: cart_ok_def cart_new_def pct_zero_def pct_ok_def)

lemma set_discount_ok: "cart_ok c \<Longrightarrow> pct_ok p \<Longrightarrow> cart_ok (set_discount p l c)"
  by (simp add: cart_ok_def set_discount_def)

lemma set_fixed_discount_ok: "cart_ok c \<Longrightarrow> cart_ok (set_fixed_discount n l c)"
  by (simp add: cart_ok_def set_fixed_discount_def)

lemma cart_line_new_ok: "cart_line_new i s q p = Ok l \<Longrightarrow> line_ok (currency p) l \<and> unit_price l = p"
  by (auto simp: cart_line_new_def line_ok_def split: if_splits)

lemma add_line_ok:
  "cart_ok c \<Longrightarrow> line_ok (currency (unit_price l)) l \<Longrightarrow> add_line l c = Inr (i, c') \<Longrightarrow> cart_ok c'"
  by (auto simp: cart_ok_def add_line_def split: if_splits)

lemma remove_sku_ok: "cart_ok c \<Longrightarrow> remove_sku s c = Inr (n, c') \<Longrightarrow> cart_ok c'"
  by (auto simp: cart_ok_def remove_sku_def Let_def list_all_iff split: if_splits)

lemma set_overridden_price_ok:
  "line_ok cur l \<Longrightarrow> set_overridden_price p l = Inr l' \<Longrightarrow> line_ok cur l'"
  by (auto simp: line_ok_def set_overridden_price_def split: if_splits)

lemma set_course_ok [simp]: "line_ok cur (set_course v l) \<longleftrightarrow> line_ok cur l"
  by (simp add: line_ok_def set_course_def)

lemma cart_ok_set_line:
  "cart_ok c \<Longrightarrow> line_ok (cart_currency c) l \<Longrightarrow> cart_ok (c\<lparr>cart_lines := (cart_lines c)[i := l]\<rparr>)"
  by (auto simp: cart_ok_def list_all_iff dest: set_update_subset_insert [THEN subsetD])

text \<open>
  What a caller can do with a cart, one event per call: new lines come from \<open>CartLine::new\<close>,
  percentages from \<open>Percentage::new\<close>, and lines are changed in place through \<open>lines_mut\<close> with
  the two setters. A call that fails or panics leaves the cart as it was.
\<close>

datatype cart_event =
    AddLine uuid sku int money
  | RemoveSku sku
  | SetDiscount nat "string option"
  | SetFixedDiscount int "string option"
  | OverridePrice nat money
  | SetCourse nat "string option"

fun cart_step :: "cart_event \<Rightarrow> cart \<Rightarrow> cart" where
  "cart_step (AddLine i s q p) c =
     (case cart_line_new i s q p of
        Ok l \<Rightarrow> (case add_line l c of Inr (_, c') \<Rightarrow> c' | Inl _ \<Rightarrow> c)
      | _ \<Rightarrow> c)"
| "cart_step (RemoveSku s) c = (case remove_sku s c of Inr (_, c') \<Rightarrow> c' | Inl _ \<Rightarrow> c)"
| "cart_step (SetDiscount v l) c =
     (case percentage_new v of Some p \<Rightarrow> set_discount p l c | None \<Rightarrow> c)"
| "cart_step (SetFixedDiscount n l) c = set_fixed_discount n l c"
| "cart_step (OverridePrice i p) c =
     (if i < length (cart_lines c) then
        (case set_overridden_price p (cart_lines c ! i) of
           Inr l \<Rightarrow> c\<lparr>cart_lines := (cart_lines c)[i := l]\<rparr>
         | Inl _ \<Rightarrow> c)
      else c)"
| "cart_step (SetCourse i v) c =
     (if i < length (cart_lines c)
      then c\<lparr>cart_lines := (cart_lines c)[i := set_course v (cart_lines c ! i)]\<rparr> else c)"

lemma cart_line_nth_ok: "cart_ok c \<Longrightarrow> i < length (cart_lines c) \<Longrightarrow> line_ok (cart_currency c) (cart_lines c ! i)"
  by (simp add: cart_ok_def list_all_length)

lemma cart_step_ok: "cart_ok c \<Longrightarrow> cart_ok (cart_step e c)"
  by (cases e)
    (auto split: outcome.split sum.split option.split
      intro!: cart_ok_set_line
      intro: add_line_ok set_discount_ok set_fixed_discount_ok remove_sku_ok cart_line_nth_ok
        set_overridden_price_ok
      dest: cart_line_new_ok pct_new_ok)

interpretation cart_machine: machine "cart_new i cur" cart_step cart_ok for i cur
  by unfold_locales (simp_all add: cart_new_ok cart_step_ok)

lemma cart_step_currency [simp]: "cart_currency (cart_step e c) = cart_currency c"
  by (cases e)
    (auto simp: add_line_def remove_sku_def Let_def set_discount_def set_fixed_discount_def
      split: outcome.split sum.split option.split)

lemma cart_run_currency [simp]: "cart_currency (run cart_step es c) = cart_currency c"
  by (induction es arbitrary: c) simp_all

subsection \<open>Totals against their specification\<close>

text \<open>The amount of a line and of a cart before any discount, in unbounded integers.\<close>

definition line_amount :: "cart_line \<Rightarrow> int" where
  "line_amount l = minor_units (effective_price l) * qty l"

definition gross :: "cart_line list \<Rightarrow> int" where
  "gross ls = sum_list (map line_amount ls)"

text \<open>What is left of a gross amount: first the percentage, then the capped fixed discount.\<close>

definition net_of :: "nat \<Rightarrow> int \<Rightarrow> int \<Rightarrow> int" where
  "net_of p f g = (let d = (g * (100 - int p)) sdiv 100 in d - (if 0 < f then min f d else 0))"

definition prices_nonneg :: "cart \<Rightarrow> bool" where
  "prices_nonneg c \<longleftrightarrow> list_all (\<lambda>l. 0 \<le> minor_units (effective_price l)) (cart_lines c)"

lemma line_ok_price: "line_ok cur l \<Longrightarrow> currency (effective_price l) = cur"
  by (auto simp: line_ok_def effective_price_def split: option.splits)

lemma line_total_ok:
  "line_ok cur l \<Longrightarrow> line_total l = (if in_i64 (line_amount l) then Some (mk_money (line_amount l) cur) else None)"
  by (auto simp: line_total_def line_amount_def money_mul_def checked_mul_def fit_i64_def
      line_ok_price) (simp add: line_ok_def)

lemma line_amount_nonneg:
  "line_ok cur l \<Longrightarrow> 0 \<le> minor_units (effective_price l) \<Longrightarrow> 0 \<le> line_amount l"
  by (simp add: line_ok_def line_amount_def)

lemma gross_simps [simp]: "gross [] = 0" "gross (l # ls) = line_amount l + gross ls"
  by (simp_all add: gross_def)

lemma gross_nonneg:
  "list_all (line_ok cur) ls \<Longrightarrow> list_all (\<lambda>l. 0 \<le> minor_units (effective_price l)) ls \<Longrightarrow> 0 \<le> gross ls"
  by (induction ls) (auto intro: add_nonneg_nonneg line_amount_nonneg)

lemma add_lines_step:
  assumes "line_ok cur l"
  shows "add_lines (mk_money a cur) (l # ls) =
    (if in_i64 (line_amount l) \<and> in_i64 (a + line_amount l)
     then add_lines (mk_money (a + line_amount l) cur) ls else None)"
  using line_total_ok [OF assms] by (simp add: money_add_def checked_add_def fit_i64_def)

lemma add_lines_Some:
  "list_all (line_ok cur) ls \<Longrightarrow> in_i64 a \<Longrightarrow> add_lines (mk_money a cur) ls = Some m \<Longrightarrow>
     m = mk_money (a + gross ls) cur \<and> in_i64 (a + gross ls)"
proof (induction ls arbitrary: a)
  case (Cons l ls)
  then have "in_i64 (a + line_amount l)" and "add_lines (mk_money (a + line_amount l) cur) ls = Some m"
    by (auto simp: add_lines_step simp del: add_lines.simps split: if_splits)
  then show ?case using Cons.IH [of "a + line_amount l"] Cons.prems by (simp add: add.assoc)
qed simp

lemma add_lines_nonneg:
  assumes "list_all (line_ok cur) ls" and "list_all (\<lambda>l. 0 \<le> minor_units (effective_price l)) ls"
    and "0 \<le> a" and "in_i64 a"
  shows "add_lines (mk_money a cur) ls =
    (if a + gross ls \<le> i64_max then Some (mk_money (a + gross ls) cur) else None)"
  using assms
proof (induction ls arbitrary: a)
  case (Cons l ls)
  have "0 \<le> line_amount l" "0 \<le> gross ls"
    using Cons.prems by (auto intro: line_amount_nonneg gross_nonneg)
  then show ?case using Cons.IH [of "a + line_amount l"] Cons.prems
    by (auto simp: add_lines_step add.assoc in_i64_def simp del: add_lines.simps)
qed (simp add: in_i64_def)

lemma net_of_bounds:
  assumes "0 \<le> g" and "p \<le> 100"
  shows "0 \<le> net_of p f g" and "net_of p f g \<le> g"
proof -
  have "0 \<le> (g * (100 - int p)) sdiv 100" using assms by (simp add: percent_nonneg)
  moreover have "(g * (100 - int p)) sdiv 100 \<le> g"
    using percent_bound [of "100 - int p" g] assms by simp
  ultimately show "0 \<le> net_of p f g" "net_of p f g \<le> g" by (auto simp: net_of_def Let_def)
qed

text \<open>
  The sums \<open>Cart::total\<close> forms before any discount: the amount of every line and the running sum
  after every line, each in \<open>i64\<close>.
\<close>

definition sums_fit :: "cart_line list \<Rightarrow> bool" where
  "sums_fit ls \<longleftrightarrow> list_all (\<lambda>l. in_i64 (line_amount l)) ls
     \<and> list_all (\<lambda>n. in_i64 (gross (take n ls))) [0..<Suc (length ls)]"

lemma list_all_upt_Suc:
  "list_all P [0..<Suc n] \<longleftrightarrow> P 0 \<and> list_all (\<lambda>i. P (Suc i)) [0..<n]"
  by (simp add: upt_conv_Cons list.pred_map o_def flip: map_Suc_upt del: upt_Suc)

lemma prefix_sums_Cons:
  "list_all (\<lambda>n. in_i64 (a + gross (take n (l # ls)))) [0..<Suc (length (l # ls))] \<longleftrightarrow>
     in_i64 a \<and> list_all (\<lambda>n. in_i64 ((a + line_amount l) + gross (take n ls))) [0..<Suc (length ls)]"
  by (simp add: list_all_upt_Suc [of _ "Suc (length ls)"] add.assoc del: upt_Suc)

lemma add_lines_sums:
  assumes "list_all (line_ok cur) ls"
  shows "in_i64 a \<Longrightarrow> add_lines (mk_money a cur) ls =
    (if list_all (\<lambda>l. in_i64 (line_amount l)) ls
        \<and> list_all (\<lambda>n. in_i64 (a + gross (take n ls))) [0..<Suc (length ls)]
     then Some (mk_money (a + gross ls) cur) else None)"
  using assms
proof (induction ls arbitrary: a)
  case (Cons l ls)
  have first: "list_all (\<lambda>n. in_i64 ((a + line_amount l) + gross (take n ls))) [0..<Suc (length ls)]
      \<Longrightarrow> in_i64 (a + line_amount l)"
    by (simp add: list_all_upt_Suc del: upt_Suc)
  show ?case using Cons.IH [of "a + line_amount l"] Cons.prems first prefix_sums_Cons [of a l ls]
    by (auto simp: add_lines_step add.assoc simp del: add_lines.simps upt_Suc)
qed simp

lemma sums_fit_gross: "sums_fit ls \<Longrightarrow> in_i64 (gross ls)"
  by (auto simp: sums_fit_def)

lemma sums_fit_nonneg:
  assumes "list_all (line_ok cur) ls" and "list_all (\<lambda>l. 0 \<le> minor_units (effective_price l)) ls"
  shows "sums_fit ls \<longleftrightarrow> gross ls \<le> i64_max"
  using add_lines_nonneg [OF assms, of 0] add_lines_sums [OF assms(1), of 0]
  by (simp add: sums_fit_def in_i64_def split: if_splits)

lemma percent_nonpos:
  assumes "p \<le> 100" and "g \<le> 0"
  shows "g \<le> (g * (100 - int p)) sdiv 100" and "(g * (100 - int p)) sdiv 100 \<le> 0"
proof -
  have "g * (100 - int p) \<le> 0" using assms by (simp add: mult_nonpos_nonneg)
  then show "(g * (100 - int p)) sdiv 100 \<le> 0"
    by (simp add: sdiv_sign pos_imp_zdiv_nonneg_iff)
  then show "g \<le> (g * (100 - int p)) sdiv 100"
    using percent_bound [of "100 - int p" g] assms by simp
qed

lemma net_of_between:
  assumes "p \<le> 100" and "0 \<le> f"
  shows "min 0 g \<le> net_of p f g" and "net_of p f g \<le> max 0 g"
proof -
  show "min 0 g \<le> net_of p f g" and "net_of p f g \<le> max 0 g"
    using net_of_bounds [of g p f] percent_nonpos [of p g] assms
    by (cases "0 \<le> g"; auto simp: net_of_def Let_def)+
qed

lemma in_i64_net_of:
  assumes "p \<le> 100" and "0 \<le> f" and "in_i64 g"
  shows "in_i64 (net_of p f g)"
  using net_of_between [OF assms(1,2), of g] assms(3) by (auto simp: in_i64_def min_def max_def split: if_splits)

lemma complement_zero: "(x * (100 - int 0)) sdiv 100 = x"
  by (simp add: signed_divide_int_def abs_mult sgn_mult sgn_mult_abs)

lemma pct_step:
  assumes "in_i64 g" and "pct_ok p"
  shows "(if pct_get p > 0 then complement_apply_to p (mk_money g cur) else Some (mk_money g cur))
    = Some (mk_money ((g * (100 - int (pct_get p))) sdiv 100) cur)"
  using assms complement_zero [of g] by (simp add: complement_exact)

lemma cart_total_after_sum:
  assumes "add_lines (money_zero (cart_currency c)) (cart_lines c) = Some (mk_money g (cart_currency c))"
    and "in_i64 g" and "cart_ok c"
  shows "cart_total c =
    (let t = net_of (pct_get (discount_percent c)) (fixed_discount_minor c) g
     in if in_i64 t then Some (mk_money t (cart_currency c)) else None)"
proof -
  have "in_i64 ((g * (100 - int (pct_get (discount_percent c)))) sdiv 100)"
    using assms by (intro in_i64_percent) (auto simp: cart_ok_def pct_ok_def)
  then show ?thesis
    using assms pct_step [of g "discount_percent c" "cart_currency c"]
    by (simp add: cart_total_def cart_ok_def net_of_def Let_def money_min_def money_sub_def
        checked_sub_def fit_i64_def min_def)
qed

lemma discount_amount_after_sum:
  assumes "add_lines (money_zero (cart_currency c)) (cart_lines c) = Some (mk_money g (cart_currency c))"
    and "in_i64 g" and "cart_ok c" and "0 \<le> g"
  shows "discount_amount c =
    Some (mk_money (g - net_of (pct_get (discount_percent c)) (fixed_discount_minor c) g) (cart_currency c))"
proof -
  let ?p = "pct_get (discount_percent c)" and ?f = "fixed_discount_minor c"
  let ?d = "(g * (100 - int ?p)) sdiv 100"
  have ok: "pct_ok (discount_percent c)" "0 \<le> ?f" "?p \<le> 100"
    using assms(3) by (auto simp: cart_ok_def pct_ok_def)
  have d: "0 \<le> ?d" "?d \<le> g"
    using percent_nonneg [of "100 - int ?p" g] percent_bound [of "100 - int ?p" g] ok assms(4)
    by simp_all
  have zero: "?p = 0 \<Longrightarrow> ?d = g" using complement_zero [of g] by simp
  show ?thesis
    using assms(1,2,4) ok d zero pct_step [of g "discount_percent c" "cart_currency c"]
    by (auto simp: discount_amount_def net_of_def Let_def money_min_def money_sub_def
        checked_sub_def fit_i64_def in_i64_def)
qed

subsection \<open>Properties\<close>

text \<open>
  C39. Whatever calls a cart has seen, its lines are priced in its own currency, every quantity is
  positive, the percentage is at most 100 and the fixed discount is not negative.
\<close>

theorem cart_invariant:
  "cart_ok (run cart_step es (cart_new i cur)) \<and> cart_currency (run cart_step es (cart_new i cur)) = cur"
  using cart_machine.inv_run [of es i cur] by (simp add: cart_new_def)

text \<open>
  C1. On every cart with the invariant, \<open>Cart::total\<close> succeeds exactly when the amount of every line
  and every partial sum of them, in the order of the lines, fits in \<open>i64\<close>; the total is then the
  gross amount less the percentage, less the fixed discount capped at what is left, and it lies
  between zero and the gross amount, on whichever side of zero that is. Where no price is negative
  the gross amount alone decides whether the sums fit, and it is not negative.
\<close>

theorem cart_total_correct:
  assumes "cart_ok c"
  shows "cart_total c =
      (if sums_fit (cart_lines c)
       then Some (mk_money (net_of (pct_get (discount_percent c)) (fixed_discount_minor c)
                                (gross (cart_lines c))) (cart_currency c))
       else None)
    \<and> min 0 (gross (cart_lines c))
          \<le> net_of (pct_get (discount_percent c)) (fixed_discount_minor c) (gross (cart_lines c))
    \<and> net_of (pct_get (discount_percent c)) (fixed_discount_minor c) (gross (cart_lines c))
          \<le> max 0 (gross (cart_lines c))
    \<and> (prices_nonneg c \<longrightarrow>
         0 \<le> gross (cart_lines c) \<and> (sums_fit (cart_lines c) \<longleftrightarrow> gross (cart_lines c) \<le> i64_max))"
proof -
  let ?g = "gross (cart_lines c)"
  have p: "pct_get (discount_percent c) \<le> 100" and f: "0 \<le> fixed_discount_minor c"
    and ok: "list_all (line_ok (cart_currency c)) (cart_lines c)"
    using assms by (auto simp: cart_ok_def pct_ok_def)
  have sum: "add_lines (money_zero (cart_currency c)) (cart_lines c)
      = (if sums_fit (cart_lines c) then Some (mk_money ?g (cart_currency c)) else None)"
    using add_lines_sums [OF ok, of 0] by (simp add: sums_fit_def in_i64_def)
  have "cart_total c = (if sums_fit (cart_lines c)
      then Some (mk_money (net_of (pct_get (discount_percent c)) (fixed_discount_minor c) ?g)
             (cart_currency c)) else None)"
  proof (cases "sums_fit (cart_lines c)")
    case True
    then show ?thesis
      using cart_total_after_sum [of c ?g] sum assms sums_fit_gross [OF True]
        in_i64_net_of [OF p f sums_fit_gross [OF True]] by (simp add: Let_def)
  next
    case False
    then show ?thesis using sum by (simp add: cart_total_def)
  qed
  then show ?thesis using net_of_between [OF p f] sums_fit_nonneg [OF ok] gross_nonneg [OF ok]
    by (simp add: prices_nonneg_def)
qed

definition demo_cart :: cart where
  "demo_cart = run cart_step
     [AddLine ''l1'' ''COFFEE'' 3 (mk_money 1999 (Currency CHR ''U'' CHR ''S'' CHR ''D'')),
      AddLine ''l2'' ''TEA'' 1 (mk_money 550 (Currency CHR ''U'' CHR ''S'' CHR ''D'')),
      SetDiscount 15 None, SetFixedDiscount 100 (Some ''promo'')]
     (cart_new ''c'' (Currency CHR ''U'' CHR ''S'' CHR ''D''))"

lemma demo_cart_eq:
  "demo_cart = \<lparr>cart_id = ''c'', cart_currency = Currency CHR ''U'' CHR ''S'' CHR ''D'',
     cart_lines =
       [\<lparr>line_id = ''l1'', line_sku = ''COFFEE'', qty = 3,
         unit_price = mk_money 1999 (Currency CHR ''U'' CHR ''S'' CHR ''D''),
         overridden_price = None, course = None\<rparr>,
        \<lparr>line_id = ''l2'', line_sku = ''TEA'', qty = 1,
         unit_price = mk_money 550 (Currency CHR ''U'' CHR ''S'' CHR ''D''),
         overridden_price = None, course = None\<rparr>],
     discount_percent = Percentage 15, discount_label = Some ''promo'', fixed_discount_minor = 100\<rparr>"
  by (simp add: demo_cart_def cart_new_def cart_line_new_def add_line_def percentage_new_def
      set_discount_def set_fixed_discount_def)

lemma demo_cart_ok: "cart_ok demo_cart" "prices_nonneg demo_cart" "gross (cart_lines demo_cart) = 6547"
  by (simp_all add: demo_cart_eq cart_ok_def prices_nonneg_def line_ok_def pct_ok_def
      effective_price_def line_amount_def)

lemma demo_cart_total: "cart_total demo_cart \<noteq> None"
proof -
  have "add_lines (money_zero (cart_currency demo_cart)) (cart_lines demo_cart)
      = Some (mk_money 6547 (cart_currency demo_cart))"
    using add_lines_nonneg [of "cart_currency demo_cart" "cart_lines demo_cart" 0] demo_cart_ok
    by (simp add: cart_ok_def prices_nonneg_def)
  then show ?thesis using cart_total_after_sum [of demo_cart 6547] demo_cart_ok
    by (simp add: demo_cart_eq net_of_def sdiv_nonneg in_i64_def)
qed

theorem cart_total_correct_witness:
  "cart_total demo_cart = Some (mk_money 5464 (Currency CHR ''U'' CHR ''S'' CHR ''D''))"
  using cart_total_correct [OF demo_cart_ok(1)] demo_cart_ok(2,3)
  by (simp add: demo_cart_eq net_of_def sdiv_nonneg)

text \<open>
  The discount a cart reports and the total it charges add up to the gross amount of its
  lines, and both fail together, on every cart with the invariant and no negative price.
\<close>

theorem cart_discount_reconciles:
  assumes "cart_ok c" and "prices_nonneg c"
  shows "(case (cart_total c, discount_amount c) of
      (Some t, Some d) \<Rightarrow> currency t = cart_currency c \<and> currency d = cart_currency c
        \<and> minor_units t + minor_units d = gross (cart_lines c) \<and> 0 \<le> minor_units d
    | (None, None) \<Rightarrow> True
    | _ \<Rightarrow> False)"
proof -
  let ?g = "gross (cart_lines c)"
  have g: "0 \<le> ?g" using assms by (auto simp: cart_ok_def prices_nonneg_def intro: gross_nonneg)
  have p: "pct_get (discount_percent c) \<le> 100" using assms by (simp add: cart_ok_def pct_ok_def)
  have sum: "add_lines (money_zero (cart_currency c)) (cart_lines c)
      = (if ?g \<le> i64_max then Some (mk_money ?g (cart_currency c)) else None)"
    using assms add_lines_nonneg [of "cart_currency c" "cart_lines c" 0]
    by (simp add: cart_ok_def prices_nonneg_def)
  show ?thesis
  proof (cases "?g \<le> i64_max")
    case True
    then show ?thesis
      using sum assms g cart_total_after_sum [of c ?g] discount_amount_after_sum [of c ?g]
        net_of_bounds [OF g p, of "fixed_discount_minor c"]
      by (simp add: in_i64_def Let_def)
  next
    case False
    then show ?thesis using sum by (simp add: cart_total_def discount_amount_def)
  qed
qed

theorem cart_discount_reconciles_witness:
  "\<exists>t d. cart_total demo_cart = Some t \<and> discount_amount demo_cart = Some d
     \<and> minor_units t + minor_units d = 6547"
  using cart_discount_reconciles [OF demo_cart_ok(1,2)] demo_cart_ok(3) demo_cart_total
  by (auto split: option.splits)

text \<open>
  On a cart whose lines sum to a negative amount (a refund entered as a negative price) the
  two disagree: with a percentage and no fixed discount, \<open>discount_amount\<close> takes the minimum of
  a fixed discount of zero and the negative discounted amount, and reports the whole amount as
  discount while \<open>total\<close> charges it less the percentage.
\<close>

theorem negative_cart_discount_diverges:
  "let cur = Currency CHR ''U'' CHR ''S'' CHR ''D'';
       c = run cart_step [AddLine ''l1'' ''RETURN'' 1 (mk_money (- 1000) cur), SetDiscount 10 None]
             (cart_new ''c'' cur)
   in cart_ok c \<and> gross (cart_lines c) = - 1000
      \<and> cart_total c = Some (mk_money (- 900) cur)
      \<and> discount_amount c = Some (mk_money (- 1000) cur)"
  by (simp add: Let_def cart_new_def cart_line_new_def add_line_def percentage_new_def
      set_discount_def cart_ok_def line_ok_def pct_ok_def line_amount_def effective_price_def
      cart_total_def discount_amount_def line_total_def money_mul_def money_add_def money_sub_def
      money_min_def checked_add_def checked_mul_def checked_sub_def in_i64_def fit_i64_def
      complement_exact sdiv_sign)

end
