(* ===== verification/Sale.thy ===== *)
theory Sale
  imports Cart
begin

section \<open>Sales\<close>

text \<open>
  Models \<open>SaleStatus\<close> and \<open>PaymentMethod\<close> of \<open>foundation/src/enums.rs\<close> and the sale and refund
  records of \<open>modules/sales/src/models.rs\<close>. A sale is built from a cart and moves through its
  statuses with \<open>transition_to\<close>. Fresh UUIDs are taken from a stream \<open>fresh\<close> (the first is the
  sale's, the next ones the lines') and the time stamp is an argument.
\<close>

subsection \<open>Statuses\<close>

datatype sale_status = Pending | Active | Completed | Voided

fun is_terminal :: "sale_status \<Rightarrow> bool" where
  "is_terminal Completed = True"
| "is_terminal Voided = True"
| "is_terminal _ = False"

fun as_stored_str :: "sale_status \<Rightarrow> string" where
  "as_stored_str Pending = ''pending''"
| "as_stored_str Active = ''active''"
| "as_stored_str Completed = ''completed''"
| "as_stored_str Voided = ''voided''"

definition from_stored_str :: "string \<Rightarrow> sale_status option" where
  "from_stored_str s =
     (if s = ''pending'' then Some Pending
      else if s = ''active'' then Some Active
      else if s = ''completed'' then Some Completed
      else if s = ''voided'' then Some Voided
      else None)"

interpretation sale_status_text: strict_code "\<lambda>_. True" as_stored_str from_stored_str
proof
  show "from_stored_str (as_stored_str x) = Some x" for x
    by (cases x) (simp_all add: from_stored_str_def)
  show "from_stored_str w = Some x \<Longrightarrow> as_stored_str x = w" for w x
    by (auto simp: from_stored_str_def split: if_splits)
qed

fun can_transition_to :: "sale_status \<Rightarrow> sale_status \<Rightarrow> bool" where
  "can_transition_to Pending Active = True"
| "can_transition_to Active Completed = True"
| "can_transition_to Active Voided = True"
| "can_transition_to _ _ = False"

record invalid_transition =
  from_status :: sale_status
  to_status :: sale_status

datatype payment_method = Cash | Card | Other string

fun payment_method_to_string :: "payment_method \<Rightarrow> string" where
  "payment_method_to_string Cash = ''cash''"
| "payment_method_to_string Card = ''card''"
| "payment_method_to_string (Other s) = s"

subsection \<open>Sale and its lines\<close>

record sale_line =
  sline_id :: uuid
  sline_sale_id :: uuid
  sline_sku :: sku
  sline_qty :: int
  sline_unit_price :: money
  sline_total :: money
  line_position :: int
  tax_amount :: money
  tax_rate_id :: "string option"
  tax_breakdown_json :: "string option"
  serial_number :: "string option"
  sline_course :: "string option"
  modifiers_json :: "string option"

record sale =
  sale_id :: uuid
  status :: sale_status
  total :: money
  sale_line_count :: int
  sale_currency :: currency
  payment_method :: "string option"
  tendered_minor :: "int option"
  user_id :: "string option"
  created_at :: string
  updated_at :: string
  sale_lines :: "sale_line list"
  sale_discount_percent :: int
  sale_discount_label :: "string option"
  subtotal :: money
  tax_total :: money
  customer_id :: "string option"
  base_currency :: "string option"
  base_total_minor :: "int option"
  tender_rate_millionths :: "int option"
  tip_minor :: int
  service_charge_minor :: int
  version :: int

definition sale_line_of :: "(nat \<Rightarrow> uuid) \<Rightarrow> currency \<Rightarrow> nat \<times> cart_line \<Rightarrow> sale_line option" where
  "sale_line_of fresh cur il =
     (case il of (i, cl) \<Rightarrow>
        Option.bind (line_total cl) (\<lambda>t. Some
          \<lparr>sline_id = fresh (Suc i), sline_sale_id = fresh 0, sline_sku = line_sku cl,
           sline_qty = qty cl, sline_unit_price = unit_price cl, sline_total = t,
           line_position = int i + 1, tax_amount = money_zero cur, tax_rate_id = None,
           tax_breakdown_json = None, serial_number = None, sline_course = course cl,
           modifiers_json = None\<rparr>))"

definition from_cart_with_user ::
    "(nat \<Rightarrow> uuid) \<Rightarrow> string \<Rightarrow> cart \<Rightarrow> string option \<Rightarrow> sale option" where
  "from_cart_with_user fresh now c user =
     Option.bind (cart_total c) (\<lambda>t.
     Option.bind (collect_opt (sale_line_of fresh (cart_currency c)) (enumerate 0 (cart_lines c)))
       (\<lambda>ls. Some
       \<lparr>sale_id = fresh 0, status = Pending, total = t, sale_line_count = int (line_count c),
        sale_currency = cart_currency c, payment_method = None, tendered_minor = None,
        user_id = user, created_at = now, updated_at = now, sale_lines = ls,
        sale_discount_percent = int (pct_get (discount_percent c)),
        sale_discount_label = discount_label c, subtotal = money_zero (cart_currency c),
        tax_total = money_zero (cart_currency c), customer_id = None, base_currency = None,
        base_total_minor = None, tender_rate_millionths = None, tip_minor = 0,
        service_charge_minor = 0, version = 1\<rparr>))"

definition from_cart :: "(nat \<Rightarrow> uuid) \<Rightarrow> string \<Rightarrow> cart \<Rightarrow> sale option" where
  "from_cart fresh now c = from_cart_with_user fresh now c None"

definition transition_to :: "sale_status \<Rightarrow> sale \<Rightarrow> invalid_transition + sale" where
  "transition_to new s =
     (if (status s, new) \<in> {(Pending, Active), (Active, Completed), (Active, Voided)}
      then Inr (s\<lparr>status := new\<rparr>)
      else Inl \<lparr>from_status = status s, to_status = new\<rparr>)"

definition sale_is_terminal :: "sale \<Rightarrow> bool" where
  [model_defs]: "sale_is_terminal s = is_terminal (status s)"

subsection \<open>Refunds\<close>

record refund_line =
  rline_id :: uuid
  refund_id :: uuid
  sale_line_id :: uuid
  rline_sku :: sku
  rline_qty :: int
  rline_unit_price :: money
  rline_total :: money
  rline_created_at :: string

record refund =
  rid :: uuid
  refund_sale_id :: uuid
  refund_total :: money
  reason :: string
  refund_note :: string
  processed_by :: string
  refund_created_at :: string
  refund_lines :: "refund_line list"

definition refund_line_new ::
    "uuid \<Rightarrow> string \<Rightarrow> uuid \<Rightarrow> sku \<Rightarrow> int \<Rightarrow> money \<Rightarrow> money \<Rightarrow> refund_line" where
  "refund_line_new i now sl s q p t =
     \<lparr>rline_id = i, refund_id = [], sale_line_id = sl, rline_sku = s, rline_qty = q,
      rline_unit_price = p, rline_total = t, rline_created_at = now\<rparr>"

definition refund_new ::
    "uuid \<Rightarrow> string \<Rightarrow> uuid \<Rightarrow> money \<Rightarrow> string \<Rightarrow> string \<Rightarrow> string \<Rightarrow> refund_line list \<Rightarrow> refund" where
  "refund_new i now sid t why nt who ls =
     \<lparr>rid = i, refund_sale_id = sid, refund_total = t, reason = why, refund_note = nt,
      processed_by = who, refund_created_at = now,
      refund_lines = map (\<lambda>l. l\<lparr>refund_id := i\<rparr>) ls\<rparr>"

subsection \<open>The life of a sale\<close>

text \<open>A run of attempted transitions; a refused one leaves the sale as it was.\<close>

definition sale_step :: "sale_status \<Rightarrow> sale \<Rightarrow> sale" where
  "sale_step new s = (case transition_to new s of Inr s' \<Rightarrow> s' | Inl _ \<Rightarrow> s)"

fun stage :: "sale_status \<Rightarrow> nat" where
  "stage Pending = 0" | "stage Active = 1" | "stage Completed = 2" | "stage Voided = 2"

lemma sale_step_status:
  "status (sale_step new s) = (if can_transition_to (status s) new then new else status s)"
  by (cases "status s"; cases new) (simp_all add: sale_step_def transition_to_def)

lemma sale_step_other: "(sale_step new s)\<lparr>status := x\<rparr> = s\<lparr>status := x\<rparr>"
  by (simp add: sale_step_def transition_to_def)

text \<open>
  The history behind a status, as a relation: \<open>sale_path s t n\<close> says that \<open>n\<close> accepted
  transitions lead from \<open>s\<close> to \<open>t\<close>.
\<close>

inductive sale_path :: "sale_status \<Rightarrow> sale_status \<Rightarrow> nat \<Rightarrow> bool" where
  path_refl: "sale_path s s 0"
| path_step: "sale_path s t n \<Longrightarrow> can_transition_to t u \<Longrightarrow> sale_path s u (Suc n)"

inductive_cases sale_path_SucE: "sale_path s t (Suc n)"
inductive_simps sale_path_zero [simp]: "sale_path s t 0"

lemma can_transition_stage: "can_transition_to s t \<Longrightarrow> stage t = Suc (stage s)"
  by (cases s; cases t) simp_all

lemma sale_path_stage: "sale_path s t n \<Longrightarrow> stage t = stage s + n"
  by (induction rule: sale_path.induct) (simp_all add: can_transition_stage)

lemma sale_path_run:
  "sale_path x (status s) n \<Longrightarrow> \<exists>m \<ge> n. sale_path x (status (run sale_step ts s)) m"
proof (induction ts arbitrary: s n)
  case (Cons t ts)
  then have "sale_path x (status (sale_step t s)) (if can_transition_to (status s) t then Suc n else n)"
    by (auto simp: sale_step_status intro: path_step)
  then show ?case using Cons.IH [of "sale_step t s"] by (fastforce split: if_splits)
qed auto

text \<open>As a machine: only the status changes, and its stage never goes back.\<close>

interpretation sale_machine:
  monotone_machine "s\<lparr>status := Pending\<rparr>" sale_step
    "\<lambda>t. t\<lparr>status := Pending\<rparr> = s\<lparr>status := Pending\<rparr>" "\<lambda>t. stage (status t)" for s
  by unfold_locales (auto simp: sale_step_other sale_step_status can_transition_stage)

subsection \<open>A sale from a cart\<close>

lemma enumerate_collect:
  assumes "\<And>i cl. cl \<in> set ls \<Longrightarrow> f (i, cl) = Some (g i cl)"
  shows "collect_opt f (enumerate k ls) = Some (map (\<lambda>(i, cl). g i cl) (enumerate k ls))"
  using assms by (induction ls arbitrary: k) simp_all

lemma cart_total_lines:
  assumes "cart_ok c" and "cart_total c = Some t"
  shows "\<forall>l \<in> set (cart_lines c). in_i64 (line_amount l)"
proof -
  have "add_lines (mk_money a cur) ls = Some m \<Longrightarrow> list_all (line_ok cur) ls \<Longrightarrow>
      \<forall>l \<in> set ls. in_i64 (line_amount l)" for a cur m ls
    by (induction ls arbitrary: a)
      (auto simp: add_lines_step simp del: add_lines.simps(2) split: if_splits)
  then show ?thesis using assms by (auto simp: cart_total_def cart_ok_def bind_eq_Some_conv)
qed

definition sale_line_made :: "(nat \<Rightarrow> uuid) \<Rightarrow> currency \<Rightarrow> nat \<Rightarrow> cart_line \<Rightarrow> sale_line" where
  "sale_line_made fresh cur i cl =
     \<lparr>sline_id = fresh (Suc i), sline_sale_id = fresh 0, sline_sku = line_sku cl,
      sline_qty = qty cl, sline_unit_price = unit_price cl, sline_total = mk_money (line_amount cl) cur,
      line_position = int i + 1, tax_amount = money_zero cur, tax_rate_id = None,
      tax_breakdown_json = None, serial_number = None, sline_course = course cl,
      modifiers_json = None\<rparr>"

lemma from_cart_lines:
  assumes "cart_ok c" and "cart_total c = Some t"
  shows "collect_opt (sale_line_of fresh (cart_currency c)) (enumerate 0 (cart_lines c)) =
    Some (map (\<lambda>(i, cl). sale_line_made fresh (cart_currency c) i cl) (enumerate 0 (cart_lines c)))"
proof (rule enumerate_collect)
  fix i cl assume cl: "cl \<in> set (cart_lines c)"
  then have "in_i64 (line_amount cl)" and "line_ok (cart_currency c) cl"
    using cart_total_lines [OF assms] assms(1) by (auto simp: cart_ok_def list_all_iff)
  then have "line_total cl = Some (mk_money (line_amount cl) (cart_currency c))"
    using line_total_ok by auto
  then show "sale_line_of fresh (cart_currency c) (i, cl)
      = Some (sale_line_made fresh (cart_currency c) i cl)"
    by (simp add: sale_line_of_def sale_line_made_def)
qed

lemma sum_sale_lines:
  "(\<Sum>l \<leftarrow> map (\<lambda>(i, cl). sale_line_made fresh cur i cl) (enumerate k ls). minor_units (sline_total l))
     = gross ls"
  by (induction ls arbitrary: k) (simp_all add: sale_line_made_def)

lemma positions_sale_lines:
  "map line_position (map (\<lambda>(i, cl). sale_line_made fresh cur i cl) (enumerate k ls))
     = map (\<lambda>i. int i + 1) [k..<k + length ls]"
  by (induction ls arbitrary: k) (simp_all add: sale_line_made_def upt_rec)

subsection \<open>Properties\<close>

text \<open>
  A cart that satisfies its invariant becomes a sale exactly when its total can be computed.
  The sale is pending, keeps the cart's total and currency, its lines are the cart's lines in
  order at positions 1, 2, and so on, all carrying the sale's id, and their totals sum to the
  gross amount of the cart.
\<close>

theorem sale_from_cart_faithful:
  assumes "cart_ok c"
  shows "case from_cart_with_user fresh now c u of
      None \<Rightarrow> cart_total c = None
    | Some s \<Rightarrow> cart_total c = Some (total s) \<and> status s = Pending \<and> sale_currency s = cart_currency c
        \<and> map sline_sku (sale_lines s) = map line_sku (cart_lines c)
        \<and> map sline_qty (sale_lines s) = map qty (cart_lines c)
        \<and> map line_position (sale_lines s) = map (\<lambda>i. int i + 1) [0..<length (cart_lines c)]
        \<and> (\<forall>l \<in> set (sale_lines s). sline_sale_id l = sale_id s)
        \<and> sale_line_count s = int (length (sale_lines s))
        \<and> (\<Sum>l \<leftarrow> sale_lines s. minor_units (sline_total l)) = gross (cart_lines c)"
proof (cases "cart_total c")
  case None
  then show ?thesis by (simp add: from_cart_with_user_def)
next
  case (Some t)
  have "map snd (enumerate 0 (cart_lines c)) = cart_lines c" by simp
  then have maps: "map sline_sku (map (\<lambda>(i, cl). sale_line_made fresh (cart_currency c) i cl)
        (enumerate 0 (cart_lines c))) = map line_sku (cart_lines c)"
    "map sline_qty (map (\<lambda>(i, cl). sale_line_made fresh (cart_currency c) i cl)
        (enumerate 0 (cart_lines c))) = map qty (cart_lines c)"
    by (simp_all add: sale_line_made_def case_prod_beta comp_def flip: map_map [of _ snd, unfolded comp_def])
  show ?thesis
    using Some from_cart_lines [OF assms Some, of fresh] maps
      sum_sale_lines [of fresh "cart_currency c" 0 "cart_lines c"]
      positions_sale_lines [of fresh "cart_currency c" 0 "cart_lines c"]
    by (auto simp: from_cart_with_user_def line_count_def sale_line_made_def)
qed

theorem sale_from_cart_faithful_witness:
  "\<exists>s. from_cart_with_user (\<lambda>i. show_nat i) ''t'' demo_cart None = Some s
     \<and> cart_total demo_cart = Some (total s) \<and> (\<Sum>l \<leftarrow> sale_lines s. minor_units (sline_total l)) = 6547"
  using sale_from_cart_faithful [OF demo_cart_ok(1), of "\<lambda>i. show_nat i" "''t''" None]
    demo_cart_ok(3) demo_cart_total
  by (auto split: option.splits)

text \<open>
  Through any sequence of attempted transitions on a new sale, the status reached has a path
  of accepted transitions from pending whose length is its stage (so a completed or voided sale
  passed through active), no other field of the sale changes, and the stage never goes back.
\<close>

theorem sale_lifecycle:
  assumes "status s = Pending"
  shows "sale_path Pending (status (run sale_step ts s)) (stage (status (run sale_step ts s)))
    \<and> (run sale_step ts s)\<lparr>status := Pending\<rparr> = s
    \<and> stage (status (run sale_step ts s)) \<le> stage (status (run sale_step (ts @ us) s))"
proof -
  have s: "s\<lparr>status := Pending\<rparr> = s" using assms by simp
  obtain m where m: "sale_path Pending (status (run sale_step ts s)) m"
    using sale_path_run [of Pending s 0 ts] assms by auto
  then have "m = stage (status (run sale_step ts s))" using sale_path_stage by fastforce
  moreover have inv: "(run sale_step ts s)\<lparr>status := Pending\<rparr> = s"
    using sale_machine.inv_run_from [of s s ts] s by simp
  moreover have "stage (status (run sale_step ts s)) \<le> stage (status (run sale_step us (run sale_step ts s)))"
    by (rule sale_machine.level_run_from [of "run sale_step ts s" s]) (use inv s in simp)
  ultimately show ?thesis using m by simp
qed

definition demo_sale :: sale where
  "demo_sale = the (from_cart (\<lambda>i. show_nat i) ''t'' (cart_new ''c'' (Currency CHR ''U'' CHR ''S'' CHR ''D'')))"

lemma demo_sale_status: "status demo_sale = Pending"
  by (simp add: demo_sale_def from_cart_def from_cart_with_user_def cart_new_def cart_total_def pct_zero_def)

theorem sale_lifecycle_witness:
  "status (run sale_step [Completed, Active, Pending, Voided, Active] demo_sale) = Voided
   \<and> sale_path Pending Voided 2"
  using sale_lifecycle [OF demo_sale_status, of "[Completed, Active, Pending, Voided, Active]" "[]"]
  by (simp add: sale_step_status demo_sale_status numeral_2_eq_2)

text \<open>
  A terminal sale is final: every transition is refused with the two statuses in the error,
  and a sale accepts a transition exactly when the shared matrix \<open>can_transition_to\<close> does; the
  stored names of the statuses read back to the status and to nothing else.
\<close>

theorem sale_transition_contract:
  "(case transition_to new s of
      Inr s' \<Rightarrow> can_transition_to (status s) new \<and> s' = s\<lparr>status := new\<rparr>
    | Inl e \<Rightarrow> \<not> can_transition_to (status s) new \<and> e = \<lparr>from_status = status s, to_status = new\<rparr>)
   \<and> (sale_is_terminal s \<longleftrightarrow> (\<nexists>x. can_transition_to (status s) x))
   \<and> (from_stored_str w = Some (status s) \<longleftrightarrow> w = as_stored_str (status s))"
proof -
  have "is_terminal (status s) \<longleftrightarrow> (\<nexists>x. can_transition_to (status s) x)"
    by (cases "status s") (auto elim: can_transition_to.elims intro: exI [of _ Active] exI [of _ Completed])
  moreover have "case transition_to new s of
      Inr s' \<Rightarrow> can_transition_to (status s) new \<and> s' = s\<lparr>status := new\<rparr>
    | Inl e \<Rightarrow> \<not> can_transition_to (status s) new \<and> e = \<lparr>from_status = status s, to_status = new\<rparr>"
    by (cases "status s"; cases new) (simp_all add: transition_to_def)
  ultimately show ?thesis
    using sale_status_text.dec_iff [of w "status s"] by (simp add: sale_is_terminal_def)
qed

end
