(* ===== verification/Tax_Rates.thy ===== *)
theory Tax_Rates
  imports Sale "HOL-Library.Char_ord" "HOL-Library.List_Lexorder"
begin

section \<open>Tax rates: rows, scopes and resolution\<close>

text \<open>
  Models the store's tax-rate tables: \<open>crates/kasirmu-core/src/db/tax/rates.rs\<close>,
  \<open>scopes.rs\<close> and \<open>assignments.rs\<close>, and the rate type of \<open>modules/tax/src/models.rs\<close>.

  The database is a record of tables. A table is the list of its rows in the order a query
  visits them; a query is a search or a filter over that list, a transaction that fails leaves
  the store as it was. Of the schema the model keeps what the code relies on: the primary key of
  \<open>tax_rates\<close>, the check that a row has at most one scope column, and the three partial unique
  indexes that allow one default per tier (a violation is \<open>Db\<close>). Foreign
  keys and other failures of SQLite are left out. Errors keep their variant and field; message texts are left out.
\<close>

subsection \<open>Errors\<close>

datatype core_error =
    Db
  | MoneyOverflow
  | CurrencyMismatch string string
  | InsufficientStockAtLocation string string int int
  | NotFound string string
  | Conflict string string
  | Validation string
  | Internal
  | SubscriptionReadOnly

subsection \<open>Business dates\<close>

datatype naive_date = Date (year: int) (month: nat) (day: nat)

instantiation naive_date :: linorder
begin

definition less_eq_naive_date :: "naive_date \<Rightarrow> naive_date \<Rightarrow> bool" where
  "less_eq_naive_date a b \<longleftrightarrow> year a < year b
     \<or> (year a = year b \<and> (month a < month b \<or> (month a = month b \<and> day a \<le> day b)))"

definition less_naive_date :: "naive_date \<Rightarrow> naive_date \<Rightarrow> bool" where
  "less_naive_date a b \<longleftrightarrow> year a < year b
     \<or> (year a = year b \<and> (month a < month b \<or> (month a = month b \<and> day a < day b)))"

instance
  by standard (auto simp: less_eq_naive_date_def less_naive_date_def intro: naive_date.expand)

end

definition leap_year :: "int \<Rightarrow> bool" where
  "leap_year y \<longleftrightarrow> y mod 4 = 0 \<and> (y mod 100 \<noteq> 0 \<or> y mod 400 = 0)"

definition days_in_month :: "int \<Rightarrow> nat \<Rightarrow> nat" where
  "days_in_month y m =
     (if m = 2 then (if leap_year y then 29 else 28)
      else if m \<in> {4, 6, 9, 11} then 30 else 31)"

text \<open>\<open>chrono::NaiveDate::from_ymd_opt\<close> on the years that four digits can name.\<close>

definition from_ymd_opt :: "int \<Rightarrow> nat \<Rightarrow> nat \<Rightarrow> naive_date option" where
  "from_ymd_opt y m d =
     (if 1 \<le> m \<and> m \<le> 12 \<and> 1 \<le> d \<and> d \<le> days_in_month y m then Some (Date y m d) else None)"

definition date_min :: naive_date where "date_min = Date (- 262143) 1 1"
definition date_max :: naive_date where "date_max = Date 262142 12 31"

definition parse_effective_date :: "string \<Rightarrow> naive_date option" where
  "parse_effective_date v =
     (if length v = 10 \<and> list_all is_ascii_digit (take 4 v) \<and> v ! 4 = CHR ''-''
         \<and> list_all is_ascii_digit (take 2 (drop 5 v)) \<and> v ! 7 = CHR ''-''
         \<and> list_all is_ascii_digit (drop 8 v)
      then Option.bind (digits_val 10 0 (take 4 v)) (\<lambda>y.
           Option.bind (digits_val 10 0 (take 2 (drop 5 v))) (\<lambda>m.
           Option.bind (digits_val 10 0 (take 2 (drop 8 v))) (\<lambda>d.
           from_ymd_opt (int y) m d)))
      else None)"

subsection \<open>Rates, scopes and windows\<close>

datatype rounding_mode = Truncate | HalfUp

fun wire_name :: "rounding_mode \<Rightarrow> string" where
  "wire_name Truncate = ''truncate''"
| "wire_name HalfUp = ''half_up''"

record tax_rate =
  rate_id :: string
  rate_name :: string
  rate_bps :: int
  is_default :: bool
  is_inclusive :: bool
  rate_created_at :: string
  rate_updated_at :: string

definition tax_rate_new :: "uuid \<Rightarrow> string \<Rightarrow> int \<Rightarrow> (unit, tax_rate) outcome" where
  "tax_rate_new i nm bps =
     (let n = trim nm in
      if n = [] \<or> bps < 0 then Panic
      else Ok \<lparr>rate_id = i, rate_name = n, rate_bps = bps, is_default = False,
               is_inclusive = False, rate_created_at = [], rate_updated_at = []\<rparr>)"

definition with_default :: "tax_rate \<Rightarrow> tax_rate" where
  "with_default r = r\<lparr>is_default := True\<rparr>"

definition with_inclusive :: "tax_rate \<Rightarrow> tax_rate" where
  "with_inclusive r = r\<lparr>is_inclusive := True\<rparr>"

definition display_rate :: "tax_rate \<Rightarrow> string" where
  "display_rate r =
     (let major = rate_bps r sdiv 100; frac = rate_bps r smod 100
      in if frac = 0 then show_int major @ ''%''
         else show_int major @ ''.'' @
           (if frac < 0 then show_int frac else zero_pad 2 (show_int frac)) @ ''%'')"

definition max_tax_rate_bps :: int where
  "max_tax_rate_bps = 1000000"

datatype tax_rate_scope = Global | LegalEntity string | Location string

fun classify :: "string option \<Rightarrow> string option \<Rightarrow> tax_rate_scope option" where
  "classify None None = Some Global"
| "classify (Some e) None = Some (LegalEntity e)"
| "classify None (Some l) = Some (Location l)"
| "classify (Some _) (Some _) = None"

fun scope_columns :: "tax_rate_scope \<Rightarrow> string option \<times> string option" where
  "scope_columns Global = (None, None)"
| "scope_columns (LegalEntity e) = (Some e, None)"
| "scope_columns (Location l) = (None, Some l)"

text \<open>The stored pair of columns is a strict code of the scope.\<close>

interpretation scope_code: strict_code "\<lambda>_. True" scope_columns "\<lambda>(e, l). classify e l"
proof
  show "(case scope_columns x of (e, l) \<Rightarrow> classify e l) = Some x" for x by (cases x) simp_all
  show "(case w of (e, l) \<Rightarrow> classify e l) = Some x \<Longrightarrow> scope_columns x = w" for w x
    by (cases w; cases "fst w"; cases "snd w") auto
qed

record tax_rate_window =
  effective_from :: "string option"
  effective_to :: "string option"

definition window_validate :: "tax_rate_window \<Rightarrow> core_error + unit" where
  "window_validate w =
     (let bad = (\<lambda>v. case v of None \<Rightarrow> False | Some s \<Rightarrow> parse_effective_date s = None)
      in if bad (effective_from w) then Inl (Validation ''effective_from'')
         else if bad (effective_to w) then Inl (Validation ''effective_to'')
         else (case (effective_from w, effective_to w) of
                 (Some f, Some t) \<Rightarrow>
                   let from = (case parse_effective_date f of Some d \<Rightarrow> d | None \<Rightarrow> date_min);
                       to = (case parse_effective_date t of Some d \<Rightarrow> d | None \<Rightarrow> date_max)
                   in if from \<ge> to then Inl (Validation ''effective_to'') else Inr ()
               | _ \<Rightarrow> Inr ()))"

definition window_covers :: "string option \<Rightarrow> string option \<Rightarrow> naive_date \<Rightarrow> bool" where
  "window_covers from to as_of =
     (let lower_ok = (case from of None \<Rightarrow> True
                      | Some v \<Rightarrow> (case parse_effective_date v of Some d \<Rightarrow> d \<le> as_of | None \<Rightarrow> False))
      in if \<not> lower_ok then False
         else (case to of None \<Rightarrow> True
               | Some v \<Rightarrow> (case parse_effective_date v of Some d \<Rightarrow> as_of < d | None \<Rightarrow> False)))"

record tax_sale_scope =
  scope_location :: string
  scope_as_of :: string

definition as_date :: "tax_sale_scope \<Rightarrow> core_error + naive_date" where
  "as_date sc = (case parse_effective_date (scope_as_of sc) of
     Some d \<Rightarrow> Inr d | None \<Rightarrow> Inl (Validation ''as_of''))"

subsection \<open>The tables\<close>

record tax_row =
  row_rate :: tax_rate
  row_entity :: "string option"
  row_location :: "string option"
  row_from :: "string option"
  row_to :: "string option"
  row_active :: bool
  row_rounding :: string

text \<open>
  Assignments are kept in the order of their \<open>created_at\<close>, which the two queries sort by. The
  list \<open>sold_rates\<close> holds the \<open>tax_rate_id\<close> of each recorded sale line that has one.
\<close>

record tax_store =
  tax_rates :: "tax_row list"
  product_taxes :: "(sku \<times> string) list"
  category_taxes :: "(string \<times> string) list"
  products :: "(sku \<times> string) list"
  product_category :: "(string \<times> string option) list"
  locations :: "(string \<times> string option) list"
  legal_entities :: "string list"
  sold_rates :: "string list"

abbreviation row_id :: "tax_row \<Rightarrow> string" where "row_id r \<equiv> rate_id (row_rate r)"
abbreviation row_scope :: "tax_row \<Rightarrow> tax_rate_scope option" where
  "row_scope r \<equiv> classify (row_entity r) (row_location r)"
abbreviation row_default :: "tax_row \<Rightarrow> bool" where "row_default r \<equiv> is_default (row_rate r)"

definition active_row :: "tax_store \<Rightarrow> string \<Rightarrow> tax_row option" where
  "active_row st i = List.find (\<lambda>r. row_id r = i \<and> row_active r) (tax_rates st)"

definition validate_tax_rate_input :: "string \<Rightarrow> int \<Rightarrow> core_error + unit" where
  "validate_tax_rate_input nm bps =
     (if trim nm = [] then Inl (Validation ''name'')
      else if \<not> (0 \<le> bps \<and> bps \<le> max_tax_rate_bps) then Inl (Validation ''rate_bps'')
      else Inr ())"

definition list_tax_rates :: "tax_store \<Rightarrow> tax_rate list" where
  "list_tax_rates st = sort_key rate_name (map row_rate (filter row_active (tax_rates st)))"

definition get_tax_rate :: "tax_store \<Rightarrow> string \<Rightarrow> tax_rate option" where
  "get_tax_rate st i = map_option row_rate (active_row st i)"

definition get_default_tax_rate :: "tax_store \<Rightarrow> tax_rate option" where
  "get_default_tax_rate st =
     map_option row_rate (List.find (\<lambda>r. row_default r \<and> row_active r) (tax_rates st))"

definition tax_rate_window_of :: "tax_store \<Rightarrow> string \<Rightarrow> tax_rate_window option" where
  "tax_rate_window_of st i =
     map_option (\<lambda>r. \<lparr>effective_from = row_from r, effective_to = row_to r\<rparr>) (active_row st i)"

definition tax_rate_scope_of :: "tax_store \<Rightarrow> string \<Rightarrow> core_error + tax_rate_scope option" where
  "tax_rate_scope_of st i =
     (case active_row st i of
        None \<Rightarrow> Inr None
      | Some r \<Rightarrow> (case row_scope r of
            Some sc \<Rightarrow> Inr (Some sc) | None \<Rightarrow> Inl (Validation ''tax_rate_scope'')))"

definition tax_rate_rounding_mode :: "tax_store \<Rightarrow> string \<Rightarrow> core_error + rounding_mode option" where
  "tax_rate_rounding_mode st i =
     (case active_row st i of
        None \<Rightarrow> Inr None
      | Some r \<Rightarrow>
          if row_rounding r = [] then Inr None
          else if row_rounding r = ''half_up'' then Inr (Some HalfUp)
          else if row_rounding r = ''truncate'' then Inr (Some Truncate)
          else Inl (Validation ''rounding_mode''))"

definition location_legal_entity :: "tax_store \<Rightarrow> string \<Rightarrow> string option" where
  "location_legal_entity st l = Option.bind (map_of (locations st) l) (\<lambda>e. e)"

fun scope_infos :: "tax_row list \<Rightarrow> core_error + (string \<times> tax_rate_scope \<times> tax_rate_window) list" where
  "scope_infos [] = Inr []"
| "scope_infos (r # rs) =
     (case row_scope r of
        None \<Rightarrow> Inl (Validation ''tax_rate_scope'')
      | Some sc \<Rightarrow>
          (case scope_infos rs of
             Inl e \<Rightarrow> Inl e
           | Inr xs \<Rightarrow>
               Inr ((row_id r, sc, \<lparr>effective_from = row_from r, effective_to = row_to r\<rparr>) # xs)))"

definition list_tax_rate_scopes ::
    "tax_store \<Rightarrow> core_error + (string \<times> tax_rate_scope \<times> tax_rate_window) list" where
  "list_tax_rate_scopes st =
     scope_infos (sort_key (\<lambda>r. rate_name (row_rate r)) (filter row_active (tax_rates st)))"

subsection \<open>Writing rates\<close>

text \<open>
  What the schema enforces on \<open>tax_rates\<close>: distinct ids, rates that are not negative, at most one
  scope column, a rounding directive from its alphabet, and one default per tier.
\<close>

definition index_key :: "tax_row \<Rightarrow> string option \<times> string option" where
  "index_key r = (if row_location r = None then row_entity r else None, row_location r)"

definition row_checks :: "tax_row \<Rightarrow> bool" where
  "row_checks r \<longleftrightarrow> 0 \<le> rate_bps (row_rate r) \<and> (row_entity r = None \<or> row_location r = None)
     \<and> row_rounding r \<in> {[], ''half_up'', ''truncate''}"

definition schema_ok :: "tax_row list \<Rightarrow> bool" where
  "schema_ok rows \<longleftrightarrow> distinct (map row_id rows) \<and> list_all row_checks rows
     \<and> distinct (map index_key (filter row_default rows))"

definition commit_rates :: "tax_store \<Rightarrow> tax_row list \<Rightarrow> core_error + tax_store" where
  "commit_rates st rows = (if schema_ok rows then Inr (st\<lparr>tax_rates := rows\<rparr>) else Inl Db)"

definition undefault :: "tax_row \<Rightarrow> tax_row" where
  "undefault r = r\<lparr>row_rate := (row_rate r)\<lparr>is_default := False\<rparr>\<rparr>"

fun in_scope_columns :: "tax_rate_scope \<Rightarrow> tax_row \<Rightarrow> bool" where
  "in_scope_columns Global r = (row_entity r = None \<and> row_location r = None)"
| "in_scope_columns (LegalEntity e) r = (row_entity r = Some e \<and> row_location r = None)"
| "in_scope_columns (Location l) r = (row_location r = Some l)"

definition clear_tier_default :: "tax_rate_scope \<Rightarrow> tax_row list \<Rightarrow> tax_row list" where
  "clear_tier_default sc rows =
     map (\<lambda>r. if row_default r \<and> in_scope_columns sc r then undefault r else r) rows"

fun validate_scope_target :: "tax_store \<Rightarrow> tax_rate_scope \<Rightarrow> core_error + unit" where
  "validate_scope_target st Global = Inr ()"
| "validate_scope_target st (LegalEntity e) =
     (if trim e = [] then Inl (Validation ''legal_entity_id'')
      else if e \<notin> set (legal_entities st) then Inl (Validation ''legal_entity_id'') else Inr ())"
| "validate_scope_target st (Location l) =
     (if trim l = [] then Inl (Validation ''location_id'')
      else if l \<notin> fst ` set (locations st) then Inl (Validation ''location_id'') else Inr ())"

definition fresh_row ::
    "uuid \<Rightarrow> string \<Rightarrow> string \<Rightarrow> int \<Rightarrow> bool \<Rightarrow> bool \<Rightarrow> tax_rate_scope \<Rightarrow> tax_rate_window \<Rightarrow> tax_row" where
  "fresh_row i now nm bps dflt incl sc w =
     \<lparr>row_rate = \<lparr>rate_id = i, rate_name = trim nm, rate_bps = bps, is_default = dflt,
        is_inclusive = incl, rate_created_at = now, rate_updated_at = now\<rparr>,
      row_entity = fst (scope_columns sc), row_location = snd (scope_columns sc),
      row_from = effective_from w, row_to = effective_to w, row_active = True, row_rounding = []\<rparr>"

definition create_tax_rate ::
    "uuid \<Rightarrow> string \<Rightarrow> string \<Rightarrow> int \<Rightarrow> bool \<Rightarrow> bool \<Rightarrow> tax_store \<Rightarrow> core_error + tax_rate \<times> tax_store" where
  "create_tax_rate i now nm bps dflt incl st =
     (case validate_tax_rate_input nm bps of
        Inl e \<Rightarrow> Inl e
      | Inr _ \<Rightarrow>
          (let rows = (if dflt then clear_tier_default Global (tax_rates st) else tax_rates st);
               r = fresh_row i now nm bps dflt incl Global \<lparr>effective_from = None, effective_to = None\<rparr>
           in case commit_rates st (rows @ [r]) of
                Inl e \<Rightarrow> Inl e | Inr st' \<Rightarrow> Inr (row_rate r, st')))"

definition create_tax_rate_scoped ::
    "uuid \<Rightarrow> string \<Rightarrow> string \<Rightarrow> int \<Rightarrow> bool \<Rightarrow> bool \<Rightarrow> tax_rate_scope \<Rightarrow> tax_rate_window \<Rightarrow>
       tax_store \<Rightarrow> core_error + tax_rate \<times> tax_store" where
  "create_tax_rate_scoped i now nm bps dflt incl sc w st =
     (case validate_tax_rate_input nm bps of
        Inl e \<Rightarrow> Inl e
      | Inr _ \<Rightarrow>
     (case window_validate w of
        Inl e \<Rightarrow> Inl e
      | Inr _ \<Rightarrow>
     (case validate_scope_target st sc of
        Inl e \<Rightarrow> Inl e
      | Inr _ \<Rightarrow>
          (let rows = (if dflt then clear_tier_default sc (tax_rates st) else tax_rates st);
               r = fresh_row i now nm bps dflt incl sc w
           in case commit_rates st (rows @ [r]) of
                Inl e \<Rightarrow> Inl e | Inr st' \<Rightarrow> Inr (row_rate r, st')))))"

definition write_row :: "string \<Rightarrow> (tax_row \<Rightarrow> tax_row) \<Rightarrow> tax_row list \<Rightarrow> tax_row list" where
  "write_row i f rows = map (\<lambda>r. if row_id r = i \<and> row_active r then f r else r) rows"

definition update_tax_rate ::
    "string \<Rightarrow> string \<Rightarrow> int \<Rightarrow> bool \<Rightarrow> bool \<Rightarrow> string \<Rightarrow> tax_store \<Rightarrow> core_error + tax_rate \<times> tax_store" where
  "update_tax_rate now nm bps dflt incl i st =
     (case validate_tax_rate_input nm bps of
        Inl e \<Rightarrow> Inl e
      | Inr _ \<Rightarrow>
          (let rows = (if dflt then clear_tier_default Global (tax_rates st) else tax_rates st);
               set = (\<lambda>r. r\<lparr>row_rate := (row_rate r)\<lparr>rate_name := trim nm, rate_bps := bps,
                        is_default := dflt, is_inclusive := incl, rate_updated_at := now\<rparr>\<rparr>)
           in if active_row st i = None then Inl (NotFound ''tax_rate'' i)
              else case commit_rates st (write_row i set rows) of
                Inl e \<Rightarrow> Inl e
              | Inr st' \<Rightarrow> Inr (\<lparr>rate_id = i, rate_name = trim nm, rate_bps = bps,
                  is_default = dflt, is_inclusive = incl, rate_created_at = [],
                  rate_updated_at = now\<rparr>, st')))"

definition update_tax_rate_scoped ::
    "string \<Rightarrow> string \<Rightarrow> int \<Rightarrow> bool \<Rightarrow> bool \<Rightarrow> tax_rate_scope \<Rightarrow> tax_rate_window \<Rightarrow> string \<Rightarrow>
       tax_store \<Rightarrow> core_error + tax_rate \<times> tax_store" where
  "update_tax_rate_scoped now nm bps dflt incl sc w i st =
     (case validate_tax_rate_input nm bps of
        Inl e \<Rightarrow> Inl e
      | Inr _ \<Rightarrow>
     (case window_validate w of
        Inl e \<Rightarrow> Inl e
      | Inr _ \<Rightarrow>
     (case validate_scope_target st sc of
        Inl e \<Rightarrow> Inl e
      | Inr _ \<Rightarrow>
     (case active_row st i of
        None \<Rightarrow> Inl (NotFound ''tax_rate'' i)
      | Some old \<Rightarrow>
          (let rows = (if dflt then clear_tier_default sc (tax_rates st) else tax_rates st);
               set = (\<lambda>r. r\<lparr>row_rate := (row_rate r)\<lparr>rate_name := trim nm, rate_bps := bps,
                        is_default := dflt, is_inclusive := incl, rate_updated_at := now\<rparr>,
                      row_entity := fst (scope_columns sc), row_location := snd (scope_columns sc),
                      row_from := effective_from w, row_to := effective_to w\<rparr>)
           in case commit_rates st (write_row i set rows) of
                Inl e \<Rightarrow> Inl e
              | Inr st' \<Rightarrow> Inr (\<lparr>rate_id = i, rate_name = trim nm, rate_bps = bps,
                  is_default = dflt, is_inclusive = incl,
                  rate_created_at = rate_created_at (row_rate old), rate_updated_at = now\<rparr>, st'))))))"

subsection \<open>Archiving and assigning rates\<close>

record dependency_counts =
  dep_products :: nat
  dep_categories :: nat
  dep_sale_lines :: nat

definition tax_rate_dependency_counts :: "tax_store \<Rightarrow> string \<Rightarrow> dependency_counts" where
  "tax_rate_dependency_counts st i =
     \<lparr>dep_products = length (filter (\<lambda>p. snd p = i) (product_taxes st)),
      dep_categories = length (filter (\<lambda>p. snd p = i) (category_taxes st)),
      dep_sale_lines = length (filter (\<lambda>x. x = i) (sold_rates st))\<rparr>"

text \<open>A row that answers for a location at any of the three tiers, its window not consulted.\<close>

definition covers_location :: "tax_store \<Rightarrow> string \<Rightarrow> tax_row \<Rightarrow> bool" where
  "covers_location st l r \<longleftrightarrow> row_location r = Some l
     \<or> (row_location r = None \<and> row_entity r \<noteq> None \<and> row_entity r = location_legal_entity st l)
     \<or> (row_location r = None \<and> row_entity r = None)"

definition ensure_scoped_coverage_survives :: "tax_store \<Rightarrow> string \<Rightarrow> core_error + unit" where
  "ensure_scoped_coverage_survives st i =
     (let others = filter (\<lambda>r. row_active r \<and> row_id r \<noteq> i) (tax_rates st) in
      case active_row st i of
        None \<Rightarrow> Inr ()
      | Some r \<Rightarrow>
          (case (row_entity r, row_location r) of
             (None, None) \<Rightarrow> Inr ()
           | (_, Some loc) \<Rightarrow>
               if filter (covers_location st loc) others = [] then Inl (Validation ''tax_rate'')
               else Inr ()
           | (Some ent, None) \<Rightarrow>
               if filter (\<lambda>l. snd l = Some ent \<and> \<not> list_ex (\<lambda>t. row_location t = Some (fst l)) others
                    \<and> \<not> list_ex (\<lambda>t. row_location t = None \<and> row_entity t = snd l) others
                    \<and> \<not> list_ex (\<lambda>t. row_location t = None \<and> row_entity t = None) others)
                  (locations st) \<noteq> []
               then Inl (Validation ''tax_rate'') else Inr ()))"

definition delete_tax_rate :: "string \<Rightarrow> tax_store \<Rightarrow> core_error + tax_store" where
  "delete_tax_rate i st =
     (if dep_sale_lines (tax_rate_dependency_counts st i) > 0 then Inl (Validation ''tax_rate'')
      else (case ensure_scoped_coverage_survives st i of
        Inl e \<Rightarrow> Inl e
      | Inr _ \<Rightarrow>
          if active_row st i = None then Inl (NotFound ''tax_rate'' i)
          else Inr (st\<lparr>tax_rates := write_row i (\<lambda>r. r\<lparr>row_active := False\<rparr>) (tax_rates st),
                       product_taxes := filter (\<lambda>p. snd p \<noteq> i) (product_taxes st),
                       category_taxes := filter (\<lambda>p. snd p \<noteq> i) (category_taxes st)\<rparr>)))"

definition ensure_active_tax_rate_ids :: "tax_store \<Rightarrow> string list \<Rightarrow> core_error + unit" where
  "ensure_active_tax_rate_ids st is =
     (case List.find (\<lambda>i. get_tax_rate st i = None) is of
        Some i \<Rightarrow> Inl (NotFound ''tax_rate'' i)
      | None \<Rightarrow> Inr ())"

text \<open>\<open>DELETE\<close> the assignments of a key, then \<open>INSERT OR IGNORE\<close> the new ones in order.\<close>

definition assign :: "'k \<Rightarrow> 'i list \<Rightarrow> ('k \<times> 'i) list \<Rightarrow> ('k \<times> 'i) list" where
  "assign k is t = filter (\<lambda>p. fst p \<noteq> k) t @ map (Pair k) (rev (remdups (rev is)))"

definition set_product_tax_rates :: "sku \<Rightarrow> string list \<Rightarrow> tax_store \<Rightarrow> core_error + tax_store" where
  "set_product_tax_rates s is st =
     (case ensure_active_tax_rate_ids st is of
        Inl e \<Rightarrow> Inl e
      | Inr _ \<Rightarrow> Inr (st\<lparr>product_taxes := assign s is (product_taxes st)\<rparr>))"

definition get_product_tax_rates :: "tax_store \<Rightarrow> sku \<Rightarrow> string list" where
  "get_product_tax_rates st s = map snd (filter (\<lambda>p. fst p = s) (product_taxes st))"

definition set_category_tax_rates :: "string \<Rightarrow> string list \<Rightarrow> tax_store \<Rightarrow> core_error + tax_store" where
  "set_category_tax_rates c is st =
     (case ensure_active_tax_rate_ids st is of
        Inl e \<Rightarrow> Inl e
      | Inr _ \<Rightarrow> Inr (st\<lparr>category_taxes := assign c is (category_taxes st)\<rparr>))"

definition get_category_tax_rates :: "tax_store \<Rightarrow> string \<Rightarrow> string list" where
  "get_category_tax_rates st c = map snd (filter (\<lambda>p. fst p = c) (category_taxes st))"

subsection \<open>Resolution\<close>

datatype scope_tier = TierLocation | TierEntity | TierGlobal

fun in_tier :: "scope_tier \<Rightarrow> string \<Rightarrow> string option \<Rightarrow> tax_row \<Rightarrow> bool" where
  "in_tier TierLocation l e r = (row_scope r = Some (Location l))"
| "in_tier TierEntity l e r =
     (case e of None \<Rightarrow> False | Some ent \<Rightarrow> row_scope r = Some (LegalEntity ent))"
| "in_tier TierGlobal l e r = (row_scope r = Some Global)"

definition is_live :: "naive_date \<Rightarrow> tax_row \<Rightarrow> bool" where
  "is_live d r = window_covers (row_from r) (row_to r) d"

definition row_start :: "tax_row \<Rightarrow> naive_date" where
  "row_start r = (case Option.bind (row_from r) parse_effective_date of
     Some d \<Rightarrow> d | None \<Rightarrow> date_min)"

definition is_better_than :: "tax_row \<Rightarrow> tax_row \<Rightarrow> bool" where
  "is_better_than a b =
     (if row_default a \<noteq> row_default b then row_default a
      else if row_start a \<noteq> row_start b then row_start a > row_start b
      else row_id a < row_id b)"

interpretation tax_row_preference: preference is_better_than row_id
proof
  show "\<not> is_better_than x x" for x by (simp add: is_better_than_def)
  show "is_better_than x y \<Longrightarrow> is_better_than y z \<Longrightarrow> is_better_than x z" for x y z
    by (cases "row_default x"; cases "row_default y"; cases "row_default z")
      (auto simp: is_better_than_def split: if_splits)
  show "row_id x \<noteq> row_id y \<Longrightarrow> is_better_than x y \<or> is_better_than y x" for x y
    by (auto simp: is_better_than_def)
qed

text \<open>The rows the query returns: active, at the location, its entity, or global.\<close>

definition rate_candidates :: "tax_store \<Rightarrow> string \<Rightarrow> string option \<Rightarrow> tax_row list" where
  "rate_candidates st l e =
     filter (\<lambda>r. row_active r \<and>
       (row_location r = Some l
        \<or> (row_location r = None \<and> row_entity r \<noteq> None \<and> row_entity r = e)
        \<or> (row_location r = None \<and> row_entity r = None))) (tax_rates st)"

definition tier_best :: "tax_row list \<Rightarrow> string \<Rightarrow> string option \<Rightarrow> naive_date \<Rightarrow> scope_tier \<Rightarrow> tax_row option" where
  "tier_best cs l e d t = pick_best is_better_than None (filter (\<lambda>r. in_tier t l e r \<and> is_live d r) cs)"

definition resolve_tax_rate_for_location ::
    "tax_store \<Rightarrow> string \<Rightarrow> string option \<Rightarrow> string \<Rightarrow> core_error + tax_rate option" where
  "resolve_tax_rate_for_location st l e as_of =
     (case parse_effective_date as_of of
        None \<Rightarrow> Inl (Validation ''as_of'')
      | Some d \<Rightarrow>
          (let cs = rate_candidates st l e in
           case tier_best cs l e d TierLocation of
             Some r \<Rightarrow> Inr (Some (row_rate r))
           | None \<Rightarrow>
          (case tier_best cs l e d TierEntity of
             Some r \<Rightarrow> Inr (Some (row_rate r))
           | None \<Rightarrow>
          (case tier_best cs l e d TierGlobal of
             Some r \<Rightarrow> Inr (Some (row_rate r))
           | None \<Rightarrow> Inr None))))"

definition tax_rate_applies_at ::
    "tax_store \<Rightarrow> string \<Rightarrow> tax_sale_scope \<Rightarrow> string option \<Rightarrow> core_error + bool" where
  "tax_rate_applies_at st i sc e =
     (case active_row st i of
        None \<Rightarrow> Inr False
      | Some r \<Rightarrow>
          (case row_scope r of
             None \<Rightarrow> Inr False
           | Some mine \<Rightarrow>
               if \<not> (case mine of Global \<Rightarrow> True | Location l \<Rightarrow> l = scope_location sc
                        | LegalEntity x \<Rightarrow> e = Some x)
               then Inr False
               else (case as_date sc of
                       Inl err \<Rightarrow> Inl err
                     | Inr d \<Rightarrow> Inr (window_covers (row_from r) (row_to r) d))))"

text \<open>The loop over the ids assigned to a product or a category.\<close>

fun assigned_rates ::
    "tax_store \<Rightarrow> (string \<Rightarrow> core_error + bool) \<Rightarrow> string list \<Rightarrow> core_error + tax_rate list" where
  "assigned_rates st applies [] = Inr []"
| "assigned_rates st applies (i # is) =
     (case applies i of
        Inl e \<Rightarrow> Inl e
      | Inr b \<Rightarrow>
          (case assigned_rates st applies is of
             Inl e \<Rightarrow> Inl e
           | Inr rs \<Rightarrow>
               Inr (if b then (case get_tax_rate st i of Some r \<Rightarrow> r # rs | None \<Rightarrow> rs) else rs)))"

definition product_id_by_sku :: "tax_store \<Rightarrow> sku \<Rightarrow> string option" where
  "product_id_by_sku st s = map_of (products st) s"

definition resolve_best_tax_rates_for_sku_at ::
    "tax_store \<Rightarrow> sku \<Rightarrow> tax_sale_scope option \<Rightarrow> core_error + tax_rate list" where
  "resolve_best_tax_rates_for_sku_at st s scope =
     (let e = Option.bind scope (\<lambda>sc. location_legal_entity st (scope_location sc));
          applies = (\<lambda>i. case scope of None \<Rightarrow> Inr True | Some sc \<Rightarrow> tax_rate_applies_at st i sc e);
          fallback = (\<lambda>_::unit.
            (case (case scope of
                     Some sc \<Rightarrow> resolve_tax_rate_for_location st (scope_location sc) e (scope_as_of sc)
                   | None \<Rightarrow> Inr (get_default_tax_rate st)) of
               Inl err \<Rightarrow> Inl err
             | Inr (Some r) \<Rightarrow> Inr [r]
             | Inr None \<Rightarrow> Inr []));
          by_category = (\<lambda>_::unit.
            (case Option.bind (product_id_by_sku st s)
                    (\<lambda>pid. Option.bind (map_of (product_category st) pid) (\<lambda>c. c)) of
               None \<Rightarrow> fallback ()
             | Some cid \<Rightarrow>
                 (case assigned_rates st applies (get_category_tax_rates st cid) of
                    Inl err \<Rightarrow> Inl err
                  | Inr rs \<Rightarrow> if rs \<noteq> [] then Inr rs else fallback ())))
      in case assigned_rates st applies (get_product_tax_rates st s) of
           Inl err \<Rightarrow> Inl err
         | Inr rs \<Rightarrow> if rs \<noteq> [] then Inr rs else by_category ())"

definition resolve_best_tax_rates_for_sku :: "tax_store \<Rightarrow> sku \<Rightarrow> core_error + tax_rate list" where
  "resolve_best_tax_rates_for_sku st s = resolve_best_tax_rates_for_sku_at st s None"

text \<open>The mode that rounds one rate's contribution, and which of the two decided.\<close>

datatype rounding_source = Statutory | Preference

fun source_name :: "rounding_source \<Rightarrow> string" where
  "source_name Statutory = ''statutory''"
| "source_name Preference = ''preference''"

definition effective_rounding_for_rate ::
    "tax_store \<Rightarrow> string \<Rightarrow> rounding_mode \<Rightarrow> core_error + rounding_mode \<times> rounding_source" where
  "effective_rounding_for_rate st i pref =
     (case tax_rate_rounding_mode st i of
        Inl e \<Rightarrow> Inl e
      | Inr (Some m) \<Rightarrow> Inr (m, Statutory)
      | Inr None \<Rightarrow> Inr (pref, Preference))"

subsection \<open>Facts about resolution\<close>

lemma rate_candidates_ids: "distinct (map row_id (tax_rates st)) \<Longrightarrow> distinct (map row_id (rate_candidates st l e))"
  by (simp add: rate_candidates_def distinct_map_filter)

lemma tier_best_Some:
  assumes "distinct (map row_id cs)"
  shows "tier_best cs l e d t = Some r \<longleftrightarrow>
    tax_row_preference.best_of (filter (\<lambda>r. in_tier t l e r \<and> is_live d r) cs) r"
  using assms unfolding tier_best_def
  by (intro tax_row_preference.pick_best_Some) (simp add: distinct_map_filter)

lemma tier_best_None: "tier_best cs l e d t = None \<longleftrightarrow> (\<forall>r \<in> set cs. \<not> (in_tier t l e r \<and> is_live d r))"
  by (auto simp: tier_best_def tax_row_preference.pick_best_None filter_empty_conv)

lemma tier_best_perm:
  assumes "distinct (map row_id cs)" and "mset cs = mset cs'"
  shows "tier_best cs l e d t = tier_best cs' l e d t"
  unfolding tier_best_def
  by (rule tax_row_preference.pick_best_perm) (use assms in \<open>simp_all add: distinct_map_filter\<close>)

text \<open>The rows that price a sale at a location on a date, and their tier.\<close>

definition applicable :: "tax_store \<Rightarrow> string \<Rightarrow> string option \<Rightarrow> naive_date \<Rightarrow> scope_tier \<Rightarrow> tax_row \<Rightarrow> bool" where
  "applicable st l e d t r \<longleftrightarrow> r \<in> set (tax_rates st) \<and> row_active r \<and> in_tier t l e r \<and> is_live d r"

fun tier_rank :: "scope_tier \<Rightarrow> nat" where
  "tier_rank TierLocation = 0" | "tier_rank TierEntity = 1" | "tier_rank TierGlobal = 2"

lemma classify_Some [simp]:
  "classify e l = Some Global \<longleftrightarrow> e = None \<and> l = None"
  "classify e l = Some (LegalEntity x) \<longleftrightarrow> e = Some x \<and> l = None"
  "classify e l = Some (Location x) \<longleftrightarrow> e = None \<and> l = Some x"
  by (cases e; cases l; auto)+

lemma applicable_iff:
  "applicable st l e d t r \<longleftrightarrow> r \<in> set (filter (\<lambda>r. in_tier t l e r \<and> is_live d r) (rate_candidates st l e))"
  by (cases t) (auto simp: applicable_def rate_candidates_def split: option.splits)

lemma resolve_cases:
  assumes "distinct (map row_id (tax_rates st))" and "parse_effective_date as_of = Some d"
    and "resolve_tax_rate_for_location st l e as_of = Inr res"
  shows "case res of
      None \<Rightarrow> \<forall>t r. \<not> applicable st l e d t r
    | Some rate \<Rightarrow> \<exists>t r. row_rate r = rate \<and> applicable st l e d t r
        \<and> (\<forall>t' r'. applicable st l e d t' r' \<longrightarrow> tier_rank t < tier_rank t'
             \<or> (t' = t \<and> (r' = r \<or> is_better_than r r')))"
proof -
  let ?cs = "rate_candidates st l e"
  have d: "distinct (map row_id ?cs)" using assms(1) by (rule rate_candidates_ids)
  have none: "tier_best ?cs l e d t = None \<longleftrightarrow> (\<forall>r. \<not> applicable st l e d t r)" for t
    unfolding tier_best_None applicable_iff by auto
  have some: "tier_best ?cs l e d t = Some r \<longleftrightarrow>
      applicable st l e d t r \<and> (\<forall>r'. applicable st l e d t r' \<longrightarrow> r' = r \<or> is_better_than r r')" for t r
    unfolding tier_best_Some [OF d] tax_row_preference.best_of_def applicable_iff by auto
  have finish: ?thesis
    if r: "tier_best ?cs l e d t = Some r"
      and lower: "\<And>t'. tier_rank t' < tier_rank t \<Longrightarrow> tier_best ?cs l e d t' = None"
      and res: "res = Some (row_rate r)" for t r
  proof -
    have "tier_rank t < tier_rank t' \<or> (t' = t \<and> (r' = r \<or> is_better_than r r'))"
      if "applicable st l e d t' r'" for t' r'
    proof (cases "t' = t")
      case True
      then show ?thesis using r [unfolded some] that by auto
    next
      case False
      moreover have "\<not> tier_rank t' < tier_rank t" using lower [of t', unfolded none] that by blast
      ultimately show ?thesis by (cases t; cases t') simp_all
    qed
    then show ?thesis using r [unfolded some] res by auto
  qed
  have choice: "res = (case tier_best ?cs l e d TierLocation of Some r \<Rightarrow> Some (row_rate r)
      | None \<Rightarrow> (case tier_best ?cs l e d TierEntity of Some r \<Rightarrow> Some (row_rate r)
      | None \<Rightarrow> map_option row_rate (tier_best ?cs l e d TierGlobal)))"
    using assms(2,3) by (simp add: resolve_tax_rate_for_location_def Let_def split: option.splits)
  show ?thesis
  proof (cases res)
    case None
    then have "tier_best ?cs l e d t = None" for t
      using choice by (cases t) (simp_all split: option.splits)
    then show ?thesis using None none by simp
  next
    case (Some rate)
    then consider r where "tier_best ?cs l e d TierLocation = Some r" "rate = row_rate r"
      | r where "tier_best ?cs l e d TierLocation = None"
          "tier_best ?cs l e d TierEntity = Some r" "rate = row_rate r"
      | r where "tier_best ?cs l e d TierLocation = None" "tier_best ?cs l e d TierEntity = None"
          "tier_best ?cs l e d TierGlobal = Some r" "rate = row_rate r"
      using choice by (auto split: option.splits)
    then show ?thesis
    proof cases
      case 1
      show ?thesis by (rule finish [OF 1(1)]) (use Some 1 in simp_all)
    next
      case (2 r)
      have "tier_best ?cs l e d t' = None" if "tier_rank t' < tier_rank TierEntity" for t'
        using that 2 by (cases t') simp_all
      then show ?thesis using finish [OF 2(2)] Some 2 by simp
    next
      case (3 r)
      have "tier_best ?cs l e d t' = None" if "tier_rank t' < tier_rank TierGlobal" for t'
        using that 3 by (cases t') simp_all
      then show ?thesis using finish [OF 3(3)] Some 3 by simp
    qed
  qed
qed

lemma resolve_perm:
  assumes "distinct (map row_id (tax_rates st))" and "mset rows = mset (tax_rates st)"
  shows "resolve_tax_rate_for_location (st\<lparr>tax_rates := rows\<rparr>) l e as_of
    = resolve_tax_rate_for_location st l e as_of"
proof -
  have "mset (rate_candidates st l e) = mset (rate_candidates (st\<lparr>tax_rates := rows\<rparr>) l e)"
    using assms(2) by (simp add: rate_candidates_def)
  then have "tier_best (rate_candidates st l e) l e
      = tier_best (rate_candidates (st\<lparr>tax_rates := rows\<rparr>) l e) l e"
    using tier_best_perm [OF rate_candidates_ids [OF assms(1)]] by blast
  then show ?thesis by (simp only: resolve_tax_rate_for_location_def Let_def)
qed

subsection \<open>Facts about writing\<close>

lemma undefault_simps [simp]:
  "row_id (undefault r) = row_id r" "row_default (undefault r) = False"
  "row_entity (undefault r) = row_entity r" "row_location (undefault r) = row_location r"
  "row_active (undefault r) = row_active r" "row_checks (undefault r) = row_checks r"
  "rate_bps (row_rate (undefault r)) = rate_bps (row_rate r)"
  by (simp_all add: undefault_def row_checks_def)

lemma clear_ids [simp]: "map row_id (clear_tier_default sc rows) = map row_id rows"
  by (simp add: clear_tier_default_def comp_def if_distrib cong: if_cong)

lemma clear_checks [simp]: "list_all row_checks (clear_tier_default sc rows) = list_all row_checks rows"
  by (induction rows) (simp_all add: clear_tier_default_def)

lemma clear_defaults:
  "filter row_default (clear_tier_default sc rows)
    = filter (\<lambda>r. \<not> in_scope_columns sc r) (filter row_default rows)"
  by (induction rows) (auto simp: clear_tier_default_def)

lemma clear_defaults_split:
  "filter (\<lambda>x. row_default x \<and> \<not> in_scope_columns sc x) (clear_tier_default sc rows)
    = filter (\<lambda>x. row_default x \<and> \<not> in_scope_columns sc x) rows"
  "filter (\<lambda>x. row_default x \<and> in_scope_columns sc x) (clear_tier_default sc rows) = []"
  by (induction rows) (auto simp: clear_tier_default_def)

lemma scope_columns_key:
  "row_checks r \<Longrightarrow> in_scope_columns sc r \<longleftrightarrow> index_key r = scope_columns sc"
  by (cases sc) (auto simp: row_checks_def index_key_def)

text \<open>Clearing the tier first is what makes the write of a new default pass its unique index.\<close>

lemma schema_ok_append:
  assumes "schema_ok rows" and "row_checks r" and "row_id r \<notin> row_id ` set rows"
    and "index_key r = scope_columns sc"
  shows "schema_ok ((if row_default r then clear_tier_default sc rows else rows) @ [r])"
proof (cases "row_default r")
  case False
  then show ?thesis using assms by (simp add: schema_ok_def)
next
  case True
  let ?ds = "filter (\<lambda>r. \<not> in_scope_columns sc r) (filter row_default rows)"
  have "index_key d \<noteq> index_key r" if "d \<in> set ?ds" for d
    using that assms scope_columns_key [of d sc] by (auto simp: schema_ok_def list_all_iff)
  then have "index_key r \<notin> set (map index_key ?ds)" by (metis (no_types) in_set_conv_nth length_map nth_map nth_mem)
  moreover have "distinct (map index_key ?ds)"
    by (rule distinct_map_filter) (use assms(1) in \<open>simp add: schema_ok_def\<close>)
  moreover have "row_id ` set (clear_tier_default sc rows) = row_id ` set rows"
    by (metis clear_ids list.set_map)
  ultimately show ?thesis using True assms by (simp add: schema_ok_def clear_defaults del: filter_filter)
qed

lemma fresh_row_checks:
  "0 \<le> bps \<Longrightarrow> row_checks (fresh_row i now nm bps dflt incl sc w)
     \<and> index_key (fresh_row i now nm bps dflt incl sc w) = scope_columns sc"
  by (cases sc) (simp_all add: fresh_row_def row_checks_def index_key_def)

lemma fresh_row_simps [simp]:
  "row_id (fresh_row i now nm bps dflt incl sc w) = i"
  "row_default (fresh_row i now nm bps dflt incl sc w) = dflt"
  "row_active (fresh_row i now nm bps dflt incl sc w)"
  by (simp_all add: fresh_row_def)

text \<open>The events of the tables, for the invariant over any history.\<close>

datatype tax_event =
    CreateRate uuid string string int bool bool
  | CreateScoped uuid string string int bool bool tax_rate_scope tax_rate_window
  | UpdateRate string string int bool bool string
  | UpdateScoped string string int bool bool tax_rate_scope tax_rate_window string
  | DeleteRate string
  | SetProductRates sku "string list"
  | SetCategoryRates string "string list"

definition keep :: "'s \<Rightarrow> 'e + 'r \<times> 's \<Rightarrow> 's" where
  "keep s v = (case v of Inr (_, s') \<Rightarrow> s' | Inl _ \<Rightarrow> s)"

definition keep_state :: "'s \<Rightarrow> 'e + 's \<Rightarrow> 's" where
  "keep_state s v = (case v of Inr s' \<Rightarrow> s' | Inl _ \<Rightarrow> s)"

fun tax_step :: "tax_event \<Rightarrow> tax_store \<Rightarrow> tax_store" where
  "tax_step (CreateRate i now nm b d n) st = keep st (create_tax_rate i now nm b d n st)"
| "tax_step (CreateScoped i now nm b d n sc w) st = keep st (create_tax_rate_scoped i now nm b d n sc w st)"
| "tax_step (UpdateRate now nm b d n i) st = keep st (update_tax_rate now nm b d n i st)"
| "tax_step (UpdateScoped now nm b d n sc w i) st = keep st (update_tax_rate_scoped now nm b d n sc w i st)"
| "tax_step (DeleteRate i) st = keep_state st (delete_tax_rate i st)"
| "tax_step (SetProductRates s is) st = keep_state st (set_product_tax_rates s is st)"
| "tax_step (SetCategoryRates c is) st = keep_state st (set_category_tax_rates c is st)"

definition assigned_ids :: "tax_store \<Rightarrow> string set" where
  "assigned_ids st = snd ` set (product_taxes st) \<union> snd ` set (category_taxes st)"

definition actives :: "tax_row list \<Rightarrow> string set" where
  "actives rows = row_id ` {r \<in> set rows. row_active r}"

abbreviation active_ids :: "tax_store \<Rightarrow> string set" where
  "active_ids st \<equiv> actives (tax_rates st)"

text \<open>
  The invariant: the schema's constraints hold, and every assignment of a product or a category
  points at an active rate.
\<close>

definition tax_inv :: "tax_store \<Rightarrow> bool" where
  "tax_inv st \<longleftrightarrow> schema_ok (tax_rates st) \<and> assigned_ids st \<subseteq> active_ids st"

lemma active_row_None_iff: "active_row st i = None \<longleftrightarrow> i \<notin> active_ids st"
  by (auto simp: active_row_def actives_def find_None_iff)

lemma actives_set: "actives rows = set (map row_id (filter row_active rows))"
  by (auto simp: actives_def)

lemma actives_map:
  assumes "\<And>r. row_id (g r) = row_id r" and "\<And>r. row_active (g r) = row_active r"
  shows "actives (map g rows) = actives rows"
proof -
  have "{r \<in> set (map g rows). row_active r} = g ` {r \<in> set rows. row_active r}"
    using assms(2) by auto
  then show ?thesis using assms(1) by (simp add: actives_def image_image)
qed

lemma actives_clear [simp]: "actives (clear_tier_default sc rows) = actives rows"
  unfolding clear_tier_default_def by (rule actives_map) auto

lemma actives_write:
  assumes "\<And>r. row_id (f r) = row_id r" and "\<And>r. row_active (f r) = row_active r"
  shows "actives (write_row i f rows) = actives rows"
  unfolding write_row_def by (rule actives_map) (use assms in auto)

lemma actives_append [simp]: "actives (rows @ rows') = actives rows \<union> actives rows'"
  by (auto simp: actives_def)

lemma actives_deactivate: "actives (write_row i (\<lambda>r. r\<lparr>row_active := False\<rparr>) rows) = actives rows - {i}"
proof -
  have "{r \<in> set (write_row i (\<lambda>r. r\<lparr>row_active := False\<rparr>) rows). row_active r}
      = {r \<in> set rows. row_active r \<and> row_id r \<noteq> i}"
    by (auto simp: write_row_def split: if_splits)
  then show ?thesis by (auto simp: actives_def)
qed

lemma commit_rates_inv:
  assumes "commit_rates st rows = Inr st'" and "tax_inv st" and "active_ids st \<subseteq> actives rows"
  shows "tax_inv st'"
proof -
  have st': "st' = st\<lparr>tax_rates := rows\<rparr>" and "schema_ok rows"
    using assms(1) by (auto simp: commit_rates_def split: if_splits)
  moreover have "assigned_ids st' = assigned_ids st" by (simp add: assigned_ids_def st')
  moreover have "assigned_ids st \<subseteq> actives rows"
    using assms(2,3) unfolding tax_inv_def by (elim conjE) (rule order_trans)
  ultimately show ?thesis by (simp add: tax_inv_def)
qed

lemma create_inv:
  "tax_inv st \<Longrightarrow> create_tax_rate i now nm b d n st = Inr (r, st') \<Longrightarrow> tax_inv st'"
  by (auto simp: create_tax_rate_def Let_def split: sum.splits if_splits elim!: commit_rates_inv)

lemma create_scoped_inv:
  "tax_inv st \<Longrightarrow> create_tax_rate_scoped i now nm b d n sc w st = Inr (r, st') \<Longrightarrow> tax_inv st'"
  by (auto simp: create_tax_rate_scoped_def Let_def split: sum.splits if_splits
      elim!: commit_rates_inv)

lemma update_inv:
  "tax_inv st \<Longrightarrow> update_tax_rate now nm b d n i st = Inr (r, st') \<Longrightarrow> tax_inv st'"
  by (auto simp: update_tax_rate_def Let_def actives_write split: sum.splits if_splits
      elim!: commit_rates_inv)

lemma update_scoped_inv:
  "tax_inv st \<Longrightarrow> update_tax_rate_scoped now nm b d n sc w i st = Inr (r, st') \<Longrightarrow> tax_inv st'"
  by (auto simp: update_tax_rate_scoped_def Let_def actives_write split: sum.splits if_splits
      option.splits elim!: commit_rates_inv)

lemma schema_ok_deactivate:
  "schema_ok rows \<Longrightarrow> schema_ok (write_row i (\<lambda>r. r\<lparr>row_active := False\<rparr>) rows)"
proof -
  have "map row_id (write_row i (\<lambda>r. r\<lparr>row_active := False\<rparr>) rows) = map row_id rows"
    "list_all row_checks (write_row i (\<lambda>r. r\<lparr>row_active := False\<rparr>) rows) = list_all row_checks rows"
    "map index_key (filter row_default (write_row i (\<lambda>r. r\<lparr>row_active := False\<rparr>) rows))
      = map index_key (filter row_default rows)"
    by (induction rows) (auto simp: write_row_def row_checks_def index_key_def)
  then show "schema_ok rows \<Longrightarrow> schema_ok (write_row i (\<lambda>r. r\<lparr>row_active := False\<rparr>) rows)"
    by (simp add: schema_ok_def)
qed

lemma delete_inv:
  assumes "tax_inv st" and "delete_tax_rate i st = Inr st'"
  shows "tax_inv st'"
proof -
  have st': "st' = st\<lparr>tax_rates := write_row i (\<lambda>r. r\<lparr>row_active := False\<rparr>) (tax_rates st),
      product_taxes := filter (\<lambda>p. snd p \<noteq> i) (product_taxes st),
      category_taxes := filter (\<lambda>p. snd p \<noteq> i) (category_taxes st)\<rparr>"
    using assms(2) by (auto simp: delete_tax_rate_def split: if_splits sum.splits)
  have "active_ids st' = active_ids st - {i}" by (simp add: actives_deactivate st')
  moreover have "assigned_ids st' \<subseteq> assigned_ids st - {i}"
    unfolding assigned_ids_def st' by auto
  ultimately show ?thesis using assms(1) schema_ok_deactivate by (auto simp: tax_inv_def st')
qed

lemma assign_sub: "snd ` set t \<subseteq> X \<Longrightarrow> set is \<subseteq> X \<Longrightarrow> snd ` set (assign k is t) \<subseteq> X"
  by (auto simp: assign_def)

lemma ensure_active:
  assumes "ensure_active_tax_rate_ids st is = Inr x"
  shows "set is \<subseteq> active_ids st"
proof
  fix i assume "i \<in> set is"
  then have "get_tax_rate st i \<noteq> None"
    using assms by (auto simp: ensure_active_tax_rate_ids_def find_None_iff split: option.splits)
  then show "i \<in> active_ids st" by (auto simp: get_tax_rate_def active_row_None_iff)
qed

lemma set_product_inv:
  assumes "tax_inv st" and "set_product_tax_rates s is st = Inr st'"
  shows "tax_inv st'"
proof -
  have st': "st' = st\<lparr>product_taxes := assign s is (product_taxes st)\<rparr>" and "set is \<subseteq> active_ids st"
    using assms(2) by (auto simp: set_product_tax_rates_def dest: ensure_active split: sum.splits)
  then have "assigned_ids st' \<subseteq> active_ids st"
    using assms(1) by (simp add: tax_inv_def assigned_ids_def assign_sub)
  then show ?thesis using assms(1) by (simp add: tax_inv_def st')
qed

lemma set_category_inv:
  assumes "tax_inv st" and "set_category_tax_rates s is st = Inr st'"
  shows "tax_inv st'"
proof -
  have st': "st' = st\<lparr>category_taxes := assign s is (category_taxes st)\<rparr>" and "set is \<subseteq> active_ids st"
    using assms(2) by (auto simp: set_category_tax_rates_def dest: ensure_active split: sum.splits)
  then have "assigned_ids st' \<subseteq> active_ids st"
    using assms(1) by (simp add: tax_inv_def assigned_ids_def assign_sub)
  then show ?thesis using assms(1) by (simp add: tax_inv_def st')
qed

lemma tax_step_inv: "tax_inv st \<Longrightarrow> tax_inv (tax_step e st)"
  by (cases e)
    (auto simp: keep_def keep_state_def split: sum.split
      intro: create_inv create_scoped_inv update_inv update_scoped_inv delete_inv set_product_inv
        set_category_inv)

definition empty_tax_store :: tax_store where
  "empty_tax_store = \<lparr>tax_rates = [], product_taxes = [], category_taxes = [], products = [],
     product_category = [], locations = [], legal_entities = [], sold_rates = []\<rparr>"

lemma empty_tax_store_inv: "tax_inv empty_tax_store"
  by (simp add: tax_inv_def empty_tax_store_def schema_ok_def assigned_ids_def)

interpretation tax_machine: machine empty_tax_store tax_step tax_inv
  by unfold_locales (rule empty_tax_store_inv, rule tax_step_inv)

subsection \<open>Properties\<close>

definition demo_row :: "string \<Rightarrow> int \<Rightarrow> bool \<Rightarrow> tax_rate_scope \<Rightarrow> tax_row" where
  "demo_row i bps dflt sc =
     fresh_row i ''2026-01-01T00:00:00.000Z'' i bps dflt False sc \<lparr>effective_from = Some ''2026-01-01'', effective_to = None\<rparr>"

definition demo_tax_store :: tax_store where
  "demo_tax_store = \<lparr>tax_rates = [demo_row ''g'' 1000 True Global, demo_row ''e'' 1100 False (LegalEntity ''pt''),
       demo_row ''l'' 1200 False (Location ''bali'')],
     product_taxes = [(''COFFEE'', ''e'')], category_taxes = [], products = [(''COFFEE'', ''p1'')],
     product_category = [(''p1'', None)], locations = [(''bali'', Some ''pt''), (''jkt'', Some ''pt'')],
     legal_entities = [''pt''], sold_rates = []\<rparr>"

lemmas demo_tax_defs = demo_tax_store_def demo_row_def fresh_row_def tax_inv_def schema_ok_def
  row_checks_def index_key_def assigned_ids_def actives_set

lemma demo_tax_inv: "tax_inv demo_tax_store"
  by (simp add: demo_tax_defs)

lemma demo_date [simp]: "parse_effective_date ''2026-01-01'' = Some (Date 2026 1 1)"
  "parse_effective_date ''2026-06-30'' = Some (Date 2026 6 30)"
  by (simp_all add: parse_effective_date_def is_ascii_digit_def digit_val_def from_ymd_opt_def
      days_in_month_def)

text \<open>
  After any history of creating, updating, archiving and assigning, ids are distinct, no row
  carries two scopes, every tier has at most one default, and products and categories are assigned
  active rates only.
\<close>

theorem tax_store_invariant: "tax_inv (run tax_step es empty_tax_store)"
  by (rule tax_machine.inv_run)

text \<open>
  C36. Resolution at a location on a business date returns a rate that is active, in scope and in
  its validity window there; no row of a more specific tier applies, and within the tier every
  other applicable row loses (not the default, or starting earlier, or with a later id). When it
  returns no rate, no row applies at any tier.
\<close>

theorem tax_resolution_most_specific:
  assumes "tax_inv st" and "parse_effective_date as_of = Some d"
    and "resolve_tax_rate_for_location st l e as_of = Inr res"
  shows "case res of
      None \<Rightarrow> \<forall>t r. \<not> applicable st l e d t r
    | Some rate \<Rightarrow> \<exists>t r. row_rate r = rate \<and> applicable st l e d t r
        \<and> (\<forall>t' r'. applicable st l e d t' r' \<longrightarrow> tier_rank t < tier_rank t'
             \<or> (t' = t \<and> (r' = r \<or> is_better_than r r')))"
  using assms(1) by (intro resolve_cases [OF _ assms(2,3)]) (simp add: tax_inv_def schema_ok_def)

lemma demo_resolve:
  "resolve_tax_rate_for_location demo_tax_store ''bali'' (Some ''pt'') ''2026-06-30''
     = Inr (Some (row_rate (demo_row ''l'' 1200 False (Location ''bali''))))"
  by (simp add: resolve_tax_rate_for_location_def rate_candidates_def tier_best_def is_live_def
      window_covers_def less_eq_naive_date_def demo_tax_store_def demo_row_def fresh_row_def)

theorem tax_resolution_most_specific_witness:
  "\<exists>t r. row_rate r = row_rate (demo_row ''l'' 1200 False (Location ''bali''))
     \<and> applicable demo_tax_store ''bali'' (Some ''pt'') (Date 2026 6 30) t r
     \<and> (\<forall>t' r'. applicable demo_tax_store ''bali'' (Some ''pt'') (Date 2026 6 30) t' r' \<longrightarrow>
          tier_rank t < tier_rank t' \<or> (t' = t \<and> (r' = r \<or> is_better_than r r')))"
  using tax_resolution_most_specific [OF demo_tax_inv demo_date(2) demo_resolve]
  by (simp only: option.case)

text \<open>
  The rate resolved for a location does not depend on the order in which the database
  returns the rows.
\<close>

theorem tax_resolution_order_independent:
  assumes "tax_inv st" and "mset rows = mset (tax_rates st)"
  shows "resolve_tax_rate_for_location (st\<lparr>tax_rates := rows\<rparr>) l e as_of
    = resolve_tax_rate_for_location st l e as_of"
  using assms by (intro resolve_perm) (simp_all add: tax_inv_def schema_ok_def)

theorem tax_resolution_order_independent_witness:
  "resolve_tax_rate_for_location (demo_tax_store\<lparr>tax_rates := rev (tax_rates demo_tax_store)\<rparr>)
     ''bali'' (Some ''pt'') ''2026-06-30''
   = Inr (Some (row_rate (demo_row ''l'' 1200 False (Location ''bali''))))"
  using tax_resolution_order_independent [OF demo_tax_inv, of "rev (tax_rates demo_tax_store)"]
  by (simp add: demo_resolve)

text \<open>
  Authoring a scoped rate with valid inputs and a fresh id always commits: the old default of
  the tier is cleared first, so the per-tier unique index cannot refuse the new one. Afterwards
  the new row is in the table, a new default is the only default of its tier, and the defaults of
  the other tiers are what they were.
\<close>

theorem create_scoped_commits:
  assumes "tax_inv st" and "i \<notin> row_id ` set (tax_rates st)"
    and "validate_tax_rate_input nm bps = Inr ()" and "window_validate w = Inr ()"
    and "validate_scope_target st sc = Inr ()"
  shows "\<exists>r st'. create_tax_rate_scoped i now nm bps dflt incl sc w st = Inr (row_rate r, st')
    \<and> row_id r = i \<and> row_scope r = Some sc \<and> r \<in> set (tax_rates st') \<and> tax_inv st'
    \<and> (dflt \<longrightarrow> filter (in_scope_columns sc) (filter row_default (tax_rates st')) = [r])
    \<and> filter (\<lambda>x. \<not> in_scope_columns sc x) (filter row_default (tax_rates st'))
        = filter (\<lambda>x. \<not> in_scope_columns sc x) (filter row_default (tax_rates st))"
proof -
  let ?r = "fresh_row i now nm bps dflt incl sc w"
  let ?rows = "(if dflt then clear_tier_default sc (tax_rates st) else tax_rates st) @ [?r]"
  have bps: "0 \<le> bps" using assms(3) by (simp add: validate_tax_rate_input_def split: if_splits)
  have sch: "schema_ok (tax_rates st)" using assms(1) by (simp add: tax_inv_def)
  have "schema_ok ?rows"
    using schema_ok_append [OF sch, of ?r sc] fresh_row_checks [OF bps] assms(2) by simp
  then have run: "create_tax_rate_scoped i now nm bps dflt incl sc w st
      = Inr (row_rate ?r, st\<lparr>tax_rates := ?rows\<rparr>)"
    using assms(3-5) by (simp add: create_tax_rate_scoped_def commit_rates_def Let_def)
  have sc: "row_scope ?r = Some sc" "in_scope_columns sc (fresh_row i now nm bps b incl sc w)" for b
    by (cases sc; simp add: fresh_row_def)+
  have "tax_inv (st\<lparr>tax_rates := ?rows\<rparr>)" by (rule create_scoped_inv [OF assms(1) run])
  then show ?thesis using run sc
    by (intro exI [of _ ?r] exI [of _ "st\<lparr>tax_rates := ?rows\<rparr>"]) (simp add: clear_defaults_split)
qed

theorem create_scoped_commits_witness:
  "\<exists>r st'. create_tax_rate_scoped ''n'' ''now'' ''PB1'' 1000 True False (Location ''jkt'')
       \<lparr>effective_from = None, effective_to = None\<rparr> demo_tax_store = Inr (row_rate r, st')
     \<and> row_id r = ''n'' \<and> tax_inv st'"
proof -
  have "''n'' \<notin> row_id ` set (tax_rates demo_tax_store)" by (simp add: demo_tax_defs)
  moreover have "validate_tax_rate_input ''PB1'' 1000 = Inr ()"
    by (simp add: validate_tax_rate_input_def max_tax_rate_bps_def trim_def is_whitespace_def is_cont_def)
  moreover have "window_validate \<lparr>effective_from = None, effective_to = None\<rparr> = Inr ()"
    by (simp add: window_validate_def)
  moreover have "validate_scope_target demo_tax_store (Location ''jkt'') = Inr ()"
    by (simp add: demo_tax_store_def trim_def is_whitespace_def is_cont_def)
  ultimately show ?thesis
    using create_scoped_commits [OF demo_tax_inv, of "''n''" "''PB1''" 1000 _ "Location ''jkt''" "''now''" True False]
    by blast
qed

text \<open>
  Archiving never strands a location: when a rate scoped to a location, or to the entity the
  location belongs to, is archived successfully, another active rate still answers for that
  location at some tier.
\<close>

theorem archive_keeps_coverage:
  assumes "delete_tax_rate i st = Inr st'" and "active_row st i = Some r"
    and "row_location r = Some l
      \<or> (row_location r = None \<and> row_entity r = Some e \<and> (l, Some e) \<in> set (locations st)
          \<and> location_legal_entity st l = Some e)"
  shows "\<exists>r' \<in> set (tax_rates st'). row_active r' \<and> row_id r' \<noteq> i \<and> covers_location st' l r'"
proof -
  let ?others = "filter (\<lambda>r. row_active r \<and> row_id r \<noteq> i) (tax_rates st)"
  have cov: "ensure_scoped_coverage_survives st i = Inr ()"
    and st': "st' = st\<lparr>tax_rates := write_row i (\<lambda>r. r\<lparr>row_active := False\<rparr>) (tax_rates st),
      product_taxes := filter (\<lambda>p. snd p \<noteq> i) (product_taxes st),
      category_taxes := filter (\<lambda>p. snd p \<noteq> i) (category_taxes st)\<rparr>"
    using assms(1) by (auto simp: delete_tax_rate_def split: if_splits sum.splits)
  have "\<exists>r' \<in> set ?others. covers_location st l r'"
    using assms(3)
  proof
    assume "row_location r = Some l"
    then show ?thesis using cov assms(2)
      by (cases "row_entity r")
        (auto simp: ensure_scoped_coverage_survives_def filter_empty_conv split: if_splits)
  next
    assume ent: "row_location r = None \<and> row_entity r = Some e \<and> (l, Some e) \<in> set (locations st)
      \<and> location_legal_entity st l = Some e"
    then show ?thesis using cov assms(2)
      by (fastforce simp: ensure_scoped_coverage_survives_def filter_empty_conv list_ex_iff
          covers_location_def split: if_splits)
  qed
  then obtain r' where r': "r' \<in> set (tax_rates st)" "row_active r'" "row_id r' \<noteq> i"
    "covers_location st l r'" by auto
  then have "r' \<in> set (tax_rates st')" by (auto simp: st' write_row_def image_iff)
  then show ?thesis using r' by (auto simp: st' covers_location_def location_legal_entity_def)
qed

theorem archive_keeps_coverage_witness:
  "\<exists>st'. delete_tax_rate ''l'' demo_tax_store = Inr st'
     \<and> (\<exists>r' \<in> set (tax_rates st'). row_active r' \<and> row_id r' \<noteq> ''l'' \<and> covers_location st' ''bali'' r')"
proof -
  have row: "active_row demo_tax_store ''l'' = Some (demo_row ''l'' 1200 False (Location ''bali''))"
    by (simp add: active_row_def demo_tax_defs)
  then obtain st' where del: "delete_tax_rate ''l'' demo_tax_store = Inr st'"
    by (simp add: delete_tax_rate_def tax_rate_dependency_counts_def ensure_scoped_coverage_survives_def
        covers_location_def demo_tax_defs)
  then show ?thesis using archive_keeps_coverage [OF del row] by (simp add: demo_row_def fresh_row_def)
qed

text \<open>
  \<open>update_tax_rate\<close> clears the tenant-global default whatever row it updates, although the
  row it then flags may be scoped to a location: updating a location's rate as a default commits
  and leaves the tenant without a global default, so the unscoped lookup answers with the rate
  of that one location.
\<close>

theorem update_scoped_row_drops_global_default:
  "\<exists>r st'. update_tax_rate ''now'' ''Bali'' 1200 True False ''l'' demo_tax_store = Inr (r, st')
     \<and> filter (\<lambda>r. row_default r \<and> row_scope r = Some Global) (tax_rates demo_tax_store) \<noteq> []
     \<and> filter (\<lambda>r. row_default r \<and> row_scope r = Some Global) (tax_rates st') = []
     \<and> map_option rate_id (get_default_tax_rate demo_tax_store) = Some ''g''
     \<and> map_option rate_id (get_default_tax_rate st') = Some ''l''"
  by (simp add: update_tax_rate_def validate_tax_rate_input_def max_tax_rate_bps_def trim_def
      is_whitespace_def is_cont_def active_row_def commit_rates_def write_row_def get_default_tax_rate_def
      clear_tier_default_def undefault_def demo_tax_defs)

end
