(* ===== verification/Sale_Tax.thy ===== *)
theory Sale_Tax
  imports Tax_Rates
begin

section \<open>Tax on a sale\<close>

text \<open>
  Models the tax computation: \<open>RoundingMode::divide\<close> of \<open>modules/tax/src/models.rs\<close>,
  \<open>compute_line_tax\<close> of \<open>crates/kasirmu-core/src/db/sales.rs\<close>, and the sale and cart
  computations of \<open>crates/kasirmu-core/src/db/sales_tax.rs\<close>. The per-rate breakdown is kept as
  data; its serialisation to JSON by \<open>serde_json\<close> is the parameter \<open>json\<close>. The sale an error
  leaves behind is not modelled: callers drop it.
\<close>

subsection \<open>Rounding one contribution\<close>

text \<open>\<open>Err ()\<close> is the \<open>None\<close> of the source; \<open>/\<close> and \<open>%\<close> panic on zero and on \<open>i64::MIN / -1\<close>.\<close>

definition divide :: "rounding_mode \<Rightarrow> int \<Rightarrow> int \<Rightarrow> (unit, int) outcome" where
  "divide m n d =
     (if d = 0 \<or> (n = i64_min \<and> d = - 1) then Panic
      else (case m of
              Truncate \<Rightarrow> Ok (n sdiv d)
            | HalfUp \<Rightarrow>
                if n smod d = 0 then Ok (n sdiv d)
                else (case checked_add n (d sdiv 2) of None \<Rightarrow> Err () | Some x \<Rightarrow> Ok (x sdiv d))))"

definition compute_line_tax ::
    "int \<Rightarrow> int \<Rightarrow> bool \<Rightarrow> currency \<Rightarrow> rounding_mode \<Rightarrow> (core_error, money) outcome" where
  "compute_line_tax base bps incl cur m =
     obind (ok_or (checked_mul base bps) (Validation ''tax'')) (\<lambda>numerator.
     obind (if incl then ok_or (checked_add 10000 bps) (Validation ''rate_bps'') else Ok 10000)
       (\<lambda>divisor.
     (case divide m numerator divisor of
        Ok t \<Rightarrow> Ok (mk_money t cur)
      | Err _ \<Rightarrow> Err (Validation ''tax'')
      | Panic \<Rightarrow> Panic)))"

subsection \<open>A sale\<close>

record breakdown_entry =
  bd_rate_id :: "string option"
  bd_rate_bps :: int
  bd_inclusive :: bool
  bd_tax_minor :: int
  bd_rounding :: string
  bd_rounding_source :: string
  bd_rate_source :: "string option"

type_synonym lua_override = "sku \<times> int \<times> bool"

definition add_exclusive :: "money option \<Rightarrow> money \<Rightarrow> (core_error, money option) outcome" where
  "add_exclusive acc t =
     (case acc of
        None \<Rightarrow> Ok (Some t)
      | Some a \<Rightarrow> obind (ok_or (money_add a t) (Validation ''tax'')) (\<lambda>s. Ok (Some s)))"

text \<open>The loop over the resolved rates of one line.\<close>

fun rate_loop ::
    "tax_store \<Rightarrow> rounding_mode \<Rightarrow> money \<Rightarrow> tax_rate list \<Rightarrow> money \<times> money option \<times> breakdown_entry list
       \<Rightarrow> (core_error, money \<times> money option \<times> breakdown_entry list) outcome" where
  "rate_loop st mode sub [] acc = Ok acc"
| "rate_loop st mode sub (r # rs) (line_tax, excl, bd) =
     obind (of_sum (effective_rounding_for_rate st (rate_id r) mode)) (\<lambda>(eff, src).
     obind (compute_line_tax (minor_units sub) (rate_bps r) (is_inclusive r) (currency sub) eff)
       (\<lambda>tax.
     obind (ok_or (money_add line_tax tax) (Validation ''tax'')) (\<lambda>line_tax'.
     obind (if \<not> is_inclusive r then add_exclusive excl tax else Ok excl) (\<lambda>excl'.
     rate_loop st mode sub rs
       (line_tax', excl',
        bd @ [\<lparr>bd_rate_id = Some (rate_id r), bd_rate_bps = rate_bps r,
               bd_inclusive = is_inclusive r, bd_tax_minor = minor_units tax,
               bd_rounding = wire_name eff, bd_rounding_source = source_name src,
               bd_rate_source = None\<rparr>])))))"

text \<open>The arm of a line whose SKU a plugin overrides.\<close>

definition override_line ::
    "tax_store \<Rightarrow> rounding_mode \<Rightarrow> tax_sale_scope option \<Rightarrow> sale_line \<Rightarrow> int \<Rightarrow> bool \<Rightarrow> money \<times> money option
       \<Rightarrow> (core_error, money \<times> money option \<times> breakdown_entry list) outcome" where
  "override_line st mode scope l bps incl acc =
     (case acc of (line_tax, excl) \<Rightarrow>
     obind (of_sum (resolve_best_tax_rates_for_sku_at st (sline_sku l) scope)) (\<lambda>rates.
     obind (case rates of
              r # _ \<Rightarrow> of_sum (effective_rounding_for_rate st (rate_id r) mode)
            | [] \<Rightarrow> Ok (mode, Preference)) (\<lambda>(eff, src).
     obind (compute_line_tax (minor_units (sline_total l)) bps incl (currency (sline_total l)) eff)
       (\<lambda>tax.
     obind (ok_or (money_add line_tax tax) (Validation ''tax'')) (\<lambda>line_tax'.
     obind (if \<not> incl then add_exclusive excl tax else Ok excl) (\<lambda>excl'.
     Ok (line_tax', excl',
         [\<lparr>bd_rate_id = None, bd_rate_bps = bps, bd_inclusive = incl,
           bd_tax_minor = minor_units tax, bd_rounding = wire_name eff,
           bd_rounding_source = source_name src, bd_rate_source = Some ''lua_override''\<rparr>])))))))"

text \<open>One line: override or resolved rates, then the breakdown and the amount are stored.\<close>

definition tax_line ::
    "tax_store \<Rightarrow> (breakdown_entry list \<Rightarrow> string option) \<Rightarrow> lua_override list \<Rightarrow> rounding_mode
       \<Rightarrow> tax_sale_scope option \<Rightarrow> currency \<Rightarrow> sale_line \<Rightarrow> money option
       \<Rightarrow> (core_error, sale_line \<times> money option) outcome" where
  "tax_line st json overrides mode scope cur l excl =
     obind (case List.find (\<lambda>(s, _, _). s = sline_sku l) overrides of
              Some (_, bps, incl) \<Rightarrow>
                obind (override_line st mode scope l bps incl (money_zero cur, excl)) (\<lambda>r. Ok (None, r))
            | None \<Rightarrow>
                obind (of_sum (resolve_best_tax_rates_for_sku_at st (sline_sku l) scope)) (\<lambda>rates.
                obind (rate_loop st mode (sline_total l) rates (money_zero cur, excl, [])) (\<lambda>r.
                Ok (case rates of [] \<Rightarrow> None | x # _ \<Rightarrow> Some (rate_id x), r))))
       (\<lambda>(rate, line_tax, excl', bd).
     obind (if bd = [] then Ok None
            else (case json bd of Some s \<Rightarrow> Ok (Some s) | None \<Rightarrow> Err Internal)) (\<lambda>js.
     Ok (l\<lparr>tax_rate_id := rate, tax_breakdown_json := js, tax_amount := line_tax\<rparr>, excl')))"

definition add_opt :: "money option \<Rightarrow> money \<Rightarrow> core_error \<Rightarrow> (core_error, money option) outcome" where
  "add_opt acc m e =
     (case acc of
        None \<Rightarrow> Ok (Some m)
      | Some a \<Rightarrow> obind (ok_or (money_add a m) e) (\<lambda>s. Ok (Some s)))"

fun tax_lines ::
    "(sale_line \<Rightarrow> money option \<Rightarrow> (core_error, sale_line \<times> money option) outcome) \<Rightarrow> sale_line list
       \<Rightarrow> money option \<times> money option \<times> money option
       \<Rightarrow> (core_error, sale_line list \<times> money option \<times> money option \<times> money option) outcome" where
  "tax_lines one [] (tot, sub, excl) = Ok ([], tot, sub, excl)"
| "tax_lines one (l # ls) (tot, sub, excl) =
     obind (one l excl) (\<lambda>(l', excl').
     obind (add_opt tot (tax_amount l') (Validation ''tax'')) (\<lambda>tot'.
     obind (add_opt sub (sline_total l) (Validation ''subtotal'')) (\<lambda>sub'.
     obind (tax_lines one ls (tot', sub', excl')) (\<lambda>(ls', r). Ok (l' # ls', r)))))"

definition money_or_zero :: "currency \<Rightarrow> money option \<Rightarrow> money" where
  "money_or_zero cur v = (case v of Some m \<Rightarrow> m | None \<Rightarrow> money_zero cur)"

definition compute_sale_tax_for_location ::
    "tax_store \<Rightarrow> (breakdown_entry list \<Rightarrow> string option) \<Rightarrow> lua_override list \<Rightarrow> rounding_mode
       \<Rightarrow> tax_sale_scope option \<Rightarrow> sale \<Rightarrow> (core_error, sale) outcome" where
  "compute_sale_tax_for_location st json overrides mode scope s =
     (if list_ex (\<lambda>l. minor_units (sline_total l) < 0) (sale_lines s) then Err (Validation ''line_total'')
      else if list_ex (\<lambda>(_, bps, _). \<not> (0 \<le> bps \<and> bps \<le> max_tax_rate_bps)) overrides
      then Err (Validation ''rate_bps'')
      else
        obind (tax_lines (tax_line st json overrides mode scope (sale_currency s)) (sale_lines s)
                 (None, None, None)) (\<lambda>(ls, tot, sub, excl).
        obind (case excl of
                 None \<Rightarrow> Ok (total s)
               | Some et \<Rightarrow> ok_or (money_add (total s) et) (Validation ''total'')) (\<lambda>t.
        Ok (s\<lparr>sale_lines := ls, subtotal := money_or_zero (sale_currency s) sub,
              tax_total := money_or_zero (sale_currency s) tot, total := t\<rparr>))))"

definition compute_sale_tax ::
    "tax_store \<Rightarrow> (breakdown_entry list \<Rightarrow> string option) \<Rightarrow> lua_override list \<Rightarrow> rounding_mode
       \<Rightarrow> sale \<Rightarrow> (core_error, sale) outcome" where
  "compute_sale_tax st json overrides mode s =
     compute_sale_tax_for_location st json overrides mode None s"

subsection \<open>A cart preview\<close>

record cart_line_tax_input =
  in_sku :: sku
  in_qty :: int
  in_unit_price :: int

record cart_tax_result =
  res_tax_minor :: int
  res_has_exclusive :: bool

fun cart_rate_loop ::
    "tax_store \<Rightarrow> rounding_mode \<Rightarrow> int \<Rightarrow> currency \<Rightarrow> tax_rate list \<Rightarrow> money option \<times> bool
       \<Rightarrow> (core_error, money option \<times> bool) outcome" where
  "cart_rate_loop st mode base cur [] acc = Ok acc"
| "cart_rate_loop st mode base cur (r # rs) (tot, ex) =
     obind (of_sum (effective_rounding_for_rate st (rate_id r) mode)) (\<lambda>(eff, _).
     obind (compute_line_tax base (rate_bps r) (is_inclusive r) cur eff) (\<lambda>tax.
     obind (add_opt tot tax (Validation ''tax'')) (\<lambda>tot'.
     cart_rate_loop st mode base cur rs (tot', ex \<or> \<not> is_inclusive r))))"

fun cart_tax_lines ::
    "tax_store \<Rightarrow> rounding_mode \<Rightarrow> tax_sale_scope option \<Rightarrow> currency \<Rightarrow> cart_line_tax_input list
       \<Rightarrow> money option \<times> bool \<Rightarrow> (core_error, money option \<times> bool) outcome" where
  "cart_tax_lines st mode scope cur [] acc = Ok acc"
| "cart_tax_lines st mode scope cur (l # ls) acc =
     (if in_qty l < 0 then Err (Validation ''qty'')
      else if in_unit_price l < 0 then Err (Validation ''price'')
      else
        obind (ok_or (checked_mul (in_qty l) (in_unit_price l)) (Validation ''tax'')) (\<lambda>base.
        obind (of_sum (resolve_best_tax_rates_for_sku_at st (in_sku l) scope)) (\<lambda>rates.
        obind (cart_rate_loop st mode base cur rates acc) (\<lambda>acc'.
        cart_tax_lines st mode scope cur ls acc'))))"

definition compute_cart_tax_for_location ::
    "tax_store \<Rightarrow> cart_line_tax_input list \<Rightarrow> currency \<Rightarrow> rounding_mode \<Rightarrow> tax_sale_scope option
       \<Rightarrow> (core_error, cart_tax_result) outcome" where
  "compute_cart_tax_for_location st ls cur mode scope =
     obind (cart_tax_lines st mode scope cur ls (None, False)) (\<lambda>(tot, ex).
     Ok \<lparr>res_tax_minor = minor_units (money_or_zero cur tot), res_has_exclusive = ex\<rparr>)"

definition compute_cart_tax ::
    "tax_store \<Rightarrow> cart_line_tax_input list \<Rightarrow> currency \<Rightarrow> rounding_mode \<Rightarrow> (core_error, cart_tax_result) outcome" where
  "compute_cart_tax st ls cur mode = compute_cart_tax_for_location st ls cur mode None"

subsection \<open>Facts about one contribution\<close>

lemma half_up_shift:
  fixes n d :: int
  assumes "0 < d"
  shows "(n + d div 2) div d = (2 * n + d) div (2 * d)"
proof -
  have "(2 * n + d) div (2 * d) = ((2 * n + d) div 2) div d"
    using assms by (simp add: zdiv_zmult2_eq)
  also have "(2 * n + d) div 2 = n + d div 2" by simp
  finally show ?thesis by simp
qed

lemma half_up_exact:
  fixes n d :: int
  assumes "0 < d" and "n mod d = 0"
  shows "n div d = (2 * n + d) div (2 * d)"
proof -
  obtain k where k: "n = d * k" using assms(2) by (auto elim: dvdE simp: mod_eq_0_iff_dvd)
  have "0 \<le> d div 2" "d div 2 < d" using assms(1) by auto
  then have "(d * k + d div 2) div d = k" using assms(1) by simp
  then show ?thesis using half_up_shift [OF assms(1), of n] k assms(1) by simp
qed

fun rounded :: "rounding_mode \<Rightarrow> int \<Rightarrow> int \<Rightarrow> int" where
  "rounded Truncate n d = n div d"
| "rounded HalfUp n d = (2 * n + d) div (2 * d)"

lemma divide_nonneg:
  assumes "0 \<le> n" and "0 < d" and "in_i64 n"
  shows "divide m n d =
    (if m = HalfUp \<and> n mod d \<noteq> 0 \<and> i64_max < n + d div 2 then Err () else Ok (rounded m n d))"
proof -
  have h: "0 \<le> d div 2" using assms(2) by (simp add: pos_imp_zdiv_nonneg_iff)
  show ?thesis
  proof (cases m)
    case Truncate
    then show ?thesis using assms by (simp add: divide_def sdiv_nonneg)
  next
    case HalfUp
    then show ?thesis
      using assms h half_up_exact [of d n] half_up_shift [of d n]
      by (auto simp: divide_def sdiv_nonneg smod_nonneg checked_add_def fit_i64_def in_i64_def)
  qed
qed

lemma divide_Ok_nonneg: "0 \<le> n \<Longrightarrow> 0 < d \<Longrightarrow> in_i64 n \<Longrightarrow> divide m n d = Ok t \<Longrightarrow> t = rounded m n d"
  by (simp add: divide_nonneg split: if_splits)

lemma rounded_nonneg: "0 \<le> n \<Longrightarrow> 0 < d \<Longrightarrow> 0 \<le> rounded m n d"
  by (cases m) (simp_all add: pos_imp_zdiv_nonneg_iff)

definition tax_divisor :: "int \<Rightarrow> bool \<Rightarrow> int" where
  "tax_divisor bps incl = (if incl then 10000 + bps else 10000)"

lemma map_err_Ok:
  "(case v of Ok x \<Rightarrow> Ok (f x) | Err _ \<Rightarrow> Err e | Panic \<Rightarrow> Panic) = Ok y \<longleftrightarrow> (\<exists>x. v = Ok x \<and> y = f x)"
  by (cases v) auto

lemma compute_line_tax_Ok:
  assumes "0 \<le> base" and "0 \<le> bps" and "compute_line_tax base bps incl cur m = Ok t"
  shows "t = mk_money (rounded m (base * bps) (tax_divisor bps incl)) cur" and "0 \<le> minor_units t"
proof -
  have pos: "0 < tax_divisor bps incl" using assms(2) by (simp add: tax_divisor_def)
  obtain x where "in_i64 (base * bps)" and x: "divide m (base * bps) (tax_divisor bps incl) = Ok x"
    and t: "t = mk_money x cur"
    using assms(3)
    by (auto simp: compute_line_tax_def checked_mul_def checked_add_def fit_i64_def tax_divisor_def
        split: if_splits outcome.splits)
  then have "x = rounded m (base * bps) (tax_divisor bps incl)"
    using divide_Ok_nonneg [OF _ pos] assms(1,2) by simp
  then show "t = mk_money (rounded m (base * bps) (tax_divisor bps incl)) cur" "0 \<le> minor_units t"
    using t rounded_nonneg [OF _ pos] assms(1,2) by simp_all
qed

lemma compute_line_tax_currency: "compute_line_tax base bps incl cur m = Ok t \<Longrightarrow> currency t = cur"
  by (auto simp: compute_line_tax_def map_err_Ok split: if_splits)

lemma compute_line_tax_recur:
  "compute_line_tax base bps incl cur m = Ok t \<Longrightarrow>
     compute_line_tax base bps incl cur' m = Ok (mk_money (minor_units t) cur')"
  by (auto simp: compute_line_tax_def map_err_Ok split: if_splits)

subsection \<open>The contributions of a line\<close>

text \<open>
  The specification: what each rate contributes to a line, whether it is inclusive, in the order
  of the rates, with no accumulation.
\<close>

fun rate_contribs ::
    "tax_store \<Rightarrow> rounding_mode \<Rightarrow> int \<Rightarrow> tax_rate list \<Rightarrow> currency \<Rightarrow> (core_error, (bool \<times> int) list) outcome" where
  "rate_contribs st mode base [] cur = Ok []"
| "rate_contribs st mode base (r # rs) cur =
     obind (of_sum (effective_rounding_for_rate st (rate_id r) mode)) (\<lambda>(eff, _).
     obind (compute_line_tax base (rate_bps r) (is_inclusive r) cur eff) (\<lambda>t.
     obind (rate_contribs st mode base rs cur) (\<lambda>cs. Ok ((is_inclusive r, minor_units t) # cs))))"

definition line_contribs ::
    "tax_store \<Rightarrow> lua_override list \<Rightarrow> rounding_mode \<Rightarrow> tax_sale_scope option \<Rightarrow> sale_line
       \<Rightarrow> (core_error, (bool \<times> int) list) outcome" where
  "line_contribs st overrides mode scope l =
     obind (of_sum (resolve_best_tax_rates_for_sku_at st (sline_sku l) scope)) (\<lambda>rates.
     (case List.find (\<lambda>(s, _, _). s = sline_sku l) overrides of
        Some (_, bps, incl) \<Rightarrow>
          obind (case rates of r # _ \<Rightarrow> of_sum (effective_rounding_for_rate st (rate_id r) mode)
                 | [] \<Rightarrow> Ok (mode, Preference)) (\<lambda>(eff, _).
          obind (compute_line_tax (minor_units (sline_total l)) bps incl (currency (sline_total l)) eff)
            (\<lambda>t. Ok [(incl, minor_units t)]))
      | None \<Rightarrow>
          rate_contribs st mode (minor_units (sline_total l)) rates (currency (sline_total l))))"

definition all_tax :: "(bool \<times> int) list \<Rightarrow> int" where
  "all_tax cs = sum_list (map snd cs)"

definition exclusive_tax :: "(bool \<times> int) list \<Rightarrow> int" where
  "exclusive_tax cs = sum_list (map snd (filter (\<lambda>c. \<not> fst c) cs))"

lemma tax_sums [simp]:
  "all_tax [] = 0" "all_tax (c # cs) = snd c + all_tax cs"
  "exclusive_tax [] = 0" "exclusive_tax (c # cs) = (if fst c then 0 else snd c) + exclusive_tax cs"
  by (simp_all add: all_tax_def exclusive_tax_def)

definition opt_minor :: "money option \<Rightarrow> int" where
  "opt_minor v = (case v of None \<Rightarrow> 0 | Some m \<Rightarrow> minor_units m)"

lemma opt_minor_simps [simp]: "opt_minor None = 0" "opt_minor (Some m) = minor_units m"
  by (simp_all add: opt_minor_def)

lemma add_exclusive_Ok:
  "add_exclusive ex t = Ok ex' \<Longrightarrow> opt_minor ex' = opt_minor ex + minor_units t \<and> ex' \<noteq> None"
  by (cases ex) (auto simp: add_exclusive_def money_add_Some)

lemma add_opt_Ok:
  "add_opt acc m e = Ok acc' \<Longrightarrow> opt_minor acc' = opt_minor acc + minor_units m \<and> acc' \<noteq> None"
  by (cases acc) (auto simp: add_opt_def money_add_Some)

lemma rate_loop_Ok:
  "rate_loop st mode sub rs (lt, ex, bd) = Ok (lt', ex', bd') \<Longrightarrow>
   \<exists>cs. rate_contribs st mode (minor_units sub) rs (currency sub) = Ok cs
     \<and> minor_units lt' = minor_units lt + all_tax cs \<and> currency lt' = currency lt
     \<and> opt_minor ex' = opt_minor ex + exclusive_tax cs
     \<and> (ex' = None \<longleftrightarrow> ex = None \<and> list_all fst cs)
     \<and> map (\<lambda>b. (bd_inclusive b, bd_tax_minor b)) bd' = map (\<lambda>b. (bd_inclusive b, bd_tax_minor b)) bd @ cs"
proof (induction rs arbitrary: lt ex bd)
  case (Cons r rs)
  obtain eff src tax lt1 ex1 where
    eff: "effective_rounding_for_rate st (rate_id r) mode = Inr (eff, src)"
    and tax: "compute_line_tax (minor_units sub) (rate_bps r) (is_inclusive r) (currency sub) eff = Ok tax"
    and lt1: "money_add lt tax = Some lt1"
    and ex1: "(if \<not> is_inclusive r then add_exclusive ex tax else Ok ex) = Ok ex1"
    and rest: "rate_loop st mode sub rs (lt1, ex1, bd @ [\<lparr>bd_rate_id = Some (rate_id r),
        bd_rate_bps = rate_bps r, bd_inclusive = is_inclusive r, bd_tax_minor = minor_units tax,
        bd_rounding = wire_name eff, bd_rounding_source = source_name src, bd_rate_source = None\<rparr>])
      = Ok (lt', ex', bd')"
    using Cons.prems
    by (cases "effective_rounding_for_rate st (rate_id r) mode") (auto split: prod.splits)
  have ex1': "opt_minor ex1 = opt_minor ex + (if is_inclusive r then 0 else minor_units tax)"
    "ex1 = None \<longleftrightarrow> ex = None \<and> is_inclusive r"
    using ex1 add_exclusive_Ok [of ex tax ex1] by (auto split: if_splits)
  from Cons.IH [OF rest] show ?case using eff tax lt1 ex1' by (auto simp: money_add_Some)
qed auto

lemma tax_line_Ok:
  assumes "tax_line st json overrides mode scope cur l excl = Ok (l', excl')"
  shows "\<exists>cs. line_contribs st overrides mode scope l = Ok cs
    \<and> minor_units (tax_amount l') = all_tax cs \<and> currency (tax_amount l') = cur
    \<and> opt_minor excl' = opt_minor excl + exclusive_tax cs
    \<and> (excl' = None \<longleftrightarrow> excl = None \<and> list_all fst cs)
    \<and> sline_total l' = sline_total l \<and> sline_sku l' = sline_sku l"
proof (cases "List.find (\<lambda>(s, _, _). s = sline_sku l) overrides")
  case None
  then obtain rates lt bd js where
    rates: "resolve_best_tax_rates_for_sku_at st (sline_sku l) scope = Inr rates"
    and loop: "rate_loop st mode (sline_total l) rates (money_zero cur, excl, []) = Ok (lt, excl', bd)"
    and l': "l' = l\<lparr>tax_rate_id := (case rates of [] \<Rightarrow> None | x # _ \<Rightarrow> Some (rate_id x)),
      tax_breakdown_json := js, tax_amount := lt\<rparr>"
    using assms
    by (cases "resolve_best_tax_rates_for_sku_at st (sline_sku l) scope") (auto simp: tax_line_def)
  then show ?thesis using rate_loop_Ok [OF loop] None by (auto simp: line_contribs_def l')
next
  case (Some ov)
  obtain s bps incl where ov: "ov = (s, bps, incl)" by (cases ov)
  obtain rates where rates: "resolve_best_tax_rates_for_sku_at st (sline_sku l) scope = Inr rates"
    using assms Some ov
    by (cases "resolve_best_tax_rates_for_sku_at st (sline_sku l) scope")
      (auto simp: tax_line_def override_line_def)
  obtain eff src tax lt bd js where
    eff: "(case rates of r # _ \<Rightarrow> of_sum (effective_rounding_for_rate st (rate_id r) mode)
           | [] \<Rightarrow> Ok (mode, Preference)) = Ok (eff, src)"
    and tax: "compute_line_tax (minor_units (sline_total l)) bps incl (currency (sline_total l)) eff = Ok tax"
    and lt: "money_add (money_zero cur) tax = Some lt"
    and ex: "(if \<not> incl then add_exclusive excl tax else Ok excl) = Ok excl'"
    and l': "l' = l\<lparr>tax_rate_id := None, tax_breakdown_json := js, tax_amount := lt\<rparr>"
    using assms Some ov rates by (auto simp: tax_line_def override_line_def)
  have "opt_minor excl' = opt_minor excl + (if incl then 0 else minor_units tax)"
    "excl' = None \<longleftrightarrow> excl = None \<and> incl"
    using ex add_exclusive_Ok [of excl tax excl'] by (auto split: if_splits)
  then show ?thesis using Some ov rates eff tax lt by (auto simp: line_contribs_def l' money_add_Some)
qed

lemma tax_lines_Ok:
  "tax_lines (tax_line st json overrides mode scope cur) ls (tot, sub, excl) = Ok (ls', tot', sub', excl') \<Longrightarrow>
   \<exists>css. list_all2 (\<lambda>l cs. line_contribs st overrides mode scope l = Ok cs) ls css
     \<and> map (\<lambda>l. minor_units (tax_amount l)) ls' = map all_tax css
     \<and> map sline_total ls' = map sline_total ls \<and> map sline_sku ls' = map sline_sku ls
     \<and> opt_minor tot' = opt_minor tot + sum_list (map all_tax css)
     \<and> opt_minor sub' = opt_minor sub + sum_list (map (\<lambda>l. minor_units (sline_total l)) ls)
     \<and> opt_minor excl' = opt_minor excl + sum_list (map exclusive_tax css)
     \<and> (excl' = None \<longleftrightarrow> excl = None \<and> list_all (list_all fst) css)"
proof (induction ls arbitrary: tot sub excl ls')
  case (Cons l ls)
  obtain l1 ex1 tot1 sub1 ls1 where
    one: "tax_line st json overrides mode scope cur l excl = Ok (l1, ex1)"
    and tot1: "add_opt tot (tax_amount l1) (Validation ''tax'') = Ok tot1"
    and sub1: "add_opt sub (sline_total l) (Validation ''subtotal'') = Ok sub1"
    and rest: "tax_lines (tax_line st json overrides mode scope cur) ls (tot1, sub1, ex1)
      = Ok (ls1, tot', sub', excl')"
    and ls': "ls' = l1 # ls1"
    using Cons.prems by auto
  obtain cs where cs: "line_contribs st overrides mode scope l = Ok cs"
    "minor_units (tax_amount l1) = all_tax cs"
    "opt_minor ex1 = opt_minor excl + exclusive_tax cs" "ex1 = None \<longleftrightarrow> excl = None \<and> list_all fst cs"
    "sline_total l1 = sline_total l" "sline_sku l1 = sline_sku l"
    using tax_line_Ok [OF one] by auto
  show ?case using Cons.IH [OF rest] cs add_opt_Ok [OF tot1] add_opt_Ok [OF sub1]
    unfolding ls' by (auto simp: add.assoc)
qed auto

lemma opt_minor_zero [simp]: "minor_units (money_or_zero cur v) = opt_minor v"
  by (simp add: money_or_zero_def split: option.split)

lemma compute_sale_tax_facts:
  assumes "compute_sale_tax_for_location st json overrides mode scope s = Ok s'"
  shows "\<exists>css. list_all2 (\<lambda>l cs. line_contribs st overrides mode scope l = Ok cs) (sale_lines s) css
    \<and> map (\<lambda>l. minor_units (tax_amount l)) (sale_lines s') = map all_tax css
    \<and> map sline_total (sale_lines s') = map sline_total (sale_lines s)
    \<and> map sline_sku (sale_lines s') = map sline_sku (sale_lines s)
    \<and> minor_units (tax_total s') = sum_list (map all_tax css)
    \<and> minor_units (subtotal s') = sum_list (map (\<lambda>l. minor_units (sline_total l)) (sale_lines s))
    \<and> minor_units (total s') = minor_units (total s) + sum_list (map exclusive_tax css)
    \<and> (list_all (list_all fst) css \<longrightarrow> total s' = total s)
    \<and> list_all (\<lambda>l. 0 \<le> minor_units (sline_total l)) (sale_lines s)
    \<and> list_all (\<lambda>(_, bps, _). 0 \<le> bps) overrides"
proof -
  have pre: "list_all (\<lambda>l. 0 \<le> minor_units (sline_total l)) (sale_lines s)"
    "list_all (\<lambda>(_, bps, _). 0 \<le> bps) overrides"
    using assms by (auto simp: compute_sale_tax_for_location_def list_ex_iff list_all_iff not_less
        split: if_splits)
  obtain ls tot sub excl t where
    lines: "tax_lines (tax_line st json overrides mode scope (sale_currency s)) (sale_lines s)
      (None, None, None) = Ok (ls, tot, sub, excl)"
    and t: "(case excl of None \<Rightarrow> Ok (total s) | Some et \<Rightarrow> ok_or (money_add (total s) et) (Validation ''total''))
      = Ok t"
    and s': "s' = s\<lparr>sale_lines := ls, subtotal := money_or_zero (sale_currency s) sub,
      tax_total := money_or_zero (sale_currency s) tot, total := t\<rparr>"
    using assms by (auto simp: compute_sale_tax_for_location_def split: if_splits)
  have "minor_units t = minor_units (total s) + opt_minor excl" "excl = None \<longrightarrow> t = total s"
    using t by (auto simp: money_add_Some split: option.splits)
  then show ?thesis using tax_lines_Ok [OF lines] pre by (fastforce simp: s')
qed

subsection \<open>Rates of the store are not negative\<close>

lemma active_row_in: "active_row st i = Some r \<Longrightarrow> r \<in> set (tax_rates st)"
  by (auto simp: active_row_def find_Some_iff)

definition rates_nonneg :: "tax_store \<Rightarrow> bool" where
  "rates_nonneg st \<longleftrightarrow> (\<forall>r \<in> set (tax_rates st). 0 \<le> rate_bps (row_rate r))"

lemma tax_inv_rates_nonneg: "tax_inv st \<Longrightarrow> rates_nonneg st"
  by (auto simp: tax_inv_def schema_ok_def row_checks_def list_all_iff rates_nonneg_def)

lemma get_tax_rate_nonneg: "rates_nonneg st \<Longrightarrow> get_tax_rate st i = Some r \<Longrightarrow> 0 \<le> rate_bps r"
  by (auto simp: get_tax_rate_def rates_nonneg_def dest!: active_row_in)

lemma assigned_rates_nonneg:
  "rates_nonneg st \<Longrightarrow> assigned_rates st ap is = Inr rs \<Longrightarrow> r \<in> set rs \<Longrightarrow> 0 \<le> rate_bps r"
  by (induction "is" arbitrary: rs)
    (auto split: sum.splits if_splits option.splits dest: get_tax_rate_nonneg)

lemma tier_best_in:
  assumes "tier_best (rate_candidates st l e) l e d t = Some r"
  shows "r \<in> set (tax_rates st)"
proof -
  have pick: "pick_best is_better_than b xs = Some r \<Longrightarrow> r \<in> set xs \<or> b = Some r" for b xs
    by (induction is_better_than b xs rule: pick_best.induct) (auto split: if_splits)
  have "r \<in> set (filter (\<lambda>r. in_tier t l e r \<and> is_live d r) (rate_candidates st l e))"
    using pick [of None] assms unfolding tier_best_def by blast
  then show ?thesis by (simp add: rate_candidates_def)
qed

lemma resolve_location_nonneg:
  "rates_nonneg st \<Longrightarrow> resolve_tax_rate_for_location st l e as_of = Inr (Some r) \<Longrightarrow> 0 \<le> rate_bps r"
  by (auto simp: resolve_tax_rate_for_location_def Let_def rates_nonneg_def
      split: option.splits dest!: tier_best_in)

lemma get_default_nonneg: "rates_nonneg st \<Longrightarrow> get_default_tax_rate st = Some r \<Longrightarrow> 0 \<le> rate_bps r"
  by (auto simp: get_default_tax_rate_def rates_nonneg_def find_Some_iff)

lemma resolve_best_nonneg:
  assumes "rates_nonneg st" and "resolve_best_tax_rates_for_sku_at st s scope = Inr rs" and "r \<in> set rs"
  shows "0 \<le> rate_bps r"
  using assms
  by (auto simp: resolve_best_tax_rates_for_sku_at_def Let_def
      split: sum.splits if_splits option.splits
      intro: assigned_rates_nonneg resolve_location_nonneg get_default_nonneg)

lemma compute_line_tax_nonneg:
  "compute_line_tax base bps incl cur m = Ok t \<Longrightarrow> 0 \<le> base \<Longrightarrow> 0 \<le> bps \<Longrightarrow> 0 \<le> minor_units t"
  by (rule compute_line_tax_Ok(2))

lemma rate_contribs_nonneg:
  "0 \<le> base \<Longrightarrow> \<forall>r \<in> set rs. 0 \<le> rate_bps r \<Longrightarrow> rate_contribs st mode base rs cur = Ok cs \<Longrightarrow>
     list_all (\<lambda>c. 0 \<le> snd c) cs"
  by (induction rs arbitrary: cs) (auto intro: compute_line_tax_nonneg)

lemma line_contribs_nonneg:
  assumes "rates_nonneg st" and "0 \<le> minor_units (sline_total l)"
    and "list_all (\<lambda>(_, bps, _). 0 \<le> bps) overrides"
    and "line_contribs st overrides mode scope l = Ok cs"
  shows "list_all (\<lambda>c. 0 \<le> snd c) cs"
proof -
  obtain rates where r: "resolve_best_tax_rates_for_sku_at st (sline_sku l) scope = Inr rates"
    using assms(4)
    by (cases "resolve_best_tax_rates_for_sku_at st (sline_sku l) scope") (auto simp: line_contribs_def)
  then have nn: "\<forall>r \<in> set rates. 0 \<le> rate_bps r" using resolve_best_nonneg [OF assms(1) r] by blast
  show ?thesis
  proof (cases "List.find (\<lambda>(s, _, _). s = sline_sku l) overrides")
    case None
    then show ?thesis using assms(2,4) r nn rate_contribs_nonneg by (auto simp: line_contribs_def)
  next
    case (Some ov)
    then have "0 \<le> fst (snd ov)" using assms(3) by (auto simp: find_Some_iff list_all_length)
    then show ?thesis using assms(2,4) r Some
      by (cases ov) (auto simp: line_contribs_def intro: compute_line_tax_nonneg)
  qed
qed

subsection \<open>The preview adds up the same contributions\<close>

definition opt_currency :: "currency \<Rightarrow> money option \<Rightarrow> bool" where
  "opt_currency cur v \<longleftrightarrow> (case v of None \<Rightarrow> True | Some m \<Rightarrow> currency m = cur)"

lemma rate_contribs_recur:
  "rate_contribs st mode base rs cur = Ok cs \<Longrightarrow> rate_contribs st mode base rs cur' = Ok cs"
proof (induction rs arbitrary: cs)
  case (Cons r rs)
  obtain eff src t cs1 where
    eff: "effective_rounding_for_rate st (rate_id r) mode = Inr (eff, src)"
    and t: "compute_line_tax base (rate_bps r) (is_inclusive r) cur eff = Ok t"
    and cs1: "rate_contribs st mode base rs cur = Ok cs1" and cs: "cs = (is_inclusive r, minor_units t) # cs1"
    using Cons.prems
    by (cases "effective_rounding_for_rate st (rate_id r) mode") (auto split: prod.splits)
  then show ?case using Cons.IH [OF cs1] compute_line_tax_recur [OF t, of cur'] by simp
qed simp

lemma all_tax_nonneg: "list_all (\<lambda>c. 0 \<le> snd c) cs \<Longrightarrow> 0 \<le> all_tax cs"
  by (induction cs) auto

lemma add_opt_fits:
  assumes "opt_currency (currency t) acc" and "0 \<le> opt_minor acc" and "0 \<le> minor_units t"
    and "opt_minor acc + minor_units t \<le> i64_max"
  shows "\<exists>acc'. add_opt acc t e = Ok acc' \<and> opt_minor acc' = opt_minor acc + minor_units t
    \<and> opt_currency (currency t) acc'"
proof (cases acc)
  case (Some a)
  then have "money_add a t = Some (mk_money (minor_units a + minor_units t) (currency t))"
    using assms by (auto simp: money_add_Some opt_currency_def in_i64_def)
  then show ?thesis using Some by (simp add: add_opt_def opt_currency_def)
qed (simp add: add_opt_def opt_currency_def)

lemma cart_rate_loop_sums:
  "rate_contribs st mode base rs cur = Ok cs \<Longrightarrow> list_all (\<lambda>c. 0 \<le> snd c) cs \<Longrightarrow>
   opt_currency cur tot \<Longrightarrow> 0 \<le> opt_minor tot \<Longrightarrow> opt_minor tot + all_tax cs \<le> i64_max \<Longrightarrow>
   \<exists>tot'. cart_rate_loop st mode base cur rs (tot, ex) = Ok (tot', ex \<or> \<not> list_all fst cs)
     \<and> opt_minor tot' = opt_minor tot + all_tax cs \<and> opt_currency cur tot'"
proof (induction rs arbitrary: tot ex cs)
  case (Cons r rs)
  obtain eff src t cs1 where
    eff: "effective_rounding_for_rate st (rate_id r) mode = Inr (eff, src)"
    and t: "compute_line_tax base (rate_bps r) (is_inclusive r) cur eff = Ok t"
    and cs1: "rate_contribs st mode base rs cur = Ok cs1" and cs: "cs = (is_inclusive r, minor_units t) # cs1"
    using Cons.prems(1)
    by (cases "effective_rounding_for_rate st (rate_id r) mode") (auto split: prod.splits)
  have cur: "currency t = cur" using t by (rule compute_line_tax_currency)
  have nn: "0 \<le> minor_units t" "list_all (\<lambda>c. 0 \<le> snd c) cs1" "0 \<le> all_tax cs1"
    using Cons.prems(2) cs by (auto intro: all_tax_nonneg)
  obtain tot1 where tot1: "add_opt tot t (Validation ''tax'') = Ok tot1"
    "opt_minor tot1 = opt_minor tot + minor_units t" "opt_currency cur tot1"
    using add_opt_fits [of t tot "Validation ''tax''"] Cons.prems nn cur cs by auto
  have "opt_minor tot1 + all_tax cs1 \<le> i64_max" "0 \<le> opt_minor tot1"
    using Cons.prems(4,5) cs tot1 nn by auto
  from Cons.IH [OF cs1 nn(2) tot1(3) this(2,1), of "ex \<or> \<not> is_inclusive r"] obtain tot' where
    "cart_rate_loop st mode base cur rs (tot1, ex \<or> \<not> is_inclusive r)
       = Ok (tot', (ex \<or> \<not> is_inclusive r) \<or> \<not> list_all fst cs1)"
    "opt_minor tot' = opt_minor tot1 + all_tax cs1" "opt_currency cur tot'" by blast
  then show ?case using eff t tot1 cs by (auto simp: add.assoc)
qed simp

definition same_line :: "sale_line \<Rightarrow> cart_line_tax_input \<Rightarrow> bool" where
  "same_line l i \<longleftrightarrow> in_sku i = sline_sku l \<and> 0 \<le> in_qty i \<and> 0 \<le> in_unit_price i
     \<and> in_qty i * in_unit_price i = minor_units (sline_total l) \<and> in_i64 (minor_units (sline_total l))"

lemma cart_tax_lines_sums:
  assumes "list_all2 (\<lambda>l cs. line_contribs st [] mode scope l = Ok cs \<and> list_all (\<lambda>c. 0 \<le> snd c) cs) ls css"
    and "list_all2 same_line ls ins"
    and "opt_currency cur tot" and "0 \<le> opt_minor tot"
    and "opt_minor tot + sum_list (map all_tax css) \<le> i64_max"
  shows "\<exists>tot'. cart_tax_lines st mode scope cur ins (tot, ex) = Ok (tot', ex \<or> \<not> list_all (list_all fst) css)
    \<and> opt_minor tot' = opt_minor tot + sum_list (map all_tax css)"
  using assms
proof (induction ls css arbitrary: ins tot ex rule: list_all2_induct)
  case (Cons l ls cs css)
  obtain i ins1 where ins: "ins = i # ins1" and same: "same_line l i"
    and rest: "list_all2 same_line ls ins1"
    using Cons.prems(1) by (auto simp: list_all2_Cons1)
  obtain rates where rates: "resolve_best_tax_rates_for_sku_at st (sline_sku l) scope = Inr rates"
    using Cons.hyps by (cases "resolve_best_tax_rates_for_sku_at st (sline_sku l) scope")
      (auto simp: line_contribs_def)
  then have cs: "rate_contribs st mode (minor_units (sline_total l)) rates cur = Ok cs"
    using Cons.hyps by (auto simp: line_contribs_def intro: rate_contribs_recur)
  have nn: "0 \<le> sum_list (map all_tax css)"
    using Cons.hyps(2)
    by (auto intro!: sum_list_nonneg all_tax_nonneg simp: list_all2_conv_all_nth in_set_conv_nth)
  obtain tot1 where tot1: "cart_rate_loop st mode (minor_units (sline_total l)) cur rates (tot, ex)
      = Ok (tot1, ex \<or> \<not> list_all fst cs)"
    "opt_minor tot1 = opt_minor tot + all_tax cs" "opt_currency cur tot1"
    using cart_rate_loop_sums [OF cs, of tot ex] Cons.hyps Cons.prems nn by auto
  have "0 \<le> opt_minor tot1" "opt_minor tot1 + sum_list (map all_tax css) \<le> i64_max"
    using Cons.prems tot1 all_tax_nonneg [of cs] Cons.hyps by auto
  from Cons.IH [OF rest tot1(3) this, of "ex \<or> \<not> list_all fst cs"] tot1 rates same show ?case
    by (auto simp: ins same_line_def checked_mul_def fit_i64_def add.assoc)
qed simp

subsection \<open>Properties\<close>

lemma list_all2_right: "list_all2 P xs ys \<Longrightarrow> y \<in> set ys \<Longrightarrow> \<exists>x \<in> set xs. P x y"
  by (induction rule: list_all2_induct) auto

text \<open>
  C40. On a base amount that is not negative and a rate within its bounds, \<open>compute_line_tax\<close> is
  the exact quotient \<open>base * bps / divisor\<close> rounded by its mode (down, or to the nearest with ties
  up), fails only when \<open>i64\<close> cannot hold the product or the shifted numerator, and an inclusive
  tax never exceeds the amount it is part of.
\<close>

theorem line_tax_rounding:
  assumes "in_i64 base" and "0 \<le> base" and "0 \<le> bps" and "bps \<le> max_tax_rate_bps"
  shows "let n = base * bps; d = tax_divisor bps incl in
    compute_line_tax base bps incl cur m =
      (if i64_max < n \<or> (m = HalfUp \<and> n mod d \<noteq> 0 \<and> i64_max < n + d div 2) then Err (Validation ''tax'')
       else Ok (mk_money (rounded m n d) cur))
    \<and> \<bar>2 * (rounded HalfUp n d * d - n)\<bar> \<le> d
    \<and> (incl \<longrightarrow> rounded m n d \<le> base)"
proof -
  let ?n = "base * bps" and ?d = "tax_divisor bps incl"
  have d: "0 < ?d" "in_i64 (10000 + bps)" using assms by (auto simp: tax_divisor_def in_i64_def max_tax_rate_bps_def)
  have n: "0 \<le> ?n" using assms by simp
  have tax: "compute_line_tax base bps incl cur m =
      (if i64_max < ?n \<or> (m = HalfUp \<and> ?n mod ?d \<noteq> 0 \<and> i64_max < ?n + ?d div 2) then Err (Validation ''tax'')
       else Ok (mk_money (rounded m ?n ?d) cur))"
  proof (cases "in_i64 ?n")
    case True
    then show ?thesis using divide_nonneg [OF n d(1) True, of m] d(2)
      by (auto simp: compute_line_tax_def checked_mul_def checked_add_def fit_i64_def tax_divisor_def in_i64_def)
  next
    case False
    then show ?thesis using n by (simp add: compute_line_tax_def checked_mul_def fit_i64_def in_i64_def)
  qed
  have near: "\<bar>2 * (rounded HalfUp ?n ?d * ?d - ?n)\<bar> \<le> ?d"
  proof -
    let ?q = "(2 * ?n + ?d) div (2 * ?d)" and ?r = "(2 * ?n + ?d) mod (2 * ?d)"
    have "?q * (2 * ?d) + ?r = 2 * ?n + ?d" by (rule div_mult_mod_eq)
    moreover have "0 \<le> ?r" "?r < 2 * ?d" using d(1) by auto
    ultimately show ?thesis by (simp add: algebra_simps)
  qed
  have "rounded m ?n ?d \<le> base" if incl
  proof -
    have le: "?n + ?d div 2 < (base + 1) * ?d"
      using assms that by (simp add: tax_divisor_def algebra_simps)
    have "(?n + ?d div 2) div ?d * ?d + (?n + ?d div 2) mod ?d = ?n + ?d div 2"
      by (rule div_mult_mod_eq)
    moreover have "0 \<le> (?n + ?d div 2) mod ?d" using d(1) by simp
    ultimately have "(?n + ?d div 2) div ?d * ?d < (base + 1) * ?d" using le by linarith
    then have "(?n + ?d div 2) div ?d \<le> base" using d(1) by simp
    moreover have "?n div ?d \<le> (?n + ?d div 2) div ?d"
      using d(1) by (intro zdiv_mono1) (auto simp: pos_imp_zdiv_nonneg_iff)
    ultimately show ?thesis using half_up_shift [OF d(1), of ?n] by (cases m) auto
  qed
  then show ?thesis using tax near by (simp add: Let_def)
qed

theorem line_tax_rounding_witness:
  "compute_line_tax 100050 1100 False (Currency CHR ''I'' CHR ''D'' CHR ''R'') HalfUp
     = Ok (mk_money 11006 (Currency CHR ''I'' CHR ''D'' CHR ''R''))"
  using line_tax_rounding [of 100050 1100 False "Currency CHR ''I'' CHR ''D'' CHR ''R''" HalfUp]
  by (simp add: in_i64_def max_tax_rate_bps_def tax_divisor_def Let_def)

text \<open>
  C2. A sale whose tax was computed carries, on every line, the sum of the contributions of its
  rates (or of its override); \<open>tax_total\<close> and \<open>subtotal\<close> are the sums over the lines, and exactly
  the exclusive contributions were added to the total. Contributions are never negative, line
  totals are untouched, and when every rate is inclusive the total does not change.
\<close>

theorem sale_tax_adds_up:
  assumes "tax_inv st" and "compute_sale_tax_for_location st json overrides mode scope s = Ok s'"
  shows "\<exists>css. list_all2 (\<lambda>l cs. line_contribs st overrides mode scope l = Ok cs) (sale_lines s) css
    \<and> map (\<lambda>l. minor_units (tax_amount l)) (sale_lines s') = map all_tax css
    \<and> map sline_total (sale_lines s') = map sline_total (sale_lines s)
    \<and> minor_units (tax_total s') = sum_list (map all_tax css)
    \<and> minor_units (subtotal s') = (\<Sum>l \<leftarrow> sale_lines s. minor_units (sline_total l))
    \<and> minor_units (total s') = minor_units (total s) + sum_list (map exclusive_tax css)
    \<and> (list_all (list_all fst) css \<longrightarrow> total s' = total s)
    \<and> list_all (list_all (\<lambda>c. 0 \<le> snd c)) css"
proof -
  obtain css where css: "list_all2 (\<lambda>l cs. line_contribs st overrides mode scope l = Ok cs) (sale_lines s) css"
    and facts: "map (\<lambda>l. minor_units (tax_amount l)) (sale_lines s') = map all_tax css"
    "map sline_total (sale_lines s') = map sline_total (sale_lines s)"
    "minor_units (tax_total s') = sum_list (map all_tax css)"
    "minor_units (subtotal s') = sum_list (map (\<lambda>l. minor_units (sline_total l)) (sale_lines s))"
    "minor_units (total s') = minor_units (total s) + sum_list (map exclusive_tax css)"
    "list_all (list_all fst) css \<longrightarrow> total s' = total s"
    and pre: "list_all (\<lambda>l. 0 \<le> minor_units (sline_total l)) (sale_lines s)"
    "list_all (\<lambda>(_, bps, _). 0 \<le> bps) overrides"
    using compute_sale_tax_facts [OF assms(2)] by blast
  have "list_all (\<lambda>c. 0 \<le> snd c) cs" if "cs \<in> set css" for cs
  proof -
    obtain l where "l \<in> set (sale_lines s)" "line_contribs st overrides mode scope l = Ok cs"
      using list_all2_right [OF css \<open>cs \<in> set css\<close>] by blast
    moreover from this have "0 \<le> minor_units (sline_total l)" using pre(1) by (simp add: list_all_iff)
    ultimately show ?thesis
      using line_contribs_nonneg [OF tax_inv_rates_nonneg [OF assms(1)] _ pre(2)] by blast
  qed
  then show ?thesis using css facts by (intro exI [of _ css]) (simp add: list_all_iff)
qed

definition demo_tax_sale :: sale where
  "demo_tax_sale = demo_sale\<lparr>total := mk_money 20000 (sale_currency demo_sale),
     sale_lines := [sale_line_made (\<lambda>i. show_nat i) (sale_currency demo_sale) 0
       \<lparr>line_id = ''l1'', line_sku = ''COFFEE'', qty = 2,
        unit_price = mk_money 10000 (sale_currency demo_sale), overridden_price = None, course = None\<rparr>]\<rparr>"

lemma demo_sale_currency [simp]: "sale_currency demo_sale = Currency CHR ''U'' CHR ''S'' CHR ''D''"
  by (simp add: demo_sale_def from_cart_def from_cart_with_user_def cart_new_def cart_total_def pct_zero_def)

lemma demo_taxed:
  "\<exists>s'. compute_sale_tax_for_location demo_tax_store (\<lambda>_. Some ''json'') [] HalfUp None demo_tax_sale = Ok s'
     \<and> minor_units (total s') = 22200 \<and> minor_units (tax_total s') = 2200"
  by (simp add: compute_sale_tax_for_location_def demo_tax_sale_def sale_line_made_def line_amount_def
      effective_price_def tax_line_def resolve_best_tax_rates_for_sku_at_def get_product_tax_rates_def
      get_tax_rate_def active_row_def effective_rounding_for_rate_def tax_rate_rounding_mode_def
      compute_line_tax_def checked_mul_def divide_def smod_nonneg sdiv_nonneg money_add_def
      checked_add_def fit_i64_def in_i64_def add_exclusive_def add_opt_def demo_tax_defs money_or_zero_def)

theorem sale_tax_adds_up_witness:
  "\<exists>s' css. compute_sale_tax_for_location demo_tax_store (\<lambda>_. Some ''json'') [] HalfUp None demo_tax_sale = Ok s'
     \<and> minor_units (tax_total s') = sum_list (map all_tax css) \<and> minor_units (tax_total s') = 2200
     \<and> minor_units (total s') = 20000 + sum_list (map exclusive_tax css)"
proof -
  obtain s' where s': "compute_sale_tax_for_location demo_tax_store (\<lambda>_. Some ''json'') [] HalfUp None demo_tax_sale = Ok s'"
    "minor_units (tax_total s') = 2200" using demo_taxed by blast
  obtain css where "minor_units (tax_total s') = sum_list (map all_tax css)"
    "minor_units (total s') = minor_units (total demo_tax_sale) + sum_list (map exclusive_tax css)"
    using sale_tax_adds_up [OF demo_tax_inv s'(1)] by blast
  then show ?thesis using s' by (intro exI [of _ s'] exI [of _ css]) (simp add: demo_tax_sale_def)
qed

text \<open>
  The cart preview and the checkout agree: for the same lines, scope and preference, and no
  plugin override, whenever the checkout succeeds the preview succeeds with the same tax; and a
  preview that reports no exclusive rate means that the checkout adds nothing to the total.
\<close>

theorem cart_preview_agrees:
  assumes "tax_inv st" and "compute_sale_tax_for_location st json [] mode scope s = Ok s'"
    and "list_all2 same_line (sale_lines s) ins" and "in_i64 (minor_units (tax_total s'))"
  shows "\<exists>ex. compute_cart_tax_for_location st ins (sale_currency s) mode scope
      = Ok \<lparr>res_tax_minor = minor_units (tax_total s'), res_has_exclusive = ex\<rparr>
    \<and> (\<not> ex \<longrightarrow> total s' = total s)"
proof -
  obtain css where css: "list_all2 (\<lambda>l cs. line_contribs st [] mode scope l = Ok cs) (sale_lines s) css"
    and tot: "minor_units (tax_total s') = sum_list (map all_tax css)"
    and incl: "list_all (list_all fst) css \<longrightarrow> total s' = total s"
    and pre: "list_all (\<lambda>l. 0 \<le> minor_units (sline_total l)) (sale_lines s)"
    using compute_sale_tax_facts [OF assms(2)] by blast
  have nn: "list_all2 (\<lambda>l cs. line_contribs st [] mode scope l = Ok cs \<and> list_all (\<lambda>c. 0 \<le> snd c) cs)
      (sale_lines s) css"
    using css pre line_contribs_nonneg [OF tax_inv_rates_nonneg [OF assms(1)], of _ "[]" mode scope]
    by (auto simp: list_all2_conv_all_nth list_all_length)
  obtain tot' where "cart_tax_lines st mode scope (sale_currency s) ins (None, False)
      = Ok (tot', False \<or> \<not> list_all (list_all fst) css)" "opt_minor tot' = sum_list (map all_tax css)"
    using cart_tax_lines_sums [OF nn assms(3), of "sale_currency s" None False] assms(4) tot
    by (auto simp: opt_currency_def in_i64_def)
  then show ?thesis using tot incl by (simp add: compute_cart_tax_for_location_def)
qed

theorem cart_preview_agrees_witness:
  "\<exists>ex. compute_cart_tax_for_location demo_tax_store
      [\<lparr>in_sku = ''COFFEE'', in_qty = 2, in_unit_price = 10000\<rparr>] (sale_currency demo_tax_sale) HalfUp None
      = Ok \<lparr>res_tax_minor = 2200, res_has_exclusive = ex\<rparr>"
proof -
  obtain s' where s': "compute_sale_tax_for_location demo_tax_store (\<lambda>_. Some ''json'') [] HalfUp None demo_tax_sale = Ok s'"
    "minor_units (tax_total s') = 2200" using demo_taxed by blast
  have "list_all2 same_line (sale_lines demo_tax_sale) [\<lparr>in_sku = ''COFFEE'', in_qty = 2, in_unit_price = 10000\<rparr>]"
    by (simp add: same_line_def demo_tax_sale_def sale_line_made_def line_amount_def effective_price_def in_i64_def)
  then show ?thesis using cart_preview_agrees [OF demo_tax_inv s'(1)] s'(2) by (auto simp: in_i64_def)
qed

end
