(* ===== verification/Gift_Cards.thy ===== *)
theory Gift_Cards
  imports Tax_Rates
begin

section \<open>Gift cards\<close>

text \<open>
  Models \<open>crates/kasirmu-core/src/db/gift_cards.rs\<close> and the gift card types of
  \<open>modules/loyalty/src/models.rs\<close>: stored value with a ledger. The store is the two tables, the
  ledger in the order of its inserts. Primary keys, the unique card number and the partial unique
  index on redemptions are checked where a row is inserted (\<open>Db\<close>).

  The operations that change a balance read the card first and write later, so another client
  may commit in between. Each is split where the source opens its transaction: a check on the
  store it reads, and a commit that takes the card as it was read, on the store of that moment.

  Time stamps and fresh ids are arguments; \<open>chrono\<close>'s RFC 3339 parser is the parameter \<open>parse\<close>,
  and the clock its reading as an integer. The listing query with its \<open>LIKE\<close> filters is left out.
\<close>

subsection \<open>Records\<close>

record gift_card =
  gc_id :: string
  card_number :: string
  pin :: string
  initial_balance_minor :: int
  current_balance_minor :: int
  gc_currency :: string
  gc_status :: string
  issued_to :: string
  issue_date :: string
  expiry_date :: "string option"
  created_by :: "string option"
  gc_updated_at :: string

record gift_card_transaction =
  gt_id :: string
  gift_card_id :: string
  gt_sale_id :: "string option"
  txn_type :: string
  amount_minor :: int
  balance_after_minor :: int
  gt_notes :: string
  gt_created_at :: string

record gift_card_with_transactions =
  gw_card :: gift_card
  gw_transactions :: "gift_card_transaction list"

record issue_gift_card_input =
  in_card_number :: string
  in_pin :: "string option"
  initial_amount_minor :: int
  in_currency :: string
  in_issued_to :: "string option"
  in_created_by :: string
  in_expiry_date :: "string option"

record redeem_gift_card_result =
  rg_card :: gift_card
  rg_transaction :: gift_card_transaction

record gift_store =
  gift_cards :: "gift_card list"
  gift_txns :: "gift_card_transaction list"

definition parse_currency :: "string \<Rightarrow> currency" where
  "parse_currency cur = (case currency_from_str cur of
     Inr c \<Rightarrow> c | Inl _ \<Rightarrow> Currency CHR ''U'' CHR ''S'' CHR ''D'')"

subsection \<open>Queries and row inserts\<close>

definition get_gift_card :: "gift_store \<Rightarrow> string \<Rightarrow> gift_card option" where
  "get_gift_card st k = List.find (\<lambda>c. gc_id c = k \<or> card_number c = k) (gift_cards st)"

definition get_gift_card_by_raw_id :: "gift_store \<Rightarrow> string \<Rightarrow> gift_card option" where
  "get_gift_card_by_raw_id st i = List.find (\<lambda>c. gc_id c = i) (gift_cards st)"

definition get_transactions_for_card :: "gift_store \<Rightarrow> string \<Rightarrow> nat \<Rightarrow> gift_card_transaction list" where
  "get_transactions_for_card st i n =
     take n (rev (sort_key gt_created_at (filter (\<lambda>t. gift_card_id t = i) (gift_txns st))))"

definition get_gift_card_detail :: "gift_store \<Rightarrow> string \<Rightarrow> gift_card_with_transactions option" where
  "get_gift_card_detail st k =
     map_option (\<lambda>c. \<lparr>gw_card = c, gw_transactions = get_transactions_for_card st (gc_id c) 50\<rparr>)
       (get_gift_card st k)"

definition get_gift_card_balance :: "gift_store \<Rightarrow> string \<Rightarrow> (int \<times> string \<times> string) option" where
  "get_gift_card_balance st k =
     map_option (\<lambda>c. (current_balance_minor c, gc_currency c, gc_status c)) (get_gift_card st k)"

definition insert_card :: "gift_card \<Rightarrow> gift_store \<Rightarrow> core_error + gift_store" where
  "insert_card c st =
     (if gc_id c \<in> gc_id ` set (gift_cards st) \<or> card_number c \<in> card_number ` set (gift_cards st)
      then Inl Db else Inr (st\<lparr>gift_cards := gift_cards st @ [c]\<rparr>))"

definition redeems :: "string \<Rightarrow> string \<Rightarrow> gift_card_transaction \<Rightarrow> bool" where
  "redeems i s t \<longleftrightarrow> gift_card_id t = i \<and> gt_sale_id t = Some s \<and> txn_type t = ''redeem''"

definition insert_txn :: "gift_card_transaction \<Rightarrow> gift_store \<Rightarrow> core_error + gift_store" where
  "insert_txn t st =
     (if gt_id t \<in> gt_id ` set (gift_txns st)
         \<or> (\<exists>s \<in> set_option (gt_sale_id t). txn_type t = ''redeem'' \<and> list_ex (redeems (gift_card_id t) s) (gift_txns st))
      then Inl Db else Inr (st\<lparr>gift_txns := gift_txns st @ [t]\<rparr>))"

text \<open>An \<open>UPDATE\<close> of the rows of one card that satisfy a predicate: the count and the table.\<close>

definition update_cards ::
    "string \<Rightarrow> (gift_card \<Rightarrow> bool) \<Rightarrow> (gift_card \<Rightarrow> gift_card) \<Rightarrow> gift_store \<Rightarrow> nat \<times> gift_store" where
  "update_cards i P f st =
     (length (filter (\<lambda>c. gc_id c = i \<and> P c) (gift_cards st)),
      st\<lparr>gift_cards := map (\<lambda>c. if gc_id c = i \<and> P c then f c else c) (gift_cards st)\<rparr>)"

subsection \<open>Issuing\<close>

definition issue_gift_card ::
    "string \<Rightarrow> string \<Rightarrow> string \<Rightarrow> issue_gift_card_input \<Rightarrow> gift_store
       \<Rightarrow> core_error + gift_card_with_transactions \<times> gift_store" where
  "issue_gift_card i txn_id now inp st =
     (if initial_amount_minor inp \<le> 0 then Inl (Validation ''initial_amount_minor'')
      else if trim (in_card_number inp) = [] then Inl (Validation ''card_number'')
      else
        (let amount = initial_amount_minor inp;
             number = trim (in_card_number inp);
             c = \<lparr>gc_id = i, card_number = number,
                  pin = (case in_pin inp of Some p \<Rightarrow> p | None \<Rightarrow> []),
                  initial_balance_minor = amount, current_balance_minor = amount,
                  gc_currency = in_currency inp, gc_status = ''active'',
                  issued_to = (case in_issued_to inp of Some x \<Rightarrow> x | None \<Rightarrow> []),
                  issue_date = now, expiry_date = in_expiry_date inp,
                  created_by = Some (in_created_by inp), gc_updated_at = now\<rparr>;
             t = \<lparr>gt_id = txn_id, gift_card_id = i, gt_sale_id = None, txn_type = ''issue'',
                  amount_minor = amount, balance_after_minor = amount,
                  gt_notes = ''Issued gift card '' @ number @ '' with ''
                    @ format_minor amount (parse_currency (in_currency inp)),
                  gt_created_at = now\<rparr>
         in case insert_card c st of
              Inl e \<Rightarrow> Inl e
            | Inr st1 \<Rightarrow>
                (case insert_txn t st1 of
                   Inl e \<Rightarrow> Inl e
                 | Inr st2 \<Rightarrow>
                     (case get_gift_card_by_raw_id st2 i of
                        None \<Rightarrow> Inl (NotFound ''gift_card'' i)
                      | Some held \<Rightarrow>
                          Inr (\<lparr>gw_card = held,
                                gw_transactions = [t\<lparr>gt_notes := ''Issued gift card '' @ number\<rparr>]\<rparr>, st2)))))"

subsection \<open>Redeeming\<close>

text \<open>
  What \<open>redeem_gift_card\<close> does before its transaction: the guards, and the look-up of an earlier
  redemption of the same card for the same sale. \<open>Inl\<close> in the result is that earlier one.
\<close>

definition redeem_check ::
    "(string \<Rightarrow> int option) \<Rightarrow> int \<Rightarrow> string \<Rightarrow> int \<Rightarrow> string \<Rightarrow> gift_store
       \<Rightarrow> core_error + (redeem_gift_card_result + gift_card)" where
  "redeem_check parse clock k amount s st =
     (if amount \<le> 0 then Inl (Validation ''amount_minor'')
      else (case get_gift_card st k of
        None \<Rightarrow> Inl (NotFound ''gift_card'' k)
      | Some held \<Rightarrow>
          if gc_status held \<noteq> ''active'' then Inl (Validation ''status'')
          else if (case expiry_date held of
                     None \<Rightarrow> False
                   | Some x \<Rightarrow> clock > (case parse x of Some d \<Rightarrow> d | None \<Rightarrow> 0))
          then Inl (Validation ''expiry_date'')
          else if current_balance_minor held < amount then Inl (Validation ''current_balance_minor'')
          else (case List.find (redeems (gc_id held) s) (gift_txns st) of
                  Some t \<Rightarrow>
                    Inr (Inl \<lparr>rg_card = (case get_gift_card_by_raw_id st (gc_id held) of
                                            Some c \<Rightarrow> c | None \<Rightarrow> held),
                              rg_transaction = t\<rparr>)
                | None \<Rightarrow> Inr (Inr held))))"

definition redeem_commit ::
    "string \<Rightarrow> string \<Rightarrow> gift_card \<Rightarrow> int \<Rightarrow> string \<Rightarrow> gift_store
       \<Rightarrow> core_error + redeem_gift_card_result \<times> gift_store" where
  "redeem_commit txn_id now held amount s st =
     (case update_cards (gc_id held) (\<lambda>c. current_balance_minor c \<ge> amount)
             (\<lambda>c. c\<lparr>current_balance_minor := current_balance_minor c - amount, gc_updated_at := now\<rparr>) st of
        (changed, st1) \<Rightarrow>
          if changed \<noteq> 1 then Inl (Validation ''current_balance_minor'')
          else (case get_gift_card_by_raw_id st1 (gc_id held) of
            None \<Rightarrow> Inl Db
          | Some after \<Rightarrow>
              (let balance_after = current_balance_minor after;
                   t = \<lparr>gt_id = txn_id, gift_card_id = gc_id held, gt_sale_id = Some s,
                        txn_type = ''redeem'', amount_minor = - amount,
                        balance_after_minor = balance_after,
                        gt_notes = ''Redeemed '' @ format_minor amount (parse_currency (gc_currency held))
                          @ '' on sale '' @ s,
                        gt_created_at = now\<rparr>
               in case insert_txn t st1 of
                    Inl e \<Rightarrow> Inl e
                  | Inr st2 \<Rightarrow>
                      (let st3 = (if balance_after = 0
                             then snd (update_cards (gc_id held) (\<lambda>_. True)
                                    (\<lambda>c. c\<lparr>gc_status := ''redeemed''\<rparr>) st2)
                             else st2)
                       in case get_gift_card_by_raw_id st3 (gc_id held) of
                            None \<Rightarrow> Inl (NotFound ''gift_card'' (gc_id held))
                          | Some updated \<Rightarrow>
                              Inr (\<lparr>rg_card = updated, rg_transaction = t\<rparr>, st3)))))"

definition redeem_gift_card ::
    "(string \<Rightarrow> int option) \<Rightarrow> int \<Rightarrow> string \<Rightarrow> string \<Rightarrow> string \<Rightarrow> int \<Rightarrow> string \<Rightarrow> gift_store
       \<Rightarrow> core_error + redeem_gift_card_result \<times> gift_store" where
  "redeem_gift_card parse clock txn_id now k amount s st =
     (case redeem_check parse clock k amount s st of
        Inl e \<Rightarrow> Inl e
      | Inr (Inl earlier) \<Rightarrow> Inr (earlier, st)
      | Inr (Inr held) \<Rightarrow> redeem_commit txn_id now held amount s st)"

subsection \<open>Topping up, freezing\<close>

definition top_up_check :: "string \<Rightarrow> int \<Rightarrow> gift_store \<Rightarrow> core_error + gift_card" where
  "top_up_check k amount st =
     (if amount \<le> 0 then Inl (Validation ''amount_minor'')
      else (case get_gift_card st k of
        None \<Rightarrow> Inl (NotFound ''gift_card'' k)
      | Some held \<Rightarrow>
          if gc_status held \<noteq> ''active'' \<and> gc_status held \<noteq> ''frozen'' then Inl (Validation ''status'')
          else Inr held))"

definition top_up_commit ::
    "string \<Rightarrow> string \<Rightarrow> gift_card \<Rightarrow> int \<Rightarrow> gift_store
       \<Rightarrow> core_error + gift_card_with_transactions \<times> gift_store" where
  "top_up_commit txn_id now held amount st =
     (let st0 = (if gc_status held = ''frozen''
                 then snd (update_cards (gc_id held) (\<lambda>_. True) (\<lambda>c. c\<lparr>gc_status := ''active''\<rparr>) st)
                 else st)
      in case update_cards (gc_id held) (\<lambda>c. current_balance_minor c \<le> i64_max - amount)
             (\<lambda>c. c\<lparr>current_balance_minor := current_balance_minor c + amount, gc_updated_at := now\<rparr>) st0 of
        (changed, st1) \<Rightarrow>
          if changed \<noteq> 1 then Inl (Validation ''current_balance_minor'')
          else (case get_gift_card_by_raw_id st1 (gc_id held) of
            None \<Rightarrow> Inl Db
          | Some after \<Rightarrow>
              (let t = \<lparr>gt_id = txn_id, gift_card_id = gc_id held, gt_sale_id = None,
                        txn_type = ''topup'', amount_minor = amount,
                        balance_after_minor = current_balance_minor after,
                        gt_notes = ''Top-up of '' @ format_minor amount (parse_currency (gc_currency held))
                          @ '' on card '' @ card_number held,
                        gt_created_at = now\<rparr>
               in case insert_txn t st1 of
                    Inl e \<Rightarrow> Inl e
                  | Inr st2 \<Rightarrow>
                      (case get_gift_card_by_raw_id st2 (gc_id held) of
                         None \<Rightarrow> Inl (NotFound ''gift_card'' (gc_id held))
                       | Some updated \<Rightarrow>
                           Inr (\<lparr>gw_card = updated,
                                 gw_transactions = get_transactions_for_card st2 (gc_id held) 5\<rparr>, st2)))))"

definition top_up_gift_card ::
    "string \<Rightarrow> string \<Rightarrow> string \<Rightarrow> int \<Rightarrow> gift_store
       \<Rightarrow> core_error + gift_card_with_transactions \<times> gift_store" where
  "top_up_gift_card txn_id now k amount st =
     (case top_up_check k amount st of
        Inl e \<Rightarrow> Inl e
      | Inr held \<Rightarrow> top_up_commit txn_id now held amount st)"

text \<open>The read of \<open>freeze\<close> and \<open>unfreeze\<close>, and the compare-and-set of the status.\<close>

definition status_check :: "string \<Rightarrow> string \<Rightarrow> gift_store \<Rightarrow> core_error + gift_card" where
  "status_check from k st =
     (case get_gift_card st k of
        None \<Rightarrow> Inl (NotFound ''gift_card'' k)
      | Some held \<Rightarrow> if gc_status held \<noteq> from then Inl (Validation ''status'') else Inr held)"

definition status_commit ::
    "string \<Rightarrow> string \<Rightarrow> string \<Rightarrow> gift_card \<Rightarrow> gift_store \<Rightarrow> core_error + gift_card \<times> gift_store" where
  "status_commit from new now held st =
     (case update_cards (gc_id held) (\<lambda>c. gc_status c = from)
             (\<lambda>c. c\<lparr>gc_status := new, gc_updated_at := now\<rparr>) st of
        (changed, st1) \<Rightarrow>
          if changed \<noteq> 1 then Inl (Validation ''status'')
          else (case get_gift_card_by_raw_id st1 (gc_id held) of
                  None \<Rightarrow> Inl (NotFound ''gift_card'' (gc_id held))
                | Some c \<Rightarrow> Inr (c, st1)))"

definition freeze_gift_card :: "string \<Rightarrow> string \<Rightarrow> gift_store \<Rightarrow> core_error + gift_card \<times> gift_store" where
  "freeze_gift_card now k st =
     (case status_check ''active'' k st of
        Inl e \<Rightarrow> Inl e | Inr held \<Rightarrow> status_commit ''active'' ''frozen'' now held st)"

definition unfreeze_gift_card :: "string \<Rightarrow> string \<Rightarrow> gift_store \<Rightarrow> core_error + gift_card \<times> gift_store" where
  "unfreeze_gift_card now k st =
     (case status_check ''frozen'' k st of
        Inl e \<Rightarrow> Inl e | Inr held \<Rightarrow> status_commit ''frozen'' ''active'' now held st)"

subsection \<open>Histories with interleaved clients\<close>

text \<open>
  A history is a sequence of commits. The card a commit carries is whatever its client read
  earlier, possibly stale, so the invariant is shown for every card value.
\<close>

datatype gift_event =
    Issue string string string issue_gift_card_input
  | RedeemCommit string string gift_card int string
  | TopUpCommit string string gift_card int
  | StatusCommit string string string gift_card

fun gift_step :: "gift_event \<Rightarrow> gift_store \<Rightarrow> gift_store" where
  "gift_step (Issue i t now inp) st =
     (if in_i64 (initial_amount_minor inp) then keep st (issue_gift_card i t now inp st) else st)"
| "gift_step (RedeemCommit t now held amount s) st =
     (if 0 < amount then keep st (redeem_commit t now held amount s st) else st)"
| "gift_step (TopUpCommit t now held amount) st =
     (if 0 < amount then keep st (top_up_commit t now held amount st) else st)"
| "gift_step (StatusCommit from new now held) st = keep st (status_commit from new now held st)"

text \<open>
  The ledger of a card tells its balance: each row's balance is the one before plus its amount,
  and no balance on the way is negative.
\<close>

fun ledger_ok :: "int \<Rightarrow> gift_card_transaction list \<Rightarrow> int \<Rightarrow> bool" where
  "ledger_ok b [] final \<longleftrightarrow> b = final"
| "ledger_ok b (t # ts) final \<longleftrightarrow> balance_after_minor t = b + amount_minor t
     \<and> 0 \<le> balance_after_minor t \<and> ledger_ok (balance_after_minor t) ts final"

definition card_ledger :: "gift_store \<Rightarrow> string \<Rightarrow> gift_card_transaction list" where
  "card_ledger st i = filter (\<lambda>t. gift_card_id t = i) (gift_txns st)"

definition redeem_key :: "gift_card_transaction \<Rightarrow> string \<times> string option" where
  "redeem_key t = (gift_card_id t, gt_sale_id t)"

definition sale_redeems :: "gift_store \<Rightarrow> gift_card_transaction list" where
  "sale_redeems st = filter (\<lambda>t. txn_type t = ''redeem'' \<and> gt_sale_id t \<noteq> None) (gift_txns st)"

definition gift_inv :: "gift_store \<Rightarrow> bool" where
  "gift_inv st \<longleftrightarrow> distinct (map gc_id (gift_cards st)) \<and> distinct (map card_number (gift_cards st))
     \<and> (\<forall>t \<in> set (gift_txns st). gift_card_id t \<in> gc_id ` set (gift_cards st))
     \<and> (\<forall>c \<in> set (gift_cards st). 0 \<le> current_balance_minor c \<and> current_balance_minor c \<le> i64_max
          \<and> ledger_ok 0 (card_ledger st (gc_id c)) (current_balance_minor c))
     \<and> distinct (map redeem_key (sale_redeems st))"

lemma ledger_ok_append:
  "ledger_ok b (ts @ [t]) final \<longleftrightarrow>
     balance_after_minor t = final \<and> 0 \<le> final \<and> ledger_ok b ts (final - amount_minor t)"
  by (induction ts arbitrary: b) auto

lemma ledger_ok_sum: "ledger_ok b ts final \<Longrightarrow> final = b + sum_list (map amount_minor ts)"
proof (induction ts arbitrary: b)
  case (Cons t ts)
  then have b: "balance_after_minor t = b + amount_minor t"
    and ok: "ledger_ok (balance_after_minor t) ts final" unfolding ledger_ok.simps by blast+
  from Cons.IH [OF ok] show ?case unfolding b by simp
qed simp

lemma insert_txn_Inr:
  assumes "insert_txn t st = Inr st'"
  shows "st' = st\<lparr>gift_txns := gift_txns st @ [t]\<rparr>"
    and "distinct (map redeem_key (sale_redeems st)) \<Longrightarrow> distinct (map redeem_key (sale_redeems st'))"
proof -
  show st': "st' = st\<lparr>gift_txns := gift_txns st @ [t]\<rparr>"
    using assms by (auto simp: insert_txn_def split: if_splits)
  assume d: "distinct (map redeem_key (sale_redeems st))"
  show "distinct (map redeem_key (sale_redeems st'))"
  proof (cases "txn_type t = ''redeem'' \<and> gt_sale_id t \<noteq> None")
    case True
    then obtain s where s: "gt_sale_id t = Some s" by auto
    then have "\<not> list_ex (redeems (gift_card_id t) s) (gift_txns st)"
      using assms True by (auto simp: insert_txn_def split: if_splits)
    then have "redeem_key t \<notin> redeem_key ` set (sale_redeems st)"
      using s by (auto simp: redeem_key_def sale_redeems_def redeems_def list_ex_iff)
    then show ?thesis using d True by (simp add: st' sale_redeems_def)
  next
    case False
    then show ?thesis using d by (auto simp: st' sale_redeems_def)
  qed
qed

lemma update_ids [simp]:
  assumes "\<And>c. gc_id (f c) = gc_id c"
  shows "map gc_id (gift_cards (snd (update_cards i P f st))) = map gc_id (gift_cards st)"
  using assms by (simp add: update_cards_def comp_def if_distrib cong: if_cong)

lemma update_one:
  assumes "distinct (map gc_id (gift_cards st))" and "update_cards i P f st = (1, st1)"
  obtains c where "c \<in> set (gift_cards st)" and "gc_id c = i" and "P c"
    and "gift_cards st1 = map (\<lambda>x. if gc_id x = i then f x else x) (gift_cards st)"
    and "gift_txns st1 = gift_txns st"
proof -
  let ?cs = "gift_cards st"
  have st1: "st1 = st\<lparr>gift_cards := map (\<lambda>x. if gc_id x = i \<and> P x then f x else x) ?cs\<rparr>"
    and n: "length (filter (\<lambda>c. gc_id c = i \<and> P c) ?cs) = 1"
    using assms(2) by (simp_all add: update_cards_def)
  from n have "filter (\<lambda>c. gc_id c = i \<and> P c) ?cs \<noteq> []" by auto
  then obtain c where c: "c \<in> set ?cs" "gc_id c = i" "P c" by (auto simp: filter_empty_conv)
  have "x = c" if "x \<in> set ?cs" "gc_id x = i" for x
    using assms(1) that c by (simp add: distinct_map inj_on_def)
  then have "map (\<lambda>x. if gc_id x = i \<and> P x then f x else x) ?cs
      = map (\<lambda>x. if gc_id x = i then f x else x) ?cs"
    using c(3) by auto
  then show thesis using that c st1 by simp
qed

lemma raw_id_in:
  assumes "distinct (map gc_id (gift_cards st))" and "c \<in> set (gift_cards st)"
  shows "get_gift_card_by_raw_id st (gc_id c) = Some c"
  unfolding get_gift_card_by_raw_id_def by (rule find_by_key [OF assms])

text \<open>One entry: a balance moves by the amount of the row that is appended.\<close>

lemma post_inv:
  assumes inv: "gift_inv st" and c: "c \<in> set (gift_cards st)" "gc_id c = i"
    and g: "\<And>x. gc_id (g x) = gc_id x" "\<And>x. card_number (g x) = card_number x"
    and bal: "current_balance_minor (g c) = current_balance_minor c + amount_minor t"
      "0 \<le> current_balance_minor (g c)" "current_balance_minor (g c) \<le> i64_max"
    and t: "gift_card_id t = i" "balance_after_minor t = current_balance_minor (g c)"
    and cards: "gift_cards st' = map (\<lambda>x. if gc_id x = i then g x else x) (gift_cards st)"
    and txns: "gift_txns st' = gift_txns st @ [t]"
    and keys: "distinct (map redeem_key (sale_redeems st'))"
  shows "gift_inv st'"
proof -
  have ids: "map gc_id (gift_cards st') = map gc_id (gift_cards st)"
    "map card_number (gift_cards st') = map card_number (gift_cards st)"
    using g by (auto simp: cards)
  have idset: "gc_id ` set (gift_cards st') = gc_id ` set (gift_cards st)"
    using ids(1) by (metis list.set_map)
  have same: "x = c" if "x \<in> set (gift_cards st)" "gc_id x = i" for x
    using inv that c by (simp add: gift_inv_def distinct_map inj_on_def)
  have led: "0 \<le> current_balance_minor y \<and> current_balance_minor y \<le> i64_max
      \<and> ledger_ok 0 (card_ledger st' (gc_id y)) (current_balance_minor y)"
    if y: "y \<in> set (gift_cards st')" for y
  proof (cases "gc_id y = i")
    case True
    then have "y = g c" using y same g by (auto simp: cards split: if_splits)
    then show ?thesis using inv c bal t g
      by (auto simp: gift_inv_def card_ledger_def txns ledger_ok_append)
  next
    case False
    then have "y \<in> set (gift_cards st)" using y g by (auto simp: cards split: if_splits)
    moreover have "card_ledger st' (gc_id y) = card_ledger st (gc_id y)"
      using False t by (simp add: card_ledger_def txns)
    ultimately show ?thesis using inv by (simp add: gift_inv_def)
  qed
  have "i \<in> gc_id ` set (gift_cards st)" using c by auto
  then have "\<forall>x \<in> set (gift_txns st'). gift_card_id x \<in> gc_id ` set (gift_cards st')"
    using inv t by (auto simp: gift_inv_def txns idset)
  then show ?thesis using inv led keys by (simp add: gift_inv_def ids)
qed

lemma status_inv:
  assumes inv: "gift_inv st"
    and g: "\<And>x. gc_id (g x) = gc_id x" "\<And>x. card_number (g x) = card_number x"
      "\<And>x. current_balance_minor (g x) = current_balance_minor x"
    and cards: "gift_cards st' = map g (gift_cards st)" and txns: "gift_txns st' = gift_txns st"
  shows "gift_inv st'"
proof -
  have ids: "map gc_id (gift_cards st') = map gc_id (gift_cards st)"
    "map card_number (gift_cards st') = map card_number (gift_cards st)"
    using g by (auto simp: cards)
  have idset: "gc_id ` set (gift_cards st') = gc_id ` set (gift_cards st)"
    using ids(1) by (metis list.set_map)
  have "card_ledger st' = card_ledger st" "sale_redeems st' = sale_redeems st"
    by (simp_all add: fun_eq_iff card_ledger_def sale_redeems_def txns)
  then show ?thesis using inv g by (auto simp: gift_inv_def ids idset txns) (auto simp: cards)
qed

lemma update_status_inv:
  assumes "gift_inv st" and "\<And>x. gc_id (f x) = gc_id x" "\<And>x. card_number (f x) = card_number x"
    "\<And>x. current_balance_minor (f x) = current_balance_minor x"
  shows "gift_inv (snd (update_cards i P f st))"
  by (rule status_inv [OF assms(1), where g = "\<lambda>x. if gc_id x = i \<and> P x then f x else x"])
    (use assms(2-) in \<open>auto simp: update_cards_def\<close>)

lemma issue_inv:
  assumes "gift_inv st" and "in_i64 (initial_amount_minor inp)"
    and "issue_gift_card i txn_id now inp st = Inr (r, st')"
  shows "gift_inv st'"
proof -
  obtain c t st1 where ins: "insert_card c st = Inr st1" "insert_txn t st1 = Inr st'"
    and c: "gc_id c = i" "current_balance_minor c = initial_amount_minor inp"
    and t: "gift_card_id t = i" "amount_minor t = initial_amount_minor inp"
      "balance_after_minor t = initial_amount_minor inp"
    and pos: "0 < initial_amount_minor inp"
    using assms(3)
    by (auto simp: issue_gift_card_def Let_def split: if_splits sum.splits option.splits)
  have st1: "st1 = st\<lparr>gift_cards := gift_cards st @ [c]\<rparr>"
    and new: "i \<notin> gc_id ` set (gift_cards st)" "card_number c \<notin> card_number ` set (gift_cards st)"
    using ins(1) c by (auto simp: insert_card_def split: if_splits)
  note st' = insert_txn_Inr [OF ins(2)]
  have "distinct (map redeem_key (sale_redeems st'))"
    using assms(1) by (intro st'(2)) (simp add: st1 gift_inv_def sale_redeems_def)
  moreover have "\<forall>x \<in> set (gift_cards st). gc_id x \<noteq> i" using new(1) by auto
  moreover have "card_ledger st i = []"
    using assms(1) new(1) by (auto simp: gift_inv_def card_ledger_def filter_empty_conv)
  moreover have "card_ledger st' j = card_ledger st j @ (if j = i then [t] else [])" for j
    using t by (auto simp: card_ledger_def st'(1) st1)
  ultimately show ?thesis using assms(1,2) c t pos new
    by (auto simp: gift_inv_def st'(1) st1 in_i64_def)
qed

lemma redeem_commit_steps:
  assumes "gift_inv st" and "0 < amount" and "redeem_commit txn_id now held amount s st = Inr (r, st')"
  obtains c t st2 where "c \<in> set (gift_cards st)" and "gc_id c = gc_id held"
    and "amount \<le> current_balance_minor c" and "gift_inv st2"
    and "gift_card_id t = gc_id held" and "gt_sale_id t = Some s" and "txn_type t = ''redeem''"
    and "amount_minor t = - amount" and "rg_transaction r = t"
    and "gift_cards st2 = map (\<lambda>x. if gc_id x = gc_id held
      then x\<lparr>current_balance_minor := current_balance_minor x - amount, gc_updated_at := now\<rparr> else x)
      (gift_cards st)"
    and "gift_txns st2 = gift_txns st @ [t]"
    and "st' = (if current_balance_minor c = amount
      then snd (update_cards (gc_id held) (\<lambda>_. True) (\<lambda>c. c\<lparr>gc_status := ''redeemed''\<rparr>) st2) else st2)"
    and "get_gift_card_by_raw_id st' (gc_id held) = Some (rg_card r)"
    and "\<not> list_ex (redeems (gc_id held) s) (gift_txns st)"
proof -
  let ?f = "\<lambda>c. c\<lparr>current_balance_minor := current_balance_minor c - amount, gc_updated_at := now\<rparr>"
  obtain st1 where upd: "update_cards (gc_id held) (\<lambda>c. current_balance_minor c \<ge> amount) ?f st = (1, st1)"
    using assms(3) by (auto simp: redeem_commit_def split: prod.splits if_splits)
  have d: "distinct (map gc_id (gift_cards st))" using assms(1) by (simp add: gift_inv_def)
  obtain c where c: "c \<in> set (gift_cards st)" "gc_id c = gc_id held" "amount \<le> current_balance_minor c"
    and st1: "gift_cards st1 = map (\<lambda>x. if gc_id x = gc_id held then ?f x else x) (gift_cards st)"
    "gift_txns st1 = gift_txns st"
    using update_one [OF d upd] by blast
  have d1: "distinct (map gc_id (gift_cards st1))"
    using d by (simp add: st1 comp_def if_distrib cong: if_cong)
  have "?f c \<in> set (gift_cards st1)" using c by (auto simp: st1 image_iff intro!: bexI [of _ c])
  then have after: "get_gift_card_by_raw_id st1 (gc_id held) = Some (?f c)"
    using raw_id_in [OF d1, of "?f c"] c by simp
  define t where "t = \<lparr>gt_id = txn_id, gift_card_id = gc_id held, gt_sale_id = Some s, txn_type = ''redeem'',
      amount_minor = - amount, balance_after_minor = current_balance_minor c - amount,
      gt_notes = ''Redeemed '' @ format_minor amount (parse_currency (gc_currency held)) @ '' on sale '' @ s,
      gt_created_at = now\<rparr>"
  obtain st2 where st2: "insert_txn t st1 = Inr st2"
    and st': "st' = (if current_balance_minor c = amount
      then snd (update_cards (gc_id held) (\<lambda>_. True) (\<lambda>c. c\<lparr>gc_status := ''redeemed''\<rparr>) st2) else st2)"
    and r: "get_gift_card_by_raw_id st' (gc_id held) = Some (rg_card r)" "rg_transaction r = t"
    using assms(3) upd after
    by (auto simp: redeem_commit_def Let_def t_def split: sum.splits option.splits if_splits)
  have none: "\<not> list_ex (redeems (gc_id held) s) (gift_txns st)"
    using st2 by (auto simp: insert_txn_def t_def st1 split: if_splits)
  have st2': "gift_cards st2 = map (\<lambda>x. if gc_id x = gc_id held then ?f x else x) (gift_cards st)"
    "gift_txns st2 = gift_txns st @ [t]"
    using insert_txn_Inr(1) [OF st2] st1 by simp_all
  have inv2: "gift_inv st2"
  proof (rule post_inv [where c = c and t = t and g = ?f and i = "gc_id held", OF assms(1) c(1,2)])
    show "distinct (map redeem_key (sale_redeems st2))"
      using assms(1) by (intro insert_txn_Inr(2) [OF st2]) (simp add: gift_inv_def sale_redeems_def st1)
    show "current_balance_minor (?f c) \<le> i64_max"
      using assms(1,2) c by (fastforce simp: gift_inv_def)
  qed (use c st1 insert_txn_Inr(1) [OF st2] in \<open>auto simp: t_def\<close>)
  have t: "gift_card_id t = gc_id held" "gt_sale_id t = Some s" "txn_type t = ''redeem''" "amount_minor t = - amount"
    by (simp_all add: t_def)
  show thesis by (rule that [OF c inv2 t r(2) st2' st' r(1) none])
qed

lemma redeem_commit_inv:
  assumes "gift_inv st" and "0 < amount" and "redeem_commit txn_id now held amount s st = Inr (r, st')"
  shows "gift_inv st'"
  by (rule redeem_commit_steps [OF assms]) (simp add: update_status_inv)

lemma top_up_commit_inv:
  assumes "gift_inv st" and "0 < amount" and "top_up_commit txn_id now held amount st = Inr (r, st')"
  shows "gift_inv st'"
proof -
  let ?f = "\<lambda>c. c\<lparr>current_balance_minor := current_balance_minor c + amount, gc_updated_at := now\<rparr>"
  define st0 where "st0 = (if gc_status held = ''frozen''
    then snd (update_cards (gc_id held) (\<lambda>_. True) (\<lambda>c. c\<lparr>gc_status := ''active''\<rparr>) st) else st)"
  have inv0: "gift_inv st0" using assms(1) by (auto simp: st0_def intro: update_status_inv)
  then have d: "distinct (map gc_id (gift_cards st0))" by (simp add: gift_inv_def)
  obtain st1 where upd: "update_cards (gc_id held) (\<lambda>c. current_balance_minor c \<le> i64_max - amount) ?f st0 = (1, st1)"
    using assms(3) by (auto simp: top_up_commit_def st0_def Let_def split: prod.splits if_splits)
  obtain c where c: "c \<in> set (gift_cards st0)" "gc_id c = gc_id held"
    "current_balance_minor c \<le> i64_max - amount"
    and st1: "gift_cards st1 = map (\<lambda>x. if gc_id x = gc_id held then ?f x else x) (gift_cards st0)"
    "gift_txns st1 = gift_txns st0"
    using update_one [OF d upd] by blast
  have d1: "distinct (map gc_id (gift_cards st1))"
    using d by (simp add: st1 comp_def if_distrib cong: if_cong)
  have "?f c \<in> set (gift_cards st1)" using c by (auto simp: st1 image_iff intro!: bexI [of _ c])
  then have after: "get_gift_card_by_raw_id st1 (gc_id held) = Some (?f c)"
    using raw_id_in [OF d1, of "?f c"] c by simp
  obtain t where t: "insert_txn t st1 = Inr st'" "gift_card_id t = gc_id held" "amount_minor t = amount"
    "balance_after_minor t = current_balance_minor (?f c)"
    using assms(3) upd after
    by (auto simp: top_up_commit_def Let_def simp flip: st0_def split: sum.splits option.splits if_splits)
  show ?thesis
  proof (rule post_inv [where c = c and t = t and g = ?f and i = "gc_id held", OF inv0 c(1,2)])
    show "distinct (map redeem_key (sale_redeems st'))"
      using inv0 by (intro insert_txn_Inr(2) [OF t(1)]) (simp add: gift_inv_def sale_redeems_def st1)
    show "0 \<le> current_balance_minor (?f c)" using inv0 assms(2) c by (fastforce simp: gift_inv_def)
  qed (use c st1 t insert_txn_Inr(1) [OF t(1)] in auto)
qed

lemma status_commit_inv:
  "gift_inv st \<Longrightarrow> status_commit from new now held st = Inr (r, st') \<Longrightarrow> gift_inv st'"
  using update_status_inv [of st "\<lambda>c. c\<lparr>gc_status := new, gc_updated_at := now\<rparr>" "gc_id held" "\<lambda>c. gc_status c = from"]
  by (auto simp: status_commit_def split: prod.splits if_splits option.splits)

lemma gift_step_inv: "gift_inv st \<Longrightarrow> gift_inv (gift_step e st)"
  by (cases e)
    (auto simp: keep_def split: sum.split intro: issue_inv redeem_commit_inv top_up_commit_inv status_commit_inv)

definition empty_gift_store :: gift_store where
  "empty_gift_store = \<lparr>gift_cards = [], gift_txns = []\<rparr>"

interpretation gift_machine: machine empty_gift_store gift_step gift_inv
  by unfold_locales (simp_all add: gift_step_inv, simp add: empty_gift_store_def gift_inv_def sale_redeems_def)

subsection \<open>The effect of a redemption\<close>

lemma find_map_keep:
  "(\<And>x. P (g x) = P x) \<Longrightarrow> List.find P (map g xs) = map_option g (List.find P xs)"
  by (induction xs) auto

lemma get_update:
  assumes "\<And>x. gc_id (f x) = gc_id x" and "\<And>x. card_number (f x) = card_number x"
    and "gift_cards st' = map (\<lambda>x. if gc_id x = i \<and> P x then f x else x) (gift_cards st)"
  shows "get_gift_card st' k
    = map_option (\<lambda>x. if gc_id x = i \<and> P x then f x else x) (get_gift_card st k)"
  unfolding get_gift_card_def assms(3) by (rule find_map_keep) (use assms(1,2) in auto)

lemma get_gift_card_in: "get_gift_card st k = Some c \<Longrightarrow> c \<in> set (gift_cards st)"
  by (auto simp: get_gift_card_def find_Some_iff)

lemma redeem_check_fresh:
  assumes "redeem_check parse clock k amount s st = Inr (Inr held)"
  shows "get_gift_card st k = Some held" and "0 < amount" and "amount \<le> current_balance_minor held"
    and "gc_status held = ''active''" and "\<not> list_ex (redeems (gc_id held) s) (gift_txns st)"
  using assms
  by (auto simp: redeem_check_def find_None_iff list_ex_iff split: if_splits option.splits)

lemma same_card: "gift_inv st \<Longrightarrow> c \<in> set (gift_cards st) \<Longrightarrow> d \<in> set (gift_cards st) \<Longrightarrow> gc_id c = gc_id d \<Longrightarrow> c = d"
  by (simp add: gift_inv_def distinct_map inj_on_def)

text \<open>The card after its redemption.\<close>

definition deducted :: "string \<Rightarrow> int \<Rightarrow> gift_card \<Rightarrow> gift_card" where
  "deducted now amount c = c\<lparr>current_balance_minor := current_balance_minor c - amount,
     gc_updated_at := now,
     gc_status := if current_balance_minor c = amount then ''redeemed'' else gc_status c\<rparr>"

lemma redeem_commit_effect:
  assumes "gift_inv st" and "held \<in> set (gift_cards st)" and "0 < amount"
    and "redeem_commit txn_id now held amount s st = Inr (r, st')"
  shows "gift_cards st' = map (\<lambda>x. if gc_id x = gc_id held then deducted now amount x else x) (gift_cards st)"
    and "gift_txns st' = gift_txns st @ [rg_transaction r]"
    and "redeems (gc_id held) s (rg_transaction r)" and "amount_minor (rg_transaction r) = - amount"
proof -
  obtain c t st2 where c: "c \<in> set (gift_cards st)" "gc_id c = gc_id held"
    "amount \<le> current_balance_minor c" "gift_inv st2"
    and t: "gift_card_id t = gc_id held" "gt_sale_id t = Some s" "txn_type t = ''redeem''"
      "amount_minor t = - amount" "rg_transaction r = t"
    and st2: "gift_cards st2 = map (\<lambda>x. if gc_id x = gc_id held
      then x\<lparr>current_balance_minor := current_balance_minor x - amount, gc_updated_at := now\<rparr> else x)
      (gift_cards st)" "gift_txns st2 = gift_txns st @ [t]"
    and st': "st' = (if current_balance_minor c = amount
      then snd (update_cards (gc_id held) (\<lambda>_. True) (\<lambda>c. c\<lparr>gc_status := ''redeemed''\<rparr>) st2) else st2)"
    and "get_gift_card_by_raw_id st' (gc_id held) = Some (rg_card r)"
    and "\<not> list_ex (redeems (gc_id held) s) (gift_txns st)"
    by (rule redeem_commit_steps [OF assms(1,3,4)])
  have "c = held" using same_card [OF assms(1) c(1) assms(2) c(2)] .
  moreover have "x = held" if "x \<in> set (gift_cards st)" "gc_id x = gc_id held" for x
    using same_card [OF assms(1) that(1) assms(2) that(2)] .
  ultimately show "gift_cards st' = map (\<lambda>x. if gc_id x = gc_id held then deducted now amount x else x) (gift_cards st)"
    by (auto simp: st' st2 update_cards_def deducted_def)
  show "gift_txns st' = gift_txns st @ [rg_transaction r]" "redeems (gc_id held) s (rg_transaction r)"
    "amount_minor (rg_transaction r) = - amount"
    using t by (auto simp: st' st2 update_cards_def redeems_def)
qed

lemma redeem_commit_succeeds:
  assumes inv: "gift_inv st" and c: "c \<in> set (gift_cards st)" "gc_id held = gc_id c"
    and "amount \<le> current_balance_minor c"
    and "txn_id \<notin> gt_id ` set (gift_txns st)" and "\<not> list_ex (redeems (gc_id c) s) (gift_txns st)"
  shows "\<exists>r st'. redeem_commit txn_id now held amount s st = Inr (r, st') \<and> rg_card r = deducted now amount c"
proof -
  let ?f = "\<lambda>x. x\<lparr>current_balance_minor := current_balance_minor x - amount, gc_updated_at := now\<rparr>"
  let ?cards = "map (\<lambda>x. if gc_id x = gc_id c \<and> amount \<le> current_balance_minor x then ?f x else x) (gift_cards st)"
  have d: "distinct (map gc_id (gift_cards st))" using inv by (simp add: gift_inv_def)
  have upd: "update_cards (gc_id held) (\<lambda>x. amount \<le> current_balance_minor x) ?f st
      = (1, st\<lparr>gift_cards := ?cards\<rparr>)"
    using filter_by_key [OF d c(1), of "\<lambda>x. amount \<le> current_balance_minor x"] assms(4) c(2)
    by (simp add: update_cards_def)
  have get: "List.find (\<lambda>x. gc_id x = gc_id c) (map g (gift_cards st)) = Some (g c)"
    if "\<And>x. gc_id (g x) = gc_id x" for g :: "gift_card \<Rightarrow> gift_card"
    using find_by_key [OF d c(1)] find_map_keep [of "\<lambda>x. gc_id x = gc_id c" g "gift_cards st"] that by simp
  have after: "List.find (\<lambda>x. gc_id x = gc_id c) ?cards = Some (?f c)"
    by (subst get) (use assms(4) in auto)
  have final: "List.find (\<lambda>x. gc_id x = gc_id c)
      (map (\<lambda>x. if gc_id x = gc_id c then x\<lparr>gc_status := ''redeemed''\<rparr> else x) ?cards)
      = Some ((?f c)\<lparr>gc_status := ''redeemed''\<rparr>)"
    using find_map_keep [of "\<lambda>x. gc_id x = gc_id c" "\<lambda>x. if gc_id x = gc_id c then x\<lparr>gc_status := ''redeemed''\<rparr> else x" ?cards] after
    by (simp only: option.map) auto
  show ?thesis
    using upd after final assms(5,6) c(2)
    by (simp add: redeem_commit_def get_gift_card_by_raw_id_def insert_txn_def Let_def update_cards_def
        deducted_def del: map_map)
qed

subsection \<open>Properties\<close>

text \<open>
  C18. Through any interleaving of issues, redemptions, top-ups, freezes and unfreezes, each
  committing with whatever it read before, ids and card numbers stay unique, no balance is
  negative or above \<open>i64::MAX\<close>, every ledger row continues the balance of the row before it, the
  balance of a card is the sum of its ledger, and a card is redeemed at most once for a sale.
\<close>

theorem gift_history_invariant:
  "gift_inv (run gift_step es empty_gift_store)
   \<and> list_all (\<lambda>c. current_balance_minor c
        = sum_list (map amount_minor (card_ledger (run gift_step es empty_gift_store) (gc_id c))))
       (gift_cards (run gift_step es empty_gift_store))"
proof -
  have "gift_inv (run gift_step es empty_gift_store)" by (rule gift_machine.inv_run)
  then show ?thesis
    using ledger_ok_sum [where b = 0] by (fastforce simp: gift_inv_def list_all_iff)
qed

text \<open>
  A successful redemption either finds an earlier one of the same card for the same sale,
  returns that ledger row and changes nothing, or deducts exactly the amount from that one card
  (which becomes \<open>redeemed\<close> when nothing is left) and appends one ledger row. No later call for the
  same card and sale, at any time and for any amount, gets as far as a second deduction.
\<close>

theorem redeem_deducts_once:
  assumes "gift_inv st" and "redeem_gift_card parse clock txn_id now k amount s st = Inr (r, st')"
  shows "\<exists>c. get_gift_card st k = Some c \<and> redeems (gc_id c) s (rg_transaction r)
    \<and> ((st' = st \<and> rg_transaction r \<in> set (gift_txns st))
       \<or> (amount \<le> current_balance_minor c
          \<and> gift_cards st' = map (\<lambda>x. if gc_id x = gc_id c then deducted now amount x else x) (gift_cards st)
          \<and> gift_txns st' = gift_txns st @ [rg_transaction r] \<and> amount_minor (rg_transaction r) = - amount))
    \<and> (\<forall>clock' amount' card'. redeem_check parse clock' k amount' s st' \<noteq> Inr (Inr card'))"
proof (cases "redeem_check parse clock k amount s st")
  case (Inr x)
  show ?thesis
  proof (cases x)
    case (Inl early)
    then have st': "st' = st" "r = early"
      and chk: "redeem_check parse clock k amount s st = Inr (Inl early)"
      using assms(2) Inr by (auto simp: redeem_gift_card_def)
    then obtain c where c: "get_gift_card st k = Some c"
      "List.find (redeems (gc_id c) s) (gift_txns st) = Some (rg_transaction early)"
      by (auto simp: redeem_check_def split: if_splits option.splits)
    then have t: "rg_transaction early \<in> set (gift_txns st)" "redeems (gc_id c) s (rg_transaction early)"
      by (auto simp: find_Some_iff)
    have "redeem_check parse clock' k amount' s st \<noteq> Inr (Inr card')" for clock' amount' card'
      using redeem_check_fresh(1,5) [of parse clock' k amount' s st card'] c t
      by (auto simp: list_ex_iff)
    then show ?thesis using c t st' by auto
  next
    case (Inr c)
    then have chk: "redeem_check parse clock k amount s st = Inr (Inr c)"
      and com: "redeem_commit txn_id now c amount s st = Inr (r, st')"
      using assms(2) \<open>redeem_check parse clock k amount s st = Inr x\<close>
      by (auto simp: redeem_gift_card_def)
    note f = redeem_check_fresh [OF chk]
    note e = redeem_commit_effect [OF assms(1) get_gift_card_in [OF f(1)] f(2) com]
    have "get_gift_card st' k = Some (deducted now amount c)"
      using get_update [of "deducted now amount" st' "gc_id c" "\<lambda>_. True" st k] e(1) f(1)
      by (simp add: deducted_def)
    then have "redeem_check parse clock' k amount' s st' \<noteq> Inr (Inr card')" for clock' amount' card'
      using redeem_check_fresh(1,5) [of parse clock' k amount' s st' card'] e(2,3)
      by (auto simp: deducted_def)
    then show ?thesis using f(1,3) e by auto
  qed
qed (use assms(2) in \<open>simp add: redeem_gift_card_def\<close>)

definition demo_card :: gift_card where
  "demo_card = \<lparr>gc_id = ''g1'', card_number = ''CARD-1'', pin = [], initial_balance_minor = 1000,
     current_balance_minor = 1000, gc_currency = ''USD'', gc_status = ''active'', issued_to = [],
     issue_date = ''t0'', expiry_date = None, created_by = None, gc_updated_at = ''t0''\<rparr>"

definition demo_gifts :: gift_store where
  "demo_gifts = \<lparr>gift_cards = [demo_card],
     gift_txns = [\<lparr>gt_id = ''x1'', gift_card_id = ''g1'', gt_sale_id = None, txn_type = ''issue'',
       amount_minor = 1000, balance_after_minor = 1000, gt_notes = [], gt_created_at = ''t0''\<rparr>]\<rparr>"

lemma demo_gifts_inv: "gift_inv demo_gifts"
  by (simp add: gift_inv_def demo_gifts_def demo_card_def card_ledger_def sale_redeems_def)

lemmas gift_run = redeem_gift_card_def redeem_check_def redeem_commit_def get_gift_card_def
  get_gift_card_by_raw_id_def redeems_def insert_txn_def update_cards_def Let_def

lemma demo_redeem:
  "\<exists>r st'. redeem_gift_card (\<lambda>_. None) 5 ''x2'' ''t1'' ''CARD-1'' 1000 ''s1'' demo_gifts = Inr (r, st')
     \<and> gift_cards st' = [deducted ''t1'' 1000 demo_card]"
  by (simp add: gift_run demo_gifts_def demo_card_def deducted_def)

theorem redeem_deducts_once_witness:
  "\<exists>r st'. redeem_gift_card (\<lambda>_. None) 5 ''x2'' ''t1'' ''CARD-1'' 1000 ''s1'' demo_gifts = Inr (r, st')
     \<and> (\<forall>clock' amount' card'. redeem_check (\<lambda>_. None) clock' ''CARD-1'' amount' ''s1'' st' \<noteq> Inr (Inr card'))"
proof -
  obtain r st' where r: "redeem_gift_card (\<lambda>_. None) 5 ''x2'' ''t1'' ''CARD-1'' 1000 ''s1'' demo_gifts = Inr (r, st')"
    using demo_redeem by blast
  then show ?thesis using redeem_deducts_once [OF demo_gifts_inv r] by blast
qed

text \<open>
  The retry that the idempotency look-up is meant for can fail: the status and balance guards
  come before it, so after a redemption that empties the card the same call with the same sale is
  refused as \<open>status\<close>, instead of returning the recorded redemption.
\<close>

theorem retry_after_emptying_refused:
  assumes "gift_inv st" and "redeem_check parse clock k amount s st = Inr (Inr c)"
    and "redeem_commit txn_id now c amount s st = Inr (r, st')" and "current_balance_minor c = amount"
  shows "redeem_gift_card parse clock' txn_id' now' k amount s st' = Inl (Validation ''status'')
    \<and> list_ex (redeems (gc_id c) s) (gift_txns st')"
proof -
  note f = redeem_check_fresh [OF assms(2)]
  note e = redeem_commit_effect [OF assms(1) get_gift_card_in [OF f(1)] f(2) assms(3)]
  have "get_gift_card st' k = Some (deducted now amount c)"
    using get_update [of "deducted now amount" st' "gc_id c" "\<lambda>_. True" st k] e(1) f(1)
    by (simp add: deducted_def)
  then show ?thesis using e f(2) assms(4)
    by (simp add: redeem_gift_card_def redeem_check_def deducted_def list_ex_iff)
qed

theorem retry_after_emptying_refused_witness:
  "\<exists>r st'. redeem_gift_card (\<lambda>_. None) 5 ''x2'' ''t1'' ''CARD-1'' 1000 ''s1'' demo_gifts = Inr (r, st')
     \<and> redeem_gift_card (\<lambda>_. None) 6 ''x3'' ''t2'' ''CARD-1'' 1000 ''s1'' st' = Inl (Validation ''status'')"
proof -
  have chk: "redeem_check (\<lambda>_. None) 5 ''CARD-1'' 1000 ''s1'' demo_gifts = Inr (Inr demo_card)"
    by (simp add: gift_run demo_gifts_def demo_card_def)
  moreover obtain r st' where
    r: "redeem_gift_card (\<lambda>_. None) 5 ''x2'' ''t1'' ''CARD-1'' 1000 ''s1'' demo_gifts = Inr (r, st')"
    using demo_redeem by blast
  ultimately have com: "redeem_commit ''x2'' ''t1'' demo_card 1000 ''s1'' demo_gifts = Inr (r, st')"
    by (simp add: redeem_gift_card_def)
  have "current_balance_minor demo_card = 1000" by (simp add: demo_card_def)
  then show ?thesis
    using r retry_after_emptying_refused [OF demo_gifts_inv chk com, of "6" "''x3''" "''t2''"] by blast
qed

text \<open>
  The guard of a redemption's update looks at the balance only: a freeze that commits between
  the redemption's check and its transaction does not stop it, and the frozen card is deducted.
\<close>

theorem freeze_does_not_stop_checked_redemption:
  assumes "gift_inv st" and "redeem_check parse clock k amount s st = Inr (Inr c)"
    and "freeze_gift_card now k st = Inr (f, st1)" and "txn_id \<notin> gt_id ` set (gift_txns st)"
  shows "gc_status f = ''frozen'' \<and> (\<exists>r st'. redeem_commit txn_id now' c amount s st1 = Inr (r, st')
    \<and> current_balance_minor (rg_card r) = current_balance_minor c - amount
    \<and> (amount < current_balance_minor c \<longrightarrow> gc_status (rg_card r) = ''frozen''))"
proof -
  note chk = redeem_check_fresh [OF assms(2)]
  have sc: "status_commit ''active'' ''frozen'' now c st = Inr (f, st1)"
    using assms(3) chk(1) by (simp add: freeze_gift_card_def status_check_def split: if_splits)
  have inv1: "gift_inv st1" by (rule status_commit_inv [OF assms(1) sc])
  let ?z = "\<lambda>x. x\<lparr>gc_status := ''frozen'', gc_updated_at := now\<rparr>"
  have d: "distinct (map gc_id (gift_cards st))" using assms(1) by (simp add: gift_inv_def)
  have upd: "update_cards (gc_id c) (\<lambda>c. gc_status c = ''active'') ?z st = (1, st1)"
    and f: "get_gift_card_by_raw_id st1 (gc_id c) = Some f"
    using sc by (auto simp: status_commit_def split: prod.splits if_splits option.splits)
  obtain st1: "gift_cards st1 = map (\<lambda>x. if gc_id x = gc_id c then ?z x else x) (gift_cards st)"
    "gift_txns st1 = gift_txns st"
    using update_one [OF d upd] by blast
  then have c1: "?z c \<in> set (gift_cards st1)" using get_gift_card_in [OF chk(1)] by (auto simp: image_iff)
  have "f = ?z c" using raw_id_in [OF _ c1] inv1 f by (simp add: gift_inv_def)
  moreover obtain r st' where "redeem_commit txn_id now' c amount s st1 = Inr (r, st')"
    "rg_card r = deducted now' amount (?z c)"
    using redeem_commit_succeeds [OF inv1 c1, of c amount txn_id s now'] chk assms(4) st1 by auto
  ultimately show ?thesis by (auto simp: deducted_def)
qed

theorem freeze_does_not_stop_checked_redemption_witness:
  "\<exists>f st1 r st'. freeze_gift_card ''t1'' ''CARD-1'' demo_gifts = Inr (f, st1) \<and> gc_status f = ''frozen''
     \<and> redeem_commit ''x2'' ''t2'' demo_card 400 ''s1'' st1 = Inr (r, st')
     \<and> current_balance_minor (rg_card r) = 600 \<and> gc_status (rg_card r) = ''frozen''"
proof -
  have chk: "redeem_check (\<lambda>_. None) 5 ''CARD-1'' 400 ''s1'' demo_gifts = Inr (Inr demo_card)"
    by (simp add: gift_run demo_gifts_def demo_card_def)
  obtain f st1 where fr: "freeze_gift_card ''t1'' ''CARD-1'' demo_gifts = Inr (f, st1)"
    by (simp add: freeze_gift_card_def status_check_def status_commit_def gift_run demo_gifts_def demo_card_def)
  have "''x2'' \<notin> gt_id ` set (gift_txns demo_gifts)" by (simp add: demo_gifts_def)
  then have "gc_status f = ''frozen'' \<and> (\<exists>r st'. redeem_commit ''x2'' ''t2'' demo_card 400 ''s1'' st1 = Inr (r, st')
      \<and> current_balance_minor (rg_card r) = current_balance_minor demo_card - 400
      \<and> (400 < current_balance_minor demo_card \<longrightarrow> gc_status (rg_card r) = ''frozen''))"
    by (rule freeze_does_not_stop_checked_redemption [OF demo_gifts_inv chk fr])
  moreover have "current_balance_minor demo_card = 1000" by (simp add: demo_card_def)
  ultimately show ?thesis using fr by auto
qed

end
