(* ===== verification/Qris_Codec.thy ===== *)
theory Qris_Codec
  imports Rust_Strings "HOL-Library.Word"
begin

section \<open>QRIS: fields, checksum, amounts\<close>

text \<open>
  The wire format of \<open>crates/qris-core\<close>: \<open>tlv.rs\<close> (tag, length, value fields), \<open>crc.rs\<close> (the
  CRC-16 that closes every payload), \<open>amount.rs\<close> (whole rupiah as text) and \<open>nmid.rs\<close> (the
  merchant identifier). Strings are bytes: \<open>encode_field\<close> writes the length in bytes, while
  \<open>parse_tlvs\<close> cuts the payload by characters, as in the source. A tag is a \<open>u8\<close>, here a
  \<open>nat\<close>; the checksum is a \<open>16 word\<close>. The percentage fee of \<open>amount.rs\<close> is computed in
  floating point and left out.
\<close>

unbundle bit_operations_syntax

datatype qris_error =
    TooShort nat nat
  | BadLength nat string
  | CrcMismatch nat nat
  | MissingTag nat
  | DuplicateTag nat
  | NoMerchantAccount
  | MissingNmid
  | InvalidAmount string
  | IncompleteTip
  | InvalidNmid string
  | DecodeError string
  | RenderError string
  | Io

subsection \<open>Fields\<close>

record tlv =
  tlv_tag :: nat
  tlv_value :: string

definition bad_tag :: string where "bad_tag = ''tag field is not a 2-digit decimal number''"
definition bad_len :: string where "bad_len = ''length field is not a 2-digit decimal number''"
definition too_long :: string where "too_long = ''length exceeds remaining payload''"

text \<open>The loop of \<open>parse_tlvs\<close> on the characters from \<open>pos\<close> on; \<open>size_all\<close> is their number at the start.\<close>

function tlv_loop :: "nat \<Rightarrow> string list \<Rightarrow> qris_error + tlv list" where
  "tlv_loop size_all cs =
     (if cs = [] then Inr []
      else if length cs < 4 then Inl (TooShort (size_all - length cs + 4) size_all)
      else (case parse_unsigned 10 255 (concat (take 2 cs)) of
        None \<Rightarrow> Inl (BadLength 0 bad_tag)
      | Some tag \<Rightarrow>
          (case parse_unsigned 10 u64_max (concat (take 2 (drop 2 cs))) of
            None \<Rightarrow> Inl (BadLength tag bad_len)
          | Some len \<Rightarrow>
              if length (drop 4 cs) < len then Inl (BadLength tag too_long)
              else (case tlv_loop size_all (drop (4 + len) cs) of
                  Inl e \<Rightarrow> Inl e
                | Inr ts \<Rightarrow>
                    Inr (\<lparr>tlv_tag = tag, tlv_value = concat (take len (drop 4 cs))\<rparr> # ts)))))"
  by pat_completeness auto
termination by (relation "measure (length \<circ> snd)") auto

declare tlv_loop.simps [simp del]

definition parse_tlvs :: "string \<Rightarrow> qris_error + tlv list" where
  "parse_tlvs s = tlv_loop (length (chars s)) (chars s)"

definition encode_field :: "nat \<Rightarrow> string \<Rightarrow> (qris_error, string) outcome" where
  "encode_field tag v =
     (if length v \<le> 99 then Ok (zero_pad 2 (show_nat tag) @ zero_pad 2 (show_nat (length v)) @ v)
      else Panic)"

text \<open>\<open>iter().map(encode_field).collect::<String>()\<close>, and a nested field around it.\<close>

fun encode_fields :: "(nat \<times> string) list \<Rightarrow> (qris_error, string) outcome" where
  "encode_fields [] = Ok []"
| "encode_fields ((t, v) # fs) =
     obind (encode_field t v) (\<lambda>a. obind (encode_fields fs) (\<lambda>b. Ok (a @ b)))"

definition encode_nested :: "nat \<Rightarrow> (nat \<times> string) list \<Rightarrow> (qris_error, string) outcome" where
  "encode_nested outer inner = obind (encode_fields inner) (encode_field outer)"

subsection \<open>Checksum\<close>

definition crc_shift :: "16 word \<Rightarrow> 16 word" where
  "crc_shift crc = (if crc AND 0x8000 \<noteq> 0 then push_bit 1 crc XOR 0x1021 else push_bit 1 crc)"

definition crc_byte :: "16 word \<Rightarrow> char \<Rightarrow> 16 word" where
  "crc_byte crc c = (crc_shift ^^ 8) (crc XOR push_bit 8 (of_nat (byte c)))"

definition crc16_ccitt :: "string \<Rightarrow> 16 word" where
  "crc16_ccitt s = foldl crc_byte 0xFFFF s"

text \<open>\<open>{:04X}\<close>.\<close>

fun show_hex :: "nat \<Rightarrow> string" where
  "show_hex n = (if n < 16 then [digit_char n] else show_hex (n div 16) @ [digit_char (n mod 16)])"

declare show_hex.simps [simp del]

definition hex4 :: "16 word \<Rightarrow> string" where
  "hex4 crc = zero_pad 4 (show_hex (unat crc))"

definition append_crc :: "string \<Rightarrow> string" where
  "append_crc s = s @ ''6304'' @ hex4 (crc16_ccitt (s @ ''6304''))"

definition verify :: "string \<Rightarrow> (qris_error, unit) outcome" where
  "verify s =
     (if length s < 8 then Err (TooShort 8 (length s))
      else obind (slice_to s (length s - 4)) (\<lambda>pre_crc.
           obind (slice_from s (length s - 4)) (\<lambda>crc_hex.
           (case parse_unsigned 16 65535 crc_hex of
              None \<Rightarrow> Err (CrcMismatch 0 0)
            | Some expected \<Rightarrow>
                (let computed = unat (crc16_ccitt pre_crc)
                 in if expected \<noteq> computed then Err (CrcMismatch expected computed) else Ok ())))))"

definition compute_crc :: "string \<Rightarrow> string" where
  "compute_crc s = hex4 (crc16_ccitt (s @ ''6304''))"

subsection \<open>Amounts and merchant identifiers\<close>

definition parse_amount :: "string \<Rightarrow> qris_error + nat" where
  "parse_amount s =
     (let trimmed = trim s
      in if trimmed = [] then Inl (InvalidAmount s)
         else (case parse_unsigned 10 u64_max (takeWhile (\<lambda>c. c \<noteq> CHR ''.'') trimmed) of
                 None \<Rightarrow> Inl (InvalidAmount s)
               | Some n \<Rightarrow> Inr n))"

definition format_amount :: "nat \<Rightarrow> string" where
  "format_amount rupiah = show_nat rupiah"

definition is_valid_amount_str :: "string \<Rightarrow> bool" where
  "is_valid_amount_str s \<longleftrightarrow> (case parse_amount s of Inl _ \<Rightarrow> False | Inr _ \<Rightarrow> True)"

record nmid_info =
  ni_country_code :: string
  acquirer_code :: string
  merchant_number :: string
  ni_raw :: string

definition nmid_parse :: "string \<Rightarrow> (qris_error, nmid_info) outcome" where
  "nmid_parse nmid =
     (if length nmid < 7 then Err (InvalidNmid nmid)
      else obind (slice_to nmid 2) (\<lambda>country.
        if country \<noteq> ''ID'' then Err (InvalidNmid nmid)
        else obind (slice_range nmid 2 6) (\<lambda>acquirer.
          if \<not> list_all is_ascii_digit acquirer then Err (InvalidNmid nmid)
          else obind (slice_from nmid 6) (\<lambda>merchant.
            if merchant = [] then Err (InvalidNmid nmid)
            else Ok \<lparr>ni_country_code = country, acquirer_code = acquirer,
                     merchant_number = merchant, ni_raw = nmid\<rparr>))))"

definition same_acquirer :: "nmid_info \<Rightarrow> nmid_info \<Rightarrow> bool" where
  "same_acquirer a b \<longleftrightarrow> acquirer_code a = acquirer_code b"

definition same_merchant :: "string \<Rightarrow> string \<Rightarrow> bool" where
  "same_merchant a b \<longleftrightarrow> a = b"

subsection \<open>What a field reads back to\<close>

definition field_text :: "nat \<times> string \<Rightarrow> string" where
  "field_text f = zero_pad 2 (show_nat (fst f)) @ zero_pad 2 (show_nat (length (snd f))) @ snd f"

definition fields_text :: "(nat \<times> string) list \<Rightarrow> string" where
  "fields_text fs = concat (map field_text fs)"

definition tlv_of :: "nat \<times> string \<Rightarrow> tlv" where
  "tlv_of f = \<lparr>tlv_tag = fst f, tlv_value = snd f\<rparr>"

text \<open>A field the format can carry: two-digit tag, at most 99 bytes, no multi-byte character.\<close>

definition field_ok :: "nat \<times> string \<Rightarrow> bool" where
  "field_ok f \<longleftrightarrow> fst f < 100 \<and> length (snd f) \<le> 99 \<and> ascii_str (snd f)"

definition read_fields :: "string \<Rightarrow> (nat \<times> string) list option" where
  "read_fields s = (case parse_tlvs s of
     Inl _ \<Rightarrow> None | Inr ts \<Rightarrow> Some (map (\<lambda>t. (tlv_tag t, tlv_value t)) ts))"

abbreviation singles :: "string \<Rightarrow> string list" where "singles s \<equiv> map (\<lambda>c. [c]) s"

lemma encode_field_text: "length v \<le> 99 \<Longrightarrow> encode_field t v = Ok (field_text (t, v))"
  by (simp add: encode_field_def field_text_def)

lemma encode_fields_text:
  "list_all (\<lambda>f. length (snd f) \<le> 99) fs \<Longrightarrow> encode_fields fs = Ok (fields_text fs)"
  by (induction fs) (auto simp: fields_text_def encode_field_text)

lemma encode_fields_Ok:
  "encode_fields fs = Ok s \<longleftrightarrow> list_all (\<lambda>f. length (snd f) \<le> 99) fs \<and> s = fields_text fs"
proof (cases "list_all (\<lambda>f. length (snd f) \<le> 99) fs")
  case False
  then have "encode_fields fs = Panic"
  proof (induction fs)
    case (Cons f fs)
    then show ?case by (cases f; cases "length (snd f) \<le> 99") (simp_all add: encode_field_def)
  qed simp
  then show ?thesis using False by simp
qed (auto simp: encode_fields_text)

lemma fields_text_simps [simp]:
  "fields_text [] = []" "fields_text (f # fs) = field_text f @ fields_text fs"
  "fields_text (fs @ gs) = fields_text fs @ fields_text gs"
  by (simp_all add: fields_text_def)

lemma length_two_digits [simp]: "n < 100 \<Longrightarrow> length (zero_pad 2 (show_nat n)) = 2"
  using length_show_nat [of n 1] by simp

lemma zero_pad_ascii [simp]: "ascii_str (zero_pad w (show_nat n))"
  using zero_pad_digits [OF show_nat_all_digits, of w n]
  by (auto simp: ascii_str_def list_all_iff is_ascii_digit_ascii)

lemma concat_singles [simp]: "concat (singles s) = s"
  by (induction s) simp_all

lemma tlv_loop_field:
  assumes "t < 100" and "k < 100"
  shows "tlv_loop n (singles (zero_pad 2 (show_nat t) @ zero_pad 2 (show_nat k)) @ vs) =
    (if length vs < k then Inl (BadLength t too_long)
     else (case tlv_loop n (drop k vs) of
         Inl e \<Rightarrow> Inl e
       | Inr ts \<Rightarrow> Inr (\<lparr>tlv_tag = t, tlv_value = concat (take k vs)\<rparr> # ts)))"
proof -
  obtain a b c d where ab: "zero_pad 2 (show_nat t) = [a, b]" and cd: "zero_pad 2 (show_nat k) = [c, d]"
    using length_two_digits [OF assms(1)] length_two_digits [OF assms(2)]
    by (auto simp: length_Suc_conv numeral_2_eq_2 simp del: length_zero_pad)
  have "parse_unsigned 10 255 [a, b] = Some t" "parse_unsigned 10 u64_max [c, d] = Some k"
    using parse_show_nat [of t 255 2] parse_show_nat [of k u64_max 2] assms ab cd by simp_all
  moreover have "take 2 ([a] # [b] # [c] # [d] # vs) = [[a], [b]]"
    "take 2 (drop 2 ([a] # [b] # [c] # [d] # vs)) = [[c], [d]]"
    "drop (4 + k) ([a] # [b] # [c] # [d] # vs) = drop k vs"
    "drop 4 ([a] # [b] # [c] # [d] # vs) = vs"
    by (simp_all add: eval_nat_numeral)
  moreover have "singles ([a, b] @ [c, d]) @ vs = [a] # [b] # [c] # [d] # vs" by simp
  ultimately show ?thesis unfolding ab cd
    by (subst tlv_loop.simps) (simp only: list.simps list.size concat.simps append.simps option.case
        if_False not_less, simp)
qed

lemma chars_field:
  assumes "fst f < 100" and "length (snd f) \<le> 99" and "snd f = [] \<or> \<not> is_cont (hd (snd f))"
    and "ascii_str rest"
  shows "chars (field_text f @ rest) =
    singles (zero_pad 2 (show_nat (fst f)) @ zero_pad 2 (show_nat (length (snd f)))) @ chars (snd f @ rest)"
proof -
  have "snd f @ rest = [] \<or> \<not> is_cont (hd (snd f @ rest))"
    using assms(3,4) by (cases "snd f"; cases rest) (auto simp: is_ascii_not_cont)
  then show ?thesis
    using chars_append_ascii [of "zero_pad 2 (show_nat (fst f)) @ zero_pad 2 (show_nat (length (snd f)))"
      "snd f @ rest"]
    by (simp add: field_text_def)
qed

lemma field_text_ascii: "field_ok f \<Longrightarrow> ascii_str (field_text f)"
  by (simp add: field_ok_def field_text_def)

lemma fields_text_ascii: "list_all field_ok fs \<Longrightarrow> ascii_str (fields_text fs)"
  by (induction fs) (simp_all add: field_text_ascii)

lemma tlv_loop_fields:
  "list_all field_ok fs \<Longrightarrow> tlv_loop n (singles (fields_text fs)) = Inr (map tlv_of fs)"
proof (induction fs)
  case Nil
  then show ?case by (simp add: tlv_loop.simps)
next
  case (Cons f fs)
  then have f: "fst f < 100" "length (snd f) < 100" by (simp_all add: field_ok_def)
  have "singles (fields_text (f # fs)) =
      singles (zero_pad 2 (show_nat (fst f)) @ zero_pad 2 (show_nat (length (snd f))))
      @ (singles (snd f) @ singles (fields_text fs))"
    by (simp add: field_text_def)
  then show ?case using Cons tlv_loop_field [OF f] by (simp add: tlv_of_def)
qed

lemma parse_fields_text: "list_all field_ok fs \<Longrightarrow> parse_tlvs (fields_text fs) = Inr (map tlv_of fs)"
  by (simp add: parse_tlvs_def chars_ascii fields_text_ascii tlv_loop_fields)

text \<open>Fields and their text are a code: two lists of fields never have the same text.\<close>

interpretation tlv_code: code "list_all field_ok" fields_text read_fields
  by unfold_locales (simp add: read_fields_def parse_fields_text tlv_of_def comp_def)

subsection \<open>What the checksum detects\<close>

lemma crc_shift_alt: "crc_shift x = push_bit 1 x XOR (if bit x 15 then 0x1021 else 0)"
proof -
  have "x AND 0x8000 \<noteq> 0 \<longleftrightarrow> bit x 15"
    using and_exp_eq_0_iff_not_bit [of x 15] by simp
  then show ?thesis by (simp add: crc_shift_def)
qed

lemma crc_shift_xor: "crc_shift (x XOR y) = crc_shift x XOR crc_shift y"
  by (auto simp: crc_shift_alt push_bit_xor bit_xor_iff ac_simps)

lemma crc_shift_0: "crc_shift x = 0 \<Longrightarrow> x = 0"
proof (rule bit_word_eqI)
  fix i assume z: "crc_shift x = 0" and i: "i < LENGTH(16)"
  have "\<not> bit (crc_shift x) 0" using z by simp
  then have m: "\<not> bit x 15"
    by (auto simp: crc_shift_alt bit_xor_iff bit_push_bit_iff bit_0 even_xor_iff split: if_splits)
  then have p: "push_bit 1 x = 0" using z by (simp add: crc_shift_alt)
  show "bit x i \<longleftrightarrow> bit (0 :: 16 word) i"
  proof (cases "i = 15")
    case False
    then have "bit (push_bit 1 x) (Suc i) \<longleftrightarrow> bit x i"
      using i bit_push_bit_iff [of 1 x "Suc i"] by simp
    then show ?thesis using p by simp
  qed (simp add: m)
qed

lemma crc_pow_xor: "(crc_shift ^^ n) (x XOR y) = (crc_shift ^^ n) x XOR (crc_shift ^^ n) y"
  by (induction n) (simp_all add: crc_shift_xor)

lemma crc_pow_inj: "(crc_shift ^^ n) x = (crc_shift ^^ n) y \<longleftrightarrow> x = y"
proof -
  have "(crc_shift ^^ n) z = 0 \<Longrightarrow> z = 0" for z by (induction n) (auto dest: crc_shift_0)
  moreover have "(crc_shift ^^ n) (x XOR y) = 0" if "(crc_shift ^^ n) x = (crc_shift ^^ n) y"
    using that by (simp add: crc_pow_xor)
  ultimately show ?thesis by (metis xor_self_eq xor.assoc xor.right_neutral xor.left_neutral)
qed

lemma crc_pow_low: "(\<And>i. 16 - n \<le> i \<Longrightarrow> \<not> bit x i) \<Longrightarrow> n \<le> 16 \<Longrightarrow> (crc_shift ^^ n) x = push_bit n x"
proof (induction n)
  case (Suc n)
  have "(crc_shift ^^ n) x = push_bit n x" by (rule Suc.IH) (use Suc.prems in auto)
  moreover have "\<not> bit (push_bit n x) 15" using Suc.prems by (simp add: bit_push_bit_iff)
  moreover have "push_bit 1 (push_bit n x) = push_bit (Suc n) x" by (simp only: push_bit_push_bit) simp
  ultimately show ?case by (simp only: funpow.simps comp_def crc_shift_alt [of "push_bit n x"] if_False xor.right_neutral)
qed simp

lemma byte_bit_less: "bit (byte c) i \<Longrightarrow> i < 8"
proof (rule ccontr)
  assume b: "bit (byte c) i" and "\<not> i < 8"
  then have "(2 :: nat) ^ 8 \<le> 2 ^ i" by (intro power_increasing) auto
  then have "byte c < 2 ^ i" using nat_of_char_less_256 [of c] by (simp del: nat_of_char_less_256)
  then show False using b by (simp add: bit_iff_odd)
qed

lemma byte_bits: "bit (of_nat (byte c) :: 16 word) i \<longleftrightarrow> i < 8 \<and> bit (byte c) i"
  by (auto simp: bit_of_nat_iff possible_bit_word dest: byte_bit_less)

lemma crc_two_bytes:
  "crc_byte (crc_byte s a) b = (crc_shift ^^ 16) (s XOR (push_bit 8 (of_nat (byte a)) XOR of_nat (byte b)))"
proof -
  have "push_bit 8 (of_nat (byte b)) = (crc_shift ^^ 8) (of_nat (byte b))"
    by (rule crc_pow_low [symmetric]) (simp_all add: byte_bits)
  then show ?thesis
    by (simp add: crc_byte_def crc_pow_xor [symmetric] xor.assoc funpow_add [of 8 8, simplified])
qed

lemma two_bytes_inj:
  assumes "push_bit 8 (of_nat (byte a)) XOR of_nat (byte b) = (push_bit 8 (of_nat (byte a')) XOR of_nat (byte b') :: 16 word)"
  shows "a = a' \<and> b = b'"
proof -
  note low = byte_bit_less
  have bits: "bit (push_bit 8 (of_nat (byte x)) XOR of_nat (byte y) :: 16 word) i \<longleftrightarrow>
      (i < 8 \<and> bit (byte y) i) \<or> (8 \<le> i \<and> i < 16 \<and> bit (byte x) (i - 8))" for x y i
    by (auto simp: bit_xor_iff bit_push_bit_iff byte_bits)
  have "bit (byte b) i \<longleftrightarrow> bit (byte b') i" for i
    using bits [of a b i] bits [of a' b' i] assms low by (cases "i < 8") auto
  moreover have "bit (byte a) i \<longleftrightarrow> bit (byte a') i" for i
    using bits [of a b "i + 8"] bits [of a' b' "i + 8"] assms low by (cases "i < 8") auto
  ultimately show ?thesis by (simp add: bit_eq_iff flip: of_char_eq_iff [where 'a = nat])
qed

lemma crc_fold_inj: "foldl crc_byte s xs = foldl crc_byte t xs \<longleftrightarrow> s = t"
proof (induction xs arbitrary: s t)
  case (Cons c xs)
  have "s XOR k = t XOR k \<longleftrightarrow> s = t" for k by (metis xor.assoc xor_self_eq xor.right_neutral)
  then show ?case using Cons by (simp add: crc_byte_def crc_pow_inj)
qed simp

lemma crc16_two_bytes:
  "crc16_ccitt (xs @ a # b # ys) = crc16_ccitt (xs @ a' # b' # ys) \<longleftrightarrow> a = a' \<and> b = b'"
proof -
  have x: "s XOR k = s XOR l \<longleftrightarrow> k = l" for s k l :: "16 word"
    by (metis xor.assoc xor_self_eq xor.left_neutral)
  show ?thesis
    using two_bytes_inj [of a b a' b'] by (auto simp: crc16_ccitt_def crc_fold_inj crc_two_bytes crc_pow_inj x)
qed

lemma show_hex_ascii: "c \<in> set (show_hex n) \<Longrightarrow> is_ascii c \<and> c \<noteq> CHR ''+''"
proof (induction n rule: show_hex.induct)
  case (1 n)
  have "digit_char d \<noteq> CHR ''+''" if "d < 16" for d
    using digit_val_char_hex [OF that] by (auto simp: digit_val_def)
  then show ?case
    using 1 digit_char_ascii by (cases "n < 16") (auto simp: show_hex.simps [of n])
qed

lemma digits_val_show_hex: "digits_val 16 a (show_hex n) = Some (16 ^ length (show_hex n) * a + n)"
proof (induction n arbitrary: a rule: show_hex.induct)
  case (1 n)
  show ?case
  proof (cases "n < 16")
    case True
    then show ?thesis by (subst (1 2) show_hex.simps) simp
  next
    case False
    then have "show_hex n = show_hex (n div 16) @ [digit_char (n mod 16)]"
      by (subst show_hex.simps) simp
    then show ?thesis using 1 False by (simp add: digits_val_append algebra_simps)
  qed
qed

lemma length_show_hex: "n < 16 ^ Suc k \<Longrightarrow> length (show_hex n) \<le> Suc k"
proof (induction k arbitrary: n)
  case (Suc k)
  have "n div 16 < 16 ^ Suc k" using Suc.prems by (simp add: less_mult_imp_div_less mult.commute)
  then show ?case using Suc.IH [of "n div 16"] by (simp add: show_hex.simps [of n])
qed (simp add: show_hex.simps)

lemma hex4_parts:
  "length (hex4 w) = 4" "parse_unsigned 16 65535 (hex4 w) = Some (unat w)" "ascii_str (hex4 w)"
proof -
  have u: "unat w < 65536" using unsigned_less [of w, where 'a = nat] by simp
  show len: "length (hex4 w) = 4" using length_show_hex [of "unat w" 3] u by (simp add: hex4_def)
  have zeros: "digits_val 16 0 (replicate k CHR ''0'' @ s) = digits_val 16 0 s" for k s
    by (induction k) (simp_all add: digit_val_def)
  have v: "digits_val 16 0 (hex4 w) = Some (unat w)"
    by (simp add: hex4_def zero_pad_def zeros digits_val_show_hex)
  have "c \<noteq> CHR ''+''" if "c \<in> set (hex4 w)" for c
    using that show_hex_ascii by (auto simp: hex4_def zero_pad_def)
  then show "parse_unsigned 16 65535 (hex4 w) = Some (unat w)"
    using v len u by (cases "hex4 w") (auto simp: parse_unsigned_def)
  show "ascii_str (hex4 w)"
    using show_hex_ascii by (auto simp: hex4_def zero_pad_def ascii_str_def list_all_iff is_ascii_def)
qed

text \<open>\<open>verify\<close> on a string cut before its last four bytes.\<close>

lemma verify_split:
  assumes "length h = 4" and "4 \<le> length s" and "\<not> is_cont (hd h)"
  shows "verify (s @ h) = (case parse_unsigned 16 65535 h of
     None \<Rightarrow> Err (CrcMismatch 0 0)
   | Some e \<Rightarrow> if e = unat (crc16_ccitt s) then Ok () else Err (CrcMismatch e (unat (crc16_ccitt s))))"
proof -
  have "char_boundary (s @ h) (length s)"
    using assms by (cases h) (auto simp: char_boundary_def nth_append)
  then show ?thesis using assms
    by (auto simp: verify_def slice_to_def slice_from_def Let_def split: option.splits)
qed

lemma verify_Ok_iff:
  "verify s = Ok () \<longleftrightarrow> 8 \<le> length s \<and> char_boundary s (length s - 4)
     \<and> parse_unsigned 16 65535 (drop (length s - 4) s) = Some (unat (crc16_ccitt (take (length s - 4) s)))"
  by (auto simp: verify_def slice_to_def slice_from_def Let_def split: option.splits if_splits)

lemma verify_append_crc: "verify (append_crc s) = Ok ()"
proof -
  obtain c cs where h: "hex4 (crc16_ccitt (s @ ''6304'')) = c # cs"
    using hex4_parts(1) [of "crc16_ccitt (s @ ''6304'')"] by (cases "hex4 (crc16_ccitt (s @ ''6304''))") auto
  then have "\<not> is_cont (hd (hex4 (crc16_ccitt (s @ ''6304''))))"
    using hex4_parts(3) [of "crc16_ccitt (s @ ''6304'')"] by (simp add: is_ascii_not_cont)
  then have "verify ((s @ ''6304'') @ hex4 (crc16_ccitt (s @ ''6304''))) = Ok ()"
    by (subst verify_split) (simp_all add: hex4_parts)
  then show ?thesis by (simp add: append_crc_def)
qed

subsection \<open>Multi-byte characters\<close>

lemma length_chars_le: "length (chars s) \<le> length s"
proof (induction s rule: chars.induct)
  case (2 c cs)
  then show ?case using length_dropWhile_le [of is_cont cs] by simp
qed simp

lemma length_chars_less: "\<not> is_cont (hd s) \<Longrightarrow> c \<in> set s \<Longrightarrow> is_cont c \<Longrightarrow> length (chars s) < length s"
proof (induction s rule: chars.induct)
  case (2 b cs)
  then have c: "c \<in> set cs" by auto
  show ?case
  proof (cases "takeWhile is_cont cs")
    case Nil
    then have d: "dropWhile is_cont cs = cs" and h: "\<not> is_cont (hd cs)" using c by (cases cs; auto)+
    have "length (chars cs) < length cs" using "2.IH" [unfolded d] h c "2.prems"(3) by blast
    then show ?thesis using Nil d by simp
  next
    case (Cons x xs)
    have "length cs = length (takeWhile is_cont cs) + length (dropWhile is_cont cs)"
      by (metis length_append takeWhile_dropWhile_id)
    then show ?thesis using Cons length_chars_le [of "dropWhile is_cont cs"] by simp
  qed
qed simp

lemma utf8_first: "utf8_ok (map of_char s) \<Longrightarrow> s \<noteq> [] \<Longrightarrow> \<not> is_cont (hd s)"
  by (cases s) (auto simp: is_cont_def split: if_splits)

lemma utf8_second:
  "utf8_ok (a # r) \<Longrightarrow> 128 \<le> a \<Longrightarrow> \<exists>b r'. r = b # r' \<and> 128 \<le> b \<and> b < 192"
proof (cases r)
  case (Cons b r')
  assume u: "utf8_ok (a # r)" and "128 \<le> a"
  then have "128 \<le> b \<and> b < 192"
    unfolding Cons by (cases r'; cases "tl r'") (simp_all split: if_splits)
  then show ?thesis using Cons by simp
qed (simp split: if_splits)

lemma utf8_non_ascii: "utf8_ok (map of_char s) \<Longrightarrow> \<not> ascii_str s \<Longrightarrow> \<exists>c \<in> set s. is_cont c"
proof (induction s)
  case (Cons a s)
  show ?case
  proof (cases "byte a < 128")
    case True
    then have "utf8_ok (map of_char s)" "\<not> ascii_str s"
      using Cons.prems by (simp_all add: is_ascii_def)
    then show ?thesis using Cons.IH by auto
  next
    case False
    then have "\<exists>b r'. map of_char s = b # r' \<and> 128 \<le> b \<and> b < (192 :: nat)"
      using utf8_second [of "byte a" "map of_char s"] Cons.prems(1) by (simp only: list.map not_less)
    then show ?thesis by (cases s) (auto simp: is_cont_def)
  qed
qed simp

lemma chars_append: "t = [] \<or> \<not> is_cont (hd t) \<Longrightarrow> chars (s @ t) = chars s @ chars t"
proof (induction s rule: chars.induct)
  case (2 c cs)
  have t: "takeWhile is_cont t = []" "dropWhile is_cont t = t"
    using 2 by (cases t; simp)+
  show ?case
  proof (cases "\<forall>x \<in> set cs. is_cont x")
    case True
    then have "takeWhile is_cont cs = cs" "dropWhile is_cont cs = []" by simp_all
    then show ?thesis
      using t True by (simp add: takeWhile_append dropWhile_append del: takeWhile_eq_all_conv dropWhile_eq_Nil_conv)
  next
    case False
    then show ?thesis using 2 by (auto simp: takeWhile_append dropWhile_append)
  qed
qed simp

lemma value_chars_long:
  assumes "length (chars v) < length v" and "\<not> length (chars (v @ rest)) < length v" and "ascii_str rest"
  shows "concat (take (length v) (chars (v @ rest))) \<noteq> v"
proof -
  have "rest = [] \<or> \<not> is_cont (hd rest)"
    using assms(3) by (cases rest) (auto simp: is_ascii_not_cont)
  then have split: "chars (v @ rest) = chars v @ singles rest"
    using chars_append [of rest v] chars_ascii [OF assms(3)] by simp
  let ?d = "length v - length (chars v)"
  have "concat (take (length v) (chars (v @ rest))) = v @ take ?d rest"
    using assms(1) by (simp add: split take_map)
  moreover have "take ?d rest \<noteq> []" using assms(1,2) split by auto
  ultimately show ?thesis by simp
qed

subsection \<open>Properties\<close>

text \<open>
  Any list of fields with two-digit tags and ASCII values of at most 99 bytes is encoded
  without a panic and parsed back to exactly the same fields, in order.
\<close>

theorem tlv_fields_roundtrip:
  assumes "list_all (\<lambda>(t, v). t < 100 \<and> length v \<le> 99 \<and> ascii_str v) fs"
  shows "\<exists>s. encode_fields fs = Ok s \<and> parse_tlvs s = Inr (map (\<lambda>(t, v). \<lparr>tlv_tag = t, tlv_value = v\<rparr>) fs)"
proof -
  have ok: "list_all field_ok fs" using assms by (auto simp: list_all_iff field_ok_def)
  then have "encode_fields fs = Ok (fields_text fs)"
    by (intro encode_fields_text) (auto simp: list_all_iff field_ok_def)
  moreover have "tlv_of = (\<lambda>(t, v). \<lparr>tlv_tag = t, tlv_value = v\<rparr>)"
    by (auto simp: fun_eq_iff tlv_of_def)
  ultimately show ?thesis using parse_fields_text [OF ok] by auto
qed

theorem tlv_fields_roundtrip_witness:
  "\<exists>s. encode_fields [(0, ''01''), (59, ''Warung''), (62, [])] = Ok s
     \<and> parse_tlvs s = Inr [\<lparr>tlv_tag = 0, tlv_value = ''01''\<rparr>, \<lparr>tlv_tag = 59, tlv_value = ''Warung''\<rparr>,
         \<lparr>tlv_tag = 62, tlv_value = []\<rparr>]"
  using tlv_fields_roundtrip [of "[(0, ''01''), (59, ''Warung''), (62, [])]"]
  by (simp add: is_ascii_def)

text \<open>
  A value with a character outside ASCII does not survive: its length is written in bytes and
  read in characters, so whatever ASCII text follows the field, no parse of it begins with the
  field that was written.
\<close>

theorem non_ascii_value_unreadable:
  assumes "t < 100" and "length v \<le> 99" and "utf8_ok (map of_char v)" and "\<not> ascii_str v"
    and "ascii_str rest"
  shows "\<exists>s. encode_field t v = Ok s \<and> (\<forall>ts. parse_tlvs (s @ rest) \<noteq> Inr (\<lparr>tlv_tag = t, tlv_value = v\<rparr> # ts))"
proof -
  have ne: "v \<noteq> []" using assms(4) by auto
  have hd: "\<not> is_cont (hd v)" using utf8_first [OF assms(3) ne] .
  obtain c where "c \<in> set v" "is_cont c" using utf8_non_ascii [OF assms(3,4)] by blast
  then have less: "length (chars v) < length v" using length_chars_less [OF hd] by blast
  let ?cs = "chars (v @ rest)"
  have "chars (field_text (t, v) @ rest) =
      singles (zero_pad 2 (show_nat t) @ zero_pad 2 (show_nat (length v))) @ ?cs"
    using chars_field [of "(t, v)" rest] assms hd by simp
  then have loop: "parse_tlvs (field_text (t, v) @ rest) =
      (if length ?cs < length v then Inl (BadLength t too_long)
       else case tlv_loop (length (chars (field_text (t, v) @ rest))) (drop (length v) ?cs) of
         Inl e \<Rightarrow> Inl e | Inr ts \<Rightarrow> Inr (\<lparr>tlv_tag = t, tlv_value = concat (take (length v) ?cs)\<rparr> # ts))"
    using tlv_loop_field [of t "length v"] assms by (simp add: parse_tlvs_def)
  have "concat (take (length v) ?cs) \<noteq> v" if "\<not> length ?cs < length v"
    using value_chars_long [OF less that assms(5)] .
  then show ?thesis
    using encode_field_text [OF assms(2), of t] loop by (auto split: if_splits sum.splits)
qed

theorem non_ascii_value_unreadable_witness:
  "\<exists>s. encode_field 59 [CHR ''C'', CHR ''a'', CHR ''f'', CHR 0xC3, CHR 0xA9] = Ok s
     \<and> (\<forall>ts. parse_tlvs (s @ ''6005Depok'')
          \<noteq> Inr (\<lparr>tlv_tag = 59, tlv_value = [CHR ''C'', CHR ''a'', CHR ''f'', CHR 0xC3, CHR 0xA9]\<rparr> # ts))"
  by (rule non_ascii_value_unreadable) (simp_all add: is_ascii_def)

text \<open>
  The checksum that \<open>append_crc\<close> writes is accepted for every text, and it is the one
  \<open>compute_crc\<close> announces.
\<close>

theorem appended_crc_verifies:
  "verify (append_crc s) = Ok () \<and> append_crc s = s @ ''6304'' @ compute_crc s \<and> length (compute_crc s) = 4"
  using verify_append_crc [of s] by (simp add: append_crc_def compute_crc_def hex4_parts)

text \<open>
  Two accepted payloads never differ in two adjacent bytes before the checksum only: any
  single wrong byte, any two adjacent wrong bytes and any swap of neighbours is rejected.
\<close>

theorem crc_detects_adjacent_bytes:
  assumes "verify (xs @ a # b # ys) = Ok ()" and "4 \<le> length ys" and "a \<noteq> a' \<or> b \<noteq> b'"
  shows "verify (xs @ a' # b' # ys) \<noteq> Ok ()"
proof
  assume "verify (xs @ a' # b' # ys) = Ok ()"
  let ?k = "length ys - 4"
  have cut: "take (length (xs @ c # d # ys) - 4) (xs @ c # d # ys) = xs @ c # d # take ?k ys"
    "drop (length (xs @ c # d # ys) - 4) (xs @ c # d # ys) = drop ?k ys" for c d
    using assms(2) by (simp_all add: take_Cons' drop_Cons' numeral_eq_Suc)
  have "unat (crc16_ccitt (xs @ a # b # take ?k ys)) = unat (crc16_ccitt (xs @ a' # b' # take ?k ys))"
    using assms(1) \<open>verify (xs @ a' # b' # ys) = Ok ()\<close> unfolding verify_Ok_iff cut by simp
  then have "crc16_ccitt (xs @ a # b # take ?k ys) = crc16_ccitt (xs @ a' # b' # take ?k ys)"
    by (simp only: word_unat_eq_iff)
  then show False using assms(3) by (simp add: crc16_two_bytes)
qed

theorem crc_detects_adjacent_bytes_witness:
  "verify (append_crc ''00020101021154041250'') = Ok ()
   \<and> verify (''000201010211540412'' @ CHR ''0'' # CHR ''5'' # drop 20 (append_crc ''00020101021154041250'')) \<noteq> Ok ()"
proof -
  let ?p = "append_crc ''00020101021154041250''"
  have split: "?p = ''000201010211540412'' @ CHR ''5'' # CHR ''0'' # drop 20 ?p" by (simp add: append_crc_def)
  have "verify ?p = Ok ()" by (rule verify_append_crc)
  moreover from this have "verify (''000201010211540412'' @ CHR ''5'' # CHR ''0'' # drop 20 ?p) = Ok ()"
    using split by simp
  then have "verify (''000201010211540412'' @ CHR ''0'' # CHR ''5'' # drop 20 ?p) \<noteq> Ok ()"
    by (rule crc_detects_adjacent_bytes) (simp_all add: append_crc_def)
  ultimately show ?thesis by simp
qed

end
