(* ===== verification/Qris_Payload.thy ===== *)
theory Qris_Payload
  imports Qris_Codec
begin

section \<open>QRIS: payloads, builder, validation\<close>

text \<open>
  The data of \<open>crates/qris-core\<close> above the wire format: \<open>tag.rs\<close>, \<open>merchant.rs\<close> (the nested
  merchant slots and additional data), \<open>payload.rs\<close> (reading, writing and converting a payload),
  \<open>builder.rs\<close> and \<open>validate.rs\<close>. Images (\<open>decode.rs\<close>, \<open>render.rs\<close>), the display names of
  issuers and the table of category codes are left out. The builder's setters are one definition
  each; its methods are called in any order, so a builder is any value of its record.
\<close>

subsection \<open>Merchant slots\<close>

datatype initiation_method = Static | Dynamic

definition from_wire :: "string \<Rightarrow> initiation_method" where
  "from_wire s = (if s = ''12'' then Dynamic else Static)"

fun to_wire :: "initiation_method \<Rightarrow> string" where
  "to_wire Static = ''11''"
| "to_wire Dynamic = ''12''"

record merchant_account_info =
  ma_tag :: nat
  ma_guid :: string
  ma_pan :: "string option"
  ma_nmid :: string
  ma_criteria :: "string option"
  extra_sub_tags :: "(nat \<times> string) list"

definition merchant_sub_tag :: "tlv \<Rightarrow> merchant_account_info \<Rightarrow> merchant_account_info" where
  "merchant_sub_tag t m =
     (if tlv_tag t = 0 then m\<lparr>ma_guid := tlv_value t\<rparr>
      else if tlv_tag t = 1 then m\<lparr>ma_pan := Some (tlv_value t)\<rparr>
      else if tlv_tag t = 2 then m\<lparr>ma_nmid := tlv_value t\<rparr>
      else if tlv_tag t = 3 then m\<lparr>ma_criteria := Some (tlv_value t)\<rparr>
      else m\<lparr>extra_sub_tags := extra_sub_tags m @ [(tlv_tag t, tlv_value t)]\<rparr>)"

definition merchant_from_nested :: "nat \<Rightarrow> string \<Rightarrow> qris_error + merchant_account_info" where
  "merchant_from_nested tag v =
     (case parse_tlvs v of
        Inl e \<Rightarrow> Inl e
      | Inr sub_tlvs \<Rightarrow> Inr (fold merchant_sub_tag sub_tlvs
          \<lparr>ma_tag = tag, ma_guid = [], ma_pan = None, ma_nmid = [], ma_criteria = None,
           extra_sub_tags = []\<rparr>))"

text \<open>An optional field, pushed on the list of fields when it is there.\<close>

definition opt_field :: "nat \<Rightarrow> string option \<Rightarrow> (nat \<times> string) list" where
  "opt_field tag v = (case v of None \<Rightarrow> [] | Some s \<Rightarrow> [(tag, s)])"

definition merchant_fields :: "merchant_account_info \<Rightarrow> (nat \<times> string) list" where
  "merchant_fields m = (0, ma_guid m) # opt_field 1 (ma_pan m) @ (2, ma_nmid m)
     # opt_field 3 (ma_criteria m) @ extra_sub_tags m"

definition to_tlv_string :: "merchant_account_info \<Rightarrow> (qris_error, string) outcome" where
  "to_tlv_string m = encode_nested (ma_tag m) (merchant_fields m)"

subsection \<open>Additional data\<close>

record additional_data =
  ad_bill_number :: "string option"
  ad_mobile_number :: "string option"
  ad_store_label :: "string option"
  ad_loyalty_number :: "string option"
  ad_reference_label :: "string option"
  ad_customer_label :: "string option"
  ad_terminal_label :: "string option"
  ad_purpose :: "string option"
  ad_extra :: "(nat \<times> string) list"

definition additional_default :: additional_data where
  "additional_default = \<lparr>ad_bill_number = None, ad_mobile_number = None, ad_store_label = None,
     ad_loyalty_number = None, ad_reference_label = None, ad_customer_label = None,
     ad_terminal_label = None, ad_purpose = None, ad_extra = []\<rparr>"

definition additional_sub_tag :: "tlv \<Rightarrow> additional_data \<Rightarrow> additional_data" where
  "additional_sub_tag t d =
     (if tlv_tag t = 1 then d\<lparr>ad_bill_number := Some (tlv_value t)\<rparr>
      else if tlv_tag t = 2 then d\<lparr>ad_mobile_number := Some (tlv_value t)\<rparr>
      else if tlv_tag t = 3 then d\<lparr>ad_store_label := Some (tlv_value t)\<rparr>
      else if tlv_tag t = 4 then d\<lparr>ad_loyalty_number := Some (tlv_value t)\<rparr>
      else if tlv_tag t = 5 then d\<lparr>ad_reference_label := Some (tlv_value t)\<rparr>
      else if tlv_tag t = 6 then d\<lparr>ad_customer_label := Some (tlv_value t)\<rparr>
      else if tlv_tag t = 7 then d\<lparr>ad_terminal_label := Some (tlv_value t)\<rparr>
      else if tlv_tag t = 8 then d\<lparr>ad_purpose := Some (tlv_value t)\<rparr>
      else d\<lparr>ad_extra := ad_extra d @ [(tlv_tag t, tlv_value t)]\<rparr>)"

definition additional_from_nested :: "string \<Rightarrow> qris_error + additional_data" where
  "additional_from_nested v =
     (case parse_tlvs v of
        Inl e \<Rightarrow> Inl e
      | Inr sub_tlvs \<Rightarrow> Inr (fold additional_sub_tag sub_tlvs additional_default))"

definition additional_fields :: "additional_data \<Rightarrow> (nat \<times> string) list" where
  "additional_fields d = opt_field 1 (ad_bill_number d) @ opt_field 2 (ad_mobile_number d)
     @ opt_field 3 (ad_store_label d) @ opt_field 4 (ad_loyalty_number d)
     @ opt_field 5 (ad_reference_label d) @ opt_field 6 (ad_customer_label d)
     @ opt_field 7 (ad_terminal_label d) @ opt_field 8 (ad_purpose d) @ ad_extra d"

definition to_nested_string :: "additional_data \<Rightarrow> (qris_error, string) outcome" where
  "to_nested_string d = encode_fields (additional_fields d)"

definition additional_is_empty :: "additional_data \<Rightarrow> bool" where
  "additional_is_empty d \<longleftrightarrow> ad_bill_number d = None \<and> ad_mobile_number d = None
     \<and> ad_store_label d = None \<and> ad_loyalty_number d = None \<and> ad_reference_label d = None
     \<and> ad_customer_label d = None \<and> ad_terminal_label d = None \<and> ad_purpose d = None
     \<and> ad_extra d = []"

subsection \<open>Payloads\<close>

datatype tip = Fixed string | PercentageTip string

record qris_payload =
  initiation :: initiation_method
  merchant_accounts :: "merchant_account_info list"
  merchant_category_code :: string
  qp_currency :: string
  amount :: "string option"
  qp_tip :: "tip option"
  country_code :: string
  merchant_name :: string
  merchant_city :: string
  postal_code :: "string option"
  additional :: "additional_data option"
  extra :: "(nat \<times> string) list"

text \<open>
  The locals of \<open>from_tlvs\<close>: the payload read so far (its tip still absent) and the three tags
  that make up the tip.
\<close>

record tlv_draft =
  draft :: qris_payload
  tip_indicator :: "string option"
  fee_fixed :: "string option"
  fee_percent :: "string option"

definition empty_draft :: tlv_draft where
  "empty_draft =
     \<lparr>draft = \<lparr>initiation = Static, merchant_accounts = [], merchant_category_code = [],
        qp_currency = ''360'', amount = None, qp_tip = None, country_code = ''ID'', merchant_name = [],
        merchant_city = [], postal_code = None, additional = None, extra = []\<rparr>,
      tip_indicator = None, fee_fixed = None, fee_percent = None\<rparr>"

definition draft_tag :: "tlv \<Rightarrow> tlv_draft \<Rightarrow> qris_error + tlv_draft" where
  "draft_tag t d =
     (let v = tlv_value t; tag = tlv_tag t; set_payload = (\<lambda>f. Inr (d\<lparr>draft := f (draft d)\<rparr>))
      in if tag = 0 then Inr d
      else if tag = 1 then set_payload (\<lambda>p. p\<lparr>initiation := from_wire v\<rparr>)
      else if 26 \<le> tag \<and> tag \<le> 51 then
        (case merchant_from_nested tag v of
           Inl e \<Rightarrow> Inl e
         | Inr m \<Rightarrow> set_payload (\<lambda>p. p\<lparr>merchant_accounts := merchant_accounts p @ [m]\<rparr>))
      else if tag = 52 then set_payload (\<lambda>p. p\<lparr>merchant_category_code := v\<rparr>)
      else if tag = 53 then set_payload (\<lambda>p. p\<lparr>qp_currency := v\<rparr>)
      else if tag = 54 then set_payload (\<lambda>p. p\<lparr>amount := Some v\<rparr>)
      else if tag = 55 then Inr (d\<lparr>tip_indicator := Some v\<rparr>)
      else if tag = 56 then Inr (d\<lparr>fee_fixed := Some v\<rparr>)
      else if tag = 57 then Inr (d\<lparr>fee_percent := Some v\<rparr>)
      else if tag = 58 then set_payload (\<lambda>p. p\<lparr>country_code := v\<rparr>)
      else if tag = 59 then set_payload (\<lambda>p. p\<lparr>merchant_name := v\<rparr>)
      else if tag = 60 then set_payload (\<lambda>p. p\<lparr>merchant_city := v\<rparr>)
      else if tag = 61 then set_payload (\<lambda>p. p\<lparr>postal_code := Some v\<rparr>)
      else if tag = 62 then
        (case additional_from_nested v of
           Inl e \<Rightarrow> Inl e
         | Inr a \<Rightarrow> set_payload (\<lambda>p. p\<lparr>additional := Some a\<rparr>))
      else if tag = 63 then Inr d
      else set_payload (\<lambda>p. p\<lparr>extra := extra p @ [(tag, v)]\<rparr>))"

fun draft_tags :: "tlv list \<Rightarrow> tlv_draft \<Rightarrow> qris_error + tlv_draft" where
  "draft_tags [] d = Inr d"
| "draft_tags (t # ts) d = (case draft_tag t d of Inl e \<Rightarrow> Inl e | Inr d' \<Rightarrow> draft_tags ts d')"

definition read_tip :: "tlv_draft \<Rightarrow> qris_error + tip option" where
  "read_tip d =
     (if tip_indicator d = Some ''02'' then
        (case fee_fixed d of None \<Rightarrow> Inl IncompleteTip | Some a \<Rightarrow> Inr (Some (Fixed a)))
      else if tip_indicator d = Some ''03'' then
        (case fee_percent d of None \<Rightarrow> Inl IncompleteTip | Some a \<Rightarrow> Inr (Some (PercentageTip a)))
      else Inr None)"

definition from_tlvs :: "tlv list \<Rightarrow> qris_error + qris_payload" where
  "from_tlvs tlvs =
     (case draft_tags tlvs empty_draft of
        Inl e \<Rightarrow> Inl e
      | Inr d \<Rightarrow>
          (case merchant_accounts (draft d) of
             [] \<Rightarrow> Inl NoMerchantAccount
           | m # _ \<Rightarrow>
               if ma_nmid m = [] then Inl MissingNmid
               else (case read_tip d of
                   Inl e \<Rightarrow> Inl e
                 | Inr tip \<Rightarrow> Inr ((draft d)\<lparr>qp_tip := tip\<rparr>))))"

definition qris_parse :: "string \<Rightarrow> (qris_error, qris_payload) outcome" where
  "qris_parse s = obind (verify s) (\<lambda>_. obind (of_sum (parse_tlvs s)) (\<lambda>tlvs. of_sum (from_tlvs tlvs)))"

subsection \<open>Writing a payload\<close>

fun concat_ok :: "(qris_error, string) outcome list \<Rightarrow> (qris_error, string) outcome" where
  "concat_ok [] = Ok []"
| "concat_ok (p # ps) = obind p (\<lambda>a. obind (concat_ok ps) (\<lambda>b. Ok (a @ b)))"

definition opt_encoded :: "nat \<Rightarrow> string option \<Rightarrow> (qris_error, string) outcome list" where
  "opt_encoded tag v = (case v of None \<Rightarrow> [] | Some s \<Rightarrow> [encode_field tag s])"

definition tip_encoded :: "tip option \<Rightarrow> (qris_error, string) outcome list" where
  "tip_encoded t = (case t of
     None \<Rightarrow> []
   | Some (Fixed a) \<Rightarrow> [encode_field 55 ''02'', encode_field 56 a]
   | Some (PercentageTip a) \<Rightarrow> [encode_field 55 ''03'', encode_field 57 a])"

definition additional_encoded :: "additional_data option \<Rightarrow> (qris_error, string) outcome list" where
  "additional_encoded a = (case a of
     None \<Rightarrow> []
   | Some ad \<Rightarrow> if additional_is_empty ad then [] else [obind (to_nested_string ad) (encode_field 62)])"

definition to_qris_string :: "qris_payload \<Rightarrow> (qris_error, string) outcome" where
  "to_qris_string p =
     obind (concat_ok
       ([encode_field 0 ''01'', encode_field 1 (to_wire (initiation p))]
        @ map to_tlv_string (merchant_accounts p)
        @ [encode_field 52 (merchant_category_code p), encode_field 53 (qp_currency p)]
        @ opt_encoded 54 (amount p)
        @ tip_encoded (qp_tip p)
        @ [encode_field 58 (country_code p), encode_field 59 (merchant_name p),
           encode_field 60 (merchant_city p)]
        @ opt_encoded 61 (postal_code p)
        @ additional_encoded (additional p)
        @ map (\<lambda>(t, v). encode_field t v) (extra p)))
     (\<lambda>out. Ok (append_crc out))"

subsection \<open>Reading and converting a payload\<close>

definition qp_nmid :: "qris_payload \<Rightarrow> string" where
  "qp_nmid p = (case merchant_accounts p of [] \<Rightarrow> [] | m # _ \<Rightarrow> ma_nmid m)"

definition provider_guid :: "qris_payload \<Rightarrow> string" where
  "provider_guid p = (case merchant_accounts p of [] \<Rightarrow> [] | m # _ \<Rightarrow> ma_guid m)"

definition merchant_pan :: "qris_payload \<Rightarrow> string option" where
  "merchant_pan p = (case merchant_accounts p of [] \<Rightarrow> None | m # _ \<Rightarrow> ma_pan m)"

definition qp_criteria :: "qris_payload \<Rightarrow> string option" where
  "qp_criteria p = (case merchant_accounts p of [] \<Rightarrow> None | m # _ \<Rightarrow> ma_criteria m)"

definition is_static :: "qris_payload \<Rightarrow> bool" where
  "is_static p \<longleftrightarrow> initiation p = Static"

definition is_dynamic :: "qris_payload \<Rightarrow> bool" where
  "is_dynamic p \<longleftrightarrow> initiation p = Dynamic"

definition has_amount :: "qris_payload \<Rightarrow> bool" where
  "has_amount p \<longleftrightarrow> amount p \<noteq> None"

definition has_tip :: "qris_payload \<Rightarrow> bool" where
  "has_tip p \<longleftrightarrow> qp_tip p \<noteq> None"

definition amount_rupiah :: "qris_payload \<Rightarrow> qris_error + nat option" where
  "amount_rupiah p = (case amount p of
     None \<Rightarrow> Inr None
   | Some s \<Rightarrow> (case parse_amount s of Inl e \<Rightarrow> Inl e | Inr n \<Rightarrow> Inr (Some n)))"

definition into_dynamic :: "string \<Rightarrow> qris_payload \<Rightarrow> qris_error + qris_payload" where
  "into_dynamic a p = (case parse_amount a of
     Inl e \<Rightarrow> Inl e | Inr _ \<Rightarrow> Inr (p\<lparr>amount := Some a, initiation := Dynamic\<rparr>))"

definition into_static :: "qris_payload \<Rightarrow> qris_payload" where
  "into_static p = p\<lparr>amount := None, qp_tip := None, initiation := Static\<rparr>"

definition is_valid_crc :: "string \<Rightarrow> (qris_error, bool) outcome" where
  "is_valid_crc s = (case verify s of Ok _ \<Rightarrow> Ok True | Err _ \<Rightarrow> Ok False | Panic \<Rightarrow> Panic)"

subsection \<open>Builder\<close>

record qris_builder =
  qb_nmid :: "string option"
  qb_guid :: "string option"
  qb_merchant_pan :: "string option"
  qb_criteria :: "string option"
  qb_extra_accounts :: "merchant_account_info list"
  qb_mcc :: "string option"
  qb_currency :: "string option"
  qb_amount :: "string option"
  qb_tip :: "tip option"
  qb_country_code :: "string option"
  qb_merchant_name :: "string option"
  qb_merchant_city :: "string option"
  qb_postal_code :: "string option"
  qb_additional :: additional_data
  qb_extra :: "(nat \<times> string) list"

definition builder_new :: qris_builder where
  "builder_new = \<lparr>qb_nmid = None, qb_guid = None, qb_merchant_pan = None, qb_criteria = None,
     qb_extra_accounts = [], qb_mcc = None, qb_currency = None, qb_amount = None, qb_tip = None,
     qb_country_code = None, qb_merchant_name = None, qb_merchant_city = None,
     qb_postal_code = None, qb_additional = additional_default, qb_extra = []\<rparr>"

definition from_payload :: "qris_payload \<Rightarrow> qris_builder" where
  "from_payload p =
     (case (case merchant_accounts p of
              first # rest \<Rightarrow> (Some (ma_nmid first), Some (ma_guid first), ma_pan first, ma_criteria first, rest)
            | [] \<Rightarrow> (None, None, None, None, [])) of
        (nmid, guid, pan, criteria, extra_accounts) \<Rightarrow>
          \<lparr>qb_nmid = nmid, qb_guid = guid, qb_merchant_pan = pan, qb_criteria = criteria,
           qb_extra_accounts = extra_accounts, qb_mcc = Some (merchant_category_code p),
           qb_currency = Some (qp_currency p), qb_amount = amount p, qb_tip = qp_tip p,
           qb_country_code = Some (country_code p), qb_merchant_name = Some (merchant_name p),
           qb_merchant_city = Some (merchant_city p), qb_postal_code = postal_code p,
           qb_additional = (case additional p of Some a \<Rightarrow> a | None \<Rightarrow> additional_default),
           qb_extra = extra p\<rparr>)"

definition set_nmid :: "string \<Rightarrow> qris_builder \<Rightarrow> qris_builder" where
  "set_nmid v b = b\<lparr>qb_nmid := Some v\<rparr>"

definition set_merchant_name :: "string \<Rightarrow> qris_builder \<Rightarrow> qris_builder" where
  "set_merchant_name v b = b\<lparr>qb_merchant_name := Some v\<rparr>"

definition set_merchant_city :: "string \<Rightarrow> qris_builder \<Rightarrow> qris_builder" where
  "set_merchant_city v b = b\<lparr>qb_merchant_city := Some v\<rparr>"

definition set_merchant_category_code :: "string \<Rightarrow> qris_builder \<Rightarrow> qris_builder" where
  "set_merchant_category_code v b = b\<lparr>qb_mcc := Some v\<rparr>"

definition set_guid :: "string \<Rightarrow> qris_builder \<Rightarrow> qris_builder" where
  "set_guid v b = b\<lparr>qb_guid := Some v\<rparr>"

definition set_merchant_pan :: "string \<Rightarrow> qris_builder \<Rightarrow> qris_builder" where
  "set_merchant_pan v b = b\<lparr>qb_merchant_pan := Some v\<rparr>"

definition set_criteria :: "string \<Rightarrow> qris_builder \<Rightarrow> qris_builder" where
  "set_criteria v b = b\<lparr>qb_criteria := Some v\<rparr>"

definition extra_merchant_account :: "merchant_account_info \<Rightarrow> qris_builder \<Rightarrow> qris_builder" where
  "extra_merchant_account m b = b\<lparr>qb_extra_accounts := qb_extra_accounts b @ [m]\<rparr>"

definition set_amount :: "string \<Rightarrow> qris_builder \<Rightarrow> qris_builder" where
  "set_amount v b = b\<lparr>qb_amount := Some v\<rparr>"

definition clear_amount :: "qris_builder \<Rightarrow> qris_builder" where
  "clear_amount b = b\<lparr>qb_amount := None, qb_tip := None\<rparr>"

definition tip_fixed :: "string \<Rightarrow> qris_builder \<Rightarrow> qris_builder" where
  "tip_fixed v b = b\<lparr>qb_tip := Some (Fixed v)\<rparr>"

definition tip_percent :: "string \<Rightarrow> qris_builder \<Rightarrow> qris_builder" where
  "tip_percent v b = b\<lparr>qb_tip := Some (PercentageTip v)\<rparr>"

definition clear_tip :: "qris_builder \<Rightarrow> qris_builder" where
  "clear_tip b = b\<lparr>qb_tip := None\<rparr>"

definition set_country_code :: "string \<Rightarrow> qris_builder \<Rightarrow> qris_builder" where
  "set_country_code v b = b\<lparr>qb_country_code := Some v\<rparr>"

definition set_currency :: "string \<Rightarrow> qris_builder \<Rightarrow> qris_builder" where
  "set_currency v b = b\<lparr>qb_currency := Some v\<rparr>"

definition set_postal_code :: "string \<Rightarrow> qris_builder \<Rightarrow> qris_builder" where
  "set_postal_code v b = b\<lparr>qb_postal_code := Some v\<rparr>"

definition set_bill_number :: "string \<Rightarrow> qris_builder \<Rightarrow> qris_builder" where
  "set_bill_number v b = b\<lparr>qb_additional := (qb_additional b)\<lparr>ad_bill_number := Some v\<rparr>\<rparr>"

definition set_mobile_number :: "string \<Rightarrow> qris_builder \<Rightarrow> qris_builder" where
  "set_mobile_number v b = b\<lparr>qb_additional := (qb_additional b)\<lparr>ad_mobile_number := Some v\<rparr>\<rparr>"

definition set_store_label :: "string \<Rightarrow> qris_builder \<Rightarrow> qris_builder" where
  "set_store_label v b = b\<lparr>qb_additional := (qb_additional b)\<lparr>ad_store_label := Some v\<rparr>\<rparr>"

definition set_loyalty_number :: "string \<Rightarrow> qris_builder \<Rightarrow> qris_builder" where
  "set_loyalty_number v b = b\<lparr>qb_additional := (qb_additional b)\<lparr>ad_loyalty_number := Some v\<rparr>\<rparr>"

definition set_reference_label :: "string \<Rightarrow> qris_builder \<Rightarrow> qris_builder" where
  "set_reference_label v b = b\<lparr>qb_additional := (qb_additional b)\<lparr>ad_reference_label := Some v\<rparr>\<rparr>"

definition set_customer_label :: "string \<Rightarrow> qris_builder \<Rightarrow> qris_builder" where
  "set_customer_label v b = b\<lparr>qb_additional := (qb_additional b)\<lparr>ad_customer_label := Some v\<rparr>\<rparr>"

definition set_terminal_label :: "string \<Rightarrow> qris_builder \<Rightarrow> qris_builder" where
  "set_terminal_label v b = b\<lparr>qb_additional := (qb_additional b)\<lparr>ad_terminal_label := Some v\<rparr>\<rparr>"

definition set_purpose :: "string \<Rightarrow> qris_builder \<Rightarrow> qris_builder" where
  "set_purpose v b = b\<lparr>qb_additional := (qb_additional b)\<lparr>ad_purpose := Some v\<rparr>\<rparr>"

definition build :: "qris_builder \<Rightarrow> qris_error + qris_payload" where
  "build b =
     (case qb_nmid b of None \<Rightarrow> Inl MissingNmid | Some nmid \<Rightarrow>
     (case qb_merchant_name b of None \<Rightarrow> Inl (MissingTag 59) | Some name \<Rightarrow>
     (case qb_merchant_city b of None \<Rightarrow> Inl (MissingTag 60) | Some city \<Rightarrow>
     (case qb_mcc b of None \<Rightarrow> Inl (MissingTag 52) | Some mcc \<Rightarrow>
     (case (case qb_amount b of
              None \<Rightarrow> Inr ()
            | Some a \<Rightarrow> (case parse_amount a of Inl e \<Rightarrow> Inl e | Inr _ \<Rightarrow> Inr ())) of
        Inl e \<Rightarrow> Inl e
      | Inr _ \<Rightarrow> Inr
          \<lparr>initiation = (if qb_amount b \<noteq> None then Dynamic else Static),
           merchant_accounts =
             \<lparr>ma_tag = 26, ma_guid = (case qb_guid b of Some g \<Rightarrow> g | None \<Rightarrow> ''ID.CO.QRIS.WWW''),
              ma_pan = qb_merchant_pan b, ma_nmid = nmid, ma_criteria = qb_criteria b,
              extra_sub_tags = []\<rparr> # qb_extra_accounts b,
           merchant_category_code = mcc,
           qp_currency = (case qb_currency b of Some c \<Rightarrow> c | None \<Rightarrow> ''360''),
           amount = qb_amount b, qp_tip = qb_tip b,
           country_code = (case qb_country_code b of Some c \<Rightarrow> c | None \<Rightarrow> ''ID''),
           merchant_name = name, merchant_city = city, postal_code = qb_postal_code b,
           additional = (if additional_is_empty (qb_additional b) then None else Some (qb_additional b)),
           extra = qb_extra b\<rparr>)))))"

subsection \<open>Validation\<close>

text \<open>\<open>str::parse::<f64>\<close> succeeds: the grammar of the standard library.\<close>

definition strip_sign :: "string \<Rightarrow> string" where
  "strip_sign s = (case s of c # cs \<Rightarrow> if c = CHR ''+'' \<or> c = CHR ''-'' then cs else s | [] \<Rightarrow> [])"

definition exponent_ok :: "string \<Rightarrow> bool" where
  "exponent_ok s = (case s of
     [] \<Rightarrow> True
   | c # cs \<Rightarrow> (c = CHR ''e'' \<or> c = CHR ''E'') \<and> strip_sign cs \<noteq> [] \<and> list_all is_ascii_digit (strip_sign cs))"

definition parses_f64 :: "string \<Rightarrow> bool" where
  "parses_f64 s =
     (let r = strip_sign s;
          ip = takeWhile is_ascii_digit r;
          r1 = dropWhile is_ascii_digit r;
          r2 = (case r1 of c # cs \<Rightarrow> if c = CHR ''.'' then cs else [] | [] \<Rightarrow> []);
          dotted = (case r1 of c # _ \<Rightarrow> c = CHR ''.'' | [] \<Rightarrow> False)
      in map to_ascii_uppercase r \<in> set [''INF'', ''INFINITY'', ''NAN'']
         \<or> (if dotted
            then (ip \<noteq> [] \<or> takeWhile is_ascii_digit r2 \<noteq> []) \<and> exponent_ok (dropWhile is_ascii_digit r2)
            else ip \<noteq> [] \<and> exponent_ok r1))"

definition validate_all :: "qris_payload \<Rightarrow> qris_error list" where
  "validate_all p =
     (case merchant_accounts p of
        [] \<Rightarrow> [NoMerchantAccount] | m # _ \<Rightarrow> if ma_nmid m = [] then [MissingNmid] else [])
     @ (if merchant_name p = [] then [MissingTag 59] else [])
     @ (if merchant_city p = [] then [MissingTag 60] else [])
     @ (if merchant_category_code p = [] then [MissingTag 52] else [])
     @ (if qp_currency p = [] then [MissingTag 53] else [])
     @ (if country_code p = [] then [MissingTag 58] else [])
     @ (case amount p of
          None \<Rightarrow> [] | Some a \<Rightarrow> if is_valid_amount_str a then [] else [InvalidAmount a])
     @ (case qp_tip p of
          None \<Rightarrow> []
        | Some (Fixed a) \<Rightarrow> if is_valid_amount_str a then [] else [InvalidAmount a]
        | Some (PercentageTip a) \<Rightarrow> if parses_f64 a then [] else [InvalidAmount a])
     @ (if is_dynamic p \<and> amount p = None then [MissingTag 54] else [])"

definition qris_validate :: "qris_payload \<Rightarrow> qris_error + unit" where
  "qris_validate p = (case validate_all p of [] \<Rightarrow> Inr () | e # _ \<Rightarrow> Inl e)"

subsection \<open>What a written payload reads back to\<close>

definition merchant_field :: "merchant_account_info \<Rightarrow> nat \<times> string" where
  "merchant_field m = (ma_tag m, fields_text (merchant_fields m))"

definition tip_fields :: "tip option \<Rightarrow> (nat \<times> string) list" where
  "tip_fields t = (case t of
     None \<Rightarrow> [] | Some (Fixed a) \<Rightarrow> [(55, ''02''), (56, a)] | Some (PercentageTip a) \<Rightarrow> [(55, ''03''), (57, a)])"

definition additional_field :: "additional_data option \<Rightarrow> (nat \<times> string) list" where
  "additional_field a = (case a of None \<Rightarrow> [] | Some d \<Rightarrow> [(62, fields_text (additional_fields d))])"

definition payload_fields :: "qris_payload \<Rightarrow> (nat \<times> string) list" where
  "payload_fields p = [(0, ''01''), (1, to_wire (initiation p))] @ map merchant_field (merchant_accounts p)
     @ [(52, merchant_category_code p), (53, qp_currency p)] @ opt_field 54 (amount p)
     @ tip_fields (qp_tip p)
     @ [(58, country_code p), (59, merchant_name p), (60, merchant_city p)]
     @ opt_field 61 (postal_code p) @ additional_field (additional p) @ extra p"

text \<open>
  The payloads the format can carry: every field, nested or not, is ASCII and at most 99 bytes
  long, tags kept as unknown are not those of a known field, there is a first merchant slot and it
  names a merchant, and additional data is absent rather than empty.
\<close>

definition account_ok :: "merchant_account_info \<Rightarrow> bool" where
  "account_ok m \<longleftrightarrow> 26 \<le> ma_tag m \<and> ma_tag m \<le> 51 \<and> list_all field_ok (merchant_fields m)
     \<and> list_all (\<lambda>f. 3 < fst f) (extra_sub_tags m)"

definition additional_ok :: "additional_data \<Rightarrow> bool" where
  "additional_ok d \<longleftrightarrow> \<not> additional_is_empty d \<and> list_all field_ok (additional_fields d)
     \<and> list_all (\<lambda>f. fst f = 0 \<or> 8 < fst f) (ad_extra d)"

definition payload_ok :: "qris_payload \<Rightarrow> bool" where
  "payload_ok p \<longleftrightarrow> list_all field_ok (payload_fields p)
     \<and> (case merchant_accounts p of [] \<Rightarrow> False | m # _ \<Rightarrow> ma_nmid m \<noteq> [])
     \<and> list_all account_ok (merchant_accounts p)
     \<and> (case additional p of None \<Rightarrow> True | Some d \<Rightarrow> additional_ok d)
     \<and> list_all (\<lambda>f. (1 < fst f \<and> fst f < 26) \<or> 63 < fst f) (extra p)"

lemma concat_ok_append: "concat_ok (xs @ ys) = obind (concat_ok xs) (\<lambda>a. obind (concat_ok ys) (\<lambda>b. Ok (a @ b)))"
proof -
  have assoc: "obind (obind m f) g = obind m (\<lambda>x. obind (f x) g)" for m :: "(qris_error, string) outcome"
      and f g :: "string \<Rightarrow> (qris_error, string) outcome" by (cases m) simp_all
  have right: "obind m Ok = m" for m :: "(qris_error, string) outcome" by (cases m) simp_all
  show ?thesis by (induction xs) (simp_all add: assoc right)
qed

lemma concat_ok_fields:
  "list_all field_ok fs \<Longrightarrow> concat_ok (map (\<lambda>f. encode_field (fst f) (snd f)) fs) = Ok (fields_text fs)"
  by (induction fs) (auto simp: field_ok_def encode_field_text)

lemma encode_inner: "list_all field_ok fs \<Longrightarrow> encode_fields fs = Ok (fields_text fs)"
  by (rule encode_fields_text) (auto simp: list_all_iff field_ok_def)

lemma to_qris_string_ok:
  assumes "payload_ok p"
  shows "to_qris_string p = Ok (append_crc (fields_text (payload_fields p)))"
proof -
  let ?e = "\<lambda>f. encode_field (fst f) (snd f)"
  have accounts: "map to_tlv_string (merchant_accounts p) = map ?e (map merchant_field (merchant_accounts p))"
    using assms by (auto simp: payload_ok_def list_all_iff account_ok_def to_tlv_string_def
        encode_nested_def merchant_field_def encode_inner)
  have additional: "additional_encoded (additional p) = map ?e (additional_field (additional p))"
    using assms by (auto simp: payload_ok_def additional_ok_def additional_encoded_def
        to_nested_string_def encode_inner additional_field_def split: option.splits)
  have opt: "opt_encoded t v = map ?e (opt_field t v)" for t v
    by (simp add: opt_encoded_def opt_field_def split: option.splits)
  have tip: "tip_encoded t = map ?e (tip_fields t)" for t
    by (simp add: tip_encoded_def tip_fields_def split: option.splits tip.splits)
  have "to_qris_string p = obind (concat_ok (map ?e (payload_fields p))) (\<lambda>out. Ok (append_crc out))"
    unfolding to_qris_string_def accounts additional opt tip
    by (simp add: payload_fields_def case_prod_beta')
  then show ?thesis using assms by (simp add: concat_ok_fields payload_ok_def)
qed

lemma crc_header: "zero_pad 2 (show_nat 63) @ zero_pad 2 (show_nat 4) @ h = ''6304'' @ h"
proof -
  have "zero_pad 2 (show_nat 63) = ''63''" "zero_pad 2 (show_nat 4) = ''04''" by code_simp+
  then show ?thesis by simp
qed

lemma parse_tlvs_written:
  assumes "payload_ok p"
  shows "parse_tlvs (append_crc (fields_text (payload_fields p)))
    = Inr (map tlv_of (payload_fields p) @ [\<lparr>tlv_tag = 63, tlv_value = compute_crc (fields_text (payload_fields p))\<rparr>])"
proof -
  let ?s = "fields_text (payload_fields p)" and ?h = "compute_crc (fields_text (payload_fields p))"
  have h: "length ?h = 4" "ascii_str ?h" by (simp_all add: compute_crc_def hex4_parts)
  then have "field_text (63, ?h) = ''6304'' @ ?h" using crc_header by (simp add: field_text_def)
  then have "append_crc ?s = fields_text (payload_fields p @ [(63, ?h)])"
    by (simp add: append_crc_def compute_crc_def)
  moreover have "list_all field_ok (payload_fields p @ [(63, ?h)])"
    using assms h by (simp add: payload_ok_def field_ok_def)
  ultimately show ?thesis using parse_fields_text [of "payload_fields p @ [(63, ?h)]"] by (simp add: tlv_of_def)
qed


lemma draft_tags_append:
  "draft_tags (xs @ ys) d = (case draft_tags xs d of Inl e \<Rightarrow> Inl e | Inr d' \<Rightarrow> draft_tags ys d')"
  by (induction xs arbitrary: d) (auto split: sum.splits)

lemma merchant_extras:
  "list_all (\<lambda>f. 3 < fst f) fs \<Longrightarrow>
     fold merchant_sub_tag (map tlv_of fs) m = m\<lparr>extra_sub_tags := extra_sub_tags m @ fs\<rparr>"
  by (induction fs arbitrary: m) (auto simp: merchant_sub_tag_def tlv_of_def)

lemma merchant_readback:
  assumes "account_ok m"
  shows "merchant_from_nested (ma_tag m) (fields_text (merchant_fields m)) = Inr m"
proof -
  have "fold merchant_sub_tag (map tlv_of (merchant_fields m))
      \<lparr>ma_tag = ma_tag m, ma_guid = [], ma_pan = None, ma_nmid = [], ma_criteria = None,
       extra_sub_tags = []\<rparr> = m"
    using assms merchant_extras [of "extra_sub_tags m"]
    by (cases m) (auto simp: merchant_fields_def opt_field_def account_ok_def merchant_sub_tag_def
        tlv_of_def split: option.splits)
  then show ?thesis using assms by (simp add: merchant_from_nested_def account_ok_def parse_fields_text)
qed

lemma account_readback:
  assumes "account_ok m"
  shows "draft_tag (tlv_of (merchant_field m)) d =
     Inr (d\<lparr>draft := (draft d)\<lparr>merchant_accounts := merchant_accounts (draft d) @ [m]\<rparr>\<rparr>)"
proof -
  have "26 \<le> ma_tag m" "ma_tag m \<le> 51" using assms by (simp_all add: account_ok_def)
  then show ?thesis
    by (simp add: draft_tag_def tlv_of_def merchant_field_def Let_def merchant_readback [OF assms])
qed

lemma accounts_readback:
  "list_all account_ok ms \<Longrightarrow> draft_tags (map tlv_of (map merchant_field ms)) d =
     Inr (d\<lparr>draft := (draft d)\<lparr>merchant_accounts := merchant_accounts (draft d) @ ms\<rparr>\<rparr>)"
  by (induction ms arbitrary: d) (simp_all add: account_readback)

lemma additional_extra:
  assumes "t = 0 \<or> 8 < t"
  shows "additional_sub_tag \<lparr>tlv_tag = t, tlv_value = v\<rparr> d = d\<lparr>ad_extra := ad_extra d @ [(t, v)]\<rparr>"
proof -
  have "t \<noteq> 1 \<and> t \<noteq> 2 \<and> t \<noteq> 3 \<and> t \<noteq> 4 \<and> t \<noteq> 5 \<and> t \<noteq> 6 \<and> t \<noteq> 7 \<and> t \<noteq> 8" using assms by presburger
  then show ?thesis by (simp only: additional_sub_tag_def tlv.select_convs if_False)
qed

lemma additional_extras:
  "list_all (\<lambda>f. fst f = 0 \<or> 8 < fst f) fs \<Longrightarrow>
     fold additional_sub_tag (map tlv_of fs) d = d\<lparr>ad_extra := ad_extra d @ fs\<rparr>"
  by (induction fs arbitrary: d) (simp_all add: additional_extra tlv_of_def)

lemma additional_opt:
  "ad_bill_number d = None \<Longrightarrow> fold additional_sub_tag (map tlv_of (opt_field 1 v)) d = d\<lparr>ad_bill_number := v\<rparr>"
  "ad_mobile_number d = None \<Longrightarrow> fold additional_sub_tag (map tlv_of (opt_field 2 v)) d = d\<lparr>ad_mobile_number := v\<rparr>"
  "ad_store_label d = None \<Longrightarrow> fold additional_sub_tag (map tlv_of (opt_field 3 v)) d = d\<lparr>ad_store_label := v\<rparr>"
  "ad_loyalty_number d = None \<Longrightarrow> fold additional_sub_tag (map tlv_of (opt_field 4 v)) d = d\<lparr>ad_loyalty_number := v\<rparr>"
  "ad_reference_label d = None \<Longrightarrow> fold additional_sub_tag (map tlv_of (opt_field 5 v)) d = d\<lparr>ad_reference_label := v\<rparr>"
  "ad_customer_label d = None \<Longrightarrow> fold additional_sub_tag (map tlv_of (opt_field 6 v)) d = d\<lparr>ad_customer_label := v\<rparr>"
  "ad_terminal_label d = None \<Longrightarrow> fold additional_sub_tag (map tlv_of (opt_field 7 v)) d = d\<lparr>ad_terminal_label := v\<rparr>"
  "ad_purpose d = None \<Longrightarrow> fold additional_sub_tag (map tlv_of (opt_field 8 v)) d = d\<lparr>ad_purpose := v\<rparr>"
  by (cases v; simp add: opt_field_def tlv_of_def additional_sub_tag_def)+

lemma additional_readback:
  assumes "additional_ok d"
  shows "additional_from_nested (fields_text (additional_fields d)) = Inr d"
proof -
  have "fold additional_sub_tag (map tlv_of (additional_fields d)) additional_default = d"
    using assms
    by (simp add: additional_fields_def additional_opt additional_extras additional_ok_def
        additional_default_def del: One_nat_def)
  then show ?thesis
    using assms by (simp add: additional_from_nested_def additional_ok_def parse_fields_text)
qed

lemma extra_readback:
  assumes "(1 < t \<and> t < 26) \<or> 63 < t"
  shows "draft_tag \<lparr>tlv_tag = t, tlv_value = v\<rparr> d = Inr (d\<lparr>draft := (draft d)\<lparr>extra := extra (draft d) @ [(t, v)]\<rparr>\<rparr>)"
proof -
  have "t \<noteq> 0 \<and> t \<noteq> 1 \<and> \<not> (26 \<le> t \<and> t \<le> 51) \<and> t \<noteq> 52 \<and> t \<noteq> 53 \<and> t \<noteq> 54 \<and> t \<noteq> 55 \<and> t \<noteq> 56
      \<and> t \<noteq> 57 \<and> t \<noteq> 58 \<and> t \<noteq> 59 \<and> t \<noteq> 60 \<and> t \<noteq> 61 \<and> t \<noteq> 62 \<and> t \<noteq> 63"
    using assms by presburger
  then show ?thesis by (simp only: draft_tag_def Let_def tlv.select_convs if_False)
qed

lemma extras_readback:
  "list_all (\<lambda>f. (1 < fst f \<and> fst f < 26) \<or> 63 < fst f) fs \<Longrightarrow>
     draft_tags (map tlv_of fs) d = Inr (d\<lparr>draft := (draft d)\<lparr>extra := extra (draft d) @ fs\<rparr>\<rparr>)"
  by (induction fs arbitrary: d) (simp_all add: extra_readback tlv_of_def)

definition with_tip :: "tip option \<Rightarrow> tlv_draft \<Rightarrow> tlv_draft" where
  "with_tip t d = (case t of
     None \<Rightarrow> d
   | Some (Fixed a) \<Rightarrow> d\<lparr>tip_indicator := Some ''02'', fee_fixed := Some a\<rparr>
   | Some (PercentageTip a) \<Rightarrow> d\<lparr>tip_indicator := Some ''03'', fee_percent := Some a\<rparr>)"

lemma fields_readback:
  "amount (draft d) = None \<Longrightarrow>
     draft_tags (map tlv_of (opt_field 54 v)) d = Inr (d\<lparr>draft := (draft d)\<lparr>amount := v\<rparr>\<rparr>)"
  "postal_code (draft d) = None \<Longrightarrow>
     draft_tags (map tlv_of (opt_field 61 v)) d = Inr (d\<lparr>draft := (draft d)\<lparr>postal_code := v\<rparr>\<rparr>)"
  "draft_tags (map tlv_of (tip_fields t)) d = Inr (with_tip t d)"
  by (simp_all add: opt_field_def tlv_of_def draft_tag_def Let_def tip_fields_def with_tip_def
      split: option.split tip.split)

lemma additional_field_readback:
  "additional (draft d) = None \<Longrightarrow> (case a of None \<Rightarrow> True | Some x \<Rightarrow> additional_ok x) \<Longrightarrow>
     draft_tags (map tlv_of (additional_field a)) d = Inr (d\<lparr>draft := (draft d)\<lparr>additional := a\<rparr>\<rparr>)"
  by (simp add: additional_field_def tlv_of_def draft_tag_def Let_def additional_readback split: option.splits)

lemma fixed_readback:
  "draft_tags (map tlv_of [(0, u), (1, to_wire i)]) d = Inr (d\<lparr>draft := (draft d)\<lparr>initiation := i\<rparr>\<rparr>)"
  "draft_tags (map tlv_of [(52, u), (53, v)]) d =
     Inr (d\<lparr>draft := (draft d)\<lparr>merchant_category_code := u, qp_currency := v\<rparr>\<rparr>)"
  "draft_tags (map tlv_of [(58, u), (59, v), (60, w)]) d =
     Inr (d\<lparr>draft := (draft d)\<lparr>country_code := u, merchant_name := v, merchant_city := w\<rparr>\<rparr>)"
  "draft_tags [\<lparr>tlv_tag = 63, tlv_value = w\<rparr>] d = Inr d"
  by (cases i; simp add: tlv_of_def draft_tag_def Let_def from_wire_def)+

lemma with_tip_draft [simp]: "draft (with_tip t d) = draft d"
  by (simp add: with_tip_def split: option.split tip.split)

lemma read_with_tip:
  "tip_indicator d = None \<Longrightarrow> read_tip (with_tip t d\<lparr>draft := p\<rparr>) = Inr t"
  by (simp add: with_tip_def read_tip_def split: option.split tip.split)

lemma with_tip_set_draft: "with_tip t (d\<lparr>draft := q\<rparr>) = with_tip t d\<lparr>draft := q\<rparr>"
  by (simp add: with_tip_def split: option.split tip.split)

lemma empty_draft_none:
  "amount (draft empty_draft) = None" "postal_code (draft empty_draft) = None"
  "additional (draft empty_draft) = None" "tip_indicator empty_draft = None"
  by (simp_all add: empty_draft_def)

lemma empty_draft_filled:
  "draft empty_draft
     \<lparr>initiation := initiation p, merchant_accounts := merchant_accounts (draft empty_draft) @ merchant_accounts p,
      merchant_category_code := merchant_category_code p, qp_currency := qp_currency p,
      amount := amount p, country_code := country_code p, merchant_name := merchant_name p,
      merchant_city := merchant_city p, postal_code := postal_code p, additional := additional p,
      extra := extra (draft empty_draft) @ extra p\<rparr> = p\<lparr>qp_tip := None\<rparr>"
  by (cases p) (simp add: empty_draft_def)

lemma draft_tags_written:
  assumes "payload_ok p"
  shows "draft_tags (map tlv_of (payload_fields p) @ [\<lparr>tlv_tag = 63, tlv_value = h\<rparr>]) empty_draft
    = Inr (with_tip (qp_tip p) empty_draft\<lparr>draft := p\<lparr>qp_tip := None\<rparr>\<rparr>)"
proof -
  have "list_all account_ok (merchant_accounts p)"
    "case additional p of None \<Rightarrow> True | Some x \<Rightarrow> additional_ok x"
    "list_all (\<lambda>f. (1 < fst f \<and> fst f < 26) \<or> 63 < fst f) (extra p)"
    using assms by (simp_all add: payload_ok_def)
  then show ?thesis
    unfolding payload_fields_def
    by (simp add: draft_tags_append fixed_readback accounts_readback fields_readback
        additional_field_readback extras_readback empty_draft_none with_tip_set_draft
        empty_draft_filled [symmetric, of p] del: list.map draft_tags.simps One_nat_def map_map append.simps)
qed

lemma parse_written: "payload_ok p \<Longrightarrow> qris_parse (append_crc (fields_text (payload_fields p))) = Ok p"
  by (cases "merchant_accounts p")
    (simp_all add: qris_parse_def verify_append_crc parse_tlvs_written from_tlvs_def draft_tags_written
      payload_ok_def read_with_tip empty_draft_none)

lemma trim_digits:
  assumes "list_all is_ascii_digit s"
  shows "trim s = s"
proof -
  have "ascii_str s" using assms by (auto simp: ascii_str_def list_all_iff is_ascii_digit_ascii)
  then have c: "chars s = singles s" by (rule chars_ascii)
  have "\<not> is_whitespace [x]" if "x \<in> set s" for x
    using that assms by (auto simp: is_whitespace_def is_ascii_digit_def list_all_iff)
  then have "dropWhile is_whitespace (singles s) = singles s"
      "dropWhile is_whitespace (rev (singles s)) = rev (singles s)"
    by (auto simp: dropWhile_eq_self_iff hd_map last_map hd_rev)
  then show ?thesis by (simp add: trim_def c)
qed

lemma parse_format_amount: "n \<le> u64_max \<Longrightarrow> parse_amount (format_amount n) = Inr n"
proof -
  assume n: "n \<le> u64_max"
  have "takeWhile (\<lambda>c. c \<noteq> CHR ''.'') (show_nat n) = show_nat n"
    using show_nat_digits digit_not_sign by (auto simp: takeWhile_eq_all_conv)
  moreover have "parse_unsigned 10 u64_max (show_nat n) = Some n"
    using parse_unsigned_digits [OF show_nat_all_digits show_nat_nonempty _ n] digits_val_show_nat [of 0 n]
    by simp
  ultimately show ?thesis by (simp add: parse_amount_def format_amount_def trim_digits Let_def del: takeWhile_eq_all_conv)
qed

lemma format_amount_field: "n \<le> u64_max \<Longrightarrow> field_ok (54, format_amount n)"
  using length_show_nat [of n 19] by (simp add: field_ok_def format_amount_def)

lemma payload_ok_stamp:
  assumes "payload_ok p" and "field_ok (54, a)"
  shows "payload_ok (p\<lparr>amount := Some a, initiation := Dynamic\<rparr>)"
  using assms by (simp add: payload_ok_def payload_fields_def opt_field_def field_ok_def is_ascii_def)

subsection \<open>Properties\<close>

text \<open>
  C27. Every payload the format can carry is written without a panic, and parsing what was written,
  checksum included, gives back the same payload in every field.
\<close>

theorem payload_roundtrip:
  assumes "payload_ok p"
  shows "\<exists>s. to_qris_string p = Ok s \<and> qris_parse s = Ok p"
  using to_qris_string_ok [OF assms] parse_written [OF assms] by blast

definition demo_builder :: qris_builder where
  "demo_builder = set_terminal_label ''T-001'' (tip_fixed ''1000'' (set_merchant_category_code ''5812''
     (set_merchant_city ''Kab. Demak'' (set_merchant_name ''Warung Sayur'' (set_nmid ''ID1020001234567''
       builder_new)))))"

definition demo_payload :: qris_payload where
  "demo_payload = \<lparr>initiation = Static,
     merchant_accounts = [\<lparr>ma_tag = 26, ma_guid = ''ID.CO.QRIS.WWW'', ma_pan = None,
       ma_nmid = ''ID1020001234567'', ma_criteria = None, extra_sub_tags = []\<rparr>],
     merchant_category_code = ''5812'', qp_currency = ''360'', amount = None, qp_tip = Some (Fixed ''1000''),
     country_code = ''ID'', merchant_name = ''Warung Sayur'', merchant_city = ''Kab. Demak'',
     postal_code = None, additional = Some (additional_default\<lparr>ad_terminal_label := Some ''T-001''\<rparr>),
     extra = []\<rparr>"

lemma demo_build: "build demo_builder = Inr demo_payload"
  by (simp add: build_def demo_builder_def demo_payload_def builder_new_def set_terminal_label_def
      tip_fixed_def set_merchant_category_code_def set_merchant_city_def set_merchant_name_def
      set_nmid_def additional_is_empty_def additional_default_def)

lemma demo_payload_ok: "payload_ok demo_payload"
  by code_simp

theorem payload_roundtrip_witness:
  "\<exists>p s. build demo_builder = Inr p \<and> to_qris_string p = Ok s \<and> qris_parse s = Ok p"
  using payload_roundtrip [OF demo_payload_ok] demo_build by blast

text \<open>
  The point-of-sale flow: stamping an amount of rupiah on a payload, writing the code and
  parsing it again gives a dynamic payload with exactly that amount, every other field that of the
  payload the amount was stamped on, and stripping the amount undoes the stamp.
\<close>

theorem stamped_amount_read_back:
  assumes "payload_ok p" and "n \<le> u64_max"
  shows "\<exists>q s. into_dynamic (format_amount n) p = Inr q \<and> to_qris_string q = Ok s \<and> qris_parse s = Ok q
    \<and> is_dynamic q \<and> amount_rupiah q = Inr (Some n) \<and> into_static q = into_static p
    \<and> q = p\<lparr>amount := Some (format_amount n), initiation := Dynamic\<rparr>"
proof -
  let ?q = "p\<lparr>amount := Some (format_amount n), initiation := Dynamic\<rparr>"
  have ok: "payload_ok ?q" by (rule payload_ok_stamp [OF assms(1) format_amount_field [OF assms(2)]])
  have "into_dynamic (format_amount n) p = Inr ?q" "is_dynamic ?q" "amount_rupiah ?q = Inr (Some n)"
    "into_static ?q = into_static p"
    using parse_format_amount [OF assms(2)]
    by (simp_all add: into_dynamic_def is_dynamic_def amount_rupiah_def into_static_def)
  then show ?thesis using to_qris_string_ok [OF ok] parse_written [OF ok] by blast
qed

theorem stamped_amount_read_back_witness:
  "\<exists>q s. into_dynamic (format_amount 75000) demo_payload = Inr q \<and> to_qris_string q = Ok s
     \<and> qris_parse s = Ok q \<and> amount_rupiah q = Inr (Some 75000)"
  using stamped_amount_read_back [OF demo_payload_ok, of 75000] by auto

text \<open>
  Turning a payload with a valid amount into a builder and building it again always succeeds,
  but it gives the same payload only in part: the first merchant slot always moves to tag 26 and
  loses its additional sub-tags, and the initiation method is set from the amount.
\<close>

theorem builder_rebuild:
  assumes "merchant_accounts p = m # ms" and "list_all is_valid_amount_str (case amount p of None \<Rightarrow> [] | Some a \<Rightarrow> [a])"
  shows "\<exists>q. build (from_payload p) = Inr q
    \<and> merchant_accounts q = m\<lparr>ma_tag := 26, extra_sub_tags := []\<rparr> # ms
    \<and> (q = p \<longleftrightarrow> ma_tag m = 26 \<and> extra_sub_tags m = [] \<and> (is_dynamic p \<longleftrightarrow> has_amount p)
         \<and> additional p = (case additional p of None \<Rightarrow> None | Some d \<Rightarrow> if additional_is_empty d then None else Some d))"
proof -
  let ?a = "case additional p of None \<Rightarrow> None | Some d \<Rightarrow> if additional_is_empty d then None else Some d"
  let ?q = "p\<lparr>initiation := if amount p \<noteq> None then Dynamic else Static,
    merchant_accounts := m\<lparr>ma_tag := 26, extra_sub_tags := []\<rparr> # ms, additional := ?a\<rparr>"
  have e: "additional_is_empty additional_default"
    by (simp add: additional_is_empty_def additional_default_def)
  have "build (from_payload p) = Inr ?q"
    using assms e
    by (cases p; cases m)
      (auto simp: build_def from_payload_def is_valid_amount_str_def split: option.splits sum.splits)
  moreover have "?q = p \<longleftrightarrow> ma_tag m = 26 \<and> extra_sub_tags m = [] \<and> (is_dynamic p \<longleftrightarrow> has_amount p)
      \<and> additional p = ?a"
    using assms(1) by (cases p; cases m; cases "initiation p") (auto simp: is_dynamic_def has_amount_def)
  moreover have "merchant_accounts ?q = m\<lparr>ma_tag := 26, extra_sub_tags := []\<rparr> # ms" by simp
  ultimately show ?thesis by blast
qed

theorem builder_rebuild_witness:
  "\<exists>q. build (from_payload (demo_payload\<lparr>merchant_accounts := [(hd (merchant_accounts demo_payload))\<lparr>ma_tag := 51\<rparr>]\<rparr>)) = Inr q
     \<and> merchant_accounts q = merchant_accounts demo_payload
     \<and> q \<noteq> demo_payload\<lparr>merchant_accounts := [(hd (merchant_accounts demo_payload))\<lparr>ma_tag := 51\<rparr>]\<rparr>"
  using builder_rebuild [of "demo_payload\<lparr>merchant_accounts := [(hd (merchant_accounts demo_payload))\<lparr>ma_tag := 51\<rparr>]\<rparr>"
    "(hd (merchant_accounts demo_payload))\<lparr>ma_tag := 51\<rparr>" "[]"]
  by (auto simp: demo_payload_def)

text \<open>
  Parsing a string ends with a payload or an error, except on the strings of at least eight
  bytes whose fourth byte from the end lies inside a multi-byte character: on those, and only on
  those, the slice of the checksum panics.
\<close>

theorem parse_panics_iff:
  "qris_parse s = Panic \<longleftrightarrow> 8 \<le> length s \<and> \<not> char_boundary s (length s - 4)"
proof -
  have os: "of_sum x \<noteq> Panic" for x :: "'a + 'b" by (cases x) simp_all
  have bind: "obind m f = Panic \<longleftrightarrow> m = Panic \<or> (\<exists>x. m = Ok x \<and> f x = Panic)"
    for m :: "('a, 'b) outcome" and f :: "'b \<Rightarrow> ('a, 'c) outcome" by (cases m) auto
  have "qris_parse s = Panic \<longleftrightarrow> verify s = Panic"
    by (simp add: qris_parse_def bind os)
  also have "\<dots> \<longleftrightarrow> 8 \<le> length s \<and> \<not> char_boundary s (length s - 4)"
    by (auto simp: verify_def slice_to_def slice_from_def Let_def split: option.splits if_splits)
  finally show ?thesis .
qed

end
