(* ===== verification/Ordered_Map.thy ===== *)
theory Ordered_Map
  imports Prelude "HOL-Library.Char_ord" "HOL-Library.List_Lexorder" "HOL-Library.Product_Lexorder"
begin

section \<open>Ordered maps and convergent merges\<close>

text \<open>
  \<open>BTreeMap\<close> of the standard library, as the list of its entries in the order in which iteration
  visits them: strictly increasing keys. Two maps are equal exactly when they hold the same entries.
  The second part is the interface of data that replicas merge: a join that is associative,
  commutative and idempotent, so that the state after a set of updates depends neither on their
  order nor on how often each arrives.
\<close>

subsection \<open>Maps in key order\<close>

definition bt_ok :: "('k :: linorder \<times> 'v) list \<Rightarrow> bool" where
  "bt_ok m \<longleftrightarrow> sorted_wrt (<) (map fst m)"

fun bt_put :: "'k :: linorder \<Rightarrow> 'v \<Rightarrow> ('k \<times> 'v) list \<Rightarrow> ('k \<times> 'v) list" where
  "bt_put k v [] = [(k, v)]"
| "bt_put k v ((k', v') # m) =
     (if k < k' then (k, v) # (k', v') # m
      else if k = k' then (k, v) # m
      else (k', v') # bt_put k v m)"

lemma bt_ok_simps [simp]:
  "bt_ok []" "bt_ok (p # m) \<longleftrightarrow> (\<forall>k \<in> fst ` set m. fst p < k) \<and> bt_ok m"
  by (simp_all add: bt_ok_def)

lemma bt_put_keys [simp]: "fst ` set (bt_put k v m) = insert k (fst ` set m)"
  by (induction k v m rule: bt_put.induct) auto

lemma bt_put_ok [simp]: "bt_ok m \<Longrightarrow> bt_ok (bt_put k v m)"
proof (induction k v m rule: bt_put.induct)
  case (2 k v k' v' m)
  then show ?case
    by (cases k k' rule: linorder_cases) (auto simp del: ball_simps bex_simps image_iff intro: order.strict_trans)
qed simp

lemma map_of_bt_put [simp]: "bt_ok m \<Longrightarrow> map_of (bt_put k v m) = (map_of m)(k \<mapsto> v)"
proof (induction k v m rule: bt_put.induct)
  case (2 k v k' v' m)
  then show ?case by (auto simp: fun_eq_iff)
qed simp

lemma bt_distinct: "bt_ok m \<Longrightarrow> distinct (map fst m)"
  by (induction m) auto

lemma bt_ext: "bt_ok m \<Longrightarrow> bt_ok n \<Longrightarrow> map_of m = map_of n \<Longrightarrow> m = n"
proof (induction m arbitrary: n)
  case Nil
  then show ?case by (cases n) (auto simp: fun_eq_iff split: if_splits)
next
  case (Cons p m)
  obtain k v where p: "p = (k, v)" by (cases p)
  have keys: "insert k (fst ` set m) = fst ` set n"
    using Cons.prems(3) p by (metis dom_map_of_conv_image_fst image_insert list.simps(15) fst_conv)
  then obtain q n' where n: "n = q # n'" by (cases n) auto
  obtain l w where q: "q = (l, w)" by (cases q)
  have above: "\<forall>x \<in> fst ` set m. k < x" "\<forall>x \<in> fst ` set n'. l < x"
    using Cons.prems(1,2) n p q by simp_all
  then have "k = l" using keys n q
    by (metis fst_conv image_insert insertE insertI1 list.simps(15) order_less_asym)
  moreover have v: "v = w" using fun_cong [OF Cons.prems(3), of k] p q n \<open>k = l\<close> by simp
  have "map_of m = map_of n'"
  proof
    fix x
    have "map_of m k = None" "map_of n' k = None"
      using above \<open>k = l\<close> by (auto simp: map_of_eq_None_iff)
    then show "map_of m x = map_of n' x"
      using fun_cong [OF Cons.prems(3), of x] p q n \<open>k = l\<close> by (cases "x = k") simp_all
  qed
  then have "m = n'" using Cons.IH [of n'] Cons.prems(1,2) n by simp
  ultimately show ?case using v p q n by simp
qed

subsection \<open>Convergent merges\<close>

locale convergent =
  fixes valid :: "'s \<Rightarrow> bool"
    and merge :: "'s \<Rightarrow> 's \<Rightarrow> 's"
  assumes merge_valid: "valid a \<Longrightarrow> valid b \<Longrightarrow> valid (merge a b)"
    and merge_assoc: "valid a \<Longrightarrow> valid b \<Longrightarrow> valid c \<Longrightarrow> merge (merge a b) c = merge a (merge b c)"
    and merge_comm: "valid a \<Longrightarrow> valid b \<Longrightarrow> merge a b = merge b a"
    and merge_idem: "valid a \<Longrightarrow> merge a a = a"
begin

text \<open>A replica that started at \<open>a\<close> and received \<open>xs\<close> in this order is at \<open>foldl merge a xs\<close>.\<close>

lemma deliver_valid: "valid a \<Longrightarrow> list_all valid xs \<Longrightarrow> valid (foldl merge a xs)"
  by (induction xs arbitrary: a) (simp_all add: merge_valid)

lemma deliver_merge: "valid a \<Longrightarrow> valid b \<Longrightarrow> list_all valid xs \<Longrightarrow> foldl merge (merge a b) xs = merge (foldl merge a xs) b"
proof (induction xs arbitrary: a)
  case (Cons x xs)
  then have "merge (merge a b) x = merge (merge a x) b"
    by (simp add: merge_assoc merge_comm [of b x])
  then show ?case using Cons by (simp add: merge_valid)
qed simp

lemma deliver_absorb: "valid a \<Longrightarrow> list_all valid xs \<Longrightarrow> x \<in> set xs \<Longrightarrow> merge (foldl merge a xs) x = foldl merge a xs"
proof (induction xs arbitrary: a)
  case (Cons y xs)
  show ?case
  proof (cases "x = y")
    case True
    have "valid y" "valid (foldl merge a xs)" using Cons.prems by (simp_all add: deliver_valid)
    then show ?thesis using Cons.prems True by (simp add: deliver_merge merge_assoc merge_idem)
  qed (use Cons in \<open>simp add: merge_valid\<close>)
qed simp

lemma deliver_again: "valid a \<Longrightarrow> list_all valid xs \<Longrightarrow> set ys \<subseteq> set xs \<Longrightarrow> foldl merge (foldl merge a xs) ys = foldl merge a xs"
  by (induction ys) (simp_all add: deliver_absorb)

lemma deliver_swap:
  "valid a \<Longrightarrow> list_all valid xs \<Longrightarrow> list_all valid ys \<Longrightarrow> foldl merge (foldl merge a xs) ys = foldl merge (foldl merge a ys) xs"
proof (induction ys arbitrary: a)
  case (Cons y ys)
  then have "foldl merge (merge (foldl merge a xs) y) ys = foldl merge (foldl merge (merge a y) xs) ys"
    by (simp add: deliver_merge)
  then show ?case using Cons by (simp add: merge_valid)
qed simp

theorem deliver_set:
  assumes "valid a" and "list_all valid xs" and "set xs = set ys"
  shows "foldl merge a xs = foldl merge a ys"
proof -
  have ys: "list_all valid ys" using assms(2,3) by (simp add: list_all_iff)
  have "foldl merge a xs = foldl merge (foldl merge a xs) ys" using deliver_again assms by simp
  also have "\<dots> = foldl merge (foldl merge a ys) xs" using deliver_swap [OF assms(1,2) ys] .
  also have "\<dots> = foldl merge a ys" using deliver_again [OF assms(1) ys] assms(3) by simp
  finally show ?thesis .
qed

end

end
