(* ===== verification/Sync.thy ===== *)
theory Sync
  imports Ordered_Map Sale
begin

section \<open>Synchronisation: clocks, vectors, deltas, conflicts\<close>

text \<open>
  The causality metadata and the conflict rules of \<open>platform/sync\<close>: \<open>crdt/lamport.rs\<close>,
  \<open>crdt/version_vector.rs\<close>, \<open>crdt/delta_mutation.rs\<close>, the persisted counter of
  \<open>crdt/clock_store.rs\<close>, and \<open>conflict.rs\<close>. Counters are \<open>u64\<close>, here \<open>nat\<close> with saturating
  addition. JSON is a third-party library: the version and the status found in a payload, and the
  text of a merged payload, are arguments of the resolvers that use them.
\<close>

subsection \<open>Lamport clocks\<close>

record lamport_clock =
  lc_counter :: nat
  lc_terminal_id :: string

definition clock_new :: "string \<Rightarrow> lamport_clock" where
  "clock_new t = \<lparr>lc_counter = 0, lc_terminal_id = t\<rparr>"

definition with_counter :: "nat \<Rightarrow> string \<Rightarrow> lamport_clock" where
  "with_counter n t = \<lparr>lc_counter = n, lc_terminal_id = t\<rparr>"

definition clock_tick :: "lamport_clock \<Rightarrow> nat \<times> lamport_clock" where
  "clock_tick c = (let n = saturating_add_u64 (lc_counter c) 1 in (n, c\<lparr>lc_counter := n\<rparr>))"

definition observe_counter :: "nat \<Rightarrow> lamport_clock \<Rightarrow> nat \<times> lamport_clock" where
  "observe_counter other c =
     clock_tick (if other > lc_counter c then c\<lparr>lc_counter := other\<rparr> else c)"

definition clock_observe :: "lamport_clock \<Rightarrow> lamport_clock \<Rightarrow> nat \<times> lamport_clock" where
  "clock_observe other c =
     clock_tick (if lc_counter other > lc_counter c then c\<lparr>lc_counter := lc_counter other\<rparr> else c)"

definition clock_cmp :: "lamport_clock \<Rightarrow> lamport_clock \<Rightarrow> ordering" where
  "clock_cmp a b =
     (if lc_counter a < lc_counter b then Less
      else if lc_counter a > lc_counter b then Greater
      else if lc_terminal_id a < lc_terminal_id b then Less
      else if lc_terminal_id a > lc_terminal_id b then Greater
      else Equal)"

text \<open>The counter kept in the settings table: an absent key is 0, a corrupt value an error.\<close>

definition parse_counter :: "string \<Rightarrow> nat option" where
  "parse_counter raw = parse_unsigned 10 u64_max (trim raw)"

definition load_counter :: "string option \<Rightarrow> nat option" where
  "load_counter stored = (case stored of None \<Rightarrow> Some 0 | Some raw \<Rightarrow> parse_counter raw)"

definition save_counter :: "nat \<Rightarrow> string option \<Rightarrow> string option" where
  "save_counter n stored = Some (show_nat n)"

subsection \<open>Version vectors\<close>

datatype causal_order = Before | After | Same | Concurrent

type_synonym version_vector = "(string \<times> nat) list"

definition vv_get :: "version_vector \<Rightarrow> string \<Rightarrow> nat" where
  "vv_get v t = (case map_of v t of None \<Rightarrow> 0 | Some n \<Rightarrow> n)"

definition vv_tick :: "string \<Rightarrow> version_vector \<Rightarrow> nat \<times> version_vector" where
  "vv_tick t v = (let n = saturating_add_u64 (vv_get v t) 1 in (n, bt_put t n v))"

definition vv_record :: "string \<Rightarrow> nat \<Rightarrow> version_vector \<Rightarrow> version_vector" where
  "vv_record t n v = (let entry = vv_get v t in bt_put t (if n > entry then n else entry) v)"

fun vv_observe :: "version_vector \<Rightarrow> version_vector \<Rightarrow> version_vector" where
  "vv_observe v [] = v"
| "vv_observe v ((t, n) # other) = vv_observe (vv_record t n v) other"

definition vv_compare :: "version_vector \<Rightarrow> version_vector \<Rightarrow> causal_order" where
  "vv_compare v w =
     (let keys = map fst v @ map fst w;
          self_greater = list_ex (\<lambda>k. vv_get v k > vv_get w k) keys;
          other_greater = list_ex (\<lambda>k. vv_get v k < vv_get w k) keys
      in (case (self_greater, other_greater) of
            (True, False) \<Rightarrow> After
          | (False, True) \<Rightarrow> Before
          | (False, False) \<Rightarrow> Same
          | (True, True) \<Rightarrow> Concurrent))"

subsection \<open>Stock deltas\<close>

record delta_mutation =
  movement_id :: string
  d_sku :: string
  d_quantity :: int
  d_terminal_id :: string
  d_clock :: lamport_clock

record merge_outcome =
  applied :: "delta_mutation list"
  duplicates :: "string list"
  total_quantity :: int

definition had_replays :: "merge_outcome \<Rightarrow> bool" where
  "had_replays m \<longleftrightarrow> duplicates m \<noteq> []"

definition or_insert :: "'k :: linorder \<Rightarrow> 'v \<Rightarrow> ('k \<times> 'v) list \<Rightarrow> ('k \<times> 'v) list" where
  "or_insert k v m = (case map_of m k of None \<Rightarrow> bt_put k v m | Some _ \<Rightarrow> m)"

definition count_up :: "'k :: linorder \<Rightarrow> ('k \<times> nat) list \<Rightarrow> ('k \<times> nat) list" where
  "count_up k m = bt_put k (case map_of m k of None \<Rightarrow> 1 | Some n \<Rightarrow> n + 1) m"

fun collect_deltas ::
    "delta_mutation list \<Rightarrow> (string \<times> delta_mutation) list \<Rightarrow> (string \<times> nat) list
       \<Rightarrow> (string \<times> delta_mutation) list \<times> (string \<times> nat) list" where
  "collect_deltas [] first_seen counts = (first_seen, counts)"
| "collect_deltas (d # ds) first_seen counts =
     collect_deltas ds (or_insert (movement_id d) d first_seen) (count_up (movement_id d) counts)"

text \<open>The key that \<open>sort_by\<close> compares: the clock, then the movement.\<close>

definition delta_key :: "delta_mutation \<Rightarrow> nat \<times> string \<times> string" where
  "delta_key d = (lc_counter (d_clock d), lc_terminal_id (d_clock d), movement_id d)"

definition merge_deltas :: "delta_mutation list \<Rightarrow> delta_mutation list \<Rightarrow> merge_outcome" where
  "merge_deltas local remote =
     (case collect_deltas (local @ remote) [] [] of
        (first_seen, counts) \<Rightarrow>
          (let ds = sort_key delta_key (map snd first_seen)
           in \<lparr>applied = ds,
               duplicates = map fst (filter (\<lambda>(_, n). n > 1) counts),
               total_quantity = foldl (\<lambda>acc d. saturating_add_i64 acc (d_quantity d)) 0 ds\<rparr>))"

subsection \<open>Conflicts\<close>

datatype queue_status = QPending | QSynced | QFailed

datatype sync_priority = Critical | Normal | Low

record offline_queue_item =
  qi_id :: string
  qi_action :: string
  qi_payload :: string
  qi_status :: queue_status
  retry_count :: int
  last_error :: "string option"
  tenant_id :: string
  qi_created_at :: string
  synced_at :: "string option"
  priority :: sync_priority
  origin_terminal_id :: "string option"

record resolved_item =
  ri_local :: "offline_queue_item option"
  ri_remote :: "offline_queue_item option"
  winner :: offline_queue_item

definition resolved :: "offline_queue_item \<Rightarrow> offline_queue_item \<Rightarrow> offline_queue_item \<Rightarrow> resolved_item" where
  "resolved l r w = \<lparr>ri_local = Some l, ri_remote = Some r, winner = w\<rparr>"

fun position :: "'a \<Rightarrow> 'a list \<Rightarrow> nat option" where
  "position x [] = None"
| "position x (y # ys) = (if y = x then Some 0 else map_option Suc (position x ys))"

definition sale_status_order :: "string list" where
  "sale_status_order = [''active'', ''pending'', ''completed'', ''voided'', ''refunded'']"

definition sale_status_rank :: "string \<Rightarrow> nat" where
  "sale_status_rank s = (case position s sale_status_order of None \<Rightarrow> 0 | Some i \<Rightarrow> i)"

definition resolve_lww :: "offline_queue_item \<Rightarrow> offline_queue_item \<Rightarrow> resolved_item" where
  "resolve_lww l r = resolved l r (if qi_created_at l > qi_created_at r then l else r)"

definition resolve_version_lww ::
    "(string \<Rightarrow> int option) \<Rightarrow> offline_queue_item \<Rightarrow> offline_queue_item \<Rightarrow> resolved_item" where
  "resolve_version_lww extract_version l r =
     resolved l r
       (case (extract_version (qi_payload l), extract_version (qi_payload r)) of
          (Some lv, Some rv) \<Rightarrow> if lv > rv then l else r
        | (Some _, None) \<Rightarrow> l
        | (None, Some _) \<Rightarrow> r
        | (None, None) \<Rightarrow> if qi_created_at l > qi_created_at r then l else r)"

definition resolve_sale_lww ::
    "(string \<Rightarrow> int option) \<Rightarrow> (string \<Rightarrow> string option) \<Rightarrow> offline_queue_item \<Rightarrow> offline_queue_item
       \<Rightarrow> resolved_item" where
  "resolve_sale_lww extract_version extract_status l r =
     (let local_status = (case extract_status (qi_payload l) of None \<Rightarrow> [] | Some s \<Rightarrow> s);
          remote_status = (case extract_status (qi_payload r) of None \<Rightarrow> [] | Some s \<Rightarrow> s);
          local_rank = sale_status_rank local_status;
          remote_rank = sale_status_rank remote_status
      in if local_rank > remote_rank then resolved l r l
         else if remote_rank > local_rank then resolved l r r
         else resolve_version_lww extract_version l r)"

definition resolve_stock_crdt ::
    "(string \<Rightarrow> string \<Rightarrow> string) \<Rightarrow> string \<Rightarrow> offline_queue_item \<Rightarrow> offline_queue_item \<Rightarrow> resolved_item" where
  "resolve_stock_crdt merged_payload fresh l r =
     resolved l r
       \<lparr>qi_id = fresh, qi_action = qi_action l, qi_payload = merged_payload (qi_payload l) (qi_payload r),
        qi_status = qi_status l, retry_count = max (retry_count l) (retry_count r),
        last_error = (case last_error l of None \<Rightarrow> last_error r | Some e \<Rightarrow> Some e),
        tenant_id = tenant_id l, qi_created_at = qi_created_at l, synced_at = None,
        priority = priority l, origin_terminal_id = origin_terminal_id l\<rparr>"

definition resolve_conflict ::
    "(string \<Rightarrow> int option) \<Rightarrow> (string \<Rightarrow> string option) \<Rightarrow> (string \<Rightarrow> string \<Rightarrow> string) \<Rightarrow> string
       \<Rightarrow> offline_queue_item \<Rightarrow> offline_queue_item \<Rightarrow> resolved_item" where
  "resolve_conflict extract_version extract_status merged_payload fresh l r =
     (let action = qi_action l
      in if starts_with action ''sale.'' \<or> action = ''complete_sale'' \<or> action = ''void_sale''
            \<or> action = ''refund_sale''
         then resolve_sale_lww extract_version extract_status l r
         else if starts_with action ''stock.'' then resolve_stock_crdt merged_payload fresh l r
         else if list_ex (starts_with action)
                   [''product.'', ''category.'', ''tax.'', ''user.'', ''staff.'', ''setting.'',
                    ''settings.'', ''preference.'']
         then resolve_version_lww extract_version l r
         else resolve_lww l r)"

subsection \<open>Vectors form a join semilattice\<close>

definition vv_le :: "version_vector \<Rightarrow> version_vector \<Rightarrow> bool" where
  "vv_le v w \<longleftrightarrow> (\<forall>t. vv_get v t \<le> vv_get w t)"

lemma vv_get_absent: "t \<notin> fst ` set v \<Longrightarrow> vv_get v t = 0"
  by (simp add: vv_get_def map_of_eq_None_iff [THEN iffD2])

lemma vv_keys_ex: "list_ex (\<lambda>k. vv_get v k > vv_get w k) (map fst v @ map fst w) \<longleftrightarrow> \<not> vv_le v w"
proof
  assume "\<not> vv_le v w"
  then obtain t where t: "vv_get v t > vv_get w t" by (auto simp: vv_le_def not_le)
  then have "t \<in> fst ` set v" using vv_get_absent [of t v] by force
  then show "list_ex (\<lambda>k. vv_get v k > vv_get w k) (map fst v @ map fst w)"
    using t by (auto simp: list_ex_iff)
qed (auto simp: list_ex_iff vv_le_def not_le)

lemma list_ex_swap: "list_ex P (xs @ ys) = list_ex P (ys @ xs)"
  by (auto simp: list_ex_iff)

lemma vv_compare_le:
  "vv_compare v w = (if vv_le v w then if vv_le w v then Same else Before
                     else if vv_le w v then After else Concurrent)"
proof -
  have "list_ex (\<lambda>k. vv_get v k < vv_get w k) (map fst v @ map fst w) \<longleftrightarrow> \<not> vv_le w v"
    by (subst list_ex_swap) (rule vv_keys_ex)
  then show ?thesis
    unfolding vv_compare_def Let_def vv_keys_ex by (cases "vv_le v w"; cases "vv_le w v") (simp_all del: list_ex_append)
qed

lemma map_of_vv_record:
  "bt_ok v \<Longrightarrow> map_of (vv_record t n v) = (map_of v)(t \<mapsto> max n (vv_get v t))"
  by (simp add: vv_record_def Let_def max_def)

lemma bt_ok_vv_record [simp]: "bt_ok v \<Longrightarrow> bt_ok (vv_record t n v)"
  by (simp add: vv_record_def Let_def)

lemma vv_get_record: "bt_ok v \<Longrightarrow> vv_get (vv_record t n v) s = (if s = t then max n (vv_get v t) else vv_get v s)"
  by (simp add: vv_get_def [of "vv_record t n v"] map_of_vv_record) (simp add: vv_get_def)

lemma bt_ok_vv_observe [simp]: "bt_ok v \<Longrightarrow> bt_ok (vv_observe v w)"
  by (induction v w rule: vv_observe.induct) simp_all

lemma map_of_vv_observe:
  "bt_ok v \<Longrightarrow> bt_ok w \<Longrightarrow> map_of (vv_observe v w) t =
     (case map_of w t of None \<Rightarrow> map_of v t | Some n \<Rightarrow> Some (max n (vv_get v t)))"
proof (induction v w rule: vv_observe.induct)
  case (2 v s n w)
  have none: "map_of w s = None"
    using 2(3) by (force simp: map_of_eq_None_iff)
  show ?case
    using 2 none by (cases "t = s") (auto simp: map_of_vv_record vv_get_record split: option.splits)
qed simp

lemma vv_get_observe: "bt_ok v \<Longrightarrow> bt_ok w \<Longrightarrow> vv_get (vv_observe v w) t = max (vv_get v t) (vv_get w t)"
  by (auto simp: vv_get_def map_of_vv_observe split: option.splits)

interpretation vv: convergent bt_ok vv_observe
proof
  fix a b c :: version_vector
  assume a: "bt_ok a"
  show "vv_observe a a = a"
    using a by (intro bt_ext ext) (auto simp: map_of_vv_observe vv_get_def split: option.splits)
  assume b: "bt_ok b"
  show "bt_ok (vv_observe a b)" using a by simp
  show "vv_observe a b = vv_observe b a"
    using a b by (intro bt_ext ext) (auto simp: map_of_vv_observe vv_get_def max_def split: option.splits)
  assume c: "bt_ok c"
  show "vv_observe (vv_observe a b) c = vv_observe a (vv_observe b c)"
    using a b c by (intro bt_ext ext)
      (auto simp: map_of_vv_observe vv_get_observe vv_get_def max_def split: option.splits)
qed

subsection \<open>What a merge of deltas holds\<close>

lemma collect_first:
  assumes "bt_ok fs"
  shows "bt_ok (fst (collect_deltas ds fs cs))"
    and "map_of (fst (collect_deltas ds fs cs)) k =
      (case map_of fs k of Some d \<Rightarrow> Some d | None \<Rightarrow> List.find (\<lambda>d. movement_id d = k) ds)"
proof -
  have ok: "bt_ok (or_insert i d m)" if "bt_ok m" for i and d :: delta_mutation and m
    using that by (simp add: or_insert_def split: option.splits)
  have get: "map_of (or_insert i d m) k = (case map_of m k of Some x \<Rightarrow> Some x | None \<Rightarrow> if k = i then Some d else None)"
    if "bt_ok m" for i and d :: delta_mutation and m
    using that by (auto simp: or_insert_def split: option.splits)
  show "bt_ok (fst (collect_deltas ds fs cs))"
    using assms by (induction ds fs cs rule: collect_deltas.induct) (simp_all add: ok)
  show "map_of (fst (collect_deltas ds fs cs)) k =
      (case map_of fs k of Some d \<Rightarrow> Some d | None \<Rightarrow> List.find (\<lambda>d. movement_id d = k) ds)"
    using assms
    by (induction ds fs cs rule: collect_deltas.induct) (auto simp: ok get split: option.splits)
qed

lemma collect_counts:
  assumes "bt_ok cs"
  shows "bt_ok (snd (collect_deltas ds fs cs))"
    and "map_of (snd (collect_deltas ds fs cs)) k =
      (let n = (case map_of cs k of None \<Rightarrow> 0 | Some m \<Rightarrow> m) + count_list (map movement_id ds) k
       in if k \<in> fst ` set cs \<union> movement_id ` set ds then Some n else None)"
proof -
  have ok: "bt_ok (count_up i m)" if "bt_ok m" for i :: string and m using that by (simp add: count_up_def)
  show "bt_ok (snd (collect_deltas ds fs cs))"
    using assms by (induction ds fs cs rule: collect_deltas.induct) (simp_all add: ok)
  show "map_of (snd (collect_deltas ds fs cs)) k =
      (let n = (case map_of cs k of None \<Rightarrow> 0 | Some m \<Rightarrow> m) + count_list (map movement_id ds) k
       in if k \<in> fst ` set cs \<union> movement_id ` set ds then Some n else None)"
    using assms
  proof (induction ds fs cs rule: collect_deltas.induct)
    case (1 fs cs)
    then show ?case by (cases "map_of cs k") (auto simp: map_of_eq_None_iff dest: map_of_SomeD intro: rev_image_eqI)
  next
    case (2 d ds fs cs)
    have keys: "fst ` set (count_up i cs) = insert i (fst ` set cs)" for i :: string by (simp add: count_up_def)
    show ?case
      using 2 by (simp add: ok Let_def keys) (auto simp: count_up_def Let_def split: option.splits)
  qed
qed

definition deltas_ok :: "delta_mutation list \<Rightarrow> bool" where
  "deltas_ok ds \<longleftrightarrow> sorted (map delta_key ds) \<and> distinct (map movement_id ds)"

text \<open>Two deltas of the same movement are the same delta.\<close>

definition deltas_agree :: "delta_mutation list \<Rightarrow> bool" where
  "deltas_agree ds \<longleftrightarrow> list_all (\<lambda>d. list_all (\<lambda>e. movement_id d = movement_id e \<longrightarrow> d = e) ds) ds"

lemma collected_rows:
  defines "rows ds \<equiv> fst (collect_deltas ds [] [])"
  shows "(k, d) \<in> set (rows ds) \<longleftrightarrow> List.find (\<lambda>x. movement_id x = k) ds = Some d"
    and "map movement_id (map snd (rows ds)) = map fst (rows ds)"
    and "distinct (map movement_id (map snd (rows ds)))"
proof -
  have ok: "bt_ok (rows ds)" by (simp add: rows_def collect_first)
  show mem: "(k, d) \<in> set (rows ds) \<longleftrightarrow> List.find (\<lambda>x. movement_id x = k) ds = Some d" for k d
    using map_of_eq_Some_iff [OF bt_distinct [OF ok], of k d] by (simp add: rows_def collect_first)
  show m: "map movement_id (map snd (rows ds)) = map fst (rows ds)"
    using mem by (auto simp: find_Some_iff)
  show "distinct (map movement_id (map snd (rows ds)))"
    unfolding m by (rule bt_distinct [OF ok])
qed

lemma applied_eq: "applied (merge_deltas l r) = sort_key delta_key (map snd (fst (collect_deltas (l @ r) [] [])))"
  by (simp add: merge_deltas_def Let_def split: prod.splits)

lemma merge_deltas_ok: "deltas_ok (applied (merge_deltas l r))"
proof -
  let ?ds = "map snd (fst (collect_deltas (l @ r) [] []))"
  have "distinct (map movement_id (sort_key delta_key ?ds)) \<longleftrightarrow> distinct (map movement_id ?ds)"
    by (rule mset_eq_imp_distinct_iff) (simp only: mset_map mset_sort)
  then show ?thesis using collected_rows(3) [of "l @ r"] by (simp add: deltas_ok_def applied_eq)
qed

lemma merge_deltas_set:
  assumes "deltas_agree (l @ r)"
  shows "set (applied (merge_deltas l r)) = set l \<union> set r"
proof -
  have "d \<in> snd ` set (fst (collect_deltas (l @ r) [] [])) \<longleftrightarrow> d \<in> set (l @ r)" for d
  proof
    assume "d \<in> snd ` set (fst (collect_deltas (l @ r) [] []))"
    then obtain k where "List.find (\<lambda>x. movement_id x = k) (l @ r) = Some d"
      using collected_rows(1) by fastforce
    then show "d \<in> set (l @ r)" by (metis find_Some_iff nth_mem)
  next
    assume d: "d \<in> set (l @ r)"
    then obtain e where e: "List.find (\<lambda>x. movement_id x = movement_id d) (l @ r) = Some e"
      by (cases "List.find (\<lambda>x. movement_id x = movement_id d) (l @ r)") (auto simp: find_None_iff)
    then obtain i where "i < length (l @ r)" "movement_id ((l @ r) ! i) = movement_id d" "e = (l @ r) ! i"
      by (auto simp only: find_Some_iff)
    then have "e \<in> set (l @ r)" "movement_id e = movement_id d" using nth_mem by blast+
    then have "e = d" using assms d unfolding deltas_agree_def list_all_iff by blast
    then have "(movement_id d, d) \<in> set (fst (collect_deltas (l @ r) [] []))"
      using e by (simp add: collected_rows(1))
    then show "d \<in> snd ` set (fst (collect_deltas (l @ r) [] []))" by force
  qed
  then show ?thesis by (simp add: applied_eq set_eq_iff)
qed

lemma deltas_unique:
  assumes "deltas_ok xs" and "deltas_ok ys" and "set xs = set ys"
  shows "xs = ys"
proof -
  have inj: "inj_on delta_key (set xs)"
    using assms(1) by (auto simp: deltas_ok_def distinct_map delta_key_def inj_on_def)
  have dk: "distinct (map delta_key zs)" if "deltas_ok zs" for zs
    using that by (auto simp: deltas_ok_def distinct_map delta_key_def inj_on_def)
  have "map delta_key xs = map delta_key ys"
    using assms dk by (intro sorted_distinct_set_unique) (auto simp: deltas_ok_def)
  then show ?thesis using map_inj_on [of delta_key xs ys] inj assms(3) by simp
qed

interpretation delta: convergent
    "\<lambda>ds. deltas_ok ds \<and> list_all (\<lambda>d. u (movement_id d) = d) ds" "\<lambda>l r. applied (merge_deltas l r)" for u
proof -
  have agree: "deltas_agree (l @ r)"
    if "list_all (\<lambda>d. u (movement_id d) = d) l" "list_all (\<lambda>d. u (movement_id d) = d) r" for l r
    using that by (auto simp: deltas_agree_def list_all_iff) metis+
  note set = merge_deltas_set [OF agree]
  have all: "list_all (\<lambda>d. u (movement_id d) = d) (applied (merge_deltas l r))"
    if "list_all (\<lambda>d. u (movement_id d) = d) l" "list_all (\<lambda>d. u (movement_id d) = d) r" for l r
    using set [OF that] that by (auto simp: list_all_iff)
  show "convergent (\<lambda>ds. deltas_ok ds \<and> list_all (\<lambda>d. u (movement_id d) = d) ds) (\<lambda>l r. applied (merge_deltas l r))"
    by unfold_locales (auto simp: merge_deltas_ok all set intro!: deltas_unique)
qed

lemma saturating_sum:
  "\<bar>acc\<bar> + sum_list (map (\<lambda>d. \<bar>d_quantity d\<bar>) ds) \<le> i64_max \<Longrightarrow>
     foldl (\<lambda>acc d. saturating_add_i64 acc (d_quantity d)) acc ds = acc + sum_list (map d_quantity ds)"
proof (induction ds arbitrary: acc)
  case (Cons d ds)
  have "0 \<le> sum_list (map (\<lambda>d. \<bar>d_quantity d\<bar>) ds)" by (rule sum_list_nonneg) auto
  then have "saturating_add_i64 acc (d_quantity d) = acc + d_quantity d"
    using Cons.prems by (simp add: saturating_add_i64_def)
  moreover have "\<bar>acc + d_quantity d\<bar> + sum_list (map (\<lambda>d. \<bar>d_quantity d\<bar>) ds) \<le> i64_max"
    using Cons.prems by simp
  ultimately show ?case using Cons.IH [of "acc + d_quantity d"] by simp
qed simp

lemma deltas_distinct: "deltas_ok ds \<Longrightarrow> distinct ds"
  by (auto simp: deltas_ok_def distinct_map)

subsection \<open>Which side of a sale conflict wins\<close>

lemma sale_status_ranks:
  "sale_status_rank (as_stored_str s) = (case s of Active \<Rightarrow> 0 | Pending \<Rightarrow> 1 | Completed \<Rightarrow> 2 | Voided \<Rightarrow> 3)"
  by (cases s) (simp_all add: sale_status_rank_def sale_status_order_def)

lemma resolved_winner [simp]: "winner (resolved l r w) = w"
  by (simp add: resolved_def)

lemma version_winner: "winner (resolve_version_lww ev l r) \<in> {l, r}"
  by (simp add: resolve_version_lww_def split: option.splits)

lemma sale_winner:
  assumes "es (qi_payload l) = Some a" and "es (qi_payload r) = Some b"
  shows "winner (resolve_sale_lww ev es l r) \<in> {l, r}"
    and "sale_status_rank b < sale_status_rank a \<Longrightarrow> winner (resolve_sale_lww ev es l r) = l"
    and "sale_status_rank a < sale_status_rank b \<Longrightarrow> winner (resolve_sale_lww ev es l r) = r"
  using assms version_winner [of ev l r] by (auto simp: resolve_sale_lww_def Let_def)

lemma rank_stage:
  "sale_status_rank (as_stored_str t) < sale_status_rank (as_stored_str s)
     \<Longrightarrow> (stage s = max (stage s) (stage t) \<longleftrightarrow> {s, t} \<noteq> {Pending, Active})"
  unfolding sale_status_ranks by (cases s; cases t) (simp_all add: doubleton_eq_iff)

lemma rank_inj: "sale_status_rank (as_stored_str s) = sale_status_rank (as_stored_str t) \<Longrightarrow> s = t"
  unfolding sale_status_ranks by (cases s; cases t) simp_all

subsection \<open>Properties\<close>

text \<open>
  Comparing two version vectors decides exactly the pointwise order of the counters of all
  terminals, a terminal never seen counting as 0: equal, ordered either way, or concurrent.
\<close>

theorem vector_comparison_exact:
  "(vv_compare v w = Same \<longleftrightarrow> (\<forall>t. vv_get v t = vv_get w t))
   \<and> (vv_compare v w = Before \<longleftrightarrow> (\<forall>t. vv_get v t \<le> vv_get w t) \<and> (\<exists>t. vv_get v t < vv_get w t))
   \<and> (vv_compare v w = After \<longleftrightarrow> (\<forall>t. vv_get w t \<le> vv_get v t) \<and> (\<exists>t. vv_get w t < vv_get v t))
   \<and> (vv_compare v w = Concurrent \<longleftrightarrow> (\<exists>t. vv_get v t < vv_get w t) \<and> (\<exists>t. vv_get w t < vv_get v t))"
  by (simp add: vv_compare_le vv_le_def) (metis le_antisym not_le order_refl)

text \<open>
  Replicas converge: a replica that merges the same vectors in another order, or some of them
  again, ends with the same map, and every terminal's counter is the greatest it has seen.
\<close>

theorem vectors_converge:
  assumes "bt_ok v" and "list_all bt_ok xs" and "set xs = set ys"
  shows "foldl vv_observe v xs = foldl vv_observe v ys
    \<and> vv_get (foldl vv_observe v xs) t = Max (insert (vv_get v t) ((\<lambda>x. vv_get x t) ` set xs))"
proof -
  have "vv_get (foldl vv_observe v xs) t = Max (insert (vv_get v t) ((\<lambda>x. vv_get x t) ` set xs))"
    using assms(1,2)
  proof (induction xs arbitrary: v)
    case (Cons x xs)
    then have "vv_get (foldl vv_observe (vv_observe v x) xs) t
        = Max (insert (vv_get (vv_observe v x) t) ((\<lambda>x. vv_get x t) ` set xs))" by simp
    also have "\<dots> = Max (insert (vv_get v t) (insert (vv_get x t) ((\<lambda>x. vv_get x t) ` set xs)))"
      using Cons.prems by (cases "xs = []") (simp_all add: vv_get_observe max.assoc)
    finally show ?case by simp
  qed simp
  then show ?thesis using vv.deliver_set [OF assms] by blast
qed

theorem vectors_converge_witness:
  "foldl vv_observe [(''A'', 1)] [[(''A'', 3), (''B'', 2)], [(''C'', 5)]]
     = foldl vv_observe [(''A'', 1)] [[(''C'', 5)], [(''A'', 3), (''B'', 2)], [(''C'', 5)]]
   \<and> vv_get (foldl vv_observe [(''A'', 1)] [[(''A'', 3), (''B'', 2)], [(''C'', 5)]]) ''A'' = 3"
  using vectors_converge [of "[(''A'', 1)]" "[[(''A'', 3), (''B'', 2)], [(''C'', 5)]]"
    "[[(''C'', 5)], [(''A'', 3), (''B'', 2)], [(''C'', 5)]]" "''A''"]
  by (auto simp: bt_ok_def vv_get_def)

text \<open>
  C28. When deltas with the same movement id are the same delta, a merge applies every movement of
  either side exactly once and in clock order; the result depends only on the set of deltas, so
  redelivery and arrival order change nothing, merging the result with either side again is that
  result, and the total is the exact sum unless the magnitudes leave \<open>i64\<close>.
\<close>

theorem deltas_applied_once:
  assumes "deltas_agree (l @ r)" and "set (l @ r) = set (l' @ r')"
  shows "(let m = merge_deltas l r in
      set (applied m) = set l \<union> set r \<and> distinct (map movement_id (applied m))
      \<and> sorted (map delta_key (applied m))
      \<and> applied (merge_deltas l' r') = applied m \<and> total_quantity (merge_deltas l' r') = total_quantity m
      \<and> applied (merge_deltas (applied m) r) = applied m
      \<and> ((\<Sum>d \<in> set (l @ r). \<bar>d_quantity d\<bar>) \<le> i64_max \<longrightarrow> total_quantity m = (\<Sum>d \<in> set (l @ r). d_quantity d)))"
proof -
  let ?m = "merge_deltas l r"
  have tot: "total_quantity (merge_deltas a b)
      = foldl (\<lambda>acc d. saturating_add_i64 acc (d_quantity d)) 0 (applied (merge_deltas a b))" for a b
    by (simp add: merge_deltas_def Let_def split: prod.splits)
  have agree: "deltas_agree (l' @ r')"
    using assms unfolding deltas_agree_def list_all_iff by blast
  have set: "set (applied ?m) = set l \<union> set r" by (rule merge_deltas_set [OF assms(1)])
  have "set (applied (merge_deltas l' r')) = set (applied ?m)"
    using merge_deltas_set [OF agree] set assms(2) by simp
  then have same: "applied (merge_deltas l' r') = applied ?m" by (intro deltas_unique merge_deltas_ok)
  have agree2: "deltas_agree (applied ?m @ r)"
    using assms(1) set unfolding deltas_agree_def list_all_iff by auto
  have again: "applied (merge_deltas (applied ?m) r) = applied ?m"
    using merge_deltas_set [OF agree2] set by (intro deltas_unique merge_deltas_ok) auto
  have "total_quantity ?m = (\<Sum>d \<in> set (l @ r). d_quantity d)"
    if "(\<Sum>d \<in> set (l @ r). \<bar>d_quantity d\<bar>) \<le> i64_max"
    using that saturating_sum [of 0 "applied ?m"] deltas_distinct [OF merge_deltas_ok, of l r] set tot [of l r]
    by (simp add: sum_list_distinct_conv_sum_set)
  then show ?thesis
    using merge_deltas_ok [of l r] set same again tot by (simp add: Let_def deltas_ok_def)
qed

theorem deltas_applied_once_witness:
  "(let d = (\<lambda>i n q. \<lparr>movement_id = i, d_sku = ''A'', d_quantity = q, d_terminal_id = ''T'',
               d_clock = \<lparr>lc_counter = n, lc_terminal_id = ''T''\<rparr>\<rparr>)
    in total_quantity (merge_deltas [d ''m2'' 2 (- 3), d ''m1'' 1 10] [d ''m1'' 1 10]) = 7
       \<and> applied (merge_deltas [d ''m1'' 1 10] [d ''m2'' 2 (- 3)])
         = applied (merge_deltas [d ''m2'' 2 (- 3), d ''m1'' 1 10] [d ''m1'' 1 10]))"
proof -
  let ?d = "\<lambda>i n q. \<lparr>movement_id = i, d_sku = ''A'', d_quantity = q, d_terminal_id = ''T'',
    d_clock = \<lparr>lc_counter = n, lc_terminal_id = ''T''\<rparr>\<rparr>"
  have "deltas_agree ([?d ''m2'' 2 (- 3), ?d ''m1'' 1 10] @ [?d ''m1'' 1 10])"
    by (simp add: deltas_agree_def)
  from deltas_applied_once [OF this, of "[?d ''m1'' 1 10]" "[?d ''m2'' 2 (- 3)]"]
  show ?thesis by (auto simp: Let_def)
qed

text \<open>
  A conflict between two versions of a sale keeps one of them, and the one that is further in
  the sale's life cycle, except when one is pending and the other active: the rank table puts
  \<open>active\<close> before \<open>pending\<close>, so there the sale goes back to \<open>pending\<close>.
\<close>

theorem sale_conflict_stage:
  assumes "es (qi_payload l) = Some (as_stored_str s)" and "es (qi_payload r) = Some (as_stored_str t)"
  shows "(let w = winner (resolve_sale_lww ev es l r) in
      w \<in> {l, r} \<and> (\<exists>u. es (qi_payload w) = Some (as_stored_str u)
        \<and> (stage u = max (stage s) (stage t) \<longleftrightarrow> {s, t} \<noteq> {Pending, Active})))"
proof -
  let ?w = "winner (resolve_sale_lww ev es l r)"
  note w = sale_winner [where ev = ev and es = es, OF assms]
  consider "sale_status_rank (as_stored_str s) > sale_status_rank (as_stored_str t)"
    | "sale_status_rank (as_stored_str s) < sale_status_rank (as_stored_str t)"
    | "sale_status_rank (as_stored_str s) = sale_status_rank (as_stored_str t)"
    by linarith
  then have "\<exists>u. es (qi_payload ?w) = Some (as_stored_str u)
      \<and> (stage u = max (stage s) (stage t) \<longleftrightarrow> {s, t} \<noteq> {Pending, Active})"
  proof cases
    case 1
    then show ?thesis using w(2) assms(1) rank_stage [of t s] by (intro exI [of _ s]) simp
  next
    case 2
    then show ?thesis using w(3) assms(2) rank_stage [of s t]
      by (intro exI [of _ t]) (simp add: insert_commute max.commute)
  next
    case 3
    then have "s = t" by (rule rank_inj)
    then show ?thesis using w(1) assms by (intro exI [of _ s]) (auto simp: doubleton_eq_iff)
  qed
  then show ?thesis using w(1) by (simp add: Let_def)
qed

theorem sale_conflict_stage_witness:
  "(let item = (\<lambda>p. \<lparr>qi_id = p, qi_action = ''sale.updated'', qi_payload = p, qi_status = QPending,
        retry_count = 0, last_error = None, tenant_id = ''default'', qi_created_at = ''t'',
        synced_at = None, priority = Critical, origin_terminal_id = None\<rparr>)
    in winner (resolve_sale_lww (\<lambda>_. None) Some (item ''active'') (item ''pending'')) = item ''pending''
       \<and> winner (resolve_sale_lww (\<lambda>_. None) Some (item ''completed'') (item ''pending'')) = item ''completed'')"
proof -
  let ?item = "\<lambda>p. \<lparr>qi_id = p, qi_action = ''sale.updated'', qi_payload = p, qi_status = QPending,
    retry_count = 0, last_error = None, tenant_id = ''default'', qi_created_at = ''t'',
    synced_at = None, priority = Critical, origin_terminal_id = None\<rparr>"
  let ?w = "\<lambda>a b. winner (resolve_sale_lww (\<lambda>_. None) Some (?item a) (?item b))"
  have "?w ''active'' ''pending'' = ?item ''pending''"
  proof -
    obtain u where "?w ''active'' ''pending'' \<in> {?item ''active'', ?item ''pending''}"
      "qi_payload (?w ''active'' ''pending'') = as_stored_str u" "stage u \<noteq> 1"
      using sale_conflict_stage [of Some "?item ''active''" Active "?item ''pending''" Pending "\<lambda>_. None"]
      by (auto simp: Let_def)
    then show ?thesis by (cases u) auto
  qed
  moreover have "?w ''completed'' ''pending'' = ?item ''completed''"
  proof -
    obtain u where "?w ''completed'' ''pending'' \<in> {?item ''completed'', ?item ''pending''}"
      "qi_payload (?w ''completed'' ''pending'') = as_stored_str u" "stage u = 2"
      using sale_conflict_stage [of Some "?item ''completed''" Completed "?item ''pending''" Pending "\<lambda>_. None"]
      by (auto simp: Let_def doubleton_eq_iff)
    then show ?thesis by (cases u) auto
  qed
  ultimately show ?thesis by (simp add: Let_def)
qed

end
