(* ===== verification/Module_Kernel.thy ===== *)
theory Module_Kernel
  imports Prelude "HOL-Library.While_Combinator"
begin

section \<open>The module kernel and its event bus\<close>

text \<open>
  \<open>platform/kernel\<close>: \<open>event_bus.rs\<close> and \<open>kernel/lifecycle.rs\<close>. Modules and services are trait
  objects; what the kernel calls of them is the record \<open>hooks\<close>, functions on an arbitrary \<open>world\<close>
  that holds whatever modules, services and handlers change. A \<open>HashMap\<close> visits its keys in an
  unspecified order: the orders of the three loops of \<open>resolve_dependencies\<close> are fields of \<open>hooks\<close>
  too, and the theorems ask only that each visits every key once. The bus keeps, per topic, the
  entries in registration order. Manifest parsing is not modelled, nor the fallback order of a
  shutdown without a dependency order, which is that of a \<open>HashMap\<close> as well.
\<close>

subsection \<open>Event bus\<close>

record 'h subscriber_entry =
  se_module :: string
  se_handler :: 'h

type_synonym 'h event_bus = "(string \<times> 'h subscriber_entry list) list"

definition bus_entries :: "'h event_bus \<Rightarrow> string \<Rightarrow> 'h subscriber_entry list" where
  "bus_entries b topic = (case map_of b topic of None \<Rightarrow> [] | Some es \<Rightarrow> es)"

definition subscribe_for_module :: "string \<Rightarrow> string \<Rightarrow> 'h \<Rightarrow> 'h event_bus \<Rightarrow> 'h event_bus" where
  "subscribe_for_module m topic h b =
     tab_update topic (bus_entries b topic @ [\<lparr>se_module = m, se_handler = h\<rparr>]) b"

definition subscribe :: "string \<Rightarrow> 'h \<Rightarrow> 'h event_bus \<Rightarrow> 'h event_bus" where
  "subscribe topic h b =
     tab_update topic (bus_entries b topic @ [\<lparr>se_module = [], se_handler = h\<rparr>]) b"

text \<open>\<open>retain\<close> over the topics: drop the module's entries, then the topics left empty.\<close>

fun unsubscribe_module :: "string \<Rightarrow> 'h event_bus \<Rightarrow> nat \<times> 'h event_bus" where
  "unsubscribe_module m [] = (0, [])"
| "unsubscribe_module m ((topic, es) # b) =
     (let kept = filter (\<lambda>e. se_module e \<noteq> m) es;
          removed = length es - length kept;
          (n, b') = unsubscribe_module m b
      in (removed + n, if kept \<noteq> [] then (topic, kept) # b' else b'))"

text \<open>
  Dispatch: the entries are copied before the first call, so handlers may change the bus. A handler
  that fails or panics is logged and the loop goes on; the result is always \<open>Ok\<close>.
\<close>

datatype handler_result = HandlerOk | HandlerErr string | HandlerPanic string

fun dispatch ::
    "('h \<Rightarrow> 'e \<Rightarrow> 'h event_bus \<times> 'w \<Rightarrow> handler_result \<times> 'h event_bus \<times> 'w) \<Rightarrow> 'e
       \<Rightarrow> 'h subscriber_entry list \<Rightarrow> 'h event_bus \<times> 'w \<Rightarrow> 'h event_bus \<times> 'w" where
  "dispatch call e [] s = s"
| "dispatch call e (x # xs) s = dispatch call e xs (snd (call (se_handler x) e s))"

definition publish ::
    "('h \<Rightarrow> 'e \<Rightarrow> 'h event_bus \<times> 'w \<Rightarrow> handler_result \<times> 'h event_bus \<times> 'w) \<Rightarrow> string \<Rightarrow> 'e
       \<Rightarrow> 'h event_bus \<times> 'w \<Rightarrow> 'h event_bus \<times> 'w" where
  "publish call topic e s =
     (case map_of (fst s) topic of None \<Rightarrow> s | Some entries \<Rightarrow> dispatch call e entries s)"

definition topic_count :: "'h event_bus \<Rightarrow> nat" where
  "topic_count b = length b"

definition handler_count :: "'h event_bus \<Rightarrow> nat" where
  "handler_count b = sum_list (map (length \<circ> snd) b)"

definition handler_count_for_module :: "string \<Rightarrow> 'h event_bus \<Rightarrow> nat" where
  "handler_count_for_module m b = length (filter (\<lambda>e. se_module e = m) (concat (map snd b)))"

definition has_handlers :: "string \<Rightarrow> 'h event_bus \<Rightarrow> bool" where
  "has_handlers topic b \<longleftrightarrow> (case map_of b topic of None \<Rightarrow> False | Some es \<Rightarrow> es \<noteq> [])"

subsection \<open>Kernel state\<close>

datatype module_status = Registered | Loaded | Started | Stopped

datatype kernel_error =
    DuplicateModule string
  | MissingDependency string string
  | CircularDependency "string list"
  | LifecycleError string string string
  | ServiceError string string string
  | NoModulesRegistered
  | InternalError string

text \<open>
  Hooks of modules are called by module id, those of services by their position; \<open>None\<close> is success
  and \<open>Some e\<close> the error.
\<close>

record 'w hooks =
  deps_of :: "string \<Rightarrow> string list"
  on_load :: "string \<Rightarrow> 'w \<Rightarrow> string option \<times> 'w"
  on_start :: "string \<Rightarrow> 'w \<Rightarrow> string option \<times> 'w"
  on_stop :: "string \<Rightarrow> 'w \<Rightarrow> string option \<times> 'w"
  svc_start :: "nat \<Rightarrow> 'w \<Rightarrow> string option \<times> 'w"
  svc_stop :: "nat \<Rightarrow> 'w \<Rightarrow> string option \<times> 'w"
  visit_modules :: "string list \<Rightarrow> string list"
  visit_ids :: "string list \<Rightarrow> string list"
  visit_graph :: "string list \<Rightarrow> string list"

record ('h, 'w) kernel =
  modules :: "string list"
  services :: "string list"
  statuses :: "string \<Rightarrow> module_status option"
  loaded :: bool
  started :: bool
  started_service_ids :: "string list"
  bus :: "'h event_bus"
  world :: 'w

definition kernel_new :: "'w \<Rightarrow> ('h, 'w) kernel" where
  "kernel_new w = \<lparr>modules = [], services = [], statuses = Map.empty, loaded = False, started = False,
     started_service_ids = [], bus = [], world = w\<rparr>"

definition register :: "string \<Rightarrow> ('h, 'w) kernel \<Rightarrow> kernel_error option \<times> ('h, 'w) kernel" where
  "register i k =
     (if i \<in> set (modules k) then (Some (DuplicateModule i), k)
      else (None, k\<lparr>modules := modules k @ [i], statuses := (statuses k)(i \<mapsto> Registered)\<rparr>))"

definition register_service :: "string \<Rightarrow> ('h, 'w) kernel \<Rightarrow> ('h, 'w) kernel" where
  "register_service i k = k\<lparr>services := services k @ [i]\<rparr>"

definition is_registered :: "string \<Rightarrow> ('h, 'w) kernel \<Rightarrow> bool" where
  "is_registered i k \<longleftrightarrow> i \<in> set (modules k)"

definition current_status :: "string \<Rightarrow> ('h, 'w) kernel \<Rightarrow> module_status" where
  "current_status i k = (case statuses k i of None \<Rightarrow> Registered | Some s \<Rightarrow> s)"

subsection \<open>Dependency order\<close>

fun find_missing :: "'w hooks \<Rightarrow> string list \<Rightarrow> string list \<Rightarrow> kernel_error option" where
  "find_missing h ids [] = None"
| "find_missing h ids (i # is) =
     (case List.find (\<lambda>d. d \<notin> set ids) (deps_of h i) of
        Some d \<Rightarrow> Some (MissingDependency i d)
      | None \<Rightarrow> find_missing h ids is)"

text \<open>The queue, the sorted prefix and the in-degrees of Kahn's algorithm.\<close>

type_synonym kahn = "string list \<times> string list \<times> (string \<Rightarrow> nat)"

text \<open>The inner loop: one visit of the graph for the module that was popped.\<close>

fun relax :: "'w hooks \<Rightarrow> string \<Rightarrow> string list \<Rightarrow> string list \<Rightarrow> (string \<Rightarrow> nat) \<Rightarrow> string list \<times> (string \<Rightarrow> nat)" where
  "relax h i [] queue deg = (queue, deg)"
| "relax h i (c # cs) queue deg =
     (if i \<in> set (deps_of h c)
      then (let d = deg c - 1
            in relax h i cs (if d = 0 then queue @ [c] else queue) (deg(c := d)))
      else relax h i cs queue deg)"

definition kahn_step :: "'w hooks \<Rightarrow> string list \<Rightarrow> kahn \<Rightarrow> kahn" where
  "kahn_step h ids s =
     (case s of
        (i # queue, done, deg) \<Rightarrow>
          (case relax h i (visit_graph h ids) queue deg of
             (queue', deg') \<Rightarrow> (queue', done @ [i], deg'))
      | ([], done, deg) \<Rightarrow> s)"

definition kahn_start :: "'w hooks \<Rightarrow> string list \<Rightarrow> kahn" where
  "kahn_start h ids =
     (filter (\<lambda>i. length (deps_of h i) = 0) (visit_ids h ids), [], \<lambda>i. length (deps_of h i))"

definition kahn_sort :: "'w hooks \<Rightarrow> string list \<Rightarrow> string list" where
  "kahn_sort h ids =
     fst (snd (while (\<lambda>s. fst s \<noteq> []) (kahn_step h ids) (kahn_start h ids)))"

text \<open>The same loop as an option, \<open>None\<close> if it never ends.\<close>

definition kahn_run :: "'w hooks \<Rightarrow> string list \<Rightarrow> kahn option" where
  "kahn_run h ids = while_option (\<lambda>s. fst s \<noteq> []) (kahn_step h ids) (kahn_start h ids)"

definition resolve_dependencies :: "'w hooks \<Rightarrow> ('h, 'w) kernel \<Rightarrow> kernel_error + string list" where
  "resolve_dependencies h k =
     (let ids = modules k
      in if ids = [] then Inr []
         else (case find_missing h ids (visit_modules h ids) of
             Some e \<Rightarrow> Inl e
           | None \<Rightarrow>
               (let sorted = kahn_sort h ids
                in if length sorted < length ids
                   then Inl (CircularDependency (filter (\<lambda>i. i \<notin> set sorted) (visit_ids h ids)))
                   else Inr sorted)))"

subsection \<open>Lifecycle\<close>

definition set_status :: "string \<Rightarrow> module_status \<Rightarrow> ('h, 'w) kernel \<Rightarrow> ('h, 'w) kernel" where
  "set_status i s k = k\<lparr>statuses := (statuses k)(i \<mapsto> s)\<rparr>"

definition not_found :: string where "not_found = ''module not found''"
definition bad_state :: string where "bad_state = ''expected Loaded or Stopped''"

fun load_loop :: "'w hooks \<Rightarrow> string list \<Rightarrow> ('h, 'w) kernel \<Rightarrow> kernel_error option \<times> ('h, 'w) kernel" where
  "load_loop h [] k = (None, k)"
| "load_loop h (i # is) k =
     (if current_status i k = Loaded then load_loop h is k
      else if i \<notin> set (modules k) then (Some (InternalError not_found), k)
      else (case on_load h i (world k) of
          (Some e, w) \<Rightarrow> (Some (LifecycleError i ''load'' e), k\<lparr>world := w\<rparr>)
        | (None, w) \<Rightarrow> load_loop h is (set_status i Loaded (k\<lparr>world := w\<rparr>))))"

definition load_all :: "'w hooks \<Rightarrow> ('h, 'w) kernel \<Rightarrow> kernel_error option \<times> ('h, 'w) kernel" where
  "load_all h k =
     (if modules k = [] then (Some NoModulesRegistered, k)
      else (case resolve_dependencies h k of
          Inl e \<Rightarrow> (Some e, k)
        | Inr order \<Rightarrow>
            (case load_loop h order k of
               (Some e, k') \<Rightarrow> (Some e, k')
             | (None, k') \<Rightarrow> (None, k'\<lparr>loaded := True\<rparr>))))"

definition start_one :: "'w hooks \<Rightarrow> string \<Rightarrow> ('h, 'w) kernel \<Rightarrow> kernel_error option \<times> ('h, 'w) kernel" where
  "start_one h i k =
     (case on_start h i (world k) of
        (Some e, w) \<Rightarrow> (Some (LifecycleError i ''start'' e), k\<lparr>world := w\<rparr>)
      | (None, w) \<Rightarrow> (None, set_status i Started (k\<lparr>world := w\<rparr>)))"

fun start_loop :: "'w hooks \<Rightarrow> string list \<Rightarrow> ('h, 'w) kernel \<Rightarrow> kernel_error option \<times> ('h, 'w) kernel" where
  "start_loop h [] k = (None, k)"
| "start_loop h (i # is) k =
     (if i \<notin> set (modules k) then (Some (InternalError not_found), k)
      else if current_status i k \<noteq> Loaded \<and> current_status i k \<noteq> Stopped
      then (Some (InternalError bad_state), k)
      else (case start_one h i k of
          (Some e, k') \<Rightarrow> (Some e, k')
        | (None, k') \<Rightarrow> start_loop h is k'))"

text \<open>The services from position \<open>n\<close> on.\<close>

fun service_loop :: "'w hooks \<Rightarrow> nat \<Rightarrow> string list \<Rightarrow> ('h, 'w) kernel \<Rightarrow> kernel_error option \<times> ('h, 'w) kernel" where
  "service_loop h n [] k = (None, k)"
| "service_loop h n (s # ss) k =
     (case svc_start h n (world k) of
        (Some e, w) \<Rightarrow> (Some (ServiceError s ''start'' e), k\<lparr>world := w\<rparr>)
      | (None, w) \<Rightarrow>
          service_loop h (Suc n) ss (k\<lparr>world := w, started_service_ids := started_service_ids k @ [s]\<rparr>))"

definition start_services :: "'w hooks \<Rightarrow> ('h, 'w) kernel \<Rightarrow> kernel_error option \<times> ('h, 'w) kernel" where
  "start_services h k = service_loop h 0 (services k) (k\<lparr>started_service_ids := []\<rparr>)"

definition start_all :: "'w hooks \<Rightarrow> ('h, 'w) kernel \<Rightarrow> kernel_error option \<times> ('h, 'w) kernel" where
  "start_all h k =
     (case (if loaded k then (None, k) else load_all h k) of
        (Some e, k1) \<Rightarrow> (Some e, k1)
      | (None, k1) \<Rightarrow>
          (case resolve_dependencies h k1 of
             Inl e \<Rightarrow> (Some e, k1)
           | Inr order \<Rightarrow>
               (case start_loop h order k1 of
                  (Some e, k2) \<Rightarrow> (Some e, k2)
                | (None, k2) \<Rightarrow>
                    (case start_services h k2 of
                       (Some e, k3) \<Rightarrow> (Some e, k3)
                     | (None, k3) \<Rightarrow> (None, k3\<lparr>started := True\<rparr>)))))"

text \<open>\<open>first_error.get_or_insert\<close>.\<close>

definition first_of :: "'e option \<Rightarrow> 'e option \<Rightarrow> 'e option" where
  "first_of a b = (case a of Some e \<Rightarrow> Some e | None \<Rightarrow> b)"

text \<open>Stopping the services, the last one first; \<open>n\<close> is the number of services left.\<close>

fun stop_services ::
    "'w hooks \<Rightarrow> string list \<Rightarrow> nat \<Rightarrow> kernel_error option \<times> ('h, 'w) kernel
       \<Rightarrow> kernel_error option \<times> ('h, 'w) kernel" where
  "stop_services h ids 0 r = r"
| "stop_services h ids (Suc n) (err, k) =
     (let s = services k ! n
      in if s \<notin> set ids then stop_services h ids n (err, k)
         else (case svc_stop h n (world k) of
             (e, w) \<Rightarrow> stop_services h ids n
               (first_of err (map_option (ServiceError s ''stop'') e), k\<lparr>world := w\<rparr>)))"

fun stop_loop ::
    "'w hooks \<Rightarrow> string list \<Rightarrow> kernel_error option \<times> ('h, 'w) kernel
       \<Rightarrow> kernel_error option \<times> ('h, 'w) kernel" where
  "stop_loop h [] r = r"
| "stop_loop h (i # is) (err, k) =
     (case (if i \<in> set (modules k) then on_stop h i (world k) else (None, world k)) of
        (e, w) \<Rightarrow> stop_loop h is
          (first_of err (map_option (LifecycleError i ''stop'') e),
           k\<lparr>world := w, bus := snd (unsubscribe_module i (bus k))\<rparr>))"

definition stop_status :: "module_status \<Rightarrow> module_status" where
  "stop_status s = (if s = Started \<or> s = Loaded then Stopped else s)"

definition stop_all :: "'w hooks \<Rightarrow> ('h, 'w) kernel \<Rightarrow> kernel_error option \<times> ('h, 'w) kernel" where
  "stop_all h k =
     (case stop_services h (started_service_ids k) (length (services k)) (None, k) of
        (err, k1) \<Rightarrow>
          (case (case resolve_dependencies h k1 of
                   Inr order \<Rightarrow> stop_loop h (rev order) (err, k1)
                 | Inl e \<Rightarrow> stop_loop h (visit_modules h (modules k1)) (first_of err (Some e), k1)) of
             (err', k2) \<Rightarrow>
               (err', k2\<lparr>statuses := map_option stop_status \<circ> statuses k2, started := False,
                         loaded := False, started_service_ids := []\<rparr>)))"

definition start_module :: "'w hooks \<Rightarrow> string \<Rightarrow> ('h, 'w) kernel \<Rightarrow> kernel_error option \<times> ('h, 'w) kernel" where
  "start_module h i k =
     (if i \<notin> set (modules k) then (Some (InternalError not_found), k)
      else if current_status i k \<noteq> Loaded \<and> current_status i k \<noteq> Stopped
      then (Some (InternalError bad_state), k)
      else if current_status i k = Stopped then
        (case on_load h i (world k) of
           (Some e, w) \<Rightarrow> (Some (LifecycleError i ''load'' e), k\<lparr>world := w\<rparr>)
         | (None, w) \<Rightarrow> start_one h i (k\<lparr>world := w\<rparr>))
      else start_one h i k)"

definition stop_module :: "'w hooks \<Rightarrow> string \<Rightarrow> ('h, 'w) kernel \<Rightarrow> kernel_error option \<times> ('h, 'w) kernel" where
  "stop_module h i k =
     (if i \<notin> set (modules k) then (Some (InternalError not_found), k)
      else if current_status i k \<noteq> Started then (Some (InternalError bad_state), k)
      else (case on_stop h i (world k) of
          (Some e, w) \<Rightarrow> (Some (LifecycleError i ''stop'' e), k\<lparr>world := w\<rparr>)
        | (None, w) \<Rightarrow>
            (None, set_status i Stopped
              (k\<lparr>world := w, bus := snd (unsubscribe_module i (bus k))\<rparr>))))"

subsection \<open>The dependency order is topological\<close>

text \<open>Every loop over a hash table visits each key once, in an order that is not specified.\<close>

definition visits_all :: "'w hooks \<Rightarrow> string list \<Rightarrow> bool" where
  "visits_all h ids \<longleftrightarrow> mset (visit_modules h ids) = mset ids \<and> mset (visit_ids h ids) = mset ids
     \<and> mset (visit_graph h ids) = mset ids"

definition topo :: "'w hooks \<Rightarrow> string list \<Rightarrow> bool" where
  "topo h s \<longleftrightarrow> (\<forall>i < length s. set (deps_of h (s ! i)) \<subseteq> set (take i s))"

definition met :: "'w hooks \<Rightarrow> string list \<Rightarrow> string \<Rightarrow> nat" where
  "met h s m = card (set (deps_of h m) \<inter> set s)"

definition kahn_inv :: "'w hooks \<Rightarrow> string list \<Rightarrow> kahn \<Rightarrow> bool" where
  "kahn_inv h ids st = (case st of (q, s, deg) \<Rightarrow>
     distinct (s @ q) \<and> set (s @ q) \<subseteq> set ids \<and> topo h s
     \<and> (\<forall>m \<in> set ids. deg m = length (deps_of h m) - met h s m
           \<and> (m \<in> set (s @ q) \<longleftrightarrow> length (deps_of h m) \<le> met h s m)))"

lemma relax_eq:
  "distinct cs \<Longrightarrow> relax h i cs q deg =
     (q @ filter (\<lambda>c. i \<in> set (deps_of h c) \<and> deg c - 1 = 0) cs,
      \<lambda>c. if c \<in> set cs \<and> i \<in> set (deps_of h c) then deg c - 1 else deg c)"
proof (induction cs arbitrary: q deg)
  case (Cons c cs)
  have "filter (\<lambda>x. i \<in> set (deps_of h x) \<and> (deg(c := d)) x - 1 = 0) cs
      = filter (\<lambda>x. i \<in> set (deps_of h x) \<and> deg x - 1 = 0) cs" for d
    using Cons.prems by (intro filter_cong) auto
  then show ?case using Cons by (auto simp: Let_def fun_eq_iff)
qed simp

lemma all_met:
  assumes "length (deps_of h m) \<le> met h s m"
  shows "set (deps_of h m) \<subseteq> set s" and "distinct (deps_of h m)"
proof -
  have "met h s m \<le> card (set (deps_of h m))" by (simp add: met_def card_mono)
  moreover have "card (set (deps_of h m)) \<le> length (deps_of h m)" by (rule card_length)
  ultimately have "card (set (deps_of h m)) = length (deps_of h m)" and
    "card (set (deps_of h m) \<inter> set s) = card (set (deps_of h m))"
    using assms by (simp_all add: met_def)
  then show "distinct (deps_of h m)" by (intro card_distinct)
  have "set (deps_of h m) \<inter> set s = set (deps_of h m)"
    by (rule card_subset_eq) (use \<open>card (set (deps_of h m) \<inter> set s) = card (set (deps_of h m))\<close> in auto)
  then show "set (deps_of h m) \<subseteq> set s" by auto
qed

lemma met_snoc:
  "i \<notin> set s \<Longrightarrow> met h (s @ [i]) m = met h s m + (if i \<in> set (deps_of h m) then 1 else 0)"
  by (simp add: met_def Int_insert_right)

lemma topo_snoc: "topo h (s @ [x]) \<longleftrightarrow> topo h s \<and> set (deps_of h x) \<subseteq> set s"
  by (auto simp: topo_def nth_append less_Suc_eq)

lemma kahn_step_inv:
  assumes inv: "kahn_inv h ids (i # q, s, deg)" and vis: "mset (visit_graph h ids) = mset ids"
    and d: "distinct ids"
  shows "kahn_inv h ids (kahn_step h ids (i # q, s, deg))"
proof -
  let ?G = "visit_graph h ids"
  have G: "distinct ?G" "set ?G = set ids"
    using vis d mset_eq_imp_distinct_iff mset_eq_setD by blast+
  have old: "distinct (s @ i # q)" "set (s @ i # q) \<subseteq> set ids" "topo h s"
    and deg: "\<And>m. m \<in> set ids \<Longrightarrow> deg m = length (deps_of h m) - met h s m"
    and mem: "\<And>m. m \<in> set ids \<Longrightarrow> m \<in> set (s @ i # q) \<longleftrightarrow> length (deps_of h m) \<le> met h s m"
    using inv by (auto simp: kahn_inv_def)
  have i: "i \<notin> set s" "i \<in> set ids" using old by auto
  let ?new = "filter (\<lambda>c. i \<in> set (deps_of h c) \<and> deg c - 1 = 0) ?G"
  let ?deg = "\<lambda>c. if c \<in> set ids \<and> i \<in> set (deps_of h c) then deg c - 1 else deg c"
  have step: "kahn_step h ids (i # q, s, deg) = (q @ ?new, s @ [i], ?deg)"
    using G by (simp add: kahn_step_def relax_eq)
  have fresh: "m \<notin> set (s @ i # q)" if "m \<in> set ids" "i \<in> set (deps_of h m)" for m
    using mem [OF that(1)] all_met(1) that(2) i(1) by blast
  have "set (deps_of h i) \<subseteq> set s" using mem [OF i(2)] all_met(1) by auto
  then have "topo h (s @ [i])" using old(3) by (simp add: topo_snoc)
  moreover have "distinct ((s @ [i]) @ q @ ?new)" using old(1) G fresh by auto
  moreover have "set ((s @ [i]) @ q @ ?new) \<subseteq> set ids" using old(2) G by auto
  moreover have "?deg m = length (deps_of h m) - met h (s @ [i]) m" if "m \<in> set ids" for m
    using deg that by (simp add: met_snoc [OF i(1)])
  moreover have "m \<in> set ((s @ [i]) @ q @ ?new) \<longleftrightarrow> length (deps_of h m) \<le> met h (s @ [i]) m"
    if m: "m \<in> set ids" for m
  proof (cases "i \<in> set (deps_of h m)")
    case True
    then show ?thesis using fresh [OF m True] mem [OF m] deg [OF m] m G by (auto simp: met_snoc [OF i(1)])
  next
    case False
    then show ?thesis using mem [OF m] by (simp add: met_snoc [OF i(1)])
  qed
  ultimately show ?thesis unfolding step kahn_inv_def prod.case by (intro conjI ballI)
qed

lemma kahn_run_ends:
  assumes "visits_all h ids" and "distinct ids"
  shows "\<exists>deg. kahn_run h ids = Some ([], kahn_sort h ids, deg) \<and> kahn_inv h ids ([], kahn_sort h ids, deg)"
proof -
  let ?b = "\<lambda>s :: kahn. fst s \<noteq> []"
  have start: "kahn_inv h ids (kahn_start h ids)"
    using assms mset_eq_imp_distinct_iff [of "visit_ids h ids" ids] mset_eq_setD [of "visit_ids h ids" ids]
    by (auto simp: kahn_inv_def kahn_start_def visits_all_def met_def topo_def)
  have keep: "kahn_inv h ids (kahn_step h ids s)" if "kahn_inv h ids s" "?b s" for s
    using that kahn_step_inv [of h ids] assms by (cases s; cases "fst s") (auto simp: visits_all_def)
  have down: "length ids - length (fst (snd (kahn_step h ids s))) < length ids - length (fst (snd s))"
    if here: "kahn_inv h ids s" "?b s" for s
  proof -
    obtain i q t deg where s: "s = (i # q, t, deg)" using here by (cases s; cases "fst s") auto
    then have "distinct (t @ [i])" "set (t @ [i]) \<subseteq> set ids" using here by (auto simp: kahn_inv_def)
    then have "length (t @ [i]) \<le> length ids"
      by (metis distinct_card card_mono card_length finite_set le_trans)
    then show ?thesis by (simp add: s kahn_step_def split: prod.splits)
  qed
  obtain r where r: "kahn_run h ids = Some r"
    unfolding kahn_run_def
    using measure_while_option_Some [of "kahn_inv h ids" ?b "kahn_step h ids" "\<lambda>s. length ids - length (fst (snd s))"]
      start keep down by blast
  moreover have "kahn_inv h ids r"
    by (rule while_option_rule [where P = "kahn_inv h ids", OF _ r [unfolded kahn_run_def] start]) (rule keep)
  moreover have "fst r = []" using while_option_stop [OF r [unfolded kahn_run_def]] by simp
  moreover have "kahn_sort h ids = fst (snd r)" using r by (simp add: kahn_sort_def while_def kahn_run_def)
  ultimately show ?thesis by (cases r) simp
qed

text \<open>A dependency graph without cycle, written over the registered modules.\<close>

definition depends :: "'w hooks \<Rightarrow> string list \<Rightarrow> (string \<times> string) set" where
  "depends h ids = {(d, m). m \<in> set ids \<and> d \<in> set (deps_of h m)}"

lemma topo_acyclic:
  assumes "topo h s" and "distinct s"
  shows "acyclic (depends h s)"
proof -
  let ?idx = "\<lambda>x. length (takeWhile (\<lambda>y. y \<noteq> x) s)"
  have idx: "?idx (s ! i) = i" if "i < length s" for i
  proof -
    have "takeWhile (\<lambda>y. y \<noteq> s ! i) s = take i s"
      by (rule takeWhile_eq_take_P_nth) (use that assms(2) in \<open>auto simp: nth_eq_iff_index_eq\<close>)
    then show ?thesis using that by simp
  qed
  have "(d, m) \<in> measure ?idx" if dm: "(d, m) \<in> depends h s" for d m
  proof -
    obtain i where i: "i < length s" "s ! i = m" using dm by (auto simp: depends_def in_set_conv_nth)
    then have "d \<in> set (take i s)" using dm assms(1) by (auto simp: depends_def topo_def)
    then obtain j where j: "j < i" "s ! j = d" by (auto simp: in_set_conv_nth)
    have "?idx m = i" using idx [OF i(1)] i(2) by simp
    moreover have "?idx d = j" using idx [of j] j i(1) by simp
    ultimately show ?thesis using j(1) by simp
  qed
  then have "depends h s \<subseteq> measure ?idx" by (rule subrelI)
  then show ?thesis by (rule wf_acyclic [OF wf_subset [OF wf_measure]])
qed

lemma find_missing_None:
  "find_missing h ids is = None \<longleftrightarrow> (\<forall>m \<in> set is. set (deps_of h m) \<subseteq> set ids)"
proof (induction "is")
  case (Cons i "is")
  have "List.find (\<lambda>d. d \<notin> set ids) (deps_of h i) = None \<longleftrightarrow> set (deps_of h i) \<subseteq> set ids"
    by (auto simp: find_None_iff)
  then show ?case using Cons by (auto split: option.splits)
qed simp

lemma kahn_complete:
  assumes inv: "kahn_inv h ids ([], s, deg)" and wf: "acyclic (depends h ids)"
    and deps: "\<forall>m \<in> set ids. set (deps_of h m) \<subseteq> set ids \<and> distinct (deps_of h m)"
  shows "set s = set ids"
proof -
  have "finite (depends h ids)"
    by (rule finite_subset [of _ "(\<Union>m \<in> set ids. set (deps_of h m)) \<times> set ids"]) (auto simp: depends_def)
  then have w: "wf (depends h ids)" using wf by (rule finite_acyclic_wf)
  have "m \<in> set ids \<longrightarrow> m \<in> set s" for m
    using w
  proof (induction m rule: wf_induct_rule)
    case (less m)
    show ?case
    proof
      assume m: "m \<in> set ids"
      then have "set (deps_of h m) \<subseteq> set s" using less deps by (auto simp: depends_def)
      then have "met h s m = card (set (deps_of h m))" by (simp add: met_def Int_absorb2)
      also have "\<dots> = length (deps_of h m)" using deps m by (simp add: distinct_card)
      finally show "m \<in> set s" using inv m by (simp add: kahn_inv_def)
    qed
  qed
  then show ?thesis using inv by (auto simp: kahn_inv_def)
qed

subsection \<open>The bus against its specification\<close>

text \<open>
  The bus as one list of subscriptions in registration order: subscribing appends, removing a
  module filters, and the handlers of a topic are those of its subscriptions.
\<close>

datatype 'h bus_event = SubscribeFor string string 'h | Subscribe string 'h | Unsubscribe string

fun bus_step :: "'h bus_event \<Rightarrow> 'h event_bus \<Rightarrow> 'h event_bus" where
  "bus_step (SubscribeFor m t h) b = subscribe_for_module m t h b"
| "bus_step (Subscribe t h) b = subscribe t h b"
| "bus_step (Unsubscribe m) b = snd (unsubscribe_module m b)"

type_synonym 'h subscriptions = "(string \<times> 'h subscriber_entry) list"

fun subscription_step :: "'h bus_event \<Rightarrow> 'h subscriptions \<Rightarrow> 'h subscriptions" where
  "subscription_step (SubscribeFor m t h) s = s @ [(t, \<lparr>se_module = m, se_handler = h\<rparr>)]"
| "subscription_step (Subscribe t h) s = s @ [(t, \<lparr>se_module = [], se_handler = h\<rparr>)]"
| "subscription_step (Unsubscribe m) s = filter (\<lambda>(t, e). se_module e \<noteq> m) s"

definition topic_subscriptions :: "string \<Rightarrow> 'h subscriptions \<Rightarrow> 'h subscriber_entry list" where
  "topic_subscriptions t s = map snd (filter (\<lambda>(t', e). t' = t) s)"

definition bus_ok :: "'h event_bus \<Rightarrow> bool" where
  "bus_ok b \<longleftrightarrow> distinct (map fst b) \<and> list_all (\<lambda>(t, es). es \<noteq> []) b"

definition bus_abs :: "'h event_bus \<Rightarrow> 'h subscriptions \<Rightarrow> bool" where
  "bus_abs b s \<longleftrightarrow> bus_ok b \<and> (\<forall>t. bus_entries b t = topic_subscriptions t s)"

lemma unsubscribe_Cons:
  "snd (unsubscribe_module m ((t, es) # b)) =
     (if filter (\<lambda>e. se_module e \<noteq> m) es = [] then snd (unsubscribe_module m b)
      else (t, filter (\<lambda>e. se_module e \<noteq> m) es) # snd (unsubscribe_module m b))"
  "fst (unsubscribe_module m ((t, es) # b)) =
     length (filter (\<lambda>e. se_module e = m) es) + fst (unsubscribe_module m b)"
proof -
  have "length es - length (filter (\<lambda>e. se_module e \<noteq> m) es) = length (filter (\<lambda>e. se_module e = m) es)"
    using sum_length_filter_compl [of "\<lambda>e. se_module e = m" es] by simp
  then show "fst (unsubscribe_module m ((t, es) # b)) =
      length (filter (\<lambda>e. se_module e = m) es) + fst (unsubscribe_module m b)"
    by (simp add: Let_def split: prod.splits)
qed (simp add: Let_def split: prod.splits)

declare unsubscribe_module.simps(2) [simp del]

lemma unsubscribe_keys: "fst ` set (snd (unsubscribe_module m b)) \<subseteq> fst ` set b"
proof (induction b)
  case (Cons p b)
  then show ?case by (cases p) (simp add: unsubscribe_Cons, blast)
qed simp

lemma unsubscribe_ok: "bus_ok b \<Longrightarrow> bus_ok (snd (unsubscribe_module m b))"
proof (induction b)
  case (Cons p b)
  then show ?case using unsubscribe_keys [of m b] by (cases p) (auto simp: bus_ok_def unsubscribe_Cons)
qed (simp add: bus_ok_def)

lemma bus_entries_Cons:
  "bus_entries ((t', es) # b) t = (if t = t' then es else bus_entries b t)"
  by (simp add: bus_entries_def)

lemma bus_entries_absent: "t \<notin> fst ` set b \<Longrightarrow> bus_entries b t = []"
  by (simp add: bus_entries_def map_of_eq_None_iff [THEN iffD2])

lemma unsubscribe_entries:
  "bus_ok b \<Longrightarrow> bus_entries (snd (unsubscribe_module m b)) t = filter (\<lambda>e. se_module e \<noteq> m) (bus_entries b t)"
proof (induction b)
  case (Cons p b)
  obtain topic es where p: "p = (topic, es)" by (cases p)
  have "bus_entries (snd (unsubscribe_module m b)) topic = []"
    using Cons.prems unsubscribe_keys [of m b] p by (intro bus_entries_absent) (auto simp: bus_ok_def)
  then show ?case
    using Cons p by (cases "t = topic") (auto simp: bus_ok_def bus_entries_Cons unsubscribe_Cons)
qed (simp add: bus_entries_def)

lemma unsubscribe_count: "fst (unsubscribe_module m b) = handler_count_for_module m b"
  by (induction b) (auto simp: handler_count_for_module_def unsubscribe_Cons)

lemma unsubscribed_count: "handler_count_for_module m (snd (unsubscribe_module m b)) = 0"
proof (induction b)
  case (Cons p b)
  obtain t es where p: "p = (t, es)" by (cases p)
  have "filter (\<lambda>e. se_module e = m) (filter (\<lambda>e. se_module e \<noteq> m) es) = []" by (simp add: filter_empty_conv)
  then show ?case using Cons p by (simp add: handler_count_for_module_def unsubscribe_Cons)
qed (simp add: handler_count_for_module_def)

lemma bus_entries_put: "bus_entries (tab_update t es b) t' = (if t' = t then es else bus_entries b t')"
  by (simp add: bus_entries_def)

lemma bus_ok_put: "bus_ok b \<Longrightarrow> es \<noteq> [] \<Longrightarrow> bus_ok (tab_update t es b)"
proof -
  have "list_all (\<lambda>(t, es). es \<noteq> []) b \<Longrightarrow> es \<noteq> [] \<Longrightarrow> list_all (\<lambda>(t, es). es \<noteq> []) (tab_update t es b)"
    by (induction t es b rule: tab_update.induct) auto
  then show "bus_ok b \<Longrightarrow> es \<noteq> [] \<Longrightarrow> bus_ok (tab_update t es b)" by (simp add: bus_ok_def)
qed

lemma bus_step_abs: "bus_abs b s \<Longrightarrow> bus_abs (bus_step e b) (subscription_step e s)"
proof (cases e)
  case (Unsubscribe m)
  assume a: "bus_abs b s"
  have "topic_subscriptions t (filter (\<lambda>(t, e). se_module e \<noteq> m) s)
      = filter (\<lambda>e. se_module e \<noteq> m) (topic_subscriptions t s)" for t
    by (induction s) (auto simp: topic_subscriptions_def)
  then show ?thesis
    using a Unsubscribe by (simp add: bus_abs_def unsubscribe_ok unsubscribe_entries)
qed (auto simp: bus_abs_def subscribe_for_module_def subscribe_def bus_ok_put bus_entries_put
    topic_subscriptions_def)

interpretation bus_machine: machine "([], [])" "\<lambda>e (b, s). (bus_step e b, subscription_step e s)"
    "\<lambda>(b, s). bus_abs b s"
  by unfold_locales
    (auto simp: bus_step_abs, simp add: bus_abs_def bus_ok_def bus_entries_def topic_subscriptions_def)

lemma run_pair: "run (\<lambda>e (b, s). (f e b, g e s)) es (b, s) = (run f es b, run g es s)"
  by (induction es arbitrary: b s) simp_all

lemma bus_history: "bus_abs (run bus_step es []) (run subscription_step es [])"
  using bus_machine.inv_run [of es] by (simp add: run_pair)

lemma publish_entries: "publish call t e s = dispatch call e (bus_entries (fst s) t) s"
  by (simp add: publish_def bus_entries_def split: option.split)

subsection \<open>Traces of lifecycle calls\<close>

text \<open>
  Hooks that also record their calls: a load, a start of a module or of a service when it succeeds,
  a stop whenever it is attempted.
\<close>

datatype trace_event = TLoad string | TStart string | TStop string | TServiceStart nat | TServiceStop nat

definition record_ok :: "trace_event \<Rightarrow> string option \<times> 'w \<Rightarrow> trace_event list \<Rightarrow> string option \<times> 'w \<times> trace_event list" where
  "record_ok e r tr = (fst r, snd r, if fst r = None then tr @ [e] else tr)"

definition traced :: "'w hooks \<Rightarrow> ('w \<times> trace_event list) hooks" where
  "traced h = \<lparr>deps_of = deps_of h,
     on_load = (\<lambda>i (w, tr). record_ok (TLoad i) (on_load h i w) tr),
     on_start = (\<lambda>i (w, tr). record_ok (TStart i) (on_start h i w) tr),
     on_stop = (\<lambda>i (w, tr). (fst (on_stop h i w), snd (on_stop h i w), tr @ [TStop i])),
     svc_start = (\<lambda>n (w, tr). record_ok (TServiceStart n) (svc_start h n w) tr),
     svc_stop = (\<lambda>n (w, tr). (fst (svc_stop h n w), snd (svc_stop h n w), tr @ [TServiceStop n])),
     visit_modules = visit_modules h, visit_ids = visit_ids h, visit_graph = visit_graph h\<rparr>"

text \<open>A service is open when it was started and not stopped since.\<close>

fun service_open_step :: "nat \<Rightarrow> bool \<Rightarrow> trace_event \<Rightarrow> bool" where
  "service_open_step n b (TServiceStart m) = (b \<or> m = n)"
| "service_open_step n b (TServiceStop m) = (b \<and> m \<noteq> n)"
| "service_open_step n b _ = b"

definition service_open :: "nat \<Rightarrow> trace_event list \<Rightarrow> bool" where
  "service_open n tr = foldl (service_open_step n) False tr"

fun call_ok :: "trace_event list \<Rightarrow> trace_event \<Rightarrow> bool" where
  "call_ok before (TStart i) \<longleftrightarrow> TLoad i \<in> set before"
| "call_ok before (TServiceStop n) \<longleftrightarrow> service_open n before"
| "call_ok before _ \<longleftrightarrow> True"

definition trace_ok :: "trace_event list \<Rightarrow> bool" where
  "trace_ok tr \<longleftrightarrow> list_all (\<lambda>i. call_ok (take i tr) (tr ! i)) [0..<length tr]"

datatype kernel_event =
    KRegister string
  | KService string
  | KLoadAll
  | KStartAll
  | KStopAll
  | KStart string
  | KStop string

fun kernel_step :: "'w hooks \<Rightarrow> kernel_event \<Rightarrow> ('h, 'w) kernel \<Rightarrow> ('h, 'w) kernel" where
  "kernel_step h (KRegister i) k = snd (register i k)"
| "kernel_step h (KService i) k = (if i \<in> set (services k) then k else register_service i k)"
| "kernel_step h KLoadAll k = snd (load_all h k)"
| "kernel_step h KStartAll k = snd (start_all h k)"
| "kernel_step h KStopAll k = snd (stop_all h k)"
| "kernel_step h (KStart i) k = snd (start_module h i k)"
| "kernel_step h (KStop i) k = snd (stop_module h i k)"

lemma trace_ok_Nil [simp]: "trace_ok []" by (simp add: trace_ok_def)

lemma trace_ok_snoc [simp]: "trace_ok (tr @ [e]) \<longleftrightarrow> trace_ok tr \<and> call_ok tr e"
  by (auto simp: trace_ok_def list_all_iff nth_append less_Suc_eq)

lemma service_open_snoc [simp]: "service_open n (tr @ [e]) = service_open_step n (service_open n tr) e"
  by (simp add: service_open_def)

abbreviation trace :: "('h, 'w \<times> trace_event list) kernel \<Rightarrow> trace_event list" where
  "trace k \<equiv> snd (world k)"

text \<open>
  What every operation keeps: the trace is well-formed, modules past \<open>Registered\<close> were loaded, and
  the services recorded as started are open. \<open>open_below n\<close> is the last part for the services before
  position \<open>n\<close>.
\<close>

definition past_loaded :: "('h, 'w \<times> trace_event list) kernel \<Rightarrow> bool" where
  "past_loaded k \<longleftrightarrow> trace_ok (trace k) \<and> distinct (services k)
     \<and> (\<forall>m. statuses k m \<in> {Some Loaded, Some Started, Some Stopped} \<longrightarrow> TLoad m \<in> set (trace k))"

definition open_below :: "nat \<Rightarrow> string list \<Rightarrow> ('h, 'w \<times> trace_event list) kernel \<Rightarrow> bool" where
  "open_below n ids k \<longleftrightarrow> (\<forall>i < n. services k ! i \<in> set ids \<longrightarrow> service_open i (trace k))"

definition kernel_inv :: "('h, 'w \<times> trace_event list) kernel \<Rightarrow> bool" where
  "kernel_inv k \<longleftrightarrow> past_loaded k \<and> set (started_service_ids k) \<subseteq> set (services k)
     \<and> open_below (length (services k)) (started_service_ids k) k"

definition frame :: "('h, 'w \<times> trace_event list) kernel \<Rightarrow> ('h, 'w \<times> trace_event list) kernel \<Rightarrow> bool" where
  "frame k k' \<longleftrightarrow> services k' = services k \<and> started_service_ids k' = started_service_ids k
     \<and> (\<forall>n. service_open n (trace k) \<longrightarrow> service_open n (trace k'))"

lemma frame_refl [simp]: "frame k k"
  by (simp add: frame_def)

lemma frame_trans: "frame k k' \<Longrightarrow> frame k' k'' \<Longrightarrow> frame k k''"
  by (simp add: frame_def)

lemma kernel_inv_frame: "kernel_inv k \<Longrightarrow> past_loaded k' \<Longrightarrow> frame k k' \<Longrightarrow> kernel_inv k'"
  by (simp add: kernel_inv_def frame_def open_below_def)

lemma traced_calls:
  "on_load (traced h) i (w, tr) = record_ok (TLoad i) (on_load h i w) tr"
  "on_start (traced h) i (w, tr) = record_ok (TStart i) (on_start h i w) tr"
  "svc_start (traced h) n (w, tr) = record_ok (TServiceStart n) (svc_start h n w) tr"
  "on_stop (traced h) i (w, tr) = (fst (on_stop h i w), snd (on_stop h i w), tr @ [TStop i])"
  "svc_stop (traced h) n (w, tr) = (fst (svc_stop h n w), snd (svc_stop h n w), tr @ [TServiceStop n])"
  by (simp_all add: traced_def)

lemma record_okD:
  "record_ok e r tr = (None, w) \<Longrightarrow> snd w = tr @ [e]"
  "record_ok e r tr = (Some x, w) \<Longrightarrow> snd w = tr"
  by (auto simp: record_ok_def)

lemma load_call:
  "on_load (traced h) i (world k) = (None, w) \<Longrightarrow> snd w = trace k @ [TLoad i]"
  "on_load (traced h) i (world k) = (Some x, w) \<Longrightarrow> snd w = trace k"
  by (cases "world k"; simp add: traced_calls record_okD)+

lemma start_call:
  "on_start (traced h) i (world k) = (None, w) \<Longrightarrow> snd w = trace k @ [TStart i]"
  "on_start (traced h) i (world k) = (Some x, w) \<Longrightarrow> snd w = trace k"
  by (cases "world k"; simp add: traced_calls record_okD)+

lemma service_start_call:
  "svc_start (traced h) n (world k) = (None, w) \<Longrightarrow> snd w = trace k @ [TServiceStart n]"
  "svc_start (traced h) n (world k) = (Some x, w) \<Longrightarrow> snd w = trace k"
  by (cases "world k"; simp add: traced_calls record_okD)+

lemma stop_call:
  "on_stop (traced h) i (world k) = (e, w) \<Longrightarrow> snd w = trace k @ [TStop i]"
  "svc_stop (traced h) n (world k) = (e, w) \<Longrightarrow> snd w = trace k @ [TServiceStop n]"
  by (cases "world k"; auto simp: traced_calls)+

text \<open>One successful call: the kernel with the extended trace.\<close>

lemma world_same:
  "snd w = trace k \<Longrightarrow> past_loaded k \<Longrightarrow> past_loaded (k\<lparr>world := w\<rparr>) \<and> frame k (k\<lparr>world := w\<rparr>)"
  by (simp add: past_loaded_def frame_def)

lemma loaded_step:
  "snd w = trace k @ [TLoad i] \<Longrightarrow> past_loaded k \<Longrightarrow>
     past_loaded (set_status i Loaded (k\<lparr>world := w\<rparr>)) \<and> frame k (set_status i Loaded (k\<lparr>world := w\<rparr>))"
  by (auto simp: past_loaded_def frame_def set_status_def)

lemma load_loop_inv:
  "past_loaded k \<Longrightarrow> load_loop (traced h) is k = (r, k') \<Longrightarrow> past_loaded k' \<and> frame k k'"
proof (induction "is" arbitrary: k)
  case (Cons i "is")
  obtain e w where c: "on_load (traced h) i (world k) = (e, w)" by (rule prod.exhaust)
  show ?case
  proof (cases e)
    case None
    let ?k = "set_status i Loaded (k\<lparr>world := w\<rparr>)"
    have ok: "past_loaded ?k \<and> frame k ?k" using loaded_step load_call(1) c None Cons.prems(1) by blast
    show ?thesis
      using Cons.prems c None ok Cons.IH [of k] Cons.IH [of ?k] frame_trans [of k ?k k']
      by (auto split: if_splits)
  next
    case (Some x)
    then have "snd w = trace k" using load_call(2) c by blast
    from world_same [OF this Cons.prems(1)] show ?thesis
      using Cons.prems c Some Cons.IH [of k] by (auto split: if_splits)
  qed
qed simp

lemma load_all_inv: "past_loaded k \<Longrightarrow> load_all (traced h) k = (r, k') \<Longrightarrow> past_loaded k' \<and> frame k k'"
proof -
  assume p: "past_loaded k" and l: "load_all (traced h) k = (r, k')"
  have flag: "past_loaded (k1\<lparr>loaded := True\<rparr>) = past_loaded k1"
    "frame k (k1\<lparr>loaded := True\<rparr>) = frame k k1" for k1 by (simp_all add: past_loaded_def frame_def)
  show ?thesis
    using l load_loop_inv [OF p, of h] p
    by (auto simp: load_all_def flag split: if_splits sum.splits prod.splits option.splits)
qed

lemma start_one_inv:
  assumes "past_loaded k" and "TLoad i \<in> set (trace k)" and "start_one (traced h) i k = (r, k')"
  shows "past_loaded k' \<and> frame k k'"
proof -
  obtain e w where c: "on_start (traced h) i (world k) = (e, w)" by (rule prod.exhaust)
  show ?thesis
  proof (cases e)
    case None
    then have "snd w = trace k @ [TStart i]" using start_call(1) c by blast
    then show ?thesis using assms c None
      by (auto simp: start_one_def past_loaded_def frame_def set_status_def split: if_splits)
  next
    case (Some x)
    then have "snd w = trace k" using start_call(2) c by blast
    from world_same [OF this assms(1)] show ?thesis using assms(3) c Some by (auto simp: start_one_def)
  qed
qed

lemma startable_loaded:
  "past_loaded k \<Longrightarrow> current_status i k = Loaded \<or> current_status i k = Stopped \<Longrightarrow> TLoad i \<in> set (trace k)"
  by (auto simp: past_loaded_def current_status_def split: option.splits)

lemma start_loop_inv:
  "past_loaded k \<Longrightarrow> start_loop (traced h) is k = (r, k') \<Longrightarrow> past_loaded k' \<and> frame k k'"
proof (induction "is" arbitrary: k)
  case (Cons i "is")
  obtain e k1 where s: "start_one (traced h) i k = (e, k1)" by (rule prod.exhaust)
  show ?case
  proof (cases "i \<notin> set (modules k) \<or> (current_status i k \<noteq> Loaded \<and> current_status i k \<noteq> Stopped)")
    case False
    then have k1: "past_loaded k1 \<and> frame k k1"
      using start_one_inv [OF Cons.prems(1) _ s] startable_loaded [OF Cons.prems(1)] by blast
    show ?thesis
      using Cons.prems(2) s False k1 Cons.IH [of k1] frame_trans [of k k1 k']
      by (auto split: option.splits)
  qed (use Cons.prems in \<open>auto split: if_splits\<close>)
qed simp

lemma service_loop_inv:
  "past_loaded k \<Longrightarrow> services k = take n (services k) @ ss \<Longrightarrow> n \<le> length (services k) \<Longrightarrow>
     set (started_service_ids k) \<subseteq> set (take n (services k)) \<Longrightarrow>
     open_below (length (services k)) (started_service_ids k) k \<Longrightarrow>
     service_loop (traced h) n ss k = (r, k') \<Longrightarrow> kernel_inv k'"
proof (induction ss arbitrary: n k)
  case Nil
  then show ?case using set_take_subset [of n "services k"] by (auto simp: kernel_inv_def)
next
  case (Cons s ss)
  let ?S = "services k"
  have n: "n < length ?S" "?S ! n = s" "?S = take (Suc n) ?S @ ss"
  proof -
    have "length ?S = length (take n ?S @ s # ss)" using Cons.prems(2) by simp
    then show n: "n < length ?S" using Cons.prems(3) by simp
    have "?S ! n = (take n ?S @ s # ss) ! n" using Cons.prems(2) by simp
    then show s: "?S ! n = s" using n by (simp add: nth_append)
    have "take (Suc n) ?S @ ss = take n ?S @ s # ss" using n s by (simp add: take_Suc_conv_app_nth)
    then show "?S = take (Suc n) ?S @ ss" using Cons.prems(2) by simp
  qed
  have d: "distinct ?S" using Cons.prems(1) by (simp add: past_loaded_def)
  obtain e w where c: "svc_start (traced h) n (world k) = (e, w)" by (rule prod.exhaust)
  show ?case
  proof (cases e)
    case None
    let ?k = "k\<lparr>world := w, started_service_ids := started_service_ids k @ [s]\<rparr>"
    have w: "snd w = trace k @ [TServiceStart n]" using service_start_call(1) c None by blast
    have "past_loaded ?k" using Cons.prems(1) w by (auto simp: past_loaded_def)
    moreover have "services ?k = take (Suc n) (services ?k) @ ss" using n(3) by simp
    moreover have "Suc n \<le> length (services ?k)" using n(1) by simp
    moreover have "set (started_service_ids ?k) \<subseteq> set (take (Suc n) (services ?k))"
      using Cons.prems(4) n by (auto simp: take_Suc_conv_app_nth)
    moreover have "open_below (length (services ?k)) (started_service_ids ?k) ?k"
      using Cons.prems(5) w n d by (auto simp: open_below_def nth_eq_iff_index_eq)
    moreover have "service_loop (traced h) (Suc n) ss ?k = (r, k')" using Cons.prems(6) c None by simp
    ultimately show ?thesis by (rule Cons.IH)
  next
    case (Some x)
    have w: "snd w = trace k" using service_start_call(2) c Some by blast
    have "set (started_service_ids k) \<subseteq> set ?S" using Cons.prems(4) set_take_subset by fastforce
    then have "kernel_inv (k\<lparr>world := w\<rparr>)"
      using Cons.prems(1,5) w by (simp add: kernel_inv_def past_loaded_def open_below_def)
    then show ?thesis using Cons.prems(6) c Some by simp
  qed
qed

lemma start_all_inv:
  assumes "kernel_inv k" and "start_all (traced h) k = (r, k')"
  shows "kernel_inv k'"
proof -
  have p: "past_loaded k" using assms(1) by (simp add: kernel_inv_def)
  obtain e k1 where l: "(if loaded k then (None, k) else load_all (traced h) k) = (e, k1)"
    by (rule prod.exhaust)
  have k1: "past_loaded k1 \<and> frame k k1"
    using l p load_all_inv [OF p, of h e k1] by (auto split: if_splits)
  have i1: "kernel_inv k1" using kernel_inv_frame [OF assms(1)] k1 by blast
  show ?thesis
  proof (cases "e = None \<and> (\<exists>order. resolve_dependencies (traced h) k1 = Inr order)")
    case False
    then show ?thesis using assms(2) l i1 by (auto simp: start_all_def split: option.splits sum.splits)
  next
    case True
    then obtain order where o: "resolve_dependencies (traced h) k1 = Inr order" and "e = None" by blast
    obtain e2 k2 where s: "start_loop (traced h) order k1 = (e2, k2)" by (rule prod.exhaust)
    have k2: "past_loaded k2 \<and> frame k1 k2" using start_loop_inv s k1 by blast
    have i2: "kernel_inv k2" using kernel_inv_frame [OF i1] k2 by blast
    obtain e3 k3 where v: "start_services (traced h) k2 = (e3, k3)" by (rule prod.exhaust)
    have "kernel_inv k3"
      by (rule service_loop_inv [of "k2\<lparr>started_service_ids := []\<rparr>" 0 "services k2" h e3])
        (use k2 v in \<open>simp_all add: start_services_def past_loaded_def open_below_def\<close>)
    moreover have "kernel_inv (k3\<lparr>started := b\<rparr>) = kernel_inv k3" for b
      by (simp add: kernel_inv_def past_loaded_def open_below_def)
    ultimately show ?thesis using assms(2) l o s v i2 \<open>e = None\<close>
      by (auto simp: start_all_def split: option.splits)
  qed
qed

lemma stop_services_inv:
  "past_loaded k \<Longrightarrow> open_below n ids k \<Longrightarrow> stop_services (traced h) ids n (err, k) = (r, k') \<Longrightarrow>
     past_loaded k'"
proof (induction n arbitrary: err k)
  case (Suc n)
  let ?s = "services k ! n"
  obtain e w where c: "svc_stop (traced h) n (world k) = (e, w)" by (rule prod.exhaust)
  have w: "snd w = trace k @ [TServiceStop n]" using stop_call(2) c by blast
  show ?case
  proof (cases "?s \<in> set ids")
    case True
    then have "past_loaded (k\<lparr>world := w\<rparr>)" "open_below n ids (k\<lparr>world := w\<rparr>)"
      using Suc.prems(1,2) w by (auto simp: past_loaded_def open_below_def)
    then show ?thesis using Suc.IH Suc.prems(3) c True by (simp add: Let_def)
  next
    case False
    then show ?thesis using Suc.IH [of k err] Suc.prems by (simp add: Let_def open_below_def)
  qed
qed simp

lemma stop_loop_inv: "past_loaded k \<Longrightarrow> stop_loop (traced h) is (err, k) = (r, k') \<Longrightarrow> past_loaded k'"
proof (induction "is" arbitrary: err k)
  case (Cons i "is")
  obtain e w where c: "(if i \<in> set (modules k) then on_stop (traced h) i (world k) else (None, world k)) = (e, w)"
    by (rule prod.exhaust)
  then have "snd w = trace k \<or> snd w = trace k @ [TStop i]" using stop_call(1) [of h i k e w] by (auto split: if_splits)
  then have "past_loaded (k\<lparr>world := w, bus := snd (unsubscribe_module i (bus k))\<rparr>)"
    using Cons.prems(1) by (auto simp: past_loaded_def)
  then show ?case using Cons.IH Cons.prems(2) c by (simp split: prod.splits)
qed simp

lemma past_loaded_mono:
  assumes "past_loaded k" and "world k' = world k" and "services k' = services k"
    and "\<And>m. statuses k' m \<in> {Some Loaded, Some Started, Some Stopped} \<Longrightarrow>
          statuses k m \<in> {Some Loaded, Some Started, Some Stopped}"
  shows "past_loaded k'"
  using assms unfolding past_loaded_def by metis

lemma stop_all_inv:
  assumes "kernel_inv k" and "stop_all (traced h) k = (r, k')"
  shows "kernel_inv k'"
proof -
  obtain e k1 where s: "stop_services (traced h) (started_service_ids k) (length (services k)) (None, k) = (e, k1)"
    by (rule prod.exhaust)
  have p1: "past_loaded k1"
    using assms(1) stop_services_inv [OF _ _ s] by (simp add: kernel_inv_def)
  obtain e2 k2 where l: "(case resolve_dependencies (traced h) k1 of
        Inr order \<Rightarrow> stop_loop (traced h) (rev order) (e, k1)
      | Inl x \<Rightarrow> stop_loop (traced h) (visit_modules (traced h) (modules k1)) (first_of e (Some x), k1)) = (e2, k2)"
    by (rule prod.exhaust)
  then have p2: "past_loaded k2" using stop_loop_inv [OF p1] by (auto split: sum.splits)
  let ?k = "k2\<lparr>statuses := map_option stop_status \<circ> statuses k2, started := False, loaded := False,
    started_service_ids := []\<rparr>"
  have origin: "statuses k2 m \<in> {Some Loaded, Some Started, Some Stopped}"
    if "map_option stop_status (statuses k2 m) \<in> {Some Loaded, Some Started, Some Stopped}" for m
    using that by (cases "statuses k2 m"; cases "the (statuses k2 m)") (auto simp: stop_status_def)
  have "past_loaded ?k"
  proof (rule past_loaded_mono [OF p2])
    fix m
    assume "statuses ?k m \<in> {Some Loaded, Some Started, Some Stopped}"
    then show "statuses k2 m \<in> {Some Loaded, Some Started, Some Stopped}" using origin [of m] by simp
  qed simp_all
  then have "kernel_inv ?k" by (simp add: kernel_inv_def open_below_def)
  then show ?thesis using assms(2) s l by (simp add: stop_all_def)
qed

lemma start_module_inv: "kernel_inv k \<Longrightarrow> start_module (traced h) i k = (r, k') \<Longrightarrow> kernel_inv k'"
proof -
  assume k: "kernel_inv k" and s: "start_module (traced h) i k = (r, k')"
  then have p: "past_loaded k" by (simp add: kernel_inv_def)
  obtain e w where c: "on_load (traced h) i (world k) = (e, w)" by (rule prod.exhaust)
  have "past_loaded k' \<and> frame k k'"
  proof (cases "i \<in> set (modules k) \<and> (current_status i k = Loaded \<or> current_status i k = Stopped)")
    case True
    note st = startable_loaded [OF p, of i]
    have direct: "past_loaded k' \<and> frame k k'" if "start_one (traced h) i k = (r, k')"
      using start_one_inv [OF p _ that] st True by blast
    have reload: "past_loaded (k\<lparr>world := w\<rparr>) \<and> frame k (k\<lparr>world := w\<rparr>) \<and> TLoad i \<in> set (snd w)"
      if "current_status i k = Stopped"
    proof (cases e)
      case None
      then have "snd w = trace k @ [TLoad i]" using load_call(1) c by blast
      then show ?thesis using p by (auto simp: past_loaded_def frame_def)
    next
      case (Some x)
      then have "snd w = trace k" using load_call(2) c by blast
      then show ?thesis using world_same [OF _ p] st True that by simp
    qed
    show ?thesis
    proof (cases "current_status i k = Stopped \<and> e = None")
      case True
      then have "start_one (traced h) i (k\<lparr>world := w\<rparr>) = (r, k')"
        using s c \<open>i \<in> set (modules k) \<and> _\<close> by (simp add: start_module_def)
      then have "past_loaded k' \<and> frame (k\<lparr>world := w\<rparr>) k'"
        using start_one_inv [of "k\<lparr>world := w\<rparr>" i h r k'] reload True by simp
      then show ?thesis using reload True frame_trans by blast
    next
      case False
      then show ?thesis using s c reload direct True by (auto simp: start_module_def split: if_splits option.splits)
    qed
  next
    case False
    then show ?thesis using s p by (auto simp: start_module_def split: if_splits)
  qed
  then show ?thesis using kernel_inv_frame [OF k] by blast
qed

lemma stop_module_inv: "kernel_inv k \<Longrightarrow> stop_module (traced h) i k = (r, k') \<Longrightarrow> kernel_inv k'"
proof -
  assume k: "kernel_inv k" and s: "stop_module (traced h) i k = (r, k')"
  then have p: "past_loaded k" by (simp add: kernel_inv_def)
  obtain e w where c: "on_stop (traced h) i (world k) = (e, w)" by (rule prod.exhaust)
  then have w: "snd w = trace k @ [TStop i]" by (rule stop_call)
  have "TLoad i \<in> set (trace k)" if "current_status i k = Started"
    using that p by (auto simp: past_loaded_def current_status_def split: option.splits)
  then have "past_loaded k' \<and> frame k k'"
    using s c w p
    by (cases "i \<in> set (modules k) \<and> current_status i k = Started"; cases e)
      (auto simp: stop_module_def past_loaded_def frame_def set_status_def split: if_splits)
  then show ?thesis using kernel_inv_frame [OF k] by blast
qed

lemma kernel_step_inv: "kernel_inv k \<Longrightarrow> kernel_inv (kernel_step (traced h) e k)"
proof (cases e)
  case (KRegister i)
  assume "kernel_inv k"
  then show ?thesis
    by (auto simp: KRegister register_def kernel_inv_def past_loaded_def open_below_def split: if_splits)
next
  case (KService i)
  assume k: "kernel_inv k"
  have "open_below (Suc (length (services k))) (started_service_ids k) (register_service i k)"
    if "i \<notin> set (services k)"
    using k that by (auto simp: kernel_inv_def open_below_def register_service_def nth_append less_Suc_eq)
  then show ?thesis using k
    by (auto simp: KService kernel_inv_def past_loaded_def register_service_def)
next
  case KLoadAll
  assume k: "kernel_inv k"
  then have "past_loaded k" by (simp add: kernel_inv_def)
  from load_all_inv [OF this] show ?thesis
    using kernel_inv_frame [OF k] by (simp add: KLoadAll) (metis prod.collapse)
next
  case KStartAll
  assume "kernel_inv k"
  from start_all_inv [OF this] show ?thesis by (simp add: KStartAll) (metis prod.collapse)
next
  case KStopAll
  assume "kernel_inv k"
  from stop_all_inv [OF this] show ?thesis by (simp add: KStopAll) (metis prod.collapse)
next
  case (KStart i)
  assume "kernel_inv k"
  from start_module_inv [OF this] show ?thesis by (simp add: KStart) (metis prod.collapse)
next
  case (KStop i)
  assume "kernel_inv k"
  from stop_module_inv [OF this] show ?thesis by (simp add: KStop) (metis prod.collapse)
qed

interpretation kernel_machine: machine "kernel_new (w, [])" "kernel_step (traced h)" kernel_inv
  for w :: 'w and h :: "'w hooks"
  by unfold_locales
    (simp add: kernel_new_def kernel_inv_def past_loaded_def open_below_def, rule kernel_step_inv)

lemma kernel_inv_trace: "kernel_inv k \<Longrightarrow> trace_ok (trace k)"
  by (simp add: kernel_inv_def past_loaded_def)

subsection \<open>Properties\<close>

text \<open>
  C29. The sorting loop always ends. The dependency order exists exactly when every declared dependency
  is registered, no module lists one twice and there is no cycle; it then holds every module once, each after all modules it
  depends on. This holds for every order in which the hash tables are visited.
\<close>

theorem dependency_order_exact:
  assumes "visits_all h (modules k)" and "distinct (modules k)"
  shows "kahn_run h (modules k) \<noteq> None
    \<and> ((\<exists>order. resolve_dependencies h k = Inr order) \<longleftrightarrow>
      (\<forall>m \<in> set (modules k). set (deps_of h m) \<subseteq> set (modules k) \<and> distinct (deps_of h m))
      \<and> acyclic (depends h (modules k)))
    \<and> (\<forall>order. resolve_dependencies h k = Inr order \<longrightarrow>
        distinct order \<and> set order = set (modules k)
        \<and> (\<forall>i < length order. set (deps_of h (order ! i)) \<subseteq> set (take i order)))"
proof (cases "modules k = []")
  case True
  then show ?thesis using kahn_run_ends [OF assms] by (auto simp: resolve_dependencies_def depends_def acyclic_def)
next
  case False
  let ?ids = "modules k" and ?s = "kahn_sort h (modules k)"
  obtain deg where run: "kahn_run h ?ids = Some ([], ?s, deg)" and inv: "kahn_inv h ?ids ([], ?s, deg)"
    using kahn_run_ends [OF assms] by blast
  then have s: "distinct ?s" "set ?s \<subseteq> set ?ids" "topo h ?s"
    and mem: "\<And>m. m \<in> set ?ids \<Longrightarrow> m \<in> set ?s \<longleftrightarrow> length (deps_of h m) \<le> met h ?s m"
    by (auto simp: kahn_inv_def)
  have vis: "set (visit_modules h ?ids) = set ?ids"
    using assms(1) mset_eq_setD unfolding visits_all_def by blast
  have full: "length ?s < length ?ids \<longleftrightarrow> set ?s \<noteq> set ?ids"
    using s assms(2) by (metis card_subset_eq distinct_card finite_set nat_less_le card_mono)
  let ?reg = "\<forall>m \<in> set ?ids. set (deps_of h m) \<subseteq> set ?ids"
  have ok: "resolve_dependencies h k = Inr order \<longleftrightarrow> ?reg \<and> set ?s = set ?ids \<and> order = ?s" for order
    using False find_missing_None [of h ?ids "visit_modules h ?ids"] vis full
    by (auto simp: resolve_dependencies_def Let_def split: option.splits)
  have "set ?s = set ?ids" if "?reg" "\<forall>m \<in> set ?ids. distinct (deps_of h m)" "acyclic (depends h ?ids)"
    by (rule kahn_complete [OF inv that(3)]) (use that in blast)
  moreover have "\<forall>m \<in> set ?ids. distinct (deps_of h m)" if "set ?s = set ?ids"
    using that mem all_met(2) by blast
  moreover have "acyclic (depends h ?ids)" if "set ?s = set ?ids"
    using topo_acyclic [OF s(3,1)] that by (simp add: depends_def)
  ultimately have "(\<exists>order. resolve_dependencies h k = Inr order) \<longleftrightarrow>
      (\<forall>m \<in> set ?ids. set (deps_of h m) \<subseteq> set ?ids \<and> distinct (deps_of h m)) \<and> acyclic (depends h ?ids)"
    unfolding ok by blast
  then show ?thesis using ok s run by (simp add: topo_def)
qed

definition demo_hooks :: "(string \<Rightarrow> string list) \<Rightarrow> unit hooks" where
  "demo_hooks d = \<lparr>deps_of = d, on_load = (\<lambda>_ w. (None, w)), on_start = (\<lambda>_ w. (None, w)),
     on_stop = (\<lambda>_ w. (None, w)), svc_start = (\<lambda>_ w. (None, w)), svc_stop = (\<lambda>_ w. (None, w)),
     visit_modules = (\<lambda>xs. xs), visit_ids = rev, visit_graph = (\<lambda>xs. xs)\<rparr>"

theorem dependency_order_exact_witness:
  "(\<exists>order. resolve_dependencies
       (demo_hooks (\<lambda>m. if m = ''sales'' then [''tax'', ''inventory''] else if m = ''tax'' then [''inventory''] else []))
       (kernel_new ()\<lparr>modules := [''sales'', ''tax'', ''inventory'']\<rparr>) = Inr order)
   \<and> \<not> (\<exists>order. resolve_dependencies (demo_hooks (\<lambda>m. if m = ''sales'' then [''tax'', ''tax''] else []))
       (kernel_new ()\<lparr>modules := [''sales'', ''tax'']\<rparr>) = Inr order)"
proof
  let ?h = "demo_hooks (\<lambda>m. if m = ''sales'' then [''tax'', ''inventory''] else if m = ''tax'' then [''inventory''] else [])"
  let ?k = "kernel_new ()\<lparr>modules := [''sales'', ''tax'', ''inventory'']\<rparr>"
  have "depends ?h (modules ?k) \<subseteq> measure (\<lambda>m. if m = ''sales'' then 2 else if m = ''tax'' then 1 else 0)"
    by (auto simp: depends_def demo_hooks_def)
  then have "acyclic (depends ?h (modules ?k))" by (intro wf_acyclic wf_subset [OF wf_measure])
  moreover have "visits_all ?h (modules ?k)" "distinct (modules ?k)"
    "\<forall>m \<in> set (modules ?k). set (deps_of ?h m) \<subseteq> set (modules ?k) \<and> distinct (deps_of ?h m)"
    by (simp_all add: visits_all_def demo_hooks_def)
  ultimately show "\<exists>order. resolve_dependencies ?h ?k = Inr order"
    using dependency_order_exact [of ?h ?k] by blast
next
  let ?h = "demo_hooks (\<lambda>m. if m = ''sales'' then [''tax'', ''tax''] else [])"
  let ?k = "kernel_new ()\<lparr>modules := [''sales'', ''tax'']\<rparr>"
  have "visits_all ?h (modules ?k)" "distinct (modules ?k)" "''sales'' \<in> set (modules ?k)"
    "\<not> distinct (deps_of ?h ''sales'')"
    by (simp_all add: visits_all_def demo_hooks_def)
  then show "\<not> (\<exists>order. resolve_dependencies ?h ?k = Inr order)"
    using dependency_order_exact [of ?h ?k] by blast
qed


text \<open>
  Whatever sequence of registrations and of load, start and stop calls a kernel goes through, and
  whatever its modules and services do, a module is only started after one of its loads succeeded,
  and a service is only stopped while it is running: after a start that succeeded, with no stop since.
\<close>

theorem lifecycle_trace_safe:
  "trace_ok (snd (world (run (kernel_step (traced h)) es (kernel_new (w, [])))))"
  by (rule kernel_inv_trace [OF kernel_machine.inv_run])

text \<open>
  After any history of subscriptions and removals the bus refines the list of the subscriptions
  still in force, in registration order: publishing on a topic runs exactly the handlers
  subscribed to it, one after the other, and removing a module reports the number of handlers it
  had and leaves the handlers of the others in place.
\<close>

theorem event_bus_refines:
  fixes es :: "'h bus_event list"
  defines "b \<equiv> run bus_step es []" and "s \<equiv> run subscription_step es []"
  shows "publish call t e (b, w) = dispatch call e (topic_subscriptions t s) (b, w)
    \<and> fst (unsubscribe_module m b) = handler_count_for_module m b
    \<and> handler_count_for_module m (snd (unsubscribe_module m b)) = 0
    \<and> bus_entries (snd (unsubscribe_module m b)) t
        = filter (\<lambda>x. se_module x \<noteq> m) (topic_subscriptions t s)
    \<and> (has_handlers t b \<longleftrightarrow> topic_subscriptions t s \<noteq> [])"
proof -
  have a: "bus_abs b s" unfolding b_def s_def by (rule bus_history)
  then have entries: "bus_entries b t = topic_subscriptions t s" and ok: "bus_ok b"
    by (simp_all add: bus_abs_def)
  have "handler_count_for_module m (snd (unsubscribe_module m b)) = 0"
    by (rule unsubscribed_count)
  moreover have "has_handlers t b \<longleftrightarrow> bus_entries b t \<noteq> []"
    by (simp add: has_handlers_def bus_entries_def split: option.split)
  ultimately show ?thesis
    by (simp add: publish_entries entries unsubscribe_count unsubscribe_entries [OF ok])
qed

subsubsection \<open>Restarting a stopped module\<close>

definition loads :: "trace_event list \<Rightarrow> string list" where
  "loads tr = concat (map (\<lambda>e. case e of TLoad i \<Rightarrow> [i] | _ \<Rightarrow> []) tr)"

lemma loads_append [simp]: "loads (a @ b) = loads a @ loads b"
  by (simp add: loads_def)

lemma loads_one [simp]:
  "loads [TLoad i] = [i]" "loads [TStart i] = []" "loads [TStop i] = []"
  "loads [TServiceStart n] = []" "loads [TServiceStop n] = []" "loads [] = []"
  by (simp_all add: loads_def)

lemma start_one_loads:
  "start_one (traced h) i k = (r, k') \<Longrightarrow> loads (trace k') = loads (trace k)"
proof -
  assume s: "start_one (traced h) i k = (r, k')"
  obtain e w where c: "on_start (traced h) i (world k) = (e, w)" by (rule prod.exhaust)
  then have "loads (snd w) = loads (trace k)"
    using start_call(1) [of h i k w] start_call(2) [of h i k _ w] by (cases e) simp_all
  then show ?thesis using s c by (cases e) (auto simp: start_one_def set_status_def)
qed

lemma start_loop_loads:
  "start_loop (traced h) is k = (r, k') \<Longrightarrow> loads (trace k') = loads (trace k)"
proof (induction "is" arbitrary: k)
  case (Cons i "is")
  obtain e k1 where one: "start_one (traced h) i k = (e, k1)" by (rule prod.exhaust)
  then show ?case using Cons start_one_loads [OF one] by (auto split: if_splits option.splits)
qed simp

lemma service_loop_loads:
  "service_loop (traced h) n ss k = (r, k') \<Longrightarrow> loads (trace k') = loads (trace k)"
proof (induction ss arbitrary: n k)
  case (Cons s ss)
  obtain e w where c: "svc_start (traced h) n (world k) = (e, w)" by (rule prod.exhaust)
  then have "loads (snd w) = loads (trace k)"
    using service_start_call(1) [of h n k w] service_start_call(2) [of h n k _ w] by (cases e) simp_all
  then show ?case
    using Cons.IH [of "Suc n" "k\<lparr>world := w, started_service_ids := started_service_ids k @ [s]\<rparr>"]
      Cons.prems c
    by (cases e) auto
qed simp

lemma start_all_loads:
  assumes "loaded k" and "start_all (traced h) k = (r, k')"
  shows "loads (trace k') = loads (trace k)"
proof (cases "resolve_dependencies (traced h) k")
  case (Inr order)
  obtain e k1 where l: "start_loop (traced h) order k = (e, k1)" by (rule prod.exhaust)
  obtain e2 k2 where s: "start_services (traced h) k1 = (e2, k2)" by (rule prod.exhaust)
  then have "loads (trace k2) = loads (trace k1)"
    using service_loop_loads [of h 0 "services k1" "k1\<lparr>started_service_ids := []\<rparr>"]
    by (simp add: start_services_def)
  then show ?thesis
    using assms Inr l s start_loop_loads [OF l]
    by (cases e; cases e2) (auto simp: start_all_def)
qed (use assms in \<open>simp add: start_all_def\<close>)

lemma start_module_loads:
  assumes "current_status i k = Stopped" and "start_module (traced h) i k = (None, k')"
  shows "loads (trace k') = loads (trace k) @ [i]"
proof -
  have i: "i \<in> set (modules k)" using assms by (auto simp: start_module_def split: if_splits)
  obtain e w where c: "on_load (traced h) i (world k) = (e, w)" by (rule prod.exhaust)
  then have e: "e = None" and one: "start_one (traced h) i (k\<lparr>world := w\<rparr>) = (None, k')"
    using assms i by (auto simp: start_module_def split: option.splits)
  then show ?thesis using start_one_loads [OF one] load_call(1) [of h i k w] c by simp
qed

text \<open>
  Starting a stopped module alone runs its load hook again, which registers its event handlers
  anew. Starting the whole kernel while it counts as loaded runs no load hook at all, also not for
  the modules that were stopped one by one and lost their handlers.
\<close>

theorem start_all_skips_reload:
  "(loaded k \<longrightarrow> loads (trace (snd (start_all (traced h) k))) = loads (trace k))
   \<and> (current_status i k = Stopped \<and> fst (start_module (traced h) i k) = None \<longrightarrow>
        loads (trace (snd (start_module (traced h) i k))) = loads (trace k) @ [i])"
proof -
  obtain r k' where "start_all (traced h) k = (r, k')" by (rule prod.exhaust)
  moreover obtain r2 k2 where "start_module (traced h) i k = (r2, k2)" by (rule prod.exhaust)
  ultimately show ?thesis using start_all_loads [of k h r k'] start_module_loads [of i k h k2] by simp
qed

text \<open>
  One module, loaded, started and stopped again: the kernel is still loaded and the whole start does
  not load it, the single start does.
\<close>

definition one_stopped :: "(nat, unit \<times> trace_event list) kernel" where
  "one_stopped = (kernel_new ((), [TLoad ''tax'', TStart ''tax'', TStop ''tax'']))
     \<lparr>modules := [''tax''], loaded := True, statuses := [''tax'' \<mapsto> Stopped]\<rparr>"

theorem start_all_skips_reload_witness:
  "loads (trace (snd (start_all (traced (demo_hooks (\<lambda>_. []))) one_stopped))) = [''tax'']
   \<and> loads (trace (snd (start_module (traced (demo_hooks (\<lambda>_. []))) ''tax'' one_stopped))) = [''tax'', ''tax'']"
proof -
  let ?h = "demo_hooks (\<lambda>_. [])"
  have "loaded one_stopped" "current_status ''tax'' one_stopped = Stopped"
    "loads (trace one_stopped) = [''tax'']"
    by (simp_all add: one_stopped_def current_status_def loads_def kernel_new_def)
  moreover have "fst (start_module (traced ?h) ''tax'' one_stopped) = None"
    by (simp add: start_module_def one_stopped_def current_status_def kernel_new_def traced_def
        demo_hooks_def record_ok_def start_one_def)
  ultimately show ?thesis using start_all_skips_reload [of one_stopped ?h "''tax''"] by simp
qed

end
