(* ===== verification/Promotion.thy ===== *)
theory Promotion
  imports Sale Tax_Rates "HOL-Library.Char_ord" "HOL-Library.List_Lexorder"
begin

section \<open>Promotions\<close>

text \<open>
  Models \<open>crates/kasirmu-core/src/promotion.rs\<close>, the discount engine \<open>promotion_engine.rs\<close> and the
  store operations of \<open>db/promotions.rs\<close>. The tables are lists with the keys and foreign keys of the
  schema (the connection pool switches foreign keys on). Applying a promotion reads the promotion and
  the sale first and commits in a transaction afterwards: the two halves are separate functions, so
  that a read may be stale. Parameters: \<open>parse\<close> and \<open>show_ts\<close> for the time stamps of \<open>chrono\<close>, \<open>cat\<close>
  for the look-up of a product's category, and the fresh UUIDs.
\<close>

subsection \<open>Data\<close>

datatype promotion_type = PercentagePromo | FixedAmount | BuyXGetY

fun promotion_type_as_str :: "promotion_type \<Rightarrow> string" where
  "promotion_type_as_str PercentagePromo = ''percentage''"
| "promotion_type_as_str FixedAmount = ''fixed_amount''"
| "promotion_type_as_str BuyXGetY = ''buy_x_get_y''"

definition promotion_type_from_str :: "string \<Rightarrow> promotion_type option" where
  "promotion_type_from_str s =
     (if s = ''percentage'' then Some PercentagePromo
      else if s = ''fixed_amount'' then Some FixedAmount
      else if s = ''buy_x_get_y'' then Some BuyXGetY
      else None)"

record promotion =
  pm_id :: string
  pm_name :: string
  pm_description :: string
  pm_type :: string
  pm_value :: int
  pm_min_qty :: "int option"
  pm_trigger :: "string option"
  pm_reward :: "string option"
  pm_reward_qty :: "int option"
  pm_starts_at :: "string option"
  pm_ends_at :: "string option"
  pm_min_order :: int
  pm_category :: "string option"
  pm_active :: bool
  pm_created_at :: string
  pm_updated_at :: string

record promotion_application =
  pa_id :: string
  pa_promotion_id :: string
  pa_sale_id :: string
  pa_discount :: int
  pa_description :: string
  pa_created_at :: string

subsection \<open>The discount engine\<close>

text \<open>The gates before any arithmetic: active, inside the time window, minimum order, no negative value.\<close>

definition check_gates ::
    "(string \<Rightarrow> int option) \<Rightarrow> promotion \<Rightarrow> sale \<Rightarrow> int \<Rightarrow> (core_error, unit) outcome" where
  "check_gates parse p s now =
     (if \<not> pm_active p then Err (Validation ''active'')
      else obind (case pm_starts_at p of
            None \<Rightarrow> Ok ()
          | Some t \<Rightarrow> obind (ok_or (parse t) (Validation ''starts_at''))
              (\<lambda>start. if now < start then Err (Validation ''starts_at'') else Ok ()))
        (\<lambda>_. obind (case pm_ends_at p of
            None \<Rightarrow> Ok ()
          | Some t \<Rightarrow> obind (ok_or (parse t) (Validation ''ends_at''))
              (\<lambda>finish. if finish < now then Err (Validation ''ends_at'') else Ok ()))
        (\<lambda>_. if minor_units (total s) < pm_min_order p then Err (Validation ''min_order_minor'')
          else if pm_value p < 0 then Err (Validation ''value_minor'')
          else Ok ())))"

definition in_scope :: "(string \<Rightarrow> string option) \<Rightarrow> string option \<Rightarrow> sale_line \<Rightarrow> bool" where
  "in_scope cat scope l =
     (case scope of None \<Rightarrow> True | Some c \<Rightarrow> cat (sline_sku l) = Some c)"

fun scoped_base ::
    "(string \<Rightarrow> string option) \<Rightarrow> string option \<Rightarrow> sale_line list \<Rightarrow> int \<Rightarrow> (core_error, int) outcome" where
  "scoped_base cat scope [] base = Ok base"
| "scoped_base cat scope (l # ls) base =
     (if \<not> in_scope cat scope l then scoped_base cat scope ls base
      else obind (ok_or (checked_add base (minor_units (sline_total l))) (Validation ''line_total''))
        (scoped_base cat scope ls))"

text \<open>
  One pass over the lines: quantity of the trigger, the lowest price of the reward and its quantity.
  The quantities are added with \<open>+=\<close>, which panics on overflow.
\<close>

fun buy_loop ::
    "(string \<Rightarrow> string option) \<Rightarrow> string option \<Rightarrow> string \<Rightarrow> string \<Rightarrow> sale_line list
       \<Rightarrow> int \<times> int option \<times> int \<Rightarrow> (core_error, int \<times> int option \<times> int) outcome" where
  "buy_loop cat scope trig rew [] acc = Ok acc"
| "buy_loop cat scope trig rew (l # ls) (tq, cheapest, rq) =
     (if \<not> in_scope cat scope l then buy_loop cat scope trig rew ls (tq, cheapest, rq)
      else
        (let tq' = if sline_sku l = trig then tq + sline_qty l else tq;
             rq' = if sline_sku l = rew then rq + sline_qty l else rq;
             price = minor_units (sline_unit_price l);
             cheapest' = if sline_sku l \<noteq> rew then cheapest
               else (case cheapest of
                   Some c \<Rightarrow> Some (if c \<le> price then c else price) | None \<Rightarrow> Some price)
         in if in_i64 tq' \<and> in_i64 rq' then buy_loop cat scope trig rew ls (tq', cheapest', rq')
            else Panic))"

definition buy_discount ::
    "(string \<Rightarrow> string option) \<Rightarrow> promotion \<Rightarrow> sale_line list \<Rightarrow> (core_error, int) outcome" where
  "buy_discount cat p ls =
     (let trig = (case pm_trigger p of None \<Rightarrow> [] | Some t \<Rightarrow> t);
          min_qty = (case pm_min_qty p of None \<Rightarrow> 1 | Some q \<Rightarrow> q);
          reward_qty = (case pm_reward_qty p of None \<Rightarrow> 1 | Some q \<Rightarrow> q);
          rew = (case pm_reward p of None \<Rightarrow> trig | Some r \<Rightarrow> r)
      in if trig = [] then Err (Validation ''trigger_sku'')
         else if min_qty < 1 then Err (Validation ''min_qty'')
         else if reward_qty < 1 then Err (Validation ''reward_qty'')
         else obind (buy_loop cat (pm_category p) trig rew ls (0, None, 0))
           (\<lambda>(tq, cheapest, rq). case cheapest of
               None \<Rightarrow> Ok 0
             | Some c \<Rightarrow>
                 if min_qty \<le> tq then
                   obind (ok_or (checked_mul c (min reward_qty rq)) (Validation ''reward_qty''))
                     (\<lambda>per_item. obind (ok_or (checked_mul per_item (pm_value p)) (Validation ''value_minor''))
                       (\<lambda>m. Ok (max (min (m sdiv 100) per_item) 0)))
                 else Ok 0))"

text \<open>\<open>Ord::clamp\<close> asserts that its bounds are in order.\<close>

definition clamp :: "int \<Rightarrow> int \<Rightarrow> int \<Rightarrow> (core_error, int) outcome" where
  "clamp x lo hi = (if hi < lo then Panic else Ok (if x < lo then lo else if hi < x then hi else x))"

definition compute_discount ::
    "(string \<Rightarrow> int option) \<Rightarrow> (string \<Rightarrow> string option) \<Rightarrow> promotion \<Rightarrow> sale \<Rightarrow> int
       \<Rightarrow> (core_error, int) outcome" where
  "compute_discount parse cat p s now =
     obind (ok_or (promotion_type_from_str (trim (pm_type p))) (Validation ''promo_type''))
     (\<lambda>pt. obind (check_gates parse p s now)
     (\<lambda>_. obind (case pm_category p of
            None \<Rightarrow> Ok (minor_units (total s))
          | Some c \<Rightarrow> scoped_base cat (Some c) (sale_lines s) 0)
     (\<lambda>base. obind (case pt of
            PercentagePromo \<Rightarrow>
              obind (ok_or (checked_mul base (pm_value p)) (Validation ''value_minor''))
                (\<lambda>m. Ok (min (m sdiv 100) base))
          | FixedAmount \<Rightarrow> Ok (min (pm_value p) base)
          | BuyXGetY \<Rightarrow> buy_discount cat p (sale_lines s))
     (\<lambda>d. clamp d 0 (minor_units (total s))))))"

definition compute_discount_unscoped ::
    "(string \<Rightarrow> int option) \<Rightarrow> promotion \<Rightarrow> sale \<Rightarrow> int \<Rightarrow> (core_error, int) outcome" where
  "compute_discount_unscoped parse p s now = compute_discount parse (\<lambda>_. None) p s now"

subsection \<open>Store operations\<close>

definition validate_promotion :: "promotion \<Rightarrow> core_error + unit" where
  "validate_promotion p =
     (if trim (pm_name p) = [] then Inl (Validation ''name'')
      else (case promotion_type_from_str (trim (pm_type p)) of
          None \<Rightarrow> Inl (Validation ''promo_type'')
        | Some pt \<Rightarrow>
            if pm_value p < 0 then Inl (Validation ''value_minor'')
            else if pm_min_order p < 0 then Inl (Validation ''min_order_minor'')
            else if pt \<noteq> FixedAmount \<and> (pm_value p < 1 \<or> 100 < pm_value p)
            then Inl (Validation ''value_minor'')
            else if pt = BuyXGetY \<and> trim (case pm_trigger p of None \<Rightarrow> [] | Some t \<Rightarrow> t) = []
            then Inl (Validation ''trigger_sku'')
            else if pt = BuyXGetY \<and> (case pm_min_qty p of None \<Rightarrow> False | Some q \<Rightarrow> q < 1)
            then Inl (Validation ''min_qty'')
            else if pt = BuyXGetY \<and> (case pm_reward_qty p of None \<Rightarrow> False | Some q \<Rightarrow> q < 1)
            then Inl (Validation ''reward_qty'')
            else Inr ()))"

record promo_store =
  promotions :: "promotion list"
  applications :: "promotion_application list"
  sale_rows :: "sale list"

definition list_promotions :: "promo_store \<Rightarrow> promotion list" where
  "list_promotions st = sort_key pm_name (promotions st)"

definition get_promotion :: "promo_store \<Rightarrow> string \<Rightarrow> promotion option" where
  "get_promotion st i = List.find (\<lambda>p. pm_id p = i) (promotions st)"

definition get_sale :: "promo_store \<Rightarrow> string \<Rightarrow> sale option" where
  "get_sale st i = List.find (\<lambda>s. sale_id s = i) (sale_rows st)"

definition create_promotion :: "promotion \<Rightarrow> promo_store \<Rightarrow> core_error + promotion \<times> promo_store" where
  "create_promotion p st =
     (case validate_promotion p of
        Inl e \<Rightarrow> Inl e
      | Inr _ \<Rightarrow>
          if pm_id p \<in> pm_id ` set (promotions st) then Inl Db
          else Inr (p, st\<lparr>promotions := promotions st @ [p]\<rparr>))"

text \<open>The update writes every column except the id and the creation time.\<close>

definition update_promotion :: "promotion \<Rightarrow> promo_store \<Rightarrow> core_error + promotion \<times> promo_store" where
  "update_promotion p st =
     (case validate_promotion p of
        Inl e \<Rightarrow> Inl e
      | Inr _ \<Rightarrow>
          if pm_id p \<notin> pm_id ` set (promotions st) then Inl (NotFound ''promotion'' (pm_id p))
          else Inr (p, st\<lparr>promotions := map (\<lambda>q. if pm_id q = pm_id p
                 then p\<lparr>pm_created_at := pm_created_at q\<rparr> else q) (promotions st)\<rparr>))"

definition delete_promotion :: "string \<Rightarrow> promo_store \<Rightarrow> core_error + promo_store" where
  "delete_promotion i st =
     (if i \<notin> pm_id ` set (promotions st) then Inl (NotFound ''promotion'' i)
      else if i \<in> pa_promotion_id ` set (applications st) then Inl Db
      else Inr (st\<lparr>promotions := filter (\<lambda>p. pm_id p \<noteq> i) (promotions st)\<rparr>))"

text \<open>Time stamps are compared as text; \<open>sql_now\<close> is the current time as SQLite writes it.\<close>

definition get_active_promotions :: "string \<Rightarrow> promo_store \<Rightarrow> promotion list" where
  "get_active_promotions sql_now st =
     sort_key pm_name (filter (\<lambda>p. pm_active p
       \<and> (case pm_ends_at p of None \<Rightarrow> True | Some t \<Rightarrow> sql_now < t)
       \<and> (case pm_starts_at p of None \<Rightarrow> True | Some t \<Rightarrow> t \<le> sql_now)) (promotions st))"

definition insert_application :: "promotion_application \<Rightarrow> promo_store \<Rightarrow> core_error + promo_store" where
  "insert_application a st =
     (if pa_id a \<in> pa_id ` set (applications st)
         \<or> pa_promotion_id a \<notin> pm_id ` set (promotions st)
         \<or> pa_sale_id a \<notin> sale_id ` set (sale_rows st)
      then Inl Db
      else Inr (st\<lparr>applications := applications st @ [a]\<rparr>))"

definition record_promotion_application ::
    "promotion_application \<Rightarrow> promo_store \<Rightarrow> core_error + promotion_application \<times> promo_store" where
  "record_promotion_application a st =
     (if pa_discount a < 0 then Inl (Validation ''discount_minor'')
      else (case insert_application a st of Inl e \<Rightarrow> Inl e | Inr st' \<Rightarrow> Inr (a, st')))"

definition already_applied :: "string \<Rightarrow> string \<Rightarrow> promo_store \<Rightarrow> bool" where
  "already_applied sid pid st \<longleftrightarrow>
     list_ex (\<lambda>a. pa_sale_id a = sid \<and> pa_promotion_id a = pid) (applications st)"

definition mk_application ::
    "(int \<Rightarrow> string) \<Rightarrow> string \<Rightarrow> int \<Rightarrow> promotion \<Rightarrow> string \<Rightarrow> int \<Rightarrow> currency \<Rightarrow> promotion_application" where
  "mk_application show_ts fresh now p sid d cur =
     \<lparr>pa_id = fresh, pa_promotion_id = pm_id p, pa_sale_id = sid, pa_discount = d,
      pa_description = pm_name p @ '': '' @ format_minor d cur @ '' off'', pa_created_at = show_ts now\<rparr>"

text \<open>Applying to a stored sale, first half: reads and the discount.\<close>

definition apply_check ::
    "(string \<Rightarrow> int option) \<Rightarrow> (int \<Rightarrow> string) \<Rightarrow> (string \<Rightarrow> string option) \<Rightarrow> string \<Rightarrow> string \<Rightarrow> string
       \<Rightarrow> int \<Rightarrow> promo_store \<Rightarrow> (core_error, promotion_application) outcome" where
  "apply_check parse show_ts cat fresh sid pid now st =
     obind (ok_or (get_promotion st pid) (NotFound ''promotion'' pid))
     (\<lambda>p. obind (ok_or (get_sale st sid) (NotFound ''sale'' sid))
     (\<lambda>s. obind (compute_discount parse cat p s now)
     (\<lambda>d. Ok (mk_application show_ts fresh now p sid d (sale_currency s)))))"

text \<open>Second half: the transaction.\<close>

definition apply_commit ::
    "promotion_application \<Rightarrow> promo_store \<Rightarrow> core_error + promotion_application \<times> promo_store" where
  "apply_commit a st =
     (if already_applied (pa_sale_id a) (pa_promotion_id a) st then Inl (Validation ''promotion_id'')
      else (case get_sale st (pa_sale_id a) of
          None \<Rightarrow> Inl Db
        | Some s \<Rightarrow>
            if status s \<noteq> Pending then Inl (Validation ''sale_id'')
            else if minor_units (total s) < pa_discount a then Inl (Validation ''discount_minor'')
            else (case insert_application a st of
                Inl e \<Rightarrow> Inl e
              | Inr st' \<Rightarrow>
                  (let hit = (\<lambda>r. sale_id r = pa_sale_id a \<and> status r = Pending
                                 \<and> pa_discount a \<le> minor_units (total r))
                   in if \<not> list_ex hit (sale_rows st') then Inl (Validation ''sale_id'')
                      else Inr (a, st'\<lparr>sale_rows := map (\<lambda>r. if hit r
                          then r\<lparr>total := (total r)\<lparr>minor_units := minor_units (total r) - pa_discount a\<rparr>,
                                 updated_at := pa_created_at a, version := version r + 1\<rparr>
                          else r) (sale_rows st')\<rparr>)))))"

definition apply_promotion_to_sale ::
    "(string \<Rightarrow> int option) \<Rightarrow> (int \<Rightarrow> string) \<Rightarrow> (string \<Rightarrow> string option) \<Rightarrow> string \<Rightarrow> string \<Rightarrow> string
       \<Rightarrow> int \<Rightarrow> promo_store \<Rightarrow> (core_error, promotion_application \<times> promo_store) outcome" where
  "apply_promotion_to_sale parse show_ts cat fresh sid pid now st =
     obind (apply_check parse show_ts cat fresh sid pid now st) (\<lambda>a. of_sum (apply_commit a st))"

definition get_promotion_applications_for_sale :: "promo_store \<Rightarrow> string \<Rightarrow> promotion_application list" where
  "get_promotion_applications_for_sale st sid =
     sort_key pa_created_at (filter (\<lambda>a. pa_sale_id a = sid) (applications st))"

text \<open>
  At checkout: every selected promotion is computed against the total left by the ones before it.
  \<open>fresh n\<close> is the id of the n-th application.
\<close>

fun checkout_loop ::
    "(string \<Rightarrow> int option) \<Rightarrow> (int \<Rightarrow> string) \<Rightarrow> (string \<Rightarrow> string option) \<Rightarrow> (nat \<Rightarrow> string) \<Rightarrow> int \<Rightarrow> promo_store
       \<Rightarrow> string list \<Rightarrow> string list \<Rightarrow> sale \<Rightarrow> promotion_application list
       \<Rightarrow> (core_error, sale \<times> promotion_application list) outcome" where
  "checkout_loop parse show_ts cat fresh now st seen [] s apps = Ok (s, apps)"
| "checkout_loop parse show_ts cat fresh now st seen (i # is) s apps =
     (if i \<in> set seen then Err (Validation ''promotion_id'')
      else obind (ok_or (get_promotion st i) (NotFound ''promotion'' i))
        (\<lambda>p. obind (compute_discount parse cat p s now)
        (\<lambda>d. obind (ok_or (checked_sub (minor_units (total s)) d) (Validation ''discount_minor''))
        (\<lambda>remaining. checkout_loop parse show_ts cat fresh now st (i # seen) is
          (s\<lparr>total := (total s)\<lparr>minor_units := remaining\<rparr>\<rparr>)
          (apps @ [mk_application show_ts (fresh (length apps)) now p (sale_id s) d (currency (total s))])))))"

definition compute_checkout_promotions ::
    "(string \<Rightarrow> int option) \<Rightarrow> (int \<Rightarrow> string) \<Rightarrow> (string \<Rightarrow> string option) \<Rightarrow> (nat \<Rightarrow> string) \<Rightarrow> int \<Rightarrow> promo_store
       \<Rightarrow> string list \<Rightarrow> sale \<Rightarrow> (core_error, sale \<times> promotion_application list) outcome" where
  "compute_checkout_promotions parse show_ts cat fresh now st ids s =
     checkout_loop parse show_ts cat fresh now st [] ids s []"

fun persist_checkout_applications ::
    "string \<Rightarrow> promotion_application list \<Rightarrow> promo_store \<Rightarrow> core_error + promo_store" where
  "persist_checkout_applications sid [] st = Inr st"
| "persist_checkout_applications sid (a # as) st =
     (if pa_sale_id a \<noteq> sid then Inl (Validation ''sale_id'')
      else if already_applied (pa_sale_id a) (pa_promotion_id a) st then Inl (Validation ''promotion_id'')
      else (case insert_application a st of
          Inl e \<Rightarrow> Inl e
        | Inr st' \<Rightarrow> persist_checkout_applications sid as st'))"

subsection \<open>Exact value of the discount\<close>

text \<open>The lines in scope, and what the discount is meant to be before any overflow.\<close>

definition lines_in_scope :: "(string \<Rightarrow> string option) \<Rightarrow> promotion \<Rightarrow> sale \<Rightarrow> sale_line list" where
  "lines_in_scope cat p s = filter (in_scope cat (pm_category p)) (sale_lines s)"

definition qty_of :: "sku \<Rightarrow> sale_line list \<Rightarrow> int" where
  "qty_of k ls = sum_list (map sline_qty (filter (\<lambda>l. sline_sku l = k) ls))"

definition prices_of :: "sku \<Rightarrow> sale_line list \<Rightarrow> int list" where
  "prices_of k ls = map (\<lambda>l. minor_units (sline_unit_price l)) (filter (\<lambda>l. sline_sku l = k) ls)"

definition or_one :: "int option \<Rightarrow> int" where
  "or_one q = (case q of None \<Rightarrow> 1 | Some n \<Rightarrow> n)"

definition trigger_of :: "promotion \<Rightarrow> string" where
  "trigger_of p = (case pm_trigger p of None \<Rightarrow> [] | Some t \<Rightarrow> t)"

definition reward_of :: "promotion \<Rightarrow> string" where
  "reward_of p = (case pm_reward p of None \<Rightarrow> trigger_of p | Some r \<Rightarrow> r)"

definition discount_base :: "(string \<Rightarrow> string option) \<Rightarrow> promotion \<Rightarrow> sale \<Rightarrow> int" where
  "discount_base cat p s =
     (if pm_category p = None then minor_units (total s)
      else sum_list (map (\<lambda>l. minor_units (sline_total l)) (lines_in_scope cat p s)))"

definition reward_value :: "(string \<Rightarrow> string option) \<Rightarrow> promotion \<Rightarrow> sale \<Rightarrow> int" where
  "reward_value cat p s =
     (let ls = lines_in_scope cat p s; prices = prices_of (reward_of p) ls
      in if prices = [] \<or> qty_of (trigger_of p) ls < or_one (pm_min_qty p) then 0
         else Min (set prices) * min (or_one (pm_reward_qty p)) (qty_of (reward_of p) ls))"

definition discount_spec :: "(string \<Rightarrow> string option) \<Rightarrow> promotion \<Rightarrow> sale \<Rightarrow> int" where
  "discount_spec cat p s =
     max 0 (min (minor_units (total s))
       (case promotion_type_from_str (trim (pm_type p)) of
          Some PercentagePromo \<Rightarrow> discount_base cat p s * pm_value p div 100
        | Some FixedAmount \<Rightarrow> min (pm_value p) (discount_base cat p s)
        | Some BuyXGetY \<Rightarrow> reward_value cat p s * pm_value p div 100
        | None \<Rightarrow> 0))"

text \<open>
  Sales whose amounts leave room for a percentage: no negative amounts or quantities, and a hundred
  times the line totals, the total, and any price times all quantities fit in \<open>i64\<close>.
\<close>

definition sale_bounded :: "sale \<Rightarrow> bool" where
  "sale_bounded s \<longleftrightarrow>
     0 \<le> minor_units (total s) \<and> minor_units (total s) * 100 \<le> i64_max
     \<and> list_all (\<lambda>l. 0 \<le> sline_qty l \<and> 0 \<le> minor_units (sline_total l) \<and> 0 \<le> minor_units (sline_unit_price l)) (sale_lines s)
     \<and> sum_list (map (\<lambda>l. minor_units (sline_total l)) (sale_lines s)) * 100 \<le> i64_max
     \<and> sum_list (map sline_qty (sale_lines s)) \<le> i64_max
     \<and> list_all (\<lambda>l. minor_units (sline_unit_price l) * sum_list (map sline_qty (sale_lines s)) * 100 \<le> i64_max) (sale_lines s)"

lemma sum_filter_le:
  fixes f :: "'a \<Rightarrow> int"
  shows "list_all (\<lambda>x. 0 \<le> f x) xs \<Longrightarrow> 0 \<le> sum_list (map f (filter P xs))
     \<and> sum_list (map f (filter P xs)) \<le> sum_list (map f xs)"
  by (induction xs) auto

lemma scoped_base_exact:
  "list_all (\<lambda>l. 0 \<le> minor_units (sline_total l)) ls \<Longrightarrow> 0 \<le> b \<Longrightarrow>
     b + sum_list (map (\<lambda>l. minor_units (sline_total l)) ls) \<le> i64_max \<Longrightarrow>
     scoped_base cat sc ls b
       = Ok (b + sum_list (map (\<lambda>l. minor_units (sline_total l)) (filter (in_scope cat sc) ls)))"
proof (induction ls arbitrary: b)
  case (Cons l ls)
  have "0 \<le> sum_list (map (\<lambda>l. minor_units (sline_total l)) ls)"
    using Cons.prems(1) sum_filter_le [of "\<lambda>l. minor_units (sline_total l)" ls "\<lambda>_. True"] by simp
  then have "in_i64 (b + minor_units (sline_total l))" using Cons.prems by (simp add: in_i64_def)
  then show ?case using Cons by (simp add: checked_add_def fit_i64_def ac_simps)
qed simp

definition cheapest_of :: "int option \<Rightarrow> int list \<Rightarrow> int option" where
  "cheapest_of c ps = (case c of
      None \<Rightarrow> if ps = [] then None else Some (Min (set ps))
    | Some x \<Rightarrow> Some (Min (insert x (set ps))))"

lemma cheapest_of_Cons:
  "cheapest_of c (x # ps) = cheapest_of (case c of Some y \<Rightarrow> Some (if y \<le> x then y else x) | None \<Rightarrow> Some x) ps"
  by (cases c; cases "ps = []") (auto simp: cheapest_of_def min_def insert_commute)

lemma buy_loop_exact:
  "list_all (\<lambda>l. 0 \<le> sline_qty l) ls \<Longrightarrow> 0 \<le> tq \<Longrightarrow> 0 \<le> rq \<Longrightarrow>
     tq + sum_list (map sline_qty ls) \<le> i64_max \<Longrightarrow> rq + sum_list (map sline_qty ls) \<le> i64_max \<Longrightarrow>
     buy_loop cat sc trig rew ls (tq, c, rq)
       = Ok (tq + qty_of trig (filter (in_scope cat sc) ls),
             cheapest_of c (prices_of rew (filter (in_scope cat sc) ls)),
             rq + qty_of rew (filter (in_scope cat sc) ls))"
proof (induction ls arbitrary: tq c rq)
  case Nil
  then show ?case by (simp add: qty_of_def prices_of_def cheapest_of_def split: option.split)
next
  case (Cons l ls)
  have "0 \<le> sum_list (map sline_qty ls)"
    using Cons.prems(1) sum_filter_le [of sline_qty ls "\<lambda>_. True"] by simp
  then have q: "in_i64 (tq + sline_qty l)" "in_i64 tq" "in_i64 (rq + sline_qty l)" "in_i64 rq"
    using Cons.prems by (simp_all add: in_i64_def)
  show ?case
    using Cons.IH [of "if in_scope cat sc l \<and> sline_sku l = trig then tq + sline_qty l else tq"
        "if in_scope cat sc l \<and> sline_sku l = rew then rq + sline_qty l else rq"] Cons.prems q
    by (auto simp: Let_def qty_of_def prices_of_def cheapest_of_Cons ac_simps)
qed

lemma percent_exact:
  assumes "0 \<le> b" and "b * 100 \<le> i64_max" and "0 \<le> v" and "v \<le> 100"
  shows "checked_mul b v = Some (b * v)" and "min ((b * v) sdiv 100) b = b * v div 100" and "0 \<le> b * v div 100"
proof -
  have le: "0 \<le> b * v" "b * v \<le> b * 100" using assms by (simp_all add: mult_left_mono)
  then show "checked_mul b v = Some (b * v)" using assms(2) by (simp add: checked_mul_def in_i64_def)
  show "0 \<le> b * v div 100" using le by simp
  have "b * v div 100 \<le> b" using zdiv_mono1 [OF le(2), of 100] by simp
  then show "min ((b * v) sdiv 100) b = b * v div 100" using le by (simp add: sdiv_nonneg)
qed

lemma clamp_total: "0 \<le> t \<Longrightarrow> clamp d 0 t = Ok (max 0 (min t d))"
  by (simp add: clamp_def)

lemma clamp_Ok: "clamp d 0 t = Ok x \<Longrightarrow> 0 \<le> x \<and> x \<le> t"
  by (auto simp: clamp_def split: if_splits)

lemma scope_sums:
  assumes "sale_bounded s"
  shows "0 \<le> discount_base cat p s" and "discount_base cat p s * 100 \<le> i64_max"
    and "(case pm_category p of None \<Rightarrow> Ok (minor_units (total s))
          | Some c \<Rightarrow> scoped_base cat (Some c) (sale_lines s) 0) = Ok (discount_base cat p s)"
proof -
  let ?f = "\<lambda>l. minor_units (sline_total l)"
  have nonneg: "list_all (\<lambda>l. 0 \<le> ?f l) (sale_lines s)"
    using assms by (simp add: sale_bounded_def list_all_iff)
  have sum: "0 \<le> sum_list (map ?f (lines_in_scope cat p s))"
    "sum_list (map ?f (lines_in_scope cat p s)) \<le> sum_list (map ?f (sale_lines s))"
    using sum_filter_le [OF nonneg] by (simp_all add: lines_in_scope_def)
  show "0 \<le> discount_base cat p s" "discount_base cat p s * 100 \<le> i64_max"
    using sum assms by (simp_all add: discount_base_def sale_bounded_def)
  show "(case pm_category p of None \<Rightarrow> Ok (minor_units (total s))
          | Some c \<Rightarrow> scoped_base cat (Some c) (sale_lines s) 0) = Ok (discount_base cat p s)"
    using scoped_base_exact [OF nonneg, of 0 cat] assms
    by (cases "pm_category p") (simp_all add: discount_base_def lines_in_scope_def sale_bounded_def)
qed

lemma reward_bounds:
  assumes "sale_bounded s" and "1 \<le> or_one (pm_reward_qty p)"
  shows "0 \<le> reward_value cat p s" and "reward_value cat p s * 100 \<le> i64_max"
proof -
  let ?ls = "lines_in_scope cat p s" and ?q = "sum_list (map sline_qty (sale_lines s))"
  let ?ps = "prices_of (reward_of p) ?ls" and ?u = "min (or_one (pm_reward_qty p)) (qty_of (reward_of p) ?ls)"
  have qs: "list_all (\<lambda>l. 0 \<le> sline_qty l) (sale_lines s)"
    using assms(1) by (simp add: sale_bounded_def list_all_iff)
  have "0 \<le> qty_of (reward_of p) ?ls" "qty_of (reward_of p) ?ls \<le> ?q"
    using sum_filter_le [OF qs] by (simp_all add: qty_of_def lines_in_scope_def)
  then have u: "0 \<le> ?u" "?u \<le> ?q" using assms(2) by simp_all
  have "0 \<le> reward_value cat p s \<and> reward_value cat p s * 100 \<le> i64_max"
  proof (cases "?ps = [] \<or> qty_of (trigger_of p) ?ls < or_one (pm_min_qty p)")
    case False
    then have "Min (set ?ps) \<in> set ?ps" by simp
    then obtain l where l: "l \<in> set (sale_lines s)" "minor_units (sline_unit_price l) = Min (set ?ps)"
      by (auto simp: prices_of_def lines_in_scope_def)
    have c: "0 \<le> Min (set ?ps)" "Min (set ?ps) * ?q * 100 \<le> i64_max"
      using assms(1) l by (auto simp: sale_bounded_def list_all_iff)
    have "Min (set ?ps) * ?u \<le> Min (set ?ps) * ?q" using c(1) u(2) by (rule mult_left_mono [rotated])
    then have "Min (set ?ps) * ?u * 100 \<le> i64_max" using c(2) by linarith
    moreover have "reward_value cat p s = Min (set ?ps) * ?u" using False by (simp add: reward_value_def Let_def)
    ultimately show ?thesis using c(1) u(1) by simp
  qed (simp add: reward_value_def Let_def)
  then show "0 \<le> reward_value cat p s" "reward_value cat p s * 100 \<le> i64_max" by simp_all
qed

lemma buy_discount_alt:
  "buy_discount cat p ls =
     (if trigger_of p = [] then Err (Validation ''trigger_sku'')
      else if or_one (pm_min_qty p) < 1 then Err (Validation ''min_qty'')
      else if or_one (pm_reward_qty p) < 1 then Err (Validation ''reward_qty'')
      else obind (buy_loop cat (pm_category p) (trigger_of p) (reward_of p) ls (0, None, 0))
        (\<lambda>(tq, cheapest, rq). case cheapest of
            None \<Rightarrow> Ok 0
          | Some c \<Rightarrow>
              if or_one (pm_min_qty p) \<le> tq then
                obind (ok_or (checked_mul c (min (or_one (pm_reward_qty p)) rq)) (Validation ''reward_qty''))
                  (\<lambda>per_item. obind (ok_or (checked_mul per_item (pm_value p)) (Validation ''value_minor''))
                    (\<lambda>m. Ok (max (min (m sdiv 100) per_item) 0)))
              else Ok 0))"
  unfolding buy_discount_def Let_def trigger_of_def reward_of_def or_one_def by (rule refl)

lemma buy_discount_exact:
  assumes "sale_bounded s" and "trigger_of p \<noteq> []" and "1 \<le> or_one (pm_min_qty p)"
    and "1 \<le> or_one (pm_reward_qty p)" and "0 \<le> pm_value p" and "pm_value p \<le> 100"
  shows "buy_discount cat p (sale_lines s) = Ok (reward_value cat p s * pm_value p div 100)"
proof -
  let ?ls = "lines_in_scope cat p s" and ?ps = "prices_of (reward_of p) (lines_in_scope cat p s)"
  have "list_all (\<lambda>l. 0 \<le> sline_qty l) (sale_lines s)" "sum_list (map sline_qty (sale_lines s)) \<le> i64_max"
    using assms(1) by (simp_all add: sale_bounded_def list_all_iff)
  then have loop: "buy_loop cat (pm_category p) (trigger_of p) (reward_of p) (sale_lines s) (0, None, 0)
      = Ok (qty_of (trigger_of p) ?ls, cheapest_of None ?ps, qty_of (reward_of p) ?ls)"
    using buy_loop_exact [of "sale_lines s" 0 0] by (simp add: lines_in_scope_def)
  note r = reward_bounds [OF assms(1,4), of cat]
  note v = percent_exact [OF r assms(5,6)]
  have start: "buy_discount cat p (sale_lines s) =
      (case cheapest_of None ?ps of None \<Rightarrow> Ok 0
       | Some c \<Rightarrow> if or_one (pm_min_qty p) \<le> qty_of (trigger_of p) ?ls then
           obind (ok_or (checked_mul c (min (or_one (pm_reward_qty p)) (qty_of (reward_of p) ?ls))) (Validation ''reward_qty''))
             (\<lambda>per_item. obind (ok_or (checked_mul per_item (pm_value p)) (Validation ''value_minor''))
               (\<lambda>m. Ok (max (min (m sdiv 100) per_item) 0)))
           else Ok 0)"
    using assms(2-4) by (simp add: buy_discount_alt loop del: obind_Ok)
  show ?thesis
  proof (cases "?ps = [] \<or> qty_of (trigger_of p) ?ls < or_one (pm_min_qty p)")
    case True
    then show ?thesis by (auto simp: start cheapest_of_def reward_value_def Let_def)
  next
    case False
    then have rv: "reward_value cat p s = Min (set ?ps) * min (or_one (pm_reward_qty p)) (qty_of (reward_of p) ?ls)"
      by (simp add: reward_value_def Let_def)
    have "checked_mul (Min (set ?ps)) (min (or_one (pm_reward_qty p)) (qty_of (reward_of p) ?ls)) = Some (reward_value cat p s)"
      using r by (simp add: checked_mul_def rv in_i64_def)
    then show ?thesis using False v by (simp add: start cheapest_of_def)
  qed
qed

lemma validated:
  assumes "validate_promotion p = Inr ()"
  shows "\<exists>pt. promotion_type_from_str (trim (pm_type p)) = Some pt \<and> 0 \<le> pm_value p \<and> 0 \<le> pm_min_order p
     \<and> (pt \<noteq> FixedAmount \<longrightarrow> pm_value p \<le> 100)
     \<and> (pt = BuyXGetY \<longrightarrow> trigger_of p \<noteq> [] \<and> 1 \<le> or_one (pm_min_qty p) \<and> 1 \<le> or_one (pm_reward_qty p))"
proof -
  have "trim [] = []" by (simp add: trim_def)
  then show ?thesis using assms
    by (auto simp: validate_promotion_def trigger_of_def or_one_def split: if_splits option.splits)
qed

text \<open>
  C35. On a promotion that passed validation and a sale without negative amounts whose amounts leave
  room for a percentage, the engine either reports the first gate that is closed or returns exactly
  the discount of the rule: the rounded-down percentage of the base, the fixed amount capped by
  the base, or the percentage of the cheapest rewarded price for the rewarded quantity, the base
  being the total or the lines of the category; never more than the total.
\<close>

theorem promotion_discount_exact:
  assumes "validate_promotion p = Inr ()" and "sale_bounded s"
  shows "compute_discount parse cat p s now = obind (check_gates parse p s now) (\<lambda>_. Ok (discount_spec cat p s))
    \<and> 0 \<le> discount_spec cat p s \<and> discount_spec cat p s \<le> minor_units (total s)"
proof -
  obtain pt where pt: "promotion_type_from_str (trim (pm_type p)) = Some pt"
    and v: "0 \<le> pm_value p" "pt \<noteq> FixedAmount \<longrightarrow> pm_value p \<le> 100"
    and b: "pt = BuyXGetY \<longrightarrow> trigger_of p \<noteq> [] \<and> 1 \<le> or_one (pm_min_qty p) \<and> 1 \<le> or_one (pm_reward_qty p)"
    using validated [OF assms(1)] by blast
  have t: "0 \<le> minor_units (total s)" using assms(2) by (simp add: sale_bounded_def)
  note base = scope_sums [OF assms(2), of cat p]
  show ?thesis
    using pt v b t base(3) clamp_total [OF t] buy_discount_exact [OF assms(2), of p cat]
      percent_exact [OF base(1,2) v(1)]
    by (cases pt) (simp_all add: compute_discount_def discount_spec_def)
qed

text \<open>Three coffees and a croissant; two coffees give half off a croissant.\<close>

definition demo_line :: "string \<Rightarrow> int \<Rightarrow> int \<Rightarrow> sale_line" where
  "demo_line k q price =
     (let idr = (\<lambda>m. \<lparr>minor_units = m, currency = Currency CHR ''I'' CHR ''D'' CHR ''R''\<rparr>) in
      \<lparr>sline_id = k, sline_sale_id = ''s1'', sline_sku = k, sline_qty = q, sline_unit_price = idr price,
       sline_total = idr (q * price), line_position = 1, tax_amount = idr 0, tax_rate_id = None,
       tax_breakdown_json = None, serial_number = None, sline_course = None, modifiers_json = None\<rparr>)"

definition promo_demo_sale :: sale where
  "promo_demo_sale =
     (let idr = (\<lambda>m. \<lparr>minor_units = m, currency = Currency CHR ''I'' CHR ''D'' CHR ''R''\<rparr>) in
      \<lparr>sale_id = ''s1'', status = Pending, total = idr 75000, sale_line_count = 2,
       sale_currency = Currency CHR ''I'' CHR ''D'' CHR ''R'', payment_method = None, tendered_minor = None,
       user_id = None, created_at = [], updated_at = [],
       sale_lines = [demo_line ''coffee'' 3 20000, demo_line ''croissant'' 1 15000],
       sale_discount_percent = 0, sale_discount_label = None, subtotal = idr 75000, tax_total = idr 0,
       customer_id = None, base_currency = None, base_total_minor = None, tender_rate_millionths = None,
       tip_minor = 0, service_charge_minor = 0, version = 1\<rparr>)"

definition demo_promotion :: "string \<Rightarrow> string \<Rightarrow> int \<Rightarrow> promotion" where
  "demo_promotion i ty v =
     \<lparr>pm_id = i, pm_name = ''Promo'', pm_description = [], pm_type = ty, pm_value = v, pm_min_qty = Some 2,
      pm_trigger = Some ''coffee'', pm_reward = Some ''croissant'', pm_reward_qty = None, pm_starts_at = None,
      pm_ends_at = None, pm_min_order = 0, pm_category = None, pm_active = True, pm_created_at = [],
      pm_updated_at = []\<rparr>"

theorem promotion_discount_exact_witness:
  "compute_discount (\<lambda>_. None) (\<lambda>_. None) (demo_promotion ''p1'' ''buy_x_get_y'' 50) promo_demo_sale 0 = Ok 7500"
proof -
  let ?p = "demo_promotion ''p1'' ''buy_x_get_y'' 50"
  have "validate_promotion ?p = Inr ()" by code_simp
  moreover have "sale_bounded promo_demo_sale" by code_simp
  moreover have "check_gates (\<lambda>_. None) ?p promo_demo_sale 0 = Ok ()"
    by (simp add: check_gates_def demo_promotion_def promo_demo_sale_def Let_def)
  moreover have "discount_spec (\<lambda>_. None) ?p promo_demo_sale = 7500" by code_simp
  ultimately show ?thesis
    using promotion_discount_exact [of ?p promo_demo_sale "\<lambda>_. None" "\<lambda>_. None" 0] by simp
qed

subsection \<open>Stacking at checkout\<close>

definition less_total :: "int \<Rightarrow> sale \<Rightarrow> sale" where
  "less_total d s = s\<lparr>total := (total s)\<lparr>minor_units := minor_units (total s) - d\<rparr>\<rparr>"

lemma less_total_simps [simp]:
  "less_total 0 s = s" "less_total a (less_total b s) = less_total (b + a) s"
  "minor_units (total (less_total d s)) = minor_units (total s) - d"
  by (simp_all add: less_total_def)

lemma compute_discount_bounds:
  "compute_discount parse cat p s now = Ok d \<Longrightarrow> 0 \<le> d \<and> d \<le> minor_units (total s)"
  by (auto simp: compute_discount_def dest: clamp_Ok)

lemma checkout_loop_stacks:
  "checkout_loop parse show_ts cat fresh now st seen ids s apps0 = Ok (s', apps) \<Longrightarrow>
     \<exists>new. apps = apps0 @ new \<and> map pa_promotion_id new = ids \<and> distinct ids \<and> set ids \<inter> set seen = {}
       \<and> s' = less_total (sum_list (map pa_discount new)) s
       \<and> (ids \<noteq> [] \<longrightarrow> 0 \<le> minor_units (total s'))
       \<and> (\<forall>n < length ids. \<exists>p. get_promotion st (ids ! n) = Some p
            \<and> compute_discount parse cat p (less_total (sum_list (map pa_discount (take n new))) s) now
                = Ok (pa_discount (new ! n)))"
proof (induction ids arbitrary: seen s apps0)
  case (Cons i ids)
  obtain p d where p: "get_promotion st i = Some p" and d: "compute_discount parse cat p s now = Ok d"
    and seen: "i \<notin> set seen"
    and loop: "checkout_loop parse show_ts cat fresh now st (i # seen) ids (less_total d s)
        (apps0 @ [mk_application show_ts (fresh (length apps0)) now p (sale_id s) d (currency (total s))]) = Ok (s', apps)"
    using Cons.prems by (auto simp: less_total_def checked_sub_def split: if_splits)
  let ?a = "mk_application show_ts (fresh (length apps0)) now p (sale_id s) d (currency (total s))"
  obtain new where new: "apps = (apps0 @ [?a]) @ new" "map pa_promotion_id new = ids" "distinct ids"
      "set ids \<inter> set (i # seen) = {}" "s' = less_total (sum_list (map pa_discount new)) (less_total d s)"
      "ids \<noteq> [] \<longrightarrow> 0 \<le> minor_units (total s')"
    and each: "\<And>n. n < length ids \<Longrightarrow> \<exists>p. get_promotion st (ids ! n) = Some p
        \<and> compute_discount parse cat p (less_total (sum_list (map pa_discount (take n new))) (less_total d s)) now
            = Ok (pa_discount (new ! n))"
    using Cons.IH [OF loop] by blast
  have a: "pa_promotion_id ?a = i" "pa_discount ?a = d"
    using p by (auto simp: mk_application_def get_promotion_def find_Some_iff)
  have "0 \<le> minor_units (total s')" using new(2,5,6) compute_discount_bounds [OF d] by (cases "ids = []") auto
  moreover have "\<exists>p. get_promotion st ((i # ids) ! n) = Some p
      \<and> compute_discount parse cat p (less_total (sum_list (map pa_discount (take n (?a # new)))) s) now
          = Ok (pa_discount ((?a # new) ! n))" if "n < length (i # ids)" for n
    using that p d each [of "n - 1"] a(2) by (cases n) simp_all
  ultimately show ?case
    using new(1-5) seen a by (intro exI [of _ "?a # new"]) auto
qed simp

text \<open>
  The promotions chosen at checkout stack: each is computed by the engine against the total the
  ones before it left, in the order chosen and each at most once; the sale ends with exactly the sum
  of the recorded discounts taken off, nothing else of it changed and its total not negative.
\<close>

theorem checkout_promotions_stack:
  assumes "compute_checkout_promotions parse show_ts cat fresh now st ids s = Ok (s', apps)"
  shows "map pa_promotion_id apps = ids \<and> distinct ids
    \<and> s' = less_total (sum_list (map pa_discount apps)) s
    \<and> (ids \<noteq> [] \<longrightarrow> 0 \<le> minor_units (total s'))
    \<and> (\<forall>n < length ids. \<exists>p. get_promotion st (ids ! n) = Some p
         \<and> compute_discount parse cat p (less_total (sum_list (map pa_discount (take n apps))) s) now
             = Ok (pa_discount (apps ! n)))"
  using checkout_loop_stacks [OF assms [unfolded compute_checkout_promotions_def]] by auto

definition half_store :: promo_store where
  "half_store = \<lparr>promotions = [demo_promotion ''p1'' ''percentage'' 50, demo_promotion ''p2'' ''percentage'' 50],
     applications = [], sale_rows = [promo_demo_sale]\<rparr>"

lemma half_off:
  assumes "0 \<le> t" and "t \<le> 75000" and "minor_units (total s) = t"
  shows "compute_discount (\<lambda>_. None) cat (demo_promotion i ''percentage'' 50) s 0 = Ok (t * 50 div 100)"
proof -
  have "promotion_type_from_str (trim ''percentage'') = Some PercentagePromo" by code_simp
  moreover have "check_gates (\<lambda>_. None) (demo_promotion i ''percentage'' 50) s 0 = Ok ()"
    using assms by (simp add: check_gates_def demo_promotion_def)
  moreover have "t * 50 div 100 \<le> t" using assms(1) by linarith
  ultimately show ?thesis
    using assms percent_exact [of t 50] clamp_total [OF assms(1), of "t * 50 div 100"]
    by (simp add: compute_discount_def demo_promotion_def)
qed

lemma demo_ids [simp]:
  "pm_id (demo_promotion i ty v) = i" "minor_units (total promo_demo_sale) = 75000" "sale_id promo_demo_sale = ''s1''"
  "status promo_demo_sale = Pending"
  by (simp_all add: demo_promotion_def promo_demo_sale_def Let_def)

theorem checkout_promotions_stack_witness:
  "\<exists>s' apps. compute_checkout_promotions (\<lambda>_. None) (\<lambda>_. ''now'') (\<lambda>_. None) (\<lambda>n. replicate n CHR ''a'') 0
       half_store [''p1'', ''p2''] promo_demo_sale = Ok (s', apps)
     \<and> map pa_promotion_id apps = [''p1'', ''p2''] \<and> minor_units (total s') = 18750
     \<and> sum_list (map pa_discount apps) = 56250"
proof -
  let ?c = "compute_checkout_promotions (\<lambda>_. None) (\<lambda>_. ''now'') (\<lambda>_. None) (\<lambda>n. replicate n CHR ''a'') 0
       half_store [''p1'', ''p2''] promo_demo_sale"
  obtain s' apps where c: "?c = Ok (s', apps)" and d: "map pa_discount apps = [37500, 18750]"
    using half_off [of 75000] half_off [of 37500]
    by (simp add: compute_checkout_promotions_def get_promotion_def half_store_def mk_application_def
        checked_sub_def in_i64_def)
  then show ?thesis using checkout_promotions_stack [OF c] by simp
qed

text \<open>
  A sale of 75000 and two promotions of one half each. Applied one after the other they leave 18750;
  when both discounts are computed before either commits, both commits succeed and nothing is left
  to pay: the guard compares the stale discount with the new total only.
\<close>

definition apply_both :: "promo_store \<Rightarrow> bool \<Rightarrow> int list" where
  "apply_both st stale =
     (case apply_check (\<lambda>_. None) (\<lambda>_. []) (\<lambda>_. None) ''a1'' ''s1'' ''p1'' 0 st of
        Ok a \<Rightarrow>
          (case apply_commit a st of
             Inr (_, st1) \<Rightarrow>
               (case apply_check (\<lambda>_. None) (\<lambda>_. []) (\<lambda>_. None) ''a2'' ''s1'' ''p2'' 0 (if stale then st else st1) of
                  Ok b \<Rightarrow> (case apply_commit b st1 of
                      Inr (_, st2) \<Rightarrow> map (\<lambda>s. minor_units (total s)) (sale_rows st2) | Inl _ \<Rightarrow> [])
                | _ \<Rightarrow> [])
           | Inl _ \<Rightarrow> [])
      | _ \<Rightarrow> [])"

lemma stale_discount_takes_old_total:
  "apply_both half_store False = [18750] \<and> apply_both half_store True = [0]"
proof -
  have "apply_both half_store stale = [if stale then 0 else 18750]" for stale
    using half_off [of 75000] half_off [of 37500]
    by (simp add: apply_both_def apply_check_def apply_commit_def half_store_def get_promotion_def get_sale_def
        mk_application_def already_applied_def insert_application_def)
  then show ?thesis by simp
qed

subsection \<open>Discounts account for the totals\<close>

definition discounts_on :: "string \<Rightarrow> promo_store \<Rightarrow> int" where
  "discounts_on sid st = sum_list (map pa_discount (filter (\<lambda>a. pa_sale_id a = sid) (applications st)))"

text \<open>
  What happens to the tables over time. \<open>PSale\<close> is the insert of a sale by another component, which
  is refused on a used id; \<open>PStatus\<close> is any change of a sale's status. \<open>PCheckout\<close> is a checkout with
  promotions: \<open>compute_checkout_promotions\<close> reduces the sale before it is stored, reading the
  promotions in a store that may be older than the one the checkout commits to, and the transaction
  inserts the reduced sale and \<open>persist_checkout_applications\<close> its applications, or nothing.
  \<open>PApply\<close> commits the application another client computed from an earlier read, with the discount
  \<open>compute_discount\<close> then returned, which is never negative. The second part of the state remembers
  every sale's total before any promotion. \<open>record_promotion_application\<close>, which writes a row and
  leaves the sale alone, has no caller outside the tests and is no event.
\<close>

record promo_env =
  env_parse :: "string \<Rightarrow> int option"
  env_show :: "int \<Rightarrow> string"
  env_category :: "string \<Rightarrow> string option"
  env_fresh :: "nat \<Rightarrow> string"
  env_now :: int

datatype promo_event =
    PSale sale
  | PStatus string sale_status
  | PCreate promotion
  | PUpdate promotion
  | PDelete string
  | PCheckout promo_env promo_store "string list" sale
  | PApply promotion_application

fun promo_step :: "promo_event \<Rightarrow> promo_store \<times> (string \<times> int) list \<Rightarrow> promo_store \<times> (string \<times> int) list" where
  "promo_step (PSale s) (st, opened) =
     (if sale_id s \<in> sale_id ` set (sale_rows st) then (st, opened)
      else (st\<lparr>sale_rows := sale_rows st @ [s]\<rparr>, (sale_id s, minor_units (total s)) # opened))"
| "promo_step (PStatus i new) (st, opened) =
     (st\<lparr>sale_rows := map (\<lambda>r. if sale_id r = i then r\<lparr>status := new\<rparr> else r) (sale_rows st)\<rparr>, opened)"
| "promo_step (PCreate p) (st, opened) =
     (case create_promotion p st of Inl _ \<Rightarrow> (st, opened) | Inr (_, st') \<Rightarrow> (st', opened))"
| "promo_step (PUpdate p) (st, opened) =
     (case update_promotion p st of Inl _ \<Rightarrow> (st, opened) | Inr (_, st') \<Rightarrow> (st', opened))"
| "promo_step (PDelete i) (st, opened) =
     (case delete_promotion i st of Inl _ \<Rightarrow> (st, opened) | Inr st' \<Rightarrow> (st', opened))"
| "promo_step (PCheckout v old ids s) (st, opened) =
     (case compute_checkout_promotions (env_parse v) (env_show v) (env_category v) (env_fresh v) (env_now v)
             old ids s of
        Ok (s', apps) \<Rightarrow>
          (if sale_id s' \<in> sale_id ` set (sale_rows st) then (st, opened)
           else (case persist_checkout_applications (sale_id s') apps
                        (st\<lparr>sale_rows := sale_rows st @ [s']\<rparr>) of
               Inl _ \<Rightarrow> (st, opened)
             | Inr st' \<Rightarrow> (st', (sale_id s', minor_units (total s)) # opened)))
      | _ \<Rightarrow> (st, opened))"
| "promo_step (PApply a) (st, opened) =
     (if pa_discount a < 0 then (st, opened)
      else (case apply_commit a st of Inl _ \<Rightarrow> (st, opened) | Inr (_, st') \<Rightarrow> (st', opened)))"

definition promo_empty :: promo_store where
  "promo_empty = \<lparr>promotions = [], applications = [], sale_rows = []\<rparr>"

text \<open>A sale lost what its applications record, and nothing below zero was taken from it.\<close>

definition row_accounted :: "(string \<times> int) list \<Rightarrow> promo_store \<Rightarrow> sale \<Rightarrow> bool" where
  "row_accounted opened st r \<longleftrightarrow>
     (let t = minor_units (total r) + discounts_on (sale_id r) st
      in map_of opened (sale_id r) = Some t \<and> min 0 t \<le> minor_units (total r))"

definition promo_inv :: "promo_store \<times> (string \<times> int) list \<Rightarrow> bool" where
  "promo_inv so = (case so of (st, opened) \<Rightarrow>
     distinct (map sale_id (sale_rows st)) \<and> distinct (map pm_id (promotions st))
     \<and> distinct (map (\<lambda>a. (pa_sale_id a, pa_promotion_id a)) (applications st))
     \<and> (\<forall>p \<in> set (promotions st). validate_promotion p = Inr ())
     \<and> pa_promotion_id ` set (applications st) \<subseteq> pm_id ` set (promotions st)
     \<and> pa_sale_id ` set (applications st) \<subseteq> sale_id ` set (sale_rows st)
     \<and> (\<forall>r \<in> set (sale_rows st). row_accounted opened st r))"

definition deduct :: "promotion_application \<Rightarrow> sale \<Rightarrow> sale" where
  "deduct a r = (if sale_id r = pa_sale_id a \<and> status r = Pending \<and> pa_discount a \<le> minor_units (total r)
     then r\<lparr>total := (total r)\<lparr>minor_units := minor_units (total r) - pa_discount a\<rparr>,
            updated_at := pa_created_at a, version := version r + 1\<rparr>
     else r)"

lemma deduct_id [simp]: "sale_id (deduct a r) = sale_id r"
  by (simp add: deduct_def)

lemma apply_commit_Inr:
  assumes "apply_commit a st = Inr (b, st')"
  shows "b = a \<and> \<not> already_applied (pa_sale_id a) (pa_promotion_id a) st
    \<and> (\<exists>s. get_sale st (pa_sale_id a) = Some s \<and> status s = Pending \<and> pa_discount a \<le> minor_units (total s))
    \<and> pa_promotion_id a \<in> pm_id ` set (promotions st) \<and> pa_sale_id a \<in> sale_id ` set (sale_rows st)
    \<and> st' = st\<lparr>applications := applications st @ [a], sale_rows := map (deduct a) (sale_rows st)\<rparr>"
proof -
  have "(\<lambda>r. if sale_id r = pa_sale_id a \<and> status r = Pending \<and> pa_discount a \<le> minor_units (total r)
     then r\<lparr>total := (total r)\<lparr>minor_units := minor_units (total r) - pa_discount a\<rparr>,
            updated_at := pa_created_at a, version := version r + 1\<rparr> else r) = deduct a"
    by (simp add: fun_eq_iff deduct_def)
  then show ?thesis
    using assms by (auto simp: apply_commit_def insert_application_def Let_def split: if_splits option.splits)
qed

lemma discounts_snoc:
  "discounts_on i (st\<lparr>applications := applications st @ [a], sale_rows := rs\<rparr>)
     = discounts_on i st + (if pa_sale_id a = i then pa_discount a else 0)"
  by (simp add: discounts_on_def)

lemma discounts_none: "i \<notin> pa_sale_id ` set (applications st) \<Longrightarrow> discounts_on i st = 0"
proof -
  assume "i \<notin> pa_sale_id ` set (applications st)"
  then have "filter (\<lambda>a. pa_sale_id a = i) (applications st) = []" by (auto simp: filter_empty_conv)
  then show ?thesis by (simp add: discounts_on_def)
qed

lemma deduct_total:
  assumes "distinct (map sale_id rs)" and "List.find (\<lambda>s. sale_id s = pa_sale_id a) rs = Some s"
    and "status s = Pending" and "pa_discount a \<le> minor_units (total s)" and "r \<in> set rs"
  shows "minor_units (total (deduct a r)) =
     minor_units (total r) - (if pa_sale_id a = sale_id r then pa_discount a else 0)"
proof (cases "sale_id r = pa_sale_id a")
  case True
  have "s \<in> set rs" "sale_id s = pa_sale_id a" using assms(2) by (auto simp: find_Some_iff)
  then have "r = s" using assms(1,5) True by (metis distinct_map inj_onD)
  then show ?thesis using assms(3,4) True by (simp add: deduct_def)
qed (simp add: deduct_def)

lemma promo_apply_inv:
  assumes inv: "promo_inv (st, opened)" and d: "0 \<le> pa_discount a" and c: "apply_commit a st = Inr (b, st')"
  shows "promo_inv (st', opened)"
proof -
  have st': "st' = st\<lparr>applications := applications st @ [a], sale_rows := map (deduct a) (sale_rows st)\<rparr>"
    and new: "\<not> already_applied (pa_sale_id a) (pa_promotion_id a) st"
    and fk: "pa_promotion_id a \<in> pm_id ` set (promotions st)" "pa_sale_id a \<in> sale_id ` set (sale_rows st)"
    using apply_commit_Inr [OF c] by simp_all
  obtain s where s: "List.find (\<lambda>s. sale_id s = pa_sale_id a) (sale_rows st) = Some s" "status s = Pending"
      "pa_discount a \<le> minor_units (total s)"
    using apply_commit_Inr [OF c] by (auto simp: get_sale_def)
  have dist: "distinct (map sale_id (sale_rows st))" using inv by (simp add: promo_inv_def)
  have rows: "row_accounted opened st' (deduct a r)" if r: "r \<in> set (sale_rows st)" for r
  proof -
    have "row_accounted opened st r" using inv r by (simp add: promo_inv_def)
    moreover have "r = s" if "sale_id r = pa_sale_id a"
      using that s(1) r dist by (auto simp: find_Some_iff) (metis distinct_map inj_onD nth_mem)
    ultimately show ?thesis
      using deduct_total [OF dist s r] s(3)
      by (cases "pa_sale_id a = sale_id r") (auto simp: st' row_accounted_def Let_def discounts_snoc)
  qed
  have "distinct (map (\<lambda>a. (pa_sale_id a, pa_promotion_id a)) (applications st'))"
    using inv new by (auto simp: st' promo_inv_def already_applied_def list_ex_iff)
  moreover have same: "promotions st' = promotions st" "applications st' = applications st @ [a]"
    "map sale_id (sale_rows st') = map sale_id (sale_rows st)"
    by (simp_all add: st')
  moreover have "sale_id ` set (sale_rows st') = sale_id ` set (sale_rows st)"
    using same(3) by (metis set_map)
  moreover have "\<forall>r \<in> set (sale_rows st'). row_accounted opened st' r"
    using rows by (simp add: st')
  ultimately show ?thesis
    using inv fk by (simp add: promo_inv_def)
qed

lemma promo_inv_keep:
  assumes "promo_inv (st, opened)" and "map sale_id (sale_rows st') = map sale_id (sale_rows st)"
    and "map pm_id (promotions st') = map pm_id (promotions st)" and "applications st' = applications st"
    and "\<forall>p \<in> set (promotions st'). validate_promotion p = Inr ()"
    and "\<forall>r' \<in> set (sale_rows st'). \<exists>r \<in> set (sale_rows st). sale_id r = sale_id r' \<and> total r = total r'"
  shows "promo_inv (st', opened)"
proof -
  have "sale_id ` set (sale_rows st') = sale_id ` set (sale_rows st)"
    "pm_id ` set (promotions st') = pm_id ` set (promotions st)"
    using assms(2,3) by (metis set_map)+
  moreover have "discounts_on i st' = discounts_on i st" for i using assms(4) by (simp add: discounts_on_def)
  moreover have "\<forall>r' \<in> set (sale_rows st'). row_accounted opened st r'"
    using assms(1,6) unfolding promo_inv_def prod.case row_accounted_def Let_def by metis
  ultimately show ?thesis using assms(1-5) by (simp add: promo_inv_def row_accounted_def)
qed

lemma persist_checkout_Inr:
  "persist_checkout_applications sid as st = Inr st' \<Longrightarrow>
     st' = st\<lparr>applications := applications st @ as\<rparr>
     \<and> list_all (\<lambda>a. pa_sale_id a = sid) as
     \<and> pa_promotion_id ` set as \<subseteq> pm_id ` set (promotions st)
     \<and> distinct (map pa_promotion_id as)
     \<and> list_all (\<lambda>a. \<not> already_applied sid (pa_promotion_id a) st) as"
proof (induction as arbitrary: st)
  case (Cons a as)
  then obtain st1 where "insert_application a st = Inr st1"
    and rest: "persist_checkout_applications sid as st1 = Inr st'"
    and a: "pa_sale_id a = sid" "\<not> already_applied sid (pa_promotion_id a) st"
    by (auto split: if_splits sum.splits)
  then have st1: "st1 = st\<lparr>applications := applications st @ [a]\<rparr>"
    and fk: "pa_promotion_id a \<in> pm_id ` set (promotions st)"
    by (auto simp: insert_application_def split: if_splits)
  show ?case using Cons.IH [OF rest] a fk
    by (auto simp: st1 already_applied_def list_all_iff)
qed simp

lemma promo_checkout_inv:
  assumes inv: "promo_inv (st, opened)"
    and c: "compute_checkout_promotions parse show_ts cat fresh now old ids s = Ok (s', apps)"
    and new: "sale_id s' \<notin> sale_id ` set (sale_rows st)"
    and p: "persist_checkout_applications (sale_id s') apps (st\<lparr>sale_rows := sale_rows st @ [s']\<rparr>) = Inr st'"
  shows "promo_inv (st', (sale_id s', minor_units (total s)) # opened)"
proof -
  have s': "s' = less_total (sum_list (map pa_discount apps)) s" "ids \<noteq> [] \<longrightarrow> 0 \<le> minor_units (total s')"
      "map pa_promotion_id apps = ids"
    using checkout_promotions_stack [OF c] by blast+
  have st': "st' = st\<lparr>sale_rows := sale_rows st @ [s'], applications := applications st @ apps\<rparr>"
    and apps: "\<forall>a \<in> set apps. pa_sale_id a = sale_id s'"
      "pa_promotion_id ` set apps \<subseteq> pm_id ` set (promotions st)" "distinct (map pa_promotion_id apps)"
    using persist_checkout_Inr [OF p] by (simp_all add: list_all_iff)
  have none: "discounts_on (sale_id s') st = 0" using inv new
    by (intro discounts_none) (auto simp: promo_inv_def)
  have own: "filter (\<lambda>a. pa_sale_id a = i) apps = (if i = sale_id s' then apps else [])" for i
    using apps(1) by (auto simp: filter_id_conv filter_empty_conv)
  have sums: "discounts_on i st' = discounts_on i st
      + (if i = sale_id s' then sum_list (map pa_discount apps) else 0)" for i
    by (simp add: discounts_on_def st' own)
  have "row_accounted ((sale_id s', minor_units (total s)) # opened) st' s'"
    using s' none by (cases "ids = []") (auto simp: row_accounted_def sums Let_def)
  moreover have "row_accounted ((sale_id s', minor_units (total s)) # opened) st' r"
    if "r \<in> set (sale_rows st)" for r
  proof -
    have "sale_id r \<noteq> sale_id s'" using new that by (metis image_eqI)
    then show ?thesis using inv that by (auto simp: promo_inv_def row_accounted_def sums)
  qed
  moreover have "distinct (map (\<lambda>a. (pa_sale_id a, pa_promotion_id a)) (applications st @ apps))"
  proof -
    have "map (\<lambda>a. (pa_sale_id a, pa_promotion_id a)) apps = map (Pair (sale_id s')) (map pa_promotion_id apps)"
      using apps(1) by simp
    then have "distinct (map (\<lambda>a. (pa_sale_id a, pa_promotion_id a)) apps)"
      using apps(3) by (simp only: distinct_map) (auto simp: inj_on_def)
    moreover have "pa_sale_id a \<noteq> sale_id s'" if "a \<in> set (applications st)" for a
    proof
      assume "pa_sale_id a = sale_id s'"
      then have "sale_id s' \<in> pa_sale_id ` set (applications st)" using that by (metis image_eqI)
      then show False using inv new by (auto simp: promo_inv_def)
    qed
    ultimately show ?thesis using inv apps(1) by (auto simp: promo_inv_def)
  qed
  ultimately show ?thesis using inv new apps by (auto simp: promo_inv_def st')
qed

lemma promo_step_inv: "promo_inv so \<Longrightarrow> promo_inv (promo_step e so)"
proof -
  assume inv: "promo_inv so"
  obtain st opened where so: "so = (st, opened)" by (rule prod.exhaust)
  show ?thesis
  proof (cases e)
    case (PSale s)
    have "discounts_on (sale_id s) st = 0" if "sale_id s \<notin> sale_id ` set (sale_rows st)"
      using inv that by (intro discounts_none) (auto simp: so promo_inv_def)
    moreover have "sale_id r \<noteq> sale_id s" if "sale_id s \<notin> sale_id ` set (sale_rows st)" "r \<in> set (sale_rows st)" for r
      using that by (metis image_eqI)
    ultimately show ?thesis
      using inv by (auto simp: so PSale promo_inv_def discounts_on_def row_accounted_def Let_def)
  next
    case (PStatus i new)
    have "map sale_id (map (\<lambda>r. if sale_id r = i then r\<lparr>status := new\<rparr> else r) (sale_rows st)) = map sale_id (sale_rows st)"
      by simp
    moreover have "\<exists>r \<in> set (sale_rows st). sale_id r = sale_id r' \<and> total r = total r'"
      if "r' \<in> set (map (\<lambda>r. if sale_id r = i then r\<lparr>status := new\<rparr> else r) (sale_rows st))" for r'
      using that by (auto split: if_splits)
    moreover have "\<forall>p \<in> set (promotions st). validate_promotion p = Inr ()" using inv by (simp add: so promo_inv_def)
    ultimately show ?thesis
      using promo_inv_keep [OF inv [unfolded so],
          of "st\<lparr>sale_rows := map (\<lambda>r. if sale_id r = i then r\<lparr>status := new\<rparr> else r) (sale_rows st)\<rparr>"]
      by (simp add: so PStatus)
  next
    case (PCreate p)
    then show ?thesis
      using inv
      by (auto simp: so create_promotion_def promo_inv_def discounts_on_def row_accounted_def split: sum.splits)
  next
    case (PUpdate p)
    have same: "validate_promotion (p\<lparr>pm_created_at := x\<rparr>) = validate_promotion p" for x
      by (cases "promotion_type_from_str (trim (pm_type p))") (simp_all add: validate_promotion_def)
    let ?ps = "map (\<lambda>q. if pm_id q = pm_id p then p\<lparr>pm_created_at := pm_created_at q\<rparr> else q) (promotions st)"
    have "\<forall>q \<in> set ?ps. validate_promotion q = Inr ()" if "validate_promotion p = Inr ()"
      using inv that same by (auto simp: so promo_inv_def)
    moreover have "map pm_id ?ps = map pm_id (promotions st)" by simp
    ultimately show ?thesis
      using promo_inv_keep [OF inv [unfolded so], of "st\<lparr>promotions := ?ps\<rparr>"] inv
      by (auto simp: so PUpdate update_promotion_def split: sum.splits)
  next
    case (PDelete i)
    have "pa_promotion_id ` set (applications st) \<subseteq> pm_id ` {p \<in> set (promotions st). pm_id p \<noteq> i}"
      if "i \<notin> pa_promotion_id ` set (applications st)"
    proof
      fix y assume y: "y \<in> pa_promotion_id ` set (applications st)"
      then obtain p where "p \<in> set (promotions st)" "pm_id p = y" using inv by (auto simp: so promo_inv_def)
      moreover have "y \<noteq> i" using y that by blast
      ultimately show "y \<in> pm_id ` {p \<in> set (promotions st). pm_id p \<noteq> i}" by blast
    qed
    then show ?thesis
      using inv PDelete by (auto simp: so delete_promotion_def promo_inv_def discounts_on_def
          row_accounted_def distinct_map_filter split: sum.splits)
  next
    case (PCheckout v old ids s)
    then show ?thesis
      using inv promo_checkout_inv [of st opened]
      by (auto simp: so split: outcome.splits sum.splits)
  next
    case (PApply a)
    then show ?thesis using inv promo_apply_inv [of st opened a] by (auto simp: so split: sum.splits)
  qed
qed

interpretation promo_machine: machine "(promo_empty, [])" promo_step promo_inv
  by unfold_locales (simp add: promo_inv_def promo_empty_def, rule promo_step_inv)

text \<open>
  C3. After any history of sales, checkouts with promotions, status changes, promotion writes and
  applications, the last three and the reads of a checkout as stale as one likes: what a sale has
  lost of its total before promotions is exactly the sum of the discounts recorded on it, and no
  promotion took it below zero; no promotion is applied twice to a sale, every stored promotion
  passes the validation and none with applications is gone.
\<close>

theorem promotion_accounting:
  "case run promo_step es (promo_empty, []) of (st, opened) \<Rightarrow>
     list_all (\<lambda>r. let t = minor_units (total r) + discounts_on (sale_id r) st
        in map_of opened (sale_id r) = Some t \<and> min 0 t \<le> minor_units (total r)) (sale_rows st)
     \<and> distinct (map (\<lambda>a. (pa_sale_id a, pa_promotion_id a)) (applications st))
     \<and> list_all (\<lambda>p. validate_promotion p = Inr ()) (promotions st)
     \<and> list_all (\<lambda>a. get_promotion st (pa_promotion_id a) \<noteq> None) (applications st)"
proof -
  obtain st opened where r: "run promo_step es (promo_empty, []) = (st, opened)" by (rule prod.exhaust)
  then have "promo_inv (st, opened)" using promo_machine.inv_run [of es] by simp
  moreover have "get_promotion st i \<noteq> None \<longleftrightarrow> i \<in> pm_id ` set (promotions st)" for i
    by (auto simp: get_promotion_def find_None_iff)
  ultimately show ?thesis by (auto simp: r promo_inv_def row_accounted_def list_all_iff)
qed

end
