(* ===== verification/Lan_Replay.thy ===== *)
theory Lan_Replay
  imports Prelude
begin

section \<open>The offline replay buffer of the LAN server\<close>

text \<open>
  Models \<open>crates/kasirmu-lan/src/replay.rs\<close>: events for peers that are away, one queue per identity,
  bounded per queue and over all queues, the oldest dropped first. The buffer is behind one mutex, so
  its operations are atomic steps. Its \<open>HashMap\<close> is an association list; nothing depends on the order
  of its entries because the sequence numbers differ. The specification is one list of events in
  arrival order.
\<close>

subsection \<open>The buffer\<close>

definition max_offline_buffer_per_peer :: nat where "max_offline_buffer_per_peer = 1024"
definition max_offline_buffer_total :: nat where "max_offline_buffer_total = 8192"

datatype replay_key = Device string | Addr string

text \<open>The subscription of a peer matters for its optional device id only.\<close>

definition from_subscription :: "string option option \<Rightarrow> string \<Rightarrow> replay_key" where
  "from_subscription sub peer_addr =
     (case Option.bind sub (\<lambda>d. d) of Some d \<Rightarrow> Device d | None \<Rightarrow> Addr peer_addr)"

fun label :: "replay_key \<Rightarrow> string" where
  "label (Device d) = ''device:'' @ d"
| "label (Addr a) = ''addr:'' @ a"

record buffered_event =
  seq :: nat
  line :: string

record peer_queue =
  events :: "buffered_event list"
  last_addr :: "string option"

record buffer_inner =
  queues :: "(replay_key \<times> peer_queue) list"
  live_total :: nat
  next_seq :: nat

record replay_drain =
  drained :: "string list"
  source_addr :: "string option"

definition buffer_new :: buffer_inner where
  "buffer_new = \<lparr>queues = [], live_total = 0, next_seq = 0\<rparr>"

definition front_seq :: "replay_key \<times> peer_queue \<Rightarrow> nat" where
  "front_seq kq = (case events (snd kq) of [] \<Rightarrow> u64_max | e # _ \<Rightarrow> seq e)"

definition oldest_queue :: "buffer_inner \<Rightarrow> (replay_key \<times> peer_queue) option" where
  "oldest_queue b =
     pick_best (\<lambda>x y. front_seq x < front_seq y) None (filter (\<lambda>kq. events (snd kq) \<noteq> []) (queues b))"

text \<open>The eviction loop; an emptied queue is removed.\<close>

function evict :: "buffer_inner \<Rightarrow> buffer_inner" where
  "evict b =
     (if live_total b \<le> max_offline_buffer_total then b
      else (case oldest_queue b of
          None \<Rightarrow> b
        | Some (k, q) \<Rightarrow>
            (case events q of
               [] \<Rightarrow> b
             | e # es \<Rightarrow> evict (b\<lparr>live_total := live_total b - 1,
                 queues := (if es = [] then filter (\<lambda>kq. fst kq \<noteq> k) (queues b)
                   else tab_update k (q\<lparr>events := es\<rparr>) (queues b))\<rparr>))))"
  by auto
termination
  by (relation "measure live_total") (auto simp: max_offline_buffer_total_def)

definition push :: "replay_key \<Rightarrow> string \<Rightarrow> string \<Rightarrow> buffer_inner \<Rightarrow> buffer_inner" where
  "push key peer_addr ln b =
     (let q = (case map_of (queues b) key of None \<Rightarrow> \<lparr>events = [], last_addr = None\<rparr> | Some q \<Rightarrow> q);
          (es, n) = (if max_offline_buffer_per_peer \<le> length (events q)
            then (case events q of [] \<Rightarrow> ([], live_total b) | _ # es \<Rightarrow> (es, live_total b - 1))
            else (events q, live_total b))
      in evict (b\<lparr>queues := tab_update key
             \<lparr>events = es @ [\<lparr>seq = next_seq b, line = ln\<rparr>], last_addr = Some peer_addr\<rparr> (queues b),
           next_seq := next_seq b + 1, live_total := n + 1\<rparr>))"

definition drain :: "replay_key \<Rightarrow> buffer_inner \<Rightarrow> replay_drain \<times> buffer_inner" where
  "drain key b =
     (case map_of (queues b) key of
        Some q \<Rightarrow> (\<lparr>drained = map line (events q), source_addr = last_addr q\<rparr>,
           b\<lparr>queues := filter (\<lambda>kq. fst kq \<noteq> key) (queues b), live_total := live_total b - length (events q)\<rparr>)
      | None \<Rightarrow> (\<lparr>drained = [], source_addr = None\<rparr>, b))"

definition event_count :: "buffer_inner \<Rightarrow> nat" where
  "event_count b = live_total b"

definition queue_count :: "buffer_inner \<Rightarrow> nat" where
  "queue_count b = length (queues b)"

definition len_for :: "replay_key \<Rightarrow> buffer_inner \<Rightarrow> nat" where
  "len_for key b = (case map_of (queues b) key of None \<Rightarrow> 0 | Some q \<Rightarrow> length (events q))"

declare evict.simps [simp del]

subsection \<open>Specification: one list of events in arrival order\<close>

record replay_entry =
  en_seq :: nat
  en_key :: replay_key
  en_addr :: string
  en_line :: string

type_synonym replay_log = "nat \<times> replay_entry list"

abbreviation entries_of :: "replay_key \<Rightarrow> replay_entry list \<Rightarrow> replay_entry list" where
  "entries_of k l \<equiv> filter (\<lambda>e. en_key e = k) l"

fun drop_first :: "replay_key \<Rightarrow> replay_entry list \<Rightarrow> replay_entry list" where
  "drop_first k [] = []"
| "drop_first k (e # l) = (if en_key e = k then l else e # drop_first k l)"

text \<open>
  A push forgets the oldest event of the same identity when that has its full share, then the
  oldest event of all when the whole is full.
\<close>

definition log_push :: "replay_key \<Rightarrow> string \<Rightarrow> string \<Rightarrow> replay_log \<Rightarrow> replay_log" where
  "log_push key a ln nl =
     (case nl of (n, l) \<Rightarrow>
        (let l1 = (if max_offline_buffer_per_peer \<le> length (entries_of key l) then drop_first key l else l)
              @ [\<lparr>en_seq = n, en_key = key, en_addr = a, en_line = ln\<rparr>]
         in (Suc n, if max_offline_buffer_total < length l1 then tl l1 else l1)))"

definition log_drain :: "replay_key \<Rightarrow> replay_log \<Rightarrow> replay_drain \<times> replay_log" where
  "log_drain key nl =
     (case nl of (n, l) \<Rightarrow>
        (\<lparr>drained = map en_line (entries_of key l),
          source_addr = (if entries_of key l = [] then None else Some (en_addr (last (entries_of key l))))\<rparr>,
         (n, filter (\<lambda>e. en_key e \<noteq> key) l)))"

datatype replay_event = Push replay_key string string | Drain replay_key

fun replay_step :: "replay_event \<Rightarrow> buffer_inner \<Rightarrow> buffer_inner" where
  "replay_step (Push k a ln) b = push k a ln b"
| "replay_step (Drain k) b = snd (drain k b)"

fun log_step :: "replay_event \<Rightarrow> replay_log \<Rightarrow> replay_log" where
  "log_step (Push k a ln) l = log_push k a ln l"
| "log_step (Drain k) l = snd (log_drain k l)"

subsection \<open>The buffer refines the list\<close>

definition queue_of :: "replay_entry list \<Rightarrow> replay_key \<Rightarrow> peer_queue option" where
  "queue_of l k =
     (if entries_of k l = [] then None
      else Some \<lparr>events = map (\<lambda>e. \<lparr>seq = en_seq e, line = en_line e\<rparr>) (entries_of k l),
                 last_addr = Some (en_addr (last (entries_of k l)))\<rparr>)"

text \<open>The relation without the bound on the whole, and with it.\<close>

definition holds :: "buffer_inner \<Rightarrow> replay_log \<Rightarrow> bool" where
  "holds b nl \<longleftrightarrow> (case nl of (n, l) \<Rightarrow>
     next_seq b = n \<and> live_total b = length l \<and> distinct (map fst (queues b))
     \<and> map_of (queues b) = queue_of l \<and> sorted_wrt (<) (map en_seq l) \<and> (\<forall>e \<in> set l. en_seq e < n)
     \<and> (\<forall>k. length (entries_of k l) \<le> max_offline_buffer_per_peer))"

definition holds_bounded :: "buffer_inner \<Rightarrow> replay_log \<Rightarrow> bool" where
  "holds_bounded b nl \<longleftrightarrow> holds b nl \<and> length (snd nl) \<le> max_offline_buffer_total"

lemma entries_drop_first:
  "entries_of k (drop_first k' l) = (if k = k' then tl (entries_of k l) else entries_of k l)"
  by (induction l) auto

lemma drop_first_subseq: "entries_of k l \<noteq> [] \<Longrightarrow> length (drop_first k l) = length l - 1 \<and> length l \<noteq> 0"
proof (induction l)
  case (Cons e l)
  then show ?case by (cases l) (auto split: if_splits)
qed simp

lemma drop_first_set: "set (drop_first k l) \<subseteq> set l"
  by (induction l) auto

lemma drop_first_sorted: "sorted_wrt (<) (map en_seq l) \<Longrightarrow> sorted_wrt (<) (map en_seq (drop_first k l))"
proof (induction l)
  case (Cons e l)
  then show ?case using drop_first_set [of k l] by auto
qed simp

interpretation oldest_first: preference "\<lambda>x y. front_seq x < front_seq y" front_seq
  by unfold_locales auto

lemma map_of_without: "map_of (filter (\<lambda>kq. fst kq \<noteq> k) t) = (map_of t)(k := None)"
  by (induction t) (auto simp: fun_eq_iff)

lemma distinct_without: "distinct (map fst t) \<Longrightarrow> distinct (map fst (filter (\<lambda>kq. fst kq \<noteq> k) t))"
  by (induction t) auto

lemma queue_front:
  "queue_of l k = Some q \<Longrightarrow> events q \<noteq> [] \<and> entries_of k l \<noteq> []
     \<and> front_seq (k, q) = en_seq (hd (entries_of k l))"
  by (cases "entries_of k l") (auto simp: queue_of_def front_seq_def split: if_splits)

lemma seq_inj: "sorted_wrt (<) (map en_seq l) \<Longrightarrow> x \<in> set l \<Longrightarrow> y \<in> set l \<Longrightarrow> en_seq x = en_seq y \<Longrightarrow> x = y"
  by (metis strict_sorted_iff distinct_map inj_onD)

lemma hd_entry: "entries_of k l \<noteq> [] \<Longrightarrow> hd (entries_of k l) \<in> set l \<and> en_key (hd (entries_of k l)) = k"
  using hd_in_set [of "entries_of k l"] by auto

lemma queue_entry:
  assumes "holds b (n, l)" and "kq \<in> set (queues b)"
  shows "map_of (queues b) (fst kq) = Some (snd kq)" and "queue_of l (fst kq) = Some (snd kq)"
    and "events (snd kq) \<noteq> []" and "front_seq kq = en_seq (hd (entries_of (fst kq) l))"
    and "hd (entries_of (fst kq) l) \<in> set l" and "en_key (hd (entries_of (fst kq) l)) = fst kq"
proof -
  have "distinct (map fst (queues b))" using assms(1) by (simp add: holds_def)
  then show m: "map_of (queues b) (fst kq) = Some (snd kq)"
    by (rule map_of_is_SomeI) (simp add: assms(2))
  moreover have "map_of (queues b) = queue_of l" using assms(1) by (simp add: holds_def)
  ultimately show q: "queue_of l (fst kq) = Some (snd kq)" by simp
  from queue_front [OF q] show "events (snd kq) \<noteq> []" "front_seq kq = en_seq (hd (entries_of (fst kq) l))"
    by simp_all
  from queue_front [OF q] hd_entry [of "fst kq" l]
  show "hd (entries_of (fst kq) l) \<in> set l" "en_key (hd (entries_of (fst kq) l)) = fst kq" by simp_all
qed

lemma oldest_is_head:
  assumes h: "holds b (n, e # l)"
  shows "\<exists>q. oldest_queue b = Some (en_key e, q) \<and> map_of (queues b) (en_key e) = Some q"
proof -
  let ?l = "e # l"
  have sorted: "sorted_wrt (<) (map en_seq ?l)" and d: "distinct (map fst (queues b))"
    using h by (simp_all add: holds_def)
  have all: "filter (\<lambda>kq. events (snd kq) \<noteq> []) (queues b) = queues b"
    using queue_entry(3) [OF h] by (simp add: filter_id_conv)
  have "inj_on front_seq (set (queues b))"
  proof (rule inj_onI)
    fix x y assume x: "x \<in> set (queues b)" and y: "y \<in> set (queues b)" and eq: "front_seq x = front_seq y"
    then have "hd (entries_of (fst x) ?l) = hd (entries_of (fst y) ?l)"
      using queue_entry(4,5) [OF h x] queue_entry(4,5) [OF h y] seq_inj [OF sorted] by metis
    then have "fst x = fst y" using queue_entry(6) [OF h x] queue_entry(6) [OF h y] by simp
    then show "x = y" using d x y by (metis distinct_map inj_onD)
  qed
  then have dist: "distinct (map front_seq (queues b))" using d by (simp add: distinct_map)
  obtain q where q: "queue_of ?l (en_key e) = Some q" by (simp add: queue_of_def)
  then have m: "map_of (queues b) (en_key e) = Some q" using h by (simp add: holds_def)
  then have mem: "(en_key e, q) \<in> set (queues b)" by (rule map_of_SomeD)
  have first: "front_seq (en_key e, q) = en_seq e" using queue_front [OF q] by simp
  have "front_seq (en_key e, q) < front_seq x" if x: "x \<in> set (queues b)" "x \<noteq> (en_key e, q)" for x
  proof -
    have "fst x \<noteq> en_key e"
    proof
      assume "fst x = en_key e"
      then have "snd x = q" using queue_entry(1) [OF h x(1)] m by simp
      then show False using x(2) \<open>fst x = en_key e\<close> by (metis prod.collapse)
    qed
    then have "hd (entries_of (fst x) ?l) \<in> set l" using queue_entry(5,6) [OF h x(1)] by auto
    then show ?thesis using queue_entry(4) [OF h x(1)] sorted first by auto
  qed
  then have "oldest_first.best_of (queues b) (en_key e, q)" using mem by (auto simp: oldest_first.best_of_def)
  then have "oldest_queue b = Some (en_key e, q)"
    using oldest_first.pick_best_Some [OF dist] all by (simp add: oldest_queue_def)
  then show ?thesis using m by blast
qed

lemma queue_of_tl:
  "queue_of l k = (if k = en_key e \<and> entries_of k l = [] then None else
     if k = en_key e then map_option (\<lambda>q. q\<lparr>events := tl (events q)\<rparr>) (queue_of (e # l) k) else queue_of (e # l) k)"
  by (simp add: queue_of_def)

lemma evict_one:
  assumes h: "holds b (n, e # l)" and big: "max_offline_buffer_total < length (e # l)"
  shows "\<exists>b'. evict b = evict b' \<and> holds b' (n, l)"
proof -
  obtain q where o: "oldest_queue b = Some (en_key e, q)" and m: "map_of (queues b) (en_key e) = Some q"
    using oldest_is_head [OF h] by blast
  have q: "queue_of (e # l) (en_key e) = Some q" using h m by (simp add: holds_def)
  obtain x xs where ev: "events q = x # xs" using queue_front [OF q] by (cases "events q") auto
  have xs: "xs = [] \<longleftrightarrow> entries_of (en_key e) l = []" using q ev by (auto simp: queue_of_def)
  let ?b = "b\<lparr>live_total := live_total b - 1, queues := (if xs = [] then filter (\<lambda>kq. fst kq \<noteq> en_key e) (queues b)
       else tab_update (en_key e) (q\<lparr>events := xs\<rparr>) (queues b))\<rparr>"
  have "live_total b = length (e # l)" using h by (simp add: holds_def)
  then have "evict b = evict ?b" using big o ev by (subst evict.simps) simp
  moreover have "map_of (queues ?b) = queue_of l"
  proof
    fix k
    have "map_of (queues b) k = queue_of (e # l) k" using h by (simp add: holds_def)
    then show "map_of (queues ?b) k = queue_of l k"
      using q ev xs by (auto simp: map_of_without queue_of_tl [of l k e])
  qed
  moreover have "length (entries_of k l) \<le> max_offline_buffer_per_peer" for k
  proof -
    have "length (entries_of k l) \<le> length (entries_of k (e # l))" by simp
    also have "\<dots> \<le> max_offline_buffer_per_peer" using h unfolding holds_def prod.case by blast
    finally show ?thesis .
  qed
  moreover have "distinct (map fst (queues ?b))" using h by (simp add: holds_def distinct_without)
  ultimately show ?thesis
    using h by (intro exI [of _ ?b]) (simp add: holds_def)
qed

lemma evict_holds:
  assumes "holds b (n, l)" and "length l \<le> Suc max_offline_buffer_total"
  shows "holds_bounded (evict b) (n, if max_offline_buffer_total < length l then tl l else l)"
proof -
  have small: "evict b = b" if "holds b (n, l)" "length l \<le> max_offline_buffer_total" for b and l :: "replay_entry list"
    using that by (subst evict.simps) (simp add: holds_def)
  show ?thesis
  proof (cases "max_offline_buffer_total < length l")
    case True
    then obtain e l' where l: "l = e # l'" by (cases l) auto
    then obtain b' where "evict b = evict b'" "holds b' (n, l')" using evict_one assms(1) True by blast
    then show ?thesis using small [of b' l'] l assms(2) True by (simp add: holds_bounded_def)
  qed (use small assms in \<open>simp add: holds_bounded_def\<close>)
qed

lemma push_holds:
  assumes hb: "holds_bounded b (n, l)"
  shows "holds_bounded (push key a ln b) (log_push key a ln (n, l))"
proof -
  have h: "holds b (n, l)" and size: "length l \<le> max_offline_buffer_total"
    using hb by (simp_all add: holds_bounded_def)
  let ?full = "max_offline_buffer_per_peer \<le> length (entries_of key l)"
  let ?q = "case map_of (queues b) key of None \<Rightarrow> \<lparr>events = [], last_addr = None\<rparr> | Some q \<Rightarrow> q"
  let ?ev = "map (\<lambda>e. \<lparr>seq = en_seq e, line = en_line e\<rparr>)"
  have ev: "events ?q = ?ev (entries_of key l)"
    using h by (simp add: holds_def queue_of_def)
  let ?l0 = "if ?full then drop_first key l else l"
  let ?e = "\<lparr>en_seq = n, en_key = key, en_addr = a, en_line = ln\<rparr>"
  have pos: "0 < max_offline_buffer_per_peer" by (simp add: max_offline_buffer_per_peer_def)
  then have some: "?full \<Longrightarrow> entries_of key l \<noteq> []" by auto
  have kept: "entries_of k ?l0 = (if ?full \<and> k = key then tl (entries_of k l) else entries_of k l)" for k
    by (simp add: entries_drop_first)
  have len: "length ?l0 = (if ?full then length l - 1 else length l)"
    using drop_first_subseq [of key l] some by simp
  let ?es = "?ev (entries_of key ?l0)"
  let ?b = "b\<lparr>queues := tab_update key \<lparr>events = ?es @ [\<lparr>seq = n, line = ln\<rparr>], last_addr = Some a\<rparr> (queues b),
           next_seq := next_seq b + 1, live_total := length ?l0 + 1\<rparr>"
  have b: "live_total b = length l" "next_seq b = n" using h by (simp_all add: holds_def)
  have push: "push key a ln b = evict ?b"
    using ev some b len
    by (cases ?full; cases "entries_of key l") (simp_all add: push_def Let_def entries_drop_first)
  have "holds ?b (Suc n, ?l0 @ [?e])"
    unfolding holds_def prod.case
  proof (intro conjI allI)
    show "map_of (queues ?b) = queue_of (?l0 @ [?e])"
    proof
      fix k
      have "map_of (queues b) k = queue_of l k" using h by (simp add: holds_def)
      then show "map_of (queues ?b) k = queue_of (?l0 @ [?e]) k"
        using kept [of k] by (auto simp: queue_of_def)
    qed
    show "sorted_wrt (<) (map en_seq (?l0 @ [?e]))"
      using h drop_first_sorted [of l key] drop_first_set [of key l]
      by (auto simp: holds_def sorted_wrt_append)
    show "\<forall>e \<in> set (?l0 @ [?e]). en_seq e < Suc n"
      using h drop_first_set [of key l] by (auto simp: holds_def less_Suc_eq)
    show "length (entries_of k (?l0 @ [?e])) \<le> max_offline_buffer_per_peer" for k
    proof -
      have "length (entries_of k l) \<le> max_offline_buffer_per_peer" using h unfolding holds_def prod.case by blast
      then show ?thesis using kept [of k] pos by auto
    qed
  qed (use h b in \<open>simp_all add: holds_def\<close>)
  moreover have "length (?l0 @ [?e]) \<le> Suc max_offline_buffer_total" using len size by auto
  ultimately show ?thesis
    using evict_holds [of ?b "Suc n" "?l0 @ [?e]"] push by (simp add: log_push_def Let_def)
qed

lemma drain_holds:
  assumes hb: "holds_bounded b (n, l)"
  shows "fst (drain key b) = fst (log_drain key (n, l))"
    and "holds_bounded (snd (drain key b)) (snd (log_drain key (n, l)))"
proof -
  have h: "holds b (n, l)" using hb by (simp add: holds_bounded_def)
  then have m: "map_of (queues b) key = queue_of l key" by (simp add: holds_def)
  then show "fst (drain key b) = fst (log_drain key (n, l))"
    by (simp add: drain_def log_drain_def queue_of_def)
  let ?l = "filter (\<lambda>e. en_key e \<noteq> key) l"
  have b: "snd (drain key b) =
      (if entries_of key l = [] then b
       else b\<lparr>queues := filter (\<lambda>kq. fst kq \<noteq> key) (queues b), live_total := length l - length (entries_of key l)\<rparr>)"
    using m h by (simp add: drain_def queue_of_def holds_def)
  have len: "length ?l = length l - length (entries_of key l)"
    using sum_length_filter_compl [of "\<lambda>e. en_key e = key" l] by simp
  have entries: "entries_of k ?l = (if k = key then [] else entries_of k l)" for k
    by (auto simp: filter_empty_conv intro: filter_cong)
  have "holds (snd (drain key b)) (n, ?l)"
  proof (cases "entries_of key l = []")
    case True
    then have "?l = l" by (auto simp: filter_id_conv filter_empty_conv)
    then show ?thesis using h b True by simp
  next
    case False
    have "queue_of ?l k = (if k = key then None else queue_of l k)" for k
      unfolding queue_of_def entries by (cases "k = key") simp_all
    then have "(queue_of l)(key := None) = queue_of ?l" by (simp add: fun_eq_iff)
    moreover have "\<forall>k. length (entries_of k ?l) \<le> max_offline_buffer_per_peer"
      unfolding entries using h by (simp add: holds_def)
    moreover have "sorted_wrt (<) (map en_seq ?l)" using h by (simp add: holds_def sorted_wrt_map sorted_wrt_filter)
    ultimately show ?thesis
      using h b False len by (simp add: holds_def map_of_without distinct_without)
  qed
  moreover have "length ?l \<le> max_offline_buffer_total"
    using hb length_filter_le [of "\<lambda>e. en_key e \<noteq> key" l] unfolding holds_bounded_def snd_conv by linarith
  ultimately show "holds_bounded (snd (drain key b)) (snd (log_drain key (n, l)))"
    using hb by (simp add: holds_bounded_def log_drain_def)
qed

interpretation replay_machine: machine "(buffer_new, (0, []))" "\<lambda>e (b, l). (replay_step e b, log_step e l)"
    "\<lambda>(b, l). holds_bounded b l"
proof unfold_locales
  show "case (buffer_new, (0, [])) of (b, l) \<Rightarrow> holds_bounded b l"
    by (simp add: holds_bounded_def holds_def buffer_new_def queue_of_def fun_eq_iff)
  show "case (case s of (b, l) \<Rightarrow> (replay_step e b, log_step e l)) of (b, l) \<Rightarrow> holds_bounded b l"
    if "case s of (b, l) \<Rightarrow> holds_bounded b l" for s e
  proof -
    obtain b n l where s: "s = (b, n, l)" by (cases s) auto
    then show ?thesis using that push_holds [of b n l] drain_holds(2) [of b n l] by (cases e) simp_all
  qed
qed

lemma run_both: "run (\<lambda>e (b, s). (f e b, g e s)) es (b, s) = (run f es b, run g es s)"
  by (induction es arbitrary: b s) simp_all

lemma replay_history: "holds_bounded (run replay_step es buffer_new) (run log_step es (0, []))"
  using replay_machine.inv_run [of es] by (simp add: run_both)

text \<open>
  C32. After any sequence of pushes and drains, the buffer is a faithful image of one list of events in
  arrival order that is cut, oldest first, at 1024 events per identity and 8192 in all: draining an
  identity returns exactly its events of that list, in order, with the address of the newest;
  the counter equals the number of events held, a queue is never empty, and the queues' order does
  not matter. The newest event pushed is always held.
\<close>

theorem replay_buffer_refines:
  fixes es :: "replay_event list"
  defines "b \<equiv> run replay_step es buffer_new" and "nl \<equiv> run log_step es (0, [])"
  shows "fst (drain k b) = fst (log_drain k nl) \<and> event_count b = length (snd nl)
    \<and> event_count b \<le> 8192 \<and> len_for k b = length (entries_of k (snd nl)) \<and> len_for k b \<le> 1024
    \<and> queue_count b = card (en_key ` set (snd nl))
    \<and> last (drained (fst (drain k (push k a ln b)))) = ln"
proof -
  obtain n l where nl: "nl = (n, l)" by (rule prod.exhaust)
  have hb: "holds_bounded b (n, l)" using replay_history [of es] nl by (simp add: b_def nl_def)
  then have h: "holds b (n, l)" "length l \<le> 8192" by (simp_all add: holds_bounded_def max_offline_buffer_total_def)
  then have m: "map_of (queues b) = queue_of l" and d: "distinct (map fst (queues b))" and t: "live_total b = length l"
    by (simp_all add: holds_def)
  have per: "length (entries_of k l) \<le> 1024"
    using h(1) by (simp add: holds_def max_offline_buffer_per_peer_def)
  have len: "len_for k b = length (entries_of k l)" by (simp add: len_for_def m queue_of_def)
  have "fst ` set (queues b) = dom (map_of (queues b))" by (simp add: dom_map_of_conv_image_fst)
  also have "\<dots> = en_key ` set l" by (auto simp: m queue_of_def dom_def filter_empty_conv split: if_splits)
  finally have "queue_count b = card (en_key ` set l)"
    using distinct_card [OF d] by (simp add: queue_count_def)
  moreover have "last (drained (fst (drain k (push k a ln b)))) = ln"
  proof -
    obtain n' l' where l': "log_push k a ln (n, l) = (n', l')" by (rule prod.exhaust)
    have "fst (drain k (push k a ln b)) = fst (log_drain k (n', l'))"
      using push_holds [OF hb, of k a ln] drain_holds(1) [of _ n' l'] l' by simp
    moreover have "\<exists>pre. l' = pre @ [\<lparr>en_seq = n, en_key = k, en_addr = a, en_line = ln\<rparr>]"
    proof -
      have "\<exists>pre. tl (xs @ [x]) = pre @ [x]" if "8191 < length xs" for xs :: "replay_entry list" and x
        using that by (cases xs) auto
      then show ?thesis using l' by (auto simp: log_push_def Let_def max_offline_buffer_total_def split: if_splits)
    qed
    ultimately show ?thesis by (auto simp: log_drain_def)
  qed
  ultimately show ?thesis
    using h(2) t len per drain_holds(1) [OF hb, of k] by (simp add: nl event_count_def)
qed

end
