(* ===== verification/Resilience.thy ===== *)
theory Resilience
  imports Prelude
begin

section \<open>Retries and the circuit breaker of the payment processors\<close>

text \<open>
  Models \<open>crates/kasirmu-payment/src/resilience.rs\<close> and \<open>error.rs\<close>. The wrapped processor is a
  parameter: an operation on a world \<open>'w\<close> that returns a value or a payment error. The world also has
  the clock: \<open>clock\<close> reads it, in milliseconds, and \<open>sleep\<close> waits. The breaker is behind a lock and
  its operations are atomic; calls of other clients fall between the ones of a call, so the breaker
  is studied under any sequence of operations and the retry loop for itself.
\<close>

subsection \<open>Errors\<close>

datatype error_class = Transient | Terminal | Deferred

datatype payment_error =
    Declined string
  | Timeout nat
  | Network string
  | InvalidResponse string
  | InvalidCard string
  | Expired string
  | Duplicate string
  | Unsupported string

fun classify_error :: "payment_error \<Rightarrow> error_class" where
  "classify_error (Timeout _) = Transient"
| "classify_error (Network _) = Transient"
| "classify_error (Expired _) = Deferred"
| "classify_error (Declined _) = Terminal"
| "classify_error (InvalidResponse _) = Terminal"
| "classify_error (InvalidCard _) = Terminal"
| "classify_error (Duplicate _) = Terminal"
| "classify_error (Unsupported _) = Terminal"

subsection \<open>Circuit breaker\<close>

abbreviation u32_max :: nat where "u32_max \<equiv> 4294967295"

datatype circuit_state = Closed | Open | HalfOpen

record resilient_config =
  max_retries :: nat
  initial_backoff_ms :: nat
  max_backoff_ms :: nat
  failure_threshold :: nat
  cooldown_duration :: nat

definition default_config :: resilient_config where
  "default_config = \<lparr>max_retries = 2, initial_backoff_ms = 100, max_backoff_ms = 2000,
     failure_threshold = 5, cooldown_duration = 30000\<rparr>"

record circuit_breaker =
  threshold :: nat
  cooldown :: nat
  circuit :: circuit_state
  consecutive_failures :: nat
  opened_at :: "nat option"

definition breaker_new :: "nat \<Rightarrow> nat \<Rightarrow> circuit_breaker" where
  "breaker_new thr cool = \<lparr>threshold = thr, cooldown = cool, circuit = Closed, consecutive_failures = 0,
     opened_at = None\<rparr>"

text \<open>\<open>Instant::elapsed\<close> saturates at zero, as subtraction of naturals does.\<close>

definition breaker_state :: "nat \<Rightarrow> circuit_breaker \<Rightarrow> circuit_state \<times> circuit_breaker" where
  "breaker_state now b =
     (let b' = (if circuit b = Open \<and> (case opened_at b of None \<Rightarrow> False | Some t \<Rightarrow> cooldown b \<le> now - t)
           then b\<lparr>circuit := HalfOpen\<rparr> else b)
      in (circuit b', b'))"

definition open_error :: payment_error where
  "open_error = Network ''circuit breaker is open (gateway unavailable, failing fast)''"

definition allow_request :: "nat \<Rightarrow> circuit_breaker \<Rightarrow> payment_error option \<times> circuit_breaker" where
  "allow_request now b =
     (case breaker_state now b of (s, b') \<Rightarrow> (if s = Open then Some open_error else None, b'))"

definition record_success :: "circuit_breaker \<Rightarrow> circuit_breaker" where
  "record_success b = b\<lparr>consecutive_failures := 0, circuit := Closed, opened_at := None\<rparr>"

definition record_failure :: "bool \<Rightarrow> nat \<Rightarrow> circuit_breaker \<Rightarrow> circuit_breaker" where
  "record_failure is_transient now b =
     (if \<not> is_transient then b
      else (let n = min u32_max (consecutive_failures b + 1);
                b' = b\<lparr>consecutive_failures := n\<rparr>
            in if threshold b \<le> n then b'\<lparr>circuit := Open, opened_at := Some now\<rparr> else b'))"

subsection \<open>Retry loop\<close>

text \<open>
  The wait before the given attempt, counted from 1: \<open>1 << (attempt - 1)\<close> panics from 64 on, and the
  product is taken before it is capped and panics when it leaves \<open>u64\<close>.
\<close>

definition backoff_ms :: "resilient_config \<Rightarrow> nat \<Rightarrow> nat option" where
  "backoff_ms cfg attempt =
     (if 64 \<le> attempt - 1 \<or> u64_max < initial_backoff_ms cfg * 2 ^ (attempt - 1) then None
      else Some (min (initial_backoff_ms cfg * 2 ^ (attempt - 1)) (max_backoff_ms cfg)))"

function attempt_loop ::
    "resilient_config \<Rightarrow> (nat \<Rightarrow> 'w \<Rightarrow> 'w) \<Rightarrow> ('w \<Rightarrow> (payment_error + 'a) \<times> 'w) \<Rightarrow> nat \<Rightarrow> 'w
       \<Rightarrow> (payment_error, 'a) outcome \<times> 'w" where
  "attempt_loop cfg sleep op attempt w =
     (case op w of
        (Inr v, w') \<Rightarrow> (Ok v, w')
      | (Inl err, w') \<Rightarrow>
          if classify_error err = Transient \<and> attempt < max_retries cfg then
            (case backoff_ms cfg (attempt + 1) of
               None \<Rightarrow> (Panic, w')
             | Some ms \<Rightarrow> attempt_loop cfg sleep op (attempt + 1) (sleep ms w'))
          else (Err err, w'))"
  by auto
termination
  by (relation "measure (\<lambda>(cfg, sleep, op, attempt, w). max_retries cfg - attempt)") auto

declare attempt_loop.simps [simp del]

definition execute_with_resilience ::
    "resilient_config \<Rightarrow> ('w \<Rightarrow> nat) \<Rightarrow> (nat \<Rightarrow> 'w \<Rightarrow> 'w) \<Rightarrow> ('w \<Rightarrow> (payment_error + 'a) \<times> 'w)
       \<Rightarrow> circuit_breaker \<times> 'w \<Rightarrow> (payment_error, 'a) outcome \<times> circuit_breaker \<times> 'w" where
  "execute_with_resilience cfg clock sleep op bw =
     (case bw of (b, w) \<Rightarrow>
        (case allow_request (clock w) b of
           (Some e, b') \<Rightarrow> (Err e, b', w)
         | (None, b') \<Rightarrow>
             (case attempt_loop cfg sleep op 0 w of
                (Ok v, w') \<Rightarrow> (Ok v, record_success b', w')
              | (Err e, w') \<Rightarrow> (Err e, record_failure (classify_error e = Transient) (clock w') b', w')
              | (Panic, w') \<Rightarrow> (Panic, b', w'))))"

subsection \<open>The breaker against its history\<close>

text \<open>
  An operation of the breaker, with the time it happened. A request is the check of whether it may
  proceed.
\<close>

datatype breaker_event = Request | Success | Failure bool

fun breaker_step :: "breaker_event \<times> nat \<Rightarrow> circuit_breaker \<Rightarrow> circuit_breaker" where
  "breaker_step (Request, now) b = snd (allow_request now b)"
| "breaker_step (Success, now) b = record_success b"
| "breaker_step (Failure tr, now) b = record_failure tr now b"

text \<open>The times of the transient failures since the last success.\<close>

fun failures_step :: "breaker_event \<times> nat \<Rightarrow> nat list \<Rightarrow> nat list" where
  "failures_step (Request, now) fs = fs"
| "failures_step (Success, now) fs = []"
| "failures_step (Failure tr, now) fs = (if tr then fs @ [now] else fs)"

definition breaker_inv :: "nat \<Rightarrow> nat \<Rightarrow> nat \<Rightarrow> circuit_breaker \<Rightarrow> nat list \<Rightarrow> bool" where
  "breaker_inv thr cool t b fs \<longleftrightarrow>
     threshold b = thr \<and> cooldown b = cool \<and> consecutive_failures b = min u32_max (length fs)
     \<and> (\<forall>f \<in> set fs. f \<le> t)
     \<and> (if fs \<noteq> [] \<and> thr \<le> length fs
        then opened_at b = Some (last fs) \<and> (circuit b = Open \<or> circuit b = HalfOpen \<and> last fs + cool \<le> t)
        else opened_at b = None \<and> circuit b = Closed)"

lemma request_allowed:
  assumes "breaker_inv thr cool t b fs" and "t \<le> now"
  shows "fst (allow_request now b) = None \<longleftrightarrow> fs = [] \<or> length fs < thr \<or> last fs + cool \<le> now"
proof (cases "fs \<noteq> [] \<and> thr \<le> length fs")
  case True
  then have "last fs \<le> now" using assms last_in_set [of fs] by (auto simp: breaker_inv_def intro: le_trans)
  then show ?thesis
    using assms True by (auto simp: breaker_inv_def allow_request_def breaker_state_def Let_def)
next
  case False
  then show ?thesis
    using assms by (auto simp: breaker_inv_def allow_request_def breaker_state_def Let_def)
qed

lemma breaker_step_inv:
  assumes inv: "breaker_inv thr cool t b fs" and now: "t \<le> now" and thr: "thr \<le> u32_max"
  shows "breaker_inv thr cool now (breaker_step (e, now) b) (failures_step (e, now) fs)"
proof (cases e)
  case Request
  have "fs \<noteq> [] \<Longrightarrow> last fs \<le> now" using inv now last_in_set [of fs] by (auto simp: breaker_inv_def intro: le_trans)
  then show ?thesis
    using inv now by (auto simp: Request breaker_inv_def allow_request_def breaker_state_def Let_def intro: le_trans)
next
  case Success
  then show ?thesis using inv by (simp add: breaker_inv_def record_success_def)
next
  case (Failure tr)
  show ?thesis
  proof (cases tr)
    case True
    then show ?thesis
      using inv now thr
      by (auto simp: Failure breaker_inv_def record_failure_def Let_def intro: le_trans)
  next
    case False
    then show ?thesis
      using inv now by (auto simp: Failure breaker_inv_def record_failure_def intro: le_trans)
  qed
qed

lemma breaker_run_inv:
  assumes "breaker_inv thr cool t b fs" and "thr \<le> u32_max" and "sorted (t # map snd es)"
    and "\<forall>e \<in> set es. snd e \<le> now" and "t \<le> now"
  shows "breaker_inv thr cool now (run breaker_step es b) (run failures_step es fs)"
  using assms
proof (induction es arbitrary: t b fs)
  case Nil
  then show ?case
    by (auto simp: breaker_inv_def intro: le_trans)
next
  case (Cons e es)
  obtain k n where e: "e = (k, n)" by (rule prod.exhaust)
  have "breaker_inv thr cool n (breaker_step e b) (failures_step e fs)"
    using breaker_step_inv [OF Cons.prems(1) _ Cons.prems(2), of n k] Cons.prems(3) e by simp
  then show ?case using Cons.IH [of n] Cons.prems e by simp
qed

text \<open>
  C38. Under any interleaving of requests, successes and failures in the order of a clock, the breaker
  refuses a request exactly when at least as many transient failures as the threshold came since
  the last success and the cooldown since the newest of them has not passed. Errors that are not
  transient count neither as failures nor as successes.
\<close>

theorem breaker_allows_exactly:
  assumes "sorted (map snd es)" and "\<forall>e \<in> set es. snd e \<le> now" and "thr \<le> u32_max"
  shows "(let b = run breaker_step es (breaker_new thr cool); fs = run failures_step es [] in
    (fst (allow_request now b) = None \<longleftrightarrow> fs = [] \<or> length fs < thr \<or> last fs + cool \<le> now)
    \<and> (fst (allow_request now b) \<noteq> None \<longrightarrow> fst (allow_request now b) = Some open_error))"
proof -
  have "breaker_inv thr cool 0 (breaker_new thr cool) []" by (simp add: breaker_inv_def breaker_new_def)
  then have "breaker_inv thr cool now (run breaker_step es (breaker_new thr cool)) (run failures_step es [])"
    using assms by (intro breaker_run_inv [where t = 0]) auto
  from request_allowed [OF this, of now] show ?thesis
    by (simp add: Let_def allow_request_def split: prod.splits)
qed

text \<open>Two failures with a declined card between them trip a breaker with threshold 2.\<close>

theorem breaker_allows_exactly_witness:
  "fst (allow_request 130 (run breaker_step [(Failure True, 10), (Failure False, 20), (Failure True, 100)] (breaker_new 2 50)))
     = Some open_error
   \<and> fst (allow_request 150 (run breaker_step [(Failure True, 10), (Failure False, 20), (Failure True, 100)] (breaker_new 2 50)))
     = None"
proof -
  let ?es = "[(Failure True, 10), (Failure False, 20), (Failure True, 100)] :: (breaker_event \<times> nat) list"
  have fs: "run failures_step ?es [] = [10, 100]" by simp
  have "sorted (map snd ?es)" "\<forall>e \<in> set ?es. snd e \<le> 130" "\<forall>e \<in> set ?es. snd e \<le> 150" "(2::nat) \<le> u32_max"
    by simp_all
  then show ?thesis
    using breaker_allows_exactly [of ?es 130 2 50] breaker_allows_exactly [of ?es 150 2 50]
    by (simp add: Let_def fs del: run.simps)
qed

subsection \<open>What the retry loop does\<close>

text \<open>The world before attempt number \<open>n\<close>, the first being 0, when all before it failed and were retried.\<close>

fun before_attempt ::
    "resilient_config \<Rightarrow> (nat \<Rightarrow> 'w \<Rightarrow> 'w) \<Rightarrow> ('w \<Rightarrow> (payment_error + 'a) \<times> 'w) \<Rightarrow> 'w \<Rightarrow> nat \<Rightarrow> 'w" where
  "before_attempt cfg sleep op w 0 = w"
| "before_attempt cfg sleep op w (Suc n) =
     sleep (the (backoff_ms cfg (Suc n))) (snd (op (before_attempt cfg sleep op w n)))"

definition transient_error :: "payment_error + 'a \<Rightarrow> bool" where
  "transient_error r = (case r of Inl e \<Rightarrow> classify_error e = Transient | Inr _ \<Rightarrow> False)"

lemma attempt_loop_exact:
  assumes "\<forall>a \<in> {1..max_retries cfg}. backoff_ms cfg a \<noteq> None" and "k \<le> max_retries cfg"
  shows "\<exists>n. k \<le> n \<and> n \<le> max_retries cfg
    \<and> (\<forall>m. k \<le> m \<and> m < n \<longrightarrow> transient_error (fst (op (before_attempt cfg sleep op w m))))
    \<and> (n < max_retries cfg \<longrightarrow> \<not> transient_error (fst (op (before_attempt cfg sleep op w n))))
    \<and> attempt_loop cfg sleep op k (before_attempt cfg sleep op w k)
        = (of_sum (fst (op (before_attempt cfg sleep op w n))), snd (op (before_attempt cfg sleep op w n)))"
  using assms(2)
proof (induction "max_retries cfg - k" arbitrary: k)
  case 0
  then have k: "k = max_retries cfg" by simp
  obtain r w' where o: "op (before_attempt cfg sleep op w k) = (r, w')" by (rule prod.exhaust)
  then show ?case
    by (intro exI [of _ k]) (auto simp: k attempt_loop.simps split: sum.split)
next
  case (Suc d)
  let ?w = "before_attempt cfg sleep op w"
  obtain r w' where o: "op (?w k) = (r, w')" by (rule prod.exhaust)
  show ?case
  proof (cases "transient_error r")
    case True
    then obtain e where e: "r = Inl e" "classify_error e = Transient" by (cases r) (auto simp: transient_error_def)
    have "backoff_ms cfg (Suc k) \<noteq> None" using assms(1) Suc by auto
    then have step: "attempt_loop cfg sleep op k (?w k) = attempt_loop cfg sleep op (Suc k) (?w (Suc k))"
      using Suc.hyps(2) o e by (subst attempt_loop.simps) auto
    have "d = max_retries cfg - Suc k" "Suc k \<le> max_retries cfg" using Suc.hyps(2) by simp_all
    from Suc.hyps(1) [OF this] obtain n where n: "Suc k \<le> n" "n \<le> max_retries cfg"
        "\<forall>m. Suc k \<le> m \<and> m < n \<longrightarrow> transient_error (fst (op (?w m)))"
        "n < max_retries cfg \<longrightarrow> \<not> transient_error (fst (op (?w n)))"
        "attempt_loop cfg sleep op (Suc k) (?w (Suc k)) = (of_sum (fst (op (?w n))), snd (op (?w n)))"
      by blast
    have "transient_error (fst (op (?w m)))" if "k \<le> m" "m < n" for m
      using that n(3) o True by (cases "m = k") auto
    then show ?thesis using n step by (intro exI [of _ n]) auto
  next
    case False
    then have "attempt_loop cfg sleep op k (?w k) = (of_sum r, w')"
      using o by (subst attempt_loop.simps) (auto simp: transient_error_def split: sum.splits)
    then show ?thesis using o False Suc.prems by (intro exI [of _ k]) auto
  qed
qed

text \<open>
  C37. A call that the breaker refuses does not reach the processor. A call that it lets through
  tries once and again after each transient error, at most \<open>max_retries\<close> more times with the waits of
  the schedule between, ends with the first result that is not a transient error or with the last
  one, and records exactly that result at the breaker. This needs that the schedule does not
  overflow.
\<close>

theorem execute_retries:
  assumes "\<forall>a \<in> {1..max_retries cfg}. backoff_ms cfg a \<noteq> None"
  shows "(\<forall>e b'. allow_request (clock w) b = (Some e, b') \<longrightarrow>
       execute_with_resilience cfg clock sleep op (b, w) = (Err e, b', w))
    \<and> (\<forall>b'. allow_request (clock w) b = (None, b') \<longrightarrow>
       (\<exists>n \<le> max_retries cfg.
          (\<forall>m < n. transient_error (fst (op (before_attempt cfg sleep op w m))))
          \<and> (n < max_retries cfg \<longrightarrow> \<not> transient_error (fst (op (before_attempt cfg sleep op w n))))
          \<and> execute_with_resilience cfg clock sleep op (b, w) =
              (case op (before_attempt cfg sleep op w n) of
                 (Inr v, w') \<Rightarrow> (Ok v, record_success b', w')
               | (Inl e, w') \<Rightarrow> (Err e, record_failure (classify_error e = Transient) (clock w') b', w'))))"
proof -
  obtain n where n: "n \<le> max_retries cfg"
      "\<forall>m < n. transient_error (fst (op (before_attempt cfg sleep op w m)))"
      "n < max_retries cfg \<longrightarrow> \<not> transient_error (fst (op (before_attempt cfg sleep op w n)))"
      "attempt_loop cfg sleep op 0 w
        = (of_sum (fst (op (before_attempt cfg sleep op w n))), snd (op (before_attempt cfg sleep op w n)))"
    using attempt_loop_exact [OF assms, of 0 op sleep w] by auto
  obtain r w' where o: "op (before_attempt cfg sleep op w n) = (r, w')" by (rule prod.exhaust)
  have "execute_with_resilience cfg clock sleep op (b, w) =
      (case op (before_attempt cfg sleep op w n) of
         (Inr v, w') \<Rightarrow> (Ok v, record_success b', w')
       | (Inl e, w') \<Rightarrow> (Err e, record_failure (classify_error e = Transient) (clock w') b', w'))"
    if "allow_request (clock w) b = (None, b')" for b'
    using that n(4) o by (cases r) (simp_all add: execute_with_resilience_def)
  then show ?thesis using n(1-3) by (auto simp: execute_with_resilience_def)
qed

text \<open>A gateway that fails twice and then answers; the world counts calls and holds the time.\<close>

definition flaky :: "nat \<times> nat \<Rightarrow> (payment_error + nat) \<times> nat \<times> nat" where
  "flaky cw = (case cw of (calls, t) \<Rightarrow> (if calls < 2 then Inl (Timeout 5) else Inr calls, Suc calls, t + 5))"

definition pause :: "nat \<Rightarrow> nat \<times> nat \<Rightarrow> nat \<times> nat" where
  "pause ms cw = (fst cw, snd cw + ms)"

theorem execute_retries_witness:
  "execute_with_resilience default_config snd pause flaky (breaker_new 5 30000, (0, 0))
     = (Ok 2, breaker_new 5 30000, (3, 315))"
proof -
  let ?b = "breaker_new 5 30000" and ?w = "before_attempt default_config pause flaky (0, 0)"
  have "backoff_ms default_config a \<noteq> None" if "a \<in> {1..max_retries default_config}" for a
  proof -
    have "a = 1 \<or> a = 2" using that by (auto simp: default_config_def)
    then show ?thesis by (auto simp: backoff_ms_def default_config_def)
  qed
  then have "\<forall>a \<in> {1..max_retries default_config}. backoff_ms default_config a \<noteq> None" by blast
  moreover have a: "allow_request (snd (0, 0)) ?b = (None, ?b)"
    by (simp add: allow_request_def breaker_state_def breaker_new_def Let_def)
  ultimately obtain n where n: "n \<le> 2" "\<forall>m < n. transient_error (fst (flaky (?w m)))"
      "n < 2 \<longrightarrow> \<not> transient_error (fst (flaky (?w n)))"
      "execute_with_resilience default_config snd pause flaky (?b, (0, 0)) =
        (case flaky (?w n) of (Inr v, w') \<Rightarrow> (Ok v, record_success ?b, w')
         | (Inl e, w') \<Rightarrow> (Err e, record_failure (classify_error e = Transient) (snd w') ?b, w'))"
    using execute_retries [of default_config snd "(0, 0)" ?b pause flaky]
    by (auto simp: default_config_def)
  have w: "?w 0 = (0, 0)" "?w (Suc 0) = (1, 105)" "?w 2 = (2, 310)"
    by (simp_all add: flaky_def pause_def backoff_ms_def default_config_def numeral_2_eq_2)
  have "transient_error (fst (flaky (?w 0)))" "transient_error (fst (flaky (?w (Suc 0))))"
    unfolding w by (simp_all add: flaky_def transient_error_def)
  then have "n \<noteq> 0" "n \<noteq> Suc 0" using n(3) by (metis zero_less_numeral, metis one_less_numeral_iff One_nat_def semiring_norm(76))
  then have "n = 2" using n(1) by linarith
  then show ?thesis using n(4) unfolding \<open>n = 2\<close> w by (simp add: flaky_def record_success_def breaker_new_def)
qed

text \<open>The cap comes too late: the product overflows first.\<close>

lemma backoff_overflows: "1 \<le> initial_backoff_ms cfg \<Longrightarrow> 65 \<le> a \<Longrightarrow> backoff_ms cfg a = None"
proof -
  assume "1 \<le> initial_backoff_ms cfg" "65 \<le> a"
  then have "64 \<le> a - 1" by linarith
  then show ?thesis unfolding backoff_ms_def by simp
qed

end
