(* ===== verification/Stock.thy ===== *)
theory Stock
  imports Tax_Rates "HOL-Library.Char_ord" "HOL-Library.List_Lexorder"
begin

section \<open>Stock: the movement ledger and the tables derived from it\<close>

text \<open>
  Models \<open>crates/kasirmu-core/src/db/products_stock_adjust\<close> (\<open>adjust.rs\<close>, \<open>batch.rs\<close>, \<open>ledger.rs\<close>,
  \<open>movements.rs\<close>): the ledger \<open>stock_movements\<close> of signed deltas, the per-location \<open>stock_summary\<close> and
  the older \<open>inventory\<close> with one total per product. Tables are lists with the constraints of the
  schema: primary keys, the foreign keys to locations and inventory transactions, \<open>qty >= 0\<close> of
  \<open>inventory\<close>, which SQLite checks on the row to be inserted before it looks for a conflict, and
  the trigger pair that refuses a negative \<open>stock_summary\<close> row unless a binding of the location opts
  in. Fresh ids and the time are arguments. SQLite's \<open>SUM\<close> is taken to stay within \<open>i64\<close>. Publishing
  to the cache is left out, as is the vacuum after archiving.
\<close>

subsection \<open>Tables\<close>

record stock_movement =
  mv_id :: string
  mv_item :: string
  mv_location :: string
  mv_delta :: int
  mv_reason :: "string option"
  mv_txn :: "string option"
  mv_terminal :: "string option"
  mv_user :: "string option"
  mv_store :: string
  mv_created_at :: string

record inventory_row =
  iv_qty :: int
  iv_location :: string
  iv_updated_at :: string

record stock_threshold =
  th_id :: string
  th_product :: string
  th_location :: "string option"
  th_limit :: int
  th_enabled :: bool

record stock_alert =
  al_id :: string
  al_threshold :: string
  al_product :: string
  al_location :: string
  al_qty :: int
  al_limit :: int
  al_status :: string
  al_triggered_at :: string
  al_resolved_at :: "string option"

text \<open>
  \<open>products\<close> holds ids and SKUs, \<open>terminal_ws\<close> the workspace instance of a terminal, \<open>bindings\<close> the
  \<open>allow_negative_stock\<close> flag of an instance at a location, \<open>summary\<close> quantity and time by product and
  location.
\<close>

record stock_store =
  products :: "(string \<times> string) list"
  stock_locations :: "string list"
  inventory_txns :: "string list"
  terminal_ws :: "(string \<times> string option) list"
  bindings :: "((string \<times> string) \<times> int option) list"
  thresholds :: "stock_threshold list"
  alerts :: "stock_alert list"
  movements :: "stock_movement list"
  archived :: "stock_movement list"
  summary :: "((string \<times> string) \<times> int \<times> string) list"
  inventory :: "(string \<times> inventory_row) list"

definition canonical_default_location :: string where
  "canonical_default_location = ''01926b3a-0000-7000-8000-000000000001''"

definition legacy_backfill_reason :: string where
  "legacy_backfill_reason = ''legacy-backfill''"

definition rebuild_scope_chunk :: nat where
  "rebuild_scope_chunk = 900"

subsection \<open>Queries\<close>

definition stock_product_id_by_sku :: "stock_store \<Rightarrow> string \<Rightarrow> string option" where
  "stock_product_id_by_sku st sku = map_option fst (List.find (\<lambda>p. snd p = sku) (products st))"

definition get_stock :: "stock_store \<Rightarrow> string \<Rightarrow> int" where
  "get_stock st p = (case map_of (inventory st) p of None \<Rightarrow> 0 | Some r \<Rightarrow> iv_qty r)"

definition product_has_location_rows :: "stock_store \<Rightarrow> string \<Rightarrow> bool" where
  "product_has_location_rows st p \<longleftrightarrow> list_ex (\<lambda>r. fst (fst r) = p) (summary st)"

definition location_qty :: "stock_store \<Rightarrow> string \<Rightarrow> string \<Rightarrow> int" where
  "location_qty st p l = (case map_of (summary st) (p, l) of None \<Rightarrow> 0 | Some (q, _) \<Rightarrow> q)"

definition legacy_aware_location_qty :: "stock_store \<Rightarrow> string \<Rightarrow> string \<Rightarrow> int" where
  "legacy_aware_location_qty st p l =
     (let qty = location_qty st p l
      in if product_has_location_rows st p then qty
         else (case map_of (inventory st) p of
             Some r \<Rightarrow> if iv_qty r \<noteq> 0 then iv_qty r else qty
           | None \<Rightarrow> qty))"

definition summary_total :: "stock_store \<Rightarrow> string \<Rightarrow> int" where
  "summary_total st p = sum_list (map (\<lambda>r. fst (snd r)) (filter (\<lambda>r. fst (fst r) = p) (summary st)))"

definition ledger_total :: "stock_store \<Rightarrow> string \<Rightarrow> int" where
  "ledger_total st p = sum_list (map mv_delta (filter (\<lambda>m. mv_item m = p) (movements st)))"

definition get_stock_from_ledger :: "stock_store \<Rightarrow> string \<Rightarrow> int" where
  "get_stock_from_ledger st p =
     (if list_ex (\<lambda>m. mv_item m = p) (movements st) then ledger_total st p else get_stock st p)"

definition list_stock_movements :: "stock_store \<Rightarrow> string \<Rightarrow> nat \<Rightarrow> nat \<Rightarrow> stock_movement list" where
  "list_stock_movements st p limit offset =
     take limit (drop offset (rev (sort_key mv_created_at (filter (\<lambda>m. mv_item m = p) (movements st)))))"

definition allows_negative :: "stock_store \<Rightarrow> string option \<Rightarrow> string \<Rightarrow> bool" where
  "allows_negative st terminal l =
     (case Option.bind terminal (map_of (terminal_ws st)) of
        Some (Some ws) \<Rightarrow> map_of (bindings st) (ws, l) = Some (Some 1)
      | _ \<Rightarrow> False)"

subsection \<open>Row writes with their constraints\<close>

definition insert_movement :: "stock_movement \<Rightarrow> stock_store \<Rightarrow> core_error + stock_store" where
  "insert_movement m st =
     (if mv_id m \<in> mv_id ` set (movements st) \<or> mv_location m \<notin> set (stock_locations st)
         \<or> (case mv_txn m of None \<Rightarrow> False | Some t \<Rightarrow> t \<notin> set (inventory_txns st))
      then Inl Db else Inr (st\<lparr>movements := movements st @ [m]\<rparr>))"

text \<open>The trigger pair: some binding of the location exists and none opts in.\<close>

definition negative_refused :: "stock_store \<Rightarrow> string \<Rightarrow> int \<Rightarrow> bool" where
  "negative_refused st l q \<longleftrightarrow> q < 0 \<and> list_ex (\<lambda>b. snd (fst b) = l) (bindings st)
     \<and> \<not> list_ex (\<lambda>b. snd (fst b) = l \<and> snd b = Some 1) (bindings st)"

definition upsert_stock_summary_in_tx ::
    "string \<Rightarrow> string \<Rightarrow> int \<Rightarrow> string \<Rightarrow> stock_store \<Rightarrow> core_error + stock_store" where
  "upsert_stock_summary_in_tx p l q now st =
     (if p \<notin> fst ` set (products st) \<or> l \<notin> set (stock_locations st) \<or> negative_refused st l q
      then Inl Db else Inr (st\<lparr>summary := tab_update (p, l) (q, now) (summary st)\<rparr>))"

text \<open>The \<open>inventory\<close> upsert of an adjustment: a new row gets \<open>q\<close>, an old one the sum of the summary.\<close>

definition upsert_inventory_sum ::
    "string \<Rightarrow> string \<Rightarrow> int \<Rightarrow> string \<Rightarrow> stock_store \<Rightarrow> core_error + stock_store" where
  "upsert_inventory_sum p l q now st =
     (if q < 0 then Inl Db
      else (case map_of (inventory st) p of
          None \<Rightarrow> Inr (st\<lparr>inventory := tab_update p \<lparr>iv_qty = q, iv_location = l, iv_updated_at = now\<rparr> (inventory st)\<rparr>)
        | Some r \<Rightarrow>
            (let s = (if product_has_location_rows st p then summary_total st p else q)
             in if s < 0 then Inl Db
                else Inr (st\<lparr>inventory := tab_update p (r\<lparr>iv_qty := s, iv_updated_at := now\<rparr>) (inventory st)\<rparr>))))"

subsection \<open>Alerts\<close>

definition threshold_for :: "stock_store \<Rightarrow> string \<Rightarrow> string \<Rightarrow> stock_threshold option" where
  "threshold_for st p l =
     (case List.find (\<lambda>t. th_product t = p \<and> th_location t = Some l \<and> th_enabled t) (thresholds st) of
        Some t \<Rightarrow> Some t
      | None \<Rightarrow> List.find (\<lambda>t. th_product t = p \<and> th_location t = None \<and> th_enabled t) (thresholds st))"

definition is_open_alert :: "string \<Rightarrow> stock_alert \<Rightarrow> bool" where
  "is_open_alert t a \<longleftrightarrow> al_threshold a = t \<and> (al_status a = ''active'' \<or> al_status a = ''acknowledged'')"

text \<open>Failures of the insert are ignored by the caller.\<close>

definition check_stock_threshold ::
    "string \<Rightarrow> string \<Rightarrow> string \<Rightarrow> string \<Rightarrow> int \<Rightarrow> stock_store \<Rightarrow> stock_store" where
  "check_stock_threshold alert_id now p l q st =
     (case threshold_for st p l of
        None \<Rightarrow> st
      | Some t \<Rightarrow>
          if q < th_limit t then
            (if list_ex (is_open_alert (th_id t)) (alerts st) \<or> alert_id \<in> al_id ` set (alerts st) then st
             else st\<lparr>alerts := alerts st @ [\<lparr>al_id = alert_id, al_threshold = th_id t, al_product = p,
                    al_location = l, al_qty = q, al_limit = th_limit t, al_status = ''active'',
                    al_triggered_at = now, al_resolved_at = None\<rparr>]\<rparr>)
          else st\<lparr>alerts := map (\<lambda>a. if is_open_alert (th_id t) a
                   then a\<lparr>al_status := ''resolved'', al_resolved_at := Some now\<rparr> else a) (alerts st)\<rparr>)"

subsection \<open>Adjusting\<close>

record adjust_args =
  aa_movement_id :: string
  aa_alert_id :: string
  aa_now :: string

definition adjust_stock_at_location_with_reason ::
    "adjust_args \<Rightarrow> string \<Rightarrow> int \<Rightarrow> string \<Rightarrow> string option \<Rightarrow> string option \<Rightarrow> string option \<Rightarrow> string option
       \<Rightarrow> stock_store \<Rightarrow> core_error + int \<times> stock_store" where
  "adjust_stock_at_location_with_reason x sku delta l why txn terminal user st =
     (case stock_product_id_by_sku st sku of
        None \<Rightarrow> Inl (NotFound ''product'' sku)
      | Some p \<Rightarrow>
          (let current = legacy_aware_location_qty st p l;
               neg = allows_negative st terminal l
           in case checked_add current delta of
                None \<Rightarrow> Inl (if neg then Validation ''qty'' else InsufficientStockAtLocation sku l delta current)
              | Some new \<Rightarrow>
                  if \<not> neg \<and> new < 0 then Inl (InsufficientStockAtLocation sku l delta current)
                  else (case insert_movement \<lparr>mv_id = aa_movement_id x, mv_item = p, mv_location = l,
                            mv_delta = delta, mv_reason = why, mv_txn = txn, mv_terminal = terminal,
                            mv_user = user, mv_store = [], mv_created_at = aa_now x\<rparr> st of
                      Inl e \<Rightarrow> Inl e
                    | Inr st1 \<Rightarrow>
                        (case upsert_stock_summary_in_tx p l new (aa_now x) st1 of
                           Inl _ \<Rightarrow> Inl (InsufficientStockAtLocation sku l delta current)
                         | Inr st2 \<Rightarrow>
                             (case upsert_inventory_sum p l new (aa_now x) st2 of
                                Inl e \<Rightarrow> if neg
                                  then Inr (new, check_stock_threshold (aa_alert_id x) (aa_now x) p l new st2)
                                  else Inl e
                              | Inr st3 \<Rightarrow>
                                  Inr (new, check_stock_threshold (aa_alert_id x) (aa_now x) p l new st3))))))"

definition bridge_legacy_inventory_into_stock_summary ::
    "string \<Rightarrow> string \<Rightarrow> stock_store \<Rightarrow> core_error + stock_store" where
  "bridge_legacy_inventory_into_stock_summary now p st =
     (if product_has_location_rows st p then Inr st
      else (case map_of (inventory st) p of
          None \<Rightarrow> Inr st
        | Some r \<Rightarrow> if iv_qty r = 0 then Inr st
            else upsert_stock_summary_in_tx p canonical_default_location (iv_qty r) now st))"

record stock_deduction =
  sd_sku :: string
  sd_location :: string
  sd_delta :: int

fun precheck_batch :: "string option \<Rightarrow> stock_deduction list \<Rightarrow> stock_store \<Rightarrow> core_error + unit" where
  "precheck_batch terminal [] st = Inr ()"
| "precheck_batch terminal (d # ds) st =
     (case stock_product_id_by_sku st (sd_sku d) of
        None \<Rightarrow> Inl (NotFound ''product'' (sd_sku d))
      | Some p \<Rightarrow>
          (let current = legacy_aware_location_qty st p (sd_location d)
           in if \<not> allows_negative st terminal (sd_location d)
                 \<and> (case checked_add current (sd_delta d) of None \<Rightarrow> True | Some v \<Rightarrow> v < 0)
              then Inl (InsufficientStockAtLocation (sd_sku d) (sd_location d) (sd_delta d) current)
              else precheck_batch terminal ds st))"

text \<open>\<open>ids n\<close> are the ids and the time of the n-th adjustment.\<close>

fun execute_batch ::
    "(nat \<Rightarrow> adjust_args) \<Rightarrow> nat \<Rightarrow> stock_deduction list \<Rightarrow> string option \<Rightarrow> string option \<Rightarrow> string option
       \<Rightarrow> string option \<Rightarrow> stock_store \<Rightarrow> core_error + stock_store" where
  "execute_batch ids n [] why txn terminal user st = Inr st"
| "execute_batch ids n (d # ds) why txn terminal user st =
     (case adjust_stock_at_location_with_reason (ids n) (sd_sku d) (sd_delta d) (sd_location d) why txn
         terminal user st of
        Inl e \<Rightarrow> Inl e
      | Inr (_, st') \<Rightarrow> execute_batch ids (Suc n) ds why txn terminal user st')"

definition adjust_stock_batch ::
    "(nat \<Rightarrow> adjust_args) \<Rightarrow> stock_deduction list \<Rightarrow> string option \<Rightarrow> string option \<Rightarrow> string option
       \<Rightarrow> string option \<Rightarrow> stock_store \<Rightarrow> core_error + stock_store" where
  "adjust_stock_batch ids ds why txn terminal user st =
     (if ds = [] then Inr st
      else (case precheck_batch terminal ds st of
          Inl e \<Rightarrow> Inl e
        | Inr _ \<Rightarrow> execute_batch ids 0 ds why txn terminal user st))"

text \<open>The older wrapper without a location: it reads \<open>inventory\<close> and writes all three tables itself.\<close>

definition adjust_stock_with_reason ::
    "adjust_args \<Rightarrow> string \<Rightarrow> int \<Rightarrow> string option \<Rightarrow> string option \<Rightarrow> string option
       \<Rightarrow> stock_store \<Rightarrow> core_error + int \<times> stock_store" where
  "adjust_stock_with_reason x sku delta why terminal user st =
     (case stock_product_id_by_sku st sku of
        None \<Rightarrow> Inl (NotFound ''product'' sku)
      | Some p \<Rightarrow>
          (case checked_add (get_stock st p) delta of
             None \<Rightarrow> Inl (Validation ''delta'')
           | Some new \<Rightarrow>
               if new < 0 then Inl (Validation ''delta'')
               else (case insert_movement \<lparr>mv_id = aa_movement_id x, mv_item = p,
                         mv_location = canonical_default_location, mv_delta = delta, mv_reason = why,
                         mv_txn = None, mv_terminal = terminal, mv_user = user, mv_store = [],
                         mv_created_at = aa_now x\<rparr> st of
                   Inl e \<Rightarrow> Inl e
                 | Inr st1 \<Rightarrow>
                     (let row = (case map_of (inventory st1) p of
                          None \<Rightarrow> \<lparr>iv_qty = new, iv_location = canonical_default_location, iv_updated_at = aa_now x\<rparr>
                        | Some r \<Rightarrow> r\<lparr>iv_qty := new, iv_updated_at := aa_now x\<rparr>)
                      in case upsert_stock_summary_in_tx p canonical_default_location new (aa_now x)
                               (st1\<lparr>inventory := tab_update p row (inventory st1)\<rparr>) of
                           Inl e \<Rightarrow> Inl e
                         | Inr st2 \<Rightarrow> Inr (new, st2)))))"

subsection \<open>Rebuilding the derived tables\<close>

text \<open>The products in scope whose \<open>inventory\<close> is ahead of the ledger while the summary does not disagree.\<close>

definition shortfalls :: "stock_store \<Rightarrow> string list \<Rightarrow> (string \<times> int) list" where
  "shortfalls st ids =
     map (\<lambda>(p, r). (p, iv_qty r - ledger_total st p))
       (filter (\<lambda>(p, r). p \<in> set ids \<and> ledger_total st p < iv_qty r
          \<and> (\<not> product_has_location_rows st p \<or> summary_total st p = iv_qty r)) (inventory st))"

definition backfill_id :: "string \<Rightarrow> string" where
  "backfill_id p = legacy_backfill_reason @ '':'' @ p"

definition backfill :: "string \<Rightarrow> string \<times> int \<Rightarrow> stock_store \<Rightarrow> core_error + stock_store" where
  "backfill now ps st =
     (case ps of (p, short) \<Rightarrow>
        if backfill_id p \<in> mv_id ` set (movements st)
        then Inr (st\<lparr>movements := map (\<lambda>m. if mv_id m = backfill_id p
               then m\<lparr>mv_delta := short, mv_created_at := now\<rparr> else m) (movements st)\<rparr>)
        else insert_movement \<lparr>mv_id = backfill_id p, mv_item = p, mv_location = canonical_default_location,
               mv_delta = short, mv_reason = Some legacy_backfill_reason, mv_txn = None, mv_terminal = None,
               mv_user = None, mv_store = [], mv_created_at = now\<rparr> st)"

text \<open>Run a fallible step for every element, stopping at the first error.\<close>

fun each :: "('a \<Rightarrow> 's \<Rightarrow> 'e + 's) \<Rightarrow> 'a list \<Rightarrow> 's \<Rightarrow> 'e + 's" where
  "each f [] s = Inr s"
| "each f (x # xs) s = (case f x s of Inl e \<Rightarrow> Inl e | Inr s' \<Rightarrow> each f xs s')"

definition ledger_groups :: "stock_store \<Rightarrow> string list \<Rightarrow> (string \<times> string) list" where
  "ledger_groups st ids =
     remdups (map (\<lambda>m. (mv_item m, mv_location m)) (filter (\<lambda>m. mv_item m \<in> set ids) (movements st)))"

definition ledger_qty :: "stock_store \<Rightarrow> string \<Rightarrow> string \<Rightarrow> int" where
  "ledger_qty st p l = sum_list (map mv_delta (filter (\<lambda>m. mv_item m = p \<and> mv_location m = l) (movements st)))"

definition insert_summary_group :: "string \<Rightarrow> string \<times> string \<Rightarrow> stock_store \<Rightarrow> core_error + stock_store" where
  "insert_summary_group now pl st =
     (case pl of (p, l) \<Rightarrow> upsert_stock_summary_in_tx p l (ledger_qty st p l) now st)"

text \<open>The total of the ledger replaces that of \<open>inventory\<close>; a negative one violates its check.\<close>

definition rebuild_inventory :: "string \<Rightarrow> string \<Rightarrow> stock_store \<Rightarrow> core_error + stock_store" where
  "rebuild_inventory now p st =
     (if ledger_total st p < 0 \<or> p \<notin> fst ` set (products st) \<or> canonical_default_location \<notin> set (stock_locations st)
      then Inl Db
      else Inr (st\<lparr>inventory := tab_update p \<lparr>iv_qty = ledger_total st p,
             iv_location = canonical_default_location, iv_updated_at = now\<rparr> (inventory st)\<rparr>))"

definition zero_inventory :: "string \<Rightarrow> string list \<Rightarrow> stock_store \<Rightarrow> stock_store" where
  "zero_inventory now ids st =
     st\<lparr>inventory := map (\<lambda>(p, r). if p \<in> set ids \<and> list_ex (\<lambda>m. mv_item m = p) (movements st) \<and> ledger_total st p \<le> 0
          then (p, r\<lparr>iv_qty := 0, iv_updated_at := now\<rparr>) else (p, r)) (inventory st)\<rparr>"

definition ledger_items :: "stock_store \<Rightarrow> string list \<Rightarrow> string list" where
  "ledger_items st ids = remdups (filter (\<lambda>p. p \<in> set ids) (map mv_item (movements st)))"

definition clear_summary :: "string list \<Rightarrow> stock_store \<Rightarrow> stock_store" where
  "clear_summary ids st = st\<lparr>summary := filter (\<lambda>r. fst (fst r) \<notin> set ids) (summary st)\<rparr>"

text \<open>The statements for one chunk of the scope.\<close>

definition rebuild_chunk :: "string \<Rightarrow> string list \<Rightarrow> nat \<times> stock_store \<Rightarrow> core_error + nat \<times> stock_store" where
  "rebuild_chunk now ids ns =
     (case ns of (n, st) \<Rightarrow>
        (case each (backfill now) (shortfalls st ids) st of
           Inl e \<Rightarrow> Inl e
         | Inr st1 \<Rightarrow>
             (let st2 = clear_summary ids st1; groups = ledger_groups st2 ids
              in case each (insert_summary_group now) groups st2 of
                   Inl e \<Rightarrow> Inl e
                 | Inr st3 \<Rightarrow>
                     (case each (rebuild_inventory now) (ledger_items st3 ids) st3 of
                        Inl e \<Rightarrow> Inl e
                      | Inr st4 \<Rightarrow> Inr (n + length groups, zero_inventory now ids st4)))))"

function chunks :: "nat \<Rightarrow> 'a list \<Rightarrow> 'a list list" where
  "chunks n xs = (if xs = [] \<or> n = 0 then [] else take n xs # chunks n (drop n xs))"
  by auto
termination
  by (relation "measure (\<lambda>(n, xs). length xs)") auto

declare chunks.simps [simp del]

definition rebuild_stock_summary_for :: "string \<Rightarrow> string list \<Rightarrow> stock_store \<Rightarrow> core_error + nat \<times> stock_store" where
  "rebuild_stock_summary_for now ids st =
     (if ids = [] then Inr (0, st) else each (rebuild_chunk now) (chunks rebuild_scope_chunk ids) (0, st))"

definition rebuild_stock_summary :: "string \<Rightarrow> stock_store \<Rightarrow> core_error + nat \<times> stock_store" where
  "rebuild_stock_summary now st =
     rebuild_stock_summary_for now
       (remdups (map mv_item (movements st) @ map (\<lambda>r. fst (fst r)) (summary st))) st"

subsection \<open>Archiving old movements\<close>

definition archivable :: "string \<Rightarrow> string \<Rightarrow> stock_movement \<Rightarrow> bool" where
  "archivable cutoff p m \<longleftrightarrow> mv_item m = p \<and> mv_created_at m < cutoff
     \<and> mv_reason m \<noteq> None \<and> mv_reason m \<noteq> Some ''archive-rollup''"

text \<open>One product in its transaction: copy, insert one rollup row at the default location, delete.\<close>

definition archive_item :: "string \<Rightarrow> string \<Rightarrow> string \<Rightarrow> string \<Rightarrow> stock_store \<Rightarrow> core_error + stock_store" where
  "archive_item cutoff now rollup_id p st =
     (let old = filter (archivable cutoff p) (movements st)
      in if mv_id ` set old \<inter> mv_id ` set (archived st) \<noteq> {} then Inl Db
         else (case insert_movement \<lparr>mv_id = rollup_id, mv_item = p, mv_location = canonical_default_location,
                   mv_delta = sum_list (map mv_delta old), mv_reason = Some ''archive-rollup'', mv_txn = None,
                   mv_terminal = None, mv_user = None, mv_store = [], mv_created_at = now\<rparr>
                   (st\<lparr>archived := archived st @ old\<rparr>) of
             Inl e \<Rightarrow> Inl e
           | Inr st' \<Rightarrow> Inr (st'\<lparr>movements := filter (\<lambda>m. \<not> archivable cutoff p m) (movements st')\<rparr>)))"

fun archive_items ::
    "string \<Rightarrow> string \<Rightarrow> (nat \<Rightarrow> string) \<Rightarrow> nat \<Rightarrow> string list \<Rightarrow> stock_store \<Rightarrow> (core_error + nat) \<times> stock_store" where
  "archive_items cutoff now fresh n [] st = (Inr n, st)"
| "archive_items cutoff now fresh n (p # ps) st =
     (case archive_item cutoff now (fresh n) p st of
        Inl e \<Rightarrow> (Inl e, st)
      | Inr st' \<Rightarrow> archive_items cutoff now fresh (Suc n) ps st')"

definition archive_stock_movements ::
    "string \<Rightarrow> string \<Rightarrow> (nat \<Rightarrow> string) \<Rightarrow> nat \<Rightarrow> stock_store \<Rightarrow> (core_error + nat) \<times> stock_store" where
  "archive_stock_movements cutoff now fresh max_groups st =
     archive_items cutoff now fresh 0
       (take max_groups (remdups (map mv_item
          (filter (\<lambda>m. archivable cutoff (mv_item m) m) (movements st))))) st"

subsection \<open>What an adjustment does\<close>

text \<open>The quantity of a product: its location rows, or the older total while it has none.\<close>

definition stock_total :: "stock_store \<Rightarrow> string \<Rightarrow> int" where
  "stock_total st p = (if product_has_location_rows st p then summary_total st p else get_stock st p)"

lemma check_stock_threshold_same [simp]:
  "movements (check_stock_threshold i now p l q st) = movements st"
  "summary (check_stock_threshold i now p l q st) = summary st"
  "inventory (check_stock_threshold i now p l q st) = inventory st"
  "bindings (check_stock_threshold i now p l q st) = bindings st"
  "products (check_stock_threshold i now p l q st) = products st"
  by (auto simp: check_stock_threshold_def split: option.split)

lemma rows_cong: "summary st = summary st' \<Longrightarrow> product_has_location_rows st p = product_has_location_rows st' p"
  by (simp add: product_has_location_rows_def)

lemma stock_total_cong:
  "summary st = summary st' \<Longrightarrow> inventory st = inventory st' \<Longrightarrow> stock_total st p = stock_total st' p"
  by (simp add: stock_total_def product_has_location_rows_def summary_total_def get_stock_def)

lemma tab_rows: "list_ex (\<lambda>r. fst (fst r) = p) (tab_update (p', l) v t) \<longleftrightarrow>
    p = p' \<or> list_ex (\<lambda>r. fst (fst r) = p) t"
  by (induction "(p', l)" v t rule: tab_update.induct) auto

lemma tab_total:
  "distinct (map fst t) \<Longrightarrow>
     sum_list (map (\<lambda>r. fst (snd r)) (filter (\<lambda>r. fst (fst r) = p) (tab_update (p', l) (q, u) t)))
     = sum_list (map (\<lambda>r. fst (snd r)) (filter (\<lambda>r. fst (fst r) = p) t))
       + (if p = p' then q - (case map_of t (p', l) of None \<Rightarrow> 0 | Some v \<Rightarrow> fst v) else (0::int))"
proof (induction t)
  case (Cons x t)
  obtain k v where x: "x = (k, v)" by (rule prod.exhaust)
  show ?case using Cons x by (auto simp: map_of_eq_None_iff [THEN iffD2])
qed simp

lemma location_qty_alt: "location_qty st p l = (case map_of (summary st) (p, l) of None \<Rightarrow> 0 | Some v \<Rightarrow> fst v)"
  by (simp add: location_qty_def split: option.split)

lemma no_rows:
  assumes "\<not> product_has_location_rows st p"
  shows "map_of (summary st) (p, l) = None" "summary_total st p = 0" "location_qty st p l = 0"
proof -
  have "filter (\<lambda>r. fst (fst r) = p) (summary st) = []"
    using assms by (auto simp: product_has_location_rows_def list_ex_iff filter_empty_conv)
  then show "map_of (summary st) (p, l) = None" "summary_total st p = 0"
    by (auto simp: map_of_eq_None_iff filter_empty_conv summary_total_def)
  then show "location_qty st p l = 0" by (simp add: location_qty_def)
qed

text \<open>The effect of a successful adjustment on the tables that quantities are read from.\<close>

definition adjusted ::
    "stock_store \<Rightarrow> string \<Rightarrow> string \<Rightarrow> int \<Rightarrow> int \<Rightarrow> stock_store \<Rightarrow> bool" where
  "adjusted st p l delta q st' \<longleftrightarrow>
     (\<exists>m u. movements st' = movements st @ [m] \<and> mv_item m = p \<and> mv_location m = l \<and> mv_delta m = delta
        \<and> summary st' = tab_update (p, l) (q, u) (summary st))
     \<and> (\<forall>p'. p' \<noteq> p \<longrightarrow> map_of (inventory st') p' = map_of (inventory st) p')
     \<and> bindings st' = bindings st"

lemma adjust_Inr:
  assumes "adjust_stock_at_location_with_reason x sku delta l why txn terminal user st = Inr (q, st')"
  shows "\<exists>p. stock_product_id_by_sku st sku = Some p \<and> q = legacy_aware_location_qty st p l + delta \<and> in_i64 q
    \<and> (\<not> allows_negative st terminal l \<longrightarrow> 0 \<le> q) \<and> adjusted st p l delta q st'
    \<and> (\<not> allows_negative st terminal l \<longrightarrow> map_of (inventory st') p \<noteq> None \<and> 0 \<le> get_stock st' p
         \<and> get_stock st' p = (if map_of (inventory st) p = None then q else summary_total st' p))"
proof -
  obtain p where p: "stock_product_id_by_sku st sku = Some p"
    using assms by (auto simp: adjust_stock_at_location_with_reason_def split: option.splits)
  let ?c = "legacy_aware_location_qty st p l" and ?neg = "allows_negative st terminal l"
  let ?m = "\<lparr>mv_id = aa_movement_id x, mv_item = p, mv_location = l, mv_delta = delta, mv_reason = why,
      mv_txn = txn, mv_terminal = terminal, mv_user = user, mv_store = [], mv_created_at = aa_now x\<rparr>"
  have new: "in_i64 (?c + delta)" "\<not> ?neg \<Longrightarrow> 0 \<le> ?c + delta"
    using assms p by (auto simp: adjust_stock_at_location_with_reason_def checked_add_def fit_i64_def Let_def split: if_splits)
  obtain st1 where s1: "insert_movement ?m st = Inr st1"
    using assms p new by (auto simp: adjust_stock_at_location_with_reason_def checked_add_def fit_i64_def Let_def split: sum.splits if_splits)
  obtain st2 where s2: "upsert_stock_summary_in_tx p l (?c + delta) (aa_now x) st1 = Inr st2"
    using assms p new s1 by (auto simp: adjust_stock_at_location_with_reason_def checked_add_def fit_i64_def Let_def split: sum.splits if_splits)
  have st1: "st1 = st\<lparr>movements := movements st @ [?m]\<rparr>" using s1 by (auto simp: insert_movement_def split: if_splits)
  have st2: "st2 = st1\<lparr>summary := tab_update (p, l) (?c + delta, aa_now x) (summary st1)\<rparr>"
    using s2 by (auto simp: upsert_stock_summary_in_tx_def split: if_splits)
  let ?check = "check_stock_threshold (aa_alert_id x) (aa_now x) p l (?c + delta)"
  have end_state: "q = ?c + delta \<and> (?neg \<and> st' = ?check st2
      \<or> (\<exists>st3. upsert_inventory_sum p l (?c + delta) (aa_now x) st2 = Inr st3 \<and> st' = ?check st3))"
    using assms p new s1 s2
    by (auto simp: adjust_stock_at_location_with_reason_def checked_add_def fit_i64_def Let_def split: sum.splits if_splits)
  have has: "product_has_location_rows st2 p" by (simp add: product_has_location_rows_def st2 tab_rows)
  have inv2: "inventory st2 = inventory st" by (simp add: st2 st1)
  show ?thesis
  proof (cases "\<exists>st3. upsert_inventory_sum p l (?c + delta) (aa_now x) st2 = Inr st3 \<and> st' = ?check st3")
    case True
    then obtain st3 where s3: "upsert_inventory_sum p l (?c + delta) (aa_now x) st2 = Inr st3" "st' = ?check st3" by blast
    then have "\<exists>r. st3 = st2\<lparr>inventory := tab_update p r (inventory st2)\<rparr> \<and> 0 \<le> iv_qty r
        \<and> iv_qty r = (if map_of (inventory st) p = None then ?c + delta else summary_total st2 p)"
      using has inv2 by (auto simp: upsert_inventory_sum_def Let_def split: if_splits option.splits)
    then obtain r where r: "st3 = st2\<lparr>inventory := tab_update p r (inventory st2)\<rparr>" "0 \<le> iv_qty r"
        "iv_qty r = (if map_of (inventory st) p = None then ?c + delta else summary_total st2 p)" by blast
    have "get_stock st' p = iv_qty r" "map_of (inventory st') p \<noteq> None" by (simp_all add: s3(2) r(1) get_stock_def)
    moreover have "summary_total st' p = summary_total st2 p" by (simp add: summary_total_def s3(2) r(1))
    ultimately show ?thesis
      using p new end_state r(2,3) s3(2) by (auto simp: adjusted_def r(1) st2 st1)
  next
    case False
    then have "?neg" "st' = ?check st2" using end_state by blast+
    then show ?thesis using p new end_state by (auto simp: adjusted_def st2 st1)
  qed
qed

lemma adjusted_facts:
  assumes "adjusted st p l delta q st'" and q: "q = legacy_aware_location_qty st p l + delta"
    and d: "distinct (map fst (summary st))"
  shows "distinct (map fst (summary st'))"
    and "location_qty st' p' l' = (if (p', l') = (p, l) then q else location_qty st p' l')"
    and "ledger_total st' p' = ledger_total st p' + (if p' = p then delta else 0)"
    and "stock_total st' p' = stock_total st p' + (if p' = p then delta else 0)"
proof -
  obtain m u where m: "movements st' = movements st @ [m]" "mv_item m = p" "mv_delta m = delta"
      and s: "summary st' = tab_update (p, l) (q, u) (summary st)"
      and i: "\<And>p'. p' \<noteq> p \<Longrightarrow> map_of (inventory st') p' = map_of (inventory st) p'"
    using assms(1) by (auto simp: adjusted_def)
  show "distinct (map fst (summary st'))" using d by (simp add: s)
  show "location_qty st' p' l' = (if (p', l') = (p, l) then q else location_qty st p' l')"
    by (simp add: location_qty_def s)
  show "ledger_total st' p' = ledger_total st p' + (if p' = p then delta else 0)"
    using m by (simp add: ledger_total_def)
  have has: "product_has_location_rows st' p' \<longleftrightarrow> p' = p \<or> product_has_location_rows st p'"
    by (simp add: product_has_location_rows_def s tab_rows)
  have sum: "summary_total st' p' = summary_total st p' + (if p' = p then q - location_qty st p l else 0)"
    using tab_total [OF d, of p' p l q u] by (auto simp: summary_total_def s location_qty_alt)
  show "stock_total st' p' = stock_total st p' + (if p' = p then delta else 0)"
  proof (cases "p' = p")
    case True
    show ?thesis
    proof (cases "product_has_location_rows st p")
      case True
      then show ?thesis using \<open>p' = p\<close> has sum q by (simp add: stock_total_def legacy_aware_location_qty_def)
    next
      case False
      then have "legacy_aware_location_qty st p l = get_stock st p"
        by (simp add: legacy_aware_location_qty_def get_stock_def no_rows split: option.split)
      then show ?thesis using \<open>p' = p\<close> False has sum q by (simp add: stock_total_def no_rows)
    qed
  next
    case False
    then show ?thesis using has sum i [OF False] by (simp add: stock_total_def get_stock_def)
  qed
qed

end
