(* ===== verification/Stock_History.thy ===== *)
theory Stock_History
  imports Stock
begin

section \<open>Stock over histories of movements\<close>

text \<open>
  What the operations of \<open>Stock\<close> keep: a step relation of the ledger's writers, the conservation of
  quantity between the ledger and the tables, and the agreement of the tables while nothing may be
  oversold.
\<close>

subsection \<open>Steps\<close>

inductive stock_step :: "stock_store \<Rightarrow> stock_store \<Rightarrow> bool" where
  adjust: "adjust_stock_at_location_with_reason x sku delta l why txn terminal user st = Inr (q, st')
     \<Longrightarrow> stock_step st st'"
| batch: "adjust_stock_batch ids ds why txn terminal user st = Inr st' \<Longrightarrow> stock_step st st'"
| bridge: "bridge_legacy_inventory_into_stock_summary now p st = Inr st' \<Longrightarrow> stock_step st st'"

inductive_cases stock_stepE: "stock_step st st'"

lemma execute_batch_keeps:
  assumes "\<And>x sku delta l why txn terminal user st q st'.
      adjust_stock_at_location_with_reason x sku delta l why txn terminal user st = Inr (q, st') \<Longrightarrow> P st \<Longrightarrow> P st'"
  shows "execute_batch ids n ds why txn terminal user st = Inr st' \<Longrightarrow> P st \<Longrightarrow> P st'"
  by (induction ids n ds why txn terminal user st rule: execute_batch.induct)
     (auto split: sum.splits prod.splits dest: assms)

text \<open>An assertion kept by single adjustments and by the bridge is kept by every step.\<close>

lemma stock_steps_keep:
  assumes "stock_step\<^sup>*\<^sup>* st st'" and "P st"
    and adj: "\<And>x sku delta l why txn terminal user st q st'.
      adjust_stock_at_location_with_reason x sku delta l why txn terminal user st = Inr (q, st') \<Longrightarrow> P st \<Longrightarrow> P st'"
    and bri: "\<And>now p st st'. bridge_legacy_inventory_into_stock_summary now p st = Inr st' \<Longrightarrow> P st \<Longrightarrow> P st'"
  shows "P st'"
  using assms(1,2)
proof (induction rule: rtranclp_induct)
  case (step st1 st2)
  have one: "P st1" by (rule step.IH [OF step.prems])
  have "adjust_stock_batch ids ds why txn terminal user st1 = Inr st2 \<Longrightarrow> P st2" for ids ds why txn terminal user
    using one execute_batch_keeps [of P, OF adj] by (auto simp: adjust_stock_batch_def split: if_splits sum.splits)
  then show ?case using step.hyps(2) one by (blast elim: stock_stepE intro: adj bri)
qed

lemma bridge_Inr:
  assumes "bridge_legacy_inventory_into_stock_summary now p st = Inr st'"
  shows "st' = st \<or> (\<not> product_has_location_rows st p \<and> get_stock st p \<noteq> 0
    \<and> map_of (inventory st) p \<noteq> None
    \<and> st' = st\<lparr>summary := tab_update (p, canonical_default_location) (get_stock st p, now) (summary st)\<rparr>)"
  using assms by (auto simp: bridge_legacy_inventory_into_stock_summary_def get_stock_def
      upsert_stock_summary_in_tx_def split: if_splits option.splits)

lemma tab_update_total:
  assumes "distinct (map fst (summary st))"
  shows "summary_total (st\<lparr>summary := tab_update (p, l) (q, u) (summary st)\<rparr>) p'
    = summary_total st p' + (if p' = p then q - location_qty st p l else 0)"
  using tab_total [OF assms, of p' p l q u] by (auto simp: summary_total_def location_qty_alt)

lemma tab_update_rows:
  "product_has_location_rows (st\<lparr>summary := tab_update (p, l) v (summary st)\<rparr>) p'
     \<longleftrightarrow> p' = p \<or> product_has_location_rows st p'"
  by (simp add: product_has_location_rows_def tab_rows)

lemma bridge_total:
  assumes "bridge_legacy_inventory_into_stock_summary now p st = Inr st'"
    and "distinct (map fst (summary st))"
  shows "distinct (map fst (summary st')) \<and> stock_total st' p' = stock_total st p' \<and> movements st' = movements st"
  using bridge_Inr [OF assms(1)] assms(2)
  by (auto simp: stock_total_def tab_update_total tab_update_rows no_rows get_stock_def)

subsection \<open>Conservation\<close>

lemma conserved_steps:
  assumes "stock_step\<^sup>*\<^sup>* st st'" and "distinct (map fst (summary st))"
  shows "distinct (map fst (summary st')) \<and> stock_total st' p - ledger_total st' p = stock_total st p - ledger_total st p"
proof (rule stock_steps_keep [OF assms(1)])
  fix x sku delta l why txn terminal user s q s'
  assume a: "adjust_stock_at_location_with_reason x sku delta l why txn terminal user s = Inr (q, s')"
    and i: "distinct (map fst (summary s)) \<and> stock_total s p - ledger_total s p = stock_total st p - ledger_total st p"
  then show "distinct (map fst (summary s')) \<and> stock_total s' p - ledger_total s' p = stock_total st p - ledger_total st p"
    using adjust_Inr [OF a] adjusted_facts(1,3,4) [of s _ l delta q s'] by fastforce
next
  fix now p' s s'
  assume "bridge_legacy_inventory_into_stock_summary now p' s = Inr s'"
    and "distinct (map fst (summary s)) \<and> stock_total s p - ledger_total s p = stock_total st p - ledger_total st p"
  then show "distinct (map fst (summary s')) \<and> stock_total s' p - ledger_total s' p = stock_total st p - ledger_total st p"
    using bridge_total [of now p' s s' p] by (simp add: ledger_total_def)
qed (use assms(2) in simp)

text \<open>
  C19. Quantity is conserved by the adjustments of a location, alone or in a batch, and by the bridging of
  older stock, permitted to oversell or not: whatever sequence of them is committed, the stock of a product
  over its locations and the sum of its ledger rows move together, so their difference (the stock that
  predates the ledger) never changes. The other writers are not among them: the adjustment of a product
  without a location and a replicated completed sale write the total onto the default location, and a
  rebuild makes the tables follow the ledger.\<close>

theorem stock_conserved:
  assumes "stock_step\<^sup>*\<^sup>* st st'" and "distinct (map fst (summary st))"
  shows "stock_total st' p - ledger_total st' p = stock_total st p - ledger_total st p"
  using conserved_steps [OF assms] by blast

subsection \<open>Agreement of the tables while nothing may be oversold\<close>

definition no_opt_in :: "stock_store \<Rightarrow> bool" where
  "no_opt_in st \<longleftrightarrow> list_all (\<lambda>b. snd b \<noteq> Some 1) (bindings st)"

lemma no_opt_in_allows: "no_opt_in st \<Longrightarrow> \<not> allows_negative st terminal l"
  by (auto simp: no_opt_in_def allows_negative_def list_all_iff dest!: map_of_SomeD split: option.splits)

text \<open>
  The tables agree: one row per product and location, none of them negative, and \<open>inventory\<close> is there
  for every product with rows and holds their sum.
\<close>

definition agrees :: "stock_store \<Rightarrow> string \<Rightarrow> bool" where
  "agrees st p \<longleftrightarrow> 0 \<le> get_stock st p
     \<and> (product_has_location_rows st p \<longrightarrow> map_of (inventory st) p \<noteq> None \<and> get_stock st p = summary_total st p)"

definition stock_sound :: "stock_store \<Rightarrow> bool" where
  "stock_sound st \<longleftrightarrow> no_opt_in st \<and> distinct (map fst (summary st))
     \<and> (\<forall>p l. 0 \<le> location_qty st p l) \<and> (\<forall>p. agrees st p)"

lemma adjust_agrees:
  assumes a: "adjust_stock_at_location_with_reason x sku delta l why txn terminal user st = Inr (q, st')"
    and s: "stock_sound st"
  shows "agrees st' p'"
proof -
  have neg: "\<not> allows_negative st terminal l" using s no_opt_in_allows by (simp add: stock_sound_def)
  obtain p where q: "q = legacy_aware_location_qty st p l + delta" "0 \<le> q"
      and adj: "adjusted st p l delta q st'"
      and here: "map_of (inventory st') p \<noteq> None" "0 \<le> get_stock st' p"
        "get_stock st' p = (if map_of (inventory st) p = None then q else summary_total st' p)"
    using adjust_Inr [OF a] neg by blast
  obtain u where sum: "summary st' = tab_update (p, l) (q, u) (summary st)"
      and inv: "\<And>p'. p' \<noteq> p \<Longrightarrow> map_of (inventory st') p' = map_of (inventory st) p'"
    using adj by (auto simp: adjusted_def)
  have d: "distinct (map fst (summary st))" using s by (simp add: stock_sound_def)
  have ag: "\<And>p. agrees st p" using s by (simp add: stock_sound_def)
  have tot: "summary_total st' p' = summary_total st p' + (if p' = p then q - location_qty st p l else 0)" for p'
    using tab_total [OF d, of p' p l q u] by (auto simp: summary_total_def sum location_qty_alt)
  show ?thesis
  proof (cases "p' = p")
    case True
    have "map_of (inventory st) p = None \<Longrightarrow> summary_total st' p = q"
      using ag [of p] tot [of p] no_rows [of st p] by (auto simp: agrees_def)
    then show ?thesis using here True by (simp add: agrees_def)
  next
    case False
    have "product_has_location_rows st' p' = product_has_location_rows st p'"
      using False by (simp add: product_has_location_rows_def sum tab_rows)
    then show ?thesis using ag [of p'] inv [OF False] tot [of p'] False by (simp add: agrees_def get_stock_def)
  qed
qed

lemma adjust_sound:
  assumes a: "adjust_stock_at_location_with_reason x sku delta l why txn terminal user st = Inr (q, st')"
    and s: "stock_sound st"
  shows "stock_sound st'"
proof -
  have neg: "\<not> allows_negative st terminal l" using s no_opt_in_allows by (simp add: stock_sound_def)
  obtain p where q: "q = legacy_aware_location_qty st p l + delta" "0 \<le> q" and adj: "adjusted st p l delta q st'"
    using adjust_Inr [OF a] neg by blast
  have d: "distinct (map fst (summary st))" using s by (simp add: stock_sound_def)
  have "no_opt_in st'" using s adj by (simp add: stock_sound_def no_opt_in_def adjusted_def)
  moreover have "0 \<le> location_qty st' p' l'" for p' l'
    using adjusted_facts(2) [OF adj q(1) d, of p' l'] q(2) s by (simp add: stock_sound_def)
  ultimately show ?thesis
    using adjusted_facts(1) [OF adj q(1) d] adjust_agrees [OF a s] by (simp add: stock_sound_def)
qed

lemma bridge_sound:
  assumes "bridge_legacy_inventory_into_stock_summary now p st = Inr st'" and s: "stock_sound st"
  shows "stock_sound st'"
proof (cases "st' = st")
  case False
  then have b: "\<not> product_has_location_rows st p" "map_of (inventory st) p \<noteq> None"
      "st' = st\<lparr>summary := tab_update (p, canonical_default_location) (get_stock st p, now) (summary st)\<rparr>"
    using bridge_Inr [OF assms(1)] by auto
  have d: "distinct (map fst (summary st))" using s by (simp add: stock_sound_def)
  have "location_qty st' p' l' = (if (p', l') = (p, canonical_default_location) then get_stock st p else location_qty st p' l')" for p' l'
    by (simp add: b(3) location_qty_def)
  moreover have "get_stock st' p' = get_stock st p'" for p' by (simp add: b(3) get_stock_def)
  moreover have "agrees st' p'" for p'
    using s b(1,2) d by (simp add: stock_sound_def agrees_def b(3) tab_update_total tab_update_rows no_rows get_stock_def)
  ultimately show ?thesis using s d by (simp add: stock_sound_def b(3) no_opt_in_def agrees_def)
qed (use s in simp)

text \<open>
  C17. No oversell without permission: from a state whose tables agree, where no workspace binding
  allows negative stock, every history of adjustments, batches and bridgings leads to a state in
  which they agree again: no location of any product is below zero, and the \<open>inventory\<close> total of a
  product with location rows is the sum of them.\<close>

theorem stock_stays_sound:
  assumes "stock_step\<^sup>*\<^sup>* st st'" and "stock_sound st"
  shows "stock_sound st'"
  by (rule stock_steps_keep [of _ _ stock_sound, OF assms]) (blast intro: adjust_sound bridge_sound)+

subsection \<open>When an adjustment succeeds\<close>

lemma rows_total_nonneg:
  assumes d: "distinct (map fst (summary st))" and n: "\<And>p l. 0 \<le> location_qty st p l"
  shows "0 \<le> summary_total st p"
proof -
  have "0 \<le> fst (snd r)" if "r \<in> set (summary st)" for r
    using n [of "fst (fst r)" "snd (fst r)"] that d
    by (cases r) (auto simp: location_qty_def dest!: map_of_is_SomeI [rotated])
  then show ?thesis by (auto simp: summary_total_def intro!: sum_list_nonneg)
qed

text \<open>
  With no permission to oversell and tables that agree, an adjustment succeeds exactly when the
  SKU names a product, the new quantity of the location fits 64 bits and is not negative, the
  location and the transaction exist and the movement's id is new; nothing else makes it fail.\<close>

theorem stock_adjust_succeeds_iff:
  assumes "stock_sound st"
  shows "(\<exists>q st'. adjust_stock_at_location_with_reason x sku delta l why txn terminal user st = Inr (q, st'))
    \<longleftrightarrow> (\<exists>p. stock_product_id_by_sku st sku = Some p
        \<and> in_i64 (legacy_aware_location_qty st p l + delta) \<and> 0 \<le> legacy_aware_location_qty st p l + delta
        \<and> aa_movement_id x \<notin> mv_id ` set (movements st) \<and> l \<in> set (stock_locations st)
        \<and> (case txn of None \<Rightarrow> True | Some t \<Rightarrow> t \<in> set (inventory_txns st)))"
    (is "?ok = (\<exists>p. ?cond p)")
proof
  have neg: "\<not> allows_negative st terminal l" using assms no_opt_in_allows by (simp add: stock_sound_def)
  assume ?ok
  then show "\<exists>p. ?cond p"
    using neg by (auto simp: adjust_stock_at_location_with_reason_def insert_movement_def checked_add_def
        fit_i64_def Let_def split: option.splits if_splits)
next
  have neg: "\<not> allows_negative st terminal l" using assms no_opt_in_allows by (simp add: stock_sound_def)
  have s: "distinct (map fst (summary st))" "\<And>p l. 0 \<le> location_qty st p l"
    using assms by (simp_all add: stock_sound_def)
  assume "\<exists>p. ?cond p"
  then obtain p where p: "?cond p" by blast
  let ?q = "legacy_aware_location_qty st p l + delta"
  let ?m = "\<lparr>mv_id = aa_movement_id x, mv_item = p, mv_location = l, mv_delta = delta, mv_reason = why,
      mv_txn = txn, mv_terminal = terminal, mv_user = user, mv_store = [], mv_created_at = aa_now x\<rparr>"
  define st1 where "st1 = st\<lparr>movements := movements st @ [?m]\<rparr>"
  define st2 where "st2 = st1\<lparr>summary := tab_update (p, l) (?q, aa_now x) (summary st1)\<rparr>"
  have known: "p \<in> fst ` set (products st)"
    using p by (auto simp: stock_product_id_by_sku_def find_Some_iff) (metis image_eqI nth_mem fst_conv)
  have 1: "insert_movement ?m st = Inr st1"
    using p by (auto simp: insert_movement_def st1_def split: option.splits)
  have 2: "upsert_stock_summary_in_tx p l ?q (aa_now x) st1 = Inr st2"
    using p known by (simp add: upsert_stock_summary_in_tx_def negative_refused_def st1_def st2_def)
  have "0 \<le> location_qty st2 p' l'" for p' l'
    using p s(2) [of p' l'] by (simp add: st2_def st1_def location_qty_def)
  moreover have "distinct (map fst (summary st2))" using s(1) by (simp add: st2_def st1_def)
  ultimately have "0 \<le> summary_total st2 p" by (simp add: rows_total_nonneg)
  then have "\<exists>st3. upsert_inventory_sum p l ?q (aa_now x) st2 = Inr st3"
    using p by (auto simp: upsert_inventory_sum_def Let_def split: option.split)
  then obtain st3 where 3: "upsert_inventory_sum p l ?q (aa_now x) st2 = Inr st3" by blast
  show ?ok using p neg 1 2 3
    by (simp add: adjust_stock_at_location_with_reason_def checked_add_def fit_i64_def Let_def)
qed

subsection \<open>What a successful adjustment changes\<close>

text \<open>
  A successful adjustment returns the location's quantity (the older total while the product has
  no location rows) plus the delta, records it there and nowhere else, appends one ledger row, and
  moves the product's stock and ledger by exactly the delta; no other product changes.\<close>

theorem stock_adjust_exact:
  assumes "adjust_stock_at_location_with_reason x sku delta l why txn terminal user st = Inr (q, st')"
    and "distinct (map fst (summary st))" and "stock_product_id_by_sku st sku = Some p"
  shows "q = legacy_aware_location_qty st p l + delta
    \<and> (\<forall>p' l'. location_qty st' p' l' = (if (p', l') = (p, l) then q else location_qty st p' l'))
    \<and> length (movements st') = Suc (length (movements st))
    \<and> (\<forall>p'. ledger_total st' p' = ledger_total st p' + (if p' = p then delta else 0))
    \<and> (\<forall>p'. stock_total st' p' = stock_total st p' + (if p' = p then delta else 0))"
proof -
  have q: "q = legacy_aware_location_qty st p l + delta" and a: "adjusted st p l delta q st'"
    using adjust_Inr [OF assms(1)] assms(3) by auto
  have "length (movements st') = Suc (length (movements st))" using a by (auto simp: adjusted_def)
  then show ?thesis using adjusted_facts(2-4) [OF a q assms(2)] q by blast
qed

subsection \<open>Runs of movements of one product\<close>

definition shifted :: "string \<Rightarrow> int \<Rightarrow> stock_store \<Rightarrow> stock_store \<Rightarrow> bool" where
  "shifted p d st st' \<longleftrightarrow> stock_step\<^sup>*\<^sup>* st st' \<and> distinct (map fst (summary st')) \<and> stock_product_id_by_sku st' = stock_product_id_by_sku st
     \<and> (\<forall>p'. stock_total st' p' = stock_total st p' + (if p' = p then d else 0)
          \<and> ledger_total st' p' = ledger_total st p' + (if p' = p then d else 0))"

lemma shifted_refl: "distinct (map fst (summary st)) \<Longrightarrow> shifted p 0 st st"
  by (simp add: shifted_def)

lemma shifted_trans: "shifted p d a b \<Longrightarrow> shifted p e b c \<Longrightarrow> shifted p (d + e) a c"
  by (auto simp: shifted_def)

lemma shifted_rows: "shifted p d st st' \<Longrightarrow> distinct (map fst (summary st'))"
  by (simp add: shifted_def)

lemma shifted_products: "shifted p d st st' \<Longrightarrow> stock_product_id_by_sku st' = stock_product_id_by_sku st"
  by (simp add: shifted_def)

lemma adjust_products:
  "adjust_stock_at_location_with_reason x sku delta l why txn terminal user st = Inr (q, st') \<Longrightarrow> products st' = products st"
  by (auto simp: adjust_stock_at_location_with_reason_def Let_def insert_movement_def upsert_stock_summary_in_tx_def
      upsert_inventory_sum_def split: option.splits if_splits sum.splits)

lemma adjust_shifted:
  assumes "adjust_stock_at_location_with_reason x sku delta l why txn terminal user st = Inr (q, st')"
    and "distinct (map fst (summary st))" and "stock_product_id_by_sku st sku = Some p"
  shows "shifted p delta st st'"
proof -
  have "adjusted st p l delta q st'" "q = legacy_aware_location_qty st p l + delta" using adjust_Inr [OF assms(1)] assms(3) by auto
  from adjusted_facts(1,3,4) [OF this assms(2)] show ?thesis
    using stock_step.adjust [OF assms(1)] adjust_products [OF assms(1)]
    by (auto simp: shifted_def stock_product_id_by_sku_def fun_eq_iff)
qed

lemma bridge_shifted:
  assumes "bridge_legacy_inventory_into_stock_summary now p st = Inr st'" and "distinct (map fst (summary st))"
  shows "shifted p 0 st st'"
  using bridge_total [OF assms] stock_step.bridge [OF assms(1)] bridge_Inr [OF assms(1)]
  by (auto simp: shifted_def ledger_total_def stock_product_id_by_sku_def fun_eq_iff)

subsection \<open>A delivery to an oversold location\<close>

text \<open>
  Without permission to oversell, an adjustment that leaves the location below zero is refused,
  also when it adds stock: a delivery smaller than the deficit does not get in.\<close>

theorem small_delivery_refused:
  assumes "stock_product_id_by_sku st sku = Some p" and "\<not> allows_negative st terminal l"
    and "legacy_aware_location_qty st p l + delta < 0"
  shows "adjust_stock_at_location_with_reason x sku delta l why txn terminal user st
    = Inl (InsufficientStockAtLocation sku l delta (legacy_aware_location_qty st p l))"
  using assms by (simp add: adjust_stock_at_location_with_reason_def Let_def checked_add_def fit_i64_def)

subsection \<open>Concrete shops\<close>

definition delivery :: stock_movement where
  "delivery = \<lparr>mv_id = ''d'', mv_item = ''p'', mv_location = ''A'', mv_delta = 3, mv_reason = Some ''delivery'',
     mv_txn = None, mv_terminal = None, mv_user = None, mv_store = [], mv_created_at = ''2024''\<rparr>"

definition corner_shop :: stock_store where
  "corner_shop = \<lparr>products = [(''p'', ''S'')], stock_locations = [''A'', canonical_default_location],
     inventory_txns = [], terminal_ws = [(''t'', Some ''w'')], bindings = [((''w'', ''A''), Some 1)],
     thresholds = [], alerts = [], movements = [delivery], archived = [],
     summary = [((''p'', ''A''), 3, ''2024'')],
     inventory = [(''p'', \<lparr>iv_qty = 3, iv_location = canonical_default_location, iv_updated_at = ''2024''\<rparr>)]\<rparr>"

text \<open>The terminal may oversell: five of three are sold, and \<open>inventory\<close> keeps the old total.\<close>

definition oversold_shop :: stock_store where
  "oversold_shop = corner_shop\<lparr>summary := [((''p'', ''A''), -2, ''2025'')],
     movements := [delivery, delivery\<lparr>mv_id := ''m'', mv_delta := -5, mv_reason := Some ''sale'',
        mv_terminal := Some ''t'', mv_created_at := ''2025''\<rparr>]\<rparr>"

lemma oversold_shop_run:
  "adjust_stock_at_location_with_reason \<lparr>aa_movement_id = ''m'', aa_alert_id = ''a'', aa_now = ''2025''\<rparr>
     ''S'' (-5) ''A'' (Some ''sale'') None (Some ''t'') None corner_shop = Inr (-2, oversold_shop)"
  by code_simp

definition plain_shop :: stock_store where
  "plain_shop = corner_shop\<lparr>bindings := []\<rparr>"

definition sold_shop :: stock_store where
  "sold_shop = plain_shop\<lparr>summary := [((''p'', ''A''), 1, ''2025'')],
     inventory := [(''p'', \<lparr>iv_qty = 1, iv_location = canonical_default_location, iv_updated_at = ''2025''\<rparr>)],
     movements := [delivery, delivery\<lparr>mv_id := ''m'', mv_delta := -2, mv_reason := Some ''sale'', mv_created_at := ''2025''\<rparr>]\<rparr>"

lemma sold_shop_run:
  "adjust_stock_at_location_with_reason \<lparr>aa_movement_id = ''m'', aa_alert_id = ''a'', aa_now = ''2025''\<rparr>
     ''S'' (-2) ''A'' (Some ''sale'') None None None plain_shop = Inr (1, sold_shop)"
  by code_simp

lemma plain_shop_sound: "stock_sound plain_shop"
  by (auto simp: stock_sound_def no_opt_in_def plain_shop_def corner_shop_def agrees_def location_qty_def
      get_stock_def summary_total_def product_has_location_rows_def)

lemma corner_shop_rows: "distinct (map fst (summary corner_shop))"
  by (simp add: corner_shop_def)

theorem stock_conserved_witness:
  "stock_total oversold_shop ''p'' - ledger_total oversold_shop ''p'' = stock_total corner_shop ''p'' - ledger_total corner_shop ''p''"
  by (rule stock_conserved [OF r_into_rtranclp [where r = stock_step, OF stock_step.adjust [OF oversold_shop_run]] corner_shop_rows])

theorem stock_stays_sound_witness: "stock_sound sold_shop"
  by (rule stock_stays_sound [OF r_into_rtranclp [where r = stock_step, OF stock_step.adjust [OF sold_shop_run]] plain_shop_sound])

theorem stock_adjust_succeeds_iff_witness:
  "\<not> (\<exists>q st'. adjust_stock_at_location_with_reason \<lparr>aa_movement_id = ''m'', aa_alert_id = ''a'', aa_now = ''2025''\<rparr>
     ''S'' (-4) ''A'' (Some ''sale'') None None None plain_shop = Inr (q, st'))"
  using stock_adjust_succeeds_iff [OF plain_shop_sound, of "\<lparr>aa_movement_id = ''m'', aa_alert_id = ''a'', aa_now = ''2025''\<rparr>"
      "''S''" "-4" "''A''" "Some ''sale''" None None None]
  by (auto simp: plain_shop_def corner_shop_def stock_product_id_by_sku_def legacy_aware_location_qty_def
      location_qty_def product_has_location_rows_def)

theorem stock_adjust_exact_witness: "stock_total sold_shop ''p'' = stock_total plain_shop ''p'' - 2 \<and> location_qty sold_shop ''p'' ''A'' = 1"
proof -
  have "distinct (map fst (summary plain_shop))" "stock_product_id_by_sku plain_shop ''S'' = Some ''p''"
    by (simp_all add: plain_shop_def corner_shop_def stock_product_id_by_sku_def)
  from stock_adjust_exact [OF sold_shop_run this] show ?thesis by simp
qed

end
