(* ===== verification/Stock_Rebuild.thy ===== *)
theory Stock_Rebuild
  imports Stock_History
begin

section \<open>Rebuilding and archiving the stock ledger\<close>

text \<open>
  What \<open>rebuild_stock_summary_for\<close> establishes for the products in its scope and leaves alone
  elsewhere, when it keeps the stock of a product, and what archiving old movements does to it.
\<close>

subsection \<open>One product in the tables\<close>

definition ledger_of :: "stock_store \<Rightarrow> string \<Rightarrow> stock_movement list" where
  "ledger_of st p = filter (\<lambda>m. mv_item m = p) (movements st)"

text \<open>Nothing that is read for the product differs.\<close>

definition same_product :: "stock_store \<Rightarrow> stock_store \<Rightarrow> string \<Rightarrow> bool" where
  "same_product st st' p \<longleftrightarrow> ledger_of st' p = ledger_of st p
     \<and> (\<forall>l. map_of (summary st') (p, l) = map_of (summary st) (p, l))
     \<and> map_of (inventory st') p = map_of (inventory st) p"

text \<open>The tables hold what the ledger says.\<close>

definition rebuilt :: "stock_store \<Rightarrow> string \<Rightarrow> bool" where
  "rebuilt st p \<longleftrightarrow> (\<forall>l. location_qty st p l = ledger_qty st p l)
     \<and> (ledger_of st p \<noteq> [] \<longrightarrow> get_stock st p = ledger_total st p)"

text \<open>Backfill rows carry the product their id names.\<close>

definition backfill_owned :: "stock_store \<Rightarrow> bool" where
  "backfill_owned st \<longleftrightarrow> (\<forall>m p. m \<in> set (movements st) \<longrightarrow> mv_id m = backfill_id p \<longrightarrow> mv_item m = p)"

lemma backfill_id_inject [simp]: "backfill_id p = backfill_id p' \<longleftrightarrow> p = p'"
  by (simp add: backfill_id_def)

lemma ledger_total_of: "ledger_total st p = sum_list (map mv_delta (ledger_of st p))"
  by (simp add: ledger_total_def ledger_of_def)

lemma ledger_qty_of: "ledger_qty st p l = sum_list (map mv_delta (filter (\<lambda>m. mv_location m = l) (ledger_of st p)))"
  by (simp add: ledger_qty_def ledger_of_def conj_commute)

lemma has_rows_map: "product_has_location_rows st p \<longleftrightarrow> (\<exists>l. map_of (summary st) (p, l) \<noteq> None)"
  by (force simp: product_has_location_rows_def list_ex_iff map_of_eq_None_iff)

lemma same_product_refl [simp]: "same_product st st p"
  by (simp add: same_product_def)

lemma same_product_trans: "same_product st st' p \<Longrightarrow> same_product st' st'' p \<Longrightarrow> same_product st st'' p"
  by (simp add: same_product_def)

lemma same_product_reads:
  assumes "same_product st st' p"
  shows "ledger_total st' p = ledger_total st p" "ledger_qty st' p l = ledger_qty st p l"
    "location_qty st' p l = location_qty st p l" "get_stock st' p = get_stock st p"
    "product_has_location_rows st' p = product_has_location_rows st p"
  using assms by (simp_all add: same_product_def ledger_total_of ledger_qty_of location_qty_def get_stock_def has_rows_map)

lemma same_product_rebuilt: "same_product st st' p \<Longrightarrow> rebuilt st p \<Longrightarrow> rebuilt st' p"
  using same_product_reads [of st st' p] by (simp add: rebuilt_def same_product_def)

subsection \<open>Sums over locations\<close>

lemma rows_sum:
  "distinct (map fst t) \<Longrightarrow> finite L \<Longrightarrow> snd ` fst ` set t \<subseteq> L \<Longrightarrow>
     sum_list (map (\<lambda>r. fst (snd r)) (filter (\<lambda>r. fst (fst r) = p) t))
     = (\<Sum>l\<in>L. case map_of t (p, l) of None \<Rightarrow> 0 | Some v \<Rightarrow> (fst v :: int))"
proof (induction t)
  case (Cons x t)
  obtain p1 l1 q u where x: "x = ((p1, l1), q, u)" by (metis prod.exhaust)
  let ?g = "\<lambda>l. case map_of t (p, l) of None \<Rightarrow> 0 | Some v \<Rightarrow> (fst v :: int)"
  show ?case
  proof (cases "p1 = p")
    case True
    then have "map_of t (p, l1) = None" using Cons.prems(1) by (simp add: x map_of_eq_None_iff)
    then have "(case map_of (x # t) (p, l) of None \<Rightarrow> 0 | Some v \<Rightarrow> fst v) = (if l = l1 then q else 0) + ?g l" for l
      using True by (simp add: x)
    then show ?thesis using Cons True by (simp add: x sum.distrib)
  qed (use Cons in \<open>simp add: x\<close>)
qed simp

lemma ledger_sum:
  "finite L \<Longrightarrow> mv_location ` set ms \<subseteq> L \<Longrightarrow>
     (\<Sum>l\<in>L. sum_list (map mv_delta (filter (\<lambda>m. mv_location m = l) ms))) = sum_list (map mv_delta ms)"
proof (induction ms)
  case (Cons m ms)
  have "sum_list (map mv_delta (filter (\<lambda>m. mv_location m = l) (m # ms)))
      = (if l = mv_location m then mv_delta m else 0) + sum_list (map mv_delta (filter (\<lambda>m. mv_location m = l) ms))" for l
    by simp
  then show ?case using Cons by (simp add: sum.distrib del: filter.simps)
qed simp

lemma same_product_total:
  assumes "same_product st st' p" and "distinct (map fst (summary st))" and "distinct (map fst (summary st'))"
  shows "summary_total st' p = summary_total st p" "stock_total st' p = stock_total st p"
proof -
  let ?L = "snd ` fst ` set (summary st) \<union> snd ` fst ` set (summary st')"
  show "summary_total st' p = summary_total st p"
    using assms(1) rows_sum [OF assms(2), of ?L p] rows_sum [OF assms(3), of ?L p]
    by (simp add: summary_total_def same_product_def)
  then show "stock_total st' p = stock_total st p"
    using same_product_reads [OF assms(1)] by (simp add: stock_total_def)
qed

text \<open>A product whose rows hold what the ledger says has the ledger's sum over all locations.\<close>

lemma rebuilt_summary_total:
  assumes "rebuilt st p" and d: "distinct (map fst (summary st))"
  shows "summary_total st p = ledger_total st p"
proof -
  let ?L = "snd ` fst ` set (summary st) \<union> mv_location ` set (ledger_of st p)"
  have "summary_total st p = (\<Sum>l\<in>?L. location_qty st p l)"
    using rows_sum [OF d, of ?L p] by (simp add: summary_total_def location_qty_alt)
  also have "\<dots> = (\<Sum>l\<in>?L. ledger_qty st p l)" using assms(1) by (simp add: rebuilt_def)
  also have "\<dots> = ledger_total st p"
    using ledger_sum [of ?L "ledger_of st p"] by (simp add: ledger_qty_of ledger_total_of)
  finally show ?thesis .
qed

subsection \<open>The statements of one chunk\<close>

lemma each_prefix:
  assumes "each f xs s = Inr s'" and "P [] s"
    and "\<And>ys x zs s s'. xs = ys @ x # zs \<Longrightarrow> P ys s \<Longrightarrow> f x s = Inr s' \<Longrightarrow> P (ys @ [x]) s'"
  shows "P xs s'"
proof -
  have "each f zs t = Inr s' \<Longrightarrow> P ys t \<Longrightarrow> xs = ys @ zs \<Longrightarrow> P xs s'" for ys zs t
  proof (induction zs arbitrary: ys t)
    case (Cons x zs)
    then obtain t' where "f x t = Inr t'" "each f zs t' = Inr s'" by (auto split: sum.splits)
    then show ?case using Cons.IH [of t' "ys @ [x]"] assms(3) [of ys x zs t t'] Cons.prems by simp
  qed simp
  then show ?thesis using assms(1,2) by fastforce
qed

lemma backfill_id_of:
  "backfill_owned st \<Longrightarrow> backfill_id p \<in> mv_id ` set (movements st) \<longleftrightarrow> backfill_id p \<in> mv_id ` set (ledger_of st p)"
  by (force simp: backfill_owned_def ledger_of_def)

lemma backfill_step:
  assumes "backfill now (p, short) st = Inr st'" and "backfill_owned st"
  shows "backfill_owned st' \<and> summary st' = summary st \<and> inventory st' = inventory st
    \<and> (\<forall>p'. p' \<noteq> p \<longrightarrow> ledger_of st' p' = ledger_of st p')
    \<and> (backfill_id p \<notin> mv_id ` set (movements st) \<longrightarrow> ledger_total st' p = ledger_total st p + short)"
proof (cases "backfill_id p \<in> mv_id ` set (movements st)")
  case True
  let ?f = "\<lambda>m. if mv_id m = backfill_id p then m\<lparr>mv_delta := short, mv_created_at := now\<rparr> else m"
  have st': "st' = st\<lparr>movements := map ?f (movements st)\<rparr>" using assms(1) True by (simp add: backfill_def)
  have own: "\<forall>m\<in>set (movements st). mv_id m = backfill_id p \<longrightarrow> mv_item m = p"
    using assms(2) by (simp add: backfill_owned_def)
  have "p' \<noteq> p \<Longrightarrow> \<forall>m\<in>set ms. mv_id m = backfill_id p \<longrightarrow> mv_item m = p
      \<Longrightarrow> filter (\<lambda>m. mv_item m = p') (map ?f ms) = filter (\<lambda>m. mv_item m = p') ms" for p' ms
    by (induction ms) auto
  then show ?thesis using True own assms(2) by (auto simp: st' backfill_owned_def ledger_of_def)
next
  case False
  then show ?thesis using assms
    by (auto simp: backfill_def insert_movement_def backfill_owned_def ledger_of_def ledger_total_def split: if_splits)
qed

text \<open>The products a rebuild heals, and what their ledger comes to.\<close>

definition healed :: "stock_store \<Rightarrow> string \<Rightarrow> bool" where
  "healed st p \<longleftrightarrow> (\<exists>r. map_of (inventory st) p = Some r \<and> ledger_total st p < iv_qty r
     \<and> (\<not> product_has_location_rows st p \<or> summary_total st p = iv_qty r))"

lemma shortfalls_map:
  assumes "distinct (map fst (inventory st))"
  shows "distinct (map fst (shortfalls st ids))"
    and "(p, s) \<in> set (shortfalls st ids) \<longleftrightarrow> p \<in> set ids \<and> healed st p \<and> s = get_stock st p - ledger_total st p"
proof -
  have "map fst (shortfalls st ids) = map fst (filter (\<lambda>(p, r). p \<in> set ids \<and> ledger_total st p < iv_qty r
          \<and> (\<not> product_has_location_rows st p \<or> summary_total st p = iv_qty r)) (inventory st))"
    by (simp add: shortfalls_def comp_def case_prod_beta)
  then show "distinct (map fst (shortfalls st ids))" by (simp add: assms distinct_map_filter)
  show "(p, s) \<in> set (shortfalls st ids) \<longleftrightarrow> p \<in> set ids \<and> healed st p \<and> s = get_stock st p - ledger_total st p"
    using map_of_eq_Some_iff [OF assms] by (force simp: shortfalls_def healed_def get_stock_def image_iff)
qed

lemma backfill_all:
  assumes e: "each (backfill now) (shortfalls st ids) st = Inr st'" and o: "backfill_owned st"
    and d: "distinct (map fst (inventory st))"
  shows "backfill_owned st' \<and> summary st' = summary st \<and> inventory st' = inventory st
    \<and> (\<forall>p. p \<notin> set ids \<or> \<not> healed st p \<longrightarrow> ledger_of st' p = ledger_of st p)
    \<and> (\<forall>p. p \<in> set ids \<and> healed st p \<and> backfill_id p \<notin> mv_id ` set (movements st) \<longrightarrow> ledger_total st' p = get_stock st p)"
proof -
  let ?P = "\<lambda>ys s. backfill_owned s \<and> summary s = summary st \<and> inventory s = inventory st
    \<and> (\<forall>p. p \<notin> fst ` set ys \<longrightarrow> ledger_of s p = ledger_of st p)
    \<and> (\<forall>p. p \<in> fst ` set ys \<and> backfill_id p \<notin> mv_id ` set (movements st) \<longrightarrow> ledger_total s p = get_stock st p)"
  have "?P (shortfalls st ids) st'"
  proof (rule each_prefix [OF e, of ?P])
    fix ys x zs s s'
    assume xs: "shortfalls st ids = ys @ x # zs" and P: "?P ys s" and f: "backfill now x s = Inr s'"
    obtain p short where x: "x = (p, short)" by (rule prod.exhaust)
    have p: "p \<notin> fst ` set ys" using shortfalls_map(1) [OF d, of ids] by (simp add: xs x)
    have short: "short = get_stock st p - ledger_total st p"
      using shortfalls_map(2) [OF d, of p short ids] by (simp add: xs x)
    have same: "ledger_of s p = ledger_of st p" using P p by blast
    have b: "backfill now (p, short) s = Inr s'" "backfill_owned s" using f P by (simp_all add: x)
    note step = backfill_step [OF b]
    have "ledger_total s' p' = get_stock st p'"
      if p': "p' \<in> insert p (fst ` set ys)" "backfill_id p' \<notin> mv_id ` set (movements st)" for p'
    proof (cases "p' = p")
      case True
      have "backfill_id p \<notin> mv_id ` set (movements s)" using p'(2) True same o b(2) by (simp add: backfill_id_of)
      then show ?thesis using step True same short by (simp add: ledger_total_of)
    next
      case False
      then have "ledger_total s' p' = ledger_total s p'" using step by (simp add: ledger_total_of)
      then show ?thesis using P p' False by simp
    qed
    then show "?P (ys @ [x]) s'" using step P by (simp add: x)
  qed (use o in simp)
  moreover have "p \<in> fst ` set (shortfalls st ids) \<longleftrightarrow> p \<in> set ids \<and> healed st p" for p
    using shortfalls_map(2) [OF d, of p _ ids] by force
  ultimately show ?thesis by blast
qed

lemma insert_groups:
  assumes e: "each (insert_summary_group now) gs st = Inr st'" and d: "distinct (map fst (summary st))"
  shows "movements st' = movements st \<and> inventory st' = inventory st \<and> distinct (map fst (summary st'))
    \<and> (\<forall>p l. map_of (summary st') (p, l) = (if (p, l) \<in> set gs then Some (ledger_qty st p l, now) else map_of (summary st) (p, l)))"
    (is "?P gs st'")
proof (rule each_prefix [OF e, of ?P])
  fix ys x zs s s'
  assume P: "?P ys s" and f: "insert_summary_group now x s = Inr s'"
  obtain p l where x: "x = (p, l)" by (rule prod.exhaust)
  have "s' = s\<lparr>summary := tab_update (p, l) (ledger_qty st p l, now) (summary s)\<rparr>"
    using f P by (auto simp: x insert_summary_group_def upsert_stock_summary_in_tx_def ledger_qty_def split: if_splits)
  then show "?P (ys @ [x]) s'" using P by (auto simp: x)
qed (use d in simp)

lemma rebuild_inventories:
  assumes e: "each (rebuild_inventory now) ps st = Inr st'"
  shows "movements st' = movements st \<and> summary st' = summary st
    \<and> (\<forall>p. p \<notin> set ps \<longrightarrow> map_of (inventory st') p = map_of (inventory st) p)
    \<and> (\<forall>p\<in>set ps. 0 \<le> ledger_total st p \<and> get_stock st' p = ledger_total st p \<and> map_of (inventory st') p \<noteq> None)
    \<and> (distinct (map fst (inventory st)) \<longrightarrow> distinct (map fst (inventory st')))"
    (is "?P ps st'")
proof (rule each_prefix [OF e, of ?P])
  fix ys p zs s s'
  assume P: "?P ys s" and f: "rebuild_inventory now p s = Inr s'"
  have t: "ledger_total s p' = ledger_total st p'" for p' using P by (simp add: ledger_total_def)
  have "s' = s\<lparr>inventory := tab_update p \<lparr>iv_qty = ledger_total st p,
             iv_location = canonical_default_location, iv_updated_at = now\<rparr> (inventory s)\<rparr> \<and> 0 \<le> ledger_total st p"
    using f by (auto simp: rebuild_inventory_def t split: if_splits)
  then show "?P (ys @ [p]) s'" using P by (auto simp: get_stock_def)
qed simp

lemma map_of_map_rows: "map_of (map (\<lambda>(p, r). if c p then (p, f r) else (p, r)) t) p
    = map_option (\<lambda>r. if c p then f r else r) (map_of t p)"
  by (induction t) auto

lemma zero_inventory_facts:
  "movements (zero_inventory now ids st) = movements st" "summary (zero_inventory now ids st) = summary st"
  "map fst (inventory (zero_inventory now ids st)) = map fst (inventory st)"
  "map_of (inventory (zero_inventory now ids st)) p = map_option (\<lambda>r.
     if p \<in> set ids \<and> ledger_of st p \<noteq> [] \<and> ledger_total st p \<le> 0 then r\<lparr>iv_qty := 0, iv_updated_at := now\<rparr> else r)
     (map_of (inventory st) p)"
proof -
  have "list_ex (\<lambda>m. mv_item m = p) (movements st) \<longleftrightarrow> ledger_of st p \<noteq> []" for p
    by (auto simp: ledger_of_def list_ex_iff filter_empty_conv)
  then show "map_of (inventory (zero_inventory now ids st)) p = map_option (\<lambda>r.
     if p \<in> set ids \<and> ledger_of st p \<noteq> [] \<and> ledger_total st p \<le> 0 then r\<lparr>iv_qty := 0, iv_updated_at := now\<rparr> else r)
     (map_of (inventory st) p)"
    by (simp add: zero_inventory_def map_of_map_rows)
  show "map fst (inventory (zero_inventory now ids st)) = map fst (inventory st)"
    by (simp add: zero_inventory_def comp_def case_prod_beta if_distrib cong: if_cong)
qed (simp_all add: zero_inventory_def)

definition tables_ok :: "stock_store \<Rightarrow> bool" where
  "tables_ok st \<longleftrightarrow> backfill_owned st \<and> distinct (map fst (summary st)) \<and> distinct (map fst (inventory st))"

lemma ledger_groups_set: "(p, l) \<in> set (ledger_groups st ids) \<longleftrightarrow>
    p \<in> set ids \<and> filter (\<lambda>m. mv_location m = l) (ledger_of st p) \<noteq> []"
  by (force simp: ledger_groups_def ledger_of_def filter_empty_conv)

lemma ledger_items_set: "p \<in> set (ledger_items st ids) \<longleftrightarrow> p \<in> set ids \<and> ledger_of st p \<noteq> []"
  by (force simp: ledger_items_def ledger_of_def filter_empty_conv)

lemma clear_summary_facts:
  "movements (clear_summary ids st) = movements st" "inventory (clear_summary ids st) = inventory st"
  "distinct (map fst (summary st)) \<Longrightarrow> distinct (map fst (summary (clear_summary ids st)))"
  "map_of (summary (clear_summary ids st)) (p, l) = (if p \<in> set ids then None else map_of (summary st) (p, l))"
proof -
  have "map_of (filter (\<lambda>r. fst (fst r) \<notin> S) t) (p, l) = (if p \<in> S then None else map_of t (p, l))"
    for S and t :: "((string \<times> string) \<times> int \<times> string) list"
    by (induction t) auto
  then show "map_of (summary (clear_summary ids st)) (p, l) = (if p \<in> set ids then None else map_of (summary st) (p, l))"
    by (simp add: clear_summary_def)
qed (simp_all add: clear_summary_def distinct_map_filter)

text \<open>What one chunk does to a product in it and to the others.\<close>

lemma rebuild_chunk_facts:
  assumes c: "rebuild_chunk now ids (n, st) = Inr (n', st')" and ok: "tables_ok st"
  shows "tables_ok st'"
    and "p \<notin> set ids \<Longrightarrow> same_product st st' p"
    and "p \<in> set ids \<Longrightarrow> rebuilt st' p
      \<and> (if ledger_of st' p = [] then map_of (inventory st') p = map_of (inventory st) p else map_of (inventory st') p \<noteq> None)
      \<and> 0 \<le> ledger_total st' p \<and> (\<not> healed st p \<longrightarrow> ledger_total st' p = ledger_total st p)
      \<and> (healed st p \<and> backfill_id p \<notin> mv_id ` set (movements st) \<longrightarrow> ledger_total st' p = get_stock st p)"
proof -
  obtain st1 where 1: "each (backfill now) (shortfalls st ids) st = Inr st1"
    using c by (auto simp: rebuild_chunk_def split: sum.splits)
  define st2 where "st2 = clear_summary ids st1"
  obtain st3 where 3: "each (insert_summary_group now) (ledger_groups st2 ids) st2 = Inr st3"
    using c 1 by (auto simp: rebuild_chunk_def Let_def st2_def split: sum.splits)
  obtain st4 where 4: "each (rebuild_inventory now) (ledger_items st3 ids) st3 = Inr st4"
      and st': "st' = zero_inventory now ids st4"
    using c 1 3 by (auto simp: rebuild_chunk_def Let_def st2_def split: sum.splits)
  have ok': "backfill_owned st" "distinct (map fst (inventory st))" "distinct (map fst (summary st))"
    using ok by (simp_all add: tables_ok_def)
  note b = backfill_all [OF 1 ok'(1,2)]
  have d2: "distinct (map fst (summary st2))" using b ok'(3) by (simp add: st2_def clear_summary_facts)
  note g = insert_groups [OF 3 d2] and i = rebuild_inventories [OF 4]
  have mv: "movements st' = movements st1" "movements st3 = movements st1" "movements st4 = movements st1"
    using g i by (simp_all add: st' st2_def zero_inventory_facts clear_summary_facts)
  then have led: "ledger_of st' p = ledger_of st1 p" "ledger_of st3 p = ledger_of st1 p" "ledger_of st4 p = ledger_of st1 p"
      "ledger_of st2 p = ledger_of st1 p" for p
    by (simp_all add: ledger_of_def st2_def clear_summary_facts)
  have tot: "ledger_total st' p = ledger_total st1 p" "ledger_total st3 p = ledger_total st1 p"
    "ledger_total st4 p = ledger_total st1 p" for p
    by (simp_all add: ledger_total_of led)
  have sum: "map_of (summary st') (p, l) = (if p \<notin> set ids then map_of (summary st) (p, l)
      else if filter (\<lambda>m. mv_location m = l) (ledger_of st1 p) \<noteq> [] then Some (ledger_qty st1 p l, now) else None)" for l
    using b g i by (simp add: st' st2_def zero_inventory_facts clear_summary_facts ledger_groups_set led
        ledger_qty_of ledger_of_def)
  have inv1: "0 \<le> ledger_total st1 p \<and> get_stock st' p = ledger_total st1 p \<and> map_of (inventory st') p \<noteq> None" if p: "ledger_of st1 p \<noteq> []" "p \<in> set ids"
  proof -
    have "p \<in> set (ledger_items st3 ids)" using p by (simp add: ledger_items_set led)
    then have "0 \<le> ledger_total st1 p" "get_stock st4 p = ledger_total st1 p" "map_of (inventory st4) p \<noteq> None"
      using i tot by auto
    then show ?thesis by (auto simp: get_stock_def st' zero_inventory_facts tot)
  qed
  have inv2: "map_of (inventory st') p = map_of (inventory st) p" if p: "ledger_of st1 p = [] \<or> p \<notin> set ids"
  proof -
    have "p \<notin> set (ledger_items st3 ids)" using p by (auto simp: ledger_items_set led)
    moreover have "inventory st3 = inventory st" using b g by (simp add: st2_def clear_summary_facts)
    ultimately have "map_of (inventory st4) p = map_of (inventory st) p" using i by simp
    then show ?thesis using p by (auto simp: st' zero_inventory_facts led option.map_ident)
  qed
  show "tables_ok st'"
    using b g i mv ok'(2) by (simp add: tables_ok_def st' zero_inventory_facts backfill_owned_def st2_def clear_summary_facts)
  show "p \<notin> set ids \<Longrightarrow> same_product st st' p"
    using b sum inv2 led(1) by (simp add: same_product_def)
  show "p \<in> set ids \<Longrightarrow> rebuilt st' p
      \<and> (if ledger_of st' p = [] then map_of (inventory st') p = map_of (inventory st) p else map_of (inventory st') p \<noteq> None)
      \<and> 0 \<le> ledger_total st' p \<and> (\<not> healed st p \<longrightarrow> ledger_total st' p = ledger_total st p)
      \<and> (healed st p \<and> backfill_id p \<notin> mv_id ` set (movements st) \<longrightarrow> ledger_total st' p = get_stock st p)"
    using b sum inv1 inv2 by (auto simp: rebuilt_def location_qty_def ledger_qty_of led tot ledger_total_of)
qed

subsection \<open>A whole rebuild\<close>

lemma chunks_concat: "0 < n \<Longrightarrow> concat (chunks n xs) = xs"
  by (induction n xs rule: chunks.induct) (subst chunks.simps, simp)

lemma rebuild_rule:
  assumes r: "rebuild_stock_summary_for now ids st = Inr (n, st')"
    and 0: "P [] st"
    and step: "\<And>ys c s k k' s'. P ys s \<Longrightarrow> rebuild_chunk now c (k, s) = Inr (k', s') \<Longrightarrow> set c \<subseteq> set ids \<Longrightarrow> P (ys @ c) s'"
  shows "P ids st'"
proof (cases "ids = []")
  case True
  then show ?thesis using r 0 by (simp add: rebuild_stock_summary_for_def)
next
  case False
  have c: "concat (chunks rebuild_scope_chunk ids) = ids" by (simp add: chunks_concat rebuild_scope_chunk_def)
  let ?P = "\<lambda>cs ns. P (concat cs) (snd ns)"
  have "?P (chunks rebuild_scope_chunk ids) (n, st')"
  proof (rule each_prefix [where P = ?P])
    show "each (rebuild_chunk now) (chunks rebuild_scope_chunk ids) (0, st) = Inr (n, st')"
      using r False by (simp add: rebuild_stock_summary_for_def)
    fix ys x zs s s'
    assume x: "chunks rebuild_scope_chunk ids = ys @ x # zs" and "?P ys s" and "rebuild_chunk now x s = Inr s'"
    moreover have "set x \<subseteq> set ids" using arg_cong [OF x, of "\<lambda>c. set (concat c)"] by (simp add: c) blast
    ultimately show "?P (ys @ [x]) s'"
      using step [of "concat ys" "snd s" x "fst s" "fst s'" "snd s'"] by simp
  qed (use 0 in simp)
  then show ?thesis by (simp add: c)
qed

text \<open>
  C21. A rebuild makes the tables say what the ledger says: afterwards every location quantity of a
  product in scope is the sum of its ledger rows there and its \<open>inventory\<close> total (when it has ledger
  rows) the sum of all of them; a product outside the scope keeps its ledger, its location rows and
  its total. This holds for any number of products, in however many chunks they are handled.\<close>

theorem rebuild_matches_ledger:
  assumes "rebuild_stock_summary_for now ids st = Inr (n, st')" and "tables_ok st"
  shows "if p \<in> set ids then rebuilt st' p \<and> summary_total st' p = ledger_total st' p else same_product st st' p"
proof -
  let ?P = "\<lambda>ys s. tables_ok s \<and> (if p \<in> set ys then rebuilt s p else same_product st s p)"
  have "?P ids st'"
  proof (rule rebuild_rule [OF assms(1)])
    fix ys c s k k' s'
    assume P: "?P ys s" and c: "rebuild_chunk now c (k, s) = Inr (k', s')"
    have ok: "tables_ok s" using P by simp
    show "?P (ys @ c) s'"
      using rebuild_chunk_facts(1) [OF c ok] rebuild_chunk_facts(2,3) [OF c ok, of p] P
      by (auto intro: same_product_rebuilt same_product_trans split: if_splits)
  qed (use assms(2) in simp)
  then show ?thesis using rebuilt_summary_total [of st' p] by (auto simp: tables_ok_def)
qed

text \<open>A product between two chunks: its tables read \<open>t\<close>, and its ledger does or will be healed to.\<close>

definition settling :: "int \<Rightarrow> string \<Rightarrow> stock_store \<Rightarrow> bool" where
  "settling t p st \<longleftrightarrow> map_of (inventory st) p \<noteq> None \<and> get_stock st p = t \<and> stock_total st p = t
     \<and> (ledger_total st p = t \<or> ledger_total st p < t \<and> backfill_id p \<notin> mv_id ` set (movements st))"

lemma settling_healed:
  assumes "settling t p st" shows "healed st p \<longleftrightarrow> ledger_total st p < t"
  using assms by (auto simp: settling_def healed_def get_stock_def stock_total_def split: option.splits if_splits)

lemma settling_chunk:
  assumes c: "rebuild_chunk now ids (k, st) = Inr (k', st')" and ok: "tables_ok st" and s: "settling t p st"
  shows "settling t p st' \<and> (p \<in> set ids \<longrightarrow> ledger_total st' p = t)
    \<and> (ledger_total st p = t \<longrightarrow> ledger_total st' p = t)"
proof (cases "p \<in> set ids")
  case True
  note f = rebuild_chunk_facts(3) [OF c ok True]
  have ok': "tables_ok st'" by (rule rebuild_chunk_facts(1) [OF c ok])
  have led: "ledger_total st' p = t" using f s settling_healed [OF s] by (auto simp: settling_def)
  have inv: "map_of (inventory st') p \<noteq> None \<and> get_stock st' p = t"
  proof (cases "ledger_of st' p = []")
    case False
    then show ?thesis using f led by (simp add: rebuilt_def)
  next
    case True
    then show ?thesis using f s by (simp add: settling_def get_stock_def)
  qed
  then have "stock_total st' p = t"
    using rebuilt_summary_total [of st' p] f ok' led by (simp add: stock_total_def tables_ok_def)
  then show ?thesis using led inv by (simp add: settling_def)
next
  case False
  have same: "same_product st st' p" by (rule rebuild_chunk_facts(2) [OF c ok False])
  moreover have "tables_ok st'" by (rule rebuild_chunk_facts(1) [OF c ok])
  ultimately show ?thesis
    using False ok s same_product_reads [OF same] same_product_total [OF same]
    by (simp add: settling_def tables_ok_def backfill_id_of same_product_def)
qed

text \<open>
  A rebuild does not change the stock of a product whose tables agree and whose ledger is not
  ahead of them: stock from before the ledger gets a backfill row, so that the ledger comes to the
  same quantity. (Provided there is no backfill row yet.)\<close>

theorem rebuild_keeps_stock:
  assumes "rebuild_stock_summary_for now ids st = Inr (n, st')" and "tables_ok st" and "agrees st p"
    and "map_of (inventory st) p \<noteq> None" and "ledger_total st p \<le> get_stock st p" and "backfill_id p \<notin> mv_id ` set (movements st)" and "p \<in> set ids"
  shows "stock_total st' p = stock_total st p \<and> ledger_total st' p = stock_total st p"
proof -
  let ?t = "stock_total st p"
  let ?P = "\<lambda>ys s. tables_ok s \<and> settling ?t p s \<and> (p \<in> set ys \<longrightarrow> ledger_total s p = ?t)"
  have start: "settling ?t p st" using assms(3-6) by (auto simp: settling_def agrees_def stock_total_def)
  have "?P ids st'"
  proof (rule rebuild_rule [OF assms(1)])
    fix ys c s k k' s'
    assume "?P ys s" and c: "rebuild_chunk now c (k, s) = Inr (k', s')"
    then show "?P (ys @ c) s'"
      using rebuild_chunk_facts(1) [OF c] settling_chunk [OF c, of ?t p] by auto
  qed (use assms(2) start in simp)
  then show ?thesis using assms(7) by (simp add: settling_def)
qed

subsection \<open>An oversold product blocks the rebuild\<close>

lemma same_product_healed:
  assumes "same_product st st' p" and "tables_ok st" and "tables_ok st'"
  shows "healed st' p \<longleftrightarrow> healed st p"
  using same_product_reads [OF assms(1)] same_product_total [OF assms(1)] assms
  by (simp add: healed_def tables_ok_def same_product_def)

text \<open>
  If the ledger of one product in scope adds up to less than zero and the product is not one to
  be healed, the rebuild fails for all products in scope: the total is written to a table that
  refuses negative quantities, before the statement meant to reset such products to zero.\<close>

theorem oversold_product_blocks_rebuild:
  assumes "tables_ok st" and "p \<in> set ids" and "ledger_total st p < 0" and "\<not> healed st p"
  shows "\<exists>e. rebuild_stock_summary_for now ids st = Inl e"
proof (cases "rebuild_stock_summary_for now ids st")
  case (Inr ns)
  obtain n st' where ns: "ns = (n, st')" by (rule prod.exhaust)
  let ?P = "\<lambda>ys s. tables_ok s \<and> ledger_total s p < 0 \<and> \<not> healed s p \<and> p \<notin> set ys"
  have "?P ids st'"
  proof (rule rebuild_rule [OF Inr [unfolded ns]])
    fix ys c s k k' s'
    assume P: "?P ys s" and c: "rebuild_chunk now c (k, s) = Inr (k', s')"
    have ok: "tables_ok s" using P by simp
    have ok': "tables_ok s'" by (rule rebuild_chunk_facts(1) [OF c ok])
    have out: "p \<notin> set c" using rebuild_chunk_facts(3) [OF c ok, of p] P by auto
    have same: "same_product s s' p" by (rule rebuild_chunk_facts(2) [OF c ok out])
    show "?P (ys @ c) s'"
      using P out ok' same_product_reads(1) [OF same] same_product_healed [OF same ok ok'] by simp
  qed (use assms in simp)
  then show ?thesis using assms(2) by simp
qed simp

subsection \<open>Archiving\<close>

lemma archivable_item: "archivable cutoff p m \<Longrightarrow> mv_item m = p"
  by (simp add: archivable_def)

lemma archived_total:
  "sum_list (map mv_delta (filter (\<lambda>m. mv_item m = p') (filter (\<lambda>m. \<not> archivable cutoff p m) ms)))
     + (if p' = p then sum_list (map mv_delta (filter (archivable cutoff p) ms)) else 0)
   = sum_list (map mv_delta (filter (\<lambda>m. mv_item m = p') ms))"
  by (induction ms) (auto dest: archivable_item)

lemma archive_item_total:
  assumes "archive_item cutoff now roll p st = Inr st'"
  shows "ledger_total st' p' = ledger_total st p'"
proof -
  let ?old = "filter (archivable cutoff p) (movements st)"
  let ?r = "\<lparr>mv_id = roll, mv_item = p, mv_location = canonical_default_location,
      mv_delta = sum_list (map mv_delta ?old), mv_reason = Some ''archive-rollup'', mv_txn = None,
      mv_terminal = None, mv_user = None, mv_store = [], mv_created_at = now\<rparr>"
  have "movements st' = filter (\<lambda>m. \<not> archivable cutoff p m) (movements st) @ [?r]"
    using assms by (auto simp: archive_item_def insert_movement_def archivable_def Let_def split: if_splits)
  then show ?thesis using archived_total [of p' cutoff p "movements st"]
    by (cases "p' = p") (auto simp: ledger_total_def)
qed

text \<open>
  Archiving old movements, however many products it covers and even when it stops half way,
  leaves the ledger total of every product as it was: one row with the sum replaces the rows moved
  to the archive.\<close>

theorem archive_keeps_totals:
  "ledger_total (snd (archive_stock_movements cutoff now fresh max_groups st)) p = ledger_total st p"
proof -
  have "ledger_total (snd (archive_items cutoff now fresh n ps st)) p = ledger_total st p" for n ps
    by (induction cutoff now fresh n ps st rule: archive_items.induct)
       (auto split: sum.split simp: archive_item_total)
  then show ?thesis by (simp add: archive_stock_movements_def)
qed

subsection \<open>Concrete cases\<close>

lemma oversold_shop_state: "tables_ok oversold_shop \<and> ledger_total oversold_shop ''p'' = -2
    \<and> \<not> healed oversold_shop ''p''"
  by (auto simp: tables_ok_def oversold_shop_def corner_shop_def delivery_def ledger_total_def healed_def
      summary_total_def product_has_location_rows_def backfill_owned_def backfill_id_def legacy_backfill_reason_def)

text \<open>Archiving the delivery and then rebuilding moves the stock to the default location.\<close>

theorem archive_then_rebuild_moves_stock:
  "map_sum id (\<lambda>ns. (location_qty (snd ns) ''p'' ''A'', location_qty (snd ns) ''p'' canonical_default_location))
     (rebuild_stock_summary ''2026'' (snd (archive_stock_movements ''2025'' ''2026'' (\<lambda>_. ''r'') 10 corner_shop)))
   = Inr (0, 3)
   \<and> location_qty corner_shop ''p'' ''A'' = 3"
  by code_simp

text \<open>A shop with stock from before the ledger.\<close>

definition old_shop :: stock_store where
  "old_shop = plain_shop\<lparr>movements := [], summary := []\<rparr>"

definition rebuilt_old_shop :: stock_store where
  "rebuilt_old_shop = old_shop\<lparr>movements := [\<lparr>mv_id = backfill_id ''p'', mv_item = ''p'', mv_location = canonical_default_location,
       mv_delta = 3, mv_reason = Some legacy_backfill_reason, mv_txn = None, mv_terminal = None,
       mv_user = None, mv_store = [], mv_created_at = ''2026''\<rparr>],
     summary := [((''p'', canonical_default_location), 3, ''2026'')],
     inventory := [(''p'', \<lparr>iv_qty = 3, iv_location = canonical_default_location, iv_updated_at = ''2026''\<rparr>)]\<rparr>"

lemma rebuilt_old_shop_run: "rebuild_stock_summary_for ''2026'' [''p''] old_shop = Inr (1, rebuilt_old_shop)"
  by code_simp

lemma old_shop_ok: "tables_ok old_shop" "agrees old_shop ''p''" "map_of (inventory old_shop) ''p'' \<noteq> None"
    "ledger_total old_shop ''p'' \<le> get_stock old_shop ''p''" "backfill_id ''p'' \<notin> mv_id ` set (movements old_shop)"
  by (simp_all add: tables_ok_def backfill_owned_def agrees_def old_shop_def plain_shop_def corner_shop_def
      get_stock_def ledger_total_def product_has_location_rows_def)

theorem rebuild_matches_ledger_witness: "rebuilt rebuilt_old_shop ''p'' \<and> summary_total rebuilt_old_shop ''p'' = 3"
  using rebuild_matches_ledger [OF rebuilt_old_shop_run old_shop_ok(1), of "''p''"]
  by (simp add: rebuilt_old_shop_def ledger_total_def)

theorem rebuild_keeps_stock_witness: "stock_total rebuilt_old_shop ''p'' = 3"
  using rebuild_keeps_stock [OF rebuilt_old_shop_run old_shop_ok]
  by (simp add: old_shop_def plain_shop_def corner_shop_def stock_total_def get_stock_def product_has_location_rows_def)

theorem oversold_product_blocks_rebuild_witness: "\<exists>e. rebuild_stock_summary_for ''2026'' [''q'', ''p''] oversold_shop = Inl e"
  by (rule oversold_product_blocks_rebuild [of _ "''p''"]) (use oversold_shop_state in auto)

text \<open>
  A backfill row is overwritten by a later shortfall, not added to: here ten units were backfilled,
  the tables came to fifteen, and the rebuild leaves five.\<close>

theorem second_backfill_loses_the_first:
  "map_sum id (\<lambda>ns. ledger_total (snd ns) ''p'')
     (rebuild_stock_summary_for ''2026'' [''p''] (rebuilt_old_shop\<lparr>
        movements := map (\<lambda>m. m\<lparr>mv_delta := 10\<rparr>) (movements rebuilt_old_shop),
        summary := [((''p'', canonical_default_location), 15, ''2026'')],
        inventory := [(''p'', \<lparr>iv_qty = 15, iv_location = canonical_default_location, iv_updated_at = ''2026''\<rparr>)]\<rparr>)) = Inr 5"
  by code_simp

end
