(* ===== verification/Loyalty.thy ===== *)
theory Loyalty
  imports Tax_Rates Money "HOL-Library.Char_ord" "HOL-Library.List_Lexorder"
begin

section \<open>Loyalty: points, tiers, redemption and reversal\<close>

text \<open>
  Models \<open>crates/kasirmu-core/src/db/loyalty.rs\<close>: accounts with a balance, the ledger of point
  transactions, tiers with their multipliers, and the copy of the balance in the customer row. The
  tables are lists of rows; the unique indexes and foreign keys of the schema refuse an insert. Ids
  and times are arguments. SQL sums and additions are taken to stay within \<open>i64\<close>. Rows with equal
  sort keys come out in table order, which SQL leaves open.
\<close>

subsection \<open>Rows\<close>

record loyalty_tier =
  lt_id :: string
  lt_name :: string
  lt_min_points :: int
  lt_points_per_unit :: int
  lt_multiplier :: int
  lt_colour :: string
  lt_sort_order :: int
  lt_created_at :: string

record loyalty_account =
  la_id :: string
  la_customer :: string
  la_points :: int
  la_lifetime :: int
  la_tier :: "string option"
  la_updated_at :: string
  la_created_at :: string

record loyalty_transaction =
  lx_id :: string
  lx_account :: string
  lx_sale :: "string option"
  lx_points :: int
  lx_type :: string
  lx_description :: string
  lx_created_at :: string

record loyalty_account_with_details =
  ld_account :: loyalty_account
  ld_tier :: "loyalty_tier option"
  ld_recent :: "loyalty_transaction list"
  ld_next_tier :: "loyalty_tier option"
  ld_points_to_next :: int

text \<open>The columns of customers and sales that loyalty, refunds and the replication of sales read or write.\<close>

record customer_row =
  cu_id :: string
  cu_loyalty_points :: int
  cu_total_spent :: int
  cu_updated_at :: string

record sale_row =
  so_id :: string
  so_customer :: "string option"
  so_total :: int
  so_status :: string
  so_currency :: string
  so_base_total :: "int option"
  so_tenant :: "string option"
  so_deductions :: "string option"
  so_terminal :: "string option"
  so_updated_at :: string
  so_version :: int

record loyalty_store =
  lo_customers :: "customer_row list"
  lo_sales :: "sale_row list"
  lo_tiers :: "loyalty_tier list"
  lo_accounts :: "loyalty_account list"
  lo_txns :: "loyalty_transaction list"

subsection \<open>Arithmetic and validation\<close>

definition points_to_minor_ratio :: int where
  "points_to_minor_ratio = 1"

definition saturating_mul_i64 :: "int \<Rightarrow> int \<Rightarrow> int" where
  "saturating_mul_i64 a b = max i64_min (min i64_max (a * b))"

definition compute_points :: "int \<Rightarrow> int \<Rightarrow> int" where
  "compute_points base multiplier =
     (let den = 100 * 1000000; num = base * multiplier; q = num sdiv den; r = num smod den;
          (q, r) = (if r < 0 then (q - 1, r + den) else (q, r));
          q = (if r * 2 \<ge> den then q + 1 else q)
      in case fit_i64 q of Some v \<Rightarrow> v | None \<Rightarrow> i64_max)"

definition is_ascii_hexdigit :: "string \<Rightarrow> bool" where
  "is_ascii_hexdigit c = (case c of [x] \<Rightarrow> is_ascii_digit x \<or> (CHR ''a'' \<le> x \<and> x \<le> CHR ''f'') \<or> (CHR ''A'' \<le> x \<and> x \<le> CHR ''F'')
     | _ \<Rightarrow> False)"

definition validate_tier_config :: "string \<Rightarrow> int \<Rightarrow> int \<Rightarrow> int \<Rightarrow> string \<Rightarrow> core_error + unit" where
  "validate_tier_config tname min_points per_unit multiplier colour =
     (if trim tname = [] then Inl (Validation ''name'')
      else if min_points < 0 then Inl (Validation ''min_points'')
      else if per_unit \<le> 0 then Inl (Validation ''points_per_unit'')
      else if multiplier \<le> 0 then Inl (Validation ''earn_multiplier_millionths'')
      else if \<not> (length colour = 7 \<and> starts_with colour ''#'' \<and> list_all is_ascii_hexdigit (chars (drop 1 colour)))
      then Inl (Validation ''colour'')
      else Inr ())"

subsection \<open>Queries\<close>

definition get_loyalty_account_raw :: "loyalty_store \<Rightarrow> string \<Rightarrow> loyalty_account option" where
  "get_loyalty_account_raw st customer = List.find (\<lambda>a. la_customer a = customer) (lo_accounts st)"

definition sale_txn :: "string \<Rightarrow> string \<Rightarrow> string \<Rightarrow> loyalty_transaction \<Rightarrow> bool" where
  "sale_txn account sale kind t \<longleftrightarrow> lx_account t = account \<and> lx_sale t = Some sale \<and> lx_type t = kind"

definition get_loyalty_transaction_for_sale ::
    "loyalty_store \<Rightarrow> string \<Rightarrow> string \<Rightarrow> string \<Rightarrow> loyalty_transaction option" where
  "get_loyalty_transaction_for_sale st account sale kind = List.find (sale_txn account sale kind) (lo_txns st)"

definition fetch_earn_txn :: "loyalty_store \<Rightarrow> string \<Rightarrow> string \<Rightarrow> loyalty_transaction option" where
  "fetch_earn_txn st account sale = List.find (sale_txn account sale ''earn'') (lo_txns st)"

definition list_tiers :: "loyalty_store \<Rightarrow> loyalty_tier list" where
  "list_tiers st = sort_key lt_sort_order (lo_tiers st)"

definition get_loyalty_tier :: "loyalty_store \<Rightarrow> string \<Rightarrow> loyalty_tier option" where
  "get_loyalty_tier st i = List.find (\<lambda>t. lt_id t = i) (lo_tiers st)"

definition next_tier_of :: "loyalty_tier list \<Rightarrow> loyalty_account \<Rightarrow> loyalty_tier option" where
  "next_tier_of ts a = (case sort_key lt_min_points (filter (\<lambda>t. lt_min_points t > la_lifetime a) ts) of
     [] \<Rightarrow> None | t # _ \<Rightarrow> Some t)"

definition account_details :: "loyalty_store \<Rightarrow> nat \<Rightarrow> loyalty_tier list \<Rightarrow> loyalty_tier option \<Rightarrow> loyalty_account
    \<Rightarrow> loyalty_account_with_details" where
  "account_details st limit ts tier a =
     (let nt = next_tier_of ts a
      in \<lparr>ld_account = a, ld_tier = tier,
          ld_recent = take limit (rev (sort_key lx_created_at (filter (\<lambda>t. lx_account t = la_id a) (lo_txns st)))),
          ld_next_tier = nt,
          ld_points_to_next = (case nt of None \<Rightarrow> 0 | Some t \<Rightarrow> lt_min_points t - la_lifetime a)\<rparr>)"

definition get_loyalty_account :: "loyalty_store \<Rightarrow> string \<Rightarrow> loyalty_account_with_details option" where
  "get_loyalty_account st customer =
     map_option (\<lambda>a. account_details st 20 (list_tiers st) (Option.bind (la_tier a) (get_loyalty_tier st)) a)
       (get_loyalty_account_raw st customer)"

definition list_loyalty_accounts :: "loyalty_store \<Rightarrow> loyalty_account_with_details list" where
  "list_loyalty_accounts st =
     (let ts = sort_key lt_min_points (list_tiers st)
      in map (\<lambda>a. account_details st 5 ts (Option.bind (la_tier a) (\<lambda>i. List.find (\<lambda>t. lt_id t = i) ts)) a)
           (rev (sort_key la_lifetime (lo_accounts st))))"

text \<open>The tier of a lifetime total: the highest threshold reached.\<close>

definition tier_at :: "loyalty_store \<Rightarrow> int \<Rightarrow> string option" where
  "tier_at st n = (case rev (sort_key lt_min_points (filter (\<lambda>t. lt_min_points t \<le> n) (lo_tiers st))) of
     [] \<Rightarrow> None | t # _ \<Rightarrow> Some (lt_id t))"

definition get_points_value :: "int \<Rightarrow> core_error + int" where
  "get_points_value n =
     (if n < 0 then Inl (Validation ''points'')
      else (case checked_mul n points_to_minor_ratio of
          None \<Rightarrow> Inl (Validation ''points'') | Some v \<Rightarrow> Inr v))"

subsection \<open>Row writes\<close>

text \<open>\<open>INSERT OR IGNORE\<close> passes over a duplicate but not over a missing customer or tier.\<close>

definition insert_or_ignore_account :: "string \<Rightarrow> string \<Rightarrow> string \<Rightarrow> loyalty_store \<Rightarrow> core_error + loyalty_store" where
  "insert_or_ignore_account i customer now st =
     (if i \<in> la_id ` set (lo_accounts st) \<or> customer \<in> la_customer ` set (lo_accounts st) then Inr st
      else if customer \<notin> cu_id ` set (lo_customers st) \<or> ''tier-bronze'' \<notin> lt_id ` set (lo_tiers st) then Inl Db
      else Inr (st\<lparr>lo_accounts := lo_accounts st @ [\<lparr>la_id = i, la_customer = customer, la_points = 0,
             la_lifetime = 0, la_tier = Some ''tier-bronze'', la_updated_at = now, la_created_at = now\<rparr>]\<rparr>))"

definition insert_loyalty_txn :: "loyalty_transaction \<Rightarrow> loyalty_store \<Rightarrow> core_error + loyalty_store" where
  "insert_loyalty_txn t st =
     (if lx_id t \<in> lx_id ` set (lo_txns st) \<or> lx_account t \<notin> la_id ` set (lo_accounts st)
         \<or> (case lx_sale t of None \<Rightarrow> False
            | Some s \<Rightarrow> s \<notin> so_id ` set (lo_sales st)
                \<or> lx_type t \<in> {''earn'', ''redeem''} \<and> list_ex (sale_txn (lx_account t) s (lx_type t)) (lo_txns st))
      then Inl Db else Inr (st\<lparr>lo_txns := lo_txns st @ [t]\<rparr>))"

definition update_account :: "(loyalty_account \<Rightarrow> bool) \<Rightarrow> (loyalty_account \<Rightarrow> loyalty_account) \<Rightarrow> loyalty_store
    \<Rightarrow> nat \<times> loyalty_store" where
  "update_account P f st =
     (length (filter P (lo_accounts st)), st\<lparr>lo_accounts := map (\<lambda>a. if P a then f a else a) (lo_accounts st)\<rparr>)"

text \<open>The balance of the account that \<open>P\<close> selects, copied to its customer.\<close>

definition project_points :: "string \<Rightarrow> (loyalty_account \<Rightarrow> bool) \<Rightarrow> loyalty_store \<Rightarrow> loyalty_store" where
  "project_points now P st =
     (case List.find P (lo_accounts st) of
        None \<Rightarrow> st
      | Some a \<Rightarrow> st\<lparr>lo_customers := map (\<lambda>c. if cu_id c = la_customer a
            then c\<lparr>cu_loyalty_points := la_points a, cu_updated_at := now\<rparr> else c) (lo_customers st)\<rparr>)"

subsection \<open>Accounts and tiers\<close>

definition get_or_create_loyalty_account ::
    "string \<Rightarrow> string \<Rightarrow> string \<Rightarrow> loyalty_store \<Rightarrow> core_error + loyalty_account \<times> loyalty_store" where
  "get_or_create_loyalty_account i now customer st =
     (if customer \<notin> cu_id ` set (lo_customers st) then Inl (NotFound ''customer'' customer)
      else (case insert_or_ignore_account i customer now st of
          Inl e \<Rightarrow> Inl e
        | Inr st' \<Rightarrow> (case get_loyalty_account_raw st' customer of
              None \<Rightarrow> Inl Internal | Some a \<Rightarrow> Inr (a, st'))))"

definition update_tier ::
    "string \<Rightarrow> string \<Rightarrow> int \<Rightarrow> int \<Rightarrow> int \<Rightarrow> string \<Rightarrow> loyalty_store \<Rightarrow> core_error + loyalty_tier \<times> loyalty_store" where
  "update_tier i tname min_points per_unit multiplier colour st =
     (if i \<notin> lt_id ` set (lo_tiers st) then Inl (NotFound ''loyalty_tier'' i)
      else (case validate_tier_config tname min_points per_unit multiplier colour of
          Inl e \<Rightarrow> Inl e
        | Inr _ \<Rightarrow>
            if list_ex (\<lambda>t. lt_id t \<noteq> i \<and> lt_min_points t = min_points) (lo_tiers st)
            then Inl (Validation ''min_points'')
            else if min_points > 0 \<and> \<not> list_ex (\<lambda>t. lt_id t \<noteq> i \<and> lt_min_points t = 0) (lo_tiers st)
            then Inl (Validation ''min_points'')
            else (let st' = st\<lparr>lo_tiers := map (\<lambda>t. if lt_id t = i
                         then t\<lparr>lt_name := tname, lt_min_points := min_points, lt_points_per_unit := per_unit,
                                lt_multiplier := multiplier, lt_colour := colour\<rparr> else t) (lo_tiers st)\<rparr>
                  in case get_loyalty_tier st' i of
                       None \<Rightarrow> Inl (NotFound ''loyalty_tier'' i) | Some t \<Rightarrow> Inr (t, st'))))"

subsection \<open>Earning\<close>

record loyalty_args =
  ly_account_id :: string
  ly_txn_id :: string
  ly_now :: string

definition award_points :: "loyalty_store \<Rightarrow> loyalty_account \<Rightarrow> int \<Rightarrow> int" where
  "award_points st a total_minor =
     (let tier = (case Option.bind (la_tier a) (get_loyalty_tier st) of
            Some t \<Rightarrow> (lt_points_per_unit t, lt_multiplier t) | None \<Rightarrow> (10, 1000000));
          base = saturating_mul_i64 total_minor (fst tier)
      in compute_points base (snd tier))"

definition earn_txn :: "loyalty_args \<Rightarrow> string \<Rightarrow> string \<Rightarrow> int \<Rightarrow> loyalty_transaction" where
  "earn_txn x account sale points =
     \<lparr>lx_id = ly_txn_id x, lx_account = account, lx_sale = Some sale, lx_points = points, lx_type = ''earn'',
      lx_description = ''Earned '' @ show_int points @ '' points from purchase'', lx_created_at = ly_now x\<rparr>"

definition earn_row :: "string \<Rightarrow> loyalty_store \<Rightarrow> int \<Rightarrow> loyalty_account \<Rightarrow> loyalty_account" where
  "earn_row now st points b = b\<lparr>la_points := la_points b + points, la_lifetime := la_lifetime b + points,
     la_tier := tier_at st (la_lifetime b + points), la_updated_at := now\<rparr>"

definition earn_points_with_conn ::
    "loyalty_args \<Rightarrow> string \<Rightarrow> string \<Rightarrow> int \<Rightarrow> loyalty_store
       \<Rightarrow> core_error + loyalty_transaction option \<times> loyalty_store" where
  "earn_points_with_conn x customer sale total_minor st =
     (if customer \<notin> cu_id ` set (lo_customers st) then Inl (NotFound ''customer'' customer)
      else (case insert_or_ignore_account (ly_account_id x) customer (ly_now x) st of
        Inl e \<Rightarrow> Inl e
      | Inr st1 \<Rightarrow>
        (case get_loyalty_account_raw st1 customer of
           None \<Rightarrow> Inl Db
         | Some a \<Rightarrow>
           (case fetch_earn_txn st1 (la_id a) sale of
              Some t \<Rightarrow> Inr (Some t, st1)
            | None \<Rightarrow>
              (let points = award_points st1 a total_minor; t = earn_txn x (la_id a) sale points
               in if points \<le> 0 then Inr (None, st1)
                  else (case insert_loyalty_txn t st1 of
                      Inl e \<Rightarrow> (case fetch_earn_txn st1 (la_id a) sale of
                          Some w \<Rightarrow> Inr (Some w, st1) | None \<Rightarrow> Inl e)
                    | Inr st2 \<Rightarrow>
                        (let st3 = snd (update_account (\<lambda>b. la_id b = la_id a) (earn_row (ly_now x) st2 points) st2)
                         in Inr (Some t, project_points (ly_now x) (\<lambda>b. la_customer b = customer) st3))))))))"

definition earn_points ::
    "loyalty_args \<Rightarrow> string \<Rightarrow> string \<Rightarrow> int \<Rightarrow> loyalty_store
       \<Rightarrow> core_error + loyalty_transaction \<times> loyalty_store" where
  "earn_points x customer sale total_minor st =
     (case earn_points_with_conn x customer sale total_minor st of
        Inl e \<Rightarrow> Inl e
      | Inr (Some t, st') \<Rightarrow> Inr (t, st')
      | Inr (None, _) \<Rightarrow> Inl (Validation ''total_minor''))"

subsection \<open>Redeeming\<close>

definition loyalty_currency :: "string \<Rightarrow> currency" where
  "loyalty_currency c = (case currency_from_str c of Inr d \<Rightarrow> d | Inl _ \<Rightarrow> Currency CHR ''U'' CHR ''S'' CHR ''D'')"

definition saturating_abs :: "int \<Rightarrow> int" where
  "saturating_abs n = min i64_max \<bar>n\<bar>"

text \<open>
  What \<open>redeem_points\<close> does before its transaction. \<open>Inl\<close> in the result is the earlier redemption of
  the same sale; \<open>Inr\<close> holds the account, the discount and the currency for the transaction.
\<close>

definition redeem_points_check ::
    "string \<Rightarrow> int \<Rightarrow> string \<Rightarrow> loyalty_store
       \<Rightarrow> core_error + (loyalty_transaction \<times> int) + (loyalty_account \<times> int \<times> string)" where
  "redeem_points_check customer points sale st =
     (case get_loyalty_account_raw st customer of
        None \<Rightarrow> Inl (NotFound ''loyalty_account'' customer)
      | Some a \<Rightarrow>
          if points \<le> 0 then Inl (Validation ''points'')
          else (case List.find (\<lambda>s. so_id s = sale) (lo_sales st) of
              None \<Rightarrow> Inl (NotFound ''sale'' sale)
            | Some s \<Rightarrow>
                if so_customer s \<noteq> Some customer then Inl (Validation ''sale_id'')
                else if so_status s \<noteq> ''completed'' then Inl (Validation ''sale_id'')
                else if so_total s < 0 then Inl (Validation ''sale_id'')
                else (case get_loyalty_transaction_for_sale st (la_id a) sale ''redeem'' of
                    Some t \<Rightarrow> Inr (Inl (t, saturating_abs (lx_points t)))
                  | None \<Rightarrow>
                      if la_points a < points then Inl (Validation ''points'')
                      else (case checked_mul points points_to_minor_ratio of
                          None \<Rightarrow> Inl (Validation ''points'')
                        | Some discount \<Rightarrow>
                            if discount > so_total s then Inl (Validation ''points'')
                            else Inr (Inr (a, discount, so_currency s))))))"

definition redeem_points_commit ::
    "loyalty_args \<Rightarrow> string \<Rightarrow> int \<Rightarrow> string \<Rightarrow> loyalty_account \<Rightarrow> int \<Rightarrow> string \<Rightarrow> loyalty_store
       \<Rightarrow> core_error + (loyalty_transaction \<times> int) \<times> loyalty_store" where
  "redeem_points_commit x customer points sale a discount cur st =
     (let t = \<lparr>lx_id = ly_txn_id x, lx_account = la_id a, lx_sale = Some sale, lx_points = - points,
            lx_type = ''redeem'', lx_description = ''Redeemed '' @ show_int points @ '' points for ''
              @ format_minor discount (loyalty_currency cur) @ '' discount'', lx_created_at = ly_now x\<rparr>
      in case insert_loyalty_txn t st of
           Inl e \<Rightarrow> (case get_loyalty_transaction_for_sale st (la_id a) sale ''redeem'' of
               Some w \<Rightarrow> Inr ((w, saturating_abs (lx_points w)), st) | None \<Rightarrow> Inl e)
         | Inr st1 \<Rightarrow>
             (case update_account (\<lambda>b. la_id b = la_id a \<and> la_points b \<ge> points)
                     (\<lambda>b. b\<lparr>la_points := la_points b - points, la_updated_at := ly_now x\<rparr>) st1 of
                (changed, st2) \<Rightarrow>
                  if changed \<noteq> 1 then Inl (Validation ''points'')
                  else Inr ((t, discount), project_points (ly_now x) (\<lambda>b. la_customer b = customer) st2)))"

definition redeem_points ::
    "loyalty_args \<Rightarrow> string \<Rightarrow> int \<Rightarrow> string \<Rightarrow> loyalty_store
       \<Rightarrow> core_error + (loyalty_transaction \<times> int) \<times> loyalty_store" where
  "redeem_points x customer points sale st =
     (case redeem_points_check customer points sale st of
        Inl e \<Rightarrow> Inl e
      | Inr (Inl earlier) \<Rightarrow> Inr (earlier, st)
      | Inr (Inr (a, discount, cur)) \<Rightarrow> redeem_points_commit x customer points sale a discount cur st)"

subsection \<open>Reversing on a refund\<close>

text \<open>The award to reverse is the oldest one of the sale, whichever account it is of.\<close>

definition award_of :: "loyalty_store \<Rightarrow> string \<Rightarrow> loyalty_transaction option" where
  "award_of st sale = (case sort_key lx_created_at
       (filter (\<lambda>t. lx_sale t = Some sale \<and> lx_type t = ''earn'') (lo_txns st)) of
     [] \<Rightarrow> None | t # _ \<Rightarrow> Some t)"

definition reversed_for :: "loyalty_store \<Rightarrow> string \<Rightarrow> int" where
  "reversed_for st sale = sum_list (map (\<lambda>t. - lx_points t)
     (filter (\<lambda>t. lx_sale t = Some sale \<and> lx_type t = ''refund_reversal'') (lo_txns st)))"

text \<open>Round half up of \<open>earned * refund / total\<close>; \<open>as i64\<close> keeps the low 64 bits.\<close>

definition wrap_i64 :: "int \<Rightarrow> int" where
  "wrap_i64 n = (n + 2 ^ 63) mod 2 ^ 64 - 2 ^ 63"

definition proportional_points :: "int \<Rightarrow> int \<Rightarrow> int \<Rightarrow> int" where
  "proportional_points earned refund_minor total_minor =
     (if total_minor > 0 \<and> refund_minor > 0
      then wrap_i64 ((earned * refund_minor * 2 + total_minor) sdiv (total_minor * 2)) else 0)"

definition reverse_loyalty_on_refund ::
    "string \<Rightarrow> string \<Rightarrow> string \<Rightarrow> int \<Rightarrow> int \<Rightarrow> loyalty_store \<Rightarrow> loyalty_transaction option \<times> loyalty_store" where
  "reverse_loyalty_on_refund now sale rf refund_minor total_minor st =
     (case award_of st sale of
        None \<Rightarrow> (None, st)
      | Some earn \<Rightarrow>
          (let headroom = lx_points earn - reversed_for st sale;
               deduct = max 0 (min (proportional_points (lx_points earn) refund_minor total_minor) headroom)
           in if deduct \<le> 0 then (None, st)
              else (let t = \<lparr>lx_id = ''loyalty-reversal-'' @ rf, lx_account = lx_account earn,
                          lx_sale = Some sale, lx_points = - deduct, lx_type = ''refund_reversal'',
                          lx_description = ''Reversed '' @ show_int deduct @ '' points for refund on sale'',
                          lx_created_at = now\<rparr>
                    in case insert_loyalty_txn t st of
                         Inl _ \<Rightarrow> (None, st)
                       | Inr st1 \<Rightarrow>
                           (let st2 = snd (update_account (\<lambda>b. la_id b = lx_account earn)
                                  (\<lambda>b. b\<lparr>la_points := max (la_points b - deduct) 0,
                                         la_lifetime := max (la_lifetime b - deduct) 0,
                                         la_tier := (case tier_at st1 (max (la_lifetime b - deduct) 0) of
                                             None \<Rightarrow> la_tier b | Some i \<Rightarrow> Some i),
                                         la_updated_at := now\<rparr>) st1)
                            in (Some t, project_points now (\<lambda>b. la_id b = lx_account earn) st2)))))"

subsection \<open>The invariant of the tables\<close>

definition points_ledger :: "loyalty_store \<Rightarrow> string \<Rightarrow> int" where
  "points_ledger st i = sum_list (map lx_points (filter (\<lambda>t. lx_account t = i) (lo_txns st)))"

definition earned_for :: "loyalty_store \<Rightarrow> string \<Rightarrow> int" where
  "earned_for st sale = sum_list (map lx_points
     (filter (\<lambda>t. lx_sale t = Some sale \<and> lx_type t = ''earn'') (lo_txns st)))"

text \<open>
  One account per customer, no negative balance, a balance that is never behind its ledger, at most
  one award and one redemption of an account for a sale, no more points reversed than awarded for a
  sale, and customer rows that show the balance.
\<close>

definition loyalty_inv :: "loyalty_store \<Rightarrow> bool" where
  "loyalty_inv st \<longleftrightarrow> distinct (map la_id (lo_accounts st)) \<and> distinct (map la_customer (lo_accounts st))
     \<and> (\<forall>a\<in>set (lo_accounts st). 0 \<le> la_points a \<and> 0 \<le> la_lifetime a \<and> points_ledger st (la_id a) \<le> la_points a)
     \<and> (\<forall>t\<in>set (lo_txns st). lx_account t \<in> la_id ` set (lo_accounts st) \<and> (lx_type t = ''earn'' \<longrightarrow> 0 < lx_points t))
     \<and> (\<forall>i sale kind. kind \<in> {''earn'', ''redeem''} \<longrightarrow> length (filter (sale_txn i sale kind) (lo_txns st)) \<le> 1)
     \<and> (\<forall>sale. reversed_for st sale \<le> earned_for st sale)
     \<and> (\<forall>a\<in>set (lo_accounts st). \<forall>c\<in>set (lo_customers st). cu_id c = la_customer a \<longrightarrow> cu_loyalty_points c = la_points a)
     \<and> (\<forall>c\<in>set (lo_customers st). cu_id c \<notin> la_customer ` set (lo_accounts st) \<longrightarrow> cu_loyalty_points c = 0)
     \<and> la_customer ` set (lo_accounts st) \<subseteq> cu_id ` set (lo_customers st)"

lemma insert_loyalty_txn_Inr:
  assumes "insert_loyalty_txn t st = Inr st'"
  shows "st' = st\<lparr>lo_txns := lo_txns st @ [t]\<rparr>" "lx_account t \<in> la_id ` set (lo_accounts st)"
    "kind \<in> {''earn'', ''redeem''} \<Longrightarrow> sale_txn i sale kind t \<Longrightarrow> filter (sale_txn i sale kind) (lo_txns st) = []"
proof -
  have ok: "lx_account t \<in> la_id ` set (lo_accounts st) \<and> st' = st\<lparr>lo_txns := lo_txns st @ [t]\<rparr>
    \<and> (\<forall>s. lx_sale t = Some s \<longrightarrow> lx_type t \<in> {''earn'', ''redeem''} \<longrightarrow> \<not> list_ex (sale_txn (lx_account t) s (lx_type t)) (lo_txns st))"
    using assms unfolding insert_loyalty_txn_def by (auto split: if_splits option.splits)
  then show "st' = st\<lparr>lo_txns := lo_txns st @ [t]\<rparr>" "lx_account t \<in> la_id ` set (lo_accounts st)" by blast+
  assume "kind \<in> {''earn'', ''redeem''}" "sale_txn i sale kind t"
  then show "filter (sale_txn i sale kind) (lo_txns st) = []"
    using ok unfolding sale_txn_def by (auto simp: filter_empty_conv list_ex_iff sale_txn_def)
qed

lemma find_the_one: "y \<in> set xs \<Longrightarrow> P y \<Longrightarrow> (\<And>x. x \<in> set xs \<Longrightarrow> P x \<Longrightarrow> x = y) \<Longrightarrow> List.find P xs = Some y"
proof (induction xs)
  case (Cons a xs)
  have a: "P a \<Longrightarrow> a = y" by (rule Cons.prems(3)) simp_all
  show ?case
  proof (cases "P a")
    case False
    then have "y \<in> set xs" using Cons.prems(1,2) by auto
    moreover have "\<And>x. x \<in> set xs \<Longrightarrow> P x \<Longrightarrow> x = y" by (rule Cons.prems(3)) simp_all
    ultimately show ?thesis using False Cons.IH [OF _ Cons.prems(2)] by simp
  qed (use a in simp)
qed simp

text \<open>A transaction is inserted and the balance of its account moves with it.\<close>

lemma write_inv:
  assumes inv: "loyalty_inv st" and ins: "insert_loyalty_txn t st = Inr st1"
    and b: "b \<in> set (lo_accounts st)" "lx_account t = la_id b"
    and f: "\<And>x. la_id (f x) = la_id x" "\<And>x. la_customer (f x) = la_customer x"
      "0 \<le> la_points (f b)" "0 \<le> la_lifetime (f b)" "la_points b + lx_points t \<le> la_points (f b)"
    and t: "lx_type t = ''earn'' \<Longrightarrow> 0 < lx_points t"
      "\<And>sale. lx_type t = ''refund_reversal'' \<Longrightarrow> lx_sale t = Some sale \<Longrightarrow> reversed_for st sale - lx_points t \<le> earned_for st sale"
    and st2: "st2 = st1\<lparr>lo_accounts := map (\<lambda>x. if la_id x = la_id b then f x else x) (lo_accounts st)\<rparr>"
    and P: "P (f b)" "\<And>x. x \<in> set (lo_accounts st) \<Longrightarrow> la_id x \<noteq> la_id b \<Longrightarrow> \<not> P x"
  shows "loyalty_inv (project_points now P st2)"
proof -
  let ?as = "map (\<lambda>x. if la_id x = la_id b then f x else x) (lo_accounts st)"
  let ?s = "project_points now P st2"
  have d: "distinct (map la_id (lo_accounts st))" "distinct (map la_customer (lo_accounts st))"
    using inv by (auto simp: loyalty_inv_def)
  have uniq: "x \<in> set (lo_accounts st) \<Longrightarrow> la_id x = la_id b \<Longrightarrow> x = b" for x
    using d(1) b(1) by (auto simp: distinct_map inj_on_def)
  have uniqc: "x \<in> set (lo_accounts st) \<Longrightarrow> la_customer x = la_customer b \<Longrightarrow> x = b" for x
    using d(2) b(1) by (auto simp: distinct_map inj_on_def)
  note st1 = insert_loyalty_txn_Inr [OF ins]
  have "List.find P ?as = Some (f b)"
    by (rule find_the_one) (use b(1) uniq P f(1) in \<open>auto split: if_splits\<close>)
  then have s: "lo_accounts ?s = ?as" "lo_txns ?s = lo_txns st @ [t]"
      "lo_customers ?s = map (\<lambda>c. if cu_id c = la_customer b
         then c\<lparr>cu_loyalty_points := la_points (f b), cu_updated_at := now\<rparr> else c) (lo_customers st)"
    by (simp_all add: project_points_def st2 st1(1) f(2))
  have ids: "map la_id ?as = map la_id (lo_accounts st)" "map la_customer ?as = map la_customer (lo_accounts st)"
    by (simp_all add: comp_def f if_distrib cong: if_cong)
  have keys: "la_id ` set ?as = la_id ` set (lo_accounts st)" "la_customer ` set ?as = la_customer ` set (lo_accounts st)"
    using ids by (metis list.set_map)+
  have as: "0 \<le> la_points x \<and> 0 \<le> la_lifetime x \<and> points_ledger ?s (la_id x) \<le> la_points x" if x: "x \<in> set ?as" for x
  proof -
    obtain z where z: "z \<in> set (lo_accounts st)" "x = (if la_id z = la_id b then f z else z)"
      using x unfolding set_map by blast
    have led: "points_ledger ?s i = points_ledger st i + (if la_id b = i then lx_points t else 0)" for i
      by (simp add: points_ledger_def s b(2))
    have old: "0 \<le> la_points z \<and> 0 \<le> la_lifetime z \<and> points_ledger st (la_id z) \<le> la_points z"
      using inv z(1) by (simp add: loyalty_inv_def)
    show ?thesis
    proof (cases "la_id z = la_id b")
      case True
      then have "z = b" using uniq z(1) by blast
      then show ?thesis using old f z(2) by (simp add: led)
    qed (use old z(2) in \<open>simp add: led\<close>)
  qed
  have ts: "lx_account u \<in> la_id ` set (lo_accounts st) \<and> (lx_type u = ''earn'' \<longrightarrow> 0 < lx_points u)" if "u \<in> set (lo_txns ?s)" for u
    using inv that t(1) st1(2) by (auto simp: s loyalty_inv_def)
  have once: "length (filter (sale_txn i sale kind) (lo_txns ?s)) \<le> 1" if "kind \<in> {''earn'', ''redeem''}" for i sale kind
    using inv st1(3) [OF that, of i sale] that by (auto simp: s loyalty_inv_def)
  have rev: "reversed_for ?s sale \<le> earned_for ?s sale" for sale
  proof -
    have "reversed_for st sale \<le> earned_for st sale" using inv by (simp add: loyalty_inv_def)
    then show ?thesis using t(1) t(2) [of sale] by (auto simp: reversed_for_def earned_for_def s)
  qed
  have proj: "cu_loyalty_points c = la_points x"
    if x: "x \<in> set ?as" and mem: "c \<in> set (lo_customers ?s)" and own: "cu_id c = la_customer x" for x c
  proof -
    obtain z where z: "z \<in> set (lo_accounts st)" "x = (if la_id z = la_id b then f z else z)"
      using x unfolding set_map by blast
    obtain c0 where c: "c0 \<in> set (lo_customers st)" "c = (if cu_id c0 = la_customer b
         then c0\<lparr>cu_loyalty_points := la_points (f b), cu_updated_at := now\<rparr> else c0)"
      using mem unfolding s set_map by blast
    have cu: "cu_id c0 = la_customer z" using own z(2) c(2) by (auto simp: f split: if_splits)
    show ?thesis
    proof (cases "z = b")
      case False
      then have "la_id z \<noteq> la_id b" "la_customer z \<noteq> la_customer b" using uniq uniqc z(1) by blast+
      then show ?thesis using inv z c cu by (auto simp: loyalty_inv_def)
    qed (use z c cu in simp)
  qed
  have none: "cu_loyalty_points c = 0" if "c \<in> set (lo_customers ?s)" "cu_id c \<notin> la_customer ` set (lo_accounts st)" for c
    using inv that b(1) by (auto simp: s loyalty_inv_def split: if_splits)
  have cus: "la_customer ` set (lo_accounts st) \<subseteq> cu_id ` set (lo_customers ?s)"
  proof -
    have "cu_id ` set (lo_customers ?s) = cu_id ` set (lo_customers st)"
      unfolding s set_map image_image by (rule image_cong) simp_all
    then show ?thesis using inv by (simp add: loyalty_inv_def)
  qed
  show ?thesis
    unfolding loyalty_inv_def s(1) ids keys
    by (intro conjI ballI allI impI; (rule cus d once rev none proj as [THEN conjunct1] as [THEN conjunct2, THEN conjunct1]
      as [THEN conjunct2, THEN conjunct2] ts [THEN conjunct1] ts [THEN conjunct2, rule_format]; assumption)?)
qed

lemma raw_account_in:
  "get_loyalty_account_raw st c = Some a \<Longrightarrow> a \<in> set (lo_accounts st) \<and> la_customer a = c"
  by (auto simp: get_loyalty_account_raw_def find_Some_iff)

lemma same_customer:
  "loyalty_inv st \<Longrightarrow> x \<in> set (lo_accounts st) \<Longrightarrow> b \<in> set (lo_accounts st) \<Longrightarrow>
     la_id x = la_id b \<longleftrightarrow> la_customer x = la_customer b"
  by (auto simp: loyalty_inv_def distinct_map inj_on_def)

lemma insert_account_inv:
  assumes "insert_or_ignore_account i customer now st = Inr st'" and inv: "loyalty_inv st"
  shows "loyalty_inv st' \<and> lo_txns st' = lo_txns st \<and> lo_sales st' = lo_sales st \<and> lo_customers st' = lo_customers st
    \<and> set (lo_accounts st) \<subseteq> set (lo_accounts st')"
proof (cases "st' = st")
  case False
  then have new: "i \<notin> la_id ` set (lo_accounts st)" "customer \<notin> la_customer ` set (lo_accounts st)"
      "customer \<in> cu_id ` set (lo_customers st)"
      "st' = st\<lparr>lo_accounts := lo_accounts st @ [\<lparr>la_id = i, la_customer = customer, la_points = 0,
             la_lifetime = 0, la_tier = Some ''tier-bronze'', la_updated_at = now, la_created_at = now\<rparr>]\<rparr>"
    using assms(1) by (auto simp: insert_or_ignore_account_def split: if_splits)
  have "lx_account t \<noteq> i" if "t \<in> set (lo_txns st)" for t
    using inv new(1) that by (auto simp: loyalty_inv_def)
  then have none: "filter (\<lambda>t. lx_account t = i) (lo_txns st) = []" by (auto simp: filter_empty_conv)
  have "points_ledger st' = points_ledger st" "reversed_for st' = reversed_for st" "earned_for st' = earned_for st"
    by (simp_all add: fun_eq_iff new(4) points_ledger_def reversed_for_def earned_for_def)
  moreover have "points_ledger st i = 0" by (simp add: points_ledger_def none)
  ultimately show ?thesis using inv new(1-3) unfolding loyalty_inv_def
    by (auto simp: new(4))
qed (use inv in simp)

lemma earn_cases:
  assumes "earn_points_with_conn x customer sale total_minor st = Inr (r, st')"
  obtains st1 a where "insert_or_ignore_account (ly_account_id x) customer (ly_now x) st = Inr st1" "st' = st1"
      "get_loyalty_account_raw st1 customer = Some a" "r = None \<or> fetch_earn_txn st1 (la_id a) sale = r"
  | st1 a t st2 where "insert_or_ignore_account (ly_account_id x) customer (ly_now x) st = Inr st1"
      "get_loyalty_account_raw st1 customer = Some a" "insert_loyalty_txn t st1 = Inr st2"
      "lx_account t = la_id a" "0 < lx_points t" "lx_type t = ''earn''" "lx_sale t = Some sale" "r = Some t"
      "st' = project_points (ly_now x) (\<lambda>b. la_customer b = customer)
         (st2\<lparr>lo_accounts := map (\<lambda>b. if la_id b = la_id a then earn_row (ly_now x) st2 (lx_points t) b else b) (lo_accounts st1)\<rparr>)"
      "fetch_earn_txn st1 (la_id a) sale = None"
proof -
  obtain st1 where 1: "insert_or_ignore_account (ly_account_id x) customer (ly_now x) st = Inr st1"
    using assms by (auto simp: earn_points_with_conn_def split: if_splits sum.splits)
  obtain a where a: "get_loyalty_account_raw st1 customer = Some a"
    using assms 1 by (auto simp: earn_points_with_conn_def split: if_splits option.splits)
  let ?p = "award_points st1 a total_minor"
  let ?t = "earn_txn x (la_id a) sale ?p"
  have t: "lx_account ?t = la_id a" "lx_points ?t = ?p" "lx_type ?t = ''earn''" "lx_sale ?t = Some sale"
    by (simp_all add: earn_txn_def)
  show ?thesis
  proof (cases "fetch_earn_txn st1 (la_id a) sale")
    case (Some w)
    then have "st' = st1" "r = Some w" using assms 1 a by (auto simp: earn_points_with_conn_def split: if_splits)
    then show ?thesis using that(1) [OF 1 _ a] Some by simp
  next
    case None
    show ?thesis
    proof (cases "0 < ?p")
      case False
      then have "st' = st1" "r = None"
        using assms 1 a None by (auto simp: earn_points_with_conn_def Let_def split: if_splits)
      then show ?thesis using that(1) [OF 1 _ a] by simp
    next
      case True
      then obtain st2 where 2: "insert_loyalty_txn ?t st1 = Inr st2" "r = Some ?t"
          and st': "st' = project_points (ly_now x) (\<lambda>b. la_customer b = customer)
            (snd (update_account (\<lambda>b. la_id b = la_id a) (earn_row (ly_now x) st2 ?p) st2))"
        using assms 1 a None by (auto simp: earn_points_with_conn_def Let_def split: if_splits sum.splits)
      have acc: "lo_accounts st2 = lo_accounts st1" by (simp add: insert_loyalty_txn_Inr(1) [OF 2(1)])
      show ?thesis
        by (rule that(2) [OF 1 a 2(1) t(1) _ t(3,4) 2(2) _ None])
          (use True st' in \<open>simp_all add: t(2) acc update_account_def cong: if_cong\<close>)
    qed
  qed
qed

lemma earn_inv:
  assumes e: "earn_points_with_conn x customer sale total_minor st = Inr (r, st')" and inv: "loyalty_inv st"
  shows "loyalty_inv st'"
  using e
proof (cases rule: earn_cases)
  case (1 st1 a)
  then show ?thesis using insert_account_inv [OF _ inv] by blast
next
  case (2 st1 a t st2)
  have inv1: "loyalty_inv st1" using insert_account_inv [OF 2(1) inv] by blast
  have a: "a \<in> set (lo_accounts st1)" "la_customer a = customer" using raw_account_in [OF 2(2)] by blast+
  have bal: "0 \<le> la_points a" "0 \<le> la_lifetime a" using inv1 a(1) by (auto simp: loyalty_inv_def)
  show ?thesis unfolding 2(9)
  proof (rule write_inv [OF inv1 2(3) a(1) 2(4)])
    show "la_customer (earn_row (ly_now x) st2 (lx_points t) a) = customer" using a(2) by (simp add: earn_row_def)
    show "la_customer b \<noteq> customer" if "b \<in> set (lo_accounts st1)" "la_id b \<noteq> la_id a" for b
      using same_customer [OF inv1 that(1) a(1)] that(2) a(2) by simp
  qed (use bal 2(5,6) in \<open>simp_all add: earn_row_def\<close>)
qed

lemma filter_one_holds:
  "distinct (map k xs) \<Longrightarrow> length (filter (\<lambda>x. k x = i \<and> P x) xs) = 1 \<Longrightarrow> b \<in> set xs \<Longrightarrow> k b = i \<Longrightarrow> P b"
proof -
  assume d: "distinct (map k xs)" and one: "length (filter (\<lambda>x. k x = i \<and> P x) xs) = 1" and b: "b \<in> set xs" "k b = i"
  obtain c where "filter (\<lambda>x. k x = i \<and> P x) xs = [c]" using one by (auto simp: length_Suc_conv)
  then have "c \<in> set (filter (\<lambda>x. k x = i \<and> P x) xs)" by simp
  then have "c \<in> set xs" "k c = i" "P c" by auto
  then show "P b" using d b by (metis distinct_map inj_onD)
qed

lemma map_unique_cong:
  "distinct (map k xs) \<Longrightarrow> b \<in> set xs \<Longrightarrow> P b \<Longrightarrow>
     map (\<lambda>x. if k x = k b \<and> P x then f x else x) xs = map (\<lambda>x. if k x = k b then f x else x) xs"
  by (rule map_cong) (auto simp: distinct_map inj_on_def)

lemma redeem_commit_cases:
  assumes "redeem_points_commit x customer points sale a discount cur st = Inr (r, st')"
    and inv: "loyalty_inv st" and b: "b \<in> set (lo_accounts st)" "la_id b = la_id a"
  obtains w where "st' = st" "get_loyalty_transaction_for_sale st (la_id a) sale ''redeem'' = Some w"
  | t st1 where "insert_loyalty_txn t st = Inr st1" "lx_account t = la_id b" "lx_points t = - points" "lx_type t = ''redeem''"
      "lx_sale t = Some sale" "r = (t, discount)" "points \<le> la_points b"
      "st' = project_points (ly_now x) (\<lambda>b. la_customer b = customer)
         (st1\<lparr>lo_accounts := map (\<lambda>c. if la_id c = la_id b
            then c\<lparr>la_points := la_points c - points, la_updated_at := ly_now x\<rparr> else c) (lo_accounts st)\<rparr>)"
proof -
  let ?t = "\<lparr>lx_id = ly_txn_id x, lx_account = la_id a, lx_sale = Some sale, lx_points = - points,
            lx_type = ''redeem'', lx_description = ''Redeemed '' @ show_int points @ '' points for ''
              @ format_minor discount (loyalty_currency cur) @ '' discount'', lx_created_at = ly_now x\<rparr>"
  let ?f = "\<lambda>b. b\<lparr>la_points := la_points b - points, la_updated_at := ly_now x\<rparr>"
  let ?P = "\<lambda>b. la_id b = la_id a \<and> la_points b \<ge> points"
  have d: "distinct (map la_id (lo_accounts st))" using inv by (simp add: loyalty_inv_def)
  show ?thesis
  proof (cases "insert_loyalty_txn ?t st")
    case (Inl e)
    then show ?thesis using assms(1) that(1)
      by (simp add: redeem_points_commit_def del: append_Cons split: option.splits)
  next
    case (Inr st1)
    have acc: "lo_accounts st1 = lo_accounts st" by (simp add: insert_loyalty_txn_Inr(1) [OF Inr])
    have upd: "update_account ?P ?f st1 = (length (filter ?P (lo_accounts st)),
        st1\<lparr>lo_accounts := map (\<lambda>b. if ?P b then ?f b else b) (lo_accounts st)\<rparr>)"
      by (simp add: update_account_def acc)
    have one: "length (filter ?P (lo_accounts st)) = 1" "r = (?t, discount)"
        "st' = project_points (ly_now x) (\<lambda>b. la_customer b = customer)
          (st1\<lparr>lo_accounts := map (\<lambda>b. if ?P b then ?f b else b) (lo_accounts st)\<rparr>)"
      using assms(1) unfolding redeem_points_commit_def Let_def Inr
      by (auto simp: upd split: if_splits)
    have p: "points \<le> la_points b" using filter_one_holds [OF d one(1) b] .
    have "st' = project_points (ly_now x) (\<lambda>b. la_customer b = customer)
         (st1\<lparr>lo_accounts := map (\<lambda>c. if la_id c = la_id b then ?f c else c) (lo_accounts st)\<rparr>)"
      unfolding one(3) b(2) [symmetric] map_unique_cong [OF d b(1), of "\<lambda>b. points \<le> la_points b" ?f, OF p] ..
    then show ?thesis by (intro that(2) [OF Inr _ _ _ _ one(2) p]) (simp_all add: b(2))
  qed
qed

lemma redeem_commit_loyalty_inv:
  assumes r: "redeem_points_commit x customer points sale a discount cur st = Inr (r, st')"
    and inv: "loyalty_inv st" and p: "0 < points"
    and b: "b \<in> set (lo_accounts st)" "la_id b = la_id a" "la_customer b = customer"
  shows "loyalty_inv st'"
  using r inv b(1,2)
proof (cases rule: redeem_commit_cases)
  case (2 t st1)
  have bal: "0 \<le> la_lifetime b" using inv b(1) by (simp add: loyalty_inv_def)
  show ?thesis unfolding 2(8)
  proof (rule write_inv [OF inv 2(1) b(1) 2(2), where f = "\<lambda>c. c\<lparr>la_points := la_points c - points, la_updated_at := ly_now x\<rparr>"])
    show "la_customer c \<noteq> customer" if "c \<in> set (lo_accounts st)" "la_id c \<noteq> la_id b" for c
      using same_customer [OF inv that(1) b(1)] that(2) b(3) by simp
  qed (use bal 2(3,4,7) b(3) in simp_all)
qed (use inv in simp)

lemma award_of_in:
  "award_of st sale = Some t \<Longrightarrow> t \<in> set (lo_txns st) \<and> lx_sale t = Some sale \<and> lx_type t = ''earn''"
proof -
  assume a: "award_of st sale = Some t"
  let ?ts = "filter (\<lambda>t. lx_sale t = Some sale \<and> lx_type t = ''earn'') (lo_txns st)"
  have "t \<in> set (sort_key lx_created_at ?ts)"
    using a unfolding award_of_def by (cases "sort_key lx_created_at ?ts") (simp_all del: set_sort)
  then show ?thesis by auto
qed

lemma award_le_earned:
  assumes "loyalty_inv st" and "award_of st sale = Some t"
  shows "lx_points t \<le> earned_for st sale" "lx_account t \<in> la_id ` set (lo_accounts st)"
proof -
  have t: "t \<in> set (filter (\<lambda>t. lx_sale t = Some sale \<and> lx_type t = ''earn'') (lo_txns st))"
    using award_of_in [OF assms(2)] by simp
  have "\<forall>u\<in>set (lo_txns st). lx_type u = ''earn'' \<longrightarrow> 0 < lx_points u" using assms(1) by (simp add: loyalty_inv_def)
  then show "lx_points t \<le> earned_for st sale" unfolding earned_for_def
    by (intro member_le_sum_list) (use t in \<open>auto intro: less_imp_le\<close>)
  show "lx_account t \<in> la_id ` set (lo_accounts st)" using assms(1) t by (simp add: loyalty_inv_def)
qed

lemma reverse_cases:
  assumes "reverse_loyalty_on_refund now sale rf refund_minor total_minor st = (r, st')"
  obtains "st' = st" "r = None"
  | earn deduct t st1 where "award_of st sale = Some earn" "0 < deduct"
      "deduct = min (proportional_points (lx_points earn) refund_minor total_minor) (lx_points earn - reversed_for st sale)"
      "insert_loyalty_txn t st = Inr st1" "lx_account t = lx_account earn" "lx_points t = - deduct"
      "lx_type t = ''refund_reversal''" "lx_sale t = Some sale" "r = Some t"
      "st' = project_points now (\<lambda>b. la_id b = lx_account earn) (st1\<lparr>lo_accounts := map (\<lambda>b. if la_id b = lx_account earn
         then b\<lparr>la_points := max (la_points b - deduct) 0, la_lifetime := max (la_lifetime b - deduct) 0,
                la_tier := (case tier_at st1 (max (la_lifetime b - deduct) 0) of None \<Rightarrow> la_tier b | Some i \<Rightarrow> Some i),
                la_updated_at := now\<rparr> else b) (lo_accounts st)\<rparr>)"
proof (cases "award_of st sale")
  case None
  then show ?thesis using assms that(1) by (simp add: reverse_loyalty_on_refund_def)
next
  case (Some earn)
  let ?m = "min (proportional_points (lx_points earn) refund_minor total_minor) (lx_points earn - reversed_for st sale)"
  let ?t = "\<lparr>lx_id = ''loyalty-reversal-'' @ rf, lx_account = lx_account earn, lx_sale = Some sale, lx_points = - ?m,
        lx_type = ''refund_reversal'', lx_description = ''Reversed '' @ show_int ?m @ '' points for refund on sale'',
        lx_created_at = now\<rparr>"
  show ?thesis
  proof (cases "0 < ?m")
    case True
    then have m: "max 0 ?m = ?m" by simp
    note def = assms [unfolded reverse_loyalty_on_refund_def Some option.case Let_def m]
    show ?thesis
    proof (cases "insert_loyalty_txn ?t st")
      case (Inl e)
      then show ?thesis using def that(1) True by (simp del: append_Cons)
    next
      case (Inr st1)
      have acc: "lo_accounts st1 = lo_accounts st" by (simp add: insert_loyalty_txn_Inr(1) [OF Inr])
      show ?thesis
        by (rule that(2) [OF Some True refl Inr])
          (use def True in \<open>simp_all add: Inr update_account_def acc not_le [symmetric] del: append_Cons\<close>)
    qed
  next
    case False
    then have m: "max 0 ?m = 0" by (rule max_absorb1 [OF leI])
    show ?thesis using assms [unfolded reverse_loyalty_on_refund_def Some option.case Let_def m] that(1) by simp
  qed
qed

lemma reverse_inv:
  assumes "reverse_loyalty_on_refund now sale rf refund_minor total_minor st = (r, st')" and inv: "loyalty_inv st"
  shows "loyalty_inv st'"
  using assms(1)
proof (cases rule: reverse_cases)
  case (2 earn deduct t st1)
  obtain b where b: "b \<in> set (lo_accounts st)" "la_id b = lx_account earn"
    using award_le_earned(2) [OF inv 2(1)] by auto
  have bal: "0 \<le> la_points b" "0 \<le> la_lifetime b" using inv b(1) by (auto simp: loyalty_inv_def)
  let ?f = "\<lambda>c. c\<lparr>la_points := max (la_points c - deduct) 0, la_lifetime := max (la_lifetime c - deduct) 0,
                la_tier := (case tier_at st1 (max (la_lifetime c - deduct) 0) of None \<Rightarrow> la_tier c | Some i \<Rightarrow> Some i),
                la_updated_at := now\<rparr>"
  show ?thesis unfolding 2(10)
  proof (rule write_inv [OF inv 2(4) b(1), where f = ?f])
    show "reversed_for st s - lx_points t \<le> earned_for st s" if "lx_sale t = Some s" for s
      using that 2(3,6,8) award_le_earned(1) [OF inv 2(1)] by auto
  qed (use b bal 2(2,5,6,7) in simp_all)
qed (use inv in simp)

subsection \<open>The loyalty machine\<close>

text \<open>
  The state is the tables and the redemptions whose checks have passed and whose transactions have
  not started. Customers, sales and tiers come from elsewhere; a new customer has no points.
\<close>

record pending_redemption =
  pr_customer :: string
  pr_points :: int
  pr_sale :: string
  pr_account :: loyalty_account
  pr_discount :: int
  pr_currency :: string

datatype loyalty_event =
    Customer_Added string string
  | Sale_Added sale_row
  | Sale_Updated string "sale_row \<Rightarrow> sale_row"
  | Tier_Added loyalty_tier
  | Tier_Updated string string int int int string
  | Account_Asked string string string
  | Points_Earned loyalty_args string string int
  | Redemption_Checked string int string
  | Redemption_Committed loyalty_args nat
  | Sale_Refunded string string string int int

definition loyalty_commit :: "loyalty_args \<Rightarrow> pending_redemption \<Rightarrow> loyalty_store
    \<Rightarrow> core_error + (loyalty_transaction \<times> int) \<times> loyalty_store" where
  "loyalty_commit x p st = redeem_points_commit x (pr_customer p) (pr_points p) (pr_sale p) (pr_account p)
     (pr_discount p) (pr_currency p) st"

definition keep_loyalty :: "loyalty_store \<Rightarrow> core_error + 'a \<times> loyalty_store \<Rightarrow> loyalty_store" where
  "keep_loyalty st res = (case res of Inl _ \<Rightarrow> st | Inr (_, st') \<Rightarrow> st')"

fun loyalty_step :: "loyalty_event \<Rightarrow> loyalty_store \<times> pending_redemption list \<Rightarrow> loyalty_store \<times> pending_redemption list" where
  "loyalty_step (Customer_Added c now) (st, ps) =
     (if c \<in> cu_id ` set (lo_customers st) then st
      else st\<lparr>lo_customers := lo_customers st @ [\<lparr>cu_id = c, cu_loyalty_points = 0, cu_total_spent = 0, cu_updated_at = now\<rparr>]\<rparr>, ps)"
| "loyalty_step (Sale_Added s) (st, ps) = (st\<lparr>lo_sales := lo_sales st @ [s]\<rparr>, ps)"
| "loyalty_step (Sale_Updated i f) (st, ps) =
     (st\<lparr>lo_sales := map (\<lambda>s. if so_id s = i then (f s)\<lparr>so_id := i\<rparr> else s) (lo_sales st)\<rparr>, ps)"
| "loyalty_step (Tier_Added t) (st, ps) = (st\<lparr>lo_tiers := lo_tiers st @ [t]\<rparr>, ps)"
| "loyalty_step (Tier_Updated i n m u e c) (st, ps) = (keep_loyalty st (update_tier i n m u e c st), ps)"
| "loyalty_step (Account_Asked i now c) (st, ps) = (keep_loyalty st (get_or_create_loyalty_account i now c st), ps)"
| "loyalty_step (Points_Earned x c s t) (st, ps) = (keep_loyalty st (earn_points x c s t st), ps)"
| "loyalty_step (Redemption_Checked c n s) (st, ps) =
     (st, case redeem_points_check c n s st of
        Inr (Inr (a, d, cur)) \<Rightarrow> ps @ [\<lparr>pr_customer = c, pr_points = n, pr_sale = s, pr_account = a,
             pr_discount = d, pr_currency = cur\<rparr>]
      | _ \<Rightarrow> ps)"
| "loyalty_step (Redemption_Committed x i) (st, ps) =
     (if i < length ps then keep_loyalty st (loyalty_commit x (ps ! i) st) else st, ps)"
| "loyalty_step (Sale_Refunded now s rf t total_minor) (st, ps) =
     (snd (reverse_loyalty_on_refund now s rf t total_minor st), ps)"

definition pending_ok :: "loyalty_store \<Rightarrow> pending_redemption \<Rightarrow> bool" where
  "pending_ok st p \<longleftrightarrow> 0 < pr_points p
     \<and> (\<exists>b\<in>set (lo_accounts st). la_id b = la_id (pr_account p) \<and> la_customer b = pr_customer p)"

definition loyalty_machine_inv :: "loyalty_store \<times> pending_redemption list \<Rightarrow> bool" where
  "loyalty_machine_inv s \<longleftrightarrow> loyalty_inv (fst s) \<and> list_all (pending_ok (fst s)) (snd s)"

text \<open>No operation removes an account or hands it to another customer.\<close>

definition owners :: "loyalty_store \<Rightarrow> (string \<times> string) set" where
  "owners st = (\<lambda>a. (la_id a, la_customer a)) ` set (lo_accounts st)"

lemma pending_ok_owners: "pending_ok st p \<longleftrightarrow> 0 < pr_points p \<and> (la_id (pr_account p), pr_customer p) \<in> owners st"
  by (auto simp: pending_ok_def owners_def image_iff Bex_def)

lemma pending_mono: "owners st \<subseteq> owners st' \<Longrightarrow> list_all (pending_ok st) ps \<Longrightarrow> list_all (pending_ok st') ps"
  by (auto simp: list_all_iff pending_ok_owners)

lemma project_accounts [simp]: "lo_accounts (project_points now P st) = lo_accounts st"
  by (simp add: project_points_def split: option.split)

lemma owners_map:
  "(\<And>x. la_id (f x) = la_id x \<and> la_customer (f x) = la_customer x) \<Longrightarrow>
     (\<lambda>a. (la_id a, la_customer a)) ` set (map (\<lambda>x. if P x then f x else x) as) = (\<lambda>a. (la_id a, la_customer a)) ` set as"
  unfolding set_map image_image by (rule image_cong) auto

lemma owners_project_map:
  assumes "\<And>x. la_id (f x) = la_id x \<and> la_customer (f x) = la_customer x"
  shows "owners (project_points now Q (st\<lparr>lo_accounts := map (\<lambda>x. if P x then f x else x) (lo_accounts st0)\<rparr>)) = owners st0"
  unfolding owners_def project_accounts using owners_map [of f P "lo_accounts st0", OF assms] by simp

lemma insert_account_owners:
  "insert_or_ignore_account i customer now st = Inr st' \<Longrightarrow> owners st \<subseteq> owners st'"
  by (auto simp: insert_or_ignore_account_def owners_def split: if_splits)

lemma earn_owners: "earn_points_with_conn x customer sale total_minor st = Inr (r, st') \<Longrightarrow> owners st \<subseteq> owners st'"
proof (erule earn_cases)
  fix st1 a t st2
  assume "insert_or_ignore_account (ly_account_id x) customer (ly_now x) st = Inr st1"
    and "st' = project_points (ly_now x) (\<lambda>b. la_customer b = customer)
         (st2\<lparr>lo_accounts := map (\<lambda>b. if la_id b = la_id a then earn_row (ly_now x) st2 (lx_points t) b else b) (lo_accounts st1)\<rparr>)"
  then show "owners st \<subseteq> owners st'"
    using insert_account_owners owners_project_map [of "earn_row (ly_now x) st2 (lx_points t)"] by (simp add: earn_row_def)
qed (use insert_account_owners in blast)

lemma redeem_owners:
  assumes "redeem_points_commit x customer points sale a discount cur st = Inr (r, st')"
    and "loyalty_inv st" and "b \<in> set (lo_accounts st)" "la_id b = la_id a"
  shows "owners st \<subseteq> owners st'"
  using assms
  by (cases rule: redeem_commit_cases) (simp_all add: owners_project_map)

lemma reverse_owners: "reverse_loyalty_on_refund now sale rf refund_minor total_minor st = (r, st') \<Longrightarrow> owners st \<subseteq> owners st'"
  by (erule reverse_cases) (simp_all add: owners_project_map)

lemma loyalty_inv_cong:
  "loyalty_inv st \<Longrightarrow> lo_accounts st' = lo_accounts st \<Longrightarrow> lo_txns st' = lo_txns st \<Longrightarrow> lo_customers st' = lo_customers st
     \<Longrightarrow> loyalty_inv st'"
  by (simp add: loyalty_inv_def points_ledger_def reversed_for_def earned_for_def)

lemma loyalty_inv_customer:
  assumes "loyalty_inv st" and "c \<notin> cu_id ` set (lo_customers st)"
  shows "loyalty_inv (st\<lparr>lo_customers := lo_customers st @ [\<lparr>cu_id = c, cu_loyalty_points = 0, cu_total_spent = n, cu_updated_at = now\<rparr>]\<rparr>)"
  using assms unfolding loyalty_inv_def
  by (auto simp: points_ledger_def reversed_for_def earned_for_def)

lemma keep_loyalty_rule:
  "(\<And>r st'. res = Inr (r, st') \<Longrightarrow> Q st') \<Longrightarrow> Q st \<Longrightarrow> Q (keep_loyalty st res)"
  by (simp add: keep_loyalty_def split: sum.split prod.split)

lemma redeem_check_ok:
  assumes "redeem_points_check c n s st = Inr (Inr (a, d, cur))"
  shows "0 < n \<and> a \<in> set (lo_accounts st) \<and> la_customer a = c"
  using assms raw_account_in [of st c]
  by (auto simp: redeem_points_check_def split: option.splits if_splits)

lemma pending_checked:
  assumes "list_all (pending_ok st) ps"
  shows "list_all (pending_ok st) (snd (loyalty_step (Redemption_Checked c n s) (st, ps)))"
proof (cases "\<exists>a d cur. redeem_points_check c n s st = Inr (Inr (a, d, cur))")
  case True
  then obtain a d cur where "redeem_points_check c n s st = Inr (Inr (a, d, cur))" by blast
  then show ?thesis using redeem_check_ok assms by (force simp: pending_ok_def)
next
  case False
  then show ?thesis using assms by (auto split: sum.split)
qed

lemma committed_inv:
  assumes "loyalty_inv st" and "pending_ok st p" and "loyalty_commit x p st = Inr (r, st')"
  shows "loyalty_inv st' \<and> owners st \<subseteq> owners st'"
proof -
  obtain b where b: "b \<in> set (lo_accounts st)" "la_id b = la_id (pr_account p)" "la_customer b = pr_customer p" "0 < pr_points p"
    using assms(2) by (auto simp: pending_ok_def)
  note c = assms(3) [unfolded loyalty_commit_def]
  show ?thesis
    using redeem_commit_loyalty_inv [OF c assms(1) b(4) b(1-3)] redeem_owners [OF c assms(1) b(1,2)] by blast
qed

lemma loyalty_store_step:
  assumes "loyalty_inv st" and "list_all (pending_ok st) ps" and "loyalty_step e (st, ps) = (st', ps')"
  shows "loyalty_inv st' \<and> owners st \<subseteq> owners st'"
proof (cases e)
  case (Customer_Added c now)
  then show ?thesis using assms loyalty_inv_customer by (auto simp: owners_def split: if_splits)
next
  case (Account_Asked i now c)
  have "loyalty_inv (keep_loyalty st (get_or_create_loyalty_account i now c st))
      \<and> owners st \<subseteq> owners (keep_loyalty st (get_or_create_loyalty_account i now c st))"
    by (rule keep_loyalty_rule)
      (use assms(1) insert_account_inv insert_account_owners in
        \<open>auto simp: get_or_create_loyalty_account_def split: if_splits sum.splits option.splits\<close>)
  then show ?thesis using assms(3) Account_Asked by auto
next
  case (Points_Earned x c s t)
  have "loyalty_inv (keep_loyalty st (earn_points x c s t st)) \<and> owners st \<subseteq> owners (keep_loyalty st (earn_points x c s t st))"
    by (rule keep_loyalty_rule)
      (use assms(1) earn_inv earn_owners [of x c s t st, THEN subsetD] in
        \<open>auto simp: earn_points_def split: sum.splits option.splits\<close>)
  then show ?thesis using assms(3) Points_Earned by auto
next
  case (Tier_Updated i n m u ee c)
  have "loyalty_inv (keep_loyalty st (update_tier i n m u ee c st)) \<and> owners st \<subseteq> owners (keep_loyalty st (update_tier i n m u ee c st))"
    by (rule keep_loyalty_rule)
      (use assms(1) loyalty_inv_cong in \<open>auto simp: update_tier_def Let_def owners_def split: sum.splits option.splits if_splits\<close>)
  then show ?thesis using assms(3) Tier_Updated by auto
next
  case (Redemption_Committed x i)
  then show ?thesis
    using assms committed_inv [of st "ps ! i" x] by (auto simp: keep_loyalty_def list_all_length split: if_splits sum.splits)
next
  case (Sale_Refunded now s rf t total_minor)
  then show ?thesis
    using assms reverse_inv reverse_owners by (metis fst_conv loyalty_step.simps(10) prod.collapse)
next
  case (Redemption_Checked c n s)
  then show ?thesis using assms by simp
qed (use assms in \<open>auto simp: owners_def intro: loyalty_inv_cong\<close>)

lemma loyalty_step_inv:
  assumes "loyalty_machine_inv s"
  shows "loyalty_machine_inv (loyalty_step e s)"
proof -
  obtain st ps st' ps' where s: "s = (st, ps)" "loyalty_step e (st, ps) = (st', ps')" by (metis prod.exhaust)
  have i: "loyalty_inv st" "list_all (pending_ok st) ps" using assms by (simp_all add: s loyalty_machine_inv_def)
  have "list_all (pending_ok st) ps'"
  proof (cases "\<exists>c n u. e = Redemption_Checked c n u")
    case True
    then show ?thesis using pending_checked [OF i(2)] s(2) by force
  next
    case False
    then have "ps' = ps" using s(2) by (cases e) (auto split: if_splits)
    then show ?thesis using i(2) by simp
  qed
  moreover have "loyalty_inv st'" "owners st \<subseteq> owners st'" using loyalty_store_step [OF i s(2)] by blast+
  ultimately show ?thesis by (simp add: s loyalty_machine_inv_def pending_mono)
qed

definition empty_loyalty :: loyalty_store where
  "empty_loyalty = \<lparr>lo_customers = [], lo_sales = [], lo_tiers = [], lo_accounts = [], lo_txns = []\<rparr>"

lemma empty_loyalty_inv: "loyalty_machine_inv (empty_loyalty, [])"
  by (simp add: loyalty_machine_inv_def loyalty_inv_def empty_loyalty_def reversed_for_def earned_for_def)

interpretation loyalty_machine: machine "(empty_loyalty, [])" loyalty_step loyalty_machine_inv
  by unfold_locales (rule empty_loyalty_inv, rule loyalty_step_inv)

text \<open>
  C20. Whatever customers, sales, awards, redemptions (whose checks may be stale when they commit),
  tier changes and refunds happen in whatever order: no balance is negative or behind its ledger,
  each account has at most one award and one redemption per sale, refunds never reverse more points
  of a sale than were awarded for it, and the customer rows show the balances.\<close>

theorem loyalty_history_invariant: "loyalty_inv (fst (run loyalty_step es (empty_loyalty, [])))"
  using loyalty_machine.inv_run [of es] by (simp add: loyalty_machine_inv_def)

subsection \<open>Rounding\<close>

lemma floor_sdiv:
  fixes a d :: int
  assumes "0 < d"
  shows "(if a smod d < 0 then (a sdiv d - 1, a smod d + d) else (a sdiv d, a smod d)) = (a div d, a mod d)"
proof (cases "0 \<le> a")
  case True
  then show ?thesis using assms by (simp add: sdiv_nonneg smod_nonneg not_less)
next
  case False
  define b where "b = - a"
  have b: "a = - b" "0 < b" using False by (simp_all add: b_def)
  have "b mod d \<noteq> 0 \<Longrightarrow> 0 < b mod d" using pos_mod_sign [OF assms, of b] by linarith
  then show ?thesis using assms b(2)
    by (auto simp add: b(1) sdiv_sign smod_sign zdiv_zminus1_eq_if zmod_zminus1_eq_if pos_mod_sign)
qed

text \<open>
  Points are the base times the multiplier over one hundred million, rounded to the nearest
  integer with halves going up, for every sign, and replaced by the largest \<open>i64\<close> when they do not fit.\<close>

theorem compute_points_rounds_half_up:
  "compute_points base m = (let n = (2 * (base * m) + 100000000) div 200000000 in if in_i64 n then n else i64_max)"
proof -
  let ?d = "100000000 :: int"
  define q r where "q = (base * m) div ?d" and "r = (base * m) mod ?d"
  have qr: "base * m = q * ?d + r" "0 \<le> r" "r < ?d" by (simp_all add: q_def r_def)
  have "(2 * (base * m) + ?d) div 200000000 = (if r * 2 \<ge> ?d then q + 1 else q)"
    unfolding qr(1) using qr(2,3) by auto
  moreover have "(if (base * m) smod ?d < 0 then ((base * m) sdiv ?d - 1, (base * m) smod ?d + ?d)
      else ((base * m) sdiv ?d, (base * m) smod ?d)) = (q, r)"
    unfolding q_def r_def by (rule floor_sdiv) simp
  ultimately show ?thesis
    by (auto simp: compute_points_def Let_def fit_i64_def split: prod.splits option.splits if_splits)
qed

subsection \<open>Awards and redemptions happen once\<close>

lemma raw_account_project [simp]: "get_loyalty_account_raw (project_points now P st) c = get_loyalty_account_raw st c"
  by (simp add: get_loyalty_account_raw_def)

lemma project_same [simp]: "lo_txns (project_points now P st) = lo_txns st" "lo_sales (project_points now P st) = lo_sales st"
  by (simp_all add: project_points_def split: option.split)

lemma project_customers [simp]: "cu_id ` set (lo_customers (project_points now P st)) = cu_id ` set (lo_customers st)"
proof -
  have "cu_id ` set (map (\<lambda>c. if cu_id c = k then c\<lparr>cu_loyalty_points := n, cu_updated_at := now\<rparr> else c) cs)
      = cu_id ` set cs" for k n and cs :: "customer_row list"
    unfolding set_map image_image by (rule image_cong) simp_all
  then show ?thesis by (simp add: project_points_def del: set_map split: option.split)
qed

lemma find_map_same_key:
  "(\<And>x. k (f x) = k x) \<Longrightarrow> List.find (\<lambda>x. k x = c) (map (\<lambda>x. if P x then f x else x) xs)
     = map_option (\<lambda>x. if P x then f x else x) (List.find (\<lambda>x. k x = c) xs)"
  by (induction xs) auto

lemma insert_existing_account:
  "get_loyalty_account_raw st c = Some a \<Longrightarrow> insert_or_ignore_account i c now st = Inr st"
  using raw_account_in [of st c a] by (auto simp: insert_or_ignore_account_def)

lemma insert_account_customers:
  "insert_or_ignore_account i c now st = Inr st' \<Longrightarrow> lo_customers st' = lo_customers st"
  by (auto simp: insert_or_ignore_account_def split: if_splits)

lemma find_append_None: "List.find P xs = None \<Longrightarrow> List.find P (xs @ ys) = List.find P ys"
  by (induction xs) (auto split: if_splits)

text \<open>
  The award of a sale is given once: asking again, with any amount and any ids, returns the same
  transaction and changes nothing.\<close>

theorem earn_once:
  assumes "earn_points x customer sale total_minor st = Inr (t, st')"
  shows "earn_points y customer sale total' st' = Inr (t, st')"
proof -
  have e: "earn_points_with_conn x customer sale total_minor st = Inr (Some t, st')"
    using assms by (auto simp: earn_points_def split: sum.splits option.splits)
  have known: "customer \<in> cu_id ` set (lo_customers st)"
    using e by (auto simp: earn_points_with_conn_def split: if_splits)
  have again: "earn_points y customer sale total' st' = Inr (t, st')"
    if "customer \<in> cu_id ` set (lo_customers st')" "get_loyalty_account_raw st' customer = Some a"
      "fetch_earn_txn st' (la_id a) sale = Some t" for a
    using that by (simp add: earn_points_def earn_points_with_conn_def insert_existing_account)
  have "\<exists>a. get_loyalty_account_raw st' customer = Some a \<and> fetch_earn_txn st' (la_id a) sale = Some t
      \<and> customer \<in> cu_id ` set (lo_customers st')"
    using e
  proof (cases rule: earn_cases)
    case (1 st1 a)
    then show ?thesis using known insert_account_customers [OF 1(1)] by auto
  next
    case (2 st1 a u st2)
    have s: "lo_txns st' = lo_txns st1 @ [u]" "cu_id ` set (lo_customers st') = cu_id ` set (lo_customers st1)"
      using insert_loyalty_txn_Inr(1) [OF 2(3)] by (simp_all add: 2(9))
    have "get_loyalty_account_raw st' customer = map_option (\<lambda>b. if la_id b = la_id a then earn_row (ly_now x) st2 (lx_points u) b else b)
        (get_loyalty_account_raw st1 customer)"
      unfolding 2(9) raw_account_project by (simp add: get_loyalty_account_raw_def find_map_same_key earn_row_def)
    moreover have "fetch_earn_txn st' (la_id a) sale = Some u"
      using 2(4,6,7,10) by (simp add: fetch_earn_txn_def s find_append_None sale_txn_def)
    ultimately show ?thesis using 2(2,8) s(2) known insert_account_customers [OF 2(1)] by (simp add: earn_row_def)
  qed
  then show ?thesis using again by blast
qed

lemma find_unique_None: "(\<And>x. x \<in> set xs \<Longrightarrow> \<not> P x) \<Longrightarrow> List.find P xs = None"
  by (simp add: find_None_iff)

text \<open>
  A redemption happens once per sale: after one succeeded, asking again for the same customer
  and sale, with any positive number of points, returns the same transaction and the same discount
  and deducts nothing.\<close>

theorem redeem_once:
  assumes "redeem_points x customer points sale st = Inr (r, st')" and inv: "loyalty_inv st" and "0 < points'"
  shows "redeem_points y customer points' sale st' = Inr (r, st')"
proof -
  obtain a s where a: "get_loyalty_account_raw st customer = Some a"
      and s: "List.find (\<lambda>s. so_id s = sale) (lo_sales st) = Some s" "so_customer s = Some customer"
        "so_status s = ''completed''" "\<not> so_total s < 0" and p: "\<not> points \<le> 0"
    using assms(1) by (auto simp: redeem_points_def redeem_points_check_def split: option.splits if_splits)
  note aa = raw_account_in [OF a]
  have again: "redeem_points y customer points' sale st' = Inr ((t, saturating_abs (lx_points t)), st')"
    if "get_loyalty_account_raw st' customer = Some b" "la_id b = la_id a" "lo_sales st' = lo_sales st"
      "get_loyalty_transaction_for_sale st' (la_id a) sale ''redeem'' = Some t" for t b
    using that s assms(3) by (simp add: redeem_points_def redeem_points_check_def)
  show ?thesis
  proof (cases "get_loyalty_transaction_for_sale st (la_id a) sale ''redeem''")
    case (Some t)
    then have "r = (t, saturating_abs (lx_points t))" "st' = st"
      using assms(1) a s p by (auto simp: redeem_points_def redeem_points_check_def)
    then show ?thesis using again [of a t] a Some by simp
  next
    case None
    then obtain discount where d: "discount = points" "in_i64 points"
        and c: "redeem_points_commit x customer points sale a discount (so_currency s) st = Inr (r, st')"
      using assms(1) a s p
      by (auto simp: redeem_points_def redeem_points_check_def checked_mul_def points_to_minor_ratio_def
          split: if_splits option.splits)
    from c inv conjunct1 [OF aa] refl show ?thesis
    proof (cases rule: redeem_commit_cases)
      case (2 t st1)
      let ?f = "\<lambda>c. c\<lparr>la_points := la_points c - points, la_updated_at := ly_now x\<rparr>"
      have st': "lo_txns st' = lo_txns st @ [t]" "lo_sales st' = lo_sales st"
        by (simp_all add: 2(8) insert_loyalty_txn_Inr(1) [OF 2(1)])
      have "get_loyalty_account_raw st' customer = Some (?f a)"
        unfolding 2(8) raw_account_project using a by (simp add: get_loyalty_account_raw_def find_map_same_key)
      moreover have "get_loyalty_transaction_for_sale st' (la_id a) sale ''redeem'' = Some t"
        using None 2(2,4,5) by (simp add: get_loyalty_transaction_for_sale_def st' find_append_None sale_txn_def)
      ultimately have "redeem_points y customer points' sale st' = Inr ((t, saturating_abs (lx_points t)), st')"
        using again [of "?f a" t] st'(2) by simp
      moreover have "saturating_abs (lx_points t) = discount"
        using d p by (simp add: 2(3) saturating_abs_def in_i64_def)
      ultimately show ?thesis using 2(6) by simp
    qed (use None in simp)
  qed
qed

subsection \<open>A refund of the whole sale takes the whole award back\<close>

lemma proportional_full:
  assumes "0 < total_minor" and "0 \<le> e" and "in_i64 e"
  shows "proportional_points e total_minor total_minor = e"
proof -
  have "(e * total_minor * 2 + total_minor) div (total_minor * 2) = e"
  proof -
    have "e * total_minor * 2 + total_minor = total_minor + e * (total_minor * 2)" by simp
    also have "\<dots> div (total_minor * 2) = total_minor div (total_minor * 2) + e" using assms(1) by simp
    finally show ?thesis using assms(1) by simp
  qed
  then show ?thesis using assms
    by (simp add: proportional_points_def sdiv_nonneg wrap_i64_def in_i64_def)
qed

text \<open>
  A refund of the whole sale takes back exactly what was awarded for it and has not been taken
  back before, in the ledger; the same refund applied again changes nothing.\<close>

theorem full_refund_reverses_award:
  assumes "reverse_loyalty_on_refund now sale rf total_minor total_minor st = (r, st')"
    and inv: "loyalty_inv st" and earn: "award_of st sale = Some earn" and "0 < total_minor"
    and "in_i64 (lx_points earn)" and rev: "0 \<le> reversed_for st sale" "reversed_for st sale \<le> lx_points earn"
    and "sale \<in> so_id ` set (lo_sales st)" and fresh: "''loyalty-reversal-'' @ rf \<notin> lx_id ` set (lo_txns st)"
  shows "reversed_for st' sale = lx_points earn
    \<and> reverse_loyalty_on_refund now' sale rf total_minor total_minor st' = (None, st')"
proof -
  have e: "proportional_points (lx_points earn) total_minor total_minor = lx_points earn"
    using assms(4,5) rev by (intro proportional_full) simp_all
  have again: "reverse_loyalty_on_refund now' sale rf total_minor total_minor s = (None, s)"
    if "reversed_for s sale = lx_points earn" "award_of s sale = Some earn" for s
    using that by (simp add: reverse_loyalty_on_refund_def Let_def)
  show ?thesis
  proof (cases "reversed_for st sale = lx_points earn")
    case True
    then have "st' = st" using assms(1) earn by (simp add: reverse_loyalty_on_refund_def Let_def)
    then show ?thesis using True again earn by blast
  next
    case False
    let ?d = "lx_points earn - reversed_for st sale"
    have d: "max 0 (min (proportional_points (lx_points earn) total_minor total_minor) ?d) = ?d" "\<not> ?d \<le> 0"
      using rev False by (simp_all add: e)
    have ins: "insert_loyalty_txn t st = Inr (st\<lparr>lo_txns := lo_txns st @ [t]\<rparr>)"
      if "lx_id t = ''loyalty-reversal-'' @ rf" "lx_account t = lx_account earn" "lx_sale t = Some sale" "lx_type t = ''refund_reversal''" for t
      using that fresh assms(8) award_le_earned(2) [OF inv earn] by (simp add: insert_loyalty_txn_def del: append_Cons)
    have "\<exists>t. lo_txns st' = lo_txns st @ [t] \<and> lx_points t = - ?d \<and> lx_sale t = Some sale \<and> lx_type t = ''refund_reversal''"
      using assms(1) unfolding reverse_loyalty_on_refund_def earn option.case Let_def d(1)
      using rev False by (simp add: ins update_account_def del: append_Cons) force
    then have s: "reversed_for st' sale = lx_points earn" "award_of st' sale = award_of st sale"
      by (auto simp: reversed_for_def award_of_def)
    then show ?thesis using again earn by simp
  qed
qed

subsection \<open>Concrete cases\<close>

definition loyal_shop :: loyalty_store where
  "loyal_shop = \<lparr>lo_customers = [\<lparr>cu_id = ''c'', cu_loyalty_points = 0, cu_total_spent = 0, cu_updated_at = []\<rparr>],
     lo_sales = [\<lparr>so_id = ''s'', so_customer = Some ''c'', so_total = 2250, so_status = ''completed'', so_currency = ''USD'',
        so_base_total = None, so_tenant = None, so_deductions = None,
        so_terminal = None, so_updated_at = ''t0'', so_version = 1\<rparr>],
     lo_tiers = [\<lparr>lt_id = ''tier-bronze'', lt_name = ''Bronze'', lt_min_points = 0, lt_points_per_unit = 1,
        lt_multiplier = 1400000, lt_colour = ''#cd7f32'', lt_sort_order = 1, lt_created_at = []\<rparr>],
     lo_accounts = [], lo_txns = []\<rparr>"

definition loyal_args :: loyalty_args where
  "loyal_args = \<lparr>ly_account_id = ''a'', ly_txn_id = ''t'', ly_now = ''2025''\<rparr>"

definition awarded :: loyalty_transaction where
  "awarded = \<lparr>lx_id = ''t'', lx_account = ''a'', lx_sale = Some ''s'', lx_points = 32, lx_type = ''earn'',
     lx_description = ''Earned 32 points from purchase'', lx_created_at = ''2025''\<rparr>"

definition awarded_shop :: loyalty_store where
  "awarded_shop = loyal_shop\<lparr>
     lo_customers := [\<lparr>cu_id = ''c'', cu_loyalty_points = 32, cu_total_spent = 0, cu_updated_at = ''2025''\<rparr>],
     lo_accounts := [\<lparr>la_id = ''a'', la_customer = ''c'', la_points = 32, la_lifetime = 32, la_tier = Some ''tier-bronze'',
        la_updated_at = ''2025'', la_created_at = ''2025''\<rparr>],
     lo_txns := [awarded]\<rparr>"

lemma awarded_shop_run: "earn_points loyal_args ''c'' ''s'' 2250 loyal_shop = Inr (awarded, awarded_shop)"
  by code_simp

lemma awarded_shop_inv: "loyalty_inv awarded_shop"
proof -
  have "loyalty_inv loyal_shop"
    by (simp add: loyalty_inv_def loyal_shop_def reversed_for_def earned_for_def)
  then show ?thesis using awarded_shop_run by (auto simp: earn_points_def split: sum.splits option.splits intro: earn_inv)
qed

theorem earn_once_witness: "earn_points loyal_args ''c'' ''s'' 9999 awarded_shop = Inr (awarded, awarded_shop)"
  by (rule earn_once [OF awarded_shop_run])

lemma redeemed_run:
  "\<exists>r st'. redeem_points (loyal_args\<lparr>ly_txn_id := ''u''\<rparr>) ''c'' 20 ''s'' awarded_shop = Inr (r, st')"
  by (simp add: redeem_points_def redeem_points_check_def redeem_points_commit_def awarded_shop_def loyal_shop_def
      get_loyalty_account_raw_def get_loyalty_transaction_for_sale_def sale_txn_def awarded_def checked_mul_def
      points_to_minor_ratio_def fit_i64_def in_i64_def insert_loyalty_txn_def update_account_def Let_def loyal_args_def)

theorem redeem_once_witness:
  "\<exists>r st'. redeem_points (loyal_args\<lparr>ly_txn_id := ''u''\<rparr>) ''c'' 20 ''s'' awarded_shop = Inr (r, st')
     \<and> redeem_points (loyal_args\<lparr>ly_txn_id := ''v''\<rparr>) ''c'' 5 ''s'' st' = Inr (r, st')"
proof -
  obtain r st' where r: "redeem_points (loyal_args\<lparr>ly_txn_id := ''u''\<rparr>) ''c'' 20 ''s'' awarded_shop = Inr (r, st')"
    using redeemed_run by blast
  then show ?thesis using redeem_once [OF r awarded_shop_inv, of 5 "loyal_args\<lparr>ly_txn_id := ''v''\<rparr>"] by auto
qed

theorem full_refund_reverses_award_witness:
  "reversed_for (snd (reverse_loyalty_on_refund ''2026'' ''s'' ''r'' 2250 2250 awarded_shop)) ''s'' = 32"
proof -
  obtain r st' where r: "reverse_loyalty_on_refund ''2026'' ''s'' ''r'' 2250 2250 awarded_shop = (r, st')"
    by (rule prod.exhaust)
  have "award_of awarded_shop ''s'' = Some awarded"
    by (simp add: award_of_def awarded_shop_def awarded_def)
  moreover have "(0::int) < 2250" "in_i64 (lx_points awarded)" "0 \<le> reversed_for awarded_shop ''s''"
      "reversed_for awarded_shop ''s'' \<le> lx_points awarded" "''s'' \<in> so_id ` set (lo_sales awarded_shop)"
      "''loyalty-reversal-'' @ ''r'' \<notin> lx_id ` set (lo_txns awarded_shop)"
    by (simp_all add: awarded_def awarded_shop_def loyal_shop_def reversed_for_def in_i64_def)
  ultimately have "reversed_for st' ''s'' = lx_points awarded"
    using full_refund_reverses_award [OF r awarded_shop_inv] by blast
  then show ?thesis by (simp add: r awarded_def)
qed

end
