(* ===== verification/Offline_Queue.thy ===== *)
theory Offline_Queue
  imports Sync Tax_Rates "HOL-Library.List_Lexorder" "HOL-Library.Product_Lexorder" "HOL-Library.Multiset"
begin

section \<open>The offline queue\<close>

text \<open>
  Models \<open>crates/kasirmu-core/src/db/offline.rs\<close> and the transmit order of
  \<open>crates/kasirmu-core/src/offline.rs\<close>: the queue of local mutations, the quarantine of remote items
  that cannot be applied, the ledger of applied remote items and the pull anchor. Ids and times are
  arguments. The subscription's read-only lock and the terminal's name in the settings are read
  through \<open>queue_env\<close>. Queries are taken to succeed, so the counts that fall back to zero on a
  database error do not.
\<close>

subsection \<open>JSON values\<close>

text \<open>
  The values of \<open>serde_json\<close>, indexed as \<open>v["key"]\<close> with \<open>Null\<close> for what is missing. A number holds
  its reading as \<open>i64\<close>, if it has one. Parser and printer are third-party code and arguments.
\<close>

datatype json = JNull | JBool bool | JNum "int option" | JStr string | JArr "json list" | JObj "(string \<times> json) list"

fun jget :: "json \<Rightarrow> string \<Rightarrow> json" where
  "jget (JObj fs) k = (case map_of fs k of None \<Rightarrow> JNull | Some v \<Rightarrow> v)"
| "jget _ k = JNull"

fun as_str :: "json \<Rightarrow> string option" where
  "as_str (JStr s) = Some s"
| "as_str _ = None"

fun as_array :: "json \<Rightarrow> json list option" where
  "as_array (JArr xs) = Some xs"
| "as_array _ = None"

fun as_i64 :: "json \<Rightarrow> int option" where
  "as_i64 (JNum n) = n"
| "as_i64 _ = None"

text \<open>The macro \<open>json!\<close> builds its objects in a \<open>BTreeMap\<close>, so their keys are in order.\<close>

definition jobj :: "(string \<times> json) list \<Rightarrow> json" where
  "jobj fs = JObj (sort_key fst fs)"

lemma map_of_sort_key:
  fixes fs :: "('a :: linorder \<times> 'b) list"
  shows "map_of (sort_key fst fs) k = map_of fs k"
proof -
  have first: "map_of xs k = (case filter (\<lambda>x. fst x = k) xs of [] \<Rightarrow> None | x # _ \<Rightarrow> Some (snd x))" for xs :: "('a \<times> 'b) list" and k
    by (induction xs) auto
  show ?thesis by (simp only: first sort_key_stable)
qed

lemma jget_jobj [simp]: "jget (jobj fs) k = (case map_of fs k of None \<Rightarrow> JNull | Some v \<Rightarrow> v)"
  by (simp add: jobj_def map_of_sort_key)

subsection \<open>Priorities and the transmit order\<close>

fun priority_number :: "sync_priority \<Rightarrow> int" where
  "priority_number Critical = 0"
| "priority_number Normal = 1"
| "priority_number Low = 2"

definition priority_from :: "int \<Rightarrow> sync_priority" where
  "priority_from v = (if v = 0 then Critical else if v = 2 then Low else Normal)"

fun priority_as_str :: "sync_priority \<Rightarrow> string" where
  "priority_as_str Critical = ''critical''"
| "priority_as_str Normal = ''normal''"
| "priority_as_str Low = ''low''"

definition priority_from_str_lenient :: "string \<Rightarrow> sync_priority" where
  "priority_from_str_lenient s = (if s = ''critical'' then Critical else if s = ''low'' then Low else Normal)"

fun queue_item_as_stored :: "queue_status \<Rightarrow> string" where
  "queue_item_as_stored QPending = ''pending''"
| "queue_item_as_stored QSynced = ''synced''"
| "queue_item_as_stored QFailed = ''failed''"

definition queue_item_from_stored :: "string \<Rightarrow> queue_status option" where
  "queue_item_from_stored s = (if s = ''pending'' then Some QPending else if s = ''synced'' then Some QSynced
     else if s = ''failed'' then Some QFailed else None)"

instantiation sync_priority :: linorder
begin

definition less_eq_sync_priority :: "sync_priority \<Rightarrow> sync_priority \<Rightarrow> bool" where
  "less_eq_sync_priority a b \<longleftrightarrow> priority_number a \<le> priority_number b"

definition less_sync_priority :: "sync_priority \<Rightarrow> sync_priority \<Rightarrow> bool" where
  "less_sync_priority a b \<longleftrightarrow> priority_number a < priority_number b"

instance
proof
  fix a b :: sync_priority
  show "a \<le> b \<Longrightarrow> b \<le> a \<Longrightarrow> a = b" by (cases a; cases b) (simp_all add: less_eq_sync_priority_def)
qed (auto simp: less_eq_sync_priority_def less_sync_priority_def)

end

definition push_key :: "offline_queue_item \<Rightarrow> sync_priority \<times> string \<times> string" where
  "push_key i = (priority i, qi_created_at i, qi_id i)"

definition order_for_push :: "offline_queue_item list \<Rightarrow> offline_queue_item list" where
  "order_for_push items = sort_key push_key items"

subsection \<open>Tables\<close>

record remote_sync_failure =
  rs_item_id :: string
  rs_action :: string
  rs_payload :: string
  rs_attempts :: int
  rs_last_error :: string
  rs_dead_lettered :: bool
  rs_last_failed_at :: string

record sync_pull_state =
  pull_since :: "string option"
  pull_cursor :: "string option"

record queue_store =
  oq_items :: "offline_queue_item list"
  oq_applied :: "(string \<times> string \<times> string option) list"
  oq_failures :: "remote_sync_failure list"
  oq_pull :: "sync_pull_state option"

record queue_env =
  qe_locked :: "string \<Rightarrow> bool"
  qe_terminal :: "string option"

record queue_args =
  qa_id :: string
  qa_now :: string

subsection \<open>Enqueueing\<close>

definition queue_item_new :: "queue_args \<Rightarrow> string \<Rightarrow> string \<Rightarrow> offline_queue_item" where
  "queue_item_new x action payload =
     \<lparr>qi_id = qa_id x, qi_action = action, qi_payload = payload, qi_status = QPending, retry_count = 0,
      last_error = None, tenant_id = ''default'', qi_created_at = qa_now x, synced_at = None,
      priority = Normal, origin_terminal_id = None\<rparr>"

definition queue_item_with_tenant :: "queue_args \<Rightarrow> string \<Rightarrow> string \<Rightarrow> string \<Rightarrow> offline_queue_item" where
  "queue_item_with_tenant x action payload tenant = (queue_item_new x action payload)\<lparr>tenant_id := tenant\<rparr>"

definition queue_item_with_priority :: "queue_args \<Rightarrow> string \<Rightarrow> string \<Rightarrow> sync_priority \<Rightarrow> offline_queue_item" where
  "queue_item_with_priority x action payload pri = (queue_item_new x action payload)\<lparr>priority := pri\<rparr>"

definition insert_queue_item :: "offline_queue_item \<Rightarrow> queue_store \<Rightarrow> core_error + queue_store" where
  "insert_queue_item i st =
     (if qi_id i \<in> qi_id ` set (oq_items st) then Inl Db else Inr (st\<lparr>oq_items := oq_items st @ [i]\<rparr>))"

definition enqueue_offline_in_tx ::
    "queue_env \<Rightarrow> queue_args \<Rightarrow> string \<Rightarrow> string \<Rightarrow> string \<Rightarrow> sync_priority \<Rightarrow> queue_store
       \<Rightarrow> core_error + offline_queue_item \<times> queue_store" where
  "enqueue_offline_in_tx env x action payload tenant pri st =
     (let i = (queue_item_with_tenant x action payload tenant)\<lparr>priority := pri, origin_terminal_id := qe_terminal env\<rparr>
      in case insert_queue_item i st of Inl e \<Rightarrow> Inl e | Inr st' \<Rightarrow> Inr (i, st'))"

definition enqueue_offline_inner ::
    "queue_env \<Rightarrow> queue_args \<Rightarrow> string \<Rightarrow> string \<Rightarrow> string \<Rightarrow> sync_priority \<Rightarrow> queue_store
       \<Rightarrow> core_error + offline_queue_item \<times> queue_store" where
  "enqueue_offline_inner env x action payload tenant pri st =
     (if qe_locked env tenant then Inl SubscriptionReadOnly
      else (let i = (queue_item_with_tenant x action payload tenant)\<lparr>priority := pri, origin_terminal_id := qe_terminal env\<rparr>
            in case insert_queue_item i st of Inl e \<Rightarrow> Inl e | Inr st' \<Rightarrow> Inr (i, st')))"

definition enqueue_offline_with_tenant ::
    "queue_env \<Rightarrow> queue_args \<Rightarrow> string \<Rightarrow> string \<Rightarrow> string \<Rightarrow> queue_store \<Rightarrow> core_error + offline_queue_item \<times> queue_store" where
  "enqueue_offline_with_tenant env x action payload tenant st = enqueue_offline_inner env x action payload tenant Normal st"

definition enqueue_offline ::
    "queue_env \<Rightarrow> queue_args \<Rightarrow> string \<Rightarrow> string \<Rightarrow> queue_store \<Rightarrow> core_error + offline_queue_item \<times> queue_store" where
  "enqueue_offline env x action payload st = enqueue_offline_with_tenant env x action payload ''default'' st"

definition enqueue_offline_priority ::
    "queue_env \<Rightarrow> queue_args \<Rightarrow> string \<Rightarrow> string \<Rightarrow> sync_priority \<Rightarrow> queue_store \<Rightarrow> core_error + offline_queue_item \<times> queue_store" where
  "enqueue_offline_priority env x action payload pri st = enqueue_offline_inner env x action payload ''default'' pri st"

definition enqueue_offline_scoped ::
    "queue_env \<Rightarrow> queue_args \<Rightarrow> string \<Rightarrow> string \<Rightarrow> string \<Rightarrow> sync_priority \<Rightarrow> queue_store
       \<Rightarrow> core_error + offline_queue_item \<times> queue_store" where
  "enqueue_offline_scoped env x action payload tenant pri st = enqueue_offline_inner env x action payload tenant pri st"

definition enqueue_offline_dedup ::
    "queue_env \<Rightarrow> queue_args \<Rightarrow> string \<Rightarrow> string \<Rightarrow> queue_store \<Rightarrow> core_error + offline_queue_item option \<times> queue_store" where
  "enqueue_offline_dedup env x action payload st =
     (if list_ex (\<lambda>i. qi_status i = QPending \<and> qi_action i = action \<and> qi_payload i = payload) (oq_items st)
      then Inr (None, st)
      else (case enqueue_offline env x action payload st of Inl e \<Rightarrow> Inl e | Inr (i, st') \<Rightarrow> Inr (Some i, st')))"

definition json_int :: "int \<Rightarrow> json" where
  "json_int n = JNum (Some n)"

definition json_opt :: "string option \<Rightarrow> json" where
  "json_opt s = (case s of None \<Rightarrow> JNull | Some t \<Rightarrow> JStr t)"

text \<open>
  The outbox rows of domain operations. The tenant is that of the sale row, \<open>'default'\<close> when it has
  none; \<open>tenant_of\<close> is that look-up and fails with \<open>None\<close> when there is no such sale.
\<close>

definition enqueue_outbox ::
    "(json \<Rightarrow> string) \<Rightarrow> queue_env \<Rightarrow> queue_args \<Rightarrow> string option option \<Rightarrow> string \<Rightarrow> json \<Rightarrow> queue_store
       \<Rightarrow> core_error + queue_store" where
  "enqueue_outbox render env x tenant_of action payload st =
     (case tenant_of of
        None \<Rightarrow> Inl Db
      | Some t \<Rightarrow>
          (case enqueue_offline_in_tx env x action (render payload)
                  (case t of None \<Rightarrow> ''default'' | Some n \<Rightarrow> n) Critical st of
             Inl e \<Rightarrow> Inl e | Inr (_, st') \<Rightarrow> Inr st'))"

definition void_sale_payload :: "string \<Rightarrow> json" where
  "void_sale_payload sale = jobj [(''sale_id'', JStr sale)]"

definition enqueue_void_sale_outbox_in_tx ::
    "(json \<Rightarrow> string) \<Rightarrow> queue_env \<Rightarrow> queue_args \<Rightarrow> string option option \<Rightarrow> string \<Rightarrow> queue_store
       \<Rightarrow> core_error + queue_store" where
  "enqueue_void_sale_outbox_in_tx render env x tenant_of sale st =
     enqueue_outbox render env x tenant_of ''void_sale'' (void_sale_payload sale) st"

definition currency_str :: "currency \<Rightarrow> string \<Rightarrow> core_error + string" where
  "currency_str c field = (case from_utf8 (currency_bytes c) of None \<Rightarrow> Inl (Validation field) | Some s \<Rightarrow> Inr s)"

definition sale_line_payload :: "sale_line \<Rightarrow> json" where
  "sale_line_payload l = jobj
     [(''sku'', JStr (sline_sku l)), (''qty'', json_int (sline_qty l)),
      (''unit_price_minor'', json_int (minor_units (sline_unit_price l))),
      (''tax_minor'', json_int (minor_units (tax_amount l))), (''tax_rate_id'', json_opt (tax_rate_id l))]"

definition sale_payload :: "sale \<Rightarrow> string \<Rightarrow> json" where
  "sale_payload s cur = jobj
     [(''sale_id'', JStr (sale_id s)), (''total_minor'', json_int (minor_units (sale.total s))),
      (''currency'', JStr cur), (''customer_id'', json_opt (customer_id s)),
      (''line_items'', JArr (map sale_line_payload (sale_lines s)))]"

definition enqueue_sale_outbox_in_tx ::
    "(json \<Rightarrow> string) \<Rightarrow> queue_env \<Rightarrow> queue_args \<Rightarrow> string option option \<Rightarrow> sale \<Rightarrow> string \<Rightarrow> queue_store
       \<Rightarrow> core_error + queue_store" where
  "enqueue_sale_outbox_in_tx render env x tenant_of s cur st =
     enqueue_outbox render env x tenant_of ''complete_sale'' (sale_payload s cur) st"

definition refund_line_payload :: "refund_line \<Rightarrow> core_error + json" where
  "refund_line_payload l = (case currency_str (money.currency (rline_unit_price l)) ''refund_line.currency'' of
     Inl e \<Rightarrow> Inl e
   | Inr cur \<Rightarrow> Inr (jobj
       [(''id'', JStr (rline_id l)), (''sale_line_id'', JStr (sale_line_id l)), (''sku'', JStr (rline_sku l)),
        (''qty'', json_int (rline_qty l)), (''unit_minor'', json_int (minor_units (rline_unit_price l))),
        (''line_minor'', json_int (minor_units (rline_total l))), (''currency'', JStr cur),
        (''created_at'', JStr (rline_created_at l))]))"

fun refund_line_payloads :: "refund_line list \<Rightarrow> core_error + json list" where
  "refund_line_payloads [] = Inr []"
| "refund_line_payloads (l # ls) = (case refund_line_payload l of
     Inl e \<Rightarrow> Inl e
   | Inr j \<Rightarrow> (case refund_line_payloads ls of Inl e \<Rightarrow> Inl e | Inr js \<Rightarrow> Inr (j # js)))"

definition refund_payload :: "refund \<Rightarrow> core_error + json" where
  "refund_payload r = (case currency_str (money.currency (refund_total r)) ''currency'' of
     Inl e \<Rightarrow> Inl e
   | Inr cur \<Rightarrow> (case refund_line_payloads (refund_lines r) of
       Inl e \<Rightarrow> Inl e
     | Inr ls \<Rightarrow> Inr (jobj
         [(''id'', JStr (rid r)), (''sale_id'', JStr (refund_sale_id r)),
          (''total_minor'', json_int (minor_units (refund_total r))), (''currency'', JStr cur),
          (''reason'', JStr (reason r)), (''note'', JStr (refund_note r)), (''processed_by'', JStr (processed_by r)),
          (''created_at'', JStr (refund_created_at r)), (''lines'', JArr ls)])))"

text \<open>The tenant is read before the payload is built.\<close>

definition enqueue_refund_outbox_in_tx ::
    "(json \<Rightarrow> string) \<Rightarrow> queue_env \<Rightarrow> queue_args \<Rightarrow> string option option \<Rightarrow> refund \<Rightarrow> queue_store
       \<Rightarrow> core_error + queue_store" where
  "enqueue_refund_outbox_in_tx render env x tenant_of r st =
     (if tenant_of = None then Inl Db
      else (case refund_payload r of
        Inl e \<Rightarrow> Inl e
      | Inr p \<Rightarrow> enqueue_outbox render env x tenant_of ''refund_sale'' p st))"

record payment_split =
  ps_method :: string
  ps_amount_minor :: int
  ps_gateway_reference :: "string option"
  ps_gateway_status :: "string option"
  ps_gateway_response :: "string option"
  ps_idempotency_key :: "string option"

definition payment_payload :: "string \<Rightarrow> string \<Rightarrow> payment_split \<Rightarrow> string \<Rightarrow> string \<Rightarrow> json" where
  "payment_payload i sale s cur now = jobj
     [(''id'', JStr i), (''sale_id'', JStr sale), (''method'', JStr (ps_method s)),
      (''amount_minor'', json_int (ps_amount_minor s)), (''currency'', JStr cur), (''created_at'', JStr now),
      (''gateway_reference'', json_opt (ps_gateway_reference s)), (''gateway_status'', json_opt (ps_gateway_status s)),
      (''gateway_response'', json_opt (ps_gateway_response s)), (''idempotency_key'', json_opt (ps_idempotency_key s))]"

definition enqueue_payment_recorded_outbox_in_tx ::
    "(json \<Rightarrow> string) \<Rightarrow> queue_env \<Rightarrow> queue_args \<Rightarrow> string option option \<Rightarrow> string \<Rightarrow> string \<Rightarrow> payment_split
       \<Rightarrow> string \<Rightarrow> string \<Rightarrow> queue_store \<Rightarrow> core_error + queue_store" where
  "enqueue_payment_recorded_outbox_in_tx render env x tenant_of i sale s cur now st =
     enqueue_outbox render env x tenant_of ''payment.recorded'' (payment_payload i sale s cur now) st"

subsection \<open>Queries\<close>

definition is_pending :: "offline_queue_item \<Rightarrow> bool" where
  "is_pending i \<longleftrightarrow> qi_status i = QPending"

definition list_pending_offline :: "queue_store \<Rightarrow> offline_queue_item list" where
  "list_pending_offline st = sort_key qi_created_at (filter is_pending (oq_items st))"

definition list_all_offline :: "queue_store \<Rightarrow> offline_queue_item list" where
  "list_all_offline st = rev (sort_key qi_created_at (oq_items st))"

definition list_pending_offline_for_tenant :: "queue_store \<Rightarrow> string \<Rightarrow> offline_queue_item list" where
  "list_pending_offline_for_tenant st t =
     sort_key qi_created_at (filter (\<lambda>i. is_pending i \<and> tenant_id i = t) (oq_items st))"

definition pending_offline_count :: "queue_store \<Rightarrow> int" where
  "pending_offline_count st = int (length (filter is_pending (oq_items st)))"

definition pending_offline_count_for_tenant :: "queue_store \<Rightarrow> string \<Rightarrow> int" where
  "pending_offline_count_for_tenant st t = int (length (filter (\<lambda>i. is_pending i \<and> tenant_id i = t) (oq_items st)))"

text \<open>\<open>instr\<close> of SQLite: the text occurs somewhere.\<close>

fun instr :: "string \<Rightarrow> string \<Rightarrow> bool" where
  "instr [] n \<longleftrightarrow> n = []"
| "instr (c # s) n \<longleftrightarrow> starts_with (c # s) n \<or> instr s n"

definition has_pending_outbox_row_for_sale :: "queue_store \<Rightarrow> string \<Rightarrow> string \<Rightarrow> bool" where
  "has_pending_outbox_row_for_sale st action sale =
     (let quote = CHR 0x22; needle = quote # ''sale_id'' @ [quote, CHR '':'', quote] @ sale @ [quote]
      in list_ex (\<lambda>i. is_pending i \<and> qi_action i = action \<and> instr (qi_payload i) needle) (oq_items st))"

record sync_status_summary =
  ss_pending_count :: int
  ss_synced_count :: int
  ss_failed_count :: int
  ss_total_retry_count :: int
  ss_last_synced_at :: "string option"
  ss_oldest_pending_at :: "string option"
  ss_conflict_count :: int

definition conflict_marker :: string where
  "conflict_marker = ''resolved: conflict''"

text \<open>\<open>LIKE\<close> compares ASCII letters without case.\<close>

definition offline_queue_status_summary :: "queue_store \<Rightarrow> sync_status_summary" where
  "offline_queue_status_summary st =
     (let is = oq_items st; count = (\<lambda>s. int (length (filter (\<lambda>i. qi_status i = s) is)))
      in \<lparr>ss_pending_count = count QPending, ss_synced_count = count QSynced, ss_failed_count = count QFailed,
          ss_total_retry_count = sum_list (map retry_count (filter (\<lambda>i. qi_status i = QFailed) is)),
          ss_last_synced_at = (case rev (sort (List.map_filter synced_at (filter (\<lambda>i. qi_status i = QSynced) is))) of
             [] \<Rightarrow> None | t # _ \<Rightarrow> Some t),
          ss_oldest_pending_at = (case sort (map qi_created_at (filter is_pending is)) of [] \<Rightarrow> None | t # _ \<Rightarrow> Some t),
          ss_conflict_count = int (length (filter (\<lambda>i. case last_error i of None \<Rightarrow> False
             | Some e \<Rightarrow> starts_with (map to_ascii_uppercase e) (map to_ascii_uppercase conflict_marker)) is))\<rparr>)"

subsection \<open>Changing items\<close>

definition update_items :: "(offline_queue_item \<Rightarrow> bool) \<Rightarrow> (offline_queue_item \<Rightarrow> offline_queue_item) \<Rightarrow> queue_store
    \<Rightarrow> nat \<times> queue_store" where
  "update_items P f st =
     (length (filter P (oq_items st)), st\<lparr>oq_items := map (\<lambda>i. if P i then f i else i) (oq_items st)\<rparr>)"

definition set_synced :: "string \<Rightarrow> offline_queue_item \<Rightarrow> offline_queue_item" where
  "set_synced now i = i\<lparr>qi_status := QSynced, synced_at := Some now\<rparr>"

definition mark_offline_synced :: "string \<Rightarrow> string \<Rightarrow> queue_store \<Rightarrow> core_error + queue_store" where
  "mark_offline_synced now k st =
     (case update_items (\<lambda>i. qi_id i = k \<and> is_pending i) (set_synced now) st of
        (n, st') \<Rightarrow> if n = 1 then Inr st'
          else if filter (\<lambda>i. qi_id i = k) (oq_items st) = [] then Inl (NotFound ''offline_queue'' k) else Inr st')"

definition mark_offline_synced_for_tenant :: "string \<Rightarrow> string \<Rightarrow> string \<Rightarrow> queue_store \<Rightarrow> core_error + queue_store" where
  "mark_offline_synced_for_tenant now k t st =
     (case update_items (\<lambda>i. qi_id i = k \<and> tenant_id i = t) (set_synced now) st of
        (n, st') \<Rightarrow> if n = 0 then Inl (NotFound ''offline_queue'' k) else Inr st')"

definition mark_offline_resolved :: "string \<Rightarrow> string \<Rightarrow> string \<Rightarrow> queue_store \<Rightarrow> core_error + queue_store" where
  "mark_offline_resolved now k resolution st =
     (case update_items (\<lambda>i. qi_id i = k)
             (\<lambda>i. (set_synced now i)\<lparr>last_error := Some (conflict_marker @ '' ('' @ resolution @ '')'')\<rparr>) st of
        (n, st') \<Rightarrow> if n = 0 then Inl (NotFound ''offline_queue'' k) else Inr st')"

definition mark_offline_failed :: "string \<Rightarrow> string \<Rightarrow> queue_store \<Rightarrow> queue_store" where
  "mark_offline_failed k err st = snd (update_items (\<lambda>i. qi_id i = k)
     (\<lambda>i. i\<lparr>qi_status := QFailed, last_error := Some err, retry_count := retry_count i + 1\<rparr>) st)"

definition mark_offline_failed_for_tenant :: "string \<Rightarrow> string \<Rightarrow> string \<Rightarrow> queue_store \<Rightarrow> queue_store" where
  "mark_offline_failed_for_tenant k t err st = snd (update_items (\<lambda>i. qi_id i = k \<and> tenant_id i = t)
     (\<lambda>i. i\<lparr>qi_status := QFailed, last_error := Some err, retry_count := retry_count i + 1\<rparr>) st)"

definition delete_offline_item :: "string \<Rightarrow> queue_store \<Rightarrow> queue_store" where
  "delete_offline_item k st = st\<lparr>oq_items := filter (\<lambda>i. qi_id i \<noteq> k) (oq_items st)\<rparr>"

definition delete_offline_item_for_tenant :: "string \<Rightarrow> string \<Rightarrow> queue_store \<Rightarrow> queue_store" where
  "delete_offline_item_for_tenant k t st =
     st\<lparr>oq_items := filter (\<lambda>i. \<not> (qi_id i = k \<and> tenant_id i = t)) (oq_items st)\<rparr>"

definition settings_payload :: "string \<Rightarrow> string \<Rightarrow> string \<Rightarrow> json" where
  "settings_payload key val terminal =
     jobj [(''key'', JStr key), (''value'', JStr val), (''terminal_id'', JStr terminal)]"

text \<open>A malformed payload parses to \<open>Null\<close>, whose fields are \<open>Null\<close>.\<close>

definition settings_update_of :: "(string \<Rightarrow> json option) \<Rightarrow> string \<Rightarrow> string \<Rightarrow> offline_queue_item \<Rightarrow> bool" where
  "settings_update_of parse key terminal i \<longleftrightarrow> qi_action i = ''settings.update''
     \<and> (let v = (case parse (qi_payload i) of None \<Rightarrow> JNull | Some v \<Rightarrow> v)
        in as_str (jget v ''key'') = Some key \<and> as_str (jget v ''terminal_id'') = Some terminal)"

definition superseded_by ::
    "(string \<Rightarrow> json option) \<Rightarrow> string \<Rightarrow> string \<Rightarrow> string \<Rightarrow> offline_queue_item \<Rightarrow> bool" where
  "superseded_by parse fresh_id key terminal i \<longleftrightarrow> qi_id i \<noteq> fresh_id \<and> settings_update_of parse key terminal i"

definition enqueue_settings_update_superseding ::
    "(json \<Rightarrow> string) \<Rightarrow> (string \<Rightarrow> json option) \<Rightarrow> queue_env \<Rightarrow> queue_args \<Rightarrow> string \<Rightarrow> string \<Rightarrow> string \<Rightarrow> string
       \<Rightarrow> queue_store \<Rightarrow> core_error + queue_store" where
  "enqueue_settings_update_superseding render parse env x key val terminal tenant st =
     (case enqueue_offline_scoped env x ''settings.update'' (render (settings_payload key val terminal)) tenant Low st of
        Inl e \<Rightarrow> Inl e
      | Inr (fresh, st') \<Rightarrow>
          Inr (foldl (\<lambda>s i. if superseded_by parse (qi_id fresh) key terminal i
               then delete_offline_item_for_tenant (qi_id i) tenant s else s)
             st' (list_pending_offline_for_tenant st' tenant)))"

subsection \<open>The pull anchor and the ledger of applied items\<close>

definition get_sync_pull_state :: "queue_store \<Rightarrow> sync_pull_state" where
  "get_sync_pull_state st = (case oq_pull st of None \<Rightarrow> \<lparr>pull_since = None, pull_cursor = None\<rparr> | Some p \<Rightarrow> p)"

definition set_sync_pull_state :: "string option \<Rightarrow> string option \<Rightarrow> queue_store \<Rightarrow> queue_store" where
  "set_sync_pull_state since cursor st = st\<lparr>oq_pull := Some \<lparr>pull_since = since, pull_cursor = cursor\<rparr>\<rparr>"

definition is_remote_item_applied :: "queue_store \<Rightarrow> string \<Rightarrow> bool" where
  "is_remote_item_applied st k \<longleftrightarrow> k \<in> fst ` set (oq_applied st)"

text \<open>\<open>INSERT OR IGNORE\<close>: also a repeated effect violates a constraint (a unique index) and is ignored.\<close>

definition mark_remote_item_applied_with_effect :: "string \<Rightarrow> string \<Rightarrow> string option \<Rightarrow> queue_store \<Rightarrow> queue_store" where
  "mark_remote_item_applied_with_effect k action effect st =
     (if k \<in> fst ` set (oq_applied st) \<or> effect \<noteq> None \<and> effect \<in> snd ` snd ` set (oq_applied st) then st
      else st\<lparr>oq_applied := oq_applied st @ [(k, action, effect)]\<rparr>)"

definition mark_remote_item_applied :: "string \<Rightarrow> string \<Rightarrow> queue_store \<Rightarrow> queue_store" where
  "mark_remote_item_applied k action st = mark_remote_item_applied_with_effect k action None st"

subsection \<open>Quarantine\<close>

definition record_remote_failure ::
    "string \<Rightarrow> string \<Rightarrow> string \<Rightarrow> string \<Rightarrow> string \<Rightarrow> int \<Rightarrow> queue_store \<Rightarrow> bool \<times> queue_store" where
  "record_remote_failure now k action payload err max_attempts st =
     (let m = max max_attempts 1;
          fs = (if k \<in> rs_item_id ` set (oq_failures st)
            then map (\<lambda>f. if rs_item_id f = k
                 then f\<lparr>rs_action := action, rs_payload := payload, rs_attempts := rs_attempts f + 1,
                        rs_last_error := err, rs_last_failed_at := now, rs_dead_lettered := rs_attempts f + 1 \<ge> m\<rparr> else f)
                 (oq_failures st)
            else oq_failures st @ [\<lparr>rs_item_id = k, rs_action = action, rs_payload = payload, rs_attempts = 1,
                 rs_last_error = err, rs_dead_lettered = 1 \<ge> m, rs_last_failed_at = now\<rparr>])
      in (list_ex (\<lambda>f. rs_item_id f = k \<and> rs_dead_lettered f) fs, st\<lparr>oq_failures := fs\<rparr>))"

definition list_remote_failures :: "queue_store \<Rightarrow> remote_sync_failure list" where
  "list_remote_failures st = rev (sort_key rs_last_failed_at (oq_failures st))"

definition is_remote_failure_dead_lettered :: "queue_store \<Rightarrow> string \<Rightarrow> bool" where
  "is_remote_failure_dead_lettered st k \<longleftrightarrow> list_ex (\<lambda>f. rs_item_id f = k \<and> rs_dead_lettered f) (oq_failures st)"

definition clear_remote_failure :: "string \<Rightarrow> queue_store \<Rightarrow> queue_store" where
  "clear_remote_failure k st = st\<lparr>oq_failures := filter (\<lambda>f. rs_item_id f \<noteq> k) (oq_failures st)\<rparr>"

definition requeue_remote_failure :: "string \<Rightarrow> queue_store \<Rightarrow> core_error + queue_store" where
  "requeue_remote_failure k st =
     (if list_ex (\<lambda>f. rs_item_id f = k \<and> rs_dead_lettered f) (oq_failures st)
      then Inr (st\<lparr>oq_failures := filter (\<lambda>f. \<not> (rs_item_id f = k \<and> rs_dead_lettered f)) (oq_failures st),
                   oq_pull := map_option (\<lambda>_. \<lparr>pull_since = None, pull_cursor = None\<rparr>) (oq_pull st)\<rparr>)
      else Inl (NotFound ''sync_remote_failures'' k))"

subsection \<open>The transmit order\<close>

text \<open>
  The order in which a batch is pushed depends on the set of items only, not on the order the
  database returns them in: any two arrangements of the same items (ids are unique) are sent in the
  same order, which is that of tier, age and id, and nothing is lost or repeated.\<close>

theorem push_order_deterministic:
  assumes "mset items = mset items'" and "distinct (map qi_id items)"
  shows "order_for_push items = order_for_push items'
    \<and> mset (order_for_push items) = mset items \<and> sorted (map push_key (order_for_push items))"
proof -
  have "inj_on push_key (set items)"
    using assms(2) by (auto simp: distinct_map inj_on_def push_key_def)
  then have "sort_key push_key items = sort_key push_key items'"
    using assms(1) by (intro sort_key_inj_key_eq) simp_all
  then show ?thesis using assms(1) by (simp add: order_for_push_def)
qed

subsection \<open>Superseding settings\<close>

lemma foldl_delete:
  "foldl (\<lambda>s i. if S i then delete_offline_item_for_tenant (qi_id i) t s else s) st xs
     = st\<lparr>oq_items := filter (\<lambda>j. \<not> (tenant_id j = t \<and> (\<exists>i\<in>set xs. S i \<and> qi_id i = qi_id j))) (oq_items st)\<rparr>"
proof (induction xs arbitrary: st)
  case (Cons i xs)
  let ?gone = "\<lambda>xs j. tenant_id j = t \<and> (\<exists>i\<in>set xs. S i \<and> qi_id i = qi_id j)"
  show ?case
  proof (cases "S i")
    case True
    have "filter (\<lambda>j. \<not> ?gone xs j) (filter (\<lambda>j. \<not> (qi_id j = qi_id i \<and> tenant_id j = t)) (oq_items st))
        = filter (\<lambda>j. \<not> ?gone (i # xs) j) (oq_items st)"
      unfolding filter_filter by (rule filter_cong) (use True in auto)
    moreover have "delete_offline_item_for_tenant (qi_id i) t st
        = st\<lparr>oq_items := filter (\<lambda>j. \<not> (qi_id j = qi_id i \<and> tenant_id j = t)) (oq_items st)\<rparr>"
      by (simp add: delete_offline_item_for_tenant_def)
    ultimately show ?thesis unfolding foldl_Cons Cons.IH if_P [OF True] by simp
  next
    case False
    have "filter (\<lambda>j. \<not> ?gone xs j) (oq_items st) = filter (\<lambda>j. \<not> ?gone (i # xs) j) (oq_items st)"
      by (rule filter_cong) (use False in auto)
    then show ?thesis unfolding foldl_Cons Cons.IH if_not_P [OF False] by simp
  qed
qed simp

text \<open>
  Saving a setting leaves exactly one pending update of it for the terminal and the tenant, the
  new one, and removes no other item: not an update of another key, another terminal or another
  tenant, nor one that was already sent.\<close>

theorem settings_update_supersedes:
  assumes "parse (render (settings_payload key val terminal)) = Some (settings_payload key val terminal)"
    and "enqueue_settings_update_superseding render parse env x key val terminal tenant st = Inr st'"
    and "distinct (map qi_id (oq_items st))"
  shows "\<exists>fresh. oq_items st' = filter (\<lambda>i. \<not> (is_pending i \<and> tenant_id i = tenant \<and> settings_update_of parse key terminal i))
      (oq_items st) @ [fresh]
    \<and> is_pending fresh \<and> tenant_id fresh = tenant \<and> qi_payload fresh = render (settings_payload key val terminal)
    \<and> filter (\<lambda>i. is_pending i \<and> tenant_id i = tenant \<and> settings_update_of parse key terminal i) (oq_items st') = [fresh]"
proof -
  define F where "F = (queue_item_with_tenant x ''settings.update'' (render (settings_payload key val terminal)) tenant)
      \<lparr>priority := Low, origin_terminal_id := qe_terminal env\<rparr>"
  let ?S = "superseded_by parse (qa_id x) key terminal" and ?U = "settings_update_of parse key terminal"
  let ?st1 = "st\<lparr>oq_items := oq_items st @ [F]\<rparr>"
  have id: "qi_id F = qa_id x" and fresh: "is_pending F" "tenant_id F = tenant" "?U F"
    using assms(1) by (simp_all add: F_def queue_item_with_tenant_def queue_item_new_def is_pending_def settings_update_of_def
        settings_payload_def)
  have new: "qa_id x \<notin> qi_id ` set (oq_items st)"
    and st': "st' = foldl (\<lambda>s i. if ?S i then delete_offline_item_for_tenant (qi_id i) tenant s else s) ?st1
        (list_pending_offline_for_tenant ?st1 tenant)"
    using assms(2) id by (auto simp: enqueue_settings_update_superseding_def enqueue_offline_scoped_def
        enqueue_offline_inner_def insert_queue_item_def Let_def F_def split: if_splits)
  have gone: "(tenant_id j = tenant \<and> (\<exists>i\<in>set (list_pending_offline_for_tenant ?st1 tenant). ?S i \<and> qi_id i = qi_id j))
      \<longleftrightarrow> is_pending j \<and> tenant_id j = tenant \<and> ?U j" if "j \<in> set (oq_items st)" for j
  proof
    assume "tenant_id j = tenant \<and> (\<exists>i\<in>set (list_pending_offline_for_tenant ?st1 tenant). ?S i \<and> qi_id i = qi_id j)"
    then obtain i where i: "i \<in> set (oq_items st) \<or> i = F" "is_pending i" "tenant_id i = tenant" "?S i" "qi_id i = qi_id j"
        "tenant_id j = tenant"
      by (auto simp: list_pending_offline_for_tenant_def split: if_splits)
    then have "i \<in> set (oq_items st)" using id by (auto simp: superseded_by_def)
    then have "i = j" using assms(3) that i(5) by (auto simp: distinct_map inj_on_def)
    then show "is_pending j \<and> tenant_id j = tenant \<and> ?U j" using i by (simp add: superseded_by_def)
  next
    assume j: "is_pending j \<and> tenant_id j = tenant \<and> ?U j"
    moreover have "qi_id j \<noteq> qa_id x" using new that by (metis image_eqI)
    ultimately show "tenant_id j = tenant \<and> (\<exists>i\<in>set (list_pending_offline_for_tenant ?st1 tenant). ?S i \<and> qi_id i = qi_id j)"
      using that by (auto simp: list_pending_offline_for_tenant_def superseded_by_def intro!: bexI [of _ j])
  qed
  have kept: "\<not> (\<exists>i\<in>set (list_pending_offline_for_tenant ?st1 tenant). ?S i \<and> qi_id i = qi_id F)"
    using id by (auto simp: superseded_by_def)
  have items: "oq_items st' = filter (\<lambda>i. \<not> (is_pending i \<and> tenant_id i = tenant \<and> ?U i)) (oq_items st) @ [F]"
    unfolding st' foldl_delete using kept gone by (auto intro!: filter_cong simp del: de_Morgan_conj)
  have "filter (\<lambda>i. is_pending i \<and> tenant_id i = tenant \<and> ?U i) (oq_items st') = [F]"
    unfolding items using fresh by (simp add: filter_empty_conv)
  then show ?thesis using items fresh by (intro exI [of _ F]) (simp add: F_def queue_item_with_tenant_def queue_item_new_def)
qed

subsection \<open>The quarantine\<close>

text \<open>
  The quarantine table as counters: how often each item has failed since it was last applied or
  requeued. Requeueing is for an item that is quarantined; asking it of another is an error and
  changes nothing.
\<close>

datatype quarantine_step = Fails string string string string string | Clears string | Requeues string

definition quarantine_step :: "int \<Rightarrow> queue_store \<Rightarrow> quarantine_step \<Rightarrow> queue_store" where
  "quarantine_step m st s = (case s of
     Fails now k action payload err \<Rightarrow> snd (record_remote_failure now k action payload err m st)
   | Clears k \<Rightarrow> clear_remote_failure k st
   | Requeues k \<Rightarrow> (case requeue_remote_failure k st of Inl _ \<Rightarrow> st | Inr st' \<Rightarrow> st'))"

definition counter_step :: "int \<Rightarrow> (string \<Rightarrow> int) \<Rightarrow> quarantine_step \<Rightarrow> string \<Rightarrow> int" where
  "counter_step m c s = (case s of
     Fails _ k _ _ _ \<Rightarrow> c(k := c k + 1)
   | Clears k \<Rightarrow> c(k := 0)
   | Requeues k \<Rightarrow> (if max m 1 \<le> c k then c(k := 0) else c))"

definition failure_count :: "queue_store \<Rightarrow> string \<Rightarrow> int" where
  "failure_count st k = sum_list (map rs_attempts (filter (\<lambda>f. rs_item_id f = k) (oq_failures st)))"

definition quarantine_ok :: "int \<Rightarrow> queue_store \<Rightarrow> bool" where
  "quarantine_ok m st \<longleftrightarrow> distinct (map rs_item_id (oq_failures st))
     \<and> (\<forall>f\<in>set (oq_failures st). rs_attempts f \<ge> 1 \<and> (rs_dead_lettered f \<longleftrightarrow> max m 1 \<le> rs_attempts f))"

lemma quarantine_okD:
  assumes "quarantine_ok m st" and "f \<in> set (oq_failures st)"
  shows "failure_count st (rs_item_id f) = rs_attempts f" and "rs_attempts f \<ge> 1"
    and "rs_dead_lettered f \<longleftrightarrow> max m 1 \<le> rs_attempts f"
  using assms filter_by_key [of rs_item_id "oq_failures st" f "\<lambda>_. True"] unfolding quarantine_ok_def failure_count_def
  by (simp_all del: max.bounded_iff)

lemma failure_count_absent: "k \<notin> rs_item_id ` set (oq_failures st) \<Longrightarrow> failure_count st k = 0"
  unfolding failure_count_def by (subst filter_False) auto

lemma dead_lettered_iff_count:
  assumes "quarantine_ok m st"
  shows "is_remote_failure_dead_lettered st k \<longleftrightarrow> max m 1 \<le> failure_count st k"
proof (cases "k \<in> rs_item_id ` set (oq_failures st)")
  case True
  then obtain f where f: "f \<in> set (oq_failures st)" "k = rs_item_id f" by auto
  have "g = f" if "g \<in> set (oq_failures st)" "rs_item_id g = rs_item_id f" for g
    using assms f that by (auto simp: quarantine_ok_def distinct_map dest: inj_onD)
  then show ?thesis using quarantine_okD [OF assms f(1)] f
    by (auto simp: is_remote_failure_dead_lettered_def list_ex_iff)
next
  case False
  then show ?thesis using failure_count_absent [OF False]
    by (auto simp: is_remote_failure_dead_lettered_def list_ex_iff)
qed

lemma failure_count_filter:
  assumes "\<And>f. f \<in> set (oq_failures st) \<Longrightarrow> P f \<longleftrightarrow> rs_item_id f \<noteq> k"
  shows "failure_count (st\<lparr>oq_failures := filter P (oq_failures st), oq_pull := q\<rparr>) = (failure_count st)(k := 0)"
proof
  fix n
  have "filter (\<lambda>f. rs_item_id f = n) (filter P (oq_failures st)) = (if n = k then [] else filter (\<lambda>f. rs_item_id f = n) (oq_failures st))"
    using assms by (auto simp: filter_empty_conv intro!: filter_cong)
  then show "failure_count (st\<lparr>oq_failures := filter P (oq_failures st), oq_pull := q\<rparr>) n = ((failure_count st)(k := 0)) n"
    by (simp add: failure_count_def)
qed

lemma quarantine_ok_filter:
  "quarantine_ok m st \<Longrightarrow> quarantine_ok m (st\<lparr>oq_failures := filter P (oq_failures st), oq_pull := q\<rparr>)"
  by (auto simp: quarantine_ok_def distinct_map_filter)

lemma record_remote_failure_result:
  "fst (record_remote_failure now k action payload err m st)
     = is_remote_failure_dead_lettered (snd (record_remote_failure now k action payload err m st)) k"
  by (simp add: record_remote_failure_def is_remote_failure_dead_lettered_def Let_def)

lemma quarantine_fails:
  assumes "quarantine_ok m st"
  shows "quarantine_ok m (snd (record_remote_failure now k action payload err m st))
    \<and> failure_count (snd (record_remote_failure now k action payload err m st)) = (failure_count st)(k := failure_count st k + 1)"
proof (cases "k \<in> rs_item_id ` set (oq_failures st)")
  case True
  let ?f = "\<lambda>f. f\<lparr>rs_action := action, rs_payload := payload, rs_attempts := rs_attempts f + 1,
      rs_last_error := err, rs_last_failed_at := now, rs_dead_lettered := rs_attempts f + 1 \<ge> max m 1\<rparr>"
  let ?g = "\<lambda>f. if rs_item_id f = k then ?f f else f"
  have st': "snd (record_remote_failure now k action payload err m st) = st\<lparr>oq_failures := map ?g (oq_failures st)\<rparr>"
    using True by (simp add: record_remote_failure_def Let_def cong: if_cong del: max.bounded_iff)
  obtain f where f: "f \<in> set (oq_failures st)" "k = rs_item_id f" using True by auto
  have one: "filter (\<lambda>g. rs_item_id g = k) (oq_failures st) = [f]"
    using assms filter_by_key [of rs_item_id "oq_failures st" f "\<lambda>_. True"] f by (simp add: quarantine_ok_def)
  have ids: "map rs_item_id (map ?g (oq_failures st)) = map rs_item_id (oq_failures st)" by simp
  have ok: "quarantine_ok m (st\<lparr>oq_failures := map ?g (oq_failures st)\<rparr>)"
    using assms ids unfolding quarantine_ok_def
    by (auto simp del: max.bounded_iff map_map)
  have "failure_count (st\<lparr>oq_failures := map ?g (oq_failures st)\<rparr>) n = ((failure_count st)(k := failure_count st k + 1)) n" for n
  proof -
    have "filter (\<lambda>f. rs_item_id f = n) (map ?g (oq_failures st)) = map ?g (filter (\<lambda>f. rs_item_id f = n) (oq_failures st))"
      unfolding filter_map by (rule arg_cong [of _ _ "map ?g"], rule filter_cong) auto
    moreover have "map ?g (filter (\<lambda>f. rs_item_id f = n) (oq_failures st)) = filter (\<lambda>f. rs_item_id f = n) (oq_failures st)"
      if "n \<noteq> k" using that by (intro map_idI) auto
    ultimately show ?thesis using one f(2) by (cases "n = k") (simp_all add: failure_count_def)
  qed
  then have "failure_count (st\<lparr>oq_failures := map ?g (oq_failures st)\<rparr>) = (failure_count st)(k := failure_count st k + 1)" ..
  then show ?thesis using ok st' by metis
next
  case False
  then show ?thesis using assms
    by (auto simp: record_remote_failure_def Let_def quarantine_ok_def failure_count_def is_remote_failure_dead_lettered_def)
qed

lemma quarantine_requeues:
  assumes "quarantine_ok m st" and "requeue_remote_failure k st = Inr st'"
  shows "quarantine_ok m st' \<and> max m 1 \<le> failure_count st k \<and> failure_count st' = (failure_count st)(k := 0)
    \<and> oq_applied st' = oq_applied st \<and> oq_items st' = oq_items st
    \<and> get_sync_pull_state st' = \<lparr>pull_since = None, pull_cursor = None\<rparr>"
proof -
  let ?P = "\<lambda>f. \<not> (rs_item_id f = k \<and> rs_dead_lettered f)"
  have dead: "is_remote_failure_dead_lettered st k"
    and st': "st' = st\<lparr>oq_failures := filter ?P (oq_failures st),
      oq_pull := map_option (\<lambda>_. \<lparr>pull_since = None, pull_cursor = None\<rparr>) (oq_pull st)\<rparr>"
    using assms(2) by (auto simp: requeue_remote_failure_def is_remote_failure_dead_lettered_def split: if_splits)
  have count: "max m 1 \<le> failure_count st k" using dead dead_lettered_iff_count [OF assms(1)] by blast
  have "?P f \<longleftrightarrow> rs_item_id f \<noteq> k" if "f \<in> set (oq_failures st)" for f
    using count quarantine_okD [OF assms(1) that] by auto
  then have "failure_count st' = (failure_count st)(k := 0)" unfolding st' by (rule failure_count_filter)
  moreover have "quarantine_ok m st'" unfolding st' using assms(1) by (rule quarantine_ok_filter)
  ultimately show ?thesis using count unfolding st'
    by (simp add: get_sync_pull_state_def split: option.split)
qed

lemma quarantine_step_refines:
  assumes "quarantine_ok m st"
  shows "quarantine_ok m (quarantine_step m st s)
    \<and> failure_count (quarantine_step m st s) = counter_step m (failure_count st) s"
proof (cases s)
  case (Fails now k action payload err)
  then show ?thesis using quarantine_fails [OF assms]
    by (simp add: quarantine_step_def counter_step_def)
next
  case (Clears k)
  have "quarantine_step m st s = st\<lparr>oq_failures := filter (\<lambda>f. rs_item_id f \<noteq> k) (oq_failures st), oq_pull := oq_pull st\<rparr>"
    by (simp add: Clears quarantine_step_def clear_remote_failure_def)
  moreover have "counter_step m (failure_count st) s = (failure_count st)(k := 0)" by (simp add: Clears counter_step_def)
  ultimately show ?thesis
    using quarantine_ok_filter [OF assms] failure_count_filter [of st "\<lambda>f. rs_item_id f \<noteq> k" k] by metis
next
  case (Requeues k)
  show ?thesis
  proof (cases "requeue_remote_failure k st")
    case (Inl e)
    then have "\<not> max m 1 \<le> failure_count st k"
      using dead_lettered_iff_count [OF assms, of k]
      by (auto simp: requeue_remote_failure_def is_remote_failure_dead_lettered_def split: if_splits)
    then show ?thesis using Inl assms Requeues by (simp add: quarantine_step_def counter_step_def del: max.bounded_iff)
  next
    case (Inr st')
    then show ?thesis using quarantine_requeues [OF assms Inr] Requeues
      by (simp add: quarantine_step_def counter_step_def)
  qed
qed

lemma quarantine_history:
  "quarantine_ok m st \<Longrightarrow> quarantine_ok m (foldl (quarantine_step m) st steps)
    \<and> failure_count (foldl (quarantine_step m) st steps) = foldl (counter_step m) (failure_count st) steps"
  by (induction steps arbitrary: st) (simp_all add: quarantine_step_refines)

definition empty_queue :: queue_store where
  "empty_queue = \<lparr>oq_items = [], oq_applied = [], oq_failures = [], oq_pull = None\<rparr>"

text \<open>
  The quarantine implements a counter for each remote item: whatever failures, successful
  applications and requeues there have been, in whatever order, an item is quarantined exactly when
  it has failed \<open>max_attempts\<close> times (at least once) since it was last applied or let out, and the
  failures of one item never count against another.\<close>

theorem quarantine_refines_counters:
  "is_remote_failure_dead_lettered (foldl (quarantine_step m) empty_queue steps) k
     \<longleftrightarrow> max m 1 \<le> foldl (counter_step m) (\<lambda>_. 0) steps k"
proof -
  have "quarantine_ok m empty_queue" by (simp add: quarantine_ok_def empty_queue_def)
  moreover have "failure_count empty_queue = (\<lambda>_. 0)" by (simp add: fun_eq_iff failure_count_def empty_queue_def)
  ultimately show ?thesis using quarantine_history [of m empty_queue steps] dead_lettered_iff_count by metis
qed

subsection \<open>Runs\<close>

definition till :: queue_env where
  "till = \<lparr>qe_locked = (\<lambda>_. False), qe_terminal = Some ''till-1''\<rparr>"

definition setting_item :: "string \<Rightarrow> string \<Rightarrow> queue_status \<Rightarrow> offline_queue_item" where
  "setting_item k payload s = (queue_item_new \<lparr>qa_id = k, qa_now = ''t0''\<rparr> ''settings.update'' payload)\<lparr>qi_status := s\<rparr>"

definition queued :: queue_store where
  "queued = empty_queue\<lparr>oq_items := [setting_item ''a'' ''tax'' QPending, setting_item ''b'' ''tax'' QSynced,
     setting_item ''c'' ''other'' QPending]\<rparr>"

definition demo_parse :: "string \<Rightarrow> json option" where
  "demo_parse s = (if s = ''tax'' then Some (settings_payload ''tax'' ''11'' ''till-1'') else None)"

definition requeued :: queue_store where
  "requeued = (case enqueue_settings_update_superseding (\<lambda>_. ''tax'') demo_parse till \<lparr>qa_id = ''d'', qa_now = ''t1''\<rparr>
     ''tax'' ''11'' ''till-1'' ''default'' queued of Inr st \<Rightarrow> st | Inl _ \<Rightarrow> queued)"

lemma settings_update_supersedes_witness:
  "\<exists>fresh. oq_items requeued = filter (\<lambda>i. \<not> (is_pending i \<and> tenant_id i = ''default''
        \<and> settings_update_of demo_parse ''tax'' ''till-1'' i)) (oq_items queued) @ [fresh]
    \<and> is_pending fresh \<and> tenant_id fresh = ''default'' \<and> qi_payload fresh = ''tax''
    \<and> filter (\<lambda>i. is_pending i \<and> tenant_id i = ''default'' \<and> settings_update_of demo_parse ''tax'' ''till-1'' i)
        (oq_items requeued) = [fresh]"
proof (rule settings_update_supersedes [where render = "\<lambda>_. ''tax''"])
  show "demo_parse ''tax'' = Some (settings_payload ''tax'' ''11'' ''till-1'')" by (simp add: demo_parse_def)
  show "enqueue_settings_update_superseding (\<lambda>_. ''tax'') demo_parse till \<lparr>qa_id = ''d'', qa_now = ''t1''\<rparr>
     ''tax'' ''11'' ''till-1'' ''default'' queued = Inr requeued" by code_simp
  show "distinct (map qi_id (oq_items queued))" by code_simp
qed

lemma push_order_deterministic_witness:
  "order_for_push (oq_items queued) = order_for_push (rev (oq_items queued))
    \<and> mset (order_for_push (oq_items queued)) = mset (oq_items queued)
    \<and> sorted (map push_key (order_for_push (oq_items queued)))"
  by (rule push_order_deterministic) (simp, code_simp)

end
