(* ===== verification/Refunds.thy ===== *)
theory Refunds
  imports Stock_History Loyalty Offline_Queue
begin

section \<open>Refunds\<close>

text \<open>
  Models \<open>crates/kasirmu-core/src/db/refunds.rs\<close>: the transaction of \<open>create_refund\<close> over the tables of
  sales, refunds, stock, loyalty, the outbox, the audit log and the kitchen orders, and the two
  queries of refunds. A \<open>HashMap\<close> yields its entries in the order of the argument \<open>hash\<close>. Ids and times that
  the code draws are in \<open>refund_args\<close>. SQLite's sums are taken to stay within \<open>i64\<close>; plain sums of the
  code that leave it panic. Foreign keys are checked where a row is inserted.
\<close>

subsection \<open>Tables\<close>

record sale_line_row =
  sw_id :: string
  sw_sale :: string
  sw_sku :: string
  sw_qty :: int
  sw_minor :: int

record refund_row =
  rf_id :: string
  rf_sale :: string
  rf_total :: int
  rf_currency :: string
  rf_reason :: string
  rf_note :: string
  rf_processed_by :: string
  rf_created_at :: string
  rf_tenant :: string

record refund_line_row =
  rw_id :: string
  rw_refund :: string
  rw_sale_line :: string
  rw_sku :: string
  rw_qty :: int
  rw_unit :: int
  rw_minor :: int
  rw_currency :: string
  rw_created_at :: string

record audit_row =
  au_id :: string
  au_user :: string
  au_action :: string
  au_target_type :: string
  au_target :: string
  au_details :: json
  au_outcome :: string
  au_created_at :: string

record kds_order_row =
  ko_id :: string
  ko_sale :: string
  ko_status :: string

record kds_item_row =
  ki_id :: string
  ki_order :: string
  ki_status :: string

record shop =
  sh_loyalty :: loyalty_store
  sh_stock :: stock_store
  sh_queue :: queue_store
  sh_lines :: "sale_line_row list"
  sh_refunds :: "refund_row list"
  sh_refund_lines :: "refund_line_row list"
  sh_audit :: "audit_row list"
  sh_kds_orders :: "kds_order_row list"
  sh_kds_items :: "kds_item_row list"

record refund_args =
  ra_queue :: queue_args
  ra_adjust :: "nat \<Rightarrow> adjust_args"
  ra_now :: string
  ra_audit_id :: string
  ra_legacy_audit_id :: string

definition find_sale :: "('a shop_scheme) \<Rightarrow> string \<Rightarrow> sale_row option" where
  "find_sale st sale = List.find (\<lambda>s. so_id s = sale) (lo_sales (sh_loyalty st))"

subsection \<open>Claims of a refund on the lines of its sale\<close>

definition sold_line_for_sale_line_in_tx ::
    "('a shop_scheme) \<Rightarrow> string \<Rightarrow> string \<Rightarrow> core_error + int \<times> int \<times> string" where
  "sold_line_for_sale_line_in_tx st sale line =
     (case List.find (\<lambda>l. sw_id l = line \<and> sw_sale l = sale) (sh_lines st) of
        None \<Rightarrow> Inl (Validation ''refund_line.sale_line_id'')
      | Some l \<Rightarrow> Inr (sw_qty l, sw_minor l, sw_sku l))"

definition refunded_qty_for_sale_line_in_tx ::
    "('a shop_scheme) \<Rightarrow> string \<Rightarrow> string \<Rightarrow> string \<Rightarrow> int" where
  "refunded_qty_for_sale_line_in_tx st sale line excluded =
     sum_list (map rw_qty (filter (\<lambda>w. rw_sale_line w = line \<and> rw_qty w > 0
       \<and> list_ex (\<lambda>r. rf_id r = rw_refund w \<and> rf_sale r = sale \<and> rf_id r \<noteq> excluded) (sh_refunds st))
       (sh_refund_lines st)))"

record claim =
  cm_qty :: int
  cm_value :: int
  cm_sku :: string

text \<open>The three maps of the code have the same keys, so they are one table of claims.\<close>

fun claims_of :: "refund_line list \<Rightarrow> (string \<times> claim) list \<Rightarrow> (core_error, (string \<times> claim) list) outcome" where
  "claims_of [] cs = Ok cs"
| "claims_of (l # ls) cs =
     (if rline_qty l > 0 then
        (let old = (case map_of cs (sale_line_id l) of
             None \<Rightarrow> \<lparr>cm_qty = 0, cm_value = 0, cm_sku = rline_sku l\<rparr> | Some c \<Rightarrow> c)
         in if cm_sku old \<noteq> rline_sku l then Err (Validation ''refund_line.sku'')
            else (case checked_add (cm_qty old) (rline_qty l) of
                None \<Rightarrow> Panic
              | Some q \<Rightarrow> (case checked_add (cm_value old) (minor_units (rline_total l)) of
                    None \<Rightarrow> Err (Validation ''refund_line.line_total'')
                  | Some v \<Rightarrow> claims_of ls (tab_update (sale_line_id l) (old\<lparr>cm_qty := q, cm_value := v\<rparr>) cs))))
      else claims_of ls cs)"

definition hash_order :: "(string \<Rightarrow> nat) \<Rightarrow> (string \<times> claim) list \<Rightarrow> (string \<times> claim) list" where
  "hash_order hash cs = sort_key (\<lambda>c. hash (fst c)) cs"

definition check_claim :: "('a shop_scheme) \<Rightarrow> string \<Rightarrow> string \<Rightarrow> string \<times> claim \<Rightarrow> core_error + unit" where
  "check_claim st sale refund = (\<lambda>(line, c).
     case sold_line_for_sale_line_in_tx st sale line of
       Inl e \<Rightarrow> Inl e
     | Inr (sold, line_minor, sku) \<Rightarrow>
         if trim sku = [] then Inl (Validation ''refund_line.sku'')
         else if trim (cm_sku c) \<noteq> trim sku then Inl (Validation ''refund_line.sku'')
         else (case checked_add (refunded_qty_for_sale_line_in_tx st sale line refund) (cm_qty c) of
             None \<Rightarrow> Inl (Validation ''refund_line.qty'')
           | Some after \<Rightarrow>
               if after > sold then Inl (Validation ''refund_line.qty'')
               else if cm_value c > max 0 ((line_minor * cm_qty c) sdiv max sold 1) + 1
               then Inl (Validation ''refund_line.line_total'')
               else Inr ()))"

fun check_claims :: "('a shop_scheme) \<Rightarrow> string \<Rightarrow> string \<Rightarrow> (string \<times> claim) list \<Rightarrow> core_error + unit" where
  "check_claims st sale refund [] = Inr ()"
| "check_claims st sale refund (c # cs) =
     (case check_claim st sale refund c of Inl e \<Rightarrow> Inl e | Inr _ \<Rightarrow> check_claims st sale refund cs)"

subsection \<open>Rows\<close>

definition insert_refund_row :: "refund_row \<Rightarrow> 'a shop_scheme \<Rightarrow> core_error + 'a shop_scheme" where
  "insert_refund_row w st =
     (if rf_id w \<in> rf_id ` set (sh_refunds st) \<or> find_sale st (rf_sale w) = None \<or> rf_total w < 0
      then Inl Db else Inr (st\<lparr>sh_refunds := sh_refunds st @ [w]\<rparr>))"

definition insert_refund :: "string \<Rightarrow> string option \<Rightarrow> refund \<Rightarrow> 'a shop_scheme \<Rightarrow> core_error + 'a shop_scheme" where
  "insert_refund cur tenant r st =
     (case tenant of
        None \<Rightarrow> Inl Db
      | Some t \<Rightarrow> insert_refund_row \<lparr>rf_id = rid r, rf_sale = refund_sale_id r,
            rf_total = minor_units (refund_total r), rf_currency = cur, rf_reason = reason r,
            rf_note = refund_note r, rf_processed_by = processed_by r,
            rf_created_at = refund_created_at r, rf_tenant = t\<rparr> st)"

definition insert_refund_line_row :: "refund_line_row \<Rightarrow> 'a shop_scheme \<Rightarrow> core_error + 'a shop_scheme" where
  "insert_refund_line_row w st =
     (if rw_id w \<in> rw_id ` set (sh_refund_lines st) \<or> rw_refund w \<notin> rf_id ` set (sh_refunds st)
         \<or> rw_qty w \<le> 0 \<or> rw_unit w < 0 \<or> rw_minor w < 0
      then Inl Db else Inr (st\<lparr>sh_refund_lines := sh_refund_lines st @ [w]\<rparr>))"

definition insert_refund_line :: "refund_line \<Rightarrow> 'a shop_scheme \<Rightarrow> core_error + 'a shop_scheme" where
  "insert_refund_line l st =
     (case from_utf8 (currency_bytes (money.currency (rline_unit_price l))) of
        None \<Rightarrow> Inl (Validation ''currency'')
      | Some cur \<Rightarrow> insert_refund_line_row \<lparr>rw_id = rline_id l, rw_refund = refund_line.refund_id l,
            rw_sale_line = sale_line_id l, rw_sku = rline_sku l, rw_qty = rline_qty l,
            rw_unit = minor_units (rline_unit_price l), rw_minor = minor_units (rline_total l),
            rw_currency = cur, rw_created_at = rline_created_at l\<rparr> st)"

definition insert_audit :: "audit_row \<Rightarrow> 'a shop_scheme \<Rightarrow> core_error + 'a shop_scheme" where
  "insert_audit a st =
     (if au_id a \<in> au_id ` set (sh_audit st) then Inl Db else Inr (st\<lparr>sh_audit := sh_audit st @ [a]\<rparr>))"

subsection \<open>Returning the goods to stock\<close>

text \<open>\<open>n\<close> counts the adjustments made, each with its own ids.\<close>

definition refund_adjust ::
    "refund_args \<Rightarrow> string \<Rightarrow> int \<Rightarrow> string \<Rightarrow> nat \<times> 'a shop_scheme \<Rightarrow> (core_error, nat \<times> 'a shop_scheme) outcome" where
  "refund_adjust x sku q l = (\<lambda>(n, st).
     case adjust_stock_at_location_with_reason (ra_adjust x n) sku q l (Some ''refund'') None None None (sh_stock st) of
       Inl e \<Rightarrow> Err e
     | Inr (_, stock) \<Rightarrow> Ok (Suc n, st\<lparr>sh_stock := stock\<rparr>))"

fun oeach :: "('a \<Rightarrow> 's \<Rightarrow> ('e, 's) outcome) \<Rightarrow> 'a list \<Rightarrow> 's \<Rightarrow> ('e, 's) outcome" where
  "oeach f [] s = Ok s"
| "oeach f (x # xs) s = obind (f x s) (oeach f xs)"

definition entry_location :: "json \<Rightarrow> (core_error, string) outcome" where
  "entry_location d = ok_or (as_str (jget d ''location_id'')) (Validation ''location_id'')"

definition entry_qty :: "json \<Rightarrow> (core_error, int) outcome" where
  "entry_qty d = ok_or (as_i64 (jget d ''qty'')) (Validation ''qty'')"

definition credit_entry ::
    "refund_args \<Rightarrow> string \<Rightarrow> json \<Rightarrow> nat \<times> 'a shop_scheme \<Rightarrow> (core_error, nat \<times> 'a shop_scheme) outcome" where
  "credit_entry x sku d s = obind (entry_location d) (\<lambda>l. obind (entry_qty d) (\<lambda>q. refund_adjust x sku q l s))"

fun credit_reverse ::
    "refund_args \<Rightarrow> string \<Rightarrow> int \<Rightarrow> json list \<Rightarrow> nat \<times> 'a shop_scheme \<Rightarrow> (core_error, nat \<times> 'a shop_scheme) outcome" where
  "credit_reverse x sku remaining [] s = Ok s"
| "credit_reverse x sku remaining (d # ds) s =
     (if remaining \<le> 0 then Ok s
      else obind (entry_location d) (\<lambda>l. obind (entry_qty d) (\<lambda>q.
             obind (refund_adjust x sku (min q remaining) l s) (\<lambda>s'.
               case checked_sub remaining (min q remaining) of
                 None \<Rightarrow> Panic | Some left \<Rightarrow> credit_reverse x sku left ds s'))))"

fun sum_panicking :: "int list \<Rightarrow> int \<Rightarrow> (core_error, int) outcome" where
  "sum_panicking [] acc = Ok acc"
| "sum_panicking (q # qs) acc = (case checked_add acc q of None \<Rightarrow> Panic | Some v \<Rightarrow> sum_panicking qs v)"

definition recorded_sku :: "json \<Rightarrow> (core_error, string) outcome" where
  "recorded_sku d = (case as_str (jget d ''sku'') of
     None \<Rightarrow> Err (Validation ''deduction_locations.sku'')
   | Some s \<Rightarrow> if trim s = [] then Err (Validation ''deduction_locations.sku'') else Ok s)"

definition credit_refund_line ::
    "refund_args \<Rightarrow> refund \<Rightarrow> json list \<Rightarrow> refund_line \<Rightarrow> nat \<times> 'a shop_scheme
       \<Rightarrow> (core_error, nat \<times> 'a shop_scheme) outcome" where
  "credit_refund_line x r entries l s =
     (case List.find (\<lambda>e. as_str (jget e ''sale_line_id'') = Some (sale_line_id l)) entries of
        None \<Rightarrow> Err (Validation ''deduction_locations'')
      | Some d \<Rightarrow> (case as_array (jget d ''deductions'') of
          None \<Rightarrow> Err (Validation ''deduction_locations.deductions'')
        | Some ds \<Rightarrow> obind (sum_panicking (List.map_filter (\<lambda>e. as_i64 (jget e ''qty'')) ds) 0) (\<lambda>deducted.
            if rline_qty l \<le> 0 then Ok s
            else (case checked_add (refunded_qty_for_sale_line_in_tx (snd s) (refund_sale_id r) (sale_line_id l) (rid r))
                    (rline_qty l) of
                None \<Rightarrow> Err (Validation ''refund_line.qty'')
              | Some after \<Rightarrow>
                  if after > deducted then Err (Validation ''refund_line.qty'')
                  else obind (recorded_sku d) (\<lambda>sku.
                    if rline_qty l \<ge> deducted then oeach (credit_entry x sku) ds s
                    else credit_reverse x sku (rline_qty l) (rev ds) s)))))"

definition credit_refund_from_deduction_locations ::
    "(string \<Rightarrow> json option) \<Rightarrow> refund_args \<Rightarrow> refund \<Rightarrow> string \<Rightarrow> nat \<times> 'a shop_scheme
       \<Rightarrow> (core_error, nat \<times> 'a shop_scheme) outcome" where
  "credit_refund_from_deduction_locations parse x r text s =
     (case parse text of
        None \<Rightarrow> Err (Validation ''deduction_locations'')
      | Some v \<Rightarrow> (case as_array (jget v ''lines'') of
          None \<Rightarrow> Err (Validation ''deduction_locations.lines'')
        | Some entries \<Rightarrow> oeach (credit_refund_line x r entries) (refund_lines r) s))"

definition credit_default_line ::
    "refund_args \<Rightarrow> refund \<Rightarrow> refund_line \<Rightarrow> nat \<times> 'a shop_scheme \<Rightarrow> (core_error, nat \<times> 'a shop_scheme) outcome" where
  "credit_default_line x r l s =
     (if rline_qty l \<le> 0 then Ok s
      else (case sold_line_for_sale_line_in_tx (snd s) (refund_sale_id r) (sale_line_id l) of
          Inl e \<Rightarrow> Err e
        | Inr (sold, _, sku) \<Rightarrow>
            (case checked_add (refunded_qty_for_sale_line_in_tx (snd s) (refund_sale_id r) (sale_line_id l) (rid r))
                (rline_qty l) of
               None \<Rightarrow> Err (Validation ''refund_line.qty'')
             | Some after \<Rightarrow>
                 if after > sold then Err (Validation ''refund_line.qty'')
                 else refund_adjust x sku (rline_qty l) canonical_default_location s)))"

definition legacy_audit :: "refund_args \<Rightarrow> refund \<Rightarrow> audit_row" where
  "legacy_audit x r = \<lparr>au_id = ra_legacy_audit_id x, au_user = processed_by r, au_action = ''sale.refund.legacy'',
     au_target_type = ''refund'', au_target = rid r,
     au_details = jobj [(''refund_id'', JStr (rid r)),
       (''note'', JStr ''deduction_locations was NULL; credited to default location'')],
     au_outcome = ''warn'', au_created_at = refund_created_at r\<rparr>"

definition credit_refund_to_default_location ::
    "refund_args \<Rightarrow> refund \<Rightarrow> nat \<times> 'a shop_scheme \<Rightarrow> (core_error, nat \<times> 'a shop_scheme) outcome" where
  "credit_refund_to_default_location x r s =
     obind (oeach (credit_default_line x r) (refund_lines r) s)
       (\<lambda>(n, st). obind (of_sum (insert_audit (legacy_audit x r) st)) (\<lambda>st'. Ok (n, st')))"

subsection \<open>Side effects\<close>

definition reverse_customer_spend_on_refund ::
    "string \<Rightarrow> int \<Rightarrow> int \<Rightarrow> int option \<Rightarrow> string \<Rightarrow> loyalty_store \<Rightarrow> loyalty_store" where
  "reverse_customer_spend_on_refund customer refund_minor sale_minor sale_base at st =
     (let refund_base = (case sale_base of
            Some base \<Rightarrow> if sale_minor > 0 \<and> base \<noteq> sale_minor
              then wrap_i64 ((refund_minor * base * 2 + sale_minor) sdiv (sale_minor * 2)) else refund_minor
          | None \<Rightarrow> refund_minor)
      in st\<lparr>lo_customers := map (\<lambda>c. if cu_id c = customer
            then c\<lparr>cu_total_spent := max (cu_total_spent c - refund_base) 0, cu_updated_at := at\<rparr> else c)
            (lo_customers st)\<rparr>)"

definition kds_open :: "string \<Rightarrow> bool" where
  "kds_open s \<longleftrightarrow> s \<in> {''pending'', ''preparing'', ''ready''}"

definition cancel_kds_orders_for_sale_in_tx :: "string \<Rightarrow> 'a shop_scheme \<Rightarrow> nat \<times> 'a shop_scheme" where
  "cancel_kds_orders_for_sale_in_tx sale st =
     (let cancelled = length (filter (\<lambda>o'. ko_sale o' = sale \<and> kds_open (ko_status o')) (sh_kds_orders st));
          st1 = st\<lparr>sh_kds_orders := map (\<lambda>o'. if ko_sale o' = sale \<and> kds_open (ko_status o')
             then o'\<lparr>ko_status := ''cancelled''\<rparr> else o') (sh_kds_orders st)\<rparr>
      in if cancelled = 0 then (0, st1)
         else (cancelled, st1\<lparr>sh_kds_items := map (\<lambda>i. if list_ex (\<lambda>o'. ko_id o' = ki_order i \<and> ko_sale o' = sale) (sh_kds_orders st1)
                    \<and> kds_open (ki_status i) then i\<lparr>ki_status := ''cancelled''\<rparr> else i) (sh_kds_items st1)\<rparr>))"

definition refund_audit :: "refund_args \<Rightarrow> string \<Rightarrow> refund \<Rightarrow> audit_row" where
  "refund_audit x cur r = \<lparr>au_id = ra_audit_id x, au_user = processed_by r, au_action = ''sale.refund'',
     au_target_type = ''sale'', au_target = refund_sale_id r,
     au_details = jobj [(''refund_id'', JStr (rid r)), (''reason'', JStr (reason r)),
       (''total_minor'', json_int (minor_units (refund_total r))), (''currency'', JStr cur),
       (''line_count'', json_int (int (length (refund_lines r))))],
     au_outcome = ''success'', au_created_at = refund_created_at r\<rparr>"

subsection \<open>Creating a refund\<close>

definition already_refunded :: "'a shop_scheme \<Rightarrow> string \<Rightarrow> string \<Rightarrow> int" where
  "already_refunded st sale cur =
     sum_list (map rf_total (filter (\<lambda>w. rf_sale w = sale \<and> rf_currency w = cur) (sh_refunds st)))"

definition enqueue_refund ::
    "(json \<Rightarrow> string) \<Rightarrow> queue_env \<Rightarrow> refund_args \<Rightarrow> refund \<Rightarrow> 'a shop_scheme \<Rightarrow> core_error + 'a shop_scheme" where
  "enqueue_refund render env x r st =
     (case enqueue_refund_outbox_in_tx render env (ra_queue x)
         (map_option so_tenant (find_sale st (refund_sale_id r))) r (sh_queue st) of
        Inl e \<Rightarrow> Inl e | Inr q \<Rightarrow> Inr (st\<lparr>sh_queue := q\<rparr>))"

definition refund_write_rows ::
    "(json \<Rightarrow> string) \<Rightarrow> queue_env \<Rightarrow> refund_args \<Rightarrow> string \<Rightarrow> string option \<Rightarrow> refund \<Rightarrow> 'a shop_scheme
       \<Rightarrow> (core_error, 'a shop_scheme) outcome" where
  "refund_write_rows render env x cur tenant r st =
     obind (of_sum (insert_refund cur tenant r st)) (\<lambda>st1.
     obind (oeach (\<lambda>l s. of_sum (insert_refund_line l s)) (refund_lines r) st1) (\<lambda>st2.
     of_sum (enqueue_refund render env x r st2)))"

definition refund_credit ::
    "(string \<Rightarrow> json option) \<Rightarrow> refund_args \<Rightarrow> refund \<Rightarrow> 'a shop_scheme \<Rightarrow> (core_error, 'a shop_scheme) outcome" where
  "refund_credit parse x r st =
     (case find_sale st (refund_sale_id r) of
        None \<Rightarrow> Err (NotFound ''sale'' (refund_sale_id r))
      | Some s \<Rightarrow>
          obind (case so_deductions s of
              None \<Rightarrow> credit_refund_to_default_location x r (0, st)
            | Some text \<Rightarrow>
                if text = ''null'' \<or> text = [] then credit_refund_to_default_location x r (0, st)
                else credit_refund_from_deduction_locations parse x r text (0, st))
            (\<lambda>(n, st'). Ok st'))"

definition refund_side_effects :: "refund_args \<Rightarrow> sale_row \<Rightarrow> refund \<Rightarrow> 'a shop_scheme \<Rightarrow> 'a shop_scheme" where
  "refund_side_effects x s r st =
     (let ly = snd (reverse_loyalty_on_refund (ra_now x) (refund_sale_id r) (rid r) (minor_units (refund_total r))
                (so_total s) (sh_loyalty st));
          ly' = (case so_customer s of None \<Rightarrow> ly
             | Some c \<Rightarrow> reverse_customer_spend_on_refund c (minor_units (refund_total r)) (so_total s)
                 (so_base_total s) (refund_created_at r) ly)
      in st\<lparr>sh_loyalty := ly'\<rparr>)"

definition refund_check ::
    "(string \<Rightarrow> nat) \<Rightarrow> refund \<Rightarrow> 'a shop_scheme \<Rightarrow> (core_error, string \<times> sale_row \<times> int) outcome" where
  "refund_check hash r st =
     (case from_utf8 (currency_bytes (money.currency (refund_total r))) of
        None \<Rightarrow> Err (Validation ''currency'')
      | Some cur \<Rightarrow> (case find_sale st (refund_sale_id r) of
          None \<Rightarrow> Err (NotFound ''sale'' (refund_sale_id r))
        | Some s \<Rightarrow>
            if cur \<noteq> so_currency s then Err (CurrencyMismatch (so_currency s) cur)
            else (case checked_add (already_refunded st (refund_sale_id r) cur) (minor_units (refund_total r)) of
                None \<Rightarrow> Err (Validation ''total'')
              | Some after \<Rightarrow>
                  if after > so_total s then Err (Validation ''total'')
                  else obind (claims_of (refund_lines r) []) (\<lambda>cs.
                    obind (of_sum (check_claims st (refund_sale_id r) (rid r) (hash_order hash cs))) (\<lambda>_. Ok (cur, s, after))))))"

definition create_refund ::
    "(json \<Rightarrow> string) \<Rightarrow> (string \<Rightarrow> json option) \<Rightarrow> (string \<Rightarrow> nat)
       \<Rightarrow> queue_env \<Rightarrow> refund_args \<Rightarrow> refund \<Rightarrow> 'a shop_scheme \<Rightarrow> (core_error, 'a shop_scheme) outcome" where
  "create_refund render parse hash env x r st =
     obind (refund_check hash r st) (\<lambda>(cur, s, after).
     obind (refund_write_rows render env x cur (so_tenant s) r st) (\<lambda>st1.
     obind (refund_credit parse x r st1) (\<lambda>st2.
     obind (of_sum (insert_audit (refund_audit x cur r) (refund_side_effects x s r st2))) (\<lambda>st3.
       Ok (if after \<ge> so_total s then snd (cancel_kds_orders_for_sale_in_tx (refund_sale_id r) st3) else st3)))))"

subsection \<open>Queries\<close>

definition row_to_refund_line :: "refund_line_row \<Rightarrow> core_error + refund_line" where
  "row_to_refund_line w = (case currency_from_str (rw_currency w) of
     Inl _ \<Rightarrow> Inl Db
   | Inr c \<Rightarrow> Inr \<lparr>rline_id = rw_id w, refund_id = rw_refund w, sale_line_id = rw_sale_line w, rline_sku = rw_sku w,
       rline_qty = rw_qty w, rline_unit_price = mk_money (rw_unit w) c, rline_total = mk_money (rw_minor w) c,
       rline_created_at = rw_created_at w\<rparr>)"

fun collect_sum :: "('a \<Rightarrow> 'e + 'b) \<Rightarrow> 'a list \<Rightarrow> 'e + 'b list" where
  "collect_sum f [] = Inr []"
| "collect_sum f (x # xs) = (case f x of Inl e \<Rightarrow> Inl e
   | Inr y \<Rightarrow> (case collect_sum f xs of Inl e \<Rightarrow> Inl e | Inr ys \<Rightarrow> Inr (y # ys)))"

definition row_to_refund :: "refund_row \<Rightarrow> core_error + refund" where
  "row_to_refund w = (case currency_from_str (rf_currency w) of
     Inl _ \<Rightarrow> Inl Db
   | Inr c \<Rightarrow> Inr \<lparr>rid = rf_id w, refund_sale_id = rf_sale w, refund_total = mk_money (rf_total w) c,
       reason = rf_reason w, refund_note = rf_note w, processed_by = rf_processed_by w,
       refund_created_at = rf_created_at w, refund_lines = []\<rparr>)"

definition refund_with_lines :: "'a shop_scheme \<Rightarrow> refund \<Rightarrow> core_error + refund" where
  "refund_with_lines st r =
     (case collect_sum row_to_refund_line
         (sort_key rw_created_at (filter (\<lambda>w. rw_refund w = rid r) (sh_refund_lines st))) of
        Inl e \<Rightarrow> Inl e | Inr ls \<Rightarrow> Inr (r\<lparr>refund_lines := ls\<rparr>))"

definition list_refunds_for_sale :: "'a shop_scheme \<Rightarrow> string \<Rightarrow> core_error + refund list" where
  "list_refunds_for_sale st sale =
     (case collect_sum row_to_refund (sort_key rf_created_at (filter (\<lambda>w. rf_sale w = sale) (sh_refunds st))) of
        Inl e \<Rightarrow> Inl e | Inr rs \<Rightarrow> collect_sum (refund_with_lines st) rs)"

definition total_refunded_for_sale :: "'a shop_scheme \<Rightarrow> string \<Rightarrow> core_error + money" where
  "total_refunded_for_sale st sale =
     (case find_sale st sale of
        None \<Rightarrow> Inl (NotFound ''sale'' sale)
      | Some s \<Rightarrow> (case currency_from_str (so_currency s) of
          Inl _ \<Rightarrow> Inl (Validation ''currency'')
        | Inr c \<Rightarrow> Inr (mk_money (already_refunded st sale (so_currency s)) c)))"

subsection \<open>What a successful refund has checked\<close>

declare of_sum_Ok [simp]

definition claimed_qty :: "refund_line list \<Rightarrow> string \<Rightarrow> int" where
  "claimed_qty ls k = sum_list (map rline_qty (filter (\<lambda>l. rline_qty l > 0 \<and> sale_line_id l = k) ls))"

definition claim_qty :: "(string \<times> claim) list \<Rightarrow> string \<Rightarrow> int" where
  "claim_qty cs k = (case map_of cs k of None \<Rightarrow> 0 | Some c \<Rightarrow> cm_qty c)"

lemma claims_of_step:
  assumes "claims_of (l # ls) cs = Ok cs'" and "rline_qty l > 0"
  obtains c where "claims_of ls (tab_update (sale_line_id l) c cs) = Ok cs'" "cm_sku c = rline_sku l"
    "cm_qty c = claim_qty cs (sale_line_id l) + rline_qty l"
    "\<And>old. map_of cs (sale_line_id l) = Some old \<Longrightarrow> cm_sku old = cm_sku c"
proof -
  define old where "old = (case map_of cs (sale_line_id l) of None \<Rightarrow> \<lparr>cm_qty = 0, cm_value = 0, cm_sku = rline_sku l\<rparr> | Some c \<Rightarrow> c)"
  have old: "cm_qty old = claim_qty cs (sale_line_id l)" by (simp add: old_def claim_qty_def split: option.split)
  obtain q v where "cm_sku old = rline_sku l" "checked_add (cm_qty old) (rline_qty l) = Some q"
      "claims_of ls (tab_update (sale_line_id l) (old\<lparr>cm_qty := q, cm_value := v\<rparr>) cs) = Ok cs'"
    using assms by (auto simp: Let_def simp flip: old_def split: if_splits option.splits)
  then show ?thesis using old by (intro that [of "old\<lparr>cm_qty := q, cm_value := v\<rparr>"]) (auto simp: checked_add_def old_def)
qed

lemma claims_of_skip: "claims_of (l # ls) cs = Ok cs' \<Longrightarrow> \<not> rline_qty l > 0 \<Longrightarrow> claims_of ls cs = Ok cs'"
  by simp

lemma claims_of_sku: "claims_of ls cs = Ok cs' \<Longrightarrow> map_of cs k = Some c \<Longrightarrow> \<exists>c'. map_of cs' k = Some c' \<and> cm_sku c' = cm_sku c"
proof (induction ls arbitrary: cs c)
  case (Cons l ls)
  show ?case
  proof (cases "rline_qty l > 0")
    case True
    then obtain d where d: "claims_of ls (tab_update (sale_line_id l) d cs) = Ok cs'"
        "\<And>old. map_of cs (sale_line_id l) = Some old \<Longrightarrow> cm_sku old = cm_sku d"
      using claims_of_step [OF Cons.prems(1)] by metis
    show ?thesis using Cons.IH [OF d(1)] d(2) Cons.prems(2) by (cases "k = sale_line_id l") auto
  next
    case False
    show ?thesis by (rule Cons.IH [OF claims_of_skip [OF Cons.prems(1) False] Cons.prems(2)])
  qed
qed simp

lemma claims_of_qty: "claims_of ls cs = Ok cs' \<Longrightarrow> claim_qty cs' k = claim_qty cs k + claimed_qty ls k"
proof (induction ls arbitrary: cs)
  case (Cons l ls)
  show ?case
  proof (cases "rline_qty l > 0")
    case True
    then obtain d where d: "claims_of ls (tab_update (sale_line_id l) d cs) = Ok cs'"
        "cm_qty d = claim_qty cs (sale_line_id l) + rline_qty l"
      using claims_of_step [OF Cons.prems(1)] by metis
    show ?thesis using Cons.IH [OF d(1)] d(2) True by (auto simp: claim_qty_def claimed_qty_def)
  next
    case False
    then show ?thesis using Cons.IH [OF claims_of_skip [OF Cons.prems(1) False]] by (simp add: claimed_qty_def)
  qed
qed (simp add: claimed_qty_def)

lemma claims_of_line:
  "claims_of ls cs = Ok cs' \<Longrightarrow> l \<in> set ls \<Longrightarrow> rline_qty l > 0 \<Longrightarrow> \<exists>c. map_of cs' (sale_line_id l) = Some c \<and> cm_sku c = rline_sku l"
proof (induction ls arbitrary: cs)
  case (Cons l' ls)
  show ?case
  proof (cases "rline_qty l' > 0")
    case True
    then obtain d where d: "claims_of ls (tab_update (sale_line_id l') d cs) = Ok cs'" "cm_sku d = rline_sku l'"
      using claims_of_step [OF Cons.prems(1)] by metis
    show ?thesis
    proof (cases "l = l'")
      case True
      then show ?thesis using claims_of_sku [OF d(1), of "sale_line_id l'" d] d(2) by simp
    next
      case False
      then show ?thesis using Cons.IH [OF d(1)] Cons.prems(2,3) by simp
    qed
  next
    case False
    then show ?thesis using Cons.IH [OF claims_of_skip [OF Cons.prems(1) False]] Cons.prems(2,3) by auto
  qed
qed simp

lemma claims_of_distinct: "claims_of ls cs = Ok cs' \<Longrightarrow> distinct (map fst cs) \<Longrightarrow> distinct (map fst cs')"
proof (induction ls arbitrary: cs)
  case (Cons l ls)
  then show ?case using claims_of_step [OF Cons.prems(1)] claims_of_skip [OF Cons.prems(1)]
    by (metis distinct_tab_update)
qed simp

lemma check_claims_Inr: "check_claims st sale refund cs = Inr u \<Longrightarrow> c \<in> set cs \<Longrightarrow> check_claim st sale refund c = Inr ()"
  by (induction cs) (auto split: sum.splits)

text \<open>
  What a line of an accepted refund is: its sale line is on record with the same SKU, and with all
  earlier refunds no more is returned of it than was sold.
\<close>

definition claim_granted :: "'a shop_scheme \<Rightarrow> refund \<Rightarrow> refund_line \<Rightarrow> bool" where
  "claim_granted st r l \<longleftrightarrow> (\<exists>w. List.find (\<lambda>w. sw_id w = sale_line_id l \<and> sw_sale w = refund_sale_id r) (sh_lines st) = Some w
     \<and> trim (rline_sku l) = trim (sw_sku w) \<and> trim (sw_sku w) \<noteq> []
     \<and> refunded_qty_for_sale_line_in_tx st (refund_sale_id r) (sale_line_id l) (rid r)
         + claimed_qty (refund_lines r) (sale_line_id l) \<le> sw_qty w)"

lemma refund_check_Ok:
  assumes "refund_check hash r st = Ok (cur, s, after)"
  shows "find_sale st (refund_sale_id r) = Some s" and "cur = so_currency s"
    and "after = already_refunded st (refund_sale_id r) cur + minor_units (refund_total r)" and "after \<le> so_total s"
    and "\<And>l. l \<in> set (refund_lines r) \<Longrightarrow> rline_qty l > 0 \<Longrightarrow> claim_granted st r l"
proof -
  obtain cs where cs: "claims_of (refund_lines r) [] = Ok cs"
      "check_claims st (refund_sale_id r) (rid r) (hash_order hash cs) = Inr ()"
      and rest: "find_sale st (refund_sale_id r) = Some s" "cur = so_currency s"
        "after = already_refunded st (refund_sale_id r) cur + minor_units (refund_total r)" "after \<le> so_total s"
    using assms
    by (auto simp: refund_check_def checked_add_def split: option.splits if_splits)
  show "find_sale st (refund_sale_id r) = Some s" "cur = so_currency s"
    "after = already_refunded st (refund_sale_id r) cur + minor_units (refund_total r)" "after \<le> so_total s"
    by (rule rest)+
  fix l assume l: "l \<in> set (refund_lines r)" "rline_qty l > 0"
  obtain c where c: "map_of cs (sale_line_id l) = Some c" "cm_sku c = rline_sku l"
    using claims_of_line [OF cs(1) l] by blast
  have "cm_qty c = claimed_qty (refund_lines r) (sale_line_id l)"
    using claims_of_qty [OF cs(1), of "sale_line_id l"] c(1) by (simp add: claim_qty_def)
  moreover have "(sale_line_id l, c) \<in> set (hash_order hash cs)"
    using c(1) by (simp add: hash_order_def map_of_SomeD)
  then have "check_claim st (refund_sale_id r) (rid r) (sale_line_id l, c) = Inr ()"
    by (rule check_claims_Inr [OF cs(2)])
  ultimately show "claim_granted st r l" using c(2)
    by (auto simp: check_claim_def claim_granted_def sold_line_for_sale_line_in_tx_def checked_add_def
        split: option.splits if_splits sum.splits)
qed

subsection \<open>What a successful refund has written\<close>

lemma oeach_keeps:
  assumes "\<And>x s s'. x \<in> set xs \<Longrightarrow> f x s = Ok s' \<Longrightarrow> P s \<Longrightarrow> P s'"
  shows "oeach f xs s = Ok s' \<Longrightarrow> P s \<Longrightarrow> P s'"
  using assms by (induction xs arbitrary: s) auto

definition line_row :: "refund_line \<Rightarrow> refund_line_row \<Rightarrow> bool" where
  "line_row l w \<longleftrightarrow> rw_id w = rline_id l \<and> rw_refund w = refund_line.refund_id l \<and> rw_sale_line w = sale_line_id l
     \<and> rw_sku w = rline_sku l \<and> rw_qty w = rline_qty l \<and> 0 < rline_qty l"

lemma insert_line_Ok:
  assumes "insert_refund_line l st = Inr st'"
  obtains w where "st' = st\<lparr>sh_refund_lines := sh_refund_lines st @ [w]\<rparr>" "line_row l w"
    "rw_refund w \<in> rf_id ` set (sh_refunds st)"
  using assms that by (auto simp: insert_refund_line_def insert_refund_line_row_def line_row_def split: option.splits if_splits)

lemma insert_lines_Ok:
  assumes "oeach (\<lambda>l s. of_sum (insert_refund_line l s)) ls st = Ok st'"
  obtains ws where "st' = st\<lparr>sh_refund_lines := sh_refund_lines st @ ws\<rparr>" "list_all2 line_row ls ws"
    "\<And>w. w \<in> set ws \<Longrightarrow> rw_refund w \<in> rf_id ` set (sh_refunds st)"
proof -
  have "\<exists>ws. st' = st\<lparr>sh_refund_lines := sh_refund_lines st @ ws\<rparr> \<and> list_all2 line_row ls ws
      \<and> (\<forall>w\<in>set ws. rw_refund w \<in> rf_id ` set (sh_refunds st))"
    using assms
  proof (induction ls arbitrary: st)
    case (Cons l ls)
    then obtain s1 where s1: "insert_refund_line l st = Inr s1" "oeach (\<lambda>l s. of_sum (insert_refund_line l s)) ls s1 = Ok st'"
      by auto
    obtain w where w: "s1 = st\<lparr>sh_refund_lines := sh_refund_lines st @ [w]\<rparr>" "line_row l w"
        "rw_refund w \<in> rf_id ` set (sh_refunds st)"
      using insert_line_Ok [OF s1(1)] .
    obtain ws where ws: "st' = s1\<lparr>sh_refund_lines := sh_refund_lines s1 @ ws\<rparr>" "list_all2 line_row ls ws"
        "\<forall>w\<in>set ws. rw_refund w \<in> rf_id ` set (sh_refunds s1)"
      using Cons.IH [OF s1(2)] by blast
    show ?case by (rule exI [of _ "w # ws"]) (use w ws in auto)
  qed simp
  then show ?thesis using that by blast
qed

lemma refund_write_rows_Ok:
  assumes "refund_write_rows render env x cur tenant r st = Ok st'"
  obtains row ws q where "st' = st\<lparr>sh_refunds := sh_refunds st @ [row], sh_refund_lines := sh_refund_lines st @ ws, sh_queue := q\<rparr>"
    "rf_id row = rid r" "rf_sale row = refund_sale_id r" "rf_total row = minor_units (refund_total r)" "rf_currency row = cur"
    "0 \<le> rf_total row" "rid r \<notin> rf_id ` set (sh_refunds st)" "list_all2 line_row (refund_lines r) ws"
    "\<And>w. w \<in> set ws \<Longrightarrow> rw_refund w \<in> insert (rid r) (rf_id ` set (sh_refunds st))"
proof -
  obtain st1 st2 where s: "insert_refund cur tenant r st = Inr st1"
      "oeach (\<lambda>l s. of_sum (insert_refund_line l s)) (refund_lines r) st1 = Ok st2"
      "enqueue_refund render env x r st2 = Inr st'"
    using assms by (auto simp: refund_write_rows_def)
  obtain row where row: "st1 = st\<lparr>sh_refunds := sh_refunds st @ [row]\<rparr>" "rf_id row = rid r" "rf_sale row = refund_sale_id r"
      "rf_total row = minor_units (refund_total r)" "rf_currency row = cur" "0 \<le> rf_total row"
      "rid r \<notin> rf_id ` set (sh_refunds st)"
    using s(1) by (auto simp: insert_refund_def insert_refund_row_def split: option.splits if_splits)
  obtain ws where ws: "st2 = st1\<lparr>sh_refund_lines := sh_refund_lines st1 @ ws\<rparr>" "list_all2 line_row (refund_lines r) ws"
      "\<And>w. w \<in> set ws \<Longrightarrow> rw_refund w \<in> rf_id ` set (sh_refunds st1)"
    using insert_lines_Ok [OF s(2)] by metis
  obtain q where "st' = st2\<lparr>sh_queue := q\<rparr>" using s(3) by (auto simp: enqueue_refund_def split: sum.splits)
  then show ?thesis using that row ws by simp
qed

text \<open>Crediting changes the stock, by steps of the stock ledger, and the audit log.\<close>

definition credits :: "'a shop_scheme \<Rightarrow> 'a shop_scheme \<Rightarrow> bool" where
  "credits st st' \<longleftrightarrow> (\<exists>stock audit. st' = st\<lparr>sh_stock := stock, sh_audit := audit\<rparr> \<and> stock_step\<^sup>*\<^sup>* (sh_stock st) stock)"

lemma creditsI: "st' = st\<lparr>sh_stock := stock, sh_audit := audit\<rparr> \<Longrightarrow> stock_step\<^sup>*\<^sup>* (sh_stock st) stock \<Longrightarrow> credits st st'"
  unfolding credits_def by blast

lemma credits_refl [simp]: "credits st st"
  by (rule creditsI [where stock = "sh_stock st" and audit = "sh_audit st"]) simp_all

lemma credits_trans: "credits a b \<Longrightarrow> credits b c \<Longrightarrow> credits a c"
  unfolding credits_def by fastforce

lemma refund_adjust_Ok:
  assumes "refund_adjust x sku q l (n, st) = Ok (n', st')"
  obtains k stock where "adjust_stock_at_location_with_reason (ra_adjust x n) sku q l (Some ''refund'') None None None (sh_stock st) = Inr (k, stock)"
    "st' = st\<lparr>sh_stock := stock\<rparr>"
  using assms that by (auto simp: refund_adjust_def split: sum.splits)

lemma refund_adjust_credits: "refund_adjust x sku q l s = Ok s' \<Longrightarrow> credits (snd s) (snd s')"
proof -
  assume a: "refund_adjust x sku q l s = Ok s'"
  obtain n st n' st' where s: "s = (n, st)" "s' = (n', st')" by (cases s; cases s')
  obtain k stock where k: "adjust_stock_at_location_with_reason (ra_adjust x n) sku q l (Some ''refund'') None None None (sh_stock st) = Inr (k, stock)"
      "st' = st\<lparr>sh_stock := stock\<rparr>"
    using refund_adjust_Ok a unfolding s by blast
  have "st' = st\<lparr>sh_stock := stock, sh_audit := sh_audit st\<rparr>" by (simp add: k(2))
  moreover have "stock_step\<^sup>*\<^sup>* (sh_stock st) stock" by (rule r_into_rtranclp) (rule stock_step.adjust [OF k(1)])
  ultimately show "credits (snd s) (snd s')" unfolding s snd_conv by (rule creditsI)
qed

lemma credit_reverse_credits: "credit_reverse x sku m ds s = Ok s' \<Longrightarrow> credits (snd s) (snd s')"
proof (induction ds arbitrary: m s)
  case (Cons d ds)
  show ?case using Cons.prems
    by (auto simp: split: if_splits option.splits intro: credits_trans [OF refund_adjust_credits Cons.IH])
qed simp

lemma oeach_credits:
  assumes "\<And>x s s'. x \<in> set xs \<Longrightarrow> f x s = Ok s' \<Longrightarrow> credits (snd s) (snd s')" and "oeach f xs s = Ok s'"
  shows "credits (snd s) (snd s')"
proof (rule oeach_keeps [of xs f "\<lambda>t. credits (snd s) (snd t)", OF _ assms(2)])
  show "credits (snd s) (snd s)" by simp
next
  fix x a b assume "x \<in> set xs" "f x a = Ok b" "credits (snd s) (snd a)"
  then show "credits (snd s) (snd b)" using assms(1) credits_trans by blast
qed

lemma credit_refund_line_Ok:
  assumes "credit_refund_line x r entries l s = Ok s'"
  obtains (nothing) "rline_qty l \<le> 0" "s' = s"
  | (credit) d ds deducted sku where
    "List.find (\<lambda>e. as_str (jget e ''sale_line_id'') = Some (sale_line_id l)) entries = Some d"
    "as_array (jget d ''deductions'') = Some ds"
    "sum_panicking (List.map_filter (\<lambda>e. as_i64 (jget e ''qty'')) ds) 0 = Ok deducted" "recorded_sku d = Ok sku"
    "refunded_qty_for_sale_line_in_tx (snd s) (refund_sale_id r) (sale_line_id l) (rid r) + rline_qty l \<le> deducted"
    "0 < rline_qty l"
    "rline_qty l \<ge> deducted \<and> oeach (credit_entry x sku) ds s = Ok s'
      \<or> rline_qty l < deducted \<and> credit_reverse x sku (rline_qty l) (rev ds) s = Ok s'"
proof -
  obtain d ds deducted where d: "List.find (\<lambda>e. as_str (jget e ''sale_line_id'') = Some (sale_line_id l)) entries = Some d"
      "as_array (jget d ''deductions'') = Some ds"
      "sum_panicking (List.map_filter (\<lambda>e. as_i64 (jget e ''qty'')) ds) 0 = Ok deducted"
    using assms by (auto simp: credit_refund_line_def split: option.splits)
  show ?thesis
  proof (cases "rline_qty l \<le> 0")
    case True
    have "s' = s" using assms d True by (simp add: credit_refund_line_def)
    with True show ?thesis by (rule nothing)
  next
    case False
    define rest where "rest sku = (if rline_qty l \<ge> deducted then oeach (credit_entry x sku) ds s
      else credit_reverse x sku (rline_qty l) (rev ds) s)" for sku
    obtain sku where "recorded_sku d = Ok sku" "rest sku = Ok s'"
        "refunded_qty_for_sale_line_in_tx (snd s) (refund_sale_id r) (sale_line_id l) (rid r) + rline_qty l \<le> deducted"
      using assms d False
      by (auto simp: credit_refund_line_def checked_add_def simp flip: rest_def split: option.splits if_splits)
    moreover have "rline_qty l \<ge> deducted \<and> oeach (credit_entry x sku) ds s = Ok s'
        \<or> rline_qty l < deducted \<and> credit_reverse x sku (rline_qty l) (rev ds) s = Ok s'"
      using \<open>rest sku = Ok s'\<close> by (auto simp: rest_def split: if_splits)
    ultimately show ?thesis using d False by (intro credit) auto
  qed
qed

lemma credit_entry_credits: "credit_entry x sku d s = Ok s' \<Longrightarrow> credits (snd s) (snd s')"
  by (auto simp: credit_entry_def intro: refund_adjust_credits)

lemma credit_refund_line_credits:
  assumes "credit_refund_line x r entries l s = Ok s'"
  shows "credits (snd s) (snd s')"
  using assms
proof (cases rule: credit_refund_line_Ok)
  case (credit d ds deducted sku)
  then show ?thesis using credit_reverse_credits oeach_credits [of ds "credit_entry x sku" s s'] credit_entry_credits by metis
qed simp

lemma credit_default_line_credits: "credit_default_line x r l s = Ok s' \<Longrightarrow> credits (snd s) (snd s')"
  by (auto simp: credit_default_line_def split: option.splits if_splits sum.splits intro: refund_adjust_credits)

lemma refund_credit_credits:
  assumes "refund_credit parse x r st = Ok st'"
  shows "credits st st'"
proof -
  have audit: "credits a b" if "insert_audit w a = Inr b" for a b :: "'a shop_scheme" and w
    using that by (auto simp: insert_audit_def split: if_splits intro: creditsI [where stock = "sh_stock a"])
  have "credits st b" if h: "credit_refund_to_default_location x r (0, st) = Ok (n, b)" for n b
  proof -
    obtain m a where a: "oeach (credit_default_line x r) (refund_lines r) (0, st) = Ok (m, a)"
        "insert_audit (legacy_audit x r) a = Inr b"
      using h by (auto simp: credit_refund_to_default_location_def)
    have "credits st a" using oeach_credits [OF credit_default_line_credits a(1)] by simp
    then show ?thesis by (rule credits_trans) (rule audit [OF a(2)])
  qed
  moreover have "credits st b" if h: "credit_refund_from_deduction_locations parse x r t (0, st) = Ok (n, b)" for n b t
  proof -
    obtain es where "oeach (credit_refund_line x r es) (refund_lines r) (0, st) = Ok (n, b)"
      using h by (auto simp: credit_refund_from_deduction_locations_def split: option.splits)
    then show ?thesis using oeach_credits [OF credit_refund_line_credits] by fastforce
  qed
  ultimately show ?thesis using assms by (auto simp: refund_credit_def split: option.splits if_splits)
qed

lemma reverse_loyalty_sales [simp]:
  "lo_sales (snd (reverse_loyalty_on_refund now sale rf m t ly)) = lo_sales ly"
proof -
  obtain o' ly' where e: "reverse_loyalty_on_refund now sale rf m t ly = (o', ly')" by (cases "reverse_loyalty_on_refund now sale rf m t ly")
  then show ?thesis
  proof (cases rule: reverse_cases)
    case (2 earn deduct txn st1)
    then show ?thesis using insert_loyalty_txn_Inr(1) [OF 2(4)] e by simp
  qed (simp add: e)
qed

lemma side_effects_frame:
  "sh_lines (refund_side_effects x s r st) = sh_lines st" "sh_refunds (refund_side_effects x s r st) = sh_refunds st"
  "sh_refund_lines (refund_side_effects x s r st) = sh_refund_lines st" "sh_stock (refund_side_effects x s r st) = sh_stock st"
  "lo_sales (sh_loyalty (refund_side_effects x s r st)) = lo_sales (sh_loyalty st)"
proof -
  show "sh_lines (refund_side_effects x s r st) = sh_lines st" "sh_refunds (refund_side_effects x s r st) = sh_refunds st"
    "sh_refund_lines (refund_side_effects x s r st) = sh_refund_lines st" "sh_stock (refund_side_effects x s r st) = sh_stock st"
    by (simp_all add: refund_side_effects_def Let_def)
  show "lo_sales (sh_loyalty (refund_side_effects x s r st)) = lo_sales (sh_loyalty st)"
    by (simp add: refund_side_effects_def Let_def reverse_customer_spend_on_refund_def split: option.split)
qed

text \<open>The tables that refunds read and write, apart from the accepted refund's own rows.\<close>

definition books :: "'a shop_scheme \<Rightarrow> sale_row list \<times> sale_line_row list \<times> refund_row list \<times> refund_line_row list" where
  "books st = (lo_sales (sh_loyalty st), sh_lines st, sh_refunds st, sh_refund_lines st)"

lemma create_refund_steps:
  assumes "create_refund render parse hash env x r st = Ok st'"
  obtains cur s after st1 st2 st3 where "refund_check hash r st = Ok (cur, s, after)"
    "refund_write_rows render env x cur (so_tenant s) r st = Ok st1" "refund_credit parse x r st1 = Ok st2"
    "insert_audit (refund_audit x cur r) (refund_side_effects x s r st2) = Inr st3"
    "st' = (if after \<ge> so_total s then snd (cancel_kds_orders_for_sale_in_tx (refund_sale_id r) st3) else st3)"
  using assms that by (auto simp: create_refund_def)

lemma create_refund_Ok:
  assumes "create_refund render parse hash env x r st = Ok st'"
  obtains s row ws where "find_sale st (refund_sale_id r) = Some s" "rf_id row = rid r" "rf_sale row = refund_sale_id r"
    "rf_currency row = so_currency s" "0 \<le> rf_total row" "rid r \<notin> rf_id ` set (sh_refunds st)"
    "already_refunded st (refund_sale_id r) (so_currency s) + rf_total row \<le> so_total s"
    "list_all2 line_row (refund_lines r) ws"
    "books st' = (lo_sales (sh_loyalty st), sh_lines st, sh_refunds st @ [row], sh_refund_lines st @ ws)"
    "\<And>l. l \<in> set (refund_lines r) \<Longrightarrow> 0 < rline_qty l \<Longrightarrow> claim_granted st r l"
    "stock_step\<^sup>*\<^sup>* (sh_stock st) (sh_stock st')"
proof -
  obtain cur s after st1 st2 st3 where c: "refund_check hash r st = Ok (cur, s, after)"
      and w: "refund_write_rows render env x cur (so_tenant s) r st = Ok st1" and cr: "refund_credit parse x r st1 = Ok st2"
      and a: "insert_audit (refund_audit x cur r) (refund_side_effects x s r st2) = Inr st3"
      and st': "st' = (if after \<ge> so_total s then snd (cancel_kds_orders_for_sale_in_tx (refund_sale_id r) st3) else st3)"
    using create_refund_steps [OF assms] .
  note chk = refund_check_Ok [OF c]
  obtain row ws q where rows: "st1 = st\<lparr>sh_refunds := sh_refunds st @ [row], sh_refund_lines := sh_refund_lines st @ ws, sh_queue := q\<rparr>"
      "rf_id row = rid r" "rf_sale row = refund_sale_id r" "rf_total row = minor_units (refund_total r)" "rf_currency row = cur"
      "0 \<le> rf_total row" "rid r \<notin> rf_id ` set (sh_refunds st)" "list_all2 line_row (refund_lines r) ws"
    using refund_write_rows_Ok [OF w] by metis
  obtain stock audit where st2: "st2 = st1\<lparr>sh_stock := stock, sh_audit := audit\<rparr>" "stock_step\<^sup>*\<^sup>* (sh_stock st1) stock"
    using refund_credit_credits [OF cr] by (auto simp: credits_def)
  have st3: "books st3 = books st2" "sh_stock st3 = sh_stock st2"
    using a by (auto simp: insert_audit_def books_def side_effects_frame split: if_splits)
  have "books st' = books st3" "sh_stock st' = sh_stock st3"
    by (simp_all add: st' books_def cancel_kds_orders_for_sale_in_tx_def Let_def)
  then have "books st' = books st2" "sh_stock st' = stock" using st3 st2 by simp_all
  then show ?thesis using that [of s row ws] chk rows st2 by (simp add: books_def)
qed

subsection \<open>The books of sales and refunds\<close>

definition returned_qty :: "'a shop_scheme \<Rightarrow> string \<Rightarrow> string \<Rightarrow> int" where
  "returned_qty st sale line = sum_list (map rw_qty (filter (\<lambda>w. rw_sale_line w = line
     \<and> list_ex (\<lambda>r. rf_id r = rw_refund w \<and> rf_sale r = sale) (sh_refunds st)) (sh_refund_lines st)))"

definition refunded_total :: "'a shop_scheme \<Rightarrow> string \<Rightarrow> int" where
  "refunded_total st sale = sum_list (map rf_total (filter (\<lambda>r. rf_sale r = sale) (sh_refunds st)))"

text \<open>A row of a refund names a line of the refunded sale and its SKU.\<close>

definition row_of_sale :: "'a shop_scheme \<Rightarrow> refund_line_row \<Rightarrow> bool" where
  "row_of_sale st w \<longleftrightarrow> 0 < rw_qty w \<and> (\<exists>r\<in>set (sh_refunds st). rf_id r = rw_refund w
     \<and> (\<exists>l\<in>set (sh_lines st). sw_id l = rw_sale_line w \<and> sw_sale l = rf_sale r \<and> trim (sw_sku l) = trim (rw_sku w)))"

definition refunds_ok :: "'a shop_scheme \<Rightarrow> bool" where
  "refunds_ok st \<longleftrightarrow> distinct (map so_id (lo_sales (sh_loyalty st))) \<and> distinct (map sw_id (sh_lines st))
     \<and> distinct (map rf_id (sh_refunds st))
     \<and> (\<forall>r\<in>set (sh_refunds st). 0 \<le> rf_total r
          \<and> (\<exists>s\<in>set (lo_sales (sh_loyalty st)). so_id s = rf_sale r \<and> so_currency s = rf_currency r))
     \<and> (\<forall>s\<in>set (lo_sales (sh_loyalty st)). refunded_total st (so_id s) \<le> max 0 (so_total s))
     \<and> (\<forall>w\<in>set (sh_refund_lines st). row_of_sale st w)
     \<and> (\<forall>l\<in>set (sh_lines st). returned_qty st (sw_sale l) (sw_id l) \<le> max 0 (sw_qty l))"

lemma refunds_ok_cong: "books st = books st' \<Longrightarrow> refunds_ok st = refunds_ok st'"
  by (simp add: refunds_ok_def books_def returned_qty_def refunded_total_def row_of_sale_def)

lemma same_key: "distinct (map f xs) \<Longrightarrow> x \<in> set xs \<Longrightarrow> y \<in> set xs \<Longrightarrow> f x = f y \<Longrightarrow> x = y"
  by (auto simp: distinct_map dest: inj_onD)

lemma find_sale_Some:
  assumes "find_sale st sale = Some s"
  shows "s \<in> set (lo_sales (sh_loyalty st))" "so_id s = sale"
  using assms by (auto simp: find_sale_def find_Some_iff)

lemma refunds_ok_unique:
  assumes "refunds_ok st"
  shows "s \<in> set (lo_sales (sh_loyalty st)) \<Longrightarrow> q \<in> set (lo_sales (sh_loyalty st)) \<Longrightarrow> so_id s = so_id q \<Longrightarrow> s = q"
    and "k \<in> set (sh_lines st) \<Longrightarrow> l \<in> set (sh_lines st) \<Longrightarrow> sw_id k = sw_id l \<Longrightarrow> k = l"
  using assms unfolding refunds_ok_def by (blast intro: same_key)+

lemma refunded_qty_fresh:
  assumes "refunds_ok st" and "i \<notin> rf_id ` set (sh_refunds st)"
  shows "refunded_qty_for_sale_line_in_tx st sale line i = returned_qty st sale line"
proof -
  have "rw_sale_line w = line \<and> rw_qty w > 0 \<and> list_ex (\<lambda>r. rf_id r = rw_refund w \<and> rf_sale r = sale \<and> rf_id r \<noteq> i) (sh_refunds st)
      \<longleftrightarrow> rw_sale_line w = line \<and> list_ex (\<lambda>r. rf_id r = rw_refund w \<and> rf_sale r = sale) (sh_refunds st)"
    if "w \<in> set (sh_refund_lines st)" for w
    using assms that by (auto simp: refunds_ok_def row_of_sale_def list_ex_iff)
  then show ?thesis unfolding refunded_qty_for_sale_line_in_tx_def returned_qty_def by (simp cong: filter_cong)
qed

lemma already_refunded_all:
  assumes "refunds_ok st" and "s \<in> set (lo_sales (sh_loyalty st))"
  shows "already_refunded st (so_id s) (so_currency s) = refunded_total st (so_id s)"
proof -
  have "rf_currency r = so_currency s" if r: "r \<in> set (sh_refunds st)" "rf_sale r = so_id s" for r
  proof -
    obtain s' where s': "s' \<in> set (lo_sales (sh_loyalty st))" "so_id s' = so_id s" "so_currency s' = rf_currency r"
      using assms(1) r by (force simp: refunds_ok_def)
    then have "s' = s" using refunds_ok_unique(1) [OF assms(1) _ assms(2)] by simp
    then show ?thesis using s' by simp
  qed
  then show ?thesis unfolding already_refunded_def refunded_total_def
    by (intro arg_cong [where f = "\<lambda>xs. sum_list (map rf_total xs)"] filter_cong) auto
qed

lemma claimed_rows:
  "list_all2 line_row ls ws \<Longrightarrow> sum_list (map rw_qty (filter (\<lambda>w. rw_sale_line w = k) ws)) = claimed_qty ls k"
  by (induction rule: list_all2_induct) (auto simp: claimed_qty_def line_row_def)

lemma claimed_qty_none: "(\<And>l. l \<in> set ls \<Longrightarrow> 0 < rline_qty l \<Longrightarrow> sale_line_id l \<noteq> k) \<Longrightarrow> claimed_qty ls k = 0"
  unfolding claimed_qty_def by (subst filter_False) auto

lemma refund_recorded_keeps:
  assumes ok: "refunds_ok st" and own: "list_all (\<lambda>l. refund_line.refund_id l = rid r) (refund_lines r)"
    and s: "find_sale st (refund_sale_id r) = Some s"
    and row: "rf_id row = rid r" "rf_sale row = refund_sale_id r" "rf_currency row = so_currency s" "0 \<le> rf_total row"
    and fresh: "rid r \<notin> rf_id ` set (sh_refunds st)"
    and money: "already_refunded st (refund_sale_id r) (so_currency s) + rf_total row \<le> so_total s"
    and ws: "list_all2 line_row (refund_lines r) ws"
    and b: "books st' = (lo_sales (sh_loyalty st), sh_lines st, sh_refunds st @ [row], sh_refund_lines st @ ws)"
    and granted: "\<And>l. l \<in> set (refund_lines r) \<Longrightarrow> 0 < rline_qty l \<Longrightarrow> claim_granted st r l"
  shows "refunds_ok st'"
proof -
  have b': "lo_sales (sh_loyalty st') = lo_sales (sh_loyalty st)" "sh_lines st' = sh_lines st"
      "sh_refunds st' = sh_refunds st @ [row]" "sh_refund_lines st' = sh_refund_lines st @ ws"
    using b by (simp_all add: books_def)
  note sale = find_sale_Some [OF s]
  have new: "\<exists>l\<in>set (refund_lines r). line_row l w" if "w \<in> set ws" for w
    using ws that by (auto simp: list_all2_conv_all_nth in_set_conv_nth) (metis nth_mem)
  have new_refund: "rw_refund w = rid r" if "w \<in> set ws" for w
    using new [OF that] own by (auto simp: line_row_def list_all_iff)
  have old: "row_of_sale st w" if "w \<in> set (sh_refund_lines st)" for w using ok that by (simp add: refunds_ok_def)
  have granted_line: "\<exists>k\<in>set (sh_lines st). sw_id k = sale_line_id l \<and> sw_sale k = refund_sale_id r \<and> trim (sw_sku k) = trim (rline_sku l)
      \<and> returned_qty st (refund_sale_id r) (sale_line_id l) + claimed_qty (refund_lines r) (sale_line_id l) \<le> sw_qty k"
    if "l \<in> set (refund_lines r)" "0 < rline_qty l" for l
    using granted [OF that] refunded_qty_fresh [OF ok fresh] by (auto simp: claim_granted_def find_Some_iff)
  have totals: "refunded_total st' (so_id q) \<le> max 0 (so_total q)" if q: "q \<in> set (lo_sales (sh_loyalty st))" for q
  proof (cases "so_id q = refund_sale_id r")
    case True
    then have "q = s" using refunds_ok_unique(1) [OF ok q sale(1)] sale(2) by simp
    then show ?thesis using money already_refunded_all [OF ok sale(1)] row(2) sale(2) by (simp add: refunded_total_def b')
  next
    case False
    then show ?thesis using ok q row(2) by (simp add: refunds_ok_def refunded_total_def b')
  qed
  have rows: "row_of_sale st' w" if "w \<in> set (sh_refund_lines st')" for w
  proof (cases "w \<in> set ws")
    case True
    obtain l where l: "l \<in> set (refund_lines r)" "line_row l w" using new [OF True] ..
    then show ?thesis using granted_line [OF l(1)] new_refund [OF True] row(1,2)
      by (auto simp: row_of_sale_def b' line_row_def)
  next
    case False
    then show ?thesis using that old [of w] by (auto simp: row_of_sale_def b')
  qed
  have returned: "returned_qty st' sale k = returned_qty st sale k + (if sale = refund_sale_id r then claimed_qty (refund_lines r) k else 0)" for sale k
  proof -
    have "rf_id row \<noteq> rw_refund w" if "w \<in> set (sh_refund_lines st)" for w
      using old [OF that] fresh row(1) unfolding row_of_sale_def by (metis image_eqI)
    then have "filter (\<lambda>w. rw_sale_line w = k \<and> list_ex (\<lambda>r. rf_id r = rw_refund w \<and> rf_sale r = sale) (sh_refunds st')) (sh_refund_lines st)
        = filter (\<lambda>w. rw_sale_line w = k \<and> list_ex (\<lambda>r. rf_id r = rw_refund w \<and> rf_sale r = sale) (sh_refunds st)) (sh_refund_lines st)"
      by (intro filter_cong) (auto simp: b')
    moreover have "list_ex (\<lambda>q. rf_id q = rid r \<and> rf_sale q = sale) (sh_refunds st') \<longleftrightarrow> sale = refund_sale_id r"
      using row(1,2) fresh unfolding b' list_ex_iff by (auto simp: image_iff)
    then have "filter (\<lambda>w. rw_sale_line w = k \<and> list_ex (\<lambda>r. rf_id r = rw_refund w \<and> rf_sale r = sale) (sh_refunds st')) ws
        = (if sale = refund_sale_id r then filter (\<lambda>w. rw_sale_line w = k) ws else [])"
      using new_refund by (auto simp: filter_empty_conv intro!: filter_cong)
    ultimately show ?thesis using claimed_rows [OF ws, of k] by (simp add: returned_qty_def b')
  qed
  have "returned_qty st' (sw_sale l) (sw_id l) \<le> max 0 (sw_qty l)" if l: "l \<in> set (sh_lines st)" for l
  proof (cases "\<exists>c\<in>set (refund_lines r). 0 < rline_qty c \<and> sale_line_id c = sw_id l")
    case True
    then obtain c where c: "c \<in> set (refund_lines r)" "0 < rline_qty c" "sale_line_id c = sw_id l" by blast
    obtain k where k: "k \<in> set (sh_lines st)" "sw_id k = sw_id l" "sw_sale k = refund_sale_id r"
        "returned_qty st (refund_sale_id r) (sw_id l) + claimed_qty (refund_lines r) (sw_id l) \<le> sw_qty k"
      using granted_line [OF c(1,2)] c(3) by auto
    then have "k = l" using refunds_ok_unique(2) [OF ok _ l] by simp
    then show ?thesis using k returned by simp
  next
    case False
    then have "claimed_qty (refund_lines r) (sw_id l) = 0" by (intro claimed_qty_none) auto
    then have "returned_qty st' (sw_sale l) (sw_id l) = returned_qty st (sw_sale l) (sw_id l)" using returned by simp
    then show ?thesis using ok l by (simp add: refunds_ok_def)
  qed
  moreover have "0 \<le> rf_total q \<and> (\<exists>s\<in>set (lo_sales (sh_loyalty st)). so_id s = rf_sale q \<and> so_currency s = rf_currency q)"
    if "q \<in> set (sh_refunds st')" for q
    using that ok row sale by (auto simp: b' refunds_ok_def)
  ultimately show ?thesis using ok totals rows fresh row(1) by (simp add: refunds_ok_def b')
qed

definition with_sales :: "sale_row list \<Rightarrow> loyalty_store \<Rightarrow> loyalty_store" where
  "with_sales ss ly = ly\<lparr>lo_sales := ss\<rparr>"

definition empty_shop :: shop where
  "empty_shop = \<lparr>sh_loyalty = empty_loyalty, sh_stock = \<lparr>products = [], stock_locations = [], inventory_txns = [],
     terminal_ws = [], bindings = [], thresholds = [], alerts = [], movements = [], archived = [], summary = [],
     inventory = []\<rparr>, sh_queue = empty_queue, sh_lines = [], sh_refunds = [], sh_refund_lines = [], sh_audit = [],
     sh_kds_orders = [], sh_kds_items = []\<rparr>"

subsection \<open>The goods go back to stock\<close>

text \<open>\<open>g p\<close> units of each product \<open>p\<close> have been added, in the tables and in the ledger.\<close>

definition moved :: "stock_store \<Rightarrow> stock_store \<Rightarrow> (string \<Rightarrow> int) \<Rightarrow> bool" where
  "moved a b g \<longleftrightarrow> products b = products a \<and> distinct (map fst (summary b))
     \<and> (\<forall>p. stock_total b p = stock_total a p + g p \<and> ledger_total b p = ledger_total a p + g p)"

definition at_sku :: "stock_store \<Rightarrow> string \<Rightarrow> int \<Rightarrow> string \<Rightarrow> int" where
  "at_sku st sku q p = (if stock_product_id_by_sku st sku = Some p then q else 0)"

lemma moved_trans: "moved a b f \<Longrightarrow> moved b c g \<Longrightarrow> moved a c (\<lambda>p. f p + g p)"
  by (simp add: moved_def)

lemma at_sku_cong: "products a = products b \<Longrightarrow> at_sku a sku q = at_sku b sku q"
  by (simp add: at_sku_def stock_product_id_by_sku_def fun_eq_iff)

lemma moved_at_sku:
  assumes "moved a b (at_sku a sku q)" and "moved b c (at_sku b sku q')"
  shows "moved a c (at_sku a sku (q + q'))"
proof -
  have "at_sku b sku q' = at_sku a sku q'" using assms(1) by (intro at_sku_cong) (simp add: moved_def)
  then have "(\<lambda>p. at_sku a sku q p + at_sku b sku q' p) = at_sku a sku (q + q')" by (auto simp: at_sku_def fun_eq_iff)
  then show ?thesis using moved_trans [OF assms] by simp
qed

lemma moved_none: "distinct (map fst (summary a)) \<Longrightarrow> moved a a (at_sku a sku 0)"
  by (simp add: moved_def at_sku_def)

lemma refund_adjust_moved:
  assumes "refund_adjust x sku q l s = Ok s'" and d: "distinct (map fst (summary (sh_stock (snd s))))"
  shows "moved (sh_stock (snd s)) (sh_stock (snd s')) (at_sku (sh_stock (snd s)) sku q)"
proof -
  obtain n st n' st' where s: "s = (n, st)" "s' = (n', st')" by (cases s; cases s')
  obtain k stock where a: "adjust_stock_at_location_with_reason (ra_adjust x n) sku q l (Some ''refund'') None None None (sh_stock st) = Inr (k, stock)"
      "st' = st\<lparr>sh_stock := stock\<rparr>"
    using refund_adjust_Ok assms(1) unfolding s by blast
  obtain p where p: "stock_product_id_by_sku (sh_stock st) sku = Some p" "k = legacy_aware_location_qty (sh_stock st) p l + q"
      "adjusted (sh_stock st) p l q k stock"
    using adjust_Inr [OF a(1)] by blast
  have d': "distinct (map fst (summary (sh_stock st)))" using d by (simp add: s)
  show ?thesis using adjusted_facts(1,3,4) [OF p(3,2) d'] adjust_products [OF a(1)] p(1)
    by (simp add: s a(2) moved_def at_sku_def)
qed

definition entries_sum :: "json list \<Rightarrow> int" where
  "entries_sum ds = sum_list (List.map_filter (\<lambda>e. as_i64 (jget e ''qty'')) ds)"

lemma entries_sum_simps [simp]: "entries_sum [] = 0"
  "entries_sum (d # ds) = (case as_i64 (jget d ''qty'') of None \<Rightarrow> 0 | Some q \<Rightarrow> q) + entries_sum ds"
  "entries_sum (rev ds) = entries_sum ds"
proof -
  show "entries_sum [] = 0" "entries_sum (d # ds) = (case as_i64 (jget d ''qty'') of None \<Rightarrow> 0 | Some q \<Rightarrow> q) + entries_sum ds"
    by (simp_all add: entries_sum_def List.map_filter_simps split: option.split)
  show "entries_sum (rev ds) = entries_sum ds"
    by (simp add: entries_sum_def List.map_filter_def flip: rev_map rev_filter)
qed

lemma sum_panicking_Ok: "sum_panicking qs acc = Ok v \<Longrightarrow> v = acc + sum_list qs"
  by (induction qs acc rule: sum_panicking.induct) (auto simp: checked_add_def split: option.splits)

lemma credit_entry_moved:
  assumes "credit_entry x sku d s = Ok s'" and "distinct (map fst (summary (sh_stock (snd s))))"
  shows "moved (sh_stock (snd s)) (sh_stock (snd s')) (at_sku (sh_stock (snd s)) sku (entries_sum [d]))"
proof -
  obtain l q where "refund_adjust x sku q l s = Ok s'" "as_i64 (jget d ''qty'') = Some q"
    using assms(1) by (auto simp: credit_entry_def entry_qty_def)
  then show ?thesis using refund_adjust_moved assms(2) by simp
qed

lemma credit_entries_moved:
  "oeach (credit_entry x sku) ds s = Ok s' \<Longrightarrow> distinct (map fst (summary (sh_stock (snd s)))) \<Longrightarrow>
   moved (sh_stock (snd s)) (sh_stock (snd s')) (at_sku (sh_stock (snd s)) sku (entries_sum ds))"
proof (induction ds arbitrary: s)
  case Nil
  then show ?case by (simp add: moved_none)
next
  case (Cons d ds)
  then obtain s1 where s1: "credit_entry x sku d s = Ok s1" "oeach (credit_entry x sku) ds s1 = Ok s'" by auto
  note m = credit_entry_moved [OF s1(1) Cons.prems(2)]
  then have "distinct (map fst (summary (sh_stock (snd s1))))" by (simp add: moved_def)
  from moved_at_sku [OF m Cons.IH [OF s1(2) this]] show ?case by simp
qed

lemma credit_reverse_moved:
  "credit_reverse x sku m ds s = Ok s' \<Longrightarrow> 0 \<le> m \<Longrightarrow> distinct (map fst (summary (sh_stock (snd s)))) \<Longrightarrow>
   \<exists>c. moved (sh_stock (snd s)) (sh_stock (snd s')) (at_sku (sh_stock (snd s)) sku c) \<and> c \<le> m \<and> (c = m \<or> c = entries_sum ds)"
proof (induction ds arbitrary: m s)
  case Nil
  then show ?case using moved_none by fastforce
next
  case (Cons d ds)
  show ?case
  proof (cases "m = 0")
    case True
    then show ?thesis using Cons.prems moved_none by fastforce
  next
    case False
    then obtain l q s1 where q: "as_i64 (jget d ''qty'') = Some q" "refund_adjust x sku (min q m) l s = Ok s1"
        "credit_reverse x sku (m - min q m) ds s1 = Ok s'"
      using Cons.prems(1,2) by (auto simp: entry_qty_def checked_sub_def split: option.splits if_splits)
    note a = refund_adjust_moved [OF q(2) Cons.prems(3)]
    then have d: "distinct (map fst (summary (sh_stock (snd s1))))" by (simp add: moved_def)
    show ?thesis
    proof (cases "m \<le> q")
      case True
      then have "s' = s1" using q(3) by (cases ds) auto
      then show ?thesis using a True by (intro exI [of _ m]) simp
    next
      case False
      then obtain c where "moved (sh_stock (snd s1)) (sh_stock (snd s')) (at_sku (sh_stock (snd s1)) sku c)"
          "c \<le> m - q" "c = m - q \<or> c = entries_sum ds"
        using Cons.IH [OF q(3) _ d] by auto
      then show ?thesis using moved_at_sku [OF a] False q(1) by (intro exI [of _ "q + c"]) auto
    qed
  qed
qed

text \<open>Where the units of a line go: to the product whose SKU the sale recorded at its deduction.\<close>

definition deducted_sku :: "json list \<Rightarrow> refund_line \<Rightarrow> string option" where
  "deducted_sku entries l = Option.bind (List.find (\<lambda>e. as_str (jget e ''sale_line_id'') = Some (sale_line_id l)) entries)
     (\<lambda>d. as_str (jget d ''sku''))"

definition credited_sku :: "(string \<Rightarrow> json option) \<Rightarrow> 'a shop_scheme \<Rightarrow> refund \<Rightarrow> refund_line \<Rightarrow> string option" where
  "credited_sku parse st r l = (case Option.bind (find_sale st (refund_sale_id r)) so_deductions of
     Some text \<Rightarrow> if text = ''null'' \<or> text = [] then map_option sw_sku (List.find (\<lambda>w. sw_id w = sale_line_id l \<and> sw_sale w = refund_sale_id r) (sh_lines st))
       else Option.bind (Option.bind (parse text) (\<lambda>v. as_array (jget v ''lines''))) (\<lambda>entries. deducted_sku entries l)
   | None \<Rightarrow> map_option sw_sku (List.find (\<lambda>w. sw_id w = sale_line_id l \<and> sw_sale w = refund_sale_id r) (sh_lines st)))"

definition at_product :: "stock_store \<Rightarrow> string option \<Rightarrow> int \<Rightarrow> string \<Rightarrow> int" where
  "at_product st sku q p = (case sku of None \<Rightarrow> 0 | Some k \<Rightarrow> at_sku st k q p)"

lemma refunded_qty_nonneg: "0 \<le> refunded_qty_for_sale_line_in_tx st sale line i"
  unfolding refunded_qty_for_sale_line_in_tx_def by (auto intro!: sum_list_nonneg)

lemma credit_line_moved:
  assumes "credit_refund_line x r entries l s = Ok s'" and d: "distinct (map fst (summary (sh_stock (snd s))))"
  shows "moved (sh_stock (snd s)) (sh_stock (snd s')) (at_product (sh_stock (snd s)) (deducted_sku entries l) (max 0 (rline_qty l)))"
  using assms(1)
proof (cases rule: credit_refund_line_Ok)
  case nothing
  then show ?thesis using d by (simp add: moved_def at_product_def at_sku_def split: option.split)
next
  case (credit e ds deducted sku)
  have sku: "deducted_sku entries l = Some sku"
    using credit(1,4) by (auto simp: deducted_sku_def recorded_sku_def split: option.splits if_splits)
  have total: "deducted = entries_sum ds" using sum_panicking_Ok [OF credit(3)] by (simp add: entries_sum_def)
  have "moved (sh_stock (snd s)) (sh_stock (snd s')) (at_sku (sh_stock (snd s)) sku (rline_qty l))"
    using credit(7)
  proof
    assume "rline_qty l \<ge> deducted \<and> oeach (credit_entry x sku) ds s = Ok s'"
    moreover from this have "rline_qty l = entries_sum ds"
      using credit(5) refunded_qty_nonneg [of "snd s" "refund_sale_id r" "sale_line_id l" "rid r"] total by simp
    ultimately show ?thesis using credit_entries_moved [of x sku ds s s'] d by simp
  next
    assume "rline_qty l < deducted \<and> credit_reverse x sku (rline_qty l) (rev ds) s = Ok s'"
    then show ?thesis using credit_reverse_moved [of x sku "rline_qty l" "rev ds" s s'] d credit(6) total by auto
  qed
  moreover have "max 0 (rline_qty l) = rline_qty l" using credit(6) by simp
  ultimately show ?thesis using sku by (simp add: at_product_def [abs_def])
qed

lemma credit_default_moved:
  assumes "credit_default_line x r l s = Ok s'" and d: "distinct (map fst (summary (sh_stock (snd s))))"
  shows "moved (sh_stock (snd s)) (sh_stock (snd s')) (at_product (sh_stock (snd s))
    (map_option sw_sku (List.find (\<lambda>w. sw_id w = sale_line_id l \<and> sw_sale w = refund_sale_id r) (sh_lines (snd s)))) (max 0 (rline_qty l)))"
proof (cases "rline_qty l \<le> 0")
  case True
  then show ?thesis using assms by (simp add: credit_default_line_def moved_def at_product_def at_sku_def split: option.split)
next
  case False
  then obtain w where "List.find (\<lambda>w. sw_id w = sale_line_id l \<and> sw_sale w = refund_sale_id r) (sh_lines (snd s)) = Some w"
      "refund_adjust x (sw_sku w) (rline_qty l) canonical_default_location s = Ok s'"
    using assms(1) by (auto simp: credit_default_line_def sold_line_for_sale_line_in_tx_def split: option.splits if_splits sum.splits)
  then show ?thesis using refund_adjust_moved [of x "sw_sku w" "rline_qty l"] d False by (simp add: at_product_def [abs_def] max_def)
qed

lemma oeach_moved:
  assumes "oeach f ls s = Ok s'" and "distinct (map fst (summary (sh_stock (snd s))))"
    and f: "\<And>l t t'. l \<in> set ls \<Longrightarrow> f l t = Ok t' \<Longrightarrow> distinct (map fst (summary (sh_stock (snd t)))) \<Longrightarrow> sh_lines (snd t) = lns \<Longrightarrow>
      moved (sh_stock (snd t)) (sh_stock (snd t')) (at_product (sh_stock (snd t)) (k l) (max 0 (rline_qty l))) \<and> sh_lines (snd t') = lns"
    and "sh_lines (snd s) = lns"
  shows "moved (sh_stock (snd s)) (sh_stock (snd s')) (\<lambda>p. sum_list (map (\<lambda>l. at_product (sh_stock (snd s)) (k l) (max 0 (rline_qty l)) p) ls))"
  using assms
proof (induction ls arbitrary: s)
  case Nil
  then show ?case by (simp add: moved_def)
next
  case (Cons l ls)
  then obtain s1 where s1: "f l s = Ok s1" "oeach f ls s1 = Ok s'" by auto
  have m: "moved (sh_stock (snd s)) (sh_stock (snd s1)) (at_product (sh_stock (snd s)) (k l) (max 0 (rline_qty l)))"
      and l1: "sh_lines (snd s1) = lns"
    using Cons.prems(3) [OF _ s1(1) Cons.prems(2,4)] by simp_all
  have "products (sh_stock (snd s1)) = products (sh_stock (snd s))" using m by (simp add: moved_def)
  then have "at_product (sh_stock (snd s1)) = at_product (sh_stock (snd s))"
    by (intro ext) (simp add: at_product_def at_sku_def stock_product_id_by_sku_def split: option.split)
  moreover have "moved (sh_stock (snd s1)) (sh_stock (snd s'))
      (\<lambda>p. sum_list (map (\<lambda>l. at_product (sh_stock (snd s1)) (k l) (max 0 (rline_qty l)) p) ls))"
  proof (rule Cons.IH [OF s1(2) _ _ l1])
    show "distinct (map fst (summary (sh_stock (snd s1))))" using m by (simp add: moved_def)
    fix a t t' assume "a \<in> set ls" "f a t = Ok t'" "distinct (map fst (summary (sh_stock (snd t))))" "sh_lines (snd t) = lns"
    then show "moved (sh_stock (snd t)) (sh_stock (snd t')) (at_product (sh_stock (snd t)) (k a) (max 0 (rline_qty a))) \<and> sh_lines (snd t') = lns"
      by (intro Cons.prems(3)) simp_all
  qed
  ultimately show ?case using moved_trans [OF m] by simp
qed

lemma credits_lines: "credits st st' \<Longrightarrow> sh_lines st' = sh_lines st"
  by (auto simp: credits_def)

lemma refund_credit_moved:
  assumes "refund_credit parse x r st = Ok st'" and d: "distinct (map fst (summary (sh_stock st)))"
  shows "moved (sh_stock st) (sh_stock st')
    (\<lambda>p. sum_list (map (\<lambda>l. at_product (sh_stock st) (credited_sku parse st r l) (max 0 (rline_qty l)) p) (refund_lines r)))"
proof -
  obtain s where s: "find_sale st (refund_sale_id r) = Some s" using assms(1) by (auto simp: refund_credit_def split: option.splits)
  let ?line = "\<lambda>l. map_option sw_sku (List.find (\<lambda>w. sw_id w = sale_line_id l \<and> sw_sale w = refund_sale_id r) (sh_lines st))"
  have default: "moved (sh_stock st) (sh_stock b) (\<lambda>p. sum_list (map (\<lambda>l. at_product (sh_stock st) (?line l) (max 0 (rline_qty l)) p) (refund_lines r)))"
    if h: "credit_refund_to_default_location x r (0, st) = Ok (n, b)" for n b
  proof -
    obtain m a where a: "oeach (credit_default_line x r) (refund_lines r) (0, st) = Ok (m, a)" "sh_stock b = sh_stock a"
      using h by (auto simp: credit_refund_to_default_location_def insert_audit_def split: if_splits)
    have "moved (sh_stock (snd (0::nat, st))) (sh_stock (snd (m, a)))
        (\<lambda>p. sum_list (map (\<lambda>l. at_product (sh_stock (snd (0::nat, st))) (?line l) (max 0 (rline_qty l)) p) (refund_lines r)))"
    proof (rule oeach_moved [OF a(1), where lns = "sh_lines st"])
      fix l t t' assume "credit_default_line x r l t = Ok t'" "distinct (map fst (summary (sh_stock (snd t))))" "sh_lines (snd t) = sh_lines st"
      then show "moved (sh_stock (snd t)) (sh_stock (snd t')) (at_product (sh_stock (snd t)) (?line l) (max 0 (rline_qty l)))
          \<and> sh_lines (snd t') = sh_lines st"
        using credit_default_moved [of x r l t t'] credits_lines [OF credit_default_line_credits, of x r l t t'] by simp
    qed (use d in simp_all)
    then show ?thesis by (simp add: a(2))
  qed
  have recorded: "moved (sh_stock st) (sh_stock b) (\<lambda>p. sum_list (map (\<lambda>l. at_product (sh_stock st)
       (Option.bind (Option.bind (parse t) (\<lambda>v. as_array (jget v ''lines''))) (\<lambda>es. deducted_sku es l)) (max 0 (rline_qty l)) p) (refund_lines r)))"
    if h: "credit_refund_from_deduction_locations parse x r t (0, st) = Ok (n, b)" for n b t
  proof -
    obtain v es where a: "parse t = Some v" "as_array (jget v ''lines'') = Some es"
        "oeach (credit_refund_line x r es) (refund_lines r) (0, st) = Ok (n, b)"
      using h by (auto simp: credit_refund_from_deduction_locations_def split: option.splits)
    have "moved (sh_stock (snd (0::nat, st))) (sh_stock (snd (n, b)))
        (\<lambda>p. sum_list (map (\<lambda>l. at_product (sh_stock (snd (0::nat, st))) (deducted_sku es l) (max 0 (rline_qty l)) p) (refund_lines r)))"
    proof (rule oeach_moved [OF a(3), where lns = "sh_lines st"])
      fix l t t' assume "credit_refund_line x r es l t = Ok t'" "distinct (map fst (summary (sh_stock (snd t))))" "sh_lines (snd t) = sh_lines st"
      then show "moved (sh_stock (snd t)) (sh_stock (snd t')) (at_product (sh_stock (snd t)) (deducted_sku es l) (max 0 (rline_qty l)))
          \<and> sh_lines (snd t') = sh_lines st"
        using credit_line_moved [of x r es l t t'] credits_lines [OF credit_refund_line_credits, of x r es l t t'] by simp
    qed (use d in simp_all)
    then show ?thesis by (simp add: a(1,2))
  qed
  show ?thesis using assms(1) default recorded s
    by (auto simp: refund_credit_def credited_sku_def split: option.splits if_splits prod.splits)
qed

text \<open>
  C22. An accepted refund puts back into stock exactly what it returns: the quantity of every product
  over its locations, and the sum of its ledger rows, grow by the units of the refund's lines whose
  deduction recorded that product, whether a line is returned whole or in part and however its units
  had been taken from several locations.\<close>

theorem refund_restores_stock:
  assumes "create_refund render parse hash env x r st = Ok st'" and "distinct (map fst (summary (sh_stock st)))"
  defines "g \<equiv> \<lambda>p. sum_list (map rline_qty (filter (\<lambda>l. Option.bind (credited_sku parse st r l) (stock_product_id_by_sku (sh_stock st)) = Some p) (refund_lines r)))"
  shows "stock_total (sh_stock st') p = stock_total (sh_stock st) p + g p
    \<and> ledger_total (sh_stock st') p = ledger_total (sh_stock st) p + g p"
proof -
  obtain cur s after st1 st2 st3 where w: "refund_write_rows render env x cur (so_tenant s) r st = Ok st1"
      and c: "refund_credit parse x r st1 = Ok st2"
      and a: "insert_audit (refund_audit x cur r) (refund_side_effects x s r st2) = Inr st3"
      and st': "st' = (if after \<ge> so_total s then snd (cancel_kds_orders_for_sale_in_tx (refund_sale_id r) st3) else st3)"
    using create_refund_steps [OF assms(1)] by metis
  obtain row ws q where st1: "st1 = st\<lparr>sh_refunds := sh_refunds st @ [row], sh_refund_lines := sh_refund_lines st @ ws, sh_queue := q\<rparr>"
      and ws: "list_all2 line_row (refund_lines r) ws"
    using refund_write_rows_Ok [OF w] by metis
  have pos: "0 < rline_qty l" if "l \<in> set (refund_lines r)" for l
    using ws that by (auto simp: line_row_def list_all2_conv_all_nth in_set_conv_nth)
  have "sh_stock st3 = sh_stock st2" using a by (auto simp: insert_audit_def side_effects_frame split: if_splits)
  then have stock: "sh_stock st' = sh_stock st2" by (simp add: st' cancel_kds_orders_for_sale_in_tx_def Let_def)
  have reads: "find_sale st1 = find_sale st" "sh_lines st1 = sh_lines st" by (simp_all add: st1 find_sale_def fun_eq_iff)
  have same: "sh_stock st1 = sh_stock st" "credited_sku parse st1 r = credited_sku parse st r"
    unfolding credited_sku_def reads by (simp_all add: st1)
  have "(\<Sum>l\<leftarrow>ls. at_product (sh_stock st) (credited_sku parse st r l) (max 0 (rline_qty l)) p)
      = sum_list (map rline_qty (filter (\<lambda>l. Option.bind (credited_sku parse st r l) (stock_product_id_by_sku (sh_stock st)) = Some p) ls))"
    if "set ls \<subseteq> set (refund_lines r)" for ls
    using that pos by (induction ls) (force simp: at_product_def at_sku_def split: option.split bind_splits)+
  then have "g p = (\<Sum>l\<leftarrow>refund_lines r. at_product (sh_stock st) (credited_sku parse st r l) (max 0 (rline_qty l)) p)"
    by (simp add: g_def)
  then show ?thesis using refund_credit_moved [OF c] assms(2) unfolding same stock by (simp add: moved_def)
qed

subsection \<open>Runs\<close>

definition demo_entries :: json where
  "demo_entries = JObj [(''lines'', JArr [JObj [(''sale_line_id'', JStr ''l''), (''sku'', JStr ''S''),
     (''deductions'', JArr [JObj [(''location_id'', JStr ''A''), (''qty'', json_int 2)],
        JObj [(''location_id'', JStr ''B''), (''qty'', json_int 2)]])]])]"

definition demo_refund :: "string \<Rightarrow> refund" where
  "demo_refund i = refund_new i ''t1'' ''s'' (mk_money 200 (Currency CHR ''U'' CHR ''S'' CHR ''D'')) ''broken'' [] ''ann''
     [refund_line_new (i @ ''-l'') ''t1'' ''l'' ''S'' 2 (mk_money 100 (Currency CHR ''U'' CHR ''S'' CHR ''D''))
        (mk_money 200 (Currency CHR ''U'' CHR ''S'' CHR ''D''))]"

definition demo_args :: "string \<Rightarrow> refund_args" where
  "demo_args i = \<lparr>ra_queue = \<lparr>qa_id = i, qa_now = ''t1''\<rparr>,
     ra_adjust = (\<lambda>n. \<lparr>aa_movement_id = i @ show_nat n, aa_alert_id = i, aa_now = ''t1''\<rparr>), ra_now = ''t1'',
     ra_audit_id = i, ra_legacy_audit_id = i @ ''-legacy''\<rparr>"

definition sold_sale :: sale_row where
  "sold_sale = \<lparr>so_id = ''s'', so_customer = None, so_total = 400, so_status = ''completed'', so_currency = ''USD'',
     so_base_total = None, so_tenant = Some ''default'', so_deductions = Some ''entries'', so_terminal = None,
     so_updated_at = ''t0'', so_version = 1\<rparr>"

definition two_location_shop :: shop where
  "two_location_shop = empty_shop\<lparr>sh_loyalty := with_sales [sold_sale] empty_loyalty,
     sh_lines := [\<lparr>sw_id = ''l'', sw_sale = ''s'', sw_sku = ''S'', sw_qty = 4, sw_minor = 400\<rparr>],
     sh_stock := (sh_stock empty_shop)\<lparr>products := [(''p'', ''S'')], stock_locations := [''A'', ''B''],
       summary := [((''p'', ''A''), 0, ''t0''), ((''p'', ''B''), 0, ''t0'')],
       inventory := [(''p'', \<lparr>iv_qty = 0, iv_location = ''A'', iv_updated_at = ''t0''\<rparr>)]\<rparr>\<rparr>"

definition do_refund :: "string \<Rightarrow> shop \<Rightarrow> shop" where
  "do_refund i st = (case create_refund (\<lambda>_. []) (\<lambda>_. Some demo_entries) (\<lambda>_. 0) till (demo_args i) (demo_refund i) st of
     Ok st' \<Rightarrow> st' | _ \<Rightarrow> st)"

lemma demo_refund_run: "create_refund (\<lambda>_. []) (\<lambda>_. Some demo_entries) (\<lambda>_. 0) till (demo_args ''r1'') (demo_refund ''r1'') two_location_shop
    = Ok (do_refund ''r1'' two_location_shop)" "distinct (map fst (summary (sh_stock two_location_shop)))"
  by code_simp+

lemma refund_restores_stock_witness:
  "stock_total (sh_stock (do_refund ''r1'' two_location_shop)) ''p'' = 2
    \<and> ledger_total (sh_stock (do_refund ''r1'' two_location_shop)) ''p'' = 2"
proof -
  have "sum_list (map rline_qty (filter (\<lambda>l. Option.bind (credited_sku (\<lambda>_. Some demo_entries) two_location_shop (demo_refund ''r1'') l)
      (stock_product_id_by_sku (sh_stock two_location_shop)) = Some ''p'') (refund_lines (demo_refund ''r1'')))) = 2"
    "stock_total (sh_stock two_location_shop) ''p'' = 0" "ledger_total (sh_stock two_location_shop) ''p'' = 0"
    by code_simp+
  then show ?thesis using refund_restores_stock [OF demo_refund_run, of "''p''"] by simp
qed

text \<open>
  Of a line whose four units were taken from two locations, two each, the second partial refund again
  starts at the last location: in the end four units are at it and none at the first.
\<close>

lemma second_partial_refund_misplaced:
  "(let st = do_refund ''r2'' (do_refund ''r1'' two_location_shop)
    in returned_qty st ''s'' ''l'' = 4 \<and> location_qty (sh_stock st) ''p'' ''B'' = 4 \<and> location_qty (sh_stock st) ''p'' ''A'' = 0)"
  by code_simp

text \<open>The stock ledger's own guarantee carries over, for refunds are steps of it.\<close>

lemma refund_keeps_stock_sound:
  assumes "create_refund render parse hash env x r st = Ok st'" and "stock_sound (sh_stock st)"
  shows "stock_sound (sh_stock st')"
proof -
  have "stock_step\<^sup>*\<^sup>* (sh_stock st) (sh_stock st')" using create_refund_Ok [OF assms(1)] by metis
  then show ?thesis
    by (rule stock_steps_keep [of _ _ stock_sound, OF _ assms(2)]) (blast intro: adjust_sound bridge_sound)+
qed

end
