(* ===== verification/Setting_Store.thy ===== *)
theory Setting_Store
  imports Rust_Strings "HOL-Library.Char_ord" "HOL-Library.List_Lexorder"
begin

section \<open>The settings table and who may write to it\<close>

text \<open>
  Models \<open>platform/core/src/settings/raw.rs\<close> and the key lists of \<open>platform/core/src/settings/keys.rs\<close>: the
  table of settings, the ingest policies that decide what a package or a remote terminal may write,
  the tracked writes that refuse credentials, and the ledger of versioned deltas. The time is an
  argument. SQLite's failures are the codes the code looks at; a write to the settings table is taken
  to succeed, as is opening a transaction other than the one a delta writer opens for itself.
\<close>

subsection \<open>Tables\<close>

record setting_delta =
  du_key :: string
  du_value :: string
  du_terminal :: string
  du_version :: int
  du_created_at :: string

text \<open>\<open>kv_rows\<close> maps a key to its value and the time of its last change.\<close>

record settings_store =
  kv_rows :: "(string \<times> string \<times> string) list"
  kv_deltas :: "setting_delta list"

datatype sqlite_code = ConstraintViolation | DatabaseBusy | OtherFailure

datatype platform_error = PlatformDb sqlite_code | PlatformNotFound string | PlatformInternal string

subsection \<open>Keys\<close>

definition to_ascii_lowercase :: "char \<Rightarrow> char" where
  "to_ascii_lowercase c = (if is_ascii_upper c then char_of (byte c + 32) else c)"

definition secret_key_deny_list :: "string list" where
  "secret_key_deny_list =
     [''sync_api_key'', ''sync.auth_token'', ''sync_terminal_secret'', ''pg_sync.password'', ''redis.url'',
      ''rate_sync.api_key'', ''lan_server.psk'', ''local_api.secret'', ''smtp_config'', ''license.api_key'',
      ''license.payload'', ''license.signature'', ''license.tenant_id'', ''license.phone'', ''stripe.api_key'',
      ''square.api_key'', ''midtrans.server_key'']"

definition non_exportable_device_keys :: "string list" where
  "non_exportable_device_keys = [''sync_terminal_id'', ''machine_id'', ''hardware_fingerprint'']"

definition peer_named_hazard_keys :: "string list" where
  "peer_named_hazard_keys =
     [''sync_server_url'', ''sync_enabled'', ''pg_sync.host'', ''pg_sync.user'', ''pg_sync.dbname'', ''redis.cache_ttl'']"

definition normalised_candidate :: "string \<Rightarrow> string" where
  "normalised_candidate key = map to_ascii_lowercase (trim key)"

definition credential_base :: "string \<Rightarrow> string option" where
  "credential_base key = List.find (\<lambda>e. e = normalised_candidate key) secret_key_deny_list"

definition device_base :: "string \<Rightarrow> string option" where
  "device_base key = List.find (\<lambda>e. e = normalised_candidate key) non_exportable_device_keys"

definition is_secret_setting_key :: "string \<Rightarrow> bool" where
  "is_secret_setting_key key \<longleftrightarrow> credential_base key \<noteq> None"

definition is_non_exportable_setting_key :: "string \<Rightarrow> bool" where
  "is_non_exportable_setting_key key \<longleftrightarrow> credential_base key \<noteq> None \<or> device_base key \<noteq> None"

definition is_peer_named_hazard_key :: "string \<Rightarrow> bool" where
  "is_peer_named_hazard_key key \<longleftrightarrow> normalised_candidate key \<in> set peer_named_hazard_keys"

definition is_manager_owned_key :: "string \<Rightarrow> bool" where
  "is_manager_owned_key key \<longleftrightarrow>
     (let candidate = normalised_candidate key
      in starts_with candidate ''local_api.'' \<or> starts_with candidate ''lan_server.'')"

subsection \<open>Ingest policies\<close>

datatype ingest_policy = TrustedLocal | PortablePackage | RemoteSync

fun admits :: "ingest_policy \<Rightarrow> string \<Rightarrow> bool" where
  "admits TrustedLocal key \<longleftrightarrow> True"
| "admits PortablePackage key \<longleftrightarrow> \<not> (is_non_exportable_setting_key key \<or> is_manager_owned_key key)"
| "admits RemoteSync key \<longleftrightarrow>
     \<not> (is_non_exportable_setting_key key \<or> is_manager_owned_key key \<or> is_peer_named_hazard_key key)"

declare admits.simps [simp del]

fun policy_label :: "ingest_policy \<Rightarrow> string" where
  "policy_label TrustedLocal = ''trusted_local''"
| "policy_label PortablePackage = ''portable_package''"
| "policy_label RemoteSync = ''remote_sync''"

subsection \<open>Reading and writing rows\<close>

definition setting_get :: "settings_store \<Rightarrow> string \<Rightarrow> string option" where
  "setting_get st key = map_option fst (map_of (kv_rows st) key)"

definition setting_set :: "string \<Rightarrow> string \<Rightarrow> string \<Rightarrow> settings_store \<Rightarrow> settings_store" where
  "setting_set now key val st = st\<lparr>kv_rows := tab_update key (val, now) (kv_rows st)\<rparr>"

definition setting_remove :: "string \<Rightarrow> settings_store \<Rightarrow> bool \<times> settings_store" where
  "setting_remove key st =
     (key \<in> fst ` set (kv_rows st), st\<lparr>kv_rows := filter (\<lambda>r. fst r \<noteq> key) (kv_rows st)\<rparr>)"

definition setting_load_all :: "settings_store \<Rightarrow> (string \<times> string) list" where
  "setting_load_all st = map (\<lambda>(k, v, _). (k, v)) (sort_key fst (kv_rows st))"

definition load_exportable :: "settings_store \<Rightarrow> (string \<times> string) list" where
  "load_exportable st = filter (\<lambda>r. admits PortablePackage (fst r)) (setting_load_all st)"

definition set_with_policy ::
    "ingest_policy \<Rightarrow> string \<Rightarrow> string \<Rightarrow> string \<Rightarrow> settings_store \<Rightarrow> bool \<times> settings_store" where
  "set_with_policy p now key val st =
     (if \<not> admits p key then (False, st) else (True, setting_set now key val st))"

fun set_batch_with_policy ::
    "ingest_policy \<Rightarrow> string \<Rightarrow> (string \<times> string) list \<Rightarrow> settings_store \<Rightarrow> settings_store" where
  "set_batch_with_policy p now [] st = st"
| "set_batch_with_policy p now ((key, val) # rows) st =
     set_batch_with_policy p now rows (snd (set_with_policy p now key val st))"

fun setting_set_batch :: "string \<Rightarrow> (string \<times> string) list \<Rightarrow> settings_store \<Rightarrow> settings_store" where
  "setting_set_batch now [] st = st"
| "setting_set_batch now ((key, val) # rows) st = setting_set_batch now rows (setting_set now key val st)"

subsection \<open>The ledger of deltas\<close>

definition delta_versions :: "settings_store \<Rightarrow> string \<Rightarrow> string \<Rightarrow> int list" where
  "delta_versions st key terminal =
     map du_version (filter (\<lambda>d. du_key d = key \<and> du_terminal d = terminal) (kv_deltas st))"

text \<open>A sum beyond \<open>i64\<close> becomes a float in SQLite, reading it as an integer fails, and the code takes 1.\<close>

definition next_delta_version :: "settings_store \<Rightarrow> string \<Rightarrow> string \<Rightarrow> int" where
  "next_delta_version st key terminal =
     (case delta_versions st key terminal of
        [] \<Rightarrow> 1
      | v # vs \<Rightarrow> (case checked_add (fold max vs v) 1 of None \<Rightarrow> 1 | Some n \<Rightarrow> n))"

definition write_delta_row ::
    "string \<Rightarrow> string \<Rightarrow> string \<Rightarrow> string \<Rightarrow> int \<Rightarrow> settings_store \<Rightarrow> platform_error + settings_store" where
  "write_delta_row now key val terminal version st =
     (if version \<in> set (delta_versions st key terminal) then Inl (PlatformDb ConstraintViolation)
      else Inr (st\<lparr>kv_deltas := kv_deltas st @ [\<lparr>du_key = key, du_value = val, du_terminal = terminal,
               du_version = version, du_created_at = now\<rparr>]\<rparr>))"

definition get_version :: "settings_store \<Rightarrow> string \<Rightarrow> string \<Rightarrow> int option" where
  "get_version st key terminal =
     (case rev (sort (delta_versions st key terminal)) of [] \<Rightarrow> None | v # _ \<Rightarrow> Some v)"

definition write_delta_nested ::
    "string \<Rightarrow> string \<Rightarrow> string \<Rightarrow> string \<Rightarrow> settings_store \<Rightarrow> platform_error + settings_store" where
  "write_delta_nested now key val terminal st =
     write_delta_row now key val terminal (next_delta_version st key terminal) st"

text \<open>
  The writer with a transaction of its own. Before attempt \<open>n\<close> other connections have turned the
  store \<open>s\<close> into \<open>others n s\<close>; \<open>fails n\<close> is the code with which SQLite refuses the attempt's
  statements, if it does. The result is the error of the last attempt, if any, and the store.
\<close>

definition max_attempts :: nat where
  "max_attempts = 32"

definition is_transient_failure :: "platform_error \<Rightarrow> bool" where
  "is_transient_failure e \<longleftrightarrow> e = PlatformDb ConstraintViolation \<or> e = PlatformDb DatabaseBusy"

definition delta_attempt ::
    "sqlite_code option \<Rightarrow> string \<Rightarrow> string \<Rightarrow> string \<Rightarrow> string \<Rightarrow> settings_store \<Rightarrow> platform_error + settings_store" where
  "delta_attempt failure now key val terminal st =
     (case failure of
        Some c \<Rightarrow> Inl (PlatformDb c)
      | None \<Rightarrow> write_delta_row now key val terminal (next_delta_version st key terminal) st)"

function delta_loop ::
    "(nat \<Rightarrow> sqlite_code option) \<Rightarrow> (nat \<Rightarrow> settings_store \<Rightarrow> settings_store) \<Rightarrow> string \<Rightarrow> string \<Rightarrow> string \<Rightarrow> string
       \<Rightarrow> nat \<Rightarrow> settings_store \<Rightarrow> platform_error option \<times> settings_store" where
  "delta_loop fails others now key val terminal n st =
     (case delta_attempt (fails n) now key val terminal (others n st) of
        Inr st' \<Rightarrow> (None, st')
      | Inl e \<Rightarrow>
          if is_transient_failure e \<and> n + 1 < max_attempts
          then delta_loop fails others now key val terminal (n + 1) (others n st)
          else (Some e, others n st))"
  by pat_completeness auto
termination by (relation "measure (\<lambda>(_, _, _, _, _, _, n, _). max_attempts - n)") auto

declare delta_loop.simps [simp del]

definition write_delta_standalone ::
    "(nat \<Rightarrow> sqlite_code option) \<Rightarrow> (nat \<Rightarrow> settings_store \<Rightarrow> settings_store) \<Rightarrow> string \<Rightarrow> string \<Rightarrow> string \<Rightarrow> string
       \<Rightarrow> settings_store \<Rightarrow> platform_error option \<times> settings_store" where
  "write_delta_standalone fails others now key val terminal st = delta_loop fails others now key val terminal 0 st"

definition write_delta ::
    "bool \<Rightarrow> (nat \<Rightarrow> sqlite_code option) \<Rightarrow> (nat \<Rightarrow> settings_store \<Rightarrow> settings_store) \<Rightarrow> string \<Rightarrow> string \<Rightarrow> string
       \<Rightarrow> string \<Rightarrow> settings_store \<Rightarrow> platform_error option \<times> settings_store" where
  "write_delta in_transaction fails others now key val terminal st =
     (if in_transaction
      then (case write_delta_nested now key val terminal st of Inl e \<Rightarrow> (Some e, st) | Inr st' \<Rightarrow> (None, st'))
      else write_delta_standalone fails others now key val terminal st)"

definition write_delta_on_tx ::
    "string \<Rightarrow> string \<Rightarrow> string \<Rightarrow> string \<Rightarrow> settings_store \<Rightarrow> platform_error + settings_store" where
  "write_delta_on_tx now key val terminal st =
     write_delta_row now key val terminal (next_delta_version st key terminal) st"

subsection \<open>Tracked writes\<close>

definition em_dash :: string where
  "em_dash = [CHR 0xE2, CHR 0x80, CHR 0x94]"

definition cleartext_credential_exception :: string where
  "cleartext_credential_exception = ''smtp_config''"

definition cleartext_credential_refusal :: "string \<Rightarrow> string option" where
  "cleartext_credential_refusal key =
     (if is_secret_setting_key key \<and> key \<noteq> cleartext_credential_exception
      then Some (key @ '' holds a credential '' @ em_dash
             @ '' the tracked settings funnel refuses to store it in cleartext'')
      else None)"

definition manager_owned_key_refusal :: "string \<Rightarrow> string option \<Rightarrow> string option" where
  "manager_owned_key_refusal key owner =
     (if \<not> is_manager_owned_key key then None
      else Some (key @ '' is managed by the '' @ (case owner of None \<Rightarrow> ''dedicated'' | Some o' \<Rightarrow> o')
             @ '' controls '' @ em_dash @ '' use those''))"

definition refuse_cleartext_credential :: "string \<Rightarrow> platform_error + unit" where
  "refuse_cleartext_credential key =
     (case cleartext_credential_refusal key of Some m \<Rightarrow> Inl (PlatformInternal m) | None \<Rightarrow> Inr ())"

definition set_tracked_in_tx ::
    "string \<Rightarrow> string \<Rightarrow> string \<Rightarrow> string \<Rightarrow> settings_store \<Rightarrow> platform_error + settings_store" where
  "set_tracked_in_tx now key val terminal st =
     (case refuse_cleartext_credential key of
        Inl e \<Rightarrow> Inl e
      | Inr _ \<Rightarrow>
          (let st1 = setting_set now key val st
           in case write_delta_on_tx now key val terminal st1 of
                Inl _ \<Rightarrow> Inr st1
              | Inr st2 \<Rightarrow> Inr st2))"

definition set_tracked ::
    "string \<Rightarrow> string \<Rightarrow> string \<Rightarrow> string \<Rightarrow> settings_store \<Rightarrow> platform_error + settings_store" where
  "set_tracked now key val terminal st =
     (case refuse_cleartext_credential key of
        Inl e \<Rightarrow> Inl e
      | Inr _ \<Rightarrow> set_tracked_in_tx now key val terminal st)"

fun refuse_all :: "(string \<times> string) list \<Rightarrow> platform_error + unit" where
  "refuse_all [] = Inr ()"
| "refuse_all ((key, _) # rows) =
     (case refuse_cleartext_credential key of Inl e \<Rightarrow> Inl e | Inr _ \<Rightarrow> refuse_all rows)"

fun set_tracked_rows ::
    "string \<Rightarrow> (string \<times> string) list \<Rightarrow> string \<Rightarrow> settings_store \<Rightarrow> platform_error + settings_store" where
  "set_tracked_rows now [] terminal st = Inr st"
| "set_tracked_rows now ((key, val) # rows) terminal st =
     (case set_tracked_in_tx now key val terminal st of
        Inl e \<Rightarrow> Inl e
      | Inr st' \<Rightarrow> set_tracked_rows now rows terminal st')"

definition set_batch_tracked ::
    "string \<Rightarrow> (string \<times> string) list \<Rightarrow> string \<Rightarrow> settings_store \<Rightarrow> platform_error + settings_store" where
  "set_batch_tracked now rows terminal st =
     (case refuse_all rows of Inl e \<Rightarrow> Inl e | Inr _ \<Rightarrow> set_tracked_rows now rows terminal st)"


subsection \<open>A change that arrives from another terminal\<close>

text \<open>
  The settings arm of \<open>platform/sync/src/queue.rs\<close>: the row under the policy for remote items and, when
  it was written, a delta whose failure is only logged.
\<close>

definition apply_setting_change ::
    "string \<Rightarrow> string \<Rightarrow> string \<Rightarrow> string \<Rightarrow> settings_store \<Rightarrow> settings_store" where
  "apply_setting_change now key val terminal st =
     (case set_with_policy RemoteSync now key val st of
        (False, st1) \<Rightarrow> st1
      | (True, st1) \<Rightarrow> (case write_delta_nested now key val terminal st1 of Inl _ \<Rightarrow> st1 | Inr st2 \<Rightarrow> st2))"

subsection \<open>What a write changes\<close>

lemma setting_get_set [simp]: "setting_get (setting_set now k v st) = (setting_get st)(k \<mapsto> v)"
  by (simp add: fun_eq_iff setting_get_def setting_set_def)

lemma deltas_set [simp]: "kv_deltas (setting_set now k v st) = kv_deltas st"
  by (simp add: setting_set_def)

lemma keys_set [simp]:
  "distinct (map fst (kv_rows (setting_set now k v st))) \<longleftrightarrow> distinct (map fst (kv_rows st))"
  by (simp add: setting_set_def)

lemma get_deltas [simp]: "setting_get (st\<lparr>kv_deltas := ds\<rparr>) = setting_get st"
  by (simp add: fun_eq_iff setting_get_def)

lemma write_delta_row_Inr:
  assumes "write_delta_row now key val terminal version st = Inr st'"
  shows "setting_get st' = setting_get st" "kv_rows st' = kv_rows st"
    "delta_versions st' k t = delta_versions st k t @ (if k = key \<and> t = terminal then [version] else [])"
    "filter (\<lambda>d. du_key d = k) (kv_deltas st')
       = filter (\<lambda>d. du_key d = k) (kv_deltas st) @ (if k = key then [last (kv_deltas st')] else [])"
  using assms by (auto simp: write_delta_row_def delta_versions_def split: if_splits)

lemma set_with_policy_simps [simp]:
  "kv_deltas (snd (set_with_policy p now k v st)) = kv_deltas st"
  "setting_get (snd (set_with_policy p now k v st)) = (if admits p k then (setting_get st)(k \<mapsto> v) else setting_get st)"
  "distinct (map fst (kv_rows (snd (set_with_policy p now k v st)))) \<longleftrightarrow> distinct (map fst (kv_rows st))"
  by (simp_all add: set_with_policy_def)

lemma set_batch_with_policy_simps [simp]:
  "kv_deltas (set_batch_with_policy p now rows st) = kv_deltas st"
  "setting_get (set_batch_with_policy p now rows st)
     = setting_get st ++ map_of (rev (filter (\<lambda>r. admits p (fst r)) rows))"
  "distinct (map fst (kv_rows (set_batch_with_policy p now rows st))) \<longleftrightarrow> distinct (map fst (kv_rows st))"
proof (induction p now rows st rule: set_batch_with_policy.induct)
  case (2 p now key val rows st)
  case 1 show ?case using "2.IH"(1) by simp
  case 2 show ?case using "2.IH"(2) by (auto simp: fun_eq_iff map_add_def split: option.splits)
  case 3 show ?case using "2.IH"(3) by simp
qed simp_all

lemma apply_setting_change_cases:
  obtains (refused) "\<not> admits RemoteSync key" "apply_setting_change now key val terminal st = st"
  | (plain) "admits RemoteSync key" "apply_setting_change now key val terminal st = setting_set now key val st"
  | (tracked) "admits RemoteSync key"
      "write_delta_row now key val terminal (next_delta_version st key terminal) (setting_set now key val st)
         = Inr (apply_setting_change now key val terminal st)"
proof (cases "admits RemoteSync key")
  case True
  have "next_delta_version (setting_set now key val st) key terminal = next_delta_version st key terminal"
    by (simp add: next_delta_version_def delta_versions_def)
  then show ?thesis using plain tracked True
    by (cases "write_delta_nested now key val terminal (setting_set now key val st)")
      (auto simp: apply_setting_change_def set_with_policy_def write_delta_nested_def)
qed (use refused in \<open>simp add: apply_setting_change_def set_with_policy_def\<close>)

lemma set_tracked_in_tx_cases:
  assumes "set_tracked_in_tx now key val terminal st = Inr st'"
  obtains (plain) "cleartext_credential_refusal key = None" "st' = setting_set now key val st"
  | (tracked) "cleartext_credential_refusal key = None"
      "write_delta_row now key val terminal (next_delta_version st key terminal) (setting_set now key val st) = Inr st'"
proof -
  have same: "next_delta_version (setting_set now key val st) key terminal = next_delta_version st key terminal"
    by (simp add: next_delta_version_def delta_versions_def)
  have ok: "cleartext_credential_refusal key = None"
    using assms by (auto simp: set_tracked_in_tx_def refuse_cleartext_credential_def split: option.splits)
  then have "st' = (case write_delta_on_tx now key val terminal (setting_set now key val st) of
      Inl _ \<Rightarrow> setting_set now key val st | Inr st2 \<Rightarrow> st2)"
    using assms by (simp add: set_tracked_in_tx_def refuse_cleartext_credential_def Let_def split: sum.splits)
  then show ?thesis using plain tracked ok
    by (cases "write_delta_on_tx now key val terminal (setting_set now key val st)")
      (auto simp: write_delta_on_tx_def same)
qed

subsection \<open>Histories\<close>

text \<open>Every way the settings are written other than by the code that owns a credential.\<close>

datatype setting_event =
    Tracked string string string string
  | TrackedBatch string "(string \<times> string) list" string
  | FromPackage string "(string \<times> string) list"
  | FromPeer string string string string
  | Removal string

fun setting_step :: "setting_event \<Rightarrow> settings_store \<Rightarrow> settings_store" where
  "setting_step (Tracked now key val terminal) st =
     (case set_tracked now key val terminal st of Inl _ \<Rightarrow> st | Inr st' \<Rightarrow> st')"
| "setting_step (TrackedBatch now rows terminal) st =
     (case set_batch_tracked now rows terminal st of Inl _ \<Rightarrow> st | Inr st' \<Rightarrow> st')"
| "setting_step (FromPackage now rows) st = set_batch_with_policy PortablePackage now rows st"
| "setting_step (FromPeer now key val terminal) st = apply_setting_change now key val terminal st"
| "setting_step (Removal key) st = snd (setting_remove key st)"

text \<open>A relation that every single write keeps is kept by the tracked writes of one or of many rows.\<close>

lemma set_tracked_rows_keep:
  assumes "set_tracked_rows now rows terminal st = Inr st'" and "P st"
    and "\<And>key val s s'. set_tracked_in_tx now key val terminal s = Inr s' \<Longrightarrow> P s \<Longrightarrow> P s'"
  shows "P st'"
  using assms by (induction now rows terminal st rule: set_tracked_rows.induct) (auto split: sum.splits)

lemma setting_step_keep:
  assumes tracked: "\<And>now key val terminal s s'. set_tracked_in_tx now key val terminal s = Inr s' \<Longrightarrow> P s \<Longrightarrow> P s'"
    and package: "\<And>now rows s. P s \<Longrightarrow> P (set_batch_with_policy PortablePackage now rows s)"
    and peer: "\<And>now key val terminal s. P s \<Longrightarrow> P (apply_setting_change now key val terminal s)"
    and removal: "\<And>key s. P s \<Longrightarrow> P (snd (setting_remove key s))"
    and "P st"
  shows "P (setting_step e st)"
proof (cases e)
  case (Tracked now key val terminal)
  then show ?thesis using tracked assms(5) by (auto simp: set_tracked_def split: sum.splits)
next
  case (TrackedBatch now rows terminal)
  then show ?thesis using set_tracked_rows_keep [where P = P, OF _ assms(5) tracked] assms(5)
    by (auto simp: set_batch_tracked_def split: sum.splits)
qed (use package peer removal assms(5) in simp_all)


lemma map_of_filter_neq: "map_of (filter (\<lambda>r. fst r \<noteq> k) t) = (map_of t)(k := None)"
  by (induction t) (auto simp: fun_eq_iff)

lemma setting_get_remove [simp]: "setting_get (snd (setting_remove k st)) = (setting_get st)(k := None)"
  by (auto simp: fun_eq_iff setting_get_def setting_remove_def map_of_filter_neq)

lemma deltas_remove [simp]: "kv_deltas (snd (setting_remove k st)) = kv_deltas st"
  by (simp add: setting_remove_def)

lemma keys_remove: "distinct (map fst (kv_rows st)) \<Longrightarrow> distinct (map fst (kv_rows (snd (setting_remove k st))))"
  by (simp add: setting_remove_def distinct_map_filter)

subsection \<open>Credentials\<close>

lemma refusal_iff:
  "cleartext_credential_refusal key = None \<longleftrightarrow> is_secret_setting_key key \<longrightarrow> key = cleartext_credential_exception"
  by (simp add: cleartext_credential_refusal_def)

lemma secret_not_admitted: "is_secret_setting_key key \<Longrightarrow> p \<noteq> TrustedLocal \<Longrightarrow> \<not> admits p key"
  by (cases p) (simp_all add: admits.simps is_secret_setting_key_def is_non_exportable_setting_key_def)

definition untouched :: "string \<Rightarrow> settings_store \<Rightarrow> settings_store \<Rightarrow> bool" where
  "untouched key st st' \<longleftrightarrow> setting_get st' key \<in> {setting_get st key, None}
     \<and> filter (\<lambda>d. du_key d = key) (kv_deltas st') = filter (\<lambda>d. du_key d = key) (kv_deltas st)"

lemma untouched_other:
  assumes "untouched key st s" and "k \<noteq> key"
  shows "untouched key st (setting_set now k v s)"
    "write_delta_row now' k v t n (setting_set now k v s) = Inr s' \<Longrightarrow> untouched key st s'"
  using assms by (auto simp: untouched_def write_delta_row_Inr)

lemma not_in_admitted: "\<not> admits p key \<Longrightarrow> map_of (rev (filter (\<lambda>r. admits p (fst r)) rows)) key = None"
  by (auto simp: map_of_eq_None_iff)

lemma setting_step_untouched:
  assumes secret: "is_secret_setting_key key" and exc: "key \<noteq> cleartext_credential_exception"
    and "untouched key st s"
  shows "untouched key st (setting_step e s)"
proof (rule setting_step_keep [where P = "untouched key st"])
  show "untouched key st s'" if "set_tracked_in_tx now k val terminal r = Inr s'" "untouched key st r"
    for now k val terminal r s'
    using that(1)
  proof (cases rule: set_tracked_in_tx_cases)
    case plain
    then have "k \<noteq> key" using secret exc by (auto simp: refusal_iff)
    then show ?thesis using plain(2) untouched_other(1) [OF that(2)] by simp
  next
    case tracked
    then have "k \<noteq> key" using secret exc by (auto simp: refusal_iff)
    then show ?thesis using untouched_other(2) [OF that(2) _ tracked(2)] by simp
  qed
  show "untouched key st (apply_setting_change now k val terminal r)" if "untouched key st r" for now k val terminal r
  proof (cases rule: apply_setting_change_cases [of k now val terminal r])
    case plain
    then have "k \<noteq> key" using secret_not_admitted [OF secret, of RemoteSync] by auto
    then show ?thesis using plain(2) untouched_other(1) [OF that] by simp
  next
    case tracked
    then have "k \<noteq> key" using secret_not_admitted [OF secret, of RemoteSync] by auto
    then show ?thesis using untouched_other(2) [OF that _ tracked(2)] by simp
  qed (use that in simp)
  show "untouched key st (set_batch_with_policy PortablePackage now rows r)" if "untouched key st r" for now rows r
  proof -
    have "map_of (rev (filter (\<lambda>r. admits PortablePackage (fst r)) rows)) key = None"
      by (rule not_in_admitted) (simp add: secret_not_admitted secret)
    then show ?thesis using that by (simp add: untouched_def map_add_def)
  qed
qed (use assms in \<open>auto simp: untouched_def\<close>)

text \<open>
  Whatever is written through the tracked doors, from a package or by another terminal, no
  credential is planted or changed: a credential key, in any spelling that folds to it, keeps its value or is
  removed, and the ledger gains no delta of it. The one exception is the SMTP account under its exact key.\<close>

theorem credentials_not_planted:
  assumes "is_secret_setting_key key" and "key \<noteq> cleartext_credential_exception"
  shows "setting_get (run setting_step es st) key \<in> {setting_get st key, None}
    \<and> filter (\<lambda>d. du_key d = key) (kv_deltas (run setting_step es st)) = filter (\<lambda>d. du_key d = key) (kv_deltas st)"
proof -
  have "untouched key st s \<Longrightarrow> untouched key st (run setting_step es s)" for s
    by (induction es arbitrary: s) (simp_all add: setting_step_untouched [OF assms])
  then show ?thesis by (simp add: untouched_def)
qed

definition demo_settings :: settings_store where
  "demo_settings = \<lparr>kv_rows = [(''stripe.api_key'', ''old'', ''t0'')], kv_deltas = []\<rparr>"

lemma credentials_not_planted_witness:
  "setting_get (run setting_step [Tracked ''t1'' ''stripe.api_key'' ''new'' ''till-1'',
       FromPeer ''t2'' ''stripe.api_key'' ''new'' ''till-2'', FromPackage ''t3'' [(''stripe.api_key'', ''new'')]]
     demo_settings) ''stripe.api_key'' \<in> {Some ''old'', None}"
proof -
  have "is_secret_setting_key ''stripe.api_key''" by code_simp
  then have "setting_get (run setting_step [Tracked ''t1'' ''stripe.api_key'' ''new'' ''till-1'',
       FromPeer ''t2'' ''stripe.api_key'' ''new'' ''till-2'', FromPackage ''t3'' [(''stripe.api_key'', ''new'')]]
     demo_settings) ''stripe.api_key'' \<in> {setting_get demo_settings ''stripe.api_key'', None}"
    by (rule conjunct1 [OF credentials_not_planted]) (simp add: cleartext_credential_exception_def)
  moreover have "setting_get demo_settings ''stripe.api_key'' = Some ''old''" by (simp add: setting_get_def demo_settings_def)
  ultimately show ?thesis by simp
qed


subsection \<open>Packages\<close>

definition fresh_settings :: settings_store where
  "fresh_settings = \<lparr>kv_rows = [], kv_deltas = []\<rparr>"

lemma distinct_keys_step:
  assumes "distinct (map fst (kv_rows s))"
  shows "distinct (map fst (kv_rows (setting_step e s)))"
proof (rule setting_step_keep [where P = "\<lambda>s. distinct (map fst (kv_rows s))"])
  show "distinct (map fst (kv_rows s'))"
    if "set_tracked_in_tx now k val terminal r = Inr s'" "distinct (map fst (kv_rows r))" for now k val terminal r s'
    using that(1) by (cases rule: set_tracked_in_tx_cases) (use that(2) in \<open>auto simp: write_delta_row_Inr(2)\<close>)
  show "distinct (map fst (kv_rows (apply_setting_change now k val terminal r)))"
    if "distinct (map fst (kv_rows r))" for now k val terminal r
    using that by (cases rule: apply_setting_change_cases [of k now val terminal r]) (auto simp: write_delta_row_Inr(2))
qed (simp_all add: keys_remove assms)

interpretation setting_keys: machine fresh_settings setting_step "\<lambda>s. distinct (map fst (kv_rows s))"
  by unfold_locales (simp_all add: fresh_settings_def distinct_keys_step)

lemma map_of_sorted_rows: "map_of (sort_key fst t) k = map_of (t :: (string \<times> 'b) list) k"
proof -
  have first: "map_of xs k = (case filter (\<lambda>x. fst x = k) xs of [] \<Rightarrow> None | x # _ \<Rightarrow> Some (snd x))"
    for xs :: "(string \<times> 'b) list" and k
    by (induction xs) auto
  show ?thesis by (simp only: first sort_key_stable)
qed

lemma map_of_fst_value: "map_of (map (\<lambda>(k, v, _). (k, v)) t) k = map_option fst (map_of t k)"
  by (induction t) auto

lemma map_of_load_all: "map_of (setting_load_all st) = setting_get st"
  by (simp add: fun_eq_iff setting_load_all_def setting_get_def map_of_fst_value map_of_sorted_rows)

lemma load_all_keys:
  "sorted (map fst (setting_load_all st))"
  "distinct (map fst (setting_load_all st)) \<longleftrightarrow> distinct (map fst (kv_rows st))"
proof -
  have keys: "map fst (setting_load_all st) = map fst (sort_key fst (kv_rows st))"
    by (simp add: setting_load_all_def case_prod_beta comp_def)
  show "sorted (map fst (setting_load_all st))" unfolding keys by simp
  have "mset (map fst (sort_key fst (kv_rows st))) = mset (map fst (kv_rows st))" by simp
  then show "distinct (map fst (setting_load_all st)) \<longleftrightarrow> distinct (map fst (kv_rows st))"
    unfolding keys by (metis mset_eq_imp_distinct_iff)
qed

lemma map_of_filter_keys: "map_of (filter (\<lambda>r. P (fst r)) t) = map_of t |` {k. P k}"
  by (induction t) (auto simp: fun_eq_iff restrict_map_def)

lemma map_of_rev_distinct: "distinct (map fst t) \<Longrightarrow> map_of (rev t) = map_of t"
  by (rule map_of_inject_set [THEN iffD2]) (simp_all add: rev_map [symmetric])

lemma load_exportable_map: "map_of (load_exportable st) = setting_get st |` {k. admits PortablePackage k}"
  by (simp add: load_exportable_def map_of_filter_keys map_of_load_all)

lemma load_exportable_keys:
  assumes "distinct (map fst (kv_rows st))"
  shows "distinct (map fst (load_exportable st))" "sorted (map fst (load_exportable st))"
  using assms load_all_keys [of st]
  by (simp_all add: load_exportable_def distinct_map_filter sorted_filter)

lemma same_list_of_same_map:
  fixes xs ys :: "(string \<times> 'b) list"
  assumes "distinct (map fst xs)" "sorted (map fst xs)" "distinct (map fst ys)" "sorted (map fst ys)" "map_of xs = map_of ys"
  shows "xs = ys"
proof (rule map_sorted_distinct_set_unique [where f = fst])
  show "set xs = set ys" using assms map_of_inject_set by blast
  have "set xs \<union> set ys = set xs" using \<open>set xs = set ys\<close> by simp
  then show "inj_on fst (set xs \<union> set ys)" using assms(1) by (simp add: distinct_map)
qed (use assms in simp_all)

text \<open>
  C33. The package of an install, whatever settings it holds, carries exactly those that are neither
  credentials, nor device identities nor owned by a manager, with their values: imported into another
  install it brings those to their exported values and leaves every other setting there as it was;
  imported into an empty install and exported again it is the same package. A key has one row.\<close>

theorem package_roundtrip:
  assumes "distinct (map fst (kv_rows A))"
  shows "(\<forall>k. map_of (load_exportable A) k =
        (if is_secret_setting_key k \<or> is_non_exportable_setting_key k \<or> is_manager_owned_key k then None
         else setting_get A k))
    \<and> setting_get (set_batch_with_policy PortablePackage now (load_exportable A) st)
      = setting_get st ++ map_of (load_exportable A)
    \<and> load_exportable (set_batch_with_policy PortablePackage now (load_exportable A) fresh_settings)
      = load_exportable A"
proof -
  let ?L = "load_exportable A" and ?B = "set_batch_with_policy PortablePackage now"
  have kept: "filter (\<lambda>r. admits PortablePackage (fst r)) ?L = ?L" by (simp add: load_exportable_def)
  have get: "setting_get (?B ?L s) = setting_get s ++ map_of ?L" for s
    by (simp add: kept map_of_rev_distinct [OF load_exportable_keys(1) [OF assms]])
  have "map_of (load_exportable (?B ?L fresh_settings)) = map_of ?L"
    unfolding load_exportable_map [of "?B ?L fresh_settings"] get
    by (auto simp: fun_eq_iff load_exportable_map setting_get_def fresh_settings_def restrict_map_def map_add_def split: option.split)
  then have "load_exportable (?B ?L fresh_settings) = ?L"
    by (intro same_list_of_same_map load_exportable_keys assms) (simp_all add: fresh_settings_def)
  moreover have "map_of ?L k = (if is_secret_setting_key k \<or> is_non_exportable_setting_key k \<or> is_manager_owned_key k
      then None else setting_get A k)" for k
    by (auto simp: load_exportable_map restrict_map_def admits.simps is_secret_setting_key_def is_non_exportable_setting_key_def)
  ultimately show ?thesis using get by simp
qed

definition install_with_secrets :: settings_store where
  "install_with_secrets = \<lparr>kv_rows = [(''stripe.api_key'', ''sk'', ''t0''), (''tax.rate'', ''11'', ''t0''),
     (''machine_id'', ''m1'', ''t0''), (''lan_server.port'', ''8'', ''t0'')], kv_deltas = []\<rparr>"

theorem package_roundtrip_witness:
  "load_exportable install_with_secrets = [(''tax.rate'', ''11'')]
    \<and> setting_get (set_batch_with_policy PortablePackage ''t1'' (load_exportable install_with_secrets) demo_settings) ''tax.rate''
      = Some ''11''
    \<and> setting_get (set_batch_with_policy PortablePackage ''t1'' (load_exportable install_with_secrets) demo_settings)
        ''stripe.api_key'' = Some ''old''"
proof -
  have "distinct (map fst (kv_rows install_with_secrets))" by (simp add: install_with_secrets_def)
  note r = package_roundtrip [OF this, of "''t1''" demo_settings]
  have L: "load_exportable install_with_secrets = [(''tax.rate'', ''11'')]" by code_simp
  moreover have "setting_get demo_settings ''stripe.api_key'' = Some ''old''" by (simp add: setting_get_def demo_settings_def)
  ultimately show ?thesis unfolding conjunct1 [OF conjunct2 [OF r]] by simp
qed


subsection \<open>Versions of the deltas\<close>

definition gapless :: "settings_store \<Rightarrow> bool" where
  "gapless st \<longleftrightarrow> (\<forall>key terminal. delta_versions st key terminal
     = [1..int (length (delta_versions st key terminal))])"

lemma gaplessD: "gapless st \<Longrightarrow> delta_versions st key terminal = [1..int (length (delta_versions st key terminal))]"
  by (simp add: gapless_def)

lemma fold_max_upto: "0 < n \<Longrightarrow> [1..n] = v # vs \<Longrightarrow> fold max vs v = n"
proof -
  assume n: "0 < n" and h: "[1..n] = v # vs"
  have "fold max vs v = Max (set (v # vs))" by (rule Max.set_eq_fold [symmetric])
  also have "\<dots> = Max {1..n}" unfolding h [symmetric] by simp
  also have "\<dots> = n" using n by (intro Max_eqI) auto
  finally show ?thesis .
qed

lemma next_delta_version_gapless:
  fixes key terminal :: string
  assumes "gapless st"
  defines "n \<equiv> length (delta_versions st key terminal)"
  shows "next_delta_version st key terminal = (if int n < i64_max then int n + 1 else 1)"
proof (cases "delta_versions st key terminal")
  case Nil
  then show ?thesis by (simp add: next_delta_version_def n_def)
next
  case (Cons v vs)
  have "[1..int n] = v # vs" unfolding n_def Cons [symmetric] by (rule sym) (rule gaplessD [OF assms(1)])
  moreover have "0 < int n" using Cons by (simp add: n_def)
  ultimately have "fold max vs v = int n" by (intro fold_max_upto)
  then show ?thesis using Cons by (simp add: next_delta_version_def checked_add_def fit_i64_def in_i64_def)
qed

lemma write_delta_row_gapless:
  assumes "gapless st" and "write_delta_row now key val terminal (next_delta_version st key terminal) st' = Inr st''"
    and same: "kv_deltas st' = kv_deltas st"
  shows "gapless st''"
proof -
  have versions: "delta_versions st' k t = delta_versions st k t" for k t by (simp add: delta_versions_def same)
  let ?n = "length (delta_versions st key terminal)"
  have old: "delta_versions st key terminal = [1..int ?n]" by (rule gaplessD) (rule assms(1))
  have "next_delta_version st key terminal \<notin> set (delta_versions st key terminal)"
    using assms(2) by (auto simp: write_delta_row_def versions split: if_splits)
  then have fresh: "next_delta_version st key terminal \<notin> {1..int ?n}" using old by (metis set_upto)
  have room: "int ?n < i64_max" using fresh by (auto simp: next_delta_version_gapless [OF assms(1)] split: if_splits)
  show ?thesis unfolding gapless_def
  proof (intro allI)
    fix k t
    have "delta_versions st'' k t
        = delta_versions st k t @ (if k = key \<and> t = terminal then [int ?n + 1] else [])"
      using write_delta_row_Inr(3) [OF assms(2), of k t] room
      by (simp add: versions next_delta_version_gapless [OF assms(1)])
    then show "delta_versions st'' k t = [1..int (length (delta_versions st'' k t))]"
      using gaplessD [OF assms(1), of k t] by (cases "k = key \<and> t = terminal") (auto simp: upto_rec2 [of 1 "1 + _"] add.commute)
  qed
qed

lemma gapless_same: "kv_deltas st' = kv_deltas st \<Longrightarrow> gapless st' \<longleftrightarrow> gapless st"
  by (simp add: gapless_def delta_versions_def)

lemma next_delta_version_same:
  "kv_deltas st' = kv_deltas st \<Longrightarrow> next_delta_version st' k t = next_delta_version st k t"
  by (simp add: next_delta_version_def delta_versions_def)

lemma gapless_step:
  assumes "gapless s"
  shows "gapless (setting_step e s)"
proof (rule setting_step_keep [where P = gapless])
  show "gapless s'" if "set_tracked_in_tx now k val terminal r = Inr s'" "gapless r" for now k val terminal r s'
    using that(1)
  proof (cases rule: set_tracked_in_tx_cases)
    case plain
    then show ?thesis using that(2) by (simp add: gapless_same [of "setting_set now k val r"])
  next
    case tracked
    show ?thesis by (rule write_delta_row_gapless [OF that(2) tracked(2)]) simp
  qed
  show "gapless (apply_setting_change now k val terminal r)" if "gapless r" for now k val terminal r
  proof (cases rule: apply_setting_change_cases [of k now val terminal r])
    case tracked
    show ?thesis by (rule write_delta_row_gapless [OF that tracked(2)]) simp
  qed (use that in \<open>simp_all add: gapless_same [of "setting_set now k val r"]\<close>)
qed (use assms in \<open>auto intro: iffD2 [OF gapless_same]\<close>)

interpretation setting_versions: machine fresh_settings setting_step gapless
proof unfold_locales
  show "gapless fresh_settings" by (simp add: gapless_def delta_versions_def fresh_settings_def)
qed (rule gapless_step)

lemma get_version_gapless:
  fixes key terminal :: string
  assumes "gapless st"
  defines "n \<equiv> length (delta_versions st key terminal)"
  shows "get_version st key terminal = (if n = 0 then None else Some (int n))"
proof -
  have "delta_versions st key terminal = [1..int n]" unfolding n_def by (rule gaplessD) (rule assms(1))
  then show ?thesis by (simp add: get_version_def sorted_sort_id upto_rec2 [of 1 "int n"] upto_empty)
qed

text \<open>
  After any history of writes the deltas of a key from a terminal carry the versions 1, 2, 3 and so on
  in the order they were written, with no gap and none twice, and the version read for the pair is the last of them.\<close>

theorem delta_versions_gapless:
  "delta_versions (run setting_step es fresh_settings) key terminal
      = [1..int (length (delta_versions (run setting_step es fresh_settings) key terminal))]
    \<and> get_version (run setting_step es fresh_settings) key terminal
      = (if delta_versions (run setting_step es fresh_settings) key terminal = [] then None
         else Some (int (length (delta_versions (run setting_step es fresh_settings) key terminal))))"
  using gaplessD [OF setting_versions.inv_run] get_version_gapless [OF setting_versions.inv_run] by simp


subsection \<open>The writer with its own transactions\<close>

text \<open>The store that attempt \<open>n\<close> finds when the attempts before it failed.\<close>

definition found_by :: "(nat \<Rightarrow> settings_store \<Rightarrow> settings_store) \<Rightarrow> nat \<Rightarrow> nat \<Rightarrow> settings_store \<Rightarrow> settings_store" where
  "found_by others lo n st = fold others [lo..<Suc n] st"

lemma found_by_simps:
  "found_by others n n st = others n st"
  "lo < n \<Longrightarrow> found_by others lo n st = found_by others (Suc lo) n (others lo st)"
  by (simp_all add: found_by_def upt_rec [of lo])

lemma delta_loop_retries:
  assumes "fails n = Some c" "is_transient_failure (PlatformDb c)" "Suc n < max_attempts"
  shows "delta_loop fails others now key val terminal n st
    = delta_loop fails others now key val terminal (Suc n) (others n st)"
  using assms by (subst delta_loop.simps) (simp add: delta_attempt_def)

lemma delta_loop_free:
  assumes "fails n = None"
    and "write_delta_row now key val terminal (next_delta_version (others n st) key terminal) (others n st) = Inr st'"
  shows "delta_loop fails others now key val terminal n st = (None, st')"
  using assms by (subst delta_loop.simps) (simp add: delta_attempt_def)

lemma delta_loop_reaches:
  assumes "m < max_attempts" "lo \<le> m"
    and "\<And>n. lo \<le> n \<Longrightarrow> n < m \<Longrightarrow> fails n = Some ConstraintViolation \<or> fails n = Some DatabaseBusy"
  shows "delta_loop fails others now key val terminal lo st
    = delta_loop fails others now key val terminal m (if lo < m then found_by others lo (m - 1) st else st)"
  using assms
proof (induction "m - lo" arbitrary: lo st)
  case (Suc d)
  then have "lo < m" and step: "Suc lo < max_attempts" by auto
  obtain c where c: "fails lo = Some c" "is_transient_failure (PlatformDb c)"
    using Suc.prems(3) [of lo] \<open>lo < m\<close> by (auto simp: is_transient_failure_def)
  have "delta_loop fails others now key val terminal lo st
      = delta_loop fails others now key val terminal (Suc lo) (others lo st)"
    by (rule delta_loop_retries [where fails = fails, OF c step])
  also have "\<dots> = delta_loop fails others now key val terminal m
      (if Suc lo < m then found_by others (Suc lo) (m - 1) (others lo st) else others lo st)"
    using Suc.hyps(2) Suc.prems \<open>lo < m\<close> by (intro Suc.hyps(1)) auto
  also have "(if Suc lo < m then found_by others (Suc lo) (m - 1) (others lo st) else others lo st)
      = found_by others lo (m - 1) st"
    using \<open>lo < m\<close> by (cases "Suc lo = m") (auto simp: found_by_simps)
  finally show ?case using \<open>lo < m\<close> by simp
qed simp

text \<open>
  C34. A delta is recorded whenever the database is free for one of the 32 attempts, however often it
  was busy or another writer was faster before, and whatever the others wrote meanwhile: it then becomes
  the newest version of its key and terminal, and nothing else changes.\<close>

theorem delta_write_lives:
  assumes "m < max_attempts" and "fails m = None"
    and "\<forall>n<m. fails n = Some ConstraintViolation \<or> fails n = Some DatabaseBusy"
    and "gapless (found_by others 0 m st)"
    and "int (length (delta_versions (found_by others 0 m st) key terminal)) < i64_max"
  shows "write_delta_standalone fails others now key val terminal st
    = (None, (found_by others 0 m st)\<lparr>kv_deltas := kv_deltas (found_by others 0 m st) @
        [\<lparr>du_key = key, du_value = val, du_terminal = terminal,
          du_version = int (length (delta_versions (found_by others 0 m st) key terminal)) + 1, du_created_at = now\<rparr>]\<rparr>)"
proof -
  define g where "g = (if 0 < m then found_by others 0 (m - 1) st else st)"
  let ?f = "found_by others 0 m st"
  have "fold others [0..<m] st = g" by (simp add: found_by_def g_def)
  then have f: "?f = others m g" by (simp add: found_by_def)
  have "next_delta_version ?f key terminal = int (length (delta_versions ?f key terminal)) + 1"
    using assms(5) by (simp add: next_delta_version_gapless [OF assms(4)])
  moreover have "set (delta_versions ?f key terminal) = {1..int (length (delta_versions ?f key terminal))}"
    using gaplessD [OF assms(4), of key terminal] by (metis set_upto)
  ultimately have row: "write_delta_row now key val terminal (next_delta_version ?f key terminal) ?f
      = Inr (?f\<lparr>kv_deltas := kv_deltas ?f @ [\<lparr>du_key = key, du_value = val, du_terminal = terminal,
          du_version = int (length (delta_versions ?f key terminal)) + 1, du_created_at = now\<rparr>]\<rparr>)"
    by (simp add: write_delta_row_def)
  have "write_delta_standalone fails others now key val terminal st = delta_loop fails others now key val terminal m g"
    unfolding write_delta_standalone_def g_def using assms(1-3) by (intro delta_loop_reaches) auto
  then show ?thesis unfolding f using delta_loop_free [where fails = fails and others = others, OF assms(2) row [unfolded f]] by simp
qed


lemma delta_write_lives_witness:
  "write_delta_standalone (\<lambda>n. if n < 2 then Some DatabaseBusy else None)
      (\<lambda>n st. if n = 1 then st\<lparr>kv_deltas := kv_deltas st @ [\<lparr>du_key = ''ui.locale'', du_value = ''id'',
          du_terminal = ''till-1'', du_version = 1, du_created_at = ''t1''\<rparr>]\<rparr> else st)
      ''t2'' ''ui.locale'' ''en'' ''till-1'' fresh_settings
    = (None, fresh_settings\<lparr>kv_deltas := [\<lparr>du_key = ''ui.locale'', du_value = ''id'', du_terminal = ''till-1'',
          du_version = 1, du_created_at = ''t1''\<rparr>, \<lparr>du_key = ''ui.locale'', du_value = ''en'', du_terminal = ''till-1'',
          du_version = 2, du_created_at = ''t2''\<rparr>]\<rparr>)"
proof -
  let ?d = "\<lparr>du_key = ''ui.locale'', du_value = ''id'', du_terminal = ''till-1'', du_version = 1, du_created_at = ''t1''\<rparr>"
  let ?others = "\<lambda>n st. if n = (1::nat) then st\<lparr>kv_deltas := kv_deltas st @ [?d]\<rparr> else st"
  have found: "found_by ?others 0 2 fresh_settings = \<lparr>kv_rows = [], kv_deltas = [?d]\<rparr>"
    by (simp add: found_by_def fresh_settings_def numeral_2_eq_2)
  have versions: "delta_versions \<lparr>kv_rows = [], kv_deltas = [?d]\<rparr> k t = (if k = ''ui.locale'' \<and> t = ''till-1'' then [1] else [])" for k t
    by (auto simp: delta_versions_def)
  show ?thesis
    using delta_write_lives [of 2 "\<lambda>n. if n < 2 then Some DatabaseBusy else None" ?others fresh_settings
        "''ui.locale''" "''till-1''" "''t2''" "''en''"]
    unfolding found versions gapless_def by (simp add: max_attempts_def fresh_settings_def split: if_splits)
qed

end
