(* ===== verification/Remote_Apply.thy ===== *)
theory Remote_Apply
  imports Refunds Setting_Store
begin

section \<open>Applying what other terminals did\<close>

text \<open>
  Models the pull side of \<open>platform/sync/src/queue.rs\<close>: the payloads, the effect keys, one arm per action
  and \<open>apply_remote_atomic_full\<close> around them, together with the store functions the arms call in
  \<open>products_stock_query.rs\<close>, \<open>sales_lifecycle.rs\<close> and \<open>terminals.rs\<close>. The database is the shop of
  \<open>Refunds\<close> with settings, payments, terminals and products. The JSON parser is an argument; a payload
  struct is read from an object, where serde would also take an array of its fields, and a repeated field is
  not represented. Text of an error, ids and times are arguments. The non-atomic \<open>apply_remote\<close>, which
  nothing calls outside tests, is left out.
\<close>

subsection \<open>Tables\<close>

record payment_row =
  py_id :: string
  py_sale :: string
  py_method :: string
  py_amount :: int
  py_currency :: string
  py_created_at :: string
  py_gateway_reference :: "string option"
  py_gateway_status :: "string option"
  py_gateway_response :: "string option"
  py_idempotency_key :: "string option"

record terminal_row =
  tl_id :: string
  tl_device :: string
  tl_tenant :: string

record product_row =
  pd_id :: string
  pd_sku :: string
  pd_name :: string
  pd_price :: int
  pd_currency :: string
  pd_category :: "string option"
  pd_barcode :: "string option"
  pd_type :: string
  pd_created_at :: string

text \<open>\<open>sh_stock\<close> holds ids and SKUs of the same products again, for the stock operations.\<close>

record remote_db = shop +
  rd_settings :: settings_store
  rd_payments :: "payment_row list"
  rd_terminals :: "terminal_row list"
  rd_categories :: "string list"
  rd_products :: "product_row list"

record remote_env =
  me_parse :: "string \<Rightarrow> json option"
  me_text :: "core_error \<Rightarrow> string"

record remote_args =
  ma_now :: string
  ma_adjust :: "nat \<Rightarrow> adjust_args"
  ma_loyalty :: loyalty_args
  ma_audit_id :: string
  ma_product_id :: string

subsection \<open>Reading payload structs\<close>

fun json_field :: "json \<Rightarrow> string \<Rightarrow> json option" where
  "json_field (JObj fs) k = map_of fs k"
| "json_field _ k = None"

fun is_object :: "json \<Rightarrow> bool" where
  "is_object (JObj fs) \<longleftrightarrow> True"
| "is_object _ \<longleftrightarrow> False"

text \<open>A required field, one with a default for when it is missing, and an \<open>Option\<close>.\<close>

definition need :: "(json \<Rightarrow> 'a option) \<Rightarrow> json \<Rightarrow> string \<Rightarrow> 'a option" where
  "need f v k = Option.bind (json_field v k) f"

definition default_to :: "'a \<Rightarrow> (json \<Rightarrow> 'a option) \<Rightarrow> json \<Rightarrow> string \<Rightarrow> 'a option" where
  "default_to d f v k = (case json_field v k of None \<Rightarrow> Some d | Some j \<Rightarrow> f j)"

fun nullable :: "(json \<Rightarrow> 'a option) \<Rightarrow> json \<Rightarrow> 'a option option" where
  "nullable f JNull = Some None"
| "nullable f j = map_option Some (f j)"

definition optional :: "(json \<Rightarrow> 'a option) \<Rightarrow> json \<Rightarrow> string \<Rightarrow> 'a option option" where
  "optional f v k = default_to None (nullable f) v k"

definition array_of :: "(json \<Rightarrow> 'a option) \<Rightarrow> json \<Rightarrow> 'a list option" where
  "array_of f j = Option.bind (as_array j) (collect_opt f)"

record sale_line_item =
  si_sku :: string
  si_qty :: int

record sale_item =
  sx_sale_id :: "string option"
  sx_lines :: "sale_line_item list"

definition read_sale_line :: "json \<Rightarrow> sale_line_item option" where
  "read_sale_line v = Option.bind (need as_str v ''sku'') (\<lambda>sku.
     Option.bind (default_to 0 as_i64 v ''qty'') (\<lambda>q. Some \<lparr>si_sku = sku, si_qty = q\<rparr>))"

definition read_sale :: "json \<Rightarrow> sale_item option" where
  "read_sale v = (if \<not> is_object v then None else
     Option.bind (optional as_str v ''sale_id'') (\<lambda>sale.
     Option.bind (default_to [] (array_of read_sale_line) v ''line_items'') (\<lambda>ls.
       Some \<lparr>sx_sale_id = sale, sx_lines = ls\<rparr>)))"

record stock_adjustment_item =
  sa_sku :: string
  sa_delta :: int
  sa_location :: "string option"

definition read_stock_adjustment :: "json \<Rightarrow> stock_adjustment_item option" where
  "read_stock_adjustment v = Option.bind (need as_str v ''sku'') (\<lambda>sku.
     Option.bind (need as_i64 v ''delta'') (\<lambda>d.
     Option.bind (optional as_str v ''location_id'') (\<lambda>l. Some \<lparr>sa_sku = sku, sa_delta = d, sa_location = l\<rparr>)))"

record stock_movement_item =
  sm_id :: string
  sm_item :: string
  sm_delta :: int
  sm_reason :: "string option"
  sm_terminal :: "string option"
  sm_user :: "string option"
  sm_store :: string
  sm_created_at :: string

definition read_stock_movement :: "json \<Rightarrow> stock_movement_item option" where
  "read_stock_movement v = Option.bind (need as_str v ''id'') (\<lambda>i.
     Option.bind (need as_str v ''item_id'') (\<lambda>p.
     Option.bind (need as_i64 v ''delta'') (\<lambda>d.
     Option.bind (optional as_str v ''reason'') (\<lambda>why.
     Option.bind (optional as_str v ''source_terminal_id'') (\<lambda>terminal.
     Option.bind (optional as_str v ''source_user_id'') (\<lambda>user.
     Option.bind (need as_str v ''store_id'') (\<lambda>store.
     Option.bind (need as_str v ''created_at'') (\<lambda>at.
       Some \<lparr>sm_id = i, sm_item = p, sm_delta = d, sm_reason = why, sm_terminal = terminal, sm_user = user,
             sm_store = store, sm_created_at = at\<rparr>))))))))"

definition default_sync_terminal :: string where
  "default_sync_terminal = ''sync''"

record settings_item =
  se_key :: string
  se_value :: string
  se_terminal :: string

definition read_settings :: "json \<Rightarrow> settings_item option" where
  "read_settings v = Option.bind (need as_str v ''key'') (\<lambda>k.
     Option.bind (need as_str v ''value'') (\<lambda>val.
     Option.bind (default_to default_sync_terminal as_str v ''terminal_id'') (\<lambda>t.
       Some \<lparr>se_key = k, se_value = val, se_terminal = t\<rparr>)))"

definition read_sale_id :: "json \<Rightarrow> string option" where
  "read_sale_id v = need as_str v ''sale_id''"

record refund_line_item =
  rli_id :: string
  rli_sale_line :: string
  rli_sku :: string
  rli_qty :: int
  rli_unit :: int
  rli_minor :: int
  rli_currency :: string
  rli_created_at :: string
  rli_location :: "string option"

definition read_refund_line :: "json \<Rightarrow> refund_line_item option" where
  "read_refund_line v = Option.bind (need as_str v ''id'') (\<lambda>i.
     Option.bind (default_to [] as_str v ''sale_line_id'') (\<lambda>line.
     Option.bind (default_to [] as_str v ''sku'') (\<lambda>sku.
     Option.bind (default_to 0 as_i64 v ''qty'') (\<lambda>q.
     Option.bind (default_to 0 as_i64 v ''unit_minor'') (\<lambda>unit.
     Option.bind (default_to 0 as_i64 v ''line_minor'') (\<lambda>minor.
     Option.bind (default_to [] as_str v ''currency'') (\<lambda>cur.
     Option.bind (default_to [] as_str v ''created_at'') (\<lambda>at.
     Option.bind (optional as_str v ''location_id'') (\<lambda>l.
       Some \<lparr>rli_id = i, rli_sale_line = line, rli_sku = sku, rli_qty = q, rli_unit = unit, rli_minor = minor,
             rli_currency = cur, rli_created_at = at, rli_location = l\<rparr>)))))))))"

record refund_item =
  rfi_id :: string
  rfi_sale :: string
  rfi_total :: int
  rfi_currency :: string
  rfi_reason :: string
  rfi_note :: string
  rfi_processed_by :: string
  rfi_created_at :: string
  rfi_lines :: "refund_line_item list"

definition read_refund :: "json \<Rightarrow> refund_item option" where
  "read_refund v = Option.bind (need as_str v ''id'') (\<lambda>i.
     Option.bind (need as_str v ''sale_id'') (\<lambda>sale.
     Option.bind (default_to 0 as_i64 v ''total_minor'') (\<lambda>t.
     Option.bind (default_to [] as_str v ''currency'') (\<lambda>cur.
     Option.bind (default_to [] as_str v ''reason'') (\<lambda>why.
     Option.bind (default_to [] as_str v ''note'') (\<lambda>n.
     Option.bind (default_to [] as_str v ''processed_by'') (\<lambda>by'.
     Option.bind (default_to [] as_str v ''created_at'') (\<lambda>at.
     Option.bind (default_to [] (array_of read_refund_line) v ''lines'') (\<lambda>ls.
       Some \<lparr>rfi_id = i, rfi_sale = sale, rfi_total = t, rfi_currency = cur, rfi_reason = why, rfi_note = n,
             rfi_processed_by = by', rfi_created_at = at, rfi_lines = ls\<rparr>)))))))))"

definition read_payment :: "json \<Rightarrow> payment_row option" where
  "read_payment v = Option.bind (need as_str v ''id'') (\<lambda>i.
     Option.bind (need as_str v ''sale_id'') (\<lambda>sale.
     Option.bind (default_to [] as_str v ''method'') (\<lambda>m.
     Option.bind (default_to 0 as_i64 v ''amount_minor'') (\<lambda>a.
     Option.bind (default_to [] as_str v ''currency'') (\<lambda>cur.
     Option.bind (default_to [] as_str v ''created_at'') (\<lambda>at.
     Option.bind (optional as_str v ''gateway_reference'') (\<lambda>gr.
     Option.bind (optional as_str v ''gateway_status'') (\<lambda>gs.
     Option.bind (optional as_str v ''gateway_response'') (\<lambda>gp.
     Option.bind (optional as_str v ''idempotency_key'') (\<lambda>key.
       Some \<lparr>py_id = i, py_sale = sale, py_method = m, py_amount = a, py_currency = cur, py_created_at = at,
             py_gateway_reference = gr, py_gateway_status = gs, py_gateway_response = gp, py_idempotency_key = key\<rparr>))))))))))"

definition is_crdt_envelope :: "json \<Rightarrow> bool" where
  "is_crdt_envelope v \<longleftrightarrow> as_str (jget v ''merge_type'') = Some ''crdt_delta''"

subsection \<open>The effect of an item\<close>

definition effect_field :: "string \<Rightarrow> string \<Rightarrow> json \<Rightarrow> string \<Rightarrow> string option" where
  "effect_field before after v k = map_option (\<lambda>s. before @ s @ after) (as_str (jget v k))"

definition remote_effect_key :: "remote_env \<Rightarrow> string \<Rightarrow> string \<Rightarrow> string option" where
  "remote_effect_key env action payload =
     (case me_parse env payload of
        None \<Rightarrow> None
      | Some v \<Rightarrow>
          if action = ''complete_sale'' then effect_field ''sale:'' '':deduct'' v ''sale_id''
          else if action = ''finalize_sale'' then effect_field ''sale:'' '':finalize'' v ''sale_id''
          else if action = ''void_sale'' then effect_field ''sale:'' '':void'' v ''sale_id''
          else if action = ''refund_sale'' then effect_field ''refund:'' [] v ''id''
          else if action = ''payment.recorded'' then effect_field ''payment:'' [] v ''id''
          else if action = ''stock.movement'' \<and> \<not> is_crdt_envelope v then effect_field ''stock_movement:'' [] v ''id''
          else if action = ''product.created'' then effect_field ''product:'' '':create'' v ''sku''
          else if action = ''settings.update'' \<or> action = ''settings.change'' then effect_field ''setting:'' [] v ''key''
          else None)"


subsection \<open>Stock\<close>

text \<open>The body of \<open>adjust_stock_with_reason\<close> on the caller's transaction, with a reason of its own.\<close>

definition adjust_stock_in_tx ::
    "adjust_args \<Rightarrow> string \<Rightarrow> int \<Rightarrow> stock_store \<Rightarrow> core_error + int \<times> stock_store" where
  "adjust_stock_in_tx x sku delta st = adjust_stock_with_reason x sku delta (Some ''remote-sync'') None None st"

text \<open>\<open>n\<close> counts the adjustments of the item, each with its own ids.\<close>

definition adjust_at ::
    "remote_args \<Rightarrow> string \<Rightarrow> int \<Rightarrow> string \<Rightarrow> string option \<Rightarrow> nat \<times> 'a remote_db_scheme
       \<Rightarrow> core_error + nat \<times> 'a remote_db_scheme" where
  "adjust_at x sku q l why = (\<lambda>(n, db).
     case adjust_stock_at_location_with_reason (ma_adjust x n) sku q l why None None None (sh_stock db) of
       Inl e \<Rightarrow> Inl e
     | Inr (_, stock) \<Rightarrow> Inr (Suc n, db\<lparr>sh_stock := stock\<rparr>))"

definition adjust_legacy ::
    "remote_args \<Rightarrow> string \<Rightarrow> int \<Rightarrow> nat \<times> 'a remote_db_scheme \<Rightarrow> core_error + nat \<times> 'a remote_db_scheme" where
  "adjust_legacy x sku delta = (\<lambda>(n, db).
     case adjust_stock_in_tx (ma_adjust x n) sku delta (sh_stock db) of
       Inl e \<Rightarrow> Inl e
     | Inr (_, stock) \<Rightarrow> Inr (Suc n, db\<lparr>sh_stock := stock\<rparr>))"

definition sku_has_location_rows :: "'a remote_db_scheme \<Rightarrow> string \<Rightarrow> bool" where
  "sku_has_location_rows db sku =
     (case stock_product_id_by_sku (sh_stock db) sku of
        Some p \<Rightarrow> product_has_location_rows (sh_stock db) p
      | None \<Rightarrow> False)"

definition apply_stock_adjustment_delta_in_tx ::
    "remote_args \<Rightarrow> stock_adjustment_item \<Rightarrow> nat \<times> 'a remote_db_scheme \<Rightarrow> core_error + nat \<times> 'a remote_db_scheme" where
  "apply_stock_adjustment_delta_in_tx x a s =
     (case sa_location a of
        Some l \<Rightarrow> adjust_at x (sa_sku a) (sa_delta a) l None s
      | None \<Rightarrow>
          if sku_has_location_rows (snd s) (sa_sku a)
          then adjust_at x (sa_sku a) (sa_delta a) canonical_default_location None s
          else adjust_legacy x (sa_sku a) (sa_delta a) s)"

text \<open>The location of the row is the default of its column.\<close>

definition insert_stock_movement_in_tx ::
    "stock_movement_item \<Rightarrow> 'a remote_db_scheme \<Rightarrow> core_error + 'a remote_db_scheme" where
  "insert_stock_movement_in_tx m db =
     (case insert_movement \<lparr>mv_id = sm_id m, mv_item = sm_item m, mv_location = canonical_default_location,
               mv_delta = sm_delta m, mv_reason = sm_reason m, mv_txn = None, mv_terminal = sm_terminal m,
               mv_user = sm_user m, mv_store = sm_store m, mv_created_at = sm_created_at m\<rparr> (sh_stock db) of
        Inl e \<Rightarrow> Inl e
      | Inr stock \<Rightarrow> Inr (db\<lparr>sh_stock := stock\<rparr>))"

subsection \<open>Products\<close>

definition insert_product_row :: "product_row \<Rightarrow> 'a remote_db_scheme \<Rightarrow> core_error + 'a remote_db_scheme" where
  "insert_product_row p db =
     (if pd_id p \<in> pd_id ` set (rd_products db)
         \<or> pd_barcode p \<noteq> None \<and> pd_barcode p \<in> pd_barcode ` set (rd_products db)
         \<or> (case pd_category p of None \<Rightarrow> False | Some c \<Rightarrow> c \<notin> set (rd_categories db))
      then Inl Db
      else Inr (db\<lparr>rd_products := rd_products db @ [p],
                   sh_stock := (sh_stock db)\<lparr>products := products (sh_stock db) @ [(pd_id p, pd_sku p)]\<rparr>\<rparr>))"

definition insert_initial_stock ::
    "remote_args \<Rightarrow> string \<Rightarrow> int \<Rightarrow> stock_store \<Rightarrow> core_error + stock_store" where
  "insert_initial_stock x p q st =
     (if p \<in> fst ` set (inventory st) then Inl Db
      else (case insert_movement \<lparr>mv_id = aa_movement_id (ma_adjust x 0), mv_item = p,
                mv_location = canonical_default_location, mv_delta = q, mv_reason = Some ''initial-stock'',
                mv_txn = None, mv_terminal = None, mv_user = None, mv_store = [], mv_created_at = ma_now x\<rparr>
              (st\<lparr>inventory := inventory st @ [(p, \<lparr>iv_qty = q, iv_location = canonical_default_location,
                 iv_updated_at = ma_now x\<rparr>)]\<rparr>) of
          Inl e \<Rightarrow> Inl e
        | Inr st1 \<Rightarrow> upsert_stock_summary_in_tx p canonical_default_location q (ma_now x) st1))"

text \<open>
  The look-up goes over all tenants, so after it found nothing the \<open>ON CONFLICT (tenant_id, sku)\<close> of
  the insert has nothing to skip.
\<close>

definition create_product_if_absent_in_tx ::
    "remote_args \<Rightarrow> string \<Rightarrow> string \<Rightarrow> money \<Rightarrow> string option \<Rightarrow> string option \<Rightarrow> int \<Rightarrow> string
       \<Rightarrow> 'a remote_db_scheme \<Rightarrow> core_error + bool \<times> 'a remote_db_scheme" where
  "create_product_if_absent_in_tx x sku pname price category barcode initial kind db =
     (if trim sku = [] then Inl (Validation ''sku'')
      else if length sku > 50 then Inl (Validation ''sku'')
      else if trim pname = [] then Inl (Validation ''name'')
      else if length pname > 255 then Inl (Validation ''name'')
      else if minor_units price < 0 then Inl (Validation ''price'')
      else if initial < 0 then Inl (Validation ''initial_stock'')
      else (case from_utf8 (currency_bytes (money.currency price)) of
        None \<Rightarrow> Inl (Validation ''currency'')
      | Some cur \<Rightarrow>
          (case List.find (\<lambda>p. pd_sku p = trim sku) (rd_products db) of
             Some p \<Rightarrow>
               if pd_name p = trim pname \<and> pd_price p = minor_units price \<and> pd_currency p = cur
                  \<and> pd_category p = category \<and> pd_barcode p = barcode \<and> pd_type p = kind
               then Inr (False, db) else Inl (Conflict ''product'' ''sku'')
           | None \<Rightarrow>
               (case insert_product_row \<lparr>pd_id = ma_product_id x, pd_sku = trim sku, pd_name = trim pname,
                         pd_price = minor_units price, pd_currency = cur, pd_category = category,
                         pd_barcode = barcode, pd_type = kind, pd_created_at = ma_now x\<rparr> db of
                  Inl e \<Rightarrow> Inl e
                | Inr db1 \<Rightarrow>
                    if initial = 0 \<or> kind = ''service'' then Inr (True, db1)
                    else (case insert_initial_stock x (ma_product_id x) initial (sh_stock db1) of
                        Inl e \<Rightarrow> Inl e
                      | Inr stock \<Rightarrow> Inr (True, db1\<lparr>sh_stock := stock\<rparr>))))))"

definition or_else :: "'a \<Rightarrow> 'a option \<Rightarrow> 'a" where
  "or_else d v = (case v of None \<Rightarrow> d | Some a \<Rightarrow> a)"

definition apply_product_created :: "remote_args \<Rightarrow> json \<Rightarrow> 'a remote_db_scheme \<Rightarrow> core_error + 'a remote_db_scheme" where
  "apply_product_created x v db =
     (case currency_from_str (or_else [] (as_str (jget v ''currency''))) of
        Inl _ \<Rightarrow> Inl Internal
      | Inr cur \<Rightarrow>
          (case create_product_if_absent_in_tx x (or_else [] (as_str (jget v ''sku''))) (or_else [] (as_str (jget v ''name'')))
                  (mk_money (or_else (-1) (as_i64 (jget v ''price_minor''))) cur)
                  (as_str (jget v ''category_id'')) (as_str (jget v ''barcode''))
                  (or_else 0 (as_i64 (jget v ''initial_stock''))) (or_else ''retail'' (as_str (jget v ''product_type''))) db of
             Inl e \<Rightarrow> Inl e
           | Inr (_, db') \<Rightarrow> Inr db'))"

subsection \<open>Sales\<close>

definition get_sync_terminal_id :: "settings_store \<Rightarrow> string option" where
  "get_sync_terminal_id st = (case setting_get st ''sync_terminal_id'' of
     None \<Rightarrow> None | Some s \<Rightarrow> if s = [] then None else Some s)"

definition resolve_terminal_row_id :: "'a remote_db_scheme \<Rightarrow> string \<Rightarrow> string \<Rightarrow> string option" where
  "resolve_terminal_row_id db tenant identity =
     (if trim identity = [] then None
      else (let rows = filter (\<lambda>t. tl_tenant t = tenant \<and> (tl_id t = identity \<or> tl_device t = identity)) (rd_terminals db)
            in case filter (\<lambda>t. tl_id t = identity) rows @ filter (\<lambda>t. tl_id t \<noteq> identity) rows of
                 [] \<Rightarrow> None | t # _ \<Rightarrow> Some (tl_id t)))"

definition sale_completed_here_in_tx :: "'a remote_db_scheme \<Rightarrow> string \<Rightarrow> bool" where
  "sale_completed_here_in_tx db sale =
     (case get_sync_terminal_id (rd_settings db) of
        None \<Rightarrow> False
      | Some this \<Rightarrow>
          (case find_sale db sale of
             None \<Rightarrow> False
           | Some s \<Rightarrow>
               (case so_terminal s of
                  None \<Rightarrow> False
                | Some terminal \<Rightarrow>
                    terminal = this
                    \<or> (let tenant = or_else ''default'' (so_tenant s)
                       in case (resolve_terminal_row_id db tenant this, resolve_terminal_row_id db tenant terminal) of
                            (Some a, Some b) \<Rightarrow> a = b | _ \<Rightarrow> False))))"

text \<open>Negating the smallest quantity overflows, which panics.\<close>

definition deduct_sale_line ::
    "remote_args \<Rightarrow> sale_line_item \<Rightarrow> nat \<times> 'a remote_db_scheme \<Rightarrow> (core_error, nat \<times> 'a remote_db_scheme) outcome" where
  "deduct_sale_line x l s =
     (case checked_neg (si_qty l) of None \<Rightarrow> Panic | Some d \<Rightarrow> of_sum (adjust_legacy x (si_sku l) d s))"

definition apply_complete_sale ::
    "remote_args \<Rightarrow> sale_item \<Rightarrow> 'a remote_db_scheme \<Rightarrow> (core_error, 'a remote_db_scheme) outcome" where
  "apply_complete_sale x p db =
     (if (case sx_sale_id p of None \<Rightarrow> False | Some sale \<Rightarrow> sale_completed_here_in_tx db sale) then Ok db
      else obind (oeach (deduct_sale_line x) (sx_lines p) (0, db)) (\<lambda>(_, db'). Ok db'))"

text \<open>The award of a completed sale. A failed award keeps the account it may have opened before.\<close>

definition award_or_keep :: "loyalty_args \<Rightarrow> string \<Rightarrow> string \<Rightarrow> int \<Rightarrow> loyalty_store \<Rightarrow> loyalty_store" where
  "award_or_keep x customer sale amount st =
     (case earn_points_with_conn x customer sale amount st of
        Inr (_, st') \<Rightarrow> st'
      | Inl _ \<Rightarrow>
          if customer \<notin> cu_id ` set (lo_customers st) then st
          else (case insert_or_ignore_account (ly_account_id x) customer (ly_now x) st of Inl _ \<Rightarrow> st | Inr st' \<Rightarrow> st'))"

definition apply_customer_stats_on_completion :: "remote_args \<Rightarrow> string \<Rightarrow> loyalty_store \<Rightarrow> loyalty_store" where
  "apply_customer_stats_on_completion x sale st =
     (case List.find (\<lambda>s. so_id s = sale) (lo_sales st) of
        None \<Rightarrow> st
      | Some s \<Rightarrow>
          (case so_customer s of
             None \<Rightarrow> st
           | Some customer \<Rightarrow>
               (let earn_total = or_else (so_total s) (so_base_total s)
                in award_or_keep (ma_loyalty x) customer sale earn_total
                     (st\<lparr>lo_customers := map (\<lambda>c. if cu_id c = customer
                        then c\<lparr>cu_total_spent := cu_total_spent c + earn_total, cu_updated_at := ma_now x\<rparr> else c)
                        (lo_customers st)\<rparr>))))"

definition set_sale_status ::
    "remote_args \<Rightarrow> string \<Rightarrow> string \<Rightarrow> string \<Rightarrow> 'a remote_db_scheme \<Rightarrow> nat \<times> 'a remote_db_scheme" where
  "set_sale_status x sale old new db =
     (let hit = (\<lambda>s. so_id s = sale \<and> so_status s = old); sales = lo_sales (sh_loyalty db)
      in (length (filter hit sales), db\<lparr>sh_loyalty := (sh_loyalty db)\<lparr>lo_sales := map (\<lambda>s. if hit s
            then s\<lparr>so_status := new, so_updated_at := ma_now x, so_version := so_version s + 1\<rparr> else s) sales\<rparr>\<rparr>))"

definition finalize_sale_in_tx :: "remote_args \<Rightarrow> string \<Rightarrow> 'a remote_db_scheme \<Rightarrow> 'a remote_db_scheme" where
  "finalize_sale_in_tx x sale db =
     (case set_sale_status x sale ''pending'' ''completed'' db of
        (changed, db1) \<Rightarrow>
          if changed = 1 then db1\<lparr>sh_loyalty := apply_customer_stats_on_completion x sale (sh_loyalty db1)\<rparr> else db1)"

definition apply_void_sale_in_tx :: "remote_args \<Rightarrow> string \<Rightarrow> 'a remote_db_scheme \<Rightarrow> core_error + 'a remote_db_scheme" where
  "apply_void_sale_in_tx x sale db =
     (case set_sale_status x sale ''active'' ''voided'' db of
        (rows, db1) \<Rightarrow>
          if rows = 1 then Inr db1
          else (case find_sale db1 sale of
              None \<Rightarrow> Inr db1
            | Some s \<Rightarrow> if so_status s = ''voided'' then Inr db1 else Inl (Conflict ''sale'' ''status'')))"

subsection \<open>Payments\<close>

definition payment_already_applied :: "'a remote_db_scheme \<Rightarrow> payment_row \<Rightarrow> bool" where
  "payment_already_applied db p =
     (case py_idempotency_key p of
        Some key \<Rightarrow> list_ex (\<lambda>q. py_idempotency_key q = Some key) (rd_payments db)
      | None \<Rightarrow> list_ex (\<lambda>q. py_id q = py_id p) (rd_payments db))"

definition insert_payment_in_tx :: "payment_row \<Rightarrow> 'a remote_db_scheme \<Rightarrow> core_error + 'a remote_db_scheme" where
  "insert_payment_in_tx p db =
     (if py_id p \<in> py_id ` set (rd_payments db) \<or> find_sale db (py_sale p) = None
         \<or> py_idempotency_key p \<noteq> None \<and> py_idempotency_key p \<in> py_idempotency_key ` set (rd_payments db)
      then Inl Db else Inr (db\<lparr>rd_payments := rd_payments db @ [p]\<rparr>))"

definition apply_payment :: "payment_row \<Rightarrow> 'a remote_db_scheme \<Rightarrow> core_error + 'a remote_db_scheme" where
  "apply_payment p db =
     (if payment_already_applied db p then Inr db
      else if find_sale db (py_sale p) \<noteq> None then insert_payment_in_tx p db else Inr db)"


subsection \<open>Refunds\<close>

definition refund_already_applied :: "'a remote_db_scheme \<Rightarrow> string \<Rightarrow> bool" where
  "refund_already_applied db k \<longleftrightarrow> list_ex (\<lambda>r. rf_id r = k) (sh_refunds db)"

definition credit_remote_line ::
    "remote_args \<Rightarrow> refund_line_item \<Rightarrow> nat \<times> 'a remote_db_scheme \<Rightarrow> core_error + nat \<times> 'a remote_db_scheme" where
  "credit_remote_line x l s =
     (if rli_qty l \<le> 0 then Inr s
      else adjust_at x (rli_sku l) (rli_qty l) (or_else canonical_default_location (rli_location l)) (Some ''refund'') s)"

definition credit_refund_effect_without_sale ::
    "remote_args \<Rightarrow> refund_item \<Rightarrow> 'a remote_db_scheme \<Rightarrow> core_error + 'a remote_db_scheme" where
  "credit_refund_effect_without_sale x p db =
     (case each (credit_remote_line x) (rfi_lines p) (0, db) of Inl e \<Rightarrow> Inl e | Inr (_, db') \<Rightarrow> Inr db')"

definition replicated_line :: "refund_item \<Rightarrow> refund_line_item \<Rightarrow> refund_line_row" where
  "replicated_line p l = \<lparr>rw_id = rli_id l, rw_refund = rfi_id p, rw_sale_line = rli_sale_line l, rw_sku = rli_sku l,
     rw_qty = rli_qty l, rw_unit = rli_unit l, rw_minor = rli_minor l, rw_currency = rli_currency l,
     rw_created_at = rli_created_at l\<rparr>"

definition reverse_loyalty_for_refund_in_tx :: "remote_args \<Rightarrow> sale_row \<Rightarrow> refund_item \<Rightarrow> loyalty_store \<Rightarrow> loyalty_store" where
  "reverse_loyalty_for_refund_in_tx x s p st =
     snd (reverse_loyalty_on_refund (ma_now x) (rfi_sale p) (rfi_id p) (rfi_total p) (so_total s) st)"

definition reverse_customer_spend_for_refund_in_tx :: "sale_row \<Rightarrow> refund_item \<Rightarrow> loyalty_store \<Rightarrow> loyalty_store" where
  "reverse_customer_spend_for_refund_in_tx s p st =
     (case so_customer s of
        None \<Rightarrow> st
      | Some c \<Rightarrow> reverse_customer_spend_on_refund c (rfi_total p) (so_total s) (so_base_total s) (rfi_created_at p) st)"

definition replicated_audit :: "remote_args \<Rightarrow> refund_item \<Rightarrow> audit_row" where
  "replicated_audit x p = \<lparr>au_id = ma_audit_id x, au_user = rfi_processed_by p, au_action = ''sale.refund'',
     au_target_type = ''sale'', au_target = rfi_sale p,
     au_details = jobj [(''refund_id'', JStr (rfi_id p)), (''reason'', JStr (rfi_reason p)),
       (''total_minor'', json_int (rfi_total p)), (''currency'', JStr (rfi_currency p)),
       (''line_count'', json_int (int (length (rfi_lines p)))), (''origin'', JStr ''sync'')],
     au_outcome = ''success'', au_created_at = rfi_created_at p\<rparr>"

definition apply_refund_with_sale_in_tx ::
    "remote_args \<Rightarrow> sale_row \<Rightarrow> refund_item \<Rightarrow> 'a remote_db_scheme \<Rightarrow> core_error + 'a remote_db_scheme" where
  "apply_refund_with_sale_in_tx x s p db =
     (case so_tenant s of
        None \<Rightarrow> Inl Db
      | Some tenant \<Rightarrow>
          (case insert_refund_row \<lparr>rf_id = rfi_id p, rf_sale = rfi_sale p, rf_total = rfi_total p,
                  rf_currency = rfi_currency p, rf_reason = rfi_reason p, rf_note = rfi_note p,
                  rf_processed_by = rfi_processed_by p, rf_created_at = rfi_created_at p, rf_tenant = tenant\<rparr> db of
             Inl e \<Rightarrow> Inl e
           | Inr db1 \<Rightarrow>
               (case each (\<lambda>l. insert_refund_line_row (replicated_line p l)) (rfi_lines p) db1 of
                  Inl e \<Rightarrow> Inl e
                | Inr db2 \<Rightarrow>
                    (case credit_refund_effect_without_sale x p db2 of
                       Inl e \<Rightarrow> Inl e
                     | Inr db3 \<Rightarrow>
                         insert_audit (replicated_audit x p)
                           (db3\<lparr>sh_loyalty := reverse_customer_spend_for_refund_in_tx s p
                              (reverse_loyalty_for_refund_in_tx x s p (sh_loyalty db3))\<rparr>)))))"

definition apply_refund :: "remote_args \<Rightarrow> refund_item \<Rightarrow> 'a remote_db_scheme \<Rightarrow> core_error + 'a remote_db_scheme" where
  "apply_refund x p db =
     (if refund_already_applied db (rfi_id p) then Inr db
      else (case find_sale db (rfi_sale p) of
          Some s \<Rightarrow> apply_refund_with_sale_in_tx x s p db
        | None \<Rightarrow> credit_refund_effect_without_sale x p db))"

subsection \<open>Dispatching an item\<close>

definition payload_as :: "remote_env \<Rightarrow> (json \<Rightarrow> 'p option) \<Rightarrow> offline_queue_item \<Rightarrow> (core_error, 'p) outcome" where
  "payload_as env f item = ok_or (Option.bind (me_parse env (qi_payload item)) f) Internal"

text \<open>One sub-effect, or the local and the remote one of a merged item; a missing side reads as \<open>Null\<close>.\<close>

definition both_sides :: "(json \<Rightarrow> 's \<Rightarrow> ('e, 's) outcome) \<Rightarrow> json \<Rightarrow> 's \<Rightarrow> ('e, 's) outcome" where
  "both_sides f v s =
     (if is_crdt_envelope v then obind (f (jget v ''local'') s) (f (jget v ''remote'')) else f v s)"

definition apply_one_adjustment ::
    "remote_args \<Rightarrow> json \<Rightarrow> nat \<times> 'a remote_db_scheme \<Rightarrow> (core_error, nat \<times> 'a remote_db_scheme) outcome" where
  "apply_one_adjustment x v s =
     obind (ok_or (read_stock_adjustment v) Internal) (\<lambda>a. of_sum (apply_stock_adjustment_delta_in_tx x a s))"

definition apply_one_movement :: "json \<Rightarrow> 'a remote_db_scheme \<Rightarrow> (core_error, 'a remote_db_scheme) outcome" where
  "apply_one_movement v db =
     obind (ok_or (read_stock_movement v) Internal) (\<lambda>m. of_sum (insert_stock_movement_in_tx m db))"

definition apply_remote_in_tx ::
    "remote_env \<Rightarrow> remote_args \<Rightarrow> offline_queue_item \<Rightarrow> 'a remote_db_scheme \<Rightarrow> (core_error, 'a remote_db_scheme) outcome" where
  "apply_remote_in_tx env x item db =
     (let action = qi_action item
      in if action = ''complete_sale'' then
           obind (payload_as env read_sale item) (\<lambda>p. apply_complete_sale x p db)
         else if action = ''stock.adjusted'' then
           obind (payload_as env Some item) (\<lambda>v. obind (both_sides (apply_one_adjustment x) v (0, db)) (\<lambda>(_, db'). Ok db'))
         else if action = ''product.created'' then
           obind (payload_as env Some item) (\<lambda>v. of_sum (apply_product_created x v db))
         else if action = ''stock.movement'' then
           obind (payload_as env Some item) (\<lambda>v. both_sides apply_one_movement v db)
         else if action = ''settings.update'' \<or> action = ''settings.change'' then
           obind (payload_as env read_settings item) (\<lambda>p.
             Ok (db\<lparr>rd_settings := apply_setting_change (ma_now x) (se_key p) (se_value p) (se_terminal p) (rd_settings db)\<rparr>))
         else if action = ''finalize_sale'' then
           obind (payload_as env read_sale_id item) (\<lambda>sale. Ok (finalize_sale_in_tx x sale db))
         else if action = ''refund_sale'' then
           obind (payload_as env read_refund item) (\<lambda>p. of_sum (apply_refund x p db))
         else if action = ''void_sale'' then
           obind (payload_as env read_sale_id item) (\<lambda>sale. of_sum (apply_void_sale_in_tx x sale db))
         else if action = ''payment.recorded'' then
           obind (payload_as env read_payment item) (\<lambda>p. of_sum (apply_payment p db))
         else Err Internal)"

subsection \<open>Receipts, the origin gate and the quarantine\<close>

record apply_outcome =
  applied :: bool
  settings_change :: "(string \<times> string) option"

definition not_applied :: apply_outcome where
  "not_applied = \<lparr>applied = False, settings_change = None\<rparr>"

definition settings_change_of :: "remote_env \<Rightarrow> offline_queue_item \<Rightarrow> (string \<times> string) option" where
  "settings_change_of env item =
     (if qi_action item \<noteq> ''settings.update'' \<and> qi_action item \<noteq> ''settings.change'' then None
      else (case Option.bind (me_parse env (qi_payload item)) read_settings of
          None \<Rightarrow> None
        | Some p \<Rightarrow> if \<not> admits RemoteSync (se_key p) then None else Some (se_key p, se_terminal p)))"

definition effect_of :: "remote_env \<Rightarrow> offline_queue_item \<Rightarrow> string option" where
  "effect_of env item = remote_effect_key env (qi_action item) (qi_payload item)"

definition already_delivered :: "remote_env \<Rightarrow> offline_queue_item \<Rightarrow> queue_store \<Rightarrow> bool" where
  "already_delivered env item q \<longleftrightarrow>
     (case effect_of env item of
        Some key \<Rightarrow> list_ex (\<lambda>r. fst r = qi_id item \<or> snd (snd r) = Some key) (oq_applied q)
      | None \<Rightarrow> is_remote_item_applied q (qi_id item))"

definition receipt :: "remote_env \<Rightarrow> offline_queue_item \<Rightarrow> queue_store \<Rightarrow> queue_store" where
  "receipt env item q =
     clear_remote_failure (qi_id item)
       (mark_remote_item_applied_with_effect (qi_id item) (qi_action item) (effect_of env item) q)"

definition failure_limit :: int where
  "failure_limit = 3"

text \<open>
  The result of a call and the database after it; \<open>None\<close> is a panic, on whose way out the open
  transaction is rolled back.
\<close>

definition apply_remote_atomic_full ::
    "remote_env \<Rightarrow> remote_args \<Rightarrow> offline_queue_item \<Rightarrow> 'a remote_db_scheme
       \<Rightarrow> (core_error + apply_outcome) option \<times> 'a remote_db_scheme" where
  "apply_remote_atomic_full env x item db =
     (let q = sh_queue db
      in if is_remote_failure_dead_lettered q (qi_id item) then (Some (Inr not_applied), db)
         else if origin_terminal_id item \<noteq> None \<and> get_sync_terminal_id (rd_settings db) = origin_terminal_id item
         then (Some (Inr not_applied), db\<lparr>sh_queue := receipt env item q\<rparr>)
         else if already_delivered env item q then (Some (Inr not_applied), db)
         else (case apply_remote_in_tx env x item db of
             Ok db' \<Rightarrow> (Some (Inr \<lparr>applied = True, settings_change = settings_change_of env item\<rparr>),
                         db'\<lparr>sh_queue := receipt env item (sh_queue db')\<rparr>)
           | Err e \<Rightarrow> (Some (Inl e), db\<lparr>sh_queue := snd (record_remote_failure (ma_now x) (qi_id item) (qi_action item)
                         (qi_payload item) (me_text env e) failure_limit q)\<rparr>)
           | Panic \<Rightarrow> (None, db)))"

definition apply_remote_atomic ::
    "remote_env \<Rightarrow> remote_args \<Rightarrow> offline_queue_item \<Rightarrow> 'a remote_db_scheme
       \<Rightarrow> (core_error + bool) option \<times> 'a remote_db_scheme" where
  "apply_remote_atomic env x item db =
     (case apply_remote_atomic_full env x item db of
        (Some (Inl e), db') \<Rightarrow> (Some (Inl e), db')
      | (Some (Inr r), db') \<Rightarrow> (Some (Inr (applied r)), db')
      | (None, db') \<Rightarrow> (None, db'))"

subsection \<open>Conflicts of a push\<close>

definition resolution_tag :: "resolved_item \<Rightarrow> string" where
  "resolution_tag r =
     (let won = (\<lambda>i. case i of None \<Rightarrow> False | Some j \<Rightarrow> qi_id (winner r) = qi_id j)
      in if won (ri_local r) then ''local won'' else if won (ri_remote r) then ''remote won'' else ''crdt merge'')"

definition is_new_winner :: "resolved_item \<Rightarrow> bool" where
  "is_new_winner r =
     (let won = (\<lambda>i. case i of None \<Rightarrow> False | Some j \<Rightarrow> qi_id (winner r) = qi_id j)
      in if won (ri_local r) then False else if won (ri_remote r) then False else True)"

text \<open>Marking commits by itself, so it stays when the merged item cannot be enqueued.\<close>

definition apply_resolution ::
    "queue_env \<Rightarrow> queue_args \<Rightarrow> resolved_item \<Rightarrow> queue_store \<Rightarrow> core_error option \<times> queue_store" where
  "apply_resolution env x r st =
     (case (case ri_local r of None \<Rightarrow> Inr st
              | Some i \<Rightarrow> mark_offline_resolved (qa_now x) (qi_id i) (resolution_tag r) st) of
        Inl e \<Rightarrow> (Some e, st)
      | Inr st1 \<Rightarrow>
          if is_new_winner r
          then (case enqueue_offline env x (qi_action (winner r)) (qi_payload (winner r)) st1 of
              Inl e \<Rightarrow> (Some e, st1) | Inr (_, st2) \<Rightarrow> (None, st2))
          else (None, st1))"

definition apply_push_conflict ::
    "(string \<Rightarrow> int option) \<Rightarrow> (string \<Rightarrow> string option) \<Rightarrow> (string \<Rightarrow> string \<Rightarrow> string) \<Rightarrow> string \<Rightarrow> queue_env \<Rightarrow> queue_args
       \<Rightarrow> offline_queue_item \<Rightarrow> offline_queue_item \<Rightarrow> queue_store \<Rightarrow> core_error option \<times> queue_store" where
  "apply_push_conflict extract_version extract_status merged_payload fresh env x l server st =
     apply_resolution env x (resolve_conflict extract_version extract_status merged_payload fresh l server) st"

definition last_synced_at :: "queue_store \<Rightarrow> string option" where
  "last_synced_at st = (case sort (List.map_filter synced_at (filter (\<lambda>i. qi_status i = QSynced) (list_all_offline st))) of
     [] \<Rightarrow> None | ts \<Rightarrow> Some (last ts))"


subsection \<open>What an arm leaves alone\<close>

text \<open>No arm touches the queue tables, and only the settings arm touches the settings.\<close>

definition keeps_sync :: "'a remote_db_scheme \<Rightarrow> 'a remote_db_scheme \<Rightarrow> bool" where
  "keeps_sync db db' \<longleftrightarrow> sh_queue db' = sh_queue db \<and> rd_settings db' = rd_settings db"

lemma keeps_sync_refl [simp]: "keeps_sync db db"
  by (simp add: keeps_sync_def)

lemma keeps_sync_trans: "keeps_sync a b \<Longrightarrow> keeps_sync b c \<Longrightarrow> keeps_sync a c"
  by (simp add: keeps_sync_def)

lemma each_keeps:
  assumes step: "\<And>x s s'. f x s = Inr s' \<Longrightarrow> P s \<Longrightarrow> P s'"
  shows "each f xs s = Inr s' \<Longrightarrow> P s \<Longrightarrow> P s'"
  by (induction xs arbitrary: s) (auto split: sum.splits dest: step)

lemma adjust_at_Inr:
  assumes "adjust_at x sku q l why s = Inr s'"
  obtains new stock where
    "adjust_stock_at_location_with_reason (ma_adjust x (fst s)) sku q l why None None None (sh_stock (snd s)) = Inr (new, stock)"
    "s' = (Suc (fst s), (snd s)\<lparr>sh_stock := stock\<rparr>)"
  using assms that by (cases s) (auto simp: adjust_at_def split: sum.splits)

lemma adjust_legacy_Inr:
  assumes "adjust_legacy x sku d s = Inr s'"
  obtains new stock where "adjust_stock_in_tx (ma_adjust x (fst s)) sku d (sh_stock (snd s)) = Inr (new, stock)"
    "s' = (Suc (fst s), (snd s)\<lparr>sh_stock := stock\<rparr>)"
  using assms that by (cases s) (auto simp: adjust_legacy_def split: sum.splits)

lemma adjust_keeps_sync:
  "adjust_at x sku q l why s = Inr s' \<Longrightarrow> keeps_sync (snd s) (snd s')"
  "adjust_legacy x sku q s = Inr s' \<Longrightarrow> keeps_sync (snd s) (snd s')"
  by (auto elim!: adjust_at_Inr adjust_legacy_Inr simp: keeps_sync_def)

lemma apply_complete_sale_keeps_sync:
  assumes "apply_complete_sale x p db = Ok db'"
  shows "keeps_sync db db'"
proof -
  have "keeps_sync db (snd s)" if "oeach (deduct_sale_line x) (sx_lines p) (0, db) = Ok s" for s
  proof (rule oeach_keeps [where P = "\<lambda>s. keeps_sync db (snd s)", OF _ that])
    show "keeps_sync db (snd b)" if "deduct_sale_line x l a = Ok b" "keeps_sync db (snd a)" for l a b
      using that by (auto simp: deduct_sale_line_def split: option.splits intro: keeps_sync_trans [OF _ adjust_keeps_sync(2)])
  qed simp
  then show ?thesis using assms by (auto simp: apply_complete_sale_def split: if_splits)
qed

lemma apply_one_adjustment_keeps_sync:
  "apply_one_adjustment x v s = Ok s' \<Longrightarrow> keeps_sync (snd s) (snd s')"
  by (auto simp: apply_one_adjustment_def apply_stock_adjustment_delta_in_tx_def
      split: option.splits if_splits intro: adjust_keeps_sync)

lemma both_sides_keeps:
  assumes "\<And>w a b. f w a = Ok b \<Longrightarrow> R a b" "\<And>a b c. R a b \<Longrightarrow> R b c \<Longrightarrow> R a c"
  shows "both_sides f v s = Ok s' \<Longrightarrow> R s s'"
  by (auto simp: both_sides_def split: if_splits intro: assms(1) assms(2) [OF assms(1) assms(1)])

lemma apply_product_created_keeps_sync: "apply_product_created x v db = Inr db' \<Longrightarrow> keeps_sync db db'"
  by (auto simp: apply_product_created_def create_product_if_absent_in_tx_def insert_product_row_def keeps_sync_def
      split: sum.splits if_splits option.splits)

lemma insert_stock_movement_Inr:
  assumes "insert_stock_movement_in_tx m db = Inr db'"
  obtains stock where "db' = db\<lparr>sh_stock := stock\<rparr>"
  using assms that by (auto simp: insert_stock_movement_in_tx_def split: sum.splits)

lemma apply_one_movement_keeps_sync: "apply_one_movement v db = Ok db' \<Longrightarrow> keeps_sync db db'"
  by (auto simp: apply_one_movement_def keeps_sync_def elim!: insert_stock_movement_Inr)

lemma credit_without_sale_keeps_sync:
  assumes "credit_refund_effect_without_sale x p db = Inr db'"
  shows "keeps_sync db db'"
proof -
  have "keeps_sync db (snd s)" if "each (credit_remote_line x) (rfi_lines p) (0, db) = Inr s" for s
  proof (rule each_keeps [where P = "\<lambda>s. keeps_sync db (snd s)", OF _ that])
    show "keeps_sync db (snd b)" if "credit_remote_line x l a = Inr b" "keeps_sync db (snd a)" for l a b
      using that by (auto simp: credit_remote_line_def split: if_splits intro: keeps_sync_trans [OF _ adjust_keeps_sync(1)])
  qed simp
  then show ?thesis using assms by (auto simp: credit_refund_effect_without_sale_def split: sum.splits)
qed

lemma insert_lines_keep_sync:
  "each (\<lambda>l. insert_refund_line_row (g l)) ls db = Inr db' \<Longrightarrow> keeps_sync db db'"
proof (erule each_keeps [where P = "keeps_sync db", rotated])
  show "keeps_sync db b" if "insert_refund_line_row (g l) a = Inr b" "keeps_sync db a" for l a b
    using that by (auto simp: insert_refund_line_row_def keeps_sync_def split: if_splits)
qed simp

lemma apply_refund_with_sale_Inr:
  assumes "apply_refund_with_sale_in_tx x s p db = Inr db'"
  obtains tenant db1 db2 db3 where "so_tenant s = Some tenant"
    "insert_refund_row \<lparr>rf_id = rfi_id p, rf_sale = rfi_sale p, rf_total = rfi_total p,
        rf_currency = rfi_currency p, rf_reason = rfi_reason p, rf_note = rfi_note p,
        rf_processed_by = rfi_processed_by p, rf_created_at = rfi_created_at p, rf_tenant = tenant\<rparr> db = Inr db1"
    "each (\<lambda>l. insert_refund_line_row (replicated_line p l)) (rfi_lines p) db1 = Inr db2"
    "credit_refund_effect_without_sale x p db2 = Inr db3"
    "insert_audit (replicated_audit x p) (db3\<lparr>sh_loyalty := reverse_customer_spend_for_refund_in_tx s p
        (reverse_loyalty_for_refund_in_tx x s p (sh_loyalty db3))\<rparr>) = Inr db'"
  using assms that by (auto simp: apply_refund_with_sale_in_tx_def split: option.splits sum.splits)

lemma apply_refund_keeps_sync:
  assumes "apply_refund x p db = Inr db'"
  shows "keeps_sync db db'"
proof -
  have "keeps_sync db db'" if h: "apply_refund_with_sale_in_tx x s p db = Inr db'" for s
    using h
  proof (rule apply_refund_with_sale_Inr)
    fix tenant db1 db2 db3
    assume s: "insert_refund_row \<lparr>rf_id = rfi_id p, rf_sale = rfi_sale p, rf_total = rfi_total p,
        rf_currency = rfi_currency p, rf_reason = rfi_reason p, rf_note = rfi_note p,
        rf_processed_by = rfi_processed_by p, rf_created_at = rfi_created_at p, rf_tenant = tenant\<rparr> db = Inr db1"
      "each (\<lambda>l. insert_refund_line_row (replicated_line p l)) (rfi_lines p) db1 = Inr db2"
      "credit_refund_effect_without_sale x p db2 = Inr db3"
      "insert_audit (replicated_audit x p) (db3\<lparr>sh_loyalty := reverse_customer_spend_for_refund_in_tx s p
        (reverse_loyalty_for_refund_in_tx x s p (sh_loyalty db3))\<rparr>) = Inr db'"
    have "keeps_sync db db1" using s(1) by (auto simp: insert_refund_row_def keeps_sync_def split: if_splits)
    moreover have "keeps_sync db3 db'" using s(4) by (auto simp: insert_audit_def keeps_sync_def split: if_splits)
    ultimately show ?thesis
      using insert_lines_keep_sync [OF s(2)] credit_without_sale_keeps_sync [OF s(3)] keeps_sync_trans by blast
  qed
  then show ?thesis using assms credit_without_sale_keeps_sync
    by (auto simp: apply_refund_def split: if_splits option.splits)
qed

lemma sale_arms_keep_sync:
  "keeps_sync db (finalize_sale_in_tx x sale db)"
  "apply_void_sale_in_tx x sale db = Inr db' \<Longrightarrow> keeps_sync db db'"
  "apply_payment p db = Inr db' \<Longrightarrow> keeps_sync db db'"
  by (auto simp: finalize_sale_in_tx_def apply_void_sale_in_tx_def set_sale_status_def apply_payment_def
      insert_payment_in_tx_def keeps_sync_def Let_def split: if_splits option.splits)

lemma either_arm: "(if c then f else g) = Ok d \<Longrightarrow> (f = Ok d \<Longrightarrow> R) \<Longrightarrow> (g = Ok d \<Longrightarrow> R) \<Longrightarrow> R"
  by (auto split: if_splits)

lemma apply_remote_in_tx_Ok:
  assumes "apply_remote_in_tx env x item db = Ok db'"
  obtains (sale) p where "apply_complete_sale x p db = Ok db'"
  | (adjusted) v n where "both_sides (apply_one_adjustment x) v (0, db) = Ok (n, db')"
  | (product) v where "apply_product_created x v db = Inr db'"
  | (movement) v where "both_sides apply_one_movement v db = Ok db'"
  | (setting) "\<exists>p :: settings_item. db' = db\<lparr>rd_settings := apply_setting_change (ma_now x) (se_key p) (se_value p) (se_terminal p) (rd_settings db)\<rparr>"
  | (finalized) s where "db' = finalize_sale_in_tx x s db"
  | (refund) p where "apply_refund x p db = Inr db'"
  | (void) s where "apply_void_sale_in_tx x s db = Inr db'"
  | (payment) p where "apply_payment p db = Inr db'"
  using assms unfolding apply_remote_in_tx_def Let_def
proof (elim either_arm)
  assume "obind (payload_as env Some item) (\<lambda>v. obind (both_sides (apply_one_adjustment x) v (0, db)) (\<lambda>(_, db'). Ok db')) = Ok db'"
  then obtain v s where "both_sides (apply_one_adjustment x) v (0, db) = Ok s" "snd s = db'" by auto
  then show ?thesis using adjusted [of v "fst s"] by (cases s) simp
next
  assume "obind (payload_as env read_settings item) (\<lambda>p.
             Ok (db\<lparr>rd_settings := apply_setting_change (ma_now x) (se_key p) (se_value p) (se_terminal p) (rd_settings db)\<rparr>)) = Ok db'"
  then show ?thesis unfolding obind_Ok outcome.inject by (intro setting) blast
qed (use sale product movement finalized refund void payment in auto)

lemma apply_remote_in_tx_cases:
  assumes "apply_remote_in_tx env x item db = Ok db'"
  obtains (kept) "keeps_sync db db'"
  | (setting) "\<exists>p :: settings_item. db' = db\<lparr>rd_settings := apply_setting_change (ma_now x) (se_key p) (se_value p) (se_terminal p) (rd_settings db)\<rparr>"
  using assms
proof (cases rule: apply_remote_in_tx_Ok)
  case (adjusted v n)
  have "(\<lambda>a b. keeps_sync (snd a) (snd b)) (0 :: nat, db) (n, db')"
    by (rule both_sides_keeps [where R = "\<lambda>a b. keeps_sync (snd a) (snd b)", OF _ _ adjusted])
      (auto dest: apply_one_adjustment_keeps_sync intro: keeps_sync_trans)
  then show ?thesis using kept by simp
next
  case (movement v)
  have "keeps_sync db db'"
    by (rule both_sides_keeps [where R = keeps_sync, OF _ _ movement])
      (auto dest: apply_one_movement_keeps_sync intro: keeps_sync_trans)
  then show ?thesis by (rule kept)
next
  case (sale p)
  show ?thesis by (rule kept) (rule apply_complete_sale_keeps_sync [OF sale])
next
  case (product v)
  show ?thesis by (rule kept) (rule apply_product_created_keeps_sync [OF product])
next
  case (refund p)
  show ?thesis by (rule kept) (rule apply_refund_keeps_sync [OF refund])
next
  case (void s)
  show ?thesis by (rule kept) (rule sale_arms_keep_sync(2) [OF void])
next
  case (payment p)
  show ?thesis by (rule kept) (rule sale_arms_keep_sync(3) [OF payment])
next
  case (finalized s)
  show ?thesis by (rule kept) (simp only: finalized sale_arms_keep_sync(1))
next
  case setting
  then show ?thesis by (rule that(2))
qed

lemma apply_remote_in_tx_frame:
  assumes "apply_remote_in_tx env x item db = Ok db'"
  shows "sh_queue db' = sh_queue db"
    "rd_settings db' = rd_settings db
      \<or> (\<exists>p :: settings_item. rd_settings db' = apply_setting_change (ma_now x) (se_key p) (se_value p) (se_terminal p) (rd_settings db))"
  using assms by (cases rule: apply_remote_in_tx_cases; auto simp: keeps_sync_def)+


subsection \<open>Deliveries\<close>

lemma atomic_cases:
  obtains (dead) "apply_remote_atomic_full env x item db = (Some (Inr not_applied), db)"
      "is_remote_failure_dead_lettered (sh_queue db) (qi_id item)"
  | (own) "apply_remote_atomic_full env x item db = (Some (Inr not_applied), db\<lparr>sh_queue := receipt env item (sh_queue db)\<rparr>)"
      "\<not> is_remote_failure_dead_lettered (sh_queue db) (qi_id item)"
      "origin_terminal_id item \<noteq> None" "get_sync_terminal_id (rd_settings db) = origin_terminal_id item"
  | (repeated) "apply_remote_atomic_full env x item db = (Some (Inr not_applied), db)"
      "\<not> is_remote_failure_dead_lettered (sh_queue db) (qi_id item)" "already_delivered env item (sh_queue db)"
  | (success) db' where "apply_remote_atomic_full env x item db
        = (Some (Inr \<lparr>applied = True, settings_change = settings_change_of env item\<rparr>),
           db'\<lparr>sh_queue := receipt env item (sh_queue db)\<rparr>)"
      "apply_remote_in_tx env x item db = Ok db'" "sh_queue db' = sh_queue db"
      "\<not> is_remote_failure_dead_lettered (sh_queue db) (qi_id item)" "\<not> already_delivered env item (sh_queue db)"
  | (failed) e where "apply_remote_atomic_full env x item db
        = (Some (Inl e), db\<lparr>sh_queue := snd (record_remote_failure (ma_now x) (qi_id item) (qi_action item)
             (qi_payload item) (me_text env e) failure_limit (sh_queue db))\<rparr>)"
      "apply_remote_in_tx env x item db = Err e"
      "\<not> is_remote_failure_dead_lettered (sh_queue db) (qi_id item)" "\<not> already_delivered env item (sh_queue db)"
  | (panicked) "apply_remote_atomic_full env x item db = (None, db)" "apply_remote_in_tx env x item db = Panic"
      "\<not> is_remote_failure_dead_lettered (sh_queue db) (qi_id item)" "\<not> already_delivered env item (sh_queue db)"
proof -
  let ?dead = "is_remote_failure_dead_lettered (sh_queue db) (qi_id item)"
  let ?own = "origin_terminal_id item \<noteq> None \<and> get_sync_terminal_id (rd_settings db) = origin_terminal_id item"
  let ?again = "already_delivered env item (sh_queue db)"
  consider "?dead" | "\<not> ?dead" "?own" | "\<not> ?dead" "\<not> ?own" "?again" | "\<not> ?dead" "\<not> ?own" "\<not> ?again" by blast
  then show ?thesis
  proof cases
    case 4
    note unfolded = apply_remote_atomic_full_def Let_def if_not_P [OF 4(1)] if_not_P [OF 4(2)] if_not_P [OF 4(3)]
    show ?thesis
    proof (cases "apply_remote_in_tx env x item db")
      case (Ok db')
      then show ?thesis using success [OF _ Ok _ 4(1,3)] apply_remote_in_tx_frame(1) [OF Ok] unfolding unfolded by simp
    next
      case (Err e)
      then show ?thesis using failed [OF _ Err 4(1,3)] unfolding unfolded by simp
    next
      case Panic
      then show ?thesis using panicked [OF _ Panic 4(1,3)] unfolding unfolded by simp
    qed
  next
    case 1
    then show ?thesis using dead by (simp add: apply_remote_atomic_full_def)
  next
    case 2
    then show ?thesis using own by (simp add: apply_remote_atomic_full_def)
  next
    case 3
    then show ?thesis using repeated
      unfolding apply_remote_atomic_full_def Let_def if_not_P [OF 3(1)] if_not_P [OF 3(2)] if_P [OF 3(3)] by blast
  qed
qed

text \<open>Any number of deliveries in any order, each with its own ids and times, and what came of them.\<close>

fun deliver_all ::
    "remote_env \<Rightarrow> (remote_args \<times> offline_queue_item) list \<Rightarrow> 'a remote_db_scheme
       \<Rightarrow> (offline_queue_item \<times> (core_error + apply_outcome) option) list \<times> 'a remote_db_scheme" where
  "deliver_all env [] db = ([], db)"
| "deliver_all env ((x, item) # ds) db =
     (case apply_remote_atomic_full env x item db of
        (r, db1) \<Rightarrow> (case deliver_all env ds db1 of (log, db2) \<Rightarrow> ((item, r) # log, db2)))"

lemma deliver_all_Cons:
  "fst (deliver_all env ((x, item) # ds) db) = (item, fst (apply_remote_atomic_full env x item db))
      # fst (deliver_all env ds (snd (apply_remote_atomic_full env x item db)))"
  "snd (deliver_all env ((x, item) # ds) db) = snd (deliver_all env ds (snd (apply_remote_atomic_full env x item db)))"
  by (simp_all add: split_beta)

lemma deliver_all_keeps:
  assumes "\<And>x item db. P db \<Longrightarrow> P (snd (apply_remote_atomic_full env x item db))" and "P db"
  shows "P (snd (deliver_all env ds db))"
  using assms(2)
proof (induction ds arbitrary: db)
  case (Cons d ds)
  obtain x item where d: "d = (x, item)" by (cases d)
  show ?case unfolding d deliver_all_Cons by (rule Cons.IH) (rule assms(1) [OF Cons.prems])
qed simp

definition was_applied :: "(core_error + apply_outcome) option \<Rightarrow> bool" where
  "was_applied r \<longleftrightarrow> (case r of Some (Inr a) \<Rightarrow> applied a | _ \<Rightarrow> False)"

definition applied_items :: "(offline_queue_item \<times> (core_error + apply_outcome) option) list \<Rightarrow> offline_queue_item list" where
  "applied_items log = map fst (filter (\<lambda>e. was_applied (snd e)) log)"

subsection \<open>Every effect once\<close>

definition receipt_ids :: "queue_store \<Rightarrow> string set" where
  "receipt_ids q = fst ` set (oq_applied q)"

definition receipt_effects :: "queue_store \<Rightarrow> string option set" where
  "receipt_effects q = snd ` snd ` set (oq_applied q)"

definition unseen :: "remote_env \<Rightarrow> queue_store \<Rightarrow> offline_queue_item \<Rightarrow> bool" where
  "unseen env q item \<longleftrightarrow> qi_id item \<notin> receipt_ids q \<and> (effect_of env item \<noteq> None \<longrightarrow> effect_of env item \<notin> receipt_effects q)"

lemma already_delivered_iff: "already_delivered env item q \<longleftrightarrow> \<not> unseen env q item"
  by (force simp: already_delivered_def unseen_def receipt_ids_def receipt_effects_def is_remote_item_applied_def
      list_ex_iff split: option.split)

lemma receipt_applied:
  "oq_applied (receipt env item q) = oq_applied q @ (if unseen env q item then [(qi_id item, qi_action item, effect_of env item)] else [])"
  by (auto simp: receipt_def clear_remote_failure_def mark_remote_item_applied_with_effect_def unseen_def
      receipt_ids_def receipt_effects_def)

lemma unseen_mono:
  "set (oq_applied q) \<subseteq> set (oq_applied q') \<Longrightarrow> unseen env q' item \<Longrightarrow> unseen env q item"
  unfolding unseen_def receipt_ids_def receipt_effects_def by (meson image_mono subsetD)

lemma record_remote_failure_applied [simp]:
  "oq_applied (snd (record_remote_failure now k action payload err m q)) = oq_applied q"
  by (simp add: record_remote_failure_def Let_def)

lemma receipts_grow: "set (oq_applied (sh_queue db)) \<subseteq> set (oq_applied (sh_queue (snd (apply_remote_atomic_full env x item db))))"
  by (cases rule: atomic_cases [of env x item db]) (simp_all add: receipt_applied)

lemma applied_was_unseen:
  assumes "was_applied (fst (apply_remote_atomic_full env x item db))"
  shows "unseen env (sh_queue db) item"
    "(qi_id item, qi_action item, effect_of env item) \<in> set (oq_applied (sh_queue (snd (apply_remote_atomic_full env x item db))))"
  using assms
  by (cases rule: atomic_cases [of env x item db];
      auto simp: was_applied_def not_applied_def already_delivered_iff receipt_applied)+

lemma applied_items_unseen:
  "item \<in> set (applied_items (fst (deliver_all env ds db))) \<Longrightarrow> unseen env (sh_queue db) item"
proof (induction ds arbitrary: db)
  case (Cons d ds)
  obtain x i where d: "d = (x, i)" by (cases d)
  let ?r = "apply_remote_atomic_full env x i db"
  consider "was_applied (fst ?r)" "item = i" | "item \<in> set (applied_items (fst (deliver_all env ds (snd ?r))))"
    using Cons.prems by (auto simp: d deliver_all_Cons applied_items_def simp del: deliver_all.simps split: if_splits)
  then show ?case
  proof cases
    case 1
    then show ?thesis using applied_was_unseen(1) by blast
  next
    case 2
    then show ?thesis using Cons.IH unseen_mono [OF receipts_grow] by blast
  qed
qed (simp add: applied_items_def)

text \<open>
  C23. Whatever is delivered, how often and under whatever item ids, every item and every effect is applied
  at most once: among all deliveries that were applied no item id and no effect key occurs twice, and
  none of them was on the ledger before.\<close>

theorem effects_applied_once:
  "distinct (map qi_id (applied_items (fst (deliver_all env ds db))))
    \<and> distinct (List.map_filter (effect_of env) (applied_items (fst (deliver_all env ds db))))
    \<and> list_all (unseen env (sh_queue db)) (applied_items (fst (deliver_all env ds db)))"
proof (induction ds arbitrary: db)
  case (Cons d ds)
  obtain x i where d: "d = (x, i)" by (cases d)
  let ?r = "apply_remote_atomic_full env x i db"
  let ?rest = "applied_items (fst (deliver_all env ds (snd ?r)))"
  have items: "applied_items (fst (deliver_all env (d # ds) db)) = (if was_applied (fst ?r) then i # ?rest else ?rest)"
    by (simp add: d deliver_all_Cons applied_items_def del: deliver_all.simps)
  have all: "list_all (unseen env (sh_queue db)) (applied_items (fst (deliver_all env (d # ds) db)))"
    using applied_items_unseen by (auto simp: list_all_iff simp del: deliver_all.simps)
  show ?case
  proof (cases "was_applied (fst ?r)")
    case True
    have seen: "qi_id i \<in> receipt_ids (sh_queue (snd ?r))" "effect_of env i \<in> receipt_effects (sh_queue (snd ?r))"
      using applied_was_unseen(2) [OF True] by (force simp: receipt_ids_def receipt_effects_def)+
    have rest: "unseen env (sh_queue (snd ?r)) j" if "j \<in> set ?rest" for j using applied_items_unseen that .
    have "qi_id i \<notin> qi_id ` set ?rest" using seen(1) rest by (auto simp: unseen_def)
    moreover have "e \<notin> set (List.map_filter (effect_of env) ?rest)" if "effect_of env i = Some e" for e
      using seen(2) rest that by (force simp: unseen_def map_filter_def)
    ultimately show ?thesis using Cons.IH [of "snd ?r"] all unfolding items if_P [OF True]
      by (cases "effect_of env i") (simp_all add: map_filter_simps)
  next
    case False
    then show ?thesis using Cons.IH [of "snd ?r"] all unfolding items by simp
  qed
qed (simp add: applied_items_def map_filter_simps)


subsection \<open>Items that cannot be applied\<close>

definition failures_of :: "offline_queue_item \<Rightarrow> (offline_queue_item \<times> (core_error + apply_outcome) option) list \<Rightarrow> nat" where
  "failures_of item log = length (filter (\<lambda>(i, r). i = item \<and> (case r of Some (Inl _) \<Rightarrow> True | _ \<Rightarrow> False)) log)"

text \<open>The failures an item has left before it is quarantined.\<close>

definition attempts_left :: "remote_env \<Rightarrow> offline_queue_item \<Rightarrow> queue_store \<Rightarrow> nat" where
  "attempts_left env item q = (if unseen env q item then nat (failure_limit - failure_count q (qi_id item)) else 0)"

lemma failure_count_nonneg: "quarantine_ok m q \<Longrightarrow> 0 \<le> failure_count q k"
  unfolding failure_count_def by (rule sum_list_nonneg) (force simp: quarantine_ok_def)

lemma receipt_quarantine:
  assumes "quarantine_ok m q"
  shows "quarantine_ok m (receipt env item q)" "failure_count (receipt env item q) = (failure_count q)(qi_id item := 0)"
proof -
  let ?q = "mark_remote_item_applied_with_effect (qi_id item) (qi_action item) (effect_of env item) q"
  have same: "oq_failures ?q = oq_failures q" by (simp add: mark_remote_item_applied_with_effect_def)
  then have "quarantine_ok m ?q" "failure_count ?q = failure_count q"
    using assms by (simp_all add: quarantine_ok_def failure_count_def fun_eq_iff)
  then show "quarantine_ok m (receipt env item q)" "failure_count (receipt env item q) = (failure_count q)(qi_id item := 0)"
    using quarantine_step_refines [of m ?q "Clears (qi_id item)"]
    by (simp_all add: quarantine_step_def counter_step_def receipt_def)
qed

lemma receipt_unseen_mono: "unseen env (receipt env i q) item \<Longrightarrow> unseen env q item"
  by (erule unseen_mono [rotated]) (simp add: receipt_applied)

lemma receipt_seen: "\<not> unseen env (receipt env item q) item"
proof (cases "unseen env q item")
  case True
  then have "qi_id item \<in> receipt_ids (receipt env item q)" by (simp add: receipt_ids_def receipt_applied)
  then show ?thesis by (simp add: unseen_def)
qed (use receipt_unseen_mono in blast)

lemma unseen_failure [simp]:
  "unseen env (snd (record_remote_failure now k action payload err m q)) item \<longleftrightarrow> unseen env q item"
  by (simp add: unseen_def receipt_ids_def receipt_effects_def)

lemma receipt_attempts_left:
  assumes "quarantine_ok m q" and "qi_id i = qi_id item \<longrightarrow> i = item"
  shows "attempts_left env item (receipt env i q) \<le> attempts_left env item q"
proof (cases "i = item")
  case True
  then show ?thesis by (simp add: attempts_left_def receipt_seen)
next
  case False
  then have "qi_id item \<noteq> qi_id i" using assms(2) by metis
  then show ?thesis using receipt_unseen_mono
    by (auto simp: attempts_left_def receipt_quarantine(2) [OF assms(1)])
qed

lemma attempts_left_step:
  fixes env x i db
  defines "r \<equiv> apply_remote_atomic_full env x i db"
  assumes ok: "quarantine_ok failure_limit (sh_queue db)" and same: "qi_id i = qi_id item \<longrightarrow> i = item"
  shows "quarantine_ok failure_limit (sh_queue (snd r))"
    "failures_of item [(i, fst r)] + attempts_left env item (sh_queue (snd r)) \<le> attempts_left env item (sh_queue db)"
proof -
  have none: "failures_of item [(i, Some (Inr a))] = 0" "failures_of item [(i, None)] = 0" for a
    by (simp_all add: failures_of_def)
  have "quarantine_ok failure_limit (sh_queue (snd r))
    \<and> failures_of item [(i, fst r)] + attempts_left env item (sh_queue (snd r)) \<le> attempts_left env item (sh_queue db)"
  proof (cases rule: atomic_cases [of env x i db])
    case (failed e)
    note q = quarantine_fails [OF ok, of "ma_now x" "qi_id i" "qi_action i" "qi_payload i" "me_text env e"]
    let ?q = "snd (record_remote_failure (ma_now x) (qi_id i) (qi_action i) (qi_payload i) (me_text env e) failure_limit (sh_queue db))"
    have room: "failure_count (sh_queue db) (qi_id i) < failure_limit"
      using failed(3) dead_lettered_iff_count [OF ok] by (simp add: failure_limit_def)
    have "failures_of item [(i, Some (Inl e))] + attempts_left env item ?q \<le> attempts_left env item (sh_queue db)"
    proof (cases "i = item")
      case True
      then have "unseen env (sh_queue db) item" using failed(4) by (simp add: already_delivered_iff)
      then have "attempts_left env item (sh_queue db) = nat (failure_limit - failure_count (sh_queue db) (qi_id i))"
          "attempts_left env item ?q = nat (failure_limit - (failure_count (sh_queue db) (qi_id i) + 1))"
        using q by (simp_all add: attempts_left_def True [symmetric])
      moreover have "failures_of item [(i, Some (Inl e))] = 1" using True by (simp add: failures_of_def)
      ultimately show ?thesis using room by simp
    next
      case False
      then have "qi_id item \<noteq> qi_id i" using same by metis
      then show ?thesis using False q by (simp add: attempts_left_def failures_of_def)
    qed
    then show ?thesis using q failed(1) by (simp add: r_def)
  qed (simp_all add: r_def none ok receipt_quarantine receipt_attempts_left [OF ok same])
  then show "quarantine_ok failure_limit (sh_queue (snd r))"
    "failures_of item [(i, fst r)] + attempts_left env item (sh_queue (snd r)) \<le> attempts_left env item (sh_queue db)"
    by simp_all
qed

lemma failures_of_Cons: "failures_of item (e # log) = failures_of item [e] + failures_of item log"
  by (simp add: failures_of_def)

lemma failures_within_attempts:
  assumes "quarantine_ok failure_limit (sh_queue db)" and "\<forall>(x, i) \<in> set ds. qi_id i = qi_id item \<longrightarrow> i = item"
  shows "failures_of item (fst (deliver_all env ds db)) \<le> attempts_left env item (sh_queue db)"
  using assms
proof (induction ds arbitrary: db)
  case (Cons d ds)
  obtain x i where d: "d = (x, i)" by (cases d)
  have same: "qi_id i = qi_id item \<longrightarrow> i = item" using Cons.prems(2) by (simp add: d)
  let ?r = "apply_remote_atomic_full env x i db"
  note step = attempts_left_step [OF Cons.prems(1) same, of env x]
  have "failures_of item (fst (deliver_all env ds (snd ?r))) \<le> attempts_left env item (sh_queue (snd ?r))"
    using Cons.IH [OF step(1)] Cons.prems(2) by simp
  moreover have "failures_of item (fst (deliver_all env (d # ds) db))
      = failures_of item [(i, fst ?r)] + failures_of item (fst (deliver_all env ds (snd ?r)))"
    unfolding d deliver_all_Cons by (rule failures_of_Cons)
  ultimately show ?case using step(2) by linarith
qed (simp add: failures_of_def)

text \<open>
  C25. An item that fails with an error is contained: in any history of deliveries in which its id stands for this
  item alone it fails so at most three times, after which it is not tried again, whatever else is delivered
  between; each failure leaves every table but the quarantine as it was, and an item that panics leaves
  everything as it was, its count of failures too.\<close>

theorem poison_item_contained:
  assumes "quarantine_ok failure_limit (sh_queue db)" and "\<forall>(x, i) \<in> set ds. qi_id i = qi_id item \<longrightarrow> i = item"
  shows "failures_of item (fst (deliver_all env ds db)) \<le> 3
    \<and> (fst (apply_remote_atomic_full env x item db) = Some (Inl e)
        \<longrightarrow> (snd (apply_remote_atomic_full env x item db))
              \<lparr>sh_queue := (sh_queue (snd (apply_remote_atomic_full env x item db)))\<lparr>oq_failures := oq_failures (sh_queue db)\<rparr>\<rparr> = db)
    \<and> (fst (apply_remote_atomic_full env x item db) = None \<longrightarrow> snd (apply_remote_atomic_full env x item db) = db)"
proof -
  have "attempts_left env item (sh_queue db) \<le> 3"
    using failure_count_nonneg [OF assms(1), of "qi_id item"] by (auto simp: attempts_left_def failure_limit_def)
  moreover have "snd (record_remote_failure now k action payload err m q)\<lparr>oq_failures := oq_failures q\<rparr> = q"
    for now k action payload err m and q :: queue_store
    by (simp add: record_remote_failure_def Let_def)
  ultimately show ?thesis using failures_within_attempts [OF assms, of env]
    by (cases rule: atomic_cases [of env x item db]) (simp_all add: le_trans)
qed

subsection \<open>Protected settings\<close>

lemma apply_setting_change_protected:
  assumes "\<not> admits RemoteSync key"
  shows "setting_get (apply_setting_change now k val terminal st) key = setting_get st key"
    "filter (\<lambda>d. du_key d = key) (kv_deltas (apply_setting_change now k val terminal st)) = filter (\<lambda>d. du_key d = key) (kv_deltas st)"
  using assms
  by (cases rule: apply_setting_change_cases [of k now val terminal st];
      auto simp: write_delta_row_Inr dest: write_delta_row_Inr(4) [where k = key])+

text \<open>
  C26. Nothing a peer sends can change a credential, a device identity, a manager's setting or the address
  and switches of the synchronisation: over any deliveries the value and the deltas of such a key stay as they are.\<close>

theorem protected_settings_untouched:
  assumes "\<not> admits RemoteSync key"
  shows "setting_get (rd_settings (snd (deliver_all env ds db))) key = setting_get (rd_settings db) key
    \<and> filter (\<lambda>d. du_key d = key) (kv_deltas (rd_settings (snd (deliver_all env ds db))))
      = filter (\<lambda>d. du_key d = key) (kv_deltas (rd_settings db))"
proof (rule deliver_all_keeps [where P = "\<lambda>s. setting_get (rd_settings s) key = setting_get (rd_settings db) key
    \<and> filter (\<lambda>d. du_key d = key) (kv_deltas (rd_settings s)) = filter (\<lambda>d. du_key d = key) (kv_deltas (rd_settings db))"])
  fix x item and s :: "'a remote_db_scheme"
  assume s: "setting_get (rd_settings s) key = setting_get (rd_settings db) key
    \<and> filter (\<lambda>d. du_key d = key) (kv_deltas (rd_settings s)) = filter (\<lambda>d. du_key d = key) (kv_deltas (rd_settings db))"
  show "setting_get (rd_settings (snd (apply_remote_atomic_full env x item s))) key = setting_get (rd_settings db) key
    \<and> filter (\<lambda>d. du_key d = key) (kv_deltas (rd_settings (snd (apply_remote_atomic_full env x item s))))
      = filter (\<lambda>d. du_key d = key) (kv_deltas (rd_settings db))"
  proof (cases rule: atomic_cases [of env x item s])
    case (success db')
    then show ?thesis using apply_remote_in_tx_frame(2) [OF success(2)] s apply_setting_change_protected [OF assms] by auto
  qed (use s in simp_all)
qed simp


subsection \<open>Runs\<close>

definition empty_remote :: remote_db where
  "empty_remote = \<lparr>sh_loyalty = sh_loyalty empty_shop, sh_stock = sh_stock empty_shop, sh_queue = empty_queue,
     sh_lines = [], sh_refunds = [], sh_refund_lines = [], sh_audit = [], sh_kds_orders = [], sh_kds_items = [],
     rd_settings = fresh_settings, rd_payments = [], rd_terminals = [], rd_categories = [], rd_products = []\<rparr>"

definition remote_demo_args :: "string \<Rightarrow> remote_args" where
  "remote_demo_args i = \<lparr>ma_now = ''t1'', ma_adjust = (\<lambda>n. \<lparr>aa_movement_id = i @ show_nat n, aa_alert_id = i, aa_now = ''t1''\<rparr>),
     ma_loyalty = \<lparr>ly_account_id = i, ly_txn_id = i, ly_now = ''t1''\<rparr>, ma_audit_id = i, ma_product_id = i\<rparr>"

definition remote_item :: "string \<Rightarrow> string \<Rightarrow> string \<Rightarrow> offline_queue_item" where
  "remote_item k action payload = queue_item_new \<lparr>qa_id = k, qa_now = ''t0''\<rparr> action payload"

definition env_reading :: "(string \<times> json) list \<Rightarrow> remote_env" where
  "env_reading ps = \<lparr>me_parse = map_of ps, me_text = (\<lambda>_. ''failed'')\<rparr>"

text \<open>
  An item whose application panics is never counted and so never quarantined: it is tried again at every
  delivery. A completed sale of the smallest \<open>i64\<close> quantity is one, for its negation leaves \<open>i64\<close>.\<close>

lemma panicking_item_retried:
  assumes "fst (apply_remote_atomic_full env x item db) = None"
  shows "deliver_all env (replicate n (x, item)) db = (replicate n (item, None), db)"
proof -
  have "apply_remote_atomic_full env x item db = (None, db)"
    using assms by (cases rule: atomic_cases [of env x item db]) simp_all
  then show ?thesis by (induction n) simp_all
qed

definition panicking_sale :: json where
  "panicking_sale = jobj [(''line_items'', JArr [jobj [(''sku'', JStr ''S''), (''qty'', json_int i64_min)]])]"

lemma smallest_quantity_panics:
  "fst (apply_remote_atomic_full (env_reading [(''p'', panicking_sale)]) (remote_demo_args ''m'')
     (remote_item ''i'' ''complete_sale'' ''p'') empty_remote) = None"
  by code_simp

lemma poison_item_contained_witness:
  "failures_of (remote_item ''i'' ''complete_sale'' ''{'') (fst (deliver_all (env_reading [])
      (replicate 5 (remote_demo_args ''m'', remote_item ''i'' ''complete_sale'' ''{'')) empty_remote)) \<le> 3"
proof -
  have "quarantine_ok failure_limit (sh_queue empty_remote)" by (simp add: quarantine_ok_def empty_remote_def empty_queue_def)
  then show ?thesis by (rule conjunct1 [OF poison_item_contained]) simp
qed

lemma protected_settings_untouched_witness:
  "setting_get (rd_settings (snd (deliver_all (env_reading [(''p'', settings_payload ''sync_server_url'' ''evil'' ''till-2'')])
      [(remote_demo_args ''m'', remote_item ''i'' ''settings.update'' ''p'')] empty_remote))) ''sync_server_url'' = None"
proof -
  have "\<not> admits RemoteSync ''sync_server_url''" by code_simp
  moreover have "setting_get (rd_settings empty_remote) ''sync_server_url'' = None"
    by (simp add: setting_get_def empty_remote_def fresh_settings_def)
  ultimately show ?thesis using protected_settings_untouched by metis
qed

end
