(* ===== verification/Replication.thy ===== *)
theory Replication
  imports Remote_Apply
begin

section \<open>What a terminal sends and what another makes of it\<close>

text \<open>
  Theorems about the outbox of \<open>Offline_Queue\<close> and \<open>Refunds\<close> on one terminal together with \<open>Remote_Apply\<close> on
  another: the payload of a refund is read back as it was, the other terminal then keeps the same
  books, and where its stock ends up.
\<close>

subsection \<open>Reading a refund back\<close>

lemma json_field_jobj [simp]: "json_field (jobj fs) k = map_of fs k"
  by (simp add: jobj_def map_of_sort_key)

definition line_matches :: "refund_line \<Rightarrow> refund_line_item \<Rightarrow> bool" where
  "line_matches l i \<longleftrightarrow> from_utf8 (currency_bytes (money.currency (rline_unit_price l))) = Some (rli_currency i)
     \<and> i = \<lparr>rli_id = rline_id l, rli_sale_line = sale_line_id l, rli_sku = rline_sku l, rli_qty = rline_qty l,
            rli_unit = minor_units (rline_unit_price l), rli_minor = minor_units (rline_total l),
            rli_currency = rli_currency i, rli_created_at = rline_created_at l, rli_location = None\<rparr>"

lemma line_matchesD:
  assumes "line_matches l i"
  shows "rli_id i = rline_id l" "rli_sale_line i = sale_line_id l" "rli_sku i = rline_sku l" "rli_qty i = rline_qty l"
    "rli_unit i = minor_units (rline_unit_price l)" "rli_minor i = minor_units (rline_total l)"
    "rli_created_at i = rline_created_at l" "rli_location i = None"
    "from_utf8 (currency_bytes (money.currency (rline_unit_price l))) = Some (rli_currency i)"
  using assms unfolding line_matches_def by (metis refund_line_item.select_convs)+

lemma read_refund_line_payload:
  assumes "refund_line_payload l = Inr j"
  shows "\<exists>i. read_refund_line j = Some i \<and> line_matches l i"
proof -
  obtain cur where cur: "from_utf8 (currency_bytes (money.currency (rline_unit_price l))) = Some cur"
    and j: "j = jobj
       [(''id'', JStr (rline_id l)), (''sale_line_id'', JStr (sale_line_id l)), (''sku'', JStr (rline_sku l)),
        (''qty'', json_int (rline_qty l)), (''unit_minor'', json_int (minor_units (rline_unit_price l))),
        (''line_minor'', json_int (minor_units (rline_total l))), (''currency'', JStr cur),
        (''created_at'', JStr (rline_created_at l))]"
    using assms by (auto simp: refund_line_payload_def currency_str_def split: option.splits)
  show ?thesis unfolding j
    by (simp add: read_refund_line_def need_def default_to_def optional_def json_int_def line_matches_def cur)
qed

lemma read_refund_line_payloads:
  "refund_line_payloads ls = Inr js \<Longrightarrow> \<exists>is. collect_opt read_refund_line js = Some is \<and> list_all2 line_matches ls is"
proof (induction ls arbitrary: js)
  case (Cons l ls)
  then obtain j js' where j: "refund_line_payload l = Inr j" "refund_line_payloads ls = Inr js'" "js = j # js'"
    by (auto split: sum.splits)
  obtain i where "read_refund_line j = Some i" "line_matches l i" using read_refund_line_payload [OF j(1)] by blast
  moreover obtain ils where "collect_opt read_refund_line js' = Some ils" "list_all2 line_matches ls ils"
    using Cons.IH [OF j(2)] by blast
  ultimately show ?case using j(3) by (intro exI [of _ "i # ils"]) simp
qed simp

lemma read_refund_payload:
  assumes "refund_payload r = Inr j"
  obtains p where "read_refund j = Some p"
    "from_utf8 (currency_bytes (money.currency (refund_total r))) = Some (rfi_currency p)"
    "rfi_id p = rid r" "rfi_sale p = refund_sale_id r" "rfi_total p = minor_units (refund_total r)"
    "rfi_reason p = reason r" "rfi_note p = refund_note r" "rfi_processed_by p = processed_by r"
    "rfi_created_at p = refund_created_at r" "list_all2 line_matches (refund_lines r) (rfi_lines p)"
proof -
  obtain cur ls where cur: "from_utf8 (currency_bytes (money.currency (refund_total r))) = Some cur"
    and ls: "refund_line_payloads (refund_lines r) = Inr ls"
    and j: "j = jobj [(''id'', JStr (rid r)), (''sale_id'', JStr (refund_sale_id r)),
          (''total_minor'', json_int (minor_units (refund_total r))), (''currency'', JStr cur),
          (''reason'', JStr (reason r)), (''note'', JStr (refund_note r)), (''processed_by'', JStr (processed_by r)),
          (''created_at'', JStr (refund_created_at r)), (''lines'', JArr ls)]"
    using assms by (auto simp: refund_payload_def currency_str_def split: option.splits sum.splits)
  obtain ils where ils: "collect_opt read_refund_line ls = Some ils" "list_all2 line_matches (refund_lines r) ils"
    using read_refund_line_payloads [OF ls] by blast
  show ?thesis
    by (rule that [of "\<lparr>rfi_id = rid r, rfi_sale = refund_sale_id r, rfi_total = minor_units (refund_total r),
          rfi_currency = cur, rfi_reason = reason r, rfi_note = refund_note r, rfi_processed_by = processed_by r,
          rfi_created_at = refund_created_at r, rfi_lines = ils\<rparr>"])
      (simp_all add: j read_refund_def need_def default_to_def array_of_def json_int_def cur ils)
qed

lemma apply_refund_item:
  assumes "qi_action item = ''refund_sale''" and "Option.bind (me_parse env (qi_payload item)) read_refund = Some p"
  shows "apply_remote_in_tx env x item db = of_sum (apply_refund x p db)"
proof -
  have "payload_as env read_refund item = Ok p" by (simp add: payload_as_def assms(2))
  then show ?thesis by (simp add: apply_remote_in_tx_def assms(1))
qed

subsection \<open>The same books\<close>

lemma insert_line_row_Inr:
  "insert_refund_line_row w st = Inr st' \<Longrightarrow> st' = st\<lparr>sh_refund_lines := sh_refund_lines st @ [w]\<rparr>"
  by (auto simp: insert_refund_line_row_def split: if_splits)

lemma insert_line_matches:
  assumes "line_matches l i" and "refund_line.refund_id l = rfi_id p"
  shows "insert_refund_line l st = insert_refund_line_row (replicated_line p i) st"
  by (simp add: insert_refund_line_def replicated_line_def assms(2) line_matchesD [OF assms(1)])

lemma insert_lines_rows:
  "each (\<lambda>i. insert_refund_line_row (g i)) is st = Inr st' \<Longrightarrow> st' = st\<lparr>sh_refund_lines := sh_refund_lines st @ map g is\<rparr>"
proof (induction "is" arbitrary: st)
  case (Cons i "is")
  then obtain s where s: "insert_refund_line_row (g i) st = Inr s" "each (\<lambda>i. insert_refund_line_row (g i)) is s = Inr st'"
    by (auto split: sum.splits)
  show ?case using Cons.IH [OF s(2)] insert_line_row_Inr [OF s(1)] by simp
qed simp

lemma origin_lines_rows:
  assumes "list_all2 line_matches ls ils" and "\<And>l. l \<in> set ls \<Longrightarrow> refund_line.refund_id l = rfi_id p"
  shows "oeach (\<lambda>l s. of_sum (insert_refund_line l s)) ls st = Ok st'
    \<Longrightarrow> st' = st\<lparr>sh_refund_lines := sh_refund_lines st @ map (replicated_line p) ils\<rparr>"
  using assms
proof (induction arbitrary: st rule: list_all2_induct)
  case (Cons l ls i ils)
  have "insert_refund_line l st = insert_refund_line_row (replicated_line p i) st"
    using Cons.hyps(1) Cons.prems(2) by (intro insert_line_matches) simp_all
  then obtain s where s: "insert_refund_line_row (replicated_line p i) st = Inr s"
      "oeach (\<lambda>l s. of_sum (insert_refund_line l s)) ls s = Ok st'"
    using Cons.prems(1) by auto
  have "st' = s\<lparr>sh_refund_lines := sh_refund_lines s @ map (replicated_line p) ils\<rparr>"
    using Cons.prems(2) by (intro Cons.IH [OF s(2)]) simp
  then show ?case using insert_line_row_Inr [OF s(1)] by simp
qed simp


lemma credit_remote_frame:
  assumes "credit_refund_effect_without_sale x p db = Inr db'"
  shows "\<exists>stock. db' = db\<lparr>sh_stock := stock\<rparr>"
proof -
  have "\<exists>stock. snd s = db\<lparr>sh_stock := stock\<rparr>" if "each (credit_remote_line x) (rfi_lines p) (0, db) = Inr s" for s
  proof (rule each_keeps [where P = "\<lambda>s. \<exists>stock. snd s = db\<lparr>sh_stock := stock\<rparr>", OF _ that])
    show "\<exists>stock. snd b = db\<lparr>sh_stock := stock\<rparr>"
      if "credit_remote_line x l a = Inr b" "\<exists>stock. snd a = db\<lparr>sh_stock := stock\<rparr>" for l a b
      using that by (auto simp: credit_remote_line_def elim!: adjust_at_Inr split: if_splits)
    show "\<exists>stock. snd (0 :: nat, db) = db\<lparr>sh_stock := stock\<rparr>" by (rule exI [of _ "sh_stock db"]) simp
  qed
  then show ?thesis using assms by (auto simp: credit_refund_effect_without_sale_def split: sum.splits)
qed

text \<open>
  The loyalty rows, customers and sales without the times at which they were written. Two terminals
  write the same change at different times; the tables of refunds carry the times of the terminal that
  made the refund.
\<close>

definition untimed :: "loyalty_store \<Rightarrow> loyalty_store" where
  "untimed st = st\<lparr>lo_customers := map (cu_updated_at_update (\<lambda>_. [])) (lo_customers st),
     lo_sales := map (so_updated_at_update (\<lambda>_. [])) (lo_sales st),
     lo_accounts := map (la_updated_at_update (\<lambda>_. [])) (lo_accounts st),
     lo_txns := map (lx_created_at_update (\<lambda>_. [])) (lo_txns st)\<rparr>"

definition awards_of :: "loyalty_store \<Rightarrow> string \<Rightarrow> loyalty_transaction list" where
  "awards_of st sale = filter (\<lambda>t. lx_sale t = Some sale \<and> lx_type t = ''earn'') (lo_txns st)"

lemma find_map_same: "(\<And>x. P (f x) = P x) \<Longrightarrow> List.find P (map f xs) = map_option f (List.find P xs)"
  by (induction xs) simp_all

lemma award_of_untimed:
  assumes "length (awards_of st sale) \<le> 1"
  shows "award_of (untimed st) sale = map_option (lx_created_at_update (\<lambda>_. [])) (award_of st sale)"
proof -
  have "awards_of (untimed st) sale = map (lx_created_at_update (\<lambda>_. [])) (awards_of st sale)"
    by (simp add: awards_of_def untimed_def filter_map comp_def)
  then show ?thesis using assms
    by (cases "awards_of st sale") (simp_all add: award_of_def awards_of_def)
qed

lemma untimed_sets [simp]:
  "lx_id ` set (lo_txns (untimed st)) = lx_id ` set (lo_txns st)"
  "la_id ` set (lo_accounts (untimed st)) = la_id ` set (lo_accounts st)"
  "so_id ` set (lo_sales (untimed st)) = so_id ` set (lo_sales st)"
  "reversed_for (untimed st) sale = reversed_for st sale"
  "tier_at (untimed st) n = tier_at st n"
  by (simp_all add: untimed_def image_image reversed_for_def filter_map comp_def tier_at_def)

lemma insert_txn_untimed:
  assumes "lx_type t = ''refund_reversal''"
  shows "insert_loyalty_txn (t\<lparr>lx_created_at := []\<rparr>) (untimed st) = map_sum id untimed (insert_loyalty_txn t st)"
  using assms by (auto simp: insert_loyalty_txn_def split: option.splits) (simp_all add: untimed_def)

lemma untimed_twice [simp]: "untimed (untimed st) = untimed st"
  by (simp add: untimed_def)

text \<open>The account and the customer of an award after \<open>d\<close> of its points are taken back.\<close>

definition take_points :: "string \<Rightarrow> string \<Rightarrow> int \<Rightarrow> loyalty_store \<Rightarrow> loyalty_store" where
  "take_points now i d st = project_points now (\<lambda>b. la_id b = i) (snd (update_account (\<lambda>b. la_id b = i)
     (\<lambda>b. b\<lparr>la_points := max (la_points b - d) 0, la_lifetime := max (la_lifetime b - d) 0,
        la_tier := (case tier_at st (max (la_lifetime b - d) 0) of None \<Rightarrow> la_tier b | Some i \<Rightarrow> Some i),
        la_updated_at := now\<rparr>) st))"

lemma project_untimed:
  "untimed (project_points now (\<lambda>b. la_id b = i) st) = untimed (project_points [] (\<lambda>b. la_id b = i) (untimed st))"
proof -
  have "List.find (\<lambda>b. la_id b = i) (lo_accounts (untimed st))
      = map_option (la_updated_at_update (\<lambda>_. [])) (List.find (\<lambda>b. la_id b = i) (lo_accounts st))"
    unfolding untimed_def by (simp add: find_map_same)
  then show ?thesis
    by (cases "List.find (\<lambda>b. la_id b = i) (lo_accounts st)")
      (simp_all add: project_points_def, simp add: untimed_def comp_def)
qed

lemma update_account_untimed:
  assumes "\<And>b. (f b)\<lparr>la_updated_at := []\<rparr> = g (b\<lparr>la_updated_at := []\<rparr>)"
  shows "snd (update_account (\<lambda>b. la_id b = i) g (untimed st)) = untimed (snd (update_account (\<lambda>b. la_id b = i) f st))"
  by (simp add: update_account_def untimed_def comp_def assms)

lemma take_points_untimed: "untimed (take_points now i d st) = untimed (take_points [] i d (untimed st))"
  unfolding take_points_def
  by (subst project_untimed, subst update_account_untimed) (auto split: option.split)

definition reversal_row :: "string \<Rightarrow> string \<Rightarrow> string \<Rightarrow> string \<Rightarrow> int \<Rightarrow> loyalty_transaction" where
  "reversal_row now sale rf i d = \<lparr>lx_id = ''loyalty-reversal-'' @ rf, lx_account = i, lx_sale = Some sale, lx_points = - d,
     lx_type = ''refund_reversal'', lx_description = ''Reversed '' @ show_int d @ '' points for refund on sale'',
     lx_created_at = now\<rparr>"

definition points_back :: "loyalty_store \<Rightarrow> string \<Rightarrow> int \<Rightarrow> int \<Rightarrow> int \<Rightarrow> int" where
  "points_back st sale earned m t = max 0 (min (proportional_points earned m t) (earned - reversed_for st sale))"

lemma reverse_loyalty_alt:
  "snd (reverse_loyalty_on_refund now sale rf m t st) =
     (case award_of st sale of None \<Rightarrow> st
      | Some earn \<Rightarrow> (let d = points_back st sale (lx_points earn) m t in
          if d \<le> 0 then st
          else (case insert_loyalty_txn (reversal_row now sale rf (lx_account earn) d) st of
              Inl _ \<Rightarrow> st | Inr st1 \<Rightarrow> take_points now (lx_account earn) d st1)))"
  unfolding reverse_loyalty_on_refund_def take_points_def Let_def points_back_def reversal_row_def
  by (auto split: option.split sum.split)

lemma reverse_untimed:
  assumes "length (awards_of st sale) \<le> 1"
  shows "untimed (snd (reverse_loyalty_on_refund now sale rf m t st))
    = untimed (snd (reverse_loyalty_on_refund [] sale rf m t (untimed st)))"
proof (cases "award_of st sale")
  case None
  then show ?thesis by (simp add: reverse_loyalty_alt award_of_untimed [OF assms])
next
  case (Some earn)
  let ?d = "points_back st sale (lx_points earn) m t"
  let ?row = "\<lambda>now. reversal_row now sale rf (lx_account earn) ?d"
  have "points_back (untimed st) sale e m t = points_back st sale e m t" for e by (simp add: points_back_def)
  moreover have "insert_loyalty_txn (?row []) (untimed st) = map_sum id untimed (insert_loyalty_txn (?row now) st)"
    using insert_txn_untimed [of "?row now" st] by (simp add: reversal_row_def)
  ultimately show ?thesis using take_points_untimed [of now "lx_account earn" ?d]
    by (simp add: reverse_loyalty_alt award_of_untimed [OF assms] Some Let_def split: sum.split)
qed

lemma spend_untimed:
  "untimed (reverse_customer_spend_on_refund c m t b at st) = untimed (reverse_customer_spend_on_refund c m t b at (untimed st))"
  by (simp add: reverse_customer_spend_on_refund_def untimed_def Let_def comp_def)

definition refund_effects :: "string \<Rightarrow> string option \<Rightarrow> string \<Rightarrow> string \<Rightarrow> int \<Rightarrow> int \<Rightarrow> int option \<Rightarrow> string
    \<Rightarrow> loyalty_store \<Rightarrow> loyalty_store" where
  "refund_effects now customer sale rf m t b at st =
     (let ly = snd (reverse_loyalty_on_refund now sale rf m t st)
      in case customer of None \<Rightarrow> ly | Some c \<Rightarrow> reverse_customer_spend_on_refund c m t b at ly)"

lemma awards_length:
  assumes "untimed a = untimed b"
  shows "length (awards_of a sale) = length (awards_of b sale)"
proof -
  have "length (awards_of (untimed st) sale) = length (awards_of st sale)" for st
    by (simp add: awards_of_def untimed_def filter_map comp_def)
  then show ?thesis using assms by (metis awards_of_def)
qed

lemma refund_effects_untimed:
  assumes "untimed a = untimed b" and "length (awards_of a sale) \<le> 1"
  shows "untimed (refund_effects now c sale rf m t ba at a) = untimed (refund_effects now' c sale rf m t ba at b)"
proof -
  have "length (awards_of b sale) \<le> 1" using assms(2) awards_length [OF assms(1)] by simp
  then have "untimed (snd (reverse_loyalty_on_refund now sale rf m t a)) = untimed (snd (reverse_loyalty_on_refund now' sale rf m t b))"
    using reverse_untimed [OF assms(2)] reverse_untimed [of b sale] assms(1) by metis
  then show ?thesis using spend_untimed
    by (cases c) (simp_all add: refund_effects_def Let_def, metis)
qed

lemma find_sale_untimed:
  assumes "untimed (sh_loyalty db) = untimed (sh_loyalty st)" and "find_sale st i = Some s"
  obtains s' where "find_sale db i = Some s'" "s'\<lparr>so_updated_at := []\<rparr> = s\<lparr>so_updated_at := []\<rparr>"
proof -
  let ?u = "so_updated_at_update (\<lambda>_. [])"
  have "map ?u (lo_sales (sh_loyalty db)) = map ?u (lo_sales (sh_loyalty st))"
    using arg_cong [OF assms(1), of lo_sales] by (simp add: untimed_def)
  moreover have "List.find (\<lambda>s. so_id s = i) (map ?u xs) = map_option ?u (List.find (\<lambda>s. so_id s = i) xs)" for xs
    by (rule find_map_same) simp
  ultimately have "map_option ?u (find_sale db i) = map_option ?u (find_sale st i)"
    by (metis find_sale_def)
  then show ?thesis using assms(2) that by auto
qed

text \<open>
  C24. A refund made on one terminal and delivered, at whatever time, to another that had the same
  refunds and, but for the times they were written, the same sales, customers and loyalty rows, with at
  most one award of points for the sale, leaves both with the same refunds and refund lines and, again but for the
  times, the same points, tiers, reversals and customer totals.\<close>

theorem replicated_refund_agrees:
  assumes made: "create_refund render parse hash envq a r st = Ok st'"
    and sent: "refund_payload r = Inr j" "me_parse env (qi_payload item) = Some j" "qi_action item = ''refund_sale''"
    and lines: "\<forall>l \<in> set (refund_lines r). refund_line.refund_id l = rid r"
    and same: "untimed (sh_loyalty db) = untimed (sh_loyalty st)" "sh_refunds db = sh_refunds st"
      "sh_refund_lines db = sh_refund_lines st"
    and awards: "length (awards_of (sh_loyalty st) (refund_sale_id r)) \<le> 1"
    and delivered: "apply_remote_in_tx env x item db = Ok db'"
  shows "sh_refunds db' = sh_refunds st' \<and> sh_refund_lines db' = sh_refund_lines st'
    \<and> untimed (sh_loyalty db') = untimed (sh_loyalty st')"
proof -
  obtain p where p: "read_refund j = Some p"
      "from_utf8 (currency_bytes (money.currency (refund_total r))) = Some (rfi_currency p)"
      "rfi_id p = rid r" "rfi_sale p = refund_sale_id r" "rfi_total p = minor_units (refund_total r)"
      "rfi_reason p = reason r" "rfi_note p = refund_note r" "rfi_processed_by p = processed_by r"
      "rfi_created_at p = refund_created_at r" "list_all2 line_matches (refund_lines r) (rfi_lines p)"
    using read_refund_payload [OF sent(1)] .
  have arrived: "apply_refund x p db = Inr db'"
    using delivered apply_refund_item [OF sent(3), of env p x db] by (simp add: sent(2) p(1))
  obtain cur s after st1 st2 st3 where c: "refund_check hash r st = Ok (cur, s, after)"
      and w: "refund_write_rows render envq a cur (so_tenant s) r st = Ok st1" and cr: "refund_credit parse a r st1 = Ok st2"
      and au: "insert_audit (refund_audit a cur r) (refund_side_effects a s r st2) = Inr st3"
      and st': "st' = (if after \<ge> so_total s then snd (cancel_kds_orders_for_sale_in_tx (refund_sale_id r) st3) else st3)"
    using create_refund_steps [OF made] .
  have cur: "cur = rfi_currency p" using c p(2) by (auto simp: refund_check_def split: option.splits if_splits)
  have s: "find_sale st (refund_sale_id r) = Some s" by (rule refund_check_Ok(1) [OF c])
  obtain sa sb where ins: "insert_refund cur (so_tenant s) r st = Inr sa"
      "oeach (\<lambda>l s. of_sum (insert_refund_line l s)) (refund_lines r) sa = Ok sb" "enqueue_refund render envq a r sb = Inr st1"
    using w by (auto simp: refund_write_rows_def)
  obtain t where t: "so_tenant s = Some t" using ins(1) by (auto simp: insert_refund_def split: option.splits)
  let ?row = "\<lparr>rf_id = rfi_id p, rf_sale = rfi_sale p, rf_total = rfi_total p, rf_currency = rfi_currency p,
        rf_reason = rfi_reason p, rf_note = rfi_note p, rf_processed_by = rfi_processed_by p,
        rf_created_at = rfi_created_at p, rf_tenant = t\<rparr>"
  have sa: "sa = st\<lparr>sh_refunds := sh_refunds st @ [?row]\<rparr>" "rid r \<notin> rf_id ` set (sh_refunds st)"
    using ins(1) by (auto simp: insert_refund_def insert_refund_row_def t p cur split: if_splits)
  have sb: "sb = sa\<lparr>sh_refund_lines := sh_refund_lines sa @ map (replicated_line p) (rfi_lines p)\<rparr>"
    by (rule origin_lines_rows [OF p(10) _ ins(2)]) (use lines p(3) in simp)
  have st1: "sh_refunds st1 = sh_refunds sb" "sh_refund_lines st1 = sh_refund_lines sb" "sh_loyalty st1 = sh_loyalty sb"
    using ins(3) by (auto simp: enqueue_refund_def split: sum.splits)
  obtain stock audit where st2: "st2 = st1\<lparr>sh_stock := stock, sh_audit := audit\<rparr>"
    using refund_credit_credits [OF cr] by (auto simp: credits_def)
  have st3: "sh_refunds st3 = sh_refunds st2" "sh_refund_lines st3 = sh_refund_lines st2"
      "sh_loyalty st3 = sh_loyalty (refund_side_effects a s r st2)"
    using au by (auto simp: insert_audit_def side_effects_frame split: if_splits)
  have origin: "sh_refunds st' = sh_refunds st @ [?row]"
      "sh_refund_lines st' = sh_refund_lines st @ map (replicated_line p) (rfi_lines p)"
      "sh_loyalty st' = sh_loyalty (refund_side_effects a s r st2)" "sh_loyalty st2 = sh_loyalty st"
    by (simp_all add: st' cancel_kds_orders_for_sale_in_tx_def Let_def st3 st2 st1 sb sa)
  have "\<not> refund_already_applied db (rfi_id p)" using sa(2) unfolding refund_already_applied_def list_ex_iff p(3) same(2) by (metis image_eqI)
  moreover obtain q where find: "find_sale db (rfi_sale p) = Some q" and q: "q\<lparr>so_updated_at := []\<rparr> = s\<lparr>so_updated_at := []\<rparr>"
    using find_sale_untimed [OF same(1) s] by (metis p(4))
  have fields: "so_tenant q = so_tenant s" "so_total q = so_total s" "so_customer q = so_customer s" "so_base_total q = so_base_total s"
    using q by (metis sale_row.select_convs sale_row.surjective sale_row.update_convs)+
  ultimately have "apply_refund_with_sale_in_tx x q p db = Inr db'" using arrived find by (simp add: apply_refund_def)
  then obtain t' d1 d2 d3 where d: "so_tenant q = Some t'" "insert_refund_row (?row\<lparr>rf_tenant := t'\<rparr>) db = Inr d1"
      "each (\<lambda>l. insert_refund_line_row (replicated_line p l)) (rfi_lines p) d1 = Inr d2"
      "credit_refund_effect_without_sale x p d2 = Inr d3"
      "insert_audit (replicated_audit x p) (d3\<lparr>sh_loyalty := reverse_customer_spend_for_refund_in_tx q p
        (reverse_loyalty_for_refund_in_tx x q p (sh_loyalty d3))\<rparr>) = Inr db'"
    by (rule apply_refund_with_sale_Inr) simp
  have "t' = t" using d(1) t fields(1) by simp
  then have d1: "d1 = db\<lparr>sh_refunds := sh_refunds db @ [?row]\<rparr>" using d(2) by (auto simp: insert_refund_row_def split: if_splits)
  have d2: "d2 = d1\<lparr>sh_refund_lines := sh_refund_lines d1 @ map (replicated_line p) (rfi_lines p)\<rparr>"
    by (rule insert_lines_rows [OF d(3)])
  obtain stock' where d3: "d3 = d2\<lparr>sh_stock := stock'\<rparr>" using credit_remote_frame [OF d(4)] by blast
  have "sh_refunds db' = sh_refunds d3" "sh_refund_lines db' = sh_refund_lines d3"
      "sh_loyalty db' = reverse_customer_spend_for_refund_in_tx q p (reverse_loyalty_for_refund_in_tx x q p (sh_loyalty d3))"
    using d(5) by (auto simp: insert_audit_def split: if_splits)
  then have "sh_loyalty db' = refund_effects (ma_now x) (so_customer s) (refund_sale_id r) (rid r) (minor_units (refund_total r))
        (so_total s) (so_base_total s) (refund_created_at r) (sh_loyalty db)"
    by (simp add: d3 d2 d1 reverse_customer_spend_for_refund_in_tx_def reverse_loyalty_for_refund_in_tx_def p fields
        refund_effects_def Let_def split: option.split)
  moreover have "sh_loyalty st' = refund_effects (ra_now a) (so_customer s) (refund_sale_id r) (rid r) (minor_units (refund_total r))
        (so_total s) (so_base_total s) (refund_created_at r) (sh_loyalty st)"
    by (simp add: origin refund_side_effects_def refund_effects_def Let_def)
  moreover have "length (awards_of (sh_loyalty db) (refund_sale_id r)) \<le> 1"
    using awards awards_length [OF same(1)] by simp
  ultimately have "untimed (sh_loyalty db') = untimed (sh_loyalty st')"
    using refund_effects_untimed [OF same(1)] by simp
  moreover have "sh_refunds db' = sh_refunds st'" "sh_refund_lines db' = sh_refund_lines st'"
    using \<open>sh_refunds db' = sh_refunds d3\<close> \<open>sh_refund_lines db' = sh_refund_lines d3\<close>
    by (simp_all add: d3 d2 d1 origin same)
  ultimately show ?thesis by simp
qed


definition two_location_replica :: remote_db where
  "two_location_replica = empty_remote\<lparr>sh_loyalty := sh_loyalty two_location_shop, sh_lines := sh_lines two_location_shop,
     sh_stock := (sh_stock two_location_shop)\<lparr>stock_locations := [canonical_default_location, ''A'', ''B'']\<rparr>\<rparr>"

definition demo_payload :: json where
  "demo_payload = (case refund_payload (demo_refund ''r1'') of Inr j \<Rightarrow> j | Inl _ \<Rightarrow> JNull)"

definition refund_env :: remote_env where
  "refund_env = env_reading [(''r1'', demo_payload)]"

definition after_delivery :: remote_db where
  "after_delivery = (case apply_remote_in_tx refund_env ((remote_demo_args ''m'')\<lparr>ma_now := ''t2''\<rparr>) (remote_item ''i'' ''refund_sale'' ''r1'')
     two_location_replica of Ok db \<Rightarrow> db | _ \<Rightarrow> two_location_replica)"

lemma demo_sent:
  "refund_payload (demo_refund ''r1'') = Inr demo_payload"
  "me_parse refund_env (qi_payload (remote_item ''i'' ''refund_sale'' ''r1'')) = Some demo_payload"
  "qi_action (remote_item ''i'' ''refund_sale'' ''r1'') = ''refund_sale''"
  by code_simp+

lemma demo_delivered:
  "apply_remote_in_tx refund_env ((remote_demo_args ''m'')\<lparr>ma_now := ''t2''\<rparr>) (remote_item ''i'' ''refund_sale'' ''r1'') two_location_replica
    = Ok after_delivery"
  by code_simp

lemma replicated_refund_agrees_witness:
  "sh_refunds after_delivery = sh_refunds (do_refund ''r1'' two_location_shop)
    \<and> sh_refund_lines after_delivery = sh_refund_lines (do_refund ''r1'' two_location_shop)
    \<and> untimed (sh_loyalty after_delivery) = untimed (sh_loyalty (do_refund ''r1'' two_location_shop))"
proof (rule replicated_refund_agrees [OF demo_refund_run(1) demo_sent _ _ _ _ _ demo_delivered])
  show "\<forall>l \<in> set (refund_lines (demo_refund ''r1'')). refund_line.refund_id l = rid (demo_refund ''r1'')" by code_simp
  show "untimed (sh_loyalty two_location_replica) = untimed (sh_loyalty two_location_shop)" by code_simp
  show "sh_refunds two_location_replica = sh_refunds two_location_shop" by code_simp
  show "sh_refund_lines two_location_replica = sh_refund_lines two_location_shop" by code_simp
  show "length (awards_of (sh_loyalty two_location_shop) (refund_sale_id (demo_refund ''r1''))) \<le> 1" by code_simp
qed

subsection \<open>Where the goods end up\<close>

definition credited_units :: "stock_store \<Rightarrow> refund_line_item list \<Rightarrow> string \<Rightarrow> int" where
  "credited_units st ls p = sum_list (map rli_qty
     (filter (\<lambda>l. 0 < rli_qty l \<and> stock_product_id_by_sku st (rli_sku l) = Some p) ls))"

text \<open>Only one location is credited, and the totals follow.\<close>

definition credited_at :: "string \<Rightarrow> stock_store \<Rightarrow> stock_store \<Rightarrow> (string \<Rightarrow> int) \<Rightarrow> bool" where
  "credited_at loc a b g \<longleftrightarrow> moved a b g \<and> (\<forall>p l. l \<noteq> loc \<longrightarrow> location_qty b p l = location_qty a p l)"

lemma adjust_at_credited:
  assumes "adjust_at x sku q loc why s = Inr s'" and d: "distinct (map fst (summary (sh_stock (snd s))))"
  shows "credited_at loc (sh_stock (snd s)) (sh_stock (snd s')) (at_sku (sh_stock (snd s)) sku q)"
proof -
  obtain k stock where a: "adjust_stock_at_location_with_reason (ma_adjust x (fst s)) sku q loc why None None None (sh_stock (snd s)) = Inr (k, stock)"
      "s' = (Suc (fst s), (snd s)\<lparr>sh_stock := stock\<rparr>)"
    using adjust_at_Inr [OF assms(1)] .
  obtain p where p: "stock_product_id_by_sku (sh_stock (snd s)) sku = Some p"
      "k = legacy_aware_location_qty (sh_stock (snd s)) p loc + q" "adjusted (sh_stock (snd s)) p loc q k stock"
    using adjust_Inr [OF a(1)] by blast
  show ?thesis using adjusted_facts [OF p(3,2) d] adjust_products [OF a(1)] p(1)
    by (simp add: a(2) credited_at_def moved_def at_sku_def)
qed

lemma credit_lines_credited:
  assumes "\<And>l. l \<in> set ls \<Longrightarrow> or_else canonical_default_location (rli_location l) = loc"
  shows "each (credit_remote_line x) ls s = Inr s' \<Longrightarrow> distinct (map fst (summary (sh_stock (snd s))))
    \<Longrightarrow> credited_at loc (sh_stock (snd s)) (sh_stock (snd s')) (credited_units (sh_stock (snd s)) ls)"
  using assms
proof (induction ls arbitrary: s)
  case Nil
  then show ?case by (simp add: credited_at_def moved_def credited_units_def)
next
  case (Cons l ls)
  obtain t where t: "credit_remote_line x l s = Inr t" "each (credit_remote_line x) ls t = Inr s'"
    using Cons.prems(1) by (auto split: sum.splits)
  have loc: "or_else canonical_default_location (rli_location l) = loc" using Cons.prems(3) by simp
  show ?case
  proof (cases "rli_qty l \<le> 0")
    case True
    then have "t = s" using t(1) by (simp add: credit_remote_line_def)
    moreover have "credited_units st (l # ls) = credited_units st ls" for st
      using True by (simp add: credited_units_def fun_eq_iff)
    ultimately show ?thesis using Cons.IH [OF t(2)] Cons.prems(2,3) by simp
  next
    case False
    have one: "credited_at loc (sh_stock (snd s)) (sh_stock (snd t)) (at_sku (sh_stock (snd s)) (rli_sku l) (rli_qty l))"
      using adjust_at_credited [OF _ Cons.prems(2)] t(1) False by (simp add: credit_remote_line_def loc)
    then have keep: "distinct (map fst (summary (sh_stock (snd t))))" "products (sh_stock (snd t)) = products (sh_stock (snd s))"
      by (simp_all add: credited_at_def moved_def)
    have rest: "credited_at loc (sh_stock (snd t)) (sh_stock (snd s')) (credited_units (sh_stock (snd t)) ls)"
      by (rule Cons.IH [OF t(2) keep(1)]) (use Cons.prems(3) in simp)
    have "credited_units (sh_stock (snd t)) ls = credited_units (sh_stock (snd s)) ls"
      by (simp add: credited_units_def stock_product_id_by_sku_def keep(2) fun_eq_iff)
    then have "(\<lambda>p. at_sku (sh_stock (snd s)) (rli_sku l) (rli_qty l) p + credited_units (sh_stock (snd t)) ls p)
        = credited_units (sh_stock (snd s)) (l # ls)"
      using False by (auto simp: fun_eq_iff at_sku_def credited_units_def)
    then show ?thesis using one rest moved_trans unfolding credited_at_def by fastforce
  qed
qed

lemma apply_refund_credits:
  fixes db db' :: "'a remote_db_scheme"
  assumes "apply_refund x p db = Inr db'" and "\<not> refund_already_applied db (rfi_id p)"
  obtains d d' :: "'a remote_db_scheme" where "sh_stock d = sh_stock db"
    "credit_refund_effect_without_sale x p d = Inr d'" "sh_stock db' = sh_stock d'"
proof (cases "find_sale db (rfi_sale p)")
  case None
  then show ?thesis using that [of db db'] assms by (simp add: apply_refund_def)
next
  case (Some s)
  then have "apply_refund_with_sale_in_tx x s p db = Inr db'" using assms by (simp add: apply_refund_def)
  then obtain t d1 d2 d3 where d: "insert_refund_row \<lparr>rf_id = rfi_id p, rf_sale = rfi_sale p, rf_total = rfi_total p,
        rf_currency = rfi_currency p, rf_reason = rfi_reason p, rf_note = rfi_note p,
        rf_processed_by = rfi_processed_by p, rf_created_at = rfi_created_at p, rf_tenant = t\<rparr> db = Inr d1"
      "each (\<lambda>l. insert_refund_line_row (replicated_line p l)) (rfi_lines p) d1 = Inr d2"
      "credit_refund_effect_without_sale x p d2 = Inr d3"
      "insert_audit (replicated_audit x p) (d3\<lparr>sh_loyalty := reverse_customer_spend_for_refund_in_tx s p
        (reverse_loyalty_for_refund_in_tx x s p (sh_loyalty d3))\<rparr>) = Inr db'"
    by (rule apply_refund_with_sale_Inr)
  have "sh_stock d1 = sh_stock db" using d(1) by (auto simp: insert_refund_row_def split: if_splits)
  moreover have "sh_stock d2 = sh_stock d1" using insert_lines_rows [OF d(2)] by simp
  moreover have "sh_stock db' = sh_stock d3" using d(4) by (auto simp: insert_audit_def split: if_splits)
  ultimately show ?thesis using that [OF _ d(3)] by simp
qed

lemma credited_units_sent:
  assumes "list_all2 line_matches ls ils"
  shows "credited_units st ils p
    = sum_list (map rline_qty (filter (\<lambda>l. 0 < rline_qty l \<and> stock_product_id_by_sku st (rline_sku l) = Some p) ls))"
  using assms
proof (induction rule: list_all2_induct)
  case (Cons l ls i ils)
  then show ?case by (simp add: credited_units_def line_matchesD [OF Cons.hyps(1)])
qed (simp add: credited_units_def)

text \<open>
  A refund that arrives from another terminal, whether its sale is known or not, adds exactly its
  returned units to the stock and the ledger of the products it names, but always at the default location: the
  payload does not say where the units were taken from, so no other location changes.\<close>

theorem replicated_refund_at_default:
  fixes db db' :: "'a remote_db_scheme"
  assumes sent: "refund_payload r = Inr j" "me_parse env (qi_payload item) = Some j" "qi_action item = ''refund_sale''"
    and delivered: "apply_remote_in_tx env x item db = Ok db'"
    and new: "rid r \<notin> rf_id ` set (sh_refunds db)" and d: "distinct (map fst (summary (sh_stock db)))"
  defines "g \<equiv> \<lambda>p. sum_list (map rline_qty
      (filter (\<lambda>l. 0 < rline_qty l \<and> stock_product_id_by_sku (sh_stock db) (rline_sku l) = Some p) (refund_lines r)))"
  shows "stock_total (sh_stock db') p = stock_total (sh_stock db) p + g p
    \<and> ledger_total (sh_stock db') p = ledger_total (sh_stock db) p + g p
    \<and> (l \<noteq> canonical_default_location \<longrightarrow> location_qty (sh_stock db') p l = location_qty (sh_stock db) p l)"
proof -
  obtain q where q: "read_refund j = Some q" "rfi_id q = rid r" "list_all2 line_matches (refund_lines r) (rfi_lines q)"
    using read_refund_payload [OF sent(1)] by metis
  have arrived: "apply_refund x q db = Inr db'"
    using delivered apply_refund_item [OF sent(3), of env q x db] by (simp add: sent(2) q(1))
  have fresh: "\<not> refund_already_applied db (rfi_id q)"
    using new unfolding refund_already_applied_def list_ex_iff q(2) by (metis image_eqI)
  obtain e e' :: "'a remote_db_scheme" where e: "sh_stock e = sh_stock db" "credit_refund_effect_without_sale x q e = Inr e'" "sh_stock db' = sh_stock e'"
    by (rule apply_refund_credits [OF arrived fresh])
  obtain n where n: "each (credit_remote_line x) (rfi_lines q) (0, e) = Inr (n, e')"
    using e(2) by (auto simp: credit_refund_effect_without_sale_def split: sum.splits)
  have "rli_location i = None" if "i \<in> set (rfi_lines q)" for i
    using q(3) that line_matchesD(8) by (metis in_set_conv_nth list_all2_conv_all_nth)
  then have "credited_at canonical_default_location (sh_stock (snd (0::nat, e))) (sh_stock (snd (n, e'))) (credited_units (sh_stock (snd (0::nat, e))) (rfi_lines q))"
    by (intro credit_lines_credited [OF _ n]) (simp_all add: or_else_def e(1) d)
  moreover have "credited_units (sh_stock db) (rfi_lines q) = g"
    by (rule ext) (simp add: g_def credited_units_sent [OF q(3)])
  ultimately have "credited_at canonical_default_location (sh_stock db) (sh_stock db') g" by (simp add: e)
  then show ?thesis by (simp add: credited_at_def moved_def)
qed


lemma replicated_refund_at_default_witness:
  "stock_total (sh_stock after_delivery) ''p'' = 2 \<and> location_qty (sh_stock after_delivery) ''p'' ''B'' = 0"
proof -
  have "rid (demo_refund ''r1'') \<notin> rf_id ` set (sh_refunds two_location_replica)"
    "distinct (map fst (summary (sh_stock two_location_replica)))" by code_simp+
  note r = replicated_refund_at_default [OF demo_sent demo_delivered this, of "''p''" "''B''"]
  have "sum_list (map rline_qty (filter (\<lambda>l. 0 < rline_qty l \<and> stock_product_id_by_sku (sh_stock two_location_replica) (rline_sku l)
      = Some ''p'') (refund_lines (demo_refund ''r1'')))) = 2" "stock_total (sh_stock two_location_replica) ''p'' = 0"
    "location_qty (sh_stock two_location_replica) ''p'' ''B'' = 0" "canonical_default_location \<noteq> ''B''"
    by code_simp+
  then show ?thesis using r by simp
qed

text \<open>The terminal that made this refund has put the units back where they were taken from, at \<open>B\<close>.\<close>

lemma replica_differs_by_location:
  "location_qty (sh_stock (do_refund ''r1'' two_location_shop)) ''p'' ''B'' = 2
    \<and> location_qty (sh_stock after_delivery) ''p'' ''B'' = 0"
  by code_simp


subsection \<open>Settings\<close>

lemma seen_stays: "\<not> unseen env (sh_queue db) item \<Longrightarrow> \<not> unseen env (sh_queue (snd (deliver_all env ds db))) item"
  by (rule deliver_all_keeps [where P = "\<lambda>db. \<not> unseen env (sh_queue db) item"]) (use unseen_mono [OF receipts_grow] in blast)+

lemma seen_not_applied:
  assumes "\<not> unseen env (sh_queue db) item"
  shows "fst (apply_remote_atomic_full env x item db) = Some (Inr not_applied)"
    "rd_settings (snd (apply_remote_atomic_full env x item db)) = rd_settings db"
proof -
  have again: "already_delivered env item (sh_queue db)" using assms by (simp add: already_delivered_iff)
  have "fst (apply_remote_atomic_full env x item db) = Some (Inr not_applied)
      \<and> rd_settings (snd (apply_remote_atomic_full env x item db)) = rd_settings db"
    by (cases rule: atomic_cases [of env x item db]) (use again in simp_all)
  then show "fst (apply_remote_atomic_full env x item db) = Some (Inr not_applied)"
    "rd_settings (snd (apply_remote_atomic_full env x item db)) = rd_settings db" by blast+
qed

lemma setting_effect:
  assumes "qi_action i = ''settings.update'' \<or> qi_action i = ''settings.change''"
    and "me_parse env (qi_payload i) = Some v" "as_str (jget v ''key'') = Some k"
  shows "effect_of env i = Some (''setting:'' @ k)"
  using assms by (auto simp: effect_of_def remote_effect_key_def effect_field_def)

text \<open>
  The effect key of a change of a setting is the key alone, so of all the changes of a setting that
  arrive only the first is ever applied: any later one, with whatever value, from whatever terminal, is passed
  over as delivered, however much is delivered in between.\<close>

theorem later_setting_change_dropped:
  fixes ds :: "(remote_args \<times> offline_queue_item) list"
  assumes first: "was_applied (fst (apply_remote_atomic_full env x i db))"
    and actions: "qi_action i = ''settings.update'' \<or> qi_action i = ''settings.change''"
      "qi_action j = ''settings.update'' \<or> qi_action j = ''settings.change''"
    and payloads: "me_parse env (qi_payload i) = Some v" "as_str (jget v ''key'') = Some k"
      "me_parse env (qi_payload j) = Some w" "as_str (jget w ''key'') = Some k"
  defines "db' \<equiv> snd (deliver_all env ds (snd (apply_remote_atomic_full env x i db)))"
  shows "fst (apply_remote_atomic_full env y j db') = Some (Inr not_applied)
    \<and> rd_settings (snd (apply_remote_atomic_full env y j db')) = rd_settings db'"
proof -
  let ?db1 = "snd (apply_remote_atomic_full env x i db)"
  have "effect_of env i = effect_of env j"
    by (simp add: setting_effect [OF actions(1) payloads(1,2)] setting_effect [OF actions(2) payloads(3,4)])
  moreover have "effect_of env i \<in> receipt_effects (sh_queue ?db1)"
    using applied_was_unseen(2) [OF first] by (force simp: receipt_effects_def)
  ultimately have "\<not> unseen env (sh_queue ?db1) j"
    by (simp add: unseen_def setting_effect [OF actions(2) payloads(3,4)])
  then have "\<not> unseen env (sh_queue db') j" unfolding db'_def by (rule seen_stays)
  then show ?thesis using seen_not_applied by blast
qed

definition tax_env :: remote_env where
  "tax_env = env_reading [(''p11'', settings_payload ''tax.rate'' ''11'' ''till-2''), (''p12'', settings_payload ''tax.rate'' ''12'' ''till-2'')]"

definition after_first_change :: remote_db where
  "after_first_change = snd (apply_remote_atomic_full tax_env (remote_demo_args ''m1'') (remote_item ''i1'' ''settings.update'' ''p11'') empty_remote)"

lemma later_setting_change_dropped_witness:
  "setting_get (rd_settings after_first_change) ''tax.rate'' = Some ''11''
    \<and> setting_get (rd_settings (snd (apply_remote_atomic_full tax_env (remote_demo_args ''m2'')
        (remote_item ''i2'' ''settings.update'' ''p12'') after_first_change))) ''tax.rate'' = Some ''11''"
proof -
  have "was_applied (fst (apply_remote_atomic_full tax_env (remote_demo_args ''m1'') (remote_item ''i1'' ''settings.update'' ''p11'') empty_remote))"
    "setting_get (rd_settings after_first_change) ''tax.rate'' = Some ''11''"
    by code_simp+
  moreover have "me_parse tax_env ''p11'' = Some (settings_payload ''tax.rate'' ''11'' ''till-2'')"
    "me_parse tax_env ''p12'' = Some (settings_payload ''tax.rate'' ''12'' ''till-2'')"
    by (simp_all add: tax_env_def env_reading_def)
  ultimately show ?thesis
    using later_setting_change_dropped [of tax_env "remote_demo_args ''m1''" "remote_item ''i1'' ''settings.update'' ''p11''"
        empty_remote "remote_item ''i2'' ''settings.update'' ''p12''" _ "''tax.rate''" _ "remote_demo_args ''m2''" "[]"]
    by (simp add: remote_item_def queue_item_new_def settings_payload_def after_first_change_def)
qed

subsection \<open>Sales\<close>

lemma adjust_stock_in_tx_Inr:
  assumes "adjust_stock_in_tx x sku delta st = Inr (new, st')"
  obtains p u where "stock_product_id_by_sku st sku = Some p" "new = get_stock st p + delta" "0 \<le> new"
    "summary st' = tab_update (p, canonical_default_location) (new, u) (summary st)"
  using assms that
  by (auto simp: adjust_stock_in_tx_def adjust_stock_with_reason_def insert_movement_def upsert_stock_summary_in_tx_def
      checked_add_def Let_def split: option.splits if_splits sum.splits)

text \<open>
  The arm of a completed sale stamps the total of the product over all locations onto the default
  location, which the arm of a stock adjustment is careful not to do. With stock elsewhere, a sale of
  \<open>n\<close> units leaves the tables in disagreement and makes the stock grow by what is elsewhere.
\<close>

lemma remote_sale_restamps_default:
  assumes sold: "apply_complete_sale x \<lparr>sx_sale_id = None, sx_lines = [\<lparr>si_sku = sku, si_qty = n\<rparr>]\<rparr> db = Ok db'"
    and p: "stock_product_id_by_sku (sh_stock db) sku = Some p" "product_has_location_rows (sh_stock db) p"
    and sound: "agrees (sh_stock db) p" "distinct (map fst (summary (sh_stock db)))"
  defines "elsewhere \<equiv> stock_total (sh_stock db) p - location_qty (sh_stock db) p canonical_default_location"
  shows "stock_total (sh_stock db') p = stock_total (sh_stock db) p - n + elsewhere"
proof -
  obtain d m where "checked_neg n = Some d" and m: "adjust_legacy x sku d (0, db) = Inr (m, db')"
    using sold by (auto simp: apply_complete_sale_def deduct_sale_line_def split: option.splits)
  then have d: "d = - n" by (auto simp: checked_neg_def fit_i64_def split: if_splits)
  obtain new stock where a: "adjust_stock_in_tx (ma_adjust x 0) sku d (sh_stock db) = Inr (new, stock)" "sh_stock db' = stock"
    by (rule adjust_legacy_Inr [OF m]) simp
  obtain u where new: "new = get_stock (sh_stock db) p + d"
      and s: "summary stock = tab_update (p, canonical_default_location) (new, u) (summary (sh_stock db))"
    by (rule adjust_stock_in_tx_Inr [OF a(1)]) (use p(1) in simp)
  have rows: "product_has_location_rows stock p" by (simp add: product_has_location_rows_def s tab_rows)
  have "summary_total stock p = summary_total (sh_stock db) p + (new - location_qty (sh_stock db) p canonical_default_location)"
    unfolding summary_total_def s by (simp add: tab_total [OF sound(2)] location_qty_alt)
  moreover have "get_stock (sh_stock db) p = stock_total (sh_stock db) p"
    using sound(1) p(2) by (simp add: agrees_def stock_total_def)
  ultimately show ?thesis using rows p(2) by (simp add: a(2) stock_total_def elsewhere_def new d)
qed

end
