(* ===== verification/Refund_Books.thy ===== *)
theory Refund_Books
  imports Replication
begin

section \<open>The books of sales and refunds over time\<close>

text \<open>
  The history of the tables of sales and refunds on one terminal: refunds made here by \<open>Refunds\<close>,
  refunds of other terminals that \<open>Remote_Apply\<close> writes without the bounds, new sales, and changes of
  sales. The bounds of \<open>create_refund\<close> then hold for every sale whose refunds were all made here and
  whose total stayed as it was sold.
\<close>

subsection \<open>The part of the books made here\<close>

definition own_books :: "string list \<Rightarrow> 'a shop_scheme \<Rightarrow> 'a shop_scheme" where
  "own_books F st = st\<lparr>sh_refunds := filter (\<lambda>r. rf_sale r \<notin> set F) (sh_refunds st),
     sh_refund_lines := filter (\<lambda>w. \<not> list_ex (\<lambda>r. rf_id r = rw_refund w \<and> rf_sale r \<in> set F) (sh_refunds st))
       (sh_refund_lines st)\<rparr>"

lemma own_books_sel [simp]:
  "sh_loyalty (own_books F st) = sh_loyalty st" "sh_lines (own_books F st) = sh_lines st"
  "find_sale (own_books F st) = find_sale st"
  by (simp_all add: own_books_def find_sale_def fun_eq_iff)

lemma own_books_Cons: "own_books (i # F) st = own_books [i] (own_books F st)"
proof -
  let ?refunds = "filter (\<lambda>r. rf_sale r \<notin> set F) (sh_refunds st)"
  let ?hit = "\<lambda>G rs w. list_ex (\<lambda>r. rf_id r = rw_refund w \<and> rf_sale r \<in> set G) rs"
  have "filter (\<lambda>w. \<not> ?hit (i # F) (sh_refunds st) w) (sh_refund_lines st)
      = filter (\<lambda>w. \<not> ?hit [i] ?refunds w) (filter (\<lambda>w. \<not> ?hit F (sh_refunds st) w) (sh_refund_lines st))"
    by (auto simp: list_ex_iff intro!: filter_cong)
  moreover have "filter (\<lambda>r. rf_sale r \<notin> set (i # F)) (sh_refunds st) = filter (\<lambda>r. rf_sale r \<notin> set [i]) ?refunds"
    by (auto intro!: filter_cong)
  moreover have "own_books [i] (own_books F st) = st\<lparr>sh_refunds := filter (\<lambda>r. rf_sale r \<notin> set [i]) ?refunds,
      sh_refund_lines := filter (\<lambda>w. \<not> ?hit [i] ?refunds w) (filter (\<lambda>w. \<not> ?hit F (sh_refunds st) w) (sh_refund_lines st))\<rparr>"
    unfolding own_books_def by (simp del: filter_filter)
  ultimately show ?thesis unfolding own_books_def [of "i # F"] by (simp only:)
qed

lemma own_refunded_total: "i \<notin> set F \<Longrightarrow> refunded_total (own_books F st) i = refunded_total st i"
  by (auto simp: refunded_total_def own_books_def intro!: arg_cong [where f = "\<lambda>xs. sum_list (map rf_total xs)"] filter_cong)

lemma foreign_refunded_total: "i \<in> set F \<Longrightarrow> refunded_total (own_books F st) i = 0"
proof -
  assume "i \<in> set F"
  then have "filter (\<lambda>r. rf_sale r = i) (sh_refunds (own_books F st)) = []" by (auto simp: own_books_def filter_empty_conv)
  then show ?thesis by (simp add: refunded_total_def)
qed

text \<open>A line of a refund of a sale outside \<open>F\<close> is kept, and those of the others are not.\<close>

lemma line_kept:
  assumes "distinct (map rf_id (sh_refunds st))" and "r \<in> set (sh_refunds st)" and "rf_id r = rw_refund w"
  shows "list_ex (\<lambda>r. rf_id r = rw_refund w \<and> rf_sale r \<in> set F) (sh_refunds st) \<longleftrightarrow> rf_sale r \<in> set F"
  using assms same_key [OF assms(1)] unfolding list_ex_iff by metis

lemma own_lines:
  assumes "distinct (map rf_id (sh_refunds st))" and "i \<notin> set F"
  shows "filter (\<lambda>w. P w \<and> list_ex (\<lambda>r. rf_id r = rw_refund w \<and> rf_sale r = i \<and> Q r) (sh_refunds (own_books F st)))
      (sh_refund_lines (own_books F st))
    = filter (\<lambda>w. P w \<and> list_ex (\<lambda>r. rf_id r = rw_refund w \<and> rf_sale r = i \<and> Q r) (sh_refunds st)) (sh_refund_lines st)"
proof -
  have "\<not> list_ex (\<lambda>r. rf_id r = rw_refund w \<and> rf_sale r \<in> set F) (sh_refunds st)
      \<and> list_ex (\<lambda>r. rf_id r = rw_refund w \<and> rf_sale r = i \<and> Q r) (filter (\<lambda>r. rf_sale r \<notin> set F) (sh_refunds st))
    \<longleftrightarrow> list_ex (\<lambda>r. rf_id r = rw_refund w \<and> rf_sale r = i \<and> Q r) (sh_refunds st)" for w
    using line_kept [OF assms(1)] assms(2) unfolding list_ex_iff by auto
  then show ?thesis unfolding own_books_def by (auto intro!: filter_cong)
qed

lemma own_returned_qty:
  assumes "distinct (map rf_id (sh_refunds st))" and "i \<notin> set F"
  shows "returned_qty (own_books F st) i k = returned_qty st i k"
  using own_lines [OF assms, of "\<lambda>w. rw_sale_line w = k" "\<lambda>_. True"] by (simp add: returned_qty_def)

lemma foreign_returned_qty: "i \<in> set F \<Longrightarrow> returned_qty (own_books F st) i k = 0"
proof -
  assume "i \<in> set F"
  then have "\<not> list_ex (\<lambda>r. rf_id r = rw_refund w \<and> rf_sale r = i) (sh_refunds (own_books F st))" for w
    by (auto simp: own_books_def list_ex_iff)
  then have "filter (\<lambda>w. rw_sale_line w = k \<and> list_ex (\<lambda>r. rf_id r = rw_refund w \<and> rf_sale r = i) (sh_refunds (own_books F st)))
      (sh_refund_lines (own_books F st)) = []"
    unfolding filter_empty_conv by blast
  then show ?thesis by (simp add: returned_qty_def)
qed

lemma own_row_of_sale:
  assumes "row_of_sale st w" and "\<not> list_ex (\<lambda>r. rf_id r = rw_refund w \<and> rf_sale r \<in> set F) (sh_refunds st)"
  shows "row_of_sale (own_books F st) w"
  using assms by (auto simp: row_of_sale_def own_books_def list_ex_iff)

lemma own_books_keeps:
  assumes "refunds_ok st"
  shows "refunds_ok (own_books F st)"
proof -
  have dist: "distinct (map rf_id (sh_refunds st))" using assms by (simp add: refunds_ok_def)
  have "refunded_total (own_books F st) i \<le> max 0 n" if "refunded_total st i \<le> max 0 n" for i n
    using that own_refunded_total [of i F st] foreign_refunded_total [of i F st] by (cases "i \<in> set F") simp_all
  moreover have "returned_qty (own_books F st) i k \<le> max 0 n" if "returned_qty st i k \<le> max 0 n" for i k n
    using that own_returned_qty [OF dist, of i F k] foreign_returned_qty [of i F st k] by (cases "i \<in> set F") simp_all
  moreover have "row_of_sale (own_books F st) w" if "w \<in> set (sh_refund_lines (own_books F st))" for w
    using that assms own_row_of_sale [of st w F] by (simp add: refunds_ok_def own_books_def)
  moreover have "distinct (map rf_id (sh_refunds (own_books F st)))"
    using dist by (simp add: own_books_def distinct_map_filter)
  moreover have "set (sh_refunds (own_books F st)) \<subseteq> set (sh_refunds st)" by (auto simp: own_books_def)
  ultimately show ?thesis using assms unfolding refunds_ok_def own_books_sel by blast
qed

subsection \<open>Refunds made here\<close>

lemma own_already_refunded:
  "i \<notin> set F \<Longrightarrow> already_refunded (own_books F st) i cur = already_refunded st i cur"
  by (auto simp: already_refunded_def own_books_def intro!: arg_cong [where f = "\<lambda>xs. sum_list (map rf_total xs)"] filter_cong)

lemma own_refunded_qty:
  assumes "distinct (map rf_id (sh_refunds st))" and "i \<notin> set F"
  shows "refunded_qty_for_sale_line_in_tx (own_books F st) i k x = refunded_qty_for_sale_line_in_tx st i k x"
  using own_lines [OF assms, of "\<lambda>w. rw_sale_line w = k \<and> 0 < rw_qty w" "\<lambda>r. rf_id r \<noteq> x"]
  by (simp add: refunded_qty_for_sale_line_in_tx_def conj_ac)

definition books_kept :: "'a shop_scheme \<times> string list \<Rightarrow> bool" where
  "books_kept sf = (case sf of (st, F) \<Rightarrow>
     refunds_ok (own_books F st) \<and> distinct (map rf_id (sh_refunds st))
     \<and> (\<forall>w\<in>set (sh_refund_lines st). rw_refund w \<in> rf_id ` set (sh_refunds st)))"

lemma created_keeps_books:
  assumes kept: "books_kept (st, F)" and made: "create_refund render parse hash env x r st = Ok st'"
    and own: "list_all (\<lambda>l. refund_line.refund_id l = rid r) (refund_lines r)"
  shows "books_kept (st', F)"
proof -
  obtain s row ws where s: "find_sale st (refund_sale_id r) = Some s" and row: "rf_id row = rid r" "rf_sale row = refund_sale_id r"
      "rf_currency row = so_currency s" "0 \<le> rf_total row" and fresh: "rid r \<notin> rf_id ` set (sh_refunds st)"
      and money: "already_refunded st (refund_sale_id r) (so_currency s) + rf_total row \<le> so_total s"
      and ws: "list_all2 line_row (refund_lines r) ws"
      and b: "books st' = (lo_sales (sh_loyalty st), sh_lines st, sh_refunds st @ [row], sh_refund_lines st @ ws)"
      and granted: "\<And>l. l \<in> set (refund_lines r) \<Longrightarrow> 0 < rline_qty l \<Longrightarrow> claim_granted st r l"
    using create_refund_Ok [OF made] by metis
  have dist: "distinct (map rf_id (sh_refunds st))" and fk: "\<And>w. w \<in> set (sh_refund_lines st) \<Longrightarrow> rw_refund w \<in> rf_id ` set (sh_refunds st)"
    and ok: "refunds_ok (own_books F st)"
    using kept by (simp_all add: books_kept_def)
  have b': "lo_sales (sh_loyalty st') = lo_sales (sh_loyalty st)" "sh_lines st' = sh_lines st"
      "sh_refunds st' = sh_refunds st @ [row]" "sh_refund_lines st' = sh_refund_lines st @ ws"
    using b by (simp_all add: books_def)
  have new: "rw_refund w = rid r" if "w \<in> set ws" for w
    using ws own that by (auto simp: list_all2_conv_all_nth in_set_conv_nth list_all_iff line_row_def) (metis nth_mem)
  have old: "rw_refund w \<noteq> rid r" if "w \<in> set (sh_refund_lines st)" for w
    using fk [OF that] fresh by metis
  let ?in = "refund_sale_id r \<in> set F"
  have lines: "filter (\<lambda>w. \<not> list_ex (\<lambda>q. rf_id q = rw_refund w \<and> rf_sale q \<in> set F) (sh_refunds st')) (sh_refund_lines st')
      = sh_refund_lines (own_books F st) @ (if ?in then [] else ws)"
  proof -
    have "filter (\<lambda>w. \<not> list_ex (\<lambda>q. rf_id q = rw_refund w \<and> rf_sale q \<in> set F) (sh_refunds st')) ws = (if ?in then [] else ws)"
    proof -
      have "list_ex (\<lambda>q. rf_id q = rw_refund w \<and> rf_sale q \<in> set F) (sh_refunds st') \<longleftrightarrow> ?in" if "w \<in> set ws" for w
        using new [OF that] row(1,2) fresh by (auto simp: b' list_ex_iff image_iff)
      then show ?thesis by (auto simp: filter_empty_conv filter_id_conv)
    qed
    moreover have "filter (\<lambda>w. \<not> list_ex (\<lambda>q. rf_id q = rw_refund w \<and> rf_sale q \<in> set F) (sh_refunds st')) (sh_refund_lines st)
        = sh_refund_lines (own_books F st)"
    proof -
      have "list_ex (\<lambda>q. rf_id q = rw_refund w \<and> rf_sale q \<in> set F) (sh_refunds st')
          = list_ex (\<lambda>q. rf_id q = rw_refund w \<and> rf_sale q \<in> set F) (sh_refunds st)" if "w \<in> set (sh_refund_lines st)" for w
        using old [OF that] row(1) by (simp add: b' eq_commute)
      then show ?thesis by (auto simp: own_books_def intro!: filter_cong)
    qed
    ultimately show ?thesis by (simp add: b')
  qed
  have books': "books (own_books F st') = (if ?in then books (own_books F st) else
      (lo_sales (sh_loyalty (own_books F st)), sh_lines (own_books F st),
       sh_refunds (own_books F st) @ [row], sh_refund_lines (own_books F st) @ ws))"
    using lines row(2) by (simp add: books_def own_books_def b')
  have "refunds_ok (own_books F st')"
  proof (cases ?in)
    case True
    then show ?thesis using books' ok refunds_ok_cong [of "own_books F st'" "own_books F st"] by simp
  next
    case False
    have "claim_granted (own_books F st) r l" if "l \<in> set (refund_lines r)" "0 < rline_qty l" for l
      using granted [OF that] own_refunded_qty [OF dist False] by (simp add: claim_granted_def)
    moreover have "rid r \<notin> rf_id ` set (sh_refunds (own_books F st))" using fresh by (auto simp: own_books_def)
    ultimately show ?thesis
      using refund_recorded_keeps [OF ok own _ row _ _ ws, of "own_books F st'"] s money False books'
      by (simp add: own_already_refunded)
  qed
  then show ?thesis using dist fresh row(1) fk new by (auto simp: books_kept_def b')
qed

subsection \<open>Refunds of other terminals\<close>

lemma apply_refund_books:
  assumes "apply_refund x p db = Inr db'"
  shows "books db' = books db
    \<or> \<not> refund_already_applied db (rfi_id p) \<and> (\<exists>row ws. rf_id row = rfi_id p \<and> rf_sale row = rfi_sale p
         \<and> (\<forall>w\<in>set ws. rw_refund w = rfi_id p)
         \<and> books db' = (lo_sales (sh_loyalty db), sh_lines db, sh_refunds db @ [row], sh_refund_lines db @ ws))"
proof (cases "refund_already_applied db (rfi_id p) \<or> find_sale db (rfi_sale p) = None")
  case True
  then show ?thesis
  proof (cases "refund_already_applied db (rfi_id p)")
    case False
    then have "credit_refund_effect_without_sale x p db = Inr db'" using True assms by (simp add: apply_refund_def)
    then obtain stock where "db' = db\<lparr>sh_stock := stock\<rparr>" using credit_remote_frame by blast
    then show ?thesis by (simp add: books_def)
  qed (use assms in \<open>simp add: apply_refund_def\<close>)
next
  case False
  then obtain s where "apply_refund_with_sale_in_tx x s p db = Inr db'" using assms by (auto simp: apply_refund_def)
  then obtain t db1 db2 db3 where
      d: "insert_refund_row \<lparr>rf_id = rfi_id p, rf_sale = rfi_sale p, rf_total = rfi_total p,
          rf_currency = rfi_currency p, rf_reason = rfi_reason p, rf_note = rfi_note p,
          rf_processed_by = rfi_processed_by p, rf_created_at = rfi_created_at p, rf_tenant = t\<rparr> db = Inr db1"
        "each (\<lambda>l. insert_refund_line_row (replicated_line p l)) (rfi_lines p) db1 = Inr db2"
        "credit_refund_effect_without_sale x p db2 = Inr db3"
        "insert_audit (replicated_audit x p) (db3\<lparr>sh_loyalty := reverse_customer_spend_for_refund_in_tx s p
          (reverse_loyalty_for_refund_in_tx x s p (sh_loyalty db3))\<rparr>) = Inr db'"
    by (rule apply_refund_with_sale_Inr) simp
  obtain stock where db3: "db3 = db2\<lparr>sh_stock := stock\<rparr>" using credit_remote_frame [OF d(3)] by blast
  define row where "row = \<lparr>rf_id = rfi_id p, rf_sale = rfi_sale p, rf_total = rfi_total p,
      rf_currency = rfi_currency p, rf_reason = rfi_reason p, rf_note = rfi_note p,
      rf_processed_by = rfi_processed_by p, rf_created_at = rfi_created_at p, rf_tenant = t\<rparr>"
  have db1: "db1 = db\<lparr>sh_refunds := sh_refunds db @ [row]\<rparr>"
    using d(1) by (auto simp: insert_refund_row_def row_def split: if_splits)
  have "lo_sales (reverse_customer_spend_for_refund_in_tx s p (reverse_loyalty_for_refund_in_tx x s p ly)) = lo_sales ly" for ly
    by (simp add: reverse_customer_spend_for_refund_in_tx_def reverse_loyalty_for_refund_in_tx_def
        reverse_customer_spend_on_refund_def Let_def split: option.split)
  then have "books db' = books db3" using d(4) by (auto simp: insert_audit_def books_def split: if_splits)
  then have "books db' = (lo_sales (sh_loyalty db), sh_lines db, sh_refunds db @ [row],
      sh_refund_lines db @ map (replicated_line p) (rfi_lines p))"
    by (simp add: db3 insert_lines_rows [OF d(2)] db1 books_def)
  moreover have "rf_id row = rfi_id p" "rf_sale row = rfi_sale p" by (simp_all add: row_def)
  ultimately show ?thesis using False
    by (intro disjI2 conjI exI [of _ row] exI [of _ "map (replicated_line p) (rfi_lines p)"])
      (auto simp: replicated_line_def)
qed

lemma own_books_cong:
  assumes "books st = books st'"
  shows "books (own_books F st) = books (own_books F st')"
  using assms by (simp add: books_def own_books_def)

lemma books_kept_cong:
  assumes "books st = books st'"
  shows "books_kept (st, F) = books_kept (st', F)"
proof -
  have "refunds_ok (own_books F st) = refunds_ok (own_books F st')" by (rule refunds_ok_cong [OF own_books_cong [OF assms]])
  then show ?thesis using assms by (simp add: books_kept_def books_def)
qed

lemma books_kept_foreign: "books_kept (st, F) \<Longrightarrow> books_kept (st, i # F)"
  using own_books_keeps [of "own_books F st" "[i]"] by (simp add: books_kept_def flip: own_books_Cons)

lemma delivered_keeps_books:
  assumes kept: "books_kept (db, F)" and "apply_refund x p db = Inr db'"
  shows "books_kept (db', if refund_already_applied db (rfi_id p) then F else rfi_sale p # F)"
  using apply_refund_books [OF assms(2)]
proof (elim disjE conjE exE)
  assume "books db' = books db"
  then show ?thesis using kept books_kept_foreign [OF kept] books_kept_cong [of db' db] by auto
next
  fix row ws
  let ?F = "rfi_sale p # F"
  assume new: "\<not> refund_already_applied db (rfi_id p)" "rf_id row = rfi_id p" "rf_sale row = rfi_sale p"
    and ws: "\<forall>w\<in>set ws. rw_refund w = rfi_id p"
    and b: "books db' = (lo_sales (sh_loyalty db), sh_lines db, sh_refunds db @ [row], sh_refund_lines db @ ws)"
  have kept': "books_kept (db, ?F)" by (rule books_kept_foreign [OF kept])
  have fresh: "rfi_id p \<notin> rf_id ` set (sh_refunds db)" using new(1) by (auto simp: refund_already_applied_def list_ex_iff)
  have b': "lo_sales (sh_loyalty db') = lo_sales (sh_loyalty db)" "sh_lines db' = sh_lines db"
      "sh_refunds db' = sh_refunds db @ [row]" "sh_refund_lines db' = sh_refund_lines db @ ws"
    using b by (simp_all add: books_def)
  have old: "rw_refund w \<noteq> rfi_id p" if "w \<in> set (sh_refund_lines db)" for w
  proof -
    have "rw_refund w \<in> rf_id ` set (sh_refunds db)" using kept that by (simp add: books_kept_def)
    then show ?thesis using fresh by metis
  qed
  have "list_ex (\<lambda>q. rf_id q = rw_refund w \<and> rf_sale q \<in> set ?F) (sh_refunds db')
      = list_ex (\<lambda>q. rf_id q = rw_refund w \<and> rf_sale q \<in> set ?F) (sh_refunds db)" if "w \<in> set (sh_refund_lines db)" for w
    using old [OF that] new(2) by (simp add: b' eq_commute)
  then have "filter (\<lambda>w. \<not> list_ex (\<lambda>q. rf_id q = rw_refund w \<and> rf_sale q \<in> set ?F) (sh_refunds db')) (sh_refund_lines db)
      = sh_refund_lines (own_books ?F db)"
    by (auto simp: own_books_def intro!: filter_cong)
  moreover have "filter (\<lambda>w. \<not> list_ex (\<lambda>q. rf_id q = rw_refund w \<and> rf_sale q \<in> set ?F) (sh_refunds db')) ws = []"
    using ws new(2,3) by (simp add: b' filter_empty_conv)
  ultimately have "books (own_books ?F db') = books (own_books ?F db)"
    using new(3) by (simp add: books_def own_books_def b')
  moreover have "refunds_ok (own_books ?F db)" using kept' by (simp add: books_kept_def)
  ultimately have "refunds_ok (own_books ?F db')"
    using refunds_ok_cong [of "own_books ?F db'" "own_books ?F db"] by blast
  moreover have "distinct (map rf_id (sh_refunds db'))" using kept fresh new(2) by (simp add: b' books_kept_def)
  moreover have "rw_refund w \<in> rf_id ` set (sh_refunds db')" if "w \<in> set (sh_refund_lines db')" for w
  proof (cases "w \<in> set ws")
    case True
    then show ?thesis using ws new(2) by (simp add: b')
  next
    case False
    then have "w \<in> set (sh_refund_lines db)" using that by (simp add: b')
    then show ?thesis using kept by (simp add: b' books_kept_def)
  qed
  ultimately show ?thesis using new(1) by (simp add: books_kept_def)
qed

subsection \<open>Histories\<close>

text \<open>
  What happens to the books: refunds built by \<open>Refund::new\<close> and made here, refunds of other terminals that are
  delivered, new sales with their lines, changes of a sale that keep its total and currency (such as its
  status), changes of its total (such as a promotion), and anything that leaves the sales, their lines and
  the refunds alone (stock, loyalty, the queue). The second part of the state lists the sales another
  terminal's refund was written for and those whose total was changed.
\<close>

datatype book_event =
    Refund_Asked "json \<Rightarrow> string" "string \<Rightarrow> json option" "string \<Rightarrow> nat" queue_env refund_args refund
  | Refund_Delivered remote_args refund_item
  | Sale_Made sale_row "sale_line_row list"
  | Sale_Changed string "sale_row \<Rightarrow> sale_row"
  | Sale_Repriced string int
  | Other_Change "remote_db \<Rightarrow> remote_db"

definition rebuilt_refund :: "refund \<Rightarrow> refund" where
  "rebuilt_refund r = refund_new (rid r) (refund_created_at r) (refund_sale_id r) (refund_total r) (reason r)
     (refund_note r) (processed_by r) (refund_lines r)"

definition change_sale :: "string \<Rightarrow> (sale_row \<Rightarrow> sale_row) \<Rightarrow> sale_row \<Rightarrow> sale_row" where
  "change_sale i f s = (if so_id s = i then (f s)\<lparr>so_id := so_id s, so_total := so_total s, so_currency := so_currency s\<rparr> else s)"

definition reprice :: "string \<Rightarrow> int \<Rightarrow> sale_row \<Rightarrow> sale_row" where
  "reprice i t s = (if so_id s = i then s\<lparr>so_total := t\<rparr> else s)"

fun book_step :: "book_event \<Rightarrow> remote_db \<times> string list \<Rightarrow> remote_db \<times> string list" where
  "book_step (Refund_Asked render parse hash env x r) (st, F) =
     (case create_refund render parse hash env x (rebuilt_refund r) st of Ok st' \<Rightarrow> (st', F) | _ \<Rightarrow> (st, F))"
| "book_step (Refund_Delivered x p) (st, F) =
     (case apply_refund x p st of
        Inl _ \<Rightarrow> (st, F)
      | Inr st' \<Rightarrow> (st', if refund_already_applied st (rfi_id p) then F else rfi_sale p # F))"
| "book_step (Sale_Made s ls) (st, F) =
     (if so_id s \<in> so_id ` set (lo_sales (sh_loyalty st)) \<or> \<not> distinct (map sw_id (sh_lines st @ ls))
         \<or> \<not> list_all (\<lambda>l. sw_sale l = so_id s) ls
      then (st, F)
      else (st\<lparr>sh_loyalty := with_sales (lo_sales (sh_loyalty st) @ [s]) (sh_loyalty st), sh_lines := sh_lines st @ ls\<rparr>, F))"
| "book_step (Sale_Changed i f) (st, F) =
     (st\<lparr>sh_loyalty := with_sales (map (change_sale i f) (lo_sales (sh_loyalty st))) (sh_loyalty st)\<rparr>, F)"
| "book_step (Sale_Repriced i t) (st, F) =
     (st\<lparr>sh_loyalty := with_sales (map (reprice i t) (lo_sales (sh_loyalty st))) (sh_loyalty st)\<rparr>, i # F)"
| "book_step (Other_Change f) (st, F) =
     ((f st)\<lparr>sh_loyalty := with_sales (lo_sales (sh_loyalty st)) (sh_loyalty (f st)), sh_lines := sh_lines st,
        sh_refunds := sh_refunds st, sh_refund_lines := sh_refund_lines st\<rparr>, F)"

lemma change_sale_same [simp]: "so_id (change_sale i f s) = so_id s" "so_total (change_sale i f s) = so_total s"
  "so_currency (change_sale i f s) = so_currency s"
  by (simp_all add: change_sale_def)

lemma reprice_same [simp]: "so_id (reprice i t s) = so_id s" "so_currency (reprice i t s) = so_currency s"
  "so_id s \<noteq> i \<Longrightarrow> so_total (reprice i t s) = so_total s"
  by (simp_all add: reprice_def)

lemma sale_made_keeps:
  assumes ok: "refunds_ok st" and new: "so_id s \<notin> so_id ` set (lo_sales (sh_loyalty st))"
    and "distinct (map sw_id (sh_lines st @ ls))" and "list_all (\<lambda>l. sw_sale l = so_id s) ls"
  shows "refunds_ok (st\<lparr>sh_loyalty := with_sales (lo_sales (sh_loyalty st) @ [s]) (sh_loyalty st), sh_lines := sh_lines st @ ls\<rparr>)"
    (is "refunds_ok ?st'")
proof -
  have none: "filter (\<lambda>r. rf_sale r = so_id s) (sh_refunds st) = []"
    using ok new unfolding refunds_ok_def filter_empty_conv by (metis image_eqI)
  then have zero: "refunded_total ?st' (so_id s) = 0" by (simp add: refunded_total_def)
  have "returned_qty ?st' (so_id s) k = 0" for k
    using none by (auto simp: returned_qty_def filter_empty_conv list_ex_iff)
  then have lines: "returned_qty ?st' (sw_sale l) (sw_id l) \<le> max 0 (sw_qty l)" if "l \<in> set ls" for l
    using assms(4) that by (simp add: list_all_iff)
  have same: "refunded_total ?st' = refunded_total st" "returned_qty ?st' = returned_qty st"
    by (simp_all add: refunded_total_def returned_qty_def fun_eq_iff)
  have "row_of_sale ?st' w" if "w \<in> set (sh_refund_lines st)" for w
    using ok that unfolding refunds_ok_def row_of_sale_def by simp (meson UnCI)
  then show ?thesis using ok new assms(3) lines zero unfolding refunds_ok_def same
    by (auto simp: with_sales_def)
qed

lemma sale_changed_keeps:
  "refunds_ok st \<Longrightarrow> refunds_ok (st\<lparr>sh_loyalty := with_sales (map (change_sale i f) (lo_sales (sh_loyalty st))) (sh_loyalty st)\<rparr>)"
proof -
  have "map so_id (map (change_sale i f) ss) = map so_id ss" for ss by simp
  then show "refunds_ok st \<Longrightarrow> ?thesis"
    by (auto simp: refunds_ok_def with_sales_def refunded_total_def returned_qty_def row_of_sale_def comp_def)
qed

lemma sale_repriced_keeps:
  assumes "refunds_ok st" and none: "\<And>r. r \<in> set (sh_refunds st) \<Longrightarrow> rf_sale r \<noteq> i"
  shows "refunds_ok (st\<lparr>sh_loyalty := with_sales (map (reprice i t) (lo_sales (sh_loyalty st))) (sh_loyalty st)\<rparr>)"
    (is "refunds_ok ?st'")
proof -
  have ids: "map so_id (map (reprice i t) ss) = map so_id ss" for ss by simp
  have zero: "refunded_total st i = 0"
  proof -
    have "filter (\<lambda>r. rf_sale r = i) (sh_refunds st) = []" using none by (simp add: filter_empty_conv)
    then show ?thesis by (simp add: refunded_total_def)
  qed
  have same: "refunded_total ?st' = refunded_total st" "returned_qty ?st' = returned_qty st" "row_of_sale ?st' = row_of_sale st"
    by (simp_all add: refunded_total_def returned_qty_def row_of_sale_def fun_eq_iff)
  have "refunded_total st (so_id (reprice i t s)) \<le> max 0 (so_total (reprice i t s))" if "s \<in> set (lo_sales (sh_loyalty st))" for s
    using assms(1) that zero by (cases "so_id s = i") (simp_all add: refunds_ok_def)
  then show ?thesis using assms(1) unfolding refunds_ok_def same by (simp add: with_sales_def comp_def)
qed

lemma own_books_sales:
  "own_books F (st\<lparr>sh_loyalty := with_sales ss (sh_loyalty st), sh_lines := ls\<rparr>)
    = (own_books F st)\<lparr>sh_loyalty := with_sales ss (sh_loyalty st), sh_lines := ls\<rparr>"
  "own_books F (st\<lparr>sh_loyalty := with_sales ss (sh_loyalty st)\<rparr>) = (own_books F st)\<lparr>sh_loyalty := with_sales ss (sh_loyalty st)\<rparr>"
  by (simp_all add: own_books_def)

lemma book_step_keeps: "books_kept sf \<Longrightarrow> books_kept (book_step e sf)"
proof -
  assume kept: "books_kept sf"
  obtain st F where sf: "sf = (st, F)" by (rule prod.exhaust)
  have ok: "refunds_ok (own_books F st)" using kept by (simp add: sf books_kept_def)
  show ?thesis
  proof (cases e)
    case (Refund_Asked render parse hash env x r)
    have "list_all (\<lambda>l. refund_line.refund_id l = rid (rebuilt_refund r)) (refund_lines (rebuilt_refund r))"
      by (simp add: rebuilt_refund_def refund_new_def list_all_iff)
    then show ?thesis using created_keeps_books [OF kept [unfolded sf]] kept Refund_Asked by (simp add: sf split: outcome.split)
  next
    case (Refund_Delivered x p)
    then show ?thesis using delivered_keeps_books [OF kept [unfolded sf], of x p] kept
      by (cases "apply_refund x p st") (simp_all add: sf)
  next
    case (Sale_Made s ls)
    then show ?thesis using sale_made_keeps [of "own_books F st" s ls] ok kept
      by (auto simp: sf books_kept_def own_books_sales)
  next
    case (Sale_Changed i f)
    then show ?thesis using sale_changed_keeps [OF ok, of i f] kept
      by (simp add: sf books_kept_def own_books_sales)
  next
    case (Sale_Repriced i t)
    have kept': "books_kept (st, i # F)" by (rule books_kept_foreign [OF kept [unfolded sf]])
    moreover have "rf_sale r \<noteq> i" if "r \<in> set (sh_refunds (own_books (i # F) st))" for r
      using that by (simp add: own_books_def)
    ultimately show ?thesis using Sale_Repriced sale_repriced_keeps [of "own_books (i # F) st" i t]
      by (simp add: sf books_kept_def own_books_sales)
  next
    case (Other_Change f)
    have "books (fst (book_step e sf)) = books st" "snd (book_step e sf) = F"
      by (simp_all add: Other_Change sf books_def with_sales_def)
    then have "books_kept (book_step e sf) = books_kept (st, F)" using books_kept_cong by (metis prod.collapse)
    then show ?thesis using kept by (simp add: sf)
  qed
qed

lemma empty_books_kept: "books_kept (empty_remote, [])"
  by (simp add: books_kept_def refunds_ok_def empty_remote_def empty_shop_def empty_loyalty_def own_books_def)

interpretation refund_books: machine "(empty_remote, [])" book_step books_kept
  by unfold_locales (rule empty_books_kept, rule book_step_keeps)

text \<open>The bounds of \<open>create_refund\<close>, for the sales outside \<open>F\<close>.\<close>

definition refunds_within :: "string list \<Rightarrow> 'a shop_scheme \<Rightarrow> bool" where
  "refunds_within F st \<longleftrightarrow>
     list_all (\<lambda>s. so_id s \<in> set F \<or> refunded_total st (so_id s) \<le> max 0 (so_total s)) (lo_sales (sh_loyalty st))
     \<and> list_all (\<lambda>l. sw_sale l \<in> set F \<or> returned_qty st (sw_sale l) (sw_id l) \<le> max 0 (sw_qty l)) (sh_lines st)
     \<and> list_all (\<lambda>w. list_ex (\<lambda>r. rf_id r = rw_refund w \<and> rf_sale r \<in> set F) (sh_refunds st) \<or> row_of_sale st w)
         (sh_refund_lines st)"

lemma books_kept_within: "books_kept (st, F) \<Longrightarrow> refunds_within F st"
proof -
  assume kept: "books_kept (st, F)"
  then have ok: "refunds_ok (own_books F st)" and dist: "distinct (map rf_id (sh_refunds st))" by (simp_all add: books_kept_def)
  have "row_of_sale st w" if "row_of_sale (own_books F st) w" for w
    using that by (auto simp: row_of_sale_def own_books_def)
  moreover have "w \<in> set (sh_refund_lines (own_books F st))"
    if "w \<in> set (sh_refund_lines st)" "\<not> list_ex (\<lambda>r. rf_id r = rw_refund w \<and> rf_sale r \<in> set F) (sh_refunds st)" for w
    using that by (simp add: own_books_def)
  moreover have "\<forall>w \<in> set (sh_refund_lines (own_books F st)). row_of_sale (own_books F st) w"
      "\<forall>s \<in> set (lo_sales (sh_loyalty st)). refunded_total (own_books F st) (so_id s) \<le> max 0 (so_total s)"
      "\<forall>l \<in> set (sh_lines st). returned_qty (own_books F st) (sw_sale l) (sw_id l) \<le> max 0 (sw_qty l)"
    using ok by (simp_all add: refunds_ok_def)
  ultimately have "\<forall>w \<in> set (sh_refund_lines st).
      list_ex (\<lambda>r. rf_id r = rw_refund w \<and> rf_sale r \<in> set F) (sh_refunds st) \<or> row_of_sale st w"
    "\<forall>s \<in> set (lo_sales (sh_loyalty st)). so_id s \<in> set F \<or> refunded_total st (so_id s) \<le> max 0 (so_total s)"
    "\<forall>l \<in> set (sh_lines st). sw_sale l \<in> set F \<or> returned_qty st (sw_sale l) (sw_id l) \<le> max 0 (sw_qty l)"
    using own_refunded_total [of _ F st] own_returned_qty [OF dist, of _ F] by (blast, metis, metis)
  then show ?thesis by (simp add: refunds_within_def list_all_iff)
qed

text \<open>The exception is real: a delivered refund may be larger than its sale.\<close>

definition large_refund :: refund_item where
  "large_refund = \<lparr>rfi_id = ''r9'', rfi_sale = ''s'', rfi_total = 500, rfi_currency = ''USD'', rfi_reason = ''other'', rfi_note = [],
     rfi_processed_by = ''u'', rfi_created_at = ''t1'', rfi_lines = []\<rparr>"

lemma delivered_refund_unchecked:
  "case book_step (Refund_Delivered (remote_demo_args ''m'') large_refund) (two_location_replica, []) of (st, foreign) \<Rightarrow>
     map so_total (lo_sales (sh_loyalty st)) = [400] \<and> refunded_total st ''s'' = 500 \<and> foreign = [''s'']"
  by code_simp

text \<open>
  C4. In any history of sales, refunds made here, refunds delivered from other terminals and other changes:
  of no sale is more money refunded than its total, of no sale line are more units returned than were sold,
  in all refunds together, and every returned unit is one of a line of the refunded sale, under its SKU.
  Excepted are the sales for which another terminal's refund was written, since a delivered refund is not
  checked again, and those whose total was changed after they were made.\<close>

theorem refunds_within_sale:
  "case run book_step es (empty_remote, []) of (st, foreign) \<Rightarrow> refunds_within foreign st"
  using refund_books.inv_run [of es] books_kept_within by (auto split: prod.split)

end
