(* ===== verification/Receipt_Code.thy ===== *)
theory Receipt_Code
  imports Tax_Rates "HOL-Library.Char_ord" "HOL-Library.List_Lexorder"
begin

section \<open>Receipt codes and statutory numbers\<close>

text \<open>
  Models \<open>crates/kasirmu-core/src/db/receipt_code.rs\<close> (index ids of locations, terminals and staff, the
  sequence of a terminal and the 22-character code made of them) and the number series of
  \<open>crates/kasirmu-core/src/db/fiscal.rs\<close>. Every operation runs inside the transaction of a sale, so an error
  carries no state. The shift of a time stamp into a time zone is the argument \<open>local_date\<close>, which yields
  \<open>YYMMDD\<close> and \<open>YYYY\<close>, or nothing for a text that is no time stamp. The listings of series and schemes are left out.
\<close>

subsection \<open>Tables\<close>

datatype entity_index_kind = Location | Terminal | User

fun index_kind_str :: "entity_index_kind \<Rightarrow> string" where
  "index_kind_str Location = ''location''"
| "index_kind_str Terminal = ''terminal''"
| "index_kind_str User = ''user''"

record indexed_row =
  ix_id :: string
  ix_tenant :: string
  ix_index :: "int option"

record series_row =
  se_id :: string
  se_entity :: string
  se_kind :: string
  se_prefix :: string
  se_current :: int
  se_reset :: string
  se_period :: string
  se_padding :: int
  se_created_at :: string
  se_updated_at :: string

text \<open>
  \<open>cs_zones\<close> holds time zone and legal entity of a location. The indexed tables of locations, terminals and
  users are kept by kind.
\<close>

record code_store =
  cs_entities :: "entity_index_kind \<Rightarrow> indexed_row list"
  cs_zones :: "(string \<times> string \<times> string option) list"
  cs_cursors :: "((string \<times> entity_index_kind) \<times> int) list"
  cs_tombstones :: "((string \<times> entity_index_kind \<times> int) \<times> string \<times> string \<times> string) list"
  cs_counters :: "((string \<times> string \<times> string) \<times> int) list"
  cs_series :: "series_row list"

subsection \<open>Index ids\<close>

definition index_id_max :: int where
  "index_id_max = 255"

definition index_id_none :: int where
  "index_id_none = 0"

fun hex_digits :: "nat \<Rightarrow> string" where
  "hex_digits n = (if n < 16 then [digit_char n] else hex_digits (n div 16) @ [digit_char (n mod 16)])"

declare hex_digits.simps [simp del]

text \<open>A negative number prints its two's complement.\<close>

definition index_hex :: "int \<Rightarrow> string" where
  "index_hex v = zero_pad 2 (hex_digits (nat (if v < 0 then v + 2 ^ 64 else v)))"

definition allocate_entity_index ::
    "string \<Rightarrow> entity_index_kind \<Rightarrow> code_store \<Rightarrow> core_error + int \<times> code_store" where
  "allocate_entity_index tenant kind st =
     (let next = (case map_of (cs_cursors st) (tenant, kind) of None \<Rightarrow> 2 | Some n \<Rightarrow> n + 1);
          allocated = next - 1
      in if allocated > index_id_max then Inl (Validation ''index_id'')
         else Inr (allocated, st\<lparr>cs_cursors := tab_update (tenant, kind) next (cs_cursors st)\<rparr>))"

definition retire_entity_index ::
    "string \<Rightarrow> entity_index_kind \<Rightarrow> int \<Rightarrow> string \<Rightarrow> string \<Rightarrow> string \<Rightarrow> code_store \<Rightarrow> code_store" where
  "retire_entity_index tenant kind i entity label now st =
     (if (tenant, kind, i) \<in> fst ` set (cs_tombstones st) then st
      else st\<lparr>cs_tombstones := cs_tombstones st @ [((tenant, kind, i), entity, label, now)]\<rparr>)"

definition retired_entity_label :: "code_store \<Rightarrow> string \<Rightarrow> entity_index_kind \<Rightarrow> int \<Rightarrow> string option" where
  "retired_entity_label st tenant kind i =
     map_option (\<lambda>(_, label, _). label) (map_of (cs_tombstones st) (tenant, kind, i))"

definition entity_index :: "code_store \<Rightarrow> string \<Rightarrow> entity_index_kind \<Rightarrow> string \<Rightarrow> int option" where
  "entity_index st tenant kind entity =
     Option.bind (List.find (\<lambda>r. ix_id r = entity \<and> ix_tenant r = tenant) (cs_entities st kind)) ix_index"

text \<open>The \<open>UPDATE\<close> names the id alone; an index is unique within a tenant.\<close>

definition set_entity_index :: "entity_index_kind \<Rightarrow> string \<Rightarrow> int \<Rightarrow> code_store \<Rightarrow> core_error + code_store" where
  "set_entity_index kind entity i st =
     (let rows = map (\<lambda>r. if ix_id r = entity then r\<lparr>ix_index := Some i\<rparr> else r) (cs_entities st kind)
      in if distinct (map (\<lambda>r. (ix_tenant r, ix_index r)) (filter (\<lambda>r. ix_index r \<noteq> None) rows))
         then Inr (st\<lparr>cs_entities := (cs_entities st)(kind := rows)\<rparr>) else Inl Db)"

definition ensure_entity_index ::
    "string \<Rightarrow> entity_index_kind \<Rightarrow> string \<Rightarrow> code_store \<Rightarrow> core_error + int \<times> code_store" where
  "ensure_entity_index tenant kind entity st =
     (case entity_index st tenant kind entity of
        Some i \<Rightarrow> Inr (i, st)
      | None \<Rightarrow>
          (case allocate_entity_index tenant kind st of
             Inl e \<Rightarrow> Inl e
           | Inr (i, st1) \<Rightarrow> (case set_entity_index kind entity i st1 of Inl e \<Rightarrow> Inl e | Inr st2 \<Rightarrow> Inr (i, st2))))"

subsection \<open>The code of a receipt\<close>

definition sequence_max :: int where
  "sequence_max = 999999"

text \<open>\<open>{:06}\<close> of an \<open>i64\<close>: a sign comes before the zeros.\<close>

definition pad_int :: "nat \<Rightarrow> int \<Rightarrow> string" where
  "pad_int w v = (if v < 0 then CHR ''-'' # zero_pad (w - 1) (show_nat (nat (- v))) else zero_pad w (show_nat (nat v)))"

definition assemble_receipt_code :: "int \<Rightarrow> int \<Rightarrow> string \<Rightarrow> int \<Rightarrow> int \<Rightarrow> string" where
  "assemble_receipt_code loc terminal yymmdd staff n =
     index_hex loc @ ''-'' @ index_hex terminal @ ''-'' @ yymmdd @ ''-'' @ index_hex staff @ ''-'' @ pad_int 6 n"

definition claim_receipt_sequence ::
    "string \<Rightarrow> string \<Rightarrow> string \<Rightarrow> code_store \<Rightarrow> core_error + int \<times> code_store" where
  "claim_receipt_sequence tenant terminal fiscal st =
     (let claimed = (case map_of (cs_counters st) (tenant, terminal, fiscal) of None \<Rightarrow> 1 | Some n \<Rightarrow> n + 1)
      in if claimed > sequence_max then Inl (Validation ''receipt_sequence'')
         else Inr (claimed, st\<lparr>cs_counters := tab_update (tenant, terminal, fiscal) claimed (cs_counters st)\<rparr>))"

definition split_once :: "char \<Rightarrow> string \<Rightarrow> (string \<times> string) option" where
  "split_once c s = (if c \<in> set s then Some (takeWhile (\<lambda>x. x \<noteq> c) s, tl (dropWhile (\<lambda>x. x \<noteq> c) s)) else None)"

definition eq_ignore_ascii_case :: "string \<Rightarrow> string \<Rightarrow> bool" where
  "eq_ignore_ascii_case s t \<longleftrightarrow> map to_ascii_uppercase s = map to_ascii_uppercase t"

definition offset_seconds :: "string \<Rightarrow> int option" where
  "offset_seconds zone =
     (let tz = trim zone
      in if tz = [] \<or> eq_ignore_ascii_case tz ''UTC'' \<or> eq_ignore_ascii_case tz ''Z'' then Some 0
         else (case (if starts_with tz ''+'' then Some (1, tl tz)
                     else if starts_with tz ''-'' then Some (- 1, tl tz) else None) of
             None \<Rightarrow> None
           | Some (sign, rest) \<Rightarrow>
               Option.bind (split_once CHR '':'' rest) (\<lambda>(hs, ms).
               Option.bind (parse_i64 hs) (\<lambda>h.
               Option.bind (parse_i64 ms) (\<lambda>m.
                 if h < 0 \<or> 14 < h \<or> m < 0 \<or> 59 < m then None else Some (sign * (h * 3600 + m * 60)))))))"

definition resolve_receipt_date ::
    "(string \<Rightarrow> int \<Rightarrow> (string \<times> string) option) \<Rightarrow> string \<Rightarrow> string \<Rightarrow> core_error + string \<times> string" where
  "resolve_receipt_date local_date now zone =
     (let secs = (case offset_seconds zone of None \<Rightarrow> 0 | Some s \<Rightarrow> s)
      in case local_date now secs of
           None \<Rightarrow> Inl (Validation ''receipt_date'')
         | Some (yymmdd, fiscal) \<Rightarrow>
             if secs \<le> - 86400 \<or> 86400 \<le> secs then Inl (Validation ''receipt_date'') else Inr (yymmdd, fiscal))"

definition mint_receipt_code ::
    "(string \<Rightarrow> int \<Rightarrow> (string \<times> string) option) \<Rightarrow> string \<Rightarrow> string \<Rightarrow> string option \<Rightarrow> string \<Rightarrow> string
       \<Rightarrow> code_store \<Rightarrow> core_error + (string option \<times> string option) \<times> code_store" where
  "mint_receipt_code local_date tenant location terminal staff now st =
     (case (if staff = [] then Inr (index_id_none, st) else ensure_entity_index tenant User staff st) of
        Inl e \<Rightarrow> Inl e
      | Inr (staff_idx, st1) \<Rightarrow>
          (case ensure_entity_index tenant Location location st1 of
             Inl e \<Rightarrow> Inl e
           | Inr (loc_idx, st2) \<Rightarrow>
               (case terminal of
                  None \<Rightarrow> Inr ((None, None), st2)
                | Some t \<Rightarrow>
                    (case ensure_entity_index tenant Terminal t st2 of
                       Inl e \<Rightarrow> Inl e
                     | Inr (term_idx, st3) \<Rightarrow>
                         (case resolve_receipt_date local_date now
                             (case map_of (cs_zones st3) location of None \<Rightarrow> ''UTC'' | Some (zone, _) \<Rightarrow> zone) of
                            Inl e \<Rightarrow> Inl e
                          | Inr (yymmdd, fiscal) \<Rightarrow>
                              (case claim_receipt_sequence tenant (index_hex term_idx) fiscal st3 of
                                 Inl e \<Rightarrow> Inl e
                               | Inr (n, st4) \<Rightarrow>
                                   Inr ((Some (assemble_receipt_code loc_idx term_idx yymmdd staff_idx n), Some t), st4)))))))"


subsection \<open>Statutory series\<close>

datatype document_kind = Receipt | Invoice

fun document_kind_str :: "document_kind \<Rightarrow> string" where
  "document_kind_str Receipt = ''receipt''"
| "document_kind_str Invoice = ''invoice''"

definition parse_document_kind :: "string \<Rightarrow> core_error + document_kind" where
  "parse_document_kind raw =
     (if eq_ignore_ascii_case raw ''receipt'' then Inr Receipt
      else if eq_ignore_ascii_case raw ''invoice'' then Inr Invoice
      else Inl (Validation ''document_kind''))"

datatype reset_period = Never | Daily | Monthly | Yearly

fun reset_period_str :: "reset_period \<Rightarrow> string" where
  "reset_period_str Never = ''never''"
| "reset_period_str Daily = ''daily''"
| "reset_period_str Monthly = ''monthly''"
| "reset_period_str Yearly = ''yearly''"

definition parse_reset_period :: "string \<Rightarrow> core_error + reset_period" where
  "parse_reset_period raw =
     (if eq_ignore_ascii_case raw ''never'' then Inr Never
      else if eq_ignore_ascii_case raw ''daily'' then Inr Daily
      else if eq_ignore_ascii_case raw ''monthly'' then Inr Monthly
      else if eq_ignore_ascii_case raw ''yearly'' then Inr Yearly
      else Inl (Validation ''reset_period''))"

text \<open>\<open>now.get(..n)\<close>, or the empty string.\<close>

definition head_of :: "nat \<Rightarrow> string \<Rightarrow> string" where
  "head_of n s = (if n \<le> length s \<and> char_boundary s n then take n s else [])"

fun period_key_for :: "reset_period \<Rightarrow> string \<Rightarrow> string" where
  "period_key_for Never now = []"
| "period_key_for Daily now = head_of 10 now"
| "period_key_for Monthly now = head_of 7 now"
| "period_key_for Yearly now = head_of 4 now"

text \<open>\<open>entities\<close> are the legal entities, which a series refers to.\<close>

definition upsert_document_number_sequence ::
    "string list \<Rightarrow> string \<Rightarrow> string \<Rightarrow> string \<Rightarrow> string \<Rightarrow> reset_period \<Rightarrow> int \<Rightarrow> string \<Rightarrow> code_store \<Rightarrow> core_error + code_store" where
  "upsert_document_number_sequence entities fresh entity raw_kind prefix reset padding now st =
     (case parse_document_kind raw_kind of
        Inl e \<Rightarrow> Inl e
      | Inr kind \<Rightarrow>
          if padding < 0 then Inl (Validation ''padding'')
          else if entity \<notin> set entities \<or> fresh \<in> se_id ` set (cs_series st) then Inl Db
          else if list_ex (\<lambda>s. se_entity s = entity \<and> se_kind s = document_kind_str kind) (cs_series st)
          then Inr (st\<lparr>cs_series := map (\<lambda>s. if se_entity s = entity \<and> se_kind s = document_kind_str kind
                 then s\<lparr>se_prefix := prefix, se_reset := reset_period_str reset, se_padding := padding, se_updated_at := now\<rparr>
                 else s) (cs_series st)\<rparr>)
          else Inr (st\<lparr>cs_series := cs_series st @ [\<lparr>se_id = fresh, se_entity = entity, se_kind = document_kind_str kind,
                 se_prefix = prefix, se_current = 0, se_reset = reset_period_str reset, se_period = period_key_for reset now,
                 se_padding = padding, se_created_at = now, se_updated_at = now\<rparr>]\<rparr>))"

definition document_number_sequence :: "code_store \<Rightarrow> string \<Rightarrow> string \<Rightarrow> core_error + series_row option" where
  "document_number_sequence st entity raw_kind =
     (case parse_document_kind raw_kind of
        Inl e \<Rightarrow> Inl e
      | Inr kind \<Rightarrow> Inr (List.find (\<lambda>s. se_entity s = entity \<and> se_kind s = document_kind_str kind) (cs_series st)))"

definition issue :: "reset_period \<Rightarrow> string \<Rightarrow> string \<Rightarrow> series_row \<Rightarrow> series_row" where
  "issue reset bucket now s =
     s\<lparr>se_current := (if se_period s = bucket then se_current s + 1 else 1), se_period := bucket, se_updated_at := now\<rparr>"

definition number_text :: "reset_period \<Rightarrow> string \<Rightarrow> series_row \<Rightarrow> string" where
  "number_text reset bucket s =
     (let n = zero_pad (nat (se_padding s)) (show_int (se_current s))
      in if reset = Never then se_prefix s @ n else se_prefix s @ bucket @ ''/'' @ n)"

text \<open>
  The number is stamped on the row of the sale by the caller here. The entity is read as text, so a location
  without one is an error.
\<close>

definition claim_statutory_number_for_sale ::
    "string \<Rightarrow> string \<Rightarrow> string \<Rightarrow> code_store \<Rightarrow> core_error + string option \<times> code_store" where
  "claim_statutory_number_for_sale location raw_kind now st =
     (case map_of (cs_zones st) location of
        None \<Rightarrow> Inr (None, st)
      | Some (_, None) \<Rightarrow> Inl Db
      | Some (_, Some entity) \<Rightarrow>
          (case document_number_sequence st entity raw_kind of
             Inl e \<Rightarrow> Inl e
           | Inr None \<Rightarrow> Inr (None, st)
           | Inr (Some s) \<Rightarrow>
               (case parse_reset_period (se_reset s) of
                  Inl e \<Rightarrow> Inl e
                | Inr reset \<Rightarrow>
                    (let bucket = period_key_for reset now
                     in Inr (Some (number_text reset bucket (issue reset bucket now s)),
                             st\<lparr>cs_series := map (\<lambda>r. if se_id r = se_id s then issue reset bucket now r else r)
                                  (cs_series st)\<rparr>)))))"

subsection \<open>Texts of index ids and sequences\<close>

lemma length_hex_digits: "n < 16 ^ Suc k \<Longrightarrow> length (hex_digits n) \<le> Suc k"
proof (induction k arbitrary: n)
  case 0
  then show ?case by (simp add: hex_digits.simps [of n])
next
  case (Suc k)
  have "n div 16 < 16 ^ Suc k" using Suc.prems by (simp add: less_mult_imp_div_less mult.commute)
  then show ?case using Suc.IH [of "n div 16"] by (simp add: hex_digits.simps [of n])
qed

lemma length_index_hex: "0 \<le> v \<Longrightarrow> v \<le> 255 \<Longrightarrow> length (index_hex v) = 2"
proof -
  assume v: "0 \<le> v" "v \<le> 255"
  then have "nat v < 16 ^ Suc 1" by simp
  then have "length (hex_digits (nat v)) \<le> 2" using length_hex_digits [of "nat v" 1] by (simp only: numeral_2_eq_2 One_nat_def)
  then show ?thesis using v by (simp add: index_hex_def max_def)
qed

lemma length_sequence: "0 \<le> n \<Longrightarrow> n \<le> sequence_max \<Longrightarrow> length (pad_int 6 n) = 6"
proof -
  assume n: "0 \<le> n" "n \<le> sequence_max"
  then have "nat n < 10 ^ Suc 5" by (simp add: sequence_max_def)
  then have "length (show_nat (nat n)) \<le> 6" using length_show_nat [of "nat n" 5] by simp
  then show ?thesis using n by (simp add: pad_int_def max_def)
qed

lemma zero_pad_inj: "zero_pad w (show_nat m) = zero_pad w (show_nat n) \<Longrightarrow> m = n"
  using digits_val_zero_pad [of w m] digits_val_zero_pad [of w n] by (metis option.inject)

lemma pad_int_inj: "0 \<le> m \<Longrightarrow> 0 \<le> n \<Longrightarrow> pad_int w m = pad_int w n \<Longrightarrow> m = n"
  by (auto simp: pad_int_def dest: zero_pad_inj)

lemma zero_pad_show_int_inj:
  "0 \<le> m \<Longrightarrow> 0 \<le> n \<Longrightarrow> zero_pad w (show_int m) = zero_pad w (show_int n) \<Longrightarrow> m = n"
  by (auto simp: show_int_def dest: zero_pad_inj)

subsection \<open>No code twice\<close>

definition index_ok :: "int \<Rightarrow> bool" where
  "index_ok i \<longleftrightarrow> 0 \<le> i \<and> i \<le> index_id_max"

lemma assemble_receipt_code_inj:
  assumes "assemble_receipt_code l t d s n = assemble_receipt_code l' t' d' s' n'"
    and "index_ok l" "index_ok t" "index_ok s" "index_ok l'" "index_ok t'" "index_ok s'"
    and "length d = 6" "length d' = 6" "0 \<le> n" "0 \<le> n'"
  shows "index_hex t = index_hex t' \<and> d = d' \<and> n = n'"
proof -
  have len: "length (index_hex i) = 2" if "index_ok i" for i
    using that length_index_hex by (simp add: index_ok_def index_id_max_def)
  have "index_hex t = index_hex t' \<and> d = d' \<and> pad_int 6 n = pad_int 6 n'"
    using assms(1) by (simp add: assemble_receipt_code_def append_eq_append_conv assms len)
  then show ?thesis using pad_int_inj assms by blast
qed

lemma length_receipt_code:
  assumes "index_ok l" "index_ok t" "index_ok s" "length d = 6" "0 \<le> n" "n \<le> sequence_max"
  shows "length (assemble_receipt_code l t d s n) = 22"
  using assms length_index_hex by (simp add: assemble_receipt_code_def length_sequence index_ok_def index_id_max_def)

definition codes_ok :: "code_store \<Rightarrow> bool" where
  "codes_ok st \<longleftrightarrow> (\<forall>kind. \<forall>r \<in> set (cs_entities st kind). \<forall>i. ix_index r = Some i \<longrightarrow> index_ok i)
     \<and> (\<forall>c \<in> set (cs_cursors st). 1 \<le> snd c) \<and> (\<forall>c \<in> set (cs_counters st). 0 \<le> snd c)"

definition counter :: "code_store \<Rightarrow> string \<times> string \<times> string \<Rightarrow> int" where
  "counter st k = (case map_of (cs_counters st) k of None \<Rightarrow> 0 | Some n \<Rightarrow> n)"

lemma ball_tab_update: "\<forall>c \<in> set t. P (snd c) \<Longrightarrow> P v \<Longrightarrow> \<forall>c \<in> set (tab_update k v t). P (snd c)"
  by (induction k v t rule: tab_update.induct) auto

lemma ensure_entity_index_Inr:
  assumes "ensure_entity_index tenant kind entity st = Inr (i, st')" and "codes_ok st"
  shows "index_ok i" "codes_ok st'" "cs_counters st' = cs_counters st" "cs_zones st' = cs_zones st" "cs_series st' = cs_series st"
proof -
  consider (old) "entity_index st tenant kind entity = Some i" "st' = st"
    | (new) st1 where "entity_index st tenant kind entity = None" "allocate_entity_index tenant kind st = Inr (i, st1)"
        "set_entity_index kind entity i st1 = Inr st'"
    using assms(1) by (auto simp: ensure_entity_index_def split: option.splits sum.splits)
  then have "index_ok i \<and> codes_ok st' \<and> cs_counters st' = cs_counters st \<and> cs_zones st' = cs_zones st \<and> cs_series st' = cs_series st"
  proof cases
    case old
    then obtain r where "List.find (\<lambda>r. ix_id r = entity \<and> ix_tenant r = tenant) (cs_entities st kind) = Some r" "ix_index r = Some i"
      by (auto simp: entity_index_def bind_eq_Some_conv)
    then have "r \<in> set (cs_entities st kind)" "ix_index r = Some i" by (auto simp: find_Some_iff)
    then show ?thesis using assms(2) old(2) by (auto simp: codes_ok_def)
  next
    case new
    define n where "n = (case map_of (cs_cursors st) (tenant, kind) of None \<Rightarrow> 2 | Some n \<Rightarrow> n + 1)"
    have "2 \<le> n" using assms(2) by (force simp: n_def codes_ok_def split: option.split dest: map_of_SomeD)
    moreover have i: "i = n - 1" "i \<le> index_id_max" "st1 = st\<lparr>cs_cursors := tab_update (tenant, kind) n (cs_cursors st)\<rparr>"
      using new(2) by (auto simp: allocate_entity_index_def Let_def simp flip: n_def split: if_splits)
    ultimately have ok: "index_ok i" "codes_ok st1"
      using assms(2) ball_tab_update [of "cs_cursors st" "\<lambda>v. 1 \<le> v" n] by (simp_all add: index_ok_def codes_ok_def)
    obtain rows where rows: "rows = map (\<lambda>r. if ix_id r = entity then r\<lparr>ix_index := Some i\<rparr> else r) (cs_entities st1 kind)"
        "st' = st1\<lparr>cs_entities := (cs_entities st1)(kind := rows)\<rparr>"
      using new(3) by (auto simp: set_entity_index_def Let_def split: if_splits)
    have "\<forall>r \<in> set rows. \<forall>j. ix_index r = Some j \<longrightarrow> index_ok j"
      using ok by (auto simp: rows(1) codes_ok_def)
    then have "codes_ok st'" using ok(2) by (simp add: rows(2) codes_ok_def)
    then show ?thesis using ok(1) by (simp add: rows(2) i(3))
  qed
  then show "index_ok i" "codes_ok st'" "cs_counters st' = cs_counters st" "cs_zones st' = cs_zones st" "cs_series st' = cs_series st"
    by blast+
qed

lemma mint_Inr:
  assumes "mint_receipt_code local_date tenant location terminal staff now st = Inr ((minted, t), st')" and "codes_ok st"
  obtains (unknown) "terminal = None" "minted = None" "codes_ok st'" "cs_counters st' = cs_counters st"
  | (coded) l i d s n y z where "minted = Some (assemble_receipt_code l i d s n)"
    "index_ok l" "index_ok i" "index_ok s" "local_date now z = Some (d, y)"
    "n = counter st (tenant, index_hex i, y) + 1" "1 \<le> n" "n \<le> sequence_max" "codes_ok st'"
    "cs_counters st' = tab_update (tenant, index_hex i, y) n (cs_counters st)"
proof -
  obtain s st1 where 1: "(if staff = [] then Inr (index_id_none, st) else ensure_entity_index tenant User staff st) = Inr (s, st1)"
    using assms(1) by (auto simp: mint_receipt_code_def split: sum.splits prod.splits)
  have st1: "index_ok s" "codes_ok st1" "cs_counters st1 = cs_counters st"
    using 1 assms(2) ensure_entity_index_Inr [OF _ assms(2)]
    by (auto simp: index_ok_def index_id_none_def index_id_max_def split: if_splits)
  obtain l st2 where 2: "ensure_entity_index tenant Location location st1 = Inr (l, st2)"
    using assms(1) 1 by (auto simp: mint_receipt_code_def split: sum.splits prod.splits)
  have st2: "index_ok l" "codes_ok st2" "cs_counters st2 = cs_counters st"
    using ensure_entity_index_Inr [OF 2 st1(2)] st1(3) by simp_all
  show ?thesis
  proof (cases terminal)
    case None
    then have "minted = None" "st' = st2" using assms(1) 1 2 by (simp_all add: mint_receipt_code_def)
    with None st2 show ?thesis by (intro unknown) simp_all
  next
    case (Some tm)
    obtain i st3 where 3: "ensure_entity_index tenant Terminal tm st2 = Inr (i, st3)"
      using assms(1) 1 2 Some by (auto simp: mint_receipt_code_def split: sum.splits prod.splits)
    have st3: "index_ok i" "codes_ok st3" "cs_counters st3 = cs_counters st"
      using ensure_entity_index_Inr [OF 3 st2(2)] st2(3) by simp_all
    define zone where "zone = (case map_of (cs_zones st3) location of None \<Rightarrow> ''UTC'' | Some (zone, _) \<Rightarrow> zone)"
    obtain d y n where 4: "resolve_receipt_date local_date now zone = Inr (d, y)"
        "claim_receipt_sequence tenant (index_hex i) y st3 = Inr (n, st')" "minted = Some (assemble_receipt_code l i d s n)"
      using assms(1) 1 2 3 Some by (auto simp: mint_receipt_code_def simp flip: zone_def split: sum.splits prod.splits)
    obtain z where z: "local_date now z = Some (d, y)"
      using 4(1) by (auto simp: resolve_receipt_date_def Let_def split: option.splits if_splits)
    have n: "n = counter st (tenant, index_hex i, y) + 1" "n \<le> sequence_max"
        "st' = st3\<lparr>cs_counters := tab_update (tenant, index_hex i, y) n (cs_counters st3)\<rparr>"
      using 4(2) st3(3) by (auto simp: claim_receipt_sequence_def counter_def Let_def split: if_splits option.splits)
    have "1 \<le> n" using assms(2) by (force simp: n(1) counter_def codes_ok_def split: option.split dest: map_of_SomeD)
    moreover have "codes_ok st'" using st3(2) ball_tab_update [of "cs_counters st3" "\<lambda>v. 0 \<le> v" n] \<open>1 \<le> n\<close>
      by (simp add: n(3) codes_ok_def)
    ultimately show ?thesis using 4(3) st2(1) st3 st1(1) z n by (intro coded [of l i d s n z y]) simp_all
  qed
qed


text \<open>
  A run of checkouts that ask for a code. One whose transaction does not commit leaves no trace, whether its code was
  refused or something else went wrong afterwards.
\<close>

record mint_event =
  me_location :: string
  me_terminal :: "string option"
  me_staff :: string
  me_now :: string
  me_commits :: bool

fun mint_all ::
    "(string \<Rightarrow> int \<Rightarrow> (string \<times> string) option) \<Rightarrow> string \<Rightarrow> mint_event list \<Rightarrow> code_store \<Rightarrow> string list \<times> code_store" where
  "mint_all local_date tenant [] st = ([], st)"
| "mint_all local_date tenant (e # es) st =
     (case mint_receipt_code local_date tenant (me_location e) (me_terminal e) (me_staff e) (me_now e) st of
        Inl _ \<Rightarrow> mint_all local_date tenant es st
      | Inr ((c, _), st') \<Rightarrow>
          if me_commits e
          then (case mint_all local_date tenant es st' of (cs, st'') \<Rightarrow> (case c of None \<Rightarrow> (cs, st'') | Some t \<Rightarrow> (t # cs, st'')))
          else mint_all local_date tenant es st)"

text \<open>
  What the history needs of its dates: the issue date has six characters, and \<open>YYMMDD\<close> names one year among the
  local dates of the times \<open>ts\<close>. It does when they lie less than a hundred years apart.
\<close>

definition dates_ok :: "(string \<Rightarrow> int \<Rightarrow> (string \<times> string) option) \<Rightarrow> string list \<Rightarrow> bool" where
  "dates_ok local_date ts \<longleftrightarrow> (\<forall>t\<in>set ts. \<forall>z d y. local_date t z = Some (d, y) \<longrightarrow> length d = 6)
     \<and> (\<forall>t\<in>set ts. \<forall>t'\<in>set ts. \<forall>z z' d y y'.
          local_date t z = Some (d, y) \<longrightarrow> local_date t' z' = Some (d, y') \<longrightarrow> y = y')"

lemma dates_okD:
  assumes "dates_ok local_date ts" and "t \<in> set ts" and "local_date t z = Some (d, y)"
  shows "length d = 6" "t' \<in> set ts \<Longrightarrow> local_date t' z' = Some (d, y') \<Longrightarrow> y' = y"
  using assms unfolding dates_ok_def by blast+

text \<open>The codes that can still be handed out: their sequence is beyond the counter of terminal and year.\<close>

definition ahead ::
    "(string \<Rightarrow> int \<Rightarrow> (string \<times> string) option) \<Rightarrow> string list \<Rightarrow> string \<Rightarrow> code_store \<Rightarrow> string \<Rightarrow> bool" where
  "ahead local_date ts tenant st c \<longleftrightarrow> (\<exists>l i d s n y z now. c = assemble_receipt_code l i d s n \<and> index_ok l \<and> index_ok i \<and> index_ok s
     \<and> now \<in> set ts \<and> local_date now z = Some (d, y) \<and> counter st (tenant, index_hex i, y) < n \<and> 1 \<le> n \<and> n \<le> sequence_max)"

lemma aheadE:
  assumes "ahead local_date ts tenant st c"
  obtains l i d s n y z now where "c = assemble_receipt_code l i d s n" "index_ok l" "index_ok i" "index_ok s"
    "now \<in> set ts" "local_date now z = Some (d, y)" "counter st (tenant, index_hex i, y) < n" "1 \<le> n" "n \<le> sequence_max"
  using assms unfolding ahead_def by blast

lemma counter_tab:
  assumes "cs_counters st' = tab_update k n (cs_counters st)"
  shows "counter st' = (counter st)(k := n)"
  using assms by (simp add: counter_def fun_eq_iff)

lemma mint_ahead:
  assumes "dates_ok local_date ts" and "now \<in> set ts"
    and "mint_receipt_code local_date tenant location terminal staff now st = Inr ((c, t), st')" and "codes_ok st"
  shows "ahead local_date ts tenant st' x \<Longrightarrow> ahead local_date ts tenant st x"
    and "c = Some x \<Longrightarrow> ahead local_date ts tenant st x \<and> \<not> ahead local_date ts tenant st' x"
    and "codes_ok st'"
proof -
  have "(ahead local_date ts tenant st' x \<longrightarrow> ahead local_date ts tenant st x)
    \<and> (c = Some x \<longrightarrow> ahead local_date ts tenant st x \<and> \<not> ahead local_date ts tenant st' x) \<and> codes_ok st'"
    using assms(3,4)
  proof (cases rule: mint_Inr)
    case unknown
    then show ?thesis by (simp add: ahead_def counter_def)
  next
    case (coded l i d s n y z)
    note tab = counter_tab [OF coded(10)]
    have less: "counter st k \<le> counter st' k" for k using coded(6) by (simp add: tab)
    have mono: "ahead local_date ts tenant st x" if "ahead local_date ts tenant st' x" for x
    proof -
      obtain l' i' d' s' n' y' z' now' where o: "x = assemble_receipt_code l' i' d' s' n'" "index_ok l'" "index_ok i'" "index_ok s'"
          "now' \<in> set ts" "local_date now' z' = Some (d', y')" "counter st' (tenant, index_hex i', y') < n'" "1 \<le> n'" "n' \<le> sequence_max"
        using \<open>ahead local_date ts tenant st' x\<close> by (rule aheadE)
      have "counter st (tenant, index_hex i', y') < n'" using less o(7) by (rule order.strict_trans1)
      with o show ?thesis unfolding ahead_def by blast
    qed
    have "\<not> ahead local_date ts tenant st' (assemble_receipt_code l i d s n)"
    proof
      assume "ahead local_date ts tenant st' (assemble_receipt_code l i d s n)"
      then obtain l' i' d' s' n' y' z' now' where o: "assemble_receipt_code l i d s n = assemble_receipt_code l' i' d' s' n'"
          "index_ok l'" "index_ok i'" "index_ok s'" "now' \<in> set ts" "local_date now' z' = Some (d', y')"
          "counter st' (tenant, index_hex i', y') < n'" "1 \<le> n'"
        unfolding ahead_def by blast
      have lens: "length d = 6" "length d' = 6" using dates_okD(1) [OF assms(1,2) coded(5)] dates_okD(1) [OF assms(1) o(5,6)] by blast+
      have same: "index_hex i = index_hex i' \<and> d = d' \<and> n = n'"
        by (rule assemble_receipt_code_inj [OF o(1) coded(2-4) o(2-4) lens]) (use coded(7) o(8) in simp_all)
      then have "y = y'" using dates_okD(2) [OF assms(1,2) coded(5) o(5)] o(6) by metis
      then show False using o(7) same by (simp add: tab)
    qed
    moreover have "ahead local_date ts tenant st (assemble_receipt_code l i d s n)"
      unfolding ahead_def using coded assms(2) by (intro exI [of _ l] exI [of _ i] exI [of _ d] exI [of _ s] exI [of _ n] exI [of _ y] exI [of _ z] exI [of _ now]) simp
    ultimately show ?thesis using mono coded(1,9) by auto
  qed
  then show "ahead local_date ts tenant st' x \<Longrightarrow> ahead local_date ts tenant st x"
    "c = Some x \<Longrightarrow> ahead local_date ts tenant st x \<and> \<not> ahead local_date ts tenant st' x" "codes_ok st'"
    by blast+
qed

lemma mint_all_ahead:
  assumes "dates_ok local_date ts"
  shows "codes_ok st \<Longrightarrow> me_now ` set es \<subseteq> set ts \<Longrightarrow> distinct (fst (mint_all local_date tenant es st))
    \<and> (\<forall>x \<in> set (fst (mint_all local_date tenant es st)). ahead local_date ts tenant st x)"
proof (induction es arbitrary: st)
  case (Cons e es)
  show ?case
  proof (cases "mint_receipt_code local_date tenant (me_location e) (me_terminal e) (me_staff e) (me_now e) st")
    case (Inl a)
    then show ?thesis using Cons.IH [OF Cons.prems(1)] Cons.prems(2) by simp
  next
    case (Inr r)
    obtain c t st' where r: "r = ((c, t), st')" by (cases r) auto
    have "me_now e \<in> set ts" using Cons.prems(2) by simp
    note m = mint_ahead [OF assms this Inr [unfolded r] Cons.prems(1)]
    obtain cs st'' where cs: "mint_all local_date tenant es st' = (cs, st'')" by (cases "mint_all local_date tenant es st'")
    have rest: "distinct cs" "\<forall>x \<in> set cs. ahead local_date ts tenant st' x" using Cons.IH [OF m(3)] Cons.prems(2) cs by simp_all
    show ?thesis
    proof (cases "me_commits e")
      case True
      then show ?thesis using Inr r cs rest m(1,2) by (cases c) auto
    next
      case False
      then show ?thesis using Inr r Cons.IH [OF Cons.prems(1)] Cons.prems(2) by simp
    qed
  qed
qed simp

text \<open>
  C30. No receipt code is given out twice within a hundred years: in any history of checkouts at any
  locations, terminals and by any staff, with any of them rolled back, whose local dates with the same
  \<open>YYMMDD\<close> are of the same year, the codes of the sales that were committed are pairwise different and
  have 22 characters.\<close>

theorem receipt_codes_distinct:
  assumes "dates_ok local_date (map me_now es)" and "codes_ok st"
  shows "distinct (fst (mint_all local_date tenant es st)) \<and> (\<forall>c \<in> set (fst (mint_all local_date tenant es st)). length c = 22)"
proof -
  let ?ts = "map me_now es"
  have len: "length c = 22" if "ahead local_date ?ts tenant st c" for c
  proof -
    obtain l i d s n y z now where o: "c = assemble_receipt_code l i d s n" "index_ok l" "index_ok i" "index_ok s"
        "now \<in> set ?ts" "local_date now z = Some (d, y)" "1 \<le> n" "n \<le> sequence_max"
      using \<open>ahead local_date ?ts tenant st c\<close> by (rule aheadE)
    moreover have "length d = 6" by (rule dates_okD(1) [OF assms(1) o(5,6)])
    ultimately show ?thesis by (simp add: length_receipt_code)
  qed
  have "me_now ` set es \<subseteq> set ?ts" by simp
  then show ?thesis using mint_all_ahead [OF assms] len by blast
qed

subsection \<open>A location without a row\<close>

text \<open>
  The checkout asks with the id of an inventory location, while the index ids are kept with the
  store locations. An id that has no row there is given a new index each time, for there is no row to keep it.
\<close>

definition known_location :: "code_store \<Rightarrow> string \<Rightarrow> string \<Rightarrow> bool" where
  "known_location st tenant l \<longleftrightarrow> list_ex (\<lambda>r. ix_id r = l \<and> ix_tenant r = tenant) (cs_entities st Location)"

definition location_cursor :: "code_store \<Rightarrow> string \<Rightarrow> int" where
  "location_cursor st tenant = (case map_of (cs_cursors st) (tenant, Location) of None \<Rightarrow> 1 | Some n \<Rightarrow> n)"

lemma known_map: "list_ex (\<lambda>r. ix_id r = l \<and> ix_tenant r = t) (map (\<lambda>r. if ix_id r = e then r\<lparr>ix_index := i\<rparr> else r) rs)
    = list_ex (\<lambda>r. ix_id r = l \<and> ix_tenant r = t) rs"
  by (induction rs) auto

lemma ensure_known:
  assumes "ensure_entity_index tenant kind entity st = Inr (i, st')"
  shows "known_location st' t l = known_location st t l"
    and "kind \<noteq> Location \<Longrightarrow> location_cursor st' tenant = location_cursor st tenant"
    and "kind = Location \<Longrightarrow> \<not> known_location st tenant entity
      \<Longrightarrow> location_cursor st' tenant = location_cursor st tenant + 1 \<and> location_cursor st' tenant \<le> index_id_max + 1"
proof -
  have "known_location st' t l = known_location st t l \<and> (kind \<noteq> Location \<longrightarrow> location_cursor st' tenant = location_cursor st tenant)
    \<and> (kind = Location \<longrightarrow> \<not> known_location st tenant entity
      \<longrightarrow> location_cursor st' tenant = location_cursor st tenant + 1 \<and> location_cursor st' tenant \<le> index_id_max + 1)"
  proof (cases "entity_index st tenant kind entity")
    case None
    then obtain st1 where st1: "allocate_entity_index tenant kind st = Inr (i, st1)" "set_entity_index kind entity i st1 = Inr st'"
      using assms by (auto simp: ensure_entity_index_def split: sum.splits)
    then show ?thesis
      by (auto simp: allocate_entity_index_def set_entity_index_def known_location_def location_cursor_def Let_def known_map
          split: if_splits option.splits)
  next
    case (Some j)
    then have "known_location st tenant entity" if "kind = Location"
      using that by (auto simp: entity_index_def known_location_def bind_eq_Some_conv list_ex_iff find_Some_iff)
    then show ?thesis using Some assms by (auto simp: ensure_entity_index_def)
  qed
  then show "known_location st' t l = known_location st t l"
    "kind \<noteq> Location \<Longrightarrow> location_cursor st' tenant = location_cursor st tenant"
    "kind = Location \<Longrightarrow> \<not> known_location st tenant entity
      \<Longrightarrow> location_cursor st' tenant = location_cursor st tenant + 1 \<and> location_cursor st' tenant \<le> index_id_max + 1"
    by blast+
qed

lemma claim_sequence_entities:
  "claim_receipt_sequence tenant i y st = Inr (n, st') \<Longrightarrow> known_location st' t l = known_location st t l"
  "claim_receipt_sequence tenant i y st = Inr (n, st') \<Longrightarrow> location_cursor st' t = location_cursor st t"
  by (auto simp: claim_receipt_sequence_def known_location_def location_cursor_def Let_def split: if_splits)

lemma mint_unknown_location:
  assumes "mint_receipt_code local_date tenant location terminal staff now st = Inr (r, st')" and "\<not> known_location st tenant location"
  shows "location_cursor st' tenant = location_cursor st tenant + 1" "location_cursor st' tenant \<le> index_id_max + 1"
    and "known_location st' t l = known_location st t l"
proof -
  obtain s st1 where 1: "(if staff = [] then Inr (index_id_none, st) else ensure_entity_index tenant User staff st) = Inr (s, st1)"
    using assms(1) by (auto simp: mint_receipt_code_def split: sum.splits prod.splits)
  have st1: "known_location st1 t l = known_location st t l" "location_cursor st1 tenant = location_cursor st tenant" for t l
    using 1 ensure_known(1,2) by (auto split: if_splits)
  obtain l' st2 where 2: "ensure_entity_index tenant Location location st1 = Inr (l', st2)"
    using assms(1) 1 by (auto simp: mint_receipt_code_def split: sum.splits prod.splits)
  have st2: "known_location st2 t l = known_location st t l"
      "location_cursor st2 tenant = location_cursor st tenant + 1" "location_cursor st2 tenant \<le> index_id_max + 1" for t l
    using ensure_known(1) [OF 2] ensure_known(3) [OF 2 refl] st1 assms(2) by simp_all
  have "known_location st' t l = known_location st2 t l \<and> location_cursor st' tenant = location_cursor st2 tenant" for t l
  proof (cases terminal)
    case None
    then show ?thesis using assms(1) 1 2 by (simp add: mint_receipt_code_def)
  next
    case (Some tm)
    obtain i st3 where 3: "ensure_entity_index tenant Terminal tm st2 = Inr (i, st3)"
      using assms(1) 1 2 Some by (auto simp: mint_receipt_code_def split: sum.splits prod.splits)
    obtain y n where 4: "claim_receipt_sequence tenant (index_hex i) y st3 = Inr (n, st')"
      using assms(1) 1 2 3 Some by (auto simp: mint_receipt_code_def split: sum.splits prod.splits)
    show ?thesis using claim_sequence_entities [OF 4] ensure_known(1,2) [OF 3] by simp
  qed
  then show "location_cursor st' tenant = location_cursor st tenant + 1" "location_cursor st' tenant \<le> index_id_max + 1"
    "known_location st' t l = known_location st t l"
    using st2 by simp_all
qed

lemma codes_of_unknown_location:
  assumes "\<forall>e \<in> set es. \<not> known_location st tenant (me_location e)"
  shows "int (length (fst (mint_all local_date tenant es st))) \<le> max 0 (index_id_max + 1 - location_cursor st tenant)"
  using assms
proof (induction es arbitrary: st)
  case (Cons e es)
  have rest: "int (length (fst (mint_all local_date tenant es st))) \<le> max 0 (index_id_max + 1 - location_cursor st tenant)"
    using Cons by simp
  show ?case
  proof (cases "mint_receipt_code local_date tenant (me_location e) (me_terminal e) (me_staff e) (me_now e) st")
    case (Inr r)
    obtain c t st' where r: "r = ((c, t), st')" by (cases r) auto
    have unknown: "\<not> known_location st tenant (me_location e)" using Cons.prems by simp
    note m = mint_unknown_location [OF Inr [unfolded r] unknown]
    have "int (length (fst (mint_all local_date tenant es st'))) \<le> max 0 (index_id_max + 1 - location_cursor st' tenant)"
      using Cons by (simp add: m(3))
    then show ?thesis using Inr r rest m(1,2) by (auto split: prod.split option.split)
  qed (use rest in simp)
qed simp

text \<open>
  At locations without a row among the store locations, and no inventory location has one, each checkout uses
  up an index id: no more than 255 codes are ever given out there, and every checkout after that is refused.\<close>

theorem unknown_location_exhausts_index:
  assumes "\<forall>e \<in> set es. \<not> known_location st tenant (me_location e)" and "1 \<le> location_cursor st tenant"
  shows "length (fst (mint_all local_date tenant es st)) \<le> 255
    \<and> (\<forall>l t s now. location_cursor st tenant = 256 \<and> \<not> known_location st tenant l
         \<longrightarrow> (\<exists>e. mint_receipt_code local_date tenant l t s now st = Inl e))"
proof -
  have "\<exists>e. mint_receipt_code local_date tenant l t s now st = Inl e"
    if "location_cursor st tenant = 256" "\<not> known_location st tenant l" for l t s now
    using mint_unknown_location(1,2) [of local_date tenant l t s now st, OF _ that(2)] that(1)
    by (cases "mint_receipt_code local_date tenant l t s now st") (auto simp: index_id_max_def)
  moreover have "length (fst (mint_all local_date tenant es st)) \<le> 255"
    using codes_of_unknown_location [OF assms(1), of local_date] assms(2) by (simp add: index_id_max_def)
  ultimately show ?thesis by blast
qed

subsection \<open>Numbers count the documents of their period\<close>

text \<open>A run of sales that claim a number, at a location, for a kind of document, at a time.\<close>

abbreviation claimed_at :: "string \<times> string \<times> string \<Rightarrow> string" where
  "claimed_at e \<equiv> snd (snd e)"

text \<open>A claim that fails fails the sale, whose transaction leaves nothing behind; the next sale goes on from there.\<close>

fun claim_each ::
    "(string \<times> string \<times> string) list \<Rightarrow> code_store \<Rightarrow> (core_error + string option) list \<times> code_store" where
  "claim_each [] st = ([], st)"
| "claim_each ((l, kind, now) # es) st =
     (case claim_statutory_number_for_sale l kind now st of
        Inl e \<Rightarrow> (case claim_each es st of (rs, st'') \<Rightarrow> (Inl e # rs, st''))
      | Inr (n, st') \<Rightarrow> (case claim_each es st' of (rs, st'') \<Rightarrow> (Inr n # rs, st'')))"

text \<open>The numbers of the sales: one that failed has none, like one of a location without a series.\<close>

definition claim_all :: "(string \<times> string \<times> string) list \<Rightarrow> code_store \<Rightarrow> string option list \<times> code_store" where
  "claim_all es st = (case claim_each es st of (rs, st') \<Rightarrow> (map (case_sum (\<lambda>_. None) id) rs, st'))"

lemma claim_all_simps:
  "claim_all [] st = ([], st)"
  "claim_all ((l, kind, now) # es) st =
     (case claim_statutory_number_for_sale l kind now st of
        Inl _ \<Rightarrow> (case claim_all es st of (ns, st'') \<Rightarrow> (None # ns, st''))
      | Inr (n, st') \<Rightarrow> (case claim_all es st' of (ns, st'') \<Rightarrow> (n # ns, st'')))"
  by (auto simp: claim_all_def split: sum.split prod.split)

declare claim_all_simps(1) [simp]

definition usable :: "series_row option \<Rightarrow> series_row option" where
  "usable s = (case s of None \<Rightarrow> None
     | Some r \<Rightarrow> (case parse_reset_period (se_reset r) of Inl _ \<Rightarrow> None | Inr _ \<Rightarrow> Some r))"

definition series_of :: "code_store \<Rightarrow> string \<times> string \<times> string \<Rightarrow> series_row option" where
  "series_of st = (\<lambda>(l, kind, now).
     case map_of (cs_zones st) l of
       Some (_, Some entity) \<Rightarrow> (case document_number_sequence st entity kind of Inl _ \<Rightarrow> None | Inr s \<Rightarrow> usable s)
     | _ \<Rightarrow> None)"

definition bucket_of :: "series_row \<Rightarrow> string \<times> string \<times> string \<Rightarrow> string" where
  "bucket_of s = (\<lambda>(l, kind, now). case parse_reset_period (se_reset s) of Inl _ \<Rightarrow> [] | Inr reset \<Rightarrow> period_key_for reset now)"

text \<open>
  What the numbers should be: of the claims so far, those of the same series in the same period are
  counted.
\<close>

definition claims_in :: "code_store \<Rightarrow> (string \<times> string \<times> string) list \<Rightarrow> series_row \<Rightarrow> string \<Rightarrow> nat" where
  "claims_in st es s b = length (filter (\<lambda>e. series_of st e = Some s \<and> bucket_of s e = b) es)"

definition expected_number ::
    "code_store \<Rightarrow> (string \<times> string \<times> string) list \<Rightarrow> string \<times> string \<times> string \<Rightarrow> string option" where
  "expected_number st past e =
     (case series_of st e of
        None \<Rightarrow> None
      | Some s \<Rightarrow>
          (let b = bucket_of s e; n = zero_pad (nat (se_padding s)) (show_int (int (claims_in st past s b) + 1))
           in Some (if parse_reset_period (se_reset s) = Inr Never then se_prefix s @ n else se_prefix s @ b @ ''/'' @ n)))"

fun expected_numbers ::
    "code_store \<Rightarrow> (string \<times> string \<times> string) list \<Rightarrow> (string \<times> string \<times> string) list \<Rightarrow> string option list" where
  "expected_numbers st past [] = []"
| "expected_numbers st past (e # es) = expected_number st past e # expected_numbers st (past @ [e]) es"

lemma take_mono_lex: "xs \<le> ys \<Longrightarrow> take n xs \<le> take n (ys :: 'a :: linorder list)"
proof (induction n arbitrary: xs ys)
  case (Suc n)
  then show ?case by (cases xs; cases ys) auto
qed simp

definition is_stamp :: "string \<Rightarrow> bool" where
  "is_stamp t \<longleftrightarrow> ascii_str t \<and> 10 \<le> length t"

lemma head_of_stamp: "is_stamp t \<Longrightarrow> n \<le> 10 \<Longrightarrow> head_of n t = take n t"
  by (simp add: head_of_def is_stamp_def ascii_char_boundary)

lemma period_key_mono: "is_stamp t \<Longrightarrow> is_stamp u \<Longrightarrow> t \<le> u \<Longrightarrow> period_key_for r t \<le> period_key_for r u"
  by (cases r) (simp_all add: head_of_stamp take_mono_lex)

lemma length_period_key: "is_stamp t \<Longrightarrow> is_stamp u \<Longrightarrow> length (period_key_for r t) = length (period_key_for r u)"
  by (cases r) (simp_all add: head_of_stamp is_stamp_def)

definition same_series :: "series_row \<Rightarrow> series_row \<Rightarrow> bool" where
  "same_series a b \<longleftrightarrow> se_id a = se_id b \<and> se_entity a = se_entity b \<and> se_kind a = se_kind b \<and> se_prefix a = se_prefix b
     \<and> se_reset a = se_reset b \<and> se_padding a = se_padding b"

text \<open>The row of a series after some claims: the period of its last claim, and how many fell in that.\<close>

definition follows :: "code_store \<Rightarrow> (string \<times> string \<times> string) list \<Rightarrow> series_row \<Rightarrow> series_row \<Rightarrow> bool" where
  "follows st past a b \<longleftrightarrow> same_series a b
     \<and> (let cs = filter (\<lambda>e. series_of st e = Some a) past
        in if cs = [] then se_current b = 0
           else se_period b = bucket_of a (last cs) \<and> se_current b = int (claims_in st past a (se_period b)))"

lemma find_follows:
  assumes "list_all2 (follows st past) as bs"
  shows "rel_option (follows st past) (List.find (\<lambda>s. se_entity s = x \<and> se_kind s = k) as) (List.find (\<lambda>s. se_entity s = x \<and> se_kind s = k) bs)"
  using assms by (induction rule: list_all2_induct) (auto simp: follows_def same_series_def)

lemma claims_in_alt: "claims_in st past s b = length (filter (\<lambda>e. bucket_of s e = b) (filter (\<lambda>e. series_of st e = Some s) past))"
  by (simp add: claims_in_def conj_commute)

lemma ordinal:
  assumes f: "follows st past a b"
    and sorted: "sorted (map (bucket_of a) (filter (\<lambda>e. series_of st e = Some a) past @ [e]))"
  shows "(if se_period b = bucket_of a e then se_current b + 1 else 1) = int (claims_in st past a (bucket_of a e)) + 1"
proof -
  define cs where "cs = filter (\<lambda>e. series_of st e = Some a) past"
  show ?thesis
  proof (cases "cs = []")
    case True
    then show ?thesis using f by (simp add: follows_def claims_in_alt flip: cs_def)
  next
    case False
    then have b: "se_period b = bucket_of a (last cs)" "se_current b = int (claims_in st past a (se_period b))"
      using f by (simp_all add: follows_def flip: cs_def)
    have before: "bucket_of a e' \<le> bucket_of a (last cs)" if "e' \<in> set cs" for e'
    proof -
      have "cs = butlast cs @ [last cs]" using False by simp
      then have "sorted (map (bucket_of a) (butlast cs) @ [bucket_of a (last cs)])" "e' \<in> set (butlast cs) \<or> e' = last cs"
        using sorted that unfolding cs_def [symmetric] map_append
        by (metis sorted_append map_append list.simps(8,9)) (metis \<open>cs = butlast cs @ [last cs]\<close> that Un_iff list.set(1,2) set_append singletonD)
      then show ?thesis by (auto simp: sorted_append)
    qed
    have le: "bucket_of a (last cs) \<le> bucket_of a e" using sorted False by (simp add: sorted_append flip: cs_def)
    show ?thesis
    proof (cases "bucket_of a (last cs) = bucket_of a e")
      case True
      then show ?thesis using b by simp
    next
      case False
      then have "filter (\<lambda>e'. bucket_of a e' = bucket_of a e) cs = []"
        using before le False unfolding filter_empty_conv by (metis order.antisym)
      then have "claims_in st past a (bucket_of a e) = 0" by (simp add: claims_in_alt flip: cs_def)
      then show ?thesis using False b(1) by simp
    qed
  qed
qed

text \<open>A claim is accepted exactly when a series is found.\<close>

lemma claim_cases:
  obtains (none) "series_of st (l, kind, now) = None"
    "(case claim_statutory_number_for_sale l kind now st of Inl _ \<Rightarrow> (None, st) | Inr r \<Rightarrow> r) = (None, st)"
  | (claimed) s reset where "series_of st (l, kind, now) = Some s" "parse_reset_period (se_reset s) = Inr reset"
    "claim_statutory_number_for_sale l kind now st
      = Inr (Some (number_text reset (period_key_for reset now) (issue reset (period_key_for reset now) now s)),
          st\<lparr>cs_series := map (\<lambda>r. if se_id r = se_id s then issue reset (period_key_for reset now) now r else r) (cs_series st)\<rparr>)"
proof (cases "series_of st (l, kind, now)")
  case None
  then have "(case claim_statutory_number_for_sale l kind now st of Inl _ \<Rightarrow> (None, st) | Inr r \<Rightarrow> r) = (None, st)"
    by (auto simp: series_of_def usable_def claim_statutory_number_for_sale_def Let_def split: option.splits sum.splits prod.splits)
  then show ?thesis by (rule none [OF None])
next
  case (Some s)
  then obtain zone entity reset where "map_of (cs_zones st) l = Some (zone, Some entity)"
      "document_number_sequence st entity kind = Inr (Some s)" "parse_reset_period (se_reset s) = Inr reset"
    by (auto simp: series_of_def usable_def split: option.splits sum.splits prod.splits)
  then show ?thesis by (intro claimed [OF Some]) (simp_all add: claim_statutory_number_for_sale_def Let_def)
qed

lemma claim_all_Cons:
  "claim_all ((l, kind, now) # es) st =
     (case (case claim_statutory_number_for_sale l kind now st of Inl _ \<Rightarrow> (None, st) | Inr r \<Rightarrow> r) of
        (n, st') \<Rightarrow> (case claim_all es st' of (ns, st'') \<Rightarrow> (n # ns, st'')))"
  by (auto simp: claim_all_simps(2) split: sum.split prod.split)

definition tracks :: "code_store \<Rightarrow> (string \<times> string \<times> string) list \<Rightarrow> code_store \<Rightarrow> bool" where
  "tracks st past cur \<longleftrightarrow> cs_zones cur = cs_zones st \<and> list_all2 (follows st past) (cs_series st) (cs_series cur)"

lemma usable_follows: "rel_option (follows st past) a b \<Longrightarrow> rel_option (follows st past) (usable a) (usable b)"
  by (cases a; cases b) (auto simp: usable_def follows_def same_series_def split: sum.split)

lemma tracks_series:
  assumes "tracks st past cur"
  shows "rel_option (follows st past) (series_of st e) (series_of cur e)"
proof -
  obtain l kind now where e: "e = (l, kind, now)" by (cases e)
  have zones: "cs_zones cur = cs_zones st" using assms by (simp add: tracks_def)
  have step: "rel_option (follows st past)
      (usable (List.find (\<lambda>s. se_entity s = x \<and> se_kind s = k) (cs_series st)))
      (usable (List.find (\<lambda>s. se_entity s = x \<and> se_kind s = k) (cs_series cur)))" for x k
    using assms find_follows usable_follows by (simp add: tracks_def)
  show ?thesis
  proof (cases "parse_document_kind kind")
    case (Inl a)
    then show ?thesis by (simp add: e series_of_def document_number_sequence_def zones split: option.split)
  next
    case (Inr k)
    then show ?thesis using step by (simp add: e series_of_def document_number_sequence_def zones split: option.split)
  qed
qed

lemma follows_other: "series_of st e \<noteq> Some a \<Longrightarrow> follows st (past @ [e]) a b = follows st past a b"
  by (simp add: follows_def claims_in_def)

lemma follows_issue:
  assumes "follows st past a b" and "series_of st e = Some a"
    and "sorted (map (bucket_of a) (filter (\<lambda>e. series_of st e = Some a) past @ [e]))"
  shows "follows st (past @ [e]) a (issue reset (bucket_of a e) now b)"
  using ordinal [OF assms(1,3)] assms(1,2)
  by (simp add: follows_def same_series_def issue_def claims_in_def)

lemma tracks_claim:
  assumes t: "tracks st past cur" and d: "distinct (map se_id (cs_series st))"
    and sorted: "\<And>a. series_of st (l, kind, now) = Some a
      \<Longrightarrow> sorted (map (bucket_of a) (filter (\<lambda>e. series_of st e = Some a) past @ [(l, kind, now)]))"
    and r: "(case claim_statutory_number_for_sale l kind now cur of Inl _ \<Rightarrow> (None, cur) | Inr r \<Rightarrow> r) = (n, cur')"
  shows "n = expected_number st past (l, kind, now) \<and> tracks st (past @ [(l, kind, now)]) cur'"
proof (cases rule: claim_cases [of cur l kind now])
  case none
  then have "series_of st (l, kind, now) = None" using tracks_series [OF t, of "(l, kind, now)"] by simp
  then show ?thesis using r none t by (simp add: expected_number_def tracks_def follows_other list_all2_conv_all_nth)
next
  case (claimed s reset)
  let ?e = "(l, kind, now)"
  obtain a where a: "series_of st ?e = Some a" "follows st past a s"
    using tracks_series [OF t, of ?e] claimed(1) by (cases "series_of st ?e") auto
  have reset: "parse_reset_period (se_reset a) = Inr reset" using a(2) claimed(2) by (simp add: follows_def same_series_def)
  then have bucket: "period_key_for reset now = bucket_of a ?e" by (simp add: bucket_of_def)
  have n: "n = Some (number_text reset (bucket_of a ?e) (issue reset (bucket_of a ?e) now s))"
    and cur': "cur' = cur\<lparr>cs_series := map (\<lambda>r. if se_id r = se_id s then issue reset (bucket_of a ?e) now r else r) (cs_series cur)\<rparr>"
    using r claimed(3) unfolding bucket by simp_all
  have "n = expected_number st past ?e"
    using ordinal [OF a(2) sorted [OF a(1)]] a reset
    by (simp add: n expected_number_def number_text_def issue_def follows_def same_series_def Let_def)
  moreover have "a \<in> set (cs_series st)"
    using a(1) by (auto simp: series_of_def usable_def document_number_sequence_def find_Some_iff split: option.splits sum.splits prod.splits)
  then have "follows st (past @ [?e]) a' (if se_id b = se_id s then issue reset (bucket_of a ?e) now b else b)"
    if "a' \<in> set (cs_series st)" "follows st past a' b" for a' b
  proof (cases "a' = a")
    case True
    then have "se_id b = se_id s" using that(2) a(2) by (simp add: follows_def same_series_def)
    then show ?thesis using True follows_issue [OF that(2) _ sorted] a(1) by simp
  next
    case False
    then have "se_id a' \<noteq> se_id a" using d that(1) \<open>a \<in> set (cs_series st)\<close> by (auto simp: distinct_map inj_on_def)
    then have "se_id b \<noteq> se_id s" using that(2) a(2) by (simp add: follows_def same_series_def)
    then show ?thesis using that(2) False a(1) by (simp add: follows_other)
  qed
  then have "list_all2 (follows st (past @ [?e])) (cs_series st)
      (map (\<lambda>r. if se_id r = se_id s then issue reset (bucket_of a ?e) now r else r) (cs_series cur))"
    unfolding list.rel_map using t unfolding tracks_def by (blast intro: list.rel_mono_strong)
  ultimately show ?thesis using t by (simp add: tracks_def cur')
qed

lemma bucket_alt: "bucket_of s e = (case parse_reset_period (se_reset s) of Inl _ \<Rightarrow> [] | Inr reset \<Rightarrow> period_key_for reset (claimed_at e))"
  by (simp add: bucket_of_def split_beta)

lemma bucket_mono:
  "is_stamp (claimed_at e) \<Longrightarrow> is_stamp (claimed_at e') \<Longrightarrow> claimed_at e \<le> claimed_at e' \<Longrightarrow> bucket_of s e \<le> bucket_of s e'"
  by (simp add: bucket_alt period_key_mono split: sum.split)

lemma length_bucket: "is_stamp (claimed_at e) \<Longrightarrow> is_stamp (claimed_at e') \<Longrightarrow> length (bucket_of s e) = length (bucket_of s e')"
  by (simp add: bucket_alt length_period_key [of "claimed_at e" "claimed_at e'"] split: sum.split)

lemma sorted_buckets: "sorted (map claimed_at es) \<Longrightarrow> \<forall>e \<in> set es. is_stamp (claimed_at e) \<Longrightarrow> sorted (map (bucket_of a) es)"
  by (induction es) (auto intro: bucket_mono)

lemma claim_all_expected:
  assumes "tracks st past cur" and "distinct (map se_id (cs_series st))"
    and "sorted (map claimed_at (past @ es))" and "\<forall>e \<in> set (past @ es). is_stamp (claimed_at e)"
  shows "fst (claim_all es cur) = expected_numbers st past es"
  using assms
proof (induction es arbitrary: past cur)
  case (Cons e es)
  obtain l kind now where e: "e = (l, kind, now)" by (cases e)
  obtain n cur' where r: "(case claim_statutory_number_for_sale l kind now cur of Inl _ \<Rightarrow> (None, cur) | Inr r \<Rightarrow> r) = (n, cur')"
    by fastforce
  have "sorted (map claimed_at (past @ [e]))" "\<forall>e \<in> set (past @ [e]). is_stamp (claimed_at e)"
    using Cons.prems(3,4) by (auto simp: sorted_append)
  then have all: "sorted (map (bucket_of a) (filter (\<lambda>e. series_of st e = Some a) (past @ [e])))" for a
    using sorted_buckets by (intro sorted_filter) blast
  have "sorted (map (bucket_of a) (filter (\<lambda>e. series_of st e = Some a) past @ [(l, kind, now)]))"
    if "series_of st (l, kind, now) = Some a" for a
  proof -
    have "filter (\<lambda>e. series_of st e = Some a) (past @ [e]) = filter (\<lambda>e. series_of st e = Some a) past @ [(l, kind, now)]"
      using that by (simp add: e)
    then show ?thesis using all [of a] by (simp only:)
  qed
  note step = tracks_claim [OF Cons.prems(1,2) this r]
  have "fst (claim_all es cur') = expected_numbers st (past @ [e]) es"
    using step Cons.prems(2-4) by (intro Cons.IH) (simp_all add: e)
  moreover obtain ns st'' where "claim_all es cur' = (ns, st'')" by (cases "claim_all es cur'")
  ultimately show ?case using step by (simp add: e claim_all_Cons r)
qed simp

lemma length_expected_numbers [simp]: "length (expected_numbers st past es) = length es"
  by (induction es arbitrary: past) simp_all

lemma nth_expected_numbers: "i < length es \<Longrightarrow> expected_numbers st past es ! i = expected_number st (past @ take i es) (es ! i)"
proof (induction es arbitrary: past i)
  case (Cons e es)
  then show ?case by (cases i) simp_all
qed simp

lemma tracks_start: "\<forall>s \<in> set (cs_series st). se_current s = 0 \<Longrightarrow> tracks st [] st"
  by (auto simp: tracks_def follows_def same_series_def list_all2_same)

text \<open>
  C31. The number of a document counts the documents of its series in its period: from series without numbers,
  over any history of sales in the order of time, at any locations and for either kind, each sale gets
  the next ordinal of its period, with no gap and no number twice.\<close>

theorem statutory_numbers_count:
  assumes "\<forall>s \<in> set (cs_series st). se_current s = 0" and "distinct (map se_id (cs_series st))"
    and "sorted (map claimed_at es)" and "\<forall>e \<in> set es. is_stamp (claimed_at e)"
  shows "fst (claim_all es st) = expected_numbers st [] es
    \<and> (\<forall>i j. i < j \<and> j < length es \<and> series_of st (es ! i) \<noteq> None \<and> series_of st (es ! i) = series_of st (es ! j)
        \<longrightarrow> fst (claim_all es st) ! i \<noteq> fst (claim_all es st) ! j)"
proof -
  have numbers: "fst (claim_all es st) = expected_numbers st [] es"
    using tracks_start [OF assms(1)] assms by (intro claim_all_expected) simp_all
  have differ: "expected_number st (take i es) (es ! i) \<noteq> expected_number st (take j es) (es ! j)"
    if "i < j" "j < length es" "series_of st (es ! i) = Some s" "series_of st (es ! j) = Some s" for i j s
  proof -
    let ?b = "bucket_of s (es ! i)" and ?c = "bucket_of s (es ! j)"
    have "length ?b = length ?c"
      using assms(4) that by (intro length_bucket) simp_all
    moreover have "claims_in st (take i es) s ?b < claims_in st (take j es) s ?b"
    proof -
      have "take j es = take i es @ es ! i # take (j - Suc i) (drop (Suc i) es)"
      proof -
        have "drop i es = es ! i # drop (Suc i) es" using that(1,2) by (simp add: Cons_nth_drop_Suc)
        moreover have "take j es = take i es @ take (Suc (j - Suc i)) (drop i es)"
          using that(1) take_add [of i "Suc (j - Suc i)" es] by simp
        ultimately show ?thesis by simp
      qed
      then show ?thesis using that(3) by (simp add: claims_in_def)
    qed
    ultimately have lens: "length ?b = length ?c" and more: "claims_in st (take i es) s ?b < claims_in st (take j es) s ?b"
      by simp_all
    have rendered: "expected_number st past e = Some (if parse_reset_period (se_reset s) = Inr Never
          then se_prefix s @ zero_pad (nat (se_padding s)) (show_int (int (claims_in st past s (bucket_of s e)) + 1))
          else se_prefix s @ bucket_of s e @ ''/'' @ zero_pad (nat (se_padding s)) (show_int (int (claims_in st past s (bucket_of s e)) + 1)))"
      if "series_of st e = Some s" for past e
      using that by (simp add: expected_number_def Let_def)
    have ordinals: "zero_pad w (show_int (int m + 1)) \<noteq> zero_pad w (show_int (int n + 1))" if "m < n" for w m n
      using that zero_pad_show_int_inj [of "int m + 1" "int n + 1" w] by auto
    show ?thesis
    proof (cases "?b = ?c")
      case True
      then show ?thesis using ordinals more by (simp add: rendered that(3,4))
    next
      case False
      then have "parse_reset_period (se_reset s) \<noteq> Inr Never" by (auto simp: bucket_alt)
      then show ?thesis using False lens by (simp add: rendered that(3,4))
    qed
  qed
  have "fst (claim_all es st) ! i \<noteq> fst (claim_all es st) ! j"
    if "i < j" "j < length es" "series_of st (es ! i) \<noteq> None" "series_of st (es ! i) = series_of st (es ! j)" for i j
  proof -
    obtain s where "series_of st (es ! i) = Some s" "series_of st (es ! j) = Some s"
      using \<open>series_of st (es ! i) \<noteq> None\<close> \<open>series_of st (es ! i) = series_of st (es ! j)\<close> by auto
    then show ?thesis
      using differ [OF \<open>i < j\<close> \<open>j < length es\<close>] nth_expected_numbers [of i es st "[]"] nth_expected_numbers [of j es st "[]"]
        \<open>i < j\<close> \<open>j < length es\<close>
      by (simp add: numbers)
  qed
  then show ?thesis using numbers by blast
qed

subsection \<open>On concrete rows\<close>

text \<open>The date of an RFC 3339 time stamp, for stamps and offsets that do not leave the day.\<close>

definition day_of_stamp :: "string \<Rightarrow> int \<Rightarrow> (string \<times> string) option" where
  "day_of_stamp t z = (if length t < 10 then None
     else Some (take 2 (drop 2 t) @ take 2 (drop 5 t) @ take 2 (drop 8 t), take 4 t))"

definition till_codes :: code_store where
  "till_codes = \<lparr>cs_entities = (\<lambda>kind. [\<lparr>ix_id = (if kind = Location then ''L'' else ''t''), ix_tenant = ''T'', ix_index = None\<rparr>]),
     cs_zones = [(''L'', ''+07:00'', Some ''E''), (''M'', ''UTC'', None)], cs_cursors = [], cs_tombstones = [], cs_counters = [],
     cs_series = [\<lparr>se_id = ''s'', se_entity = ''E'', se_kind = ''receipt'', se_prefix = ''R/'', se_current = 0,
        se_reset = ''daily'', se_period = ''2026-09-18'', se_padding = 4, se_created_at = [], se_updated_at = []\<rparr>]\<rparr>"

definition checkout_at :: "string \<Rightarrow> mint_event" where
  "checkout_at now = \<lparr>me_location = ''L'', me_terminal = Some ''t'', me_staff = [], me_now = now, me_commits = True\<rparr>"

definition three_checkouts :: "mint_event list" where
  "three_checkouts = map checkout_at [''2025-12-31T08:00:00Z'', ''2026-01-02T08:00:00Z'', ''2026-01-02T09:00:00Z'']"

lemma receipt_codes_distinct_witness:
  "fst (mint_all day_of_stamp ''T'' three_checkouts till_codes)
     = [''01-01-251231-00-000001'', ''01-01-260102-00-000001'', ''01-01-260102-00-000002'']
   \<and> distinct (fst (mint_all day_of_stamp ''T'' three_checkouts till_codes))"
proof -
  have "dates_ok day_of_stamp (map me_now three_checkouts)"
    by (simp add: dates_ok_def day_of_stamp_def three_checkouts_def checkout_at_def)
  moreover have "codes_ok till_codes" by (simp add: codes_ok_def till_codes_def)
  ultimately have "distinct (fst (mint_all day_of_stamp ''T'' three_checkouts till_codes))"
    using receipt_codes_distinct by blast
  moreover have "fst (mint_all day_of_stamp ''T'' three_checkouts till_codes)
      = [''01-01-251231-00-000001'', ''01-01-260102-00-000001'', ''01-01-260102-00-000002'']"
    by code_simp
  ultimately show ?thesis by simp
qed

text \<open>A hundred years later the same code is given again: the counter is that of the year, the code has two digits of it.\<close>

lemma receipt_code_repeats_after_century:
  "fst (mint_all day_of_stamp ''T'' (map checkout_at [''2026-01-02T08:00:00Z'', ''2126-01-02T08:00:00Z'']) till_codes)
     = replicate 2 ''01-01-260102-00-000001''"
  by code_simp

lemma unknown_location_exhausts_index_witness:
  "length (fst (mint_all day_of_stamp ''T'' [\<lparr>me_location = ''i'', me_terminal = None, me_staff = [], me_now = [], me_commits = True\<rparr>]
     till_codes)) \<le> 255"
  using unknown_location_exhausts_index [of "[\<lparr>me_location = ''i'', me_terminal = None, me_staff = [], me_now = [], me_commits = True\<rparr>]"
    till_codes "''T''" day_of_stamp] by (simp add: known_location_def location_cursor_def till_codes_def)

definition sales_of_two_days :: "(string \<times> string \<times> string) list" where
  "sales_of_two_days = [(''L'', ''receipt'', ''2026-09-18T01''), (''M'', ''receipt'', ''2026-09-18T02''),
     (''L'', ''Receipt'', ''2026-09-18T03''), (''L'', ''receipt'', ''2026-09-19T00'')]"

lemma statutory_numbers_count_witness:
  "fst (claim_all sales_of_two_days till_codes)
    = [Some ''R/2026-09-18/0001'', None, Some ''R/2026-09-18/0002'', Some ''R/2026-09-19/0001'']"
proof -
  have "sorted (map claimed_at sales_of_two_days)" by code_simp
  moreover have "\<forall>e \<in> set sales_of_two_days. is_stamp (claimed_at e)" by code_simp
  moreover have "\<forall>s \<in> set (cs_series till_codes). se_current s = 0" "distinct (map se_id (cs_series till_codes))"
    by (simp_all add: till_codes_def)
  ultimately have "fst (claim_all sales_of_two_days till_codes) = expected_numbers till_codes [] sales_of_two_days"
    using statutory_numbers_count by blast
  also have "\<dots> = [Some ''R/2026-09-18/0001'', None, Some ''R/2026-09-18/0002'', Some ''R/2026-09-19/0001'']"
    by code_simp
  finally show ?thesis .
qed

text \<open>
  Changing the policy of a series and back gives a number again: the row keeps period and count over
  the change.
\<close>

definition set_policy :: "string \<Rightarrow> reset_period \<Rightarrow> code_store \<Rightarrow> code_store" where
  "set_policy fresh reset st =
     (case upsert_document_number_sequence [''E''] fresh ''E'' ''receipt'' ''R/'' reset 4 ''2026-09-18T05'' st of Inl _ \<Rightarrow> st | Inr st' \<Rightarrow> st')"

definition one_claim :: "code_store \<Rightarrow> string option \<times> code_store" where
  "one_claim st = (case claim_statutory_number_for_sale ''L'' ''receipt'' ''2026-09-18T05'' st of Inl _ \<Rightarrow> (None, st) | Inr r \<Rightarrow> r)"

lemma policy_change_reissues_number:
  "(let st0 = set_policy ''a'' Never till_codes; (n, st1) = one_claim st0;
        (_, st2) = one_claim (set_policy ''b'' Yearly st1); (n', _) = one_claim (set_policy ''c'' Never st2)
    in n = Some ''R/0001'' \<and> n' = n)"
  by code_simp

lemma location_without_entity_fails:
  "map_of (cs_zones st) l = Some (zone, None) \<Longrightarrow> claim_statutory_number_for_sale l kind now st = Inl Db"
  by (simp add: claim_statutory_number_for_sale_def)

end
