(* ===== verification/Stock_Routing.thy ===== *)
theory Stock_Routing
  imports Remote_Apply Receipt_Code Promotion
begin

section \<open>Where a sale takes its goods from\<close>

text \<open>
  Models \<open>crates/kasirmu-core/src/location_resolver.rs\<close> (the inventory locations of a workspace, behind a cache
  that lives for thirty seconds), \<open>sale_deduction.rs\<close> (the split of a quantity over the locations of a route),
  \<open>db/recipes.rs\<close> and the stock check of \<open>db/sales_checkout.rs\<close>. The database of the till extends the one of
  \<open>Remote_Apply\<close>. Reading \<open>qty\<close> or a name never fails here, so the defaults for failed reads are those for missing
  rows, and the mutex of the cache is not poisoned.
\<close>

subsection \<open>Tables\<close>

record inv_location =
  il_id :: string
  il_name :: string
  il_active :: int

record workspace_row =
  wi_id :: string
  wi_bound :: "string option"

text \<open>The flag \<open>allow_negative_stock\<close> of a row is kept in the \<open>bindings\<close> of the stock tables.\<close>

record ws_location =
  wl_instance :: string
  wl_location :: string
  wl_primary :: int
  wl_sort :: int

record recipe_item =
  ri_id :: string
  ri_parent :: string
  ri_ingredient :: string
  ri_quantity :: int
  ri_unit :: string

text \<open>Columns of a sale that no other part of the model reads, and the columns of its lines.\<close>

record checkout_row =
  ck_sale :: string
  ck_expires :: "string option"
  ck_estimate :: "json option"
  ck_display :: "string option"
  ck_statutory :: "string option"

record line_row =
  lw_line :: sale_line
  lw_cost :: "int option"
  lw_product :: "string option"
  lw_name :: "string option"
  lw_category :: "string option"

record pos_db = remote_db +
  po_codes :: code_store
  po_promos :: promo_store
  po_locations :: "inv_location list"
  po_workspaces :: "workspace_row list"
  po_ws_locations :: "ws_location list"
  po_recipes :: "recipe_item list"
  po_costs :: "(string \<times> int) list"
  po_tax_rates :: "string list"
  po_checkouts :: "checkout_row list"
  po_lines :: "line_row list"

subsection \<open>Locations of a workspace\<close>

record cached_location =
  cl_location :: string
  cl_cached_at :: nat

type_synonym location_cache = "(string \<times> cached_location) list"

definition cache_ttl_secs :: nat where
  "cache_ttl_secs = 30"

text \<open>Instants are counted in milliseconds.\<close>

definition cache_get :: "nat \<Rightarrow> string \<Rightarrow> location_cache \<Rightarrow> string option" where
  "cache_get now ws c = (case map_of c ws of
     None \<Rightarrow> None
   | Some e \<Rightarrow> if (now - cl_cached_at e) div 1000 < cache_ttl_secs then Some (cl_location e) else None)"

definition cache_set :: "nat \<Rightarrow> string \<Rightarrow> string \<Rightarrow> location_cache \<Rightarrow> location_cache" where
  "cache_set now ws l c = tab_update ws \<lparr>cl_location = l, cl_cached_at = now\<rparr> c"

definition invalidate_location_cache :: "location_cache \<Rightarrow> location_cache" where
  "invalidate_location_cache c = []"

definition bound_location :: "'a pos_db_scheme \<Rightarrow> string \<Rightarrow> core_error + string option" where
  "bound_location db ws = (case List.find (\<lambda>w. wi_id w = ws) (po_workspaces db) of
     None \<Rightarrow> Inl (NotFound ''workspace_instance'' ws) | Some w \<Rightarrow> Inr (wi_bound w))"

definition is_bound :: "string option \<Rightarrow> bool" where
  "is_bound b \<longleftrightarrow> (case b of None \<Rightarrow> False | Some l \<Rightarrow> l \<noteq> [])"

definition ws_rows :: "'a pos_db_scheme \<Rightarrow> string \<Rightarrow> ws_location list" where
  "ws_rows db ws = filter (\<lambda>r. wl_instance r = ws) (po_ws_locations db)"

text \<open>\<open>ORDER BY is_primary DESC, sort_order ASC\<close>\<close>

definition ws_rows_sorted :: "'a pos_db_scheme \<Rightarrow> string \<Rightarrow> ws_location list" where
  "ws_rows_sorted db ws = sort_key (\<lambda>r. - wl_primary r) (sort_key wl_sort (ws_rows db ws))"

definition binding_allows_negative :: "'a pos_db_scheme \<Rightarrow> string \<Rightarrow> string \<Rightarrow> bool" where
  "binding_allows_negative db ws l \<longleftrightarrow> map_of (bindings (sh_stock db)) (ws, l) = Some (Some 1)"

definition location_name :: "'a pos_db_scheme \<Rightarrow> string \<Rightarrow> string \<Rightarrow> string" where
  "location_name db l other = (case List.find (\<lambda>r. il_id r = l) (po_locations db) of None \<Rightarrow> other | Some r \<Rightarrow> il_name r)"

record location_binding =
  lb_location :: string
  lb_name :: string
  lb_primary :: bool
  lb_negative :: bool

definition enrich_bindings :: "'a pos_db_scheme \<Rightarrow> string \<Rightarrow> ws_location list \<Rightarrow> location_binding list" where
  "enrich_bindings db ws rows = map (\<lambda>r. \<lparr>lb_location = wl_location r, lb_name = location_name db (wl_location r) (wl_location r),
     lb_primary = (wl_primary r = 1), lb_negative = binding_allows_negative db ws (wl_location r)\<rparr>) rows"

definition get_workspace_locations :: "'a pos_db_scheme \<Rightarrow> string \<Rightarrow> string \<Rightarrow> core_error + location_binding list" where
  "get_workspace_locations db ws type_key =
     (case bound_location db ws of
        Inl e \<Rightarrow> Inl e
      | Inr bound \<Rightarrow>
          (let rows = ws_rows_sorted db ws
           in if is_bound bound \<and> rows \<noteq> [] then Inl (Validation ''workspace_binding'')
              else if type_key = ''store-pos'' then
                Inr (if rows = [] then [\<lparr>lb_location = canonical_default_location,
                       lb_name = location_name db canonical_default_location ''Default'', lb_primary = True, lb_negative = False\<rparr>]
                     else enrich_bindings db ws rows)
              else if type_key = ''warehouse'' then
                Inr (if is_bound bound then [\<lparr>lb_location = the bound, lb_name = location_name db (the bound) (the bound),
                       lb_primary = True, lb_negative = False\<rparr>]
                     else map (\<lambda>r. \<lparr>lb_location = il_id r, lb_name = il_name r, lb_primary = False, lb_negative = False\<rparr>)
                       (sort_key il_name (filter (\<lambda>r. il_active r = 1) (po_locations db))))
              else Inr []))"

text \<open>The location and the cache afterwards.\<close>

definition resolve_primary_location ::
    "nat \<Rightarrow> 'a pos_db_scheme \<Rightarrow> string \<Rightarrow> string option \<Rightarrow> location_cache \<Rightarrow> (core_error + string) \<times> location_cache" where
  "resolve_primary_location now db ws override c =
     (case override of
        Some l \<Rightarrow> (Inr l, c)
      | None \<Rightarrow>
          (case cache_get now ws c of
             Some l \<Rightarrow> (Inr l, c)
           | None \<Rightarrow>
               (case bound_location db ws of
                  Inl e \<Rightarrow> (Inl e, c)
                | Inr bound \<Rightarrow>
                    (let l = (if is_bound bound then the bound
                              else case List.find (\<lambda>r. wl_primary r = 1) (ws_rows db ws) of
                                Some r \<Rightarrow> wl_location r | None \<Rightarrow> canonical_default_location)
                     in (Inr l, cache_set now ws l c)))))"

definition resolve_all_locations :: "'a pos_db_scheme \<Rightarrow> string \<Rightarrow> core_error + string list" where
  "resolve_all_locations db ws =
     (case bound_location db ws of
        Inl e \<Rightarrow> Inl e
      | Inr bound \<Rightarrow>
          (let rows = ws_rows_sorted db ws
           in if is_bound bound \<and> rows \<noteq> [] then Inl (Validation ''workspace_binding'')
              else if is_bound bound then Inr [the bound]
              else if rows \<noteq> [] then Inr (map wl_location rows)
              else Inr [canonical_default_location]))"

subsection \<open>Stock along a route\<close>

record location_stock =
  ls_location :: string
  ls_name :: string
  ls_available :: int

definition pos_product_by_sku :: "'a pos_db_scheme \<Rightarrow> string \<Rightarrow> product_row option" where
  "pos_product_by_sku db sku = List.find (\<lambda>p. pd_sku p = sku) (rd_products db)"

definition saturating_sub_i64 :: "int \<Rightarrow> int \<Rightarrow> int" where
  "saturating_sub_i64 a b = max i64_min (min i64_max (a - b))"

fun chain_loop :: "'a pos_db_scheme \<Rightarrow> string \<Rightarrow> int \<Rightarrow> string list \<Rightarrow> location_stock list" where
  "chain_loop db p remaining [] = []"
| "chain_loop db p remaining (l # ls) =
     (if remaining \<le> 0 then []
      else (let avail = location_qty (sh_stock db) p l
            in if avail > 0
               then \<lparr>ls_location = l, ls_name = location_name db l l, ls_available = avail\<rparr>
                 # chain_loop db p (saturating_sub_i64 remaining avail) ls
               else chain_loop db p remaining ls))"

definition resolve_location_chain_for_sku :: "'a pos_db_scheme \<Rightarrow> string \<Rightarrow> string \<Rightarrow> int \<Rightarrow> core_error + location_stock list" where
  "resolve_location_chain_for_sku db ws sku q =
     (case resolve_all_locations db ws of
        Inl e \<Rightarrow> Inl e
      | Inr ls \<Rightarrow> (case pos_product_by_sku db sku of
          None \<Rightarrow> Inl (NotFound ''product'' sku)
        | Some p \<Rightarrow> Inr (chain_loop db (pd_id p) q ls)))"

definition stock_at_locations :: "'a pos_db_scheme \<Rightarrow> string \<Rightarrow> string list \<Rightarrow> location_stock list" where
  "stock_at_locations db p ls = map (\<lambda>l. \<lparr>ls_location = l, ls_name = location_name db l l,
     ls_available = location_qty (sh_stock db) p l\<rparr>) ls"

record location_allocation =
  ac_location :: string
  ac_qty :: int

text \<open>The loop with what is left at its end.\<close>

fun allocate_loop :: "int \<Rightarrow> location_stock list \<Rightarrow> (location_allocation list \<times> int) option" where
  "allocate_loop remaining [] = Some ([], remaining)"
| "allocate_loop remaining (l # ls) =
     (if remaining = 0 then Some ([], remaining)
      else if ls_available l \<le> 0 then allocate_loop remaining ls
      else (let allocated = min remaining (ls_available l)
            in case checked_sub remaining allocated of
                 None \<Rightarrow> None
               | Some left \<Rightarrow> map_option (\<lambda>(as, r). (\<lparr>ac_location = ls_location l, ac_qty = allocated\<rparr> # as, r))
                   (allocate_loop left ls)))"

definition allocate_stock_in_route_order :: "int \<Rightarrow> location_stock list \<Rightarrow> location_allocation list option" where
  "allocate_stock_in_route_order requested ls =
     (if requested < 0 then None
      else (case allocate_loop requested ls of
          None \<Rightarrow> None | Some (as, r) \<Rightarrow> if r = 0 then Some as else None))"

subsection \<open>Which products keep stock, and what they are made of\<close>

datatype product_type = Retail | Restaurant | Both | Service

definition parse_product_type :: "string \<Rightarrow> product_type option" where
  "parse_product_type s =
     (if s = ''retail'' then Some Retail else if s = ''restaurant'' then Some Restaurant
      else if s = ''both'' then Some Both else if s = ''service'' then Some Service else None)"

definition parse_stored_or_default :: "string option \<Rightarrow> product_type" where
  "parse_stored_or_default s = (case Option.bind s parse_product_type of None \<Rightarrow> Retail | Some t \<Rightarrow> t)"

fun product_type_str :: "product_type \<Rightarrow> string" where
  "product_type_str Retail = ''retail''"
| "product_type_str Restaurant = ''restaurant''"
| "product_type_str Both = ''both''"
| "product_type_str Service = ''service''"

definition tracks_inventory :: "product_type \<Rightarrow> bool" where
  "tracks_inventory t \<longleftrightarrow> t = Retail \<or> t = Restaurant \<or> t = Both"

abbreviation row_tracks :: "product_row \<Rightarrow> bool" where
  "row_tracks p \<equiv> tracks_inventory (parse_stored_or_default (Some (pd_type p)))"

definition get_recipe_ingredients :: "'a pos_db_scheme \<Rightarrow> string \<Rightarrow> recipe_item list" where
  "get_recipe_ingredients db p = sort_key ri_id (filter (\<lambda>r. ri_parent r = p) (po_recipes db))"

text \<open>A map from SKU to product: of rows with the same SKU the last one stays.\<close>

definition batch_lookup_products :: "'a pos_db_scheme \<Rightarrow> string list \<Rightarrow> (string \<times> product_row) list" where
  "batch_lookup_products db skus = rev (map (\<lambda>p. (pd_sku p, p)) (filter (\<lambda>p. pd_sku p \<in> set skus) (rd_products db)))"

subsection \<open>The stock check of a checkout\<close>

record shortfall =
  sf_sku :: string
  sf_name :: string
  sf_requested :: int
  sf_primary_available :: int
  sf_deficit :: int
  sf_primary_location :: string
  sf_alternatives :: "location_stock list"

text \<open>
  An error of a checkout: the shortfalls, which the code puts as JSON into a validation error of the field
  \<open>stock\<close>, or any other error.
\<close>

datatype checkout_error = Short "shortfall list" | Failed core_error

text \<open>The three accumulators of the loop over the lines.\<close>

record stock_plan =
  pl_deductions :: "stock_deduction list"
  pl_lines :: "(string \<times> location_allocation list) list"
  pl_short :: "shortfall list"

definition shortfall_alternatives ::
    "'a pos_db_scheme \<Rightarrow> string option \<Rightarrow> string list \<Rightarrow> location_stock list \<Rightarrow> string \<Rightarrow> int \<Rightarrow> location_stock list" where
  "shortfall_alternatives db ws route avail sku q =
     (if length route > 1 then filter (\<lambda>a. ls_available a > 0) (drop 1 avail)
      else (case ws of
          None \<Rightarrow> []
        | Some w \<Rightarrow> filter (\<lambda>a. ls_location a \<noteq> hd route)
            (case resolve_location_chain_for_sku db w sku q of Inl _ \<Rightarrow> [] | Inr as \<Rightarrow> as)))"

definition shortfall_of ::
    "'a pos_db_scheme \<Rightarrow> string option \<Rightarrow> string list \<Rightarrow> location_stock list \<Rightarrow> string \<Rightarrow> string \<Rightarrow> int \<Rightarrow> shortfall" where
  "shortfall_of db ws route avail sku name q =
     (let available = (case avail of [] \<Rightarrow> 0 | a # _ \<Rightarrow> ls_available a)
      in \<lparr>sf_sku = sku, sf_name = name, sf_requested = q, sf_primary_available = available,
          sf_deficit = saturating_sub_i64 q available, sf_primary_location = hd route,
          sf_alternatives = shortfall_alternatives db ws route avail sku q\<rparr>)"

definition deductions_of :: "string \<Rightarrow> location_allocation list \<Rightarrow> stock_deduction list" where
  "deductions_of sku as = map (\<lambda>a. \<lparr>sd_sku = sku, sd_location = ac_location a, sd_delta = - ac_qty a\<rparr>) as"

definition check_line_stock ::
    "'a pos_db_scheme \<Rightarrow> string option \<Rightarrow> string list \<Rightarrow> sale_line \<Rightarrow> string \<Rightarrow> stock_plan \<Rightarrow> stock_plan" where
  "check_line_stock db ws route l p pl =
     (let avail = stock_at_locations db p route
      in case allocate_stock_in_route_order (sline_qty l) avail of
           Some as \<Rightarrow> pl\<lparr>pl_deductions := pl_deductions pl @ deductions_of (sline_sku l) as,
             pl_lines := (sline_id l, as) # pl_lines pl\<rparr>
         | None \<Rightarrow> pl\<lparr>pl_short := pl_short pl @ [shortfall_of db ws route avail (sline_sku l) (sline_sku l) (sline_qty l)]\<rparr>)"

definition check_ingredient ::
    "'a pos_db_scheme \<Rightarrow> string option \<Rightarrow> string list \<Rightarrow> sale_line \<Rightarrow> recipe_item \<Rightarrow> stock_plan
       \<Rightarrow> (checkout_error, stock_plan) outcome" where
  "check_ingredient db ws route l i pl =
     (case List.find (\<lambda>p. pd_id p = ri_ingredient i) (rd_products db) of
        None \<Rightarrow> Ok pl
      | Some p \<Rightarrow>
          if \<not> row_tracks p then Ok pl
          else (case checked_mul (sline_qty l) (ri_quantity i) of
              None \<Rightarrow> Err (Failed (Validation ''qty''))
            | Some q \<Rightarrow>
                (let avail = stock_at_locations db (ri_ingredient i) route
                 in case allocate_stock_in_route_order q avail of
                      Some as \<Rightarrow> Ok (pl\<lparr>pl_deductions := pl_deductions pl @ deductions_of (pd_sku p) as\<rparr>)
                    | None \<Rightarrow> Ok (pl\<lparr>pl_short := pl_short pl @ [shortfall_of db ws route avail (pd_sku p) (pd_name p) q]\<rparr>))))"

definition unknown_shortfall :: "string list \<Rightarrow> sale_line \<Rightarrow> shortfall" where
  "unknown_shortfall route l = \<lparr>sf_sku = sline_sku l, sf_name = sline_sku l, sf_requested = sline_qty l,
     sf_primary_available = 0, sf_deficit = sline_qty l, sf_primary_location = hd route, sf_alternatives = []\<rparr>"

definition check_line ::
    "'a pos_db_scheme \<Rightarrow> string option \<Rightarrow> string list \<Rightarrow> (string \<times> product_row) list \<Rightarrow> sale_line \<Rightarrow> stock_plan
       \<Rightarrow> (checkout_error, stock_plan) outcome" where
  "check_line db ws route found l pl =
     (case map_of found (sline_sku l) of
        None \<Rightarrow> Ok (pl\<lparr>pl_short := pl_short pl @ [unknown_shortfall route l]\<rparr>)
      | Some p \<Rightarrow>
          (let recipe = get_recipe_ingredients db (pd_id p)
           in if \<not> row_tracks p \<and> recipe = [] then Ok pl
              else oeach (check_ingredient db ws route l) recipe
                (if row_tracks p then check_line_stock db ws route l (pd_id p) pl else pl)))"

definition plan_stock ::
    "'a pos_db_scheme \<Rightarrow> string option \<Rightarrow> string list \<Rightarrow> sale_line list \<Rightarrow> (checkout_error, stock_plan) outcome" where
  "plan_stock db ws route ls =
     oeach (check_line db ws route (batch_lookup_products db (map sline_sku ls))) ls
       \<lparr>pl_deductions = [], pl_lines = [], pl_short = []\<rparr>"

subsection \<open>What an allocation is\<close>

text \<open>What the locations of a route hold together, and the share of the i-th in a request.\<close>

definition on_route :: "location_stock list \<Rightarrow> int" where
  "on_route ls = sum_list (map (\<lambda>l. max 0 (ls_available l)) ls)"

definition route_share :: "int \<Rightarrow> location_stock list \<Rightarrow> nat \<Rightarrow> int" where
  "route_share requested ls i = max 0 (min (ls_available (ls ! i)) (requested - on_route (take i ls)))"

definition route_shares :: "int \<Rightarrow> location_stock list \<Rightarrow> location_allocation list" where
  "route_shares requested ls =
     map (\<lambda>i. \<lparr>ac_location = ls_location (ls ! i), ac_qty = route_share requested ls i\<rparr>)
       (filter (\<lambda>i. route_share requested ls i > 0) [0..<length ls])"

lemma on_route_simps [simp]: "on_route [] = 0" "on_route (l # ls) = max 0 (ls_available l) + on_route ls"
  by (simp_all add: on_route_def)

lemma on_route_nonneg [simp]: "0 \<le> on_route ls"
  by (induction ls) simp_all

lemma route_shares_Nil [simp]: "route_shares r [] = []"
  by (simp add: route_shares_def)

lemma route_share_Cons [simp]:
  "route_share r (l # ls) 0 = max 0 (min (ls_available l) r)"
  "route_share r (l # ls) (Suc i) = route_share (r - max 0 (ls_available l)) ls i"
  by (simp_all add: route_share_def algebra_simps)

lemma route_shares_Cons:
  "route_shares r (l # ls) =
     (if 0 < min (ls_available l) r then [\<lparr>ac_location = ls_location l, ac_qty = min (ls_available l) r\<rparr>] else [])
     @ route_shares (r - max 0 (ls_available l)) ls"
proof -
  have "[0..<length (l # ls)] = 0 # map Suc [0..<length ls]" by (simp add: upt_conv_Cons map_Suc_upt del: upt_Suc)
  then show ?thesis by (auto simp: route_shares_def filter_map comp_def)
qed

lemma route_shares_none: "r \<le> 0 \<Longrightarrow> route_shares r ls = []"
  by (induction ls arbitrary: r) (simp_all add: route_shares_Cons)

lemma allocate_loop_shares:
  "0 \<le> r \<Longrightarrow> in_i64 r \<Longrightarrow> allocate_loop r ls = Some (route_shares r ls, max 0 (r - on_route ls))"
proof (induction ls arbitrary: r)
  case (Cons l ls)
  consider "r = 0" | "0 < r" "ls_available l \<le> 0" | "0 < r" "0 < ls_available l" using Cons.prems(1) by linarith
  then show ?case
  proof cases
    case 1
    then have "max 0 (r - (max 0 (ls_available l) + on_route ls)) = 0" using on_route_nonneg [of ls] by linarith
    then show ?thesis using 1 by (simp add: route_shares_none)
  next
    case 2
    then show ?thesis using Cons by (simp add: route_shares_Cons)
  next
    case 3
    have left: "checked_sub r (min r (ls_available l)) = Some (r - min r (ls_available l))"
      using Cons.prems 3 by (auto simp: range_simps min_def)
    have "in_i64 (r - min r (ls_available l))" using Cons.prems 3 by (auto simp: range_simps min_def)
    then have loop: "allocate_loop (r - min r (ls_available l)) ls
        = Some (route_shares (r - min r (ls_available l)) ls, max 0 (r - min r (ls_available l) - on_route ls))"
      by (intro Cons.IH) simp_all
    have "route_shares (r - min r (ls_available l)) ls = route_shares (r - max 0 (ls_available l)) ls"
      using 3 by (cases "r \<le> ls_available l") (simp_all add: route_shares_none)
    moreover have "max 0 (r - min r (ls_available l) - on_route ls) = max 0 (r - (max 0 (ls_available l) + on_route ls))"
      using 3 on_route_nonneg [of ls] by linarith
    ultimately show ?thesis using 3 left loop by (simp add: route_shares_Cons min.commute Let_def)
  qed
qed simp

lemma allocate_shares:
  "in_i64 r \<Longrightarrow> allocate_stock_in_route_order r ls = (if 0 \<le> r \<and> r \<le> on_route ls then Some (route_shares r ls) else None)"
  by (auto simp: allocate_stock_in_route_order_def allocate_loop_shares)

lemma sum_route_shares: "0 \<le> r \<Longrightarrow> sum_list (map ac_qty (route_shares r ls)) = min r (on_route ls)"
proof (induction ls arbitrary: r)
  case (Cons l ls)
  show ?case
  proof (cases "r \<le> max 0 (ls_available l)")
    case True
    then have "min r (max 0 (ls_available l) + on_route ls) = r" using on_route_nonneg [of ls] by linarith
    then show ?thesis using Cons.prems True by (auto simp: route_shares_Cons route_shares_none)
  next
    case False
    then show ?thesis using Cons by (auto simp: route_shares_Cons)
  qed
qed simp

lemma in_route_shares:
  assumes "a \<in> set (route_shares r ls)"
  shows "\<exists>l \<in> set ls. ac_location a = ls_location l \<and> 0 < ac_qty a \<and> ac_qty a \<le> ls_available l"
proof -
  obtain i where "i < length ls" "a = \<lparr>ac_location = ls_location (ls ! i), ac_qty = route_share r ls i\<rparr>" "0 < route_share r ls i"
    using assms by (auto simp: route_shares_def)
  then show ?thesis by (intro bexI [of _ "ls ! i"]) (auto simp: route_share_def)
qed

text \<open>
  C16. The split over a route is the greedy one: a quantity can be allocated exactly when the locations of the
  route hold enough of it together; then every location gives what the ones before it left open, as far as it has
  it, locations that give nothing do not appear, and the shares add up to the quantity.\<close>

theorem allocation_is_greedy:
  assumes "in_i64 r"
  shows "allocate_stock_in_route_order r ls = (if 0 \<le> r \<and> r \<le> on_route ls then Some (route_shares r ls) else None)
    \<and> (0 \<le> r \<and> r \<le> on_route ls \<longrightarrow> sum_list (map ac_qty (route_shares r ls)) = r)
    \<and> (\<forall>a \<in> set (route_shares r ls). \<exists>l \<in> set ls. ac_location a = ls_location l \<and> 0 < ac_qty a \<and> ac_qty a \<le> ls_available l)"
proof -
  show ?thesis using allocate_shares [OF assms] sum_route_shares in_route_shares by auto
qed

definition two_locations :: "location_stock list" where
  "two_locations = [\<lparr>ls_location = ''A'', ls_name = ''A'', ls_available = 3\<rparr>, \<lparr>ls_location = ''B'', ls_name = ''B'', ls_available = -1\<rparr>,
     \<lparr>ls_location = ''C'', ls_name = ''C'', ls_available = 4\<rparr>]"

lemma allocation_is_greedy_witness:
  "allocate_stock_in_route_order 5 two_locations
     = Some [\<lparr>ac_location = ''A'', ac_qty = 3\<rparr>, \<lparr>ac_location = ''C'', ac_qty = 2\<rparr>]"
proof -
  have "on_route two_locations = 7" "route_shares 5 two_locations = [\<lparr>ac_location = ''A'', ac_qty = 3\<rparr>, \<lparr>ac_location = ''C'', ac_qty = 2\<rparr>]"
    by code_simp+
  then show ?thesis using allocation_is_greedy [of 5 two_locations] by (simp add: range_simps)
qed

subsection \<open>What the lines of a sale need\<close>

text \<open>
  The products and quantities a line takes from stock: its own product if that keeps stock, then each ingredient of
  the recipe that does, times the quantity sold. A line whose product is missing needs what cannot be had.
\<close>

type_synonym need = "product_row option \<times> string \<times> int"

definition ingredient_need :: "'a pos_db_scheme \<Rightarrow> int \<Rightarrow> recipe_item \<Rightarrow> need option" where
  "ingredient_need db q i = (case List.find (\<lambda>p. pd_id p = ri_ingredient i) (rd_products db) of
     None \<Rightarrow> None | Some p \<Rightarrow> if row_tracks p then Some (Some p, pd_name p, q * ri_quantity i) else None)"

definition own_need :: "product_row option \<Rightarrow> sale_line \<Rightarrow> need list" where
  "own_need found l = (case found of
     None \<Rightarrow> [(None, sline_sku l, sline_qty l)]
   | Some p \<Rightarrow> if row_tracks p then [(Some p, sline_sku l, sline_qty l)] else [])"

definition recipe_needs :: "'a pos_db_scheme \<Rightarrow> product_row option \<Rightarrow> sale_line \<Rightarrow> need list" where
  "recipe_needs db found l = (case found of
     None \<Rightarrow> [] | Some p \<Rightarrow> List.map_filter (ingredient_need db (sline_qty l)) (get_recipe_ingredients db (pd_id p)))"

definition found_for :: "'a pos_db_scheme \<Rightarrow> sale_line list \<Rightarrow> sale_line \<Rightarrow> product_row option" where
  "found_for db ls l = map_of (batch_lookup_products db (map sline_sku ls)) (sline_sku l)"

definition line_needs :: "'a pos_db_scheme \<Rightarrow> product_row option \<Rightarrow> sale_line \<Rightarrow> need list" where
  "line_needs db found l = own_need found l @ recipe_needs db found l"

definition sale_needs :: "'a pos_db_scheme \<Rightarrow> sale_line list \<Rightarrow> need list" where
  "sale_needs db ls = concat (map (\<lambda>l. line_needs db (found_for db ls l) l) ls)"

definition stock_for :: "'a pos_db_scheme \<Rightarrow> string list \<Rightarrow> need \<Rightarrow> location_stock list" where
  "stock_for db route n = (case fst n of None \<Rightarrow> [] | Some p \<Rightarrow> stock_at_locations db (pd_id p) route)"

definition covered :: "'a pos_db_scheme \<Rightarrow> string list \<Rightarrow> need \<Rightarrow> bool" where
  "covered db route n \<longleftrightarrow> fst n \<noteq> None \<and> 0 \<le> snd (snd n) \<and> snd (snd n) \<le> on_route (stock_for db route n)"

definition need_deductions :: "'a pos_db_scheme \<Rightarrow> string list \<Rightarrow> need \<Rightarrow> stock_deduction list" where
  "need_deductions db route n = (if covered db route n
     then deductions_of (pd_sku (the (fst n))) (route_shares (snd (snd n)) (stock_for db route n)) else [])"

definition need_shortfall :: "'a pos_db_scheme \<Rightarrow> string option \<Rightarrow> string list \<Rightarrow> need \<Rightarrow> shortfall list" where
  "need_shortfall db ws route n = (if covered db route n then [] else
     [case fst n of
        None \<Rightarrow> \<lparr>sf_sku = fst (snd n), sf_name = fst (snd n), sf_requested = snd (snd n), sf_primary_available = 0,
           sf_deficit = snd (snd n), sf_primary_location = hd route, sf_alternatives = []\<rparr>
      | Some p \<Rightarrow> shortfall_of db ws route (stock_for db route n) (pd_sku p) (fst (snd n)) (snd (snd n))])"

definition own_allocation :: "'a pos_db_scheme \<Rightarrow> string list \<Rightarrow> product_row option \<Rightarrow> sale_line \<Rightarrow> (string \<times> location_allocation list) list" where
  "own_allocation db route found l = (case found of
     None \<Rightarrow> []
   | Some p \<Rightarrow> if row_tracks p \<and> covered db route (Some p, sline_sku l, sline_qty l)
       then [(sline_id l, route_shares (sline_qty l) (stock_at_locations db (pd_id p) route))] else [])"

definition extend_plan :: "stock_deduction list \<Rightarrow> (string \<times> location_allocation list) list \<Rightarrow> shortfall list \<Rightarrow> stock_plan \<Rightarrow> stock_plan" where
  "extend_plan ds as ss pl = pl\<lparr>pl_deductions := pl_deductions pl @ ds, pl_lines := as @ pl_lines pl, pl_short := pl_short pl @ ss\<rparr>"

lemma extend_plan_simps [simp]:
  "extend_plan [] [] [] pl = pl"
  "extend_plan ds' as' ss' (extend_plan ds as ss pl) = extend_plan (ds @ ds') (as' @ as) (ss @ ss') pl"
  by (simp_all add: extend_plan_def)

definition all_fit :: "need list \<Rightarrow> bool" where
  "all_fit ns \<longleftrightarrow> (\<forall>n \<in> set ns. in_i64 (snd (snd n)))"

lemma all_fit_simps [simp]: "all_fit []" "all_fit (n # ns) \<longleftrightarrow> in_i64 (snd (snd n)) \<and> all_fit ns" "all_fit (ms @ ns) \<longleftrightarrow> all_fit ms \<and> all_fit ns"
  by (auto simp: all_fit_def)

definition take_needs :: "'a pos_db_scheme \<Rightarrow> string option \<Rightarrow> string list \<Rightarrow> need list \<Rightarrow> stock_plan \<Rightarrow> (checkout_error, stock_plan) outcome" where
  "take_needs db ws route ns pl = (if all_fit ns
     then Ok (extend_plan (concat (map (need_deductions db route) ns)) [] (concat (map (need_shortfall db ws route) ns)) pl)
     else Err (Failed (Validation ''qty'')))"

lemma checked_mul_fits: "checked_mul a b = (if in_i64 (a * b) then Some (a * b) else None)"
  by (simp add: checked_mul_def fit_i64_def)

lemma check_ingredient_need:
  "check_ingredient db ws route l i pl = (case ingredient_need db (sline_qty l) i of None \<Rightarrow> Ok pl | Some n \<Rightarrow> take_needs db ws route [n] pl)"
proof (cases "List.find (\<lambda>p. pd_id p = ri_ingredient i) (rd_products db)")
  case (Some p)
  then have "pd_id p = ri_ingredient i" by (auto simp: find_Some_iff)
  then show ?thesis using Some
    by (simp add: check_ingredient_def ingredient_need_def checked_mul_fits take_needs_def allocate_shares need_deductions_def
        need_shortfall_def covered_def stock_for_def extend_plan_def Let_def)
qed (simp add: check_ingredient_def ingredient_need_def)

lemma take_needs_append:
  "take_needs db ws route (ms @ ns) pl = obind (take_needs db ws route ms pl) (take_needs db ws route ns)"
  by (simp add: take_needs_def)

lemma take_needs_then:
  "obind (take_needs db ws route ns (extend_plan [] as [] pl)) (\<lambda>pl. take_needs db ws route ms (extend_plan [] bs [] pl))
    = take_needs db ws route (ns @ ms) (extend_plan [] (bs @ as) [] pl)"
  by (simp add: take_needs_def extend_plan_def)

lemma map_filter_Cons: "List.map_filter f (x # xs) = (case f x of None \<Rightarrow> List.map_filter f xs | Some y \<Rightarrow> y # List.map_filter f xs)"
  by (simp add: List.map_filter_def split: option.split)

lemma check_ingredients_needs:
  "oeach (check_ingredient db ws route l) is pl = take_needs db ws route (List.map_filter (ingredient_need db (sline_qty l)) is) pl"
proof (induction "is" arbitrary: pl)
  case Nil
  then show ?case by (simp add: take_needs_def List.map_filter_def)
next
  case (Cons i "is")
  show ?case
  proof (cases "ingredient_need db (sline_qty l) i")
    case None
    then show ?thesis using Cons by (simp add: check_ingredient_need map_filter_Cons)
  next
    case (Some n)
    have "oeach (check_ingredient db ws route l) is = take_needs db ws route (List.map_filter (ingredient_need db (sline_qty l)) is)"
      using Cons by blast
    then have "oeach (check_ingredient db ws route l) (i # is) pl
        = obind (take_needs db ws route [n] pl) (take_needs db ws route (List.map_filter (ingredient_need db (sline_qty l)) is))"
      using Some by (simp add: check_ingredient_need)
    also have "\<dots> = take_needs db ws route ([n] @ List.map_filter (ingredient_need db (sline_qty l)) is) pl"
      by (rule take_needs_append [symmetric])
    finally show ?thesis using Some by (simp add: map_filter_Cons)
  qed
qed

lemma check_own_need:
  assumes "in_i64 (sline_qty l)" and "pd_sku p = sline_sku l" and "row_tracks p"
  shows "take_needs db ws route ns (check_line_stock db ws route l (pd_id p) pl)
    = take_needs db ws route ((Some p, sline_sku l, sline_qty l) # ns) (extend_plan [] (own_allocation db route (Some p) l) [] pl)"
  using assms by (simp add: check_line_stock_def allocate_shares take_needs_def need_deductions_def need_shortfall_def covered_def
      stock_for_def own_allocation_def extend_plan_def Let_def)

lemma check_line_needs:
  assumes "in_i64 (sline_qty l)" and "\<And>p. map_of found (sline_sku l) = Some p \<Longrightarrow> pd_sku p = sline_sku l"
  shows "check_line db ws route found l pl = take_needs db ws route (line_needs db (map_of found (sline_sku l)) l)
    (extend_plan [] (own_allocation db route (map_of found (sline_sku l)) l) [] pl)"
proof (cases "map_of found (sline_sku l)")
  case None
  then show ?thesis using assms
    by (simp add: check_line_def line_needs_def own_need_def recipe_needs_def take_needs_def need_deductions_def need_shortfall_def
        covered_def own_allocation_def unknown_shortfall_def extend_plan_def)
next
  case (Some p)
  show ?thesis
  proof (cases "row_tracks p")
    case False
    then show ?thesis using Some
      by (simp add: check_line_def line_needs_def own_need_def recipe_needs_def own_allocation_def check_ingredients_needs
          take_needs_def List.map_filter_def Let_def)
  next
    case True
    then show ?thesis using Some check_own_need [OF assms(1) assms(2) [OF Some] True]
      by (simp add: check_line_def line_needs_def own_need_def recipe_needs_def check_ingredients_needs Let_def)
  qed
qed

lemma found_sku: "found_for db ls l = Some p \<Longrightarrow> pd_sku p = sline_sku l"
  by (auto simp: found_for_def batch_lookup_products_def dest!: map_of_SomeD)

definition own_allocations :: "'a pos_db_scheme \<Rightarrow> string list \<Rightarrow> sale_line list \<Rightarrow> (string \<times> location_allocation list) list" where
  "own_allocations db route ls = concat (map (\<lambda>l. own_allocation db route (found_for db ls l) l) ls)"

lemma stock_plan_exact:
  assumes "\<forall>l \<in> set ls. in_i64 (sline_qty l)"
  shows "plan_stock db ws route ls =
    (if \<forall>n \<in> set (sale_needs db ls). in_i64 (snd (snd n))
     then Ok \<lparr>pl_deductions = concat (map (need_deductions db route) (sale_needs db ls)),
       pl_lines = rev (own_allocations db route ls),
       pl_short = concat (map (need_shortfall db ws route) (sale_needs db ls))\<rparr>
     else Err (Failed (Validation ''qty'')))"
proof -
  have "oeach (check_line db ws route (batch_lookup_products db (map sline_sku ls))) ks pl
      = take_needs db ws route (concat (map (\<lambda>l. line_needs db (found_for db ls l) l) ks))
          (extend_plan [] (rev (concat (map (\<lambda>l. own_allocation db route (found_for db ls l) l) ks))) [] pl)"
    if "set ks \<subseteq> set ls" for ks pl
    using that
  proof (induction ks arbitrary: pl)
    case Nil
    then show ?case by (simp add: take_needs_def)
  next
    case (Cons l ks)
    have "in_i64 (sline_qty l)" using assms Cons.prems by simp
    then have one: "check_line db ws route (batch_lookup_products db (map sline_sku ls)) l pl
        = take_needs db ws route (line_needs db (found_for db ls l) l) (extend_plan [] (own_allocation db route (found_for db ls l) l) [] pl)"
      unfolding found_for_def by (rule check_line_needs) (rule found_sku [unfolded found_for_def])
    have "rev (own_allocation db route (found_for db ls l) l) = own_allocation db route (found_for db ls l) l"
      by (simp add: own_allocation_def split: option.split)
    moreover have "oeach (check_line db ws route (batch_lookup_products db (map sline_sku ls))) ks =
        (\<lambda>pl. take_needs db ws route (concat (map (\<lambda>l. line_needs db (found_for db ls l) l) ks))
          (extend_plan [] (rev (concat (map (\<lambda>l. own_allocation db route (found_for db ls l) l) ks))) [] pl))"
      using Cons by (intro ext) simp
    ultimately show ?case by (simp add: one take_needs_then)
  qed
  from this [of ls "\<lparr>pl_deductions = [], pl_lines = [], pl_short = []\<rparr>"] show ?thesis
    by (simp add: plan_stock_def sale_needs_def own_allocations_def take_needs_def all_fit_def extend_plan_def)
qed

text \<open>
  C15. The stock check of a checkout finds out what the sale needs: it fails only when the quantity of an
  ingredient leaves 64 bits; otherwise every need, in order, is either deducted along the route or reported as a
  shortfall with the missing quantity, according to whether the locations of the route together hold it.\<close>

theorem stock_check_exact:
  assumes "\<forall>l \<in> set ls. in_i64 (sline_qty l)"
  shows "plan_stock db ws route ls =
    (if \<forall>n \<in> set (sale_needs db ls). in_i64 (snd (snd n))
     then Ok \<lparr>pl_deductions = concat (map (need_deductions db route) (sale_needs db ls)),
       pl_lines = rev (own_allocations db route ls),
       pl_short = concat (map (need_shortfall db ws route) (sale_needs db ls))\<rparr>
     else Err (Failed (Validation ''qty'')))"
  by (rule stock_plan_exact [OF assms])

subsection \<open>The primary location and the route\<close>

lemma sort_key_cons_min:
  fixes f :: "'a \<Rightarrow> 'b :: linorder"
  assumes "\<forall>y \<in> set xs. f x \<le> f y \<and> (f y = f x \<longrightarrow> y = x)" and "x \<in> set xs"
  shows "hd (sort_key f xs) = x"
proof -
  have "xs \<noteq> []" using assms(2) by auto
  then obtain y ys where ys: "sort_key f xs = y # ys" by (metis list.exhaust set_empty set_sort)
  then have "sorted (map f (y # ys))" and same: "set (y # ys) = set xs" using sorted_sort_key [of f xs] by (simp_all flip: ys)
  then have "f y \<le> f x" using assms(2) by auto
  moreover have "y \<in> set xs" using same by auto
  ultimately have "y = x" using assms(1) by (meson order.antisym)
  then show ?thesis by (simp add: ys)
qed

text \<open>
  The location a sale is taken from and the route of its workspace fit together: without an entry in the
  cache, for a workspace that is not bound twice over and has at most one primary row, the primary location is the
  head of the route, unless the workspace has rows and none is primary; then it is the canonical default.\<close>

theorem primary_heads_route:
  assumes "cache_get now ws c = None" and "bound_location db ws = Inr b" and "\<not> (is_bound b \<and> ws_rows db ws \<noteq> [])"
    and "\<forall>r \<in> set (ws_rows db ws). wl_primary r \<in> {0, 1}"
    and "\<forall>r \<in> set (ws_rows db ws). \<forall>r' \<in> set (ws_rows db ws). wl_primary r = 1 \<and> wl_primary r' = 1 \<longrightarrow> r = r'"
  shows "\<exists>l ls. fst (resolve_primary_location now db ws None c) = Inr l \<and> resolve_all_locations db ws = Inr ls \<and> ls \<noteq> []
    \<and> (if ws_rows db ws \<noteq> [] \<and> (\<forall>r \<in> set (ws_rows db ws). wl_primary r \<noteq> 1)
       then l = canonical_default_location else l = hd ls)"
proof -
  let ?rows = "ws_rows db ws" and ?sorted = "ws_rows_sorted db ws"
  have same: "set ?sorted = set ?rows" "?sorted = [] \<longleftrightarrow> ?rows = []"
    by (simp_all add: ws_rows_sorted_def flip: set_empty)
  show ?thesis
  proof (cases "is_bound b")
    case True
    then show ?thesis using assms(1-3) same by (auto simp: resolve_primary_location_def resolve_all_locations_def Let_def)
  next
    case False
    show ?thesis
    proof (cases "\<exists>r \<in> set ?rows. wl_primary r = 1")
      case True
      then obtain r where r: "r \<in> set ?rows" "wl_primary r = 1" by blast
      have "hd ?sorted = r" unfolding ws_rows_sorted_def
        by (rule sort_key_cons_min) (use r assms(4,5) in \<open>auto; force\<close>, use r in simp)
      moreover have "List.find (\<lambda>r. wl_primary r = 1) ?rows = Some r"
      proof (cases "List.find (\<lambda>r. wl_primary r = 1) ?rows")
        case None
        then show ?thesis using r by (simp add: find_None_iff)
      next
        case (Some r')
        then have "r' \<in> set ?rows" "wl_primary r' = 1" by (auto simp: find_Some_iff)
        then have "r' = r" using r assms(5) by blast
        then show ?thesis using Some by simp
      qed
      moreover have "?rows \<noteq> []" using r by auto
      ultimately show ?thesis using False r assms(1,2) same
        by (auto simp: resolve_primary_location_def resolve_all_locations_def hd_map Let_def)
    next
      case none: False
      then have "List.find (\<lambda>r. wl_primary r = 1) ?rows = None" by (simp add: find_None_iff)
      then show ?thesis using False none assms(1,2) same
        by (auto simp: resolve_primary_location_def resolve_all_locations_def Let_def)
    qed
  qed
qed

text \<open>A location that is in the cache stays for half a minute, whatever happens to the workspace meanwhile.\<close>

lemma rebound_workspace_keeps_location:
  assumes "fst (resolve_primary_location now db ws None c) = Inr l" and "cache_get now ws c = None"
    and "(later - now) div 1000 < 30"
  shows "resolve_primary_location later db' ws None (snd (resolve_primary_location now db ws None c))
    = (Inr l, snd (resolve_primary_location now db ws None c))"
proof -
  have "cache_get later ws (cache_set now ws l c) = Some l"
    using assms(3) by (simp add: cache_get_def cache_set_def cache_ttl_secs_def)
  moreover have "snd (resolve_primary_location now db ws None c) = cache_set now ws l c"
    using assms(1,2) by (auto simp: resolve_primary_location_def Let_def split: sum.splits)
  ultimately show ?thesis by (simp add: resolve_primary_location_def)
qed

definition pos_of :: "remote_db \<Rightarrow> pos_db" where
  "pos_of db = remote_db.extend db (pos_db.fields
     \<lparr>cs_entities = (\<lambda>_. []), cs_zones = [], cs_cursors = [], cs_tombstones = [], cs_counters = [], cs_series = []\<rparr>
     promo_empty [\<lparr>il_id = ''A'', il_name = ''Shop'', il_active = 1\<rparr>, \<lparr>il_id = ''B'', il_name = ''Store'', il_active = 1\<rparr>]
     [\<lparr>wi_id = ''w'', wi_bound = None\<rparr>]
     [\<lparr>wl_instance = ''w'', wl_location = ''A'', wl_primary = 0, wl_sort = 1\<rparr>, \<lparr>wl_instance = ''w'', wl_location = ''B'', wl_primary = 1, wl_sort = 2\<rparr>]
     [] [] [] [] [])"

lemma primary_heads_route_witness:
  "fst (resolve_primary_location 0 (pos_of empty_remote) ''w'' None []) = Inr ''B''
   \<and> resolve_all_locations (pos_of empty_remote) ''w'' = Inr [''B'', ''A'']"
proof -
  let ?db = "pos_of empty_remote"
  have rows: "ws_rows ?db ''w'' = [\<lparr>wl_instance = ''w'', wl_location = ''A'', wl_primary = 0, wl_sort = 1\<rparr>,
      \<lparr>wl_instance = ''w'', wl_location = ''B'', wl_primary = 1, wl_sort = 2\<rparr>]" by code_simp
  have all: "resolve_all_locations ?db ''w'' = Inr [''B'', ''A'']" by code_simp
  have "cache_get 0 ''w'' [] = None" "bound_location ?db ''w'' = Inr None" by code_simp+
  moreover have "\<not> (is_bound None \<and> ws_rows ?db ''w'' \<noteq> [])" by (simp add: is_bound_def)
  moreover have "\<forall>r \<in> set (ws_rows ?db ''w''). wl_primary r \<in> {0, 1}" by (simp add: rows)
  moreover have "\<forall>r \<in> set (ws_rows ?db ''w''). \<forall>r' \<in> set (ws_rows ?db ''w''). wl_primary r = 1 \<and> wl_primary r' = 1 \<longrightarrow> r = r'"
    by (simp add: rows)
  ultimately obtain l ls where "fst (resolve_primary_location 0 ?db ''w'' None []) = Inr l" "resolve_all_locations ?db ''w'' = Inr ls"
      "if ws_rows ?db ''w'' \<noteq> [] \<and> (\<forall>r \<in> set (ws_rows ?db ''w''). wl_primary r \<noteq> 1) then l = canonical_default_location else l = hd ls"
    using primary_heads_route by blast
  then show ?thesis by (auto simp: rows all)
qed

definition small_line :: "string \<Rightarrow> int \<Rightarrow> sale_line" where
  "small_line sku q = \<lparr>sline_id = sku, sline_sale_id = ''s'', sline_sku = sku, sline_qty = q,
     sline_unit_price = \<lparr>minor_units = 100, currency = Currency CHR ''I'' CHR ''D'' CHR ''R''\<rparr>, sline_total = \<lparr>minor_units = 100 * q, currency = Currency CHR ''I'' CHR ''D'' CHR ''R''\<rparr>, line_position = 1,
     tax_amount = \<lparr>minor_units = 0, currency = Currency CHR ''I'' CHR ''D'' CHR ''R''\<rparr>, tax_rate_id = None, tax_breakdown_json = None, serial_number = None,
     sline_course = None, modifiers_json = None\<rparr>"

lemma stock_check_exact_witness:
  "plan_stock (pos_of empty_remote) None [''A''] [small_line ''cup'' 2] = Ok \<lparr>pl_deductions = [], pl_lines = [], pl_short =
     [\<lparr>sf_sku = ''cup'', sf_name = ''cup'', sf_requested = 2, sf_primary_available = 0, sf_deficit = 2,
       sf_primary_location = ''A'', sf_alternatives = []\<rparr>]\<rparr>"
proof -
  have "\<forall>l \<in> set [small_line ''cup'' 2]. in_i64 (sline_qty l)" by (simp add: small_line_def range_simps)
  moreover have "sale_needs (pos_of empty_remote) [small_line ''cup'' 2] = [(None, ''cup'', 2)]" by code_simp
  moreover have "own_allocations (pos_of empty_remote) [''A''] [small_line ''cup'' 2] = []" by code_simp
  moreover have "in_i64 2" by (simp add: range_simps)
  ultimately show ?thesis
    using stock_check_exact [of "[small_line ''cup'' 2]" "pos_of empty_remote" None "[''A'']"]
    by (simp add: need_deductions_def need_shortfall_def covered_def)
qed

end
