(* ===== verification/Checkout.thy ===== *)
theory Checkout
  imports Stock_Routing
begin

section \<open>Checking out\<close>

text \<open>
  Models the checkout of \<open>crates/kasirmu-core/src/db/sales_checkout.rs\<close>, its retry with resolved shortfalls and the
  voiding of sales in \<open>db/sales_lifecycle.rs\<close>, the lines of \<open>db/sales.rs\<close> and \<open>db/payments.rs\<close>. A transaction that
  fails carries no state. Whether the register may sell is the flag \<open>qe_locked\<close> of its tenant. The status of a sale is
  kept in the row of \<open>Loyalty\<close>; the row of \<open>Promotion\<close> holds the columns promotions look at, as inserted. The
  popularity of products, recomputed after a retry, and log output are left out; the fixed thirty minutes until a
  pending sale expires are part of the argument \<open>xa_expires\<close>.
\<close>

subsection \<open>Arguments and results\<close>

record pos_env =
  xe_queue :: queue_env
  xe_render :: "json \<Rightarrow> string"
  xe_parse :: "string \<Rightarrow> json option"
  xe_date :: "string \<Rightarrow> int \<Rightarrow> (string \<times> string) option"

record pos_args =
  xa_remote :: remote_args
  xa_expires :: string
  xa_txn :: string
  xa_payment :: "nat \<Rightarrow> string"
  xa_queue :: "nat \<Rightarrow> queue_args"
  xa_line_now :: "nat \<Rightarrow> string"

abbreviation xa_now :: "pos_args \<Rightarrow> string" where
  "xa_now x \<equiv> ma_now (xa_remote x)"

record sale_result =
  cr_sale :: string
  cr_status :: sale_status
  cr_receipt :: string
  cr_statutory :: "string option"
  cr_txn :: string

definition attempt :: "core_error + 'a \<Rightarrow> ('a \<Rightarrow> (checkout_error, 'b) outcome) \<Rightarrow> (checkout_error, 'b) outcome" where
  "attempt r f = (case r of Inl e \<Rightarrow> Err (Failed e) | Inr x \<Rightarrow> f x)"

lemma attempt_Ok [simp]: "attempt r f = Ok y \<longleftrightarrow> (\<exists>x. r = Inr x \<and> f x = Ok y)"
  by (simp add: attempt_def split: sum.split)

subsection \<open>Rows of a sale\<close>

fun sum_splits :: "payment_split list \<Rightarrow> int \<Rightarrow> core_error + int" where
  "sum_splits [] acc = Inr acc"
| "sum_splits (p # ps) acc =
     (if ps_amount_minor p < 0 then Inl (Validation ''payments'')
      else (case checked_add acc (ps_amount_minor p) of
          None \<Rightarrow> Inl (Validation ''payments'') | Some v \<Rightarrow> sum_splits ps v))"

definition validate_payment_splits_cover_total :: "payment_split list \<Rightarrow> int \<Rightarrow> core_error + unit" where
  "validate_payment_splits_cover_total ps t =
     (case sum_splits ps 0 of Inl e \<Rightarrow> Inl e | Inr v \<Rightarrow> if v < t then Inl (Validation ''payments'') else Inr ())"

definition insert_sale_row ::
    "pos_args \<Rightarrow> sale \<Rightarrow> string \<Rightarrow> sale_status \<Rightarrow> string \<Rightarrow> string option \<Rightarrow> json option \<Rightarrow> string option \<Rightarrow> string option
       \<Rightarrow> 'a pos_db_scheme \<Rightarrow> core_error + 'a pos_db_scheme" where
  "insert_sale_row x s cur stat deductions expires estimate terminal display st =
     (if find_sale st (sale_id s) \<noteq> None \<or> sale_line_count s < 0
         \<or> (case customer_id s of None \<Rightarrow> False | Some c \<Rightarrow> c \<notin> cu_id ` set (lo_customers (sh_loyalty st)))
         \<or> display \<noteq> None \<and> display \<in> ck_display ` set (po_checkouts st)
      then Inl Db
      else Inr (st\<lparr>sh_loyalty := (sh_loyalty st)\<lparr>lo_sales := lo_sales (sh_loyalty st) @
                  [\<lparr>so_id = sale_id s, so_customer = customer_id s, so_total = minor_units (sale.total s),
                    so_status = as_stored_str stat, so_currency = cur, so_base_total = base_total_minor s,
                    so_tenant = Some ''default'', so_deductions = Some deductions, so_terminal = terminal,
                    so_updated_at = xa_now x, so_version = 1\<rparr>]\<rparr>,
                po_promos := (po_promos st)\<lparr>sale_rows := sale_rows (po_promos st) @
                  [s\<lparr>status := stat, updated_at := xa_now x, version := 1\<rparr>]\<rparr>,
                po_checkouts := po_checkouts st @ [\<lparr>ck_sale = sale_id s, ck_expires = expires, ck_estimate = estimate,
                  ck_display = display, ck_statutory = None\<rparr>]\<rparr>))"

definition line_snapshot :: "'a pos_db_scheme \<Rightarrow> sale_line \<Rightarrow> line_row" where
  "line_snapshot st l = (case pos_product_by_sku st (sline_sku l) of
     None \<Rightarrow> \<lparr>lw_line = l, lw_cost = None, lw_product = None, lw_name = None, lw_category = None\<rparr>
   | Some p \<Rightarrow>
       (let c = (case map_of (po_costs st) (pd_id p) of None \<Rightarrow> 0 | Some c \<Rightarrow> c)
        in \<lparr>lw_line = l, lw_cost = (if c > 0 then Some c else None), lw_product = Some (pd_id p),
            lw_name = Some (pd_name p), lw_category = pd_category p\<rparr>))"

definition insert_sale_line :: "sale_line \<Rightarrow> 'a pos_db_scheme \<Rightarrow> core_error + 'a pos_db_scheme" where
  "insert_sale_line l st =
     (case currency_str (money.currency (sline_unit_price l)) ''currency'' of
        Inl e \<Rightarrow> Inl e
      | Inr _ \<Rightarrow>
          if sline_id l \<in> sw_id ` set (sh_lines st) \<or> find_sale st (sline_sale_id l) = None \<or> sline_qty l \<le> 0
             \<or> (sline_sale_id l, line_position l) \<in> (\<lambda>r. (sline_sale_id (lw_line r), line_position (lw_line r))) ` set (po_lines st)
             \<or> (case tax_rate_id l of None \<Rightarrow> False | Some t \<Rightarrow> t \<notin> set (po_tax_rates st))
          then Inl Db
          else Inr (st\<lparr>sh_lines := sh_lines st @ [\<lparr>sw_id = sline_id l, sw_sale = sline_sale_id l, sw_sku = sline_sku l,
                 sw_qty = sline_qty l, sw_minor = minor_units (sline_total l)\<rparr>],
               po_lines := po_lines st @ [line_snapshot st l]\<rparr>))"

definition sale_audit :: "pos_args \<Rightarrow> sale \<Rightarrow> string \<Rightarrow> audit_row" where
  "sale_audit x s cur = \<lparr>au_id = ma_audit_id (xa_remote x), au_user = (case user_id s of None \<Rightarrow> [] | Some u \<Rightarrow> u),
     au_action = ''sale.completed'', au_target_type = ''sale'', au_target = sale_id s,
     au_details = jobj [(''sale_id'', JStr (sale_id s)), (''total_minor'', json_int (minor_units (sale.total s))),
       (''currency'', JStr cur), (''line_count'', json_int (int (length (sale_lines s))))],
     au_outcome = ''success'', au_created_at = xa_now x\<rparr>"

definition tenant_of_sale :: "'a pos_db_scheme \<Rightarrow> string \<Rightarrow> string option option" where
  "tenant_of_sale st sale = map_option so_tenant (find_sale st sale)"

definition payment_of :: "string \<Rightarrow> string \<Rightarrow> payment_split \<Rightarrow> string \<Rightarrow> string \<Rightarrow> payment_row" where
  "payment_of i sale p cur now = \<lparr>py_id = i, py_sale = sale, py_method = ps_method p, py_amount = ps_amount_minor p,
     py_currency = cur, py_created_at = now, py_gateway_reference = ps_gateway_reference p,
     py_gateway_status = ps_gateway_status p, py_gateway_response = ps_gateway_response p,
     py_idempotency_key = ps_idempotency_key p\<rparr>"

text \<open>The n-th payment has its own id and its own outbox row.\<close>

fun record_payments ::
    "pos_env \<Rightarrow> pos_args \<Rightarrow> string \<Rightarrow> string \<Rightarrow> nat \<Rightarrow> payment_split list \<Rightarrow> 'a pos_db_scheme \<Rightarrow> core_error + 'a pos_db_scheme" where
  "record_payments env x sale cur n [] st = Inr st"
| "record_payments env x sale cur n (p # ps) st =
     (case insert_payment_in_tx (payment_of (xa_payment x n) sale p cur (xa_now x)) st of
        Inl e \<Rightarrow> Inl e
      | Inr st1 \<Rightarrow>
          (case enqueue_payment_recorded_outbox_in_tx (xe_render env) (xe_queue env) (xa_queue x (Suc n)) (tenant_of_sale st1 sale)
                  (xa_payment x n) sale p cur (xa_now x) (sh_queue st1) of
             Inl e \<Rightarrow> Inl e
           | Inr q \<Rightarrow> record_payments env x sale cur (Suc n) ps (st1\<lparr>sh_queue := q\<rparr>)))"

definition stamp_statutory :: "string \<Rightarrow> string option \<Rightarrow> 'a pos_db_scheme \<Rightarrow> 'a pos_db_scheme" where
  "stamp_statutory sale n st = (case n of None \<Rightarrow> st
     | Some t \<Rightarrow> st\<lparr>po_checkouts := map (\<lambda>r. if ck_sale r = sale then r\<lparr>ck_statutory := Some t\<rparr> else r) (po_checkouts st)\<rparr>)"

text \<open>What both doors do once the row of the sale is there: lines, outbox, audit, payments, promotions, number.\<close>

definition settle ::
    "pos_env \<Rightarrow> pos_args \<Rightarrow> sale \<Rightarrow> string \<Rightarrow> payment_split list \<Rightarrow> promotion_application list \<Rightarrow> string
       \<Rightarrow> 'a pos_db_scheme \<Rightarrow> (checkout_error, string option \<times> 'a pos_db_scheme) outcome" where
  "settle env x s cur splits apps primary st =
     attempt (each insert_sale_line (sale_lines s) st) (\<lambda>st1.
     attempt (enqueue_sale_outbox_in_tx (xe_render env) (xe_queue env) (xa_queue x 0) (tenant_of_sale st1 (sale_id s)) s cur
                (sh_queue st1)) (\<lambda>q.
     attempt (insert_audit (sale_audit x s cur) (st1\<lparr>sh_queue := q\<rparr>)) (\<lambda>st2.
     attempt (record_payments env x (sale_id s) cur 0 splits st2) (\<lambda>st3.
     attempt (persist_checkout_applications (sale_id s) apps (po_promos st3)) (\<lambda>ps.
     attempt (claim_statutory_number_for_sale primary ''receipt'' (xa_now x) (po_codes st3)) (\<lambda>(n, codes).
       Ok (n, stamp_statutory (sale_id s) n (st3\<lparr>po_promos := ps, po_codes := codes\<rparr>))))))))"

subsection \<open>The checkout\<close>

definition allocation_json :: "string \<Rightarrow> location_allocation \<Rightarrow> json" where
  "allocation_json now a = jobj [(''location_id'', JStr (ac_location a)), (''qty'', json_int (ac_qty a)), (''sold_at'', JStr now)]"

definition line_json :: "sale_line \<Rightarrow> json list \<Rightarrow> json" where
  "line_json l ds = jobj [(''sale_line_id'', JStr (sline_id l)), (''sku'', JStr (sline_sku l)), (''deductions'', JArr ds)]"

definition deduction_json :: "json list \<Rightarrow> json" where
  "deduction_json ls = jobj [(''version'', json_int 1), (''lines'', JArr ls)]"

definition allocations_or_primary :: "string \<Rightarrow> (string \<times> location_allocation list) list \<Rightarrow> sale_line \<Rightarrow> location_allocation list" where
  "allocations_or_primary primary ds l =
     (case map_of ds (sline_id l) of Some as \<Rightarrow> as | None \<Rightarrow> [\<lparr>ac_location = primary, ac_qty = sline_qty l\<rparr>])"

definition checkout_json :: "string \<Rightarrow> string \<Rightarrow> (string \<times> location_allocation list) list \<Rightarrow> sale_line list \<Rightarrow> json" where
  "checkout_json now primary ds ls =
     deduction_json (map (\<lambda>l. line_json l (map (allocation_json now) (allocations_or_primary primary ds l))) ls)"

definition estimate_note :: "sale \<Rightarrow> json" where
  "estimate_note s = jobj [(''estimated'', JBool True), (''computed_tax'', json_int (minor_units (tax_total s)))]"

definition sale_result_of :: "pos_args \<Rightarrow> sale \<Rightarrow> sale_status \<Rightarrow> string option \<Rightarrow> string option \<Rightarrow> sale_result" where
  "sale_result_of x s stat display n = \<lparr>cr_sale = sale_id s, cr_status = stat,
     cr_receipt = (case display of None \<Rightarrow> sale_id s | Some d \<Rightarrow> d), cr_statutory = n, cr_txn = xa_txn x\<rparr>"

definition complete_sale_deduction_with_locations_and_estimate ::
    "pos_env \<Rightarrow> pos_args \<Rightarrow> sale \<Rightarrow> string option \<Rightarrow> string list \<Rightarrow> payment_split list \<Rightarrow> string \<Rightarrow> string option
       \<Rightarrow> promotion_application list \<Rightarrow> bool \<Rightarrow> 'a pos_db_scheme \<Rightarrow> (checkout_error, sale_result \<times> 'a pos_db_scheme) outcome" where
  "complete_sale_deduction_with_locations_and_estimate env x s ws route splits staff terminal apps estimated st =
     (if list_ex (\<lambda>l. sline_qty l < 0) (sale_lines s) then Err (Failed (Validation ''qty''))
      else if qe_locked (xe_queue env) ''default'' then Err (Failed SubscriptionReadOnly)
      else (let route = (if route = [] then [canonical_default_location] else route); primary = hd route
        in obind (plan_stock st ws route (sale_lines s)) (\<lambda>pl.
           if pl_short pl \<noteq> [] then Err (Short (pl_short pl))
           else attempt (validate_payment_splits_cover_total splits (minor_units (sale.total s))) (\<lambda>_.
           attempt (adjust_stock_batch (ma_adjust (xa_remote x)) (pl_deductions pl) (Some ''sale'') None terminal (Some staff)
                      (sh_stock st)) (\<lambda>stock.
           attempt (currency_str (sale_currency s) ''currency'') (\<lambda>cur.
           attempt (mint_receipt_code (xe_date env) ''default'' primary terminal staff (xa_now x) (po_codes st))
             (\<lambda>((display, term), codes).
           attempt (insert_sale_row x s cur Pending
                      (xe_render env (checkout_json (xa_now x) primary (pl_lines pl) (sale_lines s))) (Some (xa_expires x))
                      (if estimated then Some (estimate_note s) else None) term display
                      (st\<lparr>sh_stock := stock, po_codes := codes\<rparr>)) (\<lambda>st1.
           obind (settle env x s cur splits apps primary st1) (\<lambda>(n, st2).
             Ok (sale_result_of x s Pending display n, st2))))))))))"

definition complete_sale_deduction_with_locations ::
    "pos_env \<Rightarrow> pos_args \<Rightarrow> sale \<Rightarrow> string option \<Rightarrow> string list \<Rightarrow> payment_split list \<Rightarrow> string \<Rightarrow> string option
       \<Rightarrow> promotion_application list \<Rightarrow> 'a pos_db_scheme \<Rightarrow> (checkout_error, sale_result \<times> 'a pos_db_scheme) outcome" where
  "complete_sale_deduction_with_locations env x s ws route splits staff terminal apps st =
     complete_sale_deduction_with_locations_and_estimate env x s ws route splits staff terminal apps False st"

definition location_or_default :: "core_error + string \<Rightarrow> string" where
  "location_or_default r = (case r of Inl _ \<Rightarrow> canonical_default_location | Inr l \<Rightarrow> l)"

definition workspace_or_default :: "string option \<Rightarrow> string" where
  "workspace_or_default ws = (case ws of None \<Rightarrow> ''default'' | Some w \<Rightarrow> w)"

text \<open>The cache of locations is no part of the transaction.\<close>

definition complete_sale_deduction ::
    "nat \<Rightarrow> pos_env \<Rightarrow> pos_args \<Rightarrow> sale \<Rightarrow> string option \<Rightarrow> payment_split list \<Rightarrow> string \<Rightarrow> string option
       \<Rightarrow> 'a pos_db_scheme \<Rightarrow> location_cache \<Rightarrow> (checkout_error, sale_result \<times> 'a pos_db_scheme) outcome \<times> location_cache" where
  "complete_sale_deduction at env x s ws splits staff terminal st cache =
     (case resolve_primary_location at st (workspace_or_default ws) None cache of
        (r, cache') \<Rightarrow>
          (complete_sale_deduction_with_locations env x s ws [location_or_default r] splits staff terminal [] st, cache'))"

subsection \<open>The retry with resolved shortfalls\<close>

record resolved_shortfall =
  rv_sku :: string
  rv_allocations :: "location_allocation list"

definition resolution_for :: "resolved_shortfall list \<Rightarrow> string \<Rightarrow> location_allocation list option" where
  "resolution_for rs sku = map_of (rev (map (\<lambda>r. (rv_sku r, rv_allocations r)) rs)) sku"

definition resolved_allocation ::
    "'a pos_db_scheme \<Rightarrow> string option \<Rightarrow> string \<Rightarrow> location_allocation \<Rightarrow> stock_deduction list \<Rightarrow> (checkout_error, stock_deduction list) outcome" where
  "resolved_allocation st ws sku a ds =
     (if ac_qty a \<le> 0 then Ok ds
      else (case pos_product_by_sku st sku of
          None \<Rightarrow> Err (Failed (NotFound ''product'' sku))
        | Some p \<Rightarrow>
            (let available = location_qty (sh_stock st) (pd_id p) (ac_location a)
             in if available < ac_qty a \<and> \<not> (case ws of None \<Rightarrow> False | Some w \<Rightarrow> binding_allows_negative st w (ac_location a))
                then Err (Failed (InsufficientStockAtLocation sku (ac_location a) (ac_qty a) available))
                else Ok (ds @ [\<lparr>sd_sku = sku, sd_location = ac_location a, sd_delta = - ac_qty a\<rparr>]))))"

definition primary_ingredient ::
    "'a pos_db_scheme \<Rightarrow> string \<Rightarrow> sale_line \<Rightarrow> recipe_item \<Rightarrow> stock_deduction list \<Rightarrow> (checkout_error, stock_deduction list) outcome" where
  "primary_ingredient st primary l i ds =
     (case List.find (\<lambda>p. pd_id p = ri_ingredient i) (rd_products st) of
        None \<Rightarrow> Ok ds
      | Some p \<Rightarrow>
          if \<not> row_tracks p then Ok ds
          else (case checked_mul (sline_qty l) (ri_quantity i) of
              None \<Rightarrow> Err (Failed (Validation ''qty''))
            | Some q \<Rightarrow> Ok (ds @ [\<lparr>sd_sku = pd_sku p, sd_location = primary, sd_delta = - q\<rparr>])))"

definition resolve_line ::
    "'a pos_db_scheme \<Rightarrow> string option \<Rightarrow> string \<Rightarrow> resolved_shortfall list \<Rightarrow> sale_line \<Rightarrow> stock_deduction list
       \<Rightarrow> (checkout_error, stock_deduction list) outcome" where
  "resolve_line st ws primary rs l ds =
     (case resolution_for rs (sline_sku l) of
        Some as \<Rightarrow>
          (case sum_panicking (map ac_qty as) 0 of
             Panic \<Rightarrow> Panic
           | Err e \<Rightarrow> Err (Failed e)
           | Ok v \<Rightarrow> if v \<noteq> sline_qty l then Err (Failed (Validation ''resolutions''))
               else oeach (resolved_allocation st ws (sline_sku l)) as ds)
      | None \<Rightarrow>
          (case pos_product_by_sku st (sline_sku l) of
             None \<Rightarrow> Ok ds
           | Some p \<Rightarrow>
               oeach (primary_ingredient st primary l) (get_recipe_ingredients st (pd_id p))
                 (if row_tracks p then ds @ [\<lparr>sd_sku = sline_sku l, sd_location = primary, sd_delta = - sline_qty l\<rparr>] else ds)))"

definition resolved_entry :: "string \<Rightarrow> resolved_shortfall list \<Rightarrow> sale_line \<Rightarrow> location_allocation list" where
  "resolved_entry primary rs l = (case resolution_for rs (sline_sku l) of
     Some as \<Rightarrow> filter (\<lambda>a. ac_qty a > 0) as
   | None \<Rightarrow> [\<lparr>ac_location = primary, ac_qty = sline_qty l\<rparr>])"

definition resolved_json :: "pos_args \<Rightarrow> string \<Rightarrow> resolved_shortfall list \<Rightarrow> sale_line list \<Rightarrow> json" where
  "resolved_json x primary rs ls = deduction_json (map (\<lambda>(i, l). line_json l
     (map (allocation_json (xa_line_now x i)) (resolved_entry primary rs l))) (enumerate 0 ls))"

definition complete_resolved_at ::
    "pos_env \<Rightarrow> pos_args \<Rightarrow> sale \<Rightarrow> string option \<Rightarrow> string \<Rightarrow> payment_split list \<Rightarrow> string \<Rightarrow> string option
       \<Rightarrow> resolved_shortfall list \<Rightarrow> promotion_application list \<Rightarrow> 'a pos_db_scheme
       \<Rightarrow> (checkout_error, sale_result \<times> 'a pos_db_scheme) outcome" where
  "complete_resolved_at env x s ws primary splits staff terminal rs apps st =
     obind (oeach (resolve_line st ws primary rs) (sale_lines s) []) (\<lambda>ds.
     attempt (validate_payment_splits_cover_total splits (minor_units (sale.total s))) (\<lambda>_.
     attempt (adjust_stock_batch (ma_adjust (xa_remote x)) ds (Some ''sale'') None terminal (Some staff) (sh_stock st)) (\<lambda>stock.
     attempt (currency_str (sale_currency s) ''currency'') (\<lambda>cur.
     attempt (mint_receipt_code (xe_date env) ''default'' primary terminal staff (xa_now x) (po_codes st))
       (\<lambda>((display, term), codes).
     attempt (insert_sale_row x s cur Completed (xe_render env (resolved_json x primary rs (sale_lines s))) None None term display
                (st\<lparr>sh_stock := stock, po_codes := codes\<rparr>)) (\<lambda>st1.
     obind (settle env x s cur splits apps primary
              (st1\<lparr>sh_loyalty := apply_customer_stats_on_completion (xa_remote x) (sale_id s) (sh_loyalty st1)\<rparr>)) (\<lambda>(n, st2).
       Ok (sale_result_of x s Completed display n, st2))))))))"

definition complete_sale_with_resolved_shortfalls ::
    "nat \<Rightarrow> pos_env \<Rightarrow> pos_args \<Rightarrow> sale \<Rightarrow> string option \<Rightarrow> payment_split list \<Rightarrow> string \<Rightarrow> string option
       \<Rightarrow> resolved_shortfall list \<Rightarrow> promotion_application list \<Rightarrow> 'a pos_db_scheme \<Rightarrow> location_cache
       \<Rightarrow> (checkout_error, sale_result \<times> 'a pos_db_scheme) outcome \<times> location_cache" where
  "complete_sale_with_resolved_shortfalls at env x s ws splits staff terminal rs apps st cache =
     (if list_ex (\<lambda>l. sline_qty l < 0) (sale_lines s) then (Err (Failed (Validation ''qty'')), cache)
      else if qe_locked (xe_queue env) ''default'' then (Err (Failed SubscriptionReadOnly), cache)
      else (case resolve_primary_location at st (workspace_or_default ws) None cache of
          (r, cache') \<Rightarrow> (complete_resolved_at env x s ws (location_or_default r) splits staff terminal rs apps st, cache')))"

subsection \<open>Voiding\<close>

definition void_entry :: "remote_args \<Rightarrow> string \<Rightarrow> json \<Rightarrow> nat \<times> 'a pos_db_scheme \<Rightarrow> core_error + nat \<times> 'a pos_db_scheme" where
  "void_entry x sku d s =
     (case as_str (jget d ''location_id'') of
        None \<Rightarrow> Inl (Validation ''location_id'')
      | Some l \<Rightarrow> (case as_i64 (jget d ''qty'') of
          None \<Rightarrow> Inl (Validation ''qty'')
        | Some q \<Rightarrow> adjust_at x sku q l (Some ''void_pending'') s))"

definition void_line :: "remote_args \<Rightarrow> json \<Rightarrow> nat \<times> 'a pos_db_scheme \<Rightarrow> core_error + nat \<times> 'a pos_db_scheme" where
  "void_line x j s =
     (case as_str (jget j ''sku'') of
        None \<Rightarrow> Inl (Validation ''sku'')
      | Some sku \<Rightarrow> (case as_array (jget j ''deductions'') of
          None \<Rightarrow> Inr s | Some ds \<Rightarrow> each (void_entry x sku) ds s))"

definition void_credit ::
    "(string \<Rightarrow> json option) \<Rightarrow> remote_args \<Rightarrow> string option \<Rightarrow> 'a pos_db_scheme \<Rightarrow> core_error + 'a pos_db_scheme" where
  "void_credit parse x text st =
     (if text = None \<or> text = Some [] \<or> text = Some ''null'' then Inr st
      else (case parse (the text) of
          None \<Rightarrow> Inl (Validation ''deduction_locations'')
        | Some v \<Rightarrow> (case as_array (jget v ''lines'') of
            None \<Rightarrow> Inr st
          | Some ls \<Rightarrow> (case each (void_line x) ls (0, st) of Inl e \<Rightarrow> Inl e | Inr (_, st') \<Rightarrow> Inr st'))))"

definition void_pending_sale :: "pos_env \<Rightarrow> remote_args \<Rightarrow> string \<Rightarrow> 'a pos_db_scheme \<Rightarrow> core_error + 'a pos_db_scheme" where
  "void_pending_sale env x sale st =
     (case List.find (\<lambda>s. so_id s = sale \<and> so_status s = ''pending'') (lo_sales (sh_loyalty st)) of
        None \<Rightarrow> Inl (NotFound ''pending sale'' sale)
      | Some row \<Rightarrow>
          (case void_credit (xe_parse env) x (so_deductions row) st of
             Inl e \<Rightarrow> Inl e
           | Inr st1 \<Rightarrow>
               (case set_sale_status x sale ''pending'' ''voided'' st1 of
                  (rows, st2) \<Rightarrow> Inr (if rows = 0 then st else snd (cancel_kds_orders_for_sale_in_tx sale st2)))))"

definition find_stale_pending_sales :: "string \<Rightarrow> 'a pos_db_scheme \<Rightarrow> string list" where
  "find_stale_pending_sales now st =
     map so_id (filter (\<lambda>s. so_status s = ''pending''
       \<and> list_ex (\<lambda>c. ck_sale c = so_id s \<and> (case ck_expires c of None \<Rightarrow> False | Some t \<Rightarrow> t < now)) (po_checkouts st))
       (lo_sales (sh_loyalty st)))"

text \<open>Each void has its own ids; a failed one is skipped.\<close>

fun reap_sales :: "pos_env \<Rightarrow> (nat \<Rightarrow> remote_args) \<Rightarrow> nat \<Rightarrow> string list \<Rightarrow> nat \<times> 'a pos_db_scheme \<Rightarrow> nat \<times> 'a pos_db_scheme" where
  "reap_sales env xs n [] s = s"
| "reap_sales env xs n (sale # sales) (k, st) =
     (case void_pending_sale env (xs n) sale st of
        Inl _ \<Rightarrow> reap_sales env xs (Suc n) sales (k, st)
      | Inr st' \<Rightarrow> reap_sales env xs (Suc n) sales (Suc k, st'))"

definition reap_stale_pending_sales :: "pos_env \<Rightarrow> (nat \<Rightarrow> remote_args) \<Rightarrow> string \<Rightarrow> 'a pos_db_scheme \<Rightarrow> nat \<times> 'a pos_db_scheme" where
  "reap_stale_pending_sales env xs now st = reap_sales env xs 0 (find_stale_pending_sales now st) (0, st)"

text \<open>The transition after a captured payment; \<open>finalize_sale_in_tx\<close> is the same statement for other callers.\<close>

definition finalize_sale :: "remote_args \<Rightarrow> string \<Rightarrow> 'a pos_db_scheme \<Rightarrow> 'a pos_db_scheme" where
  "finalize_sale x sale st = finalize_sale_in_tx x sale st"

text \<open>\<open>void_sale\<close> reads the sale before its transaction.\<close>

definition void_sale_check :: "'a pos_db_scheme \<Rightarrow> string \<Rightarrow> core_error + sale_row" where
  "void_sale_check st sale =
     (case find_sale st sale of
        None \<Rightarrow> Inl (NotFound ''sale'' sale)
      | Some s \<Rightarrow> if so_status s \<noteq> ''active'' then Inl (Validation ''status'') else Inr s)"

definition void_audit :: "remote_args \<Rightarrow> string \<Rightarrow> string \<Rightarrow> sale_row \<Rightarrow> audit_row" where
  "void_audit x user why s = \<lparr>au_id = ma_audit_id x, au_user = user, au_action = ''sale.void'', au_target_type = ''sale'',
     au_target = so_id s, au_details = jobj [(''reason'', JStr why), (''total_minor'', json_int (so_total s))],
     au_outcome = ''success'', au_created_at = ma_now x\<rparr>"

definition void_sale_commit ::
    "pos_env \<Rightarrow> remote_args \<Rightarrow> queue_args \<Rightarrow> string \<Rightarrow> string \<Rightarrow> sale_row \<Rightarrow> 'a pos_db_scheme \<Rightarrow> core_error + 'a pos_db_scheme" where
  "void_sale_commit env x q user why s st =
     (case set_sale_status x (so_id s) ''active'' ''voided'' st of
        (rows, st1) \<Rightarrow>
          if rows = 0 then Inl (Conflict ''sale'' ''version'')
          else (case insert_audit (void_audit x user why s) st1 of
              Inl e \<Rightarrow> Inl e
            | Inr st2 \<Rightarrow>
                (let st3 = snd (cancel_kds_orders_for_sale_in_tx (so_id s) st2)
                 in case enqueue_void_sale_outbox_in_tx (xe_render env) (xe_queue env) q (tenant_of_sale st3 (so_id s)) (so_id s)
                          (sh_queue st3) of
                      Inl e \<Rightarrow> Inl e | Inr oq \<Rightarrow> Inr (st3\<lparr>sh_queue := oq\<rparr>))))"

definition void_sale ::
    "pos_env \<Rightarrow> remote_args \<Rightarrow> queue_args \<Rightarrow> string \<Rightarrow> string \<Rightarrow> string \<Rightarrow> 'a pos_db_scheme \<Rightarrow> core_error + 'a pos_db_scheme" where
  "void_sale env x q sale user why st =
     (case void_sale_check st sale of Inl e \<Rightarrow> Inl e | Inr s \<Rightarrow> void_sale_commit env x q user why s st)"

subsection \<open>Payments\<close>

definition payment_currency_ok :: "payment_row \<Rightarrow> bool" where
  "payment_currency_ok p \<longleftrightarrow> (case currency_from_str (py_currency p) of Inl _ \<Rightarrow> False | Inr _ \<Rightarrow> True)"

definition payment_with_key :: "'a remote_db_scheme \<Rightarrow> string \<Rightarrow> payment_row option" where
  "payment_with_key st key = List.find (\<lambda>p. py_idempotency_key p = Some key) (rd_payments st)"

fun create_payments_from ::
    "(nat \<Rightarrow> string) \<Rightarrow> nat \<Rightarrow> string \<Rightarrow> string \<Rightarrow> string \<Rightarrow> payment_split list \<Rightarrow> 'a remote_db_scheme
       \<Rightarrow> core_error + payment_row list \<times> 'a remote_db_scheme" where
  "create_payments_from ids n sale cur now [] st = Inr ([], st)"
| "create_payments_from ids n sale cur now (p # ps) st =
     (case Option.bind (ps_idempotency_key p) (payment_with_key st) of
        Some old \<Rightarrow>
          if \<not> payment_currency_ok old then Inl Db
          else (case create_payments_from ids (Suc n) sale cur now ps st of
              Inl e \<Rightarrow> Inl e | Inr (rs, st') \<Rightarrow> Inr (old # rs, st'))
      | None \<Rightarrow>
          (case insert_payment_in_tx (payment_of (ids n) sale p cur now) st of
             Inl e \<Rightarrow> Inl e
           | Inr st1 \<Rightarrow> (case create_payments_from ids (Suc n) sale cur now ps st1 of
               Inl e \<Rightarrow> Inl e | Inr (rs, st') \<Rightarrow> Inr (payment_of (ids n) sale p cur now # rs, st'))))"

definition create_payments ::
    "(nat \<Rightarrow> string) \<Rightarrow> string \<Rightarrow> payment_split list \<Rightarrow> currency \<Rightarrow> string \<Rightarrow> 'a remote_db_scheme
       \<Rightarrow> core_error + payment_row list \<times> 'a remote_db_scheme" where
  "create_payments ids sale ps c now st =
     (case currency_str c ''currency'' of Inl e \<Rightarrow> Inl e | Inr cur \<Rightarrow> create_payments_from ids 0 sale cur now ps st)"

definition list_payments_for_sale :: "'a remote_db_scheme \<Rightarrow> string \<Rightarrow> core_error + payment_row list" where
  "list_payments_for_sale st sale =
     (let ps = sort_key py_created_at (filter (\<lambda>p. py_sale p = sale) (rd_payments st))
      in if list_all payment_currency_ok ps then Inr ps else Inl Db)"

definition find_sale_by_idempotency_key :: "'a remote_db_scheme \<Rightarrow> string \<Rightarrow> string option" where
  "find_sale_by_idempotency_key st key = map_option py_sale (payment_with_key st key)"

end
