(* ===== verification/Checkout_Facts.thy ===== *)
theory Checkout_Facts
  imports Checkout
begin

section \<open>What a checkout does\<close>

text \<open>
  The goods a checkout takes from stock and a void gives back, the payments and outbox rows it writes, and what
  holds after any history of checkouts, retries and voids.
\<close>

subsection \<open>The steps of a settlement\<close>

definition same_books :: "'a pos_db_scheme \<Rightarrow> 'a pos_db_scheme \<Rightarrow> bool" where
  "same_books a b \<longleftrightarrow> sh_stock b = sh_stock a \<and> sh_loyalty b = sh_loyalty a \<and> rd_products b = rd_products a
     \<and> po_recipes b = po_recipes a \<and> map ck_sale (po_checkouts b) = map ck_sale (po_checkouts a)
     \<and> map ck_display (po_checkouts b) = map ck_display (po_checkouts a)"

lemma same_books_refl [simp]: "same_books a a"
  by (simp add: same_books_def)

lemma same_books_trans: "same_books a b \<Longrightarrow> same_books b c \<Longrightarrow> same_books a c"
  by (simp add: same_books_def)

lemma tenant_same: "same_books a b \<Longrightarrow> tenant_of_sale b s = tenant_of_sale a s"
  by (simp add: same_books_def tenant_of_sale_def find_sale_def)

lemma insert_sale_lines_frame:
  assumes "each insert_sale_line ls st = Inr st'"
  shows "same_books st st' \<and> rd_payments st' = rd_payments st \<and> sh_queue st' = sh_queue st"
proof (rule each_keeps [where P = "\<lambda>t. same_books st t \<and> rd_payments t = rd_payments st \<and> sh_queue t = sh_queue st", OF _ assms])
  show "same_books st b \<and> rd_payments b = rd_payments st \<and> sh_queue b = sh_queue st"
    if "insert_sale_line l a = Inr b" "same_books st a \<and> rd_payments a = rd_payments st \<and> sh_queue a = sh_queue st" for l a b
    using that by (auto simp: insert_sale_line_def same_books_def split: sum.splits if_splits)
qed simp

text \<open>The rows of the payments and of the outbox.\<close>

definition payment_rows :: "pos_args \<Rightarrow> string \<Rightarrow> string \<Rightarrow> nat \<Rightarrow> payment_split list \<Rightarrow> payment_row list" where
  "payment_rows x sale cur n ps = map (\<lambda>(i, p). payment_of (xa_payment x i) sale p cur (xa_now x)) (enumerate n ps)"

definition outbox_item :: "pos_env \<Rightarrow> queue_args \<Rightarrow> string \<Rightarrow> json \<Rightarrow> offline_queue_item" where
  "outbox_item env q action payload = (queue_item_with_tenant q action (xe_render env payload) ''default'')
     \<lparr>priority := Critical, origin_terminal_id := qe_terminal (xe_queue env)\<rparr>"

definition payment_items :: "pos_env \<Rightarrow> pos_args \<Rightarrow> string \<Rightarrow> string \<Rightarrow> nat \<Rightarrow> payment_split list \<Rightarrow> offline_queue_item list" where
  "payment_items env x sale cur n ps = map (\<lambda>(i, p). outbox_item env (xa_queue x (Suc i)) ''payment.recorded''
     (payment_payload (xa_payment x i) sale p cur (xa_now x))) (enumerate n ps)"

lemma payment_rows_simps [simp]:
  "payment_rows x sale cur n [] = []"
  "payment_rows x sale cur n (p # ps) = payment_of (xa_payment x n) sale p cur (xa_now x) # payment_rows x sale cur (Suc n) ps"
  by (simp_all add: payment_rows_def)

lemma payment_items_simps [simp]:
  "payment_items env x sale cur n [] = []"
  "payment_items env x sale cur n (p # ps) = outbox_item env (xa_queue x (Suc n)) ''payment.recorded''
     (payment_payload (xa_payment x n) sale p cur (xa_now x)) # payment_items env x sale cur (Suc n) ps"
  by (simp_all add: payment_items_def)

lemma enqueue_outbox_items:
  assumes "enqueue_outbox (xe_render env) (xe_queue env) q (Some (Some ''default'')) action payload st = Inr st'"
  shows "oq_items st' = oq_items st @ [outbox_item env q action payload]"
  using assms by (auto simp: enqueue_outbox_def enqueue_offline_in_tx_def insert_queue_item_def outbox_item_def Let_def
      split: sum.splits if_splits)

definition payments_keyed :: "payment_row list \<Rightarrow> bool" where
  "payments_keyed ps \<longleftrightarrow> distinct (map py_id ps) \<and> distinct (List.map_filter py_idempotency_key ps)"

lemma payments_keyed_Nil [simp]: "payments_keyed []"
  by (simp add: payments_keyed_def List.map_filter_def)

lemma set_map_filter: "set (List.map_filter f xs) = {y. \<exists>x \<in> set xs. f x = Some y}"
  by (induction xs) (auto simp: map_filter_Cons List.map_filter_def split: option.split)

lemma payments_keyed_snoc:
  assumes "payments_keyed ps" and "py_id p \<notin> py_id ` set ps"
    and "\<not> (py_idempotency_key p \<noteq> None \<and> py_idempotency_key p \<in> py_idempotency_key ` set ps)"
  shows "payments_keyed (ps @ [p])"
proof -
  have "List.map_filter py_idempotency_key (ps @ [p])
      = List.map_filter py_idempotency_key ps @ (case py_idempotency_key p of None \<Rightarrow> [] | Some k \<Rightarrow> [k])"
    by (simp add: List.map_filter_def split: option.split)
  moreover have "k \<notin> set (List.map_filter py_idempotency_key ps)" if "py_idempotency_key p = Some k" for k
    using assms(3) that by (force simp: set_map_filter)
  ultimately show ?thesis using assms(1,2) by (auto simp: payments_keyed_def split: option.split)
qed

lemma record_payments_Inr:
  assumes "record_payments env x sale cur n ps st = Inr st'"
    and "tenant_of_sale st sale = Some (Some ''default'')" and "payments_keyed (rd_payments st)"
  shows "same_books st st' \<and> rd_payments st' = rd_payments st @ payment_rows x sale cur n ps
    \<and> oq_items (sh_queue st') = oq_items (sh_queue st) @ payment_items env x sale cur n ps \<and> payments_keyed (rd_payments st')"
  using assms
proof (induction ps arbitrary: n st)
  case (Cons p ps)
  let ?row = "payment_of (xa_payment x n) sale p cur (xa_now x)"
  obtain st1 q where 1: "insert_payment_in_tx ?row st = Inr st1"
      and 2: "enqueue_payment_recorded_outbox_in_tx (xe_render env) (xe_queue env) (xa_queue x (Suc n)) (tenant_of_sale st1 sale)
        (xa_payment x n) sale p cur (xa_now x) (sh_queue st1) = Inr q"
      and 3: "record_payments env x sale cur (Suc n) ps (st1\<lparr>sh_queue := q\<rparr>) = Inr st'"
    using Cons.prems(1) by (auto split: sum.splits)
  have st1: "st1 = st\<lparr>rd_payments := rd_payments st @ [?row]\<rparr>" and fresh: "py_id ?row \<notin> py_id ` set (rd_payments st)"
      "\<not> (py_idempotency_key ?row \<noteq> None \<and> py_idempotency_key ?row \<in> py_idempotency_key ` set (rd_payments st))"
    using 1 by (auto simp: insert_payment_in_tx_def split: if_splits)
  have tenant: "tenant_of_sale (st1\<lparr>sh_queue := q\<rparr>) sale = Some (Some ''default'')" "tenant_of_sale st1 sale = Some (Some ''default'')"
    using Cons.prems(2) by (simp_all add: st1 tenant_of_sale_def find_sale_def)
  have q: "oq_items q = oq_items (sh_queue st) @ [outbox_item env (xa_queue x (Suc n)) ''payment.recorded''
      (payment_payload (xa_payment x n) sale p cur (xa_now x))]"
    using enqueue_outbox_items [of env "xa_queue x (Suc n)" "''payment.recorded''"] 2
    by (simp add: enqueue_payment_recorded_outbox_in_tx_def tenant(2)) (simp add: st1)
  have "payments_keyed (rd_payments (st1\<lparr>sh_queue := q\<rparr>))"
    using payments_keyed_snoc [OF Cons.prems(3) fresh] by (simp add: st1)
  note ih = Cons.IH [OF 3 tenant(1) this]
  have rest: "same_books (st1\<lparr>sh_queue := q\<rparr>) st'" "payments_keyed (rd_payments st')" using ih by blast+
  have rows: "rd_payments st' = rd_payments st1 @ payment_rows x sale cur (Suc n) ps"
      "oq_items (sh_queue st') = oq_items q @ payment_items env x sale cur (Suc n) ps"
    using ih by simp_all
  have "same_books st st'" using rest(1) by (simp add: st1 same_books_def)
  moreover have "rd_payments st' = rd_payments st @ payment_rows x sale cur n (p # ps)" using rows(1) by (simp add: st1)
  ultimately show ?case using rest(2) rows(2) q by simp
qed simp

lemma settle_Ok:
  assumes "settle env x s cur splits apps primary st = Ok (n, st')"
    and "tenant_of_sale st (sale_id s) = Some (Some ''default'')" and "payments_keyed (rd_payments st)"
  shows "same_books st st'" "rd_payments st' = rd_payments st @ payment_rows x (sale_id s) cur 0 splits"
    "payments_keyed (rd_payments st')"
    "oq_items (sh_queue st') = oq_items (sh_queue st) @ outbox_item env (xa_queue x 0) ''complete_sale'' (sale_payload s cur)
       # payment_items env x (sale_id s) cur 0 splits"
proof -
  obtain st1 q st2 st3 ps codes where 1: "each insert_sale_line (sale_lines s) st = Inr st1"
      and 2: "enqueue_sale_outbox_in_tx (xe_render env) (xe_queue env) (xa_queue x 0) (tenant_of_sale st1 (sale_id s)) s cur
        (sh_queue st1) = Inr q"
      and 3: "insert_audit (sale_audit x s cur) (st1\<lparr>sh_queue := q\<rparr>) = Inr st2"
      and 4: "record_payments env x (sale_id s) cur 0 splits st2 = Inr st3"
      and st': "st' = stamp_statutory (sale_id s) n (st3\<lparr>po_promos := ps, po_codes := codes\<rparr>)"
    using assms(1) by (auto simp: settle_def split: prod.splits)
  note lines = insert_sale_lines_frame [OF 1]
  have tenant: "tenant_of_sale st1 (sale_id s) = Some (Some ''default'')"
    using tenant_same lines assms(2) by metis
  have q: "oq_items q = oq_items (sh_queue st) @ [outbox_item env (xa_queue x 0) ''complete_sale'' (sale_payload s cur)]"
    using enqueue_outbox_items [of env "xa_queue x 0" "''complete_sale''"] 2 lines by (simp add: enqueue_sale_outbox_in_tx_def tenant)
  have st2: "same_books st1 st2" "rd_payments st2 = rd_payments st1" "sh_queue st2 = q"
    using 3 by (auto simp: insert_audit_def same_books_def split: if_splits)
  have "tenant_of_sale st2 (sale_id s) = Some (Some ''default'')" using tenant_same [OF st2(1)] tenant by simp
  moreover have "payments_keyed (rd_payments st2)" using st2 lines assms(3) by simp
  ultimately have pays: "same_books st2 st3" "rd_payments st3 = rd_payments st2 @ payment_rows x (sale_id s) cur 0 splits"
      "oq_items (sh_queue st3) = oq_items (sh_queue st2) @ payment_items env x (sale_id s) cur 0 splits" "payments_keyed (rd_payments st3)"
    using record_payments_Inr [OF 4] by blast+
  have stamped: "same_books a (stamp_statutory i k a) \<and> rd_payments (stamp_statutory i k a) = rd_payments a
      \<and> sh_queue (stamp_statutory i k a) = sh_queue a" for a :: "'a pos_db_scheme" and i k
    by (auto simp: stamp_statutory_def same_books_def split: option.split)
  have last: "same_books st3 st'" "rd_payments st' = rd_payments st3" "sh_queue st' = sh_queue st3"
    using stamped [of "st3\<lparr>po_promos := ps, po_codes := codes\<rparr>" "sale_id s" n] by (simp_all add: st' same_books_def)
  show "same_books st st'" "payments_keyed (rd_payments st')"
    using last lines st2(1) pays(1,4) same_books_trans by (blast, simp only:)
  show "rd_payments st' = rd_payments st @ payment_rows x (sale_id s) cur 0 splits"
    "oq_items (sh_queue st') = oq_items (sh_queue st) @ outbox_item env (xa_queue x 0) ''complete_sale'' (sale_payload s cur)
       # payment_items env x (sale_id s) cur 0 splits"
    using last lines st2 pays q by simp_all
qed

subsection \<open>Both doors\<close>

lemma earn_keeps_sales: "earn_points_with_conn x c s t st = Inr (r, st') \<Longrightarrow> lo_sales st' = lo_sales st"
  by (auto simp: earn_points_with_conn_def insert_or_ignore_account_def insert_loyalty_txn_def update_account_def Let_def
      split: if_splits sum.splits option.splits prod.splits)

lemma stats_keep_sales [simp]: "lo_sales (apply_customer_stats_on_completion x sale st) = lo_sales st"
proof -
  have "lo_sales (award_or_keep y c s t b) = lo_sales b" for y c s t b
    using earn_keeps_sales by (auto simp: award_or_keep_def insert_or_ignore_account_def split: sum.split if_splits)
  then show ?thesis by (simp add: apply_customer_stats_on_completion_def Let_def split: option.split)
qed

text \<open>What a successful settlement amounts to, whichever door it came through.\<close>

definition settled ::
    "pos_env \<Rightarrow> pos_args \<Rightarrow> sale \<Rightarrow> payment_split list \<Rightarrow> string \<Rightarrow> string option \<Rightarrow> stock_deduction list \<Rightarrow> sale_status \<Rightarrow> string
       \<Rightarrow> 'a pos_db_scheme \<Rightarrow> 'a pos_db_scheme \<Rightarrow> bool" where
  "settled env x s splits staff terminal ds stat text st st' \<longleftrightarrow>
     validate_payment_splits_cover_total splits (minor_units (sale.total s)) = Inr ()
     \<and> adjust_stock_batch (ma_adjust (xa_remote x)) ds (Some ''sale'') None terminal (Some staff) (sh_stock st) = Inr (sh_stock st')
     \<and> rd_products st' = rd_products st \<and> po_recipes st' = po_recipes st
     \<and> find_sale st (sale_id s) = None
     \<and> (\<exists>row. lo_sales (sh_loyalty st') = lo_sales (sh_loyalty st) @ [row] \<and> so_id row = sale_id s
          \<and> so_status row = as_stored_str stat \<and> so_deductions row = Some text \<and> so_total row = minor_units (sale.total s))
     \<and> (\<exists>cur. currency_str (sale_currency s) ''currency'' = Inr cur
          \<and> rd_payments st' = rd_payments st @ payment_rows x (sale_id s) cur 0 splits
          \<and> oq_items (sh_queue st') = oq_items (sh_queue st) @ outbox_item env (xa_queue x 0) ''complete_sale'' (sale_payload s cur)
              # payment_items env x (sale_id s) cur 0 splits)
     \<and> (\<exists>display. map ck_display (po_checkouts st') = map ck_display (po_checkouts st) @ [display]
          \<and> (display \<noteq> None \<longrightarrow> display \<notin> set (map ck_display (po_checkouts st))))
     \<and> payments_keyed (rd_payments st')"

lemma insert_sale_row_Inr:
  assumes "insert_sale_row x s cur stat deductions expires estimate terminal display st = Inr st'"
  shows "sh_stock st' = sh_stock st" "rd_products st' = rd_products st" "po_recipes st' = po_recipes st"
    "rd_payments st' = rd_payments st" "sh_queue st' = sh_queue st" "find_sale st (sale_id s) = None"
    "\<exists>row. lo_sales (sh_loyalty st') = lo_sales (sh_loyalty st) @ [row] \<and> so_id row = sale_id s
       \<and> so_status row = as_stored_str stat \<and> so_deductions row = Some deductions \<and> so_tenant row = Some ''default''
       \<and> so_total row = minor_units (sale.total s)"
    "map ck_display (po_checkouts st') = map ck_display (po_checkouts st) @ [display]"
    "display \<noteq> None \<longrightarrow> display \<notin> set (map ck_display (po_checkouts st))"
  using assms by (auto simp: insert_sale_row_def split: if_splits)

lemma door_settled:
  assumes "validate_payment_splits_cover_total splits (minor_units (sale.total s)) = Inr ()"
    and "adjust_stock_batch (ma_adjust (xa_remote x)) ds (Some ''sale'') None terminal (Some staff) (sh_stock st) = Inr stock"
    and "currency_str (sale_currency s) ''currency'' = Inr cur"
    and row: "insert_sale_row x s cur stat text expires estimate tm display (st\<lparr>sh_stock := stock, po_codes := codes\<rparr>) = Inr st1"
    and loyal: "lo_sales ly = lo_sales (sh_loyalty st1)"
    and settle: "settle env x s cur splits apps primary (st1\<lparr>sh_loyalty := ly\<rparr>) = Ok (n, st')"
    and "payments_keyed (rd_payments st)"
  shows "settled env x s splits staff terminal ds stat text st st'"
proof -
  note r = insert_sale_row_Inr [OF row]
  have fresh: "find_sale st (sale_id s) = None" using r(6) by (simp add: find_sale_def)
  obtain w where w: "lo_sales (sh_loyalty st1) = lo_sales (sh_loyalty st) @ [w]" "so_id w = sale_id s"
      "so_status w = as_stored_str stat" "so_deductions w = Some text" "so_tenant w = Some ''default''"
      "so_total w = minor_units (sale.total s)"
    using r(7) by auto
  have "List.find (\<lambda>q. so_id q = sale_id s) (lo_sales (sh_loyalty st) @ [w]) = Some w"
    using fresh w(2) by (simp add: find_sale_def find_append)
  then have "tenant_of_sale (st1\<lparr>sh_loyalty := ly\<rparr>) (sale_id s) = Some (Some ''default'')"
    using w(1,5) by (simp add: tenant_of_sale_def find_sale_def loyal)
  moreover have "payments_keyed (rd_payments (st1\<lparr>sh_loyalty := ly\<rparr>))" using r(4) assms(7) by simp
  ultimately have t: "same_books (st1\<lparr>sh_loyalty := ly\<rparr>) st'"
      "rd_payments st' = rd_payments (st1\<lparr>sh_loyalty := ly\<rparr>) @ payment_rows x (sale_id s) cur 0 splits"
      "payments_keyed (rd_payments st')"
      "oq_items (sh_queue st') = oq_items (sh_queue (st1\<lparr>sh_loyalty := ly\<rparr>))
         @ outbox_item env (xa_queue x 0) ''complete_sale'' (sale_payload s cur) # payment_items env x (sale_id s) cur 0 splits"
    by (rule settle_Ok [OF settle])+
  have "sh_stock st' = stock" "rd_products st' = rd_products st" "po_recipes st' = po_recipes st"
      "lo_sales (sh_loyalty st') = lo_sales (sh_loyalty st) @ [w]"
      "map ck_display (po_checkouts st') = map ck_display (po_checkouts st) @ [display]"
    using t(1) r w(1) loyal by (simp_all add: same_books_def)
  then show ?thesis using assms(1-3) fresh w(2-4,6) t(2-4) r(4,5,9) by (auto simp: settled_def)
qed

definition route_of :: "string list \<Rightarrow> string list" where
  "route_of route = (if route = [] then [canonical_default_location] else route)"

lemma checkout_Ok:
  assumes "complete_sale_deduction_with_locations_and_estimate env x s ws route splits staff terminal apps estimated st = Ok (r, st')"
    and "payments_keyed (rd_payments st)"
  obtains pl where "plan_stock st ws (route_of route) (sale_lines s) = Ok pl" "pl_short pl = []"
    "list_all (\<lambda>l. 0 \<le> sline_qty l) (sale_lines s)" "\<not> qe_locked (xe_queue env) ''default''"
    "settled env x s splits staff terminal (pl_deductions pl) Pending
       (xe_render env (checkout_json (xa_now x) (hd (route_of route)) (pl_lines pl) (sale_lines s))) st st'"
proof -
  have qty: "list_all (\<lambda>l. 0 \<le> sline_qty l) (sale_lines s)" and open': "\<not> qe_locked (xe_queue env) ''default''"
    using assms(1) by (auto simp: complete_sale_deduction_with_locations_and_estimate_def list_all_iff list_ex_iff not_less
        split: if_splits)
  obtain pl stock cur display tm codes st1 n where
    1: "plan_stock st ws (route_of route) (sale_lines s) = Ok pl" "pl_short pl = []"
    and 2: "validate_payment_splits_cover_total splits (minor_units (sale.total s)) = Inr ()"
      "adjust_stock_batch (ma_adjust (xa_remote x)) (pl_deductions pl) (Some ''sale'') None terminal (Some staff) (sh_stock st) = Inr stock"
      "currency_str (sale_currency s) ''currency'' = Inr cur"
    and 3: "insert_sale_row x s cur Pending (xe_render env (checkout_json (xa_now x) (hd (route_of route)) (pl_lines pl) (sale_lines s)))
        (Some (xa_expires x)) (if estimated then Some (estimate_note s) else None) tm display
        (st\<lparr>sh_stock := stock, po_codes := codes\<rparr>) = Inr st1"
      "settle env x s cur splits apps (hd (route_of route)) st1 = Ok (n, st')"
    using assms(1) qty open'
    by (auto simp: complete_sale_deduction_with_locations_and_estimate_def Let_def simp flip: route_of_def split: if_splits prod.splits)
  have "settle env x s cur splits apps (hd (route_of route)) (st1\<lparr>sh_loyalty := sh_loyalty st1\<rparr>) = Ok (n, st')" using 3(2) by simp
  from door_settled [OF 2 3(1) refl this assms(2)] show ?thesis using that 1 qty open' by blast
qed

lemma retry_Ok:
  assumes "complete_resolved_at env x s ws primary splits staff terminal rs apps st = Ok (r, st')"
    and "payments_keyed (rd_payments st)"
  obtains ds where "oeach (resolve_line st ws primary rs) (sale_lines s) [] = Ok ds"
    "settled env x s splits staff terminal ds Completed (xe_render env (resolved_json x primary rs (sale_lines s))) st st'"
proof -
  obtain ds stock cur display tm codes st1 n where
    1: "oeach (resolve_line st ws primary rs) (sale_lines s) [] = Ok ds"
    and 2: "validate_payment_splits_cover_total splits (minor_units (sale.total s)) = Inr ()"
      "adjust_stock_batch (ma_adjust (xa_remote x)) ds (Some ''sale'') None terminal (Some staff) (sh_stock st) = Inr stock"
      "currency_str (sale_currency s) ''currency'' = Inr cur"
    and 3: "insert_sale_row x s cur Completed (xe_render env (resolved_json x primary rs (sale_lines s))) None None tm display
        (st\<lparr>sh_stock := stock, po_codes := codes\<rparr>) = Inr st1"
      "settle env x s cur splits apps primary
         (st1\<lparr>sh_loyalty := apply_customer_stats_on_completion (xa_remote x) (sale_id s) (sh_loyalty st1)\<rparr>) = Ok (n, st')"
    using assms(1) by (auto simp: complete_resolved_at_def split: prod.splits)
  show ?thesis using that [OF 1] door_settled [OF 2 3(1) _ 3(2) assms(2)] by simp
qed

subsection \<open>What a batch does to the ledger\<close>

text \<open>The change of a product's ledger by deductions, at the locations that satisfy a test.\<close>

definition deducted :: "stock_store \<Rightarrow> stock_deduction list \<Rightarrow> string \<Rightarrow> (string \<Rightarrow> bool) \<Rightarrow> int" where
  "deducted st ds p here = sum_list (map sd_delta
     (filter (\<lambda>d. stock_product_id_by_sku st (sd_sku d) = Some p \<and> here (sd_location d)) ds))"

definition moved_at :: "stock_store \<Rightarrow> string \<Rightarrow> (string \<Rightarrow> bool) \<Rightarrow> int" where
  "moved_at st p here = sum_list (map mv_delta (filter (\<lambda>m. mv_item m = p \<and> here (mv_location m)) (movements st)))"

lemma moved_at_ledger: "ledger_total st p = moved_at st p (\<lambda>_. True)" "ledger_qty st p l = moved_at st p (\<lambda>k. k = l)"
  by (simp_all add: ledger_total_def ledger_qty_def moved_at_def)

lemma deducted_simps [simp]:
  "deducted st [] p here = 0"
  "deducted st (d # ds) p here = (if stock_product_id_by_sku st (sd_sku d) = Some p \<and> here (sd_location d) then sd_delta d else 0)
     + deducted st ds p here"
  "deducted st (ds @ ds') p here = deducted st ds p here + deducted st ds' p here"
  by (simp_all add: deducted_def)

lemma product_by_sku_cong: "products st' = products st \<Longrightarrow> stock_product_id_by_sku st' = stock_product_id_by_sku st"
  by (simp add: stock_product_id_by_sku_def fun_eq_iff)

lemma adjust_moved:
  assumes "adjust_stock_at_location_with_reason x sku delta l why txn terminal user st = Inr (q, st')"
  shows "moved_at st' p here = moved_at st p here + (if stock_product_id_by_sku st sku = Some p \<and> here l then delta else 0)"
proof -
  obtain p' m where "stock_product_id_by_sku st sku = Some p'" "movements st' = movements st @ [m]" "mv_item m = p'"
      "mv_location m = l" "mv_delta m = delta"
    using adjust_Inr [OF assms] by (auto simp: adjusted_def)
  then show ?thesis by (simp add: moved_at_def)
qed

lemma execute_batch_moved:
  "execute_batch ids n ds why txn terminal user st = Inr st' \<Longrightarrow>
     moved_at st' p here = moved_at st p here + deducted st ds p here \<and> products st' = products st"
proof (induction ids n ds why txn terminal user st rule: execute_batch.induct)
  case (2 ids n d ds why txn terminal user st)
  obtain q st1 where 1: "adjust_stock_at_location_with_reason (ids n) (sd_sku d) (sd_delta d) (sd_location d) why txn terminal user st = Inr (q, st1)"
    and 3: "execute_batch ids (Suc n) ds why txn terminal user st1 = Inr st'"
    using 2(2) by (auto split: sum.splits prod.splits)
  have same: "stock_product_id_by_sku st1 = stock_product_id_by_sku st" by (rule product_by_sku_cong [OF adjust_products [OF 1]])
  then have "deducted st1 ds p here = deducted st ds p here" by (simp add: deducted_def)
  then show ?case using 2(1) [OF 1 _ 3] adjust_moved [OF 1, of p here] adjust_products [OF 1] by simp
qed simp

lemma batch_moved:
  assumes "adjust_stock_batch ids ds why txn terminal user st = Inr st'"
  shows "moved_at st' p here = moved_at st p here + deducted st ds p here"
  using assms execute_batch_moved by (auto simp: adjust_stock_batch_def split: if_splits sum.splits)

lemma settled_batch:
  "settled env x s splits staff terminal ds stat saved st st' \<Longrightarrow>
     adjust_stock_batch (ma_adjust (xa_remote x)) ds (Some ''sale'') None terminal (Some staff) (sh_stock st) = Inr (sh_stock st')"
  by (simp only: settled_def)

lemma settled_display:
  assumes "settled env x s splits staff terminal ds stat saved st st'"
  obtains display where "map ck_display (po_checkouts st') = map ck_display (po_checkouts st) @ [display]"
    "display \<noteq> None \<longrightarrow> display \<notin> set (map ck_display (po_checkouts st))"
proof -
  have "\<exists>display. map ck_display (po_checkouts st') = map ck_display (po_checkouts st) @ [display]
      \<and> (display \<noteq> None \<longrightarrow> display \<notin> set (map ck_display (po_checkouts st)))"
    using assms by (simp only: settled_def)
  then show ?thesis using that by blast
qed

lemma settled_moved:
  assumes "settled env x s splits staff terminal ds stat text st st'"
  shows "moved_at (sh_stock st') p here = moved_at (sh_stock st) p here + deducted (sh_stock st) ds p here"
  by (rule batch_moved [OF settled_batch [OF assms]])

lemma settled_row:
  assumes "settled env x s splits staff terminal ds stat text st st'"
  obtains row where "lo_sales (sh_loyalty st') = lo_sales (sh_loyalty st) @ [row]" "so_id row = sale_id s"
    "so_status row = as_stored_str stat" "so_deductions row = Some text" "so_total row = minor_units (sale.total s)"
proof -
  have "\<exists>row. lo_sales (sh_loyalty st') = lo_sales (sh_loyalty st) @ [row] \<and> so_id row = sale_id s
      \<and> so_status row = as_stored_str stat \<and> so_deductions row = Some text \<and> so_total row = minor_units (sale.total s)"
    using assms by (simp only: settled_def)
  then show ?thesis using that by blast
qed

lemma settled_new: "settled env x s splits staff terminal ds stat text st st' \<Longrightarrow> find_sale st (sale_id s) = None"
  by (simp only: settled_def)

subsection \<open>The goods of a sale\<close>

text \<open>The stock tables hold the same products, and no SKU twice.\<close>

definition products_ok :: "'a pos_db_scheme \<Rightarrow> bool" where
  "products_ok st \<longleftrightarrow> products (sh_stock st) = map (\<lambda>p. (pd_id p, pd_sku p)) (rd_products st) \<and> distinct (map pd_sku (rd_products st))"

lemma products_ok_id:
  assumes "products_ok st" and "p \<in> set (rd_products st)"
  shows "stock_product_id_by_sku (sh_stock st) (pd_sku p) = Some (pd_id p)"
proof -
  have "List.find (\<lambda>q. snd q = pd_sku p) (map (\<lambda>p. (pd_id p, pd_sku p)) xs) = map_option (\<lambda>p. (pd_id p, pd_sku p)) (List.find (\<lambda>q. pd_sku q = pd_sku p) xs)"
    for xs by (induction xs) simp_all
  note pairs = this [of "rd_products st"]
  have "products (sh_stock st) = map (\<lambda>p. (pd_id p, pd_sku p)) (rd_products st)" and "distinct (map pd_sku (rd_products st))"
    using assms(1) by (simp_all only: products_ok_def)
  then show ?thesis using pairs find_by_key [OF _ assms(2), of pd_sku] by (simp add: stock_product_id_by_sku_def)
qed

lemma found_for_first:
  assumes "products_ok st" and "l \<in> set ls"
  shows "found_for st ls l = pos_product_by_sku st (sline_sku l)"
proof (cases "pos_product_by_sku st (sline_sku l)")
  case None
  then have "sline_sku l \<notin> fst ` set (batch_lookup_products st (map sline_sku ls))"
    by (auto simp: batch_lookup_products_def pos_product_by_sku_def find_None_iff)
  then have "found_for st ls l = None" by (simp add: found_for_def map_of_eq_None_iff)
  then show ?thesis using None by simp
next
  case (Some p)
  then have p: "p \<in> set (rd_products st)" "pd_sku p = sline_sku l" by (auto simp: pos_product_by_sku_def find_Some_iff)
  have "distinct (map fst (batch_lookup_products st (map sline_sku ls)))"
    using assms(1) by (simp add: batch_lookup_products_def products_ok_def rev_map comp_def distinct_map_filter flip: rev_map)
  moreover have "(sline_sku l, p) \<in> set (batch_lookup_products st (map sline_sku ls))"
    using p assms(2) by (auto simp: batch_lookup_products_def image_iff intro!: bexI [of _ p])
  ultimately show ?thesis using Some by (simp add: found_for_def)
qed

definition needed :: "need list \<Rightarrow> string \<Rightarrow> int" where
  "needed ns p = sum_list (map (\<lambda>n. snd (snd n)) (filter (\<lambda>n. map_option pd_id (fst n) = Some p) ns))"

lemma needed_simps [simp]:
  "needed [] p = 0"
  "needed (n # ns) p = (if map_option pd_id (fst n) = Some p then snd (snd n) else 0) + needed ns p"
  "needed (ms @ ns) p = needed ms p + needed ns p"
  by (auto simp: needed_def)

lemma found_product: "found_for st ls l = Some p \<Longrightarrow> p \<in> set (rd_products st)"
  by (auto simp: found_for_def batch_lookup_products_def dest!: map_of_SomeD)

lemma need_products:
  assumes "n \<in> set (sale_needs st ls)" and "fst n = Some p"
  shows "p \<in> set (rd_products st)"
proof -
  obtain l where "n \<in> set (line_needs st (found_for st ls l) l)" using assms(1) by (auto simp: sale_needs_def)
  then consider "n \<in> set (own_need (found_for st ls l) l)" | "n \<in> set (recipe_needs st (found_for st ls l) l)"
    by (auto simp: line_needs_def)
  then show ?thesis
  proof cases
    case 1
    then have "found_for st ls l = Some p" using assms(2) by (auto simp: own_need_def split: option.splits if_splits)
    then show ?thesis by (rule found_product)
  next
    case 2
    then obtain i where "ingredient_need st (sline_qty l) i = Some n"
      by (auto simp: recipe_needs_def set_map_filter split: option.splits)
    then have "List.find (\<lambda>p. pd_id p = ri_ingredient i) (rd_products st) = Some p"
      using assms(2) by (auto simp: ingredient_need_def split: option.splits if_splits)
    then show ?thesis by (auto simp: find_Some_iff)
  qed
qed

lemma deducted_deductions_of:
  "stock_product_id_by_sku st sku = Some p' \<Longrightarrow>
     deducted st (deductions_of sku as) p (\<lambda>_. True) = (if p' = p then - sum_list (map ac_qty as) else 0)"
  by (induction as) (auto simp: deductions_of_def)

lemma deducted_needs:
  assumes "\<And>n q. n \<in> set ns \<Longrightarrow> fst n = Some q \<Longrightarrow> stock_product_id_by_sku (sh_stock st) (pd_sku q) = Some (pd_id q)"
    and "\<And>n. n \<in> set ns \<Longrightarrow> covered st route n"
  shows "deducted (sh_stock st) (concat (map (need_deductions st route) ns)) p (\<lambda>_. True) = - needed ns p"
  using assms
proof (induction ns)
  case (Cons n ns)
  have c: "covered st route n" using Cons.prems(2) by simp
  then obtain q where q: "fst n = Some q" by (auto simp: covered_def)
  have "stock_product_id_by_sku (sh_stock st) (pd_sku q) = Some (pd_id q)" by (rule Cons.prems(1) [of n]) (simp_all add: q)
  moreover have "sum_list (map ac_qty (route_shares (snd (snd n)) (stock_for st route n))) = snd (snd n)"
    using c by (simp add: covered_def sum_route_shares)
  ultimately have "deducted (sh_stock st) (need_deductions st route n) p (\<lambda>_. True) = (if pd_id q = p then - snd (snd n) else 0)"
    using c q by (simp add: need_deductions_def deducted_deductions_of)
  moreover have "deducted (sh_stock st) (concat (map (need_deductions st route) ns)) p (\<lambda>_. True) = - needed ns p"
    by (rule Cons.IH) (use Cons.prems in auto)
  ultimately show ?case using q by simp
qed simp

text \<open>A stock check that reports no shortfall.\<close>

lemma plan_without_shortfall:
  assumes "plan_stock st ws route ls = Ok pl" and "pl_short pl = []" and "\<forall>l \<in> set ls. in_i64 (sline_qty l)"
  shows "pl_deductions pl = concat (map (need_deductions st route) (sale_needs st ls))"
    "pl_lines pl = rev (own_allocations st route ls)" "\<forall>n \<in> set (sale_needs st ls). covered st route n"
proof -
  have pl: "pl = \<lparr>pl_deductions = concat (map (need_deductions st route) (sale_needs st ls)),
      pl_lines = rev (own_allocations st route ls), pl_short = concat (map (need_shortfall st ws route) (sale_needs st ls))\<rparr>"
    using assms(1) stock_plan_exact [OF assms(3), of st ws route] by (simp split: if_splits)
  show "pl_deductions pl = concat (map (need_deductions st route) (sale_needs st ls))" "pl_lines pl = rev (own_allocations st route ls)"
    by (simp_all add: pl)
  show "\<forall>n \<in> set (sale_needs st ls). covered st route n"
    using assms(2) by (auto simp: pl need_shortfall_def split: if_splits)
qed

text \<open>
  C5. A checkout takes from stock exactly what its sale needs: the ledger of every product falls by the units
  of it that are sold, if it keeps stock, plus what the recipes of the products sold take of it, over all locations.\<close>

theorem checkout_deducts_needs:
  assumes "complete_sale_deduction_with_locations_and_estimate env x s ws route splits staff terminal apps estimated st = Ok (r, st')"
    and "\<forall>l \<in> set (sale_lines s). in_i64 (sline_qty l)" and "products_ok st" and "payments_keyed (rd_payments st)"
  shows "ledger_total (sh_stock st') p = ledger_total (sh_stock st) p - needed (sale_needs st (sale_lines s)) p"
  using assms(1,4)
proof (rule checkout_Ok)
  fix pl
  assume pl: "plan_stock st ws (route_of route) (sale_lines s) = Ok pl" "pl_short pl = []"
  assume "settled env x s splits staff terminal (pl_deductions pl) Pending
       (xe_render env (checkout_json (xa_now x) (hd (route_of route)) (pl_lines pl) (sale_lines s))) st st'"
  then have "ledger_total (sh_stock st') p = ledger_total (sh_stock st) p + deducted (sh_stock st) (pl_deductions pl) p (\<lambda>_. True)"
    unfolding moved_at_ledger by (rule settled_moved)
  moreover note plan = plan_without_shortfall [OF pl assms(2)]
  moreover have "deducted (sh_stock st) (concat (map (need_deductions st (route_of route)) (sale_needs st (sale_lines s)))) p (\<lambda>_. True)
      = - needed (sale_needs st (sale_lines s)) p"
    by (rule deducted_needs) (blast intro: products_ok_id [OF assms(3)] need_products, use plan(3) in blast)
  ultimately show ?thesis by simp
qed

subsection \<open>What a void gives back\<close>

definition credited :: "stock_store \<Rightarrow> string \<Rightarrow> location_allocation list \<Rightarrow> string \<Rightarrow> (string \<Rightarrow> bool) \<Rightarrow> int" where
  "credited st sku as p here = (if stock_product_id_by_sku st sku = Some p
     then sum_list (map ac_qty (filter (\<lambda>a. here (ac_location a)) as)) else 0)"

lemma credited_cong:
  assumes "products st' = products st"
  shows "credited st' sku as p here = credited st sku as p here"
  unfolding credited_def product_by_sku_cong [OF assms] ..

lemma deducted_credited: "deducted st (deductions_of sku as) p here = - credited st sku as p here"
  by (induction as) (auto simp: deductions_of_def credited_def)

lemma void_entry_moved:
  assumes "void_entry x sku (allocation_json now a) s = Inr s'"
  shows "moved_at (sh_stock (snd s')) p here = moved_at (sh_stock (snd s)) p here + credited (sh_stock (snd s)) sku [a] p here"
    "products (sh_stock (snd s')) = products (sh_stock (snd s))"
proof -
  have "adjust_at x sku (ac_qty a) (ac_location a) (Some ''void_pending'') s = Inr s'"
    using assms by (simp add: void_entry_def allocation_json_def json_int_def)
  then obtain new stock where 1: "adjust_stock_at_location_with_reason (ma_adjust x (fst s)) sku (ac_qty a) (ac_location a)
      (Some ''void_pending'') None None None (sh_stock (snd s)) = Inr (new, stock)" and 2: "s' = (Suc (fst s), (snd s)\<lparr>sh_stock := stock\<rparr>)"
    by (rule adjust_at_Inr)
  show "moved_at (sh_stock (snd s')) p here = moved_at (sh_stock (snd s)) p here + credited (sh_stock (snd s)) sku [a] p here"
    using adjust_moved [OF 1, of p here] by (simp add: 2 credited_def)
  show "products (sh_stock (snd s')) = products (sh_stock (snd s))" using adjust_products [OF 1] by (simp add: 2)
qed

lemma void_entries_moved:
  assumes "each (void_entry x sku) (map (allocation_json now) as) s = Inr s'"
  shows "moved_at (sh_stock (snd s')) p here = moved_at (sh_stock (snd s)) p here + credited (sh_stock (snd s)) sku as p here
    \<and> products (sh_stock (snd s')) = products (sh_stock (snd s))"
  using assms
proof (induction as arbitrary: s)
  case Nil
  then show ?case by (simp add: credited_def)
next
  case (Cons a as)
  obtain s1 where 1: "void_entry x sku (allocation_json now a) s = Inr s1" and 2: "each (void_entry x sku) (map (allocation_json now) as) s1 = Inr s'"
    using Cons.prems by (auto split: sum.splits)
  have "credited (sh_stock (snd s1)) sku as p here = credited (sh_stock (snd s)) sku as p here"
    by (rule credited_cong [OF void_entry_moved(2) [OF 1]])
  moreover have "credited (sh_stock (snd s)) sku (a # as) p here = credited (sh_stock (snd s)) sku [a] p here + credited (sh_stock (snd s)) sku as p here"
    by (simp add: credited_def)
  ultimately show ?case using Cons.IH [OF 2] void_entry_moved [OF 1] by simp
qed

lemma void_lines_moved:
  assumes "each (void_line x) (map (\<lambda>l. line_json l (map (allocation_json now) (f l))) ls) s = Inr s'"
  shows "moved_at (sh_stock (snd s')) p here = moved_at (sh_stock (snd s)) p here
      + sum_list (map (\<lambda>l. credited (sh_stock (snd s)) (sline_sku l) (f l) p here) ls)
    \<and> products (sh_stock (snd s')) = products (sh_stock (snd s))"
  using assms
proof (induction ls arbitrary: s)
  case (Cons l ls)
  obtain s1 where "void_line x (line_json l (map (allocation_json now) (f l))) s = Inr s1"
      and 2: "each (void_line x) (map (\<lambda>l. line_json l (map (allocation_json now) (f l))) ls) s1 = Inr s'"
    using Cons.prems by (auto split: sum.splits)
  then have 1: "each (void_entry x (sline_sku l)) (map (allocation_json now) (f l)) s = Inr s1"
    by (simp add: void_line_def line_json_def)
  have "credited (sh_stock (snd s1)) (sline_sku k) (f k) p here = credited (sh_stock (snd s)) (sline_sku k) (f k) p here" for k
    using void_entries_moved [OF 1] by (intro credited_cong) blast
  then show ?case using Cons.IH [OF 2] void_entries_moved [OF 1, of p here] by simp
qed simp

definition pending_row :: "'a pos_db_scheme \<Rightarrow> string \<Rightarrow> sale_row option" where
  "pending_row st sale = List.find (\<lambda>s. so_id s = sale \<and> so_status s = ''pending'') (lo_sales (sh_loyalty st))"

text \<open>The rendering of a JSON object is read back as that object and is not one of the two texts that stand for none.\<close>

definition renders :: "pos_env \<Rightarrow> json \<Rightarrow> bool" where
  "renders env j \<longleftrightarrow> xe_parse env (xe_render env j) = Some j \<and> xe_render env j \<noteq> [] \<and> xe_render env j \<noteq> ''null''"

lemma void_pending_moved:
  assumes "void_pending_sale env x sale st = Inr st'" and "pending_row st sale = Some row"
    and "so_deductions row = Some (xe_render env (checkout_json now primary ds ls))"
    and "renders env (checkout_json now primary ds ls)"
  shows "moved_at (sh_stock st') p here = moved_at (sh_stock st) p here
    + sum_list (map (\<lambda>l. credited (sh_stock st) (sline_sku l) (allocations_or_primary primary ds l) p here) ls)"
proof -
  let ?ls = "map (\<lambda>l. line_json l (map (allocation_json now) (allocations_or_primary primary ds l))) ls"
  obtain st1 where 1: "void_credit (xe_parse env) x (so_deductions row) st = Inr st1"
      and st': "st' = (case set_sale_status x sale ''pending'' ''voided'' st1 of
        (rows, st2) \<Rightarrow> if rows = 0 then st else snd (cancel_kds_orders_for_sale_in_tx sale st2))"
    using assms(1,2) by (auto simp: void_pending_sale_def pending_row_def split: sum.splits prod.splits)
  obtain n where lines: "each (void_line x) ?ls (0, st) = Inr (n, st1)"
    using 1 assms(3,4) by (auto simp: void_credit_def renders_def checkout_json_def deduction_json_def split: sum.splits)
  have "lo_sales (sh_loyalty (snd s')) = lo_sales (sh_loyalty (snd s))" if "void_line x j s = Inr s'" for j and s s' :: "nat \<times> 'a pos_db_scheme"
  proof -
    have entry: "lo_sales (sh_loyalty (snd s')) = lo_sales (sh_loyalty (snd s))" if "void_entry x sku d s = Inr s'"
      for sku d and s s' :: "nat \<times> 'a pos_db_scheme"
      using that by (auto simp: void_entry_def split: option.splits elim!: adjust_at_Inr)
    show ?thesis
    proof (cases "\<exists>sku ds. as_str (jget j ''sku'') = Some sku \<and> as_array (jget j ''deductions'') = Some ds")
      case True
      then obtain sku ds where "as_str (jget j ''sku'') = Some sku" "as_array (jget j ''deductions'') = Some ds" by blast
      then have "each (void_entry x sku) ds s = Inr s'" using \<open>void_line x j s = Inr s'\<close> by (simp add: void_line_def)
      then show ?thesis
        by (rule each_keeps [where P = "\<lambda>t. lo_sales (sh_loyalty (snd t)) = lo_sales (sh_loyalty (snd s))", rotated]) (simp_all add: entry)
    next
      case False
      then show ?thesis using that by (auto simp: void_line_def split: option.splits)
    qed
  qed
  then have "lo_sales (sh_loyalty (snd (n, st1))) = lo_sales (sh_loyalty st)"
    using each_keeps [where P = "\<lambda>t. lo_sales (sh_loyalty (snd t)) = lo_sales (sh_loyalty st)", OF _ lines] by simp
  moreover have "so_id row = sale \<and> so_status row = ''pending'' \<and> row \<in> set (lo_sales (sh_loyalty st))"
    using assms(2) by (auto simp: pending_row_def find_Some_iff)
  ultimately have "filter (\<lambda>s. so_id s = sale \<and> so_status s = ''pending'') (lo_sales (sh_loyalty st1)) \<noteq> []"
    by (auto simp: filter_empty_conv)
  then have "sh_stock st' = sh_stock st1"
    by (simp add: st' set_sale_status_def cancel_kds_orders_for_sale_in_tx_def Let_def)
  then show ?thesis using void_lines_moved [OF lines, of p here] by simp
qed

text \<open>A line whose product keeps stock and is not made from others.\<close>

definition plain_line :: "'a pos_db_scheme \<Rightarrow> sale_line \<Rightarrow> bool" where
  "plain_line st l \<longleftrightarrow> (case pos_product_by_sku st (sline_sku l) of
     None \<Rightarrow> False | Some q \<Rightarrow> row_tracks q \<and> get_recipe_ingredients st (pd_id q) = [])"

definition line_need :: "'a pos_db_scheme \<Rightarrow> sale_line \<Rightarrow> need" where
  "line_need st l = (pos_product_by_sku st (sline_sku l), sline_sku l, sline_qty l)"

definition line_shares :: "'a pos_db_scheme \<Rightarrow> string list \<Rightarrow> sale_line \<Rightarrow> location_allocation list" where
  "line_shares st route l = route_shares (sline_qty l) (stock_for st route (line_need st l))"

text \<open>What the checkout of such lines records.\<close>

definition plain_json :: "'a pos_db_scheme \<Rightarrow> pos_args \<Rightarrow> string list \<Rightarrow> sale \<Rightarrow> json" where
  "plain_json st x route s = checkout_json (xa_now x) (hd (route_of route))
     (rev (map (\<lambda>l. (sline_id l, line_shares st (route_of route) l)) (sale_lines s))) (sale_lines s)"

lemma plain_line_cases:
  assumes "plain_line st l"
  obtains q where "pos_product_by_sku st (sline_sku l) = Some q" "row_tracks q" "get_recipe_ingredients st (pd_id q) = []"
    "pd_sku q = sline_sku l"
  using assms by (auto simp: plain_line_def pos_product_by_sku_def find_Some_iff split: option.splits)

lemma plain_line_needs:
  assumes "products_ok st" and "l \<in> set ls" and "plain_line st l"
  shows "line_needs st (found_for st ls l) l = [line_need st l]"
  using assms(3)
  by (rule plain_line_cases) (simp add: found_for_first [OF assms(1,2)] line_needs_def own_need_def recipe_needs_def line_need_def List.map_filter_def)

lemma concat_singletons: "(\<And>x. x \<in> set xs \<Longrightarrow> f x = [g x]) \<Longrightarrow> concat (map f xs) = map g xs"
  by (induction xs) simp_all

lemma plain_sale_needs:
  assumes "products_ok st" and "\<forall>l \<in> set ls. plain_line st l"
  shows "sale_needs st ls = map (line_need st) ls"
  unfolding sale_needs_def by (rule concat_singletons) (use plain_line_needs [OF assms(1)] assms(2) in simp)

lemma plain_own_allocations:
  assumes "products_ok st" and "\<forall>l \<in> set ls. plain_line st l" and "\<forall>l \<in> set ls. covered st route (line_need st l)"
  shows "own_allocations st route ls = map (\<lambda>l. (sline_id l, line_shares st route l)) ls"
proof -
  have "own_allocation st route (found_for st ls l) l = [(sline_id l, line_shares st route l)]" if l: "l \<in> set ls" for l
  proof -
    have "plain_line st l" "covered st route (line_need st l)" using assms(2,3) l by simp_all
    from this(1) show ?thesis
      by (rule plain_line_cases) (use \<open>covered st route (line_need st l)\<close> in
        \<open>simp add: found_for_first [OF assms(1) l] own_allocation_def line_need_def line_shares_def stock_for_def\<close>)
  qed
  then show ?thesis unfolding own_allocations_def by (rule concat_singletons)
qed

lemma map_of_lines:
  assumes "distinct (map sline_id ls)" and "l \<in> set ls"
  shows "map_of (rev (map (\<lambda>l. (sline_id l, f l)) ls)) (sline_id l) = Some (f l)"
  by (rule map_of_is_SomeI) (use assms in \<open>auto simp: rev_map comp_def simp flip: rev_map\<close>)

lemma plain_deductions:
  assumes "plain_line st l" and "covered st route (line_need st l)"
  shows "deducted (sh_stock st) (need_deductions st route (line_need st l)) p here
    = - credited (sh_stock st) (sline_sku l) (line_shares st route l) p here"
  using assms(1)
  by (rule plain_line_cases) (use assms(2) in \<open>simp add: need_deductions_def line_shares_def deducted_credited line_need_def\<close>)

lemma deducted_concat: "deducted st (concat (map f xs)) p here = sum_list (map (\<lambda>x. deducted st (f x) p here) xs)"
  by (induction xs) simp_all

lemma checkout_plain:
  assumes "complete_sale_deduction_with_locations_and_estimate env x s ws route splits staff terminal apps estimated st = Ok (r, st')"
    and "payments_keyed (rd_payments st)" and "products_ok st" and "\<forall>l \<in> set (sale_lines s). in_i64 (sline_qty l)"
    and "\<forall>l \<in> set (sale_lines s). plain_line st l"
  obtains pl :: stock_plan where "pl_lines pl = rev (map (\<lambda>l. (sline_id l, line_shares st (route_of route) l)) (sale_lines s))"
    "\<forall>p here. moved_at (sh_stock st') p here = moved_at (sh_stock st) p here
      - sum_list (map (\<lambda>l. credited (sh_stock st) (sline_sku l) (line_shares st (route_of route) l) p here) (sale_lines s))"
    "settled env x s splits staff terminal (pl_deductions pl) Pending
       (xe_render env (checkout_json (xa_now x) (hd (route_of route)) (pl_lines pl) (sale_lines s))) st st'"
proof -
  obtain pl where pl: "plan_stock st ws (route_of route) (sale_lines s) = Ok pl" "pl_short pl = []"
    and settled: "settled env x s splits staff terminal (pl_deductions pl) Pending
       (xe_render env (checkout_json (xa_now x) (hd (route_of route)) (pl_lines pl) (sale_lines s))) st st'"
    by (rule checkout_Ok [OF assms(1,2)])
  note needs = plain_sale_needs [OF assms(3,5)]
  note plan = plan_without_shortfall [OF pl assms(4), unfolded needs]
  then have covered: "\<forall>l \<in> set (sale_lines s). covered st (route_of route) (line_need st l)" by simp
  have moved: "moved_at (sh_stock st') p here = moved_at (sh_stock st) p here
      - sum_list (map (\<lambda>l. credited (sh_stock st) (sline_sku l) (line_shares st (route_of route) l) p here) (sale_lines s))" for p here
  proof -
    note settled_moved [OF settled, of p here]
    moreover have "deducted (sh_stock st) (pl_deductions pl) p here
        = sum_list (map (\<lambda>l. - credited (sh_stock st) (sline_sku l) (line_shares st (route_of route) l) p here) (sale_lines s))"
      unfolding plan(1) map_map deducted_concat comp_def
      by (intro arg_cong [where f = sum_list] map_cong refl plain_deductions) (use assms(5) covered in simp_all)
    ultimately show ?thesis by (simp add: uminus_sum_list_map comp_def)
  qed
  have lines: "pl_lines pl = rev (map (\<lambda>l. (sline_id l, line_shares st (route_of route) l)) (sale_lines s))"
    using plan(2) plain_own_allocations [OF assms(3,5) covered] by simp
  show ?thesis by (rule that [OF lines _ settled]) (intro allI moved)
qed

text \<open>
  C6. A void gives back what the checkout took: when a pending sale of products that keep stock and have no
  recipe is voided, the ledger of every product at every location rises by as much as it fell at the checkout.
  In between anything may happen to the tables but to the row of the sale, and the SKUs sold must still name
  the products they named; their types and recipes may have changed. At the checkout the product tables agree
  and the lines have distinct ids.\<close>

theorem void_restores_checkout:
  assumes "complete_sale_deduction_with_locations_and_estimate env x s ws route splits staff terminal apps estimated st = Ok (r, st')"
    and "void_pending_sale env y (sale_id s) t = Inr t'"
    and "pending_row t (sale_id s) = pending_row st' (sale_id s)"
    and "\<forall>l \<in> set (sale_lines s). stock_product_id_by_sku (sh_stock t) (sline_sku l) = stock_product_id_by_sku (sh_stock st) (sline_sku l)"
    and "products_ok st" and "payments_keyed (rd_payments st)" and "distinct (map sline_id (sale_lines s))"
    and "\<forall>l \<in> set (sale_lines s). in_i64 (sline_qty l) \<and> plain_line st l"
    and "renders env (plain_json st x route s)"
  shows "ledger_qty (sh_stock t') p l - ledger_qty (sh_stock t) p l = ledger_qty (sh_stock st) p l - ledger_qty (sh_stock st') p l"
proof -
  let ?here = "\<lambda>k. k = l" and ?shares = "line_shares st (route_of route)"
  have lines: "\<forall>l \<in> set (sale_lines s). in_i64 (sline_qty l)" "\<forall>l \<in> set (sale_lines s). plain_line st l"
    using assms(8) by simp_all
  obtain pl :: stock_plan where pl: "pl_lines pl = rev (map (\<lambda>l. (sline_id l, ?shares l)) (sale_lines s))"
    and out: "\<forall>p here. moved_at (sh_stock st') p here = moved_at (sh_stock st) p here
      - sum_list (map (\<lambda>l. credited (sh_stock st) (sline_sku l) (?shares l) p here) (sale_lines s))"
    and settled: "settled env x s splits staff terminal (pl_deductions pl) Pending
       (xe_render env (checkout_json (xa_now x) (hd (route_of route)) (pl_lines pl) (sale_lines s))) st st'"
    by (rule checkout_plain [OF assms(1,6,5) lines])
  obtain row where row: "lo_sales (sh_loyalty st') = lo_sales (sh_loyalty st) @ [row]" "so_id row = sale_id s" "so_status row = ''pending''"
      "so_deductions row = Some (xe_render env (checkout_json (xa_now x) (hd (route_of route)) (pl_lines pl) (sale_lines s)))"
    by (rule settled_row [OF settled]) simp
  moreover have "pending_row st (sale_id s) = None"
    using settled_new [OF settled] by (auto simp: pending_row_def find_sale_def find_None_iff)
  ultimately have "pending_row t (sale_id s) = Some row" unfolding assms(3) by (simp add: pending_row_def find_append)
  moreover have "renders env (checkout_json (xa_now x) (hd (route_of route)) (pl_lines pl) (sale_lines s))"
    using assms(9) by (simp add: pl plain_json_def)
  ultimately have given: "moved_at (sh_stock t') p ?here = moved_at (sh_stock t) p ?here + sum_list (map (\<lambda>k. credited (sh_stock t) (sline_sku k)
      (allocations_or_primary (hd (route_of route)) (pl_lines pl) k) p ?here) (sale_lines s))"
    using void_pending_moved [OF assms(2) _ row(4)] by blast
  have "allocations_or_primary (hd (route_of route)) (pl_lines pl) k = ?shares k" if "k \<in> set (sale_lines s)" for k
    using map_of_lines [OF assms(7) that, of ?shares] by (simp add: allocations_or_primary_def pl)
  then have "moved_at (sh_stock t') p ?here = moved_at (sh_stock t) p ?here
      + sum_list (map (\<lambda>l. credited (sh_stock t) (sline_sku l) (?shares l) p ?here) (sale_lines s))"
    using given by (simp cong: map_cong)
  moreover have "credited (sh_stock t) (sline_sku k) (?shares k) p ?here = credited (sh_stock st) (sline_sku k) (?shares k) p ?here"
      if "k \<in> set (sale_lines s)" for k
    using assms(4) that by (simp add: credited_def)
  ultimately show ?thesis using out [rule_format, of p ?here] by (simp add: moved_at_ledger cong: map_cong)
qed

subsection \<open>Payments and outbox\<close>

definition tendered :: "payment_split list \<Rightarrow> int" where
  "tendered ps = sum_list (map ps_amount_minor ps)"

lemma sum_splits_Inr: "sum_splits ps acc = Inr v \<Longrightarrow> v = acc + tendered ps \<and> (\<forall>p \<in> set ps. 0 \<le> ps_amount_minor p)"
  by (induction ps acc rule: sum_splits.induct)
    (auto simp: tendered_def checked_add_def fit_i64_def not_less split: if_splits option.splits)

lemma splits_cover:
  assumes "validate_payment_splits_cover_total ps t = Inr ()"
  shows "t \<le> tendered ps" "\<forall>p \<in> set ps. 0 \<le> ps_amount_minor p"
proof -
  obtain v where "sum_splits ps 0 = Inr v" "t \<le> v"
    using assms by (auto simp: validate_payment_splits_cover_total_def not_less split: sum.splits if_splits)
  then show "t \<le> tendered ps" "\<forall>p \<in> set ps. 0 \<le> ps_amount_minor p" using sum_splits_Inr by fastforce+
qed

lemma settled_splits:
  assumes "settled env x s splits staff terminal ds stat saved st st'"
  shows "validate_payment_splits_cover_total splits (minor_units (sale.total s)) = Inr ()" "payments_keyed (rd_payments st')"
  using assms by (simp_all only: settled_def)

lemma settled_books:
  assumes "settled env x s splits staff terminal ds stat saved st st'"
  obtains cur where "currency_str (sale_currency s) ''currency'' = Inr cur"
    "rd_payments st' = rd_payments st @ payment_rows x (sale_id s) cur 0 splits"
    "oq_items (sh_queue st') = oq_items (sh_queue st) @ outbox_item env (xa_queue x 0) ''complete_sale'' (sale_payload s cur)
       # payment_items env x (sale_id s) cur 0 splits"
proof -
  have "\<exists>cur. currency_str (sale_currency s) ''currency'' = Inr cur
          \<and> rd_payments st' = rd_payments st @ payment_rows x (sale_id s) cur 0 splits
          \<and> oq_items (sh_queue st') = oq_items (sh_queue st) @ outbox_item env (xa_queue x 0) ''complete_sale'' (sale_payload s cur)
              # payment_items env x (sale_id s) cur 0 splits"
    using assms by (simp only: settled_def)
  then show ?thesis using that by blast
qed

text \<open>A sale that came through one of the doors.\<close>

inductive checked_out :: "pos_env \<Rightarrow> pos_args \<Rightarrow> sale \<Rightarrow> payment_split list \<Rightarrow> 'a pos_db_scheme \<Rightarrow> 'a pos_db_scheme \<Rightarrow> bool"
  for env x s splits st where
  first_door: "complete_sale_deduction_with_locations_and_estimate env x s ws route splits staff terminal apps estimated st = Ok (r, st')
    \<Longrightarrow> checked_out env x s splits st st'"
| second_door: "complete_sale_with_resolved_shortfalls at env x s ws splits staff terminal rs apps st cache = (Ok (r, st'), cache')
    \<Longrightarrow> checked_out env x s splits st st'"

lemma checked_out_settled:
  assumes "checked_out env x s splits st st'" and "payments_keyed (rd_payments st)"
  obtains staff terminal ds stat saved where "settled env x s splits staff terminal ds stat saved st st'"
    "stat \<in> {Pending, Completed}"
  using assms(1)
proof cases
  case (first_door ws route staff terminal apps estimated r)
  show ?thesis by (rule checkout_Ok [OF first_door assms(2)]) (use that in blast)
next
  case (second_door at ws staff terminal rs apps cache r cache')
  then obtain primary where "complete_resolved_at env x s ws primary splits staff terminal rs apps st = Ok (r, st')"
    by (auto simp: complete_sale_with_resolved_shortfalls_def split: if_splits prod.splits)
  then show ?thesis by (rule retry_Ok [OF _ assms(2)]) (use that in blast)
qed

lemma distinct_find:
  "distinct (List.map_filter f xs) \<Longrightarrow> r \<in> set xs \<Longrightarrow> f r = Some k \<Longrightarrow> List.find (\<lambda>p. f p = Some k) xs = Some r"
proof (induction xs)
  case (Cons a xs)
  have "r = a" if "f a = Some k"
  proof (rule ccontr)
    assume "r \<noteq> a"
    then have "k \<in> set (List.map_filter f xs)" using Cons.prems by (auto simp: set_map_filter)
    then show False using Cons.prems(1) that by (simp add: map_filter_Cons)
  qed
  moreover have "distinct (List.map_filter f xs)" using Cons.prems(1) by (simp add: map_filter_Cons split: option.splits)
  ultimately show ?case using Cons by (cases "f a = Some k") auto
qed simp

lemma keyed_find:
  "payments_keyed ps \<Longrightarrow> r \<in> set ps \<Longrightarrow> py_idempotency_key r = Some k \<Longrightarrow> List.find (\<lambda>p. py_idempotency_key p = Some k) ps = Some r"
  by (simp add: payments_keyed_def distinct_find)

lemma payment_row_key:
  assumes "p \<in> set splits" and "ps_idempotency_key p = Some k"
  shows "\<exists>r \<in> set (payment_rows x sale cur n splits). py_idempotency_key r = Some k \<and> py_sale r = sale"
  using assms by (induction splits arbitrary: n) (auto simp: payment_of_def)

text \<open>
  C8. A payment is taken once: after a checkout through either door the key of each of its payments leads to its
  sale, and no later checkout, through either door, of any sale, can use one of these keys again.\<close>

theorem payment_key_used_once:
  assumes "checked_out env x s splits st st'" and "payments_keyed (rd_payments st)"
    and "p \<in> set splits" and "ps_idempotency_key p = Some k"
  shows "find_sale_by_idempotency_key st' k = Some (sale_id s)
    \<and> (set (rd_payments st') \<subseteq> set (rd_payments t) \<and> payments_keyed (rd_payments t)
        \<and> p' \<in> set splits' \<and> ps_idempotency_key p' = Some k \<longrightarrow> \<not> checked_out env' x' s' splits' t t')"
proof -
  obtain staff terminal ds stat saved where settled: "settled env x s splits staff terminal ds stat saved st st'"
    by (rule checked_out_settled [OF assms(1,2)])
  obtain cur where rows: "rd_payments st' = rd_payments st @ payment_rows x (sale_id s) cur 0 splits"
    by (rule settled_books [OF settled])
  obtain r where r: "r \<in> set (rd_payments st')" "py_idempotency_key r = Some k" "py_sale r = sale_id s"
    using payment_row_key [OF assms(3,4), of x "sale_id s" cur 0] by (auto simp: rows)
  have "\<not> checked_out env' x' s' splits' t t'"
    if t: "set (rd_payments st') \<subseteq> set (rd_payments t)" "payments_keyed (rd_payments t)" "p' \<in> set splits'" "ps_idempotency_key p' = Some k"
  proof
    assume "checked_out env' x' s' splits' t t'"
    then obtain staff' terminal' ds' stat' saved' where new: "settled env' x' s' splits' staff' terminal' ds' stat' saved' t t'"
      by (rule checked_out_settled [OF _ t(2)])
    obtain cur' where "rd_payments t' = rd_payments t @ payment_rows x' (sale_id s') cur' 0 splits'" by (rule settled_books [OF new])
    then have "distinct (List.map_filter py_idempotency_key (rd_payments t) @ List.map_filter py_idempotency_key
        (payment_rows x' (sale_id s') cur' 0 splits'))"
      using settled_splits(2) [OF new] by (simp add: payments_keyed_def List.map_filter_def)
    moreover have "k \<in> set (List.map_filter py_idempotency_key (rd_payments t))" using r t(1) by (auto simp: set_map_filter)
    moreover have "k \<in> set (List.map_filter py_idempotency_key (payment_rows x' (sale_id s') cur' 0 splits'))"
      using payment_row_key [OF t(3,4), of x' "sale_id s'" cur' 0] by (auto simp: set_map_filter)
    ultimately show False by auto
  qed
  then show ?thesis using keyed_find [OF settled_splits(2) [OF settled] r(1,2)] r(3)
    by (simp add: find_sale_by_idempotency_key_def payment_with_key_def)
qed

text \<open>
  C9. The books of a checkout: through either door the payments cover the total, none is negative, and each leaves
  one row; the outbox gets one item for the sale and one for each payment, in this order, and nothing else.\<close>

theorem checkout_books:
  assumes "checked_out env x s splits st st'" and "payments_keyed (rd_payments st)"
  shows "minor_units (sale.total s) \<le> tendered splits \<and> (\<forall>p \<in> set splits. 0 \<le> ps_amount_minor p)
    \<and> (\<exists>cur. currency_str (sale_currency s) ''currency'' = Inr cur
        \<and> rd_payments st' = rd_payments st @ payment_rows x (sale_id s) cur 0 splits
        \<and> oq_items (sh_queue st') = oq_items (sh_queue st) @ outbox_item env (xa_queue x 0) ''complete_sale'' (sale_payload s cur)
            # payment_items env x (sale_id s) cur 0 splits)"
proof -
  obtain staff terminal ds stat saved where settled: "settled env x s splits staff terminal ds stat saved st st'"
    by (rule checked_out_settled [OF assms])
  show ?thesis using splits_cover [OF settled_splits(1) [OF settled]] settled_books [OF settled] by blast
qed

subsection \<open>Any history of a till\<close>

datatype till_event =
    Till_checkout pos_env pos_args sale "string option" "string list" "payment_split list" string "string option" "promotion_application list" bool
  | Till_retry nat pos_env pos_args sale "string option" "payment_split list" string "string option" "resolved_shortfall list"
      "promotion_application list" location_cache
  | Till_void_pending pos_env remote_args string
  | Till_reap pos_env "nat \<Rightarrow> remote_args" string
  | Till_void pos_env remote_args queue_args string string string
  | Till_finalize remote_args string

definition done_or :: "'s \<Rightarrow> ('e, 'r \<times> 's) outcome \<Rightarrow> 's" where
  "done_or st r = (case r of Ok (_, st') \<Rightarrow> st' | _ \<Rightarrow> st)"

definition inr_or :: "'s \<Rightarrow> 'e + 's \<Rightarrow> 's" where
  "inr_or st r = (case r of Inl _ \<Rightarrow> st | Inr st' \<Rightarrow> st')"

fun till_step :: "till_event \<Rightarrow> pos_db \<Rightarrow> pos_db" where
  "till_step (Till_checkout env x s ws route splits staff terminal apps estimated) st =
     done_or st (complete_sale_deduction_with_locations_and_estimate env x s ws route splits staff terminal apps estimated st)"
| "till_step (Till_retry at env x s ws splits staff terminal rs apps cache) st =
     done_or st (fst (complete_sale_with_resolved_shortfalls at env x s ws splits staff terminal rs apps st cache))"
| "till_step (Till_void_pending env x sale) st = inr_or st (void_pending_sale env x sale st)"
| "till_step (Till_reap env xs now) st = snd (reap_stale_pending_sales env xs now st)"
| "till_step (Till_void env x q sale user why) st = inr_or st (void_sale env x q sale user why st)"
| "till_step (Till_finalize x sale) st = finalize_sale x sale st"

text \<open>Every sale is covered by its payments, and every payment belongs to a sale.\<close>

definition paid_for :: "payment_row list \<Rightarrow> string \<Rightarrow> int" where
  "paid_for ps sale = sum_list (map py_amount (filter (\<lambda>p. py_sale p = sale) ps))"

definition till_ok :: "'a pos_db_scheme \<Rightarrow> bool" where
  "till_ok st \<longleftrightarrow> payments_keyed (rd_payments st)
     \<and> distinct (map so_id (lo_sales (sh_loyalty st)))
     \<and> distinct (List.map_filter id (map ck_display (po_checkouts st)))
     \<and> (\<forall>p \<in> set (rd_payments st). py_sale p \<in> so_id ` set (lo_sales (sh_loyalty st)))
     \<and> (\<forall>s \<in> set (lo_sales (sh_loyalty st)). so_total s \<le> paid_for (rd_payments st) (so_id s))"

lemma payment_rows_sale: "p \<in> set (payment_rows x sale cur n splits) \<Longrightarrow> py_sale p = sale"
  by (induction splits arbitrary: n) (auto simp: payment_of_def)

lemma payment_rows_amount: "sum_list (map py_amount (payment_rows x sale cur n splits)) = tendered splits"
  by (induction splits arbitrary: n) (simp_all add: payment_of_def tendered_def)

lemma paid_for_append: "paid_for (ps @ qs) sale = paid_for ps sale + paid_for qs sale"
  by (simp add: paid_for_def)

lemma paid_for_rows: "paid_for (payment_rows x sale cur n splits) sale' = (if sale' = sale then tendered splits else 0)"
proof (cases "sale' = sale")
  case True
  then have "filter (\<lambda>p. py_sale p = sale') (payment_rows x sale cur n splits) = payment_rows x sale cur n splits"
    by (auto simp: filter_id_conv dest: payment_rows_sale)
  then show ?thesis using True by (simp add: paid_for_def payment_rows_amount)
next
  case False
  then have "filter (\<lambda>p. py_sale p = sale') (payment_rows x sale cur n splits) = []"
    by (auto simp: filter_empty_conv dest: payment_rows_sale)
  then show ?thesis using False by (simp add: paid_for_def)
qed

lemma checked_out_steps:
  assumes "checked_out env x s splits st st'" and "payments_keyed (rd_payments st)"
  shows "stock_step\<^sup>*\<^sup>* (sh_stock st) (sh_stock st')"
proof -
  obtain staff terminal ds stat saved where settled: "settled env x s splits staff terminal ds stat saved st st'"
    by (rule checked_out_settled [OF assms])
  show ?thesis using settled_batch [OF settled] by (intro r_into_rtranclp stock_step.intros)
qed

lemma checked_out_keeps:
  assumes "checked_out env x s splits st st'" and "till_ok st"
  shows "till_ok st'"
proof -
  let ?sales = "lo_sales (sh_loyalty st)"
  note ok = assms(2) [unfolded till_ok_def]
  have keyed: "payments_keyed (rd_payments st)" and ids: "distinct (map so_id ?sales)"
    and codes: "distinct (List.map_filter id (map ck_display (po_checkouts st)))"
    and owned: "\<forall>p \<in> set (rd_payments st). py_sale p \<in> so_id ` set ?sales"
    and paid: "\<forall>s \<in> set ?sales. so_total s \<le> paid_for (rd_payments st) (so_id s)"
    using ok by blast+
  obtain staff terminal ds stat saved where settled: "settled env x s splits staff terminal ds stat saved st st'"
    by (rule checked_out_settled [OF assms(1) keyed])
  obtain row where row: "lo_sales (sh_loyalty st') = ?sales @ [row]" "so_id row = sale_id s" "so_total row = minor_units (sale.total s)"
    by (rule settled_row [OF settled])
  obtain cur where rows: "rd_payments st' = rd_payments st @ payment_rows x (sale_id s) cur 0 splits" by (rule settled_books [OF settled])
  have new: "sale_id s \<notin> so_id ` set ?sales" using settled_new [OF settled] by (auto simp: find_sale_def find_None_iff)
  have none: "paid_for (rd_payments st) (sale_id s) = 0"
  proof -
    have "py_sale p \<noteq> sale_id s" if "p \<in> set (rd_payments st)" for p using owned new that by metis
    then have "filter (\<lambda>p. py_sale p = sale_id s) (rd_payments st) = []" by (simp add: filter_empty_conv)
    then show ?thesis by (simp add: paid_for_def)
  qed
  have "distinct (List.map_filter id (map ck_display (po_checkouts st')))"
  proof -
    obtain display where "map ck_display (po_checkouts st') = map ck_display (po_checkouts st) @ [display]"
        "display \<noteq> None \<longrightarrow> display \<notin> set (map ck_display (po_checkouts st))"
      by (rule settled_display [OF settled])
    moreover have "List.map_filter id (ds @ [display]) = List.map_filter id ds @ (case display of None \<Rightarrow> [] | Some d \<Rightarrow> [d])" for ds
      by (simp add: List.map_filter_def split: option.split)
    ultimately show ?thesis using codes by (auto simp: set_map_filter split: option.split)
  qed
  moreover have "so_total r \<le> paid_for (rd_payments st') (so_id r)" if r: "r \<in> set (lo_sales (sh_loyalty st'))" for r
  proof (cases "r = row")
    case True
    then show ?thesis using splits_cover(1) [OF settled_splits(1) [OF settled]] by (simp add: row rows paid_for_append paid_for_rows none)
  next
    case False
    then have "r \<in> set ?sales" using r row(1) by simp
    then have "so_id r \<noteq> sale_id s" "so_total r \<le> paid_for (rd_payments st) (so_id r)" using new paid by (metis imageI, blast)
    then show ?thesis by (simp add: rows paid_for_append paid_for_rows)
  qed
  moreover have "\<forall>p \<in> set (rd_payments st'). py_sale p \<in> so_id ` set (lo_sales (sh_loyalty st'))"
    using owned row(1,2) by (auto simp: rows dest: payment_rows_sale)
  moreover have "distinct (map so_id (lo_sales (sh_loyalty st')))" using ids new by (simp add: row(1,2))
  ultimately show ?thesis using settled_splits(2) [OF settled] by (simp add: till_ok_def)
qed

text \<open>What voids and completions do to a till.\<close>

definition sale_amounts :: "'a pos_db_scheme \<Rightarrow> (string \<times> int) list" where
  "sale_amounts st = map (\<lambda>s. (so_id s, so_total s)) (lo_sales (sh_loyalty st))"

definition tended :: "'a pos_db_scheme \<Rightarrow> 'a pos_db_scheme \<Rightarrow> bool" where
  "tended a b \<longleftrightarrow> stock_step\<^sup>*\<^sup>* (sh_stock a) (sh_stock b) \<and> rd_payments b = rd_payments a
     \<and> po_checkouts b = po_checkouts a \<and> sale_amounts b = sale_amounts a"

lemma tended_refl [simp]: "tended a a"
  by (simp add: tended_def)

lemma tended_trans: "tended a b \<Longrightarrow> tended b c \<Longrightarrow> tended a c"
  by (auto simp: tended_def intro: rtranclp_trans)

lemma till_ok_amounts:
  "till_ok st \<longleftrightarrow> payments_keyed (rd_payments st) \<and> distinct (map fst (sale_amounts st))
     \<and> distinct (List.map_filter id (map ck_display (po_checkouts st)))
     \<and> (\<forall>p \<in> set (rd_payments st). py_sale p \<in> fst ` set (sale_amounts st))
     \<and> (\<forall>(i, t) \<in> set (sale_amounts st). t \<le> paid_for (rd_payments st) i)"
  by (simp add: till_ok_def sale_amounts_def comp_def image_image)

lemma tended_keeps:
  assumes "tended st st'" and "till_ok st"
  shows "till_ok st'"
  using assms by (simp add: tended_def till_ok_amounts)

lemma adjust_steps: "adjust_stock_at_location_with_reason x sku delta l why txn terminal user st = Inr (q, st') \<Longrightarrow> stock_step\<^sup>*\<^sup>* st st'"
  by (rule r_into_rtranclp) (rule stock_step.adjust)

lemma void_entry_tended: "void_entry x sku d s = Inr s' \<Longrightarrow> tended (snd s) (snd s')"
  by (auto simp: void_entry_def tended_def sale_amounts_def dest: adjust_steps split: option.splits elim!: adjust_at_Inr)

lemma each_tended:
  assumes "each f ys s = Inr s'" and "\<And>y s s'. f y s = Inr s' \<Longrightarrow> tended (snd s) (snd s')"
  shows "tended (snd s) (snd s')"
  by (rule each_keeps [where P = "\<lambda>t. tended (snd s) (snd t)", OF _ assms(1)]) (auto intro: tended_trans assms(2))

lemma void_line_tended:
  assumes "void_line x j s = Inr s'"
  shows "tended (snd s) (snd s')"
proof -
  obtain sku where sku: "as_str (jget j ''sku'') = Some sku" using assms by (auto simp: void_line_def split: option.splits)
  show ?thesis
  proof (cases "as_array (jget j ''deductions'')")
    case None
    then show ?thesis using assms sku by (simp add: void_line_def)
  next
    case (Some ds)
    then have "each (void_entry x sku) ds s = Inr s'" using assms sku by (simp add: void_line_def)
    then show ?thesis by (rule each_tended) (rule void_entry_tended)
  qed
qed

lemma void_credit_tended:
  assumes "void_credit parse x j st = Inr st'"
  shows "tended st st'"
proof -
  consider "st' = st" | ls n where "each (void_line x) ls (0, st) = Inr (n, st')"
    using assms by (auto simp: void_credit_def split: if_splits option.splits sum.splits)
  then show ?thesis
  proof cases
    case 2
    from each_tended [OF this void_line_tended] show ?thesis by simp
  qed simp
qed

lemma set_sale_status_tended: "tended st (snd (set_sale_status x sale old new st))"
  by (simp add: set_sale_status_def tended_def sale_amounts_def Let_def comp_def if_distrib cong: if_cong)

lemma cancel_kds_tended: "tended st (snd (cancel_kds_orders_for_sale_in_tx sale st))"
  by (simp add: cancel_kds_orders_for_sale_in_tx_def tended_def sale_amounts_def Let_def)

lemma void_pending_tended:
  assumes "void_pending_sale env x sale st = Inr st'"
  shows "tended st st'"
proof -
  obtain d st1 where 1: "void_credit (xe_parse env) x d st = Inr st1"
      and 2: "st' = st \<or> st' = snd (cancel_kds_orders_for_sale_in_tx sale (snd (set_sale_status x sale ''pending'' ''voided'' st1)))"
    using assms by (auto simp: void_pending_sale_def split: option.splits sum.splits prod.splits if_splits)
  have "tended st (snd (cancel_kds_orders_for_sale_in_tx sale (snd (set_sale_status x sale ''pending'' ''voided'' st1))))"
    by (rule tended_trans [OF tended_trans [OF void_credit_tended [OF 1] set_sale_status_tended] cancel_kds_tended])
  then show ?thesis using 2 by auto
qed

lemma reap_tended: "tended (snd s) (snd (reap_sales env xs n sales s))"
proof (induction env xs n sales s rule: reap_sales.induct)
  case (2 env xs n sale sales k st)
  then show ?case by (auto split: sum.split intro: tended_trans void_pending_tended)
qed simp

lemma void_sale_tended:
  assumes "void_sale env x q sale user why st = Inr st'"
  shows "tended st st'"
proof -
  obtain s where "void_sale_commit env x q user why s st = Inr st'" using assms by (auto simp: void_sale_def split: sum.splits)
  then obtain st2 oq where 1: "insert_audit (void_audit x user why s) (snd (set_sale_status x (so_id s) ''active'' ''voided'' st)) = Inr st2"
      and 2: "st' = snd (cancel_kds_orders_for_sale_in_tx (so_id s) st2)\<lparr>sh_queue := oq\<rparr>"
    by (auto simp: void_sale_commit_def Let_def split: prod.splits sum.splits if_splits)
  have "tended (snd (set_sale_status x (so_id s) ''active'' ''voided'' st)) st2"
    using 1 by (auto simp: insert_audit_def tended_def sale_amounts_def split: if_splits)
  from tended_trans [OF tended_trans [OF set_sale_status_tended this] cancel_kds_tended]
  have "tended st (snd (cancel_kds_orders_for_sale_in_tx (so_id s) st2))" .
  then show ?thesis unfolding 2 by (simp add: tended_def sale_amounts_def)
qed

lemma finalize_tended: "tended st (finalize_sale x sale st)"
proof -
  obtain n st1 where 1: "set_sale_status x sale ''pending'' ''completed'' st = (n, st1)" by force
  have "tended st st1" using set_sale_status_tended [of st x sale "''pending''" "''completed''"] by (simp add: 1)
  then show ?thesis by (simp add: finalize_sale_def finalize_sale_in_tx_def 1 tended_def sale_amounts_def)
qed

text \<open>A step checks one sale out, or leaves the sales, their amounts and the payments as they were.\<close>

lemma till_step_cases:
  "tended st (till_step e st) \<or> (\<exists>env x s splits. checked_out env x s splits st (till_step e st))"
proof (cases e)
  case (Till_checkout env x s ws route splits staff terminal apps estimated)
  show ?thesis
  proof (cases "complete_sale_deduction_with_locations_and_estimate env x s ws route splits staff terminal apps estimated st")
    case (Ok y)
    then show ?thesis using Till_checkout by (cases y) (auto simp: done_or_def dest: checked_out.first_door)
  qed (use Till_checkout in \<open>simp_all add: done_or_def\<close>)
next
  case (Till_retry at env x s ws splits staff terminal rs apps cache)
  obtain y cache' where y: "complete_sale_with_resolved_shortfalls at env x s ws splits staff terminal rs apps st cache = (y, cache')" by force
  show ?thesis
  proof (cases y)
    case (Ok z)
    then show ?thesis using Till_retry y by (cases z) (auto simp: done_or_def dest: checked_out.second_door)
  qed (use Till_retry y in \<open>simp_all add: done_or_def\<close>)
next
  case (Till_void_pending env x sale)
  then show ?thesis using void_pending_tended [of env x sale st]
    by (cases "void_pending_sale env x sale st") (simp_all add: inr_or_def)
next
  case (Till_reap env xs now)
  then show ?thesis using reap_tended [of "(0, st)"] by (simp add: reap_stale_pending_sales_def)
next
  case (Till_void env x q sale user why)
  then show ?thesis using void_sale_tended [of env x q sale user why st]
    by (cases "void_sale env x q sale user why st") (simp_all add: inr_or_def)
next
  case (Till_finalize x sale)
  then show ?thesis using finalize_tended [of st x sale] by simp
qed

lemma till_step_ok: "till_ok st \<Longrightarrow> till_ok (till_step e st)"
  using till_step_cases [of st e] tended_keeps checked_out_keeps by blast

lemma till_step_stock: "till_ok st \<Longrightarrow> stock_step\<^sup>*\<^sup>* (sh_stock st) (sh_stock (till_step e st))"
  using till_step_cases [of st e] checked_out_steps [of _ _ _ _ st "till_step e st"] by (auto simp: tended_def till_ok_def)

lemma till_run_stock: "till_ok st \<Longrightarrow> stock_step\<^sup>*\<^sup>* (sh_stock st) (sh_stock (run till_step es st))"
proof (induction es arbitrary: st)
  case (Cons e es)
  show ?case
    using rtranclp_trans [OF till_step_stock [OF Cons.prems, of e] Cons.IH [OF till_step_ok [OF Cons.prems, of e]]] by simp
qed simp

subsection \<open>A till at work\<close>

definition idr :: "int \<Rightarrow> money" where
  "idr n = \<lparr>minor_units = n, currency = Currency CHR ''I'' CHR ''D'' CHR ''R''\<rparr>"

definition stocked_till :: pos_db where
  "stocked_till = (pos_of empty_remote)\<lparr>sh_stock := plain_shop, rd_products := [\<lparr>pd_id = ''p'', pd_sku = ''S'', pd_name = ''Tea'',
     pd_price = 100, pd_currency = ''IDR'', pd_category = None, pd_barcode = None, pd_type = ''retail'', pd_created_at = ''t''\<rparr>]\<rparr>"

definition demo_sale_of :: "string \<Rightarrow> int \<Rightarrow> sale_line list \<Rightarrow> sale" where
  "demo_sale_of i t ls = \<lparr>sale_id = i, status = Pending, total = idr t, sale_line_count = int (length ls),
     sale_currency = Currency CHR ''I'' CHR ''D'' CHR ''R'', payment_method = None, tendered_minor = None, user_id = None,
     created_at = ''t'', updated_at = ''t'', sale_lines = ls, sale_discount_percent = 0, sale_discount_label = None,
     subtotal = idr t, tax_total = idr 0, customer_id = None, base_currency = None, base_total_minor = None,
     tender_rate_millionths = None, tip_minor = 0, service_charge_minor = 0, version = 1\<rparr>"

definition demo_env :: "json \<Rightarrow> pos_env" where
  "demo_env j = \<lparr>xe_queue = \<lparr>qe_locked = (\<lambda>_. False), qe_terminal = None\<rparr>, xe_render = (\<lambda>_. ''j''), xe_parse = (\<lambda>_. Some j),
     xe_date = (\<lambda>_ _. None)\<rparr>"

definition demo_pos_args :: "string \<Rightarrow> pos_args" where
  "demo_pos_args i = \<lparr>xa_remote = remote_demo_args i, xa_expires = ''t2'', xa_txn = i, xa_payment = (\<lambda>n. i @ ''p'' @ show_nat n),
     xa_queue = (\<lambda>n. \<lparr>qa_id = i @ ''q'' @ show_nat n, qa_now = ''t1''\<rparr>), xa_line_now = (\<lambda>_. ''t1'')\<rparr>"

definition cash :: "string \<Rightarrow> int \<Rightarrow> payment_split" where
  "cash k n = \<lparr>ps_method = ''cash'', ps_amount_minor = n, ps_gateway_reference = None, ps_gateway_status = None,
     ps_gateway_response = None, ps_idempotency_key = Some k\<rparr>"

definition tea_sale :: sale where
  "tea_sale = demo_sale_of ''s'' 200 [small_line ''S'' 2]"

definition tea_json :: json where
  "tea_json = plain_json stocked_till (demo_pos_args ''a'') [''A''] tea_sale"

definition sold_till :: pos_db where
  "sold_till = done_or stocked_till (complete_sale_deduction_with_locations_and_estimate (demo_env tea_json) (demo_pos_args ''a'') tea_sale
     None [''A''] [cash ''k'' 200] ''u'' None [] False stocked_till)"

definition voided_till :: pos_db where
  "voided_till = inr_or sold_till (void_pending_sale (demo_env tea_json) (remote_demo_args ''v'') ''s'' sold_till)"

definition answer_of :: "('e, 'r \<times> 's) outcome \<Rightarrow> 'r option" where
  "answer_of r = (case r of Ok (x, _) \<Rightarrow> Some x | _ \<Rightarrow> None)"

lemma answered: "answer_of r = Some x \<Longrightarrow> r = Ok (x, done_or st r)"
  by (cases r) (auto simp: answer_of_def done_or_def)

lemma tea_sold: "complete_sale_deduction_with_locations_and_estimate (demo_env tea_json) (demo_pos_args ''a'') tea_sale
    None [''A''] [cash ''k'' 200] ''u'' None [] False stocked_till
  = Ok (\<lparr>cr_sale = ''s'', cr_status = Pending, cr_receipt = ''s'', cr_statutory = None, cr_txn = ''a''\<rparr>, sold_till)"
  unfolding sold_till_def by (rule answered) code_simp

lemma voided_till_run:
  "void_pending_sale (demo_env tea_json) (remote_demo_args ''v'') ''s'' sold_till = Inr voided_till"
proof -
  have "\<not> isl (void_pending_sale (demo_env tea_json) (remote_demo_args ''v'') ''s'' sold_till)" by code_simp
  then show ?thesis by (simp add: voided_till_def inr_or_def isl_def split: sum.splits)
qed

lemma stocked_till_ok: "till_ok stocked_till" "products_ok stocked_till" "payments_keyed (rd_payments stocked_till)"
proof -
  have shape: "rd_payments stocked_till = []" "lo_sales (sh_loyalty stocked_till) = []" "po_checkouts stocked_till = []"
      "products (sh_stock stocked_till) = [(''p'', ''S'')]" "map (\<lambda>p. (pd_id p, pd_sku p)) (rd_products stocked_till) = [(''p'', ''S'')]"
      "map pd_sku (rd_products stocked_till) = [''S'']" "sh_stock stocked_till = plain_shop"
    by code_simp+
  show "till_ok stocked_till" by (simp add: till_ok_def shape List.map_filter_def)
  show "products_ok stocked_till" "payments_keyed (rd_payments stocked_till)" by (simp_all add: products_ok_def shape(1,4-6))
qed

lemma tea_lines: "sale_lines tea_sale = [small_line ''S'' 2]" "sale_id tea_sale = ''s''" "sline_qty (small_line ''S'' 2) = 2"
  by code_simp+

lemma checkout_deducts_needs_witness:
  "ledger_total (sh_stock sold_till) ''p'' = ledger_total (sh_stock stocked_till) ''p'' - 2"
proof -
  have "needed (sale_needs stocked_till (sale_lines tea_sale)) ''p'' = 2" by code_simp
  moreover have "\<forall>l \<in> set (sale_lines tea_sale). in_i64 (sline_qty l)" by (simp add: tea_lines range_simps)
  ultimately show ?thesis using checkout_deducts_needs [OF tea_sold _ stocked_till_ok(2,3), of "''p''"] by simp
qed

lemma void_restores_checkout_witness:
  "ledger_qty (sh_stock voided_till) ''p'' ''A'' = ledger_qty (sh_stock stocked_till) ''p'' ''A''
   \<and> ledger_qty (sh_stock sold_till) ''p'' ''A'' = ledger_qty (sh_stock stocked_till) ''p'' ''A'' - 2"
proof -
  have sold: "ledger_qty (sh_stock sold_till) ''p'' ''A'' = ledger_qty (sh_stock stocked_till) ''p'' ''A'' - 2" by code_simp
  have "\<forall>l \<in> set (sale_lines tea_sale). stock_product_id_by_sku (sh_stock sold_till) (sline_sku l)
      = stock_product_id_by_sku (sh_stock stocked_till) (sline_sku l)" unfolding tea_lines(1) by code_simp
  moreover have "distinct (map sline_id (sale_lines tea_sale))" by (simp add: tea_lines)
  moreover have "\<forall>l \<in> set (sale_lines tea_sale). in_i64 (sline_qty l) \<and> plain_line stocked_till l"
  proof -
    have "plain_line stocked_till (small_line ''S'' 2)" by code_simp
    then show ?thesis by (simp add: tea_lines range_simps)
  qed
  moreover have "renders (demo_env tea_json) (plain_json stocked_till (demo_pos_args ''a'') [''A''] tea_sale)"
    by (simp add: renders_def demo_env_def tea_json_def)
  ultimately have "ledger_qty (sh_stock voided_till) ''p'' ''A'' - ledger_qty (sh_stock sold_till) ''p'' ''A''
      = ledger_qty (sh_stock stocked_till) ''p'' ''A'' - ledger_qty (sh_stock sold_till) ''p'' ''A''"
    using void_restores_checkout [OF tea_sold _ _ _ stocked_till_ok(2,3), of "remote_demo_args ''v''" sold_till voided_till "''p''" "''A''"]
      voided_till_run by (simp add: tea_lines(2))
  then show ?thesis using sold by simp
qed

lemma tea_checked_out: "checked_out (demo_env tea_json) (demo_pos_args ''a'') tea_sale [cash ''k'' 200] stocked_till sold_till"
  by (rule checked_out.first_door [OF tea_sold])

lemma payment_key_used_once_witness:
  "find_sale_by_idempotency_key sold_till ''k'' = Some ''s''
   \<and> \<not> checked_out (demo_env JNull) (demo_pos_args ''b'') (demo_sale_of ''s2'' 100 []) [cash ''k'' 100] sold_till sold_till"
proof -
  have key: "ps_idempotency_key (cash ''k'' n) = Some ''k''" for n by (simp add: cash_def)
  have "payments_keyed (rd_payments sold_till)" by code_simp
  then show ?thesis
    using payment_key_used_once [OF tea_checked_out stocked_till_ok(3), of "cash ''k'' 200" "''k''" sold_till "cash ''k'' 100"
        "[cash ''k'' 100]" "demo_env JNull" "demo_pos_args ''b''" "demo_sale_of ''s2'' 100 []" sold_till]
    by (simp add: key tea_lines)
qed

lemma checkout_books_witness:
  "\<exists>cur. rd_payments sold_till = payment_rows (demo_pos_args ''a'') ''s'' cur 0 [cash ''k'' 200]"
proof -
  have "rd_payments stocked_till = []" by code_simp
  then show ?thesis using checkout_books [OF tea_checked_out stocked_till_ok(3)] by (auto simp: tea_lines)
qed

interpretation till_machine: machine stocked_till till_step till_ok
  by unfold_locales (rule stocked_till_ok(1), rule till_step_ok)

text \<open>
  C7. What holds of a till at any time: over every history of checkouts, retries, voids, reaped sales and
  completions sales have distinct ids and distinct receipt codes, no payment key is used twice, every sale is
  covered by the payments that belong to it, and the stock of every product moves together with its ledger.
  Where in addition no location may be oversold and the stock tables agree with nothing below zero, that
  stays so.\<close>

theorem till_stays_ok:
  assumes "till_ok st" and "distinct (map fst (summary (sh_stock st)))"
  shows "till_ok (run till_step es st)
    \<and> (\<forall>p. stock_total (sh_stock (run till_step es st)) p - stock_total (sh_stock st) p
         = ledger_total (sh_stock (run till_step es st)) p - ledger_total (sh_stock st) p)
    \<and> (stock_sound (sh_stock st) \<longrightarrow> stock_sound (sh_stock (run till_step es st)))"
proof -
  note steps = till_run_stock [OF assms(1), of es]
  have "till_ok (run till_step es st)" by (rule till_machine.inv_run_from [OF assms(1)])
  moreover have "stock_total (sh_stock (run till_step es st)) p - ledger_total (sh_stock (run till_step es st)) p
      = stock_total (sh_stock st) p - ledger_total (sh_stock st) p" for p
    using conserved_steps [OF steps assms(2)] by blast
  moreover have "stock_sound (sh_stock st) \<Longrightarrow> stock_sound (sh_stock (run till_step es st))"
    by (rule stock_steps_keep [of _ _ stock_sound, OF steps]) (auto intro: adjust_sound bridge_sound)
  ultimately show ?thesis by (simp add: algebra_simps)
qed

lemma till_stays_ok_witness:
  "let st = run till_step [Till_checkout (demo_env tea_json) (demo_pos_args ''a'') tea_sale None [''A''] [cash ''k'' 200] ''u'' None [] False,
     Till_void_pending (demo_env tea_json) (remote_demo_args ''v'') ''s''] stocked_till
   in till_ok st \<and> stock_sound (sh_stock st)"
proof -
  have "stock_sound (sh_stock stocked_till)" "distinct (map fst (summary (sh_stock stocked_till)))"
    using plain_shop_sound by (simp_all add: stocked_till_def stock_sound_def)
  then show ?thesis using till_stays_ok [OF stocked_till_ok(1)] by (simp only: Let_def simp_thms)
qed

subsection \<open>Where goods are lost or invented\<close>

definition after_checkout :: "pos_db \<Rightarrow> json \<Rightarrow> string list \<Rightarrow> sale \<Rightarrow> int \<Rightarrow> (checkout_error, sale_result \<times> pos_db) outcome" where
  "after_checkout st j route s n = complete_sale_deduction_with_locations_and_estimate (demo_env j) (demo_pos_args ''a'') s
     None route [cash ''k'' n] ''u'' None [] False st"

definition after_void :: "pos_db \<Rightarrow> json \<Rightarrow> pos_db" where
  "after_void st j = inr_or st (void_pending_sale (demo_env j) (remote_demo_args ''v'') ''s'' st)"

text \<open>
  For a service the checkout takes nothing from stock, yet records the quantity sold at the primary location;
  the void credits it.
\<close>

definition service_till :: pos_db where
  "service_till = stocked_till\<lparr>rd_products := map (\<lambda>p. p\<lparr>pd_type := ''service''\<rparr>) (rd_products stocked_till)\<rparr>"

lemma void_invents_stock:
  "let sold = done_or service_till (after_checkout service_till tea_json [''A''] tea_sale 200); voided = after_void sold tea_json
   in ledger_qty (sh_stock service_till) ''p'' ''A'' = 3 \<and> ledger_qty (sh_stock sold) ''p'' ''A'' = 3 \<and> ledger_qty (sh_stock voided) ''p'' ''A'' = 5"
  by code_simp

text \<open>The ingredients of a recipe are taken at the checkout and not recorded, so the void does not give them back.\<close>

definition kitchen_till :: pos_db where
  "kitchen_till = stocked_till\<lparr>sh_stock := plain_shop\<lparr>products := [(''p'', ''S''), (''i'', ''I'')],
       movements := [delivery, delivery\<lparr>mv_id := ''e'', mv_item := ''i''\<rparr>], summary := [((''p'', ''A''), 3, ''2024''), ((''i'', ''A''), 3, ''2024'')]\<rparr>,
     rd_products := rd_products stocked_till @ map (\<lambda>p. p\<lparr>pd_id := ''i'', pd_sku := ''I''\<rparr>) (rd_products stocked_till),
     po_recipes := [\<lparr>ri_id = ''r'', ri_parent = ''p'', ri_ingredient = ''i'', ri_quantity = 1, ri_unit = ''unit''\<rparr>]\<rparr>"

lemma void_keeps_ingredients:
  "let sold = done_or kitchen_till (after_checkout kitchen_till tea_json [''A''] tea_sale 200); voided = after_void sold tea_json
   in ledger_total (sh_stock kitchen_till) ''i'' = 3 \<and> ledger_total (sh_stock sold) ''i'' = 1 \<and> ledger_total (sh_stock voided) ''i'' = 1
     \<and> ledger_total (sh_stock voided) ''p'' = ledger_total (sh_stock kitchen_till) ''p''"
  by code_simp

text \<open>A resolution may name a negative share: it counts in the sum, but only the others are taken.\<close>

lemma negative_share_oversells:
  "resolve_line stocked_till None ''A'' [\<lparr>rv_sku = ''S'', rv_allocations = [\<lparr>ac_location = ''A'', ac_qty = 3\<rparr>, \<lparr>ac_location = ''B'', ac_qty = -1\<rparr>]\<rparr>]
     (small_line ''S'' 2) []
   = Ok [\<lparr>sd_sku = ''S'', sd_location = ''A'', sd_delta = -3\<rparr>]"
  by code_simp

text \<open>A resolved line takes the product itself, but none of the ingredients of its recipe.\<close>

lemma resolved_line_skips_recipe:
  "resolve_line kitchen_till None ''A'' [] (small_line ''S'' 2) []
     = Ok [\<lparr>sd_sku = ''S'', sd_location = ''A'', sd_delta = -2\<rparr>, \<lparr>sd_sku = ''I'', sd_location = ''A'', sd_delta = -2\<rparr>]
   \<and> resolve_line kitchen_till None ''A'' [\<lparr>rv_sku = ''S'', rv_allocations = [\<lparr>ac_location = ''A'', ac_qty = 2\<rparr>]\<rparr>] (small_line ''S'' 2) []
     = Ok [\<lparr>sd_sku = ''S'', sd_location = ''A'', sd_delta = -2\<rparr>]"
  by code_simp

text \<open>The first door reports an unknown product as a shortfall; the retry sells it.\<close>

lemma retry_sells_unknown_product:
  "plan_stock stocked_till None [''A''] [small_line ''X'' 1] \<noteq> Ok \<lparr>pl_deductions = [], pl_lines = [], pl_short = []\<rparr>
   \<and> resolve_line stocked_till None ''A'' [] (small_line ''X'' 1) [] = Ok []"
  by code_simp

text \<open>
  Two lines of one product are each checked against all of its stock: three units at one location and three at
  the next cover two lines of two, and the sale fails on the first location.
\<close>

definition two_rooms :: pos_db where
  "two_rooms = stocked_till\<lparr>sh_stock := plain_shop\<lparr>stock_locations := [''A'', ''B''],
     movements := [delivery, delivery\<lparr>mv_id := ''e'', mv_location := ''B''\<rparr>], summary := [((''p'', ''A''), 3, ''2024''), ((''p'', ''B''), 3, ''2024'')],
     inventory := [(''p'', \<lparr>iv_qty = 6, iv_location = canonical_default_location, iv_updated_at = ''2024''\<rparr>)]\<rparr>\<rparr>"

lemma two_lines_overdraw:
  "let ls = [small_line ''S'' 2, (small_line ''S'' 2)\<lparr>sline_id := ''l2'', line_position := 2\<rparr>]
   in (case plan_stock two_rooms None [''A'', ''B''] ls of Ok pl \<Rightarrow> pl_short pl = [] | _ \<Rightarrow> False)
    \<and> (case after_checkout two_rooms JNull [''A'', ''B''] (demo_sale_of ''s'' 400 ls) 400 of
          Err e \<Rightarrow> e = Failed (InsufficientStockAtLocation ''S'' ''A'' (-2) 1) | _ \<Rightarrow> False)"
  by code_simp

text \<open>A workspace that is bound in both ways has a primary location, though its route is refused.\<close>

lemma split_brain_resolves:
  "let db = (pos_of empty_remote)\<lparr>po_workspaces := [\<lparr>wi_id = ''w'', wi_bound = Some ''A''\<rparr>]\<rparr>
   in fst (resolve_primary_location 0 db ''w'' None []) = Inr ''A''
     \<and> resolve_all_locations db ''w'' = Inl (Validation ''workspace_binding'')"
  by code_simp

end
