(* ===== verification/Stock_Transfers.thy ===== *)
theory Stock_Transfers
  imports Stock_History
begin

section \<open>Transfers between locations\<close>

text \<open>
  Models \<open>crates/kasirmu-core/src/db/stock_transfers.rs\<close> and \<open>stock_transfer.rs\<close> on the stock ledger of \<open>Stock\<close>: a
  transfer takes its goods from the source when it is sent and brings them to the destination as they are received.
  Ids and times are arguments; an operation that fails carries no state. The rows hold the type of the domain, whose
  locations are always present. Reading before the commit and the transaction are one step, for SQLite lets only one
  writer in.
\<close>

subsection \<open>Tables\<close>

record stock_transfer =
  tf_id :: string
  tf_number :: string
  tf_status :: string
  tf_source :: "string option"
  tf_destination :: "string option"
  tf_source_terminal :: "string option"
  tf_destination_terminal :: "string option"
  tf_notes :: string
  tf_created_by :: string
  tf_received_by :: "string option"
  tf_created_at :: string
  tf_sent_at :: "string option"
  tf_received_at :: "string option"
  tf_updated_at :: string

record stock_transfer_line =
  tl_id :: string
  tl_transfer :: string
  tl_sku :: string
  tl_product_name :: string
  tl_qty :: int
  tl_received :: int

record received_line =
  rc_line :: string
  rc_qty :: int

record warehouse =
  wh_stock :: stock_store
  wh_transfers :: "stock_transfer list"
  wh_lines :: "stock_transfer_line list"

record transfer_args =
  ta_id :: string
  ta_now :: string
  ta_millis :: int
  ta_line :: "nat \<Rightarrow> string"
  ta_adjust :: "nat \<Rightarrow> adjust_args"

subsection \<open>Creating and editing\<close>

definition insert_transfer :: "stock_transfer \<Rightarrow> 'a warehouse_scheme \<Rightarrow> core_error + 'a warehouse_scheme" where
  "insert_transfer t w =
     (if tf_id t \<in> tf_id ` set (wh_transfers w) \<or> tf_number t \<in> tf_number ` set (wh_transfers w)
         \<or> the (tf_source t) \<notin> set (stock_locations (wh_stock w)) \<or> the (tf_destination t) \<notin> set (stock_locations (wh_stock w))
         \<or> (\<exists>k \<in> set_option (tf_source_terminal t) \<union> set_option (tf_destination_terminal t). k \<notin> fst ` set (terminal_ws (wh_stock w)))
      then Inl Db else Inr (w\<lparr>wh_transfers := wh_transfers w @ [t]\<rparr>))"

definition insert_transfer_line :: "stock_transfer_line \<Rightarrow> 'a warehouse_scheme \<Rightarrow> core_error + 'a warehouse_scheme" where
  "insert_transfer_line l w =
     (if tl_id l \<in> tl_id ` set (wh_lines w) \<or> tl_transfer l \<notin> tf_id ` set (wh_transfers w) \<or> tl_qty l \<le> 0
      then Inl Db else Inr (w\<lparr>wh_lines := wh_lines w @ [l]\<rparr>))"

definition location_or_canonical :: "string option \<Rightarrow> string" where
  "location_or_canonical l = (case l of None \<Rightarrow> canonical_default_location | Some k \<Rightarrow> k)"

definition create_transfer ::
    "transfer_args \<Rightarrow> string option \<Rightarrow> string option \<Rightarrow> string option \<Rightarrow> string option \<Rightarrow> string \<Rightarrow> string
       \<Rightarrow> stock_transfer_line list \<Rightarrow> 'a warehouse_scheme \<Rightarrow> core_error + stock_transfer \<times> 'a warehouse_scheme" where
  "create_transfer x source destination source_terminal destination_terminal memo by_user ls w =
     (let t = \<lparr>tf_id = ta_id x, tf_number = ''TRF-'' @ show_int (ta_millis x) @ ''-'' @ drop 24 (ta_id x), tf_status = ''draft'',
            tf_source = source, tf_destination = destination, tf_source_terminal = source_terminal,
            tf_destination_terminal = destination_terminal, tf_notes = memo, tf_created_by = by_user, tf_received_by = None,
            tf_created_at = ta_now x, tf_sent_at = None, tf_received_at = None, tf_updated_at = ta_now x\<rparr>
      in case insert_transfer (t\<lparr>tf_source := Some (location_or_canonical source),
                tf_destination := Some (location_or_canonical destination)\<rparr>) w of
           Inl e \<Rightarrow> Inl e
         | Inr w1 \<Rightarrow>
             (case each (\<lambda>(i, l). insert_transfer_line \<lparr>tl_id = ta_line x i, tl_transfer = ta_id x, tl_sku = tl_sku l,
                     tl_product_name = tl_product_name l, tl_qty = tl_qty l, tl_received = 0\<rparr>) (enumerate 0 ls) w1 of
                Inl e \<Rightarrow> Inl e | Inr w2 \<Rightarrow> Inr (t, w2)))"

definition get_transfer :: "'a warehouse_scheme \<Rightarrow> string \<Rightarrow> stock_transfer option" where
  "get_transfer w i = List.find (\<lambda>t. tf_id t = i) (wh_transfers w)"

definition list_transfers :: "'a warehouse_scheme \<Rightarrow> stock_transfer list" where
  "list_transfers w = rev (sort_key tf_created_at (wh_transfers w))"

definition get_transfer_lines :: "'a warehouse_scheme \<Rightarrow> string \<Rightarrow> stock_transfer_line list" where
  "get_transfer_lines w i = sort_key tl_id (filter (\<lambda>l. tl_transfer l = i) (wh_lines w))"

definition list_transfers_with_lines_by_status ::
    "'a warehouse_scheme \<Rightarrow> string \<Rightarrow> (stock_transfer \<times> stock_transfer_line list) list" where
  "list_transfers_with_lines_by_status w s =
     map (\<lambda>t. (t, get_transfer_lines w (tf_id t))) (rev (sort_key tf_created_at (filter (\<lambda>t. tf_status t = s) (wh_transfers w))))"

definition add_transfer_line ::
    "string \<Rightarrow> string \<Rightarrow> string \<Rightarrow> string \<Rightarrow> int \<Rightarrow> 'a warehouse_scheme \<Rightarrow> core_error + stock_transfer_line \<times> 'a warehouse_scheme" where
  "add_transfer_line new_id transfer sku name q w =
     (case get_transfer w transfer of
        None \<Rightarrow> Inl (NotFound ''stock_transfer'' transfer)
      | Some t \<Rightarrow>
          if tf_status t \<noteq> ''draft'' then Inl (Validation ''status'')
          else (let l = \<lparr>tl_id = new_id, tl_transfer = transfer, tl_sku = sku, tl_product_name = name, tl_qty = q, tl_received = 0\<rparr>
            in case insert_transfer_line l w of Inl e \<Rightarrow> Inl e | Inr w' \<Rightarrow> Inr (l, w')))"

definition remove_transfer_line :: "string \<Rightarrow> 'a warehouse_scheme \<Rightarrow> core_error + 'a warehouse_scheme" where
  "remove_transfer_line line w =
     (case List.find (\<lambda>l. tl_id l = line) (wh_lines w) of
        None \<Rightarrow> Inl (NotFound ''stock_transfer_line'' line)
      | Some l \<Rightarrow>
          (case get_transfer w (tl_transfer l) of
             None \<Rightarrow> Inl Db
           | Some t \<Rightarrow>
               if tf_status t \<noteq> ''draft'' then Inl (Validation ''status'')
               else Inr (w\<lparr>wh_lines := filter (\<lambda>k. tl_id k \<noteq> line) (wh_lines w)\<rparr>)))"

subsection \<open>Moving the goods\<close>

text \<open>The n-th movement; older stock of the product is first brought into the table by location.\<close>

definition move_stock ::
    "transfer_args \<Rightarrow> string \<Rightarrow> int \<Rightarrow> string \<Rightarrow> string \<Rightarrow> nat \<times> stock_store \<Rightarrow> core_error + nat \<times> stock_store" where
  "move_stock x sku q l why = (\<lambda>(n, st).
     case stock_product_id_by_sku st sku of
       None \<Rightarrow> Inl (NotFound ''product'' sku)
     | Some p \<Rightarrow>
         (case bridge_legacy_inventory_into_stock_summary (aa_now (ta_adjust x n)) p st of
            Inl e \<Rightarrow> Inl e
          | Inr st1 \<Rightarrow>
              (case adjust_stock_at_location_with_reason (ta_adjust x n) sku q l (Some why) None None None st1 of
                 Inl e \<Rightarrow> Inl e | Inr (_, st2) \<Rightarrow> Inr (Suc n, st2))))"

definition send_error :: "core_error \<Rightarrow> core_error" where
  "send_error e = (case e of InsufficientStockAtLocation _ _ _ _ \<Rightarrow> Validation ''qty'' | _ \<Rightarrow> e)"

definition send_line :: "transfer_args \<Rightarrow> string \<Rightarrow> stock_transfer_line \<Rightarrow> nat \<times> stock_store \<Rightarrow> core_error + nat \<times> stock_store" where
  "send_line x source l s =
     (if tl_qty l \<le> 0 then Inl (Validation ''qty'')
      else (case move_stock x (tl_sku l) (- tl_qty l) source ''stock_transfer_out'' s of
          Inl e \<Rightarrow> Inl (send_error e) | Inr s' \<Rightarrow> Inr s'))"

text \<open>The conditional update of a status, with the number of rows it hit.\<close>

definition claim_status ::
    "string \<Rightarrow> string list \<Rightarrow> (stock_transfer \<Rightarrow> stock_transfer) \<Rightarrow> 'a warehouse_scheme \<Rightarrow> nat \<times> 'a warehouse_scheme" where
  "claim_status i old f w =
     (let hit = (\<lambda>t. tf_id t = i \<and> tf_status t \<in> set old)
      in (length (filter hit (wh_transfers w)), w\<lparr>wh_transfers := map (\<lambda>t. if hit t then f t else t) (wh_transfers w)\<rparr>))"

definition with_transfer :: "string \<Rightarrow> 'a warehouse_scheme \<Rightarrow> core_error + stock_transfer \<times> 'a warehouse_scheme" where
  "with_transfer i w = (case get_transfer w i of None \<Rightarrow> Inl (NotFound ''stock_transfer'' i) | Some t \<Rightarrow> Inr (t, w))"

definition send_transfer ::
    "transfer_args \<Rightarrow> string \<Rightarrow> 'a warehouse_scheme \<Rightarrow> core_error + stock_transfer \<times> 'a warehouse_scheme" where
  "send_transfer x i w =
     (case get_transfer w i of
        None \<Rightarrow> Inl (NotFound ''stock_transfer'' i)
      | Some t \<Rightarrow>
          if tf_status t \<noteq> ''draft'' \<and> tf_status t \<noteq> ''pending'' then Inl (Validation ''status'')
          else (case claim_status i [''draft'', ''pending'']
                    (\<lambda>t. t\<lparr>tf_status := ''in_transit'', tf_sent_at := Some (ta_now x), tf_updated_at := ta_now x\<rparr>) w of
              (claimed, w1) \<Rightarrow>
                if claimed \<noteq> 1 then Inl (Validation ''status'')
                else (case each (send_line x (the (tf_source t))) (get_transfer_lines w1 i) (0, wh_stock w1) of
                    Inl e \<Rightarrow> Inl e
                  | Inr (_, st) \<Rightarrow> with_transfer i (w1\<lparr>wh_stock := st\<rparr>))))"

definition set_received :: "string \<Rightarrow> string \<Rightarrow> int \<Rightarrow> 'a warehouse_scheme \<Rightarrow> 'a warehouse_scheme" where
  "set_received line i q w = w\<lparr>wh_lines := map (\<lambda>l. if tl_id l = line \<and> tl_transfer l = i then l\<lparr>tl_received := q\<rparr> else l) (wh_lines w)\<rparr>"

definition receive_line ::
    "transfer_args \<Rightarrow> string \<Rightarrow> string \<Rightarrow> received_line \<Rightarrow> nat \<times> 'a warehouse_scheme \<Rightarrow> core_error + nat \<times> 'a warehouse_scheme" where
  "receive_line x i destination r = (\<lambda>(n, w).
     case List.find (\<lambda>l. tl_id l = rc_line r \<and> tl_transfer l = i) (wh_lines w) of
       None \<Rightarrow> Inl Db
     | Some l \<Rightarrow>
         if rc_qty r < 0 \<or> rc_qty r > tl_qty l \<or> rc_qty r < tl_received l then Inl (Validation ''received_qty'')
         else if rc_qty r - tl_received l > 0
         then (case move_stock x (tl_sku l) (rc_qty r - tl_received l) destination ''stock_transfer_in'' (n, wh_stock w) of
             Inl e \<Rightarrow> Inl e
           | Inr (n', st) \<Rightarrow> Inr (n', (set_received (rc_line r) i (rc_qty r) w)\<lparr>wh_stock := st\<rparr>))
         else Inr (n, set_received (rc_line r) i (rc_qty r) w))"

definition received_status :: "'a warehouse_scheme \<Rightarrow> string \<Rightarrow> string" where
  "received_status w i =
     (let ls = filter (\<lambda>l. tl_transfer l = i) (wh_lines w)
      in if \<not> list_ex (\<lambda>l. tl_received l < tl_qty l) ls then ''received''
         else if list_ex (\<lambda>l. tl_received l > 0) ls then ''received_partial''
         else ''in_transit'')"

definition receive_transfer ::
    "transfer_args \<Rightarrow> string \<Rightarrow> string \<Rightarrow> received_line list \<Rightarrow> 'a warehouse_scheme \<Rightarrow> core_error + stock_transfer \<times> 'a warehouse_scheme" where
  "receive_transfer x i by_user rs w =
     (case get_transfer w i of
        None \<Rightarrow> Inl (NotFound ''stock_transfer'' i)
      | Some t \<Rightarrow>
          if tf_status t \<noteq> ''in_transit'' \<and> tf_status t \<noteq> ''received_partial'' then Inl (Validation ''status'')
          else (case each (receive_line x i (the (tf_destination t))) rs (0, w) of
              Inl e \<Rightarrow> Inl e
            | Inr (_, w1) \<Rightarrow>
                (case claim_status i [''in_transit'', ''received_partial''] (\<lambda>t. t\<lparr>tf_status := received_status w1 i,
                        tf_received_by := Some by_user, tf_received_at := Some (ta_now x), tf_updated_at := ta_now x\<rparr>) w1 of
                   (claimed, w2) \<Rightarrow> if claimed \<noteq> 1 then Inl (Validation ''status'') else with_transfer i w2)))"

definition cancel_transfer ::
    "transfer_args \<Rightarrow> string \<Rightarrow> 'a warehouse_scheme \<Rightarrow> core_error + stock_transfer \<times> 'a warehouse_scheme" where
  "cancel_transfer x i w =
     (case get_transfer w i of
        None \<Rightarrow> Inl (NotFound ''stock_transfer'' i)
      | Some t \<Rightarrow>
          if tf_status t \<in> {''received'', ''received_partial'', ''cancelled''} then Inl (Validation ''status'')
          else (case (if tf_status t = ''in_transit''
                then each (\<lambda>l. move_stock x (tl_sku l) (tl_qty l) (the (tf_source t)) ''stock_transfer_cancel'')
                       (filter (\<lambda>l. tl_transfer l = i) (wh_lines w)) (0, wh_stock w)
                else Inr (0, wh_stock w)) of
              Inl e \<Rightarrow> Inl e
            | Inr (_, st) \<Rightarrow>
                (case claim_status i [''draft'', ''pending'', ''in_transit'']
                        (\<lambda>t. t\<lparr>tf_status := ''cancelled'', tf_updated_at := ta_now x\<rparr>) (w\<lparr>wh_stock := st\<rparr>) of
                   (changed, w2) \<Rightarrow> if changed \<noteq> 1 then Inl (Validation ''status'') else with_transfer i w2)))"

subsection \<open>Goods on the road\<close>

definition status_of :: "'a warehouse_scheme \<Rightarrow> string \<Rightarrow> string option" where
  "status_of w i = map_option tf_status (get_transfer w i)"

definition moving :: "string option \<Rightarrow> bool" where
  "moving s \<longleftrightarrow> s = Some ''in_transit'' \<or> s = Some ''received_partial''"

definition owed :: "'a warehouse_scheme \<Rightarrow> stock_transfer_line \<Rightarrow> int" where
  "owed w l = (if moving (status_of w (tl_transfer l)) then tl_qty l - tl_received l else 0)"

definition of_product :: "stock_store \<Rightarrow> string \<Rightarrow> string \<Rightarrow> int \<Rightarrow> int" where
  "of_product st sku p q = (if stock_product_id_by_sku st sku = Some p then q else 0)"

text \<open>What transfers have taken from their sources and not yet brought to their destinations.\<close>

definition on_the_road :: "'a warehouse_scheme \<Rightarrow> string \<Rightarrow> int" where
  "on_the_road w p = sum_list (map (\<lambda>l. of_product (wh_stock w) (tl_sku l) p (owed w l)) (wh_lines w))"

definition fits :: "string \<Rightarrow> stock_transfer_line \<Rightarrow> bool" where
  "fits s l \<longleftrightarrow> 0 \<le> tl_received l \<and> tl_received l \<le> tl_qty l
     \<and> (s \<in> {''draft'', ''pending'', ''in_transit'', ''cancelled''} \<longrightarrow> tl_received l = 0)
     \<and> (s = ''received'' \<longrightarrow> tl_received l = tl_qty l)"

definition transfers_ok :: "'a warehouse_scheme \<Rightarrow> bool" where
  "transfers_ok w \<longleftrightarrow> distinct (map tf_id (wh_transfers w)) \<and> distinct (map tl_id (wh_lines w))
     \<and> (\<forall>l \<in> set (wh_lines w). \<exists>s. status_of w (tl_transfer l) = Some s \<and> fits s l)"

lemma of_product_zero [simp]: "of_product st sku p 0 = 0"
  by (simp add: of_product_def)

lemma of_product_add: "of_product st sku p (a + b) = of_product st sku p a + of_product st sku p b"
  by (simp add: of_product_def)

lemma of_product_minus: "of_product st sku p (- a) = - of_product st sku p a"
  by (simp add: of_product_def)

text \<open>One movement, and a run of them.\<close>

definition stock_moved :: "stock_store \<Rightarrow> stock_store \<Rightarrow> bool" where
  "stock_moved a b \<longleftrightarrow> stock_step\<^sup>*\<^sup>* a b \<and> stock_product_id_by_sku b = stock_product_id_by_sku a"

lemma stock_moved_refl [simp]: "stock_moved a a"
  by (simp add: stock_moved_def)

lemma stock_moved_trans: "stock_moved a b \<Longrightarrow> stock_moved b c \<Longrightarrow> stock_moved a c"
  by (auto simp: stock_moved_def)

lemma stock_moved_product: "stock_moved a b \<Longrightarrow> of_product b sku p q = of_product a sku p q"
  by (simp add: stock_moved_def of_product_def)

lemma adjust_same_products:
  "adjust_stock_at_location_with_reason x sku delta l why txn terminal user st = Inr (q, st')
     \<Longrightarrow> stock_product_id_by_sku st' = stock_product_id_by_sku st"
  by (auto simp: stock_product_id_by_sku_def fun_eq_iff dest: adjust_products)

lemma move_stock_Inr:
  assumes "move_stock x sku q l why s = Inr s'"
  shows "stock_moved (snd s) (snd s')" "ledger_total (snd s') p = ledger_total (snd s) p + of_product (snd s) sku p q"
proof -
  obtain n st where s: "s = (n, st)" by force
  obtain i st1 v st2 where 1: "stock_product_id_by_sku st sku = Some i"
      "bridge_legacy_inventory_into_stock_summary (aa_now (ta_adjust x n)) i st = Inr st1"
      "adjust_stock_at_location_with_reason (ta_adjust x n) sku q l (Some why) None None None st1 = Inr (v, st2)"
    and s': "s' = (Suc n, st2)"
    using assms by (auto simp: move_stock_def s split: option.splits sum.splits)
  have bridged: "movements st1 = movements st" "stock_product_id_by_sku st1 = stock_product_id_by_sku st"
    using bridge_Inr [OF 1(2)] by (auto simp: stock_product_id_by_sku_def fun_eq_iff)
  have "stock_step st st1" "stock_step st1 st2" using 1(2,3) by (auto intro: stock_step.intros)
  then show "stock_moved (snd s) (snd s')"
    using adjust_same_products [OF 1(3)] bridged(2) by (simp add: s s' stock_moved_def)
  obtain i' m where "stock_product_id_by_sku st1 sku = Some i'" "movements st2 = movements st1 @ [m]" "mv_item m = i'" "mv_delta m = q"
    using adjust_Inr [OF 1(3)] by (auto simp: adjusted_def)
  then show "ledger_total (snd s') p = ledger_total (snd s) p + of_product (snd s) sku p q"
    using 1(1) bridged by (simp add: s s' ledger_total_def of_product_def)
qed

lemma each_move_Inr:
  assumes step: "\<And>l s s'. f l s = Inr s' \<Longrightarrow> stock_moved (snd s) (snd s')
      \<and> ledger_total (snd s') p = ledger_total (snd s) p + of_product (snd s) (tl_sku l) p (g l)"
    and "each f ls s = Inr s'"
  shows "stock_moved (snd s) (snd s')
    \<and> ledger_total (snd s') p = ledger_total (snd s) p + sum_list (map (\<lambda>l. of_product (snd s) (tl_sku l) p (g l)) ls)"
  using assms(2)
proof (induction ls arbitrary: s)
  case (Cons l ls)
  obtain s1 where 1: "f l s = Inr s1" and 2: "each f ls s1 = Inr s'" using Cons.prems by (auto split: sum.splits)
  have "of_product (snd s1) sku p q = of_product (snd s) sku p q" for sku q using step [OF 1] stock_moved_product by blast
  then show ?case using Cons.IH [OF 2] step [OF 1] stock_moved_trans by auto
qed simp

text \<open>A claimed status.\<close>

lemma find_mapped:
  assumes "distinct (map tf_id ts)" and "List.find (\<lambda>t. tf_id t = i) ts = Some t" and "P t" and "\<And>t. tf_id (f t) = tf_id t"
  shows "length (filter (\<lambda>t. tf_id t = i \<and> P t) ts) = 1"
    "List.find (\<lambda>t. tf_id t = k) (map (\<lambda>t. if tf_id t = i \<and> P t then f t else t) ts)
       = (if k = i then Some (f t) else List.find (\<lambda>t. tf_id t = k) ts)"
    "map tf_id (map (\<lambda>t. if tf_id t = i \<and> P t then f t else t) ts) = map tf_id ts"
  using assms
proof (induction ts)
  case (Cons a ts)
  {
    case 1
    then show ?case using Cons.IH(1) by (cases "tf_id a = i") (auto simp: filter_empty_conv image_iff)
  next
    case 2
    have "tf_id a = i \<Longrightarrow> map (\<lambda>t. if tf_id t = i \<and> P t then f t else t) ts = ts"
      using 2(1) by (auto simp: image_iff intro!: map_idI)
    then show ?case using Cons.IH(2) 2 by (cases "tf_id a = i") auto
  next
    case 3
    then show ?case by (auto simp: comp_def)
  }
qed simp_all

lemma claim_status_Some:
  assumes "distinct (map tf_id (wh_transfers w))" and "get_transfer w i = Some t" and "tf_status t \<in> set old"
    and "\<And>t. tf_id (f t) = tf_id t" and "claim_status i old f w = (n, w')"
  shows "n = 1" "get_transfer w' k = (if k = i then Some (f t) else get_transfer w k)"
    "map tf_id (wh_transfers w') = map tf_id (wh_transfers w)" "wh_lines w' = wh_lines w" "wh_stock w' = wh_stock w"
  using assms(5) find_mapped [of "wh_transfers w" i t "\<lambda>t. tf_status t \<in> set old" f] assms(1-4)
  by (auto simp: claim_status_def get_transfer_def Let_def)

lemma claim_status_stock:
  "claim_status i old f w = (n, w1) \<Longrightarrow> claim_status i old f (w\<lparr>wh_stock := st\<rparr>) = (n, w1\<lparr>wh_stock := st\<rparr>)"
  by (auto simp: claim_status_def Let_def)

lemma claim_hits:
  assumes "distinct (map tf_id (wh_transfers w))" and "get_transfer w i = Some t" and "claim_status i old f w = (1, w')"
  shows "tf_status t \<in> set old"
proof -
  have "length (filter (\<lambda>t. tf_id t = i \<and> tf_status t \<in> set old) (wh_transfers w)) = 1"
    using assms(3) by (simp add: claim_status_def Let_def)
  then have "filter (\<lambda>t. tf_id t = i \<and> tf_status t \<in> set old) (wh_transfers w) \<noteq> []" by auto
  then obtain u where u: "u \<in> set (wh_transfers w)" "tf_id u = i" "tf_status u \<in> set old" by (auto simp: filter_empty_conv)
  moreover have "t \<in> set (wh_transfers w)" "tf_id t = i" using assms(2) by (auto simp: get_transfer_def find_Some_iff)
  ultimately have "u = t" using assms(1) by (metis distinct_map inj_onD)
  then show ?thesis using u(3) by simp
qed

text \<open>What an operation on transfers keeps.\<close>

definition accounted :: "'a warehouse_scheme \<Rightarrow> string \<Rightarrow> int" where
  "accounted w p = ledger_total (wh_stock w) p + on_the_road w p"

definition kept :: "'a warehouse_scheme \<Rightarrow> 'a warehouse_scheme \<Rightarrow> bool" where
  "kept w w' \<longleftrightarrow> transfers_ok w' \<and> stock_moved (wh_stock w) (wh_stock w') \<and> accounted w' = accounted w"

lemma get_transfer_id: "get_transfer w i = Some t \<Longrightarrow> tf_id t = i \<and> t \<in> set (wh_transfers w)"
  by (auto simp: get_transfer_def find_Some_iff)

lemma get_transfer_stock [simp]: "get_transfer (w\<lparr>wh_stock := st\<rparr>) i = get_transfer w i"
  by (simp add: get_transfer_def)

lemma sum_list_changed:
  assumes "\<And>l. l \<in> set ls \<Longrightarrow> \<not> P l \<Longrightarrow> g l = f l"
  shows "sum_list (map g ls) = sum_list (map f ls) + sum_list (map (\<lambda>l. g l - f l :: int) (filter P ls))"
  using assms by (induction ls) auto

lemma sum_list_opposite:
  "(\<And>l. l \<in> set ls \<Longrightarrow> f l = - g l) \<Longrightarrow> sum_list (map f ls) = - sum_list (map (g :: 'b \<Rightarrow> int) ls)"
  by (induction ls) auto

lemma sum_list_0: "(\<And>l. l \<in> set ls \<Longrightarrow> f l = 0) \<Longrightarrow> sum_list (map f ls) = (0 :: int)"
  by (induction ls) auto

lemma road_status_change:
  assumes "wh_lines w' = wh_lines w" and "stock_moved (wh_stock w) (wh_stock w')"
    and "\<And>k. k \<noteq> i \<Longrightarrow> status_of w' k = status_of w k"
  shows "on_the_road w' p = on_the_road w p + sum_list (map (\<lambda>l. of_product (wh_stock w) (tl_sku l) p (owed w' l - owed w l))
    (filter (\<lambda>l. tl_transfer l = i) (wh_lines w)))"
proof -
  have "on_the_road w' p = sum_list (map (\<lambda>l. of_product (wh_stock w) (tl_sku l) p (owed w' l)) (wh_lines w))"
    by (simp add: on_the_road_def assms(1) stock_moved_product [OF assms(2)])
  also have "\<dots> = on_the_road w p + sum_list (map (\<lambda>l. of_product (wh_stock w) (tl_sku l) p (owed w' l) - of_product (wh_stock w) (tl_sku l) p (owed w l))
      (filter (\<lambda>l. tl_transfer l = i) (wh_lines w)))"
    unfolding on_the_road_def by (rule sum_list_changed) (simp add: owed_def assms(3))
  finally show ?thesis by (simp add: of_product_def if_distrib cong: map_cong if_cong)
qed

lemma send_line_Inr:
  assumes "send_line x source l s = Inr s'"
  shows "stock_moved (snd s) (snd s') \<and> ledger_total (snd s') p = ledger_total (snd s) p + of_product (snd s) (tl_sku l) p (- tl_qty l)"
  using assms move_stock_Inr by (auto simp: send_line_def split: if_splits sum.splits)

lemma fits_lines:
  assumes "transfers_ok w" and "l \<in> set (wh_lines w)" and "status_of w (tl_transfer l) = Some s"
  shows "fits s l"
  using assms by (auto simp: transfers_ok_def)

text \<open>In the middle of an operation on transfer \<open>i\<close> its lines are only within their bounds.\<close>

definition loose :: "string \<Rightarrow> 'a warehouse_scheme \<Rightarrow> bool" where
  "loose i w \<longleftrightarrow> distinct (map tf_id (wh_transfers w)) \<and> distinct (map tl_id (wh_lines w))
     \<and> (\<forall>l \<in> set (wh_lines w). 0 \<le> tl_received l \<and> tl_received l \<le> tl_qty l
          \<and> (tl_transfer l \<noteq> i \<longrightarrow> (\<exists>s. status_of w (tl_transfer l) = Some s \<and> fits s l)))"

lemma transfers_ok_loose: "transfers_ok w \<Longrightarrow> loose i w"
  by (force simp: transfers_ok_def loose_def fits_def)

lemma loose_ids: "loose i w \<Longrightarrow> distinct (map tf_id (wh_transfers w))"
  by (simp add: loose_def)

text \<open>A transfer whose status changes, lines and products staying as they are.\<close>

lemma kept_status_change:
  assumes "loose i w" and "get_transfer w i = Some t" and "tf_status t \<in> set old" and "\<And>t. tf_id (f t) = tf_id t"
    and "claim_status i old f w = (n, w1)" and "stock_moved (wh_stock w) st"
    and fits: "\<And>l. l \<in> set (wh_lines w) \<Longrightarrow> tl_transfer l = i \<Longrightarrow> fits (tf_status (f t)) l"
    and ledger: "\<And>p. ledger_total st p = ledger_total (wh_stock w) p
      - sum_list (map (\<lambda>l. of_product (wh_stock w) (tl_sku l) p (owed (w1\<lparr>wh_stock := st\<rparr>) l - owed w l)) (filter (\<lambda>l. tl_transfer l = i) (wh_lines w)))"
  shows "kept w (w1\<lparr>wh_stock := st\<rparr>)"
proof -
  note claim = claim_status_Some [OF loose_ids [OF assms(1)] assms(2-5)]
  have status: "status_of (w1\<lparr>wh_stock := st\<rparr>) k = (if k = i then Some (tf_status (f t)) else status_of w k)" for k
    by (simp add: status_of_def claim(2))
  have "\<exists>s. status_of (w1\<lparr>wh_stock := st\<rparr>) (tl_transfer l) = Some s \<and> fits s l" if l: "l \<in> set (wh_lines w)" for l
    using assms(1) l fits [OF l] by (cases "tl_transfer l = i") (auto simp: status loose_def)
  then have "transfers_ok (w1\<lparr>wh_stock := st\<rparr>)" using assms(1) by (simp add: transfers_ok_def loose_def claim(3,4))
  moreover have "accounted (w1\<lparr>wh_stock := st\<rparr>) p = accounted w p" for p
    using road_status_change [of "w1\<lparr>wh_stock := st\<rparr>" w i p] ledger [of p] assms(6) by (simp add: accounted_def claim(4) status)
  ultimately show ?thesis using assms(6) by (simp add: kept_def fun_eq_iff)
qed

lemma send_kept:
  assumes "transfers_ok w" and "send_transfer x i w = Inr (r, w')"
  shows "kept w w'"
proof -
  let ?f = "\<lambda>t. t\<lparr>tf_status := ''in_transit'', tf_sent_at := Some (ta_now x), tf_updated_at := ta_now x\<rparr>"
  obtain t w1 n k st where t: "get_transfer w i = Some t" "tf_status t \<in> set [''draft'', ''pending'']"
    and claim: "claim_status i [''draft'', ''pending''] ?f w = (k, w1)"
    and moves: "each (send_line x (the (tf_source t))) (get_transfer_lines w1 i) (0, wh_stock w1) = Inr (n, st)"
    and w': "w' = w1\<lparr>wh_stock := st\<rparr>"
    using assms(2) by (auto simp: send_transfer_def with_transfer_def split: option.splits if_splits sum.splits prod.splits)
  have ids: "tf_id (?f t) = tf_id t" for t by simp
  have loose: "loose i w" using assms(1) by (rule transfers_ok_loose)
  note c = claim_status_Some [OF loose_ids [OF loose] t ids claim]
  let ?ls = "filter (\<lambda>l. tl_transfer l = i) (wh_lines w)"
  have lines: "get_transfer_lines w1 i = sort_key tl_id ?ls" by (simp add: get_transfer_lines_def c(4))
  have moved: "stock_moved (wh_stock w) st"
    "ledger_total st p = ledger_total (wh_stock w) p + sum_list (map (\<lambda>l. of_product (wh_stock w) (tl_sku l) p (- tl_qty l)) ?ls)" for p
    using each_move_Inr [where f = "send_line x (the (tf_source t))" and g = "\<lambda>l. - tl_qty l" and p = p, OF send_line_Inr moves]
    by (simp_all add: c(5) lines sum_list_sort_key)
  have fit: "fits (tf_status t) l" if "l \<in> set ?ls" for l
    using fits_lines [OF assms(1), of l] that t(1) by (simp add: status_of_def)
  have "owed w l = 0" "owed (w1\<lparr>wh_stock := st\<rparr>) l = tl_qty l" if "l \<in> set ?ls" for l
    using fit [OF that] that t by (auto simp: owed_def status_of_def c(2) moving_def fits_def)
  then have "sum_list (map (\<lambda>l. of_product (wh_stock w) (tl_sku l) p (owed (w1\<lparr>wh_stock := st\<rparr>) l - owed w l)) ?ls)
      = - sum_list (map (\<lambda>l. of_product (wh_stock w) (tl_sku l) p (- tl_qty l)) ?ls)" for p
    by (intro sum_list_opposite) (simp add: of_product_minus)
  then show ?thesis unfolding w'
    by (intro kept_status_change [OF loose t ids claim moved(1)]) (use fit t in \<open>auto simp: fits_def moved(2)\<close>)
qed

lemma cancel_kept:
  assumes "transfers_ok w" and "cancel_transfer x i w = Inr (r, w')"
  shows "kept w w'"
proof -
  let ?f = "\<lambda>t. t\<lparr>tf_status := ''cancelled'', tf_updated_at := ta_now x\<rparr>" and ?old = "[''draft'', ''pending'', ''in_transit'']"
  let ?ls = "filter (\<lambda>l. tl_transfer l = i) (wh_lines w)"
  have loose: "loose i w" using assms(1) by (rule transfers_ok_loose)
  obtain k w1 where claim: "claim_status i ?old ?f w = (k, w1)" by force
  obtain t n st where t: "get_transfer w i = Some t" and k: "k = 1" and w': "w' = w1\<lparr>wh_stock := st\<rparr>"
    and moves: "(if tf_status t = ''in_transit'' then each (\<lambda>l. move_stock x (tl_sku l) (tl_qty l) (the (tf_source t)) ''stock_transfer_cancel'') ?ls (0, wh_stock w)
      else Inr (0, wh_stock w)) = Inr (n, st)"
    using assms(2) claim_status_stock [OF claim]
    by (auto simp: cancel_transfer_def with_transfer_def split: option.splits if_splits sum.splits prod.splits)
  have old: "tf_status t \<in> set ?old" by (rule claim_hits [OF loose_ids [OF loose] t claim [unfolded k]])
  have ids: "tf_id (?f t) = tf_id t" for t by simp
  note c = claim_status_Some [OF loose_ids [OF loose] t old ids claim]
  have fit: "fits (tf_status t) l" if "l \<in> set ?ls" for l
    using fits_lines [OF assms(1), of l] that t(1) by (simp add: status_of_def)
  have owed: "owed w l = (if tf_status t = ''in_transit'' then tl_qty l else 0)" "owed (w1\<lparr>wh_stock := st\<rparr>) l = 0" if "l \<in> set ?ls" for l
    using fit [OF that] that t old by (auto simp: owed_def status_of_def c(2) moving_def fits_def)
  have moved: "stock_moved (wh_stock w) st \<and> ledger_total st p = ledger_total (wh_stock w) p
      + sum_list (map (\<lambda>l. of_product (wh_stock w) (tl_sku l) p (owed w l)) ?ls)" for p
  proof (cases "tf_status t = ''in_transit''")
    case True
    have "stock_moved (wh_stock w) st \<and> ledger_total st p = ledger_total (wh_stock w) p
        + sum_list (map (\<lambda>l. of_product (wh_stock w) (tl_sku l) p (tl_qty l)) ?ls)"
      by (rule each_move_Inr [where g = tl_qty and s = "(0, wh_stock w)" and s' = "(n, st)", simplified])
        (use True moves in \<open>simp_all add: move_stock_Inr\<close>)
    moreover have "map (\<lambda>l. of_product (wh_stock w) (tl_sku l) p (tl_qty l)) ?ls = map (\<lambda>l. of_product (wh_stock w) (tl_sku l) p (owed w l)) ?ls"
      by (intro map_cong) (use owed(1) True in auto)
    ultimately show ?thesis by simp
  next
    case False
    then have "map (\<lambda>l. of_product (wh_stock w) (tl_sku l) p (owed w l)) ?ls = map (\<lambda>l. 0) ?ls"
      by (intro map_cong) (use owed(1) in auto)
    then show ?thesis using moves False by (simp add: map_replicate_const sum_list_replicate)
  qed
  have "sum_list (map (\<lambda>l. of_product (wh_stock w) (tl_sku l) p (owed (w1\<lparr>wh_stock := st\<rparr>) l - owed w l)) ?ls)
      = - sum_list (map (\<lambda>l. of_product (wh_stock w) (tl_sku l) p (owed w l)) ?ls)" for p
    by (intro sum_list_opposite) (simp add: owed(2) of_product_minus)
  then show ?thesis unfolding w'
    by (intro kept_status_change [OF loose t old ids claim]) (use fit old moved in \<open>auto simp: fits_def\<close>)
qed

lemma sum_list_received:
  assumes "distinct (map tl_id ls)" and "List.find (\<lambda>l. tl_id l = k \<and> tl_transfer l = i) ls = Some l"
  shows "sum_list (map g (map (\<lambda>l. if tl_id l = k \<and> tl_transfer l = i then h l else l) ls)) = sum_list (map g ls) + (g (h l) - g l :: int)"
  using assms
proof (induction ls)
  case (Cons a ls)
  show ?case
  proof (cases "tl_id a = k \<and> tl_transfer a = i")
    case True
    then have "map (\<lambda>l. if tl_id l = k \<and> tl_transfer l = i then h l else l) ls = ls"
      using Cons.prems(1) by (auto simp: image_iff intro!: map_idI)
    then show ?thesis using True Cons.prems(2) by simp
  next
    case False
    then show ?thesis using Cons.IH Cons.prems by auto
  qed
qed simp

lemma receive_line_Inr:
  assumes "receive_line x i destination r (n, w) = Inr (n', w')"
  obtains l st where "List.find (\<lambda>l. tl_id l = rc_line r \<and> tl_transfer l = i) (wh_lines w) = Some l"
    and "tl_received l \<le> rc_qty r" "rc_qty r \<le> tl_qty l" "w' = (set_received (rc_line r) i (rc_qty r) w)\<lparr>wh_stock := st\<rparr>"
    and "stock_moved (wh_stock w) st"
    and "\<forall>p. ledger_total st p = ledger_total (wh_stock w) p + of_product (wh_stock w) (tl_sku l) p (rc_qty r - tl_received l)"
proof -
  obtain l where l: "List.find (\<lambda>l. tl_id l = rc_line r \<and> tl_transfer l = i) (wh_lines w) = Some l"
    and bounds: "tl_received l \<le> rc_qty r" "rc_qty r \<le> tl_qty l"
    using assms by (auto simp: receive_line_def split: option.splits if_splits)
  consider (credit) st where "move_stock x (tl_sku l) (rc_qty r - tl_received l) destination ''stock_transfer_in'' (n, wh_stock w) = Inr (n', st)"
      "w' = (set_received (rc_line r) i (rc_qty r) w)\<lparr>wh_stock := st\<rparr>"
    | (same) "rc_qty r = tl_received l" "w' = set_received (rc_line r) i (rc_qty r) w"
    using assms bounds by (auto simp: receive_line_def l split: if_splits sum.splits)
  then show thesis
  proof cases
    case credit
    then show thesis using that [OF l bounds] move_stock_Inr [OF credit(1)] by auto
  next
    case same
    then show thesis using that [OF l bounds, of "wh_stock w"] by (auto simp: set_received_def)
  qed
qed

lemma receive_line_kept:
  assumes "loose i w" and "moving (status_of w i)" and "receive_line x i destination r (n, w) = Inr (n', w')"
  shows "loose i w'" "wh_transfers w' = wh_transfers w" "stock_moved (wh_stock w) (wh_stock w')" "accounted w' = accounted w"
proof -
  obtain l st where l: "List.find (\<lambda>l. tl_id l = rc_line r \<and> tl_transfer l = i) (wh_lines w) = Some l"
    and bounds: "tl_received l \<le> rc_qty r" "rc_qty r \<le> tl_qty l"
    and w': "w' = (set_received (rc_line r) i (rc_qty r) w)\<lparr>wh_stock := st\<rparr>" and moved: "stock_moved (wh_stock w) st"
    and ledger: "\<forall>p. ledger_total st p = ledger_total (wh_stock w) p + of_product (wh_stock w) (tl_sku l) p (rc_qty r - tl_received l)"
    using assms(3) by (rule receive_line_Inr)
  have "0 \<le> tl_received l" "l \<in> set (wh_lines w)" "tl_transfer l = i" "tl_id l = rc_line r"
    using l assms(1) by (auto simp: find_Some_iff loose_def)
  show transfers: "wh_transfers w' = wh_transfers w" by (simp add: w' set_received_def)
  then have status: "status_of w' = status_of w" by (simp add: fun_eq_iff status_of_def get_transfer_def)
  show "stock_moved (wh_stock w) (wh_stock w')" using moved by (simp add: w')
  have lines: "wh_lines w' = map (\<lambda>l. if tl_id l = rc_line r \<and> tl_transfer l = i then l\<lparr>tl_received := rc_qty r\<rparr> else l) (wh_lines w)"
    by (simp add: w' set_received_def)
  have unique: "k = l" if "k \<in> set (wh_lines w)" "tl_id k = rc_line r" for k
    using that \<open>l \<in> set (wh_lines w)\<close> \<open>tl_id l = rc_line r\<close> assms(1) by (auto simp: loose_def distinct_map inj_on_def)
  have "map tl_id (wh_lines w') = map tl_id (wh_lines w)" by (simp add: lines)
  moreover have "0 \<le> tl_received k \<and> tl_received k \<le> tl_qty k \<and> (tl_transfer k \<noteq> i \<longrightarrow> (\<exists>s. status_of w (tl_transfer k) = Some s \<and> fits s k))"
    if "k \<in> set (wh_lines w')" for k
    using that assms(1) unique bounds \<open>0 \<le> tl_received l\<close> by (auto simp: lines loose_def split: if_splits)
  ultimately show "loose i w'" using assms(1) by (simp add: loose_def transfers status)
  have owed: "owed w' k = owed w k" for k by (simp add: owed_def status)
  have "on_the_road w' p = on_the_road w p - of_product (wh_stock w) (tl_sku l) p (rc_qty r - tl_received l)" for p
  proof -
    have "on_the_road w' p = sum_list (map (\<lambda>l. of_product (wh_stock w) (tl_sku l) p (owed w l)) (wh_lines w'))"
      unfolding on_the_road_def owed using stock_moved_product [OF moved] by (simp add: w')
    also have "\<dots> = on_the_road w p + (of_product (wh_stock w) (tl_sku l) p (owed w (l\<lparr>tl_received := rc_qty r\<rparr>)) - of_product (wh_stock w) (tl_sku l) p (owed w l))"
      unfolding lines on_the_road_def
      by (subst sum_list_received [OF _ l]) (use assms(1) in \<open>simp_all add: loose_def\<close>)
    finally show ?thesis using assms(2) \<open>tl_transfer l = i\<close> by (simp add: owed_def of_product_def)
  qed
  then show "accounted w' = accounted w" using ledger by (simp add: accounted_def fun_eq_iff w')
qed

lemma receive_lines_kept:
  assumes "each (receive_line x i destination) rs (n, w) = Inr (n', w')" and "loose i w" and "moving (status_of w i)"
  shows "loose i w' \<and> wh_transfers w' = wh_transfers w \<and> stock_moved (wh_stock w) (wh_stock w') \<and> accounted w' = accounted w"
  using assms
proof (induction rs arbitrary: n w)
  case (Cons r rs)
  obtain m v where 1: "receive_line x i destination r (n, w) = Inr (m, v)" and 2: "each (receive_line x i destination) rs (m, v) = Inr (n', w')"
    using Cons.prems(1) by (auto split: sum.splits)
  note k = receive_line_kept [OF Cons.prems(2,3) 1]
  have "moving (status_of v i)" using Cons.prems(3) by (simp add: status_of_def get_transfer_def k(2))
  from Cons.IH [OF 2 k(1) this] show ?case using k stock_moved_trans by auto
qed simp

lemma receive_kept:
  assumes "transfers_ok w" and "receive_transfer x i by_user rs w = Inr (r, w')"
  shows "kept w w'"
proof -
  let ?old = "[''in_transit'', ''received_partial'']"
  obtain t n w1 where t: "get_transfer w i = Some t" and old: "tf_status t \<in> set ?old"
    and each: "each (receive_line x i (the (tf_destination t))) rs (0, w) = Inr (n, w1)"
    and claim: "claim_status i ?old (\<lambda>t. t\<lparr>tf_status := received_status w1 i,
        tf_received_by := Some by_user, tf_received_at := Some (ta_now x), tf_updated_at := ta_now x\<rparr>) w1 = (1, w')"
    using assms(2) by (auto simp: receive_transfer_def with_transfer_def split: option.splits if_splits sum.splits prod.splits)
  let ?f = "\<lambda>t. t\<lparr>tf_status := received_status w1 i,
        tf_received_by := Some by_user, tf_received_at := Some (ta_now x), tf_updated_at := ta_now x\<rparr>"
  have moving: "moving (status_of w i)" using t old by (auto simp: moving_def status_of_def)
  note lines = receive_lines_kept [OF each transfers_ok_loose [OF assms(1)] moving]
  have loose: "loose i w1" and moved: "stock_moved (wh_stock w) (wh_stock w1)" and same: "accounted w1 = accounted w" using lines by blast+
  have status: "status_of w1 = status_of w" and t1: "get_transfer w1 i = Some t"
    using lines t by (simp_all add: status_of_def get_transfer_def fun_eq_iff)
  have ids: "tf_id (?f t) = tf_id t" for t by simp
  note c = claim_status_Some [OF loose_ids [OF loose] t1 old ids claim]
  have bounds: "0 \<le> tl_received l" "tl_received l \<le> tl_qty l" if "l \<in> set (wh_lines w1)" for l
    using loose that by (auto simp: loose_def)
  have fit: "fits (tf_status (?f t)) l" if "l \<in> set (wh_lines w1)" "tl_transfer l = i" for l
    using bounds [OF that(1)] that by (auto simp: fits_def received_status_def list_ex_iff)
  have "status_of w' i = Some (received_status w1 i)" by (simp add: status_of_def c(2))
  then have "owed w' l = owed w1 l" if "l \<in> set (filter (\<lambda>l. tl_transfer l = i) (wh_lines w1))" for l
    using fit [of l] that moving by (auto simp: owed_def status moving_def fits_def received_status_def Let_def split: if_splits)
  then have "sum_list (map (\<lambda>l. of_product (wh_stock w1) (tl_sku l) p (owed w' l - owed w1 l)) (filter (\<lambda>l. tl_transfer l = i) (wh_lines w1))) = 0" for p
    by (intro sum_list_0) simp
  moreover have w': "w'\<lparr>wh_stock := wh_stock w1\<rparr> = w'" using c(5) by simp
  ultimately have "kept w1 w'"
    using kept_status_change [OF loose t1 old ids claim, of "wh_stock w1", unfolded w'] fit by simp
  then show ?thesis using moved same stock_moved_trans unfolding kept_def by fastforce
qed

lemma insert_transfer_kept:
  assumes "transfers_ok w" and "insert_transfer t w = Inr w'" and "tf_status t = ''draft''"
  shows "kept w w'" "status_of w' k = (if k = tf_id t then Some ''draft'' else status_of w k)"
proof -
  have w': "w' = w\<lparr>wh_transfers := wh_transfers w @ [t]\<rparr>" and fresh: "tf_id t \<notin> tf_id ` set (wh_transfers w)"
    using assms(2) by (auto simp: insert_transfer_def split: if_splits)
  have none: "status_of w (tf_id t) = None"
    using fresh by (auto simp: status_of_def get_transfer_def find_None_iff image_iff)
  show status: "status_of w' k = (if k = tf_id t then Some ''draft'' else status_of w k)" for k
    using none assms(3) by (auto simp: status_of_def get_transfer_def w' find_append split: option.splits)
  have elsewhere: "tl_transfer l \<noteq> tf_id t" if "l \<in> set (wh_lines w)" for l
    using assms(1) that none by (auto simp: transfers_ok_def)
  then have "map (owed w') (wh_lines w) = map (owed w) (wh_lines w)" by (auto simp: owed_def status)
  then have "on_the_road w' = on_the_road w" by (auto simp: on_the_road_def w' fun_eq_iff intro!: arg_cong [where f = sum_list])
  moreover have "transfers_ok w'"
    using assms(1) fresh elsewhere by (auto simp: transfers_ok_def status) (auto simp: w')
  ultimately show "kept w w'" by (simp add: kept_def accounted_def fun_eq_iff) (simp add: w')
qed

lemma insert_transfer_line_kept:
  assumes "transfers_ok w" and "insert_transfer_line l w = Inr w'" and "status_of w (tl_transfer l) = Some ''draft''" and "tl_received l = 0"
  shows "kept w w'" "status_of w' = status_of w"
proof -
  have w': "w' = w\<lparr>wh_lines := wh_lines w @ [l]\<rparr>" and fresh: "tl_id l \<notin> tl_id ` set (wh_lines w)" and "0 < tl_qty l"
    using assms(2) by (auto simp: insert_transfer_line_def split: if_splits)
  show status: "status_of w' = status_of w" by (auto simp: status_of_def get_transfer_def w')
  have "owed w' = owed w" by (simp add: fun_eq_iff owed_def status)
  moreover have "owed w l = 0" by (simp add: owed_def assms(3) moving_def)
  ultimately have "on_the_road w' = on_the_road w" by (simp add: fun_eq_iff on_the_road_def w')
  moreover have "fits ''draft'' l" using assms(4) \<open>0 < tl_qty l\<close> by (simp add: fits_def)
  then have "transfers_ok w'" using assms(1,3) fresh by (auto simp: transfers_ok_def status) (auto simp: w')
  ultimately show "kept w w'" by (simp add: kept_def accounted_def fun_eq_iff) (simp add: w')
qed

lemma kept_trans: "kept a b \<Longrightarrow> kept b c \<Longrightarrow> kept a c"
  by (auto simp: kept_def intro: stock_moved_trans)

lemma kept_refl: "transfers_ok w \<Longrightarrow> kept w w"
  by (simp add: kept_def)

lemma insert_lines_kept:
  assumes "transfers_ok w" and "each (\<lambda>(i, l). insert_transfer_line (f i l)) ls w = Inr w'"
    and "\<And>i l. tl_transfer (f i l) = k \<and> tl_received (f i l) = 0" and "status_of w k = Some ''draft''"
  shows "kept w w'"
  using assms(1,2,4)
proof (induction ls arbitrary: w)
  case (Cons a ls)
  obtain j l where a: "a = (j, l)" by force
  obtain v where 1: "insert_transfer_line (f j l) w = Inr v" and 2: "each (\<lambda>(i, l). insert_transfer_line (f i l)) ls v = Inr w'"
    using Cons.prems(2) by (auto simp: a split: sum.splits)
  have draft: "status_of w (tl_transfer (f j l)) = Some ''draft''" "tl_received (f j l) = 0" using Cons.prems(3) assms(3) by simp_all
  note k = insert_transfer_line_kept [OF Cons.prems(1) 1 draft]
  have "transfers_ok v" using k(1) by (simp add: kept_def)
  from Cons.IH [OF this 2] have "kept v w'" using Cons.prems(3) k(2) by simp
  with k(1) show ?case by (rule kept_trans)
qed (simp add: kept_refl)

lemma create_kept:
  assumes "transfers_ok w" and "create_transfer x source destination st dt memo by_user ls w = Inr (t, w')"
  shows "kept w w'"
proof -
  obtain u w1 where 1: "insert_transfer u w = Inr w1" "tf_status u = ''draft''" "tf_id u = ta_id x"
    and 2: "each (\<lambda>(i, l). insert_transfer_line \<lparr>tl_id = ta_line x i, tl_transfer = ta_id x, tl_sku = tl_sku l,
                     tl_product_name = tl_product_name l, tl_qty = tl_qty l, tl_received = 0\<rparr>) (enumerate 0 ls) w1 = Inr w'"
    using assms(2) by (fastforce simp: create_transfer_def Let_def split: sum.splits)
  note k = insert_transfer_kept [OF assms(1) 1(1,2)]
  have "transfers_ok w1" "status_of w1 (ta_id x) = Some ''draft''" using k by (auto simp: kept_def 1(3))
  from insert_lines_kept [OF this(1) 2 _ this(2)] have "kept w1 w'" by simp
  with k(1) show ?thesis by (rule kept_trans)
qed

lemma add_line_kept:
  assumes "transfers_ok w" and "add_transfer_line new_id i sku name q w = Inr (l, w')"
  shows "kept w w'"
  using assms(2) insert_transfer_line_kept(1) [OF assms(1), of l w']
  by (auto simp: add_transfer_line_def Let_def status_of_def split: option.splits if_splits sum.splits)

lemma sum_list_zero_filter:
  "(\<And>l. l \<in> set ls \<Longrightarrow> \<not> P l \<Longrightarrow> f l = 0) \<Longrightarrow> sum_list (map f (filter P ls)) = sum_list (map (f :: 'b \<Rightarrow> int) ls)"
  by (induction ls) auto

lemma remove_line_kept:
  assumes "transfers_ok w" and "remove_transfer_line k w = Inr w'"
  shows "kept w w'"
proof -
  obtain l where find: "List.find (\<lambda>l. tl_id l = k) (wh_lines w) = Some l" and draft: "status_of w (tl_transfer l) = Some ''draft''"
    and w': "w' = w\<lparr>wh_lines := filter (\<lambda>l. tl_id l \<noteq> k) (wh_lines w)\<rparr>"
    using assms(2) by (auto simp: remove_transfer_line_def status_of_def split: option.splits if_splits)
  have l: "l \<in> set (wh_lines w)" "tl_id l = k" using find by (auto simp: find_Some_iff)
  have status: "status_of w' = status_of w" by (auto simp: status_of_def get_transfer_def w')
  have "owed w m = 0" if "m \<in> set (wh_lines w)" "tl_id m = k" for m
    using that l draft assms(1) by (auto simp: transfers_ok_def distinct_map inj_on_def owed_def moving_def)
  moreover have "owed w' = owed w" by (simp add: fun_eq_iff owed_def status)
  ultimately have "on_the_road w' p = on_the_road w p" for p
    unfolding on_the_road_def by (simp add: w') (rule sum_list_zero_filter, simp)
  moreover have "transfers_ok w'"
    using assms(1) by (auto simp: transfers_ok_def status) (auto simp: w' distinct_map_filter)
  ultimately show ?thesis by (simp add: kept_def accounted_def fun_eq_iff) (simp add: w')
qed

subsection \<open>Histories\<close>

text \<open>
  What happens in a warehouse: the operations on transfers, and any other movement of stock (a sale, a purchase, a
  correction) between them. An operation that fails leaves the state as it was.
\<close>

datatype transfer_event =
    Opened transfer_args "string option" "string option" "string option" "string option" string string "stock_transfer_line list"
  | Line_added string string string string int
  | Line_removed string
  | Sent transfer_args string
  | Received transfer_args string string "received_line list"
  | Cancelled transfer_args string
  | Moved adjust_args string int string "string option"

definition move_other ::
    "adjust_args \<Rightarrow> string \<Rightarrow> int \<Rightarrow> string \<Rightarrow> string option \<Rightarrow> 'a warehouse_scheme \<Rightarrow> core_error + 'a warehouse_scheme" where
  "move_other x sku q l why w =
     (case adjust_stock_at_location_with_reason x sku q l why None None None (wh_stock w) of
        Inl e \<Rightarrow> Inl e | Inr (_, st) \<Rightarrow> Inr (w\<lparr>wh_stock := st\<rparr>))"

definition or_same :: "'a \<Rightarrow> core_error + 'a \<Rightarrow> 'a" where
  "or_same w r = (case r of Inl _ \<Rightarrow> w | Inr w' \<Rightarrow> w')"

lemma or_same_simps [simp]: "or_same w (Inl e) = w" "or_same w (Inr w') = w'"
  by (simp_all add: or_same_def)

definition after :: "core_error + 'b \<times> 'a \<Rightarrow> core_error + 'a" where
  "after r = map_sum id snd r"

fun transfer_step :: "transfer_event \<Rightarrow> warehouse \<Rightarrow> warehouse" where
  "transfer_step (Opened x s d st dt memo by_user ls) w = or_same w (after (create_transfer x s d st dt memo by_user ls w))"
| "transfer_step (Line_added k i sku name q) w = or_same w (after (add_transfer_line k i sku name q w))"
| "transfer_step (Line_removed k) w = or_same w (remove_transfer_line k w)"
| "transfer_step (Sent x i) w = or_same w (after (send_transfer x i w))"
| "transfer_step (Received x i by_user rs) w = or_same w (after (receive_transfer x i by_user rs w))"
| "transfer_step (Cancelled x i) w = or_same w (after (cancel_transfer x i w))"
| "transfer_step (Moved x sku q l why) w = or_same w (move_other x sku q l why w)"

text \<open>What the other movements that succeeded brought in of a product.\<close>

fun inflow :: "transfer_event list \<Rightarrow> warehouse \<Rightarrow> string \<Rightarrow> int" where
  "inflow [] w p = 0"
| "inflow (e # es) w p =
     (case e of
        Moved x sku q l why \<Rightarrow> (case move_other x sku q l why w of Inl _ \<Rightarrow> 0 | Inr _ \<Rightarrow> of_product (wh_stock w) sku p q)
      | _ \<Rightarrow> 0) + inflow es (transfer_step e w) p"

lemma transfer_step_kept:
  assumes "transfers_ok w" and "\<And>x sku q l why. e \<noteq> Moved x sku q l why"
  shows "kept w (transfer_step e w)"
proof (cases e)
  case (Opened x s d st dt memo by_user ls)
  then show ?thesis using create_kept [OF assms(1)] kept_refl [OF assms(1)]
    by (cases "create_transfer x s d st dt memo by_user ls w") (auto simp: after_def)
next
  case (Line_added k i sku name q)
  then show ?thesis using add_line_kept [OF assms(1)] kept_refl [OF assms(1)]
    by (cases "add_transfer_line k i sku name q w") (auto simp: after_def)
next
  case (Line_removed k)
  then show ?thesis using remove_line_kept [OF assms(1)] kept_refl [OF assms(1)] by (cases "remove_transfer_line k w") auto
next
  case (Sent x i)
  then show ?thesis using send_kept [OF assms(1)] kept_refl [OF assms(1)] by (cases "send_transfer x i w") (auto simp: after_def)
next
  case (Received x i by_user rs)
  then show ?thesis using receive_kept [OF assms(1)] kept_refl [OF assms(1)]
    by (cases "receive_transfer x i by_user rs w") (auto simp: after_def)
next
  case (Cancelled x i)
  then show ?thesis using cancel_kept [OF assms(1)] kept_refl [OF assms(1)] by (cases "cancel_transfer x i w") (auto simp: after_def)
next
  case (Moved x sku q l why)
  then show ?thesis using assms(2) by blast
qed

lemma move_other_Inr:
  assumes "transfers_ok w" and "move_other x sku q l why w = Inr w'"
  shows "transfers_ok w'" "stock_moved (wh_stock w) (wh_stock w')" "accounted w' p = accounted w p + of_product (wh_stock w) sku p q"
proof -
  obtain v st where a: "adjust_stock_at_location_with_reason x sku q l why None None None (wh_stock w) = Inr (v, st)"
    and w': "w' = w\<lparr>wh_stock := st\<rparr>"
    using assms(2) by (auto simp: move_other_def split: sum.splits)
  have status: "status_of w' = status_of w" by (simp add: fun_eq_iff status_of_def w')
  then have owed: "owed w' = owed w" by (simp add: fun_eq_iff owed_def)
  show "transfers_ok w'" using assms(1) by (simp add: transfers_ok_def status) (simp add: w')
  show moved: "stock_moved (wh_stock w) (wh_stock w')"
    using stock_step.adjust [OF a] adjust_same_products [OF a] by (simp add: stock_moved_def w' r_into_rtranclp)
  have "on_the_road w' p = on_the_road w p"
    unfolding on_the_road_def owed using stock_moved_product [OF moved] by (simp add: w')
  moreover obtain i m where "stock_product_id_by_sku (wh_stock w) sku = Some i" "movements st = movements (wh_stock w) @ [m]"
      "mv_item m = i" "mv_delta m = q"
    using adjust_Inr [OF a] by (auto simp: adjusted_def)
  ultimately show "accounted w' p = accounted w p + of_product (wh_stock w) sku p q"
    by (simp add: accounted_def w' ledger_total_def of_product_def)
qed

lemma transfer_step_ok:
  assumes "transfers_ok w"
  shows "transfers_ok (transfer_step e w)" "stock_moved (wh_stock w) (wh_stock (transfer_step e w))"
proof -
  have "transfers_ok (transfer_step e w) \<and> stock_moved (wh_stock w) (wh_stock (transfer_step e w))"
  proof (cases "\<exists>x sku q l why. e = Moved x sku q l why")
    case True
    then obtain x sku q l why where "e = Moved x sku q l why" by blast
    then show ?thesis using move_other_Inr [OF assms, of x sku q l why] assms by (cases "move_other x sku q l why w") auto
  next
    case False
    then show ?thesis using transfer_step_kept [OF assms, of e] by (auto simp: kept_def)
  qed
  then show "transfers_ok (transfer_step e w)" "stock_moved (wh_stock w) (wh_stock (transfer_step e w))" by blast+
qed

definition new_warehouse :: "stock_store \<Rightarrow> warehouse" where
  "new_warehouse st = \<lparr>wh_stock = st, wh_transfers = [], wh_lines = []\<rparr>"

interpretation depot: machine "new_warehouse st" transfer_step transfers_ok for st
  by unfold_locales (simp_all add: transfer_step_ok, simp add: transfers_ok_def new_warehouse_def)

lemma run_stock_moved: "transfers_ok w \<Longrightarrow> stock_moved (wh_stock w) (wh_stock (run transfer_step es w))"
  by (induction es arbitrary: w) (auto intro: stock_moved_trans transfer_step_ok)

lemma run_accounted: "transfers_ok w \<Longrightarrow> accounted (run transfer_step es w) p = accounted w p + inflow es w p"
proof (induction es arbitrary: w)
  case (Cons e es)
  have "accounted (transfer_step e w) p = accounted w p + (inflow (e # es) w p - inflow es (transfer_step e w) p)"
  proof (cases "\<exists>x sku q l why. e = Moved x sku q l why")
    case True
    then obtain x sku q l why where "e = Moved x sku q l why" by blast
    then show ?thesis using move_other_Inr(3) [OF Cons.prems, of x sku q l why] by (cases "move_other x sku q l why w") auto
  next
    case False
    then show ?thesis using transfer_step_kept [OF Cons.prems, of e] by (cases e) (auto simp: kept_def)
  qed
  then show ?case using Cons.IH [OF transfer_step_ok(1) [OF Cons.prems]] by simp
qed simp

text \<open>
  C12. No goods get lost between locations: over any history of transfers, whatever fails in it, the stock of a product
  over all locations plus what is on the road (sent, but neither received nor cancelled) changes only by the
  other movements in between; partial receipts and cancellations included.\<close>

theorem transfers_lose_nothing:
  fixes w :: warehouse and es :: "transfer_event list"
  assumes "transfers_ok w" and "distinct (map fst (summary (wh_stock w)))"
  defines "w' \<equiv> run transfer_step es w"
  shows "stock_total (wh_stock w') p + on_the_road w' p = stock_total (wh_stock w) p + on_the_road w p + inflow es w p"
proof -
  have "stock_step\<^sup>*\<^sup>* (wh_stock w) (wh_stock w')" using run_stock_moved [OF assms(1)] by (simp add: w'_def stock_moved_def)
  from conserved_steps [OF this assms(2), of p] run_accounted [OF assms(1), of es p]
  show ?thesis by (simp add: accounted_def w'_def)
qed

text \<open>Two of three pieces leave A, one arrives at B, and A sells the third.\<close>

definition two_places :: warehouse where
  "two_places = new_warehouse (plain_shop\<lparr>stock_locations := [''A'', ''B'']\<rparr>)"

definition some_transfer :: transfer_args where
  "some_transfer = \<lparr>ta_id = ''01926b3a-0000-7000-8000-0000000000aa'', ta_now = ''2025'', ta_millis = 7, ta_line = (\<lambda>n. ''l''),
     ta_adjust = (\<lambda>n. \<lparr>aa_movement_id = ''m'', aa_alert_id = ''a'', aa_now = ''2025''\<rparr>)\<rparr>"

definition receiving :: transfer_args where
  "receiving = some_transfer\<lparr>ta_adjust := (\<lambda>n. \<lparr>aa_movement_id = ''r'', aa_alert_id = ''b'', aa_now = ''2025''\<rparr>)\<rparr>"

definition some_history :: "transfer_event list" where
  "some_history =
     [Opened some_transfer (Some ''A'') (Some ''B'') None None '''' ''u'' [\<lparr>tl_id = '''', tl_transfer = '''', tl_sku = ''S'', tl_product_name = ''Tea'', tl_qty = 2, tl_received = 0\<rparr>],
      Sent some_transfer (ta_id some_transfer), Received receiving (ta_id some_transfer) ''u'' [\<lparr>rc_line = ''l'', rc_qty = 1\<rparr>],
      Moved \<lparr>aa_movement_id = ''s'', aa_alert_id = ''c'', aa_now = ''2025''\<rparr> ''S'' (- 1) ''A'' (Some ''sale'')]"

lemma some_history_result:
  "let w = run transfer_step some_history two_places
   in stock_total (wh_stock w) ''p'' = 1 \<and> location_qty (wh_stock w) ''p'' ''B'' = 1 \<and> on_the_road w ''p'' = 1
     \<and> inflow some_history two_places ''p'' = - 1 \<and> stock_total (wh_stock two_places) ''p'' = 3
     \<and> map tf_status (wh_transfers w) = [''received_partial'']"
  by code_simp

theorem transfers_lose_nothing_witness:
  "1 + (1 :: int) = stock_total (wh_stock two_places) ''p'' + on_the_road two_places ''p'' - 1"
proof -
  have "transfers_ok two_places" "distinct (map fst (summary (wh_stock two_places)))"
    by (simp_all add: two_places_def depot.inv_start) (simp add: new_warehouse_def plain_shop_def corner_shop_def)
  from transfers_lose_nothing [OF this, of some_history "''p''"] some_history_result show ?thesis by (simp add: Let_def)
qed

end
