(* ===== verification/Stock_Counts.thy ===== *)
theory Stock_Counts
  imports Stock_History Receipt_Code
begin

section \<open>Physical counts\<close>

text \<open>
  Models \<open>crates/kasirmu-core/src/db/stock_counts.rs\<close> and \<open>stock_count.rs\<close>: a count is a list of lines with the expected
  and the counted quantity of a SKU; completing it brings the stock to what was counted. Editing a count reads its
  status before the transaction of the write, so each edit is a check on a possibly older state and a commit;
  completing reads and writes in one transaction. The schema admits the stored names of statuses and types only, so
  rows hold the enums. Ids, times and the day are arguments.
\<close>

subsection \<open>Tables\<close>

datatype stock_count_status = Draft | InProgress | Completed | Cancelled

fun count_status_str :: "stock_count_status \<Rightarrow> string" where
  "count_status_str Draft = ''draft''"
| "count_status_str InProgress = ''in_progress''"
| "count_status_str Completed = ''completed''"
| "count_status_str Cancelled = ''cancelled''"

definition count_status_from_db_str :: "string \<Rightarrow> stock_count_status option" where
  "count_status_from_db_str s =
     (if s = ''draft'' then Some Draft else if s = ''in_progress'' then Some InProgress
      else if s = ''completed'' then Some Completed else if s = ''cancelled'' then Some Cancelled else None)"

datatype count_type = Full | Cyclic | Spot

fun count_type_str :: "count_type \<Rightarrow> string" where
  "count_type_str Full = ''full''"
| "count_type_str Cyclic = ''cyclic''"
| "count_type_str Spot = ''spot''"

definition count_type_from_db_str :: "string \<Rightarrow> count_type option" where
  "count_type_from_db_str s =
     (if s = ''full'' then Some Full else if s = ''cyclic'' then Some Cyclic else if s = ''spot'' then Some Spot else None)"

record stock_count =
  sc_id :: string
  sc_number :: string
  sc_status :: stock_count_status
  sc_type :: count_type
  sc_notes :: string
  sc_counted_by :: "string option"
  sc_created_at :: string
  sc_completed_at :: "string option"
  sc_updated_at :: string

record stock_count_line =
  cl_id :: string
  cl_count :: string
  cl_sku :: string
  cl_product_name :: string
  cl_expected :: int
  cl_counted :: "int option"
  cl_difference :: int
  cl_notes :: string

record stock_adjustment =
  sj_id :: string
  sj_count :: "string option"
  sj_sku :: string
  sj_product_name :: string
  sj_previous :: int
  sj_adjusted :: int
  sj_reason :: string
  sj_created_by :: "string option"
  sj_created_at :: string

record counting =
  ct_stock :: stock_store
  ct_counts :: "stock_count list"
  ct_lines :: "stock_count_line list"
  ct_adjustments :: "stock_adjustment list"

record count_args =
  cx_now :: string
  cx_adjust :: "nat \<Rightarrow> adjust_args"
  cx_adjustment :: "nat \<Rightarrow> string"

subsection \<open>Validation\<close>

definition validate_non_negative :: "string \<Rightarrow> int \<Rightarrow> core_error + unit" where
  "validate_non_negative field v = (if v < 0 then Inl (Validation field) else Inr ())"

definition validate_line_quantities :: "stock_count_line \<Rightarrow> core_error + unit" where
  "validate_line_quantities l =
     (case validate_non_negative ''expected_qty'' (cl_expected l) of
        Inl e \<Rightarrow> Inl e
      | Inr _ \<Rightarrow>
          (case (case cl_counted l of
                None \<Rightarrow> Inr 0
              | Some c \<Rightarrow>
                  (case validate_non_negative ''counted_qty'' c of
                     Inl e \<Rightarrow> Inl e
                   | Inr _ \<Rightarrow> (case checked_sub c (cl_expected l) of None \<Rightarrow> Inl (Validation ''difference'') | Some d \<Rightarrow> Inr d))) of
             Inl e \<Rightarrow> Inl e
           | Inr d \<Rightarrow> if d \<noteq> cl_difference l then Inl (Validation ''difference'') else Inr ()))"

subsection \<open>Numbers\<close>

text \<open>
  \<open>CAST(... AS INTEGER)\<close> of SQLite on text: spaces, a sign and the digits that follow, within 64 bits; \<open>LIKE\<close> with
  a trailing percent sign ignores the case of ASCII letters.
\<close>

definition sql_cast_int :: "string \<Rightarrow> int" where
  "sql_cast_int s =
     (let t = dropWhile (\<lambda>c. c \<in> set [CHR '' '', CHR 0x09, CHR 0x0A, CHR 0x0B, CHR 0x0C, CHR 0x0D]) s;
          digits = (\<lambda>u. case digits_val 10 0 (takeWhile is_ascii_digit u) of None \<Rightarrow> 0 | Some n \<Rightarrow> int n)
      in case t of
           [] \<Rightarrow> 0
         | c # u \<Rightarrow>
             if c = CHR ''-'' then max i64_min (- digits u)
             else if c = CHR ''+'' then min i64_max (digits u)
             else min i64_max (digits t))"

definition like_prefix :: "string \<Rightarrow> string \<Rightarrow> bool" where
  "like_prefix p s \<longleftrightarrow> length p \<le> length s \<and> eq_ignore_ascii_case (take (length p) s) p"

definition count_prefix :: "string \<Rightarrow> string" where
  "count_prefix today = ''CNT-'' @ today @ ''-''"

definition max_count_seq :: "string \<Rightarrow> nat \<Rightarrow> stock_count list \<Rightarrow> int" where
  "max_count_seq prefix n cs =
     (let seqs = map (\<lambda>c. sql_cast_int (drop n (sc_number c))) (filter (\<lambda>c. like_prefix prefix (sc_number c)) cs)
      in if seqs = [] then 0 else Max (set seqs))"

text \<open>The day is written with eight digits, so the number starts at the fourteenth character.\<close>

definition allocated_number :: "string \<Rightarrow> stock_count list \<Rightarrow> string" where
  "allocated_number today cs =
     count_prefix today @ pad_int 3 (min i64_max (max_count_seq (count_prefix today) 13 cs + 1))"

definition next_count_number :: "string \<Rightarrow> counting \<Rightarrow> (core_error, string) outcome" where
  "next_count_number today db =
     (let prefix = count_prefix today; m = max_count_seq prefix (length prefix) (ct_counts db)
      in if m = i64_max then Panic else Ok (prefix @ pad_int 3 (m + 1)))"

subsection \<open>Counts and their lines\<close>

definition insert_stock_count :: "stock_count \<Rightarrow> counting \<Rightarrow> core_error + counting" where
  "insert_stock_count c db =
     (if sc_id c \<in> sc_id ` set (ct_counts db) \<or> sc_number c \<in> sc_number ` set (ct_counts db)
      then Inl Db else Inr (db\<lparr>ct_counts := ct_counts db @ [c]\<rparr>))"

definition create_stock_count :: "stock_count \<Rightarrow> counting \<Rightarrow> core_error + counting" where
  "create_stock_count c db = insert_stock_count (c\<lparr>sc_completed_at := None\<rparr>) db"

definition create_stock_count_with_next_number ::
    "string \<Rightarrow> stock_count \<Rightarrow> counting \<Rightarrow> core_error + stock_count \<times> counting" where
  "create_stock_count_with_next_number today c db =
     (let c' = c\<lparr>sc_number := allocated_number today (ct_counts db)\<rparr>
      in case insert_stock_count c' db of Inl e \<Rightarrow> Inl e | Inr db' \<Rightarrow> Inr (c', db'))"

definition get_stock_count :: "counting \<Rightarrow> string \<Rightarrow> stock_count option" where
  "get_stock_count db i = List.find (\<lambda>c. sc_id c = i) (ct_counts db)"

definition list_stock_counts :: "counting \<Rightarrow> stock_count list" where
  "list_stock_counts db = rev (sort_key sc_created_at (ct_counts db))"

definition update_stock_count_check :: "counting \<Rightarrow> stock_count \<Rightarrow> core_error + unit" where
  "update_stock_count_check db c =
     (case get_stock_count db (sc_id c) of
        None \<Rightarrow> Inl (NotFound ''stock_count'' (sc_id c))
      | Some k \<Rightarrow> if sc_status k = Completed \<or> sc_status k = Cancelled then Inl (Validation ''status'') else Inr ())"

definition update_stock_count_commit :: "stock_count \<Rightarrow> counting \<Rightarrow> counting" where
  "update_stock_count_commit c db = db\<lparr>ct_counts := map (\<lambda>k. if sc_id k = sc_id c
       then k\<lparr>sc_status := sc_status c, sc_type := sc_type c, sc_notes := sc_notes c, sc_counted_by := sc_counted_by c,
         sc_completed_at := sc_completed_at c, sc_updated_at := sc_updated_at c\<rparr> else k) (ct_counts db)\<rparr>"

definition is_editable :: "stock_count_status \<Rightarrow> bool" where
  "is_editable s \<longleftrightarrow> s = Draft \<or> s = InProgress"

definition add_count_line_check :: "counting \<Rightarrow> stock_count_line \<Rightarrow> core_error + unit" where
  "add_count_line_check db l =
     (case get_stock_count db (cl_count l) of
        None \<Rightarrow> Inl (NotFound ''stock_count'' (cl_count l))
      | Some c \<Rightarrow> if \<not> is_editable (sc_status c) then Inl (Validation ''status'') else validate_line_quantities l)"

definition add_count_line_commit :: "stock_count_line \<Rightarrow> counting \<Rightarrow> core_error + counting" where
  "add_count_line_commit l db =
     (if cl_id l \<in> cl_id ` set (ct_lines db) \<or> cl_count l \<notin> sc_id ` set (ct_counts db)
         \<or> cl_expected l < 0 \<or> (\<exists>c \<in> set_option (cl_counted l). c < 0)
      then Inl Db else Inr (db\<lparr>ct_lines := ct_lines db @ [l]\<rparr>))"

definition get_count_line_by_id :: "counting \<Rightarrow> string \<Rightarrow> stock_count_line option" where
  "get_count_line_by_id db i = List.find (\<lambda>l. cl_id l = i) (ct_lines db)"

definition count_status_of_line :: "counting \<Rightarrow> string \<Rightarrow> stock_count_status option" where
  "count_status_of_line db i =
     Option.bind (get_count_line_by_id db i) (\<lambda>l. map_option sc_status (get_stock_count db (cl_count l)))"

definition update_count_line_check :: "counting \<Rightarrow> stock_count_line \<Rightarrow> core_error + unit" where
  "update_count_line_check db l =
     (case count_status_of_line db (cl_id l) of
        None \<Rightarrow> Inl (NotFound ''stock_count_line'' (cl_id l))
      | Some s \<Rightarrow> if \<not> is_editable s then Inl (Validation ''status'') else validate_line_quantities l)"

definition update_count_line_commit :: "stock_count_line \<Rightarrow> counting \<Rightarrow> counting" where
  "update_count_line_commit l db = db\<lparr>ct_lines := map (\<lambda>k. if cl_id k = cl_id l
       then k\<lparr>cl_counted := cl_counted l, cl_difference := cl_difference l, cl_notes := cl_notes l\<rparr> else k) (ct_lines db)\<rparr>"

text \<open>A line that is not there is removed already: \<open>False\<close>.\<close>

definition remove_count_line_check :: "counting \<Rightarrow> string \<Rightarrow> core_error + bool" where
  "remove_count_line_check db i =
     (case count_status_of_line db i of
        None \<Rightarrow> Inr False
      | Some s \<Rightarrow> if \<not> is_editable s then Inl (Validation ''status'') else Inr True)"

definition remove_count_line_commit :: "string \<Rightarrow> counting \<Rightarrow> counting" where
  "remove_count_line_commit i db = db\<lparr>ct_lines := filter (\<lambda>l. cl_id l \<noteq> i) (ct_lines db)\<rparr>"

definition get_count_lines :: "counting \<Rightarrow> string \<Rightarrow> stock_count_line list" where
  "get_count_lines db i = sort_key cl_sku (filter (\<lambda>l. cl_count l = i) (ct_lines db))"

definition list_stock_adjustments :: "counting \<Rightarrow> stock_adjustment list" where
  "list_stock_adjustments db = rev (sort_key sj_created_at (ct_adjustments db))"

subsection \<open>Completing\<close>

definition previous_qty :: "stock_store \<Rightarrow> string \<Rightarrow> core_error + int" where
  "previous_qty st p =
     (if product_has_location_rows st p then Inr (summary_total st p)
      else (case map_of (inventory st) p of None \<Rightarrow> Inl Db | Some r \<Rightarrow> Inr (iv_qty r)))"

text \<open>The locations that hold the product, the largest first.\<close>

definition holders :: "stock_store \<Rightarrow> string \<Rightarrow> (string \<times> int) list" where
  "holders st p = sort_key (\<lambda>h. - snd h) (sort_key fst
     (map (\<lambda>r. (snd (fst r), fst (snd r))) (filter (\<lambda>r. fst (fst r) = p) (summary st))))"

fun spread_delta ::
    "count_args \<Rightarrow> string \<Rightarrow> string \<Rightarrow> (string \<times> int) list \<Rightarrow> int \<Rightarrow> nat \<times> stock_store \<Rightarrow> core_error + int \<times> nat \<times> stock_store" where
  "spread_delta x sku why [] r s = Inr (r, s)"
| "spread_delta x sku why ((l, q) # hs) r (n, st) =
     (if r = 0 then Inr (r, n, st)
      else (let step = (if r < 0 then - min (- r) q else r)
        in if step = 0 then spread_delta x sku why hs r (n, st)
           else (case adjust_stock_at_location_with_reason (cx_adjust x n) sku step l (Some why) None None None st of
               Inl e \<Rightarrow> Inl e
             | Inr (_, st') \<Rightarrow> spread_delta x sku why hs (r - step) (Suc n, st'))))"

definition settle_delta ::
    "count_args \<Rightarrow> string \<Rightarrow> string \<Rightarrow> string \<Rightarrow> int \<Rightarrow> nat \<times> stock_store \<Rightarrow> core_error + nat \<times> stock_store" where
  "settle_delta x sku why p delta = (\<lambda>(n, st).
     if delta = 0 then Inr (n, st)
     else (case spread_delta x sku why (holders st p) delta (n, st) of
         Inl e \<Rightarrow> Inl e
       | Inr (r, n', st') \<Rightarrow>
           if r = 0 then Inr (n', st')
           else (case adjust_stock_at_location_with_reason (cx_adjust x n') sku r canonical_default_location (Some why) None None None st' of
               Inl e \<Rightarrow> Inl e | Inr (_, st'') \<Rightarrow> Inr (Suc n', st''))))"

definition insert_stock_adjustment :: "stock_adjustment \<Rightarrow> counting \<Rightarrow> core_error + counting" where
  "insert_stock_adjustment a db =
     (if sj_id a \<in> sj_id ` set (ct_adjustments db) \<or> (\<exists>k \<in> set_option (sj_count a). k \<notin> sc_id ` set (ct_counts db))
         \<or> sj_previous a < 0 \<or> sj_adjusted a < 0
      then Inl Db else Inr (db\<lparr>ct_adjustments := ct_adjustments db @ [a]\<rparr>))"

definition counted_or_expected :: "stock_count_line \<Rightarrow> int" where
  "counted_or_expected l = (case cl_counted l of None \<Rightarrow> cl_expected l | Some c \<Rightarrow> c)"

text \<open>One line, with the number of movements and the adjustments made so far.\<close>

definition complete_line ::
    "count_args \<Rightarrow> stock_count \<Rightarrow> string option \<Rightarrow> stock_count_line \<Rightarrow> nat \<times> stock_adjustment list \<times> counting
       \<Rightarrow> core_error + nat \<times> stock_adjustment list \<times> counting" where
  "complete_line x c completed_by l = (\<lambda>(n, done_so_far, db).
     case validate_line_quantities l of
       Inl e \<Rightarrow> Inl e
     | Inr _ \<Rightarrow>
         if counted_or_expected l = cl_expected l then Inr (n, done_so_far, db)
         else (case stock_product_id_by_sku (ct_stock db) (cl_sku l) of
             None \<Rightarrow> Inl (NotFound ''product'' (cl_sku l))
           | Some p \<Rightarrow>
               (case previous_qty (ct_stock db) p of
                  Inl e \<Rightarrow> Inl e
                | Inr previous \<Rightarrow>
                    (case validate_non_negative ''previous_qty'' previous of
                       Inl e \<Rightarrow> Inl e
                     | Inr _ \<Rightarrow>
                         (case checked_sub (counted_or_expected l) previous of
                            None \<Rightarrow> Inl (Validation ''counted_qty'')
                          | Some delta \<Rightarrow>
                              (case bridge_legacy_inventory_into_stock_summary (aa_now (cx_adjust x n)) p (ct_stock db) of
                                 Inl e \<Rightarrow> Inl e
                               | Inr st1 \<Rightarrow>
                                   (case settle_delta x (cl_sku l) (''stock count '' @ sc_number c) p delta (n, st1) of
                                      Inl e \<Rightarrow> Inl e
                                    | Inr (n', st2) \<Rightarrow>
                                        (let a = \<lparr>sj_id = cx_adjustment x (length done_so_far), sj_count = Some (sc_id c), sj_sku = cl_sku l,
                                               sj_product_name = cl_product_name l, sj_previous = previous,
                                               sj_adjusted = counted_or_expected l,
                                               sj_reason = ''stock count '' @ sc_number c @ '' ('' @ cl_notes l @ '')'',
                                               sj_created_by = completed_by, sj_created_at = cx_now x\<rparr>
                                         in case insert_stock_adjustment a (db\<lparr>ct_stock := st2\<rparr>) of
                                              Inl e \<Rightarrow> Inl e
                                            | Inr db' \<Rightarrow> Inr (n', done_so_far @ [a], db')))))))))"

definition complete_stock_count ::
    "count_args \<Rightarrow> string \<Rightarrow> string option \<Rightarrow> counting \<Rightarrow> core_error + stock_adjustment list \<times> counting" where
  "complete_stock_count x i completed_by db =
     (case get_stock_count db i of
        None \<Rightarrow> Inl (NotFound ''stock_count'' i)
      | Some c \<Rightarrow>
          if \<not> is_editable (sc_status c) then Inl (Validation ''status'')
          else (let hit = (\<lambda>k. sc_id k = i \<and> is_editable (sc_status k));
                    db1 = db\<lparr>ct_counts := map (\<lambda>k. if hit k then k\<lparr>sc_status := Completed,
                        sc_completed_at := Some (cx_now x), sc_updated_at := cx_now x\<rparr> else k) (ct_counts db)\<rparr>
            in if length (filter hit (ct_counts db)) \<noteq> 1 then Inl (Validation ''status'')
               else (case each (complete_line x c completed_by) (get_count_lines db1 i) (0, [], db1) of
                   Inl e \<Rightarrow> Inl e | Inr (_, as, db2) \<Rightarrow> Inr (as, db2))))"

subsection \<open>What completing does to the stock\<close>

lemma spread_shifted:
  assumes "spread_delta x sku why hs r s = Inr (r', n', st')" and "distinct (map fst (summary (snd s)))"
    and "stock_product_id_by_sku (snd s) sku = Some p"
  shows "shifted p (r - r') (snd s) st'"
  using assms
proof (induction x sku why hs r s rule: spread_delta.induct)
  case (2 x sku why l q hs r n st)
  let ?step = "if r < 0 then - min (- r) q else r"
  consider "r = 0" "r' = r" "st' = st"
    | "r \<noteq> 0" "?step = 0" "spread_delta x sku why hs r (n, st) = Inr (r', n', st')"
    | v st1 where "r \<noteq> 0" "?step \<noteq> 0" "adjust_stock_at_location_with_reason (cx_adjust x n) sku ?step l (Some why) None None None st = Inr (v, st1)"
        "spread_delta x sku why hs (r - ?step) (Suc n, st1) = Inr (r', n', st')"
    using "2.prems"(1) by (auto simp: Let_def split: if_splits sum.splits)
  then show ?case
  proof cases
    case 1
    then show ?thesis using "2.prems"(2) by (simp add: shifted_refl)
  next
    case c: 2
    then show ?thesis using "2.IH"(1) [OF c(1) refl c(2,3)] "2.prems"(2,3) by simp
  next
    case c: 3
    have s: "shifted p ?step st st1" using adjust_shifted [OF c(3)] "2.prems"(2,3) by simp
    have "stock_product_id_by_sku st1 sku = Some p" using shifted_products [OF s] "2.prems"(3) by simp
    then have "shifted p (r - ?step - r') st1 st'"
      using "2.IH"(2) [OF c(1) refl c(2,3) refl] c(4) shifted_rows [OF s] by simp
    from shifted_trans [OF s this] show ?thesis by simp
  qed
qed (simp add: shifted_refl)

lemma settle_shifted:
  assumes "settle_delta x sku why p delta (n, st) = Inr (n', st')" and "distinct (map fst (summary st))"
    and "stock_product_id_by_sku st sku = Some p"
  shows "shifted p delta st st'"
proof (cases "delta = 0")
  case True
  then show ?thesis using assms(1,2) by (simp add: settle_delta_def shifted_refl)
next
  case False
  obtain r m st1 where 1: "spread_delta x sku why (holders st p) delta (n, st) = Inr (r, m, st1)"
    and 2: "r = 0 \<and> st' = st1 \<or> (\<exists>v. adjust_stock_at_location_with_reason (cx_adjust x m) sku r canonical_default_location
        (Some why) None None None st1 = Inr (v, st'))"
    using assms(1) False by (auto simp: settle_delta_def split: sum.splits if_splits prod.splits)
  have s: "shifted p (delta - r) st st1" using spread_shifted [OF 1] assms(2,3) by simp
  then have "stock_product_id_by_sku st1 sku = Some p" using assms(3) by (simp add: shifted_products)
  then have "shifted p r st1 st'"
    using 2 adjust_shifted [OF _ shifted_rows [OF s]] shifted_refl [OF shifted_rows [OF s]] by blast
  from shifted_trans [OF s this] show ?thesis by simp
qed

definition differs :: "stock_count_line \<Rightarrow> bool" where
  "differs l \<longleftrightarrow> counted_or_expected l \<noteq> cl_expected l"

lemma previous_qty_Inr: "previous_qty st p = Inr q \<Longrightarrow> q = stock_total st p"
  by (auto simp: previous_qty_def stock_total_def get_stock_def split: if_splits option.splits)

lemma complete_line_Inr:
  assumes "complete_line x c who l (n, as, db) = Inr (n', as', db')" and "distinct (map fst (summary (ct_stock db)))"
  shows "\<not> differs l \<and> as' = as \<and> db' = db
    \<or> (\<exists>p a st'. differs l \<and> stock_product_id_by_sku (ct_stock db) (cl_sku l) = Some p
        \<and> shifted p (counted_or_expected l - stock_total (ct_stock db) p) (ct_stock db) st'
        \<and> as' = as @ [a] \<and> db' = db\<lparr>ct_stock := st', ct_adjustments := ct_adjustments db @ [a]\<rparr>
        \<and> sj_sku a = cl_sku l \<and> sj_adjusted a = counted_or_expected l \<and> sj_previous a = stock_total (ct_stock db) p)"
proof (cases "differs l")
  case False
  then show ?thesis using assms(1) by (auto simp: complete_line_def differs_def split: sum.splits)
next
  case True
  obtain p previous st1 st2 a where p: "stock_product_id_by_sku (ct_stock db) (cl_sku l) = Some p"
    and previous: "previous_qty (ct_stock db) p = Inr previous"
    and 1: "bridge_legacy_inventory_into_stock_summary (aa_now (cx_adjust x n)) p (ct_stock db) = Inr st1"
    and 2: "settle_delta x (cl_sku l) (''stock count '' @ sc_number c) p (counted_or_expected l - previous) (n, st1) = Inr (n', st2)"
    and 3: "insert_stock_adjustment a (db\<lparr>ct_stock := st2\<rparr>) = Inr db'" "as' = as @ [a]"
    and a: "sj_sku a = cl_sku l" "sj_adjusted a = counted_or_expected l" "sj_previous a = previous"
    using assms(1) True
    by (auto simp: complete_line_def differs_def Let_def checked_sub_def split: sum.splits option.splits)
  have s: "shifted p 0 (ct_stock db) st1" by (rule bridge_shifted [OF 1 assms(2)])
  have "stock_product_id_by_sku st1 (cl_sku l) = Some p" using shifted_products [OF s] p by simp
  from shifted_trans [OF s settle_shifted [OF 2 shifted_rows [OF s] this]]
  have "shifted p (counted_or_expected l - stock_total (ct_stock db) p) (ct_stock db) st2"
    using previous_qty_Inr [OF previous] by simp
  moreover have "db' = db\<lparr>ct_stock := st2, ct_adjustments := ct_adjustments db @ [a]\<rparr>"
    using 3(1) by (auto simp: insert_stock_adjustment_def split: if_splits)
  ultimately show ?thesis using True p a 3(2) previous_qty_Inr [OF previous] by blast
qed

text \<open>The last line of a product that found a difference decides.\<close>

definition deciding :: "stock_store \<Rightarrow> stock_count_line list \<Rightarrow> string \<Rightarrow> stock_count_line option" where
  "deciding st ls p = List.find (\<lambda>l. differs l \<and> stock_product_id_by_sku st (cl_sku l) = Some p) (rev ls)"

definition count_result :: "stock_store \<Rightarrow> stock_count_line list \<Rightarrow> string \<Rightarrow> int" where
  "count_result st ls p = (case deciding st ls p of None \<Rightarrow> stock_total st p | Some l \<Rightarrow> counted_or_expected l)"

lemma complete_lines_Inr:
  assumes "each (complete_line x c who) ls (n, as, db) = Inr (n', as', db')" and "distinct (map fst (summary (ct_stock db)))"
  shows "\<exists>new. as' = as @ new \<and> ct_counts db' = ct_counts db \<and> ct_lines db' = ct_lines db \<and> ct_adjustments db' = ct_adjustments db @ new
    \<and> map (\<lambda>a. (sj_sku a, sj_adjusted a)) new = map (\<lambda>l. (cl_sku l, counted_or_expected l)) (filter differs ls)
    \<and> (\<forall>p. stock_total (ct_stock db') p = count_result (ct_stock db) ls p
        \<and> ledger_total (ct_stock db') p - ledger_total (ct_stock db) p = count_result (ct_stock db) ls p - stock_total (ct_stock db) p)
    \<and> stock_step\<^sup>*\<^sup>* (ct_stock db) (ct_stock db')"
  using assms
proof (induction ls arbitrary: n as db)
  case Nil
  then show ?case by (simp add: count_result_def deciding_def)
next
  case (Cons l ls)
  obtain m as1 db1 where 1: "complete_line x c who l (n, as, db) = Inr (m, as1, db1)"
    and 2: "each (complete_line x c who) ls (m, as1, db1) = Inr (n', as', db')"
    using Cons.prems(1) by (auto split: sum.splits)
  show ?case
  proof (cases "differs l")
    case False
    then have same: "as1 = as" "db1 = db" using complete_line_Inr [OF 1 Cons.prems(2)] by auto
    have "count_result (ct_stock db) (l # ls) = count_result (ct_stock db) ls"
      using False by (simp add: fun_eq_iff count_result_def deciding_def find_append split: option.splits)
    then show ?thesis using Cons.IH [OF 2] Cons.prems(2) False by (simp add: same)
  next
    case True
    obtain p a st1 where p: "stock_product_id_by_sku (ct_stock db) (cl_sku l) = Some p"
      and s: "shifted p (counted_or_expected l - stock_total (ct_stock db) p) (ct_stock db) st1"
      and db1: "as1 = as @ [a]" "db1 = db\<lparr>ct_stock := st1, ct_adjustments := ct_adjustments db @ [a]\<rparr>"
      and a: "sj_sku a = cl_sku l" "sj_adjusted a = counted_or_expected l"
      using complete_line_Inr [OF 1 Cons.prems(2)] True by blast
    have "distinct (map fst (summary (ct_stock db1)))" using shifted_rows [OF s] by (simp add: db1)
    from Cons.IH [OF 2 this] obtain new where new: "as' = as1 @ new" "ct_counts db' = ct_counts db" "ct_lines db' = ct_lines db"
        "ct_adjustments db' = ct_adjustments db @ a # new"
        "map (\<lambda>a. (sj_sku a, sj_adjusted a)) new = map (\<lambda>l. (cl_sku l, counted_or_expected l)) (filter differs ls)"
      and totals: "\<forall>q. stock_total (ct_stock db') q = count_result st1 ls q
        \<and> ledger_total (ct_stock db') q - ledger_total st1 q = count_result st1 ls q - stock_total st1 q"
      and steps: "stock_step\<^sup>*\<^sup>* st1 (ct_stock db')"
      by (auto simp: db1)
    have result: "count_result st1 ls q = count_result (ct_stock db) (l # ls) q" for q
      using s True p by (auto simp: count_result_def deciding_def find_append shifted_def split: option.splits)
    have "stock_step\<^sup>*\<^sup>* (ct_stock db) (ct_stock db')" using s steps by (auto simp: shifted_def)
    moreover have "stock_total (ct_stock db') q = count_result (ct_stock db) (l # ls) q
        \<and> ledger_total (ct_stock db') q - ledger_total (ct_stock db) q
          = count_result (ct_stock db) (l # ls) q - stock_total (ct_stock db) q" for q
    proof -
      have "ledger_total st1 q - ledger_total (ct_stock db) q = stock_total st1 q - stock_total (ct_stock db) q"
        using s by (simp add: shifted_def)
      moreover have "stock_total (ct_stock db') q = count_result st1 ls q"
          "ledger_total (ct_stock db') q - ledger_total st1 q = count_result st1 ls q - stock_total st1 q"
        using totals by blast+
      ultimately show ?thesis unfolding result by linarith
    qed
    ultimately show ?thesis using new a True by (intro exI [of _ "a # new"]) (simp add: db1)
  qed
qed

lemma complete_count_facts:
  assumes "complete_stock_count x i who db = Inr (as, db')" and "distinct (map fst (summary (ct_stock db)))"
  shows "(\<forall>p. stock_total (ct_stock db') p = count_result (ct_stock db) (get_count_lines db i) p
        \<and> ledger_total (ct_stock db') p - ledger_total (ct_stock db) p
          = stock_total (ct_stock db') p - stock_total (ct_stock db) p)
    \<and> (\<exists>c. get_stock_count db' i = Some c \<and> sc_status c = Completed)
    \<and> ct_adjustments db' = ct_adjustments db @ as
    \<and> map (\<lambda>a. (sj_sku a, sj_adjusted a)) as
      = map (\<lambda>l. (cl_sku l, counted_or_expected l)) (filter differs (get_count_lines db i))"
proof -
  define claim where "claim k = (if sc_id k = i \<and> is_editable (sc_status k)
      then k\<lparr>sc_status := Completed, sc_completed_at := Some (cx_now x), sc_updated_at := cx_now x\<rparr> else k)" for k :: stock_count
  let ?db = "db\<lparr>ct_counts := map claim (ct_counts db)\<rparr>"
  obtain c n where c: "get_stock_count db i = Some c" "is_editable (sc_status c)"
    and run: "each (complete_line x c who) (get_count_lines ?db i) (0, [], ?db) = Inr (n, as, db')"
    using assms(1) by (auto simp: complete_stock_count_def Let_def claim_def [abs_def] split: option.splits if_splits sum.splits)
  have lines: "get_count_lines ?db i = get_count_lines db i" by (simp add: get_count_lines_def)
  have "distinct (map fst (summary (ct_stock ?db)))" using assms(2) by simp
  from complete_lines_Inr [OF run this] have r: "ct_counts db' = map claim (ct_counts db)" "ct_adjustments db' = ct_adjustments db @ as"
      "map (\<lambda>a. (sj_sku a, sj_adjusted a)) as = map (\<lambda>l. (cl_sku l, counted_or_expected l)) (filter differs (get_count_lines db i))"
      "\<forall>p. stock_total (ct_stock db') p = count_result (ct_stock db) (get_count_lines db i) p
        \<and> ledger_total (ct_stock db') p - ledger_total (ct_stock db) p
          = count_result (ct_stock db) (get_count_lines db i) p - stock_total (ct_stock db) p"
    by (auto simp: lines)
  have "get_stock_count db' i = Some (claim c)"
    using c(1) find_map_key [of sc_id claim] by (simp add: get_stock_count_def r(1) claim_def)
  moreover have "sc_id c = i" using c(1) by (auto simp: get_stock_count_def find_Some_iff)
  then have "sc_status (claim c) = Completed" using c(2) by (simp add: claim_def)
  ultimately show ?thesis using r(2-4) by auto
qed

text \<open>
  C10. Completing a count makes the stock what was counted: the quantity of every product over all locations is the
  one its last differing line counted, and as before if no line of it found a difference; the ledger moves by the
  same; the count is closed, and each differing line in order leaves one adjustment with the counted quantity.\<close>

theorem count_sets_stock:
  assumes "complete_stock_count x i who db = Inr (as, db')" and "distinct (map fst (summary (ct_stock db)))"
  shows "(\<forall>p. stock_total (ct_stock db') p = count_result (ct_stock db) (get_count_lines db i) p
        \<and> ledger_total (ct_stock db') p - ledger_total (ct_stock db) p
          = stock_total (ct_stock db') p - stock_total (ct_stock db) p)
    \<and> (\<exists>c. get_stock_count db' i = Some c \<and> sc_status c = Completed)
    \<and> ct_adjustments db' = ct_adjustments db @ as
    \<and> map (\<lambda>a. (sj_sku a, sj_adjusted a)) as
      = map (\<lambda>l. (cl_sku l, counted_or_expected l)) (filter differs (get_count_lines db i))"
  by (rule complete_count_facts [OF assms])

lemma count_closed:
  assumes "complete_stock_count x i who db = Inr (as, db')" and "distinct (map fst (summary (ct_stock db)))"
  shows "\<exists>c. get_stock_count db' i = Some c \<and> sc_status c = Completed"
  using complete_count_facts [OF assms] by blast

subsection \<open>Numbers do not collide\<close>

lemma zero_pad_cons:
  obtains c u where "zero_pad w (show_nat n) = c # u" "is_ascii_digit c"
proof (cases "zero_pad w (show_nat n)")
  case (Cons c u)
  moreover have "list_all is_ascii_digit (zero_pad w (show_nat n))" by (rule zero_pad_digits) simp
  ultimately show ?thesis using that by simp
qed simp

lemma digit_not_space: "is_ascii_digit c \<Longrightarrow> c \<notin> set [CHR '' '', CHR 0x09, CHR 0x0A, CHR 0x0B, CHR 0x0C, CHR 0x0D]"
  by (auto simp: is_ascii_digit_def)

lemma digits_taken: "takeWhile is_ascii_digit (zero_pad w (show_nat n)) = zero_pad w (show_nat n)"
  using zero_pad_digits [OF show_nat_all_digits] by (auto simp: list_all_iff intro!: takeWhile_eq_all_conv [THEN iffD2])

lemma sql_cast_pad_int:
  assumes "in_i64 v"
  shows "sql_cast_int (pad_int 3 v) = v"
proof (cases "v < 0")
  case True
  then show ?thesis using assms by (simp add: pad_int_def sql_cast_int_def digits_taken digits_val_zero_pad range_simps)
next
  case False
  obtain c u where z: "zero_pad 3 (show_nat (nat v)) = c # u" "is_ascii_digit c" by (rule zero_pad_cons)
  have "digits_val 10 0 (takeWhile is_ascii_digit (c # u)) = Some (nat v)"
    using digits_taken [of 3 "nat v"] digits_val_zero_pad [of 3 "nat v"] by (simp only: z(1))
  then show ?thesis
    using False assms digit_not_space [OF z(2)] digit_not_sign [OF z(2)]
    by (simp add: pad_int_def z(1) sql_cast_int_def range_simps del: takeWhile.simps)
qed

lemma like_prefix_append: "like_prefix p (p @ s)"
  by (simp add: like_prefix_def eq_ignore_ascii_case_def)

lemma max_count_seq_upper:
  assumes "c \<in> set cs" and "like_prefix prefix (sc_number c)"
  shows "sql_cast_int (drop n (sc_number c)) \<le> max_count_seq prefix n cs"
  using assms by (auto simp: max_count_seq_def Let_def filter_empty_conv intro!: Max_ge)

lemma sql_cast_range: "in_i64 (sql_cast_int s)"
  by (auto simp: sql_cast_int_def range_simps Let_def split: list.split option.split)

lemma max_count_seq_range: "in_i64 (max_count_seq prefix n cs)"
proof (cases "filter (\<lambda>c. like_prefix prefix (sc_number c)) cs = []")
  case False
  then have "max_count_seq prefix n cs \<in> (\<lambda>c. sql_cast_int (drop n (sc_number c))) ` set (filter (\<lambda>c. like_prefix prefix (sc_number c)) cs)"
    unfolding max_count_seq_def Let_def by (simp only: map_is_Nil_conv if_False set_map) (rule Max_in, auto simp: filter_empty_conv)
  then show ?thesis using sql_cast_range by auto
qed (simp add: max_count_seq_def range_simps)

text \<open>
  A count always gets a number: while the day's counter is below the largest integer, creating a count with a fresh
  id succeeds, whatever numbers other counts bear, under a number no other count has and that is above the
  day's highest.\<close>

theorem count_number_free:
  assumes "sc_id c \<notin> sc_id ` set (ct_counts db)" and "length today = 8"
    and "max_count_seq (count_prefix today) 13 (ct_counts db) < i64_max"
  shows "\<exists>n. create_stock_count_with_next_number today c db
      = Inr (c\<lparr>sc_number := n\<rparr>, db\<lparr>ct_counts := ct_counts db @ [c\<lparr>sc_number := n\<rparr>]\<rparr>)
    \<and> n = count_prefix today @ pad_int 3 (max_count_seq (count_prefix today) 13 (ct_counts db) + 1)
    \<and> n \<notin> sc_number ` set (ct_counts db)
    \<and> next_count_number today db = Ok n"
proof -
  let ?p = "count_prefix today" and ?m = "max_count_seq (count_prefix today) 13 (ct_counts db)"
  let ?n = "?p @ pad_int 3 (?m + 1)"
  have len: "length ?p = 13" using assms(2) by (simp add: count_prefix_def)
  have n: "allocated_number today (ct_counts db) = ?n" using assms(3) by (simp add: allocated_number_def min_absorb2)
  have "in_i64 (?m + 1)" using max_count_seq_range [of ?p 13 "ct_counts db"] assms(3) by (auto simp: range_simps)
  then have cast: "sql_cast_int (drop 13 ?n) = ?m + 1" by (simp add: len sql_cast_pad_int)
  have free: "?n \<notin> sc_number ` set (ct_counts db)"
  proof
    assume "?n \<in> sc_number ` set (ct_counts db)"
    then obtain k where k: "k \<in> set (ct_counts db)" "sc_number k = ?n" by auto
    have "like_prefix ?p (sc_number k)" by (simp only: k(2) like_prefix_append)
    from max_count_seq_upper [OF k(1) this, of 13] show False unfolding k(2) cast by simp
  qed
  then show ?thesis using assms(1,3) n
    by (simp add: create_stock_count_with_next_number_def insert_stock_count_def next_count_number_def Let_def len)
qed

subsection \<open>A count can be completed\<close>

text \<open>Tables that agree, with their foreign keys in place and ids for the movements to come.\<close>

definition ready :: "count_args \<Rightarrow> nat \<Rightarrow> stock_store \<Rightarrow> bool" where
  "ready x n st \<longleftrightarrow> stock_sound st \<and> canonical_default_location \<in> set (stock_locations st)
     \<and> snd ` fst ` set (summary st) \<subseteq> set (stock_locations st)
     \<and> (\<forall>m. n \<le> m \<longrightarrow> aa_movement_id (cx_adjust x m) \<notin> mv_id ` set (movements st))
     \<and> inj (\<lambda>m. aa_movement_id (cx_adjust x m))"

lemma ready_sound: "ready x n st \<Longrightarrow> stock_sound st"
  by (simp add: ready_def)

lemma sound_rows: "stock_sound st \<Longrightarrow> distinct (map fst (summary st))"
  by (simp add: stock_sound_def)

lemma adjust_tables:
  assumes "adjust_stock_at_location_with_reason x sku delta l why txn terminal user st = Inr (q, st')"
  shows "stock_locations st' = stock_locations st"
    "mv_id ` set (movements st') = insert (aa_movement_id x) (mv_id ` set (movements st))"
    "snd ` fst ` set (summary st') = insert l (snd ` fst ` set (summary st))"
proof -
  have thr: "stock_locations (check_stock_threshold i now p l q st) = stock_locations st" for i now p l q st
    by (auto simp: check_stock_threshold_def split: option.split)
  note defs = adjust_stock_at_location_with_reason_def Let_def insert_movement_def upsert_stock_summary_in_tx_def
    upsert_inventory_sum_def thr
  show "stock_locations st' = stock_locations st" using assms by (auto simp: defs split: option.splits if_splits sum.splits)
  show "mv_id ` set (movements st') = insert (aa_movement_id x) (mv_id ` set (movements st))"
    using assms by (auto simp: defs split: option.splits if_splits sum.splits)
  obtain p u where "summary st' = tab_update (p, l) (q, u) (summary st)"
    using adjust_Inr [OF assms] by (auto simp: adjusted_def)
  then show "snd ` fst ` set (summary st') = insert l (snd ` fst ` set (summary st))" by simp
qed

lemma adjust_ready:
  assumes "ready x n st" and "stock_product_id_by_sku st sku = Some p" and "l \<in> set (stock_locations st)"
    and "0 \<le> legacy_aware_location_qty st p l + delta" "in_i64 (legacy_aware_location_qty st p l + delta)"
  obtains q st' where "adjust_stock_at_location_with_reason (cx_adjust x n) sku delta l why None None None st = Inr (q, st')"
    and "ready x (Suc n) st'"
proof -
  obtain q st' where a: "adjust_stock_at_location_with_reason (cx_adjust x n) sku delta l why None None None st = Inr (q, st')"
    using stock_adjust_succeeds_iff [OF ready_sound [OF assms(1)], of "cx_adjust x n" sku delta l why None None None] assms
    by (auto simp: ready_def)
  note t = adjust_tables [OF a]
  have "stock_sound st'" by (rule adjust_sound [OF a ready_sound [OF assms(1)]])
  moreover have "snd ` fst ` set (summary st') \<subseteq> set (stock_locations st)" using assms(1,3) by (simp add: t(3) ready_def)
  moreover have "aa_movement_id (cx_adjust x m) \<notin> mv_id ` set (movements st')" if "Suc n \<le> m" for m
    using that assms(1) by (auto simp: t(2) ready_def dest: injD)
  ultimately have "ready x (Suc n) st'" using assms(1) by (simp add: ready_def t(1))
  then show ?thesis using a that by blast
qed

lemma adjust_elsewhere:
  assumes "adjust_stock_at_location_with_reason x sku delta l why txn terminal user st = Inr (q, st')"
    and "distinct (map fst (summary st))" and "stock_product_id_by_sku st sku = Some p"
  shows "l' \<noteq> l \<Longrightarrow> location_qty st' p l' = location_qty st p l'" "product_has_location_rows st' p"
proof -
  have a: "adjusted st p l delta q st'" "q = legacy_aware_location_qty st p l + delta" using adjust_Inr [OF assms(1)] assms(3) by auto
  show "l' \<noteq> l \<Longrightarrow> location_qty st' p l' = location_qty st p l'" using adjusted_facts(2) [OF a assms(2)] by simp
  show "product_has_location_rows st' p" using a(1) by (auto simp: adjusted_def product_has_location_rows_def tab_rows)
qed

lemma holders_sum: "sum_list (map snd (holders st p)) = summary_total st p"
  by (simp add: holders_def summary_total_def sum_list_sort_key comp_def)

lemma holders_qty:
  assumes "distinct (map fst (summary st))" and "(l, q) \<in> set (holders st p)"
  shows "location_qty st p l = q" "l \<in> snd ` fst ` set (summary st)"
proof -
  obtain u where "((p, l), q, u) \<in> set (summary st)" using assms(2) by (auto simp: holders_def)
  then show "location_qty st p l = q" "l \<in> snd ` fst ` set (summary st)"
    using map_of_is_SomeI [OF assms(1)] by (force simp: location_qty_def)+
qed

lemma holders_distinct:
  assumes "distinct (map fst (summary st))"
  shows "distinct (map fst (holders st p))"
proof -
  have "inj_on (\<lambda>r. snd (fst r)) (set (filter (\<lambda>r. fst (fst r) = p) (summary st)))"
  proof (rule inj_onI)
    fix r s assume r: "r \<in> set (filter (\<lambda>r. fst (fst r) = p) (summary st))" "s \<in> set (filter (\<lambda>r. fst (fst r) = p) (summary st))"
      "snd (fst r) = snd (fst s)"
    then have "fst r = fst s" by (simp add: prod_eq_iff)
    moreover have "inj_on fst (set (summary st))" using assms by (simp add: distinct_map)
    ultimately show "r = s" using r(1,2) by (auto dest: inj_onD)
  qed
  moreover have "distinct (filter (\<lambda>r. fst (fst r) = p) (summary st))" using assms by (simp add: distinct_map)
  ultimately have "distinct (map (\<lambda>r. snd (fst r)) (filter (\<lambda>r. fst (fst r) = p) (summary st)))" by (simp add: distinct_map)
  moreover have "mset (map fst (holders st p)) = mset (map (\<lambda>r. snd (fst r)) (filter (\<lambda>r. fst (fst r) = p) (summary st)))"
    by (simp add: holders_def image_mset.compositionality comp_def)
  ultimately show ?thesis by (metis mset_eq_imp_distinct_iff)
qed

lemma holders_Nil: "holders st p = [] \<longleftrightarrow> \<not> product_has_location_rows st p"
proof -
  have "holders st p = [] \<longleftrightarrow> filter (\<lambda>r. fst (fst r) = p) (summary st) = []"
    by (metis (no_types, lifting) holders_def length_0_conv length_map length_sort)
  then show ?thesis by (auto simp: product_has_location_rows_def list_ex_iff filter_empty_conv)
qed

lemma spread_shrink:
  assumes "ready x n st" and "stock_product_id_by_sku st sku = Some p" and "r \<le> 0" and "product_has_location_rows st p"
    and "distinct (map fst hs)" and "\<forall>(l, q) \<in> set hs. location_qty st p l = q \<and> l \<in> set (stock_locations st) \<and> 0 \<le> q \<and> in_i64 q"
    and "- r \<le> sum_list (map snd hs)"
  shows "\<exists>n' st'. spread_delta x sku why hs r (n, st) = Inr (0, n', st') \<and> ready x n' st'"
  using assms
proof (induction hs arbitrary: n st r)
  case (Cons h hs)
  obtain l q where h: "h = (l, q)" by force
  have q: "location_qty st p l = q" "l \<in> set (stock_locations st)" "0 \<le> q" "in_i64 q" using Cons.prems(6) by (auto simp: h)
  show ?case
  proof (cases "r = 0 \<or> q = 0")
    case True
    then show ?thesis using Cons.prems Cons.IH [OF Cons.prems(1-4)] by (cases "r = 0") (auto simp: h)
  next
    case False
    let ?step = "- min (- r) q"
    have here: "legacy_aware_location_qty st p l = q" using Cons.prems(4) q(1) by (simp add: legacy_aware_location_qty_def)
    have bounds: "0 \<le> legacy_aware_location_qty st p l + ?step" "in_i64 (legacy_aware_location_qty st p l + ?step)"
      using q(3,4) Cons.prems(3) False by (auto simp: here range_simps min_def)
    obtain v st1 where a: "adjust_stock_at_location_with_reason (cx_adjust x n) sku ?step l (Some why) None None None st = Inr (v, st1)"
      and ready: "ready x (Suc n) st1"
      by (rule adjust_ready [OF Cons.prems(1,2) q(2) bounds])
    note rows = sound_rows [OF ready_sound [OF Cons.prems(1)]]
    have "stock_product_id_by_sku st1 sku = Some p" "stock_locations st1 = stock_locations st" "product_has_location_rows st1 p"
      using shifted_products [OF adjust_shifted [OF a rows Cons.prems(2)]] Cons.prems(2) adjust_tables(1) [OF a]
        adjust_elsewhere(2) [OF a rows Cons.prems(2)] by simp_all
    moreover have "\<forall>(k, q) \<in> set hs. location_qty st1 p k = q \<and> k \<in> set (stock_locations st) \<and> 0 \<le> q \<and> in_i64 q"
    proof safe
      fix k q assume k: "(k, q) \<in> set hs"
      then have "k \<noteq> l" using Cons.prems(5) by (force simp: h)
      then show "location_qty st1 p k = q" "k \<in> set (stock_locations st)" "0 \<le> q" "in_i64 q"
        using adjust_elsewhere(1) [OF a rows Cons.prems(2), of k] k Cons.prems(6) by auto
    qed
    moreover have "0 \<le> sum_list (map snd hs)" using Cons.prems(6) by (intro sum_list_nonneg) (auto simp: h)
    ultimately have "\<exists>n' st'. spread_delta x sku why hs (r - ?step) (Suc n, st1) = Inr (0, n', st') \<and> ready x n' st'"
      using Cons.prems(3,5,7) q(3) by (intro Cons.IH [OF ready]) (auto simp: h min_def)
    then show ?thesis using False Cons.prems(3) q(3) a by (auto simp: h Let_def min_def)
  qed
qed simp

definition bridged :: "stock_store \<Rightarrow> string \<Rightarrow> bool" where
  "bridged st p \<longleftrightarrow> product_has_location_rows st p \<or> get_stock st p = 0"

lemma holder_bounds:
  assumes "stock_sound st" and "product_has_location_rows st p" and "in_i64 (stock_total st p)" and "(l, q) \<in> set (holders st p)"
  shows "0 \<le> q" "q \<le> stock_total st p" "in_i64 q"
proof -
  have nonneg: "0 \<le> k" if "k \<in> set (map snd (holders st p))" for k
    using that holders_qty(1) [OF sound_rows [OF assms(1)]] assms(1) by (fastforce simp: stock_sound_def)
  show "0 \<le> q" using nonneg [of q] assms(4) by force
  have "q \<le> sum_list (map snd (holders st p))" using nonneg assms(4) by (intro member_le_sum_list) force+
  then show "q \<le> stock_total st p" using assms(2) by (simp add: holders_sum stock_total_def)
  then show "in_i64 q" using \<open>0 \<le> q\<close> assms(3) by (simp add: range_simps)
qed

lemma settle_ready:
  assumes ready: "ready x n st" and p: "stock_product_id_by_sku st sku = Some p" and "bridged st p" and total: "in_i64 (stock_total st p)"
    and goal: "0 \<le> stock_total st p + delta" "in_i64 (stock_total st p + delta)"
  shows "\<exists>n' st'. settle_delta x sku why p delta (n, st) = Inr (n', st') \<and> ready x n' st'"
proof -
  note sound = ready_sound [OF ready] and rows = sound_rows [OF ready_sound [OF ready]]
  have locations: "snd ` fst ` set (summary st) \<subseteq> set (stock_locations st)" "canonical_default_location \<in> set (stock_locations st)"
    using ready by (simp_all add: ready_def)
  consider (same) "delta = 0" | (none) "delta \<noteq> 0" "\<not> product_has_location_rows st p"
    | (shrink) "delta < 0" "product_has_location_rows st p" | (surplus) "0 < delta" "product_has_location_rows st p" by linarith
  then show ?thesis
  proof cases
    case same
    then show ?thesis using ready by (simp add: settle_delta_def)
  next
    case none
    then have zero: "legacy_aware_location_qty st p l = 0" "stock_total st p = 0" for l
      using \<open>bridged st p\<close> by (auto simp: bridged_def legacy_aware_location_qty_def stock_total_def get_stock_def no_rows split: option.split)
    obtain q st' where "adjust_stock_at_location_with_reason (cx_adjust x n) sku delta canonical_default_location (Some why) None None None st = Inr (q, st')"
      and "ready x (Suc n) st'"
      by (rule adjust_ready [OF ready p locations(2)]) (use goal zero in auto)
    moreover have "holders st p = []" using none(2) by (simp add: holders_Nil)
    ultimately show ?thesis using none(1) by (auto simp: settle_delta_def)
  next
    case shrink
    have fits: "\<forall>(l, q) \<in> set (holders st p). location_qty st p l = q \<and> l \<in> set (stock_locations st) \<and> 0 \<le> q \<and> in_i64 q"
      using holders_qty [OF rows] holder_bounds [OF sound shrink(2) total] locations(1) by blast
    have enough: "- delta \<le> sum_list (map snd (holders st p))" using goal(1) shrink(2) by (simp add: holders_sum stock_total_def)
    obtain n' st' where "spread_delta x sku why (holders st p) delta (n, st) = Inr (0, n', st')" "ready x n' st'"
      using spread_shrink [OF ready p less_imp_le [OF shrink(1)] shrink(2) holders_distinct [OF rows] fits enough] by blast
    then show ?thesis using shrink(1) by (auto simp: settle_delta_def)
  next
    case surplus
    obtain l q hs where h: "holders st p = (l, q) # hs" using surplus(2) holders_Nil by (metis list.exhaust surj_pair)
    then have lq: "(l, q) \<in> set (holders st p)" by simp
    have "l \<in> set (stock_locations st)" "legacy_aware_location_qty st p l = q"
      using holders_qty [OF rows lq] locations(1) surplus(2) by (auto simp: legacy_aware_location_qty_def)
    moreover have "0 \<le> q + delta" "in_i64 (q + delta)"
      using holder_bounds [OF sound surplus(2) total lq] surplus(1) goal(2) by (auto simp: range_simps)
    ultimately obtain v st' where a: "adjust_stock_at_location_with_reason (cx_adjust x n) sku delta l (Some why) None None None st = Inr (v, st')"
      and "ready x (Suc n) st'"
      using adjust_ready [OF ready p] by metis
    moreover have "spread_delta x sku why hs 0 (Suc n, st') = Inr (0, Suc n, st')" by (cases hs) auto
    ultimately show ?thesis using surplus(1) by (auto simp: settle_delta_def h Let_def)
  qed
qed

lemma bridge_ready:
  assumes "ready x n st" and "p \<in> fst ` set (products st)"
  obtains st' where "bridge_legacy_inventory_into_stock_summary now p st = Inr st'" "ready x n st'" "bridged st' p"
proof -
  have "0 \<le> get_stock st p" using assms(1) by (simp add: ready_def stock_sound_def agrees_def)
  then have "\<exists>st'. bridge_legacy_inventory_into_stock_summary now p st = Inr st'"
    using assms by (cases "map_of (inventory st) p")
      (auto simp: bridge_legacy_inventory_into_stock_summary_def upsert_stock_summary_in_tx_def ready_def
        negative_refused_def get_stock_def image_iff)
  then obtain st' where b: "bridge_legacy_inventory_into_stock_summary now p st = Inr st'" by blast
  have bridged: "bridged st' p"
    using b by (auto simp: bridge_legacy_inventory_into_stock_summary_def upsert_stock_summary_in_tx_def bridged_def get_stock_def
        product_has_location_rows_def tab_rows split: if_splits option.splits)
  have same: "stock_locations st' = stock_locations st" "movements st' = movements st"
    using bridge_Inr [OF b] by auto
  have "snd ` fst ` set (summary st') \<subseteq> insert canonical_default_location (snd ` fst ` set (summary st))"
    using bridge_Inr [OF b] by (elim disjE conjE) (simp_all add: subset_insertI)
  moreover have "insert canonical_default_location (snd ` fst ` set (summary st)) \<subseteq> set (stock_locations st)"
    using assms(1) by (simp add: ready_def)
  ultimately have "snd ` fst ` set (summary st') \<subseteq> set (stock_locations st)" by (rule subset_trans)
  then have "ready x n st'"
    using bridge_sound [OF b ready_sound [OF assms(1)]] assms(1) same by (simp add: ready_def)
  with b bridged show ?thesis using that by blast
qed

definition stocked :: "stock_store \<Rightarrow> string \<Rightarrow> bool" where
  "stocked st p \<longleftrightarrow> product_has_location_rows st p \<or> map_of (inventory st) p \<noteq> None"

lemma stocked_steps:
  assumes "stock_step\<^sup>*\<^sup>* st st'" and "stocked st p"
  shows "stocked st' p"
proof (rule stock_steps_keep [OF assms(1)])
  fix x sku delta l why txn terminal user s q s'
  assume a: "adjust_stock_at_location_with_reason x sku delta l why txn terminal user s = Inr (q, s')" and "stocked s p"
  then show "stocked s' p"
    using adjust_Inr [OF a] by (auto simp: stocked_def adjusted_def product_has_location_rows_def tab_rows)
next
  fix now p' s s' assume "bridge_legacy_inventory_into_stock_summary now p' s = Inr s'" "stocked s p"
  then show "stocked s' p" using bridge_Inr [of now p' s s'] by (auto simp: stocked_def product_has_location_rows_def tab_rows)
qed (rule assms(2))

text \<open>What a line needs: sound quantities, and for a difference a known product with a stock row.\<close>

definition completable :: "stock_store \<Rightarrow> stock_count_line \<Rightarrow> bool" where
  "completable st l \<longleftrightarrow> validate_line_quantities l = Inr () \<and> in_i64 (counted_or_expected l)
     \<and> (differs l \<longrightarrow> (\<exists>p. stock_product_id_by_sku st (cl_sku l) = Some p \<and> stocked st p))"

lemma completable_nonneg: "completable st l \<Longrightarrow> 0 \<le> counted_or_expected l"
  by (auto simp: completable_def validate_line_quantities_def validate_non_negative_def counted_or_expected_def
      split: sum.splits option.splits if_splits)

definition fresh_adjustments :: "count_args \<Rightarrow> nat \<Rightarrow> counting \<Rightarrow> bool" where
  "fresh_adjustments x k db \<longleftrightarrow> inj (cx_adjustment x) \<and> (\<forall>m. k \<le> m \<longrightarrow> cx_adjustment x m \<notin> sj_id ` set (ct_adjustments db))"

lemma complete_line_ready:
  assumes ready: "ready x n (ct_stock db)" and "\<forall>p. in_i64 (stock_total (ct_stock db) p)" and "completable (ct_stock db) l"
    and "fresh_adjustments x (length as) db" and "sc_id c \<in> sc_id ` set (ct_counts db)"
  shows "\<exists>n' as' db'. complete_line x c who l (n, as, db) = Inr (n', as', db') \<and> ready x n' (ct_stock db')
    \<and> (\<forall>p. in_i64 (stock_total (ct_stock db') p)) \<and> fresh_adjustments x (length as') db' \<and> ct_counts db' = ct_counts db
    \<and> (\<forall>l. completable (ct_stock db) l \<longrightarrow> completable (ct_stock db') l)"
proof (cases "differs l")
  case False
  then show ?thesis using assms by (auto simp: complete_line_def completable_def differs_def)
next
  case True
  let ?st = "ct_stock db"
  note rows = sound_rows [OF ready_sound [OF ready]]
  obtain p where p: "stock_product_id_by_sku ?st (cl_sku l) = Some p" "stocked ?st p" and valid: "validate_line_quantities l = Inr ()"
    and counted: "in_i64 (counted_or_expected l)" "0 \<le> counted_or_expected l"
    using assms(3) True completable_nonneg [OF assms(3)] by (auto simp: completable_def)
  have previous: "previous_qty ?st p = Inr (stock_total ?st p)"
    using p(2) by (auto simp: previous_qty_def stock_total_def stocked_def get_stock_def split: option.splits)
  have "0 \<le> stock_total ?st p"
    using ready_sound [OF ready] rows_total_nonneg [OF rows] by (auto simp: stock_total_def stock_sound_def agrees_def)
  then have delta: "validate_non_negative ''previous_qty'' (stock_total ?st p) = Inr ()"
      "checked_sub (counted_or_expected l) (stock_total ?st p) = Some (counted_or_expected l - stock_total ?st p)"
    using counted assms(2) [rule_format, of p] by (auto simp: validate_non_negative_def range_simps)
  have "p \<in> fst ` set (products ?st)"
    using p(1) by (auto simp: stock_product_id_by_sku_def find_Some_iff) (metis image_eqI nth_mem fst_conv)
  then obtain st1 where b: "bridge_legacy_inventory_into_stock_summary (aa_now (cx_adjust x n)) p ?st = Inr st1"
    and ready1: "ready x n st1" and "bridged st1 p"
    using bridge_ready [OF ready] by metis
  have s1: "shifted p 0 ?st st1" by (rule bridge_shifted [OF b rows])
  then have total1: "stock_total st1 p = stock_total ?st p" and p1: "stock_product_id_by_sku st1 (cl_sku l) = Some p"
    using p(1) by (auto simp: shifted_def)
  have "0 \<le> stock_total st1 p + (counted_or_expected l - stock_total ?st p)"
      "in_i64 (stock_total st1 p + (counted_or_expected l - stock_total ?st p))" "in_i64 (stock_total st1 p)"
    using counted assms(2) by (simp_all add: total1)
  then obtain n' st2 where s: "settle_delta x (cl_sku l) (''stock count '' @ sc_number c) p (counted_or_expected l - stock_total ?st p) (n, st1) = Inr (n', st2)"
    and ready2: "ready x n' st2"
    using settle_ready [OF ready1 p1 \<open>bridged st1 p\<close>] by metis
  have shifted: "shifted p (counted_or_expected l - stock_total ?st p) ?st st2"
    using shifted_trans [OF s1 settle_shifted [OF s shifted_rows [OF s1] p1]] by simp
  then have "\<forall>q. in_i64 (stock_total st2 q)" using assms(2) counted(1) by (auto simp: shifted_def)
  moreover have "completable st2 k" if "completable ?st k" for k
    using that shifted stocked_steps [of ?st st2] by (auto simp: completable_def shifted_def)
  ultimately show ?thesis
    using True valid p(1) previous delta b s ready2 assms(4,5) counted(2) \<open>0 \<le> stock_total ?st p\<close>
    by (auto simp: complete_line_def differs_def Let_def insert_stock_adjustment_def fresh_adjustments_def image_iff dest: injD)
qed

lemma complete_lines_ready:
  assumes "ready x n (ct_stock db)" and "\<forall>p. in_i64 (stock_total (ct_stock db) p)" and "\<forall>l \<in> set ls. completable (ct_stock db) l"
    and "fresh_adjustments x (length as) db" and "sc_id c \<in> sc_id ` set (ct_counts db)"
  shows "\<exists>n' as' db'. each (complete_line x c who) ls (n, as, db) = Inr (n', as', db')
    \<and> ready x n' (ct_stock db')"
  using assms
proof (induction ls arbitrary: n as db)
  case (Cons l ls)
  have "completable (ct_stock db) l" using Cons.prems(3) by simp
  from complete_line_ready [OF Cons.prems(1,2) this Cons.prems(4,5)]
  obtain m as1 db1 where 1: "complete_line x c who l (n, as, db) = Inr (m, as1, db1)" and "ready x m (ct_stock db1)"
    and "\<forall>p. in_i64 (stock_total (ct_stock db1) p)" and "fresh_adjustments x (length as1) db1" "ct_counts db1 = ct_counts db"
    and "\<forall>l. completable (ct_stock db) l \<longrightarrow> completable (ct_stock db1) l"
    by blast
  with Cons.IH [of m db1 as1] Cons.prems(3,5) show ?case by simp
qed simp

text \<open>
  C14. A count can be completed: with sound stock tables, quantities within \<open>i64\<close> and fresh ids of movements and
  adjustments, an editable count whose differing lines name products that have a stock row always
  completes, and the stock tables are sound again: they agree and no location holds less than nothing.\<close>

theorem count_completes:
  assumes "distinct (map sc_id (ct_counts db))" and "get_stock_count db i = Some c" and "is_editable (sc_status c)"
    and "ready x 0 (ct_stock db)" and "\<forall>p. in_i64 (stock_total (ct_stock db) p)" and "fresh_adjustments x 0 db"
    and "\<forall>l \<in> set (get_count_lines db i). completable (ct_stock db) l"
  shows "\<exists>as db'. complete_stock_count x i who db = Inr (as, db') \<and> stock_sound (ct_stock db')"
proof -
  define hit where "hit k \<longleftrightarrow> sc_id k = i \<and> is_editable (sc_status k)" for k :: stock_count
  define db1 where "db1 = db\<lparr>ct_counts := map (\<lambda>k. if hit k then k\<lparr>sc_status := Completed,
      sc_completed_at := Some (cx_now x), sc_updated_at := cx_now x\<rparr> else k) (ct_counts db)\<rparr>"
  have c: "c \<in> set (ct_counts db)" "sc_id c = i" using assms(2) by (auto simp: get_stock_count_def find_Some_iff)
  have one: "filter (\<lambda>k. sc_id k = i \<and> is_editable (sc_status k)) (ct_counts db) = [c]"
    using filter_by_key [OF assms(1) c(1), of "\<lambda>k. is_editable (sc_status k)"] assms(3) c(2) by simp
  have "map sc_id (ct_counts db1) = map sc_id (ct_counts db)" by (simp add: db1_def)
  then have "sc_id c \<in> sc_id ` set (ct_counts db1)" using c(1) by (metis image_eqI set_map)
  moreover have "ready x 0 (ct_stock db1)" "\<forall>p. in_i64 (stock_total (ct_stock db1) p)" "fresh_adjustments x (length ([] :: stock_adjustment list)) db1"
    using assms(4-6) by (simp_all add: db1_def fresh_adjustments_def)
  moreover have "\<forall>l \<in> set (get_count_lines db1 i). completable (ct_stock db1) l"
    using assms(7) by (simp add: db1_def get_count_lines_def)
  ultimately obtain n as db' where "each (complete_line x c who) (get_count_lines db1 i) (0, [], db1) = Inr (n, as, db')"
      and "ready x n (ct_stock db')"
    using complete_lines_ready [of x 0 db1 "get_count_lines db1 i" "[]" c who] by blast
  moreover have "stock_sound (ct_stock db')" by (rule ready_sound) fact
  ultimately show ?thesis using assms(2,3) one by (auto simp: complete_stock_count_def db1_def hit_def Let_def)
qed

subsection \<open>Gaps\<close>

text \<open>
  A product that never had stock has no row of \<open>inventory\<close>, and a surplus counted for it makes the whole completion
  fail: the subquery yields \<open>NULL\<close>, which is not an integer.\<close>

lemma count_of_new_product_fails:
  assumes "stock_product_id_by_sku (ct_stock db) (cl_sku l) = Some p" and "\<not> stocked (ct_stock db) p"
    and "validate_line_quantities l = Inr ()" and "differs l"
  shows "complete_line x c who l (n, as, db) = Inl Db"
  using assms by (simp add: complete_line_def differs_def previous_qty_def stocked_def)

text \<open>A line counted as expected is skipped, also when the stock has moved since.\<close>

lemma confirmed_line_skipped:
  "validate_line_quantities l = Inr () \<Longrightarrow> cl_counted l = Some (cl_expected l) \<Longrightarrow> complete_line x c who l s = Inr s"
  by (cases s) (simp add: complete_line_def counted_or_expected_def)

text \<open>
  The update of a line checks the difference against the expected quantity it is called with, and keeps the stored one:
  a line accepted so makes the completion fail.\<close>

lemma update_breaks_line:
  assumes "update_count_line_check db l = Inr ()" and "get_count_line_by_id db (cl_id l) = Some k"
    and "cl_counted l = Some v" and "cl_expected k \<noteq> cl_expected l" and "0 \<le> cl_expected k" and "in_i64 (v - cl_expected k)"
  shows "\<exists>k'. get_count_line_by_id (update_count_line_commit l db) (cl_id l) = Some k' \<and> validate_line_quantities k' = Inl (Validation ''difference'')"
proof -
  define f where "f k = (if cl_id k = cl_id l
      then k\<lparr>cl_counted := cl_counted l, cl_difference := cl_difference l, cl_notes := cl_notes l\<rparr> else k)" for k :: stock_count_line
  have l: "validate_line_quantities l = Inr ()"
    using assms(1) by (simp add: update_count_line_check_def split: option.splits if_splits)
  then have "cl_difference l = v - cl_expected l" "0 \<le> v"
    using assms(3) by (auto simp: validate_line_quantities_def validate_non_negative_def checked_sub_def split: sum.splits if_splits option.splits)
  have "update_count_line_commit l db = db\<lparr>ct_lines := map f (ct_lines db)\<rparr>"
    by (simp add: update_count_line_commit_def f_def [abs_def])
  then have "get_count_line_by_id (update_count_line_commit l db) (cl_id l) = Some (f k)"
    using assms(2) find_map_key [of cl_id f] by (simp add: get_count_line_by_id_def f_def)
  moreover have "cl_id k = cl_id l" using assms(2) by (auto simp: get_count_line_by_id_def find_Some_iff)
  then have "validate_line_quantities (f k) = Inl (Validation ''difference'')"
    using assms(3-6) \<open>cl_difference l = _\<close> \<open>0 \<le> v\<close>
    by (simp add: f_def validate_line_quantities_def validate_non_negative_def checked_sub_def fit_i64_def)
  ultimately show ?thesis by blast
qed

text \<open>
  The status is read before the transaction of the insert: a line checked while the count was open is added to it
  after it was completed.\<close>

lemma line_joins_completed_count:
  assumes "add_count_line_check db l = Inr ()" and "complete_stock_count x (cl_count l) who db = Inr (as, db')"
    and "cl_id l \<notin> cl_id ` set (ct_lines db')" and "distinct (map fst (summary (ct_stock db)))"
  shows "\<exists>db''. add_count_line_commit l db' = Inr db'' \<and> l \<in> set (get_count_lines db'' (cl_count l))"
proof -
  obtain c where c: "get_stock_count db' (cl_count l) = Some c" using count_closed [OF assms(2,4)] by blast
  have "validate_line_quantities l = Inr ()" using assms(1) by (auto simp: add_count_line_check_def split: option.splits if_splits)
  then have "0 \<le> cl_expected l" "\<forall>v \<in> set_option (cl_counted l). 0 \<le> v"
    by (auto simp: validate_line_quantities_def validate_non_negative_def split: sum.splits if_splits option.splits)
  moreover have "c \<in> set (ct_counts db')" "sc_id c = cl_count l" using c by (auto simp: get_stock_count_def find_Some_iff)
  then have "cl_count l \<in> sc_id ` set (ct_counts db')" by (metis image_eqI)
  ultimately show ?thesis using assms(3) by (auto simp: add_count_line_commit_def get_count_lines_def)
qed

subsection \<open>A count of one product\<close>

definition shelf_count :: stock_count where
  "shelf_count = \<lparr>sc_id = ''c'', sc_number = ''CNT-20260101-002'', sc_status = InProgress, sc_type = Spot, sc_notes = '''',
     sc_counted_by = None, sc_created_at = ''2026'', sc_completed_at = None, sc_updated_at = ''2026''\<rparr>"

definition open_count :: counting where
  "open_count = \<lparr>ct_stock = plain_shop, ct_counts = [shelf_count],
     ct_lines = [\<lparr>cl_id = ''l'', cl_count = ''c'', cl_sku = ''S'', cl_product_name = ''Tea'', cl_expected = 3, cl_counted = Some 1,
       cl_difference = - 2, cl_notes = ''''\<rparr>], ct_adjustments = []\<rparr>"

definition count_demo_args :: count_args where
  "count_demo_args = \<lparr>cx_now = ''2026'', cx_adjust = (\<lambda>n. \<lparr>aa_movement_id = ''m'' @ replicate n CHR ''x'', aa_alert_id = ''a'', aa_now = ''2026''\<rparr>),
     cx_adjustment = (\<lambda>n. replicate n CHR ''x'')\<rparr>"

definition closed_count :: "stock_adjustment list \<times> counting" where
  "closed_count = (case complete_stock_count count_demo_args ''c'' None open_count of Inl _ \<Rightarrow> ([], open_count) | Inr r \<Rightarrow> r)"

lemma closed_count_run:
  "(case complete_stock_count count_demo_args ''c'' None open_count of Inl _ \<Rightarrow> False | Inr _ \<Rightarrow> True)
    \<and> count_result (ct_stock open_count) (get_count_lines open_count ''c'') ''p'' = 1"
  by code_simp

theorem count_sets_stock_witness: "stock_total (ct_stock (snd closed_count)) ''p'' = 1"
proof -
  have "complete_stock_count count_demo_args ''c'' None open_count = Inr (fst closed_count, snd closed_count)"
    using closed_count_run by (auto simp: closed_count_def split: sum.splits)
  moreover have "distinct (map fst (summary (ct_stock open_count)))" by (simp add: open_count_def plain_shop_def corner_shop_def)
  ultimately show ?thesis using count_sets_stock [of count_demo_args "''c''" None open_count] closed_count_run by metis
qed

theorem count_number_free_witness:
  "\<exists>n. n = ''CNT-20260101-003'' \<and> next_count_number ''20260101'' open_count = Ok n"
proof -
  have "max_count_seq (count_prefix ''20260101'') 13 (ct_counts open_count) = 2" by code_simp
  moreover have "count_prefix ''20260101'' @ pad_int 3 (2 + 1) = ''CNT-20260101-003''" by code_simp
  ultimately show ?thesis
    using count_number_free [of "shelf_count\<lparr>sc_id := ''d''\<rparr>" open_count "''20260101''"]
    by (auto simp: open_count_def shelf_count_def)
qed

theorem count_completes_witness:
  "\<exists>as db'. complete_stock_count count_demo_args ''c'' None open_count = Inr (as, db') \<and> stock_sound (ct_stock db')"
proof -
  have "inj (\<lambda>m. aa_movement_id (cx_adjust count_demo_args m))" "inj (cx_adjustment count_demo_args)"
    by (auto simp: count_demo_args_def inj_def dest: arg_cong [where f = length])
  then have "ready count_demo_args 0 (ct_stock open_count)" "fresh_adjustments count_demo_args 0 open_count"
    using plain_shop_sound
    by (auto simp: ready_def fresh_adjustments_def open_count_def plain_shop_def corner_shop_def count_demo_args_def delivery_def)
  moreover have "\<forall>p. in_i64 (stock_total (ct_stock open_count) p)"
    by (auto simp: open_count_def plain_shop_def corner_shop_def stock_total_def product_has_location_rows_def summary_total_def
        get_stock_def range_simps)
  moreover have "list_all (completable (ct_stock open_count)) (get_count_lines open_count ''c'')"
    by (simp add: get_count_lines_def open_count_def completable_def validate_line_quantities_def validate_non_negative_def
        counted_or_expected_def stock_product_id_by_sku_def stocked_def plain_shop_def corner_shop_def range_simps
        product_has_location_rows_def)
  ultimately show ?thesis
    by (intro count_completes [where c = shelf_count])
       (auto simp: open_count_def shelf_count_def get_stock_count_def is_editable_def list_all_iff)
qed

end
