(* ===== verification/Purchase_Orders.thy ===== *)
theory Purchase_Orders
  imports Stock_History
begin

section \<open>Purchase orders\<close>

text \<open>
  Models \<open>crates/kasirmu-core/src/db/purchase_orders.rs\<close> and \<open>purchase_order.rs\<close>: orders to suppliers with their
  lines, their status, and the receipt of the goods into the stock ledger. Changing a status and receiving read the
  order before their transaction, so each is a check on a possibly older state and a commit. Ids and times are
  arguments; the outcome of a receipt tells a panic from an error, either of which leaves the state as it was.
\<close>

subsection \<open>Tables\<close>

record purchase_order =
  pu_id :: string
  pu_number :: string
  pu_supplier :: string
  pu_status :: string
  pu_order_date :: string
  pu_expected_date :: string
  pu_received_date :: "string option"
  pu_subtotal :: int
  pu_tax :: int
  pu_total :: int
  pu_notes :: string
  pu_created_by :: "string option"
  pu_created_at :: string
  pu_updated_at :: string

record purchase_order_line =
  ul_id :: string
  ul_po :: string
  ul_sku :: string
  ul_product_name :: string
  ul_qty :: int
  ul_unit_cost :: int
  ul_total :: int
  ul_received :: int
  ul_damaged :: int

record purchase_order_with_lines =
  pw_order :: purchase_order
  pw_lines :: "purchase_order_line list"
  pw_supplier :: "string option"

record receive_po_line_input =
  vi_line :: string
  vi_received :: int
  vi_damaged :: int

record create_po_line_input =
  ni_sku :: string
  ni_product_name :: string
  ni_qty :: int
  ni_unit_cost :: int

record procurement =
  pr_stock :: stock_store
  pr_suppliers :: "(string \<times> string) list"
  pr_users :: "string list"
  pr_orders :: "purchase_order list"
  pr_lines :: "purchase_order_line list"

record po_args =
  ox_id :: string
  ox_now :: string
  ox_line :: "nat \<Rightarrow> string"
  ox_adjust :: "nat \<Rightarrow> adjust_args"

subsection \<open>Values\<close>

definition po_new :: "string \<Rightarrow> string \<Rightarrow> string \<Rightarrow> string \<Rightarrow> (core_error, purchase_order) outcome" where
  "po_new new_id now number supplier =
     (if trim number = [] then Panic
      else Ok \<lparr>pu_id = new_id, pu_number = trim number, pu_supplier = supplier, pu_status = ''draft'', pu_order_date = now,
        pu_expected_date = [], pu_received_date = None, pu_subtotal = 0, pu_tax = 0, pu_total = 0, pu_notes = [],
        pu_created_by = None, pu_created_at = [], pu_updated_at = []\<rparr>)"

definition po_line_new :: "string \<Rightarrow> string \<Rightarrow> purchase_order_line" where
  "po_line_new new_id po = \<lparr>ul_id = new_id, ul_po = po, ul_sku = [], ul_product_name = [], ul_qty = 0, ul_unit_cost = 0,
     ul_total = 0, ul_received = 0, ul_damaged = 0\<rparr>"

definition short_qty :: "purchase_order_line \<Rightarrow> (core_error, int) outcome" where
  "short_qty l =
     (case checked_sub (ul_qty l) (ul_received l) of
        None \<Rightarrow> Panic
      | Some d \<Rightarrow> (case checked_sub d (ul_damaged l) of None \<Rightarrow> Panic | Some e \<Rightarrow> Ok (max e 0)))"

definition fully_accounted :: "purchase_order_line \<Rightarrow> (core_error, bool) outcome" where
  "fully_accounted l =
     (case checked_add (ul_received l) (ul_damaged l) of None \<Rightarrow> Panic | Some s \<Rightarrow> Ok (s \<ge> ul_qty l))"

subsection \<open>Reading\<close>

definition po_lines :: "procurement \<Rightarrow> string \<Rightarrow> purchase_order_line list" where
  "po_lines db i = sort_key ul_id (filter (\<lambda>l. ul_po l = i) (pr_lines db))"

definition with_lines :: "procurement \<Rightarrow> purchase_order \<Rightarrow> purchase_order_with_lines" where
  "with_lines db o1 = \<lparr>pw_order = o1, pw_lines = po_lines db (pu_id o1), pw_supplier = map_of (pr_suppliers db) (pu_supplier o1)\<rparr>"

definition list_purchase_orders :: "procurement \<Rightarrow> purchase_order_with_lines list" where
  "list_purchase_orders db = map (with_lines db) (rev (sort_key pu_created_at (pr_orders db)))"

definition get_purchase_order :: "procurement \<Rightarrow> string \<Rightarrow> purchase_order_with_lines option" where
  "get_purchase_order db i = map_option (with_lines db) (List.find (\<lambda>o1. pu_id o1 = i) (pr_orders db))"

subsection \<open>Creating\<close>

fun po_subtotal :: "create_po_line_input list \<Rightarrow> int \<Rightarrow> core_error + int" where
  "po_subtotal [] acc = Inr acc"
| "po_subtotal (l # ls) acc =
     (if ni_qty l < 0 then Inl (Validation ''qty'')
      else if ni_unit_cost l < 0 then Inl (Validation ''unit_cost_minor'')
      else (case checked_mul (ni_qty l) (ni_unit_cost l) of
          None \<Rightarrow> Inl (Validation ''line_total'')
        | Some t \<Rightarrow> (case checked_add acc t of None \<Rightarrow> Inl (Validation ''subtotal'') | Some acc' \<Rightarrow> po_subtotal ls acc')))"

definition insert_purchase_order :: "purchase_order \<Rightarrow> procurement \<Rightarrow> core_error + procurement" where
  "insert_purchase_order o1 db =
     (if pu_id o1 \<in> pu_id ` set (pr_orders db) \<or> pu_number o1 \<in> pu_number ` set (pr_orders db)
         \<or> pu_supplier o1 \<notin> fst ` set (pr_suppliers db) \<or> (\<exists>u \<in> set_option (pu_created_by o1). u \<notin> set (pr_users db))
      then Inl Db else Inr (db\<lparr>pr_orders := pr_orders db @ [o1]\<rparr>))"

definition insert_po_line :: "purchase_order_line \<Rightarrow> procurement \<Rightarrow> core_error + procurement" where
  "insert_po_line l db =
     (if ul_id l \<in> ul_id ` set (pr_lines db) \<or> ul_po l \<notin> pu_id ` set (pr_orders db)
      then Inl Db else Inr (db\<lparr>pr_lines := pr_lines db @ [l]\<rparr>))"

definition create_po_line ::
    "po_args \<Rightarrow> create_po_line_input \<Rightarrow> purchase_order_line list \<times> procurement \<Rightarrow> core_error + purchase_order_line list \<times> procurement" where
  "create_po_line x i = (\<lambda>(created, db).
     case checked_mul (ni_qty i) (ni_unit_cost i) of
       None \<Rightarrow> Inl (Validation ''line_total'')
     | Some t \<Rightarrow>
         (let l = \<lparr>ul_id = ox_line x (length created), ul_po = ox_id x, ul_sku = ni_sku i, ul_product_name = ni_product_name i,
              ul_qty = ni_qty i, ul_unit_cost = ni_unit_cost i, ul_total = t, ul_received = 0, ul_damaged = 0\<rparr>
          in case insert_po_line l db of Inl e \<Rightarrow> Inl e | Inr db' \<Rightarrow> Inr (created @ [l], db')))"

definition create_purchase_order ::
    "po_args \<Rightarrow> string \<Rightarrow> string \<Rightarrow> string \<Rightarrow> string \<Rightarrow> string option \<Rightarrow> create_po_line_input list \<Rightarrow> procurement
       \<Rightarrow> core_error + purchase_order_with_lines \<times> procurement" where
  "create_purchase_order x number supplier expected_date remarks created_by ls db =
     (if trim number = [] then Inl (Validation ''po_number'')
      else (case po_subtotal ls 0 of
          Inl e \<Rightarrow> Inl e
        | Inr amount \<Rightarrow>
            (let o1 = \<lparr>pu_id = ox_id x, pu_number = trim number, pu_supplier = supplier, pu_status = ''draft'',
                 pu_order_date = ox_now x, pu_expected_date = expected_date, pu_received_date = None, pu_subtotal = amount,
                 pu_tax = 0, pu_total = amount, pu_notes = remarks, pu_created_by = created_by, pu_created_at = ox_now x,
                 pu_updated_at = ox_now x\<rparr>
             in case insert_purchase_order o1 db of
                  Inl e \<Rightarrow> Inl e
                | Inr db1 \<Rightarrow>
                    (case each (create_po_line x) ls ([], db1) of
                       Inl e \<Rightarrow> Inl e
                     | Inr (created, db2) \<Rightarrow> Inr (\<lparr>pw_order = o1, pw_lines = created, pw_supplier = None\<rparr>, db2)))))"

subsection \<open>Changing the status\<close>

definition po_statuses :: "string list" where
  "po_statuses = [''draft'', ''pending'', ''approved'', ''received'', ''cancelled'']"

definition update_po_status_check :: "procurement \<Rightarrow> string \<Rightarrow> string \<Rightarrow> core_error + string" where
  "update_po_status_check db i new_status =
     (if new_status \<notin> set po_statuses then Inl (Validation ''status'')
      else (case List.find (\<lambda>o1. pu_id o1 = i) (pr_orders db) of
          None \<Rightarrow> Inl (NotFound ''purchase_order'' i) | Some o1 \<Rightarrow> Inr (pu_status o1)))"

definition update_po_status_commit ::
    "po_args \<Rightarrow> string \<Rightarrow> string \<Rightarrow> string \<Rightarrow> procurement \<Rightarrow> core_error + purchase_order_with_lines \<times> procurement" where
  "update_po_status_commit x i new_status current db =
     (let hit = (\<lambda>o1. pu_id o1 = i \<and> pu_status o1 = current)
      in if \<not> list_ex hit (pr_orders db) then Inl (Conflict ''purchase_order'' ''status'')
         else (let db' = db\<lparr>pr_orders := map (\<lambda>o1. if hit o1 then o1\<lparr>pu_status := new_status, pu_updated_at := ox_now x\<rparr> else o1) (pr_orders db)\<rparr>
           in case get_purchase_order db' i of None \<Rightarrow> Inl (NotFound ''purchase_order'' i) | Some r \<Rightarrow> Inr (r, db')))"

subsection \<open>Receiving\<close>

definition receive_check :: "procurement \<Rightarrow> string \<Rightarrow> core_error + purchase_order_with_lines" where
  "receive_check db i =
     (case get_purchase_order db i of
        None \<Rightarrow> Inl (NotFound ''purchase_order'' i)
      | Some po \<Rightarrow> if pu_status (pw_order po) \<noteq> ''approved'' then Inl (Validation ''status'') else Inr po)"

definition mark_received :: "po_args \<Rightarrow> string \<Rightarrow> procurement \<Rightarrow> procurement" where
  "mark_received x i db = db\<lparr>pr_orders := map (\<lambda>o1. if pu_id o1 = i
     then o1\<lparr>pu_status := ''received'', pu_received_date := Some (ox_now x), pu_updated_at := ox_now x\<rparr> else o1) (pr_orders db)\<rparr>"

text \<open>The n-th movement of a receipt, at the default location.\<close>

definition receive_units :: "po_args \<Rightarrow> string \<Rightarrow> int \<Rightarrow> nat \<times> procurement \<Rightarrow> core_error + nat \<times> procurement" where
  "receive_units x sku q = (\<lambda>(n, db).
     case adjust_stock_at_location_with_reason (ox_adjust x n) sku q canonical_default_location (Some ''purchase_order_receive'')
         None None None (pr_stock db) of
       Inl e \<Rightarrow> Inl e | Inr (_, st) \<Rightarrow> Inr (Suc n, db\<lparr>pr_stock := st\<rparr>))"

definition receive_purchase_order_commit ::
    "po_args \<Rightarrow> string \<Rightarrow> purchase_order_with_lines \<Rightarrow> procurement \<Rightarrow> core_error + purchase_order_with_lines \<times> procurement" where
  "receive_purchase_order_commit x i po db =
     (case each (\<lambda>l s. if ul_sku l = [] then Inr s else receive_units x (ul_sku l) (ul_qty l) s) (pw_lines po) (0, mark_received x i db) of
        Inl e \<Rightarrow> Inl e
      | Inr (_, db') \<Rightarrow> Inr (po\<lparr>pw_order := (pw_order po)\<lparr>pu_status := ''received'', pu_received_date := Some (ox_now x),
            pu_updated_at := ox_now x\<rparr>\<rparr>, db'))"

definition input_of :: "receive_po_line_input list \<Rightarrow> string \<Rightarrow> receive_po_line_input option" where
  "input_of is k = List.find (\<lambda>i. vi_line i = k) (rev is)"

definition set_po_line_received :: "string \<Rightarrow> int \<Rightarrow> int \<Rightarrow> procurement \<Rightarrow> procurement" where
  "set_po_line_received k received damaged db = db\<lparr>pr_lines := map (\<lambda>l. if ul_id l = k
     then l\<lparr>ul_received := received, ul_damaged := damaged\<rparr> else l) (pr_lines db)\<rparr>"

definition good_qty :: "receive_po_line_input list \<Rightarrow> purchase_order_line \<Rightarrow> int" where
  "good_qty is l = (case input_of is (ul_id l) of None \<Rightarrow> 0 | Some i \<Rightarrow> vi_received i)"

definition damaged_qty :: "receive_po_line_input list \<Rightarrow> purchase_order_line \<Rightarrow> int" where
  "damaged_qty is l = (case input_of is (ul_id l) of None \<Rightarrow> 0 | Some i \<Rightarrow> vi_damaged i)"

definition receive_po_line ::
    "po_args \<Rightarrow> receive_po_line_input list \<Rightarrow> purchase_order_line \<Rightarrow> nat \<times> procurement \<Rightarrow> (core_error, nat \<times> procurement) outcome" where
  "receive_po_line x is l = (\<lambda>(n, db).
     if good_qty is l < 0 \<or> damaged_qty is l < 0 then Err (Validation ''qty'')
     else (case checked_add (good_qty is l) (damaged_qty is l) of
         None \<Rightarrow> Panic
       | Some s \<Rightarrow>
           if s > ul_qty l then Err (Validation ''qty'')
           else (let db1 = set_po_line_received (ul_id l) (good_qty is l) (damaged_qty is l) db
             in if good_qty is l > 0 \<and> ul_sku l \<noteq> [] then of_sum (receive_units x (ul_sku l) (good_qty is l) (n, db1)) else Ok (n, db1))))"

fun receive_po_lines ::
    "po_args \<Rightarrow> receive_po_line_input list \<Rightarrow> purchase_order_line list \<Rightarrow> nat \<times> procurement \<Rightarrow> (core_error, nat \<times> procurement) outcome" where
  "receive_po_lines x is [] s = Ok s"
| "receive_po_lines x is (l # ls) s = obind (receive_po_line x is l s) (receive_po_lines x is ls)"

definition receive_purchase_order_with_lines_commit ::
    "po_args \<Rightarrow> string \<Rightarrow> receive_po_line_input list \<Rightarrow> purchase_order_with_lines \<Rightarrow> procurement
       \<Rightarrow> (core_error, purchase_order_with_lines \<times> procurement) outcome" where
  "receive_purchase_order_with_lines_commit x i is po db =
     obind (receive_po_lines x is (pw_lines po) (0, mark_received x i db)) (\<lambda>(_, db').
       case get_purchase_order db' i of None \<Rightarrow> Err (NotFound ''purchase_order'' i) | Some r \<Rightarrow> Ok (r, db'))"

subsection \<open>What a receipt brings\<close>

definition same_orders :: "procurement \<Rightarrow> procurement \<Rightarrow> bool" where
  "same_orders a b \<longleftrightarrow> pr_orders b = pr_orders a \<and> pr_suppliers b = pr_suppliers a \<and> pr_users b = pr_users a"

text \<open>A run of movements of several products.\<close>

definition brought :: "(string \<Rightarrow> int) \<Rightarrow> stock_store \<Rightarrow> stock_store \<Rightarrow> bool" where
  "brought g a b \<longleftrightarrow> stock_step\<^sup>*\<^sup>* a b \<and> distinct (map fst (summary b)) \<and> stock_product_id_by_sku b = stock_product_id_by_sku a
     \<and> (\<forall>p. stock_total b p = stock_total a p + g p \<and> ledger_total b p = ledger_total a p + g p)"

lemma brought_refl: "distinct (map fst (summary a)) \<Longrightarrow> brought (\<lambda>_. 0) a a"
  by (simp add: brought_def)

lemma brought_trans: "brought g a b \<Longrightarrow> brought h b c \<Longrightarrow> brought (\<lambda>p. g p + h p) a c"
  by (auto simp: brought_def)

lemma brought_rows: "brought g a b \<Longrightarrow> distinct (map fst (summary b))"
  by (simp add: brought_def)

lemma shifted_brought: "shifted p q a b \<Longrightarrow> brought (\<lambda>p'. if p' = p then q else 0) a b"
  by (simp add: brought_def shifted_def)

definition units_of :: "stock_store \<Rightarrow> purchase_order_line \<Rightarrow> int \<Rightarrow> string \<Rightarrow> int" where
  "units_of st l q p = (if ul_sku l \<noteq> [] \<and> stock_product_id_by_sku st (ul_sku l) = Some p then q else 0)"

lemma units_of_brought: "brought g a b \<Longrightarrow> units_of b = units_of a"
  by (simp add: fun_eq_iff units_of_def brought_def)

lemma receive_units_Inr:
  assumes "receive_units x (ul_sku l) q (n, db) = Inr (n', db')" and "distinct (map fst (summary (pr_stock db)))" and "ul_sku l \<noteq> []"
  shows "\<exists>st. db' = db\<lparr>pr_stock := st\<rparr> \<and> brought (units_of (pr_stock db) l q) (pr_stock db) st"
proof -
  obtain v st where a: "adjust_stock_at_location_with_reason (ox_adjust x n) (ul_sku l) q canonical_default_location
      (Some ''purchase_order_receive'') None None None (pr_stock db) = Inr (v, st)" and db': "db' = db\<lparr>pr_stock := st\<rparr>"
    using assms(1) by (auto simp: receive_units_def split: sum.splits)
  obtain p where p: "stock_product_id_by_sku (pr_stock db) (ul_sku l) = Some p" using adjust_Inr [OF a] by blast
  have "units_of (pr_stock db) l q = (\<lambda>p'. if p' = p then q else 0)" using p assms(3) by (auto simp: units_of_def)
  then show ?thesis using shifted_brought [OF adjust_shifted [OF a assms(2) p]] db' by auto
qed

definition filled :: "receive_po_line_input list \<Rightarrow> purchase_order_line \<Rightarrow> purchase_order_line" where
  "filled is l = l\<lparr>ul_received := good_qty is l, ul_damaged := damaged_qty is l\<rparr>"

definition accounted_for :: "receive_po_line_input list \<Rightarrow> purchase_order_line \<Rightarrow> bool" where
  "accounted_for is l \<longleftrightarrow> 0 \<le> good_qty is l \<and> 0 \<le> damaged_qty is l \<and> good_qty is l + damaged_qty is l \<le> ul_qty l"

lemma receive_po_line_Ok:
  assumes "receive_po_line x is l (n, db) = Ok (n', db')" and "distinct (map fst (summary (pr_stock db)))"
  shows "accounted_for is l \<and> same_orders db db'
    \<and> pr_lines db' = map (\<lambda>k. if ul_id k = ul_id l then k\<lparr>ul_received := good_qty is l, ul_damaged := damaged_qty is l\<rparr> else k) (pr_lines db)
    \<and> brought (units_of (pr_stock db) l (good_qty is l)) (pr_stock db) (pr_stock db')"
proof -
  let ?db1 = "set_po_line_received (ul_id l) (good_qty is l) (damaged_qty is l) db"
  have ok: "accounted_for is l"
    using assms(1) by (auto simp: receive_po_line_def accounted_for_def checked_add_def fit_i64_def Let_def split: if_splits)
  consider "good_qty is l > 0" "ul_sku l \<noteq> []" "receive_units x (ul_sku l) (good_qty is l) (n, ?db1) = Inr (n', db')"
    | "\<not> (good_qty is l > 0 \<and> ul_sku l \<noteq> [])" "db' = ?db1"
    using assms(1) by (cases "receive_units x (ul_sku l) (good_qty is l) (n, ?db1)")
      (auto simp: receive_po_line_def Let_def split: if_splits option.splits)
  then show ?thesis
  proof cases
    case 1
    have "distinct (map fst (summary (pr_stock ?db1)))" using assms(2) by (simp add: set_po_line_received_def)
    from receive_units_Inr [OF 1(3) this 1(2)] ok show ?thesis
      by (auto simp: set_po_line_received_def same_orders_def)
  next
    case 2
    then have "units_of (pr_stock db) l (good_qty is l) = (\<lambda>_. 0)" using ok by (auto simp: units_of_def accounted_for_def)
    then show ?thesis using ok 2(2) brought_refl [OF assms(2)] by (simp add: set_po_line_received_def same_orders_def)
  qed
qed

text \<open>After all lines: each line of the read order carries its quantities, the others are as before.\<close>

lemma receive_po_lines_Ok:
  assumes "receive_po_lines x is ls (n, db) = Ok (n', db')" and "distinct (map fst (summary (pr_stock db)))"
  shows "(\<forall>l \<in> set ls. accounted_for is l) \<and> same_orders db db'
    \<and> pr_lines db' = map (\<lambda>k. if ul_id k \<in> ul_id ` set ls then filled is k else k) (pr_lines db)
    \<and> brought (\<lambda>p. sum_list (map (\<lambda>l. units_of (pr_stock db) l (good_qty is l) p) ls)) (pr_stock db) (pr_stock db')"
  using assms
proof (induction ls arbitrary: n db)
  case Nil
  then show ?case by (simp add: same_orders_def brought_refl map_idI)
next
  case (Cons l ls)
  obtain m db1 where 1: "receive_po_line x is l (n, db) = Ok (m, db1)" and 2: "receive_po_lines x is ls (m, db1) = Ok (n', db')"
    using Cons.prems(1) by auto
  note a = receive_po_line_Ok [OF 1 Cons.prems(2)]
  then have "distinct (map fst (summary (pr_stock db1)))" using brought_rows by blast
  note b = Cons.IH [OF 2 this]
  have "pr_lines db' = map (\<lambda>k. if ul_id k \<in> ul_id ` set (l # ls) then filled is k else k) (pr_lines db)"
  proof -
    have "pr_lines db' = map (\<lambda>k. if ul_id k \<in> ul_id ` set ls then filled is k else k)
        (map (\<lambda>k. if ul_id k = ul_id l then k\<lparr>ul_received := good_qty is l, ul_damaged := damaged_qty is l\<rparr> else k) (pr_lines db))"
      using a b by presburger
    also have "\<dots> = map (\<lambda>k. if ul_id k \<in> ul_id ` set (l # ls) then filled is k else k) (pr_lines db)"
      by (auto simp: filled_def good_qty_def damaged_qty_def)
    finally show ?thesis .
  qed
  moreover have "brought (\<lambda>p. sum_list (map (\<lambda>l. units_of (pr_stock db) l (good_qty is l) p) (l # ls))) (pr_stock db) (pr_stock db')"
    using brought_trans [of _ "pr_stock db" "pr_stock db1"] a b units_of_brought [of _ "pr_stock db" "pr_stock db1"] by fastforce
  ultimately show ?case using a b by (auto simp: same_orders_def)
qed

lemma receive_with_lines_Ok:
  assumes "receive_purchase_order_with_lines_commit x i is po db = Ok (r, db')" and "distinct (map fst (summary (pr_stock db)))"
  shows "(\<forall>l \<in> set (pw_lines po). accounted_for is l)" "pr_orders db' = pr_orders (mark_received x i db)"
    "pr_lines db' = map (\<lambda>k. if ul_id k \<in> ul_id ` set (pw_lines po) then filled is k else k) (pr_lines db)"
    "brought (\<lambda>p. sum_list (map (\<lambda>l. units_of (pr_stock db) l (good_qty is l) p) (pw_lines po))) (pr_stock db) (pr_stock db')"
    "get_purchase_order db' i = Some r"
proof -
  obtain n where run: "receive_po_lines x is (pw_lines po) (0, mark_received x i db) = Ok (n, db')"
    and r: "get_purchase_order db' i = Some r"
    using assms(1) by (auto simp: receive_purchase_order_with_lines_commit_def split: option.splits)
  have "distinct (map fst (summary (pr_stock (mark_received x i db))))" using assms(2) by (simp add: mark_received_def)
  note f = receive_po_lines_Ok [OF run this]
  show "(\<forall>l \<in> set (pw_lines po). accounted_for is l)" using f by blast
  show "pr_orders db' = pr_orders (mark_received x i db)" using f by (simp add: same_orders_def)
  show "pr_lines db' = map (\<lambda>k. if ul_id k \<in> ul_id ` set (pw_lines po) then filled is k else k) (pr_lines db)"
    using f by (simp add: mark_received_def)
  show "brought (\<lambda>p. sum_list (map (\<lambda>l. units_of (pr_stock db) l (good_qty is l) p) (pw_lines po))) (pr_stock db) (pr_stock db')"
    using f by (simp add: mark_received_def)
  show "get_purchase_order db' i = Some r" by (rule r)
qed

lemma sort_key_map: "(\<And>k. key (f k) = key k) \<Longrightarrow> sort_key key (map f ks) = map f (sort_key key ks)"
proof (induction ks)
  case (Cons k ks)
  have "insort_key key (f k) (map f js) = map f (insort_key key k js)" for js
    using Cons.prems by (induction js) auto
  then show ?case using Cons by simp
qed simp

lemma po_lines_map:
  assumes "\<And>k. ul_id (f k) = ul_id k" and "\<And>k. ul_po (f k) = ul_po k" and "pr_lines db' = map f (pr_lines db)"
  shows "po_lines db' i = map f (po_lines db i)"
proof -
  have "filter (\<lambda>l. ul_po l = i) (map f ls) = map f (filter (\<lambda>l. ul_po l = i) ls)" for ls
    using assms(2) by (induction ls) auto
  then show ?thesis using sort_key_map [of ul_id f] assms(1,3) by (simp add: po_lines_def)
qed

lemma po_lines_set: "set (po_lines db i) = {l \<in> set (pr_lines db). ul_po l = i}"
  by (auto simp: po_lines_def)

lemma receive_check_po:
  "receive_check db i = Inr po \<Longrightarrow> pw_lines po = po_lines db i \<and> pu_id (pw_order po) = i \<and> pw_order po \<in> set (pr_orders db)
     \<and> pu_status (pw_order po) = ''approved''"
  by (auto simp: receive_check_def get_purchase_order_def with_lines_def find_Some_iff split: option.splits if_splits)

text \<open>
  C11. Receiving an approved order brings exactly its good units into stock: the stock and the ledger of every product
  rise by the good units entered for the lines of its SKU, damaged and missing units stay out; every line of the
  order carries what was entered, never more than was ordered; the order is marked received at the time of
  the receipt, and the other orders and their lines are as before.\<close>

theorem purchase_receipt_exact:
  assumes "receive_check db i = Inr po" and "receive_purchase_order_with_lines_commit x i is po db = Ok (r, db')"
    and "distinct (map fst (summary (pr_stock db)))" and "distinct (map ul_id (pr_lines db))"
  shows "(\<forall>p. stock_total (pr_stock db') p
        = stock_total (pr_stock db) p + sum_list (map (\<lambda>l. units_of (pr_stock db) l (good_qty is l) p) (po_lines db i))
      \<and> ledger_total (pr_stock db') p - ledger_total (pr_stock db) p = stock_total (pr_stock db') p - stock_total (pr_stock db) p)
    \<and> po_lines db' i = map (filled is) (po_lines db i)
    \<and> (\<forall>l \<in> set (po_lines db' i). 0 \<le> ul_received l \<and> 0 \<le> ul_damaged l \<and> ul_received l + ul_damaged l \<le> ul_qty l)
    \<and> (\<forall>j. j \<noteq> i \<longrightarrow> po_lines db' j = po_lines db j)
    \<and> pr_orders db' = map (\<lambda>k. if pu_id k = i
         then k\<lparr>pu_status := ''received'', pu_received_date := Some (ox_now x), pu_updated_at := ox_now x\<rparr> else k) (pr_orders db)
    \<and> pu_status (pw_order r) = ''received'' \<and> pw_lines r = po_lines db' i"
proof -
  note f = receive_with_lines_Ok [OF assms(2,3)] and po = receive_check_po [OF assms(1)]
  let ?f = "\<lambda>k. if ul_id k \<in> ul_id ` set (pw_lines po) then filled is k else k"
  have here: "po_lines db' j = map ?f (po_lines db j)" for j
    using f(3) by (intro po_lines_map [of ?f]) (auto simp: filled_def)
  have same: "ul_id k \<in> ul_id ` set (pw_lines po) \<longleftrightarrow> ul_po k = i" if "k \<in> set (pr_lines db)" for k
    using po that assms(4) by (auto simp: po_lines_set distinct_map inj_on_def)
  have "po_lines db' i = map (filled is) (po_lines db i)"
    unfolding here by (intro map_cong) (auto simp: po_lines_set same)
  moreover have "po_lines db' j = po_lines db j" if "j \<noteq> i" for j
    unfolding here using that by (intro map_idI) (auto simp: po_lines_set same)
  moreover have "0 \<le> ul_received l \<and> 0 \<le> ul_damaged l \<and> ul_received l + ul_damaged l \<le> ul_qty l" if "l \<in> set (map (filled is) (po_lines db i))" for l
    using that f(1) po by (auto simp: filled_def accounted_for_def)
  moreover have "pu_status (pw_order r) = ''received'' \<and> pw_lines r = po_lines db' i"
    using f(5) by (auto simp: get_purchase_order_def f(2) mark_received_def with_lines_def find_Some_iff)
  moreover have "stock_total (pr_stock db') p
        = stock_total (pr_stock db) p + sum_list (map (\<lambda>l. units_of (pr_stock db) l (good_qty is l) p) (po_lines db i))
      \<and> ledger_total (pr_stock db') p - ledger_total (pr_stock db) p = stock_total (pr_stock db') p - stock_total (pr_stock db) p" for p
    using f(4) po by (simp add: brought_def)
  moreover have "pr_orders db' = map (\<lambda>k. if pu_id k = i
      then k\<lparr>pu_status := ''received'', pu_received_date := Some (ox_now x), pu_updated_at := ox_now x\<rparr> else k) (pr_orders db)"
    by (simp add: f(2) mark_received_def)
  ultimately show ?thesis by simp
qed

subsection \<open>The books over histories\<close>

definition line_books :: "procurement \<Rightarrow> purchase_order_line \<Rightarrow> bool" where
  "line_books db l \<longleftrightarrow> ul_po l \<in> pu_id ` set (pr_orders db) \<and> 0 \<le> ul_qty l \<and> 0 \<le> ul_unit_cost l \<and> ul_total l = ul_qty l * ul_unit_cost l
     \<and> 0 \<le> ul_received l \<and> 0 \<le> ul_damaged l \<and> ul_received l + ul_damaged l \<le> ul_qty l"

definition lines_total :: "procurement \<Rightarrow> string \<Rightarrow> int" where
  "lines_total db i = sum_list (map ul_total (filter (\<lambda>l. ul_po l = i) (pr_lines db)))"

definition books_ok :: "procurement \<Rightarrow> bool" where
  "books_ok db \<longleftrightarrow> distinct (map pu_id (pr_orders db)) \<and> distinct (map ul_id (pr_lines db)) \<and> (\<forall>l \<in> set (pr_lines db). line_books db l)
     \<and> (\<forall>k \<in> set (pr_orders db). pu_subtotal k = lines_total db (pu_id k) \<and> pu_total k = pu_subtotal k + pu_tax k)"

lemma po_subtotal_Inr:
  "po_subtotal ls acc = Inr s \<Longrightarrow> s = acc + sum_list (map (\<lambda>i. ni_qty i * ni_unit_cost i) ls) \<and> (\<forall>i \<in> set ls. 0 \<le> ni_qty i \<and> 0 \<le> ni_unit_cost i)"
  by (induction ls acc rule: po_subtotal.induct) (auto simp: checked_mul_def checked_add_def split: if_splits option.splits)

lemma create_po_line_Inr:
  assumes "create_po_line x i (created, db) = Inr (created', db')" and "0 \<le> ni_qty i" and "0 \<le> ni_unit_cost i"
  shows "\<exists>l. created' = created @ [l] \<and> db' = db\<lparr>pr_lines := pr_lines db @ [l]\<rparr> \<and> ul_id l \<notin> ul_id ` set (pr_lines db)
    \<and> ul_po l = ox_id x \<and> ul_total l = ni_qty i * ni_unit_cost i \<and> line_books db l"
  using assms
  by (auto simp: create_po_line_def insert_po_line_def Let_def checked_mul_def line_books_def split: option.splits if_splits sum.splits)

lemma create_po_lines_Inr:
  assumes "each (create_po_line x) ls (created, db) = Inr (created', db')" and "distinct (map ul_id (pr_lines db))"
    and "\<forall>i \<in> set ls. 0 \<le> ni_qty i \<and> 0 \<le> ni_unit_cost i"
  shows "\<exists>new. pr_lines db' = pr_lines db @ new \<and> pr_orders db' = pr_orders db \<and> distinct (map ul_id (pr_lines db'))
    \<and> (\<forall>l \<in> set new. ul_po l = ox_id x \<and> line_books db l) \<and> map ul_total new = map (\<lambda>i. ni_qty i * ni_unit_cost i) ls"
  using assms
proof (induction ls arbitrary: created db)
  case (Cons i ls)
  obtain c1 db1 where step: "create_po_line x i (created, db) = Inr (c1, db1)" and rest: "each (create_po_line x) ls (c1, db1) = Inr (created', db')"
    using Cons.prems(1) by (auto split: sum.splits)
  obtain l where l: "ul_id l \<notin> ul_id ` set (pr_lines db)" "ul_po l = ox_id x" "line_books db l" "ul_total l = ni_qty i * ni_unit_cost i"
    and db1: "db1 = db\<lparr>pr_lines := pr_lines db @ [l]\<rparr>"
    using create_po_line_Inr [OF step] Cons.prems(3) by auto
  have "distinct (map ul_id (pr_lines db1))" using Cons.prems(2) l(1) by (simp add: db1)
  from Cons.IH [OF rest this] Cons.prems(3) obtain new where new: "pr_lines db' = pr_lines db @ l # new" "pr_orders db' = pr_orders db"
      "distinct (map ul_id (pr_lines db'))" "\<forall>l \<in> set new. ul_po l = ox_id x \<and> line_books db1 l"
      "map ul_total new = map (\<lambda>i. ni_qty i * ni_unit_cost i) ls"
    by (auto simp: db1)
  moreover have "line_books db1 = line_books db" by (simp add: fun_eq_iff line_books_def db1)
  ultimately show ?case using l by (intro exI [of _ "l # new"]) simp
qed simp

definition same_deal :: "purchase_order_line \<Rightarrow> purchase_order_line" where
  "same_deal l = l\<lparr>ul_received := 0, ul_damaged := 0\<rparr>"

definition extends :: "procurement \<Rightarrow> procurement \<Rightarrow> bool" where
  "extends old db \<longleftrightarrow> same_deal ` set (pr_lines old) \<subseteq> same_deal ` set (pr_lines db)"

lemma extends_refl: "extends db db" and extends_trans: "extends a b \<Longrightarrow> extends b c \<Longrightarrow> extends a c"
  by (auto simp: extends_def)

lemma create_books:
  assumes "create_purchase_order x number supplier expected remarks who ls db = Inr (r, db')" and "books_ok db"
  shows "books_ok db' \<and> extends db db'"
proof -
  obtain amount where sub: "po_subtotal ls 0 = Inr amount" using assms(1) by (auto simp: create_purchase_order_def split: if_splits sum.splits)
  define o1 where "o1 = \<lparr>pu_id = ox_id x, pu_number = trim number, pu_supplier = supplier, pu_status = ''draft'',
    pu_order_date = ox_now x, pu_expected_date = expected, pu_received_date = None, pu_subtotal = amount,
    pu_tax = 0, pu_total = amount, pu_notes = remarks, pu_created_by = who, pu_created_at = ox_now x, pu_updated_at = ox_now x\<rparr>"
  obtain db1 created where ins: "insert_purchase_order o1 db = Inr db1" and lines: "each (create_po_line x) ls ([], db1) = Inr (created, db')"
    using assms(1) by (auto simp: create_purchase_order_def Let_def sub o1_def split: if_splits sum.splits prod.splits)
  have o1: "pu_id o1 = ox_id x" "pu_subtotal o1 = amount" "pu_tax o1 = 0" "pu_total o1 = amount" by (simp_all add: o1_def)
  have db1: "db1 = db\<lparr>pr_orders := pr_orders db @ [o1]\<rparr>" and fresh: "ox_id x \<notin> pu_id ` set (pr_orders db)"
    using ins o1(1) by (auto simp: insert_purchase_order_def split: if_splits)
  have "distinct (map ul_id (pr_lines db1))" using assms(2) by (simp add: db1 books_ok_def)
  from create_po_lines_Inr [OF lines this] po_subtotal_Inr [OF sub]
  obtain new where new: "pr_lines db' = pr_lines db @ new" "pr_orders db' = pr_orders db @ [o1]" "distinct (map ul_id (pr_lines db'))"
      "\<forall>l \<in> set new. ul_po l = ox_id x \<and> line_books db1 l" "map ul_total new = map (\<lambda>i. ni_qty i * ni_unit_cost i) ls"
    by (auto simp: db1)
  have elsewhere: "ul_po l \<noteq> ox_id x" if "l \<in> set (pr_lines db)" for l
    using that fresh assms(2) unfolding books_ok_def line_books_def by metis
  have "lines_total db' (pu_id k) = lines_total db (pu_id k)" if "k \<in> set (pr_orders db)" for k
  proof -
    have "pu_id k \<noteq> ox_id x" using that fresh by (metis image_eqI)
    then have "filter (\<lambda>l. ul_po l = pu_id k) new = []" using new(4) by (auto simp: filter_empty_conv)
    then show ?thesis by (simp add: lines_total_def new(1))
  qed
  moreover have "filter (\<lambda>l. ul_po l = ox_id x) (pr_lines db') = new"
    using elsewhere new(4) by (auto simp: new(1) filter_empty_conv filter_id_conv)
  then have "lines_total db' (ox_id x) = amount"
    using new(5) po_subtotal_Inr [OF sub] by (simp add: lines_total_def)
  moreover have "line_books db' l" if "line_books db l \<or> line_books db1 l" for l
    using that by (auto simp: line_books_def db1 new(2))
  ultimately have "books_ok db'"
    using assms(2) fresh o1 new(3,4) by (auto simp: books_ok_def new(1,2))
  then show ?thesis by (auto simp: extends_def new(1))
qed

lemma orders_changed_books:
  assumes "books_ok db" and "pr_orders db' = map f (pr_orders db)" and "pr_lines db' = pr_lines db"
    and "\<And>k. pu_id (f k) = pu_id k \<and> pu_subtotal (f k) = pu_subtotal k \<and> pu_tax (f k) = pu_tax k \<and> pu_total (f k) = pu_total k"
  shows "books_ok db' \<and> extends db db'"
proof -
  have ids: "map pu_id (pr_orders db') = map pu_id (pr_orders db)" using assms(2,4) by simp
  then have "pu_id ` set (pr_orders db') = pu_id ` set (pr_orders db)" by (metis set_map)
  then have "line_books db' = line_books db" by (simp add: fun_eq_iff line_books_def)
  moreover have "lines_total db' = lines_total db" by (simp add: fun_eq_iff lines_total_def assms(3))
  moreover have "distinct (map pu_id (pr_orders db'))" unfolding ids using assms(1) by (simp add: books_ok_def)
  ultimately show ?thesis using assms(1,3,4) by (auto simp: books_ok_def extends_def) (auto simp: assms(2))
qed

lemma same_deal_ids: "same_deal k = same_deal l \<Longrightarrow> ul_id k = ul_id l \<and> ul_qty k = ul_qty l"
  by (metis (no_types, lifting) purchase_order_line.select_convs(1,5) purchase_order_line.surjective purchase_order_line.update_convs(8,9) same_deal_def)

lemma receive_lines_books:
  assumes "books_ok db" and "extends old db" and "pw_lines po = po_lines old i"
    and "receive_purchase_order_with_lines_commit x i is po db = Ok (r, db')" and "distinct (map fst (summary (pr_stock db)))"
  shows "books_ok db' \<and> extends db db'"
proof -
  note f = receive_with_lines_Ok [OF assms(4,5)]
  define g where "g k = (if ul_id k \<in> ul_id ` set (pw_lines po) then filled is k else k)" for k
  have lines: "pr_lines db' = map g (pr_lines db)" using f(3) by (simp add: g_def [abs_def])
  have g: "ul_id (g k) = ul_id k" "ul_po (g k) = ul_po k" "ul_qty (g k) = ul_qty k" "ul_unit_cost (g k) = ul_unit_cost k"
      "ul_total (g k) = ul_total k" "same_deal (g k) = same_deal k" for k
    by (simp_all add: g_def filled_def same_deal_def)
  have ids: "map pu_id (pr_orders db') = map pu_id (pr_orders db)" by (simp add: f(2) mark_received_def)
  then have orders: "pu_id ` set (pr_orders db') = pu_id ` set (pr_orders db)" by (metis set_map)
  have "line_books db' (g k)" if k: "k \<in> set (pr_lines db)" for k
  proof (cases "ul_id k \<in> ul_id ` set (pw_lines po)")
    case True
    then obtain l where l: "l \<in> set (pr_lines old)" "ul_id l = ul_id k" "l \<in> set (pw_lines po)" using assms(3) by (auto simp: po_lines_set)
    then obtain m where m: "m \<in> set (pr_lines db)" "same_deal l = same_deal m" using assms(2) by (force simp: extends_def)
    then have "m = k" using l(2) k assms(1) same_deal_ids [OF m(2)] by (metis books_ok_def distinct_map inj_onD)
    then have "ul_qty l = ul_qty k" using same_deal_ids [OF m(2)] by simp
    moreover have "accounted_for is l" using f(1) l(3) by blast
    moreover have "good_qty is l = good_qty is k" "damaged_qty is l = damaged_qty is k" using l(2) by (simp_all add: good_qty_def damaged_qty_def)
    ultimately show ?thesis using k True assms(1) orders by (auto simp: books_ok_def line_books_def g_def filled_def accounted_for_def)
  next
    case False
    then show ?thesis using k assms(1) orders by (auto simp: books_ok_def line_books_def g_def)
  qed
  moreover have "lines_total db' = lines_total db"
  proof
    fix j
    have "filter (\<lambda>l. ul_po l = j) (map g ls) = map g (filter (\<lambda>l. ul_po l = j) ls)" for ls by (induction ls) (auto simp: g(2))
    then show "lines_total db' j = lines_total db j" by (simp add: lines_total_def lines comp_def g(5))
  qed
  moreover have "map ul_id (pr_lines db') = map ul_id (pr_lines db)" by (simp add: lines g(1))
  moreover have "pu_subtotal k = lines_total db (pu_id k) \<and> pu_total k = pu_subtotal k + pu_tax k" if "k \<in> set (pr_orders db')" for k
    using that assms(1) by (auto simp: f(2) mark_received_def books_ok_def)
  moreover have "distinct (map pu_id (pr_orders db'))" unfolding ids using assms(1) by (simp add: books_ok_def)
  ultimately have "books_ok db'" using assms(1) by (simp add: books_ok_def) (simp add: lines)
  moreover have "same_deal ` set (pr_lines db') = same_deal ` set (pr_lines db)" by (simp add: lines image_image g(6))
  ultimately show ?thesis by (simp add: extends_def)
qed

lemma receive_all_Inr:
  assumes "each (\<lambda>l s. if ul_sku l = [] then Inr s else receive_units x (ul_sku l) (ul_qty l) s) ls (n, db) = Inr (n', db')"
    and "distinct (map fst (summary (pr_stock db)))"
  shows "\<exists>st. db' = db\<lparr>pr_stock := st\<rparr> \<and> brought (\<lambda>p. sum_list (map (\<lambda>l. units_of (pr_stock db) l (ul_qty l) p) ls)) (pr_stock db) st"
  using assms
proof (induction ls arbitrary: n db)
  case Nil
  then show ?case by (auto simp: brought_refl intro: exI [of _ "pr_stock db"])
next
  case (Cons l ls)
  obtain m db1 where 1: "(if ul_sku l = [] then Inr (n, db) else receive_units x (ul_sku l) (ul_qty l) (n, db)) = Inr (m, db1)"
    and 2: "each (\<lambda>l s. if ul_sku l = [] then Inr s else receive_units x (ul_sku l) (ul_qty l) s) ls (m, db1) = Inr (n', db')"
    using Cons.prems(1) by (auto split: sum.splits)
  have "\<exists>st. db1 = db\<lparr>pr_stock := st\<rparr> \<and> brought (units_of (pr_stock db) l (ul_qty l)) (pr_stock db) st"
  proof (cases "ul_sku l = []")
    case True
    then have "units_of (pr_stock db) l (ul_qty l) = (\<lambda>_. 0)" by (simp add: fun_eq_iff units_of_def)
    then show ?thesis using 1 True brought_refl [OF Cons.prems(2)] by (auto intro: exI [of _ "pr_stock db"])
  next
    case False
    then show ?thesis using receive_units_Inr [OF _ Cons.prems(2) False] 1 by simp
  qed
  then obtain st where st: "db1 = db\<lparr>pr_stock := st\<rparr>" "brought (units_of (pr_stock db) l (ul_qty l)) (pr_stock db) st" by blast
  from Cons.IH [OF 2] brought_rows [OF st(2)] obtain st' where st': "db' = db\<lparr>pr_stock := st'\<rparr>"
      "brought (\<lambda>p. sum_list (map (\<lambda>l. units_of st l (ul_qty l) p) ls)) st st'"
    by (auto simp: st(1))
  then show ?case using brought_trans [OF st(2) st'(2)] units_of_brought [OF st(2)] by auto
qed

text \<open>
  Histories keep every state, the newest first; a check may have read any of them. A store that is gone from the
  list is read as the newest.\<close>

datatype po_event =
    Ordered po_args string string string string "string option" "create_po_line_input list"
  | Status_changed nat po_args string string
  | Received_all nat po_args string
  | Received_lines nat po_args string "receive_po_line_input list"

definition seen :: "nat \<Rightarrow> procurement list \<Rightarrow> procurement" where
  "seen k h = (if k < length h then h ! k else hd h)"

definition commit_to :: "procurement list \<Rightarrow> (core_error, 'b \<times> procurement) outcome \<Rightarrow> procurement list" where
  "commit_to h r = (case r of Ok (_, db) \<Rightarrow> db # h | _ \<Rightarrow> h)"

fun po_step :: "po_event \<Rightarrow> procurement list \<Rightarrow> procurement list" where
  "po_step (Ordered x number supplier expected remarks who ls) h =
     commit_to h (of_sum (create_purchase_order x number supplier expected remarks who ls (hd h)))"
| "po_step (Status_changed k x i new_status) h =
     commit_to h (obind (of_sum (update_po_status_check (seen k h) i new_status))
       (\<lambda>current. of_sum (update_po_status_commit x i new_status current (hd h))))"
| "po_step (Received_all k x i) h =
     commit_to h (obind (of_sum (receive_check (seen k h) i)) (\<lambda>po. of_sum (receive_purchase_order_commit x i po (hd h))))"
| "po_step (Received_lines k x i is) h =
     commit_to h (obind (of_sum (receive_check (seen k h) i)) (\<lambda>po. receive_purchase_order_with_lines_commit x i is po (hd h)))"

definition history_ok :: "procurement list \<Rightarrow> bool" where
  "history_ok h \<longleftrightarrow> h \<noteq> [] \<and> books_ok (hd h) \<and> distinct (map fst (summary (pr_stock (hd h)))) \<and> (\<forall>old \<in> set h. extends old (hd h))"

lemma history_commit:
  assumes "history_ok h"
    and "\<And>r db. res = Ok (r, db) \<Longrightarrow> books_ok db \<and> extends (hd h) db \<and> distinct (map fst (summary (pr_stock db)))"
  shows "history_ok (commit_to h res)"
proof (cases res)
  case (Ok a)
  then obtain r db where r: "res = Ok (r, db)" by (cases a) simp
  note new = assms(2) [OF r]
  then have "\<forall>old \<in> set h. extends old db" using assms(1) extends_trans by (auto simp: history_ok_def)
  then show ?thesis using new by (simp add: r commit_to_def history_ok_def extends_refl)
qed (use assms(1) in \<open>simp_all add: commit_to_def\<close>)

lemma seen_old: "h \<noteq> [] \<Longrightarrow> seen k h \<in> set h"
  by (simp add: seen_def)

declare of_sum_Ok [simp]

lemma create_stock:
  assumes "create_purchase_order x number supplier expected remarks who ls db = Inr (r, db')"
  shows "pr_stock db' = pr_stock db"
proof -
  have "each (create_po_line x) ls (c, db1) = Inr (c', db') \<Longrightarrow> pr_stock db' = pr_stock db1" for c c' db1
    by (induction ls arbitrary: c db1)
      (fastforce simp: create_po_line_def insert_po_line_def Let_def split: option.splits if_splits sum.splits)+
  then show ?thesis using assms
    by (fastforce simp: create_purchase_order_def insert_purchase_order_def Let_def split: if_splits sum.splits prod.splits)
qed

lemma history_hd:
  assumes "history_ok h"
  shows "books_ok (hd h)" "distinct (map fst (summary (pr_stock (hd h))))" "extends (seen k h) (hd h)"
  using assms seen_old by (auto simp: history_ok_def)

lemma status_books:
  assumes "update_po_status_commit x i new_status current db = Inr (r, db')" and "books_ok db"
  shows "books_ok db' \<and> extends db db' \<and> pr_stock db' = pr_stock db"
proof -
  define f where "f k = (if pu_id k = i \<and> pu_status k = current then k\<lparr>pu_status := new_status, pu_updated_at := ox_now x\<rparr> else k)" for k :: purchase_order
  have db': "db' = db\<lparr>pr_orders := map f (pr_orders db)\<rparr>"
    using assms(1) by (auto simp: update_po_status_commit_def Let_def f_def [abs_def] split: if_splits option.splits)
  have "books_ok db' \<and> extends db db'" by (rule orders_changed_books [OF assms(2), of _ f]) (simp_all add: db' f_def)
  then show ?thesis by (simp add: db')
qed

lemma receive_all_books:
  assumes "receive_purchase_order_commit x i po db = Inr (r, db')" and "books_ok db" and "distinct (map fst (summary (pr_stock db)))"
  shows "books_ok db' \<and> extends db db'"
    "brought (\<lambda>p. sum_list (map (\<lambda>l. units_of (pr_stock db) l (ul_qty l) p) (pw_lines po))) (pr_stock db) (pr_stock db')"
proof -
  obtain n where run: "each (\<lambda>l s. if ul_sku l = [] then Inr s else receive_units x (ul_sku l) (ul_qty l) s) (pw_lines po) (0, mark_received x i db) = Inr (n, db')"
    using assms(1) by (auto simp: receive_purchase_order_commit_def split: sum.splits)
  have "distinct (map fst (summary (pr_stock (mark_received x i db))))" using assms(3) by (simp add: mark_received_def)
  from receive_all_Inr [OF run this] obtain st where st: "db' = (mark_received x i db)\<lparr>pr_stock := st\<rparr>"
      "brought (\<lambda>p. sum_list (map (\<lambda>l. units_of (pr_stock db) l (ul_qty l) p) (pw_lines po))) (pr_stock db) st"
    by (auto simp: mark_received_def)
  define f where "f k = (if pu_id k = i then k\<lparr>pu_status := ''received'', pu_received_date := Some (ox_now x), pu_updated_at := ox_now x\<rparr> else k)"
    for k :: purchase_order
  have db': "db' = db\<lparr>pr_orders := map f (pr_orders db), pr_stock := st\<rparr>" by (simp add: st(1) mark_received_def f_def [abs_def])
  show "books_ok db' \<and> extends db db'" by (rule orders_changed_books [OF assms(2), of _ f]) (simp_all add: db' f_def)
  show "brought (\<lambda>p. sum_list (map (\<lambda>l. units_of (pr_stock db) l (ul_qty l) p) (pw_lines po))) (pr_stock db) (pr_stock db')"
    using st by simp
qed

lemma po_step_ok:
  assumes h: "history_ok h"
  shows "history_ok (po_step e h)"
proof (cases e)
  case (Ordered x number supplier expected remarks who ls)
  then show ?thesis using create_books [OF _ history_hd(1) [OF h]] create_stock history_hd(2) [OF h]
    by (simp del: of_sum.simps) (rule history_commit [OF h], simp)
next
  case (Status_changed k x i new_status)
  show ?thesis unfolding Status_changed po_step.simps
    by (rule history_commit [OF h]) (auto dest: status_books [OF _ history_hd(1) [OF h]] simp: history_hd(2) [OF h])
next
  case (Received_all k x i)
  show ?thesis unfolding Received_all po_step.simps
    by (rule history_commit [OF h]) (auto dest: receive_all_books [OF _ history_hd(1,2) [OF h]] brought_rows)
next
  case (Received_lines k x i entered)
  show ?thesis unfolding Received_lines po_step.simps
  proof (rule history_commit [OF h])
    fix r db assume "obind (of_sum (receive_check (seen k h) i)) (\<lambda>po. receive_purchase_order_with_lines_commit x i entered po (hd h)) = Ok (r, db)"
    then obtain po where po: "receive_check (seen k h) i = Inr po" "receive_purchase_order_with_lines_commit x i entered po (hd h) = Ok (r, db)"
      by auto
    have "pw_lines po = po_lines (seen k h) i" using receive_check_po [OF po(1)] by simp
    from receive_lines_books [OF history_hd(1,3) [OF h] this po(2) history_hd(2) [OF h]]
    show "books_ok db \<and> extends (hd h) db \<and> distinct (map fst (summary (pr_stock db)))"
      using brought_rows [OF receive_with_lines_Ok(4) [OF po(2) history_hd(2) [OF h]]] by simp
  qed
qed

text \<open>A new install: no orders yet and nothing in stock.\<close>

definition new_procurement :: "stock_store \<Rightarrow> (string \<times> string) list \<Rightarrow> string list \<Rightarrow> procurement" where
  "new_procurement st suppliers users = \<lparr>pr_stock = st\<lparr>summary := []\<rparr>, pr_suppliers = suppliers, pr_users = users, pr_orders = [], pr_lines = []\<rparr>"

interpretation purchasing: machine "[new_procurement st suppliers users]" po_step history_ok for st suppliers users
  by unfold_locales (simp_all add: po_step_ok, simp add: history_ok_def books_ok_def new_procurement_def extends_refl)

text \<open>
  C13. The books of purchasing hold over all histories, with status changes and receipts that checked states as old as
  one likes: the subtotal of every order is the sum of its lines, each the quantity times the unit cost, and no line
  has more units received and damaged than were ordered.\<close>

theorem purchase_books:
  "books_ok (hd (run po_step es [new_procurement st suppliers users]))"
  using purchasing.inv_run [of es st suppliers users] by (simp add: history_ok_def)

subsection \<open>Receipts that count twice\<close>

text \<open>
  The status is checked before the transaction and not asked for by its update: two receipts that both saw the order
  approved both bring its units.\<close>

lemma po_received_twice:
  assumes "receive_check db i = Inr po" and "receive_purchase_order_commit x i po db = Inr (r1, db1)"
    and "receive_purchase_order_commit y i po db1 = Inr (r2, db2)"
    and "books_ok db" and "distinct (map fst (summary (pr_stock db)))"
  shows "stock_total (pr_stock db2) p = stock_total (pr_stock db) p
    + 2 * sum_list (map (\<lambda>l. units_of (pr_stock db) l (ul_qty l) p) (po_lines db i))"
proof -
  note a = receive_all_books [OF assms(2,4,5)]
  have "books_ok db1" using a(1) by blast
  note b = receive_all_books [OF assms(3) this brought_rows [OF a(2)]]
  show ?thesis using a(2) b(2) units_of_brought [OF a(2)] receive_check_po [OF assms(1)] by (simp add: brought_def)
qed

text \<open>A received order can be set back to approved, and then be received again.\<close>

lemma po_reopened:
  assumes "List.find (\<lambda>k. pu_id k = i) (pr_orders db) = Some k" and "pu_status k = ''received''"
  shows "update_po_status_check db i ''approved'' = Inr ''received''"
    "\<exists>r db'. update_po_status_commit x i ''approved'' ''received'' db = Inr (r, db') \<and> receive_check db' i = Inr r \<and> pw_lines r = po_lines db i"
proof -
  show "update_po_status_check db i ''approved'' = Inr ''received''" using assms by (simp add: update_po_status_check_def po_statuses_def)
  define f where "f k = (if pu_id k = i \<and> pu_status k = ''received'' then k\<lparr>pu_status := ''approved'', pu_updated_at := ox_now x\<rparr> else k)"
    for k :: purchase_order
  let ?db = "db\<lparr>pr_orders := map f (pr_orders db)\<rparr>"
  have k: "k \<in> set (pr_orders db)" "pu_id k = i" using assms(1) by (auto simp: find_Some_iff)
  have "List.find (\<lambda>k. pu_id k = i) (map f (pr_orders db)) = Some (f k)"
    using find_map_key [of pu_id f i "pr_orders db"] assms(1) by (simp add: f_def)
  then have get: "get_purchase_order ?db i = Some (with_lines ?db (f k))" by (simp add: get_purchase_order_def)
  have "list_ex (\<lambda>k. pu_id k = i \<and> pu_status k = ''received'') (pr_orders db)" using k assms(2) by (auto simp: list_ex_iff)
  then have "update_po_status_commit x i ''approved'' ''received'' db = Inr (with_lines ?db (f k), ?db)"
    using get by (simp add: update_po_status_commit_def f_def [abs_def] Let_def)
  moreover have "receive_check ?db i = Inr (with_lines ?db (f k))" using get assms(2) k(2) by (simp add: receive_check_def with_lines_def f_def)
  moreover have "pw_lines (with_lines ?db (f k)) = po_lines db i" using k(2) by (simp add: with_lines_def f_def po_lines_def)
  ultimately show "\<exists>r db'. update_po_status_commit x i ''approved'' ''received'' db = Inr (r, db') \<and> receive_check db' i = Inr r \<and> pw_lines r = po_lines db i"
    by blast
qed

text \<open>The sum of received and damaged units is not checked.\<close>

lemma huge_receipt_panics:
  "good_qty is l = i64_max \<Longrightarrow> damaged_qty is l = 1 \<Longrightarrow> receive_po_line x is l (n, db) = Panic"
  by (simp add: receive_po_line_def range_simps)

subsection \<open>An order of tea\<close>

definition tea_order :: procurement where
  "tea_order = \<lparr>pr_stock = plain_shop, pr_suppliers = [(''v'', ''Vendor'')], pr_users = [],
     pr_orders = [\<lparr>pu_id = ''o'', pu_number = ''PO-1'', pu_supplier = ''v'', pu_status = ''approved'', pu_order_date = ''2025'',
       pu_expected_date = '''', pu_received_date = None, pu_subtotal = 50, pu_tax = 0, pu_total = 50, pu_notes = '''',
       pu_created_by = None, pu_created_at = ''2025'', pu_updated_at = ''2025''\<rparr>],
     pr_lines = [\<lparr>ul_id = ''l'', ul_po = ''o'', ul_sku = ''S'', ul_product_name = ''Tea'', ul_qty = 5, ul_unit_cost = 10, ul_total = 50,
       ul_received = 0, ul_damaged = 0\<rparr>]\<rparr>"

definition po_demo_args :: po_args where
  "po_demo_args = \<lparr>ox_id = ''o2'', ox_now = ''2025'', ox_line = (\<lambda>n. ''k''), ox_adjust = (\<lambda>n. \<lparr>aa_movement_id = ''m'', aa_alert_id = ''a'', aa_now = ''2025''\<rparr>)\<rparr>"

definition tea_delivery :: "receive_po_line_input list" where
  "tea_delivery = [\<lparr>vi_line = ''l'', vi_received = 3, vi_damaged = 1\<rparr>]"

definition tea_received :: "purchase_order_with_lines \<times> procurement" where
  "tea_received = (case receive_check tea_order ''o'' of
     Inr po \<Rightarrow> (case receive_purchase_order_with_lines_commit po_demo_args ''o'' tea_delivery po tea_order of Ok r \<Rightarrow> r | _ \<Rightarrow> (po, tea_order)))"

lemma tea_received_run:
  "(case receive_check tea_order ''o'' of
     Inl _ \<Rightarrow> False
   | Inr po \<Rightarrow> (case receive_purchase_order_with_lines_commit po_demo_args ''o'' tea_delivery po tea_order of Ok r \<Rightarrow> True | _ \<Rightarrow> False))"
  by code_simp

theorem purchase_receipt_exact_witness:
  "stock_total (pr_stock (snd tea_received)) ''p'' = stock_total (pr_stock tea_order) ''p'' + 3"
proof -
  obtain po where po: "receive_check tea_order ''o'' = Inr po" using tea_received_run by (auto split: sum.splits)
  then have run: "receive_purchase_order_with_lines_commit po_demo_args ''o'' tea_delivery po tea_order = Ok (fst tea_received, snd tea_received)"
    using tea_received_run by (auto simp: tea_received_def split: outcome.splits)
  have "distinct (map fst (summary (pr_stock tea_order)))" "distinct (map ul_id (pr_lines tea_order))"
    by (simp_all add: tea_order_def plain_shop_def corner_shop_def)
  from purchase_receipt_exact [OF po run this, THEN conjunct1]
  have "stock_total (pr_stock (snd tea_received)) ''p'' = stock_total (pr_stock tea_order) ''p''
      + sum_list (map (\<lambda>l. units_of (pr_stock tea_order) l (good_qty tea_delivery l) ''p'') (po_lines tea_order ''o''))" by blast
  moreover have "sum_list (map (\<lambda>l. units_of (pr_stock tea_order) l (good_qty tea_delivery l) ''p'') (po_lines tea_order ''o'')) = 3"
    by code_simp
  ultimately show ?thesis by simp
qed

end
