(* ===== verification/Spec2Isabelle.thy ===== *)
theory Spec2Isabelle
  imports Sale_Tax Gift_Cards Qris_Payload Sync Module_Kernel Promotion Lan_Replay Resilience
    Stock_Rebuild Refund_Books Receipt_Code Checkout_Facts Stock_Transfers
    Stock_Counts Purchase_Orders
begin

section \<open>A verification library of the point-of-sale core\<close>

text \<open>
  The repository is a point-of-sale system: Rust crates for the domain (money, carts, sales, tax,
  promotions, gift cards), for Indonesian QR payments, for synchronisation between terminals, and a
  kernel that runs the domain modules; shells for desktop, tablet and server sit on top. This
  library models the parts that decide amounts, states and orders of events, and proves what makes
  them correct. Every definition names in its theory the file it translates.

  Parts and how they interact. A cart (\<open>foundation/src/cart.rs\<close>) prices its lines with \<open>Money\<close> and
  \<open>Percentage\<close> (\<open>foundation/src/money.rs\<close>, \<open>percentage.rs\<close>) and becomes a sale
  (\<open>modules/sales/src/models.rs\<close>). The checkout resolves the tax rates that hold at the location and
  day (\<open>crates/kasirmu-core/src/db/tax\<close>), adds the tax to the sale (\<open>db/sales_tax.rs\<close>), lets the
  promotions chosen reduce the total (\<open>promotion_engine.rs\<close>, \<open>db/promotions.rs\<close>) and is paid, among
  others, with a gift card (\<open>db/gift_cards.rs\<close>), a QR code (\<open>crates/qris-core\<close>) or a processor behind
  retries and a circuit breaker (\<open>crates/kasirmu-payment\<close>). Modules learn of a sale through the
  kernel's event bus (\<open>platform/kernel\<close>); other terminals through the synchronisation
  (\<open>platform/sync\<close>) and kitchen screens through the LAN server's replay buffer
  (\<open>crates/kasirmu-lan/src/replay.rs\<close>).

  The theories.
    \<^item> \<open>Prelude\<close>: \<open>i64\<close> ranges and checked operations, truncating division, outcomes that may panic,
      association lists, and the locales \<open>machine\<close> (a state with an invariant that every operation
      keeps), \<open>monotone_machine\<close>, \<open>code\<close>, \<open>strict_code\<close> (encoder and decoder) and \<open>preference\<close> (the
      best of a list, whatever its order).
    \<^item> \<open>Rust_Strings\<close>: strings as lists of UTF-8 bytes, character boundaries and slices, \<open>trim\<close>,
      number parsing and printing.
    \<^item> \<open>Ordered_Map\<close>: \<open>BTreeMap\<close> as a sorted list, and the locale \<open>convergent\<close> of joins whose result
      depends on the set of updates only.
    \<^item> \<open>Money\<close>, \<open>Cart\<close>, \<open>Sale\<close>: amounts, percentages, totals and discounts, the sale made from a cart and
      its life cycle. Totals are exact or refused, never wrapped; the invariant of carts holds after
      any calls; statuses only move forward.
    \<^item> \<open>Tax_Rates\<close>, \<open>Sale_Tax\<close>: the tax-rate tables and every write to them, resolution by location,
      legal entity and day, line tax with its rounding, the tax of a sale and of a cart preview. The
      invariant of the tables, the most specific rate whatever the row order, adding up, and agreement
      of preview and checkout.
    \<^item> \<open>Promotion\<close>: the discount engine against a closed formula, the store with its two-step
      application, and stacking at checkout. Over all histories of both doors a sale has lost what its
      applications record.
    \<^item> \<open>Gift_Cards\<close>: issuing, redeeming, topping up and freezing, each as a check on a possibly stale
      state followed by a transaction; the ledger invariant holds for all interleavings.
    \<^item> \<open>Stock\<close>, \<open>Stock_History\<close>, \<open>Stock_Rebuild\<close>: the ledger of stock movements with the per-location and
      total tables (\<open>db/products_stock_adjust\<close>), adjusting one or many, alerts, the rebuild of the tables
      from the ledger in chunks, archiving. Quantity is conserved and never oversold without permission
      over all histories; a rebuild establishes what the ledger says for its scope and nothing else
      changes.
    \<^item> \<open>Stock_Transfers\<close>: transfers of goods between locations (\<open>db/stock_transfers.rs\<close>) on the stock ledger: creating and
      editing drafts, sending, receiving in parts and cancelling. Over all histories the goods in stock and on the road
      add up.
    \<^item> \<open>Stock_Counts\<close>: physical counts (\<open>db/stock_counts.rs\<close>): their numbers, their lines and the completion, which
      makes the stock what was counted and always succeeds on sound tables.
    \<^item> \<open>Purchase_Orders\<close>: orders to suppliers and the receipt of their goods (\<open>db/purchase_orders.rs\<close>). A receipt
      brings exactly the good units into stock; the books hold over all histories with stale checks.
    \<^item> \<open>Loyalty\<close>: accounts, tiers, the award of points for a sale, redemption as a discount and the
      reversal by refunds (\<open>db/loyalty.rs\<close>). No balance goes negative, awards and redemptions happen once per
      sale, and refunds never take back more than was awarded.
    \<^item> \<open>Offline_Queue\<close>: the queue of local mutations with its outbox payloads, superseding of settings,
      transmit order, and the quarantine of remote items (\<open>db/offline.rs\<close>), which refines a counter per item.
    \<^item> \<open>Refunds\<close>: the transaction of a refund (\<open>db/refunds.rs\<close>) over sales, stock, loyalty, the outbox, the audit log
      and the kitchen orders. The goods of an accepted refund are back in stock.
    \<^item> \<open>Receipt_Code\<close>: the codes of receipts with the index ids they are made of (\<open>db/receipt_code.rs\<close>) and
      the series of statutory numbers (\<open>db/fiscal.rs\<close>). No code is given out twice while \<open>YYMMDD\<close> names one year,
      and numbers count the documents of their period.
    \<^item> \<open>Stock_Routing\<close>, \<open>Checkout\<close>, \<open>Checkout_Facts\<close>: where the goods of a sale come from (\<open>location_resolver.rs\<close>,
      \<open>sale_deduction.rs\<close>, recipes), the transactions of both checkout doors, voiding, the reaper of pending sales and
      payments (\<open>db/sales_checkout.rs\<close>, \<open>db/sales_lifecycle.rs\<close>, \<open>db/payments.rs\<close>). \<open>pos_db\<close> extends the database of
      \<open>Remote_Apply\<close>, so a checkout is the composition of the stock ledger, the receipt codes, the outbox, the loyalty
      accounts and the promotions above. The stock check is exact, a checkout takes what its sale needs, a void gives
      that back, payment keys are used once, and every sale of any history is covered by its payments.
    \<^item> \<open>Setting_Store\<close>: the settings table with the policies of its keys, packages of settings, and the ledger of
      deltas with its retrying writer (\<open>platform/core/src/settings\<close>). No door lets a credential in, packages
      round-trip, and a delta is recorded whenever the database is free for one of the attempts.
    \<^item> \<open>Remote_Apply\<close>, \<open>Replication\<close>: what a terminal does with the items of others (\<open>platform/sync/src/queue.rs\<close>):
      reading the payloads, one operation per action, receipts by item and by effect, the quarantine; and the
      outbox of one terminal together with the pull of another. Effects are applied once, an item that
      fails is contained, protected settings stay, and a replicated refund keeps the same books.
    \<^item> \<open>Refund_Books\<close>: sales and refunds over time, those of other terminals included. No sale is refunded beyond
      its total and no line beyond the units sold, but for sales that another terminal's refund was written for
      or whose total changed: a delivered refund is not checked again.
    \<^item> \<open>Qris_Codec\<close>, \<open>Qris_Payload\<close>: tag-length-value fields, the checksum and what it detects, payloads,
      reading, writing, conversions and the builder; round trips.
    \<^item> \<open>Sync\<close>: Lamport clocks, version vectors, the merge of stock deltas and the conflict resolvers;
      convergence whatever the order and repetition of deliveries.
    \<^item> \<open>Module_Kernel\<close>: the event bus, Kahn's sort of the modules by their dependencies, and the
      life cycle of modules and services, whose hooks are parameters; traces of hook calls are safe.
    \<^item> \<open>Lan_Replay\<close>: the bounded replay buffer refines one list of events.
    \<^item> \<open>Resilience\<close>: error classes, circuit breaker and retry loop; the breaker is characterised by the
      history of its calls.

  Conventions. \<open>i64\<close> values are integers with the range written out, unsigned values are naturals.
  Release builds check overflow, so plain arithmetic that can overflow yields \<open>Panic\<close>. Strings are
  lists of bytes; \<open>Result\<close> is a sum or an \<open>outcome\<close>, \<open>Option\<close> an option. A SQL table is the list of its
  rows, a statement is a function on it, and keys, unique indexes and foreign keys of the schema are
  refusals of the insert. Where the code reads before its transaction the two halves are separate
  definitions and the histories combine them freely. \<open>HashMap\<close> orders are parameters or
  irrelevant by a lemma. UUIDs, clocks, JSON and time-stamp parsing, payment processors, module hooks and
  event handlers are arguments. Loops end by structural recursion, by a measure (\<open>evict\<close>: the number
  of events; \<open>attempt_loop\<close>: the retries left), or are \<open>while\<close> loops proved to end (\<open>kahn_run\<close>: each
  round sorts one more module); no fuel is used. The caps of the replay buffer are those of the code.

  Not modelled: I/O, async scheduling and transports, HTTP and IPC handlers, the shells and the user
  interface, plugin hosting, hardware drivers, migrations, reports; display-only texts of error messages;
  image and floating-point code of the QR crate; manifests of modules. Subscription
  rules, kitchen tickets and permissions are domain code that is not modelled yet.
\<close>

end
